(* ===== verification/Prelude.thy ===== *)
theory Prelude
  imports Main "HOL-Library.Word"
begin

text \<open>
  Shared vocabulary of the development: the bytes and C strings of the programs, the error
  numbers they test, the two ways a process of this code base ends (a normal return or one of
  the fatal error routines of \<^verbatim>\<open>error.c\<close>), the decimal and hexadecimal conversions of
  \<^verbatim>\<open>printf\<close>, and generic facts on lists and digits that several components use.
\<close>

section \<open>Collections of rewrite rules\<close>

named_theorems stream_simps \<open>abstract byte stream of a descriptor\<close>
named_theorems table_simps \<open>client tables of the servers\<close>
named_theorems digit_simps \<open>decimal and hexadecimal digits\<close>

section \<open>Error numbers and the end of a process\<close>

text \<open>The values of \<^verbatim>\<open>errno\<close> that the code distinguishes; every other one is \<open>EOTHER\<close>.\<close>

datatype errno =
    EINTR | EWOULDBLOCK | ECONNABORTED | EPROTO | ECONNRESET | EINPROGRESS
  | EAFNOSUPPORT | ENOSPC | ETIMEDOUT | ECHILD | EBADF | EOTHER nat

text \<open>
  How a process is ended by the code itself: \<^verbatim>\<open>err_sys\<close> (message and the \<^verbatim>\<open>errno\<close> it prints, \<open>None\<close> when the failing test did not set it),
  \<^verbatim>\<open>err_quit\<close>, \<^verbatim>\<open>err_dump\<close>, or a plain \<^verbatim>\<open>exit\<close>.
\<close>

datatype fatal =
    Err_sys string "errno option"
  | Err_quit string
  | Err_dump string "errno option"
  | Exit int

text \<open>
  The outcome of a piece of a program over a state: it returns a value, it ends the process, or
  it is still blocked in a system call when the environment offers no further event.
\<close>

datatype ('a, 'w) outcome = Ret 'a 'w | Die fatal 'w | Blocked 'w

type_synonym ('a, 'w) prog = "'w \<Rightarrow> ('a, 'w) outcome"

definition returnP :: "'a \<Rightarrow> ('a, 'w) prog" where
  "returnP a = (\<lambda>w. Ret a w)"

definition dieP :: "fatal \<Rightarrow> ('a, 'w) prog" where
  "dieP f = (\<lambda>w. Die f w)"

definition bindP :: "('a, 'w) prog \<Rightarrow> ('a \<Rightarrow> ('b, 'w) prog) \<Rightarrow> ('b, 'w) prog" where
  "bindP m k = (\<lambda>w. case m w of Ret a w' \<Rightarrow> k a w' | Die f w' \<Rightarrow> Die f w' | Blocked w' \<Rightarrow> Blocked w')"

lemma bindP_simps [simp]:
  "m w = Ret a w' \<Longrightarrow> bindP m k w = k a w'"
  "m w = Die f w' \<Longrightarrow> bindP m k w = Die f w'"
  "m w = Blocked w' \<Longrightarrow> bindP m k w = Blocked w'"
  by (simp_all add: bindP_def)

lemma bindP_returnP [simp]: "bindP (returnP a) k = k a"
  by (simp add: bindP_def returnP_def)

lemma bindP_dieP [simp]: "bindP (dieP f) k = dieP f"
  by (simp add: bindP_def dieP_def)

lemma bindP_RetE:
  assumes "bindP m k w = Ret b w''"
  obtains a w' where "m w = Ret a w'" and "k a w' = Ret b w''"
  using assms by (auto simp: bindP_def split: outcome.splits)

lemma bindP_cong [fundef_cong]:
  assumes "w = v" and "m v = n v" and "\<And>a w'. n v = Ret a w' \<Longrightarrow> k a w' = h a w'"
  shows "bindP m k w = bindP n h v"
  using assms by (auto simp: bindP_def split: outcome.splits)

text \<open>A program on a part of the state.\<close>

definition zoom :: "('w \<Rightarrow> 's) \<Rightarrow> ('s \<Rightarrow> 'w \<Rightarrow> 'w) \<Rightarrow> ('a, 's) prog \<Rightarrow> ('a, 'w) prog" where
  "zoom g p m w = (case m (g w) of Ret a s \<Rightarrow> Ret a (p s w) | Die f s \<Rightarrow> Die f (p s w) | Blocked s \<Rightarrow> Blocked (p s w))"

fun final_state :: "('a, 'w) outcome \<Rightarrow> 'w" where
  "final_state (Ret a w) = w"
| "final_state (Die f w) = w"
| "final_state (Blocked w) = w"

section \<open>Bytes and C strings\<close>

text \<open>The size of the text buffers.\<close>

definition MAXLINE :: nat where "MAXLINE = 4096"

lemma MAXLINE_pos [simp]: "0 < MAXLINE"
  by (simp add: MAXLINE_def)

type_synonym byte = "8 word"

abbreviation NUL :: char where "NUL \<equiv> CHR 0x00"
abbreviation NL :: char where "NL \<equiv> CHR 0x0A"
abbreviation CR :: char where "CR \<equiv> CHR 0x0D"

text \<open>The C string that starts a character array: everything before the first null byte.\<close>

definition c_str :: "char list \<Rightarrow> char list" where
  "c_str = takeWhile (\<lambda>c. c \<noteq> NUL)"

lemma c_str_id [simp]: "NUL \<notin> set s \<Longrightarrow> c_str s = s"
  by (auto simp: c_str_def takeWhile_eq_all_conv)

lemma c_str_terminated [simp]: "NUL \<notin> set s \<Longrightarrow> c_str (s @ NUL # rest) = s"
  by (auto simp: c_str_def takeWhile_append takeWhile_eq_all_conv)

lemma length_c_str_le: "length (c_str s) \<le> length s"
  by (simp add: c_str_def length_takeWhile_le)

lemma NUL_notin_c_str [simp]: "NUL \<notin> set (c_str s)"
  by (auto simp: c_str_def dest: set_takeWhileD)

section \<open>printf conversions\<close>

text \<open>Digits as the characters \<^verbatim>\<open>printf\<close> writes them.\<close>

definition digit_chars :: "char list" where
  "digit_chars = ''0123456789''"

definition xdigits_l :: "char list" where
  "xdigits_l = ''0123456789abcdef''"

definition xdigits_u :: "char list" where
  "xdigits_u = ''0123456789ABCDEF''"

text \<open>\<^verbatim>\<open>%u\<close> and \<^verbatim>\<open>%x\<close>.\<close>

fun dec_nat :: "nat \<Rightarrow> string" where
  "dec_nat n = (if n < 10 then [digit_chars ! n] else dec_nat (n div 10) @ [digit_chars ! (n mod 10)])"

declare dec_nat.simps [simp del]

fun hex_nat :: "nat \<Rightarrow> string" where
  "hex_nat n = (if n < 16 then [xdigits_l ! n] else hex_nat (n div 16) @ [xdigits_l ! (n mod 16)])"

declare hex_nat.simps [simp del]

text \<open>\<^verbatim>\<open>%d\<close>.\<close>

definition dec_int :: "int \<Rightarrow> string" where
  "dec_int i = (if i < 0 then CHR ''-'' # dec_nat (nat (- i)) else dec_nat (nat i))"

text \<open>
  \<^verbatim>\<open>snprintf(str, sz, ...)\<close> stores at most \<open>sz - 1\<close> characters of the formatted text and
  a null byte: the C string left in the buffer is the truncated text.
\<close>

definition snprintf_str :: "nat \<Rightarrow> string \<Rightarrow> string" where
  "snprintf_str sz s = take (sz - 1) s"

text \<open>\<^verbatim>\<open>strchr(digits, ch) - digits\<close> for a character that is not the null byte.\<close>

fun index_of :: "char \<Rightarrow> char list \<Rightarrow> nat option" where
  "index_of c [] = None"
| "index_of c (x # xs) = (if c = x then Some 0 else map_option Suc (index_of c xs))"

lemma index_of_Some: "index_of c xs = Some i \<Longrightarrow> i < length xs \<and> xs ! i = c"
  by (induction xs arbitrary: i) (auto split: if_splits)

lemma index_of_nth: "distinct xs \<Longrightarrow> i < length xs \<Longrightarrow> index_of (xs ! i) xs = Some i"
proof (induction xs arbitrary: i)
  case Nil
  then show ?case by simp
next
  case (Cons x xs)
  then show ?case by (cases i) auto
qed

lemma index_of_None: "index_of c xs = None \<longleftrightarrow> c \<notin> set xs"
  by (induction xs) auto

lemma distinct_digit_chars [simp]: "distinct digit_chars" "length digit_chars = 10"
  by (simp_all add: digit_chars_def)

lemma distinct_xdigits [simp]:
  "distinct xdigits_l" "length xdigits_l = 16" "distinct xdigits_u" "length xdigits_u = 16"
  by (simp_all add: xdigits_l_def xdigits_u_def)

lemma index_of_digit [digit_simps]: "d < 10 \<Longrightarrow> index_of (digit_chars ! d) digit_chars = Some d"
  by (rule index_of_nth) simp_all

lemma index_of_xdigit [digit_simps]: "d < 16 \<Longrightarrow> index_of (xdigits_l ! d) xdigits_l = Some d"
  by (rule index_of_nth) simp_all

lemma dec_nat_nonempty [simp]: "dec_nat n \<noteq> []"
  by (subst dec_nat.simps) simp

lemma hex_nat_nonempty [simp]: "hex_nat n \<noteq> []"
  by (subst hex_nat.simps) simp

lemma set_dec_nat: "set (dec_nat n) \<subseteq> set digit_chars"
proof (induction n rule: dec_nat.induct)
  case (1 n)
  then show ?case
    by (subst dec_nat.simps) auto
qed

lemma set_hex_nat: "set (hex_nat n) \<subseteq> set xdigits_l"
proof (induction n rule: hex_nat.induct)
  case (1 n)
  then show ?case
    by (subst hex_nat.simps) auto
qed

lemma length_dec_nat_le: "n < 10 ^ Suc k \<Longrightarrow> length (dec_nat n) \<le> Suc k"
proof (induction k arbitrary: n)
  case 0
  then show ?case by (subst dec_nat.simps) simp
next
  case (Suc k)
  then have "n div 10 < 10 ^ Suc k" by (simp add: less_mult_imp_div_less mult.commute)
  from Suc.IH [OF this] show ?case by (subst dec_nat.simps) simp
qed

lemma length_hex_nat_le: "n < 16 ^ Suc k \<Longrightarrow> length (hex_nat n) \<le> Suc k"
proof (induction k arbitrary: n)
  case 0
  then show ?case by (subst hex_nat.simps) simp
next
  case (Suc k)
  then have "n div 16 < 16 ^ Suc k" by (simp add: less_mult_imp_div_less mult.commute)
  from Suc.IH [OF this] show ?case by (subst hex_nat.simps) simp
qed

section \<open>Generic list facts\<close>

text \<open>Storing a block of bytes at a position of a buffer (\<^verbatim>\<open>memcpy(buf + i, xs, n)\<close>).\<close>

definition blit :: "'a list \<Rightarrow> nat \<Rightarrow> 'a list \<Rightarrow> 'a list" where
  "blit buf i xs = take i buf @ xs @ drop (i + length xs) buf"

lemma length_blit [simp]: "i + length xs \<le> length buf \<Longrightarrow> length (blit buf i xs) = length buf"
  by (simp add: blit_def)

lemma take_drop_blit [simp]:
  "i + length xs \<le> length buf \<Longrightarrow> take (length xs) (drop i (blit buf i xs)) = xs"
  by (simp add: blit_def)

lemma blit_0: "blit buf 0 xs = xs @ drop (length xs) buf"
  by (simp add: blit_def)

lemma blit_append: "length a = i \<Longrightarrow> length b = length c \<Longrightarrow> blit (a @ b @ d) i c = a @ c @ d"
  by (simp add: blit_def)

text \<open>Writing into a run of equal bytes.\<close>

lemma blit_run:
  assumes "length a = m" and "m \<le> i" and "i - m + length c \<le> j"
  shows "blit (a @ replicate j z @ d) i c = a @ replicate (i - m) z @ c @ replicate (j - (i - m) - length c) z @ d"
proof -
  have "min (i - m) j = i - m" "i + length c - m = (i - m) + length c" using assms(2,3) by auto
  then show ?thesis using assms by (simp add: blit_def diff_diff_eq add.commute)
qed

text \<open>The first index of a list whose element satisfies a test (a \<^verbatim>\<open>for\<close> loop that breaks).\<close>

fun find_index :: "('a \<Rightarrow> bool) \<Rightarrow> 'a list \<Rightarrow> nat option" where
  "find_index P [] = None"
| "find_index P (x # xs) = (if P x then Some 0 else map_option Suc (find_index P xs))"

lemma find_index_Some:
  "find_index P xs = Some i \<Longrightarrow> i < length xs \<and> P (xs ! i) \<and> (\<forall>j < i. \<not> P (xs ! j))"
proof (induction xs arbitrary: i)
  case Nil
  then show ?case by simp
next
  case (Cons x xs)
  then show ?case
    by (auto split: if_splits simp: less_Suc_eq_0_disj)
qed

lemma find_index_None: "find_index P xs = None \<longleftrightarrow> (\<forall>x \<in> set xs. \<not> P x)"
  by (induction xs) auto

text \<open>Peeling the last element off a prefix and the first off a suffix.\<close>

lemma take_diff_Suc:
  assumes "Suc k \<le> length B"
  shows "take (length B - k) B = take (length B - Suc k) B @ [B ! (length B - Suc k)]"
proof -
  have "length B - k = Suc (length B - Suc k)" using assms by simp
  then show ?thesis using assms by (simp add: take_Suc_conv_app_nth)
qed

lemma drop_diff_Suc:
  assumes "Suc k \<le> length B"
  shows "drop (length B - Suc k) B = B ! (length B - Suc k) # drop (length B - k) B"
proof -
  have "length B - k = Suc (length B - Suc k)" using assms by simp
  then show ?thesis using assms by (simp add: Cons_nth_drop_Suc)
qed

end
