(* ===== verification/Rounding.thy ===== *)
theory Rounding
  imports Prelude Complex_Main "HOL-Library.Log_Nat"
begin

text \<open>
  Binary floating point as the C programs use it: a value is a rational, and the result of an
  operation on \<^verbatim>\<open>float\<close> or \<^verbatim>\<open>double\<close> operands is the exact result rounded to 24 or 53 significant
  bits, to nearest with ties to even. (The programs' values stay far from overflow and underflow, so
  exponents are not bounded.) What the clients rely on is a locale, interpreted on this rounding.
\<close>

section \<open>Rounding to p significant bits\<close>

definition expo :: "rat \<Rightarrow> int" where
  "expo x = (let (a, b) = quotient_of x;
                 e = int (floorlog 2 (nat a)) - int (floorlog 2 (nat b))
             in if 2 powi e \<le> x then e else e - 1)"

definition round_even :: "rat \<Rightarrow> int" where
  "round_even y = (let f = \<lfloor>y\<rfloor>; d = y - of_int f
                   in if d < 1 / 2 then f else if d > 1 / 2 then f + 1 else if even f then f else f + 1)"

definition ulp :: "nat \<Rightarrow> rat \<Rightarrow> rat" where
  "ulp p x = 2 powi (expo x - (int p - 1))"

definition fl :: "nat \<Rightarrow> rat \<Rightarrow> rat" where
  "fl p x = (if x = 0 then 0
             else if 0 < x then of_int (round_even (x / ulp p x)) * ulp p x
             else - (of_int (round_even (- x / ulp p (- x))) * ulp p (- x)))"

section \<open>Laws\<close>

lemma powi2_less: "(2 :: rat) powi a < 2 powi b \<longleftrightarrow> a < b"
  by (metis linorder_not_less one_le_numeral one_less_numeral_iff power_int_increasing power_int_strict_increasing
      semiring_norm(76))

lemma powi2_le: "(2 :: rat) powi a \<le> 2 powi b \<longleftrightarrow> a \<le> b"
  using powi2_less [of b a] by linarith

lemma powi2_pos [simp]: "0 < (2 :: rat) powi a"
  by simp

lemma powi2_add: "(2 :: rat) powi (int n + e) = of_int (2 ^ n) * 2 powi e"
  by (simp add: power_int_add)

lemma floorlog2_nat:
  assumes "0 < a"
  shows "2 powi (int (floorlog 2 (nat a)) - 1) \<le> (of_int a :: rat)" and "(of_int a :: rat) < 2 powi int (floorlog 2 (nat a))"
proof -
  let ?k = "floorlog 2 (nat a)"
  have b: "2 ^ (?k - 1) \<le> nat a" "nat a < 2 ^ ?k" "0 < ?k"
    using floorlog_bounds [of "nat a" 2] assms by (auto simp: floorlog_def)
  have "int ?k - 1 = int (?k - 1)" using b(3) by simp
  moreover have "2 ^ (?k - 1) \<le> a" using b(1) assms by (simp add: le_nat_iff)
  then have "of_int (2 ^ (?k - 1)) \<le> (of_int a :: rat)" by (simp only: of_int_le_iff)
  ultimately show "2 powi (int ?k - 1) \<le> (of_int a :: rat)"
    by (simp only: power_int_of_nat of_int_power of_int_numeral)
  have "a < 2 ^ ?k" using b(2) assms by (simp add: nat_less_iff)
  then have "(of_int a :: rat) < of_int (2 ^ ?k)" by (simp only: of_int_less_iff)
  then show "(of_int a :: rat) < 2 powi int ?k" by simp
qed

lemma expo_bounds:
  assumes "0 < x"
  shows "2 powi expo x \<le> x" and "x < 2 powi (expo x + 1)"
proof -
  obtain a b where q: "quotient_of x = (a, b)" by fastforce
  then have b: "0 < b" and x: "x = of_int a / of_int b"
    using quotient_of_denom_pos quotient_of_div by auto
  then have a: "0 < a" using assms by (simp add: zero_less_divide_iff)
  define k m where "k = int (floorlog 2 (nat a))" and "m = int (floorlog 2 (nat b))"
  note A = floorlog2_nat [OF a, folded k_def] and B = floorlog2_nat [OF b, folded m_def]
  have "x < 2 powi k / 2 powi (m - 1)"
    unfolding x using A B a b by (intro frac_less) auto
  also have "\<dots> = 2 powi (k - m + 1)" by (simp add: power_int_diff [symmetric] algebra_simps)
  finally have up: "x < 2 powi (k - m + 1)" .
  have "2 powi (k - 1) / 2 powi m \<le> x"
    unfolding x using A B a b by (intro frac_le) auto
  then have lo: "2 powi (k - m - 1) \<le> x" by (simp add: power_int_diff [symmetric] algebra_simps)
  have e: "expo x = (if 2 powi (k - m) \<le> x then k - m else k - m - 1)"
    by (simp add: expo_def q k_def m_def)
  show "2 powi expo x \<le> x" "x < 2 powi (expo x + 1)"
    using up lo unfolding e by (auto simp: not_le)
qed

lemma expo_unique:
  assumes "2 powi e \<le> x" and "x < 2 powi (e + 1)"
  shows "expo x = e"
proof -
  have "0 < x" using assms(1) by (rule less_le_trans [rotated]) simp
  from expo_bounds [OF this] assms
  have "(2 :: rat) powi e < 2 powi (expo x + 1)" "(2 :: rat) powi expo x < 2 powi (e + 1)" by linarith+
  then show ?thesis by (simp add: powi2_less)
qed

lemma round_even_int [simp]: "round_even (of_int k) = k"
  by (simp add: round_even_def)

lemma round_even_mono:
  assumes "x \<le> y"
  shows "round_even x \<le> round_even y"
proof (cases "\<lfloor>x\<rfloor> = \<lfloor>y\<rfloor>")
  case True
  with assms show ?thesis by (auto simp: round_even_def Let_def)
next
  case False
  then have "\<lfloor>x\<rfloor> + 1 \<le> \<lfloor>y\<rfloor>" using floor_mono [OF assms] by linarith
  then show ?thesis by (auto simp: round_even_def Let_def)
qed
lemma ulp_pos [simp]: "0 < ulp p x"
  by (simp add: ulp_def)

lemma expo_mono: "0 < x \<Longrightarrow> x \<le> y \<Longrightarrow> expo x \<le> expo y"
  using expo_bounds [of x] expo_bounds [of y] powi2_less [of "expo x" "expo y + 1"] by force

lemma expo_double: "0 < x \<Longrightarrow> expo (2 * x) = expo x + 1"
  using expo_bounds [of x] by (intro expo_unique) (simp_all add: power_int_add)

lemma powi2_ulp: "2 powi (expo x + int k) = of_int (2 ^ (k + p - 1)) * ulp p x" if "0 < p"
  unfolding ulp_def powi2_add [symmetric] using that by (intro arg_cong [where f = "\<lambda>e. 2 powi e"]) linarith

text \<open>The significand lies between \<open>2 ^ (p - 1)\<close> and \<open>2 ^ p\<close>.\<close>

lemma fl_binade:
  assumes "0 < x" and "0 < p"
  shows "2 powi expo x \<le> fl p x" and "fl p x \<le> 2 powi (expo x + 1)"
proof -
  let ?u = "ulp p x"
  have lo: "of_int (2 ^ (p - 1)) \<le> x / ?u"
    using expo_bounds(1) [OF assms(1)] powi2_ulp [OF assms(2), of x 0] by (simp add: pos_le_divide_eq)
  have "x \<le> of_int (2 ^ p) * ?u"
    using expo_bounds(2) [OF assms(1)] powi2_ulp [OF assms(2), of x 1] by simp
  then have hi: "x / ?u \<le> of_int (2 ^ p)" by (simp add: pos_divide_le_eq)
  have "2 ^ (p - 1) \<le> round_even (x / ?u)" "round_even (x / ?u) \<le> 2 ^ p"
    using round_even_mono [OF lo] round_even_mono [OF hi] by (simp_all only: round_even_int)
  moreover have "fl p x = of_int (round_even (x / ?u)) * ?u" using assms(1) by (simp add: fl_def)
  ultimately have "of_int (2 ^ (p - 1)) * ?u \<le> fl p x" "fl p x \<le> of_int (2 ^ p) * ?u"
    using ulp_pos [of p x] by (simp_all only: mult_le_cancel_right_pos of_int_le_iff)
  then show "2 powi expo x \<le> fl p x" "fl p x \<le> 2 powi (expo x + 1)"
    using powi2_ulp [OF assms(2), of x 0] powi2_ulp [OF assms(2), of x 1] by simp_all
qed

lemma fl_pos: "0 < p \<Longrightarrow> 0 < x \<Longrightarrow> 0 < fl p x"
  using fl_binade(1) [of x p] powi2_pos [of "expo x"] by linarith

lemma fl_0: "fl p 0 = 0"
  by (simp add: fl_def)

lemma fl_neg: "fl p (- x) = - fl p x"
  by (simp add: fl_def)

lemma fl_mono_pos:
  assumes "0 < x" and "x \<le> y" and "0 < p"
  shows "fl p x \<le> fl p y"
proof (cases "expo x = expo y")
  case True
  then have "round_even (x / ulp p x) \<le> round_even (y / ulp p x)"
    using assms(2) by (intro round_even_mono divide_right_mono) (simp_all add: less_imp_le)
  with True assms show ?thesis by (simp add: fl_def ulp_def mult_right_mono)
next
  case False
  with expo_mono [OF assms(1,2)] have "(2 :: rat) powi (expo x + 1) \<le> 2 powi expo y" by (simp add: powi2_le)
  with fl_binade(2) [of x p] fl_binade(1) [of y p] assms show ?thesis by linarith
qed

lemma fl_mono:
  assumes "x \<le> y" and "0 < p"
  shows "fl p x \<le> fl p y"
proof -
  consider "0 < x" | "x \<le> 0" "0 \<le> y" | "y < 0" by linarith
  then show ?thesis
  proof cases
    case 1
    then show ?thesis using fl_mono_pos assms by blast
  next
    case 2
    have "0 \<le> fl p z" if "0 \<le> z" for z
      using that fl_pos [OF assms(2), of z] by (cases "z = 0") (auto simp: fl_def)
    from this [of y] this [of "- x"] 2 show ?thesis by (simp add: fl_neg)
  next
    case 3
    then show ?thesis using fl_mono_pos [of "- y" "- x" p] assms by (simp add: fl_neg)
  qed
qed

lemma fl_double: "fl p (2 * x) = 2 * fl p x"
proof -
  have "fl p (2 * x) = 2 * fl p x" if "0 < x" for x
  proof -
    have "ulp p (2 * x) = 2 * ulp p x"
      unfolding ulp_def expo_double [OF that]
      using powi2_add [of 1 "expo x - (int p - 1)"] by (simp add: algebra_simps)
    then show ?thesis using that by (simp add: fl_def)
  qed
  from this [of x] this [of "- x"] show ?thesis
    by (cases x "0 :: rat" rule: linorder_cases) (auto simp: fl_neg fl_0)
qed

text \<open>Multiples of the last place are represented exactly.\<close>

lemma fl_exact: "0 < x \<Longrightarrow> x = of_int k * ulp p x \<Longrightarrow> fl p x = x"
  using ulp_pos [of p x] by (metis fl_def less_irrefl nonzero_mult_div_cancel_right round_even_int)

lemma fl_int:
  assumes "0 < n" and "n < 2 ^ p"
  shows "fl p (of_int n) = of_int n"
proof (cases "p = 0")
  case False
  have x: "0 < (of_int n :: rat)" using assms(1) by simp
  have "(of_int n :: rat) < of_int (2 ^ p)" using assms(2) by (simp only: of_int_less_iff)
  then have "(of_int n :: rat) < 2 powi int p" by simp
  with expo_bounds(1) [OF x] have "expo (of_int n) < int p" using powi2_less [of "expo (of_int n)" "int p"] by linarith
  moreover have "1 \<le> (of_int n :: rat)" using assms(1) by simp
  with expo_bounds(2) [OF x] have "(2 :: rat) powi 0 < 2 powi (expo (of_int n) + 1)" by simp
  then have "0 \<le> expo (of_int n)" unfolding powi2_less by simp
  moreover define k where "k = nat (int p - 1 - expo (of_int n))"
  ultimately have k: "int k = int p - 1 - expo (of_int n)" by simp
  have "1 = of_int (2 ^ k) * ulp p (of_int n)"
    unfolding ulp_def powi2_add [symmetric] using k by simp
  then have "of_int n = of_int (n * 2 ^ k) * ulp p (of_int n)" by (simp add: mult.assoc)
  then show ?thesis using fl_exact x by blast
qed (use assms in simp)

lemma fl_grid:
  assumes "0 < x" and "0 < p" and "p \<le> q"
  shows "fl q (fl p x) = fl p x"
proof -
  let ?f = "fl p x" and ?m = "round_even (x / ulp p x)"
  have f: "?f = of_int ?m * ulp p x" using assms(1) by (simp add: fl_def)
  have u: "ulp p x = of_int (2 ^ (q - p)) * 2 powi (expo x - (int q - 1))"
    unfolding ulp_def powi2_add [symmetric] using assms(3) by (intro arg_cong [where f = "\<lambda>e. 2 powi e"]) linarith
  show ?thesis
  proof (cases "?f = 2 powi (expo x + 1)")
    case True
    then have "expo ?f = expo x + 1" by (intro expo_unique) (simp_all add: powi2_less)
    then have "?f = of_int (2 ^ (q - 1)) * ulp q ?f"
      using powi2_ulp [of q ?f 0] assms True by simp
    then show ?thesis using fl_exact fl_pos assms(1,2) by blast
  next
    case False
    then have "expo ?f = expo x" using fl_binade [OF assms(1,2)] by (intro expo_unique) auto
    then have "?f = of_int (?m * 2 ^ (q - p)) * ulp q ?f"
      using f u by (simp add: ulp_def)
    then show ?thesis using fl_exact fl_pos assms(1,2) by blast
  qed
qed
section \<open>The interface\<close>

text \<open>What a client may assume of rounding to \<open>p\<close> bits.\<close>

locale rounding =
  fixes rnd :: "nat \<Rightarrow> rat \<Rightarrow> rat"
  assumes rnd_mono: "0 < p \<Longrightarrow> x \<le> y \<Longrightarrow> rnd p x \<le> rnd p y"
    and rnd_neg: "rnd p (- x) = - rnd p x"
    and rnd_double: "rnd p (2 * x) = 2 * rnd p x"
    and rnd_grid: "0 < p \<Longrightarrow> p \<le> q \<Longrightarrow> rnd q (rnd p x) = rnd p x"
    and rnd_one: "0 < p \<Longrightarrow> rnd p 1 = 1"
begin

lemma rnd_0 [simp]: "rnd p 0 = 0"
  using rnd_neg [of p 0] by simp

lemma rnd_half: "rnd p (x / 2) = rnd p x / 2"
  using rnd_double [of p "x / 2"] by simp

lemma rnd_nonneg: "0 < p \<Longrightarrow> 0 \<le> x \<Longrightarrow> 0 \<le> rnd p x"
  using rnd_mono [of p 0 x] by simp

lemma rnd_powi2: "0 < p \<Longrightarrow> rnd p (2 powi e) = 2 powi e"
proof (induction e rule: int_induct [of _ 0])
  case (step1 i)
  have "(2 :: rat) powi (i + 1) = 2 * 2 powi i" by (simp add: power_int_add)
  with step1 rnd_double [of p "2 powi i"] show ?case by simp
next
  case (step2 i)
  have e: "(2 :: rat) powi (i - 1) = 2 powi i / 2" by (simp add: power_int_diff)
  show ?case unfolding e rnd_half using step2 by simp
qed (simp add: rnd_one)

lemma rnd_le_double:
  assumes "0 < p" and "0 \<le> x"
  shows "rnd p x \<le> 2 * x"
proof (cases "x = 0")
  case False
  with assms(2) have x: "0 < x" by simp
  have "rnd p x \<le> rnd p (2 powi (expo x + 1))"
    using expo_bounds(2) [OF x] by (intro rnd_mono [OF assms(1)]) simp
  also have "\<dots> = 2 * 2 powi expo x" using rnd_powi2 [OF assms(1)] powi2_add [of 1 "expo x"] by (simp add: add.commute rnd_double)
  also have "\<dots> \<le> 2 * x" using expo_bounds(1) [OF x] by simp
  finally show ?thesis .
qed simp

text \<open>
  An exponentially weighted update \<open>s + d\<close>, computed with \<open>q\<close> bits and stored with \<open>p\<close>, stays in
  \<open>[0, M]\<close> when the increment does not overshoot either end by more than rounding can.
\<close>

lemma rnd_between:
  assumes p: "0 < p" "p \<le> q" and "rnd p s = s" "rnd p M = M" and d: "- s \<le> d" "2 * d \<le> M - s" and "0 \<le> s" "s \<le> M"
  shows "0 \<le> rnd p (rnd q (s + rnd q d))" and "rnd p (rnd q (s + rnd q d)) \<le> M"
proof -
  have q: "0 < q" using p by simp
  have rep: "rnd q s = s" "rnd q M = M"
    using rnd_grid [OF p, of s] rnd_grid [OF p, of M] assms(3,4) by simp_all
  have "- s \<le> rnd q d" using rnd_mono [OF q d(1)] rep(1) by (simp add: rnd_neg)
  then show "0 \<le> rnd p (rnd q (s + rnd q d))" using rnd_nonneg p(1) q by simp
  have "rnd q d \<le> M - s"
  proof (cases "0 \<le> d")
    case True
    with rnd_le_double [OF q] d(2) show ?thesis by (meson order_trans)
  next
    case False
    with rnd_mono [OF q, of d 0] have "rnd q d \<le> 0" by simp
    with assms(8) show ?thesis by simp
  qed
  then have "rnd q (s + rnd q d) \<le> M" using rnd_mono [OF q, of "s + rnd q d" M] rep(2) by simp
  then show "rnd p (rnd q (s + rnd q d)) \<le> M" using rnd_mono [OF p(1)] assms(4) by metis
qed

end

interpretation ieee: rounding fl
proof unfold_locales
  fix p q :: nat and x y :: rat
  show "0 < p \<Longrightarrow> x \<le> y \<Longrightarrow> fl p x \<le> fl p y" by (rule fl_mono)
  show "fl p (- x) = - fl p x" by (rule fl_neg)
  show "fl p (2 * x) = 2 * fl p x" by (rule fl_double)
  show "fl q (fl p x) = fl p x" if "0 < p" "p \<le> q"
    using fl_grid [of x p q] fl_grid [of "- x" p q] that
    by (cases x "0 :: rat" rule: linorder_cases) (auto simp: fl_neg fl_0)
  have "expo 1 = 0" by (rule expo_unique) simp_all
  then show "fl p 1 = 1" if "0 < p" using powi2_ulp [OF that, of 1 0] fl_exact [of 1 "2 ^ (p - 1)" p] by simp
qed

end
