(* ===== verification/Rtt.thy ===== *)
theory Rtt
  imports Rounding
begin

text \<open>
  The retransmission timer of \<^verbatim>\<open>lib/rtt.c\<close> and \<^verbatim>\<open>lib/unprtt.h\<close>: smoothed round-trip time, mean
  deviation, and the timeout computed from them. The \<^verbatim>\<open>float\<close> fields hold values rounded to 24 bits;
  expressions with a \<^verbatim>\<open>double\<close> constant or variable are computed with 53 bits and rounded again by
  the assignment. The clock that \<^verbatim>\<open>Gettimeofday\<close> reads is an argument.
\<close>

section \<open>The timer\<close>

record rtt_info =
  rtt_rtt :: rat
  rtt_srtt :: rat
  rtt_rttvar :: rat
  rtt_rto :: rat
  rtt_nrexmt :: int
  rtt_base :: "32 word"

abbreviation RTT_RXTMIN :: rat where "RTT_RXTMIN \<equiv> 2"
abbreviation RTT_RXTMAX :: rat where "RTT_RXTMAX \<equiv> 60"
abbreviation RTT_MAXNREXMT :: int where "RTT_MAXNREXMT \<equiv> 3"

type_synonym timeval = "int \<times> int"

abbreviation single :: "rat \<Rightarrow> rat" where "single \<equiv> fl 24"
abbreviation dbl :: "rat \<Rightarrow> rat" where "dbl \<equiv> fl 53"

text \<open>\<^verbatim>\<open>RTT_RTOCALC\<close>, in \<^verbatim>\<open>double\<close>; its value becomes the \<^verbatim>\<open>float\<close> argument of \<^verbatim>\<open>rtt_minmax\<close>.\<close>

definition rtt_rtocalc :: "rtt_info \<Rightarrow> rat" where
  "rtt_rtocalc r = single (dbl (rtt_srtt r + dbl (4 * rtt_rttvar r)))"

definition rtt_minmax :: "rat \<Rightarrow> rat" where
  "rtt_minmax rto = (if rto < RTT_RXTMIN then RTT_RXTMIN else if rto > RTT_RXTMAX then RTT_RXTMAX else rto)"

definition rtt_init :: "timeval \<Rightarrow> rtt_info \<Rightarrow> rtt_info" where
  "rtt_init tv r =
     (let r1 = r\<lparr>rtt_base := of_int (fst tv), rtt_rtt := 0, rtt_srtt := 0, rtt_rttvar := 3 / 4\<rparr>
      in r1\<lparr>rtt_rto := rtt_minmax (rtt_rtocalc r1)\<rparr>)"

definition rtt_ts :: "timeval \<Rightarrow> rtt_info \<Rightarrow> 32 word" where
  "rtt_ts tv r = of_int ((fst tv - uint (rtt_base r)) * 1000 + snd tv div 1000)"

definition rtt_newpack :: "rtt_info \<Rightarrow> rtt_info" where
  "rtt_newpack r = r\<lparr>rtt_nrexmt := 0\<rparr>"

definition rtt_start :: "rtt_info \<Rightarrow> int" where
  "rtt_start r = \<lfloor>dbl (rtt_rto r + 1 / 2)\<rfloor>"

text \<open>
  \<^verbatim>\<open>rtt_rtt - rtt_srtt\<close> is a \<^verbatim>\<open>float\<close> subtraction whose result is widened into \<^verbatim>\<open>delta\<close>; the rest of
  the update is in \<^verbatim>\<open>double\<close>.
\<close>

definition rtt_stop :: "rtt_info \<Rightarrow> 32 word \<Rightarrow> rtt_info" where
  "rtt_stop r ms =
     (let rtt = single (dbl (of_nat (unat ms) / 1000));
          delta = single (rtt - rtt_srtt r);
          srtt = single (dbl (rtt_srtt r + dbl (delta / 8)));
          adelta = (if delta < 0 then - delta else delta);
          rttvar = single (dbl (rtt_rttvar r + dbl (dbl (adelta - rtt_rttvar r) / 4)));
          r1 = r\<lparr>rtt_rtt := rtt, rtt_srtt := srtt, rtt_rttvar := rttvar\<rparr>
      in r1\<lparr>rtt_rto := rtt_minmax (rtt_rtocalc r1)\<rparr>)"

text \<open>The result \<open>True\<close> is the return of \<open>-1\<close>: time to give up.\<close>

definition rtt_timeout :: "rtt_info \<Rightarrow> bool \<times> rtt_info" where
  "rtt_timeout r =
     (let r1 = r\<lparr>rtt_rto := single (rtt_rto r * 2), rtt_nrexmt := rtt_nrexmt r + 1\<rparr>
      in (rtt_nrexmt r1 > RTT_MAXNREXMT, r1))"

section \<open>The estimators\<close>

lemma rtt_minmax_range: "RTT_RXTMIN \<le> rtt_minmax x \<and> rtt_minmax x \<le> RTT_RXTMAX"
  by (simp add: rtt_minmax_def)

text \<open>
  The largest \<^verbatim>\<open>float\<close> round-trip time of a measurement of at most \<open>B\<close> milliseconds, and the state
  in which both estimators are in range.
\<close>

definition rtt_of :: "32 word \<Rightarrow> rat" where
  "rtt_of ms = single (dbl (of_nat (unat ms) / 1000))"

definition rtt_ok :: "32 word \<Rightarrow> rtt_info \<Rightarrow> bool" where
  "rtt_ok B r \<longleftrightarrow>
     single (rtt_srtt r) = rtt_srtt r \<and> 0 \<le> rtt_srtt r \<and> rtt_srtt r \<le> rtt_of B \<and>
     single (rtt_rttvar r) = rtt_rttvar r \<and> 0 \<le> rtt_rttvar r \<and> rtt_rttvar r \<le> max (rtt_of B) (3 / 4) \<and>
     single (rtt_rto r) = rtt_rto r \<and> RTT_RXTMIN \<le> rtt_rto r"

lemma rtt_of_rep [simp]: "single (rtt_of B) = rtt_of B"
  by (simp add: rtt_of_def ieee.rnd_grid)

lemma rtt_of_mono: "ms \<le> B \<Longrightarrow> rtt_of ms \<le> rtt_of B"
  unfolding rtt_of_def word_le_nat_alt
  by (intro ieee.rnd_mono divide_right_mono) (simp_all del: of_nat_unat)

lemma rtt_of_nonneg: "0 \<le> rtt_of ms"
  unfolding rtt_of_def by (intro ieee.rnd_nonneg divide_nonneg_nonneg) (simp_all del: of_nat_unat)

lemma single_three_quarters: "single (3 / 4) = 3 / 4"
  using fl_int [of 3 24] ieee.rnd_half [of 24 3] ieee.rnd_half [of 24 "3 / 2"] by simp

lemma single_to_dbl: "single x = x \<Longrightarrow> dbl x = x"
  using ieee.rnd_grid [of 24 53 x] by simp

lemma rtt_minmax_rep: "single x = x \<Longrightarrow> single (rtt_minmax x) = rtt_minmax x"
  using fl_int [of 2 24] fl_int [of 60 24] by (simp add: rtt_minmax_def)

lemma rtt_rtocalc_rep [simp]: "single (rtt_minmax (rtt_rtocalc r)) = rtt_minmax (rtt_rtocalc r)"
  by (rule rtt_minmax_rep) (simp add: rtt_rtocalc_def ieee.rnd_grid)

lemma rtt_ok_init: "rtt_ok B (rtt_init tv r)"
  using rtt_minmax_range rtt_of_nonneg [of B]
  by (simp add: rtt_ok_def rtt_init_def Let_def single_three_quarters fl_0)

text \<open>The rounded difference of two values in \<open>[0, M]\<close>.\<close>

lemma rounded_diff:
  assumes "single s = s" "single M = M" "0 \<le> s" "s \<le> M" "0 \<le> x" "x \<le> M"
  shows "- s \<le> single (x - s)" "single (x - s) \<le> 2 * (M - s)" "\<bar>single (x - s)\<bar> \<le> M"
proof -
  have lo: "- s \<le> single (x - s)"
    using ieee.rnd_mono [of 24 "- s" "x - s"] assms by (simp add: ieee.rnd_neg)
  have "single (x - s) \<le> single (M - s)" using ieee.rnd_mono [of 24] assms by simp
  also have "\<dots> \<le> 2 * (M - s)" using ieee.rnd_le_double [of 24 "M - s"] assms by simp
  finally show "single (x - s) \<le> 2 * (M - s)" .
  have "single (x - s) \<le> M" using ieee.rnd_mono [of 24 "x - s" M] assms by simp
  with lo assms(4) show "- s \<le> single (x - s)" "\<bar>single (x - s)\<bar> \<le> M" by auto
qed

lemma rtt_ok_stop:
  assumes ok: "rtt_ok B r" and ms: "ms \<le> B"
  shows "rtt_ok B (rtt_stop r ms)"
proof -
  define s v where "s = rtt_srtt r" and "v = rtt_rttvar r"
  define d where "d = single (rtt_of ms - s)"
  define K where "K = max (rtt_of B) (3 / 4)"
  have s: "single s = s" "0 \<le> s" "s \<le> rtt_of B" and v: "single v = v" "0 \<le> v" "v \<le> K"
    using ok by (auto simp: rtt_ok_def s_def v_def K_def)
  have d: "- s \<le> d" "d \<le> 2 * (rtt_of B - s)" "\<bar>d\<bar> \<le> rtt_of B"
    using rounded_diff [of s "rtt_of B" "rtt_of ms"] s rtt_of_mono [OF ms] rtt_of_nonneg by (auto simp: d_def)
  have K: "single K = K" "\<bar>d\<bar> \<le> K"
    using d(3) by (auto simp: K_def max_def single_three_quarters)
  have srtt: "0 \<le> single (dbl (s + dbl (d / 8)))" "single (dbl (s + dbl (d / 8))) \<le> rtt_of B"
    using ieee.rnd_between [of 24 53 s "rtt_of B" "d / 8"] s d by simp_all
  define e where "e = dbl (\<bar>d\<bar> - v)"
  have "- v \<le> e"
    using ieee.rnd_mono [of 53 "- v" "\<bar>d\<bar> - v"] single_to_dbl [OF v(1)] by (simp add: e_def ieee.rnd_neg)
  moreover have "e \<le> dbl (K - v)" using ieee.rnd_mono [of 53] K(2) by (simp add: e_def)
  then have "e \<le> 2 * (K - v)" using ieee.rnd_le_double [of 53 "K - v"] v(3) by simp
  ultimately have rttvar: "0 \<le> single (dbl (v + dbl (e / 4)))" "single (dbl (v + dbl (e / 4))) \<le> K"
    using ieee.rnd_between [of 24 53 v K "e / 4"] v K(1) by simp_all
  have "(if d < 0 then - d else d) = \<bar>d\<bar>" by simp
  then have "rtt_stop r ms = (let r1 = r\<lparr>rtt_rtt := rtt_of ms, rtt_srtt := single (dbl (s + dbl (d / 8))),
      rtt_rttvar := single (dbl (v + dbl (e / 4)))\<rparr> in r1\<lparr>rtt_rto := rtt_minmax (rtt_rtocalc r1)\<rparr>)"
    unfolding rtt_stop_def rtt_of_def [symmetric] Let_def s_def [symmetric] v_def [symmetric] d_def [symmetric] e_def
    by (simp only:)
  with srtt rttvar show ?thesis
    using rtt_minmax_range by (simp add: rtt_ok_def Let_def K_def [symmetric] ieee.rnd_grid)
qed
lemma rtt_ok_newpack: "rtt_ok B r \<Longrightarrow> rtt_ok B (rtt_newpack r)"
  by (simp add: rtt_ok_def rtt_newpack_def)

text \<open>Doubling is exact.\<close>

lemma rtt_timeout_exact:
  "single (rtt_rto r) = rtt_rto r \<Longrightarrow>
   rtt_timeout r = (rtt_nrexmt r \<ge> RTT_MAXNREXMT, r\<lparr>rtt_rto := 2 * rtt_rto r, rtt_nrexmt := rtt_nrexmt r + 1\<rparr>)"
  using ieee.rnd_double [of 24 "rtt_rto r"] by (auto simp: rtt_timeout_def Let_def mult.commute)

lemma rtt_ok_timeout: "rtt_ok B r \<Longrightarrow> rtt_ok B (snd (rtt_timeout r))"
  using rtt_timeout_exact [of r] ieee.rnd_double [of 24 "rtt_rto r"] by (auto simp: rtt_ok_def)

text \<open>The range of \<^verbatim>\<open>rto\<close> after an update, and the alarm that it gives.\<close>

lemma rtt_rto_range:
  "2 \<le> rtt_rto (rtt_init tv r) \<and> rtt_rto (rtt_init tv r) \<le> 60"
  "2 \<le> rtt_rto (rtt_stop r ms) \<and> rtt_rto (rtt_stop r ms) \<le> 60"
  using rtt_minmax_range by (simp_all add: rtt_init_def rtt_stop_def Let_def)

lemma dbl_int_half:
  assumes "0 < n" and "n < 1000"
  shows "dbl (of_int n + 1 / 2) = of_int n + 1 / 2"
proof -
  have "dbl (of_int (2 * n + 1)) = of_int (2 * n + 1)" using assms by (intro fl_int) simp_all
  moreover have "of_int n + 1 / 2 = (of_int (2 * n + 1) :: rat) / 2" by simp
  ultimately show ?thesis by (simp only: ieee.rnd_half)
qed

lemma rtt_start_bounds:
  assumes "of_int a \<le> rtt_rto r" "rtt_rto r \<le> of_int b" "0 < a" "b < 1000"
  shows "a \<le> rtt_start r \<and> rtt_start r \<le> b"
proof -
  have "of_int a \<le> (of_int b :: rat)" using assms by linarith
  then have ab: "a \<le> b" by simp
  have "dbl (of_int a + 1 / 2) \<le> dbl (rtt_rto r + 1 / 2)" "dbl (rtt_rto r + 1 / 2) \<le> dbl (of_int b + 1 / 2)"
    using assms by (auto intro: ieee.rnd_mono)
  then have "of_int a + 1 / 2 \<le> dbl (rtt_rto r + 1 / 2)" "dbl (rtt_rto r + 1 / 2) \<le> of_int b + 1 / 2"
    using dbl_int_half [of a] dbl_int_half [of b] assms(3,4) ab by simp_all
  then show ?thesis unfolding rtt_start_def by (auto simp: le_floor_iff floor_le_iff)
qed

section \<open>Properties\<close>

text \<open>States of the timer reached by its operations with measurements of at most \<open>B\<close> milliseconds.\<close>

inductive rtt_run :: "32 word \<Rightarrow> rtt_info \<Rightarrow> bool" for B where
  init: "rtt_run B (rtt_init tv r)"
| newpack: "rtt_run B r \<Longrightarrow> rtt_run B (rtt_newpack r)"
| stop: "rtt_run B r \<Longrightarrow> ms \<le> B \<Longrightarrow> rtt_run B (rtt_stop r ms)"
| timeout: "rtt_run B r \<Longrightarrow> rtt_run B (snd (rtt_timeout r))"

lemma rtt_run_ok: "rtt_run B r \<Longrightarrow> rtt_ok B r"
  by (induction rule: rtt_run.induct)
    (auto intro: rtt_ok_init rtt_ok_newpack rtt_ok_stop rtt_ok_timeout)

text \<open>
  The estimators are stable under floating point rounding. However the timer's operations are
  called, the smoothed round-trip time stays between 0 and the largest measurement, the mean
  deviation between 0 and the larger of that and its initial value 0.75, and the timeout never
  falls below the minimum of 2 seconds.\<close>

theorem rtt_estimators_bounded:
  assumes "rtt_run B r"
  shows "0 \<le> rtt_srtt r \<and> rtt_srtt r \<le> rtt_of B \<and> 0 \<le> rtt_rttvar r \<and> rtt_rttvar r \<le> max (rtt_of B) (3 / 4) \<and>
         RTT_RXTMIN \<le> rtt_rto r"
  using rtt_run_ok [OF assms] by (simp add: rtt_ok_def)

theorem rtt_estimators_bounded_witness:
  "let r = rtt_stop (snd (rtt_timeout (rtt_newpack (rtt_init (1000, 500) \<lparr>rtt_rtt = 0, rtt_srtt = 0, rtt_rttvar = 0,
        rtt_rto = 0, rtt_nrexmt = 0, rtt_base = 0\<rparr>)))) 1500
   in 0 \<le> rtt_srtt r \<and> rtt_srtt r \<le> rtt_of 2000 \<and> 0 \<le> rtt_rttvar r \<and> rtt_rttvar r \<le> max (rtt_of 2000) (3 / 4) \<and>
      RTT_RXTMIN \<le> rtt_rto r"
  unfolding Let_def by (rule rtt_estimators_bounded, intro rtt_run.intros) simp

end
