(* ===== verification/Dg_Send_Recv.thy ===== *)
theory Dg_Send_Recv
  imports Rtt
begin

text \<open>
  The reliable datagram client of \<^verbatim>\<open>rtt/dg_send_recv.c\<close>: a request with a sequence number and a
  timestamp is sent, the timer of \<^verbatim>\<open>Rtt\<close> is started, and the request is sent again on every
  \<^verbatim>\<open>SIGALRM\<close> until a reply with the same sequence number arrives or the timer gives up. The jump out of the
  signal handler is a transition of the waiting state. What the environment does while the process is blocked in
  \<^verbatim>\<open>Recvmsg\<close> is a script of events; the clock and the errors of \<^verbatim>\<open>sendmsg\<close> are functions of the number of
  readings and of datagrams sent.
\<close>

section \<open>The client\<close>

definition le32_bytes :: "32 word \<Rightarrow> byte list" where
  "le32_bytes x = [ucast x, ucast (drop_bit 8 x), ucast (drop_bit 16 x), ucast (drop_bit 24 x)]"

definition le32 :: "byte list \<Rightarrow> 32 word" where
  "le32 b = ucast (b ! 0) + push_bit 8 (ucast (b ! 1)) + push_bit 16 (ucast (b ! 2)) + push_bit 24 (ucast (b ! 3))"

text \<open>\<^verbatim>\<open>struct hdr\<close> as it is in memory, and on the wire.\<close>

definition hdr :: "32 word \<Rightarrow> 32 word \<Rightarrow> byte list" where
  "hdr sq ts = le32_bytes sq @ le32_bytes ts"

text \<open>The static variables of the file, and what the calls did to the outside.\<close>

record dg =
  dg_rttinfo :: rtt_info
  dg_rttinit :: bool
  dg_seq :: "32 word"
  dg_sent :: "byte list list"
  dg_alarms :: "int list"
  dg_clock :: nat

record dg_env =
  env_clock :: "nat \<Rightarrow> timeval"
  env_txerr :: "nat \<Rightarrow> errno option"

datatype dg_event = Dgram "byte list" | Sigalrm | Recv_err errno

definition gettimeofday :: "dg_env \<Rightarrow> (timeval, dg) prog" where
  "gettimeofday env st = Ret (env_clock env (dg_clock st)) (st\<lparr>dg_clock := dg_clock st + 1\<rparr>)"

text \<open>From the label \<^verbatim>\<open>sendagain\<close> to the call of \<^verbatim>\<open>alarm\<close>.\<close>

definition dg_transmit :: "dg_env \<Rightarrow> byte list \<Rightarrow> (unit, dg) prog" where
  "dg_transmit env outbuff =
     bindP (gettimeofday env) (\<lambda>tv st.
       (let ts = rtt_ts tv (dg_rttinfo st)
        in case env_txerr env (length (dg_sent st)) of
             Some e \<Rightarrow> Die (Err_sys ''sendmsg error'' (Some e)) st
           | None \<Rightarrow> Ret () (st\<lparr>dg_sent := dg_sent st @ [hdr (dg_seq st) ts @ outbuff],
                               dg_alarms := dg_alarms st @ [rtt_start (dg_rttinfo st)]\<rparr>)))"

text \<open>
  The \<^verbatim>\<open>do \<dots> while\<close> loop around \<^verbatim>\<open>Recvmsg\<close>, and the code after \<^verbatim>\<open>sigsetjmp\<close> that the handler
  jumps to. \<open>Inl ETIMEDOUT\<close> is the return of \<open>-1\<close>; \<open>Inr\<close> carries the bytes stored in \<^verbatim>\<open>inbuff\<close>.
\<close>

fun dg_wait :: "dg_env \<Rightarrow> byte list \<Rightarrow> nat \<Rightarrow> dg_event list \<Rightarrow> (errno + byte list, dg) prog" where
  "dg_wait env outbuff inbytes [] st = Blocked st"
| "dg_wait env outbuff inbytes (Recv_err e # evs) st = Die (Err_sys ''recvmsg error'' (Some e)) st"
| "dg_wait env outbuff inbytes (Sigalrm # evs) st =
     (let (giveup, r) = rtt_timeout (dg_rttinfo st); st1 = st\<lparr>dg_rttinfo := r\<rparr>
      in if giveup then Ret (Inl ETIMEDOUT) (st1\<lparr>dg_rttinit := False\<rparr>)
         else bindP (dg_transmit env outbuff) (\<lambda>_ w. dg_wait env outbuff inbytes evs w) st1)"
| "dg_wait env outbuff inbytes (Dgram d # evs) st =
     (if length d < 8 \<or> le32 (take 4 d) \<noteq> dg_seq st then dg_wait env outbuff inbytes evs st
      else bindP (gettimeofday env) (\<lambda>tv w.
             Ret (Inr (take inbytes (drop 8 d)))
                 (w\<lparr>dg_rttinfo := rtt_stop (dg_rttinfo w) (rtt_ts tv (dg_rttinfo w) - le32 (take 4 (drop 4 d)))\<rparr>)) st)"

definition dg_init :: "dg_env \<Rightarrow> (unit, dg) prog" where
  "dg_init env st =
     (if dg_rttinit st then Ret () st
      else bindP (gettimeofday env) (\<lambda>tv w.
             Ret () (w\<lparr>dg_rttinfo := rtt_init tv (dg_rttinfo w), dg_rttinit := True\<rparr>)) st)"

definition dg_send_recv :: "dg_env \<Rightarrow> byte list \<Rightarrow> nat \<Rightarrow> dg_event list \<Rightarrow> (errno + byte list, dg) prog" where
  "dg_send_recv env outbuff inbytes evs =
     bindP (dg_init env) (\<lambda>_ st.
       bindP (dg_transmit env outbuff) (\<lambda>_ w. dg_wait env outbuff inbytes evs w)
         (st\<lparr>dg_seq := dg_seq st + 1, dg_rttinfo := rtt_newpack (dg_rttinfo st)\<rparr>))"

definition Dg_send_recv :: "dg_env \<Rightarrow> byte list \<Rightarrow> nat \<Rightarrow> dg_event list \<Rightarrow> (byte list, dg) prog" where
  "Dg_send_recv env outbuff inbytes evs =
     bindP (dg_send_recv env outbuff inbytes evs) (\<lambda>r.
       case r of Inl e \<Rightarrow> dieP (Err_quit ''dg_send_recv error'') | Inr d \<Rightarrow> returnP d)"

section \<open>Number of transmissions\<close>

definition is_request :: "32 word \<Rightarrow> byte list \<Rightarrow> byte list \<Rightarrow> bool" where
  "is_request sq outbuff d \<longleftrightarrow> (\<exists>ts. d = hdr sq ts @ outbuff)"

lemma dg_transmit_cases:
  obtains (fail) e st' where "dg_transmit env outbuff st = Die (Err_sys ''sendmsg error'' (Some e)) st'"
    "dg_sent st' = dg_sent st" "dg_alarms st' = dg_alarms st"
  | (sent) d st' where "dg_transmit env outbuff st = Ret () st'" "is_request (dg_seq st) outbuff d"
    "dg_sent st' = dg_sent st @ [d]" "dg_alarms st' = dg_alarms st @ [rtt_start (dg_rttinfo st)]"
    "dg_seq st' = dg_seq st" "dg_rttinfo st' = dg_rttinfo st" "dg_rttinit st' = dg_rttinit st"
proof (cases "env_txerr env (length (dg_sent st))")
  case None
  let ?d = "hdr (dg_seq st) (rtt_ts (env_clock env (dg_clock st)) (dg_rttinfo st)) @ outbuff"
  show ?thesis
    by (rule sent [where d = ?d and st' = "st\<lparr>dg_clock := Suc (dg_clock st), dg_sent := dg_sent st @ [?d],
          dg_alarms := dg_alarms st @ [rtt_start (dg_rttinfo st)]\<rparr>"])
      (auto simp: dg_transmit_def bindP_def gettimeofday_def Let_def is_request_def None)
next
  case (Some e)
  then show ?thesis
    by (intro fail [of e "st\<lparr>dg_clock := Suc (dg_clock st)\<rparr>"]) (auto simp: dg_transmit_def bindP_def gettimeofday_def Let_def)
qed

text \<open>
  What is true of the end of the wait, started with \<open>k\<close> retransmissions done: at most \<open>3 - k\<close>
  further requests, exactly that many before giving up, and a reply only from a datagram of the
  script with the right sequence number.
\<close>

definition wait_post :: "byte list \<Rightarrow> nat \<Rightarrow> dg_event list \<Rightarrow> nat \<Rightarrow> dg \<Rightarrow> (errno + byte list, dg) outcome \<Rightarrow> bool" where
  "wait_post outbuff inbytes evs n st res \<longleftrightarrow>
     (\<exists>ds. dg_sent (final_state res) = dg_sent st @ ds \<and> length ds \<le> n \<and> list_all (is_request (dg_seq st) outbuff) ds \<and>
       (case res of
          Ret (Inl e) st' \<Rightarrow> e = ETIMEDOUT \<and> length ds = n \<and> \<not> dg_rttinit st'
        | Ret (Inr b) st' \<Rightarrow> dg_rttinit st' = dg_rttinit st \<and>
            (\<exists>d. Dgram d \<in> set evs \<and> 8 \<le> length d \<and> le32 (take 4 d) = dg_seq st \<and> b = take inbytes (drop 8 d))
        | _ \<Rightarrow> True))"

lemma wait_post_mono:
  "wait_post outbuff inbytes evs n st res \<Longrightarrow> wait_post outbuff inbytes (ev # evs) n st res"
  unfolding wait_post_def by (fastforce split: outcome.splits sum.splits)

lemma wait_post_sent:
  assumes "wait_post outbuff inbytes evs n st1 res" and "is_request (dg_seq st) outbuff d"
    and "dg_sent st1 = dg_sent st @ [d]" "dg_seq st1 = dg_seq st" "dg_rttinit st1 = dg_rttinit st"
  shows "wait_post outbuff inbytes evs (Suc n) st res"
proof -
  obtain ds where ds: "dg_sent (final_state res) = dg_sent st1 @ ds" "length ds \<le> n"
    "list_all (is_request (dg_seq st1) outbuff) ds"
    "case res of
          Ret (Inl e) st' \<Rightarrow> e = ETIMEDOUT \<and> length ds = n \<and> \<not> dg_rttinit st'
        | Ret (Inr b) st' \<Rightarrow> dg_rttinit st' = dg_rttinit st1 \<and>
            (\<exists>d. Dgram d \<in> set evs \<and> 8 \<le> length d \<and> le32 (take 4 d) = dg_seq st1 \<and> b = take inbytes (drop 8 d))
        | _ \<Rightarrow> True"
    using assms(1) unfolding wait_post_def by blast
  then show ?thesis
    unfolding wait_post_def using assms(2-) by (intro exI [of _ "d # ds"]) (auto split: outcome.splits sum.splits)
qed

lemma dg_wait_post:
  "rtt_nrexmt (dg_rttinfo st) = int (3 - n) \<Longrightarrow> n \<le> 3 \<Longrightarrow>
   wait_post outbuff inbytes evs n st (dg_wait env outbuff inbytes evs st)"
proof (induction env outbuff inbytes evs st arbitrary: n rule: dg_wait.induct)
  case (3 env outbuff inbytes evs st)
  define r where "r = snd (rtt_timeout (dg_rttinfo st))"
  have t: "rtt_timeout (dg_rttinfo st) = (n = 0, r)" and nr: "rtt_nrexmt r = int (3 - n) + 1"
    using "3.prems" by (auto simp: rtt_timeout_def Let_def r_def)
  show ?case
  proof (cases n)
    case 0
    then show ?thesis by (auto simp: t wait_post_def)
  next
    case (Suc m)
    let ?st = "st\<lparr>dg_rttinfo := r\<rparr>"
    show ?thesis
    proof (cases rule: dg_transmit_cases [where env = env and outbuff = outbuff and st = ?st])
      case (fail e st')
      then show ?thesis by (auto simp: t Suc wait_post_def)
    next
      case (sent d st')
      then have "wait_post outbuff inbytes evs m st' (dg_wait env outbuff inbytes evs st')"
        using "3.IH" [OF t [symmetric] refl refl, of "()" st' m] nr Suc "3.prems" by (auto simp: t)
      then have "wait_post outbuff inbytes evs n st (dg_wait env outbuff inbytes evs st')"
        unfolding Suc by (rule wait_post_sent) (use sent in auto)
      then show ?thesis using sent by (auto simp: t Suc intro: wait_post_mono)
    qed
  qed
next
  case (4 env outbuff inbytes d evs st)
  show ?case
  proof (cases "length d < 8 \<or> le32 (take 4 d) \<noteq> dg_seq st")
    case True
    then show ?thesis using "4.IH" "4.prems" by (auto intro: wait_post_mono)
  next
    case False
    then show ?thesis by (auto simp: bindP_def gettimeofday_def wait_post_def not_less)
  qed
qed (auto simp: wait_post_def)
section \<open>The timeouts\<close>

text \<open>The last \<open>n\<close> bounds of the schedule 60, 120, 240, 480, and alarms within a prefix of it.\<close>

definition sched :: "nat \<Rightarrow> int list" where
  "sched n = map (\<lambda>i. 60 * 2 ^ i) [4 - n..<4]"

definition alarms_within :: "int list \<Rightarrow> int list \<Rightarrow> bool" where
  "alarms_within al bs \<longleftrightarrow> length al \<le> length bs \<and> list_all2 (\<lambda>a b. 2 \<le> a \<and> a \<le> b) al (take (length al) bs)"

lemma sched_Suc: "n < 4 \<Longrightarrow> sched (Suc n) = 60 * 2 ^ (3 - n) # sched n"
  by (simp add: sched_def upt_conv_Cons Suc_diff_Suc Suc_diff_le [symmetric])

lemma within_simps [simp]:
  "alarms_within [] bs" "alarms_within (a # al) (b # bs) \<longleftrightarrow> 2 \<le> a \<and> a \<le> b \<and> alarms_within al bs"
  by (auto simp: alarms_within_def)

definition rto_ok :: "nat \<Rightarrow> rtt_info \<Rightarrow> bool" where
  "rto_ok k r \<longleftrightarrow> single (rtt_rto r) = rtt_rto r \<and> 2 \<le> rtt_rto r \<and> rtt_rto r \<le> 60 * 2 ^ k"

lemma rto_ok_timeout: "rto_ok k r \<Longrightarrow> rto_ok (Suc k) (snd (rtt_timeout r))"
  using ieee.rnd_double [of 24 "rtt_rto r"] by (simp add: rto_ok_def rtt_timeout_exact)

lemma rto_ok_start:
  assumes "rto_ok k r" and "k \<le> 3"
  shows "2 \<le> rtt_start r \<and> rtt_start r \<le> 60 * 2 ^ k"
proof -
  have "(2 :: int) ^ k \<le> 2 ^ 3" using assms(2) by (rule power_increasing) simp
  then show ?thesis using rtt_start_bounds [of 2 r "60 * 2 ^ k"] assms(1) by (simp add: rto_ok_def)
qed

lemma rto_ok_stop: "rto_ok 0 (rtt_stop r ms)"
  using rtt_rto_range(2) [of r ms] by (simp add: rto_ok_def rtt_stop_def Let_def)

lemma rto_ok_init: "rto_ok 0 (rtt_init tv r)"
  using rtt_rto_range(1) [of tv r] by (simp add: rto_ok_def rtt_init_def Let_def)

text \<open>Between calls the timeout is in \<open>[2, 60]\<close> whenever the timer counts as initialised.\<close>

definition dg_ok :: "dg \<Rightarrow> bool" where
  "dg_ok st \<longleftrightarrow> (dg_rttinit st \<longrightarrow> rto_ok 0 (dg_rttinfo st))"

definition ret_ok :: "('a, dg) outcome \<Rightarrow> bool" where
  "ret_ok res = (case res of Ret a st \<Rightarrow> dg_ok st | _ \<Rightarrow> True)"

lemma dg_wait_alarms:
  "rtt_nrexmt (dg_rttinfo st) = int (3 - n) \<Longrightarrow> n \<le> 3 \<Longrightarrow> rto_ok (3 - n) (dg_rttinfo st) \<Longrightarrow>
   \<exists>al. dg_alarms (final_state (dg_wait env outbuff inbytes evs st)) = dg_alarms st @ al \<and> alarms_within al (sched n) \<and>
        ret_ok (dg_wait env outbuff inbytes evs st)"
proof (induction env outbuff inbytes evs st arbitrary: n rule: dg_wait.induct)
  case (3 env outbuff inbytes evs st)
  define r where "r = snd (rtt_timeout (dg_rttinfo st))"
  have t: "rtt_timeout (dg_rttinfo st) = (n = 0, r)" and nr: "rtt_nrexmt r = int (3 - n) + 1"
    using "3.prems" by (auto simp: rtt_timeout_def Let_def r_def)
  have ok: "rto_ok (Suc (3 - n)) r" using rto_ok_timeout "3.prems"(3) by (simp add: r_def)
  show ?case
  proof (cases n)
    case 0
    then show ?thesis by (simp add: t ret_ok_def dg_ok_def)
  next
    case (Suc m)
    then have k: "Suc (3 - n) = 3 - m" using "3.prems"(2) by simp
    let ?st = "st\<lparr>dg_rttinfo := r\<rparr>"
    show ?thesis
    proof (cases rule: dg_transmit_cases [where env = env and outbuff = outbuff and st = ?st])
      case (fail e st')
      then show ?thesis by (simp add: t Suc ret_ok_def)
    next
      case (sent d st')
      then obtain al where "dg_alarms (final_state (dg_wait env outbuff inbytes evs st')) = dg_alarms st' @ al"
        "alarms_within al (sched m)" "ret_ok (dg_wait env outbuff inbytes evs st')"
        using "3.IH" [OF t [symmetric] refl refl, of "()" st' m] nr Suc "3.prems" ok k by (auto simp: t)
      moreover have "alarms_within (rtt_start r # al) (sched n)"
        using calculation(2) rto_ok_start [of "3 - m" r] ok k Suc "3.prems"(2) by (simp add: sched_Suc)
      ultimately show ?thesis using sent by (auto simp: t Suc)
    qed
  qed
next
  case (4 env outbuff inbytes d evs st)
  show ?case
  proof (cases "length d < 8 \<or> le32 (take 4 d) \<noteq> dg_seq st")
    case True
    then show ?thesis using "4.IH" "4.prems" by auto
  next
    case False
    then show ?thesis by (simp add: bindP_def gettimeofday_def ret_ok_def dg_ok_def rto_ok_stop)
  qed
qed (simp_all add: ret_ok_def)

text \<open>A script with enough alarms: the wait ends.\<close>

lemma dg_wait_ends:
  "rtt_nrexmt (dg_rttinfo st) = int (3 - n) \<Longrightarrow> n \<le> 3 \<Longrightarrow> n < length (filter (\<lambda>ev. ev = Sigalrm) evs) \<Longrightarrow>
   \<not> (\<exists>st'. dg_wait env outbuff inbytes evs st = Blocked st')"
proof (induction env outbuff inbytes evs st arbitrary: n rule: dg_wait.induct)
  case (3 env outbuff inbytes evs st)
  define r where "r = snd (rtt_timeout (dg_rttinfo st))"
  have t: "rtt_timeout (dg_rttinfo st) = (n = 0, r)" and nr: "rtt_nrexmt r = int (3 - n) + 1"
    using "3.prems" by (auto simp: rtt_timeout_def Let_def r_def)
  show ?case
  proof (cases n)
    case 0
    then show ?thesis by (simp add: t)
  next
    case (Suc m)
    let ?st = "st\<lparr>dg_rttinfo := r\<rparr>"
    show ?thesis
    proof (cases rule: dg_transmit_cases [where env = env and outbuff = outbuff and st = ?st])
      case (fail e st')
      then show ?thesis by (simp add: t Suc)
    next
      case (sent d st')
      then have "\<not> (\<exists>st2. dg_wait env outbuff inbytes evs st' = Blocked st2)"
        using "3.IH" [OF t [symmetric] refl refl, of "()" st' m] nr Suc "3.prems" by (auto simp: t)
      then show ?thesis using sent by (simp add: t Suc)
    qed
  qed
next
  case (4 env outbuff inbytes d evs st)
  then show ?case
    by (cases "length d < 8 \<or> le32 (take 4 d) \<noteq> dg_seq st") (auto simp: bindP_def gettimeofday_def)
qed simp_all
section \<open>A whole call\<close>

lemma dg_init_ok:
  assumes "dg_ok st"
  obtains st' where "dg_init env st = Ret () st'" "rto_ok 0 (dg_rttinfo st')" "dg_sent st' = dg_sent st"
    "dg_alarms st' = dg_alarms st" "dg_seq st' = dg_seq st" "dg_rttinit st'"
proof (cases "dg_rttinit st")
  case True
  with assms that show ?thesis by (simp add: dg_init_def dg_ok_def)
next
  case False
  let ?st = "st\<lparr>dg_clock := Suc (dg_clock st), dg_rttinfo := rtt_init (env_clock env (dg_clock st)) (dg_rttinfo st),
               dg_rttinit := True\<rparr>"
  from False show ?thesis
    by (intro that [of ?st]) (auto simp: dg_init_def bindP_def gettimeofday_def rto_ok_init)
qed

lemma dg_send_recv_cases:
  assumes "dg_ok st"
  obtains (fail) e st' where "dg_send_recv env outbuff inbytes evs st = Die (Err_sys ''sendmsg error'' (Some e)) st'"
    "dg_sent st' = dg_sent st" "dg_alarms st' = dg_alarms st"
  | (sent) d a st' where "dg_send_recv env outbuff inbytes evs st = dg_wait env outbuff inbytes evs st'"
    "is_request (dg_seq st + 1) outbuff d" "dg_sent st' = dg_sent st @ [d]" "dg_alarms st' = dg_alarms st @ [a]"
    "2 \<le> a" "a \<le> 60" "dg_seq st' = dg_seq st + 1" "dg_rttinit st'" "rtt_nrexmt (dg_rttinfo st') = int (3 - 3)"
    "rto_ok 0 (dg_rttinfo st')"
proof -
  obtain st0 where i: "dg_init env st = Ret () st0" "rto_ok 0 (dg_rttinfo st0)" "dg_sent st0 = dg_sent st"
    "dg_alarms st0 = dg_alarms st" "dg_seq st0 = dg_seq st" "dg_rttinit st0"
    using dg_init_ok [OF assms] .
  let ?st = "st0\<lparr>dg_seq := dg_seq st0 + 1, dg_rttinfo := rtt_newpack (dg_rttinfo st0)\<rparr>"
  have ok: "rto_ok 0 (rtt_newpack (dg_rttinfo st0))" using i(2) by (simp add: rto_ok_def rtt_newpack_def)
  show ?thesis
  proof (cases rule: dg_transmit_cases [where env = env and outbuff = outbuff and st = ?st])
    case (fail e st')
    with i show ?thesis by (intro that(1) [of e st']) (auto simp: dg_send_recv_def)
  next
    case (sent d st')
    have "rtt_nrexmt (rtt_newpack r) = 0" for r by (simp add: rtt_newpack_def)
    with sent i ok rto_ok_start [OF ok] show ?thesis
      by (intro that(2) [of st' d "rtt_start (rtt_newpack (dg_rttinfo st0))"]) (auto simp: dg_send_recv_def)
  qed
qed

section \<open>Properties\<close>

text \<open>
  C5. What one call of \<^verbatim>\<open>dg_send_recv\<close> does, for every clock, every sequence of arriving datagrams,
  alarms and errors. It sends at most four datagrams, each the header with the new sequence
  number followed by the caller's data. It reports a timeout only after the fourth went
  unanswered. Data it returns comes from a datagram with that sequence number, truncated to the
  caller's buffer. The alarms are at least 2 seconds and at most 60, 120, 240 and 480, and the
  timer is within its limits again when the call returns.\<close>

theorem dg_send_recv_correct:
  assumes "dg_ok st"
  shows "wait_post outbuff inbytes evs 4 (st\<lparr>dg_seq := dg_seq st + 1, dg_rttinit := True\<rparr>)
           (dg_send_recv env outbuff inbytes evs st) \<and>
         (\<exists>al. dg_alarms (final_state (dg_send_recv env outbuff inbytes evs st)) = dg_alarms st @ al \<and>
               alarms_within al (sched 4)) \<and>
         ret_ok (dg_send_recv env outbuff inbytes evs st)"
  using assms
proof (cases rule: dg_send_recv_cases [where env = env and outbuff = outbuff and inbytes = inbytes and evs = evs])
  case (fail e st')
  then show ?thesis by (auto simp: wait_post_def ret_ok_def)
next
  case (sent d a st')
  have "wait_post outbuff inbytes evs 3 st' (dg_wait env outbuff inbytes evs st')"
    using dg_wait_post [of st' 3] sent by simp
  then have "wait_post outbuff inbytes evs (Suc 3) (st\<lparr>dg_seq := dg_seq st + 1, dg_rttinit := True\<rparr>)
      (dg_wait env outbuff inbytes evs st')"
    by (rule wait_post_sent) (use sent in auto)
  moreover obtain al where "dg_alarms (final_state (dg_wait env outbuff inbytes evs st')) = dg_alarms st' @ al"
    "alarms_within al (sched 3)" "ret_ok (dg_wait env outbuff inbytes evs st')"
    using dg_wait_alarms [of st' 3 env outbuff inbytes evs] sent by auto
  moreover have "alarms_within (a # al) (sched 4)"
    using calculation(3) sched_Suc [of 3] sent by (simp add: numeral_eq_Suc)
  ultimately show ?thesis using sent by auto
qed

definition dg_start :: dg where
  "dg_start = \<lparr>dg_rttinfo = \<lparr>rtt_rtt = 0, rtt_srtt = 0, rtt_rttvar = 0, rtt_rto = 0, rtt_nrexmt = 0, rtt_base = 0\<rparr>,
               dg_rttinit = False, dg_seq = 0, dg_sent = [], dg_alarms = [], dg_clock = 0\<rparr>"

lemma dg_ok_start: "dg_ok dg_start"
  by (simp add: dg_ok_def dg_start_def)

theorem dg_send_recv_correct_witness:
  "\<forall>env. wait_post [1, 2] 10 [Sigalrm, Dgram (hdr 1 7 @ [1, 2])] 4 (dg_start\<lparr>dg_seq := dg_seq dg_start + 1, dg_rttinit := True\<rparr>)
      (dg_send_recv env [1, 2] 10 [Sigalrm, Dgram (hdr 1 7 @ [1, 2])] dg_start) \<and>
    (\<exists>al. dg_alarms (final_state (dg_send_recv env [1, 2] 10 [Sigalrm, Dgram (hdr 1 7 @ [1, 2])] dg_start)) =
            dg_alarms dg_start @ al \<and> alarms_within al (sched 4)) \<and>
    ret_ok (dg_send_recv env [1, 2] 10 [Sigalrm, Dgram (hdr 1 7 @ [1, 2])] dg_start)"
  by (intro allI dg_send_recv_correct dg_ok_start)

text \<open>
  The call ends: four alarms among the events are enough, whatever else arrives, since every
  alarm counts as a retransmission and the fourth gives up.\<close>

theorem dg_send_recv_ends:
  assumes "dg_ok st" and "4 \<le> length (filter (\<lambda>ev. ev = Sigalrm) evs)"
  shows "\<not> (\<exists>st'. dg_send_recv env outbuff inbytes evs st = Blocked st')"
  using assms(1)
proof (cases rule: dg_send_recv_cases [where env = env and outbuff = outbuff and inbytes = inbytes and evs = evs])
  case (sent d a st')
  then show ?thesis using dg_wait_ends [of st' 3 evs] assms(2) by simp
qed simp

theorem dg_send_recv_ends_witness:
  "\<forall>env. \<not> (\<exists>st'. dg_send_recv env [1] 10 [Sigalrm, Dgram [0], Sigalrm, Sigalrm, Sigalrm] dg_start = Blocked st')"
  using dg_send_recv_ends [OF dg_ok_start, of "[Sigalrm, Dgram [0], Sigalrm, Sigalrm, Sigalrm]"] by simp

text \<open>
  The maximum \<^verbatim>\<open>RTT_RXTMAX\<close> of 60 seconds is not a bound on the timeouts: it is applied to a
  new estimate only, and the doubling of \<^verbatim>\<open>rtt_timeout\<close> is not clamped. A call that starts with a
  timeout of 60 seconds and is never answered waits 60, 120, 240 and 480 seconds.\<close>

theorem dg_send_recv_backoff_unclamped:
  assumes "dg_rttinit st" and "rtt_rto (dg_rttinfo st) = 60"
  shows "\<exists>st'. dg_send_recv \<lparr>env_clock = clk, env_txerr = (\<lambda>_. None)\<rparr> outbuff inbytes [Sigalrm, Sigalrm, Sigalrm, Sigalrm] st
               = Ret (Inl ETIMEDOUT) st' \<and> dg_alarms st' = dg_alarms st @ [60, 120, 240, 480]"
proof -
  have rep: "single (of_int n) = of_int n" if "n \<in> {60, 120, 240, 480}" for n
    using that by (intro fl_int) auto
  have "rtt_start r = n" if "rtt_rto r = of_int n" "n \<in> {60, 120, 240, 480}" for r n
    using rtt_start_bounds [of n r n] that by auto
  from this [of _ 60] this [of _ 120] this [of _ 240] this [of _ 480] show ?thesis
    using assms rep [of 60] rep [of 120] rep [of 240] rep [of 480]
    by (simp add: dg_send_recv_def dg_init_def dg_transmit_def gettimeofday_def bindP_def rtt_newpack_def Let_def
        rtt_timeout_def)
qed

theorem dg_send_recv_backoff_unclamped_witness:
  "let st = dg_start\<lparr>dg_rttinit := True, dg_rttinfo := (dg_rttinfo dg_start)\<lparr>rtt_rto := 60\<rparr>\<rparr>
   in \<exists>st'. dg_send_recv \<lparr>env_clock = (\<lambda>_. (0, 0)), env_txerr = (\<lambda>_. None)\<rparr> [1] 10 [Sigalrm, Sigalrm, Sigalrm, Sigalrm] st
            = Ret (Inl ETIMEDOUT) st' \<and> dg_alarms st' = dg_alarms st @ [60, 120, 240, 480]"
  unfolding Let_def by (rule dg_send_recv_backoff_unclamped) simp_all

end
