(* ===== verification/In_Cksum.thy ===== *)
theory In_Cksum
  imports Prelude
begin

text \<open>
  The Internet checksum of \<^verbatim>\<open>libfree/in_cksum.c\<close>, used by the ping, traceroute and raw UDP
  programs. Memory is a list of bytes; 16-bit words are read and stored with the low byte first,
  as on the machines the code is built for. The result is characterised as the complement of the
  one's complement sum, and a packet that carries its checksum is shown to check to 0.
\<close>

unbundle bit_operations_syntax

section \<open>in\_cksum\<close>

text \<open>\<^verbatim>\<open>*w\<close> for a pointer to \<^verbatim>\<open>uint16_t\<close>, and the bytes that a store of such a value writes.\<close>

definition le16 :: "byte \<Rightarrow> byte \<Rightarrow> 16 word" where
  "le16 a b = ucast a + push_bit 8 (ucast b)"

definition le16_bytes :: "16 word \<Rightarrow> byte list" where
  "le16_bytes x = [ucast x, ucast (drop_bit 8 x)]"

text \<open>
  The \<^verbatim>\<open>while (nleft > 1)\<close> loop and the odd byte: \<^verbatim>\<open>answer\<close> is 0 before its first byte is
  overwritten. The 32-bit accumulator wraps.
\<close>

fun cksum_loop :: "byte list \<Rightarrow> 32 word \<Rightarrow> 32 word" where
  "cksum_loop (a # b # w) sm = cksum_loop w (sm + ucast (le16 a b))"
| "cksum_loop [a] sm = sm + ucast (le16 a 0)"
| "cksum_loop [] sm = sm"

definition cksum_fold :: "32 word \<Rightarrow> 32 word" where
  "cksum_fold sm = (let s1 = drop_bit 16 sm + (sm AND 0xffff) in s1 + drop_bit 16 s1)"

definition in_cksum :: "byte list \<Rightarrow> 16 word" where
  "in_cksum addr = ucast (NOT (cksum_fold (cksum_loop addr 0)))"

section \<open>The one's complement sum\<close>

fun word_sum :: "byte list \<Rightarrow> nat" where
  "word_sum (a # b # w) = unat a + 256 * unat b + word_sum w"
| "word_sum [a] = unat a"
| "word_sum [] = 0"

text \<open>Reduction modulo \<open>2 ^ 16 - 1\<close> into the representatives \<open>1, \<dots>, 65535\<close>, with 0 only for 0.\<close>

definition ones_compl :: "nat \<Rightarrow> nat" where
  "ones_compl s = (if s = 0 then 0 else (s - 1) mod 65535 + 1)"

lemma unat_le16: "unat (le16 a b) = unat a + 256 * unat b"
proof -
  have "unat a < 256" "unat b < 256"
    using unsigned_less [of a, where ?'a = nat] unsigned_less [of b, where ?'a = nat] by simp_all
  then show ?thesis
    by (simp add: le16_def unat_word_ariths unsigned_ucast_eq unsigned_push_bit_eq push_bit_eq_mult take_bit_nat_eq_self
        take_bit_eq_mod)
qed

lemma unat_drop_bit: "unat (drop_bit n x) = unat (x :: 'a :: len word) div 2 ^ n"
  by (simp only: unsigned_drop_bit_eq)
    (simp add: drop_bit_eq_div take_bit_nat_eq_self unsigned_less)

lemma unat_NOT: "unat (NOT x) = 2 ^ LENGTH('a) - 1 - unat (x :: 'a :: len word)"
proof -
  have "NOT x = - 1 - x" by (simp add: not_eq_complement)
  then show ?thesis by (simp add: unat_sub unsigned_minus_1_eq_mask mask_eq_exp_minus_1)
qed

lemma word_sum_le: "word_sum w \<le> 65535 * (Suc (length w) div 2)"
proof (induction w rule: word_sum.induct)
  case (1 a b w)
  then show ?case
    using unsigned_less [of a, where ?'a = nat] unsigned_less [of b, where ?'a = nat] by simp
next
  case (2 a)
  then show ?case using unsigned_less [of a, where ?'a = nat] by simp
qed simp

lemma unat_cksum_loop:
  "unat sm + word_sum w < 2 ^ 32 \<Longrightarrow> unat (cksum_loop w sm) = unat sm + word_sum w"
proof (induction w sm rule: cksum_loop.induct)
  case (1 a b w sm)
  have "unat (sm + ucast (le16 a b)) = unat sm + (unat a + 256 * unat b)"
    using "1.prems" by (simp add: unat_word_ariths unsigned_ucast_eq unat_le16 take_bit_nat_eq_self)
  with 1 show ?case by simp
next
  case (2 a sm)
  then show ?case
    by (simp add: unat_word_ariths unsigned_ucast_eq unat_le16 take_bit_nat_eq_self)
qed simp

lemma fold_nat:
  assumes "n < 4294967296"
  shows "let s = n div 65536 + n mod 65536 in (s + s div 65536) mod 65536 = ones_compl n"
proof -
  define h s where "h = n div 65536" and "s = n div 65536 + n mod 65536"
  have "n mod 65536 < 65536" by simp
  then have n: "n = 65535 * h + s" and s: "s \<le> 131070" using assms by (auto simp: h_def s_def)
  have red: "ones_compl n = (s - 1) mod 65535 + 1" if "0 < s"
  proof -
    have "n - 1 = (s - 1) + 65535 * h" using n that by simp
    then show ?thesis using that n by (simp only: ones_compl_def mod_mult_self2) simp
  qed
  consider "s = 0" | "0 < s" "s < 65536" | "65536 \<le> s" by linarith
  then have "(s + s div 65536) mod 65536 = ones_compl n"
  proof cases
    case 1
    then have "h = 0" by (simp add: s_def h_def)
    with 1 n show ?thesis by (simp add: ones_compl_def)
  next
    case 2
    with red show ?thesis by simp
  next
    case 3
    with s have "s div 65536 = 1" "(s - 1) mod 65535 = s - 1 - 65535" "(s + 1) mod 65536 = s + 1 - 65536"
      by (auto simp: div_nat_eqI mod_nat_eqI le_mod_geq)
    with red 3 show ?thesis by simp
  qed
  then show ?thesis by (simp add: s_def Let_def)
qed

lemma unat_fold: "unat (cksum_fold sm) mod 65536 = ones_compl (unat sm)"
proof -
  let ?n = "unat sm"
  have n: "?n < 4294967296" using unsigned_less [of sm, where ?'a = nat] by simp
  have "sm AND 0xffff = take_bit 16 sm" by (simp add: take_bit_eq_mask mask_eq_exp_minus_1)
  then have lo: "unat (sm AND 0xffff) = ?n mod 65536"
    by (simp only: unsigned_take_bit_eq) (simp add: take_bit_eq_mod)
  have hi: "unat (drop_bit 16 x) = unat x div 65536" for x :: "32 word"
    by (simp add: unat_drop_bit)
  define s where "s = drop_bit 16 sm + (sm AND 0xffff)"
  have s: "unat s = ?n div 65536 + ?n mod 65536"
    using n by (simp add: s_def unat_word_ariths lo hi)
  have "unat (cksum_fold sm) = unat s + unat s div 65536"
    using n by (simp add: cksum_fold_def s_def [symmetric] unat_word_ariths hi s)
  then show ?thesis
    using fold_nat [OF n] s by (simp add: Let_def)
qed

lemma unat_in_cksum:
  assumes "length w \<le> 65535"
  shows "unat (in_cksum w) = 65535 - ones_compl (word_sum w)"
proof -
  have "Suc (length w) div 2 \<le> 32768" using assms by linarith
  with word_sum_le [of w] have "word_sum w \<le> 65535 * 32768" by linarith
  then have "unat (cksum_loop w 0) = word_sum w" using unat_cksum_loop [of 0 w] by simp
  then have "unat (ucast (cksum_fold (cksum_loop w 0)) :: 16 word) = ones_compl (word_sum w)"
    using unat_fold [of "cksum_loop w 0"] by (simp add: unsigned_ucast_eq take_bit_eq_mod)
  moreover have "in_cksum w = NOT (ucast (cksum_fold (cksum_loop w 0)))"
    by (auto simp: in_cksum_def bit_simps intro: bit_word_eqI)
  ultimately show ?thesis by (simp add: unat_NOT)
qed
text \<open>A checksum field filled in.\<close>

lemma word_sum_append: "even (length u) \<Longrightarrow> word_sum (u @ v) = word_sum u + word_sum v"
proof (induction u rule: word_sum.induct)
  case (1 a b w)
  then show ?case by simp
qed simp_all

lemma length_le16_bytes: "length (le16_bytes x) = 2"
  by (simp add: le16_bytes_def)

lemma word_sum_le16_bytes: "word_sum (le16_bytes x) = unat x"
proof -
  have "unat x < 65536" using unsigned_less [of x, where ?'a = nat] by simp
  then show ?thesis
    by (simp add: le16_bytes_def unsigned_ucast_eq unat_drop_bit take_bit_eq_mod)
qed

lemma le16_le16_bytes: "le16 (ucast x) (ucast (drop_bit 8 x)) = x"
  using word_sum_le16_bytes [of x] by (simp add: le16_bytes_def word_unat_eq_iff unat_le16)

lemma ones_compl_full: "ones_compl (s + (65535 - ones_compl s)) = 65535"
proof (cases "s = 0")
  case False
  define q r where "q = (s - 1) div 65535" and "r = (s - 1) mod 65535"
  with False have "s = 65535 * q + (r + 1)" and "r < 65535" by simp_all
  then have "s + (65535 - (r + 1)) - 1 = 65534 + 65535 * q" by simp
  moreover have "ones_compl s = r + 1" using False by (simp add: ones_compl_def r_def)
  ultimately show ?thesis using False by (simp add: ones_compl_def del: mod_mult_self2) simp
qed (simp add: ones_compl_def)

section \<open>Properties\<close>

text \<open>
  For every buffer of at most 65535 bytes (the largest IP datagram), \<^verbatim>\<open>in_cksum\<close> is the
  complement of the one's complement sum of its 16-bit words, the odd last byte padded with 0: the
  32-bit accumulator does not overflow and two foldings add back every carry.\<close>

theorem in_cksum_ones_complement:
  assumes "length w \<le> 65535"
  shows "unat (in_cksum w) = 65535 - ones_compl (word_sum w)"
  using assms by (rule unat_in_cksum)

theorem in_cksum_ones_complement_witness:
  "unat (in_cksum [0x45, 0, 0xff]) = 65535 - ones_compl (word_sum [0x45, 0, 0xff])"
  by (rule in_cksum_ones_complement) simp

lemma in_cksum_field:
  assumes "even (length u)" and "length u + 2 + length v \<le> 65535"
  shows "in_cksum (u @ le16_bytes (in_cksum (u @ [0, 0] @ v)) @ v) = 0"
proof -
  let ?s = "word_sum u + word_sum v"
  let ?f = "le16_bytes (in_cksum (u @ [0, 0] @ v))"
  have "word_sum (u @ [0, 0] @ v) = ?s" using assms(1) by (simp add: word_sum_append)
  with assms(2) have "unat (in_cksum (u @ [0, 0] @ v)) = 65535 - ones_compl ?s"
    using unat_in_cksum [of "u @ [0, 0] @ v"] by simp
  then have "word_sum (u @ ?f @ v) = ?s + (65535 - ones_compl ?s)"
    using assms(1) word_sum_append [of "?f" v] word_sum_le16_bytes [of "in_cksum (u @ [0, 0] @ v)"]
    by (simp add: word_sum_append length_le16_bytes)
  moreover have "length (u @ ?f @ v) \<le> 65535" using assms(2) by (simp add: length_le16_bytes)
  ultimately have "unat (in_cksum (u @ ?f @ v)) = 0"
    using unat_in_cksum [of "u @ ?f @ v"] ones_compl_full [of ?s] by simp
  then show ?thesis by (simp add: unsigned_eq_0_iff)
qed

text \<open>
  A packet verifies: when the checksum computed with the field (at an even offset) set to 0
  is stored in the field, the checksum of the packet is 0, which is what the receiver tests.\<close>

theorem in_cksum_verifies:
  assumes "even (length u)" and "length u + 2 + length v \<le> 65535"
  shows "in_cksum (u @ le16_bytes (in_cksum (u @ [0, 0] @ v)) @ v) = 0"
  using assms by (rule in_cksum_field)

theorem in_cksum_verifies_witness:
  "in_cksum ([8, 0] @ le16_bytes (in_cksum ([8, 0] @ [0, 0] @ [1, 2, 3])) @ [1, 2, 3]) = 0"
  by (rule in_cksum_verifies) simp_all

end
