(* ===== verification/Inet4.thy ===== *)
theory Inet4
  imports Prelude
begin

text \<open>
  Presentation format of IPv4 addresses: \<^verbatim>\<open>inet_pton4\<close> and \<^verbatim>\<open>inet_ntop4\<close> of
  \<^verbatim>\<open>libfree/inet_pton.c\<close> and \<^verbatim>\<open>libfree/inet_ntop.c\<close>, \<^verbatim>\<open>inet_aton\<close> of \<^verbatim>\<open>libfree/inet_aton.c\<close>, and
  the IPv4-only \<^verbatim>\<open>inet_pton\<close>/\<^verbatim>\<open>inet_ntop\<close> built on it. An address in network format is the list
  of its bytes in network order. The parser is proved equal to a reference that splits the text
  at its dots, and inverse to the printer.
\<close>

section \<open>inet\_pton4\<close>

text \<open>
  The scan over the source string: \<open>done\<close> are the bytes of \<^verbatim>\<open>tmp\<close> before \<^verbatim>\<open>tp\<close>, \<open>cur\<close> is \<^verbatim>\<open>*tp\<close>, so
  that \<^verbatim>\<open>tp - tmp\<close> is the length of \<open>done\<close>. \<open>None\<close> is a return of 0, with \<^verbatim>\<open>dst\<close> untouched.
\<close>

fun inet_pton4_loop :: "string \<Rightarrow> bool \<Rightarrow> nat \<Rightarrow> byte list \<Rightarrow> byte \<Rightarrow> byte list option" where
  "inet_pton4_loop [] saw_digit octets done cur =
     (if octets < 4 then None else Some (done @ [cur]))"
| "inet_pton4_loop (ch # src) saw_digit octets done cur =
     (case index_of ch digit_chars of
        Some d \<Rightarrow>
          let new = unat cur * 10 + d
          in if new > 255 then None
             else if \<not> saw_digit
                  then if octets + 1 > 4 then None
                       else inet_pton4_loop src True (octets + 1) done (of_nat new)
                  else inet_pton4_loop src saw_digit octets done (of_nat new)
      | None \<Rightarrow>
          if ch = CHR ''.'' \<and> saw_digit
          then if octets = 4 then None else inet_pton4_loop src False octets (done @ [cur]) 0
          else None)"

definition inet_pton4 :: "string \<Rightarrow> byte list option" where
  "inet_pton4 src = inet_pton4_loop src False 0 [] 0"

section \<open>inet\_ntop4\<close>

text \<open>\<^verbatim>\<open>sprintf(tmp, "%u.%u.%u.%u", ...)\<close>.\<close>

definition dotted :: "byte list \<Rightarrow> string" where
  "dotted src = dec_nat (unat (src ! 0)) @ ''.'' @ dec_nat (unat (src ! 1)) @ ''.'' @
                dec_nat (unat (src ! 2)) @ ''.'' @ dec_nat (unat (src ! 3))"

text \<open>
  The result is \<^verbatim>\<open>NULL\<close> with \<^verbatim>\<open>ENOSPC\<close>, or the bytes that \<^verbatim>\<open>strcpy\<close> writes to \<^verbatim>\<open>dst\<close>, null
  included. The test compares the length without the null.
\<close>

definition inet_ntop4 :: "byte list \<Rightarrow> nat \<Rightarrow> errno + char list" where
  "inet_ntop4 src sz = (if length (dotted src) > sz then Inl ENOSPC else Inr (dotted src @ [NUL]))"

section \<open>inet\_aton and the IPv4-only conversions\<close>

text \<open>
  \<^verbatim>\<open>acc\<close> and \<^verbatim>\<open>addr\<close> are of type \<^verbatim>\<open>u_long\<close>, 64 bits here. The string is scanned with its null
  byte, which closes the last component.
\<close>

definition aton_shift :: "64 word \<Rightarrow> 64 word \<Rightarrow> 64 word" where
  "aton_shift addr acc = or (push_bit 8 addr) acc"

definition aton_close :: "64 word \<Rightarrow> 64 word \<Rightarrow> (64 word) option" where
  "aton_close acc addr = (if acc > 255 then None else Some (aton_shift addr acc))"

fun inet_aton_loop :: "string \<Rightarrow> nat \<Rightarrow> 64 word \<Rightarrow> 64 word \<Rightarrow> (nat \<times> 64 word) option" where
  "inet_aton_loop [] dots acc addr =
     (case aton_close acc addr of None \<Rightarrow> None | Some a \<Rightarrow> Some (dots, a))"
| "inet_aton_loop (cc # cp) dots acc addr =
     (case index_of cc digit_chars of
        Some d \<Rightarrow> inet_aton_loop cp dots (acc * 10 + of_nat d) addr
      | None \<Rightarrow>
          if cc = CHR ''.''
          then if dots + 1 > 3 then None
               else (case aton_close acc addr of
                       None \<Rightarrow> None | Some a \<Rightarrow> inet_aton_loop cp (dots + 1) 0 a)
          else None)"

text \<open>The bytes of \<^verbatim>\<open>htonl(a)\<close> in memory order.\<close>

definition net_bytes :: "64 word \<Rightarrow> byte list" where
  "net_bytes a = [ucast (drop_bit 24 a), ucast (drop_bit 16 a), ucast (drop_bit 8 a), ucast a]"

definition inet_aton :: "string \<Rightarrow> byte list option" where
  "inet_aton cp =
     (case inet_aton_loop cp 0 0 0 of
        None \<Rightarrow> None
      | Some (dots, addr) \<Rightarrow>
          Some (net_bytes (if dots < 3 then push_bit (8 * (3 - dots)) addr else addr)))"

text \<open>Address families of the code.\<close>

datatype family = AF_INET | AF_INET6 | AF_UNIX | AF_UNSPEC | AF_OTHER nat

text \<open>\<^verbatim>\<open>libfree/inet_pton_ipv4.c\<close>: \<open>Inl\<close> is \<open>-1\<close>, \<open>Inr None\<close> is 0, \<open>Inr (Some a)\<close> is 1.\<close>

definition inet_pton_ipv4 :: "family \<Rightarrow> string \<Rightarrow> errno + byte list option" where
  "inet_pton_ipv4 fam s = (if fam = AF_INET then Inr (inet_aton s) else Inl EAFNOSUPPORT)"

text \<open>\<^verbatim>\<open>libfree/inet_ntop_ipv4.c\<close>; here the test is \<open>\<ge>\<close>.\<close>

definition inet_ntop_ipv4 :: "family \<Rightarrow> byte list \<Rightarrow> nat \<Rightarrow> errno + char list" where
  "inet_ntop_ipv4 fam p len =
     (if fam = AF_INET
      then let temp = snprintf_str 16 (dotted p)
           in if length temp \<ge> len then Inl ENOSPC else Inr (temp @ [NUL])
      else Inl EAFNOSUPPORT)"

section \<open>The reference parser\<close>

text \<open>Value of a digit string, splitting at dots, and a parser written with them.\<close>

definition dec_val :: "string \<Rightarrow> nat" where
  "dec_val t = foldl (\<lambda>v c. v * 10 + (case index_of c digit_chars of Some d \<Rightarrow> d | None \<Rightarrow> 0)) 0 t"

definition is_octet :: "string \<Rightarrow> bool" where
  "is_octet t \<longleftrightarrow> t \<noteq> [] \<and> list_all (\<lambda>c. c \<in> set digit_chars) t \<and> dec_val t \<le> 255"

fun split_dots :: "string \<Rightarrow> string \<Rightarrow> string list" where
  "split_dots t [] = [t]"
| "split_dots t (c # s) = (if c = CHR ''.'' then t # split_dots [] s else split_dots (t @ [c]) s)"

definition ref_pton4 :: "string \<Rightarrow> byte list option" where
  "ref_pton4 s = (let ts = split_dots [] s
                  in if length ts = 4 \<and> list_all is_octet ts then Some (map (of_nat \<circ> dec_val) ts) else None)"

lemma dec_val_snoc:
  "dec_val (t @ [c]) = dec_val t * 10 + (case index_of c digit_chars of Some d \<Rightarrow> d | None \<Rightarrow> 0)"
  by (simp add: dec_val_def)

lemma dec_val_Nil [simp]: "dec_val [] = 0"
  by (simp add: dec_val_def)

lemma split_dots_nonempty [simp]: "split_dots t s \<noteq> []"
  by (induction t s rule: split_dots.induct) auto

lemma digit_not_dot: "index_of c digit_chars = Some d \<Longrightarrow> c \<noteq> CHR ''.''"
  by (auto simp: digit_chars_def split: if_splits)

text \<open>
  The state of the scan in terms of the components read so far: \<open>t\<close> is the digits of the current
  one. The scan agrees with the reference from every such state.
\<close>

lemma split_dots_hd: "\<exists>u us. split_dots t s = (t @ u) # us"
  by (induction t s rule: split_dots.induct) auto

lemma dec_val_mono: "dec_val t \<le> dec_val (t @ u)"
proof (induction u rule: rev_induct)
  case (snoc c u)
  then show ?case by (simp add: dec_val_snoc flip: append_assoc)
qed simp

definition rest_ok :: "nat \<Rightarrow> string list \<Rightarrow> bool" where
  "rest_ok k ts \<longleftrightarrow> k + length ts = 4 \<and> list_all is_octet ts"

lemma inet_pton4_loop_ref:
  assumes "list_all (\<lambda>c. c \<in> set digit_chars) t" and "dec_val t \<le> 255" and "length done < 4"
    and "octets = length done + (if t = [] then 0 else 1)"
  shows "inet_pton4_loop s (t \<noteq> []) octets done (of_nat (dec_val t)) =
    (if rest_ok (length done) (split_dots t s)
     then Some (done @ map (of_nat \<circ> dec_val) (split_dots t s)) else None)"
  using assms
proof (induction s arbitrary: t octets "done")
  case Nil
  then show ?case by (auto simp: rest_ok_def is_octet_def)
next
  case (Cons ch s)
  have cur: "unat (of_nat (dec_val t) :: byte) = dec_val t"
    using Cons.prems(2) by (simp add: unat_of_nat)
  show ?case
  proof (cases "index_of ch digit_chars")
    case (Some d)
    have nd: "ch \<noteq> CHR ''.''" using digit_not_dot [OF Some] .
    have new: "dec_val (t @ [ch]) = dec_val t * 10 + d" using Some by (simp add: dec_val_snoc)
    show ?thesis
    proof (cases "dec_val t * 10 + d > 255")
      case True
      obtain u us where "split_dots (t @ [ch]) s = (t @ [ch] @ u) # us"
        using split_dots_hd [of "t @ [ch]" s] by auto
      moreover have "dec_val (t @ [ch] @ u) > 255"
        using dec_val_mono [of "t @ [ch]" u] True new by simp
      ultimately show ?thesis
        using Some True cur nd by (simp add: rest_ok_def is_octet_def)
    next
      case False
      have dig: "ch \<in> set digit_chars" using Some by (metis index_of_None option.distinct(1))
      from Cons.IH [of "t @ [ch]" "done" "length done + 1"] Cons.prems False new dig
      show ?thesis using Some cur nd by (cases "t = []") (simp_all add: not_less)
    qed
  next
    case None
    show ?thesis
    proof (cases "ch = CHR ''.''")
      case False
      obtain u us where sp: "split_dots (t @ [ch]) s = (t @ [ch] @ u) # us"
        using split_dots_hd [of "t @ [ch]" s] by auto
      have "\<not> is_octet (t @ [ch] @ u)" using None by (simp add: is_octet_def index_of_None)
      with sp None False show ?thesis by (simp add: rest_ok_def)
    next
      case dot: True
      show ?thesis
      proof (cases "t = []")
        case True
        with None dot show ?thesis by (simp add: rest_ok_def is_octet_def)
      next
        case False
        with Cons.prems have oct: "octets = length done + 1" and ok: "is_octet t"
          by (simp_all add: is_octet_def)
        show ?thesis
        proof (cases "octets = 4")
          case True
          then have "\<not> rest_ok (length done) (split_dots t (ch # s))"
            using oct dot by (simp add: rest_ok_def)
          with True None dot False show ?thesis by simp
        next
          case False2: False
          with Cons.IH [of "[]" "done @ [of_nat (dec_val t)]" octets] Cons.prems(3) oct
          show ?thesis using None dot False ok by (simp add: rest_ok_def)
        qed
      qed
    qed
  qed
qed

lemma inet_pton4_eq_ref: "inet_pton4 s = ref_pton4 s"
  using inet_pton4_loop_ref [of "[]" "[]" 0 s]
  by (simp add: inet_pton4_def ref_pton4_def rest_ok_def Let_def)

text \<open>
  \<^verbatim>\<open>inet_pton4\<close> accepts exactly the texts made of four dot-separated decimal components with
  values up to 255 and stores those values: it agrees with the reference parser on every string.
\<close>

theorem inet_pton4_reference: "inet_pton4 s = ref_pton4 s"
  by (rule inet_pton4_eq_ref)

section \<open>Printing and parsing back\<close>

lemma dec_val_dec_nat [simp]: "dec_val (dec_nat n) = n"
proof (induction n rule: dec_nat.induct)
  case (1 n)
  show ?case
  proof (cases "n < 10")
    case True
    then have "dec_nat n = [] @ [digit_chars ! n]" by (simp add: dec_nat.simps [of n])
    with True show ?thesis by (simp only: dec_val_snoc) (simp add: digit_simps)
  next
    case False
    with 1 have "dec_val (dec_nat (n div 10)) = n div 10" by simp
    moreover have "dec_nat n = dec_nat (n div 10) @ [digit_chars ! (n mod 10)]"
      using False by (simp add: dec_nat.simps [of n])
    ultimately show ?thesis by (simp add: dec_val_snoc digit_simps)
  qed
qed

lemma dot_not_digit [simp]: "CHR ''.'' \<notin> set digit_chars"
  by (simp add: digit_chars_def)

lemma is_octet_dec_nat: "n \<le> 255 \<Longrightarrow> is_octet (dec_nat n)"
  using set_dec_nat [of n] by (auto simp: is_octet_def list_all_iff)

lemma split_dots_append:
  "CHR ''.'' \<notin> set u \<Longrightarrow> split_dots t (u @ s) = split_dots (t @ u) s"
  by (induction u arbitrary: t) auto

lemma split_dots_component:
  "CHR ''.'' \<notin> set u \<Longrightarrow> split_dots [] (u @ CHR ''.'' # s) = u # split_dots [] s"
  "CHR ''.'' \<notin> set u \<Longrightarrow> split_dots [] u = [u]"
  using split_dots_append [of u "[]" "CHR ''.'' # s"] split_dots_append [of u "[]" "[]"] by simp_all

lemma dot_notin_dec_nat [simp]: "CHR ''.'' \<notin> set (dec_nat n)"
  using set_dec_nat [of n] dot_not_digit by blast

lemma split_dotted:
  "split_dots [] (dotted src) = map (\<lambda>i. dec_nat (unat (src ! i))) [0, 1, 2, 3]"
  by (simp add: dotted_def split_dots_component)

lemma byte_le_255 [simp]: "unat (b :: byte) \<le> 255"
  using unsigned_less [of b, where ?'a = nat] by simp

lemma list4_nth: "length xs = 4 \<Longrightarrow> [xs ! 0, xs ! 1, xs ! 2, xs ! 3] = xs"
  by (auto simp: numeral_eq_Suc length_Suc_conv)

lemma inet_pton4_dotted: "length src = 4 \<Longrightarrow> inet_pton4 (dotted src) = Some src"
  using list4_nth [of src]
  by (simp add: inet_pton4_eq_ref ref_pton4_def split_dotted is_octet_dec_nat)

lemma length_dotted_le: "length (dotted src) \<le> 15"
proof -
  have "length (dec_nat (unat b)) \<le> 3" for b :: byte
    using length_dec_nat_le [of "unat b" 2] byte_le_255 [of b] by (simp add: numeral_eq_Suc)
  from add_mono [OF add_mono [OF this [of "src ! 0"] this [of "src ! 1"]]
      add_mono [OF this [of "src ! 2"] this [of "src ! 3"]]]
  show ?thesis by (simp add: dotted_def)
qed

lemma NUL_notin_dotted: "NUL \<notin> set (dotted src)"
proof -
  have "NUL \<notin> set (dec_nat n)" for n
    using set_dec_nat [of n] by (auto simp: digit_chars_def)
  then show ?thesis by (simp add: dotted_def)
qed

text \<open>
  The bytes \<^verbatim>\<open>inet_ntop4\<close> writes overrun a destination of \<open>sz\<close> bytes exactly when the text has
  \<open>sz\<close> characters: the test forgets the null byte. The IPv4-only printer, which tests \<open>\<ge>\<close>, never
  writes more than \<open>len\<close> bytes.
\<close>

theorem inet_ntop4_overrun:
  "((\<exists>w. inet_ntop4 src sz = Inr w \<and> length w > sz) \<longleftrightarrow> length (dotted src) = sz)
   \<and> \<not> (\<exists>w. inet_ntop_ipv4 AF_INET src len = Inr w \<and> length w > len)"
  by (auto simp: inet_ntop4_def inet_ntop_ipv4_def Let_def)

section \<open>inet\_aton agrees on dotted quads\<close>

lemma split_dots_join:
  "split_dots t s = us \<Longrightarrow> t @ s = concat (map (\<lambda>u. u @ ''.'') (butlast us)) @ last us"
proof (induction t s arbitrary: us rule: split_dots.induct)
  case (2 t c s)
  show ?case
  proof (cases "c = CHR ''.''")
    case True
    with "2.prems" "2.IH"(1) [OF True refl] show ?thesis by auto
  next
    case False
    with "2.prems" "2.IH"(2) [OF False, of us] show ?thesis by simp
  qed
qed simp

lemma inet_aton_loop_digits:
  "list_all (\<lambda>c. c \<in> set digit_chars) t \<Longrightarrow>
   inet_aton_loop (t @ s) dots (of_nat v) addr =
   inet_aton_loop s dots
     (of_nat (foldl (\<lambda>v c. v * 10 + (case index_of c digit_chars of Some d \<Rightarrow> d | None \<Rightarrow> 0)) v t)) addr"
proof (induction t arbitrary: v)
  case (Cons c t)
  then obtain d where d: "index_of c digit_chars = Some d"
    by (cases "index_of c digit_chars") (auto simp: index_of_None)
  from Cons.IH [of "v * 10 + d"] Cons.prems d show ?case by simp
qed simp

lemma inet_aton_loop_octet:
  assumes "is_octet t"
  shows "inet_aton_loop (t @ s) dots 0 addr = inet_aton_loop s dots (of_nat (dec_val t)) addr"
  using inet_aton_loop_digits [of t s dots 0 addr] assms by (simp add: is_octet_def dec_val_def)

lemma octet_word: "v \<le> 255 \<Longrightarrow> (of_nat v :: 64 word) = ucast (of_nat v :: byte)"
  by (simp add: unsigned_of_nat take_bit_nat_eq_self)

lemma aton_close_octet: "aton_close (ucast (b :: byte)) addr = Some (aton_shift addr (ucast b))"
proof -
  have "take_bit 64 (unat b) \<le> 255"
    using take_bit_nat_less_eq_self [of 64 "unat b"] byte_le_255 [of b] by linarith
  then have "(ucast b :: 64 word) \<le> 255" by (simp add: word_le_nat_alt unsigned_ucast_eq)
  then show ?thesis by (simp add: aton_close_def not_less [symmetric])
qed

lemma byte_bit_high [simp]: "8 \<le> n \<Longrightarrow> \<not> bit (b :: byte) n"
  using bit_imp_le_length [of b n] by auto

lemma net_bytes_join:
  "net_bytes (aton_shift (aton_shift (aton_shift (aton_shift 0 (ucast (a :: byte)))
     (ucast (b :: byte))) (ucast (c :: byte))) (ucast (d :: byte))) = [a, b, c, d]"
  by (auto simp: net_bytes_def aton_shift_def bit_simps intro!: bit_word_eqI)

text \<open>
  Every dotted quad that \<^verbatim>\<open>inet_pton4\<close> accepts, \<^verbatim>\<open>inet_aton\<close> accepts with the same bytes, so the
  IPv4-only \<^verbatim>\<open>inet_pton\<close> extends the general one.
\<close>

theorem inet_aton_extends_pton4:
  assumes "inet_pton4 s = Some bs"
  shows "inet_aton s = Some bs \<and> inet_pton_ipv4 AF_INET s = Inr (Some bs)"
proof -
  from assms have ts: "length (split_dots [] s) = 4" "list_all is_octet (split_dots [] s)"
    and bs: "bs = map (of_nat \<circ> dec_val) (split_dots [] s)"
    by (auto simp: inet_pton4_eq_ref ref_pton4_def Let_def split: if_splits)
  then obtain t0 t1 t2 t3 where sp: "split_dots [] s = [t0, t1, t2, t3]"
    by (auto simp: numeral_eq_Suc length_Suc_conv)
  from split_dots_join [OF sp] have s: "s = t0 @ ''.'' @ t1 @ ''.'' @ t2 @ ''.'' @ t3" by simp
  have o: "is_octet t0" "is_octet t1" "is_octet t2" "is_octet t3" using ts(2) sp by simp_all
  let ?b = "\<lambda>t. of_nat (dec_val t) :: byte"
  have w: "(of_nat (dec_val t) :: 64 word) = ucast (?b t)" if "is_octet t" for t
    using that octet_word by (simp add: is_octet_def)
  have dot: "index_of (CHR ''.'') digit_chars = None" by (simp add: index_of_None)
  have "inet_aton_loop s 0 0 0 = Some (3, aton_shift (aton_shift (aton_shift (aton_shift 0
      (ucast (?b t0))) (ucast (?b t1))) (ucast (?b t2))) (ucast (?b t3)))"
    using inet_aton_loop_octet [OF o(4), of "[]"] unfolding s
    by (simp add: inet_aton_loop_octet o w aton_close_octet dot numeral_eq_Suc)
  then have "inet_aton s = Some bs"
    by (simp add: inet_aton_def net_bytes_join bs sp)
  then show ?thesis by (simp add: inet_pton_ipv4_def)
qed

theorem inet_aton_extends_pton4_witness:
  "inet_pton4 ''10.0.200.7'' = Some [10, 0, 200, 7] \<and> inet_aton ''10.0.200.7'' = Some [10, 0, 200, 7]"
proof -
  have "inet_pton4 ''10.0.200.7'' = Some [10, 0, 200, 7]" by code_simp
  with inet_aton_extends_pton4 [OF this] show ?thesis by simp
qed

text \<open>
  \<^verbatim>\<open>inet_aton\<close> tests a component only at its dot, after the 64-bit accumulator may have wrapped:
  the text of \<open>2 ^ 64 + 1\<close> is accepted as a component and read as 1, and an empty text as 0.0.0.0;
  \<^verbatim>\<open>inet_pton4\<close> rejects both.
\<close>

theorem inet_aton_wraps:
  "inet_aton ''18446744073709551617.2.3.4'' = Some [1, 2, 3, 4] \<and> inet_aton [] = Some [0, 0, 0, 0]
   \<and> inet_pton4 ''18446744073709551617.2.3.4'' = None \<and> inet_pton4 [] = None"
  by (intro conjI) code_simp+

end
