(* ===== verification/Inet6.thy ===== *)
theory Inet6
  imports Inet4
begin

text \<open>
  Presentation format of IPv6 addresses: \<^verbatim>\<open>inet_pton6\<close> and \<^verbatim>\<open>inet_ntop6\<close> of
  \<^verbatim>\<open>libfree/inet_pton.c\<close> and \<^verbatim>\<open>libfree/inet_ntop.c\<close> with the dispatching \<^verbatim>\<open>inet_pton\<close> and
  \<^verbatim>\<open>inet_ntop\<close>. The main result is that parsing a printed address gives the address back, for all
  \<open>2 ^ 128\<close> addresses: the printer's choice of a zero run, the parser's shift of the bytes after
  \<^verbatim>\<open>::\<close> and the embedded dotted quads are all covered.
\<close>

section \<open>inet\_pton6\<close>

definition xdigit_val :: "char \<Rightarrow> nat option" where
  "xdigit_val ch = (case index_of ch xdigits_l of Some d \<Rightarrow> Some d | None \<Rightarrow> index_of ch xdigits_u)"

text \<open>
  The variables of the scan: the 16-byte array \<^verbatim>\<open>tmp\<close>, \<^verbatim>\<open>tp\<close> and \<^verbatim>\<open>colonp\<close> as indices into it,
  \<^verbatim>\<open>val\<close> (below \<open>2 ^ 16\<close>, so the 32-bit shift cannot overflow) and \<^verbatim>\<open>saw_xdigit\<close>.
\<close>

record pton6 =
  tmp :: "byte list"
  tp :: nat
  colonp :: "nat option"
  val :: nat
  saw_xdigit :: bool

definition pton6_init :: pton6 where
  "pton6_init = \<lparr>tmp = replicate 16 0, tp = 0, colonp = None, val = 0, saw_xdigit = False\<rparr>"

text \<open>\<^verbatim>\<open>if (tp + INT16SZ > endp) return 0; *tp++ = val >> 8; *tp++ = val & 0xff\<close>.\<close>

definition pton6_store :: "pton6 \<Rightarrow> pton6 option" where
  "pton6_store st =
     (if tp st + 2 > 16 then None
      else Some (st\<lparr>tmp := blit (tmp st) (tp st) [of_nat (val st div 256), of_nat (val st mod 256)],
                    tp := tp st + 2\<rparr>))"

fun inet_pton6_loop :: "string \<Rightarrow> string \<Rightarrow> pton6 \<Rightarrow> pton6 option" where
  "inet_pton6_loop [] curtok st = Some st"
| "inet_pton6_loop (ch # src) curtok st =
     (case xdigit_val ch of
        Some d \<Rightarrow>
          let v = val st * 16 + d
          in if v > 0xffff then None
             else inet_pton6_loop src curtok (st\<lparr>val := v, saw_xdigit := True\<rparr>)
      | None \<Rightarrow>
          if ch = CHR '':''
          then if \<not> saw_xdigit st
               then (if colonp st \<noteq> None then None
                     else inet_pton6_loop src src (st\<lparr>colonp := Some (tp st)\<rparr>))
               else (case pton6_store st of
                       None \<Rightarrow> None
                     | Some st' \<Rightarrow> inet_pton6_loop src src (st'\<lparr>saw_xdigit := False, val := 0\<rparr>))
          else if ch = CHR ''.'' \<and> tp st + 4 \<le> 16
          then (case inet_pton4 curtok of
                  None \<Rightarrow> None
                | Some bs \<Rightarrow> Some (st\<lparr>tmp := blit (tmp st) (tp st) bs, tp := tp st + 4,
                                    saw_xdigit := False\<rparr>))
          else None)"

text \<open>
  The shift by hand of the \<open>n\<close> bytes from \<^verbatim>\<open>colonp\<close> to the end of the array:
  \<^verbatim>\<open>endp[-i] = colonp[n - i]; colonp[n - i] = 0\<close> for \<open>i = 1, \<dots>, n\<close>.
\<close>

definition shift_step :: "nat \<Rightarrow> nat \<Rightarrow> nat \<Rightarrow> byte list \<Rightarrow> byte list" where
  "shift_step c n i a = (a[16 - i := a ! (c + n - i)])[c + n - i := 0]"

definition shift_tail :: "nat \<Rightarrow> nat \<Rightarrow> byte list \<Rightarrow> byte list" where
  "shift_tail c n a = fold (shift_step c n) [1..<Suc n] a"

definition pton6_finish :: "pton6 \<Rightarrow> byte list option" where
  "pton6_finish st =
     (case (if saw_xdigit st then pton6_store st else Some st) of
        None \<Rightarrow> None
      | Some st1 \<Rightarrow>
          (let st2 = (case colonp st1 of
                        None \<Rightarrow> st1
                      | Some c \<Rightarrow> st1\<lparr>tmp := shift_tail c (tp st1 - c) (tmp st1), tp := 16\<rparr>)
           in if tp st2 \<noteq> 16 then None else Some (tmp st2)))"

text \<open>A leading colon must be the first of two; the scan then starts at the second.\<close>

definition inet_pton6 :: "string \<Rightarrow> byte list option" where
  "inet_pton6 src =
     (let go = (\<lambda>s. case inet_pton6_loop s s pton6_init of None \<Rightarrow> None | Some st \<Rightarrow> pton6_finish st)
      in case src of
           [] \<Rightarrow> go []
         | c # s \<Rightarrow> if c = CHR '':''
                    then (case s of [] \<Rightarrow> None | c' # s' \<Rightarrow> if c' \<noteq> CHR '':'' then None else go s)
                    else go src)"

text \<open>\<^verbatim>\<open>inet_pton\<close>: \<open>Inl\<close> is \<open>-1\<close>, \<open>Inr None\<close> is 0, \<open>Inr (Some a)\<close> is 1.\<close>

definition inet_pton :: "family \<Rightarrow> string \<Rightarrow> errno + byte list option" where
  "inet_pton af src = (case af of
                         AF_INET \<Rightarrow> Inr (inet_pton4 src)
                       | AF_INET6 \<Rightarrow> Inr (inet_pton6 src)
                       | _ \<Rightarrow> Inl EAFNOSUPPORT)"

section \<open>inet\_ntop6\<close>

text \<open>The eight 16-bit words of the address.\<close>

definition ntop6_words :: "byte list \<Rightarrow> nat list" where
  "ntop6_words src = map (\<lambda>i. unat (src ! (2 * i)) * 256 + unat (src ! (2 * i + 1))) [0..<8]"

text \<open>
  The search for the longest run of zero words; a run is its base and length, \<open>None\<close> for a base of
  \<open>-1\<close>. A later run replaces the best one only if it is longer.
\<close>

type_synonym zrun = "(nat \<times> nat) option"

definition better :: "zrun \<Rightarrow> zrun \<Rightarrow> zrun" where
  "better best cur =
     (case cur of
        None \<Rightarrow> best
      | Some (b, l) \<Rightarrow> (case best of None \<Rightarrow> cur | Some (b', l') \<Rightarrow> if l > l' then cur else best))"

fun best_run :: "nat list \<Rightarrow> nat \<Rightarrow> zrun \<Rightarrow> zrun \<Rightarrow> zrun" where
  "best_run [] i best cur = better best cur"
| "best_run (w # ws) i best cur =
     (if w = 0
      then best_run ws (i + 1) best
             (case cur of None \<Rightarrow> Some (i, 1) | Some (b, l) \<Rightarrow> Some (b, l + 1))
      else best_run ws (i + 1) (better best cur) None)"

definition ntop6_best :: "nat list \<Rightarrow> zrun" where
  "ntop6_best ws = (case best_run ws 0 None None of
                      Some (b, l) \<Rightarrow> if l < 2 then None else Some (b, l)
                    | None \<Rightarrow> None)"

definition in_run :: "zrun \<Rightarrow> nat \<Rightarrow> bool" where
  "in_run best i = (case best of None \<Rightarrow> False | Some (b, l) \<Rightarrow> b \<le> i \<and> i < b + l)"

text \<open>Is the address an encapsulated IPv4 one (tested at word 6)?\<close>

definition encap4 :: "nat list \<Rightarrow> zrun \<Rightarrow> bool" where
  "encap4 ws best = (case best of
     None \<Rightarrow> False | Some (b, l) \<Rightarrow> b = 0 \<and> (l = 6 \<or> (l = 5 \<and> ws ! 5 = 0xffff)))"

text \<open>
  The formatting loop from word \<open>i\<close> on; \<open>out\<close> is the text in \<^verbatim>\<open>tmp\<close> up to \<^verbatim>\<open>tp\<close>, and \<^verbatim>\<open>tmp\<close> has 46
  bytes.
\<close>

fun ntop6_fmt :: "byte list \<Rightarrow> nat list \<Rightarrow> zrun \<Rightarrow> nat list \<Rightarrow> string \<Rightarrow> errno + string" where
  "ntop6_fmt src ws best [] out = Inr out"
| "ntop6_fmt src ws best (i # js) out =
     (if in_run best i
      then ntop6_fmt src ws best js (if Some i = map_option fst best then out @ '':'' else out)
      else (let out1 = (if i \<noteq> 0 then out @ '':'' else out)
            in if i = 6 \<and> encap4 ws best
               then (case inet_ntop4 (drop 12 src) (46 - length out1) of
                       Inl e \<Rightarrow> Inl e
                     | Inr w \<Rightarrow> Inr (out1 @ c_str w))
               else ntop6_fmt src ws best js (out1 @ hex_nat (ws ! i))))"

definition ntop6_text :: "byte list \<Rightarrow> errno + string" where
  "ntop6_text src =
     (let ws = ntop6_words src; best = ntop6_best ws
      in case ntop6_fmt src ws best [0..<8] [] of
           Inl e \<Rightarrow> Inl e
         | Inr out \<Rightarrow>
             Inr (case best of None \<Rightarrow> out
                             | Some (b, l) \<Rightarrow> if b + l = 8 then out @ '':'' else out))"

definition inet_ntop6 :: "byte list \<Rightarrow> nat \<Rightarrow> errno + char list" where
  "inet_ntop6 src sz =
     (case ntop6_text src of
        Inl e \<Rightarrow> Inl e
      | Inr t \<Rightarrow> if length t + 1 > sz then Inl ENOSPC else Inr (t @ [NUL]))"

definition inet_ntop :: "family \<Rightarrow> byte list \<Rightarrow> nat \<Rightarrow> errno + char list" where
  "inet_ntop af src sz = (case af of
                            AF_INET \<Rightarrow> inet_ntop4 src sz
                          | AF_INET6 \<Rightarrow> inet_ntop6 src sz
                          | _ \<Rightarrow> Inl EAFNOSUPPORT)"

section \<open>The parser on printed words\<close>

text \<open>The state of the scan when the bytes \<open>bs\<close> have been stored.\<close>

definition mk6 :: "byte list \<Rightarrow> nat option \<Rightarrow> nat \<Rightarrow> bool \<Rightarrow> pton6" where
  "mk6 bs cp v saw = \<lparr>tmp = bs @ replicate (16 - length bs) 0, tp = length bs, colonp = cp, val = v,
                      saw_xdigit = saw\<rparr>"

definition wbytes :: "nat \<Rightarrow> byte list" where
  "wbytes w = [of_nat (w div 256), of_nat (w mod 256)]"

definition bytes_of :: "nat list \<Rightarrow> byte list" where
  "bytes_of ws = concat (map wbytes ws)"

lemma bytes_of_simps [simp]:
  "bytes_of [] = []" "bytes_of (w # ws) = wbytes w @ bytes_of ws"
  "bytes_of (ws @ vs) = bytes_of ws @ bytes_of vs"
  by (simp_all add: bytes_of_def)

lemma length_wbytes [simp]: "length (wbytes w) = 2" "length (bytes_of ws) = 2 * length ws"
  by (induction ws) (simp_all add: wbytes_def)

lemma bytes_of_zeros: "bytes_of (replicate l 0) = replicate (2 * l) 0"
  by (induction l) (simp_all add: wbytes_def)

lemma pton6_init_mk6: "pton6_init = mk6 [] None 0 False"
  by (simp add: pton6_init_def mk6_def)

lemma mk6_sel [simp]:
  "val (mk6 bs cp v saw) = v" "tp (mk6 bs cp v saw) = length bs" "colonp (mk6 bs cp v saw) = cp"
  "saw_xdigit (mk6 bs cp v saw) = saw" "tmp (mk6 bs cp v saw) = bs @ replicate (16 - length bs) 0"
  by (simp_all add: mk6_def)

lemma mk6_upd [simp]:
  "(mk6 bs cp v saw)\<lparr>val := v'\<rparr> = mk6 bs cp v' saw"
  "(mk6 bs cp v saw)\<lparr>saw_xdigit := saw'\<rparr> = mk6 bs cp v saw'"
  "(mk6 bs cp v saw)\<lparr>colonp := cp'\<rparr> = mk6 bs cp' v saw"
  by (simp_all add: mk6_def)

lemma blit_zeros:
  "length bs + length xs \<le> n \<Longrightarrow>
     blit (bs @ replicate (n - length bs) 0) (length bs) xs =
     (bs @ xs) @ replicate (n - length (bs @ xs)) 0"
  by (simp add: blit_def drop_replicate)

lemma pton6_store_mk6 [simp]:
  "length bs + 2 \<le> 16 \<Longrightarrow> pton6_store (mk6 bs cp v saw) = Some (mk6 (bs @ wbytes v) cp v saw)"
  by (simp add: pton6_store_def blit_zeros wbytes_def mk6_def)

lemma xdigit_val_nth [simp]: "d < 16 \<Longrightarrow> xdigit_val (xdigits_l ! d) = Some d"
  by (simp add: xdigit_val_def digit_simps)

lemma xdigit_val_other [simp]: "xdigit_val (CHR '':'') = None" "xdigit_val (CHR ''.'') = None"
  by (simp_all add: xdigit_val_def index_of_None xdigits_l_def xdigits_u_def)

lemma loop_xdigit:
  "d < 16 \<Longrightarrow> v * 16 + d \<le> 0xffff \<Longrightarrow>
   inet_pton6_loop (xdigits_l ! d # src) cur (mk6 bs cp v saw) = inet_pton6_loop src cur (mk6 bs cp (v * 16 + d) True)"
  by (simp add: Let_def)

lemma loop_hex:
  "w \<le> 0xffff \<Longrightarrow>
   inet_pton6_loop (hex_nat w @ src) cur (mk6 bs cp 0 False) = inet_pton6_loop src cur (mk6 bs cp w True)"
proof (induction w arbitrary: src rule: hex_nat.induct)
  case (1 w)
  show ?case
  proof (cases "w < 16")
    case True
    then show ?thesis using loop_xdigit [of w 0 src] by (simp add: hex_nat.simps [of w])
  next
    case False
    then have eq: "hex_nat w = hex_nat (w div 16) @ [xdigits_l ! (w mod 16)]"
      by (simp add: hex_nat.simps [of w])
    have "w div 16 * 16 + w mod 16 = w" by simp
    with "1.prems" have "inet_pton6_loop (xdigits_l ! (w mod 16) # src) cur (mk6 bs cp (w div 16) True) =
        inet_pton6_loop src cur (mk6 bs cp w True)"
      using loop_xdigit [of "w mod 16" "w div 16" src] by simp
    with "1.IH" [OF False, of "xdigits_l ! (w mod 16) # src"] "1.prems" show ?thesis
      unfolding eq by simp
  qed
qed

lemma loop_colon:
  "length bs + 2 \<le> 16 \<Longrightarrow> inet_pton6_loop (CHR '':'' # src) cur (mk6 bs cp v True) =
     inet_pton6_loop src src (mk6 (bs @ wbytes v) cp 0 False)"
  "inet_pton6_loop (CHR '':'' # src) cur (mk6 bs None v False) =
     inet_pton6_loop src src (mk6 bs (Some (length bs)) v False)"
  by simp_all

declare inet_pton6_loop.simps(2) [simp del]

text \<open>Words printed with a colon before each, and joined by colons.\<close>

definition colon_words :: "nat list \<Rightarrow> string" where
  "colon_words ws = concat (map (\<lambda>w. CHR '':'' # hex_nat w) ws)"

definition join_words :: "nat list \<Rightarrow> string" where
  "join_words ws = (case ws of [] \<Rightarrow> [] | w # vs \<Rightarrow> hex_nat w @ colon_words vs)"

abbreviation all16 :: "nat list \<Rightarrow> bool" where
  "all16 ws \<equiv> (\<forall>w \<in> set ws. w \<le> 0xffff)"

lemma loop_colon_words:
  assumes "all16 ws" and "length bs + 2 * length ws \<le> 16"
  shows "\<exists>cur'. inet_pton6_loop (colon_words ws @ src) cur (mk6 bs cp v True) =
     inet_pton6_loop src cur' (mk6 (bs @ bytes_of (butlast (v # ws))) cp (last (v # ws)) True)"
  using assms
proof (induction ws arbitrary: bs v cur)
  case Nil
  then show ?case by (auto simp: colon_words_def)
next
  case (Cons w ws)
  let ?rest = "hex_nat w @ colon_words ws @ src"
  have "inet_pton6_loop (colon_words (w # ws) @ src) cur (mk6 bs cp v True) =
      inet_pton6_loop (colon_words ws @ src) ?rest (mk6 (bs @ wbytes v) cp w True)"
    using Cons.prems by (simp add: colon_words_def loop_colon loop_hex)
  moreover obtain cur' where "inet_pton6_loop (colon_words ws @ src) ?rest (mk6 (bs @ wbytes v) cp w True) =
      inet_pton6_loop src cur' (mk6 (bs @ wbytes v @ bytes_of (butlast (w # ws))) cp (last (w # ws)) True)"
    using Cons.IH [of "bs @ wbytes v" ?rest w] Cons.prems by auto
  ultimately show ?case by auto
qed

text \<open>What the end of the function makes of the stored bytes.\<close>

definition fin6 :: "byte list \<Rightarrow> nat option \<Rightarrow> byte list option" where
  "fin6 xs cp = (case cp of
      None \<Rightarrow> if length xs = 16 then Some xs else None
    | Some c \<Rightarrow> Some (shift_tail c (length xs - c) (xs @ replicate (16 - length xs) 0)))"

lemma pton6_finish_stored: "length bs \<le> 16 \<Longrightarrow> pton6_finish (mk6 bs cp v False) = fin6 bs cp"
  by (cases cp) (auto simp: pton6_finish_def fin6_def)

lemma pton6_finish_pending:
  "length bs + 2 \<le> 16 \<Longrightarrow> pton6_finish (mk6 bs cp v True) = fin6 (bs @ wbytes v) cp"
  by (cases cp) (auto simp: pton6_finish_def fin6_def)

definition parse6 :: "string \<Rightarrow> string \<Rightarrow> pton6 \<Rightarrow> byte list option" where
  "parse6 src cur st = (case inet_pton6_loop src cur st of None \<Rightarrow> None | Some st' \<Rightarrow> pton6_finish st')"

lemma parse6_join:
  assumes "all16 ws" and "length bs + 2 * length ws \<le> 16"
  shows "parse6 (join_words ws) cur (mk6 bs cp 0 False) = fin6 (bs @ bytes_of ws) cp"
proof (cases ws)
  case Nil
  with assms(2) show ?thesis by (simp add: parse6_def join_words_def pton6_finish_stored)
next
  case (Cons w vs)
  obtain cur' where "inet_pton6_loop (colon_words vs) cur (mk6 bs cp w True) =
      inet_pton6_loop [] cur' (mk6 (bs @ bytes_of (butlast ws)) cp (last ws) True)"
    using loop_colon_words [of vs bs "[]" cur cp w] assms Cons by auto
  moreover have "ws = butlast ws @ [last ws]" using Cons by simp
  then have "bytes_of ws = bytes_of (butlast ws) @ wbytes (last ws)"
    by (metis append_Nil2 bytes_of_simps)
  ultimately show ?thesis
    using assms Cons by (simp add: parse6_def join_words_def loop_hex pton6_finish_pending)
qed

section \<open>The shift of the bytes after the double colon\<close>

lemma shift_step_move:
  assumes "length A + length B + 1 + g + length R = 16" and "0 < g"
    and "c + n - i = length A + length B" and "16 - i = length A + length B + g"
  shows "shift_step c n i (A @ B @ x # replicate g 0 @ R) = A @ B @ replicate g 0 @ x # R"
proof -
  obtain h where g: "g = Suc h" using assms(2) gr0_conv_Suc by blast
  have "replicate g (0 :: byte) = replicate h 0 @ [0]" by (simp add: g replicate_append_same)
  then have "(A @ B @ x # replicate g 0 @ R)[length A + length B + g := x] = A @ B @ x # replicate h 0 @ x # R"
    by (simp add: g list_update_append nth_append)
  moreover have "(A @ B @ x # replicate h 0 @ x # R)[length A + length B := 0] = A @ B @ 0 # replicate h 0 @ x # R"
    by (simp add: list_update_append)
  moreover have "(A @ B @ x # replicate g 0 @ R) ! (length A + length B) = x" by (simp add: nth_append)
  ultimately show ?thesis using assms(3,4) g by (simp add: shift_step_def)
qed

lemma shift_tail_move:
  assumes "length A + length B + g = 16" and "0 < g"
  shows "shift_tail (length A) (length B) (A @ B @ replicate g 0) = A @ replicate g 0 @ B"
proof -
  let ?c = "length A" and ?n = "length B"
  have "k \<le> ?n \<Longrightarrow> fold (shift_step ?c ?n) [1..<Suc k] (A @ B @ replicate g 0) =
      A @ take (?n - k) B @ replicate g 0 @ drop (?n - k) B" for k
  proof (induction k)
    case (Suc k)
    let ?B = "take (?n - Suc k) B" and ?x = "B ! (?n - Suc k)" and ?R = "drop (?n - k) B"
    have sp: "take (?n - k) B = ?B @ [?x]"
      using Suc.prems by (rule take_diff_Suc)
    have dr: "drop (?n - Suc k) B = ?x # ?R"
      using Suc.prems by (rule drop_diff_Suc)
    have "shift_step ?c ?n (Suc k) (A @ ?B @ ?x # replicate g 0 @ ?R) = A @ ?B @ replicate g 0 @ ?x # ?R"
      by (rule shift_step_move) (use assms Suc.prems in auto)
    with Suc show ?case by (simp add: sp dr)
  qed simp
  from this [of ?n] show ?thesis by (simp add: shift_tail_def)
qed

text \<open>
  With no room left (a full address) source and target of every move are the same byte, which is
  then cleared.
\<close>

lemma shift_step_clear:
  "c + n - i = length A + length B \<Longrightarrow> 16 - i = length A + length B \<Longrightarrow>
     shift_step c n i (A @ B @ x # R) = A @ B @ 0 # R"
  by (simp add: shift_step_def list_update_append)

lemma shift_tail_full:
  assumes "length A + length B = 16"
  shows "shift_tail (length A) (length B) (A @ B) = A @ replicate (length B) 0"
proof -
  let ?c = "length A" and ?n = "length B"
  have "k \<le> ?n \<Longrightarrow> fold (shift_step ?c ?n) [1..<Suc k] (A @ B) = A @ take (?n - k) B @ replicate k 0" for k
  proof (induction k)
    case (Suc k)
    let ?B = "take (?n - Suc k) B"
    have i: "16 - Suc k = ?c + (?n - Suc k)" "?c + ?n - Suc k = ?c + (?n - Suc k)"
      using assms Suc.prems by auto
    have sp: "take (?n - k) B = ?B @ [B ! (?n - Suc k)]"
      using Suc.prems by (rule take_diff_Suc)
    have "shift_step ?c ?n (Suc k) (A @ ?B @ B ! (?n - Suc k) # replicate k 0) = A @ ?B @ 0 # replicate k 0"
      by (rule shift_step_clear) (use i in auto)
    with Suc sp show ?case by (simp add: replicate_app_Cons_same)
  qed simp
  from this [of ?n] show ?thesis by (simp add: shift_tail_def)
qed

section \<open>The zero run that is abbreviated\<close>

definition zero_run :: "nat list \<Rightarrow> nat \<Rightarrow> nat \<Rightarrow> bool" where
  "zero_run ws b l \<longleftrightarrow> b + l \<le> length ws \<and> (\<forall>j. b \<le> j \<and> j < b + l \<longrightarrow> ws ! j = 0)"

definition run_len :: "zrun \<Rightarrow> nat" where
  "run_len r = (case r of None \<Rightarrow> 0 | Some (b, l) \<Rightarrow> l)"

definition is_zrun :: "nat list \<Rightarrow> zrun \<Rightarrow> bool" where
  "is_zrun ws r = (case r of None \<Rightarrow> True | Some (b, l) \<Rightarrow> zero_run ws b l)"

text \<open>
  The loop invariant at word \<open>i\<close>: both runs are zero runs, the current one ends at \<open>i\<close> and cannot be
  extended to the left, and no zero run before \<open>i\<close> is longer than both.
\<close>

definition scan_inv :: "nat list \<Rightarrow> nat \<Rightarrow> zrun \<Rightarrow> zrun \<Rightarrow> bool" where
  "scan_inv ws i best cur \<longleftrightarrow>
     i \<le> length ws \<and> is_zrun ws best \<and> is_zrun ws cur \<and>
     (case cur of None \<Rightarrow> i = 0 \<or> ws ! (i - 1) \<noteq> 0
                | Some (b, l) \<Rightarrow> b + l = i \<and> (b = 0 \<or> ws ! (b - 1) \<noteq> 0)) \<and>
     (\<forall>b l. zero_run ws b l \<and> b + l \<le> i \<longrightarrow> l \<le> max (run_len best) (run_len cur))"

lemma run_len_better [simp]: "run_len (better best cur) = max (run_len best) (run_len cur)"
  by (auto simp: better_def run_len_def split: option.splits)

lemma is_zrun_better: "is_zrun ws best \<Longrightarrow> is_zrun ws cur \<Longrightarrow> is_zrun ws (better best cur)"
  by (auto simp: better_def is_zrun_def split: option.splits)

lemma zero_run_shrink: "zero_run ws b l \<Longrightarrow> k \<le> l \<Longrightarrow> zero_run ws b k"
  by (auto simp: zero_run_def)

lemma scan_inv_nonzero:
  assumes "scan_inv ws i best cur" and "i < length ws" and "ws ! i \<noteq> 0"
  shows "scan_inv ws (i + 1) (better best cur) None"
proof -
  have "l \<le> max (run_len best) (run_len cur)" if "zero_run ws b l" "b + l \<le> i + 1" for b l
  proof (cases "b + l \<le> i")
    case True
    with assms(1) that(1) show ?thesis by (auto simp: scan_inv_def)
  next
    case False
    with that assms(3) have "\<not> (b \<le> i \<and> i < b + l)" by (auto simp: zero_run_def)
    with False that(2) show ?thesis by auto
  qed
  with assms show ?thesis
    by (auto simp: scan_inv_def is_zrun_better) (auto simp: is_zrun_def run_len_def)
qed

lemma scan_inv_zero:
  assumes "scan_inv ws i best cur" and "i < length ws" and "ws ! i = 0"
  shows "scan_inv ws (i + 1) best (case cur of None \<Rightarrow> Some (i, 1) | Some (b, l) \<Rightarrow> Some (b, l + 1))"
proof -
  define c where "c = (case cur of None \<Rightarrow> i | Some (b, l) \<Rightarrow> b)"
  have new: "(case cur of None \<Rightarrow> Some (i, 1) | Some (b, l) \<Rightarrow> Some (b, l + 1)) = Some (c, i + 1 - c)"
    and c: "c \<le> i" "c = 0 \<or> ws ! (c - 1) \<noteq> 0" and len: "run_len cur = i - c"
    using assms(1) by (auto simp: scan_inv_def c_def run_len_def split: option.splits)
  have "ws ! j = 0" if "c \<le> j" "j < i" for j
    using that assms(1) by (auto simp: scan_inv_def c_def is_zrun_def zero_run_def split: option.splits)
  then have zr: "zero_run ws c (i + 1 - c)"
    using assms(2,3) c(1) by (auto simp: zero_run_def less_Suc_eq)
  have "l \<le> max (run_len best) (i + 1 - c)" if zl: "zero_run ws b l" "b + l \<le> i + 1" for b l
  proof (cases "b + l \<le> i")
    case True
    with assms(1) zl(1) len show ?thesis by (fastforce simp: scan_inv_def)
  next
    case False
    have "\<not> b < c"
    proof
      assume "b < c"
      then have "b \<le> c - 1 \<and> c - 1 < b + l" using False c(1) by linarith
      with zl(1) have "ws ! (c - 1) = 0" by (auto simp: zero_run_def)
      with c(2) \<open>b < c\<close> show False by simp
    qed
    with zl(2) show ?thesis by linarith
  qed
  with assms(1,2) zr c(1,2) show ?thesis
    unfolding new by (auto simp: scan_inv_def is_zrun_def run_len_def)
qed

lemma best_run_inv:
  "scan_inv (pre @ ws) (length pre) best cur \<Longrightarrow>
   is_zrun (pre @ ws) (best_run ws (length pre) best cur) \<and>
   (\<forall>b l. zero_run (pre @ ws) b l \<longrightarrow> l \<le> run_len (best_run ws (length pre) best cur))"
proof (induction ws arbitrary: pre best cur)
  case Nil
  then show ?case by (auto simp: scan_inv_def is_zrun_better zero_run_def)
next
  case (Cons w ws)
  show ?case
  proof (cases "w = 0")
    case True
    with scan_inv_zero [OF Cons.prems] Cons.IH [of "pre @ [w]"] show ?thesis by simp
  next
    case False
    with scan_inv_nonzero [OF Cons.prems] Cons.IH [of "pre @ [w]"] show ?thesis by simp
  qed
qed

lemma best_run_spec:
  "is_zrun ws (best_run ws 0 None None) \<and> (\<forall>b l. zero_run ws b l \<longrightarrow> l \<le> run_len (best_run ws 0 None None))"
proof -
  have "scan_inv ([] @ ws) (length []) None None"
    by (auto simp: scan_inv_def is_zrun_def zero_run_def)
  from best_run_inv [OF this] show ?thesis by simp
qed

lemma ntop6_best_Some:
  assumes "ntop6_best ws = Some (b, l)"
  shows "2 \<le> l" and "zero_run ws b l"
  using assms best_run_spec [of ws]
  by (auto simp: ntop6_best_def is_zrun_def split: option.splits prod.splits if_splits)

section \<open>What the formatting loop prints\<close>

definition sep_word :: "nat list \<Rightarrow> nat \<Rightarrow> string" where
  "sep_word ws i = (if i \<noteq> 0 then CHR '':'' # hex_nat (ws ! i) else hex_nat (ws ! i))"

lemma fmt_words:
  assumes "\<And>i. i \<in> set js \<Longrightarrow> \<not> in_run best i \<and> \<not> (i = 6 \<and> encap4 ws best)"
  shows "ntop6_fmt src ws best (js @ ks) out = ntop6_fmt src ws best ks (out @ concat (map (sep_word ws) js))"
  using assms
proof (induction js arbitrary: out)
  case (Cons j js)
  then have "\<not> in_run best j" "\<not> (j = 6 \<and> encap4 ws best)" by auto
  with Cons show ?case by (auto simp: Let_def sep_word_def)
qed simp

lemma fmt_run:
  assumes "\<And>i. i \<in> set js \<Longrightarrow> b < i \<and> i < b + l"
  shows "ntop6_fmt src ws (Some (b, l)) (js @ ks) out = ntop6_fmt src ws (Some (b, l)) ks out"
  using assms
proof (induction js arbitrary: out)
  case (Cons j js)
  have "b < j" "j < b + l" using Cons.prems [of j] by simp_all
  then show ?case using Cons.IH [OF Cons.prems, of out] by (simp add: in_run_def)
qed simp

lemma fmt_whole_run:
  assumes "0 < l"
  shows "ntop6_fmt src ws (Some (b, l)) ([b..<b + l] @ ks) out = ntop6_fmt src ws (Some (b, l)) ks (out @ '':'')"
proof -
  have "[b..<b + l] = b # [Suc b..<b + l]" using assms by (simp add: upt_conv_Cons)
  then show ?thesis
    using fmt_run [of "[Suc b..<b + l]" b l src ws ks "out @ '':''"] assms by (simp add: in_run_def)
qed

lemma sep_words_pos:
  "0 < a \<Longrightarrow> concat (map (sep_word ws) [a..<c]) = colon_words (map ((!) ws) [a..<c])"
  by (auto simp: colon_words_def sep_word_def intro!: arg_cong [where f = concat])

lemma sep_words_0: "concat (map (sep_word ws) [0..<c]) = join_words (map ((!) ws) [0..<c])"
proof (cases "c = 0")
  case False
  then have "[0..<c] = 0 # [1..<c]" by (simp add: upt_conv_Cons)
  then show ?thesis using sep_words_pos [of 1 ws c] by (simp add: join_words_def sep_word_def)
qed (simp add: join_words_def)

lemma colon_words_join: "ws \<noteq> [] \<Longrightarrow> colon_words ws = CHR '':'' # join_words ws"
  by (cases ws) (simp_all add: colon_words_def join_words_def)

lemma upt_split3: "b + l \<le> 8 \<Longrightarrow> [0..<8] = [0..<b] @ [b..<b + l] @ [b + l..<8]"
  by (metis append_assoc le_add1 upt_add_eq_append zero_le le_iff_add add_0)

text \<open>The three shapes of the text: no run, a run, a run followed by a dotted quad.\<close>

lemma ntop6_text_plain:
  assumes "ntop6_best (ntop6_words src) = None"
  shows "ntop6_text src = Inr (join_words (ntop6_words src))"
proof -
  have "length (ntop6_words src) = 8" by (simp add: ntop6_words_def)
  then have "map ((!) (ntop6_words src)) [0..<8] = ntop6_words src" by (metis map_nth)
  with fmt_words [of "[0..<8]" None "ntop6_words src" src "[]" "[]"] sep_words_0 [of "ntop6_words src" 8] assms
  show ?thesis by (simp add: ntop6_text_def in_run_def encap4_def)
qed

lemma ntop6_text_run:
  assumes best: "ntop6_best (ntop6_words src) = Some (b, l)"
    and ne: "\<not> encap4 (ntop6_words src) (Some (b, l))"
  shows "ntop6_text src = Inr (join_words (take b (ntop6_words src)) @ ''::'' @ join_words (drop (b + l) (ntop6_words src)))"
proof -
  let ?ws = "ntop6_words src"
  have len: "length ?ws = 8" by (simp add: ntop6_words_def)
  from ntop6_best_Some [OF best] len have l: "2 \<le> l" and bl: "b + l \<le> 8" by (auto simp: zero_run_def)
  have pre: "map ((!) ?ws) [0..<b] = take b ?ws" and post: "map ((!) ?ws) [b + l..<8] = drop (b + l) ?ws"
    using bl len by (auto intro: nth_equalityI)
  have "ntop6_fmt src ?ws (Some (b, l)) [0..<8] [] =
      Inr (join_words (take b ?ws) @ '':'' @ colon_words (drop (b + l) ?ws))"
    unfolding upt_split3 [OF bl]
    using fmt_words [of "[0..<b]" "Some (b, l)" ?ws src "[b..<b + l] @ [b + l..<8]" "[]"]
      fmt_words [of "[b + l..<8]" "Some (b, l)" ?ws src "[]" "join_words (take b ?ws) @ '':''"]
      fmt_whole_run [of l src ?ws b "[b + l..<8]" "join_words (take b ?ws)"]
      sep_words_0 [of ?ws b] sep_words_pos [of "b + l" ?ws 8] ne l
    by (simp add: in_run_def pre post)
  moreover have "drop (b + l) ?ws = [] \<longleftrightarrow> b + l = 8" using bl len by auto
  ultimately show ?thesis
    by (auto simp: ntop6_text_def best colon_words_join join_words_def [of "[]"] colon_words_def [of "[]"] Let_def)
qed

lemma inet_ntop4_room:
  "k \<le> 20 \<Longrightarrow> inet_ntop4 src (46 - k) = Inr (dotted src @ [NUL])"
  using length_dotted_le [of src] by (simp add: inet_ntop4_def)

lemma ntop6_text_encap:
  assumes best: "ntop6_best (ntop6_words src) = Some (b, l)"
    and enc: "encap4 (ntop6_words src) (Some (b, l))"
  shows "ntop6_text src = Inr (''::'' @ (if l = 5 then ''ffff:'' else []) @ dotted (drop 12 src))"
proof -
  let ?ws = "ntop6_words src"
  from enc have b: "b = 0" and l: "l = 6 \<or> (l = 5 \<and> ?ws ! 5 = 0xffff)" by (auto simp: encap4_def)
  have up: "[0..<8] = [0..<0 + l] @ [l..<8]" using l upt_split3 [of 0 l] by auto
  have ffff: "hex_nat 0xffff = ''ffff''" by (simp add: hex_nat.simps xdigits_l_def)
  have cs: "c_str (dotted (drop 12 src) @ [NUL]) = dotted (drop 12 src)"
    by (simp add: NUL_notin_dotted)
  have "ntop6_fmt src ?ws (Some (0, l)) [0..<8] [] =
      Inr (''::'' @ (if l = 5 then ''ffff:'' else []) @ dotted (drop 12 src))"
    unfolding up using fmt_whole_run [of l src ?ws 0 "[l..<8]" "[]"] l enc b
      inet_ntop4_room [of 2 "drop 12 src"] inet_ntop4_room [of 7 "drop 12 src"]
    by (elim disjE) (simp_all add: upt_conv_Cons in_run_def encap4_def cs ffff Let_def)
  with l b show ?thesis by (auto simp: ntop6_text_def best Let_def)
qed

section \<open>Round trip\<close>

lemma concat_pairs: "concat (map (\<lambda>i. [f (2 * i), f (2 * i + 1)]) [0..<n]) = map f [0..<2 * n]"
  by (induction n) simp_all

lemma words_bytes:
  assumes "length src = 16"
  shows "bytes_of (ntop6_words src) = src"
proof -
  have "wbytes (unat (x :: byte) * 256 + unat (y :: byte)) = [x, y]" for x y
    using unsigned_less [of y, where ?'a = nat] by (simp add: wbytes_def)
  then have "bytes_of (ntop6_words src) = map ((!) src) [0..<2 * 8]"
    using concat_pairs [of "(!) src" 8] by (simp add: ntop6_words_def bytes_of_def comp_def)
  then show ?thesis using assms map_nth [of src] by simp
qed

lemma words_16: "all16 (ntop6_words src)" "length (ntop6_words src) = 8"
proof -
  have "unat (x :: byte) * 256 + unat (y :: byte) \<le> 0xffff" for x y
    using unsigned_less [of y, where ?'a = nat] unsigned_less [of x, where ?'a = nat] by simp
  then show "all16 (ntop6_words src)" by (auto simp: ntop6_words_def)
qed (simp add: ntop6_words_def)
text \<open>The parser on a printed address, by the shape of the text.\<close>

lemma hd_hex_nat: "\<exists>d rest. d < 16 \<and> hex_nat w = xdigits_l ! d # rest"
proof (induction w rule: hex_nat.induct)
  case (1 w)
  then show ?case by (cases "w < 16") (auto simp: hex_nat.simps [of w])
qed

lemma xdigit_not_colon: "d < 16 \<Longrightarrow> xdigits_l ! d \<noteq> CHR '':''"
  using xdigit_val_nth [of d] by (metis option.distinct(1) xdigit_val_other(1))

lemma inet_pton6_words:
  assumes "ws \<noteq> []"
  shows "inet_pton6 (join_words ws @ rest) = parse6 (join_words ws @ rest) (join_words ws @ rest) (mk6 [] None 0 False)"
proof -
  obtain w vs where "ws = w # vs" using assms by (cases ws) auto
  moreover obtain d r where "d < 16" "hex_nat w = xdigits_l ! d # r" using hd_hex_nat by blast
  ultimately show ?thesis
    by (simp add: inet_pton6_def join_words_def xdigit_not_colon parse6_def pton6_init_mk6)
qed

text \<open>Words, a double colon, and whatever follows it.\<close>

lemma inet_pton6_gap:
  assumes "all16 ws" and "2 * length ws \<le> 16"
  shows "inet_pton6 (join_words ws @ ''::'' @ rest) = parse6 rest rest (mk6 (bytes_of ws) (Some (2 * length ws)) 0 False)"
proof (cases ws)
  case Nil
  then show ?thesis
    by (simp add: inet_pton6_def join_words_def parse6_def pton6_init_mk6 loop_colon(2))
next
  case (Cons w vs)
  let ?all = "join_words ws @ ''::'' @ rest"
  obtain cur' where "inet_pton6_loop (colon_words vs @ ''::'' @ rest) ?all (mk6 [] None w True) =
      inet_pton6_loop (''::'' @ rest) cur' (mk6 (bytes_of (butlast ws)) None (last ws) True)"
    using loop_colon_words [of vs "[]" "''::'' @ rest" ?all None w] assms Cons by auto
  moreover have "ws = butlast ws @ [last ws]" using Cons by simp
  then have "bytes_of ws = bytes_of (butlast ws) @ wbytes (last ws)"
    by (metis append_Nil2 bytes_of_simps)
  moreover have "inet_pton6_loop ?all ?all (mk6 [] None 0 False) =
      inet_pton6_loop (colon_words vs @ ''::'' @ rest) ?all (mk6 [] None w True)"
    using loop_hex [of w "colon_words vs @ ''::'' @ rest" ?all "[]" None] assms(1) Cons
    by (simp add: join_words_def)
  ultimately show ?thesis
    using inet_pton6_words [of ws "''::'' @ rest"] assms Cons by (simp add: parse6_def loop_colon)
qed

lemma loop_dec:
  "n \<le> 255 \<Longrightarrow> \<exists>v \<le> n * n. inet_pton6_loop (dec_nat n @ src) cur (mk6 bs cp 0 False) =
                           inet_pton6_loop src cur (mk6 bs cp v True)"
proof (induction n arbitrary: src rule: dec_nat.induct)
  case (1 n)
  have dig: "d < 10 \<Longrightarrow> digit_chars ! d = xdigits_l ! d" for d
    by (simp add: digit_chars_def xdigits_l_def nth_Cons' numeral_eq_Suc less_Suc_eq) auto
  have sq: "16 * (a * a) + d \<le> (10 * a + d) * (10 * a + d)" for a d :: nat
  proof -
    have "(10 * a + d) * (10 * a + d) = 100 * (a * a) + 20 * (a * d) + d * d" by algebra
    with le_square [of d] show ?thesis by linarith
  qed
  show ?case
  proof (cases "n < 10")
    case True
    then show ?thesis
      using loop_xdigit [of n 0 src cur bs cp False] dig [of n] le_square [of n]
      by (intro exI [of _ n]) (simp add: dec_nat.simps [of n])
  next
    case False
    let ?d = "n mod 10" and ?n = "n div 10"
    have "?n \<le> 25" using "1.prems" by simp
    then obtain v where v: "v \<le> ?n * ?n" and eq: "inet_pton6_loop (dec_nat ?n @ digit_chars ! ?d # src) cur (mk6 bs cp 0 False) =
        inet_pton6_loop (digit_chars ! ?d # src) cur (mk6 bs cp v True)"
      using "1.IH" [OF False, of "digit_chars ! ?d # src"] \<open>?n \<le> 25\<close> by fastforce
    with v have "v \<le> 625" using mult_le_mono [of ?n 25 ?n 25] \<open>?n \<le> 25\<close> by simp
    with v sq [of ?n ?d] have "v * 16 + ?d \<le> n * n" by simp
    then show ?thesis
      using eq loop_xdigit [of ?d v src cur bs cp True] dig [of ?d] \<open>v \<le> 625\<close> False
      by (intro exI [of _ "v * 16 + ?d"]) (simp add: dec_nat.simps [of n])
  qed
qed

lemma parse6_dotted:
  assumes "length bs + 4 \<le> 16" and "length q = 4"
  shows "parse6 (dotted q) (dotted q) (mk6 bs cp 0 False) = fin6 (bs @ q) cp"
proof -
  let ?rest = "dec_nat (unat (q ! 1)) @ ''.'' @ dec_nat (unat (q ! 2)) @ ''.'' @ dec_nat (unat (q ! 3))"
  obtain v where "inet_pton6_loop (dotted q) (dotted q) (mk6 bs cp 0 False) =
      inet_pton6_loop (CHR ''.'' # ?rest) (dotted q) (mk6 bs cp v True)"
    using loop_dec [of "unat (q ! 0)" "CHR ''.'' # ?rest" "dotted q" bs cp] byte_le_255 [of "q ! 0"]
    by (auto simp: dotted_def)
  moreover have "\<dots> = Some (mk6 (bs @ q) cp v False)"
    using assms by (simp add: inet_pton6_loop.simps(2) inet_pton4_dotted mk6_def blit_zeros)
  ultimately show ?thesis using assms by (simp add: parse6_def pton6_finish_stored)
qed
lemma zeros_of_run:
  assumes "zero_run ws b l"
  shows "ws = take b ws @ replicate l 0 @ drop (b + l) ws"
proof -
  have "take l (drop b ws) = replicate l 0"
    using assms by (auto simp: zero_run_def intro: nth_equalityI)
  then show ?thesis by (metis add.commute append_take_drop_id drop_drop)
qed

lemma fin6_gap:
  assumes "length A + length B + g = 16" and "0 < g"
  shows "fin6 (A @ B) (Some (length A)) = Some (A @ replicate g 0 @ B)"
proof -
  have "16 - (length A + length B) = g" using assms(1) by simp
  with shift_tail_move [OF assms] show ?thesis by (simp add: fin6_def)
qed

lemma pton6_ntop6_run:
  assumes "length src = 16" and best: "ntop6_best (ntop6_words src) = Some (b, l)"
  shows "inet_pton6 (join_words (take b (ntop6_words src)) @ ''::'' @ join_words (drop (b + l) (ntop6_words src))) = Some src"
proof -
  let ?ws = "ntop6_words src"
  define A B where AB: "A = take b ?ws" "B = drop (b + l) ?ws"
  have l: "2 \<le> l" and run: "zero_run ?ws b l" using ntop6_best_Some [OF best] by auto
  then have bl: "b + l \<le> 8" using words_16(2) [of src] by (simp add: zero_run_def)
  have ws: "?ws = A @ replicate l 0 @ B" using zeros_of_run [OF run] by (simp add: AB)
  have sub: "all16 A" "all16 B"
    using words_16(1) [of src] by (auto simp: AB dest: in_set_takeD in_set_dropD)
  have len: "length A = b" "length B = 8 - (b + l)" using bl words_16(2) [of src] by (auto simp: AB)
  have "inet_pton6 (join_words A @ ''::'' @ join_words B) = fin6 (bytes_of A @ bytes_of B) (Some (2 * b))"
    using inet_pton6_gap [OF sub(1)] parse6_join [OF sub(2)] bl by (simp add: len)
  also have "\<dots> = Some (bytes_of A @ replicate (2 * l) 0 @ bytes_of B)"
    using fin6_gap [of "bytes_of A" "bytes_of B" "2 * l"] l bl by (simp add: len)
  also have "\<dots> = Some (bytes_of ?ws)"
    using arg_cong [OF ws, of bytes_of] by (simp add: bytes_of_zeros)
  finally show ?thesis using assms(1) by (simp add: words_bytes AB)
qed

lemma pton6_ntop6_encap:
  assumes len: "length src = 16" and best: "ntop6_best (ntop6_words src) = Some (b, l)"
    and enc: "encap4 (ntop6_words src) (Some (b, l))"
  shows "inet_pton6 (''::'' @ (if l = 5 then ''ffff:'' else []) @ dotted (drop 12 src)) = Some src"
proof -
  let ?ws = "ntop6_words src"
  from enc have b: "b = 0" and l: "l = 6 \<or> (l = 5 \<and> ?ws ! 5 = 0xffff)" by (auto simp: encap4_def)
  let ?V = "if l = 5 then [0xffff] else []" and ?q = "drop 12 src"
  have z: "?ws = replicate l 0 @ drop l ?ws"
    using zeros_of_run [OF ntop6_best_Some(2) [OF best]] b by simp
  have "drop l ?ws = ?V @ drop 6 ?ws"
    using l words_16(2) [of src] by (auto simp: Cons_nth_drop_Suc [symmetric])
  with z have ws: "?ws = replicate l 0 @ ?V @ drop 6 ?ws" by simp
  have "bytes_of ?ws = replicate (2 * l) 0 @ bytes_of ?V @ bytes_of (drop 6 ?ws)"
    by (subst ws) (simp add: bytes_of_zeros)
  then have src: "src = replicate (2 * l) 0 @ bytes_of ?V @ bytes_of (drop 6 ?ws)"
    using words_bytes [OF len] by simp
  have "drop 12 src = bytes_of (drop 6 ?ws)"
    using l by (subst src) auto
  with src have src': "src = replicate (2 * l) 0 @ bytes_of ?V @ ?q" by simp
  have ffff: "hex_nat 0xffff = ''ffff''" by (simp add: hex_nat.simps xdigits_l_def)
  have "inet_pton6 (''::'' @ (if l = 5 then ''ffff:'' else []) @ dotted ?q) =
      parse6 (dotted ?q) (dotted ?q) (mk6 (bytes_of ?V) (Some 0) 0 False)"
    using inet_pton6_gap [of "[]" "(if l = 5 then ''ffff:'' else []) @ dotted ?q"]
      loop_hex [of "0xffff" "CHR '':'' # dotted ?q" "''ffff:'' @ dotted ?q" "[]" "Some 0"]
    by (simp add: join_words_def parse6_def ffff loop_colon)
  also have "\<dots> = fin6 (bytes_of ?V @ ?q) (Some 0)"
    using parse6_dotted [of "bytes_of ?V" ?q] len by simp
  also have "\<dots> = Some (replicate (2 * l) 0 @ bytes_of ?V @ ?q)"
    using fin6_gap [of "[]" "bytes_of ?V @ ?q" "2 * l"] l len by auto
  finally show ?thesis using src' by simp
qed

lemma pton6_ntop6:
  assumes "length src = 16"
  shows "\<exists>t. ntop6_text src = Inr t \<and> inet_pton6 t = Some src"
proof (cases "ntop6_best (ntop6_words src)")
  case None
  have "inet_pton6 (join_words (ntop6_words src)) = fin6 (bytes_of (ntop6_words src)) None"
    using inet_pton6_words [of "ntop6_words src" "[]"] words_16(2) [of src]
      parse6_join [OF words_16(1) [of src], of "[]"] by (cases "ntop6_words src") auto
  with ntop6_text_plain [OF None] assms show ?thesis by (simp add: words_bytes fin6_def)
next
  case (Some r)
  obtain b l where r: "r = (b, l)" by (cases r)
  show ?thesis
    using pton6_ntop6_run [OF assms] pton6_ntop6_encap [OF assms] ntop6_text_run [of src b l]
      ntop6_text_encap [of src b l] Some r
    by (cases "encap4 (ntop6_words src) (Some (b, l))") auto
qed
section \<open>The text fits\<close>

lemma length_hex16_le: "w \<le> 0xffff \<Longrightarrow> length (hex_nat w) \<le> 4"
  by (simp add: hex_nat.simps [of w] hex_nat.simps [of "w div 16"] hex_nat.simps [of "w div 16 div 16"]
      hex_nat.simps [of "w div 16 div 16 div 16"])

lemma length_colon_words: "all16 ws \<Longrightarrow> length (colon_words ws) \<le> 5 * length ws"
proof (induction ws)
  case (Cons w ws)
  then show ?case using length_hex16_le [of w] by (simp add: colon_words_def)
qed (simp add: colon_words_def)

lemma length_join_words: "all16 ws \<Longrightarrow> length (join_words ws) \<le> 5 * length ws - 1"
proof (cases ws)
  case (Cons w vs)
  moreover assume "all16 ws"
  ultimately show ?thesis
    using length_hex16_le [of w] length_colon_words [of vs] by (simp add: join_words_def)
qed (simp add: join_words_def)

lemma length_ntop6_text:
  assumes "ntop6_text src = Inr t"
  shows "length t \<le> 39"
proof (cases "ntop6_best (ntop6_words src)")
  case None
  from ntop6_text_plain [OF this] assms length_join_words [OF words_16(1) [of src]] words_16(2) [of src]
  show ?thesis by simp
next
  case (Some r)
  obtain b l where r: "r = (b, l)" by (cases r)
  let ?ws = "ntop6_words src"
  have l: "2 \<le> l" and bl: "b + l \<le> 8"
    using ntop6_best_Some [of ?ws b l] Some r words_16(2) [of src] by (auto simp: zero_run_def)
  have sub: "all16 (take b ?ws)" "all16 (drop (b + l) ?ws)"
    using words_16(1) [of src] by (auto dest: in_set_takeD in_set_dropD)
  show ?thesis
    using length_join_words [OF sub(1)] length_join_words [OF sub(2)] l bl words_16(2) [of src] assms
      ntop6_text_run [of src b l] ntop6_text_encap [of src b l] length_dotted_le [of "drop 12 src"] Some r
    by (cases "encap4 ?ws (Some (b, l))") (auto split: if_splits)
qed

section \<open>Properties\<close>

text \<open>
  C2. Round trip of addresses. For IPv4 and IPv6, with a destination of at least 46 bytes
  (\<^verbatim>\<open>INET6_ADDRSTRLEN\<close>), \<^verbatim>\<open>inet_ntop\<close> succeeds on every address and \<^verbatim>\<open>inet_pton\<close> of its text gives
  the same bytes; the text has at most 39 characters, so the local array \<^verbatim>\<open>tmp\<close> of 46 is never
  overrun.\<close>

theorem inet_pton_ntop:
  assumes "af = AF_INET \<and> length src = 4 \<or> af = AF_INET6 \<and> length src = 16" and "46 \<le> sz"
  shows "\<exists>t. inet_ntop af src sz = Inr (t @ [NUL]) \<and> length t \<le> 39 \<and> inet_pton af t = Inr (Some src)"
  using assms(1)
proof
  assume v4: "af = AF_INET \<and> length src = 4"
  then show ?thesis
    using assms(2) length_dotted_le [of src] by (simp add: inet_ntop_def inet_pton_def inet_ntop4_def inet_pton4_dotted)
next
  assume v6: "af = AF_INET6 \<and> length src = 16"
  then obtain t where "ntop6_text src = Inr t" "inet_pton6 t = Some src" using pton6_ntop6 by blast
  then show ?thesis
    using v6 assms(2) length_ntop6_text [of src t] by (simp add: inet_ntop_def inet_pton_def inet_ntop6_def)
qed

theorem inet_pton_ntop_witness:
  "\<exists>t. inet_ntop AF_INET6 (replicate 10 0 @ [255, 255, 192, 0, 2, 1]) 46 = Inr (t @ [NUL]) \<and> length t \<le> 39 \<and>
       inet_pton AF_INET6 t = Inr (Some (replicate 10 0 @ [255, 255, 192, 0, 2, 1]))"
  by (rule inet_pton_ntop) simp_all

text \<open>
  The printer abbreviates a longest run of zero words, and only if it has at least two words.\<close>

theorem ntop6_best_longest:
  "case ntop6_best ws of
     None \<Rightarrow> \<not> (\<exists>b l. 2 \<le> l \<and> zero_run ws b l)
   | Some (b, l) \<Rightarrow> 2 \<le> l \<and> zero_run ws b l \<and> \<not> (\<exists>b' l'. l < l' \<and> zero_run ws b' l')"
  using best_run_spec [of ws] ntop6_best_Some [of ws]
  by (fastforce simp: ntop6_best_def run_len_def split: option.splits prod.splits if_splits)

text \<open>
  A double colon in an address that already has all eight words is accepted, and the words
  after it are lost: they are stored, but the shift by zero positions then clears each of them.\<close>

theorem inet_pton6_full_gap:
  assumes "all16 ws" and "all16 vs" and "length ws + length vs = 8"
  shows "inet_pton6 (join_words ws @ ''::'' @ join_words vs) = Some (bytes_of ws @ replicate (2 * length vs) 0)"
proof -
  have "length (bytes_of ws) + length (bytes_of vs) = 16" using assms(3) by simp
  from shift_tail_full [OF this]
  have "fin6 (bytes_of ws @ bytes_of vs) (Some (2 * length ws)) = Some (bytes_of ws @ replicate (2 * length vs) 0)"
    using assms(3) by (simp add: fin6_def)
  then show ?thesis using inet_pton6_gap [OF assms(1)] parse6_join [OF assms(2)] assms(3) by simp
qed

theorem inet_pton6_full_gap_witness:
  "inet_pton6 ''1:2:3:4:5:6:7::8'' = Some [0,1, 0,2, 0,3, 0,4, 0,5, 0,6, 0,7, 0,0]"
proof -
  have "join_words [1,2,3,4,5,6,7] @ ''::'' @ join_words [8] = ''1:2:3:4:5:6:7::8''"
    by (simp add: join_words_def colon_words_def hex_nat.simps xdigits_l_def)
  with inet_pton6_full_gap [of "[1,2,3,4,5,6,7]" "[8]"] show ?thesis
    by (simp add: wbytes_def numeral_2_eq_2)
qed

end
