(* ===== verification/Errors.thy ===== *)
theory Errors
  imports Prelude
begin

text \<open>
  The error routines of \<^verbatim>\<open>error.c\<close>. A message is formatted into a buffer of \<^verbatim>\<open>MAXLINE + 1\<close> bytes,
  with the text of \<^verbatim>\<open>errno\<close> appended for the routines that report a system call, and goes to the
  standard error output or, in a daemon, to the system log. The build has \<^verbatim>\<open>HAVE_VSNPRINTF\<close>
  (\<^verbatim>\<open>inc/config.h\<close>). \<^verbatim>\<open>strerror\<close> is an argument.
\<close>

datatype loglevel = LOG_INFO | LOG_ERR

record console =
  con_stderr :: string
  con_syslog :: "(loglevel \<times> string) list"
  daemon_proc :: bool

text \<open>The contents of \<^verbatim>\<open>buf\<close> when it is printed; \<open>msg\<close> is the formatted message.\<close>

definition err_text :: "bool \<Rightarrow> string \<Rightarrow> string \<Rightarrow> string" where
  "err_text errnoflag msg se =
     (let buf = snprintf_str MAXLINE msg; n = length buf
      in (if errnoflag then buf @ snprintf_str (MAXLINE - n) ('': '' @ se) else buf) @ [NL])"

definition err_doit :: "bool \<Rightarrow> loglevel \<Rightarrow> string \<Rightarrow> string \<Rightarrow> console \<Rightarrow> console" where
  "err_doit errnoflag level msg se con =
     (let buf = err_text errnoflag msg se
      in if daemon_proc con then con\<lparr>con_syslog := con_syslog con @ [(level, buf)]\<rparr>
         else con\<lparr>con_stderr := con_stderr con @ buf\<rparr>)"

definition err_ret :: "(errno \<Rightarrow> string) \<Rightarrow> errno \<Rightarrow> string \<Rightarrow> console \<Rightarrow> console" where
  "err_ret strerror e msg con = err_doit True LOG_INFO msg (strerror e) con"

definition err_msg :: "string \<Rightarrow> console \<Rightarrow> console" where
  "err_msg msg con = err_doit False LOG_INFO msg [] con"

text \<open>How the fatal routines end: \<^verbatim>\<open>exit\<close> with a status, or \<^verbatim>\<open>abort\<close>.\<close>

datatype ending = Exited int | Aborted

definition err_sys :: "(errno \<Rightarrow> string) \<Rightarrow> errno \<Rightarrow> string \<Rightarrow> console \<Rightarrow> ending \<times> console" where
  "err_sys strerror e msg con = (Exited 1, err_doit True LOG_ERR msg (strerror e) con)"

definition err_dump :: "(errno \<Rightarrow> string) \<Rightarrow> errno \<Rightarrow> string \<Rightarrow> console \<Rightarrow> ending \<times> console" where
  "err_dump strerror e msg con = (Aborted, err_doit True LOG_ERR msg (strerror e) con)"

definition err_quit :: "string \<Rightarrow> console \<Rightarrow> ending \<times> console" where
  "err_quit msg con = (Exited 1, err_doit False LOG_ERR msg [] con)"

text \<open>
  The end of a process, by the way it died; \<open>old\<close> is the value of \<^verbatim>\<open>errno\<close> when the failing test
  did not set it.
\<close>

definition run_fatal :: "(errno \<Rightarrow> string) \<Rightarrow> errno \<Rightarrow> fatal \<Rightarrow> console \<Rightarrow> ending \<times> console" where
  "run_fatal strerror old f con =
     (case f of
        Err_sys msg e \<Rightarrow> err_sys strerror (case e of Some x \<Rightarrow> x | None \<Rightarrow> old) msg con
      | Err_quit msg \<Rightarrow> err_quit msg con
      | Err_dump msg e \<Rightarrow> err_dump strerror (case e of Some x \<Rightarrow> x | None \<Rightarrow> old) msg con
      | Exit n \<Rightarrow> (Exited n, con))"

lemma err_text_bounds: "length (err_text errnoflag msg se) \<le> MAXLINE"
  by (auto simp: err_text_def snprintf_str_def MAXLINE_def Let_def min_def)

lemma err_text_whole:
  "length msg + 2 + length se < MAXLINE \<Longrightarrow> err_text True msg se = msg @ '': '' @ se @ [NL]"
  "length msg < MAXLINE \<Longrightarrow> err_text False msg se = msg @ [NL]"
  by (simp_all add: err_text_def snprintf_str_def Let_def)

text \<open>
  An error report never overruns its buffer: with the newline and the terminating null the
  text takes at most the \<^verbatim>\<open>MAXLINE + 1\<close> bytes of \<^verbatim>\<open>buf\<close>, it always ends in a newline, exactly one
  such text is added to exactly one of the two outputs, and a message that fits is printed whole.\<close>

theorem err_doit_report:
  "\<exists>t. length (t @ [NL]) + 1 \<le> MAXLINE + 1 \<and>
       err_doit flag level msg se con =
         (if daemon_proc con then con\<lparr>con_syslog := con_syslog con @ [(level, t @ [NL])]\<rparr>
          else con\<lparr>con_stderr := con_stderr con @ t @ [NL]\<rparr>) \<and>
       (if length msg + 2 + length se < MAXLINE then t = (if flag then msg @ '': '' @ se else msg) else True)"
proof -
  have "err_text flag msg se = butlast (err_text flag msg se) @ [NL]" by (simp add: err_text_def Let_def)
  moreover have "length (butlast (err_text flag msg se)) + 1 \<le> MAXLINE"
    using err_text_bounds [of flag msg se] by (simp add: err_text_def Let_def)
  moreover have "butlast (err_text flag msg se) = (if flag then msg @ '': '' @ se else msg)"
    if "length msg + 2 + length se < MAXLINE"
    using err_text_whole [of msg se] that by (cases flag) (simp_all add: butlast_append)
  ultimately show ?thesis
    by (intro exI [of _ "butlast (err_text flag msg se)"]) (auto simp: err_doit_def Let_def)
qed

end
