(* ===== verification/Wrappers.thy ===== *)
theory Wrappers
  imports Errors
begin

text \<open>
  The error-checking wrapper functions of \<^verbatim>\<open>lib.c\<close> around the system calls, the POSIX threads calls and
  standard I/O. The call that is wrapped is an argument: a function of the world that gives its
  return value, the \<^verbatim>\<open>errno\<close> it leaves, and the new world (in which it has filled in what it was given pointers
  to). The five conventions of reporting an error are one locale, interpreted for each, from which it
  follows that a sequence of wrapped calls goes on exactly when each of them has succeeded.
\<close>

section \<open>Conventions\<close>

type_synonym 'w syscall = "'w \<Rightarrow> (int \<times> errno) \<times> 'w"
type_synonym ('z, 'w) ptrcall = "'w \<Rightarrow> ('z option \<times> errno) \<times> 'w"
type_synonym 'w codecall = "'w \<Rightarrow> errno option \<times> 'w"

definition void :: "('a, 'w) prog \<Rightarrow> (unit, 'w) prog" where
  "void m = bindP m (\<lambda>_. returnP ())"

text \<open>\<^verbatim>\<open>if ( (n = f(\<dots>)) < 0) err_sys(msg);\<close> and the same with \<open>== -1\<close>, \<open>!= 0\<close> and \<^verbatim>\<open>err_quit\<close>.\<close>

definition fail_neg :: "string \<Rightarrow> 'w syscall \<Rightarrow> (int, 'w) prog" where
  "fail_neg msg sys w =
     (case sys w of ((n, e), w') \<Rightarrow> if n < 0 then Die (Err_sys msg (Some e)) w' else Ret n w')"

definition fail_m1 :: "string \<Rightarrow> 'w syscall \<Rightarrow> (int, 'w) prog" where
  "fail_m1 msg sys w =
     (case sys w of ((n, e), w') \<Rightarrow> if n = -1 then Die (Err_sys msg (Some e)) w' else Ret n w')"

definition fail_nz :: "string \<Rightarrow> 'w syscall \<Rightarrow> (int, 'w) prog" where
  "fail_nz msg sys w =
     (case sys w of ((n, e), w') \<Rightarrow> if n \<noteq> 0 then Die (Err_sys msg (Some e)) w' else Ret n w')"

definition quit_neg :: "string \<Rightarrow> 'w syscall \<Rightarrow> (int, 'w) prog" where
  "quit_neg msg sys w =
     (case sys w of ((n, e), w') \<Rightarrow> if n < 0 then Die (Err_quit msg) w' else Ret n w')"

text \<open>A count that must be the whole buffer; after a short count \<^verbatim>\<open>errno\<close> is not set.\<close>

definition fail_short :: "nat \<Rightarrow> string \<Rightarrow> 'w syscall \<Rightarrow> (int, 'w) prog" where
  "fail_short nbytes msg sys w =
     (case sys w of ((n, e), w') \<Rightarrow>
        if n \<noteq> int nbytes then Die (Err_sys msg (if n < 0 then Some e else None)) w' else Ret n w')"

text \<open>A pointer that must not be \<^verbatim>\<open>NULL\<close> (for \<^verbatim>\<open>mmap\<close>, not \<^verbatim>\<open>MAP_FAILED\<close>).\<close>

definition fail_null :: "string \<Rightarrow> ('z, 'w) ptrcall \<Rightarrow> ('z, 'w) prog" where
  "fail_null msg sys w =
     (case sys w of ((p, e), w') \<Rightarrow> (case p of None \<Rightarrow> Die (Err_sys msg (Some e)) w' | Some z \<Rightarrow> Ret z w'))"

definition quit_null :: "string \<Rightarrow> ('z, 'w) ptrcall \<Rightarrow> ('z, 'w) prog" where
  "quit_null msg sys w =
     (case sys w of ((p, e), w') \<Rightarrow> (case p of None \<Rightarrow> Die (Err_quit msg) w' | Some z \<Rightarrow> Ret z w'))"

text \<open>The threads calls return the error number, 0 for success; the wrapper stores it in \<^verbatim>\<open>errno\<close>.\<close>

definition fail_code :: "string \<Rightarrow> 'w codecall \<Rightarrow> (unit, 'w) prog" where
  "fail_code msg sys w =
     (case sys w of (c, w') \<Rightarrow> (case c of None \<Rightarrow> Ret () w' | Some e \<Rightarrow> Die (Err_sys msg (Some e)) w'))"

section \<open>The wrappers\<close>

text \<open>
  \<^verbatim>\<open>Accept\<close> tries again after a connection that was aborted before it was returned. The world is the
  sequence of results that the kernel will give; the call blocks when there is none.
\<close>

fun Accept :: "(int, (errno + int) list) prog" where
  "Accept [] = Blocked []"
| "Accept (Inr n # evs) = Ret n evs"
| "Accept (Inl e # evs) =
     (if e = EPROTO \<or> e = ECONNABORTED then Accept evs else Die (Err_sys ''accept error'' (Some e)) evs)"

text \<open>\<^verbatim>\<open>getenv("LISTENQ")\<close> and \<^verbatim>\<open>atoi\<close> of it are the argument \<open>listenq\<close>.\<close>

definition Listen :: "int option \<Rightarrow> ('a \<Rightarrow> int \<Rightarrow> 'w syscall) \<Rightarrow> 'a \<Rightarrow> int \<Rightarrow> (unit, 'w) prog" where
  "Listen listenq sys fd backlog =
     void (fail_neg ''listen error'' (sys fd (case listenq of Some b \<Rightarrow> b | None \<Rightarrow> backlog)))"

text \<open>\<^verbatim>\<open>Sendmsg\<close> first adds up the lengths of the buffers.\<close>

definition Sendmsg :: "('a \<Rightarrow> byte list list \<Rightarrow> 'f \<Rightarrow> 'w syscall) \<Rightarrow> 'a \<Rightarrow> byte list list \<Rightarrow> 'f \<Rightarrow> (unit, 'w) prog" where
  "Sendmsg sys fd iov flags =
     void (fail_short (foldl (\<lambda>n b. n + length b) 0 iov) ''sendmsg error'' (sys fd iov flags))"

text \<open>\<^verbatim>\<open>Sysconf\<close> clears \<^verbatim>\<open>errno\<close> first: \<open>None\<close> if the call leaves it so.\<close>

definition Sysconf :: "('a \<Rightarrow> 'w \<Rightarrow> (int \<times> errno option) \<times> 'w) \<Rightarrow> 'a \<Rightarrow> (int, 'w) prog" where
  "Sysconf sys name w =
     (case sys name w of ((n, e), w') \<Rightarrow> if n = -1 then Die (Err_sys ''sysconf error'' e) w' else Ret n w')"

text \<open>\<^verbatim>\<open>Fgets\<close>: \<^verbatim>\<open>NULL\<close> is an error only if \<^verbatim>\<open>ferror\<close> says so, and end of file otherwise.\<close>

definition Fgets :: "('a \<Rightarrow> 'w \<Rightarrow> string option \<times> 'w) \<Rightarrow> ('w \<Rightarrow> errno option) \<Rightarrow> 'a \<Rightarrow> (string option, 'w) prog" where
  "Fgets sys ferror n w =
     (case sys n w of
        (None, w') \<Rightarrow> (case ferror w' of Some e \<Rightarrow> Die (Err_sys ''fgets error'' (Some e)) w' | None \<Rightarrow> Ret None w')
      | (Some s, w') \<Rightarrow> Ret (Some s) w')"

text \<open>\<^verbatim>\<open>signal\<close>: the flags of the action, the old handler returned, \<open>None\<close> for \<^verbatim>\<open>SIG_ERR\<close>.\<close>

datatype saflag = SA_INTERRUPT | SA_RESTART

definition SIGALRM :: int where "SIGALRM = 14"

type_synonym ('h, 'w) sigaction = "int \<Rightarrow> 'h \<Rightarrow> saflag list \<Rightarrow> ('h, 'w) ptrcall"

definition signal :: "('h, 'w) sigaction \<Rightarrow> int \<Rightarrow> 'h \<Rightarrow> ('h, 'w) ptrcall" where
  "signal sigaction signo func = sigaction signo func (if signo = SIGALRM then [SA_INTERRUPT] else [SA_RESTART])"

definition Signal :: "('h, 'w) sigaction \<Rightarrow> int \<Rightarrow> 'h \<Rightarrow> ('h, 'w) prog" where
  "Signal sigaction signo func = fail_null ''signal error'' (signal sigaction signo func)"

definition Bind :: "('a \<Rightarrow> 'b \<Rightarrow> 'c \<Rightarrow> 'w syscall) \<Rightarrow> 'a \<Rightarrow> 'b \<Rightarrow> 'c \<Rightarrow> (unit, 'w) prog" where
  "Bind sys a1 a2 a3 = void (fail_neg ''bind error'' (sys a1 a2 a3))"

definition Connect :: "('a \<Rightarrow> 'b \<Rightarrow> 'c \<Rightarrow> 'w syscall) \<Rightarrow> 'a \<Rightarrow> 'b \<Rightarrow> 'c \<Rightarrow> (unit, 'w) prog" where
  "Connect sys a1 a2 a3 = void (fail_neg ''connect error'' (sys a1 a2 a3))"

definition Getpeername :: "('a \<Rightarrow> 'b \<Rightarrow> 'c \<Rightarrow> 'w syscall) \<Rightarrow> 'a \<Rightarrow> 'b \<Rightarrow> 'c \<Rightarrow> (unit, 'w) prog" where
  "Getpeername sys a1 a2 a3 = void (fail_neg ''getpeername error'' (sys a1 a2 a3))"

definition Getsockname :: "('a \<Rightarrow> 'b \<Rightarrow> 'c \<Rightarrow> 'w syscall) \<Rightarrow> 'a \<Rightarrow> 'b \<Rightarrow> 'c \<Rightarrow> (unit, 'w) prog" where
  "Getsockname sys a1 a2 a3 = void (fail_neg ''getsockname error'' (sys a1 a2 a3))"

definition Getsockopt :: "('a \<Rightarrow> 'b \<Rightarrow> 'c \<Rightarrow> 'd \<Rightarrow> 'e \<Rightarrow> 'w syscall) \<Rightarrow> 'a \<Rightarrow> 'b \<Rightarrow> 'c \<Rightarrow> 'd \<Rightarrow> 'e \<Rightarrow> (unit, 'w) prog" where
  "Getsockopt sys a1 a2 a3 a4 a5 = void (fail_neg ''getsockopt error'' (sys a1 a2 a3 a4 a5))"

definition Inet6_rth_space :: "('a \<Rightarrow> 'b \<Rightarrow> 'w syscall) \<Rightarrow> 'a \<Rightarrow> 'b \<Rightarrow> (int, 'w) prog" where
  "Inet6_rth_space sys a1 a2 = quit_neg ''inet6_rth_space error'' (sys a1 a2)"

definition Inet6_rth_init :: "('a \<Rightarrow> 'b \<Rightarrow> 'c \<Rightarrow> 'd \<Rightarrow> ('z, 'w) ptrcall) \<Rightarrow> 'a \<Rightarrow> 'b \<Rightarrow> 'c \<Rightarrow> 'd \<Rightarrow> ('z, 'w) prog" where
  "Inet6_rth_init sys a1 a2 a3 a4 = quit_null ''inet6_rth_init error'' (sys a1 a2 a3 a4)"

definition Inet6_rth_add :: "('a \<Rightarrow> 'b \<Rightarrow> 'w syscall) \<Rightarrow> 'a \<Rightarrow> 'b \<Rightarrow> (unit, 'w) prog" where
  "Inet6_rth_add sys a1 a2 = void (quit_neg ''inet6_rth_add error'' (sys a1 a2))"

definition Inet6_rth_reverse :: "('a \<Rightarrow> 'b \<Rightarrow> 'w syscall) \<Rightarrow> 'a \<Rightarrow> 'b \<Rightarrow> (unit, 'w) prog" where
  "Inet6_rth_reverse sys a1 a2 = void (quit_neg ''inet6_rth_reverse error'' (sys a1 a2))"

definition Inet6_rth_segments :: "('a \<Rightarrow> 'w syscall) \<Rightarrow> 'a \<Rightarrow> (int, 'w) prog" where
  "Inet6_rth_segments sys a1 = quit_neg ''inet6_rth_segments error'' (sys a1)"

definition Inet6_rth_getaddr :: "('a \<Rightarrow> 'b \<Rightarrow> ('z, 'w) ptrcall) \<Rightarrow> 'a \<Rightarrow> 'b \<Rightarrow> ('z, 'w) prog" where
  "Inet6_rth_getaddr sys a1 a2 = quit_null ''inet6_rth_getaddr error'' (sys a1 a2)"

definition Kqueue :: "'w syscall \<Rightarrow> (int, 'w) prog" where
  "Kqueue sys = fail_neg ''kqueue error'' sys"

definition Kevent :: "('a \<Rightarrow> 'b \<Rightarrow> 'c \<Rightarrow> 'd \<Rightarrow> 'e \<Rightarrow> 'f \<Rightarrow> 'w syscall) \<Rightarrow> 'a \<Rightarrow> 'b \<Rightarrow> 'c \<Rightarrow> 'd \<Rightarrow> 'e \<Rightarrow> 'f \<Rightarrow> (int, 'w) prog" where
  "Kevent sys a1 a2 a3 a4 a5 a6 = fail_neg ''kevent error'' (sys a1 a2 a3 a4 a5 a6)"

definition Poll :: "('a \<Rightarrow> 'b \<Rightarrow> 'c \<Rightarrow> 'w syscall) \<Rightarrow> 'a \<Rightarrow> 'b \<Rightarrow> 'c \<Rightarrow> (int, 'w) prog" where
  "Poll sys a1 a2 a3 = fail_neg ''poll error'' (sys a1 a2 a3)"

definition Recv :: "('a \<Rightarrow> 'b \<Rightarrow> 'c \<Rightarrow> 'd \<Rightarrow> 'w syscall) \<Rightarrow> 'a \<Rightarrow> 'b \<Rightarrow> 'c \<Rightarrow> 'd \<Rightarrow> (int, 'w) prog" where
  "Recv sys a1 a2 a3 a4 = fail_neg ''recv error'' (sys a1 a2 a3 a4)"

definition Recvfrom :: "('a \<Rightarrow> 'b \<Rightarrow> 'c \<Rightarrow> 'd \<Rightarrow> 'e \<Rightarrow> 'f \<Rightarrow> 'w syscall) \<Rightarrow> 'a \<Rightarrow> 'b \<Rightarrow> 'c \<Rightarrow> 'd \<Rightarrow> 'e \<Rightarrow> 'f \<Rightarrow> (int, 'w) prog" where
  "Recvfrom sys a1 a2 a3 a4 a5 a6 = fail_neg ''recvfrom error'' (sys a1 a2 a3 a4 a5 a6)"

definition Recvmsg :: "('a \<Rightarrow> 'b \<Rightarrow> 'c \<Rightarrow> 'w syscall) \<Rightarrow> 'a \<Rightarrow> 'b \<Rightarrow> 'c \<Rightarrow> (int, 'w) prog" where
  "Recvmsg sys a1 a2 a3 = fail_neg ''recvmsg error'' (sys a1 a2 a3)"

definition Select :: "('a \<Rightarrow> 'b \<Rightarrow> 'c \<Rightarrow> 'd \<Rightarrow> 'e \<Rightarrow> 'w syscall) \<Rightarrow> 'a \<Rightarrow> 'b \<Rightarrow> 'c \<Rightarrow> 'd \<Rightarrow> 'e \<Rightarrow> (int, 'w) prog" where
  "Select sys a1 a2 a3 a4 a5 = fail_neg ''select error'' (sys a1 a2 a3 a4 a5)"

definition Send :: "('a \<Rightarrow> 'b \<Rightarrow> nat \<Rightarrow> 'd \<Rightarrow> 'w syscall) \<Rightarrow> 'a \<Rightarrow> 'b \<Rightarrow> nat \<Rightarrow> 'd \<Rightarrow> (unit, 'w) prog" where
  "Send sys a1 a2 nbytes a4 = void (fail_short nbytes ''send error'' (sys a1 a2 nbytes a4))"

definition Sendto :: "('a \<Rightarrow> 'b \<Rightarrow> nat \<Rightarrow> 'd \<Rightarrow> 'e \<Rightarrow> 'f \<Rightarrow> 'w syscall) \<Rightarrow> 'a \<Rightarrow> 'b \<Rightarrow> nat \<Rightarrow> 'd \<Rightarrow> 'e \<Rightarrow> 'f \<Rightarrow> (unit, 'w) prog" where
  "Sendto sys a1 a2 nbytes a4 a5 a6 = void (fail_short nbytes ''sendto error'' (sys a1 a2 nbytes a4 a5 a6))"

definition Setsockopt :: "('a \<Rightarrow> 'b \<Rightarrow> 'c \<Rightarrow> 'd \<Rightarrow> 'e \<Rightarrow> 'w syscall) \<Rightarrow> 'a \<Rightarrow> 'b \<Rightarrow> 'c \<Rightarrow> 'd \<Rightarrow> 'e \<Rightarrow> (unit, 'w) prog" where
  "Setsockopt sys a1 a2 a3 a4 a5 = void (fail_neg ''setsockopt error'' (sys a1 a2 a3 a4 a5))"

definition Shutdown :: "('a \<Rightarrow> 'b \<Rightarrow> 'w syscall) \<Rightarrow> 'a \<Rightarrow> 'b \<Rightarrow> (unit, 'w) prog" where
  "Shutdown sys a1 a2 = void (fail_neg ''shutdown error'' (sys a1 a2))"

definition Sockatmark :: "('a \<Rightarrow> 'w syscall) \<Rightarrow> 'a \<Rightarrow> (int, 'w) prog" where
  "Sockatmark sys a1 = fail_neg ''sockatmark error'' (sys a1)"

definition Socket :: "('a \<Rightarrow> 'b \<Rightarrow> 'c \<Rightarrow> 'w syscall) \<Rightarrow> 'a \<Rightarrow> 'b \<Rightarrow> 'c \<Rightarrow> (int, 'w) prog" where
  "Socket sys a1 a2 a3 = fail_neg ''socket error'' (sys a1 a2 a3)"

definition Socketpair :: "('a \<Rightarrow> 'b \<Rightarrow> 'c \<Rightarrow> 'd \<Rightarrow> 'w syscall) \<Rightarrow> 'a \<Rightarrow> 'b \<Rightarrow> 'c \<Rightarrow> 'd \<Rightarrow> (unit, 'w) prog" where
  "Socketpair sys a1 a2 a3 a4 = void (fail_neg ''socketpair error'' (sys a1 a2 a3 a4))"

definition Pthread_create :: "('a \<Rightarrow> 'b \<Rightarrow> 'c \<Rightarrow> 'd \<Rightarrow> 'w codecall) \<Rightarrow> 'a \<Rightarrow> 'b \<Rightarrow> 'c \<Rightarrow> 'd \<Rightarrow> (unit, 'w) prog" where
  "Pthread_create sys a1 a2 a3 a4 = void (fail_code ''pthread_create error'' (sys a1 a2 a3 a4))"

definition Pthread_join :: "('a \<Rightarrow> 'b \<Rightarrow> 'w codecall) \<Rightarrow> 'a \<Rightarrow> 'b \<Rightarrow> (unit, 'w) prog" where
  "Pthread_join sys a1 a2 = void (fail_code ''pthread_join error'' (sys a1 a2))"

definition Pthread_detach :: "('a \<Rightarrow> 'w codecall) \<Rightarrow> 'a \<Rightarrow> (unit, 'w) prog" where
  "Pthread_detach sys a1 = void (fail_code ''pthread_detach error'' (sys a1))"

definition Pthread_kill :: "('a \<Rightarrow> 'b \<Rightarrow> 'w codecall) \<Rightarrow> 'a \<Rightarrow> 'b \<Rightarrow> (unit, 'w) prog" where
  "Pthread_kill sys a1 a2 = void (fail_code ''pthread_kill error'' (sys a1 a2))"

definition Pthread_mutexattr_init :: "('a \<Rightarrow> 'w codecall) \<Rightarrow> 'a \<Rightarrow> (unit, 'w) prog" where
  "Pthread_mutexattr_init sys a1 = void (fail_code ''pthread_mutexattr_init error'' (sys a1))"

definition Pthread_mutexattr_setpshared :: "('a \<Rightarrow> 'b \<Rightarrow> 'w codecall) \<Rightarrow> 'a \<Rightarrow> 'b \<Rightarrow> (unit, 'w) prog" where
  "Pthread_mutexattr_setpshared sys a1 a2 = void (fail_code ''pthread_mutexattr_setpshared error'' (sys a1 a2))"

definition Pthread_mutex_init :: "('a \<Rightarrow> 'b \<Rightarrow> 'w codecall) \<Rightarrow> 'a \<Rightarrow> 'b \<Rightarrow> (unit, 'w) prog" where
  "Pthread_mutex_init sys a1 a2 = void (fail_code ''pthread_mutex_init error'' (sys a1 a2))"

definition Pthread_mutex_lock :: "('a \<Rightarrow> 'w codecall) \<Rightarrow> 'a \<Rightarrow> (unit, 'w) prog" where
  "Pthread_mutex_lock sys a1 = void (fail_code ''pthread_mutex_lock error'' (sys a1))"

definition Pthread_mutex_unlock :: "('a \<Rightarrow> 'w codecall) \<Rightarrow> 'a \<Rightarrow> (unit, 'w) prog" where
  "Pthread_mutex_unlock sys a1 = void (fail_code ''pthread_mutex_unlock error'' (sys a1))"

definition Pthread_cond_broadcast :: "('a \<Rightarrow> 'w codecall) \<Rightarrow> 'a \<Rightarrow> (unit, 'w) prog" where
  "Pthread_cond_broadcast sys a1 = void (fail_code ''pthread_cond_broadcast error'' (sys a1))"

definition Pthread_cond_signal :: "('a \<Rightarrow> 'w codecall) \<Rightarrow> 'a \<Rightarrow> (unit, 'w) prog" where
  "Pthread_cond_signal sys a1 = void (fail_code ''pthread_cond_signal error'' (sys a1))"

definition Pthread_cond_wait :: "('a \<Rightarrow> 'b \<Rightarrow> 'w codecall) \<Rightarrow> 'a \<Rightarrow> 'b \<Rightarrow> (unit, 'w) prog" where
  "Pthread_cond_wait sys a1 a2 = void (fail_code ''pthread_cond_wait error'' (sys a1 a2))"

definition Pthread_cond_timedwait :: "('a \<Rightarrow> 'b \<Rightarrow> 'c \<Rightarrow> 'w codecall) \<Rightarrow> 'a \<Rightarrow> 'b \<Rightarrow> 'c \<Rightarrow> (unit, 'w) prog" where
  "Pthread_cond_timedwait sys a1 a2 a3 = void (fail_code ''pthread_cond_timedwait error'' (sys a1 a2 a3))"

definition Pthread_once :: "('a \<Rightarrow> 'b \<Rightarrow> 'w codecall) \<Rightarrow> 'a \<Rightarrow> 'b \<Rightarrow> (unit, 'w) prog" where
  "Pthread_once sys a1 a2 = void (fail_code ''pthread_once error'' (sys a1 a2))"

definition Pthread_key_create :: "('a \<Rightarrow> 'b \<Rightarrow> 'w codecall) \<Rightarrow> 'a \<Rightarrow> 'b \<Rightarrow> (unit, 'w) prog" where
  "Pthread_key_create sys a1 a2 = void (fail_code ''pthread_key_create error'' (sys a1 a2))"

definition Pthread_setspecific :: "('a \<Rightarrow> 'b \<Rightarrow> 'w codecall) \<Rightarrow> 'a \<Rightarrow> 'b \<Rightarrow> (unit, 'w) prog" where
  "Pthread_setspecific sys a1 a2 = void (fail_code ''pthread_setspecific error'' (sys a1 a2))"

definition Calloc :: "('a \<Rightarrow> 'b \<Rightarrow> ('z, 'w) ptrcall) \<Rightarrow> 'a \<Rightarrow> 'b \<Rightarrow> ('z, 'w) prog" where
  "Calloc sys a1 a2 = fail_null ''calloc error'' (sys a1 a2)"

definition Close :: "('a \<Rightarrow> 'w syscall) \<Rightarrow> 'a \<Rightarrow> (unit, 'w) prog" where
  "Close sys a1 = void (fail_m1 ''close error'' (sys a1))"

definition Dup2 :: "('a \<Rightarrow> 'b \<Rightarrow> 'w syscall) \<Rightarrow> 'a \<Rightarrow> 'b \<Rightarrow> (unit, 'w) prog" where
  "Dup2 sys a1 a2 = void (fail_m1 ''dup2 error'' (sys a1 a2))"

definition Fcntl :: "('a \<Rightarrow> 'b \<Rightarrow> 'c \<Rightarrow> 'w syscall) \<Rightarrow> 'a \<Rightarrow> 'b \<Rightarrow> 'c \<Rightarrow> (int, 'w) prog" where
  "Fcntl sys a1 a2 a3 = fail_m1 ''fcntl error'' (sys a1 a2 a3)"

definition Gettimeofday :: "('a \<Rightarrow> 'b \<Rightarrow> 'w syscall) \<Rightarrow> 'a \<Rightarrow> 'b \<Rightarrow> (unit, 'w) prog" where
  "Gettimeofday sys a1 a2 = void (fail_m1 ''gettimeofday error'' (sys a1 a2))"

definition Ioctl :: "('a \<Rightarrow> 'b \<Rightarrow> 'c \<Rightarrow> 'w syscall) \<Rightarrow> 'a \<Rightarrow> 'b \<Rightarrow> 'c \<Rightarrow> (int, 'w) prog" where
  "Ioctl sys a1 a2 a3 = fail_m1 ''ioctl error'' (sys a1 a2 a3)"

definition Fork :: "'w syscall \<Rightarrow> (int, 'w) prog" where
  "Fork sys = fail_m1 ''fork error'' sys"

definition Malloc :: "('a \<Rightarrow> ('z, 'w) ptrcall) \<Rightarrow> 'a \<Rightarrow> ('z, 'w) prog" where
  "Malloc sys a1 = fail_null ''malloc error'' (sys a1)"

definition Mkstemp :: "('a \<Rightarrow> 'w syscall) \<Rightarrow> 'a \<Rightarrow> (int, 'w) prog" where
  "Mkstemp sys a1 = quit_neg ''mkstemp error'' (sys a1)"

definition Mmap :: "('a \<Rightarrow> 'b \<Rightarrow> 'c \<Rightarrow> 'd \<Rightarrow> 'e \<Rightarrow> 'f \<Rightarrow> ('z, 'w) ptrcall) \<Rightarrow> 'a \<Rightarrow> 'b \<Rightarrow> 'c \<Rightarrow> 'd \<Rightarrow> 'e \<Rightarrow> 'f \<Rightarrow> ('z, 'w) prog" where
  "Mmap sys a1 a2 a3 a4 a5 a6 = fail_null ''mmap error'' (sys a1 a2 a3 a4 a5 a6)"

definition Open :: "(string \<Rightarrow> 'b \<Rightarrow> 'c \<Rightarrow> 'w syscall) \<Rightarrow> string \<Rightarrow> 'b \<Rightarrow> 'c \<Rightarrow> (int, 'w) prog" where
  "Open sys pathname a2 a3 = fail_m1 (''open error for '' @ pathname) (sys pathname a2 a3)"

definition Pipe :: "('a \<Rightarrow> 'w syscall) \<Rightarrow> 'a \<Rightarrow> (unit, 'w) prog" where
  "Pipe sys a1 = void (fail_neg ''pipe error'' (sys a1))"

definition Read :: "('a \<Rightarrow> 'b \<Rightarrow> 'c \<Rightarrow> 'w syscall) \<Rightarrow> 'a \<Rightarrow> 'b \<Rightarrow> 'c \<Rightarrow> (int, 'w) prog" where
  "Read sys a1 a2 a3 = fail_m1 ''read error'' (sys a1 a2 a3)"

definition Sigaddset :: "('a \<Rightarrow> 'b \<Rightarrow> 'w syscall) \<Rightarrow> 'a \<Rightarrow> 'b \<Rightarrow> (unit, 'w) prog" where
  "Sigaddset sys a1 a2 = void (fail_m1 ''sigaddset error'' (sys a1 a2))"

definition Sigdelset :: "('a \<Rightarrow> 'b \<Rightarrow> 'w syscall) \<Rightarrow> 'a \<Rightarrow> 'b \<Rightarrow> (unit, 'w) prog" where
  "Sigdelset sys a1 a2 = void (fail_m1 ''sigdelset error'' (sys a1 a2))"

definition Sigemptyset :: "('a \<Rightarrow> 'w syscall) \<Rightarrow> 'a \<Rightarrow> (unit, 'w) prog" where
  "Sigemptyset sys a1 = void (fail_m1 ''sigemptyset error'' (sys a1))"

definition Sigfillset :: "('a \<Rightarrow> 'w syscall) \<Rightarrow> 'a \<Rightarrow> (unit, 'w) prog" where
  "Sigfillset sys a1 = void (fail_m1 ''sigfillset error'' (sys a1))"

definition Sigismember :: "('a \<Rightarrow> 'b \<Rightarrow> 'w syscall) \<Rightarrow> 'a \<Rightarrow> 'b \<Rightarrow> (int, 'w) prog" where
  "Sigismember sys a1 a2 = fail_m1 ''sigismember error'' (sys a1 a2)"

definition Sigpending :: "('a \<Rightarrow> 'w syscall) \<Rightarrow> 'a \<Rightarrow> (unit, 'w) prog" where
  "Sigpending sys a1 = void (fail_m1 ''sigpending error'' (sys a1))"

definition Sigprocmask :: "('a \<Rightarrow> 'b \<Rightarrow> 'c \<Rightarrow> 'w syscall) \<Rightarrow> 'a \<Rightarrow> 'b \<Rightarrow> 'c \<Rightarrow> (unit, 'w) prog" where
  "Sigprocmask sys a1 a2 a3 = void (fail_m1 ''sigprocmask error'' (sys a1 a2 a3))"

definition Strdup :: "('a \<Rightarrow> ('z, 'w) ptrcall) \<Rightarrow> 'a \<Rightarrow> ('z, 'w) prog" where
  "Strdup sys a1 = fail_null ''strdup error'' (sys a1)"

definition Sysctl :: "('a \<Rightarrow> 'b \<Rightarrow> 'c \<Rightarrow> 'd \<Rightarrow> 'e \<Rightarrow> 'f \<Rightarrow> 'w syscall) \<Rightarrow> 'a \<Rightarrow> 'b \<Rightarrow> 'c \<Rightarrow> 'd \<Rightarrow> 'e \<Rightarrow> 'f \<Rightarrow> (unit, 'w) prog" where
  "Sysctl sys a1 a2 a3 a4 a5 a6 = void (fail_m1 ''sysctl error'' (sys a1 a2 a3 a4 a5 a6))"

definition Unlink :: "(string \<Rightarrow> 'w syscall) \<Rightarrow> string \<Rightarrow> (unit, 'w) prog" where
  "Unlink sys pathname = void (fail_m1 (''unlink error for '' @ pathname) (sys pathname))"

definition Wait :: "('a \<Rightarrow> 'w syscall) \<Rightarrow> 'a \<Rightarrow> (int, 'w) prog" where
  "Wait sys a1 = fail_m1 ''wait error'' (sys a1)"

definition Waitpid :: "('a \<Rightarrow> 'b \<Rightarrow> 'c \<Rightarrow> 'w syscall) \<Rightarrow> 'a \<Rightarrow> 'b \<Rightarrow> 'c \<Rightarrow> (int, 'w) prog" where
  "Waitpid sys a1 a2 a3 = fail_m1 ''waitpid error'' (sys a1 a2 a3)"

definition Write :: "('a \<Rightarrow> 'b \<Rightarrow> nat \<Rightarrow> 'w syscall) \<Rightarrow> 'a \<Rightarrow> 'b \<Rightarrow> nat \<Rightarrow> (unit, 'w) prog" where
  "Write sys a1 a2 nbytes = void (fail_short nbytes ''write error'' (sys a1 a2 nbytes))"

definition Fclose :: "('a \<Rightarrow> 'w syscall) \<Rightarrow> 'a \<Rightarrow> (unit, 'w) prog" where
  "Fclose sys a1 = void (fail_nz ''fclose error'' (sys a1))"

definition Fdopen :: "('a \<Rightarrow> 'b \<Rightarrow> ('z, 'w) ptrcall) \<Rightarrow> 'a \<Rightarrow> 'b \<Rightarrow> ('z, 'w) prog" where
  "Fdopen sys a1 a2 = fail_null ''fdopen error'' (sys a1 a2)"

definition Fopen :: "('a \<Rightarrow> 'b \<Rightarrow> ('z, 'w) ptrcall) \<Rightarrow> 'a \<Rightarrow> 'b \<Rightarrow> ('z, 'w) prog" where
  "Fopen sys a1 a2 = fail_null ''fopen error'' (sys a1 a2)"

definition Fputs :: "('a \<Rightarrow> 'b \<Rightarrow> 'w syscall) \<Rightarrow> 'a \<Rightarrow> 'b \<Rightarrow> (unit, 'w) prog" where
  "Fputs sys a1 a2 = void (fail_m1 ''fputs error'' (sys a1 a2))"

section \<open>The contract of the conventions\<close>

text \<open>
  A wrapper of a call with results of type \<open>'r\<close>: it performs the call once, returns the value of a
  good result, and ends the process on any other.
\<close>

locale checked_call =
  fixes wrap :: "('w \<Rightarrow> 'r \<times> 'w) \<Rightarrow> ('a, 'w) prog"
    and good :: "'r \<Rightarrow> bool" and val :: "'r \<Rightarrow> 'a" and err :: "'r \<Rightarrow> fatal"
  assumes wrap_good: "sys w = (r, w') \<Longrightarrow> good r \<Longrightarrow> wrap sys w = Ret (val r) w'"
    and wrap_bad: "sys w = (r, w') \<Longrightarrow> \<not> good r \<Longrightarrow> wrap sys w = Die (err r) w'"
begin

lemma wrap_iff: "wrap sys w = Ret a w' \<longleftrightarrow> (\<exists>r. sys w = (r, w') \<and> good r \<and> a = val r)"
  using wrap_good wrap_bad by (cases "sys w"; cases "good (fst (sys w))") auto

lemma wrap_then:
  "bindP (wrap sys) k w = Ret b w2 \<longleftrightarrow> (\<exists>r w1. sys w = (r, w1) \<and> good r \<and> k (val r) w1 = Ret b w2)"
  using wrap_good wrap_bad by (cases "sys w"; cases "good (fst (sys w))") (auto simp: bindP_def)

lemma wrap_void_then:
  "bindP (void (wrap sys)) k w = Ret b w2 \<longleftrightarrow> (\<exists>r w1. sys w = (r, w1) \<and> good r \<and> k () w1 = Ret b w2)"
  using wrap_good wrap_bad by (cases "sys w"; cases "good (fst (sys w))") (auto simp: bindP_def void_def returnP_def)

lemma wrap_void: "void (wrap sys) w = Ret u w2 \<longleftrightarrow> (\<exists>r. sys w = (r, w2) \<and> good r)"
  using wrap_good wrap_bad by (cases "sys w"; cases "good (fst (sys w))") (auto simp: bindP_def void_def returnP_def)

lemma wrap_not_blocked: "wrap sys w \<noteq> Blocked w'"
  using wrap_good wrap_bad by (cases "sys w"; cases "good (fst (sys w))") auto

end

interpretation neg: checked_call "fail_neg msg" "\<lambda>r. 0 \<le> fst r" fst "\<lambda>r. Err_sys msg (Some (snd r))" for msg
  by unfold_locales (auto simp: fail_neg_def)

interpretation m1: checked_call "fail_m1 msg" "\<lambda>r. fst r \<noteq> -1" fst "\<lambda>r. Err_sys msg (Some (snd r))" for msg
  by unfold_locales (auto simp: fail_m1_def)

interpretation nz: checked_call "fail_nz msg" "\<lambda>r. fst r = 0" fst "\<lambda>r. Err_sys msg (Some (snd r))" for msg
  by unfold_locales (auto simp: fail_nz_def)

interpretation negq: checked_call "quit_neg msg" "\<lambda>r. 0 \<le> fst r" fst "\<lambda>r. Err_quit msg" for msg
  by unfold_locales (auto simp: quit_neg_def)

interpretation short: checked_call "fail_short nbytes msg" "\<lambda>r. fst r = int nbytes" fst
    "\<lambda>r. Err_sys msg (if fst r < 0 then Some (snd r) else None)" for nbytes msg
  by unfold_locales (auto simp: fail_short_def)

interpretation null: checked_call "fail_null msg" "\<lambda>r. fst r \<noteq> None" "\<lambda>r. the (fst r)"
    "\<lambda>r. Err_sys msg (Some (snd r))" for msg
  by unfold_locales (auto simp: fail_null_def)

interpretation nullq: checked_call "quit_null msg" "\<lambda>r. fst r \<noteq> None" "\<lambda>r. the (fst r)" "\<lambda>r. Err_quit msg" for msg
  by unfold_locales (auto simp: quit_null_def)

interpretation code: checked_call "fail_code msg" "\<lambda>r. r = None" "\<lambda>r. ()" "\<lambda>r. Err_sys msg r" for msg
  by unfold_locales (auto simp: fail_code_def)

section \<open>Accept\<close>

definition aborted :: "errno + int \<Rightarrow> bool" where
  "aborted r = (case r of Inl e \<Rightarrow> e = EPROTO \<or> e = ECONNABORTED | Inr n \<Rightarrow> False)"

text \<open>
  \<^verbatim>\<open>Accept\<close> skips every connection that was aborted by the client and nothing else: its outcome
  is decided by the first other result, a descriptor that it returns or an error (an
  interruption by a signal included) that ends the process.\<close>

theorem Accept_first_live:
  "Accept evs =
     (case dropWhile aborted evs of
        [] \<Rightarrow> Blocked []
      | Inr n # rest \<Rightarrow> Ret n rest
      | Inl e # rest \<Rightarrow> Die (Err_sys ''accept error'' (Some e)) rest)"
  by (induction evs rule: Accept.induct) (auto simp: aborted_def)

end
