(* ===== verification/Sockaddr.thy ===== *)
theory Sockaddr
  imports Inet6 Wrappers
begin

text \<open>
  Protocol-independent handling of socket addresses, the \<^verbatim>\<open>sock_*\<close> functions of \<^verbatim>\<open>lib.c\<close>. Addresses
  and ports are kept in network byte order, as in the structures. The conversion between addresses
  and text is a parameter with its contract as a locale, interpreted on the functions of \<^verbatim>\<open>libfree\<close>.
\<close>

section \<open>Socket addresses\<close>

datatype sockaddr =
    Sockaddr_in "16 word" "byte list"
  | Sockaddr_in6 "16 word" "byte list"
  | Sockaddr_un "char list"
  | Sockaddr_other nat

definition ntohs :: "16 word \<Rightarrow> 16 word" where
  "ntohs x = or (push_bit 8 x) (drop_bit 8 x)"

fun sa_family :: "sockaddr \<Rightarrow> family" where
  "sa_family (Sockaddr_in p a) = AF_INET"
| "sa_family (Sockaddr_in6 p a) = AF_INET6"
| "sa_family (Sockaddr_un path) = AF_UNIX"
| "sa_family (Sockaddr_other n) = AF_OTHER n"

fun sa_wf :: "sockaddr \<Rightarrow> bool" where
  "sa_wf (Sockaddr_in p a) = (length a = 4)"
| "sa_wf (Sockaddr_in6 p a) = (length a = 16)"
| "sa_wf (Sockaddr_un path) = (length path = 108)"
| "sa_wf (Sockaddr_other n) = True"

type_synonym ntop = "family \<Rightarrow> byte list \<Rightarrow> nat \<Rightarrow> errno + char list"

section \<open>Presentation\<close>

text \<open>\<^verbatim>\<open>%d\<close> of a port in host order, behind a prefix, in a buffer of 8 bytes.\<close>

definition portstr :: "string \<Rightarrow> 16 word \<Rightarrow> string" where
  "portstr pre port = snprintf_str 8 (pre @ dec_nat (unat (ntohs port)))"

definition path_text :: "char list \<Rightarrow> string" where
  "path_text path = (if c_str path = [] then ''(no pathname bound)'' else snprintf_str 128 (c_str path))"

fun sock_ntop :: "ntop \<Rightarrow> sockaddr \<Rightarrow> nat \<Rightarrow> errno + string" where
  "sock_ntop ntop (Sockaddr_in port a) salen =
     (case ntop AF_INET a 128 of
        Inl e \<Rightarrow> Inl e
      | Inr w \<Rightarrow> Inr (if ntohs port \<noteq> 0 then c_str w @ portstr '':'' port else c_str w))"
| "sock_ntop ntop (Sockaddr_in6 port a) salen =
     (case ntop AF_INET6 a 127 of
        Inl e \<Rightarrow> Inl e
      | Inr w \<Rightarrow> Inr (if ntohs port \<noteq> 0 then ''['' @ c_str w @ portstr '']:'' port else c_str w))"
| "sock_ntop ntop (Sockaddr_un path) salen = Inr (path_text path)"
| "sock_ntop ntop (Sockaddr_other n) salen =
     Inr (snprintf_str 128 (''sock_ntop: unknown AF_xxx: '' @ dec_nat n @ '', len '' @ dec_nat salen))"

definition Sock_ntop :: "ntop \<Rightarrow> sockaddr \<Rightarrow> nat \<Rightarrow> (string, 'w) prog" where
  "Sock_ntop ntop sa salen w =
     (case sock_ntop ntop sa salen of Inl e \<Rightarrow> Die (Err_sys ''sock_ntop error'' (Some e)) w | Inr s \<Rightarrow> Ret s w)"

fun sock_ntop_host :: "ntop \<Rightarrow> sockaddr \<Rightarrow> nat \<Rightarrow> errno + string" where
  "sock_ntop_host ntop (Sockaddr_in port a) salen = map_sum id c_str (ntop AF_INET a 128)"
| "sock_ntop_host ntop (Sockaddr_in6 port a) salen = map_sum id c_str (ntop AF_INET6 a 128)"
| "sock_ntop_host ntop (Sockaddr_un path) salen = Inr (path_text path)"
| "sock_ntop_host ntop (Sockaddr_other n) salen =
     Inr (snprintf_str 128 (''sock_ntop_host: unknown AF_xxx: '' @ dec_nat n @ '', len '' @ dec_nat salen))"

definition Sock_ntop_host :: "ntop \<Rightarrow> sockaddr \<Rightarrow> nat \<Rightarrow> (string, 'w) prog" where
  "Sock_ntop_host ntop sa salen w =
     (case sock_ntop_host ntop sa salen of Inl e \<Rightarrow> Die (Err_sys ''sock_ntop_host error'' (Some e)) w | Inr s \<Rightarrow> Ret s w)"

text \<open>
  \<^verbatim>\<open>Inet_ntop\<close> and \<^verbatim>\<open>Inet_pton\<close>; a null third argument is \<open>False\<close>.
\<close>

definition Inet_ntop :: "ntop \<Rightarrow> family \<Rightarrow> byte list \<Rightarrow> bool \<Rightarrow> nat \<Rightarrow> (string, 'w) prog" where
  "Inet_ntop ntop af a strptr len w =
     (if \<not> strptr then Die (Err_quit ''NULL 3rd argument to inet_ntop'') w
      else case ntop af a len of Inl e \<Rightarrow> Die (Err_sys ''inet_ntop error'' (Some e)) w | Inr s \<Rightarrow> Ret (c_str s) w)"

definition Inet_pton :: "(family \<Rightarrow> string \<Rightarrow> errno + byte list option) \<Rightarrow> family \<Rightarrow> string \<Rightarrow> (byte list, 'w) prog" where
  "Inet_pton pton af s w =
     (case pton af s of
        Inl e \<Rightarrow> Die (Err_sys (''inet_pton error for '' @ s) (Some e)) w
      | Inr None \<Rightarrow> Die (Err_quit (''inet_pton error for '' @ s)) w
      | Inr (Some a) \<Rightarrow> Ret a w)"

section \<open>Comparing and changing addresses\<close>

text \<open>The sign of \<^verbatim>\<open>memcmp\<close> and \<^verbatim>\<open>strcmp\<close>.\<close>

fun memcmp :: "nat list \<Rightarrow> nat list \<Rightarrow> int" where
  "memcmp (x # xs) (y # ys) = (if x < y then -1 else if y < x then 1 else memcmp xs ys)"
| "memcmp [] [] = 0"
| "memcmp [] (y # ys) = -1"
| "memcmp (x # xs) [] = 1"

definition strcmp :: "char list \<Rightarrow> char list \<Rightarrow> int" where
  "strcmp s t = memcmp (map of_char (c_str s)) (map of_char (c_str t))"

fun sock_cmp_addr :: "sockaddr \<Rightarrow> sockaddr \<Rightarrow> int" where
  "sock_cmp_addr (Sockaddr_in p a) (Sockaddr_in q b) = memcmp (map unat a) (map unat b)"
| "sock_cmp_addr (Sockaddr_in6 p a) (Sockaddr_in6 q b) = memcmp (map unat a) (map unat b)"
| "sock_cmp_addr (Sockaddr_un s) (Sockaddr_un t) = strcmp s t"
| "sock_cmp_addr _ _ = -1"

fun sock_cmp_port :: "sockaddr \<Rightarrow> sockaddr \<Rightarrow> int" where
  "sock_cmp_port (Sockaddr_in p a) (Sockaddr_in q b) = (if p = q then 1 else 0)"
| "sock_cmp_port (Sockaddr_in6 p a) (Sockaddr_in6 q b) = (if p = q then 1 else 0)"
| "sock_cmp_port _ _ = -1"

fun sock_get_port :: "sockaddr \<Rightarrow> int" where
  "sock_get_port (Sockaddr_in p a) = uint p"
| "sock_get_port (Sockaddr_in6 p a) = uint p"
| "sock_get_port _ = -1"

text \<open>\<^verbatim>\<open>memcpy\<close> of as many bytes as the family's address has.\<close>

fun sock_set_addr :: "sockaddr \<Rightarrow> byte list \<Rightarrow> sockaddr" where
  "sock_set_addr (Sockaddr_in p a) addr = Sockaddr_in p (take 4 addr)"
| "sock_set_addr (Sockaddr_in6 p a) addr = Sockaddr_in6 p (take 16 addr)"
| "sock_set_addr sa addr = sa"

fun sock_set_port :: "sockaddr \<Rightarrow> int \<Rightarrow> sockaddr" where
  "sock_set_port (Sockaddr_in p a) port = Sockaddr_in (of_int port) a"
| "sock_set_port (Sockaddr_in6 p a) port = Sockaddr_in6 (of_int port) a"
| "sock_set_port sa port = sa"

fun sock_set_wild :: "sockaddr \<Rightarrow> sockaddr" where
  "sock_set_wild (Sockaddr_in p a) = sock_set_addr (Sockaddr_in p a) (replicate 4 0)"
| "sock_set_wild (Sockaddr_in6 p a) = sock_set_addr (Sockaddr_in6 p a) (replicate 16 0)"
| "sock_set_wild sa = sa"

text \<open>
  \<^verbatim>\<open>sock_bind_wild\<close>: \<^verbatim>\<open>bind\<close> to the wildcard address and port 0, then the port that the kernel chose
  (in network order), or \<open>-1\<close>. For another family no call is made and \<^verbatim>\<open>errno\<close> keeps its \<open>old\<close> value.
\<close>

definition sock_bind_wild :: "errno \<Rightarrow> ('a \<Rightarrow> sockaddr \<Rightarrow> 'w syscall) \<Rightarrow> ('a \<Rightarrow> (sockaddr, 'w) ptrcall) \<Rightarrow> 'a \<Rightarrow> family \<Rightarrow> 'w \<Rightarrow> (int \<times> errno) \<times> 'w" where
  "sock_bind_wild old bind getsockname sockfd fam w =
     (let go = (\<lambda>sin. case bind sockfd sin w of
                  ((n, e), w1) \<Rightarrow>
                    if n < 0 then ((-1, e), w1)
                    else (case getsockname sockfd w1 of
                            ((None, e), w2) \<Rightarrow> ((-1, e), w2)
                          | ((Some sa, e), w2) \<Rightarrow> ((sock_get_port sa, e), w2)))
      in case fam of
           AF_INET \<Rightarrow> go (Sockaddr_in 0 (replicate 4 0))
         | AF_INET6 \<Rightarrow> go (Sockaddr_in6 0 (replicate 16 0))
         | _ \<Rightarrow> ((-1, old), w))"

definition Sock_bind_wild :: "errno \<Rightarrow> ('a \<Rightarrow> sockaddr \<Rightarrow> 'w syscall) \<Rightarrow> ('a \<Rightarrow> (sockaddr, 'w) ptrcall) \<Rightarrow> 'a \<Rightarrow> family \<Rightarrow> (int, 'w) prog" where
  "Sock_bind_wild old bind getsockname sockfd fam =
     fail_neg ''sock_bind_wild error'' (sock_bind_wild old bind getsockname sockfd fam)"
section \<open>The contract of the conversion\<close>

definition v4_chars :: "char set" where
  "v4_chars = insert (CHR ''.'') (set digit_chars)"

definition v6_chars :: "char set" where
  "v6_chars = insert (CHR '':'') (insert (CHR ''.'') (set xdigits_l))"

text \<open>The text of an address and its port, of which the printed form is made.\<close>

definition port_text :: "16 word \<Rightarrow> string" where
  "port_text p = dec_nat (unat (ntohs p))"

lemma length_port_text: "length (port_text p) \<le> 5"
  using unsigned_less [of "ntohs p", where ?'a = nat] length_dec_nat_le [of "unat (ntohs p)" 4]
  by (simp add: port_text_def)

lemma portstr_whole: "length pre \<le> 2 \<Longrightarrow> portstr pre p = pre @ port_text p"
proof -
  assume "length pre \<le> 2"
  with length_port_text [of p] show ?thesis by (simp add: portstr_def snprintf_str_def port_text_def)
qed

lemma ntohs_inject: "ntohs p = ntohs q \<longleftrightarrow> p = q"
proof -
  have "ntohs (ntohs x) = x" for x
    by (rule bit_word_eqI) (auto simp: ntohs_def bit_simps)
  then show ?thesis by metis
qed

lemma port_text_inject: "port_text p = port_text q \<longleftrightarrow> p = q"
  by (metis dec_val_dec_nat ntohs_inject port_text_def word_unat_eq_iff)

lemma port_text_chars: "CHR '':'' \<notin> set (port_text p)" "CHR ''['' \<notin> set (port_text p)" "CHR '']'' \<notin> set (port_text p)"
  using set_dec_nat [of "unat (ntohs p)"] by (auto simp: port_text_def digit_chars_def)

lemma v4_chars_not: "CHR '':'' \<notin> v4_chars" "CHR ''['' \<notin> v4_chars"
  by (auto simp: v4_chars_def digit_chars_def)

lemma v6_chars_not: "CHR ''['' \<notin> v6_chars" "CHR '']'' \<notin> v6_chars"
  by (auto simp: v6_chars_def xdigits_l_def)

locale presentation =
  fixes ntop :: ntop and pton :: "family \<Rightarrow> string \<Rightarrow> errno + byte list option"
  assumes v4: "length a = 4 \<Longrightarrow> 46 \<le> sz \<Longrightarrow>
      \<exists>t. ntop AF_INET a sz = Inr (t @ [NUL]) \<and> length t \<le> 45 \<and> set t \<subseteq> v4_chars \<and> pton AF_INET t = Inr (Some a)"
    and v6: "length a = 16 \<Longrightarrow> 46 \<le> sz \<Longrightarrow>
      \<exists>t. ntop AF_INET6 a sz = Inr (t @ [NUL]) \<and> length t \<le> 45 \<and> set t \<subseteq> v6_chars \<and>
          2 \<le> count_list t (CHR '':'') \<and> pton AF_INET6 t = Inr (Some a)"
begin

lemma sock_ntop_in:
  assumes "length a = 4"
  obtains t where "pton AF_INET t = Inr (Some a)" "set t \<subseteq> v4_chars" "length t \<le> 45"
    "sock_ntop ntop (Sockaddr_in p a) salen = Inr (if ntohs p \<noteq> 0 then t @ '':'' @ port_text p else t)"
proof -
  obtain t where t: "ntop AF_INET a 128 = Inr (t @ [NUL])" "length t \<le> 45" "set t \<subseteq> v4_chars" "pton AF_INET t = Inr (Some a)"
    using v4 [of a 128] assms by auto
  have "NUL \<notin> set t" using t(3) by (auto simp: v4_chars_def digit_chars_def)
  with t that [of t] portstr_whole [of "'':''" p] show ?thesis by simp
qed

lemma sock_ntop_in6:
  assumes "length a = 16"
  obtains t where "pton AF_INET6 t = Inr (Some a)" "set t \<subseteq> v6_chars" "2 \<le> count_list t (CHR '':'')" "length t \<le> 45"
    "sock_ntop ntop (Sockaddr_in6 p a) salen = Inr (if ntohs p \<noteq> 0 then ''['' @ t @ '']:'' @ port_text p else t)"
proof -
  obtain t where t: "ntop AF_INET6 a 127 = Inr (t @ [NUL])" "length t \<le> 45" "set t \<subseteq> v6_chars"
    "2 \<le> count_list t (CHR '':'')" "pton AF_INET6 t = Inr (Some a)"
    using v6 [of a 127] assms by auto
  have "NUL \<notin> set t" using t(3) by (auto simp: v6_chars_def xdigits_l_def)
  with t that [of t] portstr_whole [of "'']:''" p] show ?thesis by simp
qed

lemma in_inj:
  assumes "length a = 4" "length b = 4" "sock_ntop ntop (Sockaddr_in p a) n = sock_ntop ntop (Sockaddr_in q b) m"
  shows "p = q \<and> a = b"
proof -
  obtain t where t: "pton AF_INET t = Inr (Some a)" "set t \<subseteq> v4_chars"
    "sock_ntop ntop (Sockaddr_in p a) n = Inr (if ntohs p \<noteq> 0 then t @ '':'' @ port_text p else t)"
    using sock_ntop_in [OF assms(1)] by metis
  obtain u where u: "pton AF_INET u = Inr (Some b)" "set u \<subseteq> v4_chars"
    "sock_ntop ntop (Sockaddr_in q b) m = Inr (if ntohs q \<noteq> 0 then u @ '':'' @ port_text q else u)"
    using sock_ntop_in [OF assms(2)] by metis
  have nc: "CHR '':'' \<notin> set t" "CHR '':'' \<notin> set u" using t(2) u(2) v4_chars_not(1) by auto
  have eq: "(if ntohs p \<noteq> 0 then t @ '':'' @ port_text p else t) = (if ntohs q \<noteq> 0 then u @ '':'' @ port_text q else u)"
    using assms(3) t(3) u(3) by simp
  then have "ntohs p = 0 \<longleftrightarrow> ntohs q = 0" using nc by (auto split: if_splits)
  with eq nc port_text_chars(1) have "t = u \<and> (ntohs p = ntohs q \<or> port_text p = port_text q)"
    by (auto simp: append_Cons_eq_iff split: if_splits)
  with t(1) u(1) show ?thesis by (auto simp: port_text_inject ntohs_inject)
qed

lemma in6_inj:
  assumes "length a = 16" "length b = 16" "sock_ntop ntop (Sockaddr_in6 p a) n = sock_ntop ntop (Sockaddr_in6 q b) m"
  shows "p = q \<and> a = b"
proof -
  obtain t where t: "pton AF_INET6 t = Inr (Some a)" "set t \<subseteq> v6_chars"
    "sock_ntop ntop (Sockaddr_in6 p a) n = Inr (if ntohs p \<noteq> 0 then ''['' @ t @ '']:'' @ port_text p else t)"
    using sock_ntop_in6 [OF assms(1)] by metis
  obtain u where u: "pton AF_INET6 u = Inr (Some b)" "set u \<subseteq> v6_chars"
    "sock_ntop ntop (Sockaddr_in6 q b) m = Inr (if ntohs q \<noteq> 0 then ''['' @ u @ '']:'' @ port_text q else u)"
    using sock_ntop_in6 [OF assms(2)] by metis
  have nc: "CHR ''['' \<notin> set t" "CHR ''['' \<notin> set u" "CHR '']'' \<notin> set t" "CHR '']'' \<notin> set u"
    using t(2) u(2) v6_chars_not by auto
  have eq: "(if ntohs p \<noteq> 0 then ''['' @ t @ '']:'' @ port_text p else t) =
      (if ntohs q \<noteq> 0 then ''['' @ u @ '']:'' @ port_text q else u)"
    using assms(3) t(3) u(3) by simp
  then have "ntohs p = 0 \<longleftrightarrow> ntohs q = 0" using nc by (auto split: if_splits)
  with eq nc port_text_chars(3) have "t = u \<and> (ntohs p = ntohs q \<or> port_text p = port_text q)"
    by (auto simp: append_Cons_eq_iff split: if_splits)
  with t(1) u(1) show ?thesis by (auto simp: port_text_inject ntohs_inject)
qed

lemma in_in6_differ:
  assumes "length a = 4" "length b = 16"
  shows "sock_ntop ntop (Sockaddr_in p a) n \<noteq> sock_ntop ntop (Sockaddr_in6 q b) m"
proof -
  obtain t where t: "set t \<subseteq> v4_chars"
    "sock_ntop ntop (Sockaddr_in p a) n = Inr (if ntohs p \<noteq> 0 then t @ '':'' @ port_text p else t)"
    using sock_ntop_in [OF assms(1)] by metis
  obtain u where u: "2 \<le> count_list u (CHR '':'')"
    "sock_ntop ntop (Sockaddr_in6 q b) m = Inr (if ntohs q \<noteq> 0 then ''['' @ u @ '']:'' @ port_text q else u)"
    using sock_ntop_in6 [OF assms(2)] by metis
  have nc: "CHR '':'' \<notin> set t" "CHR ''['' \<notin> set t" using t(1) v4_chars_not by auto
  define x where "x = (if ntohs p \<noteq> 0 then t @ '':'' @ port_text p else t)"
  have "CHR ''['' \<notin> set x" "count_list x (CHR '':'') \<le> 1"
    using nc port_text_chars(1,2) [of p] by (auto simp: x_def)
  with u t(2) show ?thesis by (auto simp: x_def [symmetric])
qed

lemmas sock_ntop_distinct = in_inj in6_inj in_in6_differ in_in6_differ [symmetric]

end
section \<open>The functions of libfree satisfy the contract\<close>

lemma set_dotted: "set (dotted a) \<subseteq> v4_chars"
  using set_dec_nat by (auto simp: dotted_def v4_chars_def)

lemma set_colon_words: "set (colon_words ws) \<subseteq> v6_chars" "set (join_words ws) \<subseteq> v6_chars"
proof -
  have c: "set (colon_words ws) \<subseteq> v6_chars" for ws
    using set_hex_nat by (auto simp: colon_words_def v6_chars_def)
  show "set (colon_words ws) \<subseteq> v6_chars" by (rule c)
  show "set (join_words ws) \<subseteq> v6_chars"
    using c set_hex_nat by (cases ws) (auto simp: join_words_def v6_chars_def)
qed

lemma count_colon_words: "length ws \<le> count_list (colon_words ws) (CHR '':'')"
  by (induction ws) (auto simp: colon_words_def)

lemma v4_sub_v6: "v4_chars \<subseteq> v6_chars"
  by (auto simp: v4_chars_def v6_chars_def digit_chars_def xdigits_l_def)

lemma ntop6_text_shape:
  assumes "ntop6_text src = Inr t"
  shows "set t \<subseteq> v6_chars \<and> 2 \<le> count_list t (CHR '':'')"
proof (cases "ntop6_best (ntop6_words src)")
  case None
  let ?ws = "ntop6_words src"
  obtain w vs where ws: "?ws = w # vs" using words_16(2) [of src] by (cases ?ws) auto
  with words_16(2) [of src] count_colon_words [of vs] have "2 \<le> count_list (join_words ?ws) (CHR '':'')"
    by (simp add: join_words_def)
  then show ?thesis using ntop6_text_plain [OF None] assms set_colon_words(2) [of ?ws] by simp
next
  case (Some r)
  obtain b l where r: "r = (b, l)" by (cases r)
  have f: "set ''::'' \<subseteq> v6_chars" "set ''ffff:'' \<subseteq> v6_chars" "set (dotted (drop 12 src)) \<subseteq> v6_chars"
    using set_dotted [of "drop 12 src"] v4_sub_v6 by (auto simp: v6_chars_def xdigits_l_def)
  show ?thesis
  proof (cases "encap4 (ntop6_words src) (Some (b, l))")
    case True
    with ntop6_text_encap [of src b l] Some r assms f show ?thesis by (auto split: if_splits)
  next
    case False
    with ntop6_text_run [of src b l] Some r assms f(1) set_colon_words(2) show ?thesis by (auto simp del: append_assoc)
  qed
qed

interpretation libfree: presentation inet_ntop inet_pton
proof unfold_locales
  fix a :: "byte list" and sz :: nat
  show "\<exists>t. inet_ntop AF_INET a sz = Inr (t @ [NUL]) \<and> length t \<le> 45 \<and> set t \<subseteq> v4_chars \<and> inet_pton AF_INET t = Inr (Some a)"
    if "length a = 4" "46 \<le> sz"
    using that length_dotted_le [of a] set_dotted [of a] by (simp add: inet_ntop_def inet_pton_def inet_ntop4_def inet_pton4_dotted)
  show "\<exists>t. inet_ntop AF_INET6 a sz = Inr (t @ [NUL]) \<and> length t \<le> 45 \<and> set t \<subseteq> v6_chars \<and>
          2 \<le> count_list t (CHR '':'') \<and> inet_pton AF_INET6 t = Inr (Some a)" if a: "length a = 16" "46 \<le> sz"
  proof -
    obtain t where t: "ntop6_text a = Inr t" "inet_pton6 t = Some a" using pton6_ntop6 [OF a(1)] by blast
    with ntop6_text_shape [OF t(1)] length_ntop6_text [OF t(1)] a(2) show ?thesis
      by (simp add: inet_ntop_def inet_pton_def inet_ntop6_def)
  qed
qed
section \<open>Properties\<close>

definition is_inet :: "sockaddr \<Rightarrow> bool" where
  "is_inet sa \<longleftrightarrow> sa_family sa = AF_INET \<or> sa_family sa = AF_INET6"

lemma is_inetE:
  assumes "is_inet sa" and "sa_wf sa"
  obtains p a where "sa = Sockaddr_in p a" "length a = 4" | p a where "sa = Sockaddr_in6 p a" "length a = 16"
  using assms by (cases sa) (auto simp: is_inet_def)

text \<open>
  The text of \<^verbatim>\<open>sock_ntop\<close> identifies the endpoint: two well-formed IPv4 or IPv6 socket addresses
  with the same text have the same family, address and port. (The port, put into a buffer of 8
  bytes, is never truncated, and an IPv6 address with a port is set off by brackets.)\<close>

theorem sock_ntop_injective:
  assumes "is_inet sa" "sa_wf sa" "is_inet sb" "sa_wf sb"
    and "sock_ntop inet_ntop sa n = sock_ntop inet_ntop sb m"
  shows "sa = sb"
  using assms(1,2)
proof (cases rule: is_inetE)
  case (1 p a)
  from assms(3,4) show ?thesis
    by (cases rule: is_inetE) (use 1 assms(5) libfree.sock_ntop_distinct in auto)
next
  case (2 p a)
  from assms(3,4) show ?thesis
    by (cases rule: is_inetE) (use 2 assms(5) libfree.sock_ntop_distinct in auto)
qed

theorem sock_ntop_injective_witness:
  "let sa = Sockaddr_in 0x5000 [127, 0, 0, 1] in sa = sock_set_port (sock_set_port sa 7) 0x5000"
  unfolding Let_def by (rule sock_ntop_injective [where n = 16 and m = 16]) (simp_all add: is_inet_def)

text \<open>
  \<^verbatim>\<open>sock_ntop\<close> never overruns its static buffer of 128 bytes, whatever the address: the text with
  its terminating null fits, and for a well-formed address it is never \<^verbatim>\<open>NULL\<close>.\<close>

theorem sock_ntop_fits:
  assumes "sa_wf sa"
  shows "\<exists>s. sock_ntop inet_ntop sa salen = Inr s \<and> length s + 1 \<le> 128"
proof (cases sa)
  case (Sockaddr_in p a)
  with assms have "length a = 4" by simp
  then obtain t where "length t \<le> 45"
    "sock_ntop inet_ntop (Sockaddr_in p a) salen = Inr (if ntohs p \<noteq> 0 then t @ '':'' @ port_text p else t)"
    using libfree.sock_ntop_in by metis
  with Sockaddr_in length_port_text [of p] show ?thesis by auto
next
  case (Sockaddr_in6 p a)
  with assms have "length a = 16" by simp
  then obtain t where "length t \<le> 45"
    "sock_ntop inet_ntop (Sockaddr_in6 p a) salen = Inr (if ntohs p \<noteq> 0 then ''['' @ t @ '']:'' @ port_text p else t)"
    using libfree.sock_ntop_in6 by metis
  with Sockaddr_in6 length_port_text [of p] show ?thesis by auto
next
  case (Sockaddr_un path)
  then show ?thesis by (simp add: path_text_def snprintf_str_def)
next
  case (Sockaddr_other n)
  then show ?thesis by (simp add: snprintf_str_def)
qed

theorem sock_ntop_fits_witness:
  "\<exists>s. sock_ntop inet_ntop (Sockaddr_un (replicate 108 (CHR ''x''))) 110 = Inr s \<and> length s + 1 \<le> 128"
  by (rule sock_ntop_fits) simp

lemma memcmp_eq_0: "memcmp xs ys = 0 \<longleftrightarrow> xs = ys"
  by (induction xs ys rule: memcmp.induct) auto

lemma map_unat_inject: "map unat (a :: byte list) = map unat b \<longleftrightarrow> a = b"
  by (metis inj_map_eq_map inj_on_def unsigned_word_eqI)

text \<open>
  The two comparisons have opposite conventions: for two addresses of one of the IP families,
  \<^verbatim>\<open>sock_cmp_addr\<close> is 0 exactly when the addresses are equal, while \<^verbatim>\<open>sock_cmp_port\<close> is 0 exactly when
  the ports differ.\<close>

theorem sock_cmp_conventions:
  assumes "is_inet sa" "is_inet sb" "sa_family sa = sa_family sb"
  shows "(sock_cmp_addr sa sb = 0 \<longleftrightarrow> sock_set_port sa 0 = sock_set_port sb 0) \<and>
         (sock_cmp_port sa sb = 0 \<longleftrightarrow> sock_get_port sa \<noteq> sock_get_port sb)"
  using assms
  by (cases sa; cases sb) (auto simp: is_inet_def memcmp_eq_0 map_unat_inject word_uint_eq_iff)

theorem sock_cmp_conventions_witness:
  "(sock_cmp_addr (Sockaddr_in 1 [1,2,3,4]) (Sockaddr_in 2 [1,2,3,4]) = 0 \<longleftrightarrow>
     sock_set_port (Sockaddr_in 1 [1,2,3,4]) 0 = sock_set_port (Sockaddr_in 2 [1,2,3,4]) 0) \<and>
   (sock_cmp_port (Sockaddr_in 1 [1,2,3,4]) (Sockaddr_in 2 [1,2,3,4]) = 0 \<longleftrightarrow>
     sock_get_port (Sockaddr_in 1 [1,2,3,4]) \<noteq> sock_get_port (Sockaddr_in 2 [1,2,3,4]))"
  by (rule sock_cmp_conventions) (simp_all add: is_inet_def)

end
