(* ===== verification/Net_Open.thy ===== *)
theory Net_Open
  imports Sockaddr "HOL-Library.Multiset"
begin

text \<open>
  Opening sockets by name: \<^verbatim>\<open>host_serv\<close>, \<^verbatim>\<open>tcp_connect\<close>, \<^verbatim>\<open>tcp_listen\<close>, \<^verbatim>\<open>udp_client\<close>, \<^verbatim>\<open>udp_connect\<close> and
  \<^verbatim>\<open>udp_server\<close> of \<^verbatim>\<open>lib.c\<close>, and \<^verbatim>\<open>daemon_init\<close>. The state is the trace of the system calls made, with
  their results; the kernel decides each result from the trace so far, so that any behaviour is
  covered. \<^verbatim>\<open>getaddrinfo\<close> and \<^verbatim>\<open>gai_strerror\<close> are parameters. The five functions walk the list of
  addresses with the same loop; what they leave open at the end is derived once from it.
\<close>

section \<open>Names and the kernel\<close>

datatype socktype = SOCK_ANY | SOCK_STREAM | SOCK_DGRAM

record addrinfo =
  ai_family :: family
  ai_socktype :: socktype
  ai_protocol :: int
  ai_addr :: sockaddr
  ai_addrlen :: nat

record hints =
  h_canonname :: bool
  h_passive :: bool
  h_family :: family
  h_socktype :: socktype

text \<open>\<^verbatim>\<open>getaddrinfo\<close>: an error code, or the first address and the rest of the list.\<close>

type_synonym resolver = "string option \<Rightarrow> string option \<Rightarrow> hints \<Rightarrow> nat + addrinfo \<times> addrinfo list"

datatype netop =
    Op_socket addrinfo int
  | Op_connect int addrinfo int
  | Op_bind int addrinfo int
  | Op_setsockopt int int
  | Op_listen int int int
  | Op_close int int

type_synonym trace = "netop list"

record kernel =
  k_socket :: "trace \<Rightarrow> addrinfo \<Rightarrow> int \<times> errno"
  k_connect :: "trace \<Rightarrow> int \<Rightarrow> addrinfo \<Rightarrow> int \<times> errno"
  k_bind :: "trace \<Rightarrow> int \<Rightarrow> addrinfo \<Rightarrow> int \<times> errno"
  k_setsockopt :: "trace \<Rightarrow> int \<Rightarrow> int \<times> errno"
  k_listen :: "trace \<Rightarrow> int \<Rightarrow> int \<Rightarrow> int \<times> errno"
  k_close :: "trace \<Rightarrow> int \<Rightarrow> int \<times> errno"

definition sys_socket :: "kernel \<Rightarrow> addrinfo \<Rightarrow> trace syscall" where
  "sys_socket K ai tr = (let r = k_socket K tr ai in (r, tr @ [Op_socket ai (fst r)]))"

definition sys_connect :: "kernel \<Rightarrow> int \<Rightarrow> addrinfo \<Rightarrow> trace syscall" where
  "sys_connect K fd ai tr = (let r = k_connect K tr fd ai in (r, tr @ [Op_connect fd ai (fst r)]))"

definition sys_bind :: "kernel \<Rightarrow> int \<Rightarrow> addrinfo \<Rightarrow> trace syscall" where
  "sys_bind K fd ai tr = (let r = k_bind K tr fd ai in (r, tr @ [Op_bind fd ai (fst r)]))"

definition sys_reuseaddr :: "kernel \<Rightarrow> int \<Rightarrow> trace syscall" where
  "sys_reuseaddr K fd tr = (let r = k_setsockopt K tr fd in (r, tr @ [Op_setsockopt fd (fst r)]))"

definition sys_listen :: "kernel \<Rightarrow> int \<Rightarrow> int \<Rightarrow> trace syscall" where
  "sys_listen K fd backlog tr = (let r = k_listen K tr fd backlog in (r, tr @ [Op_listen fd backlog (fst r)]))"

definition sys_close :: "kernel \<Rightarrow> int \<Rightarrow> trace syscall" where
  "sys_close K fd tr = (let r = k_close K tr fd in (r, tr @ [Op_close fd (fst r)]))"

section \<open>host\_serv\<close>

definition host_serv :: "resolver \<Rightarrow> string option \<Rightarrow> string option \<Rightarrow> family \<Rightarrow> socktype \<Rightarrow> (addrinfo \<times> addrinfo list) option" where
  "host_serv gai host serv fam st =
     (case gai host serv \<lparr>h_canonname = True, h_passive = False, h_family = fam, h_socktype = st\<rparr> of
        Inl n \<Rightarrow> None | Inr res \<Rightarrow> Some res)"

definition Host_serv :: "resolver \<Rightarrow> (nat \<Rightarrow> string) \<Rightarrow> string option \<Rightarrow> string option \<Rightarrow> family \<Rightarrow> socktype \<Rightarrow>
    (addrinfo \<times> addrinfo list, 'w) prog" where
  "Host_serv gai gai_strerror host serv fam st w =
     (case gai host serv \<lparr>h_canonname = True, h_passive = False, h_family = fam, h_socktype = st\<rparr> of
        Inl n \<Rightarrow> Die (Err_quit (''host_serv error for '' @ (case host of None \<Rightarrow> ''(no hostname)'' | Some h \<Rightarrow> h) @ '', '' @
                       (case serv of None \<Rightarrow> ''(no service name)'' | Some s \<Rightarrow> s) @ '': '' @ gai_strerror n)) w
      | Inr res \<Rightarrow> Ret res w)"

section \<open>The loop over the addresses\<close>

text \<open>
  \<^verbatim>\<open>do { fd = socket(\<dots>); if (fd < 0) continue; if (attempt(fd) == 0) break; Close(fd); } while ((res = res->ai_next) != NULL)\<close>.
  The result is the descriptor and the address in use, or the last \<^verbatim>\<open>errno\<close> when \<^verbatim>\<open>res\<close> is \<^verbatim>\<open>NULL\<close>.
\<close>

type_synonym attempt = "int \<Rightarrow> addrinfo \<Rightarrow> (int \<times> errno, trace) prog"

fun addr_loop :: "kernel \<Rightarrow> attempt \<Rightarrow> addrinfo list \<Rightarrow> errno \<Rightarrow> (errno + int \<times> addrinfo, trace) prog" where
  "addr_loop K attempt [] er tr = Ret (Inl er) tr"
| "addr_loop K attempt (ai # res) er tr =
     (case sys_socket K ai tr of
        ((fd, e), tr1) \<Rightarrow>
          if fd < 0 then addr_loop K attempt res e tr1
          else bindP (attempt fd ai) (\<lambda>(n, e2) tr2.
                 if n = 0 then Ret (Inr (fd, ai)) tr2
                 else bindP (Close (sys_close K) fd) (\<lambda>_ tr3. addr_loop K attempt res e2 tr3) tr2) tr1)"

definition try_connect :: "kernel \<Rightarrow> attempt" where
  "try_connect K fd ai tr = (case sys_connect K fd ai tr of (r, tr') \<Rightarrow> Ret r tr')"

definition try_bind :: "kernel \<Rightarrow> attempt" where
  "try_bind K fd ai tr = (case sys_bind K fd ai tr of (r, tr') \<Rightarrow> Ret r tr')"

definition try_reuse_bind :: "kernel \<Rightarrow> attempt" where
  "try_reuse_bind K fd ai =
     bindP (Setsockopt (\<lambda>f level opt on len. sys_reuseaddr K f) fd ''SOL_SOCKET'' ''SO_REUSEADDR'' (1 :: int) (4 :: nat))
           (\<lambda>_. try_bind K fd ai)"

definition try_nothing :: attempt where
  "try_nothing fd ai tr = Ret (0, EOTHER 0) tr"

text \<open>\<^verbatim>\<open>%s\<close> of a pointer that may be \<^verbatim>\<open>NULL\<close>.\<close>

definition c_arg :: "string option \<Rightarrow> string" where
  "c_arg h = (case h of None \<Rightarrow> ''(null)'' | Some s \<Rightarrow> s)"

text \<open>What the five functions share before and after the loop.\<close>

definition open_first :: "string \<Rightarrow> resolver \<Rightarrow> (nat \<Rightarrow> string) \<Rightarrow> bool \<Rightarrow> socktype \<Rightarrow> kernel \<Rightarrow> attempt \<Rightarrow> string option \<Rightarrow> string \<Rightarrow>
    (int \<times> addrinfo, trace) prog" where
  "open_first name gai gai_strerror passive st K attempt host serv tr =
     (let failed = name @ '' error for '' @ c_arg host @ '', '' @ serv
      in case gai host (Some serv) \<lparr>h_canonname = False, h_passive = passive, h_family = AF_UNSPEC, h_socktype = st\<rparr> of
           Inl n \<Rightarrow> Die (Err_quit (failed @ '': '' @ gai_strerror n)) tr
         | Inr (ai, res) \<Rightarrow>
             bindP (addr_loop K attempt (ai # res) (EOTHER 0)) (\<lambda>r.
               case r of Inl e \<Rightarrow> dieP (Err_sys failed (Some e)) | Inr fa \<Rightarrow> returnP fa) tr)"

definition tcp_connect :: "resolver \<Rightarrow> (nat \<Rightarrow> string) \<Rightarrow> kernel \<Rightarrow> string option \<Rightarrow> string \<Rightarrow> (int, trace) prog" where
  "tcp_connect gai gai_strerror K host serv =
     bindP (open_first ''tcp_connect'' gai gai_strerror False SOCK_STREAM K (try_connect K) host serv)
           (\<lambda>(sockfd, ai). returnP sockfd)"

definition Tcp_connect :: "resolver \<Rightarrow> (nat \<Rightarrow> string) \<Rightarrow> kernel \<Rightarrow> string option \<Rightarrow> string \<Rightarrow> (int, trace) prog" where
  "Tcp_connect = tcp_connect"

definition LISTENQ :: int where "LISTENQ = 1024"

definition tcp_listen :: "resolver \<Rightarrow> (nat \<Rightarrow> string) \<Rightarrow> int option \<Rightarrow> kernel \<Rightarrow> string option \<Rightarrow> string \<Rightarrow> (int \<times> nat, trace) prog" where
  "tcp_listen gai gai_strerror listenq K host serv =
     bindP (open_first ''tcp_listen'' gai gai_strerror True SOCK_STREAM K (try_reuse_bind K) host serv)
           (\<lambda>(listenfd, ai). bindP (Listen listenq (sys_listen K) listenfd LISTENQ) (\<lambda>_. returnP (listenfd, ai_addrlen ai)))"

definition Tcp_listen :: "resolver \<Rightarrow> (nat \<Rightarrow> string) \<Rightarrow> int option \<Rightarrow> kernel \<Rightarrow> string option \<Rightarrow> string \<Rightarrow> (int \<times> nat, trace) prog" where
  "Tcp_listen = tcp_listen"

definition udp_client :: "resolver \<Rightarrow> (nat \<Rightarrow> string) \<Rightarrow> kernel \<Rightarrow> string option \<Rightarrow> string \<Rightarrow> (int \<times> sockaddr \<times> nat, trace) prog" where
  "udp_client gai gai_strerror K host serv =
     bindP (open_first ''udp_client'' gai gai_strerror False SOCK_DGRAM K try_nothing host serv)
           (\<lambda>(sockfd, ai). returnP (sockfd, ai_addr ai, ai_addrlen ai))"

definition Udp_client :: "resolver \<Rightarrow> (nat \<Rightarrow> string) \<Rightarrow> kernel \<Rightarrow> string option \<Rightarrow> string \<Rightarrow> (int \<times> sockaddr \<times> nat, trace) prog" where
  "Udp_client = udp_client"

definition udp_connect :: "resolver \<Rightarrow> (nat \<Rightarrow> string) \<Rightarrow> kernel \<Rightarrow> string option \<Rightarrow> string \<Rightarrow> (int, trace) prog" where
  "udp_connect gai gai_strerror K host serv =
     bindP (open_first ''udp_connect'' gai gai_strerror False SOCK_DGRAM K (try_connect K) host serv)
           (\<lambda>(sockfd, ai). returnP sockfd)"

definition Udp_connect :: "resolver \<Rightarrow> (nat \<Rightarrow> string) \<Rightarrow> kernel \<Rightarrow> string option \<Rightarrow> string \<Rightarrow> (int, trace) prog" where
  "Udp_connect gai gai_strerror K host serv =
     bindP (udp_connect gai gai_strerror K host serv) (\<lambda>n.
       if n < 0 then dieP (Err_quit (''udp_connect error for '' @ c_arg host @ '', '' @ serv @ '': '' @ gai_strerror (nat (- n))))
       else returnP n)"

definition udp_server :: "resolver \<Rightarrow> (nat \<Rightarrow> string) \<Rightarrow> kernel \<Rightarrow> string option \<Rightarrow> string \<Rightarrow> (int \<times> nat, trace) prog" where
  "udp_server gai gai_strerror K host serv =
     bindP (open_first ''udp_server'' gai gai_strerror True SOCK_DGRAM K (try_bind K) host serv)
           (\<lambda>(sockfd, ai). returnP (sockfd, ai_addrlen ai))"

definition Udp_server :: "resolver \<Rightarrow> (nat \<Rightarrow> string) \<Rightarrow> kernel \<Rightarrow> string option \<Rightarrow> string \<Rightarrow> (int \<times> nat, trace) prog" where
  "Udp_server = udp_server"
section \<open>What is left open\<close>

definition opened :: "trace \<Rightarrow> int multiset" where
  "opened tr = mset (concat (map (\<lambda>x. case x of Op_socket ai fd \<Rightarrow> if 0 \<le> fd then [fd] else [] | _ \<Rightarrow> []) tr))"

definition closed :: "trace \<Rightarrow> int multiset" where
  "closed tr = mset (concat (map (\<lambda>x. case x of Op_close fd n \<Rightarrow> [fd] | _ \<Rightarrow> []) tr))"

text \<open>From \<open>tr\<close> to \<open>tr'\<close> exactly the descriptors \<open>X\<close> have been opened and not closed.\<close>

definition leaves :: "trace \<Rightarrow> trace \<Rightarrow> int multiset \<Rightarrow> bool" where
  "leaves tr tr' X \<longleftrightarrow> opened tr' + closed tr = opened tr + closed tr' + X"

lemma opened_simps [simp]:
  "opened [] = {#}" "opened (tr @ tr') = opened tr + opened tr'"
  "opened (Op_socket ai fd # tr) = (if 0 \<le> fd then {#fd#} else {#}) + opened tr" "opened (Op_connect fd ai n # tr) = opened tr"
  "opened (Op_bind fd ai n # tr) = opened tr" "opened (Op_setsockopt fd n # tr) = opened tr"
  "opened (Op_listen fd b n # tr) = opened tr" "opened (Op_close fd n # tr) = opened tr"
  by (simp_all add: opened_def)

lemma closed_simps [simp]:
  "closed [] = {#}" "closed (tr @ tr') = closed tr + closed tr'"
  "closed (Op_socket ai fd # tr) = closed tr" "closed (Op_connect fd ai n # tr) = closed tr"
  "closed (Op_bind fd ai n # tr) = closed tr" "closed (Op_setsockopt fd n # tr) = closed tr"
  "closed (Op_listen fd b n # tr) = closed tr" "closed (Op_close fd n # tr) = {#fd#} + closed tr"
  by (simp_all add: closed_def)

lemma Close_iff: "Close (sys_close K) fd tr = Ret u tr' \<longleftrightarrow>
    (\<exists>e. k_close K tr fd = e \<and> fst e \<noteq> -1 \<and> tr' = tr @ [Op_close fd (fst e)])"
  unfolding Close_def m1.wrap_void by (auto simp: sys_close_def Let_def)

text \<open>
  An attempt to use a new socket: it adds a list of operations of its own kind, given by \<open>ops\<close> from its result,
  and neither opens nor closes a descriptor.
\<close>

locale addr_attempt =
  fixes K :: kernel and attempt :: attempt and is_op :: "int \<Rightarrow> addrinfo \<Rightarrow> int \<Rightarrow> trace \<Rightarrow> bool"
  assumes attempt_trace: "attempt fd ai tr = Ret (n, e) tr' \<Longrightarrow> \<exists>ops. tr' = tr @ ops \<and> is_op fd ai n ops"
    and ops_neutral: "is_op fd ai n ops \<Longrightarrow> opened ops = {#} \<and> closed ops = {#}"
begin

text \<open>The operations of a rejected address.\<close>

inductive rejected :: "trace \<Rightarrow> bool" where
  no_socket: "fd < 0 \<Longrightarrow> rejected [Op_socket ai fd]"
| no_use: "0 \<le> fd \<Longrightarrow> is_op fd ai n ops \<Longrightarrow> n \<noteq> 0 \<Longrightarrow> rejected (Op_socket ai fd # ops @ [Op_close fd c])"

lemma rejected_neutral: "rejected ops \<Longrightarrow> opened ops = closed ops"
  by (induction rule: rejected.induct) (use ops_neutral in auto)

definition loop_post :: "addrinfo list \<Rightarrow> trace \<Rightarrow> errno + int \<times> addrinfo \<Rightarrow> trace \<Rightarrow> trace list \<Rightarrow> bool" where
  "loop_post ais tr r tr' rej \<longleftrightarrow> list_all rejected rej \<and>
     (case r of
        Inl e \<Rightarrow> length rej = length ais \<and> tr' = tr @ concat rej
      | Inr (fd, ai) \<Rightarrow> \<exists>ops. length rej < length ais \<and> ai = ais ! length rej \<and> 0 \<le> fd \<and> is_op fd ai 0 ops \<and>
                          tr' = tr @ concat rej @ [Op_socket ai fd] @ ops)"

lemma loop_post_Cons: "rejected ops \<Longrightarrow> loop_post ais (tr @ ops) r tr' rej \<Longrightarrow> loop_post (ai # ais) tr r tr' (ops # rej)"
  by (auto simp: loop_post_def split: sum.splits)

lemma addr_loop_Ret: "addr_loop K attempt ais er tr = Ret r tr' \<Longrightarrow> \<exists>rej. loop_post ais tr r tr' rej"
proof (induction ais arbitrary: er tr)
  case Nil
  then show ?case by (auto simp: loop_post_def)
next
  case (Cons ai ais)
  obtain fd e where so: "k_socket K tr ai = (fd, e)" by fastforce
  let ?tr1 = "tr @ [Op_socket ai fd]"
  show ?case
  proof (cases "fd < 0")
    case True
    with Cons.prems so have "addr_loop K attempt ais e ?tr1 = Ret r tr'" by (simp add: sys_socket_def)
    from Cons.IH [OF this] show ?thesis using loop_post_Cons [OF no_socket [OF True, of ai]] by blast
  next
    case False
    with Cons.prems so obtain n e2 tr2 where at: "attempt fd ai ?tr1 = Ret (n, e2) tr2"
      by (auto simp: sys_socket_def elim!: bindP_RetE)
    from attempt_trace [OF this] obtain ops where ops: "tr2 = ?tr1 @ ops" "is_op fd ai n ops" by blast
    show ?thesis
    proof (cases "n = 0")
      case True
      with Cons.prems so at False have "r = Inr (fd, ai)" "tr' = tr2" by (simp_all add: sys_socket_def)
      with ops True False show ?thesis by (intro exI [of _ "[]"]) (auto simp: loop_post_def)
    next
      case nz: False
      with Cons.prems so at False obtain c tr3 where "tr3 = tr2 @ [Op_close fd c]" and lp: "addr_loop K attempt ais e2 tr3 = Ret r tr'"
        by (auto simp: sys_socket_def Close_iff elim!: bindP_RetE)
      then have "tr3 = tr @ Op_socket ai fd # ops @ [Op_close fd c]" using ops(1) by simp
      moreover have "rejected (Op_socket ai fd # ops @ [Op_close fd c])" using no_use ops(2) nz False by simp
      ultimately show ?thesis using Cons.IH [OF lp] loop_post_Cons by blast
    qed
  qed
qed

lemma rejected_all: "list_all rejected rej \<Longrightarrow> opened (concat rej) = closed (concat rej)"
  by (induction rej) (auto simp: rejected_neutral)

text \<open>
  Opening by name: the address in use is the first that was not rejected, and its descriptor is all
  that is left open.
\<close>

lemma open_first_Ret:
  assumes "open_first name gai gse passive st K attempt host serv tr = Ret (fd, ai) tr'"
  shows "\<exists>ais rej ops. gai host (Some serv) \<lparr>h_canonname = False, h_passive = passive, h_family = AF_UNSPEC, h_socktype = st\<rparr> =
             Inr (hd ais, tl ais) \<and> list_all rejected rej \<and> length rej < length ais \<and> ai = ais ! length rej \<and> 0 \<le> fd \<and>
           is_op fd ai 0 ops \<and> tr' = tr @ concat rej @ [Op_socket ai fd] @ ops \<and> leaves tr tr' {#fd#}"
proof -
  obtain a res where g: "gai host (Some serv) \<lparr>h_canonname = False, h_passive = passive, h_family = AF_UNSPEC, h_socktype = st\<rparr> =
      Inr (a, res)" and lp: "addr_loop K attempt (a # res) (EOTHER 0) tr = Ret (Inr (fd, ai)) tr'"
    using assms unfolding open_first_def
    by (auto simp del: addr_loop.simps simp: Let_def dieP_def returnP_def split: sum.splits elim!: bindP_RetE)
  from addr_loop_Ret [OF lp] obtain rej ops where "list_all rejected rej" "length rej < length (a # res)"
    "ai = (a # res) ! length rej" "0 \<le> fd" "is_op fd ai 0 ops" "tr' = tr @ concat rej @ [Op_socket ai fd] @ ops" by (auto simp: loop_post_def)
  moreover from this have "leaves tr tr' {#fd#}"
    using rejected_all [of rej] ops_neutral [of fd ai 0 ops] by (simp add: leaves_def)
  ultimately show ?thesis using g by (intro exI [of _ "a # res"] exI [of _ rej] exI [of _ ops]) simp
qed

end

interpretation conn: addr_attempt K "try_connect K" "\<lambda>fd ai n ops. ops = [Op_connect fd ai n]" for K
  by unfold_locales (auto simp: try_connect_def sys_connect_def Let_def)

interpretation bnd: addr_attempt K "try_bind K" "\<lambda>fd ai n ops. ops = [Op_bind fd ai n]" for K
  by unfold_locales (auto simp: try_bind_def sys_bind_def Let_def)

interpretation rbnd: addr_attempt K "try_reuse_bind K" "\<lambda>fd ai n ops. \<exists>s. 0 \<le> s \<and> ops = [Op_setsockopt fd s, Op_bind fd ai n]" for K
proof unfold_locales
  show "\<exists>ops. tr' = tr @ ops \<and> (\<exists>s. 0 \<le> s \<and> ops = [Op_setsockopt fd s, Op_bind fd ai n])"
    if "try_reuse_bind K fd ai tr = Ret (n, e) tr'" for fd ai tr n e tr'
    using that unfolding try_reuse_bind_def Setsockopt_def neg.wrap_void_then
    by (auto simp: try_bind_def sys_bind_def sys_reuseaddr_def Let_def)
  show "opened ops = {#} \<and> closed ops = {#}" if "\<exists>s. 0 \<le> s \<and> ops = [Op_setsockopt fd s, Op_bind fd ai n]" for fd ai n ops
    using that by auto
qed

interpretation noth: addr_attempt K try_nothing "\<lambda>fd ai n ops. n = 0 \<and> ops = []" for K
  by unfold_locales (auto simp: try_nothing_def)
section \<open>daemon\_init\<close>

text \<open>
  The process as far as \<^verbatim>\<open>daemon_init\<close> changes it. The results of the two \<^verbatim>\<open>fork\<close> calls and of
  \<^verbatim>\<open>setsid\<close> are arguments; the process followed is the one that gets that result.
\<close>

record dproc =
  dp_leader :: bool
  dp_session :: nat
  dp_sighup_ignored :: bool
  dp_daemon :: bool
  dp_cwd :: string
  dp_fds :: "nat \<Rightarrow> string option"
  dp_log :: "(string \<times> int) option"

definition MAXFD :: nat where "MAXFD = 64"

fun close_below :: "nat \<Rightarrow> (nat \<Rightarrow> string option) \<Rightarrow> (nat \<Rightarrow> string option)" where
  "close_below 0 fds = fds"
| "close_below (Suc n) fds = (close_below n fds)(n := None)"

text \<open>\<^verbatim>\<open>open\<close> takes the lowest free descriptor; \<open>n\<close> bounds the search.\<close>

fun lowest_free :: "nat \<Rightarrow> (nat \<Rightarrow> string option) \<Rightarrow> nat \<Rightarrow> nat" where
  "lowest_free 0 fds i = i"
| "lowest_free (Suc n) fds i = (if fds i = None then i else lowest_free n fds (i + 1))"

definition open_file :: "string \<Rightarrow> (nat \<Rightarrow> string option) \<Rightarrow> (nat \<Rightarrow> string option)" where
  "open_file path fds = fds(lowest_free 1024 fds 0 \<mapsto> path)"

definition daemon_init :: "int \<times> errno \<Rightarrow> int \<Rightarrow> int \<times> errno \<Rightarrow> string \<Rightarrow> int \<Rightarrow> (int, dproc) prog" where
  "daemon_init fork1 setsid fork2 pname facility =
     bindP (Fork (\<lambda>w. (fork1, if fst fork1 = 0 then w\<lparr>dp_leader := False\<rparr> else w))) (\<lambda>pid w.
       if pid < 0 then Ret (-1) w
       else if pid \<noteq> 0 then Die (Exit 0) w
       else if setsid < 0 then Ret (-1) w
       else let w1 = w\<lparr>dp_leader := True, dp_session := dp_session w + 1, dp_sighup_ignored := True\<rparr>
            in bindP (Fork (\<lambda>w. (fork2, if fst fork2 = 0 then w\<lparr>dp_leader := False\<rparr> else w))) (\<lambda>pid w.
                 if pid < 0 then Ret (-1) w
                 else if pid \<noteq> 0 then Die (Exit 0) w
                 else let w2 = w\<lparr>dp_daemon := True, dp_cwd := ''/'', dp_fds := close_below MAXFD (dp_fds w)\<rparr>;
                          fds = open_file ''/dev/null'' (open_file ''/dev/null'' (open_file ''/dev/null'' (dp_fds w2)))
                      in Ret 0 (w2\<lparr>dp_fds := fds, dp_log := Some (pname, facility)\<rparr>)) w1)"

definition daemon_inetd :: "string \<Rightarrow> int \<Rightarrow> (unit, dproc) prog" where
  "daemon_inetd pname facility w = Ret () (w\<lparr>dp_daemon := True, dp_log := Some (pname, facility)\<rparr>)"

lemma close_below_apply: "close_below n fds i = (if i < n then None else fds i)"
  by (induction n) auto

lemma null_fds:
  assumes "\<forall>i < 64. fds i = None"
  shows "open_file p (open_file p (open_file p fds)) = fds(0 \<mapsto> p, 1 \<mapsto> p, 2 \<mapsto> p)"
  using assms by (simp add: open_file_def numeral_eq_Suc fun_eq_iff)

section \<open>Properties\<close>

abbreviation stream_hints :: "bool \<Rightarrow> hints" where
  "stream_hints passive \<equiv> \<lparr>h_canonname = False, h_passive = passive, h_family = AF_UNSPEC, h_socktype = SOCK_STREAM\<rparr>"


text \<open>An example kernel: descriptors by length of the trace, \<^verbatim>\<open>connect\<close> refused on the first socket.\<close>

definition ex_kernel :: kernel where
  "ex_kernel = \<lparr>k_socket = (\<lambda>tr ai. (3 + int (length tr), EOTHER 0)),
                k_connect = (\<lambda>tr fd ai. (if fd = 3 then -1 else 0, ETIMEDOUT)),
                k_bind = (\<lambda>tr fd ai. (if fd = 3 then -1 else 0, EOTHER 98)),
                k_setsockopt = (\<lambda>tr fd. (0, EOTHER 0)), k_listen = (\<lambda>tr fd b. (0, EOTHER 0)), k_close = (\<lambda>tr fd. (0, EOTHER 0))\<rparr>"

definition ex_ai :: addrinfo where
  "ex_ai = \<lparr>ai_family = AF_INET, ai_socktype = SOCK_STREAM, ai_protocol = 0, ai_addr = Sockaddr_in 13 [127,0,0,1], ai_addrlen = 16\<rparr>"

definition ex_resolver :: resolver where
  "ex_resolver host serv h = Inr (ex_ai, [ex_ai])"


text \<open>
  \<^verbatim>\<open>tcp_listen\<close> returns a descriptor that has been given \<^verbatim>\<open>SO_REUSEADDR\<close>, bound to the first address of the
  passive list that could be bound, and made listening with the backlog of the \<^verbatim>\<open>LISTENQ\<close> environment variable if
  that is set, in this order and as the last calls made, together with the size of that address; no other socket is left open.\<close>

theorem tcp_listen_ready:
  assumes "tcp_listen gai gse listenq K host serv tr = Ret (fd, len) tr'"
  shows "\<exists>ais k mid s l. gai host (Some serv) (stream_hints True) = Inr (hd ais, tl ais) \<and> k < length ais \<and> 0 \<le> fd \<and>
           tr' = tr @ mid @ [Op_socket (ais ! k) fd, Op_setsockopt fd s, Op_bind fd (ais ! k) 0,
                             Op_listen fd (case listenq of Some b \<Rightarrow> b | None \<Rightarrow> LISTENQ) l] \<and>
           0 \<le> s \<and> 0 \<le> l \<and> len = ai_addrlen (ais ! k) \<and> \<not> (\<exists>f a. Op_bind f a 0 \<in> set mid) \<and> leaves tr tr' {#fd#}"
proof -
  let ?b = "case listenq of Some b \<Rightarrow> b | None \<Rightarrow> LISTENQ"
  obtain ai tr1 l where o1: "open_first ''tcp_listen'' gai gse True SOCK_STREAM K (try_reuse_bind K) host serv tr = Ret (fd, ai) tr1"
    and l: "0 \<le> l" "tr' = tr1 @ [Op_listen fd ?b l]" "len = ai_addrlen ai"
    using assms unfolding tcp_listen_def Listen_def
    by (auto simp: neg.wrap_void returnP_def sys_listen_def Let_def elim!: bindP_RetE)
  from rbnd.open_first_Ret [OF o1] obtain ais rej s where
    r: "gai host (Some serv) (stream_hints True) = Inr (hd ais, tl ais)" "list_all rbnd.rejected rej" "length rej < length ais"
      "ai = ais ! length rej" "0 \<le> fd" "0 \<le> s" "tr1 = tr @ concat rej @ [Op_socket ai fd] @ [Op_setsockopt fd s, Op_bind fd ai 0]"
      "leaves tr tr1 {#fd#}"
    by blast
  have "\<not> (\<exists>f a. Op_bind f a 0 \<in> set ops)" if "rbnd.rejected ops" for ops
    using that by (auto elim: rbnd.rejected.cases)
  with r(2) have "\<not> (\<exists>f a. Op_bind f a 0 \<in> set (concat rej))" by (auto simp: list_all_iff)
  moreover have "leaves tr tr' {#fd#}" using r(8) l(2) by (simp add: leaves_def)
  ultimately show ?thesis using r l
    by (intro exI [of _ ais] exI [of _ "length rej"] exI [of _ "concat rej"] exI [of _ s] exI [of _ l]) simp
qed

theorem tcp_listen_ready_witness:
  "\<exists>ais k mid s l. ex_resolver None (Some ''daytime'') (stream_hints True) = Inr (hd ais, tl ais) \<and> k < length ais \<and> 0 \<le> (7 :: int) \<and>
     [Op_socket ex_ai 3, Op_setsockopt 3 0, Op_bind 3 ex_ai (-1), Op_close 3 0, Op_socket ex_ai 7, Op_setsockopt 7 0, Op_bind 7 ex_ai 0, Op_listen 7 5 0] =
       [] @ mid @ [Op_socket (ais ! k) 7, Op_setsockopt 7 s, Op_bind 7 (ais ! k) 0, Op_listen 7 (case Some 5 of Some b \<Rightarrow> b | None \<Rightarrow> LISTENQ) l] \<and>
     0 \<le> s \<and> 0 \<le> l \<and> 16 = ai_addrlen (ais ! k) \<and> \<not> (\<exists>f a. Op_bind f a 0 \<in> set mid) \<and>
     leaves [] [Op_socket ex_ai 3, Op_setsockopt 3 0, Op_bind 3 ex_ai (-1), Op_close 3 0, Op_socket ex_ai 7, Op_setsockopt 7 0, Op_bind 7 ex_ai 0, Op_listen 7 5 0] {#7#}"
  by (rule tcp_listen_ready [where gai = ex_resolver and gse = "\<lambda>_. []" and K = ex_kernel and host = None and serv = "''daytime''" and listenq = "Some 5"])
    (simp add: tcp_listen_def open_first_def ex_resolver_def Let_def bindP_def sys_socket_def ex_kernel_def try_reuse_bind_def try_bind_def
      sys_bind_def Setsockopt_def sys_reuseaddr_def fail_neg_def Close_def fail_m1_def void_def returnP_def sys_close_def Listen_def sys_listen_def ex_ai_def)

text \<open>
  A process in which \<^verbatim>\<open>daemon_init\<close> returns 0 is detached: it is in a new session of which it is not the
  leader, ignores \<^verbatim>\<open>SIGHUP\<close>, reports errors to the system log, and its descriptors 0, 1 and 2 are \<^verbatim>\<open>/dev/null\<close> with
  no other descriptor below 64 open (higher ones stay open).\<close>

theorem daemon_init_detached:
  assumes "daemon_init fork1 setsid fork2 pname facility w = Ret 0 w'"
  shows "dp_session w' = dp_session w + 1 \<and> \<not> dp_leader w' \<and> dp_sighup_ignored w' \<and> dp_daemon w' \<and> dp_cwd w' = ''/'' \<and>
         dp_log w' = Some (pname, facility) \<and>
         dp_fds w' = (\<lambda>i. if i < 3 then Some ''/dev/null'' else if i < 64 then None else dp_fds w i)"
proof -
  have "open_file ''/dev/null'' (open_file ''/dev/null'' (open_file ''/dev/null'' (close_below MAXFD fds))) =
      (\<lambda>i. if i < 3 then Some ''/dev/null'' else if i < 64 then None else fds i)" for fds
    by (subst null_fds) (auto simp: close_below_apply MAXFD_def fun_eq_iff less_Suc_eq numeral_3_eq_3)
  moreover have "fst fork1 = 0" "\<not> setsid < 0" "fst fork2 = 0"
    using assms by (auto simp: daemon_init_def Fork_def m1.wrap_then Let_def split: if_splits)
  ultimately show ?thesis using assms by (auto simp: daemon_init_def Fork_def m1.wrap_then Let_def)
qed

theorem daemon_init_detached_witness:
  "\<exists>w' :: dproc. dp_session w' = 1 \<and> \<not> dp_leader w' \<and> dp_sighup_ignored w' \<and> dp_daemon w' \<and> dp_cwd w' = ''/'' \<and>
        dp_log w' = Some (''d'', 3) \<and>
        dp_fds w' = (\<lambda>i. if i < 3 then Some ''/dev/null'' else if i < 64 then None else (Some ''tty''))"
proof -
  let ?w = "\<lparr>dp_leader = True, dp_session = 0, dp_sighup_ignored = False, dp_daemon = False, dp_cwd = ''/tmp'',
             dp_fds = (\<lambda>_. Some ''tty''), dp_log = None\<rparr>"
  obtain w' where "daemon_init (0, EOTHER 0) 1 (0, EOTHER 0) ''d'' 3 ?w = Ret 0 w'"
    by (simp add: daemon_init_def Fork_def fail_m1_def bindP_def Let_def)
  from daemon_init_detached [OF this] show ?thesis by (intro exI [of _ w']) (simp add: fun_eq_iff)
qed

end
