(* ===== verification/Unix_IO.thy ===== *)
theory Unix_IO
  imports Prelude
begin

text \<open>
  The part of the Unix interface that the library code calls on a stream descriptor:
  \<^verbatim>\<open>read\<close>, \<^verbatim>\<open>write\<close> and \<^verbatim>\<open>shutdown\<close> on a connected socket, and \<^verbatim>\<open>fgets\<close>/\<^verbatim>\<open>fputs\<close> on a
  standard I/O stream. What the kernel and the peer do is not decided by the program: it is a
  script of events carried by the descriptor, so that a theorem over every script is a theorem
  over every segmentation of the data, every interrupted call and every error.
\<close>

section \<open>Descriptors\<close>

text \<open>
  An event on the receiving side: a segment of data that has arrived (an empty segment is an
  end-of-file indication) or a failing call. On the sending side: how many bytes the kernel
  accepts in the next \<^verbatim>\<open>write\<close>, or its failure. A script that has run out means end-of-file for
  \<^verbatim>\<open>read\<close> and an unlimited buffer for \<^verbatim>\<open>write\<close>.
\<close>

datatype rx_event = Chunk "char list" | RxErr errno
datatype tx_event = Accepts nat | TxErr errno

record sockd =
  rx :: "rx_event list"
  tx :: "tx_event list"
  sent :: "char list"
  fin :: bool

definition fresh_sock :: "rx_event list \<Rightarrow> tx_event list \<Rightarrow> sockd" where
  "fresh_sock es ws = \<lparr>rx = es, tx = ws, sent = [], fin = False\<rparr>"

text \<open>\<^verbatim>\<open>read(fd, buf, n)\<close>: at most \<open>n\<close> bytes of the first segment; the rest of it stays queued.\<close>

fun sys_read :: "nat \<Rightarrow> rx_event list \<Rightarrow> (errno + char list) \<times> rx_event list" where
  "sys_read n [] = (Inr [], [])"
| "sys_read n (RxErr e # es) = (Inl e, es)"
| "sys_read n (Chunk bs # es) =
     (Inr (take n bs), if length bs \<le> n then es else Chunk (drop n bs) # es)"

definition read_sock :: "nat \<Rightarrow> sockd \<Rightarrow> (errno + char list) \<times> sockd" where
  "read_sock n d = (case sys_read n (rx d) of (r, es) \<Rightarrow> (r, d\<lparr>rx := es\<rparr>))"

text \<open>\<^verbatim>\<open>write(fd, buf, n)\<close>: the number of bytes accepted, which are then on their way to the peer.\<close>

fun sys_write :: "char list \<Rightarrow> tx_event list \<Rightarrow> (errno + nat) \<times> tx_event list" where
  "sys_write bs [] = (Inr (length bs), [])"
| "sys_write bs (Accepts k # ws) = (Inr (min k (length bs)), ws)"
| "sys_write bs (TxErr e # ws) = (Inl e, ws)"

definition write_sock :: "char list \<Rightarrow> sockd \<Rightarrow> (errno + nat) \<times> sockd" where
  "write_sock bs d =
     (case sys_write bs (tx d) of
        (Inl e, ws) \<Rightarrow> (Inl e, d\<lparr>tx := ws\<rparr>)
      | (Inr k, ws) \<Rightarrow> (Inr k, d\<lparr>tx := ws, sent := sent d @ take k bs\<rparr>))"

text \<open>\<^verbatim>\<open>shutdown(fd, SHUT_WR)\<close> sends the FIN.\<close>

definition shutdown_wr :: "sockd \<Rightarrow> sockd" where
  "shutdown_wr d = d\<lparr>fin := True\<rparr>"

section \<open>The abstract stream of a descriptor\<close>

text \<open>
  What a reader that restarts interrupted calls can ever get from a script: the bytes before the
  first end-of-file or failure, and how the stream ends (\<open>None\<close> for end-of-file).
\<close>

fun avail :: "rx_event list \<Rightarrow> char list" where
  "avail [] = []"
| "avail (RxErr e # es) = (if e = EINTR then avail es else [])"
| "avail (Chunk bs # es) = (if bs = [] then [] else bs @ avail es)"

fun stream_end :: "rx_event list \<Rightarrow> errno option" where
  "stream_end [] = None"
| "stream_end (RxErr e # es) = (if e = EINTR then stream_end es else Some e)"
| "stream_end (Chunk bs # es) = (if bs = [] then None else stream_end es)"

text \<open>A script without interrupted calls, the setting of the readers that do not restart.\<close>

fun no_intr :: "rx_event list \<Rightarrow> bool" where
  "no_intr [] = True"
| "no_intr (RxErr e # es) = (e \<noteq> EINTR \<and> no_intr es)"
| "no_intr (Chunk bs # es) = no_intr es"

lemma read_sock_frame [simp]:
  "read_sock n d = (r, d') \<Longrightarrow> tx d' = tx d \<and> sent d' = sent d \<and> fin d' = fin d"
  by (auto simp: read_sock_def split: prod.splits)

lemma read_sock_data:
  assumes "read_sock n d = (Inr bs, d')" and "bs \<noteq> []"
  shows "avail (rx d) = bs @ avail (rx d')" and "stream_end (rx d') = stream_end (rx d)"
    and "length bs \<le> n" and "length (rx d') \<le> length (rx d)"
    and "no_intr (rx d) \<Longrightarrow> no_intr (rx d')"
  using assms
  by (cases "(n, rx d)" rule: sys_read.cases; auto simp: read_sock_def split: if_splits)+

lemma read_sock_eof:
  assumes "read_sock n d = (Inr [], d')" and "0 < n"
  shows "avail (rx d) = []" and "stream_end (rx d) = None"
  using assms
  by (cases "(n, rx d)" rule: sys_read.cases; auto simp: read_sock_def split: if_splits)+

lemma read_sock_intr:
  assumes "read_sock n d = (Inl EINTR, d')"
  shows "avail (rx d') = avail (rx d)" and "stream_end (rx d') = stream_end (rx d)"
    and "length (rx d') < length (rx d)" and "\<not> no_intr (rx d)"
  using assms
  by (cases "(n, rx d)" rule: sys_read.cases; auto simp: read_sock_def)+

lemma read_sock_err:
  assumes "read_sock n d = (Inl e, d')" and "e \<noteq> EINTR"
  shows "avail (rx d) = []" and "stream_end (rx d) = Some e"
  using assms
  by (cases "(n, rx d)" rule: sys_read.cases; auto simp: read_sock_def)+

lemma read_sock_shrinks:
  assumes "read_sock n d = (Inr bs, d')" and "bs \<noteq> []"
  shows "n - length bs + length (rx d') < n + length (rx d)"
proof -
  from assms have "length bs \<le> n" and "length (rx d') \<le> length (rx d)" and "0 < length bs"
    by (auto dest: read_sock_data)
  then show ?thesis by linarith
qed

lemmas read_sock_laws = read_sock_data read_sock_eof read_sock_intr read_sock_err

text \<open>The four ways a \<^verbatim>\<open>read\<close> ends, as a case rule for the loops over it.\<close>

lemma read_sock_cases:
  obtains (intr) d' where "read_sock n d = (Inl EINTR, d')"
  | (err) e d' where "read_sock n d = (Inl e, d')" "e \<noteq> EINTR"
  | (eof) d' where "read_sock n d = (Inr [], d')"
  | (data) bs d' where "read_sock n d = (Inr bs, d')" "bs \<noteq> []"
proof -
  obtain x d' where "read_sock n d = (x, d')" by fastforce
  then show ?thesis using that by (cases x) blast+
qed

lemma write_sock_frame [simp]:
  "write_sock bs d = (r, d') \<Longrightarrow> rx d' = rx d \<and> fin d' = fin d"
  by (auto simp: write_sock_def split: prod.splits sum.splits)

lemma write_sock_ok:
  assumes "write_sock bs d = (Inr k, d')"
  shows "sent d' = sent d @ take k bs" and "k \<le> length bs" and "length (tx d') \<le> length (tx d)"
    and "k = 0 \<Longrightarrow> bs \<noteq> [] \<Longrightarrow> tx d \<noteq> []"
  using assms
  by (cases "(bs, tx d)" rule: sys_write.cases; auto simp: write_sock_def)+

lemma write_sock_err:
  assumes "write_sock bs d = (Inl e, d')"
  shows "sent d' = sent d" and "length (tx d') < length (tx d)"
  using assms
  by (cases "(bs, tx d)" rule: sys_write.cases; auto simp: write_sock_def)+

lemma write_sock_cases:
  obtains (intr) d' where "write_sock bs d = (Inl EINTR, d')"
  | (err) e d' where "write_sock bs d = (Inl e, d')" "e \<noteq> EINTR"
  | (zero) d' where "write_sock bs d = (Inr 0, d')"
  | (some) k d' where "write_sock bs d = (Inr k, d')" "0 < k"
proof -
  obtain x d' where "write_sock bs d = (x, d')" by fastforce
  then show ?thesis using that by (cases x) (blast, metis neq0_conv)
qed

lemma write_sock_shrinks:
  assumes "write_sock bs d = (Inr k, d')" and "0 < k"
  shows "length bs - k + length (tx d') < length bs + length (tx d)"
proof -
  from assms have "k \<le> length bs" and "length (tx d') \<le> length (tx d)"
    by (auto dest: write_sock_ok)
  with assms(2) show ?thesis by linarith
qed

lemmas io_termination =
  read_sock_intr(3) [OF sym] read_sock_shrinks [OF sym]
  write_sock_err(2) [OF sym] write_sock_shrinks [OF sym]

section \<open>Standard I/O streams\<close>

text \<open>
  A \<^verbatim>\<open>FILE\<close> open for reading: the characters still to come and whether the stream then fails
  (\<^verbatim>\<open>ferror\<close>) instead of ending.
\<close>

record stdio =
  f_data :: "char list"
  f_error :: "errno option"

text \<open>
  \<^verbatim>\<open>fgets(ptr, n, fp)\<close> reads up to and including the next newline, at most \<open>n - 1\<close> characters.
\<close>

fun take_line :: "nat \<Rightarrow> char list \<Rightarrow> char list \<times> char list" where
  "take_line 0 s = ([], s)"
| "take_line (Suc k) [] = ([], [])"
| "take_line (Suc k) (c # s) =
     (if c = NL then ([c], s) else (case take_line k s of (l, r) \<Rightarrow> (c # l, r)))"

definition fgets :: "nat \<Rightarrow> stdio \<Rightarrow> char list option \<times> stdio" where
  "fgets n fp =
     (case take_line (n - 1) (f_data fp) of
        (l, r) \<Rightarrow> if f_data fp = [] \<or> (r = [] \<and> f_error fp \<noteq> None \<and> last l \<noteq> NL \<and> length l < n - 1)
                 then (None, fp\<lparr>f_data := r\<rparr>) else (Some l, fp\<lparr>f_data := r\<rparr>))"

lemma take_line_append: "take_line k s = (l, r) \<Longrightarrow> s = l @ r"
  by (induction k s arbitrary: l r rule: take_line.induct) (auto split: if_splits prod.splits)

lemma take_line_length: "take_line k s = (l, r) \<Longrightarrow> length l \<le> k"
  by (induction k s arbitrary: l r rule: take_line.induct) (auto split: if_splits prod.splits)

lemma take_line_nonempty: "take_line (Suc k) (c # s) = (l, r) \<Longrightarrow> l \<noteq> []"
  by (auto split: if_splits prod.splits)

lemma take_line_shape:
  "take_line k s = (l, r) \<Longrightarrow>
     (NL \<notin> set l \<and> (length l = k \<or> r = [])) \<or> (\<exists>l'. l = l' @ [NL] \<and> NL \<notin> set l')"
proof (induction k s arbitrary: l r rule: take_line.induct)
  case (3 k c s)
  show ?case
  proof (cases "c = NL")
    case True
    with "3.prems" show ?thesis by auto
  next
    case False
    with "3.prems" obtain l' where l': "take_line k s = (l', r)" and l: "l = c # l'"
      by (auto split: prod.splits)
    from "3.IH" [OF False l'] show ?thesis
    proof
      assume "NL \<notin> set l' \<and> (length l' = k \<or> r = [])"
      with False l show ?thesis by auto
    next
      assume "\<exists>l''. l' = l'' @ [NL] \<and> NL \<notin> set l''"
      then obtain l'' where "l' = l'' @ [NL]" and "NL \<notin> set l''" by blast
      with False l have "l = (c # l'') @ [NL] \<and> NL \<notin> set (c # l'')" by simp
      then show ?thesis by blast
    qed
  qed
qed auto

end
