(* ===== verification/Io_Lib.thy ===== *)
theory Io_Lib
  imports Unix_IO
begin

text \<open>
  The counted stream input and output library of \<^verbatim>\<open>unp/src/lib.c\<close>: \<^verbatim>\<open>readn\<close>, \<^verbatim>\<open>writen\<close> and
  their error-checking wrappers, with what they do to the abstract stream of a descriptor for
  every segmentation, interruption and failure.
\<close>

section \<open>readn and writen\<close>

text \<open>
  The result is what the function returns (\<open>Inl\<close> for \<open>-1\<close>, with the \<^verbatim>\<open>errno\<close>), the bytes stored
  at \<^verbatim>\<open>vptr\<close>, and the descriptor.
\<close>

function readn_loop ::
  "nat \<Rightarrow> nat \<Rightarrow> char list \<Rightarrow> sockd \<Rightarrow> (errno + nat) \<times> char list \<times> sockd" where
  "readn_loop n nleft acc d =
     (if nleft = 0 then (Inr (n - nleft), acc, d)
      else (case read_sock nleft d of
              (Inl e, d') \<Rightarrow> if e = EINTR then readn_loop n nleft acc d' else (Inl e, acc, d')
            | (Inr bs, d') \<Rightarrow>
                if bs = [] then (Inr (n - nleft), acc, d')
                else readn_loop n (nleft - length bs) (acc @ bs) d'))"
  by pat_completeness auto
termination
  by (relation "measure (\<lambda>(n, nleft, acc, d). nleft + length (rx d))")
    (auto dest: io_termination)

declare readn_loop.simps [simp del]

definition readn :: "nat \<Rightarrow> sockd \<Rightarrow> (errno + nat) \<times> char list \<times> sockd" where
  "readn n d = readn_loop n n [] d"

definition Readn :: "nat \<Rightarrow> (nat \<times> char list, sockd) prog" where
  "Readn n d = (case readn n d of
                  (Inl e, bs, d') \<Rightarrow> Die (Err_sys ''readn error'' (Some e)) d'
                | (Inr k, bs, d') \<Rightarrow> Ret (k, bs) d')"

text \<open>
  \<^verbatim>\<open>writen\<close> gives up on a \<^verbatim>\<open>write\<close> that accepts nothing, in which case \<^verbatim>\<open>errno\<close> was not set
  by that call (\<open>Inl None\<close>).
\<close>

function writen_loop :: "nat \<Rightarrow> char list \<Rightarrow> sockd \<Rightarrow> (errno option + nat) \<times> sockd" where
  "writen_loop n bs d =
     (if bs = [] then (Inr n, d)
      else (case write_sock bs d of
              (Inl e, d') \<Rightarrow> if e = EINTR then writen_loop n bs d' else (Inl (Some e), d')
            | (Inr k, d') \<Rightarrow> if k = 0 then (Inl None, d') else writen_loop n (drop k bs) d'))"
  by pat_completeness auto
termination
  by (relation "measure (\<lambda>(n, bs, d). length bs + length (tx d))")
    (auto dest: io_termination)

declare writen_loop.simps [simp del]

definition writen :: "char list \<Rightarrow> sockd \<Rightarrow> (errno option + nat) \<times> sockd" where
  "writen bs d = writen_loop (length bs) bs d"

definition Writen :: "char list \<Rightarrow> (unit, sockd) prog" where
  "Writen bs d = (case writen bs d of
                    (Inl e, d') \<Rightarrow> Die (Err_sys ''writen error'' e) d'
                  | (Inr k, d') \<Rightarrow>
                      if k \<noteq> length bs then Die (Err_sys ''writen error'' None) d' else Ret () d')"

section \<open>readn and writen: what they do to the stream\<close>

lemma readn_loop_steps:
  "readn_loop n 0 acc d = (Inr n, acc, d)"
  "0 < nleft \<Longrightarrow> read_sock nleft d = (Inl EINTR, d') \<Longrightarrow>
     readn_loop n nleft acc d = readn_loop n nleft acc d'"
  "0 < nleft \<Longrightarrow> read_sock nleft d = (Inl e, d') \<Longrightarrow> e \<noteq> EINTR \<Longrightarrow>
     readn_loop n nleft acc d = (Inl e, acc, d')"
  "0 < nleft \<Longrightarrow> read_sock nleft d = (Inr [], d') \<Longrightarrow>
     readn_loop n nleft acc d = (Inr (n - nleft), acc, d')"
  "0 < nleft \<Longrightarrow> read_sock nleft d = (Inr bs, d') \<Longrightarrow> bs \<noteq> [] \<Longrightarrow>
     readn_loop n nleft acc d = readn_loop n (nleft - length bs) (acc @ bs) d'"
  by (subst readn_loop.simps; simp)+

text \<open>
  What the loop leaves behind, as a predicate of the state it starts from: the next \<open>nleft\<close> bytes
  if there are as many, otherwise everything up to the end of the stream.
\<close>

definition readn_post ::
  "nat \<Rightarrow> nat \<Rightarrow> char list \<Rightarrow> sockd \<Rightarrow> (errno + nat) \<times> char list \<times> sockd \<Rightarrow> bool" where
  "readn_post n nleft acc d out = (case out of (r, stored, d') \<Rightarrow>
     tx d' = tx d \<and> sent d' = sent d \<and> fin d' = fin d \<and>
     (if nleft \<le> length (avail (rx d))
      then r = Inr n \<and> stored = acc @ take nleft (avail (rx d)) \<and>
           avail (rx d') = drop nleft (avail (rx d)) \<and> stream_end (rx d') = stream_end (rx d)
      else stored = acc @ avail (rx d) \<and>
           r = (case stream_end (rx d) of
                  None \<Rightarrow> Inr (n - (nleft - length (avail (rx d)))) | Some e \<Rightarrow> Inl e)))"

lemma readn_post_intr:
  "read_sock k d = (Inl EINTR, d') \<Longrightarrow> readn_post n nleft acc d' out \<Longrightarrow> readn_post n nleft acc d out"
  by (cases out; cases "stream_end (rx d)") (simp_all add: readn_post_def read_sock_intr)

lemma readn_post_data:
  assumes "read_sock nleft d = (Inr bs, d')" and "bs \<noteq> []"
    and "readn_post n (nleft - length bs) (acc @ bs) d' out"
  shows "readn_post n nleft acc d out"
proof -
  obtain r stored d2 where out: "out = (r, stored, d2)" by (cases out) auto
  note rd = read_sock_data(1-3) [OF assms(1,2)] read_sock_frame [OF assms(1)]
  have "nleft \<le> length (avail (rx d)) \<longleftrightarrow> nleft - length bs \<le> length (avail (rx d'))"
    using rd by simp linarith
  with assms(3) rd out show ?thesis
    by (cases "stream_end (rx d)") (simp_all add: readn_post_def split: if_splits)
qed

lemma readn_loop_spec: "readn_post n nleft acc d (readn_loop n nleft acc d)"
proof (induction "nleft + length (rx d)" arbitrary: nleft acc d rule: less_induct)
  case less
  show ?case
  proof (cases "nleft = 0")
    case True
    then show ?thesis by (simp add: readn_loop_steps readn_post_def)
  next
    case False
    then have pos: "0 < nleft" by simp
    show ?thesis
    proof (cases nleft d rule: read_sock_cases)
      case (intr d')
      with less [of nleft d'] pos show ?thesis
        by (auto simp: readn_loop_steps read_sock_intr intro: readn_post_intr)
    next
      case (err e d')
      with pos read_sock_err [OF err] show ?thesis
        by (auto simp: readn_loop_steps readn_post_def)
    next
      case (eof d')
      with pos read_sock_eof [OF eof pos] show ?thesis
        by (auto simp: readn_loop_steps readn_post_def)
    next
      case (data bs d')
      with less [of "nleft - length bs" d'] pos read_sock_shrinks [OF data] show ?thesis
        by (auto simp: readn_loop_steps intro: readn_post_data)
    qed
  qed
qed

text \<open>Enough is on the stream: exactly the next \<open>n\<close> bytes, whatever the segmentation.\<close>

lemma readn_full:
  assumes "n \<le> length (avail (rx d))"
  obtains d' where "readn n d = (Inr n, take n (avail (rx d)), d')"
    and "avail (rx d') = drop n (avail (rx d))" and "stream_end (rx d') = stream_end (rx d)"
  using assms readn_loop_spec [of n n "[]" d]
  by (cases "readn n d") (auto simp: readn_def readn_post_def)

lemma readn_short:
  assumes "length (avail (rx d)) < n"
  obtains d' where "readn n d =
    (case stream_end (rx d) of None \<Rightarrow> Inr (length (avail (rx d))) | Some e \<Rightarrow> Inl e,
     avail (rx d), d')"
  using assms readn_loop_spec [of n n "[]" d]
  by (cases "readn n d"; cases "stream_end (rx d)") (simp_all add: readn_def readn_post_def)

text \<open>Every event of a script of \<^verbatim>\<open>write\<close> results that lets the writer go on.\<close>

definition tx_live :: "tx_event list \<Rightarrow> bool" where
  "tx_live ws \<longleftrightarrow> (\<forall>w \<in> set ws. w = TxErr EINTR \<or> (\<exists>k > 0. w = Accepts k))"

lemma write_sock_live:
  assumes "write_sock bs d = (r, d')" and "tx_live (tx d)" and "bs \<noteq> []"
  shows "tx_live (tx d')" and "r = Inl EINTR \<or> (\<exists>k > 0. r = Inr k)"
  using assms
  by (cases "(bs, tx d)" rule: sys_write.cases; auto simp: write_sock_def tx_live_def)+

lemma writen_loop_steps:
  "writen_loop n [] d = (Inr n, d)"
  "bs \<noteq> [] \<Longrightarrow> write_sock bs d = (Inl EINTR, d') \<Longrightarrow> writen_loop n bs d = writen_loop n bs d'"
  "bs \<noteq> [] \<Longrightarrow> write_sock bs d = (Inl e, d') \<Longrightarrow> e \<noteq> EINTR \<Longrightarrow> writen_loop n bs d = (Inl (Some e), d')"
  "bs \<noteq> [] \<Longrightarrow> write_sock bs d = (Inr 0, d') \<Longrightarrow> writen_loop n bs d = (Inl None, d')"
  "bs \<noteq> [] \<Longrightarrow> write_sock bs d = (Inr k, d') \<Longrightarrow> 0 < k \<Longrightarrow>
     writen_loop n bs d = writen_loop n (drop k bs) d'"
  by (subst writen_loop.simps; simp)+

definition writen_post :: "nat \<Rightarrow> char list \<Rightarrow> sockd \<Rightarrow> (errno option + nat) \<times> sockd \<Rightarrow> bool" where
  "writen_post n bs d out = (case out of (r, d') \<Rightarrow>
     rx d' = rx d \<and> fin d' = fin d \<and>
     (\<exists>k \<le> length bs. sent d' = sent d @ take k bs \<and> (r = Inr n \<longrightarrow> k = length bs)) \<and>
     ((\<exists>e. r = Inl e) \<or> r = Inr n) \<and>
     (tx_live (tx d) \<longrightarrow> r = Inr n))"

lemma writen_post_intr:
  assumes "write_sock bs d = (Inl EINTR, d')" and "bs \<noteq> []" and "writen_post n bs d' out"
  shows "writen_post n bs d out"
  using assms write_sock_live(1) [OF assms(1) _ assms(2)] write_sock_err(1) [OF assms(1)]
  by (auto simp: writen_post_def split: prod.splits)

lemma writen_post_some:
  assumes "write_sock bs d = (Inr k, d')" and "bs \<noteq> []" and "writen_post n (drop k bs) d' out"
  shows "writen_post n bs d out"
proof -
  obtain r d2 where out: "out = (r, d2)" by fastforce
  from assms(1) have k: "k \<le> length bs" and s: "sent d' = sent d @ take k bs"
    by (auto dest: write_sock_ok)
  from assms(3) out obtain j where j: "j \<le> length (drop k bs)"
    "sent d2 = sent d' @ take j (drop k bs)" "r = Inr n \<longrightarrow> j = length (drop k bs)"
    by (auto simp: writen_post_def)
  with k s have "k + j \<le> length bs \<and> sent d2 = sent d @ take (k + j) bs \<and> (r = Inr n \<longrightarrow> k + j = length bs)"
    by (auto simp: take_add)
  with assms out write_sock_live(1) [OF assms(1) _ assms(2)] show ?thesis
    by (auto simp: writen_post_def)
qed

lemma writen_loop_spec: "writen_post n bs d (writen_loop n bs d)"
proof (induction "length bs + length (tx d)" arbitrary: bs d rule: less_induct)
  case less
  show ?case
  proof (cases "bs = []")
    case True
    then show ?thesis by (simp add: writen_loop_steps writen_post_def)
  next
    case ne: False
    show ?thesis
    proof (cases bs d rule: write_sock_cases)
      case (intr d')
      with less [of bs d'] ne show ?thesis
        by (auto simp: writen_loop_steps write_sock_err intro: writen_post_intr)
    next
      case (err e d')
      with ne write_sock_err [OF err(1)] write_sock_live [OF err(1) _ ne] show ?thesis
        by (auto simp: writen_loop_steps writen_post_def intro: exI [of _ 0])
    next
      case (zero d')
      with ne write_sock_ok [OF zero] write_sock_live [OF zero _ ne] show ?thesis
        by (auto simp: writen_loop_steps writen_post_def intro: exI [of _ 0])
    next
      case (some k d')
      with less [of "drop k bs" d'] ne write_sock_shrinks [OF some] show ?thesis
        by (auto simp: writen_loop_steps intro: writen_post_some)
    qed
  qed
qed

lemma writen_success:
  assumes "writen bs d = (Inr k, d')"
  shows "k = length bs" and "sent d' = sent d @ bs" and "rx d' = rx d"
  using writen_loop_spec [of "length bs" bs d] assms
  by (auto simp: writen_def writen_post_def)

lemma writen_live:
  assumes "tx_live (tx d)"
  obtains d' where "writen bs d = (Inr (length bs), d')" and "sent d' = sent d @ bs"
    and "rx d' = rx d" and "fin d' = fin d"
  using writen_loop_spec [of "length bs" bs d] assms
  by (cases "writen bs d") (auto simp: writen_def writen_post_def)

lemma write_sock_tx: "write_sock bs d = (r, d') \<Longrightarrow> set (tx d') \<subseteq> set (tx d)"
  by (cases "(bs, tx d)" rule: sys_write.cases) (auto simp: write_sock_def)

lemma writen_loop_tx: "set (tx (snd (writen_loop n bs d))) \<subseteq> set (tx d)"
proof (induction n bs d rule: writen_loop.induct)
  case (1 n bs d)
  show ?case
  proof (cases bs d rule: write_sock_cases)
    case (intr d')
    have "bs \<noteq> [] \<Longrightarrow> set (tx (snd (writen_loop n bs d'))) \<subseteq> set (tx d')" using 1(1) intr by auto
    with intr write_sock_tx [OF intr] show ?thesis by (cases "bs = []") (auto simp: writen_loop_steps)
  next
    case (err e d')
    with write_sock_tx [OF err(1)] show ?thesis by (cases "bs = []") (auto simp: writen_loop_steps)
  next
    case (zero d')
    with write_sock_tx [OF zero] show ?thesis by (cases "bs = []") (auto simp: writen_loop_steps)
  next
    case (some k d')
    have "bs \<noteq> [] \<Longrightarrow> set (tx (snd (writen_loop n (drop k bs) d'))) \<subseteq> set (tx d')" using 1(2) some by auto
    with some write_sock_tx [OF some(1)] show ?thesis by (cases "bs = []") (auto simp: writen_loop_steps)
  qed
qed

lemma Writen_live:
  assumes "tx_live (tx d)"
  obtains d' where "Writen bs d = Ret () d'" "sent d' = sent d @ bs" "rx d' = rx d" "fin d' = fin d" "tx_live (tx d')"
proof -
  obtain d' where d': "writen bs d = (Inr (length bs), d')" "sent d' = sent d @ bs" "rx d' = rx d" "fin d' = fin d"
    using writen_live [OF assms] .
  moreover from d'(1) have "set (tx d') \<subseteq> set (tx d)"
    using writen_loop_tx [of "length bs" bs d] by (simp add: writen_def)
  with assms have "tx_live (tx d')" by (auto simp: tx_live_def)
  ultimately show ?thesis by (intro that [of d']) (simp_all add: Writen_def)
qed

lemma Writen_cases:
  obtains d' where "Writen bs d = Ret () d'" "sent d' = sent d @ bs" "rx d' = rx d" "fin d' = fin d"
  | k e d' where "Writen bs d = Die (Err_sys ''writen error'' e) d'" "sent d' = sent d @ take k bs"
      "rx d' = rx d"
  using writen_loop_spec [of "length bs" bs d]
  by (cases "writen bs d") (fastforce simp: Writen_def writen_def writen_post_def split: sum.splits)

section \<open>Properties of readn and writen\<close>

text \<open>
  C1. \<^verbatim>\<open>readn\<close> always returns. If the stream still holds \<open>n\<close> bytes it returns \<open>n\<close>, stores exactly the
  next \<open>n\<close> of them and leaves the rest; otherwise it stores everything up to the end of the stream
  and returns that count at end-of-file, \<open>-1\<close> with the \<^verbatim>\<open>errno\<close> after a failure. How the data was
  segmented and which calls were interrupted makes no difference, and nothing is written.
\<close>

theorem readn_correct:
  "case readn n d of (r, stored, d') \<Rightarrow>
     (if n \<le> length (avail (rx d))
      then r = Inr n \<and> stored = take n (avail (rx d)) \<and>
           avail (rx d') = drop n (avail (rx d)) \<and> stream_end (rx d') = stream_end (rx d)
      else stored = avail (rx d) \<and>
           r = (case stream_end (rx d) of None \<Rightarrow> Inr (length (avail (rx d))) | Some e \<Rightarrow> Inl e))
     \<and> sent d' = sent d \<and> tx d' = tx d"
  using readn_loop_spec [of n n "[]" d]
  by (cases "readn n d"; cases "stream_end (rx d)") (auto simp: readn_def readn_post_def)


end
