(* ===== verification/Line_Io.thy ===== *)
theory Line_Io
  imports Io_Lib
begin

text \<open>
  The line readers: the buffered \<^verbatim>\<open>my_read\<close>/\<^verbatim>\<open>readline\<close>/\<^verbatim>\<open>readlinebuf\<close> of
  \<^verbatim>\<open>unp/src/lib.c\<close>, the one-byte-at-a-time \<^verbatim>\<open>readline\<close> of \<^verbatim>\<open>server/readline.c\<close> and the
  reentrant \<^verbatim>\<open>readline_r\<close> of \<^verbatim>\<open>server/readline_r.c\<close>. They are proved against the interface of
  a character source (locale \<open>char_source\<close>), which the buffered and the unbuffered readers
  implement, so that a line depends on the byte stream only and not on how it was segmented.
\<close>

section \<open>The buffered line reader\<close>


text \<open>The three static variables; \<^verbatim>\<open>read_ptr\<close> is an index into \<^verbatim>\<open>read_buf\<close>.\<close>

record rlbuf =
  read_cnt :: int
  read_ptr :: nat
  read_buf :: "char list"

definition rl_init :: rlbuf where
  "rl_init = \<lparr>read_cnt = 0, read_ptr = 0, read_buf = replicate MAXLINE NUL\<rparr>"

type_synonym rlstate = "rlbuf \<times> sockd"

definition rl_deliver :: "rlstate \<Rightarrow> (errno + char option) \<times> rlstate" where
  "rl_deliver s = (case s of (b, d) \<Rightarrow>
     (Inr (Some (read_buf b ! read_ptr b)),
      (b\<lparr>read_cnt := read_cnt b - 1, read_ptr := read_ptr b + 1\<rparr>, d)))"

text \<open>The \<^verbatim>\<open>again:\<close> loop, which restarts an interrupted \<^verbatim>\<open>read\<close> into \<^verbatim>\<open>read_buf\<close>.\<close>

function my_read_again :: "rlbuf \<Rightarrow> sockd \<Rightarrow> (errno + char option) \<times> rlstate" where
  "my_read_again b d =
     (case read_sock MAXLINE d of
        (Inl e, d') \<Rightarrow>
          if e = EINTR then my_read_again (b\<lparr>read_cnt := - 1\<rparr>) d'
          else (Inl e, (b\<lparr>read_cnt := - 1\<rparr>, d'))
      | (Inr bs, d') \<Rightarrow>
          if bs = [] then (Inr None, (b\<lparr>read_cnt := 0\<rparr>, d'))
          else rl_deliver (b\<lparr>read_cnt := int (length bs), read_buf := blit (read_buf b) 0 bs,
                             read_ptr := 0\<rparr>, d'))"
  by pat_completeness auto
termination
  by (relation "measure (\<lambda>(b, d). length (rx d))") (auto dest: io_termination)

declare my_read_again.simps [simp del]

definition my_read :: "rlstate \<Rightarrow> (errno + char option) \<times> rlstate" where
  "my_read s = (case s of (b, d) \<Rightarrow> if read_cnt b \<le> 0 then my_read_again b d else rl_deliver s)"

text \<open>
  The \<^verbatim>\<open>for\<close> loop that all the line readers share, over the character reader it calls and the
  branch taken at end-of-file. \<open>k\<close> is the number of iterations left, \<open>n\<close> the loop variable; the
  bytes stored at \<^verbatim>\<open>vptr\<close> include the final null.
\<close>

type_synonym eof_branch = "nat \<Rightarrow> char list \<Rightarrow> (errno + nat) \<times> char list"

fun readline_loop ::
  "eof_branch \<Rightarrow> ('s \<Rightarrow> (errno + char option) \<times> 's) \<Rightarrow> nat \<Rightarrow> nat \<Rightarrow> char list \<Rightarrow> 's
     \<Rightarrow> (errno + nat) \<times> char list \<times> 's" where
  "readline_loop ateof get 0 n acc s = (Inr n, acc @ [NUL], s)"
| "readline_loop ateof get (Suc k) n acc s =
     (case get s of
        (Inr (Some c), s') \<Rightarrow>
          if c = NL then (Inr n, acc @ [c, NUL], s')
          else readline_loop ateof get k (n + 1) (acc @ [c]) s'
      | (Inr None, s') \<Rightarrow> (case ateof n acc of (r, stored) \<Rightarrow> (r, stored, s'))
      | (Inl e, s') \<Rightarrow> (Inl e, acc, s'))"

text \<open>\<^verbatim>\<open>lib.c\<close>: null terminate and return the number of bytes read.\<close>

definition lib_eof :: eof_branch where
  "lib_eof n acc = (Inr (n - 1), acc @ [NUL])"

definition readline :: "nat \<Rightarrow> rlstate \<Rightarrow> (errno + nat) \<times> char list \<times> rlstate" where
  "readline maxlen s = readline_loop lib_eof my_read (maxlen - 1) 1 [] s"

definition readlinebuf :: "rlstate \<Rightarrow> int \<times> nat option" where
  "readlinebuf s = (read_cnt (fst s), if read_cnt (fst s) \<noteq> 0 then Some (read_ptr (fst s)) else None)"

definition Readline :: "nat \<Rightarrow> (nat \<times> char list, rlstate) prog" where
  "Readline maxlen s = (case readline maxlen s of
                          (Inl e, l, s') \<Rightarrow> Die (Err_sys ''readline error'' (Some e)) s'
                        | (Inr n, l, s') \<Rightarrow> Ret (n, l) s')"

section \<open>The line readers of the server directory\<close>

text \<open>\<^verbatim>\<open>read(fd, &c, 1)\<close>.\<close>

definition read_char :: "sockd \<Rightarrow> (errno + char option) \<times> sockd" where
  "read_char d = (case read_sock 1 d of
                    (Inl e, d') \<Rightarrow> (Inl e, d')
                  | (Inr [], d') \<Rightarrow> (Inr None, d')
                  | (Inr (c # cs), d') \<Rightarrow> (Inr (Some c), d'))"

text \<open>
  \<^verbatim>\<open>server/readline.c\<close> and \<^verbatim>\<open>readline_r\<close>: return 0 if nothing was read, otherwise leave the
  loop, null terminate and return the loop variable.
\<close>

definition srv_eof :: eof_branch where
  "srv_eof n acc = (if n = 1 then (Inr 0, acc) else (Inr n, acc @ [NUL]))"

definition srv_readline :: "nat \<Rightarrow> sockd \<Rightarrow> (errno + nat) \<times> char list \<times> sockd" where
  "srv_readline maxlen d = readline_loop srv_eof read_char (maxlen - 1) 1 [] d"

definition srv_Readline :: "nat \<Rightarrow> (nat \<times> char list, sockd) prog" where
  "srv_Readline maxlen d = (case srv_readline maxlen d of
                              (Inl e, l, d') \<Rightarrow> Die (Err_sys ''readline error'' (Some e)) d'
                            | (Inr n, l, d') \<Rightarrow> Ret (n, l) d')"

text \<open>
  \<^verbatim>\<open>server/readline_r.c\<close> keeps the three variables in the caller's \<^verbatim>\<open>Rline\<close>, so its reader is the
  buffered one on a state of its own; \<^verbatim>\<open>readline_rinit\<close> resets the counter and the pointer and
  leaves the buffer as it was.
\<close>

record Rline =
  read_maxlen :: nat
  rl :: rlbuf

definition readline_rinit :: "nat \<Rightarrow> Rline \<Rightarrow> Rline" where
  "readline_rinit maxlen rp = rp\<lparr>read_maxlen := maxlen, rl := (rl rp)\<lparr>read_cnt := 0, read_ptr := 0\<rparr>\<rparr>"

definition my_read_r :: "rlstate \<Rightarrow> (errno + char option) \<times> rlstate" where
  "my_read_r s = (case s of (b, d) \<Rightarrow> if read_cnt b \<le> 0 then my_read_again b d else rl_deliver s)"

definition readline_r :: "Rline \<Rightarrow> sockd \<Rightarrow> (errno + nat) \<times> char list \<times> Rline \<times> sockd" where
  "readline_r rp d =
     (case readline_loop srv_eof my_read_r (read_maxlen rp - 1) 1 [] (rl rp, d) of
        (r, stored, b, d') \<Rightarrow> (r, stored, rp\<lparr>rl := b\<rparr>, d'))"

definition Readline_r :: "(nat \<times> char list, Rline \<times> sockd) prog" where
  "Readline_r s = (case readline_r (fst s) (snd s) of
                         (Inl e, l, rp, d') \<Rightarrow> Die (Err_sys ''readline_r error'' (Some e)) (rp, d')
                       | (Inr n, l, rp, d') \<Rightarrow> Ret (n, l) (rp, d'))"

text \<open>
  \<^verbatim>\<open>threads/readline.c\<close> keeps them in thread-specific data, allocated as zeros on the thread's
  first call.
\<close>

definition tsd_get :: "rlbuf option \<Rightarrow> rlbuf" where
  "tsd_get t = (case t of None \<Rightarrow> rl_init | Some b \<Rightarrow> b)"

definition thr_readline ::
  "nat \<Rightarrow> rlbuf option \<times> sockd \<Rightarrow> (errno + nat) \<times> char list \<times> rlbuf option \<times> sockd" where
  "thr_readline maxlen s =
     (case readline_loop lib_eof my_read (maxlen - 1) 1 [] (tsd_get (fst s), snd s) of
        (r, stored, b, d') \<Rightarrow> (r, stored, Some b, d'))"

section \<open>What a line reader returns\<close>

text \<open>
  The reference result over the abstract stream: the line is the one \<^verbatim>\<open>fgets\<close> would take. The
  parameters are those of the loop, \<open>acc\<close> being the bytes already stored.
\<close>

definition line_spec ::
  "eof_branch \<Rightarrow> nat \<Rightarrow> nat \<Rightarrow> char list \<Rightarrow> char list \<Rightarrow> errno option \<Rightarrow> (errno + nat) \<times> char list" where
  "line_spec ateof k n acc s en =
     (let l = fst (take_line k s)
      in if l \<noteq> [] \<and> last l = NL then (Inr (n - 1 + length l), acc @ l @ [NUL])
         else if length l = k then (Inr (n + length l), acc @ l @ [NUL])
         else (case en of None \<Rightarrow> ateof (n + length l) (acc @ l) | Some e \<Rightarrow> (Inl e, acc @ l)))"

text \<open>When the stream is not used up, the reader leaves the rest of it behind.\<close>

definition line_complete :: "nat \<Rightarrow> char list \<Rightarrow> bool" where
  "line_complete k s \<longleftrightarrow> (let l = fst (take_line k s) in (l \<noteq> [] \<and> last l = NL) \<or> length l = k)"

lemma take_line_Cons:
  "c \<noteq> NL \<Longrightarrow> take_line (Suc k) (c # s) = (c # fst (take_line k s), snd (take_line k s))"
  by (simp split: prod.splits)

lemma line_spec_Cons:
  "c \<noteq> NL \<Longrightarrow> 0 < n \<Longrightarrow>
     line_spec ateof (Suc k) n acc (c # s) en = line_spec ateof k (n + 1) (acc @ [c]) s en"
  by (cases en) (auto simp: line_spec_def Let_def take_line_Cons simp del: take_line.simps)

lemma line_complete_Cons: "c \<noteq> NL \<Longrightarrow> line_complete (Suc k) (c # s) = line_complete k s"
  by (auto simp: line_complete_def Let_def take_line_Cons simp del: take_line.simps)

section \<open>Character sources\<close>

text \<open>
  What a line reader relies on: a state has a stream of characters still to come and an end, a
  character taken is the head of the stream, end-of-file and failure are reported exactly at its
  end.
\<close>

locale char_source =
  fixes get :: "'s \<Rightarrow> (errno + char option) \<times> 's"
    and inv :: "'s \<Rightarrow> bool"
    and strm :: "'s \<Rightarrow> char list"
    and ending :: "'s \<Rightarrow> errno option"
  assumes get_char: "inv s \<Longrightarrow> get s = (Inr (Some c), s') \<Longrightarrow>
      strm s = c # strm s' \<and> ending s' = ending s \<and> inv s'"
    and get_eof: "inv s \<Longrightarrow> get s = (Inr None, s') \<Longrightarrow> strm s = [] \<and> ending s = None \<and> inv s'"
    and get_err: "inv s \<Longrightarrow> get s = (Inl e, s') \<Longrightarrow> strm s = [] \<and> ending s = Some e \<and> inv s'"
begin

text \<open>The state determines what is read next.\<close>

lemma get_cases:
  assumes "inv s"
  obtains (char) c s' where "get s = (Inr (Some c), s')" "strm s = c # strm s'"
      "ending s' = ending s" "inv s'"
  | (eof) s' where "get s = (Inr None, s')" "strm s = []" "ending s = None" "inv s'"
  | (err) e s' where "get s = (Inl e, s')" "strm s = []" "ending s = Some e" "inv s'"
proof -
  obtain r s' where g: "get s = (r, s')" by fastforce
  show ?thesis
  proof (cases r)
    case (Inl e)
    with g assms that(3) show ?thesis by (auto dest: get_err)
  next
    case (Inr oc)
    with g assms that(1,2) show ?thesis by (cases oc) (auto dest: get_char get_eof)
  qed
qed

text \<open>The loop implements the reference result.\<close>

lemma readline_loop_spec:
  assumes "inv s" and "0 < n" and "readline_loop ateof get k n acc s = (r, stored, s')"
  shows "line_spec ateof k n acc (strm s) (ending s) = (r, stored) \<and> inv s' \<and>
         (line_complete k (strm s) \<longrightarrow>
            strm s' = snd (take_line k (strm s)) \<and> ending s' = ending s)"
  using assms
proof (induction k arbitrary: n acc s)
  case 0
  then show ?case by (auto simp: line_spec_def)
next
  case (Suc k)
  from \<open>inv s\<close> show ?case
  proof (cases rule: get_cases)
    case (char c s1)
    show ?thesis
    proof (cases "c = NL")
      case True
      with char Suc.prems show ?thesis by (auto simp: line_spec_def)
    next
      case False
      with char Suc.prems Suc.IH [of s1 "n + 1" "acc @ [c]"] show ?thesis
        by (simp add: line_spec_Cons line_complete_Cons take_line_Cons del: take_line.simps)
    qed
  next
    case (eof s1)
    with Suc.prems show ?thesis by (auto simp: line_spec_def line_complete_def split: prod.splits)
  next
    case (err e s1)
    with Suc.prems show ?thesis by (auto simp: line_spec_def line_complete_def)
  qed
qed

end

section \<open>The readers are character sources\<close>

text \<open>
  The buffered reader: \<^verbatim>\<open>read_ptr\<close> and \<^verbatim>\<open>read_cnt\<close> stay inside \<^verbatim>\<open>read_buf\<close>, and the stream is
  what is buffered followed by what the descriptor still delivers.
\<close>

definition rl_wf :: "rlstate \<Rightarrow> bool" where
  "rl_wf s \<longleftrightarrow> length (read_buf (fst s)) = MAXLINE \<and>
     (0 < read_cnt (fst s) \<longrightarrow> read_ptr (fst s) + nat (read_cnt (fst s)) \<le> MAXLINE)"

definition rl_pending :: "rlbuf \<Rightarrow> char list" where
  "rl_pending b = take (nat (read_cnt b)) (drop (read_ptr b) (read_buf b))"

definition rl_stream :: "rlstate \<Rightarrow> char list" where
  "rl_stream s = rl_pending (fst s) @ avail (rx (snd s))"

definition rl_ending :: "rlstate \<Rightarrow> errno option" where
  "rl_ending s = stream_end (rx (snd s))"

lemma rl_wf_init [simp]: "rl_wf (rl_init, d)"
  by (simp add: rl_wf_def rl_init_def)

lemma rl_stream_init [simp]: "rl_stream (rl_init, d) = avail (rx d)"
  by (simp add: rl_stream_def rl_pending_def rl_init_def)

lemma rl_deliver_spec:
  assumes "rl_wf (b, d)" and "0 < read_cnt b"
  obtains b' where "rl_deliver (b, d) = (Inr (Some (hd (rl_pending b))), (b', d))"
    and "rl_pending b = hd (rl_pending b) # rl_pending b'" and "rl_wf (b', d)"
proof -
  let ?b' = "b\<lparr>read_cnt := read_cnt b - 1, read_ptr := read_ptr b + 1\<rparr>"
  from assms have lt: "read_ptr b < length (read_buf b)" by (auto simp: rl_wf_def)
  have "nat (read_cnt b) = Suc (nat (read_cnt b - 1))" using assms(2) by simp
  then have "rl_pending b = read_buf b ! read_ptr b # rl_pending ?b'"
    using lt by (simp add: rl_pending_def Cons_nth_drop_Suc [symmetric])
  moreover have "rl_wf (?b', d)" using assms by (auto simp: rl_wf_def nat_diff_distrib)
  ultimately show ?thesis by (intro that [of ?b']) (simp_all add: rl_deliver_def)
qed

lemma my_read_again_steps:
  "read_sock MAXLINE d = (Inl EINTR, d') \<Longrightarrow>
     my_read_again b d = my_read_again (b\<lparr>read_cnt := - 1\<rparr>) d'"
  "read_sock MAXLINE d = (Inl e, d') \<Longrightarrow> e \<noteq> EINTR \<Longrightarrow>
     my_read_again b d = (Inl e, (b\<lparr>read_cnt := - 1\<rparr>, d'))"
  "read_sock MAXLINE d = (Inr [], d') \<Longrightarrow> my_read_again b d = (Inr None, (b\<lparr>read_cnt := 0\<rparr>, d'))"
  "read_sock MAXLINE d = (Inr bs, d') \<Longrightarrow> bs \<noteq> [] \<Longrightarrow>
     my_read_again b d = rl_deliver
       (b\<lparr>read_cnt := int (length bs), read_buf := blit (read_buf b) 0 bs, read_ptr := 0\<rparr>, d')"
  by (subst my_read_again.simps; simp)+

text \<open>What a character reader returns, as the three laws of a character source at one state.\<close>

definition source_step ::
  "('s \<Rightarrow> bool) \<Rightarrow> ('s \<Rightarrow> char list) \<Rightarrow> ('s \<Rightarrow> errno option) \<Rightarrow> 's \<Rightarrow> (errno + char option) \<times> 's \<Rightarrow> bool" where
  "source_step ok st en s out = (case out of (r, s') \<Rightarrow> ok s' \<and>
     (case r of
        Inl e \<Rightarrow> st s = [] \<and> en s = Some e
      | Inr None \<Rightarrow> st s = [] \<and> en s = None
      | Inr (Some c) \<Rightarrow> st s = c # st s' \<and> en s' = en s))"

lemma char_sourceI:
  assumes "\<And>s. ok s \<Longrightarrow> source_step ok st en s (g s)"
  shows "char_source g ok st en"
proof unfold_locales
  fix s c s'
  assume "ok s" "g s = (Inr (Some c), s')"
  with assms [of s] show "st s = c # st s' \<and> en s' = en s \<and> ok s'" by (simp add: source_step_def)
next
  fix s s'
  assume "ok s" "g s = (Inr None, s')"
  with assms [of s] show "st s = [] \<and> en s = None \<and> ok s'" by (simp add: source_step_def)
next
  fix s e s'
  assume "ok s" "g s = (Inl e, s')"
  with assms [of s] show "st s = [] \<and> en s = Some e \<and> ok s'" by (simp add: source_step_def)
qed

lemma my_read_again_source:
  assumes "rl_wf (b, d)" and "read_cnt b \<le> 0"
  shows "source_step rl_wf rl_stream rl_ending (b, d) (my_read_again b d)"
  using assms
proof (induction "length (rx d)" arbitrary: b d rule: less_induct)
  case less
  note empty = less.prems(2)
  show ?case
  proof (cases MAXLINE d rule: read_sock_cases)
    case (intr d')
    with less.hyps [of d' "b\<lparr>read_cnt := - 1\<rparr>"] less.prems read_sock_intr [OF intr] show ?thesis
      by (auto simp: my_read_again_steps source_step_def rl_wf_def rl_stream_def rl_ending_def
          rl_pending_def split: sum.splits option.splits)
  next
    case (err e d')
    with less.prems read_sock_err [OF err] show ?thesis
      by (simp add: my_read_again_steps source_step_def rl_wf_def rl_stream_def rl_ending_def rl_pending_def)
  next
    case (eof d')
    with less.prems read_sock_eof [OF eof] show ?thesis
      by (simp add: my_read_again_steps source_step_def rl_wf_def rl_stream_def rl_ending_def rl_pending_def)
  next
    case (data bs d')
    let ?b = "b\<lparr>read_cnt := int (length bs), read_buf := blit (read_buf b) 0 bs, read_ptr := 0\<rparr>"
    note rd = read_sock_data [OF data]
    have wf: "rl_wf (?b, d')" and pend: "rl_pending ?b = bs"
      using less.prems rd(3) by (auto simp: rl_wf_def rl_pending_def blit_def)
    have "0 < read_cnt ?b" using data(2) by simp
    with wf obtain b' where "rl_deliver (?b, d') = (Inr (Some (hd bs)), (b', d'))"
      "bs = hd bs # rl_pending b'" "rl_wf (b', d')"
      using rl_deliver_spec [of ?b d'] unfolding pend by blast
    then show ?thesis using data rd(1,2) empty
      by (simp add: my_read_again_steps source_step_def rl_stream_def rl_ending_def rl_pending_def [of b])
  qed
qed

lemma my_read_source: "rl_wf s \<Longrightarrow> source_step rl_wf rl_stream rl_ending s (my_read s)"
proof -
  obtain b d where s: "s = (b, d)" by fastforce
  assume wf: "rl_wf s"
  show ?thesis
  proof (cases "read_cnt b \<le> 0")
    case True
    with wf s show ?thesis by (simp add: my_read_def my_read_again_source)
  next
    case False
    with wf s obtain b' where "rl_deliver (b, d) = (Inr (Some (hd (rl_pending b))), (b', d))"
      "rl_pending b = hd (rl_pending b) # rl_pending b'" "rl_wf (b', d)"
      using rl_deliver_spec [of b d] by auto
    with False s show ?thesis
      by (simp add: my_read_def source_step_def rl_stream_def rl_ending_def)
  qed
qed

interpretation buffered: char_source my_read rl_wf rl_stream rl_ending
  by (rule char_sourceI) (rule my_read_source)

text \<open>The unbuffered reader does not restart an interrupted call.\<close>

definition no_intr_sock :: "sockd \<Rightarrow> bool" where
  "no_intr_sock d = no_intr (rx d)"

lemma read_char_source:
  "no_intr_sock d \<Longrightarrow>
     source_step no_intr_sock (\<lambda>d. avail (rx d)) (\<lambda>d. stream_end (rx d)) d (read_char d)"
  by (cases "(1 :: nat, rx d)" rule: sys_read.cases)
    (auto simp: read_char_def read_sock_def source_step_def no_intr_sock_def split: list.splits)

interpretation unbuffered: char_source read_char no_intr_sock "\<lambda>d. avail (rx d)" "\<lambda>d. stream_end (rx d)"
  by (rule char_sourceI) (rule read_char_source)

interpretation reentrant: char_source my_read_r rl_wf rl_stream rl_ending
  by (rule char_sourceI) (metis my_read_source my_read_r_def my_read_def)

section \<open>Properties of the line readers\<close>

lemma line_spec_length:
  "line_spec lib_eof k 1 [] s en = (r, stored) \<Longrightarrow> length stored \<le> k + 1"
  using take_line_length [of k s]
  by (cases "take_line k s"; cases en) (auto simp: line_spec_def lib_eof_def Let_def split: if_splits)

lemma take_line_no_NL: "NL \<notin> set (take k s) \<Longrightarrow> take_line k s = (take k s, drop k s)"
  by (induction k s rule: take_line.induct) auto

lemma last_no_NL: "NL \<notin> set l \<Longrightarrow> l \<noteq> [] \<Longrightarrow> last l \<noteq> NL"
  by (metis last_in_set)

text \<open>
  C9. \<^verbatim>\<open>readline\<close> returns what the reference reader takes from the byte stream (buffered bytes
  followed by what the descriptor delivers), for every segmentation and every interrupted read,
  never stores more than \<open>maxlen\<close> bytes (one when \<open>maxlen\<close> is 0), keeps the buffer pointers inside
  the buffer, and leaves exactly the rest of the stream behind.
\<close>

theorem readline_correct:
  assumes "rl_wf s" and "readline maxlen s = (r, stored, s')"
  shows "line_spec lib_eof (maxlen - 1) 1 [] (rl_stream s) (rl_ending s) = (r, stored)
    \<and> length stored \<le> max 1 maxlen \<and> rl_wf s'
    \<and> (line_complete (maxlen - 1) (rl_stream s) \<longrightarrow>
         rl_stream s' = snd (take_line (maxlen - 1) (rl_stream s)) \<and> rl_ending s' = rl_ending s)"
proof -
  from buffered.readline_loop_spec [OF assms(1), of 1 lib_eof "maxlen - 1" "[]" r stored s'] assms(2)
  have *: "line_spec lib_eof (maxlen - 1) 1 [] (rl_stream s) (rl_ending s) = (r, stored)"
    and "rl_wf s'" and "line_complete (maxlen - 1) (rl_stream s) \<longrightarrow>
         rl_stream s' = snd (take_line (maxlen - 1) (rl_stream s)) \<and> rl_ending s' = rl_ending s"
    by (auto simp: readline_def)
  moreover from line_spec_length [OF *] have "length stored \<le> max 1 maxlen" by simp
  ultimately show ?thesis by blast
qed

definition demo_sock :: sockd where
  "demo_sock = fresh_sock [Chunk ''ab'', RxErr EINTR, Chunk [CHR ''c'', NL, CHR ''d'']] []"

theorem readline_correct_witness:
  "rl_wf (rl_init, demo_sock) \<and> fst (readline 10 (rl_init, demo_sock)) = Inr 4"
proof -
  have wf: "rl_wf (rl_init, demo_sock)" by simp
  obtain r stored s' where rl: "readline 10 (rl_init, demo_sock) = (r, stored, s')"
    by (metis prod_cases3)
  have "line_spec lib_eof 9 1 [] (avail (rx demo_sock)) (rl_ending (rl_init, demo_sock)) = (Inr 4, ''abc'' @ [NL, NUL])"
    by (simp add: demo_sock_def fresh_sock_def line_spec_def Let_def numeral_eq_Suc)
  with readline_correct [OF wf rl] rl wf show ?thesis by simp
qed

text \<open>
  A line that does not fit is not reported as cut: when the first \<open>maxlen - 1\<close> bytes of the
  stream hold no newline, \<^verbatim>\<open>readline\<close> stores them and returns \<open>maxlen\<close>, one more than the number of
  bytes it stored before the null.
\<close>

theorem readline_overlong:
  assumes "rl_wf s" and "0 < maxlen" and "maxlen - 1 \<le> length (rl_stream s)"
    and "NL \<notin> set (take (maxlen - 1) (rl_stream s))"
  shows "\<exists>s'. readline maxlen s = (Inr maxlen, take (maxlen - 1) (rl_stream s) @ [NUL], s')
    \<and> rl_stream s' = drop (maxlen - 1) (rl_stream s)"
proof -
  obtain k where k: "maxlen = Suc k" using assms(2) gr0_conv_Suc by blast
  obtain r stored s' where rl: "readline maxlen s = (r, stored, s')" by (metis prod_cases3)
  have nl: "NL \<notin> set (take k (rl_stream s))" and len: "k \<le> length (rl_stream s)"
    using assms(3,4) k by simp_all
  note tl = take_line_no_NL [OF nl]
  have "line_spec lib_eof k 1 [] (rl_stream s) (rl_ending s) = (Inr maxlen, take k (rl_stream s) @ [NUL])"
    using len last_no_NL [OF nl] k by (auto simp: line_spec_def tl Let_def)
  moreover have "line_complete k (rl_stream s)"
    using len by (simp add: line_complete_def tl)
  ultimately show ?thesis
    using buffered.readline_loop_spec [OF assms(1), of 1 lib_eof k "[]" r stored s'] rl tl k
    by (auto simp: readline_def)
qed

theorem readline_overlong_witness:
  "\<exists>s'. readline 3 (rl_init, demo_sock) = (Inr 3, ''ab'' @ [NUL], s')"
  using readline_overlong [of "(rl_init, demo_sock)" 3]
  by (auto simp: demo_sock_def fresh_sock_def numeral_eq_Suc)

text \<open>
  The \<^verbatim>\<open>server\<close> line reader and the library one store the same bytes and return the same
  value on every stream without interrupted reads, except when the stream ends inside a line that
  has begun: then both have stored the same \<open>k\<close> bytes, the library returns \<open>k\<close> and the server one
  returns \<open>k + 1\<close>.
\<close>

theorem srv_readline_vs_readline:
  assumes "no_intr (rx d)" and "srv_readline maxlen d = (r1, l1, d1)"
    and "readline maxlen (rl_init, d) = (r2, l2, s2)"
  shows "if line_complete (maxlen - 1) (avail (rx d)) \<or> stream_end (rx d) \<noteq> None \<or> avail (rx d) = []
         then r1 = r2 \<and> c_str l1 = c_str l2
         else l1 = avail (rx d) @ [NUL] \<and> l2 = l1 \<and> r2 = Inr (length (avail (rx d)))
              \<and> r1 = Inr (length (avail (rx d)) + 1)"
proof -
  let ?s = "avail (rx d)" and ?k = "maxlen - 1"
  have 1: "line_spec srv_eof ?k 1 [] ?s (stream_end (rx d)) = (r1, l1)"
    using unbuffered.readline_loop_spec [of d 1 srv_eof ?k "[]" r1 l1 d1] assms
    by (auto simp: srv_readline_def no_intr_sock_def)
  have 2: "line_spec lib_eof ?k 1 [] ?s (stream_end (rx d)) = (r2, l2)"
    using buffered.readline_loop_spec [of "(rl_init, d)" 1 lib_eof ?k "[]" r2 l2 s2] assms
    by (auto simp: readline_def rl_ending_def)
  obtain l rest where tl: "take_line ?k ?s = (l, rest)" by fastforce
  have "\<not> line_complete ?k ?s \<Longrightarrow> l = ?s"
    using take_line_append [OF tl] take_line_shape [OF tl] tl
    by (auto simp: line_complete_def Let_def)
  with 1 2 tl show ?thesis
    by (cases "stream_end (rx d)")
      (auto simp: line_spec_def line_complete_def Let_def srv_eof_def lib_eof_def c_str_def split: if_splits)
qed

theorem srv_readline_vs_readline_witness:
  "fst (srv_readline 10 (fresh_sock [Chunk ''ab''] [])) = Inr 3
   \<and> fst (readline 10 (rl_init, fresh_sock [Chunk ''ab''] [])) = Inr 2"
proof -
  let ?d = "fresh_sock [Chunk ''ab''] []"
  obtain r1 l1 d1 where 1: "srv_readline 10 ?d = (r1, l1, d1)" by (metis prod_cases3)
  obtain r2 l2 s2 where 2: "readline 10 (rl_init, ?d) = (r2, l2, s2)" by (metis prod_cases3)
  have "no_intr (rx ?d)" by (simp add: fresh_sock_def)
  moreover have "\<not> line_complete 9 (avail (rx ?d))" "stream_end (rx ?d) = None" "avail (rx ?d) = ''ab''"
    by (simp_all add: fresh_sock_def line_complete_def numeral_eq_Suc)
  ultimately show ?thesis using srv_readline_vs_readline [OF _ 1 2] 1 2 by simp
qed

end
