(* ===== verification/Echo.thy ===== *)
theory Echo
  imports Line_Io Wrappers
begin

text \<open>
  The echo service and its clients: \<^verbatim>\<open>str_echo\<close> and \<^verbatim>\<open>str_cli\<close> of \<^verbatim>\<open>lib.c\<close>, \<^verbatim>\<open>str_cli11\<close>, \<^verbatim>\<open>str_echo09\<close> and
  \<^verbatim>\<open>str_cli09\<close> of \<^verbatim>\<open>2_basic_socket.c\<close> and \<^verbatim>\<open>web_child\<close> of \<^verbatim>\<open>4_client_server_model.c\<close>, over the descriptors of
  \<^verbatim>\<open>Unix_IO\<close> and the line reader. The loops end because the input of a connection is a finite script.
\<close>

section \<open>str\_echo\<close>

fun rx_size :: "rx_event list \<Rightarrow> nat" where
  "rx_size [] = 0"
| "rx_size (Chunk bs # es) = length bs + 1 + rx_size es"
| "rx_size (RxErr e # es) = 1 + rx_size es"

lemma read_sock_size:
  "read_sock n d = (Inl e, d') \<Longrightarrow> rx_size (rx d') < rx_size (rx d)"
  "read_sock n d = (Inr bs, d') \<Longrightarrow> bs \<noteq> [] \<Longrightarrow> rx_size (rx d') < rx_size (rx d)"
  by (cases "(n, rx d)" rule: sys_read.cases; auto simp: read_sock_def split: if_splits)+

lemma Writen_rx: "Writen bs d = Ret u d' \<Longrightarrow> rx d' = rx d \<and> sent d' = sent d @ bs \<and> fin d' = fin d"
  by (cases rule: Writen_cases [of bs d]) auto

function str_echo :: "(unit, sockd) prog" where
  "str_echo d =
     (case read_sock MAXLINE d of
        (Inl e, d') \<Rightarrow> if e = EINTR then str_echo d' else Die (Err_sys ''str_echo: read error'' (Some e)) d'
      | (Inr buf, d') \<Rightarrow> if buf = [] then Ret () d' else bindP (Writen buf) (\<lambda>_ w. str_echo w) d')"
  by pat_completeness auto
termination
  by (relation "measure (\<lambda>d. rx_size (rx d))") (auto dest!: Writen_rx dest: read_sock_size [OF sym])

declare str_echo.simps [simp del]

section \<open>The line-mode clients\<close>

record cli =
  cli_fp :: stdio
  cli_rl :: rlstate
  cli_out :: string

abbreviation on_fp :: "('a, stdio) prog \<Rightarrow> ('a, cli) prog" where
  "on_fp \<equiv> zoom cli_fp (\<lambda>x. cli_fp_update (\<lambda>_. x))"

abbreviation on_rl :: "('a, rlstate) prog \<Rightarrow> ('a, cli) prog" where
  "on_rl \<equiv> zoom cli_rl (\<lambda>x. cli_rl_update (\<lambda>_. x))"

definition writen_cli :: "char list \<Rightarrow> (unit, cli) prog" where
  "writen_cli bs = on_rl (zoom snd (\<lambda>d s. (fst s, d)) (Writen bs))"

definition fgets_cli :: "(char list option, cli) prog" where
  "fgets_cli = on_fp (Fgets fgets f_error MAXLINE)"

text \<open>\<^verbatim>\<open>fputs\<close> to the standard output, which does not fail here.\<close>

definition puts_cli :: "char list \<Rightarrow> (unit, cli) prog" where
  "puts_cli s w = Ret () (w\<lparr>cli_out := cli_out w @ c_str s\<rparr>)"

text \<open>One line of the conversation after it has been sent.\<close>

definition cli_reply :: "(unit, cli) prog" where
  "cli_reply = bindP (on_rl (Readline MAXLINE)) (\<lambda>(n, recvline).
     if n = 0 then dieP (Err_quit ''str_cli: server terminated prematurely'') else puts_cli recvline)"

lemma fgets_shrinks:
  assumes "fgets n fp = (Some l, fp')" and "1 < n"
  shows "length (f_data fp') < length (f_data fp)" and "l \<noteq> []"
proof -
  obtain k where k: "n - 1 = Suc k" using assms(2) by (cases n) (auto dest: gr0_implies_Suc)
  obtain c s where d: "f_data fp = c # s" using assms(1) by (cases "f_data fp") (auto simp: fgets_def split: prod.splits)
  obtain r where r: "take_line (Suc k) (f_data fp) = (l, r)" "fp' = fp\<lparr>f_data := r\<rparr>"
    using assms(1) k by (auto simp: fgets_def split: prod.splits if_splits)
  then show "l \<noteq> []" using d take_line_nonempty by metis
  with take_line_append [OF r(1)] r(2) show "length (f_data fp') < length (f_data fp)" by simp
qed

lemma fgets_cli_shrinks:
  assumes "fgets_cli w = Ret (Some l) w'"
  shows "length (f_data (cli_fp w')) < length (f_data (cli_fp w))"
  using assms fgets_shrinks(1) [of MAXLINE "cli_fp w" l "cli_fp w'"]
  by (auto simp: fgets_cli_def zoom_def Fgets_def MAXLINE_def split: outcome.splits prod.splits option.splits)

lemma zoom_frame:
  "zoom cli_rl (\<lambda>x. cli_rl_update (\<lambda>_. x)) m w = Ret a w' \<Longrightarrow> cli_fp w' = cli_fp w \<and> cli_out w' = cli_out w"
  by (auto simp: zoom_def split: outcome.splits)

lemma cli_reply_fp: "cli_reply w = Ret u w' \<Longrightarrow> cli_fp w' = cli_fp w"
  by (auto simp: cli_reply_def puts_cli_def dieP_def dest!: zoom_frame split: if_splits elim!: bindP_RetE)

function str_cli :: "(unit, cli) prog" where
  "str_cli w =
     bindP fgets_cli (\<lambda>sendline w1.
       case sendline of
         None \<Rightarrow> Ret () w1
       | Some l \<Rightarrow> bindP (writen_cli (c_str l)) (\<lambda>_ w2. bindP cli_reply (\<lambda>_ w3. str_cli w3) w2) w1) w"
  by pat_completeness auto
termination
  by (relation "measure (\<lambda>w. length (f_data (cli_fp w)))")
    (auto simp: writen_cli_def dest!: zoom_frame cli_reply_fp fgets_cli_shrinks)

text \<open>
  \<^verbatim>\<open>str_cli11\<close> sends the first character by itself. \<^verbatim>\<open>strlen(sendline) - 1\<close> is a count of type \<^verbatim>\<open>size_t\<close>:
  for a line that starts with a null byte it wraps, and \<^verbatim>\<open>Writen\<close> runs off the array (\<open>None\<close> here, no result).
\<close>

function str_cli11 :: "cli \<Rightarrow> (unit, cli) outcome option" where
  "str_cli11 w =
     (case fgets_cli w of
        Ret (Some l) w1 \<Rightarrow>
          (case c_str l of
             [] \<Rightarrow> None
           | c # cs \<Rightarrow>
               (case bindP (writen_cli [c]) (\<lambda>_. bindP (writen_cli cs) (\<lambda>_. cli_reply)) w1 of
                  Ret u w2 \<Rightarrow> str_cli11 w2
                | Die f w2 \<Rightarrow> Some (Die f w2)
                | Blocked w2 \<Rightarrow> Some (Blocked w2)))
      | Ret None w1 \<Rightarrow> Some (Ret () w1)
      | Die f w1 \<Rightarrow> Some (Die f w1)
      | Blocked w1 \<Rightarrow> Some (Blocked w1))"
  by pat_completeness auto
termination
  by (relation "measure (\<lambda>w. length (f_data (cli_fp w)))")
    (auto simp: writen_cli_def dest!: zoom_frame cli_reply_fp fgets_cli_shrinks elim!: bindP_RetE)

declare str_cli.simps [simp del] str_cli11.simps [simp del]
section \<open>What is echoed\<close>

lemma str_echo_steps:
  "read_sock MAXLINE d = (Inl EINTR, d') \<Longrightarrow> str_echo d = str_echo d'"
  "read_sock MAXLINE d = (Inl e, d') \<Longrightarrow> e \<noteq> EINTR \<Longrightarrow> str_echo d = Die (Err_sys ''str_echo: read error'' (Some e)) d'"
  "read_sock MAXLINE d = (Inr [], d') \<Longrightarrow> str_echo d = Ret () d'"
  "read_sock MAXLINE d = (Inr bs, d') \<Longrightarrow> bs \<noteq> [] \<Longrightarrow> str_echo d = bindP (Writen bs) (\<lambda>_ w. str_echo w) d'"
  by (subst str_echo.simps; simp)+

definition echo_post :: "sockd \<Rightarrow> (unit, sockd) outcome \<Rightarrow> bool" where
  "echo_post d res =
     (case res of
        Ret u d' \<Rightarrow> sent d' = sent d @ avail (rx d) \<and> stream_end (rx d) = None
      | Die f d' \<Rightarrow>
          (sent d' = sent d @ avail (rx d) \<and> f = Err_sys ''str_echo: read error'' (stream_end (rx d)) \<and> stream_end (rx d) \<noteq> None) \<or>
          (\<not> tx_live (tx d) \<and> (\<exists>k. sent d' = sent d @ take k (avail (rx d))) \<and> (\<exists>e. f = Err_sys ''writen error'' e))
      | Blocked d' \<Rightarrow> False)"

lemma echo_post_data:
  assumes rd: "read_sock MAXLINE d = (Inr bs, d1)" "bs \<noteq> []"
    and d2: "rx d2 = rx d1" "sent d2 = sent d1 @ bs" "tx_live (tx d) \<Longrightarrow> tx_live (tx d2)"
    and post: "echo_post d2 res"
  shows "echo_post d res"
proof -
  note fr = read_sock_frame [OF rd(1)] and av = read_sock_data(1,2) [OF rd]
  have *: "\<exists>k. sent d2 @ take j (avail (rx d2)) = sent d @ take k (avail (rx d))" for j
    using fr av d2 by (intro exI [of _ "length bs + j"]) simp
  show ?thesis
  proof (cases res)
    case (Die f d')
    with post consider (rd) "sent d' = sent d2 @ avail (rx d2)" "f = Err_sys ''str_echo: read error'' (stream_end (rx d2))"
        "stream_end (rx d2) \<noteq> None"
      | (wr) j e where "\<not> tx_live (tx d2)" "sent d' = sent d2 @ take j (avail (rx d2))" "f = Err_sys ''writen error'' e"
      by (auto simp: echo_post_def)
    then show ?thesis
    proof cases
      case rd
      with Die fr av d2 show ?thesis by (simp add: echo_post_def)
    next
      case wr
      with Die d2(3) * [of j] show ?thesis by (auto simp: echo_post_def)
    qed
  qed (use post fr av d2 in \<open>auto simp: echo_post_def\<close>)
qed

lemma str_echo_post: "echo_post d (str_echo d)"
proof (induction "rx_size (rx d)" arbitrary: d rule: less_induct)
  case less
  show ?case
  proof (cases MAXLINE d rule: read_sock_cases)
    case (intr d')
    from less [of d'] read_sock_size(1) [OF intr] have "echo_post d' (str_echo d')" by simp
    with intr read_sock_intr(1,2) [OF intr] read_sock_frame [OF intr] show ?thesis
      by (auto simp: str_echo_steps echo_post_def split: outcome.splits)
  next
    case (err e d')
    with read_sock_err [OF err] read_sock_frame [OF err(1)] show ?thesis by (simp add: str_echo_steps echo_post_def)
  next
    case (eof d')
    with read_sock_eof [OF eof] read_sock_frame [OF eof] show ?thesis by (simp add: str_echo_steps echo_post_def)
  next
    case (data bs d1)
    note fr = read_sock_frame [OF data(1)] and av = read_sock_data(1) [OF data]
    show ?thesis
    proof (cases rule: Writen_cases [of bs d1])
      case (1 d2)
      have "tx_live (tx d2)" if "tx_live (tx d)"
        using that fr 1(1) by (metis Writen_live outcome.inject(1))
      moreover have "echo_post d2 (str_echo d2)" using less [of d2] read_sock_size(2) [OF data] 1 by simp
      ultimately show ?thesis
        using echo_post_data [OF data _ 1(2), of "str_echo d2"] 1 data by (simp add: str_echo_steps)
    next
      case (2 k e d2)
      have "\<not> tx_live (tx d)"
      proof
        assume "tx_live (tx d)"
        then have "tx_live (tx d1)" using fr by simp
        then show False using 2(1) by (metis Writen_live outcome.distinct(1))
      qed
      moreover have "\<exists>j. sent d2 = sent d @ take j (avail (rx d))"
        using 2(2) fr av by (intro exI [of _ "min k (length bs)"]) (auto simp: min_def)
      ultimately show ?thesis using data 2 by (simp add: str_echo_steps echo_post_def)
    qed
  qed
qed

section \<open>A conversation\<close>

text \<open>Reading a line writes nothing.\<close>

definition same_tx :: "sockd \<Rightarrow> sockd \<Rightarrow> bool" where
  "same_tx d d' \<longleftrightarrow> tx d' = tx d \<and> sent d' = sent d \<and> fin d' = fin d"

lemma my_read_again_tx: "same_tx d (snd (snd (my_read_again b d)))"
proof (induction b d rule: my_read_again.induct)
  case (1 b d)
  show ?case
  proof (cases MAXLINE d rule: read_sock_cases)
    case (intr d')
    have "same_tx d' (snd (snd (my_read_again (b\<lparr>read_cnt := - 1\<rparr>) d')))" using 1 intr by auto
    with intr read_sock_frame [OF intr] show ?thesis by (simp add: my_read_again.simps [of b d] same_tx_def)
  next
    case (err e d')
    with read_sock_frame [OF err(1)] show ?thesis by (simp add: my_read_again.simps [of b d] same_tx_def)
  next
    case (eof d')
    with read_sock_frame [OF eof] show ?thesis by (simp add: my_read_again.simps [of b d] same_tx_def)
  next
    case (data bs d')
    with read_sock_frame [OF data(1)] show ?thesis by (simp add: my_read_again.simps [of b d] same_tx_def rl_deliver_def)
  qed
qed

lemma my_read_tx: "same_tx (snd s) (snd (snd (my_read s)))"
  using my_read_again_tx [of "snd s" "fst s"] by (cases s) (simp add: my_read_def rl_deliver_def same_tx_def)

lemma readline_loop_tx: "same_tx (snd s) (snd (snd (snd (readline_loop ateof my_read k n acc s))))"
proof (induction k arbitrary: n acc s)
  case (Suc k)
  obtain r s1 where g: "my_read s = (r, s1)" by (rule prod.exhaust)
  with my_read_tx [of s] have t: "same_tx (snd s) (snd s1)" by simp
  then have "same_tx (snd s) (snd (snd (snd (readline_loop ateof my_read k n' acc' s1))))" for n' acc'
    using Suc.IH [of s1 n' acc'] by (simp add: same_tx_def)
  with g t show ?case by (auto split: sum.splits option.splits prod.splits)
qed (simp add: same_tx_def)

lemma Readline_line:
  assumes "rl_wf s" and "rl_stream s \<noteq> []" and "rl_ending s = None" and "take_line (MAXLINE - 1) (rl_stream s) = (l, r)"
  obtains n s' where "Readline MAXLINE s = Ret (n, l @ [NUL]) s'" "0 < n" "rl_wf s'" "same_tx (snd s) (snd s')"
    "r \<noteq> [] \<Longrightarrow> rl_stream s' = r \<and> rl_ending s' = None"
    "l \<noteq> [] \<and> last l = NL \<Longrightarrow> rl_stream s' = r \<and> rl_ending s' = None"
proof -
  obtain x stored s' where rl: "readline MAXLINE s = (x, stored, s')" by (metis prod_cases3)
  then have lp: "readline_loop lib_eof my_read (MAXLINE - 1) 1 [] s = (x, stored, s')" by (simp add: readline_def)
  from buffered.readline_loop_spec [OF assms(1) _ lp] have
    sp: "line_spec lib_eof (MAXLINE - 1) 1 [] (rl_stream s) (rl_ending s) = (x, stored)" and wf: "rl_wf s'"
    and rest: "line_complete (MAXLINE - 1) (rl_stream s) \<longrightarrow> rl_stream s' = r \<and> rl_ending s' = None"
    using assms(3,4) by auto
  have l0: "l \<noteq> []"
    using assms(2,4) take_line_nonempty [of "MAXLINE - 2"] by (cases "rl_stream s") (auto simp: MAXLINE_def)
  then have "\<exists>n > 0. x = Inr n \<and> stored = l @ [NUL]"
    using sp assms(3,4) by (auto simp: line_spec_def lib_eof_def Let_def split: if_splits)
  then obtain n where n: "0 < n" "x = Inr n" "stored = l @ [NUL]" by blast
  have "line_complete (MAXLINE - 1) (rl_stream s)" if "r \<noteq> [] \<or> (l \<noteq> [] \<and> last l = NL)"
    using that assms(4) take_line_shape [OF assms(4)] by (auto simp: line_complete_def)
  with rest n rl wf lp readline_loop_tx [of s lib_eof "MAXLINE - 1" 1 "[]"] show ?thesis
    by (intro that [of n s']) (auto simp: Readline_def)
qed

lemma writen_cli_live:
  assumes "tx_live (tx (snd (cli_rl w)))"
  obtains d where "writen_cli bs w = Ret () (w\<lparr>cli_rl := (fst (cli_rl w), d)\<rparr>)" "rx d = rx (snd (cli_rl w))"
    "sent d = sent (snd (cli_rl w)) @ bs" "tx_live (tx d)"
proof -
  obtain d where "Writen bs (snd (cli_rl w)) = Ret () d" "sent d = sent (snd (cli_rl w)) @ bs" "rx d = rx (snd (cli_rl w))" "tx_live (tx d)"
    using Writen_live [OF assms, of bs] by metis
  then show ?thesis by (intro that [of d]) (simp_all add: writen_cli_def zoom_def)
qed

lemma fgets_cli_line:
  assumes "f_data (cli_fp w) \<noteq> []" and "f_error (cli_fp w) = None" and "take_line (MAXLINE - 1) (f_data (cli_fp w)) = (l, r)"
  shows "fgets_cli w = Ret (Some l) (w\<lparr>cli_fp := (cli_fp w)\<lparr>f_data := r\<rparr>\<rparr>)"
  using assms by (simp add: fgets_cli_def zoom_def Fgets_def fgets_def)

lemma str_cli_done:
  assumes "f_data (cli_fp w) = []" and "f_error (cli_fp w) = None"
  shows "\<exists>w'. str_cli w = Ret () w' \<and> cli_rl w' = cli_rl w \<and> cli_out w' = cli_out w"
  using assms by (subst str_cli.simps) (simp add: fgets_cli_def zoom_def Fgets_def fgets_def bindP_def split: prod.splits)

lemma str_cli_converse:
  assumes "f_data (cli_fp w) = inp" "NUL \<notin> set inp" "f_error (cli_fp w) = None" "rl_wf (cli_rl w)"
    "rl_stream (cli_rl w) = inp" "rl_ending (cli_rl w) = None" "tx_live (tx (snd (cli_rl w)))"
  shows "\<exists>w'. str_cli w = Ret () w' \<and> sent (snd (cli_rl w')) = sent (snd (cli_rl w)) @ inp \<and> cli_out w' = cli_out w @ inp"
  using assms
proof (induction "length inp" arbitrary: w inp rule: less_induct)
  case less
  show ?case
  proof (cases "inp = []")
    case True
    with str_cli_done [of w] less.prems show ?thesis by auto
  next
    case False
    obtain l r where t: "take_line (MAXLINE - 1) inp = (l, r)" by fastforce
    with False have l: "l \<noteq> []" using take_line_nonempty [of "MAXLINE - 2"] by (cases inp) (auto simp: MAXLINE_def)
    have inp: "inp = l @ r" using take_line_append [OF t] .
    then have nul: "NUL \<notin> set l" "NUL \<notin> set r" using less.prems(2) by auto
    define w1 where "w1 = w\<lparr>cli_fp := (cli_fp w)\<lparr>f_data := r\<rparr>\<rparr>"
    have g: "fgets_cli w = Ret (Some l) w1" using fgets_cli_line [of w l r] less.prems False t by (simp add: w1_def)
    obtain d where d: "writen_cli (c_str l) w1 = Ret () (w1\<lparr>cli_rl := (fst (cli_rl w1), d)\<rparr>)" "rx d = rx (snd (cli_rl w))"
      "sent d = sent (snd (cli_rl w)) @ l" "tx_live (tx d)"
      using writen_cli_live [of w1 l] less.prems(7) nul by (auto simp: w1_def)
    let ?s = "(fst (cli_rl w1), d)"
    have s: "rl_wf ?s" "rl_stream ?s = inp" "rl_ending ?s = None"
      using less.prems(4-6) d(2) by (auto simp: w1_def rl_wf_def rl_stream_def rl_ending_def)
    obtain n s' where n: "Readline MAXLINE ?s = Ret (n, l @ [NUL]) s'" "0 < n" "rl_wf s'" "same_tx d (snd s')"
      "r \<noteq> [] \<Longrightarrow> rl_stream s' = r \<and> rl_ending s' = None"
      using Readline_line [OF s(1) _ s(3), of l r] s(2) False t by (metis snd_conv)
    define w2 where "w2 = w1\<lparr>cli_rl := s', cli_out := cli_out w1 @ l\<rparr>"
    have rep: "cli_reply (w1\<lparr>cli_rl := ?s\<rparr>) = Ret () w2"
      using n nul by (simp add: cli_reply_def zoom_def bindP_def puts_cli_def w2_def)
    have step: "str_cli w = str_cli w2"
      using g d(1) rep nul by (subst str_cli.simps) simp
    have "\<exists>w'. str_cli w2 = Ret () w' \<and> sent (snd (cli_rl w')) = sent (snd (cli_rl w2)) @ r \<and> cli_out w' = cli_out w2 @ r"
    proof (cases "r = []")
      case True
      then show ?thesis using str_cli_done [of w2] less.prems by (auto simp: w2_def w1_def)
    next
      case rne: False
      show ?thesis
        by (rule less.hyps) (use inp l nul n rne d(4) less.prems(3) in \<open>auto simp: w2_def w1_def same_tx_def\<close>)
    qed
    with step inp d(3) n(4) show ?thesis by (auto simp: w2_def w1_def same_tx_def)
  qed
qed

section \<open>Properties\<close>

text \<open>
  The echo server sends back exactly what it received. \<^verbatim>\<open>str_echo\<close> always ends; on a connection to
  which writing succeeds it has then sent every byte that arrived, in order and unchanged, and it
  returns if the peer closed and dies with the error of \<^verbatim>\<open>read\<close> if the connection failed; if a write fails it
  has sent a prefix of them.\<close>

theorem str_echo_correct: "echo_post d (str_echo d)"
  by (rule str_echo_post)
text \<open>
  The client and the echo server together copy text: when the bytes that come back are the ones of
  the input (which is what \<^verbatim>\<open>str_echo\<close> makes of them), however they are segmented and whatever the
  length of the lines, \<^verbatim>\<open>str_cli\<close> ends normally, having sent exactly the input and printed exactly the input.
  (The input must not contain a null byte, at which \<^verbatim>\<open>strlen\<close> would cut a line.)\<close>

theorem str_cli_copies:
  assumes "NUL \<notin> set inp" and "avail es = inp" and "stream_end es = None" and "tx_live ws"
  shows "\<exists>w'. str_cli \<lparr>cli_fp = \<lparr>f_data = inp, f_error = None\<rparr>, cli_rl = (rl_init, fresh_sock es ws), cli_out = []\<rparr> = Ret () w' \<and>
              sent (snd (cli_rl w')) = inp \<and> cli_out w' = inp"
  using str_cli_converse [of "\<lparr>cli_fp = \<lparr>f_data = inp, f_error = None\<rparr>, cli_rl = (rl_init, fresh_sock es ws), cli_out = []\<rparr>" inp] assms
  by (simp add: fresh_sock_def rl_ending_def)

theorem str_cli_copies_witness:
  "\<exists>w'. str_cli \<lparr>cli_fp = \<lparr>f_data = [CHR ''h'', CHR ''i'', NL, CHR ''x''], f_error = None\<rparr>,
        cli_rl = (rl_init, fresh_sock [Chunk ''h'', RxErr EINTR, Chunk [CHR ''i'', NL], Chunk ''x''] [Accepts 1, TxErr EINTR]), cli_out = []\<rparr> = Ret () w' \<and>
        sent (snd (cli_rl w')) = [CHR ''h'', CHR ''i'', NL, CHR ''x''] \<and> cli_out w' = [CHR ''h'', CHR ''i'', NL, CHR ''x'']"
  by (rule str_cli_copies) (auto simp: tx_live_def)

end
