(* ===== verification/Requests.thy ===== *)
theory Requests
  imports Echo
begin

text \<open>
  Servers of fixed-size and counted requests: \<^verbatim>\<open>str_echo09\<close> of \<^verbatim>\<open>2_basic_socket.c\<close>, which adds two binary
  numbers, and \<^verbatim>\<open>web_child\<close> of \<^verbatim>\<open>4_client_server_model.c\<close>, which returns as many bytes as the client's line
  asks for. A \<^verbatim>\<open>long\<close> has 64 bits, low byte first.
\<close>

section \<open>Binary numbers\<close>

definition le64_bytes :: "64 word \<Rightarrow> char list" where
  "le64_bytes x = map (\<lambda>i. char_of (unat (take_bit 8 (drop_bit (8 * i) x)))) [0..<8]"

definition le64 :: "char list \<Rightarrow> 64 word" where
  "le64 bs = foldr (\<lambda>c v. of_nat (of_char c) + 256 * v) (take 8 bs) 0"

lemma length_le64_bytes [simp]: "length (le64_bytes x) = 8"
  by (simp add: le64_bytes_def)

lemma foldr_le64:
  "foldr (\<lambda>c v. of_nat (of_char c) + 256 * v) (map (\<lambda>i. char_of (unat (take_bit 8 (drop_bit (8 * i) x)))) [a..<a + n]) 0 =
   take_bit (8 * n) (drop_bit (8 * a) (x :: 64 word))"
proof (induction n arbitrary: a)
  case (Suc n)
  have up: "[a..<a + Suc n] = a # [Suc a..<Suc a + n]" by (simp add: upt_conv_Cons)
  define y where "y = drop_bit (8 * a) x"
  have "unat (take_bit 8 y) < 256" using unsigned_take_bit_eq [of 8 y, where ?'a = nat] by (simp add: take_bit_nat_less_exp [of 8, simplified])
  then have "of_nat (of_char (char_of (unat (take_bit 8 y)) :: char)) = take_bit 8 y"
    by (simp add: take_bit_nat_eq_self of_char_of)
  moreover have "drop_bit (8 * Suc a) x = drop_bit 8 y" by (simp add: y_def drop_bit_drop_bit add.commute)
  ultimately have "foldr (\<lambda>c v. of_nat (of_char c) + 256 * v) (map (\<lambda>i. char_of (unat (take_bit 8 (drop_bit (8 * i) x)))) [a..<a + Suc n]) 0 =
      take_bit 8 y + 256 * take_bit (8 * n) (drop_bit 8 y)"
    unfolding up using Suc.IH [of "Suc a"] by (simp add: y_def)
  also have "256 * take_bit (8 * n) (drop_bit 8 y) = push_bit 8 (take_bit (8 * n) (drop_bit 8 y))"
    by (simp add: push_bit_eq_mult mult.commute)
  also have "take_bit 8 y + push_bit 8 (take_bit (8 * n) (drop_bit 8 y)) = or (take_bit 8 y) (push_bit 8 (take_bit (8 * n) (drop_bit 8 y)))"
    by (intro disjunctive_add) (simp add: bit_simps)
  also have "\<dots> = take_bit (8 * Suc n) y"
    by (rule bit_word_eqI) (auto simp: bit_simps)
  finally show ?case by (simp add: y_def)
qed simp

lemma le64_bytes_inverse [simp]: "le64 (le64_bytes x @ rest) = x"
  using foldr_le64 [of x 0 8] by (simp add: le64_def le64_bytes_def take_bit_word_eq_self)
section \<open>How much of the input is left\<close>

lemma readn_loop_size:
  "rx_size (rx (snd (snd (readn_loop n nleft acc d)))) \<le> rx_size (rx d) \<and>
   (fst (snd (readn_loop n nleft acc d)) \<noteq> acc \<longrightarrow> rx_size (rx (snd (snd (readn_loop n nleft acc d)))) < rx_size (rx d))"
proof (induction "nleft + length (rx d)" arbitrary: nleft acc d rule: less_induct)
  case less
  show ?case
  proof (cases "nleft = 0")
    case True
    then show ?thesis by (simp add: readn_loop_steps)
  next
    case False
    then have pos: "0 < nleft" by simp
    show ?thesis
    proof (cases nleft d rule: read_sock_cases)
      case (intr d')
      with less [of nleft d' acc] pos read_sock_size(1) [OF intr] read_sock_intr(3) [OF intr] show ?thesis
        by (auto simp: readn_loop_steps)
    next
      case (err e d')
      with pos read_sock_size(1) [OF err(1)] show ?thesis by (simp add: readn_loop_steps)
    next
      case (eof d')
      have "rx_size (rx d') \<le> rx_size (rx d)"
        using eof by (cases "(nleft, rx d)" rule: sys_read.cases) (auto simp: read_sock_def split: if_splits)
      with eof pos show ?thesis by (simp add: readn_loop_steps)
    next
      case (data bs d')
      with less [of "nleft - length bs" d' "acc @ bs"] pos read_sock_shrinks [OF data] read_sock_size(2) [OF data] show ?thesis
        by (auto simp: readn_loop_steps)
    qed
  qed
qed

lemma Readn_size:
  assumes "Readn n d = Ret (k, bs) d'" and "k \<noteq> 0"
  shows "rx_size (rx d') < rx_size (rx d)"
proof -
  from assms(1) have r: "readn_loop n n [] d = (Inr k, bs, d')"
    by (auto simp: Readn_def readn_def split: prod.splits sum.splits)
  have "bs \<noteq> []" using readn_loop_spec [of n n "[]" d] assms(2) r
    by (auto simp: readn_post_def split: if_splits option.splits)
  with readn_loop_size [of n n "[]" d] r show ?thesis by simp
qed

section \<open>str\_echo09\<close>

text \<open>
  The 16 bytes of the automatic variable \<^verbatim>\<open>args\<close> are a parameter: a short count of \<^verbatim>\<open>Readn\<close> is not
  tested, and leaves the rest of them as they were.
\<close>

function str_echo09 :: "char list \<Rightarrow> (unit, sockd) prog" where
  "str_echo09 args d =
     bindP (Readn 16) (\<lambda>r d1.
       if fst r = 0 then Ret () d1
       else let args' = blit args 0 (snd r);
                sm = le64 args' + le64 (drop 8 args')
            in bindP (Writen (le64_bytes sm)) (\<lambda>_ w. str_echo09 args' w) d1) d"
  by pat_completeness auto
termination
  by (relation "measure (\<lambda>(args, d). rx_size (rx d))") (auto dest!: Writen_rx Readn_size)

declare str_echo09.simps [simp del]

definition args_bytes :: "64 word \<times> 64 word \<Rightarrow> char list" where
  "args_bytes p = le64_bytes (fst p) @ le64_bytes (snd p)"

definition result_bytes :: "64 word \<times> 64 word \<Rightarrow> char list" where
  "result_bytes p = le64_bytes (fst p + snd p)"

lemma str_echo09_sums:
  assumes "length args = 16" and "avail (rx d) = concat (map args_bytes ps)" and "stream_end (rx d) = None" and "tx_live (tx d)"
  shows "\<exists>d'. str_echo09 args d = Ret () d' \<and> sent d' = sent d @ concat (map result_bytes ps)"
  using assms
proof (induction ps arbitrary: args d)
  case Nil
  then obtain d' where "readn 16 d = (Inr 0, [], d')" using readn_short [of d 16] by auto
  moreover from this have "sent d' = sent d" using readn_loop_spec [of 16 16 "[]" d] by (simp add: readn_def readn_post_def)
  ultimately show ?case by (subst str_echo09.simps) (simp add: Readn_def bindP_def)
next
  case (Cons p ps)
  have len: "length (args_bytes p) = 16" by (simp add: args_bytes_def)
  with Cons.prems(2) have full: "16 \<le> length (avail (rx d))" by simp
  obtain d1 where d1: "readn 16 d = (Inr 16, take 16 (avail (rx d)), d1)" "avail (rx d1) = drop 16 (avail (rx d))"
    "stream_end (rx d1) = stream_end (rx d)"
    using readn_full [OF full] .
  have tx: "sent d1 = sent d \<and> tx d1 = tx d" using readn_loop_spec [of 16 16 "[]" d] d1(1) by (simp add: readn_def readn_post_def)
  have rd: "Readn 16 d = Ret (16, args_bytes p) d1" using d1(1) Cons.prems(2) len by (simp add: Readn_def)
  have bl: "blit args 0 (args_bytes p) = args_bytes p" using Cons.prems(1) len by (simp add: blit_def)
  have sm: "le64 (args_bytes p) + le64 (drop 8 (args_bytes p)) = fst p + snd p"
    using le64_bytes_inverse [of "snd p" "[]"] by (simp add: args_bytes_def)
  obtain d2 where d2: "Writen (result_bytes p) d1 = Ret () d2" "sent d2 = sent d1 @ result_bytes p" "rx d2 = rx d1" "tx_live (tx d2)"
    using Writen_live [of d1 "result_bytes p"] tx Cons.prems(4) by metis
  have "str_echo09 args d = str_echo09 (args_bytes p) d2"
    using rd bl sm d2(1) by (subst str_echo09.simps) (simp add: Let_def result_bytes_def)
  moreover have "avail (rx d2) = concat (map args_bytes ps)" "stream_end (rx d2) = None"
    using d1 d2(3) Cons.prems(2,3) len by simp_all
  ultimately show ?case using Cons.IH [OF len, of d2] d2 tx by auto
qed

text \<open>
  \<^verbatim>\<open>str_echo09\<close> answers a stream of whole requests, however it is segmented, with the stream of
  the sums (modulo \<open>2 ^ 64\<close>), in order, and then returns.\<close>

theorem str_echo09_correct:
  assumes "length args = 16" and "avail (rx d) = concat (map args_bytes ps)" and "stream_end (rx d) = None" and "tx_live (tx d)"
  shows "\<exists>d'. str_echo09 args d = Ret () d' \<and> sent d' = sent d @ concat (map result_bytes ps)"
  using assms by (rule str_echo09_sums)

theorem str_echo09_correct_witness:
  "let d = fresh_sock [Chunk (take 5 (args_bytes (1, 2))), RxErr EINTR, Chunk (drop 5 (args_bytes (1, 2)) @ args_bytes (3, -4))] [] in
   \<exists>d'. str_echo09 (replicate 16 NUL) d = Ret () d' \<and> sent d' = sent d @ concat (map result_bytes [(1, 2), (3, -4)])"
proof -
  have "length (args_bytes p) = 16" for p by (simp add: args_bytes_def)
  then have "take 5 (args_bytes p) \<noteq> []" "drop 5 (args_bytes p) \<noteq> []" for p by (metis list.size(3) take_eq_Nil zero_neq_numeral, simp)
  then show ?thesis unfolding Let_def
    by (intro str_echo09_correct) (auto simp: fresh_sock_def tx_live_def)
qed
section \<open>web\_child\<close>

definition is_space :: "char \<Rightarrow> bool" where
  "is_space c \<longleftrightarrow> c \<in> {CHR '' '', CHR 0x09, CHR 0x0A, CHR 0x0B, CHR 0x0C, CHR 0x0D}"

definition digits_val :: "char list \<Rightarrow> int" where
  "digits_val s = foldl (\<lambda>v c. v * 10 + (case index_of c digit_chars of Some d \<Rightarrow> int d | None \<Rightarrow> 0)) 0
                        (takeWhile (\<lambda>c. c \<in> set digit_chars) s)"

text \<open>\<^verbatim>\<open>atol\<close> as \<^verbatim>\<open>strtol\<close> in base 10: white space, a sign, digits; out of range gives the nearest \<^verbatim>\<open>long\<close>.\<close>

definition atol :: "char list \<Rightarrow> int" where
  "atol s =
     (let t = dropWhile is_space (c_str s);
          v = (case t of
                 [] \<Rightarrow> 0
               | c # u \<Rightarrow> if c = CHR ''-'' then - digits_val u else if c = CHR ''+'' then digits_val u else digits_val t)
      in max (- (2 ^ 63)) (min (2 ^ 63 - 1) v))"

definition MAXN :: nat where "MAXN = 16384"

text \<open>The conversion of the \<^verbatim>\<open>long\<close> to the \<^verbatim>\<open>int\<close> \<^verbatim>\<open>ntowrite\<close> keeps the low 32 bits.\<close>

definition to_int32 :: "int \<Rightarrow> int" where
  "to_int32 v = signed_take_bit 31 v"

definition rl_size :: "rlstate \<Rightarrow> nat" where
  "rl_size s = nat (read_cnt (fst s)) + rx_size (rx (snd s))"

lemma read_sock_size_data:
  assumes "read_sock n d = (Inr bs, d')"
  shows "length bs + rx_size (rx d') \<le> rx_size (rx d)"
  using assms by (cases "(n, rx d)" rule: sys_read.cases) (auto simp: read_sock_def min_def split: if_splits)

lemma my_read_again_size:
  "read_cnt b \<le> 0 \<Longrightarrow> my_read_again b d = (r, s') \<Longrightarrow> rl_size s' \<le> rl_size (b, d) \<and> (\<forall>c. r = Inr (Some c) \<longrightarrow> rl_size s' < rl_size (b, d))"
proof (induction b d rule: my_read_again.induct)
  case (1 b d)
  show ?case
  proof (cases MAXLINE d rule: read_sock_cases)
    case (intr d')
    have "rl_size s' \<le> rl_size (b\<lparr>read_cnt := - 1\<rparr>, d') \<and> (\<forall>c. r = Inr (Some c) \<longrightarrow> rl_size s' < rl_size (b\<lparr>read_cnt := - 1\<rparr>, d'))"
      using "1.IH" [of "Inl EINTR" d' EINTR] "1.prems" intr by (simp add: my_read_again.simps [of b d])
    with read_sock_size(1) [OF intr] show ?thesis by (auto simp: rl_size_def)
  next
    case (err e d')
    with "1.prems" read_sock_size(1) [OF err(1)] show ?thesis by (auto simp: my_read_again.simps [of b d] rl_size_def)
  next
    case (eof d')
    with "1.prems" read_sock_size_data [OF eof] show ?thesis by (auto simp: my_read_again.simps [of b d] rl_size_def)
  next
    case (data bs d')
    moreover have "nat (int (length bs) - 1) < length bs" using data(2) by (cases bs) auto
    ultimately show ?thesis using "1.prems" read_sock_size_data [OF data(1)]
      by (auto simp: my_read_again.simps [of b d] rl_size_def rl_deliver_def)
  qed
qed

lemma my_read_size:
  "my_read s = (r, s') \<Longrightarrow> rl_size s' \<le> rl_size s \<and> (\<forall>c. r = Inr (Some c) \<longrightarrow> rl_size s' < rl_size s)"
  using my_read_again_size [of "fst s" "snd s" r s']
  by (cases s) (auto simp: my_read_def rl_deliver_def rl_size_def split: if_splits)

lemma readline_loop_size: "readline_loop lib_eof my_read k n acc s = (r, st, s') \<Longrightarrow> rl_size s' \<le> rl_size s"
proof (induction k arbitrary: n acc s)
  case (Suc k)
  obtain x s1 where g: "my_read s = (x, s1)" by (rule prod.exhaust)
  have "rl_size s1 \<le> rl_size s" using my_read_size [OF g] by blast
  moreover have "s' = s1 \<or> (\<exists>n' acc'. readline_loop lib_eof my_read k n' acc' s1 = (r, st, s'))"
    using Suc.prems g by (auto split: sum.splits option.splits if_splits prod.splits)
  ultimately show ?case using Suc.IH [of _ _ s1] by fastforce
qed simp

lemma Readline_size:
  assumes "Readline maxlen s = Ret (n, l) s'" and "n \<noteq> 0" and "1 < maxlen"
  shows "rl_size s' < rl_size s"
proof -
  obtain k where k: "maxlen - 1 = Suc k" using assms(3) by (cases maxlen) (auto dest: gr0_implies_Suc)
  have r: "readline_loop lib_eof my_read (Suc k) 1 [] s = (Inr n, l, s')"
    using assms(1) k by (auto simp: Readline_def readline_def split: prod.splits sum.splits)
  obtain x s1 where g: "my_read s = (x, s1)" by (rule prod.exhaust)
  with r assms(2) obtain c where "x = Inr (Some c)" by (auto simp: lib_eof_def split: sum.splits option.splits)
  with g my_read_size [OF g] have lt: "rl_size s1 < rl_size s" by blast
  have "s' = s1 \<or> readline_loop lib_eof my_read k 2 [c] s1 = (Inr n, l, s')"
    using r g \<open>x = Inr (Some c)\<close> by (auto split: if_splits simp: numeral_2_eq_2)
  with lt readline_loop_size show ?thesis by fastforce
qed

definition on_sock :: "('a, sockd) prog \<Rightarrow> ('a, rlstate) prog" where
  "on_sock = zoom snd (\<lambda>d s. (fst s, d))"

lemma on_sock_Writen: "on_sock (Writen bs) s = Ret u s' \<Longrightarrow> rl_size s' = rl_size s"
  by (auto simp: on_sock_def zoom_def rl_size_def dest: Writen_rx split: outcome.splits)

text \<open>\<open>result\<close> is the array \<^verbatim>\<open>result[MAXN]\<close>, whose contents are never set.\<close>

function web_child :: "char list \<Rightarrow> (unit, rlstate) prog" where
  "web_child result s =
     bindP (Readline MAXLINE) (\<lambda>r s1.
       if fst r = 0 then Ret () s1
       else let ntowrite = to_int32 (atol (snd r))
            in if ntowrite \<le> 0 \<or> ntowrite > int MAXN
               then Die (Err_quit (''client request for '' @ dec_int ntowrite @ '' bytes'')) s1
               else bindP (on_sock (Writen (take (nat ntowrite) result))) (\<lambda>_ w. web_child result w) s1) s"
  by pat_completeness auto
termination
  by (relation "measure (\<lambda>(result, s). rl_size s)") (auto dest!: on_sock_Writen Readline_size simp: MAXLINE_def)

declare web_child.simps [simp del]

text \<open>What the server may have sent: whole replies of 1 to \<^verbatim>\<open>MAXN\<close> bytes, the last one cut if writing failed.\<close>

inductive replies :: "char list \<Rightarrow> char list \<Rightarrow> bool" for result where
  none: "replies result []"
| reply: "replies result out \<Longrightarrow> 0 < n \<Longrightarrow> n \<le> MAXN \<Longrightarrow> replies result (take n result @ out)"

definition web_post :: "char list \<Rightarrow> rlstate \<Rightarrow> (unit, rlstate) outcome \<Rightarrow> bool" where
  "web_post result s res \<longleftrightarrow>
     (\<exists>out k. sent (snd (final_state res)) = sent (snd s) @ out @ take k result \<and> replies result out \<and> k \<le> MAXN \<and>
        (k = 0 \<or> (\<exists>e s'. res = Die (Err_sys ''writen error'' e) s'))) \<and> \<not> (\<exists>s'. res = Blocked s')"

lemma web_post_reply:
  assumes "web_post result s1 res" and "sent (snd s1) = sent (snd s) @ take n result" and "0 < n" "n \<le> MAXN"
  shows "web_post result s res"
proof -
  obtain out k where "sent (snd (final_state res)) = sent (snd s1) @ out @ take k result" "replies result out" "k \<le> MAXN"
    "k = 0 \<or> (\<exists>e s'. res = Die (Err_sys ''writen error'' e) s')"
    using assms(1) unfolding web_post_def by blast
  then show ?thesis
    unfolding web_post_def using assms reply [of result out n]
    by (intro conjI exI [of _ "take n result @ out"] exI [of _ k]) (auto simp: web_post_def)
qed

lemma web_post_none:
  assumes "sent (snd (final_state res)) = sent (snd s)" and "\<not> (\<exists>s'. res = Blocked s')"
  shows "web_post result s res"
  unfolding web_post_def using assms replies.none
  by (intro conjI exI [of _ "[]"] exI [of _ 0]) simp_all

lemma web_post_cut:
  assumes "sent (snd s') = sent (snd s) @ take k result" and "k \<le> MAXN"
  shows "web_post result s (Die (Err_sys ''writen error'' e) s')"
  unfolding web_post_def using assms replies.none
  by (intro conjI exI [of _ "[]"] exI [of _ k]) simp_all

lemma Readline_not_blocked: "Readline n s \<noteq> Blocked s'"
  by (auto simp: Readline_def split: prod.splits sum.splits)

lemma Readline_tx: "same_tx (snd s) (snd (final_state (Readline n s)))"
  using readline_loop_tx [of s lib_eof "n - 1" 1 "[]"] by (auto simp: Readline_def readline_def split: prod.splits sum.splits)

lemma web_child_post: "web_post result s (web_child result s)"
proof (induction result s rule: web_child.induct)
  case (1 result s)
  note tx = Readline_tx [of s MAXLINE]
  show ?case
  proof (cases "Readline MAXLINE s")
    case (Blocked s1)
    then show ?thesis using Readline_not_blocked by blast
  next
    case (Die f s1)
    then have "web_child result s = Die f s1" by (subst web_child.simps) simp
    with tx Die show ?thesis by (intro web_post_none) (simp_all add: same_tx_def)
  next
    case (Ret r s1)
    define n where "n = to_int32 (atol (snd r))"
    have sent1: "sent (snd s1) = sent (snd s)" using tx Ret by (simp add: same_tx_def)
    show ?thesis
    proof (cases "fst r = 0 \<or> n \<le> 0 \<or> n > int MAXN")
      case True
      with Ret have "web_child result s = Ret () s1 \<or> (\<exists>f. web_child result s = Die f s1)"
        by (subst (1 2) web_child.simps) (auto simp: Let_def n_def)
      with sent1 show ?thesis by (intro web_post_none) auto
    next
      case False
      let ?b = "take (nat n) result"
      have step: "web_child result s = bindP (on_sock (Writen ?b)) (\<lambda>_ w. web_child result w) s1"
        using Ret False by (subst web_child.simps) (simp add: Let_def n_def)
      show ?thesis
      proof (cases rule: Writen_cases [of ?b "snd s1"])
        case (1 d)
        then have w: "on_sock (Writen ?b) s1 = Ret () (fst s1, d)" by (simp add: on_sock_def zoom_def)
        have "web_post result (fst s1, d) (web_child result (fst s1, d))"
          using "1.IH" [OF Ret _ n_def] False w by auto
        with step w 1(2) sent1 False show ?thesis
          by (auto intro!: web_post_reply [of result "(fst s1, d)" _ s "nat n"])
      next
        case (2 k e d)
        then have "web_child result s = Die (Err_sys ''writen error'' e) (fst s1, d)"
          using step by (simp add: on_sock_def zoom_def bindP_def)
        moreover have "take k ?b = take (min k (nat n)) result" by (simp add: min.commute)
        moreover have "min k (nat n) \<le> MAXN" using False by auto
        ultimately show ?thesis using 2(2) sent1
          web_post_cut [of "(fst s1, d)" s "min k (nat n)" result e] by simp
      qed
    qed
  qed
qed

text \<open>
  \<^verbatim>\<open>web_child\<close> always ends, and never sends a byte from outside its buffer: whatever the client
  asks for, what has been sent is a sequence of replies of between 1 and \<^verbatim>\<open>MAXN\<close> bytes of the buffer (the last one
  cut only if writing failed). A line with any other number ends the process.\<close>

theorem web_child_bounds: "web_post result s (web_child result s)"
  by (rule web_child_post)

end
