(* ===== verification/Ready_Scan.thy ===== *)
theory Ready_Scan
  imports Prelude
begin

text \<open>
  What the servers built on \<^verbatim>\<open>select\<close> and on \<^verbatim>\<open>poll\<close> share: a table of client descriptors with \<open>-1\<close> for a
  free entry, the search for the first free entry, and the loop over the table that serves the ready
  clients and leaves early when as many as were announced have been served. The loop is proved
  to do the same as one that looks at every entry.
\<close>

section \<open>The environment of one iteration\<close>

text \<open>
  What the kernel answers during one iteration of a server: results of \<^verbatim>\<open>accept\<close>, what a \<^verbatim>\<open>read\<close> of a
  descriptor gives, and whether writing to it and closing it fails.
\<close>

record round =
  rd_ready :: "int set"
  rd_accept :: "(errno + int) list"
  rd_data :: "int \<Rightarrow> errno + char list"
  rd_wfail :: "int \<Rightarrow> errno option"
  rd_cfail :: "int \<Rightarrow> errno option"

text \<open>What the server does to the outside: echoes and closes, in order.\<close>

datatype action = Echoed int "char list" | Closed int

section \<open>First free entry\<close>

text \<open>\<^verbatim>\<open>for (i = 0; i < SIZE; i++) if (client[i] < 0) break;\<close>\<close>

fun first_free :: "int list \<Rightarrow> nat \<Rightarrow> nat" where
  "first_free [] i = i"
| "first_free (c # cs) i = (if c < 0 then i else first_free cs (i + 1))"

lemma first_free_add: "first_free cs i = i + first_free cs 0"
proof (induction cs arbitrary: i)
  case (Cons c cs)
  show ?case using Cons [of "Suc i"] Cons [of "Suc 0"] by simp
qed simp

lemma first_free_spec:
  "first_free cs 0 \<le> length cs \<and> (first_free cs 0 < length cs \<longrightarrow> cs ! first_free cs 0 < 0) \<and>
   (\<forall>j < first_free cs 0. 0 \<le> cs ! j)"
proof (induction cs)
  case (Cons c cs)
  show ?case
  proof (cases "c < 0")
    case False
    with Cons first_free_add [of cs "Suc 0"] show ?thesis
      by (auto simp: nth_Cons split: nat.splits)
  qed simp
qed simp

lemma first_free_full: "first_free cs 0 = length cs \<longleftrightarrow> (\<forall>c \<in> set cs. 0 \<le> c)"
proof -
  have "first_free cs 0 = length cs \<Longrightarrow> \<forall>c \<in> set cs. 0 \<le> c"
    using first_free_spec [of cs] by (auto simp: in_set_conv_nth)
  moreover have "first_free cs 0 = length cs" if "\<forall>c \<in> set cs. 0 \<le> c"
  proof (rule ccontr)
    assume "first_free cs 0 \<noteq> length cs"
    with first_free_spec [of cs] have "first_free cs 0 < length cs" "cs ! first_free cs 0 < 0" by auto
    with that show False by (meson not_le nth_mem)
  qed
  ultimately show ?thesis by blast
qed

section \<open>Tables without duplicates\<close>

definition in_use :: "int list \<Rightarrow> int set" where
  "in_use cs = {fd \<in> set cs. 0 \<le> fd}"

definition no_dup :: "int list \<Rightarrow> bool" where
  "no_dup cs \<longleftrightarrow> (\<forall>i < length cs. \<forall>j < length cs. i \<noteq> j \<and> 0 \<le> cs ! i \<longrightarrow> cs ! i \<noteq> cs ! j)"

lemma in_use_iff: "fd \<in> in_use cs \<longleftrightarrow> 0 \<le> fd \<and> (\<exists>i < length cs. cs ! i = fd)"
  by (auto simp: in_use_def in_set_conv_nth)

lemma no_dup_clear: "no_dup cs \<Longrightarrow> no_dup (cs[i := -1])"
  by (cases "i < length cs") (auto simp: no_dup_def nth_list_update split: if_splits)

lemma in_use_clear:
  assumes "no_dup cs" and "i < length cs" and "0 \<le> cs ! i"
  shows "in_use (cs[i := -1]) = in_use cs - {cs ! i}"
  using assms by (auto simp: in_use_iff no_dup_def nth_list_update split: if_splits) metis+

lemma no_dup_new: "no_dup cs \<Longrightarrow> x \<notin> in_use cs \<Longrightarrow> 0 \<le> x \<Longrightarrow> no_dup (cs[i := x])"
  by (cases "i < length cs") (auto simp: no_dup_def in_use_iff nth_list_update split: if_splits)

lemma in_use_new:
  assumes "i < length cs" and "cs ! i < 0" and "0 \<le> x"
  shows "in_use (cs[i := x]) = insert x (in_use cs)"
  using assms by (auto simp: in_use_iff nth_list_update split: if_splits) (metis not_le)

lemma no_dup_count:
  assumes "no_dup cs" and "finite R" and "distinct js" and "\<forall>j \<in> set js. j < length cs"
  shows "length (filter (\<lambda>i. 0 \<le> cs ! i \<and> cs ! i \<in> R) js) \<le> card (R \<inter> in_use cs)"
proof -
  let ?H = "filter (\<lambda>i. 0 \<le> cs ! i \<and> cs ! i \<in> R) js"
  have "inj_on ((!) cs) (set ?H)" using assms(1,4) by (force simp: inj_on_def no_dup_def)
  then have "card (set ?H) = card ((!) cs ` set ?H)" by (simp add: card_image)
  also have "\<dots> \<le> card (R \<inter> in_use cs)"
    using assms by (intro card_mono) (auto simp: in_use_iff intro!: exI)
  finally have "card (set ?H) \<le> card (R \<inter> in_use cs)" .
  moreover have "card (set ?H) = length ?H" using assms(3) by (intro distinct_card) simp
  ultimately show ?thesis by (simp only:)
qed

text \<open>A full table uses a descriptor that is at least as large as the table.\<close>

lemma full_table_large:
  assumes "no_dup cs" and "\<forall>c \<in> set cs. 0 \<le> c" and "l \<notin> set cs" and "0 \<le> l"
  shows "\<exists>fd \<in> insert l (in_use cs). int (length cs) \<le> fd"
proof (rule ccontr)
  assume small: "\<not> ?thesis"
  have "inj_on ((!) cs) {..<length cs}" using assms(1,2) by (auto simp: inj_on_def no_dup_def)
  moreover have "(!) cs ` {..<length cs} = set cs" by (auto simp: in_set_conv_nth)
  ultimately have "card (set cs) = length cs" by (metis card_image card_lessThan)
  then have "card (insert l (set cs)) = Suc (length cs)" using assms(3) by simp
  moreover have "insert l (set cs) \<subseteq> {0..<int (length cs)}"
    using small assms(2,4) by (auto simp: in_use_def not_le)
  then have "card (insert l (set cs)) \<le> length cs" using card_mono [of "{0..<int (length cs)}"] by fastforce
  ultimately show False by simp
qed

section \<open>The scan\<close>

text \<open>
  \<open>hit st i\<close>: entry \<open>i\<close> is in use and its descriptor is ready. \<open>scan\<close> is the loop of the programs,
  \<open>visit\<close> the one that looks at all entries.
\<close>

fun scan :: "('st \<Rightarrow> nat \<Rightarrow> bool) \<Rightarrow> (nat \<Rightarrow> (unit, 'st) prog) \<Rightarrow> nat list \<Rightarrow> int \<Rightarrow> (unit, 'st) prog" where
  "scan hit serve [] nready st = Ret () st"
| "scan hit serve (i # js) nready st =
     (if hit st i
      then bindP (serve i) (\<lambda>_ st'. if nready - 1 \<le> 0 then Ret () st' else scan hit serve js (nready - 1) st') st
      else scan hit serve js nready st)"

fun visit :: "('st \<Rightarrow> nat \<Rightarrow> bool) \<Rightarrow> (nat \<Rightarrow> (unit, 'st) prog) \<Rightarrow> nat list \<Rightarrow> (unit, 'st) prog" where
  "visit hit serve [] st = Ret () st"
| "visit hit serve (i # js) st =
     (if hit st i then bindP (serve i) (\<lambda>_ st'. visit hit serve js st') st else visit hit serve js st)"

text \<open>The interface: serving an entry does not change which other entries are to be served.\<close>

locale ready_table =
  fixes hit :: "'st \<Rightarrow> nat \<Rightarrow> bool" and serve :: "nat \<Rightarrow> (unit, 'st) prog" and inv :: "'st \<Rightarrow> bool"
  assumes hit_frame: "serve i st = Ret u st' \<Longrightarrow> inv st \<Longrightarrow> hit st i \<Longrightarrow> j \<noteq> i \<Longrightarrow> hit st' j = hit st j"
    and inv_serve: "serve i st = Ret u st' \<Longrightarrow> inv st \<Longrightarrow> hit st i \<Longrightarrow> inv st'"
begin

definition hits :: "nat list \<Rightarrow> 'st \<Rightarrow> nat" where
  "hits js st = length (filter (hit st) js)"

lemma hits_frame: "serve i st = Ret u st' \<Longrightarrow> inv st \<Longrightarrow> hit st i \<Longrightarrow> i \<notin> set js \<Longrightarrow> hits js st' = hits js st"
  unfolding hits_def by (intro arg_cong [where f = length] filter_cong refl hit_frame) auto

lemma visit_none: "hits js st = 0 \<Longrightarrow> visit hit serve js st = Ret () st"
  by (induction js) (auto simp: hits_def split: if_splits)

lemma visit_append:
  "visit hit serve (js @ ks) st = bindP (visit hit serve js) (\<lambda>_ st'. visit hit serve ks st') st"
  by (induction js arbitrary: st) (auto simp: bindP_def split: outcome.splits)

text \<open>Leaving early is sound as long as the announced number is not too small.\<close>

lemma scan_visit:
  assumes "inv st" and "distinct js" and "int (hits js st) \<le> nready"
  shows "scan hit serve js nready st = visit hit serve js st"
  using assms
proof (induction js arbitrary: nready st)
  case (Cons i js)
  show ?case
  proof (cases "hit st i")
    case False
    with Cons show ?thesis by (simp add: hits_def)
  next
    case True
    have "(if nready - 1 \<le> 0 then Ret () st' else scan hit serve js (nready - 1) st') = visit hit serve js st'"
      if s: "serve i st = Ret u st'" for u st'
    proof -
      have h: "hits js st' = hits js st" using hits_frame [OF s] Cons.prems True by simp
      with Cons.prems(3) True have "int (hits js st') \<le> nready - 1" by (simp add: hits_def)
      with visit_none [of js st'] Cons.IH [of st' "nready - 1"] inv_serve [OF s] Cons.prems True
      show ?thesis by (auto simp: not_le) 
    qed
    with True show ?thesis by (auto simp: bindP_def split: outcome.splits)
  qed
qed simp

text \<open>When the announced number is exact, entries after those it was counted over are not even looked at.\<close>

lemma scan_exact:
  assumes "inv st" and "distinct js" and "int (hits js st) = nready" and "0 < nready"
  shows "scan hit serve (js @ ks) nready st = visit hit serve js st"
  using assms
proof (induction js arbitrary: nready st)
  case Nil
  then show ?case by (simp add: hits_def)
next
  case (Cons i js)
  show ?case
  proof (cases "hit st i")
    case False
    with Cons show ?thesis by (simp add: hits_def)
  next
    case True
    have "(if nready - 1 \<le> 0 then Ret () st' else scan hit serve (js @ ks) (nready - 1) st') = visit hit serve js st'"
      if s: "serve i st = Ret u st'" for u st'
    proof -
      have h: "int (hits js st') = nready - 1" using hits_frame [OF s] Cons.prems True by (simp add: hits_def)
      with visit_none [of js st'] Cons.IH [of st' "nready - 1"] inv_serve [OF s] Cons.prems True
      show ?thesis by (auto simp: not_le)
    qed
    with True show ?thesis by (auto simp: bindP_def split: outcome.splits)
  qed
qed

lemma visit_frame:
  "inv st \<Longrightarrow> visit hit serve js st = Ret u st' \<Longrightarrow> j \<notin> set js \<Longrightarrow> hit st' j = hit st j"
proof (induction js arbitrary: st)
  case (Cons i js)
  show ?case
  proof (cases "hit st i")
    case True
    with Cons.prems obtain v st1 where "serve i st = Ret v st1" "visit hit serve js st1 = Ret u st'"
      by (auto elim!: bindP_RetE)
    with Cons True show ?thesis using hit_frame [of i st v st1 j] inv_serve [of i st v st1] by auto
  qed (use Cons in auto)
qed simp

text \<open>Entries that are not hit may be left out at the end.\<close>

lemma visit_prefix:
  assumes "inv st" and "distinct (js @ ks)" and "\<forall>k \<in> set ks. \<not> hit st k"
  shows "visit hit serve (js @ ks) st = visit hit serve js st"
proof -
  have "visit hit serve ks st' = Ret () st'" if "visit hit serve js st = Ret u st'" for u st'
    using visit_frame [OF assms(1) that] assms(2,3) by (intro visit_none) (auto simp: hits_def filter_empty_conv)
  then show ?thesis unfolding visit_append by (auto simp: bindP_def split: outcome.splits)
qed

lemma inv_visit: "inv st \<Longrightarrow> visit hit serve js st = Ret u st' \<Longrightarrow> inv st'"
  by (induction js arbitrary: st) (auto split: if_splits elim!: bindP_RetE dest: inv_serve)

end

end
