(* ===== verification/Select_Server.thy ===== *)
theory Select_Server
  imports Ready_Scan Wrappers
begin

text \<open>
  The single-process server \<^verbatim>\<open>tcp_serv_select01\<close> of \<^verbatim>\<open>2_basic_socket.c\<close>: the table \<^verbatim>\<open>client[]\<close>, the descriptor set
  \<^verbatim>\<open>allset\<close>, and the bounds \<^verbatim>\<open>maxi\<close> and \<^verbatim>\<open>maxfd\<close> that limit what is looked at. A round is one iteration of
  the \<^verbatim>\<open>while\<close> loop.
\<close>

section \<open>The server\<close>

definition FD_SETSIZE :: nat where "FD_SETSIZE = 1024"

record selsrv =
  listenfd :: int
  maxfd :: int
  maxi :: int
  client :: "int list"
  allset :: "int set"
  acts :: "action list"

definition sel_start :: "int \<Rightarrow> selsrv" where
  "sel_start lfd = \<lparr>listenfd = lfd, maxfd = lfd, maxi = -1, client = replicate FD_SETSIZE (-1), allset = {lfd}, acts = []\<rparr>"

text \<open>The new connection: saved in the first free entry, added to the set, the bounds adjusted.\<close>

definition sel_accept :: "round \<Rightarrow> (unit, selsrv) prog" where
  "sel_accept ev st =
     (case Accept (rd_accept ev) of
        Blocked x \<Rightarrow> Blocked st
      | Die f x \<Rightarrow> Die f st
      | Ret connfd x \<Rightarrow>
          (let i = first_free (client st) 0
           in if i = FD_SETSIZE then Die (Err_quit ''too many clients'') st
              else Ret () (st\<lparr>client := (client st)[i := connfd], allset := insert connfd (allset st),
                             maxfd := (if connfd > maxfd st then connfd else maxfd st),
                             maxi := (if int i > maxi st then int i else maxi st)\<rparr>)))"

text \<open>The body of the \<^verbatim>\<open>for\<close> loop for a ready client.\<close>

definition sel_serve :: "round \<Rightarrow> nat \<Rightarrow> (unit, selsrv) prog" where
  "sel_serve ev i st =
     (let sockfd = client st ! i
      in case rd_data ev sockfd of
           Inl e \<Rightarrow> Die (Err_sys ''read error'' (Some e)) st
         | Inr data \<Rightarrow>
             (let buf = take MAXLINE data
              in if buf = []
                 then (case rd_cfail ev sockfd of
                         Some e \<Rightarrow> Die (Err_sys ''close error'' (Some e)) st
                       | None \<Rightarrow> Ret () (st\<lparr>allset := allset st - {sockfd}, client := (client st)[i := -1],
                                          acts := acts st @ [Closed sockfd]\<rparr>))
                 else (case rd_wfail ev sockfd of
                         Some e \<Rightarrow> Die (Err_sys ''writen error'' (Some e)) st
                       | None \<Rightarrow> Ret () (st\<lparr>acts := acts st @ [Echoed sockfd buf]\<rparr>))))"

text \<open>Entry \<open>i\<close> of the table is in use and its descriptor ready.\<close>

definition sel_hit :: "int set \<Rightarrow> selsrv \<Rightarrow> nat \<Rightarrow> bool" where
  "sel_hit rset st i \<longleftrightarrow> i < length (client st) \<and> \<not> client st ! i < 0 \<and> client st ! i \<in> rset"

text \<open>\<^verbatim>\<open>Select\<close> looks at the descriptors of \<^verbatim>\<open>allset\<close> up to \<^verbatim>\<open>maxfd\<close>, and does not return when none is ready.\<close>

definition sel_rset :: "round \<Rightarrow> selsrv \<Rightarrow> int set" where
  "sel_rset ev st = {fd \<in> allset st. fd \<le> maxfd st} \<inter> rd_ready ev"

definition sel_clients :: "round \<Rightarrow> int set \<Rightarrow> int \<Rightarrow> (unit, selsrv) prog" where
  "sel_clients ev rset nready st = scan (sel_hit rset) (sel_serve ev) [0..<nat (maxi st + 1)] nready st"

definition sel_round :: "round \<Rightarrow> (unit, selsrv) prog" where
  "sel_round ev st =
     (let rset = sel_rset ev st; nready = int (card rset)
      in if rset = {} then Blocked st
         else if listenfd st \<in> rset
         then bindP (sel_accept ev) (\<lambda>_ st'. if nready - 1 \<le> 0 then Ret () st' else sel_clients ev rset (nready - 1) st') st
         else sel_clients ev rset nready st)"

fun tcp_serv_select01 :: "round list \<Rightarrow> (unit, selsrv) prog" where
  "tcp_serv_select01 [] st = Blocked st"
| "tcp_serv_select01 (ev # evs) st = bindP (sel_round ev) (\<lambda>_ st'. tcp_serv_select01 evs st') st"

section \<open>The invariant\<close>

definition sel_inv :: "selsrv \<Rightarrow> bool" where
  "sel_inv st \<longleftrightarrow>
     length (client st) = FD_SETSIZE \<and> 0 \<le> listenfd st \<and>
     allset st = insert (listenfd st) (in_use (client st)) \<and> listenfd st \<notin> in_use (client st) \<and> no_dup (client st) \<and>
     (\<forall>fd \<in> allset st. fd \<le> maxfd st) \<and>
     -1 \<le> maxi st \<and> maxi st < int FD_SETSIZE \<and> (\<forall>j < FD_SETSIZE. 0 \<le> client st ! j \<longrightarrow> int j \<le> maxi st)"

lemma sel_inv_start: "0 \<le> lfd \<Longrightarrow> sel_inv (sel_start lfd)"
  by (auto simp: sel_inv_def sel_start_def FD_SETSIZE_def in_use_def no_dup_def)

text \<open>Each operation keeps the invariant; a new descriptor is one that is not in use.\<close>

definition fresh_fds :: "round \<Rightarrow> selsrv \<Rightarrow> bool" where
  "fresh_fds ev st \<longleftrightarrow> (\<forall>r \<in> set (rd_accept ev). case r of Inl e \<Rightarrow> True | Inr n \<Rightarrow> 0 \<le> n \<and> n \<notin> allset st)"

lemma Accept_in: "Accept evs = Ret n rest \<Longrightarrow> Inr n \<in> set evs"
  by (induction evs rule: Accept.induct) (auto split: if_splits)

lemma sel_accept_inv:
  assumes "sel_inv st" and "fresh_fds ev st" and "sel_accept ev st = Ret u st'"
  shows "sel_inv st'" and "\<exists>n i. n \<notin> allset st \<and> 0 \<le> n \<and> i < FD_SETSIZE \<and> client st ! i < 0 \<and>
      client st' = (client st)[i := n] \<and> listenfd st' = listenfd st \<and> acts st' = acts st"
proof -
  define i where "i = first_free (client st) 0"
  obtain n rest where a: "Accept (rd_accept ev) = Ret n rest" and i: "i \<noteq> FD_SETSIZE" and
    st': "st' = st\<lparr>client := (client st)[i := n], allset := insert n (allset st),
                   maxfd := (if n > maxfd st then n else maxfd st), maxi := (if int i > maxi st then int i else maxi st)\<rparr>"
    using assms(3) by (auto simp: sel_accept_def Let_def i_def split: outcome.splits if_splits)
  have n: "0 \<le> n" "n \<notin> allset st" using Accept_in [OF a] assms(2) by (auto simp: fresh_fds_def)
  have len: "length (client st) = FD_SETSIZE" using assms(1) by (simp add: sel_inv_def)
  with i first_free_spec [of "client st"] have il: "i < length (client st)" "client st ! i < 0" by (auto simp: i_def)
  have nc: "n \<notin> in_use (client st)" "n \<noteq> listenfd st" using n assms(1) by (auto simp: sel_inv_def)
  have "no_dup ((client st)[i := n])" "in_use ((client st)[i := n]) = insert n (in_use (client st))"
    using no_dup_new [OF _ nc(1) n(1)] in_use_new [OF il n(1)] assms(1) by (auto simp: sel_inv_def)
  moreover have "0 \<le> (client st)[i := n] ! j \<longrightarrow> int j \<le> maxi st'" if "j < FD_SETSIZE" for j
    using that assms(1) il len st' by (cases "j = i") (auto simp: sel_inv_def)
  moreover have "fd \<le> (if n > maxfd st then n else maxfd st)" if "fd \<in> insert n (allset st)" for fd
    using that assms(1) by (force simp: sel_inv_def)
  ultimately show "sel_inv st'"
    using assms(1) nc(2) il len unfolding st' sel_inv_def
    by (simp add: insert_commute)
  show "\<exists>n i. n \<notin> allset st \<and> 0 \<le> n \<and> i < FD_SETSIZE \<and> client st ! i < 0 \<and>
      client st' = (client st)[i := n] \<and> listenfd st' = listenfd st \<and> acts st' = acts st"
    using n il len st' by (intro exI [of _ n] exI [of _ i]) simp
qed

lemma sel_serve_cases:
  assumes "sel_serve ev i st = Ret u st'"
  obtains (eof) "st' = st\<lparr>allset := allset st - {client st ! i}, client := (client st)[i := -1],
                          acts := acts st @ [Closed (client st ! i)]\<rparr>" "rd_data ev (client st ! i) = Inr []"
  | (data) buf where "st' = st\<lparr>acts := acts st @ [Echoed (client st ! i) (take MAXLINE buf)]\<rparr>"
      "rd_data ev (client st ! i) = Inr buf" "buf \<noteq> []"
  using assms MAXLINE_pos by (auto simp: sel_serve_def Let_def simp del: MAXLINE_pos split: sum.splits if_splits option.splits)

lemma sel_serve_inv:
  assumes "sel_serve ev i st = Ret u st'" and "sel_inv st" and "sel_hit rset st i"
  shows "sel_inv st'"
  using assms(1)
proof (cases rule: sel_serve_cases)
  case eof
  have il: "i < length (client st)" "0 \<le> client st ! i" using assms(2,3) by (auto simp: sel_inv_def sel_hit_def)
  have "client st ! i \<noteq> listenfd st" using assms(2) il by (auto simp: sel_inv_def in_use_iff)
  moreover have "no_dup ((client st)[i := -1])" "in_use ((client st)[i := -1]) = in_use (client st) - {client st ! i}"
    using no_dup_clear in_use_clear [OF _ il] assms(2) by (auto simp: sel_inv_def)
  moreover have "0 \<le> (client st)[i := -1] ! j \<longrightarrow> int j \<le> maxi st" if "j < FD_SETSIZE" for j
    using that assms(2) il by (cases "j = i") (auto simp: sel_inv_def)
  ultimately show ?thesis
    using assms(2) unfolding eof by (auto simp: sel_inv_def)
next
  case (data buf)
  with assms(2) show ?thesis by (simp add: sel_inv_def)
qed
section \<open>The bounds are sound\<close>

interpretation sel: ready_table "sel_hit rset" "sel_serve ev" sel_inv for rset ev
proof unfold_locales
  fix i j u st st'
  assume a: "sel_serve ev i st = Ret u st'" "sel_inv st" "sel_hit rset st i"
  show "sel_hit rset st' j = sel_hit rset st j" if "j \<noteq> i"
    using a(1) by (cases rule: sel_serve_cases) (use that in \<open>auto simp: sel_hit_def\<close>)
  show "sel_inv st'" using sel_serve_inv a by blast
qed

text \<open>
  One round without the shortcuts: accept if the listening descriptor is ready, then look at every entry of the table.
\<close>

definition ref_round :: "round \<Rightarrow> (unit, selsrv) prog" where
  "ref_round ev st =
     (let rset = sel_rset ev st; all = (\<lambda>st'. visit (sel_hit rset) (sel_serve ev) [0..<FD_SETSIZE] st')
      in if rset = {} then Blocked st
         else if listenfd st \<in> rset then bindP (sel_accept ev) (\<lambda>_. all) st
         else all st)"

lemma finite_allset: "sel_inv st \<Longrightarrow> finite (sel_rset ev st)"
  by (auto simp: sel_inv_def sel_rset_def in_use_def)

lemma sel_hits_le:
  assumes "sel_inv st" and "finite R" and "k \<le> FD_SETSIZE"
  shows "sel.hits R [0..<k] st \<le> card (R \<inter> in_use (client st))"
proof -
  have len: "length (client st) = FD_SETSIZE" and nd: "no_dup (client st)" using assms(1) by (auto simp: sel_inv_def)
  have "filter (sel_hit R st) [0..<k] = filter (\<lambda>i. 0 \<le> client st ! i \<and> client st ! i \<in> R) [0..<k]"
    using len assms(3) by (intro filter_cong) (auto simp: sel_hit_def)
  then show ?thesis using no_dup_count [OF nd assms(2), of "[0..<k]"] len assms(3) by (simp add: sel.hits_def)
qed

lemma maxi_bound:
  assumes "sel_inv st"
  shows "visit (sel_hit R) (sel_serve ev) [0..<FD_SETSIZE] st = visit (sel_hit R) (sel_serve ev) [0..<nat (maxi st + 1)] st"
proof -
  let ?k = "nat (maxi st + 1)"
  have "?k \<le> FD_SETSIZE" using assms by (auto simp: sel_inv_def)
  then have sp: "[0..<FD_SETSIZE] = [0..<?k] @ [?k..<FD_SETSIZE]"
    using upt_add_eq_append [of 0 ?k "FD_SETSIZE - ?k"] by simp
  have "\<not> sel_hit R st j" if "j \<in> set [?k..<FD_SETSIZE]" for j
    using that assms by (force simp: sel_inv_def sel_hit_def)
  then show ?thesis unfolding sp by (intro sel.visit_prefix assms) auto
qed

text \<open>The clients of a table whose ready descriptors have been counted.\<close>

lemma sel_clients_eq:
  assumes "sel_inv st" and "finite R" and "int (card (R \<inter> in_use (client st))) \<le> n"
  shows "(if n \<le> 0 then Ret () st else sel_clients ev R n st) = visit (sel_hit R) (sel_serve ev) [0..<FD_SETSIZE] st"
proof -
  have le: "nat (maxi st + 1) \<le> FD_SETSIZE" using assms(1) by (auto simp: sel_inv_def)
  have "sel.hits R [0..<FD_SETSIZE] st = 0" if "n \<le> 0"
    using sel_hits_le [OF assms(1,2), of FD_SETSIZE] assms(3) that by simp
  moreover have "int (sel.hits R [0..<nat (maxi st + 1)] st) \<le> n"
    using sel_hits_le [OF assms(1,2) le] assms(3) by linarith
  ultimately show ?thesis
    using sel.visit_none sel.scan_visit [OF assms(1), of "[0..<nat (maxi st + 1)]" R n ev] maxi_bound [OF assms(1), of R ev]
    by (simp add: sel_clients_def)
qed

lemma sel_round_eq:
  assumes "sel_inv st" and "fresh_fds ev st"
  shows "sel_round ev st = ref_round ev st"
proof -
  define R where "R = sel_rset ev st"
  have fin: "finite R" using finite_allset [OF assms(1)] by (simp add: R_def)
  have R: "R \<subseteq> insert (listenfd st) (in_use (client st))" using assms(1) by (auto simp: R_def sel_rset_def sel_inv_def)
  show ?thesis
  proof (cases "listenfd st \<in> R")
    case False
    with R have "R \<inter> in_use (client st) = R" by auto
    then have "R \<noteq> {} \<Longrightarrow> sel_clients ev R (int (card R)) st = visit (sel_hit R) (sel_serve ev) [0..<FD_SETSIZE] st"
      using sel_clients_eq [OF assms(1) fin, of "int (card R)" ev] fin by (simp add: card_gt_0_iff)
    with False show ?thesis by (simp add: sel_round_def ref_round_def R_def [symmetric] Let_def)
  next
    case True
    have "(if int (card R) - 1 \<le> 0 then Ret () st' else sel_clients ev R (int (card R) - 1) st') =
        visit (sel_hit R) (sel_serve ev) [0..<FD_SETSIZE] st'" if acc: "sel_accept ev st = Ret u st'" for u st'
    proof (rule sel_clients_eq [OF sel_accept_inv(1) [OF assms acc] fin])
      obtain n i where ni: "n \<notin> allset st" "0 \<le> n" "i < FD_SETSIZE" "client st ! i < 0" "client st' = (client st)[i := n]"
        using sel_accept_inv(2) [OF assms acc] by blast
      then have "in_use (client st') = insert n (in_use (client st))"
        using in_use_new [of i "client st" n] assms(1) by (auto simp: sel_inv_def)
      moreover have "n \<notin> R" using ni(1) by (auto simp: R_def sel_rset_def)
      ultimately have "R \<inter> in_use (client st') \<subseteq> R - {listenfd st}" using assms(1) by (auto simp: sel_inv_def)
      then have "card (R \<inter> in_use (client st')) \<le> card R - 1"
        using card_mono [of "R - {listenfd st}"] fin True by (metis card_Diff_singleton finite_Diff)
      moreover have "0 < card R" using True fin by (auto simp: card_gt_0_iff)
      ultimately show "int (card (R \<inter> in_use (client st'))) \<le> int (card R) - 1" by linarith
    qed
    with True show ?thesis
      by (auto simp: sel_round_def ref_round_def R_def [symmetric] Let_def bindP_def split: outcome.splits)
  qed
qed

lemma sel_round_inv:
  assumes "sel_inv st" and "fresh_fds ev st" and "sel_round ev st = Ret u st'"
  shows "sel_inv st'"
proof -
  have "ref_round ev st = Ret u st'" using sel_round_eq [OF assms(1,2)] assms(3) by simp
  then show ?thesis
    using sel_accept_inv(1) [OF assms(1,2)] sel.inv_visit assms(1)
    by (auto simp: ref_round_def Let_def split: if_splits elim!: bindP_RetE)
qed

section \<open>Properties\<close>

text \<open>Rounds in which \<^verbatim>\<open>accept\<close> gives descriptors that are not in use.\<close>

fun fresh_rounds :: "round list \<Rightarrow> selsrv \<Rightarrow> bool" where
  "fresh_rounds [] st = True"
| "fresh_rounds (ev # evs) st =
     (fresh_fds ev st \<and> (case sel_round ev st of Ret u st' \<Rightarrow> fresh_rounds evs st' | _ \<Rightarrow> True))"

fun ref_server :: "round list \<Rightarrow> (unit, selsrv) prog" where
  "ref_server [] st = Blocked st"
| "ref_server (ev # evs) st = bindP (ref_round ev) (\<lambda>_ st'. ref_server evs st') st"

lemma select_server_eq:
  "sel_inv st \<Longrightarrow> fresh_rounds evs st \<Longrightarrow> tcp_serv_select01 evs st = ref_server evs st"
proof (induction evs arbitrary: st)
  case (Cons ev evs)
  have "tcp_serv_select01 evs st' = ref_server evs st'" if "sel_round ev st = Ret u st'" for u st'
    using Cons sel_round_inv [of st ev u st'] that by auto
  with Cons sel_round_eq [of st ev] show ?case by (auto simp: bindP_def split: outcome.splits)
qed simp

text \<open>
  C4. The shortcuts of \<^verbatim>\<open>tcp_serv_select01\<close> lose nothing. For every sequence of rounds in which \<^verbatim>\<open>accept\<close> gives
  unused descriptors, the server does exactly what the server does that watches all
  of \<^verbatim>\<open>allset\<close> and examines every entry of \<^verbatim>\<open>client[]\<close> in every round: the limit \<^verbatim>\<open>maxi\<close>, the countdown of \<^verbatim>\<open>nready\<close> and
  the \<^verbatim>\<open>continue\<close> after an accept never skip a ready client.\<close>

theorem select_server_serves_all:
  assumes "0 \<le> lfd" and "fresh_rounds evs (sel_start lfd)"
  shows "tcp_serv_select01 evs (sel_start lfd) = ref_server evs (sel_start lfd)"
  using select_server_eq [OF sel_inv_start [OF assms(1)] assms(2)] .

definition ex_round :: round where
  "ex_round = \<lparr>rd_ready = {3}, rd_accept = [Inl ECONNABORTED, Inr 4], rd_data = (\<lambda>_. Inr ''x''), rd_wfail = (\<lambda>_. None), rd_cfail = (\<lambda>_. None)\<rparr>"

theorem select_server_serves_all_witness:
  "tcp_serv_select01 [ex_round] (sel_start 3) = ref_server [ex_round] (sel_start 3)"
  by (rule select_server_serves_all) (simp_all add: fresh_fds_def ex_round_def sel_start_def split: outcome.splits)

text \<open>
  The server's bookkeeping is consistent in every reachable state: \<^verbatim>\<open>allset\<close> is the listening descriptor and the
  descriptors in \<^verbatim>\<open>client[]\<close>, no descriptor is entered twice, \<^verbatim>\<open>maxfd\<close> bounds the set, and \<^verbatim>\<open>maxi\<close> the entries in use.\<close>

theorem select_server_invariant:
  assumes "sel_inv st" and "fresh_fds ev st" and "sel_round ev st = Ret u st'"
  shows "sel_inv st' \<and> allset st' = insert (listenfd st') (in_use (client st')) \<and> no_dup (client st') \<and>
         {fd \<in> allset st'. fd \<le> maxfd st'} = allset st'"
  using sel_round_inv [OF assms] by (auto simp: sel_inv_def)

theorem select_server_invariant_witness:
  "\<exists>st'. sel_inv st' \<and> allset st' = insert (listenfd st') (in_use (client st')) \<and> no_dup (client st') \<and>
         {fd \<in> allset st'. fd \<le> maxfd st'} = allset st'"
proof -
  have "sel_rset ex_round (sel_start 3) = {3}" by (auto simp: sel_rset_def ex_round_def sel_start_def)
  moreover have "first_free (client (sel_start 3)) 0 = 0" by (simp add: sel_start_def FD_SETSIZE_def numeral_eq_Suc)
  ultimately obtain st' where "sel_round ex_round (sel_start 3) = Ret () st'"
    by (simp add: sel_round_def Let_def sel_start_def sel_accept_def ex_round_def bindP_def FD_SETSIZE_def)
  moreover have "fresh_fds ex_round (sel_start 3)" by (simp add: fresh_fds_def ex_round_def sel_start_def)
  ultimately show ?thesis using select_server_invariant [OF sel_inv_start] by (metis zero_le_numeral)
qed

text \<open>
  The check for too many clients comes too late: when the table of \<^verbatim>\<open>FD_SETSIZE\<close> entries is full, \<^verbatim>\<open>allset\<close> already
  holds a descriptor that is not below \<^verbatim>\<open>FD_SETSIZE\<close>, for which \<^verbatim>\<open>FD_SET\<close> writes outside the descriptor set.\<close>

theorem select_full_table_overruns:
  assumes "sel_inv st" and "first_free (client st) 0 = FD_SETSIZE"
  shows "\<exists>fd \<in> allset st. int FD_SETSIZE \<le> fd"
proof -
  have len: "length (client st) = FD_SETSIZE" using assms(1) by (simp add: sel_inv_def)
  with assms(2) have full: "\<forall>c \<in> set (client st). 0 \<le> c" using first_free_full [of "client st"] by simp
  moreover have "listenfd st \<notin> set (client st)" using full assms(1) by (auto simp: sel_inv_def in_use_def)
  ultimately show ?thesis
    using full_table_large [of "client st" "listenfd st"] assms(1) len by (auto simp: sel_inv_def)
qed

definition ex_full :: selsrv where
  "ex_full = \<lparr>listenfd = 3, maxfd = 1027, maxi = 1023, client = map (\<lambda>i. int i + 4) [0..<FD_SETSIZE],
              allset = insert 3 (in_use (map (\<lambda>i. int i + 4) [0..<FD_SETSIZE])), acts = []\<rparr>"

theorem select_full_table_overruns_witness: "\<exists>fd \<in> allset ex_full. int FD_SETSIZE \<le> fd"
proof (rule select_full_table_overruns)
  show "sel_inv ex_full" by (auto simp: sel_inv_def ex_full_def in_use_iff no_dup_def FD_SETSIZE_def)
  have "first_free (client ex_full) 0 = length (client ex_full)"
    unfolding first_free_full by (auto simp: ex_full_def)
  then show "first_free (client ex_full) 0 = FD_SETSIZE" by (simp add: ex_full_def)
qed

end
