(* ===== verification/Fifo.thy ===== *)
theory Fifo
  imports Prelude
begin

text \<open>
  The contract of a bounded queue that one side fills and another side drains: the byte buffers of the nonblocking
  client (filled by a \<^verbatim>\<open>read\<close>, drained by a \<^verbatim>\<open>write\<close>, several bytes at a time) and the array of connected sockets of the
  threaded server (one descriptor at a time) provide it. An insertion is named by an argument whose elements are
  \<open>elems\<close>, a removal by an argument that stands for \<open>count\<close> elements.
\<close>

locale fifo =
  fixes items :: "'q \<Rightarrow> 'a list"
    and space :: "'q \<Rightarrow> nat"
    and wfq :: "'q \<Rightarrow> bool"
    and put :: "'x \<Rightarrow> 'q \<Rightarrow> 'q"
    and elems :: "'x \<Rightarrow> 'a list"
    and del :: "'n \<Rightarrow> 'q \<Rightarrow> 'q"
    and count :: "'n \<Rightarrow> nat"
  assumes wfq_put: "wfq q \<Longrightarrow> length (elems x) \<le> space q \<Longrightarrow> wfq (put x q)"
    and items_put: "wfq q \<Longrightarrow> length (elems x) \<le> space q \<Longrightarrow> items (put x q) = items q @ elems x"
    and wfq_del: "wfq q \<Longrightarrow> count n \<le> length (items q) \<Longrightarrow> wfq (del n q)"
    and items_del: "wfq q \<Longrightarrow> count n \<le> length (items q) \<Longrightarrow> items (del n q) = drop (count n) (items q)"
begin

text \<open>What went in is what came out followed by what is still queued.\<close>

definition conveys :: "'a list \<Rightarrow> 'q \<Rightarrow> 'a list \<Rightarrow> bool" where
  "conveys out q inn \<longleftrightarrow> wfq q \<and> out @ items q = inn"

lemma conveys_put:
  assumes "conveys out q inn" and "length (elems x) \<le> space q"
  shows "conveys out (put x q) (inn @ elems x)"
  using assms by (auto simp: conveys_def wfq_put items_put)

lemma conveys_del:
  assumes "conveys out q inn" and "count n \<le> length (items q)"
  shows "conveys (out @ take (count n) (items q)) (del n q) inn"
  using assms by (auto simp: conveys_def wfq_del items_del)

lemma conveys_prefix: "conveys out q inn \<Longrightarrow> inn = out @ items q"
  by (simp add: conveys_def)

lemma conveys_wfq: "conveys out q inn \<Longrightarrow> wfq q"
  by (simp add: conveys_def)

end

end
