(* ===== verification/Str_Cli_Nonb.thy ===== *)
theory Str_Cli_Nonb
  imports Wrappers Fifo
begin

text \<open>
  The nonblocking client of \<^verbatim>\<open>nonblock/strclinonb.c\<close>: data from the standard input is buffered in \<^verbatim>\<open>to\<close> on its way
  to the socket, data from the socket in \<^verbatim>\<open>fr\<close> on its way to the standard output. A buffer is the array with
  the two pointers into it, as indices; it implements a queue of bytes. One round is an iteration of the \<^verbatim>\<open>for\<close> loop; what
  is ready and what the nonblocking calls return is decided by the environment.
\<close>

section \<open>Buffers\<close>

record nbuf =
  arr :: "char list"
  iptr :: nat
  optr :: nat

definition nbuf_init :: "char list \<Rightarrow> nbuf" where
  "nbuf_init a = \<lparr>arr = a, iptr = 0, optr = 0\<rparr>"

text \<open>\<^verbatim>\<open>read(fd, iptr, &buf[MAXLINE] - iptr)\<close> followed by \<^verbatim>\<open>iptr += n\<close>.\<close>

definition room :: "nbuf \<Rightarrow> nat" where
  "room b = MAXLINE - iptr b"

definition fill :: "char list \<Rightarrow> nbuf \<Rightarrow> nbuf" where
  "fill bs b = b\<lparr>arr := blit (arr b) (iptr b) bs, iptr := iptr b + length bs\<rparr>"

text \<open>The bytes between the pointers, and \<^verbatim>\<open>optr += nwritten\<close> with the reset when all is written.\<close>

definition pending :: "nbuf \<Rightarrow> char list" where
  "pending b = take (iptr b - optr b) (drop (optr b) (arr b))"

definition drain :: "nat \<Rightarrow> nbuf \<Rightarrow> nbuf" where
  "drain n b = (let b1 = b\<lparr>optr := optr b + n\<rparr> in if optr b1 = iptr b1 then b1\<lparr>iptr := 0, optr := 0\<rparr> else b1)"

definition nbuf_wf :: "nbuf \<Rightarrow> bool" where
  "nbuf_wf b \<longleftrightarrow> length (arr b) = MAXLINE \<and> optr b \<le> iptr b \<and> iptr b \<le> MAXLINE"

section \<open>The client\<close>

text \<open>The variables of \<^verbatim>\<open>str_cli\<close>, and the streams: all that was read and written so far.\<close>

record nbcli =
  to :: nbuf
  fr :: nbuf
  stdineof :: bool
  got_in :: "char list"
  got_sock :: "char list"
  put_sock :: "char list"
  put_out :: "char list"
  shut :: bool

record nbround =
  r_in :: bool
  v_in :: "errno + char list"
  r_sock :: bool
  v_sock :: "errno + char list"
  w_out :: bool
  n_out :: "errno + nat"
  w_sock :: bool
  n_sock :: "errno + nat"
  e_shut :: "errno option"

definition shutdown_nb :: "nbround \<Rightarrow> (unit, nbcli) prog" where
  "shutdown_nb ev st = (case e_shut ev of Some e \<Rightarrow> Die (Err_sys ''shutdown error'' (Some e)) st | None \<Rightarrow> Ret () (st\<lparr>shut := True\<rparr>))"

text \<open>The result says whether \<^verbatim>\<open>sockfd\<close> has been added to \<^verbatim>\<open>wset\<close>.\<close>

definition stdin_ready :: "nbround \<Rightarrow> (bool, nbcli) prog" where
  "stdin_ready ev st =
     (case v_in ev of
        Inl e \<Rightarrow> if e \<noteq> EWOULDBLOCK then Die (Err_sys ''read error on stdin'' (Some e)) st else Ret False st
      | Inr data \<Rightarrow>
          let bs = take (room (to st)) data
          in if bs = []
             then (let st1 = st\<lparr>stdineof := True\<rparr>
                   in if optr (to st) = iptr (to st) then bindP (shutdown_nb ev) (\<lambda>_. returnP False) st1 else Ret False st1)
             else Ret True (st\<lparr>to := fill bs (to st), got_in := got_in st @ bs\<rparr>))"

text \<open>\<open>None\<close> is the normal return of \<^verbatim>\<open>str_cli\<close>; otherwise whether the standard output was added to \<^verbatim>\<open>wset\<close>.\<close>

definition sock_ready :: "nbround \<Rightarrow> (bool option, nbcli) prog" where
  "sock_ready ev st =
     (case v_sock ev of
        Inl e \<Rightarrow> if e \<noteq> EWOULDBLOCK then Die (Err_sys ''read error on socket'' (Some e)) st else Ret (Some False) st
      | Inr data \<Rightarrow>
          let bs = take (room (fr st)) data
          in if bs = []
             then (if stdineof st then Ret None st else Die (Err_quit ''str_cli: server terminated prematurely'') st)
             else Ret (Some True) (st\<lparr>fr := fill bs (fr st), got_sock := got_sock st @ bs\<rparr>))"

definition stdout_write :: "nbround \<Rightarrow> (unit, nbcli) prog" where
  "stdout_write ev st =
     (let n = iptr (fr st) - optr (fr st)
      in if n > 0
         then (case n_out ev of
                 Inl e \<Rightarrow> if e \<noteq> EWOULDBLOCK then Die (Err_sys ''write error to stdout'' (Some e)) st else Ret () st
               | Inr k \<Rightarrow> let nw = min k n
                         in Ret () (st\<lparr>put_out := put_out st @ take nw (pending (fr st)), fr := drain nw (fr st)\<rparr>))
         else Ret () st)"

definition sock_write :: "nbround \<Rightarrow> (unit, nbcli) prog" where
  "sock_write ev st =
     (let n = iptr (to st) - optr (to st)
      in if n > 0
         then (case n_sock ev of
                 Inl e \<Rightarrow> if e \<noteq> EWOULDBLOCK then Die (Err_sys ''write error to socket'' (Some e)) st else Ret () st
               | Inr k \<Rightarrow>
                   let nw = min k n;
                       st1 = st\<lparr>put_sock := put_sock st @ take nw (pending (to st)), to := drain nw (to st)\<rparr>
                   in if optr (to st) + nw = iptr (to st) \<and> stdineof st then shutdown_nb ev st1 else Ret () st1)
         else Ret () st)"

text \<open>
  One iteration: the sets given to \<^verbatim>\<open>Select\<close>, and the four blocks. \<open>True\<close> as a result ends the client.
\<close>

definition nb_round :: "nbround \<Rightarrow> (bool, nbcli) prog" where
  "nb_round ev st =
     (let in_r = (\<not> stdineof st \<and> iptr (to st) < MAXLINE \<and> r_in ev);
          sock_r = (iptr (fr st) < MAXLINE \<and> r_sock ev);
          sock_w = (optr (to st) \<noteq> iptr (to st) \<and> w_sock ev);
          out_w = (optr (fr st) \<noteq> iptr (fr st) \<and> w_out ev)
      in if \<not> (in_r \<or> sock_r \<or> sock_w \<or> out_w) then Blocked st
         else bindP (if in_r then stdin_ready ev else returnP False) (\<lambda>add_w.
              bindP (if sock_r then sock_ready ev else returnP (Some False)) (\<lambda>res.
                case res of
                  None \<Rightarrow> returnP True
                | Some add_o \<Rightarrow>
                    bindP (if out_w \<or> add_o then stdout_write ev else returnP ()) (\<lambda>_.
                    bindP (if sock_w \<or> add_w then sock_write ev else returnP ()) (\<lambda>_. returnP False)))) st)"

fun nb_str_cli :: "nbround list \<Rightarrow> (unit, nbcli) prog" where
  "nb_str_cli [] st = Blocked st"
| "nb_str_cli (ev # evs) st = bindP (nb_round ev) (\<lambda>done w. if done then Ret () w else nb_str_cli evs w) st"

definition nb_start :: "char list \<Rightarrow> char list \<Rightarrow> nbcli" where
  "nb_start a b = \<lparr>to = nbuf_init a, fr = nbuf_init b, stdineof = False, got_in = [], got_sock = [], put_sock = [], put_out = [], shut = False\<rparr>"

section \<open>The buffers are queues of bytes\<close>

lemma nbuf_wf_fill:
  assumes "nbuf_wf b" and "length bs \<le> room b"
  shows "nbuf_wf (fill bs b)"
proof -
  from assms have "iptr b + length bs \<le> length (arr b)" by (auto simp: nbuf_wf_def room_def)
  with assms show ?thesis by (simp add: nbuf_wf_def fill_def)
qed

lemma pending_fill:
  assumes "nbuf_wf b" and "length bs \<le> room b"
  shows "pending (fill bs b) = pending b @ bs"
proof -
  let ?i = "iptr b" and ?j = "optr b"
  have ij: "?j \<le> ?i" "?i + length bs \<le> length (arr b)" using assms by (auto simp: nbuf_wf_def room_def)
  then have "drop ?j (blit (arr b) ?i bs) = drop ?j (take ?i (arr b)) @ bs @ drop (?i + length bs) (arr b)"
    by (simp add: blit_def)
  moreover have "length (drop ?j (take ?i (arr b))) = ?i - ?j" using ij by simp
  ultimately show ?thesis using ij by (simp add: pending_def fill_def take_drop)
qed

lemma nbuf_wf_drain:
  assumes "nbuf_wf b" and "n \<le> length (pending b)"
  shows "nbuf_wf (drain n b)"
  using assms by (auto simp: nbuf_wf_def pending_def drain_def Let_def)

lemma length_pending: "nbuf_wf b \<Longrightarrow> length (pending b) = iptr b - optr b"
  by (auto simp: nbuf_wf_def pending_def)

lemma pending_drain:
  assumes "nbuf_wf b" and "n \<le> length (pending b)"
  shows "pending (drain n b) = drop n (pending b)"
  using assms by (auto simp: nbuf_wf_def pending_def drain_def Let_def drop_take add.commute)

interpretation nbq: fifo pending room nbuf_wf fill "\<lambda>bs. bs" drain "\<lambda>n. n"
  by unfold_locales (auto simp: nbuf_wf_fill pending_fill nbuf_wf_drain pending_drain)

section \<open>The invariant of the loop\<close>

lemma pending_empty: "nbuf_wf b \<Longrightarrow> pending b = [] \<longleftrightarrow> optr b = iptr b"
  by (auto simp: nbuf_wf_def pending_def)

text \<open>
  Both directions convey their streams; the FIN is sent only after the end of the standard input, with everything
  written, and at the end of each block it has been sent when both hold.
\<close>

definition nb_streams :: "nbcli \<Rightarrow> bool" where
  "nb_streams st \<longleftrightarrow> nbq.conveys (put_sock st) (to st) (got_in st) \<and> nbq.conveys (put_out st) (fr st) (got_sock st)
     \<and> (shut st \<longrightarrow> stdineof st \<and> pending (to st) = [])"

definition nb_inv :: "nbcli \<Rightarrow> bool" where
  "nb_inv st \<longleftrightarrow> nb_streams st \<and> (stdineof st \<longrightarrow> pending (to st) = [] \<longrightarrow> shut st)"

text \<open>A block keeps the invariant when it goes on, and the streams even when the process ends.\<close>

definition nb_keeps :: "('a, nbcli) outcome \<Rightarrow> bool" where
  "nb_keeps r \<longleftrightarrow> (case r of Ret _ st \<Rightarrow> nb_inv st | Die _ st \<Rightarrow> nb_streams st | Blocked st \<Rightarrow> nb_inv st)"

lemma nb_keeps_bind:
  assumes "nb_keeps (m st)" and "\<And>a st'. m st = Ret a st' \<Longrightarrow> nb_inv st' \<Longrightarrow> nb_keeps (k a st')"
  shows "nb_keeps (bindP m k st)"
  using assms by (cases "m st") (auto simp: nb_keeps_def bindP_def)

lemma nb_keeps_return [simp]: "nb_keeps (returnP a st) = nb_inv st" "nb_keeps (Ret a st) = nb_inv st"
  by (simp_all add: nb_keeps_def returnP_def)

lemma nb_keeps_die [simp]: "nb_keeps (Die f st) = nb_streams st"
  by (simp add: nb_keeps_def)

lemma nb_keeps_blocked [simp]: "nb_keeps (Blocked st) = nb_inv st"
  by (simp add: nb_keeps_def)

lemma nb_inv_streams: "nb_inv st \<Longrightarrow> nb_streams st"
  by (simp add: nb_inv_def)

lemma nb_inv_wf: "nb_inv st \<Longrightarrow> nbuf_wf (to st)" "nb_inv st \<Longrightarrow> nbuf_wf (fr st)"
  by (auto simp: nb_inv_def nb_streams_def dest: nbq.conveys_wfq)

lemma nb_keeps_shutdown:
  assumes "nb_streams st" and "stdineof st" and "pending (to st) = []"
  shows "nb_keeps (shutdown_nb ev st)"
  using assms by (auto simp: shutdown_nb_def nb_inv_def nb_streams_def split: option.splits)

lemma nb_keeps_stdin:
  assumes inv: "nb_inv st" and open_in: "\<not> stdineof st"
  shows "nb_keeps (stdin_ready ev st)"
proof (cases "v_in ev")
  case (Inl e)
  with inv show ?thesis by (simp add: stdin_ready_def nb_inv_streams)
next
  case (Inr data)
  define bs where "bs = take (room (to st)) data"
  let ?st1 = "st\<lparr>stdineof := True\<rparr>"
  have s1: "nb_streams ?st1" using inv by (simp add: nb_inv_def nb_streams_def)
  have e: "pending (to ?st1) = [] \<longleftrightarrow> optr (to st) = iptr (to st)" using pending_empty nb_inv_wf(1) [OF inv] by simp
  have k: "nb_keeps (bindP (shutdown_nb ev) (\<lambda>_. returnP False) ?st1)" if "pending (to ?st1) = []"
    by (rule nb_keeps_bind) (use that s1 in \<open>simp_all add: nb_keeps_shutdown\<close>)
  have f: "nb_inv (st\<lparr>to := fill bs (to st), got_in := got_in st @ bs\<rparr>)"
  proof -
    have "nbq.conveys (put_sock st) (fill bs (to st)) (got_in st @ bs)"
      using inv by (intro nbq.conveys_put) (auto simp: nb_inv_def nb_streams_def bs_def)
    moreover have "\<not> shut st" using inv open_in by (auto simp: nb_inv_def nb_streams_def)
    ultimately show ?thesis using inv open_in by (simp add: nb_inv_def nb_streams_def)
  qed
  have "nb_inv ?st1" if "pending (to st) \<noteq> []" using inv that by (simp add: nb_inv_def nb_streams_def)
  with k f e Inr show ?thesis by (simp add: stdin_ready_def Let_def bs_def [symmetric])
qed

lemma nb_keeps_sock:
  assumes inv: "nb_inv st"
  shows "nb_keeps (sock_ready ev st)"
proof (cases "v_sock ev")
  case (Inl e)
  with inv show ?thesis by (simp add: sock_ready_def nb_inv_streams)
next
  case (Inr data)
  define bs where "bs = take (room (fr st)) data"
  have "nbq.conveys (put_out st) (fill bs (fr st)) (got_sock st @ bs)"
    using inv by (intro nbq.conveys_put) (auto simp: nb_inv_def nb_streams_def bs_def)
  then have "nb_inv (st\<lparr>fr := fill bs (fr st), got_sock := got_sock st @ bs\<rparr>)" using inv by (simp add: nb_inv_def nb_streams_def)
  with Inr inv show ?thesis by (simp add: sock_ready_def Let_def bs_def [symmetric] nb_inv_streams)
qed

lemma nb_keeps_stdout:
  assumes inv: "nb_inv st"
  shows "nb_keeps (stdout_write ev st)"
proof (cases "n_out ev")
  case (Inl e)
  with inv show ?thesis by (simp add: stdout_write_def Let_def nb_inv_streams)
next
  case (Inr k)
  define nw where "nw = min k (iptr (fr st) - optr (fr st))"
  have "nbq.conveys (put_out st @ take nw (pending (fr st))) (drain nw (fr st)) (got_sock st)"
    using inv by (intro nbq.conveys_del) (auto simp: nb_inv_def nb_streams_def nw_def nb_inv_wf length_pending)
  then have "nb_inv (st\<lparr>put_out := put_out st @ take nw (pending (fr st)), fr := drain nw (fr st)\<rparr>)"
    using inv by (simp add: nb_inv_def nb_streams_def)
  with Inr inv show ?thesis by (simp add: stdout_write_def Let_def nw_def [symmetric])
qed

lemma nb_keeps_sockw:
  assumes inv: "nb_inv st"
  shows "nb_keeps (sock_write ev st)"
proof (cases "optr (to st) < iptr (to st)")
  case False
  with inv show ?thesis by (simp add: sock_write_def Let_def)
next
  case pos: True
  show ?thesis
  proof (cases "n_sock ev")
    case (Inl e)
    with inv show ?thesis by (simp add: sock_write_def Let_def nb_inv_streams)
  next
    case (Inr k)
    define nw where "nw = min k (iptr (to st) - optr (to st))"
    define st1 where "st1 = st\<lparr>put_sock := put_sock st @ take nw (pending (to st)), to := drain nw (to st)\<rparr>"
    note wf = nb_inv_wf(1) [OF inv]
    have le: "nw \<le> length (pending (to st))" by (simp add: nw_def length_pending [OF wf])
    have "nbq.conveys (put_sock st @ take nw (pending (to st))) (drain nw (to st)) (got_in st)"
      using inv le by (intro nbq.conveys_del) (auto simp: nb_inv_def nb_streams_def)
    moreover have "\<not> shut st" using inv pos pending_empty [OF wf] by (auto simp: nb_inv_def nb_streams_def)
    ultimately have s1: "nb_streams st1" using inv by (simp add: nb_inv_def nb_streams_def st1_def)
    have e: "pending (to st1) = [] \<longleftrightarrow> optr (to st) + nw = iptr (to st)"
      using le pos by (auto simp: st1_def pending_drain [OF wf] length_pending [OF wf])
    have i1: "nb_inv st1" if "\<not> (pending (to st1) = [] \<and> stdineof st)" using s1 that by (auto simp: nb_inv_def st1_def)
    have sh: "nb_keeps (shutdown_nb ev st1)" if "pending (to st1) = []" "stdineof st"
      by (rule nb_keeps_shutdown) (use s1 that in \<open>simp_all add: st1_def\<close>)
    show ?thesis using i1 sh e pos Inr
      by (simp add: sock_write_def Let_def nw_def [symmetric] st1_def [symmetric])
  qed
qed

lemma nb_keeps_round:
  assumes inv: "nb_inv st"
  shows "nb_keeps (nb_round ev st)"
  using inv
  by (auto simp: nb_round_def Let_def nb_keeps_stdin nb_keeps_sock nb_keeps_stdout nb_keeps_sockw intro!: nb_keeps_bind split: option.splits if_splits)

lemma nb_keeps_run: "nb_inv st \<Longrightarrow> nb_keeps (nb_str_cli evs st)"
proof (induction evs arbitrary: st)
  case Nil
  then show ?case by simp
next
  case (Cons ev evs)
  then show ?case by (auto intro!: nb_keeps_bind simp: nb_keeps_round)
qed

lemma nb_inv_start: "length a = MAXLINE \<Longrightarrow> length b = MAXLINE \<Longrightarrow> nb_inv (nb_start a b)"
  by (simp add: nb_inv_def nb_streams_def nb_start_def nbq.conveys_def nbuf_init_def nbuf_wf_def pending_def)



text \<open>
  When the server's end-of-file arrives, the client returns at once even though data from the server is still in its buffer: any
  reply that the standard output could not take at the time is lost.\<close>

theorem nb_return_loses_output:
  assumes "data \<noteq> []" and "length data < MAXLINE"
  shows "\<exists>evs st. nb_str_cli evs (nb_start a b) = Ret () st \<and> got_sock st = data \<and> put_out st = []"
proof -
  define e0 where "e0 = \<lparr>r_in = True, v_in = Inr [], r_sock = False, v_sock = Inr [], w_out = False, n_out = Inr 0,
    w_sock = False, n_sock = Inr 0, e_shut = None\<rparr>"
  let ?e1 = "e0\<lparr>r_in := False, r_sock := True, v_sock := Inr data, n_out := Inl EWOULDBLOCK\<rparr>"
  let ?e2 = "e0\<lparr>r_in := False, r_sock := True\<rparr>"
  obtain st where "nb_str_cli [e0, ?e1, ?e2] (nb_start a b) = Ret () st \<and> got_sock st = data \<and> put_out st = []"
    using assms
    by (simp add: e0_def nb_start_def nbuf_init_def nb_round_def stdin_ready_def sock_ready_def shutdown_nb_def stdout_write_def
        fill_def room_def bindP_def returnP_def Let_def)
  then show ?thesis by blast
qed

theorem nb_return_loses_output_witness:
  "\<exists>evs st. nb_str_cli evs (nb_start [] []) = Ret () st \<and> got_sock st = ''ok'' \<and> put_out st = []"
  using nb_return_loses_output [of "''ok''"] by (simp add: MAXLINE_def)

end
