(* ===== verification/Locking.thy ===== *)
theory Locking
  imports Prelude
begin

text \<open>
  The contract between a lock and the threads or processes that use it: whoever is between taking and releasing the lock
  is its owner. A system whose every step keeps this agreement never has two of them in the critical region. The threaded servers with
  their mutex and the preforked server with its record lock are instances.
\<close>

locale lock_protocol =
  fixes step :: "'s \<Rightarrow> 's \<Rightarrow> bool"
    and init :: "'s \<Rightarrow> bool"
    and owner :: "'s \<Rightarrow> 't option"
    and crit :: "'s \<Rightarrow> 't \<Rightarrow> bool"
  assumes init_agrees: "init s \<Longrightarrow> crit s t \<longleftrightarrow> owner s = Some t"
    and step_agrees: "step s s' \<Longrightarrow> \<forall>t. crit s t \<longleftrightarrow> owner s = Some t \<Longrightarrow> crit s' u \<longleftrightarrow> owner s' = Some u"
begin

lemma agrees: "step\<^sup>*\<^sup>* s s' \<Longrightarrow> init s \<Longrightarrow> \<forall>t. crit s' t \<longleftrightarrow> owner s' = Some t"
  by (induction rule: rtranclp_induct) (auto simp: init_agrees step_agrees)

lemma exclusion: "step\<^sup>*\<^sup>* s s' \<Longrightarrow> init s \<Longrightarrow> crit s' t \<Longrightarrow> crit s' u \<Longrightarrow> t = u"
  using agrees [of s s'] by auto

lemma locked_iff: "step\<^sup>*\<^sup>* s s' \<Longrightarrow> init s \<Longrightarrow> owner s' \<noteq> None \<longleftrightarrow> (\<exists>t. crit s' t)"
  using agrees [of s s'] by auto

end

text \<open>
  What the step of one thread is for the lock: it takes the free lock and enters the region, it leaves the region and gives the lock up, or
  neither the lock nor anyone's region changes. Such steps keep the agreement.
\<close>

definition moves_lock :: "('s \<Rightarrow> 't \<Rightarrow> bool) \<Rightarrow> ('s \<Rightarrow> 't option) \<Rightarrow> 's \<Rightarrow> 's \<Rightarrow> 't \<Rightarrow> bool" where
  "moves_lock crit owner s s' t \<longleftrightarrow>
     (\<forall>u. u \<noteq> t \<longrightarrow> crit s' u = crit s u) \<and>
     (owner s = None \<and> owner s' = Some t \<and> crit s' t
      \<or> crit s t \<and> owner s' = None \<and> \<not> crit s' t
      \<or> owner s' = owner s \<and> crit s' t = crit s t)"

lemma moves_lock_agrees:
  assumes "moves_lock crit owner s s' t" and "\<forall>t. crit s t \<longleftrightarrow> owner s = Some t"
  shows "crit s' u \<longleftrightarrow> owner s' = Some u"
  using assms unfolding moves_lock_def by (cases "u = t") auto

text \<open>Invariants of step relations.\<close>

lemma step_invariant:
  assumes "step\<^sup>*\<^sup>* s s'" and "I s" and "\<And>x y. step x y \<Longrightarrow> I x \<Longrightarrow> I y"
  shows "I s'"
  using assms by (induction rule: rtranclp_induct) auto

text \<open>A quantity summed over a table, when one entry of it changes.\<close>

lemma sum_update:
  fixes f :: "'a \<Rightarrow> 'b :: comm_monoid_add"
  assumes "i < length xs"
  shows "sum_list (map f (xs[i := y])) + f (xs ! i) = sum_list (map f xs) + f y"
  using assms
proof (induction xs arbitrary: i)
  case (Cons x xs)
  show ?case
  proof (cases i)
    case (Suc k)
    with Cons.IH [of k] Cons.prems show ?thesis by (simp add: add.assoc)
  qed (simp add: ac_simps)
qed simp

lemma map_same_update: "i < length xs \<Longrightarrow> f y = f (xs ! i) \<Longrightarrow> map f (xs[i := y]) = map f xs"
  by (metis list_update_id map_update)

lemma all_set_update: "(\<forall>c \<in> set xs. P c) \<Longrightarrow> P y \<Longrightarrow> \<forall>c \<in> set (xs[i := y]). P c"
  using set_update_subset_insert [of xs i y] by auto

end
