(* ===== verification/Thread_Pool.thy ===== *)
theory Thread_Pool
  imports Wrappers Fifo Locking "HOL-Library.Multiset"
begin

text \<open>
  The prethreaded server of \<^verbatim>\<open>server/serv08.c\<close> and \<^verbatim>\<open>server/pthread08.c\<close>: the main thread accepts all connections and stores
  them in a circular array from which the threads of the pool take them, under a mutex and a condition variable.
  The steps of the threads interleave freely; a step is an operation on the shared state.
\<close>

section \<open>The circular array\<close>

definition MAXNCLI :: nat where "MAXNCLI = 32"

record ring =
  clifd :: "int list"
  iget :: nat
  iput :: nat

definition ring_init :: ring where
  "ring_init = \<lparr>clifd = replicate MAXNCLI 0, iget = 0, iput = 0\<rparr>"

definition ring_next :: "nat \<Rightarrow> nat" where
  "ring_next i = (if i + 1 = MAXNCLI then 0 else i + 1)"

definition ring_store :: "int \<Rightarrow> ring \<Rightarrow> ring" where
  "ring_store c q = q\<lparr>clifd := (clifd q)[iput q := c], iput := ring_next (iput q)\<rparr>"

definition ring_put :: "int \<Rightarrow> ring \<Rightarrow> fatal + ring" where
  "ring_put c q = (let q1 = ring_store c q in if iput q1 = iget q1 then Inl (Err_quit ''iput = iget = %d'') else Inr q1)"

definition ring_head :: "ring \<Rightarrow> int" where
  "ring_head q = clifd q ! iget q"

definition ring_advance :: "ring \<Rightarrow> ring" where
  "ring_advance q = q\<lparr>iget := ring_next (iget q)\<rparr>"

definition ring_wf :: "ring \<Rightarrow> bool" where
  "ring_wf q \<longleftrightarrow> length (clifd q) = MAXNCLI \<and> iget q < MAXNCLI \<and> iput q < MAXNCLI"

text \<open>Number and list of the queued descriptors.\<close>

definition ring_len :: "ring \<Rightarrow> nat" where
  "ring_len q = (iput q + MAXNCLI - iget q) mod MAXNCLI"

definition ring_items :: "ring \<Rightarrow> int list" where
  "ring_items q = map (\<lambda>k. clifd q ! ((iget q + k) mod MAXNCLI)) [0..<ring_len q]"

definition ring_space :: "ring \<Rightarrow> nat" where
  "ring_space q = MAXNCLI - 1 - ring_len q"

lemma ring_next_mod: "i < MAXNCLI \<Longrightarrow> ring_next i = (i + 1) mod MAXNCLI"
  by (auto simp: ring_next_def)

lemma ring_next_less: "i < MAXNCLI \<Longrightarrow> ring_next i < MAXNCLI"
  by (auto simp: ring_next_def)

lemma ring_wf_ops: "ring_wf q \<Longrightarrow> ring_wf (ring_store c q)" "ring_wf q \<Longrightarrow> ring_wf (ring_advance q)"
  by (auto simp: ring_wf_def ring_store_def ring_advance_def ring_next_less)

lemma ring_len_cases:
  assumes "ring_wf q"
  shows "ring_len q = (if iget q \<le> iput q then iput q - iget q else iput q + MAXNCLI - iget q)"
proof (cases "iget q \<le> iput q")
  case True
  then have e: "iput q + MAXNCLI - iget q = (iput q - iget q) + MAXNCLI" by simp
  show ?thesis unfolding ring_len_def e mod_add_self2 using assms True by (auto simp: ring_wf_def)
next
  case False
  with assms show ?thesis by (auto simp: ring_len_def ring_wf_def)
qed

lemma ring_len_less: "ring_wf q \<Longrightarrow> ring_len q < MAXNCLI"
  by (auto simp: ring_wf_def ring_len_def MAXNCLI_def)

lemma ring_empty_iff: "ring_wf q \<Longrightarrow> ring_items q = [] \<longleftrightarrow> iget q = iput q"
  by (auto simp: ring_items_def ring_len_cases) (auto simp: ring_wf_def)

lemma ring_len_store:
  assumes "ring_wf q" and "ring_len q < MAXNCLI - 1"
  shows "ring_len (ring_store c q) = ring_len q + 1"
  using assms ring_wf_ops(1) [OF assms(1), of c]
  by (auto simp: ring_len_cases ring_store_def ring_next_def ring_wf_def split: if_splits)

lemma ring_len_advance:
  assumes "ring_wf q" and "ring_len q \<noteq> 0"
  shows "ring_len (ring_advance q) = ring_len q - 1"
  using assms ring_wf_ops(2) [OF assms(1)]
  by (auto simp: ring_len_cases ring_advance_def ring_next_def ring_wf_def split: if_splits)

lemma ring_slot_free:
  assumes "ring_wf q" and "k < ring_len q"
  shows "(iget q + k) mod MAXNCLI \<noteq> iput q"
proof (cases "iget q + k < MAXNCLI")
  case True
  with assms show ?thesis by (auto simp: ring_len_cases split: if_splits)
next
  case False
  then have "(iget q + k) mod MAXNCLI = iget q + k - MAXNCLI"
    using assms ring_len_less [OF assms(1)] by (auto simp: ring_wf_def mod_if)
  with False assms ring_len_less [OF assms(1)] show ?thesis by (auto simp: ring_len_cases ring_wf_def split: if_splits)
qed

lemma ring_slot_put: "ring_wf q \<Longrightarrow> (iget q + ring_len q) mod MAXNCLI = iput q"
  by (auto simp: ring_len_cases) (auto simp: ring_wf_def)

lemma ring_items_store:
  assumes "ring_wf q" and "ring_len q < MAXNCLI - 1"
  shows "ring_items (ring_store c q) = ring_items q @ [c]"
proof -
  have g: "iget (ring_store c q) = iget q" "clifd (ring_store c q) = (clifd q)[iput q := c]" by (simp_all add: ring_store_def)
  have "ring_items (ring_store c q) = map (\<lambda>k. (clifd q)[iput q := c] ! ((iget q + k) mod MAXNCLI)) ([0..<ring_len q] @ [ring_len q])"
    unfolding ring_items_def g ring_len_store [OF assms] by simp
  also have "\<dots> = ring_items q @ [c]"
    using assms(1) not_sym [OF ring_slot_free [OF assms(1)]] ring_slot_put [OF assms(1)]
    by (simp add: ring_items_def ring_wf_def)
  finally show ?thesis .
qed

lemma ring_items_advance:
  assumes "ring_wf q" and "ring_len q \<noteq> 0"
  shows "ring_items q = ring_head q # ring_items (ring_advance q)"
proof -
  obtain n where n: "ring_len q = Suc n" using assms(2) not0_implies_Suc by blast
  have g: "iget (ring_advance q) = (iget q + 1) mod MAXNCLI" "clifd (ring_advance q) = clifd q"
    using assms(1) by (simp_all add: ring_advance_def ring_next_mod ring_wf_def)
  have l: "ring_len (ring_advance q) = n" using ring_len_advance [OF assms] n by simp
  have "[0..<Suc n] = 0 # map Suc [0..<n]" unfolding map_Suc_upt by (rule upt_conv_Cons) simp
  then have "ring_items q = clifd q ! (iget q mod MAXNCLI) # map (\<lambda>k. clifd q ! ((iget q + Suc k) mod MAXNCLI)) [0..<n]"
    by (simp add: ring_items_def n)
  also have "\<dots> = ring_head q # ring_items (ring_advance q)"
    using assms(1) unfolding ring_items_def l g by (simp add: ring_head_def ring_wf_def mod_add_left_eq)
  finally show ?thesis .
qed

interpretation rq: fifo ring_items ring_space ring_wf ring_store "\<lambda>c. [c]" "\<lambda>_ :: unit. ring_advance" "\<lambda>_. 1"
proof
  fix q :: ring and x :: int and n :: unit
  assume wf: "ring_wf q"
  { assume "length [x] \<le> ring_space q"
    then show "ring_wf (ring_store x q)" "ring_items (ring_store x q) = ring_items q @ [x]"
      using wf by (auto simp: ring_wf_ops ring_items_store ring_space_def) }
  { assume "1 \<le> length (ring_items q)"
    then show "ring_wf (ring_advance q)" "ring_items (ring_advance q) = drop 1 (ring_items q)"
      using wf ring_items_advance [OF wf] by (auto simp: ring_wf_ops ring_items_def) }
qed

text \<open>The test \<^verbatim>\<open>iput == iget\<close> after the store is true exactly when the array was full.\<close>

lemma ring_put_cases:
  assumes "ring_wf q"
  shows "ring_put c q = (if ring_space q = 0 then Inl (Err_quit ''iput = iget = %d'') else Inr (ring_store c q))"
  using assms by (auto simp: ring_put_def ring_store_def ring_space_def ring_len_cases ring_next_def ring_wf_def Let_def MAXNCLI_def)

section \<open>The threads\<close>

text \<open>
  Where a thread is. The main thread: in \<^verbatim>\<open>Accept\<close>; with a new connection before the lock, before the store, before the signal and before
  the unlock. A thread of the pool: before the lock; at the test of the \<^verbatim>\<open>while\<close>; asleep in \<^verbatim>\<open>Pthread_cond_wait\<close>, and
  woken but without the mutex; before taking a connection; with one before the unlock, before the increment of
  its counter, in \<^verbatim>\<open>web_child\<close>, and before \<^verbatim>\<open>Close\<close>.
\<close>

datatype mpc = M_accept | M_lock int | M_store int | M_signal | M_unlock
datatype wpc = W_lock | W_test | W_wait | W_wake | W_take | W_unlock int | W_count int | W_serve int | W_close int
datatype tid = Main | Worker nat

record pool =
  ringq :: ring
  mutex :: "tid option"
  mpc :: mpc
  wpcs :: "wpc list"
  thread_count :: "nat list"
  died :: "fatal option"
  accepted :: "int list"
  taken :: "int list"
  finished :: "int list"

definition serv08_init :: "nat \<Rightarrow> pool" where
  "serv08_init nthreads =
     \<lparr>ringq = ring_init, mutex = None, mpc = M_accept, wpcs = replicate nthreads W_lock, thread_count = replicate nthreads 0,
      died = None, accepted = [], taken = [], finished = []\<rparr>"

text \<open>
  What the environment decides: the results of \<^verbatim>\<open>accept\<close>, which sleeping thread a signal wakes, how \<^verbatim>\<open>web_child\<close> and \<^verbatim>\<open>close\<close> end.
\<close>

record pchoice =
  p_accept :: "(errno + int) list"
  p_wake :: nat
  p_web :: "fatal option"
  p_close :: "errno option"

definition sleeping :: "pool \<Rightarrow> nat \<Rightarrow> bool" where
  "sleeping s i \<longleftrightarrow> i < length (wpcs s) \<and> wpcs s ! i = W_wait"

definition go :: "nat \<Rightarrow> wpc \<Rightarrow> pool \<Rightarrow> pool" where
  "go i pc s = s\<lparr>wpcs := (wpcs s)[i := pc]\<rparr>"

text \<open>The loop of \<^verbatim>\<open>main\<close>. \<open>None\<close>: the thread cannot move.\<close>

definition main_step :: "pchoice \<Rightarrow> pool \<Rightarrow> pool option" where
  "main_step ch s =
     (case mpc s of
        M_accept \<Rightarrow>
          (case Accept (p_accept ch) of
             Ret c _ \<Rightarrow> Some (s\<lparr>mpc := M_lock c, accepted := accepted s @ [c]\<rparr>)
           | Die f _ \<Rightarrow> Some (s\<lparr>died := Some f\<rparr>)
           | Blocked _ \<Rightarrow> None)
      | M_lock c \<Rightarrow> if mutex s = None then Some (s\<lparr>mutex := Some Main, mpc := M_store c\<rparr>) else None
      | M_store c \<Rightarrow>
          (case ring_put c (ringq s) of
             Inl f \<Rightarrow> Some (s\<lparr>died := Some f\<rparr>)
           | Inr q \<Rightarrow> Some (s\<lparr>ringq := q, mpc := M_signal\<rparr>))
      | M_signal \<Rightarrow>
          if sleeping s (p_wake ch) then Some (go (p_wake ch) W_wake s\<lparr>mpc := M_unlock\<rparr>)
          else if \<exists>i < length (wpcs s). sleeping s i then None
          else Some (s\<lparr>mpc := M_unlock\<rparr>)
      | M_unlock \<Rightarrow> Some (s\<lparr>mutex := None, mpc := M_accept\<rparr>))"

text \<open>The loop of \<^verbatim>\<open>thread_main\<close>, for thread \<open>i\<close>.\<close>

definition thread_main :: "pchoice \<Rightarrow> nat \<Rightarrow> pool \<Rightarrow> pool option" where
  "thread_main ch i s =
     (case wpcs s ! i of
        W_lock \<Rightarrow> if mutex s = None then Some (go i W_test s\<lparr>mutex := Some (Worker i)\<rparr>) else None
      | W_test \<Rightarrow> if iget (ringq s) = iput (ringq s) then Some (go i W_wait s\<lparr>mutex := None\<rparr>) else Some (go i W_take s)
      | W_wait \<Rightarrow> None
      | W_wake \<Rightarrow> if mutex s = None then Some (go i W_test s\<lparr>mutex := Some (Worker i)\<rparr>) else None
      | W_take \<Rightarrow> let c = ring_head (ringq s) in Some (go i (W_unlock c) s\<lparr>ringq := ring_advance (ringq s), taken := taken s @ [c]\<rparr>)
      | W_unlock c \<Rightarrow> Some (go i (W_count c) s\<lparr>mutex := None\<rparr>)
      | W_count c \<Rightarrow> Some (go i (W_serve c) s\<lparr>thread_count := (thread_count s)[i := thread_count s ! i + 1]\<rparr>)
      | W_serve c \<Rightarrow> (case p_web ch of Some f \<Rightarrow> Some (s\<lparr>died := Some f\<rparr>) | None \<Rightarrow> Some (go i (W_close c) s))
      | W_close c \<Rightarrow>
          (case p_close ch of
             Some e \<Rightarrow> Some (s\<lparr>died := Some (Err_sys ''close error'' (Some e))\<rparr>)
           | None \<Rightarrow> Some (go i W_lock s\<lparr>finished := finished s @ [c]\<rparr>)))"

text \<open>A running process: any thread moves, or a sleeping thread wakes without a signal.\<close>

inductive pool_step :: "pool \<Rightarrow> pool \<Rightarrow> bool" where
  Main_moves: "died s = None \<Longrightarrow> main_step ch s = Some s' \<Longrightarrow> pool_step s s'"
| Worker_moves: "died s = None \<Longrightarrow> i < length (wpcs s) \<Longrightarrow> thread_main ch i s = Some s' \<Longrightarrow> pool_step s s'"
| Spurious: "died s = None \<Longrightarrow> sleeping s i \<Longrightarrow> pool_step s (go i W_wake s)"

inductive_cases pool_stepE: "pool_step s s'"

section \<open>Mutual exclusion\<close>

definition main_crit :: "mpc \<Rightarrow> bool" where
  "main_crit m = (case m of M_accept \<Rightarrow> False | M_lock _ \<Rightarrow> False | _ \<Rightarrow> True)"

definition worker_crit :: "wpc \<Rightarrow> bool" where
  "worker_crit w = (case w of W_test \<Rightarrow> True | W_take \<Rightarrow> True | W_unlock _ \<Rightarrow> True | _ \<Rightarrow> False)"

definition pool_crit :: "pool \<Rightarrow> tid \<Rightarrow> bool" where
  "pool_crit s t = (case t of Main \<Rightarrow> main_crit (mpc s) | Worker i \<Rightarrow> i < length (wpcs s) \<and> worker_crit (wpcs s ! i))"

lemma go_simps [simp]:
  "ringq (go i pc s) = ringq s" "mutex (go i pc s) = mutex s" "mpc (go i pc s) = mpc s" "wpcs (go i pc s) = (wpcs s)[i := pc]"
  "thread_count (go i pc s) = thread_count s" "died (go i pc s) = died s" "accepted (go i pc s) = accepted s"
  "taken (go i pc s) = taken s" "finished (go i pc s) = finished s"
  by (simp_all add: go_def)

abbreviation lock_move :: "pool \<Rightarrow> pool \<Rightarrow> tid \<Rightarrow> bool" where
  "lock_move \<equiv> moves_lock pool_crit mutex"

lemma worker_crit_simps [simp]:
  "worker_crit W_test" "worker_crit W_take" "worker_crit (W_unlock c)"
  "\<not> worker_crit W_lock" "\<not> worker_crit W_wait" "\<not> worker_crit W_wake" "\<not> worker_crit (W_count c)" "\<not> worker_crit (W_serve c)" "\<not> worker_crit (W_close c)"
  by (simp_all add: worker_crit_def)

lemma main_crit_simps [simp]:
  "\<not> main_crit M_accept" "\<not> main_crit (M_lock c)" "main_crit (M_store c)" "main_crit M_signal" "main_crit M_unlock"
  by (simp_all add: main_crit_def)

lemma main_lock_move: "main_step ch s = Some s' \<Longrightarrow> lock_move s s' Main"
  by (auto simp: main_step_def moves_lock_def pool_crit_def sleeping_def nth_list_update split: mpc.splits outcome.splits if_splits sum.splits tid.splits)

lemma worker_lock_move: "i < length (wpcs s) \<Longrightarrow> thread_main ch i s = Some s' \<Longrightarrow> lock_move s s' (Worker i)"
  by (auto simp: thread_main_def moves_lock_def pool_crit_def Let_def nth_list_update split: wpc.splits if_splits option.splits tid.splits)

lemma spurious_lock_move: "sleeping s i \<Longrightarrow> lock_move s (go i W_wake s) (Worker i)"
  by (auto simp: sleeping_def moves_lock_def pool_crit_def nth_list_update split: tid.splits)

interpretation lk: lock_protocol pool_step "\<lambda>s. s = serv08_init n" mutex pool_crit for n
proof
  show "pool_crit s t \<longleftrightarrow> mutex s = Some t" if "s = serv08_init n" for s t
    using that by (auto simp: serv08_init_def pool_crit_def split: tid.splits)
  show "pool_crit s' u \<longleftrightarrow> mutex s' = Some u" if "pool_step s s'" and "\<forall>t. pool_crit s t \<longleftrightarrow> mutex s = Some t" for s s' u
    using that(1)
  proof (cases rule: pool_step.cases)
    case (Main_moves ch)
    show ?thesis by (rule moves_lock_agrees [OF main_lock_move [OF Main_moves(2)] that(2)])
  next
    case (Worker_moves i ch)
    show ?thesis by (rule moves_lock_agrees [OF worker_lock_move [OF Worker_moves(2,3)] that(2)])
  next
    case (Spurious i)
    show ?thesis unfolding Spurious(1) by (rule moves_lock_agrees [OF spurious_lock_move [OF Spurious(3)] that(2)])
  qed
qed

section \<open>Where a connection is\<close>

fun in_main :: "mpc \<Rightarrow> int list" where
  "in_main (M_lock c) = [c]"
| "in_main (M_store c) = [c]"
| "in_main _ = []"

fun in_hand :: "wpc \<Rightarrow> int multiset" where
  "in_hand (W_unlock c) = {# c #}"
| "in_hand (W_count c) = {# c #}"
| "in_hand (W_serve c) = {# c #}"
| "in_hand (W_close c) = {# c #}"
| "in_hand _ = {#}"

fun uncounted :: "wpc \<Rightarrow> nat" where
  "uncounted (W_unlock c) = 1"
| "uncounted (W_count c) = 1"
| "uncounted _ = 0"

definition awake :: "wpc \<Rightarrow> nat" where
  "awake w = (if w = W_wait then 0 else 1)"

definition pool_agree :: "pool \<Rightarrow> bool" where
  "pool_agree s \<longleftrightarrow> (\<forall>t. pool_crit s t \<longleftrightarrow> mutex s = Some t)"

definition pool_fifo :: "pool \<Rightarrow> bool" where
  "pool_fifo s \<longleftrightarrow> rq.conveys (taken s) (ringq s) (taken s @ ring_items (ringq s)) \<and> accepted s = (taken s @ ring_items (ringq s)) @ in_main (mpc s)"

definition pool_hands :: "pool \<Rightarrow> bool" where
  "pool_hands s \<longleftrightarrow> mset (taken s) = mset (finished s) + sum_list (map in_hand (wpcs s))"

definition pool_takes :: "pool \<Rightarrow> bool" where
  "pool_takes s \<longleftrightarrow> (\<forall>i < length (wpcs s). wpcs s ! i = W_take \<longrightarrow> ring_items (ringq s) \<noteq> [])"

definition pool_counts :: "pool \<Rightarrow> bool" where
  "pool_counts s \<longleftrightarrow> length (thread_count s) = length (wpcs s) \<and>
     sum_list (thread_count s) + sum_list (map uncounted (wpcs s)) = length (taken s)"

definition pool_awake :: "pool \<Rightarrow> bool" where
  "pool_awake s \<longleftrightarrow> min (length (ring_items (ringq s))) (length (wpcs s))
     \<le> sum_list (map awake (wpcs s)) + (if mpc s = M_signal then 1 else 0)"

definition pool_inv :: "pool \<Rightarrow> bool" where
  "pool_inv s \<longleftrightarrow> pool_agree s \<and> pool_fifo s \<and> pool_hands s \<and> pool_takes s \<and> pool_counts s \<and> pool_awake s"

lemma pool_fifo_iff: "pool_fifo s \<longleftrightarrow> ring_wf (ringq s) \<and> accepted s = taken s @ ring_items (ringq s) @ in_main (mpc s)"
  by (simp add: pool_fifo_def rq.conveys_def)

lemma put_spaceD:
  assumes "ring_wf q" and "ring_put c q = Inr q'"
  shows "q' = ring_store c q" and "ring_wf q'" and "ring_items q' = ring_items q @ [c]"
proof -
  have sp: "ring_space q \<noteq> 0" and q': "q' = ring_store c q" using assms by (auto simp: ring_put_cases split: if_splits)
  then have "length [c] \<le> ring_space q" by simp
  with assms(1) q' show "q' = ring_store c q" "ring_wf q'" "ring_items q' = ring_items q @ [c]"
    using rq.wfq_put rq.items_put by auto
qed

lemma take_headD:
  assumes "ring_wf q" and "ring_items q \<noteq> []"
  shows "ring_wf (ring_advance q)" and "ring_items q = ring_head q # ring_items (ring_advance q)"
  using assms by (auto simp: ring_wf_ops ring_items_def intro!: ring_items_advance [unfolded ring_items_def])

lemma crit_unique: "pool_agree s \<Longrightarrow> pool_crit s t \<Longrightarrow> pool_crit s u \<Longrightarrow> t = u"
  by (auto simp: pool_agree_def)

lemma crit_main: "main_crit (mpc s) \<Longrightarrow> pool_crit s Main"
  and crit_worker: "i < length (wpcs s) \<Longrightarrow> worker_crit (wpcs s ! i) \<Longrightarrow> pool_crit s (Worker i)"
  by (simp_all add: pool_crit_def)

subsection \<open>Steps of the main thread\<close>

lemma main_fifo: "main_step ch s = Some s' \<Longrightarrow> pool_fifo s \<Longrightarrow> pool_fifo s'"
  by (auto simp: main_step_def pool_fifo_iff put_spaceD split: mpc.splits outcome.splits if_splits sum.splits)

lemma main_takes:
  assumes "main_step ch s = Some s'" and "pool_fifo s" and "pool_takes s"
  shows "pool_takes s'"
  using assms
  by (auto simp: main_step_def pool_fifo_iff pool_takes_def put_spaceD sleeping_def nth_list_update split: mpc.splits outcome.splits if_splits sum.splits)

text \<open>Summed quantities, when a sleeping thread wakes.\<close>

lemma wake_sums:
  assumes "sleeping s i"
  shows "sum_list (map in_hand ((wpcs s)[i := W_wake])) = sum_list (map in_hand (wpcs s))"
    and "sum_list (map uncounted ((wpcs s)[i := W_wake])) = sum_list (map uncounted (wpcs s))"
    and "sum_list (map awake ((wpcs s)[i := W_wake])) = sum_list (map awake (wpcs s)) + 1"
  using assms sum_update [of i "wpcs s" in_hand W_wake] sum_update [of i "wpcs s" uncounted W_wake] sum_update [of i "wpcs s" awake W_wake]
  by (auto simp: sleeping_def awake_def)

lemma all_awake: "(\<forall>i < length ws. ws ! i \<noteq> W_wait) \<Longrightarrow> sum_list (map awake ws) = length ws"
proof -
  assume "\<forall>i < length ws. ws ! i \<noteq> W_wait"
  then have "W_wait \<notin> set ws" by (auto simp: in_set_conv_nth)
  then show ?thesis by (induction ws) (auto simp: awake_def)
qed

lemma main_hands: "main_step ch s = Some s' \<Longrightarrow> pool_hands s \<Longrightarrow> pool_hands s'"
  by (auto simp: main_step_def pool_hands_def wake_sums split: mpc.splits outcome.splits if_splits sum.splits)

lemma main_counts: "main_step ch s = Some s' \<Longrightarrow> pool_counts s \<Longrightarrow> pool_counts s'"
  by (auto simp: main_step_def pool_counts_def wake_sums split: mpc.splits outcome.splits if_splits sum.splits)

lemma main_awake:
  assumes "main_step ch s = Some s'" and "pool_fifo s" and "pool_awake s"
  shows "pool_awake s'"
proof (cases "mpc s")
  case M_signal
  show ?thesis
  proof (cases "sleeping s (p_wake ch)")
    case True
    with M_signal assms show ?thesis by (auto simp: main_step_def pool_awake_def wake_sums)
  next
    case False
    with M_signal assms(1) have "\<forall>i < length (wpcs s). wpcs s ! i \<noteq> W_wait" and "s' = s\<lparr>mpc := M_unlock\<rparr>"
      by (auto simp: main_step_def sleeping_def split: if_splits)
    then show ?thesis by (simp add: pool_awake_def all_awake)
  qed
qed (use assms in \<open>auto simp: main_step_def pool_awake_def pool_fifo_iff put_spaceD split: outcome.splits if_splits sum.splits\<close>)

subsection \<open>Steps of the pool\<close>

lemma worker_sums:
  assumes "i < length (wpcs s)"
  shows "sum_list (map in_hand ((wpcs s)[i := w])) + in_hand (wpcs s ! i) = sum_list (map in_hand (wpcs s)) + in_hand w"
    and "sum_list (map uncounted ((wpcs s)[i := w])) + uncounted (wpcs s ! i) = sum_list (map uncounted (wpcs s)) + uncounted w"
    and "sum_list (map awake ((wpcs s)[i := w])) + awake (wpcs s ! i) = sum_list (map awake (wpcs s)) + awake w"
  using assms by (simp_all add: sum_update)

lemma worker_fifo:
  assumes "i < length (wpcs s)" and "thread_main ch i s = Some s'" and "pool_fifo s" and "pool_takes s"
  shows "pool_fifo s'"
proof (cases "wpcs s ! i")
  case W_take
  with assms have "ring_wf (ringq s)" and "ring_items (ringq s) \<noteq> []" by (auto simp: pool_fifo_iff pool_takes_def)
  from take_headD [OF this] W_take assms show ?thesis by (auto simp: thread_main_def Let_def pool_fifo_iff)
qed (use assms in \<open>auto simp: thread_main_def pool_fifo_iff split: if_splits option.splits\<close>)

lemma worker_takes:
  assumes "i < length (wpcs s)" and "thread_main ch i s = Some s'" and "pool_fifo s" and "pool_takes s" and "pool_agree s"
  shows "pool_takes s'"
proof (cases "wpcs s ! i")
  case W_take
  have "wpcs s ! j \<noteq> W_take" if "j < length (wpcs s)" "j \<noteq> i" for j
    using crit_unique [OF assms(5) crit_worker [OF assms(1)] crit_worker [OF that(1)]] that(2) W_take by auto
  with W_take assms(1,2) show ?thesis by (auto simp: thread_main_def Let_def pool_takes_def nth_list_update split: if_splits)
next
  case W_test
  with assms show ?thesis
    by (auto simp: thread_main_def pool_takes_def pool_fifo_iff ring_empty_iff nth_list_update split: if_splits)
qed (use assms in \<open>auto simp: thread_main_def pool_takes_def nth_list_update split: if_splits option.splits\<close>)

lemma worker_hands:
  assumes "i < length (wpcs s)" and "thread_main ch i s = Some s'" and "pool_hands s"
  shows "pool_hands s'"
  using assms worker_sums(1) [OF assms(1)]
  by (cases "wpcs s ! i") (auto simp: thread_main_def Let_def pool_hands_def map_same_update split: if_splits option.splits)

lemma worker_counts:
  assumes i: "i < length (wpcs s)" and st: "thread_main ch i s = Some s'" and c: "pool_counts s"
  shows "pool_counts s'"
proof (cases "wpcs s ! i")
  case (W_count d)
  have "sum_list ((thread_count s)[i := thread_count s ! i + 1]) = sum_list (thread_count s) + 1"
    using sum_update [of i "thread_count s" "\<lambda>x. x" "thread_count s ! i + 1"] i c by (simp add: pool_counts_def)
  with W_count st c worker_sums(2) [OF i, of "W_serve d"] show ?thesis by (auto simp: thread_main_def pool_counts_def)
next
  case W_take
  with st c worker_sums(2) [OF i, of "W_unlock (ring_head (ringq s))"] show ?thesis
    by (auto simp: thread_main_def pool_counts_def Let_def)
qed (use st c i in \<open>auto simp: thread_main_def pool_counts_def map_same_update split: if_splits option.splits\<close>)

lemma worker_awake:
  assumes i: "i < length (wpcs s)" and st: "thread_main ch i s = Some s'" and f: "pool_fifo s" and t: "pool_takes s" and a: "pool_awake s"
  shows "pool_awake s'"
proof (cases "wpcs s ! i")
  case W_test
  have "ring_items (ringq s) = []" if "iget (ringq s) = iput (ringq s)" using that f ring_empty_iff by (simp add: pool_fifo_iff)
  with W_test st a worker_sums(3) [OF i, of W_take] show ?thesis
    by (auto simp: thread_main_def pool_awake_def awake_def split: if_splits)
next
  case W_take
  with i f t have "ring_wf (ringq s)" and "ring_items (ringq s) \<noteq> []" by (auto simp: pool_fifo_iff pool_takes_def)
  from take_headD(2) [OF this] have "length (ring_items (ring_advance (ringq s))) \<le> length (ring_items (ringq s))" by simp
  with W_take st a worker_sums(3) [OF i, of "W_unlock (ring_head (ringq s))"] show ?thesis
    by (auto simp: thread_main_def pool_awake_def Let_def awake_def split: if_splits)
qed (use st a i in \<open>auto simp: thread_main_def pool_awake_def awake_def map_same_update split: if_splits option.splits\<close>)

lemma pool_agree_step: "pool_step s s' \<Longrightarrow> pool_agree s \<Longrightarrow> pool_agree s'"
  using lk.step_agrees [of s s'] by (simp add: pool_agree_def)

lemma pool_inv_step:
  assumes "pool_step s s'" and "pool_inv s"
  shows "pool_inv s'"
  using assms(1)
proof (cases rule: pool_step.cases)
  case (Main_moves ch)
  with assms pool_agree_step [OF assms(1)] show ?thesis
    by (simp add: pool_inv_def main_fifo main_takes main_hands main_counts main_awake)
next
  case (Worker_moves i ch)
  with assms pool_agree_step [OF assms(1)] worker_fifo worker_takes worker_hands worker_counts worker_awake
  show ?thesis by (simp add: pool_inv_def)
next
  case (Spurious i)
  then have s': "s' = go i W_wake s" and i: "sleeping s i" by simp_all
  have "pool_takes s'" using assms(2) i unfolding s' by (auto simp: pool_inv_def pool_takes_def sleeping_def nth_list_update)
  with assms(2) pool_agree_step [OF assms(1)] show ?thesis unfolding s'
    by (simp add: pool_inv_def pool_fifo_iff pool_hands_def pool_counts_def pool_awake_def wake_sums [OF i])
qed

lemma pool_inv_init: "pool_inv (serv08_init n)"
proof -
  have "ring_items ring_init = []" "ring_wf ring_init" by (simp_all add: ring_items_def ring_len_def ring_init_def ring_wf_def MAXNCLI_def)
  moreover have "sum_list (replicate n ({#} :: int multiset)) = {#}" by (induction n) simp_all
  ultimately show ?thesis
    using lk.init_agrees [of "serv08_init n" n]
    by (auto simp: pool_inv_def pool_agree_def pool_fifo_iff pool_hands_def pool_takes_def pool_counts_def pool_awake_def serv08_init_def
        sum_list_replicate)
qed

lemma pool_inv_reach: "pool_step\<^sup>*\<^sup>* (serv08_init n) s \<Longrightarrow> pool_inv s"
  by (rule step_invariant [of pool_step "serv08_init n" s pool_inv]) (auto simp: pool_inv_init intro: pool_inv_step)

lemma pool_length_step: "pool_step s s' \<Longrightarrow> length (wpcs s') = length (wpcs s)"
  by (auto simp: main_step_def thread_main_def Let_def elim!: pool_stepE split: mpc.splits wpc.splits outcome.splits if_splits sum.splits option.splits)

lemma pool_length_reach: "pool_step\<^sup>*\<^sup>* (serv08_init n) s \<Longrightarrow> length (wpcs s) = n"
  by (rule step_invariant [of pool_step "serv08_init n" s "\<lambda>s. length (wpcs s) = n"]) (auto simp: serv08_init_def pool_length_step)

section \<open>The properties of the server\<close>

text \<open>
  C3. In every reachable state of the threaded server at most one thread is between taking and releasing the mutex, no connection is
  lost, duplicated or overtaken: the accepted connections are, in order, those taken by the pool, those in the array, and the one that
  the main thread is about to store; those taken are finished or in the hands of one thread; the array never holds more than
  31 connections; and the counters of the threads add up to the connections taken, less those whose thread has not yet come to
  its increment.\<close>

theorem serv08_conserves:
  assumes "pool_step\<^sup>*\<^sup>* (serv08_init n) s"
  shows "(\<forall>t u. pool_crit s t \<and> pool_crit s u \<longrightarrow> t = u)
    \<and> accepted s = taken s @ ring_items (ringq s) @ in_main (mpc s)
    \<and> mset (taken s) = mset (finished s) + sum_list (map in_hand (wpcs s))
    \<and> length (ring_items (ringq s)) \<le> 31
    \<and> sum_list (thread_count s) + sum_list (map uncounted (wpcs s)) = length (taken s)"
proof -
  have inv: "pool_inv s" by (rule pool_inv_reach [OF assms])
  have "ring_len (ringq s) < MAXNCLI" using inv ring_len_less by (auto simp: pool_inv_def pool_fifo_iff)
  then have "length (ring_items (ringq s)) \<le> 31" by (simp add: ring_items_def MAXNCLI_def)
  with inv show ?thesis using lk.exclusion [OF assms refl]
    by (auto simp: pool_inv_def pool_fifo_iff pool_hands_def pool_counts_def)
qed

text \<open>
  A run of three steps: a connection is accepted, the main thread takes the mutex and stores it.
\<close>

definition sample_choice :: pchoice where
  "sample_choice = \<lparr>p_accept = [Inr 5], p_wake = 0, p_web = None, p_close = None\<rparr>"

definition sample_pool :: pool where
  "sample_pool = (serv08_init 2)\<lparr>ringq := ring_store 5 ring_init, mutex := Some Main, mpc := M_signal, accepted := [5]\<rparr>"

lemma sample_reach: "pool_step\<^sup>*\<^sup>* (serv08_init 2) sample_pool"
proof -
  let ?s0 = "serv08_init 2"
  let ?s1 = "?s0\<lparr>mpc := M_lock 5, accepted := [5]\<rparr>"
  let ?s2 = "?s1\<lparr>mutex := Some Main, mpc := M_store 5\<rparr>"
  have 1: "pool_step ?s0 ?s1"
    by (rule Main_moves [of _ sample_choice]) (simp_all add: main_step_def serv08_init_def sample_choice_def)
  have 2: "pool_step ?s1 ?s2"
    by (rule Main_moves [of _ sample_choice]) (simp_all add: main_step_def serv08_init_def)
  have 3: "pool_step ?s2 sample_pool"
    by (rule Main_moves [of _ sample_choice])
      (simp_all add: main_step_def serv08_init_def sample_pool_def ring_put_def ring_store_def ring_init_def ring_next_def MAXNCLI_def)
  show ?thesis
    using 1 2 3 by (meson converse_rtranclp_into_rtranclp rtranclp.rtrancl_refl)
qed

theorem serv08_conserves_witness:
  "accepted sample_pool = [5] \<and> accepted sample_pool = taken sample_pool @ ring_items (ringq sample_pool) @ in_main (mpc sample_pool)"
  using serv08_conserves [OF sample_reach] by (simp add: sample_pool_def)

text \<open>
  C8. No wakeup is lost: as long as connections are queued, as many threads of the pool are awake as there are connections (or all of them), the one
  that the main thread is about to signal included; and the process can always move towards serving them, since the owner of the mutex, the main
  thread about to signal or an awake thread can take a step.\<close>

theorem serv08_no_lost_wakeup:
  assumes "pool_step\<^sup>*\<^sup>* (serv08_init n) s" and "0 < n" and "died s = None" and "ring_items (ringq s) \<noteq> []"
  shows "min (length (ring_items (ringq s))) n \<le> card {i. i < n \<and> wpcs s ! i \<noteq> W_wait} + (if mpc s = M_signal then 1 else 0)
    \<and> (\<exists>ch s'. main_crit (mpc s) \<and> main_step ch s = Some s' \<or> (\<exists>i < n. wpcs s ! i \<noteq> W_wait \<and> thread_main ch i s = Some s'))"
proof
  have len: "length (wpcs s) = n" by (rule pool_length_reach [OF assms(1)])
  have inv: "pool_inv s" by (rule pool_inv_reach [OF assms(1)])
  have "sum_list (map awake (wpcs s)) = card {i. i < length (wpcs s) \<and> wpcs s ! i \<noteq> W_wait}"
    by (simp add: awake_def sum_list_sum_nth sum.If_cases atLeast0LessThan Int_def lessThan_def)
  then show aw: "min (length (ring_items (ringq s))) n \<le> card {i. i < n \<and> wpcs s ! i \<noteq> W_wait} + (if mpc s = M_signal then 1 else 0)"
    using inv len by (simp add: pool_inv_def pool_awake_def)
  show "\<exists>ch s'. main_crit (mpc s) \<and> main_step ch s = Some s' \<or> (\<exists>i < n. wpcs s ! i \<noteq> W_wait \<and> thread_main ch i s = Some s')"
  proof (cases "mutex s")
    case None
    have "\<not> pool_crit s Main" using inv None by (auto simp: pool_inv_def pool_agree_def)
    then have "mpc s \<noteq> M_signal" by (auto simp: pool_crit_def)
    with aw have "min (length (ring_items (ringq s))) n \<le> card {i. i < n \<and> wpcs s ! i \<noteq> W_wait}" by simp
    moreover have "0 < min (length (ring_items (ringq s))) n" using assms(2,4) by simp
    ultimately have "card {i. i < n \<and> wpcs s ! i \<noteq> W_wait} \<noteq> 0" by linarith
    then obtain i where "i < n" "wpcs s ! i \<noteq> W_wait" by (auto simp: card_eq_0_iff)
    moreover have "\<exists>s'. thread_main \<lparr>p_accept = [], p_wake = 0, p_web = None, p_close = None\<rparr> i s = Some s'"
      using None calculation by (cases "wpcs s ! i") (auto simp: thread_main_def Let_def)
    ultimately show ?thesis by blast
  next
    case (Some t)
    then have t: "pool_crit s t" using inv by (auto simp: pool_inv_def pool_agree_def)
    show ?thesis
    proof (cases t)
      case Main
      define w where "w = (if \<exists>i < n. sleeping s i then SOME i. i < n \<and> sleeping s i else 0)"
      have "sleeping s w" if "sleeping s i" "i < n" for i using that someI [of "\<lambda>i. i < n \<and> sleeping s i" i] by (auto simp: w_def)
      then have "\<exists>s'. main_step \<lparr>p_accept = [], p_wake = w, p_web = None, p_close = None\<rparr> s = Some s'"
        using t Main len by (cases "mpc s") (auto simp: main_step_def pool_crit_def split: sum.splits)
      with t Main show ?thesis by (auto simp: pool_crit_def)
    next
      case (Worker i)
      then have "i < n" "worker_crit (wpcs s ! i)" using t len by (auto simp: pool_crit_def)
      moreover have "\<exists>s'. thread_main \<lparr>p_accept = [], p_wake = 0, p_web = None, p_close = None\<rparr> i s = Some s'"
        using calculation(2) by (cases "wpcs s ! i") (auto simp: thread_main_def Let_def)
      ultimately show ?thesis by (metis worker_crit_simps(5))
    qed
  qed
qed

theorem serv08_no_lost_wakeup_witness:
  "died sample_pool = None \<and> ring_items (ringq sample_pool) \<noteq> [] \<and>
   (\<exists>ch s'. main_crit (mpc sample_pool) \<and> main_step ch sample_pool = Some s'
      \<or> (\<exists>i < 2. wpcs sample_pool ! i \<noteq> W_wait \<and> thread_main ch i sample_pool = Some s'))"
proof -
  have "died sample_pool = None" "ring_items (ringq sample_pool) \<noteq> []"
    by (simp_all add: sample_pool_def serv08_init_def ring_items_def ring_len_def ring_store_def ring_init_def ring_next_def MAXNCLI_def)
  with serv08_no_lost_wakeup [OF sample_reach] show ?thesis by simp
qed

end
