(* ===== verification/Prefork.thy ===== *)
theory Prefork
  imports Requests Locking "HOL-Library.Multiset"
begin

text \<open>
  The preforked servers of \<^verbatim>\<open>4_client_server_model.c\<close>: children that all call \<^verbatim>\<open>accept\<close> on the listening socket, with and without the record
  lock of \<^verbatim>\<open>my_lock_wait\<close> and \<^verbatim>\<open>my_lock_release\<close> around the call. The children are processes: one that ends releases the record
  lock it holds, and leaves the others running. Their steps interleave freely.
\<close>

section \<open>Children\<close>

text \<open>
  Where a child is: before the lock, in \<^verbatim>\<open>Accept\<close>, with a connection before the release, in \<^verbatim>\<open>web_child\<close>, before \<^verbatim>\<open>Close\<close>, or ended.
\<close>

datatype kpc = K_lock | K_accept | K_unlock int | K_serve int | K_close int | K_dead fatal

record prefork =
  lock_fd :: int
  holder :: "nat option"
  kids :: "kpc list"
  accepted :: "int list"
  finished :: "int list"
  dropped :: "int list"

text \<open>
  What the environment decides in a step: the results of \<^verbatim>\<open>fcntl\<close>, \<^verbatim>\<open>accept\<close> and \<^verbatim>\<open>close\<close>, the array and the connection that \<^verbatim>\<open>web_child\<close> works with.
\<close>

record kchoice =
  k_fcntl :: "errno option"
  k_accept :: "(errno + int) list"
  k_result :: "char list"
  k_conn :: rlstate
  k_close :: "errno option"

definition move :: "nat \<Rightarrow> kpc \<Rightarrow> prefork \<Rightarrow> prefork" where
  "move i pc s = s\<lparr>kids := (kids s)[i := pc]\<rparr>"

fun carried :: "kpc \<Rightarrow> int list" where
  "carried (K_unlock c) = [c]"
| "carried (K_serve c) = [c]"
| "carried (K_close c) = [c]"
| "carried _ = []"

text \<open>A fatal error ends the child; the kernel closes its connection and releases its record lock.\<close>

definition kill :: "nat \<Rightarrow> fatal \<Rightarrow> prefork \<Rightarrow> prefork" where
  "kill i f s = move i (K_dead f) s\<lparr>holder := (if holder s = Some i then None else holder s), dropped := dropped s @ carried (kids s ! i)\<rparr>"

section \<open>The record lock\<close>

text \<open>
  \<^verbatim>\<open>my_lock_init\<close> opens the lock file that all children inherit and unlinks it; the results of \<^verbatim>\<open>mkstemp\<close> (with the name it made) and \<^verbatim>\<open>unlink\<close> are arguments.
\<close>

definition my_lock_init :: "errno + int \<times> string \<Rightarrow> errno option \<Rightarrow> (unit, prefork) prog" where
  "my_lock_init mk ul s =
     (case mk of
        Inl e \<Rightarrow> Die (Err_quit ''mkstemp error'') s
      | Inr (fd, lock_file) \<Rightarrow>
          (case ul of
             Some e \<Rightarrow> Die (Err_sys (''unlink error for '' @ lock_file) (Some e)) (s\<lparr>lock_fd := fd\<rparr>)
           | None \<Rightarrow> Ret () (s\<lparr>lock_fd := fd\<rparr>)))"

text \<open>
  One turn of the loop of \<^verbatim>\<open>my_lock_wait\<close>: an interrupted call is repeated, another error is fatal, and the call blocks as long as another process
  holds the lock (\<open>None\<close>). Without \<^verbatim>\<open>my_lock_init\<close> the descriptor is bad.
\<close>

definition fcntl_result :: "kchoice \<Rightarrow> prefork \<Rightarrow> errno option" where
  "fcntl_result ch s = (if lock_fd s < 0 then Some EBADF else k_fcntl ch)"

definition my_lock_wait :: "kchoice \<Rightarrow> nat \<Rightarrow> prefork \<Rightarrow> prefork option" where
  "my_lock_wait ch i s =
     (case fcntl_result ch s of
        Some e \<Rightarrow> if e = EINTR then Some s else Some (kill i (Err_sys ''fcntl error for my_lock_wait'' (Some e)) s)
      | None \<Rightarrow> if holder s = None \<or> holder s = Some i then Some (move i K_accept s\<lparr>holder := Some i\<rparr>) else None)"

definition my_lock_release :: "kchoice \<Rightarrow> nat \<Rightarrow> int \<Rightarrow> prefork \<Rightarrow> prefork" where
  "my_lock_release ch i c s =
     (case fcntl_result ch s of
        Some e \<Rightarrow> kill i (Err_sys ''fcntl error for my_lock_release'' (Some e)) s
      | None \<Rightarrow> move i (K_serve c) s\<lparr>holder := (if holder s = Some i then None else holder s)\<rparr>)"

section \<open>The loops of the children\<close>

text \<open>\<^verbatim>\<open>Accept\<close>, \<^verbatim>\<open>web_child\<close> and \<^verbatim>\<open>Close\<close>; the argument \<open>next\<close> is where the child goes with the result.\<close>

definition kid_accept :: "kchoice \<Rightarrow> nat \<Rightarrow> (int \<Rightarrow> kpc) \<Rightarrow> prefork \<Rightarrow> prefork option" where
  "kid_accept ch i nxt s =
     (case Accept (k_accept ch) of
        Ret c _ \<Rightarrow> Some (move i (nxt c) s\<lparr>accepted := accepted s @ [c]\<rparr>)
      | Die f _ \<Rightarrow> Some (kill i f s)
      | Blocked _ \<Rightarrow> None)"

definition kid_serve :: "kchoice \<Rightarrow> nat \<Rightarrow> int \<Rightarrow> prefork \<Rightarrow> prefork option" where
  "kid_serve ch i c s =
     (case web_child (k_result ch) (k_conn ch) of
        Ret _ _ \<Rightarrow> Some (move i (K_close c) s)
      | Die f _ \<Rightarrow> Some (kill i f s)
      | Blocked _ \<Rightarrow> None)"

definition kid_close :: "kchoice \<Rightarrow> nat \<Rightarrow> int \<Rightarrow> kpc \<Rightarrow> prefork \<Rightarrow> prefork option" where
  "kid_close ch i c nxt s =
     (case k_close ch of
        Some e \<Rightarrow> Some (kill i (Err_sys ''close error'' (Some e)) s)
      | None \<Rightarrow> Some (move i nxt s\<lparr>finished := finished s @ [c]\<rparr>))"

definition child_main :: "kchoice \<Rightarrow> nat \<Rightarrow> prefork \<Rightarrow> prefork option" where
  "child_main ch i s =
     (case kids s ! i of
        K_accept \<Rightarrow> kid_accept ch i K_serve s
      | K_serve c \<Rightarrow> kid_serve ch i c s
      | K_close c \<Rightarrow> kid_close ch i c K_accept s
      | _ \<Rightarrow> None)"

definition child_main_with_lock :: "kchoice \<Rightarrow> nat \<Rightarrow> prefork \<Rightarrow> prefork option" where
  "child_main_with_lock ch i s =
     (case kids s ! i of
        K_lock \<Rightarrow> my_lock_wait ch i s
      | K_accept \<Rightarrow> kid_accept ch i K_unlock s
      | K_unlock c \<Rightarrow> Some (my_lock_release ch i c s)
      | K_serve c \<Rightarrow> kid_serve ch i c s
      | K_close c \<Rightarrow> kid_close ch i c K_lock s
      | K_dead f \<Rightarrow> None)"

section \<open>The servers\<close>

text \<open>
  \<^verbatim>\<open>child_make\<close> starts a child at the beginning of a loop; \<^verbatim>\<open>model_serv02\<close> starts \<open>n\<close> of them at \<^verbatim>\<open>child_main\<close>, whose first call is \<^verbatim>\<open>Accept\<close>.
\<close>

definition child_make :: "kpc \<Rightarrow> prefork \<Rightarrow> prefork" where
  "child_make start s = s\<lparr>kids := kids s @ [start]\<rparr>"

definition prefork_init :: prefork where
  "prefork_init = \<lparr>lock_fd = -1, holder = None, kids = [], accepted = [], finished = [], dropped = []\<rparr>"

definition model_serv02 :: "nat \<Rightarrow> prefork" where
  "model_serv02 n = (child_make K_accept ^^ n) prefork_init"

text \<open>
  \<^verbatim>\<open>model_serv02_with_lock\<close> initialises the lock, and then calls the same \<^verbatim>\<open>child_make\<close>.
\<close>

definition model_serv02_with_lock :: "errno + int \<times> string \<Rightarrow> errno option \<Rightarrow> nat \<Rightarrow> (unit, prefork) outcome" where
  "model_serv02_with_lock mk ul n =
     bindP (my_lock_init mk ul) (\<lambda>_ s. Ret () ((child_make K_accept ^^ n) s)) prefork_init"

text \<open>The server that the name announces: children that run \<^verbatim>\<open>child_main_with_lock\<close>.\<close>

definition locked_server :: "int \<Rightarrow> nat \<Rightarrow> prefork" where
  "locked_server fd n = (child_make K_lock ^^ n) (prefork_init\<lparr>lock_fd := fd\<rparr>)"

inductive kid_step :: "(kchoice \<Rightarrow> nat \<Rightarrow> prefork \<Rightarrow> prefork option) \<Rightarrow> prefork \<Rightarrow> prefork \<Rightarrow> bool" for body where
  "i < length (kids s) \<Longrightarrow> body ch i s = Some s' \<Longrightarrow> kid_step body s s'"

inductive_cases kid_stepE: "kid_step body s s'"

section \<open>Mutual exclusion\<close>

definition in_accept :: "prefork \<Rightarrow> nat \<Rightarrow> bool" where
  "in_accept s i \<longleftrightarrow> i < length (kids s) \<and> (case kids s ! i of K_accept \<Rightarrow> True | K_unlock _ \<Rightarrow> True | _ \<Rightarrow> False)"

lemma move_simps [simp]:
  "lock_fd (move i pc s) = lock_fd s" "holder (move i pc s) = holder s" "kids (move i pc s) = (kids s)[i := pc]"
  "accepted (move i pc s) = accepted s" "finished (move i pc s) = finished s" "dropped (move i pc s) = dropped s"
  by (simp_all add: move_def)

lemma kill_simps [simp]:
  "lock_fd (kill i f s) = lock_fd s" "holder (kill i f s) = (if holder s = Some i then None else holder s)"
  "kids (kill i f s) = (kids s)[i := K_dead f]"
  "accepted (kill i f s) = accepted s" "finished (kill i f s) = finished s" "dropped (kill i f s) = dropped s @ carried (kids s ! i)"
  by (simp_all add: kill_def)

lemmas kid_defs = my_lock_wait_def my_lock_release_def kid_accept_def kid_serve_def kid_close_def

text \<open>The lock and the region of a step of child \<open>i\<close>: the others keep theirs.\<close>

definition kid_move :: "prefork \<Rightarrow> prefork \<Rightarrow> nat \<Rightarrow> bool" where
  "kid_move s s' i \<longleftrightarrow> (\<forall>j. j \<noteq> i \<longrightarrow> in_accept s' j = in_accept s j)
     \<and> (if in_accept s' i then holder s' = Some i \<and> (in_accept s i \<or> holder s = None \<or> holder s = Some i)
        else holder s' = (if holder s = Some i then None else holder s))"

lemma kid_move_agrees:
  assumes "kid_move s s' i" and "\<forall>j. in_accept s j \<longleftrightarrow> holder s = Some j"
  shows "in_accept s' j \<longleftrightarrow> holder s' = Some j"
  using assms unfolding kid_move_def by (cases "j = i") (auto split: if_splits)

lemma child_main_with_lock_move:
  assumes "i < length (kids s)" and "child_main_with_lock ch i s = Some s'" and "\<forall>j. in_accept s j \<longleftrightarrow> holder s = Some j"
  shows "kid_move s s' i"
proof -
  have h: "holder s = Some i \<longleftrightarrow> (case kids s ! i of K_accept \<Rightarrow> True | K_unlock _ \<Rightarrow> True | _ \<Rightarrow> False)"
    using assms(1,3) by (auto simp: in_accept_def)
  show ?thesis
  proof (cases "kids s ! i")
    case K_lock
    with h assms(1,2) show ?thesis
      by (auto simp: child_main_with_lock_def my_lock_wait_def kid_move_def in_accept_def nth_list_update split: option.splits if_splits)
  next
    case K_accept
    with h assms(1,2) show ?thesis
      by (auto simp: child_main_with_lock_def kid_accept_def kid_move_def in_accept_def nth_list_update split: outcome.splits)
  next
    case (K_unlock c)
    with h assms(1,2) show ?thesis
      by (auto simp: child_main_with_lock_def my_lock_release_def kid_move_def in_accept_def nth_list_update split: option.splits)
  next
    case (K_serve c)
    with h assms(1,2) show ?thesis
      by (auto simp: child_main_with_lock_def kid_serve_def kid_move_def in_accept_def nth_list_update split: outcome.splits)
  next
    case (K_close c)
    with h assms(1,2) show ?thesis
      by (auto simp: child_main_with_lock_def kid_close_def kid_move_def in_accept_def nth_list_update split: option.splits)
  qed (use assms(2) in \<open>simp add: child_main_with_lock_def\<close>)
qed

lemma kids_made: "kids ((child_make start ^^ n) s) = kids s @ replicate n start"
  "lock_fd ((child_make start ^^ n) s) = lock_fd s" "holder ((child_make start ^^ n) s) = holder s"
  "accepted ((child_make start ^^ n) s) = accepted s" "finished ((child_make start ^^ n) s) = finished s" "dropped ((child_make start ^^ n) s) = dropped s"
  by (induction n) (simp_all add: child_make_def replicate_append_same)

lemmas prefork_inits = locked_server_def model_serv02_def prefork_init_def kids_made

interpretation fl: lock_protocol "kid_step child_main_with_lock" "\<lambda>s. s = locked_server fd n" holder in_accept for fd n
proof
  show "in_accept s t \<longleftrightarrow> holder s = Some t" if "s = locked_server fd n" for s t
    using that by (simp add: prefork_inits in_accept_def)
  show "in_accept s' u \<longleftrightarrow> holder s' = Some u"
    if st: "kid_step child_main_with_lock s s'" and ag: "\<forall>t. in_accept s t \<longleftrightarrow> holder s = Some t" for s s' u
    using st
  proof (cases rule: kid_step.cases)
    case (1 i ch)
    show ?thesis by (rule kid_move_agrees [OF child_main_with_lock_move [OF 1 ag] ag])
  qed
qed

section \<open>No connection is lost\<close>

definition kid_balance :: "prefork \<Rightarrow> bool" where
  "kid_balance s \<longleftrightarrow> mset (accepted s) = mset (finished s) + mset (dropped s) + sum_list (map (\<lambda>k. mset (carried k)) (kids s))"

lemma kid_sum:
  assumes "i < length (kids s)"
  shows "sum_list (map (\<lambda>k. mset (carried k)) ((kids s)[i := pc])) + mset (carried (kids s ! i))
       = sum_list (map (\<lambda>k. mset (carried k)) (kids s)) + mset (carried pc)"
  by (rule sum_update [OF assms])

lemma balance_move:
  assumes "i < length (kids s)" and "kid_balance s" and "carried pc = carried (kids s ! i)"
  shows "kid_balance (move i pc s)" and "kid_balance (move i pc s\<lparr>holder := h\<rparr>)"
  using assms kid_sum [OF assms(1), of pc] by (auto simp: kid_balance_def)

lemma balance_kill: "i < length (kids s) \<Longrightarrow> kid_balance s \<Longrightarrow> kid_balance (kill i f s)"
  using kid_sum [of i s "K_dead f"] by (auto simp: kid_balance_def ac_simps)

lemma balance_accept:
  assumes "i < length (kids s)" and "kid_balance s" and "carried (kids s ! i) = []" and "carried (nxt c) = [c]"
  shows "kid_balance (move i (nxt c) s\<lparr>accepted := accepted s @ [c]\<rparr>)"
  using assms kid_sum [OF assms(1), of "nxt c"] by (auto simp: kid_balance_def)

lemma balance_close:
  assumes "i < length (kids s)" and "kid_balance s" and "carried (kids s ! i) = [c]" and "carried pc = []"
  shows "kid_balance (move i pc s\<lparr>finished := finished s @ [c]\<rparr>)"
  using assms kid_sum [OF assms(1), of pc] by (auto simp: kid_balance_def)

lemmas balance_laws = balance_move balance_kill balance_accept balance_close

lemma with_lock_balance:
  assumes "i < length (kids s)" and "child_main_with_lock ch i s = Some s'" and "kid_balance s"
  shows "kid_balance s'"
  using assms by (cases "kids s ! i")
    (auto simp: child_main_with_lock_def kid_defs balance_laws split: option.splits outcome.splits if_splits)

lemma child_main_balance:
  assumes "i < length (kids s)" and "child_main ch i s = Some s'" and "kid_balance s"
  shows "kid_balance s'"
  using assms by (cases "kids s ! i")
    (auto simp: child_main_def kid_defs balance_laws split: option.splits outcome.splits)

lemma balance_start: "carried start = [] \<Longrightarrow> kid_balance ((child_make start ^^ n) (prefork_init\<lparr>lock_fd := fd\<rparr>))"
  by (induction n) (auto simp: kid_balance_def prefork_init_def child_make_def)

lemma with_lock_reach_balance: "(kid_step child_main_with_lock)\<^sup>*\<^sup>* (locked_server fd n) s \<Longrightarrow> kid_balance s"
  by (rule step_invariant [of "kid_step child_main_with_lock" "locked_server fd n" s kid_balance])
     (auto simp: locked_server_def balance_start elim!: kid_stepE intro: with_lock_balance)

text \<open>
  C12. Children that run \<^verbatim>\<open>child_main_with_lock\<close>: never are two of them in \<^verbatim>\<open>accept\<close>; the lock is held exactly when one is, so that a child that has ended,
  for whatever reason, keeps nobody waiting; and every accepted connection has been closed, or is with exactly one child, or
  was lost with the child that ended while it had it.\<close>

theorem child_main_with_lock_exclusive:
  assumes "(kid_step child_main_with_lock)\<^sup>*\<^sup>* (locked_server fd n) s"
  shows "(in_accept s i \<and> in_accept s j \<longrightarrow> i = j) \<and> (holder s \<noteq> None \<longleftrightarrow> (\<exists>k. in_accept s k))
    \<and> mset (accepted s) = mset (finished s) + mset (dropped s) + sum_list (map (\<lambda>k. mset (carried k)) (kids s))"
  using fl.exclusion [OF assms refl] fl.locked_iff [OF assms refl] with_lock_reach_balance [OF assms]
  by (auto simp: kid_balance_def)

theorem child_main_with_lock_exclusive_witness:
  "\<exists>s. (kid_step child_main_with_lock)\<^sup>*\<^sup>* (locked_server 3 2) s \<and> in_accept s 1 \<and> (in_accept s 0 \<and> in_accept s 1 \<longrightarrow> (0 :: nat) = 1)"
proof -
  let ?a = "locked_server 3 2"
  let ?s = "move 1 K_accept ?a\<lparr>holder := Some 1\<rparr>"
  let ?ch = "\<lparr>k_fcntl = None, k_accept = [], k_result = [], k_conn = undefined, k_close = None\<rparr>"
  have "kid_step child_main_with_lock ?a ?s"
    by (rule kid_step.intros [where i = 1 and ch = ?ch]) (simp_all add: prefork_inits child_main_with_lock_def my_lock_wait_def fcntl_result_def nth_append)
  then have r: "(kid_step child_main_with_lock)\<^sup>*\<^sup>* ?a ?s" by simp
  moreover have "in_accept ?s 1" by (simp add: prefork_inits in_accept_def)
  ultimately show ?thesis using child_main_with_lock_exclusive [OF r, of 0 1] by blast
qed

text \<open>
  The server that is started by \<^verbatim>\<open>model_serv02_with_lock\<close> does not use the lock it makes: its children are made by the same \<^verbatim>\<open>child_make\<close> as those of
  \<^verbatim>\<open>model_serv02\<close>, so at the start all of them are in \<^verbatim>\<open>accept\<close> at once, and no child ever takes the lock.\<close>

theorem model_serv02_with_lock_unlocked:
  assumes "model_serv02_with_lock mk ul n = Ret () s" and "(kid_step child_main)\<^sup>*\<^sup>* s s'"
  shows "(\<forall>i < n. in_accept s i) \<and> holder s' = None"
proof -
  obtain fd where s: "s = (child_make K_accept ^^ n) (prefork_init\<lparr>lock_fd := fd\<rparr>)"
    using assms(1) by (auto simp: model_serv02_with_lock_def my_lock_init_def bindP_def split: sum.splits option.splits)
  have "holder s' = None"
    by (rule step_invariant [of "kid_step child_main" s s' "\<lambda>s. holder s = None", OF assms(2)])
      (auto simp: s kids_made prefork_init_def child_main_def kid_defs elim!: kid_stepE split: kpc.splits outcome.splits option.splits)
  then show ?thesis by (auto simp: s kids_made prefork_init_def in_accept_def)
qed

theorem model_serv02_with_lock_unlocked_witness:
  "\<exists>s. model_serv02_with_lock (Inr (3, ''/tmp/lock.a'')) None 2 = Ret () s \<and> in_accept s 0 \<and> in_accept s 1 \<and> holder s = None"
proof -
  let ?s = "(child_make K_accept ^^ 2) (prefork_init\<lparr>lock_fd := 3\<rparr>)"
  have r: "model_serv02_with_lock (Inr (3, ''/tmp/lock.a'')) None 2 = Ret () ?s"
    by (simp add: model_serv02_with_lock_def my_lock_init_def bindP_def)
  with model_serv02_with_lock_unlocked [OF r rtranclp.rtrancl_refl] show ?thesis by auto
qed

end
