(* ===== verification/Fork_Servers.thy ===== *)
theory Fork_Servers
  imports Requests Locking "HOL-Library.Multiset"
begin

text \<open>
  The concurrent servers with one child per client: \<^verbatim>\<open>tcp_serv01\<close> and \<^verbatim>\<open>tcp_serv04\<close> of \<^verbatim>\<open>2_basic_socket.c\<close> and \<^verbatim>\<open>model_serv01\<close> of
  \<^verbatim>\<open>4_client_server_model.c\<close>, with the handlers \<^verbatim>\<open>sig_chld_wait\<close> and \<^verbatim>\<open>sig_chld_wait_pid\<close>. The state is what the kernel keeps of the processes: which
  descriptors each has open, which children have ended and not been waited for, and whether \<^verbatim>\<open>SIGCHLD\<close> is pending (a signal is
  not queued: several children that end before it is delivered make one signal).
\<close>

section \<open>Processes\<close>

record kid =
  pid :: int
  fds :: "int set"
  conn :: int

record fsrv =
  listenfd :: int
  pfds :: "int set"
  running :: "kid list"
  zombies :: "(int \<times> fatal) list"
  sigchld :: bool
  terminated :: "int list"

definition fsrv_start :: "int \<Rightarrow> fsrv" where
  "fsrv_start lfd = \<lparr>listenfd = lfd, pfds = {lfd}, running = [], zombies = [], sigchld = False, terminated = []\<rparr>"

text \<open>The end of a process: its descriptors are closed, it remains as a zombie, and the parent is signalled.\<close>

definition proc_exit :: "int \<Rightarrow> fatal \<Rightarrow> fsrv \<Rightarrow> fsrv" where
  "proc_exit p f s = s\<lparr>running := filter (\<lambda>k. pid k \<noteq> p) (running s), zombies := zombies s @ [(p, f)], sigchld := True\<rparr>"

section \<open>The loop of the parent\<close>

record fev =
  f_accept :: "(errno + int) list"
  f_fork :: "errno + int"
  f_lclose :: "errno option"
  f_pclose :: "errno option"

text \<open>\<^verbatim>\<open>accept\<close> with the loop around it that goes back after \<^verbatim>\<open>EINTR\<close>.\<close>

fun accept_again :: "(int, (errno + int) list) prog" where
  "accept_again [] = Blocked []"
| "accept_again (Inr n # evs) = Ret n evs"
| "accept_again (Inl e # evs) = (if e = EINTR then accept_again evs else Die (Err_sys ''accept error'' (Some e)) evs)"

text \<open>
  \<^verbatim>\<open>Fork\<close>: the child has copies of the parent's descriptors and closes the listening one; the parent closes the connected one.
\<close>

definition fork_child :: "fev \<Rightarrow> int \<Rightarrow> (unit, fsrv) prog" where
  "fork_child ev connfd s =
     (case f_fork ev of
        Inl e \<Rightarrow> Die (Err_sys ''fork error'' (Some e)) s
      | Inr p \<Rightarrow>
          let k = \<lparr>pid = p, fds = pfds s - {listenfd s}, conn = connfd\<rparr>;
              s1 = s\<lparr>running := running s @ [k]\<rparr>;
              s2 = (case f_lclose ev of Some e \<Rightarrow> proc_exit p (Err_sys ''close error'' (Some e)) s1 | None \<Rightarrow> s1)
          in (case f_pclose ev of
                Some e \<Rightarrow> Die (Err_sys ''close error'' (Some e)) s2
              | None \<Rightarrow> Ret () (s2\<lparr>pfds := pfds s2 - {connfd}\<rparr>)))"

definition serv_iter :: "(int, (errno + int) list) prog \<Rightarrow> fev \<Rightarrow> (unit, fsrv) prog" where
  "serv_iter acc ev s =
     (case acc (f_accept ev) of
        Ret connfd _ \<Rightarrow> fork_child ev connfd (s\<lparr>pfds := insert connfd (pfds s)\<rparr>)
      | Die f _ \<Rightarrow> Die f s
      | Blocked _ \<Rightarrow> Blocked s)"

definition tcp_serv01 :: "fev \<Rightarrow> (unit, fsrv) prog" where
  "tcp_serv01 = serv_iter Accept"

definition tcp_serv04 :: "fev \<Rightarrow> (unit, fsrv) prog" where
  "tcp_serv04 = serv_iter accept_again"

definition model_serv01 :: "fev \<Rightarrow> (unit, fsrv) prog" where
  "model_serv01 = serv_iter accept_again"

section \<open>Children and signals\<close>

text \<open>The child serves its connection and ends, with \<^verbatim>\<open>exit(0)\<close> or by a fatal error.\<close>

definition echo_child :: "sockd \<Rightarrow> fatal option" where
  "echo_child d = (case str_echo d of Ret _ _ \<Rightarrow> Some (Exit 0) | Die f _ \<Rightarrow> Some f | Blocked _ \<Rightarrow> None)"

definition web_process :: "char list \<Rightarrow> sockd \<Rightarrow> fatal option" where
  "web_process result d = (case web_child result (rl_init, d) of Ret _ _ \<Rightarrow> Some (Exit 0) | Die f _ \<Rightarrow> Some f | Blocked _ \<Rightarrow> None)"

text \<open>One \<^verbatim>\<open>wait\<close> per signal, and all children that have ended.\<close>

definition sig_chld_wait :: "fsrv \<Rightarrow> fsrv" where
  "sig_chld_wait s = (case zombies s of [] \<Rightarrow> s | (p, _) # zs \<Rightarrow> s\<lparr>zombies := zs, terminated := terminated s @ [p]\<rparr>)"

fun waitpid_loop :: "(int \<times> fatal) list \<Rightarrow> fsrv \<Rightarrow> fsrv" where
  "waitpid_loop [] s = s\<lparr>zombies := []\<rparr>"
| "waitpid_loop ((p, _) # zs) s = waitpid_loop zs (s\<lparr>zombies := zs, terminated := terminated s @ [p]\<rparr>)"

definition sig_chld_wait_pid :: "fsrv \<Rightarrow> fsrv" where
  "sig_chld_wait_pid s = waitpid_loop (zombies s) s"

text \<open>\<^verbatim>\<open>SIGCHLD\<close> without a handler is discarded.\<close>

definition no_handler :: "fsrv \<Rightarrow> fsrv" where
  "no_handler s = s"

text \<open>A server is given by the body of its loop, what a child does with its connection, and the handler.\<close>

inductive fserv_step :: "(fev \<Rightarrow> (unit, fsrv) prog) \<Rightarrow> (sockd \<Rightarrow> fatal option) \<Rightarrow> (fsrv \<Rightarrow> fsrv) \<Rightarrow> fsrv \<Rightarrow> fsrv \<Rightarrow> bool"
  for iter child handler where
  Parent: "iter ev s = Ret () s' \<Longrightarrow> (\<forall>p. f_fork ev = Inr p \<longrightarrow> p \<notin> pid ` set (running s)) \<Longrightarrow>
     (\<forall>c. Inr c \<in> set (f_accept ev) \<longrightarrow> c \<notin> pfds s) \<Longrightarrow> fserv_step iter child handler s s'"
| Child: "k \<in> set (running s) \<Longrightarrow> child d = Some f \<Longrightarrow> fserv_step iter child handler s (proc_exit (pid k) f s)"
| Deliver: "sigchld s \<Longrightarrow> fserv_step iter child handler s (handler (s\<lparr>sigchld := False\<rparr>))"

inductive_cases fserv_stepE: "fserv_step iter child handler s s'"

section \<open>Who has which descriptor open\<close>

definition fd_inv :: "fsrv \<Rightarrow> bool" where
  "fd_inv s \<longleftrightarrow> pfds s = {listenfd s} \<and> (\<forall>k \<in> set (running s). fds k = {conn k})"

text \<open>
  The contract: the accepting call returns one of the kernel's results, and the handler only waits for children.
\<close>

locale forking =
  fixes acc :: "(int, (errno + int) list) prog" and child :: "sockd \<Rightarrow> fatal option" and handler :: "fsrv \<Rightarrow> fsrv"
  assumes acc_in: "acc evs = Ret c rest \<Longrightarrow> Inr c \<in> set evs"
    and handler_frame: "listenfd (handler s) = listenfd s" "pfds (handler s) = pfds s" "running (handler s) = running s" "sigchld (handler s) = sigchld s"
begin

abbreviation step :: "fsrv \<Rightarrow> fsrv \<Rightarrow> bool" where
  "step \<equiv> fserv_step (serv_iter acc) child handler"

lemma parent_fds:
  assumes "fd_inv s" and "serv_iter acc ev s = Ret () s'" and "\<forall>c. Inr c \<in> set (f_accept ev) \<longrightarrow> c \<notin> pfds s"
  shows "fd_inv s'"
proof -
  obtain c rest where a: "acc (f_accept ev) = Ret c rest" and f: "fork_child ev c (s\<lparr>pfds := insert c (pfds s)\<rparr>) = Ret () s'"
    using assms(2) by (auto simp: serv_iter_def split: outcome.splits)
  have c: "c \<noteq> listenfd s" using acc_in [OF a] assms(1,3) by (auto simp: fd_inv_def)
  with f assms(1) show ?thesis
    by (auto simp: fork_child_def Let_def proc_exit_def fd_inv_def split: sum.splits option.splits)
qed

lemma fds_step:
  assumes "step s s'" and "fd_inv s"
  shows "fd_inv s'"
  using assms(1)
proof (cases rule: fserv_step.cases)
  case (Parent ev)
  then show ?thesis using parent_fds assms(2) by blast
qed (use assms(2) in \<open>auto simp: fd_inv_def proc_exit_def handler_frame\<close>)

lemma fds_reach:
  assumes "step\<^sup>*\<^sup>* (fsrv_start lfd) s"
  shows "fd_inv s"
  using step_invariant [of step "fsrv_start lfd" s fd_inv, OF assms _ fds_step] by (simp add: fsrv_start_def fd_inv_def)

text \<open>A connection is open in the child that serves it and nowhere else.\<close>

lemma conn_open_iff:
  assumes "step\<^sup>*\<^sup>* (fsrv_start lfd) s"
  shows "pfds s = {listenfd s}" and "k \<in> set (running s) \<Longrightarrow> fds k = {conn k}"
  using fds_reach [OF assms] by (auto simp: fd_inv_def)

end

text \<open>A handler that waits for every child that has ended.\<close>

locale reaping = forking +
  assumes reaps_all: "zombies (handler s) = []"
begin

lemma zombies_step:
  assumes "step s s'" and "zombies s \<noteq> [] \<longrightarrow> sigchld s"
  shows "zombies s' \<noteq> [] \<longrightarrow> sigchld s'"
  using assms(1)
proof (cases rule: fserv_step.cases)
  case (Parent ev)
  then show ?thesis using assms(2)
    by (auto simp: serv_iter_def fork_child_def proc_exit_def Let_def split: outcome.splits sum.splits option.splits)
qed (use assms(2) in \<open>auto simp: proc_exit_def reaps_all\<close>)

lemma zombies_reach: "step\<^sup>*\<^sup>* (fsrv_start lfd) s \<Longrightarrow> zombies s \<noteq> [] \<Longrightarrow> sigchld s"
  using step_invariant [of step "fsrv_start lfd" s "\<lambda>s. zombies s \<noteq> [] \<longrightarrow> sigchld s"] zombies_step
  by (auto simp: fsrv_start_def)

end

lemma waitpid_loop_simps [simp]:
  "listenfd (waitpid_loop zs s) = listenfd s" "pfds (waitpid_loop zs s) = pfds s" "running (waitpid_loop zs s) = running s"
  "sigchld (waitpid_loop zs s) = sigchld s" "zombies (waitpid_loop zs s) = []" "terminated (waitpid_loop zs s) = terminated s @ map fst zs"
  by (induction zs s rule: waitpid_loop.induct) simp_all

lemma accept_again_in: "accept_again evs = Ret n rest \<Longrightarrow> Inr n \<in> set evs"
  by (induction evs rule: accept_again.induct) (auto split: if_splits)

lemma Accept_result_in: "Accept evs = Ret n rest \<Longrightarrow> Inr n \<in> set evs"
  by (induction evs rule: Accept.induct) (auto split: if_splits)

interpretation srv04: reaping accept_again echo_child sig_chld_wait_pid
  by unfold_locales (auto simp: sig_chld_wait_pid_def dest: accept_again_in)

interpretation srv04w: forking accept_again echo_child sig_chld_wait
  by unfold_locales (auto simp: sig_chld_wait_def dest: accept_again_in split: list.splits)

interpretation srv01: forking Accept echo_child no_handler
  by unfold_locales (auto simp: no_handler_def dest: Accept_result_in)

interpretation model01: forking accept_again "web_process result" no_handler for result
  by unfold_locales (auto simp: no_handler_def dest: accept_again_in)

text \<open>
  C27. In every reachable state of the server with \<^verbatim>\<open>sig_chld_wait_pid\<close>, the parent has only its listening socket open and each child only the connection it
  serves, so that the connection ends when the child does; a child that has ended and has not been waited for has its signal still
  pending, and the handler leaves none.\<close>

theorem tcp_serv04_clean:
  assumes "(fserv_step tcp_serv04 echo_child sig_chld_wait_pid)\<^sup>*\<^sup>* (fsrv_start lfd) s"
  shows "pfds s = {listenfd s} \<and> (\<forall>k \<in> set (running s). fds k = {conn k})
    \<and> (zombies s \<noteq> [] \<longrightarrow> sigchld s) \<and> zombies (sig_chld_wait_pid s) = []
    \<and> terminated (sig_chld_wait_pid s) = terminated s @ map fst (zombies s)"
proof -
  have r: "srv04.step\<^sup>*\<^sup>* (fsrv_start lfd) s" using assms by (simp add: tcp_serv04_def)
  show ?thesis using srv04.conn_open_iff [OF r] srv04.zombies_reach [OF r] by (auto simp: sig_chld_wait_pid_def)
qed

text \<open>
  Runs in which each of \<open>n\<close> children ends before the signal of the first one is delivered.
\<close>

definition ended :: "int \<Rightarrow> fatal \<Rightarrow> nat \<Rightarrow> fsrv" where
  "ended lfd f n = (fsrv_start lfd)\<lparr>zombies := map (\<lambda>i. (int i, f)) [0..<n], sigchld := (n > 0)\<rparr>"

lemma sample_fork:
  assumes "p \<notin> pid ` set (running s)" and "c \<noteq> listenfd s" and "pfds s = {listenfd s}"
  shows "fserv_step (serv_iter accept_again) child handler s (s\<lparr>running := running s @ [\<lparr>pid = p, fds = {c}, conn = c\<rparr>]\<rparr>)"
proof (rule Parent)
  let ?ev = "\<lparr>f_accept = [Inr c], f_fork = Inr p, f_lclose = None, f_pclose = None\<rparr>"
  have "insert c {listenfd s} - {listenfd s} = {c}" "insert c {listenfd s} - {c} = {listenfd s}" using assms(2) by auto
  then show "serv_iter accept_again ?ev s = Ret () (s\<lparr>running := running s @ [\<lparr>pid = p, fds = {c}, conn = c\<rparr>]\<rparr>)"
    using assms(3) by (cases s) (auto simp: serv_iter_def fork_child_def)
  show "\<forall>q. f_fork ?ev = Inr q \<longrightarrow> q \<notin> pid ` set (running s)" "\<forall>d. Inr d \<in> set (f_accept ?ev) \<longrightarrow> d \<notin> pfds s"
    using assms by auto
qed

lemma ended_reach:
  assumes "child d = Some f"
  shows "(fserv_step (serv_iter accept_again) child handler)\<^sup>*\<^sup>* (fsrv_start lfd) (ended lfd f n)"
proof (induction n)
  case 0
  have "ended lfd f 0 = fsrv_start lfd" by (simp add: ended_def fsrv_start_def)
  then show ?case by simp
next
  case (Suc n)
  let ?st = "fserv_step (serv_iter accept_again) child handler"
  let ?k = "\<lparr>pid = int n, fds = {lfd + 1}, conn = lfd + 1\<rparr>"
  let ?m = "(ended lfd f n)\<lparr>running := [?k]\<rparr>"
  have "?st (ended lfd f n) ?m"
    using sample_fork [of "int n" "ended lfd f n" "lfd + 1" child handler] by (simp add: ended_def fsrv_start_def)
  moreover have "?st ?m (ended lfd f (Suc n))"
  proof -
    have "proc_exit (pid ?k) f ?m = ended lfd f (Suc n)" by (simp add: proc_exit_def ended_def fsrv_start_def)
    then show ?thesis using Child [of ?k ?m child d f "serv_iter accept_again" handler] assms by simp
  qed
  ultimately show ?case using Suc by (meson rtranclp.rtrancl_into_rtrancl)
qed

lemma echo_child_eof: "echo_child (fresh_sock [] []) = Some (Exit 0)"
  by (simp add: echo_child_def str_echo.simps read_sock_def fresh_sock_def)

theorem tcp_serv04_clean_witness:
  "\<exists>s. zombies s = [(0, Exit 0)] \<and> zombies (sig_chld_wait_pid s) = [] \<and> sigchld s"
proof -
  have r: "(fserv_step tcp_serv04 echo_child sig_chld_wait_pid)\<^sup>*\<^sup>* (fsrv_start 3) (ended 3 (Exit 0) 1)"
    unfolding tcp_serv04_def by (rule ended_reach [of echo_child, OF echo_child_eof])
  have "zombies (ended 3 (Exit 0) 1) = [(0, Exit 0)]" by (simp add: ended_def)
  with tcp_serv04_clean [OF r] show ?thesis by (intro exI [of _ "ended 3 (Exit 0) 1"]) simp
qed

lemma web_process_ends: "\<exists>f. web_process result d = Some f"
  using web_child_post [of result "(rl_init, d)"] by (auto simp: web_process_def web_post_def split: outcome.splits)

text \<open>
  The handler \<^verbatim>\<open>sig_chld_wait\<close> in the place of \<^verbatim>\<open>sig_chld_wait_pid\<close> leaves zombies: for every \<open>n\<close> there is a run after which no child is running, no signal
  is pending and \<open>n\<close> ended children have not been waited for. So does \<^verbatim>\<open>model_serv01\<close>, where the installation of a handler is commented out.\<close>

theorem sig_chld_wait_leaves_zombies:
  "(\<exists>s. (fserv_step tcp_serv04 echo_child sig_chld_wait)\<^sup>*\<^sup>* (fsrv_start lfd) s \<and> running s = [] \<and> \<not> sigchld s \<and> length (zombies s) = n)
   \<and> (\<exists>s. (fserv_step model_serv01 (web_process result) no_handler)\<^sup>*\<^sup>* (fsrv_start lfd) s \<and> running s = [] \<and> \<not> sigchld s \<and> length (zombies s) = Suc n)"
proof
  let ?st = "fserv_step tcp_serv04 echo_child sig_chld_wait"
  let ?e = "ended lfd (Exit 0) (Suc n)"
  let ?s = "sig_chld_wait (?e\<lparr>sigchld := False\<rparr>)"
  have "?st\<^sup>*\<^sup>* (fsrv_start lfd) ?e" unfolding tcp_serv04_def by (rule ended_reach [of echo_child, OF echo_child_eof])
  moreover have "?st ?e ?s" by (rule Deliver) (simp add: ended_def)
  ultimately have "?st\<^sup>*\<^sup>* (fsrv_start lfd) ?s" by (rule rtranclp.rtrancl_into_rtrancl)
  moreover have "length (zombies ?s) = n" "running ?s = []" "\<not> sigchld ?s"
    by (auto simp: sig_chld_wait_def ended_def fsrv_start_def split: list.splits dest: arg_cong [where f = length])
  ultimately show "\<exists>s. ?st\<^sup>*\<^sup>* (fsrv_start lfd) s \<and> running s = [] \<and> \<not> sigchld s \<and> length (zombies s) = n" by blast
next
  let ?st = "fserv_step model_serv01 (web_process result) no_handler"
  obtain f where f: "web_process result undefined = Some f" using web_process_ends by blast
  let ?e = "ended lfd f (Suc n)"
  have "?st\<^sup>*\<^sup>* (fsrv_start lfd) ?e" unfolding model_serv01_def by (rule ended_reach [of "web_process result", OF f])
  moreover have "?st ?e (no_handler (?e\<lparr>sigchld := False\<rparr>))" by (rule Deliver) (simp add: ended_def)
  ultimately have "?st\<^sup>*\<^sup>* (fsrv_start lfd) (?e\<lparr>sigchld := False\<rparr>)" unfolding no_handler_def by (rule rtranclp.rtrancl_into_rtrancl)
  moreover have "length (zombies (?e\<lparr>sigchld := False\<rparr>)) = Suc n" "running (?e\<lparr>sigchld := False\<rparr>) = []" by (simp_all add: ended_def fsrv_start_def)
  ultimately show "\<exists>s. ?st\<^sup>*\<^sup>* (fsrv_start lfd) s \<and> running s = [] \<and> \<not> sigchld s \<and> length (zombies s) = Suc n"
    by (intro exI [of _ "?e\<lparr>sigchld := False\<rparr>"]) simp
qed

end
