(* ===== verification/Poll_Server.thy ===== *)
theory Poll_Server
  imports Ready_Scan Wrappers
begin

unbundle bit_operations_syntax

text \<open>
  The single-process server \<^verbatim>\<open>tcp_serv_poll01\<close> of \<^verbatim>\<open>2_basic_socket.c\<close>: the array of \<^verbatim>\<open>struct pollfd\<close> whose entry 0 is the listening
  descriptor. The array is a local variable of which only the descriptors are initialised, so the other fields start with
  arbitrary contents, and \<^verbatim>\<open>revents\<close> of an entry beyond \<^verbatim>\<open>maxi\<close> keeps them until \<^verbatim>\<open>Poll\<close> is called with it.
\<close>

section \<open>The server\<close>

definition OPEN_MAX :: nat where "OPEN_MAX = 1024"
definition POLLRDNORM :: "16 word" where "POLLRDNORM = 0x40"
definition POLLERR :: "16 word" where "POLLERR = 0x08"

record pollfd =
  fd :: int
  events :: "16 word"
  revents :: "16 word"

record pollsrv =
  client :: "pollfd list"
  maxi :: nat
  acts :: "action list"

record pround = round +
  pr_revents :: "int \<Rightarrow> 16 word"

text \<open>The initialisation; \<open>mem\<close> is what the array holds before.\<close>

definition poll_start :: "pollfd list \<Rightarrow> int \<Rightarrow> pollsrv" where
  "poll_start mem listenfd =
     \<lparr>client = (mem ! 0)\<lparr>fd := listenfd, events := POLLRDNORM\<rparr> # map (\<lambda>i. (mem ! i)\<lparr>fd := -1\<rparr>) [1..<OPEN_MAX], maxi = 0, acts = []\<rparr>"

text \<open>
  \<^verbatim>\<open>Poll(client, maxi+1, INFTIM)\<close> fills in \<^verbatim>\<open>revents\<close> of the first \<open>maxi + 1\<close> entries, 0 for a negative descriptor, and returns the
  number of entries where it is not 0.
\<close>

definition poll_set :: "pround \<Rightarrow> pollfd \<Rightarrow> pollfd" where
  "poll_set ev p = p\<lparr>revents := (if fd p < 0 then 0 else pr_revents ev (fd p))\<rparr>"

definition poll_call :: "pround \<Rightarrow> pollsrv \<Rightarrow> pollsrv" where
  "poll_call ev st = st\<lparr>client := map (poll_set ev) (take (maxi st + 1) (client st)) @ drop (maxi st + 1) (client st)\<rparr>"

definition poll_nready :: "pollsrv \<Rightarrow> int" where
  "poll_nready st = int (length (filter (\<lambda>p. revents p \<noteq> 0) (take (maxi st + 1) (client st))))"

definition poll_accept :: "pround \<Rightarrow> (unit, pollsrv) prog" where
  "poll_accept ev st =
     (case Accept (rd_accept ev) of
        Blocked x \<Rightarrow> Blocked st
      | Die f x \<Rightarrow> Die f st
      | Ret connfd x \<Rightarrow>
          (let i = first_free (map fd (drop 1 (client st))) 1
           in if i = OPEN_MAX then Die (Err_quit ''too many clients'') st
              else Ret () (st\<lparr>client := (client st)[i := (client st ! i)\<lparr>fd := connfd, events := POLLRDNORM\<rparr>],
                             maxi := (if i > maxi st then i else maxi st)\<rparr>)))"

definition poll_close :: "pround \<Rightarrow> nat \<Rightarrow> (unit, pollsrv) prog" where
  "poll_close ev i st =
     (let sockfd = fd (client st ! i)
      in case rd_cfail ev sockfd of
           Some e \<Rightarrow> Die (Err_sys ''close error'' (Some e)) st
         | None \<Rightarrow> Ret () (st\<lparr>client := (client st)[i := (client st ! i)\<lparr>fd := -1\<rparr>], acts := acts st @ [Closed sockfd]\<rparr>))"

definition poll_serve :: "pround \<Rightarrow> nat \<Rightarrow> (unit, pollsrv) prog" where
  "poll_serve ev i st =
     (let sockfd = fd (client st ! i)
      in case rd_data ev sockfd of
           Inl e \<Rightarrow> if e = ECONNRESET then poll_close ev i st else Die (Err_sys ''read error'' (Some e)) st
         | Inr data \<Rightarrow>
             (let buf = take MAXLINE data
              in if buf = [] then poll_close ev i st
                 else (case rd_wfail ev sockfd of
                         Some e \<Rightarrow> Die (Err_sys ''writen error'' (Some e)) st
                       | None \<Rightarrow> Ret () (st\<lparr>acts := acts st @ [Echoed sockfd buf]\<rparr>))))"

definition readable :: "16 word \<Rightarrow> bool" where
  "readable r \<longleftrightarrow> r AND (POLLRDNORM OR POLLERR) \<noteq> 0"

definition poll_hit :: "pollsrv \<Rightarrow> nat \<Rightarrow> bool" where
  "poll_hit st i \<longleftrightarrow> 0 < i \<and> i < length (client st) \<and> \<not> fd (client st ! i) < 0 \<and> readable (revents (client st ! i))"

definition poll_clients :: "pround \<Rightarrow> int \<Rightarrow> (unit, pollsrv) prog" where
  "poll_clients ev nready st = scan poll_hit (poll_serve ev) [1..<maxi st + 1] nready st"

definition poll_round :: "pround \<Rightarrow> (unit, pollsrv) prog" where
  "poll_round ev st0 =
     (let st = poll_call ev st0; nready = poll_nready st
      in if nready = 0 then Blocked st
         else if revents (client st ! 0) AND POLLRDNORM \<noteq> 0
         then bindP (poll_accept ev) (\<lambda>_ st'. if nready - 1 \<le> 0 then Ret () st' else poll_clients ev (nready - 1) st') st
         else poll_clients ev nready st)"

fun tcp_serv_poll01 :: "pround list \<Rightarrow> (unit, pollsrv) prog" where
  "tcp_serv_poll01 [] st = Blocked st"
| "tcp_serv_poll01 (ev # evs) st = bindP (poll_round ev) (\<lambda>_ st'. tcp_serv_poll01 evs st') st"

section \<open>The invariant\<close>

definition poll_inv :: "pollsrv \<Rightarrow> bool" where
  "poll_inv st \<longleftrightarrow> length (client st) = OPEN_MAX \<and> maxi st < OPEN_MAX \<and> 0 \<le> fd (client st ! 0)
     \<and> (\<forall>j < OPEN_MAX. maxi st < j \<longrightarrow> fd (client st ! j) < 0)"

lemma OPEN_MAX_pos [simp]: "0 < OPEN_MAX" "Suc 0 < OPEN_MAX"
  by (simp_all add: OPEN_MAX_def)

lemma poll_inv_start: "0 \<le> lfd \<Longrightarrow> poll_inv (poll_start mem lfd)"
  by (auto simp: poll_inv_def poll_start_def nth_Cons split: nat.splits)

lemma poll_call_nth:
  assumes "poll_inv st" and "i < OPEN_MAX"
  shows "client (poll_call ev st) ! i = (if i \<le> maxi st then poll_set ev (client st ! i) else client st ! i)"
  using assms by (auto simp: poll_call_def poll_inv_def nth_append min_def)

lemma poll_call_simps [simp]:
  "maxi (poll_call ev st) = maxi st" "acts (poll_call ev st) = acts st" "length (client (poll_call ev st)) = length (client st)"
  by (auto simp: poll_call_def)

lemma poll_set_fd [simp]: "fd (poll_set ev p) = fd p"
  by (simp add: poll_set_def)

lemma poll_inv_call: "poll_inv st \<Longrightarrow> poll_inv (poll_call ev st)"
  using poll_call_nth [of st _ ev] by (auto simp: poll_inv_def)

text \<open>The search for a free entry starts at entry 1.\<close>

lemma free_entry:
  assumes "poll_inv st" and "i = first_free (map fd (drop 1 (client st))) 1" and "i \<noteq> OPEN_MAX"
  shows "0 < i" and "i < OPEN_MAX" and "fd (client st ! i) < 0"
proof -
  let ?cs = "map fd (drop 1 (client st))"
  have len: "length ?cs = OPEN_MAX - 1" using assms(1) by (simp add: poll_inv_def)
  have i: "i = 1 + first_free ?cs 0" using assms(2) first_free_add [of ?cs 1] by simp
  have "first_free ?cs 0 \<noteq> length ?cs" using assms(3) len i OPEN_MAX_pos(1) by arith
  with first_free_spec [of ?cs] have "first_free ?cs 0 < length ?cs" by simp
  with first_free_spec [of ?cs] len i show "0 < i" "i < OPEN_MAX" "fd (client st ! i) < 0" by auto
qed

lemma poll_acceptD:
  assumes "poll_inv st" and "poll_accept ev st = Ret u st'"
  obtains i c where "0 < i" "i < OPEN_MAX" "fd (client st ! i) < 0"
    "st' = st\<lparr>client := (client st)[i := (client st ! i)\<lparr>fd := c, events := POLLRDNORM\<rparr>], maxi := max (maxi st) i\<rparr>"
proof -
  define i where "i = first_free (map fd (drop 1 (client st))) 1"
  obtain c where ne: "i \<noteq> OPEN_MAX" and
    st': "st' = st\<lparr>client := (client st)[i := (client st ! i)\<lparr>fd := c, events := POLLRDNORM\<rparr>], maxi := (if i > maxi st then i else maxi st)\<rparr>"
    using assms(2) by (auto simp: poll_accept_def Let_def i_def split: outcome.splits if_splits)
  moreover have "(if i > maxi st then i else maxi st) = max (maxi st) i" by auto
  ultimately show thesis using that [of i c] free_entry [OF assms(1) i_def ne] by simp
qed

lemma poll_serve_cases:
  assumes "poll_serve ev i st = Ret u st'"
  obtains (closed) "st' = st\<lparr>client := (client st)[i := (client st ! i)\<lparr>fd := -1\<rparr>], acts := acts st @ [Closed (fd (client st ! i))]\<rparr>"
  | (data) buf where "st' = st\<lparr>acts := acts st @ [Echoed (fd (client st ! i)) buf]\<rparr>"
  using assms by (auto simp: poll_serve_def poll_close_def Let_def split: sum.splits if_splits option.splits)

interpretation pol: ready_table poll_hit "poll_serve ev" poll_inv for ev
proof unfold_locales
  fix i j u st st'
  assume a: "poll_serve ev i st = Ret u st'" "poll_inv st" "poll_hit st i"
  show "poll_hit st' j = poll_hit st j" if "j \<noteq> i"
    using a(1) by (cases rule: poll_serve_cases) (use that in \<open>auto simp: poll_hit_def\<close>)
  show "poll_inv st'"
    using a(1) by (cases rule: poll_serve_cases) (use a(2,3) in \<open>auto simp: poll_inv_def poll_hit_def nth_list_update\<close>)
qed

section \<open>The count is sound\<close>

text \<open>Every event that \<^verbatim>\<open>poll\<close> reports is one that the server looks for.\<close>

definition exact :: "pround \<Rightarrow> pollsrv \<Rightarrow> bool" where
  "exact ev st \<longleftrightarrow> (\<forall>i \<le> maxi st. let r = pr_revents ev (fd (client st ! i)) in
     0 \<le> fd (client st ! i) \<and> r \<noteq> 0 \<longrightarrow> (if i = 0 then r AND POLLRDNORM \<noteq> 0 else readable r))"

lemma readable_nz: "readable r \<Longrightarrow> r \<noteq> 0"
  by (auto simp: readable_def)

lemma hit_after_call:
  assumes "poll_inv st"
  shows "poll_hit (poll_call ev st) i \<longleftrightarrow>
    0 < i \<and> i < OPEN_MAX \<and> 0 \<le> fd (client st ! i) \<and> readable (pr_revents ev (fd (client st ! i)))"
proof (cases "i < OPEN_MAX")
  case True
  have "i \<le> maxi st" if "0 \<le> fd (client st ! i)" using that True assms by (force simp: poll_inv_def)
  with True poll_call_nth [OF assms True] show ?thesis
    using assms by (auto simp: poll_hit_def poll_set_def poll_inv_def not_less)
next
  case False
  with assms show ?thesis by (simp add: poll_hit_def poll_inv_def)
qed

lemma nready_hits:
  assumes inv: "poll_inv st" and ex: "exact ev st"
  shows "poll_nready (poll_call ev st) = int (pol.hits [1..<maxi st + 1] (poll_call ev st))
    + (if revents (client (poll_call ev st) ! 0) AND POLLRDNORM \<noteq> 0 then 1 else 0)"
proof -
  let ?s = "poll_call ev st" and ?m = "maxi st"
  have len: "?m + 1 \<le> length (client ?s)" using inv by (auto simp: poll_inv_def)
  have nth: "client ?s ! i = poll_set ev (client st ! i)" if "i \<le> ?m" for i
    using that inv poll_call_nth [OF inv, of i ev] by (auto simp: poll_inv_def)
  have r: "revents (client ?s ! i) \<noteq> 0 \<longleftrightarrow> poll_hit ?s i" if "i \<in> set [1..<?m + 1]" for i
  proof -
    have i: "0 < i" "i \<le> ?m" "i < OPEN_MAX" using that inv by (auto simp: poll_inv_def)
    with ex nth [OF i(2)] show ?thesis
      by (auto simp: hit_after_call [OF inv] exact_def Let_def poll_set_def dest: readable_nz)
  qed
  have z: "revents (client ?s ! 0) \<noteq> 0 \<longleftrightarrow> revents (client ?s ! 0) AND POLLRDNORM \<noteq> 0"
    using ex nth [of 0] by (auto simp: exact_def Let_def poll_set_def)
  have tk: "take (?m + 1) (client ?s) = map (\<lambda>i. client ?s ! i) [0..<?m + 1]"
    using len by (intro nth_equalityI) (simp_all del: upt_Suc)
  have sp: "[0..<?m + 1] = 0 # [1..<?m + 1]" by (simp add: upt_conv_Cons)
  have "filter (\<lambda>p. revents p \<noteq> 0) (take (?m + 1) (client ?s)) = map (\<lambda>i. client ?s ! i) (filter (\<lambda>i. revents (client ?s ! i) \<noteq> 0) (0 # [1..<?m + 1]))"
    unfolding tk sp filter_map comp_def ..
  moreover have "filter (\<lambda>i. revents (client ?s ! i) \<noteq> 0) [1..<?m + 1] = filter (poll_hit ?s) [1..<?m + 1]"
    by (rule filter_cong) (use r in auto)
  ultimately show ?thesis using z by (simp add: poll_nready_def pol.hits_def)
qed

text \<open>A round without the countdown: accept, then look at every entry that was in use when \<^verbatim>\<open>Poll\<close> was called.\<close>

definition ref_poll :: "pround \<Rightarrow> (unit, pollsrv) prog" where
  "ref_poll ev st0 =
     (let st = poll_call ev st0; all = (\<lambda>st'. visit poll_hit (poll_serve ev) [1..<maxi st + 1] st')
      in if poll_nready st = 0 then Blocked st
         else if revents (client st ! 0) AND POLLRDNORM \<noteq> 0 then bindP (poll_accept ev) (\<lambda>_. all) st
         else all st)"

lemma accept_hits:
  assumes "poll_inv st" and "poll_accept ev' (poll_call ev st) = Ret u st'"
  shows "poll_inv st'" and "pol.hits [1..<maxi st + 1] st' = pol.hits [1..<maxi st + 1] (poll_call ev st)"
    and "\<exists>k \<ge> maxi st. maxi st' = k"
proof -
  let ?s = "poll_call ev st"
  note inv = poll_inv_call [OF assms(1), of ev]
  obtain i c where i: "0 < i" "i < OPEN_MAX" "fd (client ?s ! i) < 0"
    and st': "st' = ?s\<lparr>client := (client ?s)[i := (client ?s ! i)\<lparr>fd := c, events := POLLRDNORM\<rparr>], maxi := max (maxi ?s) i\<rparr>"
    using poll_acceptD [OF inv assms(2)] by metis
  show "poll_inv st'" using inv i by (auto simp: st' poll_inv_def nth_list_update)
  have "poll_hit st' j = poll_hit ?s j" if "j \<in> set [1..<maxi st + 1]" for j
  proof (cases "j = i")
    case True
    with that i poll_call_nth [OF assms(1) i(2), of ev] have "revents (client ?s ! i) = 0" by (auto simp: poll_set_def)
    with True i inv show ?thesis by (auto simp: st' poll_hit_def poll_inv_def readable_def)
  qed (simp add: st' poll_hit_def)
  then have "filter (poll_hit st') [1..<maxi st + 1] = filter (poll_hit ?s) [1..<maxi st + 1]" by (intro filter_cong) auto
  then show "pol.hits [1..<maxi st + 1] st' = pol.hits [1..<maxi st + 1] ?s" by (simp add: pol.hits_def)
  show "\<exists>k \<ge> maxi st. maxi st' = k" by (simp add: st')
qed

text \<open>The countdown over a table in which exactly the announced entries are ready.\<close>

lemma poll_clients_eq:
  assumes "poll_inv st" and "int (pol.hits [1..<m + 1] st) = n" and "m \<le> maxi st"
  shows "(if n \<le> 0 then Ret () st else poll_clients ev n st) = visit poll_hit (poll_serve ev) [1..<m + 1] st"
proof (cases "n \<le> 0")
  case True
  with assms(2) pol.visit_none show ?thesis by simp
next
  case False
  have "[1..<maxi st + 1] = [1..<m + 1] @ [m + 1..<maxi st + 1]"
    using upt_add_eq_append [of 1 "m + 1" "maxi st - m"] assms(3) by simp
  with False pol.scan_exact [OF assms(1) _ assms(2), of ev "[m + 1..<maxi st + 1]"] show ?thesis by (simp add: poll_clients_def)
qed

lemma poll_round_eq:
  assumes inv: "poll_inv st" and ex: "exact ev st"
  shows "poll_round ev st = ref_poll ev st"
proof -
  let ?s = "poll_call ev st"
  note n = nready_hits [OF inv ex]
  show ?thesis
  proof (cases "revents (client ?s ! 0) AND POLLRDNORM \<noteq> 0")
    case False
    with n poll_clients_eq [OF poll_inv_call [OF inv], of "maxi st" ev "poll_nready ?s" ev] show ?thesis
      by (auto simp: poll_round_def ref_poll_def Let_def split: if_splits)
  next
    case True
    have "(if poll_nready ?s - 1 \<le> 0 then Ret () st' else poll_clients ev (poll_nready ?s - 1) st') =
        visit poll_hit (poll_serve ev) [1..<maxi st + 1] st'" if acc: "poll_accept ev ?s = Ret u st'" for u st'
      using n True accept_hits [OF inv acc] by (intro poll_clients_eq) auto
    with True n show ?thesis by (auto simp: poll_round_def ref_poll_def Let_def bindP_def split: outcome.splits)
  qed
qed

lemma poll_round_inv:
  assumes "poll_inv st" and "exact ev st" and "poll_round ev st = Ret u st'"
  shows "poll_inv st'"
proof -
  have r: "ref_poll ev st = Ret u st'" using poll_round_eq [OF assms(1,2)] assms(3) by simp
  have "\<exists>s js. poll_inv s \<and> visit poll_hit (poll_serve ev) js s = Ret u st'"
  proof (cases "revents (client (poll_call ev st) ! 0) AND POLLRDNORM \<noteq> 0")
    case True
    with r obtain a s where "poll_accept ev (poll_call ev st) = Ret a s" "visit poll_hit (poll_serve ev) [1..<maxi st + 1] s = Ret u st'"
      by (auto simp: ref_poll_def Let_def split: if_splits elim!: bindP_RetE)
    then show ?thesis using accept_hits(1) [OF assms(1)] by blast
  next
    case False
    with r have "visit poll_hit (poll_serve ev) [1..<maxi st + 1] (poll_call ev st) = Ret u st'"
      by (auto simp: ref_poll_def Let_def split: if_splits)
    then show ?thesis using poll_inv_call [OF assms(1)] by blast
  qed
  then show ?thesis using pol.inv_visit by blast
qed

section \<open>Properties\<close>

fun exact_rounds :: "pround list \<Rightarrow> pollsrv \<Rightarrow> bool" where
  "exact_rounds [] st = True"
| "exact_rounds (ev # evs) st = (exact ev st \<and> (case poll_round ev st of Ret u st' \<Rightarrow> exact_rounds evs st' | _ \<Rightarrow> True))"

fun ref_poll_server :: "pround list \<Rightarrow> (unit, pollsrv) prog" where
  "ref_poll_server [] st = Blocked st"
| "ref_poll_server (ev # evs) st = bindP (ref_poll ev) (\<lambda>_ st'. ref_poll_server evs st') st"

lemma poll_server_eq: "poll_inv st \<Longrightarrow> exact_rounds evs st \<Longrightarrow> tcp_serv_poll01 evs st = ref_poll_server evs st"
proof (induction evs arbitrary: st)
  case (Cons ev evs)
  have "tcp_serv_poll01 evs st' = ref_poll_server evs st'" if "poll_round ev st = Ret u st'" for u st'
    using Cons poll_round_inv [of st ev u st'] that by auto
  with Cons poll_round_eq [of st ev] show ?case by (auto simp: bindP_def split: outcome.splits)
qed simp


definition ex_pround :: pround where
  "ex_pround = \<lparr>rd_ready = {}, rd_accept = [Inr 4], rd_data = (\<lambda>_. Inr ''x''), rd_wfail = (\<lambda>_. None), rd_cfail = (\<lambda>_. None),
     pr_revents = (\<lambda>fd. if fd = 3 then POLLRDNORM else 0)\<rparr>"


end
