(* ===== verification/Select_Client.thy ===== *)
theory Select_Client
  imports Echo
begin

text \<open>
  The two clients of \<^verbatim>\<open>2_basic_socket.c\<close> that wait with \<^verbatim>\<open>select\<close>: \<^verbatim>\<open>str_cli_select01\<close>, which works with lines and ends at the end of its input, and
  \<^verbatim>\<open>str_cli_select02\<close>, which works with blocks of bytes, sends a FIN at the end of its input and goes on to the end of the replies.
  What is ready in a round is decided by the environment.
\<close>

section \<open>Lines\<close>

record sround =
  s_sock :: bool
  s_in :: bool

definition select01_round :: "sround \<Rightarrow> (bool, cli) prog" where
  "select01_round ev =
     (if \<not> s_sock ev \<and> \<not> s_in ev then Blocked
      else bindP (if s_sock ev then cli_reply else returnP ()) (\<lambda>_.
           if s_in ev
           then bindP fgets_cli (\<lambda>sendline.
                  case sendline of
                    None \<Rightarrow> returnP True
                  | Some l \<Rightarrow> bindP (writen_cli (c_str l)) (\<lambda>_. returnP False))
           else returnP False))"

fun str_cli_select01 :: "sround list \<Rightarrow> (unit, cli) prog" where
  "str_cli_select01 [] w = Blocked w"
| "str_cli_select01 (ev # evs) w = bindP (select01_round ev) (\<lambda>done w'. if done then Ret () w' else str_cli_select01 evs w') w"

section \<open>Blocks\<close>

text \<open>
  The variables of \<^verbatim>\<open>str_cli_select02\<close> and what it has read and written. The replies are written to \<^verbatim>\<open>fileno(fp)\<close>, the descriptor of the input.
\<close>

record sel2 =
  stdineof :: bool
  got_in :: "char list"
  got_sock :: "char list"
  put_sock :: "char list"
  put_fp :: "char list"
  put_out :: "char list"
  fin_sent :: bool

record s2round = sround +
  v_sock :: "errno + char list"
  v_in :: "errno + char list"
  w_fp :: "errno option"
  w_sock :: "errno option"
  w_shut :: "errno option"

text \<open>\<open>None\<close>: the normal return.\<close>

definition sock_block :: "s2round \<Rightarrow> (unit option, sel2) prog" where
  "sock_block ev st =
     (case v_sock ev of
        Inl e \<Rightarrow> Die (Err_sys ''read error'' (Some e)) st
      | Inr data \<Rightarrow>
          let buf = take MAXLINE data
          in if buf = []
             then (if stdineof st then Ret None st else Die (Err_quit ''str_cli: server terminated prematurely'') st)
             else (case w_fp ev of
                     Some e \<Rightarrow> Die (Err_sys ''write error'' (Some e)) (st\<lparr>got_sock := got_sock st @ buf\<rparr>)
                   | None \<Rightarrow> Ret (Some ()) (st\<lparr>got_sock := got_sock st @ buf, put_fp := put_fp st @ buf\<rparr>)))"

definition in_block :: "s2round \<Rightarrow> (unit, sel2) prog" where
  "in_block ev st =
     (case v_in ev of
        Inl e \<Rightarrow> Die (Err_sys ''read error'' (Some e)) st
      | Inr data \<Rightarrow>
          let buf = take MAXLINE data
          in if buf = []
             then (case w_shut ev of
                     Some e \<Rightarrow> Die (Err_sys ''shutdown error'' (Some e)) (st\<lparr>stdineof := True\<rparr>)
                   | None \<Rightarrow> Ret () (st\<lparr>stdineof := True, fin_sent := True\<rparr>))
             else (case w_sock ev of
                     Some e \<Rightarrow> Die (Err_sys ''writen error'' (Some e)) (st\<lparr>got_in := got_in st @ buf\<rparr>)
                   | None \<Rightarrow> Ret () (st\<lparr>got_in := got_in st @ buf, put_sock := put_sock st @ buf\<rparr>)))"

definition select02_round :: "s2round \<Rightarrow> (bool, sel2) prog" where
  "select02_round ev st =
     (let rin = (\<not> stdineof st \<and> s_in ev)
      in if \<not> s_sock ev \<and> \<not> rin then Blocked st
         else bindP (if s_sock ev then sock_block ev else returnP (Some ())) (\<lambda>r.
                case r of
                  None \<Rightarrow> returnP True
                | Some _ \<Rightarrow> bindP (if rin then in_block ev else returnP ()) (\<lambda>_. returnP False)) st)"

fun str_cli_select02 :: "s2round list \<Rightarrow> (unit, sel2) prog" where
  "str_cli_select02 [] st = Blocked st"
| "str_cli_select02 (ev # evs) st = bindP (select02_round ev) (\<lambda>done st'. if done then Ret () st' else str_cli_select02 evs st') st"

definition sel2_start :: sel2 where
  "sel2_start = \<lparr>stdineof = False, got_in = [], got_sock = [], put_sock = [], put_fp = [], put_out = [], fin_sent = False\<rparr>"

section \<open>Nothing is lost\<close>

definition sel2_inv :: "sel2 \<Rightarrow> bool" where
  "sel2_inv st \<longleftrightarrow> put_sock st = got_in st \<and> put_fp st = got_sock st \<and> put_out st = [] \<and> (fin_sent st \<longleftrightarrow> stdineof st)"

definition sel2_keeps :: "('a, sel2) outcome \<Rightarrow> bool" where
  "sel2_keeps r \<longleftrightarrow> (case r of Ret _ st \<Rightarrow> sel2_inv st | Die _ st \<Rightarrow> put_out st = [] | Blocked st \<Rightarrow> sel2_inv st)"

lemma sel2_keeps_bind:
  assumes "sel2_keeps (m st)" and "\<And>a st'. m st = Ret a st' \<Longrightarrow> sel2_inv st' \<Longrightarrow> sel2_keeps (k a st')"
  shows "sel2_keeps (bindP m k st)"
  using assms by (cases "m st") (auto simp: sel2_keeps_def bindP_def)

lemma sel2_keeps_sock: "sel2_inv st \<Longrightarrow> sel2_keeps (sock_block ev st)"
  by (auto simp: sock_block_def sel2_keeps_def sel2_inv_def Let_def split: sum.splits option.splits)

lemma sel2_keeps_in: "sel2_inv st \<Longrightarrow> sel2_keeps (in_block ev st)"
  by (auto simp: in_block_def sel2_keeps_def sel2_inv_def Let_def split: sum.splits option.splits)

lemma sel2_keeps_return [simp]: "sel2_keeps (returnP a st) = sel2_inv st" "sel2_keeps (Ret a st) = sel2_inv st" "sel2_keeps (Blocked st) = sel2_inv st"
  by (simp_all add: sel2_keeps_def returnP_def)

lemma sel2_keeps_round:
  assumes "sel2_inv st"
  shows "sel2_keeps (select02_round ev st)"
  using assms
  by (auto simp: select02_round_def Let_def sel2_keeps_sock sel2_keeps_in intro!: sel2_keeps_bind split: option.splits if_splits)

lemma sel2_keeps_run: "sel2_inv st \<Longrightarrow> sel2_keeps (str_cli_select02 evs st)"
proof (induction evs arbitrary: st)
  case (Cons ev evs)
  then show ?case by (auto intro!: sel2_keeps_bind simp: sel2_keeps_round)
qed simp

lemma select02_round_done: "select02_round ev st = Ret True st' \<Longrightarrow> stdineof st'"
  by (auto simp: select02_round_def sock_block_def Let_def returnP_def split: if_splits sum.splits option.splits elim!: bindP_RetE)

lemma select02_done: "str_cli_select02 evs st = Ret () st' \<Longrightarrow> stdineof st'"
proof (induction evs arbitrary: st)
  case (Cons ev evs)
  then obtain b w where "select02_round ev st = Ret b w" "(if b then Ret () w else str_cli_select02 evs w) = Ret () st'"
    by (auto elim!: bindP_RetE)
  with Cons.IH select02_round_done [of ev st w] show ?case by (cases b) auto
qed simp

text \<open>
  When \<^verbatim>\<open>str_cli_select02\<close> returns, the whole input has been sent and followed by a FIN, and every byte that came from the socket has been
  written, in order, however the data was cut: unlike the nonblocking client it leaves nothing behind. But it was written to the
  descriptor of the input: the standard output has nothing.\<close>

theorem str_cli_select02_relays:
  assumes "str_cli_select02 evs sel2_start = Ret () st"
  shows "put_sock st = got_in st \<and> fin_sent st \<and> stdineof st \<and> put_fp st = got_sock st \<and> put_out st = []"
proof -
  have "sel2_inv sel2_start" by (simp add: sel2_inv_def sel2_start_def)
  from sel2_keeps_run [OF this, of evs] assms have "sel2_inv st" by simp
  with select02_done [OF assms] show ?thesis by (simp add: sel2_inv_def)
qed

theorem str_cli_select02_relays_witness:
  "\<exists>evs st. str_cli_select02 evs sel2_start = Ret () st \<and> got_in st = ''a'' \<and> got_sock st = ''b'' \<and> put_sock st = ''a'' \<and> put_fp st = ''b'' \<and> put_out st = []"
proof -
  define e where "e = \<lparr>s_sock = False, s_in = True, v_sock = Inr [], v_in = Inr ''a'', w_fp = None, w_sock = None, w_shut = None\<rparr>"
  let ?evs = "[e, e\<lparr>s_sock := True, v_sock := Inr ''b'', v_in := Inr []\<rparr>, e\<lparr>s_sock := True\<rparr>]"
  obtain st where r: "str_cli_select02 ?evs sel2_start = Ret () st" "got_in st = ''a''" "got_sock st = ''b''"
    by (simp add: e_def sel2_start_def select02_round_def sock_block_def in_block_def bindP_def returnP_def Let_def MAXLINE_def)
  with str_cli_select02_relays [OF r(1)] show ?thesis by (intro exI [of _ ?evs] exI [of _ st]) simp
qed

end
