(* ===== verification/Fd_Pass.thy ===== *)
theory Fd_Pass
  imports Ready_Scan Wrappers Locking "HOL-Library.Multiset"
begin

text \<open>
  The preforked server that passes descriptors, \<^verbatim>\<open>server/serv05.c\<close> and \<^verbatim>\<open>server/child05.c\<close>: the parent accepts all connections and hands each to a free child
  over a stream pipe; the child writes one byte back when it is done. The two directions of the pipe of child \<open>i\<close> are a list of descriptors on
  their way down and a number of bytes on their way up. The set \<^verbatim>\<open>rset\<close> is given by whether the listening socket is in it, and by the
  numbers of the children whose pipes are.
\<close>

section \<open>State\<close>

text \<open>Where a child is: in \<^verbatim>\<open>Read_fd\<close>, in \<^verbatim>\<open>web_child\<close>, before \<^verbatim>\<open>Close\<close>, before the \<^verbatim>\<open>Write\<close> to its parent, or ended.\<close>

datatype cpc = C_read | C_serve int | C_close int | C_write | C_dead fatal

record child =
  child_status :: int
  child_count :: nat
  child_pc :: cpc
  down :: "int list"
  up :: nat

record sys5 =
  cptr :: "child list"
  navail :: int
  accepted :: "int list"
  finished :: "int list"

definition child05_make :: child where
  "child05_make = \<lparr>child_status = 0, child_count = 0, child_pc = C_read, down = [], up = 0\<rparr>"

definition serv05_start :: "nat \<Rightarrow> sys5" where
  "serv05_start nchildren = \<lparr>cptr = replicate nchildren child05_make, navail = int nchildren, accepted = [], finished = []\<rparr>"

definition upd :: "nat \<Rightarrow> (child \<Rightarrow> child) \<Rightarrow> sys5 \<Rightarrow> sys5" where
  "upd i f s = s\<lparr>cptr := (cptr s)[i := f (cptr s ! i)]\<rparr>"

section \<open>The parent\<close>

record round5 =
  r_listen :: bool
  r_pipes :: "nat set"
  r_accept :: "(errno + int) list"
  r_writefd :: "errno option"
  r_close :: "errno option"

text \<open>The first child with \<^verbatim>\<open>child_status == 0\<close>, or \<^verbatim>\<open>nchildren\<close>.\<close>

fun find_ready :: "child list \<Rightarrow> nat \<Rightarrow> nat" where
  "find_ready [] i = i"
| "find_ready (c # cs) i = (if child_status c = 0 then i else find_ready cs (i + 1))"

definition new_conn :: "round5 \<Rightarrow> (unit, sys5) prog" where
  "new_conn ev s =
     (case Accept (r_accept ev) of
        Blocked x \<Rightarrow> Blocked s
      | Die f x \<Rightarrow> Die f s
      | Ret connfd x \<Rightarrow>
          (let i = find_ready (cptr s) 0
           in if i = length (cptr s) then Die (Err_quit ''no available children'') s
              else let s1 = (upd i (\<lambda>c. c\<lparr>child_status := 1, child_count := child_count c + 1\<rparr>) s)\<lparr>navail := navail s - 1\<rparr>
                   in (case r_writefd ev of
                         Some e \<Rightarrow> Die (Err_sys ''write_fd error'' (Some e)) s1
                       | None \<Rightarrow>
                           let s2 = (upd i (\<lambda>c. c\<lparr>down := down c @ [connfd]\<rparr>) s1)\<lparr>accepted := accepted s @ [connfd]\<rparr>
                           in (case r_close ev of
                                 Some e \<Rightarrow> Die (Err_sys ''close error'' (Some e)) s2
                               | None \<Rightarrow> Ret () s2))))"

text \<open>\<^verbatim>\<open>Read(cptr[i].child_pipefd, &rc, 1)\<close>: end of file when the child has ended and nothing is in the pipe.\<close>

definition child_ready :: "nat \<Rightarrow> (unit, sys5) prog" where
  "child_ready i s =
     (if up (cptr s ! i) = 0 then Die (Err_quit ''child %d terminated unexpectedly'') s
      else Ret () ((upd i (\<lambda>c. c\<lparr>child_status := 0, up := up c - 1\<rparr>) s)\<lparr>navail := navail s + 1\<rparr>))"

fun check_children :: "nat set \<Rightarrow> nat list \<Rightarrow> int \<Rightarrow> (unit, sys5) prog" where
  "check_children P [] nsel s = Ret () s"
| "check_children P (i # js) nsel s =
     (if i \<in> P then bindP (child_ready i) (\<lambda>_ s'. if nsel - 1 = 0 then Ret () s' else check_children P js (nsel - 1) s') s
      else check_children P js nsel s)"

definition serv05_round :: "round5 \<Rightarrow> (unit, sys5) prog" where
  "serv05_round ev s =
     (let lst = (r_listen ev \<and> \<not> navail s \<le> 0);
          P = r_pipes ev \<inter> {..<length (cptr s)};
          nsel = int (card P) + (if lst then 1 else 0)
      in if nsel = 0 then Blocked s
         else if lst
         then bindP (new_conn ev) (\<lambda>_ s'. if nsel - 1 = 0 then Ret () s' else check_children P [0..<length (cptr s)] (nsel - 1) s') s
         else check_children P [0..<length (cptr s)] nsel s)"

section \<open>The children\<close>

record choice5 =
  c_web :: "fatal option"
  c_close :: "errno option"
  c_write :: "errno option"

definition child05_main :: "choice5 \<Rightarrow> nat \<Rightarrow> sys5 \<Rightarrow> sys5 option" where
  "child05_main ch i s =
     (let c = cptr s ! i
      in case child_pc c of
           C_read \<Rightarrow> (case down c of [] \<Rightarrow> None | connfd # ds \<Rightarrow> Some (upd i (\<lambda>c. c\<lparr>child_pc := C_serve connfd, down := ds\<rparr>) s))
         | C_serve connfd \<Rightarrow>
             (case c_web ch of
                Some f \<Rightarrow> Some (upd i (\<lambda>c. c\<lparr>child_pc := C_dead f\<rparr>) s)
              | None \<Rightarrow> Some (upd i (\<lambda>c. c\<lparr>child_pc := C_close connfd\<rparr>) s))
         | C_close connfd \<Rightarrow>
             (case c_close ch of
                Some e \<Rightarrow> Some (upd i (\<lambda>c. c\<lparr>child_pc := C_dead (Err_sys ''close error'' (Some e))\<rparr>) s)
              | None \<Rightarrow> Some ((upd i (\<lambda>c. c\<lparr>child_pc := C_write\<rparr>) s)\<lparr>finished := finished s @ [connfd]\<rparr>))
         | C_write \<Rightarrow>
             (case c_write ch of
                Some e \<Rightarrow> Some (upd i (\<lambda>c. c\<lparr>child_pc := C_dead (Err_sys ''write error'' (Some e))\<rparr>) s)
              | None \<Rightarrow> Some (upd i (\<lambda>c. c\<lparr>child_pc := C_read, up := up c + 1\<rparr>) s))
         | C_dead f \<Rightarrow> None)"

text \<open>\<^verbatim>\<open>select\<close> reports a pipe when there is a byte in it or its other end is closed.\<close>

definition reports :: "round5 \<Rightarrow> sys5 \<Rightarrow> bool" where
  "reports ev s \<longleftrightarrow> (\<forall>i \<in> r_pipes ev. i < length (cptr s) \<longrightarrow> up (cptr s ! i) > 0 \<or> (\<exists>f. child_pc (cptr s ! i) = C_dead f))"

inductive sys5_step :: "sys5 \<Rightarrow> sys5 \<Rightarrow> bool" where
  Parent: "reports ev s \<Longrightarrow> serv05_round ev s = Ret () s' \<Longrightarrow> sys5_step s s'"
| Child: "i < length (cptr s) \<Longrightarrow> child05_main ch i s = Some s' \<Longrightarrow> sys5_step s s'"

section \<open>The invariant\<close>

text \<open>
  A busy child has its connection in exactly one place: in the pipe, in its hands, or its answer is on the way back.
\<close>

fun working :: "cpc \<Rightarrow> nat" where
  "working C_read = 0"
| "working _ = 1"

definition child_ok :: "child \<Rightarrow> bool" where
  "child_ok c \<longleftrightarrow> child_status c = int (length (down c) + working (child_pc c) + up c) \<and> child_status c \<le> 1"

definition idle :: "child \<Rightarrow> int" where
  "idle c = 1 - child_status c"

definition sys5_inv :: "sys5 \<Rightarrow> bool" where
  "sys5_inv s \<longleftrightarrow> (\<forall>c \<in> set (cptr s). child_ok c) \<and> navail s = sum_list (map idle (cptr s))"

lemma cptr_upd [simp]: "cptr (upd i f s) = (cptr s)[i := f (cptr s ! i)]" "navail (upd i f s) = navail s"
  "accepted (upd i f s) = accepted s" "finished (upd i f s) = finished s"
  by (simp_all add: upd_def)

lemma sys5_inv_start: "sys5_inv (serv05_start n)"
  by (auto simp: sys5_inv_def serv05_start_def child05_make_def child_ok_def idle_def sum_list_replicate)

lemma inv_same_status:
  assumes "sys5_inv s" and "i < length (cptr s)" and "child_ok (f (cptr s ! i))" and "child_status (f (cptr s ! i)) = child_status (cptr s ! i)"
  shows "sys5_inv (upd i f s)" and "sys5_inv ((upd i f s)\<lparr>finished := xs\<rparr>)"
proof -
  have "\<forall>c \<in> set ((cptr s)[i := f (cptr s ! i)]). child_ok c" using assms by (intro all_set_update) (auto simp: sys5_inv_def)
  with assms show "sys5_inv (upd i f s)" "sys5_inv ((upd i f s)\<lparr>finished := xs\<rparr>)" by (simp_all add: sys5_inv_def idle_def map_same_update)
qed

lemma child05_main_inv:
  assumes "sys5_inv s" and "i < length (cptr s)" and "child05_main ch i s = Some s'"
  shows "sys5_inv s'"
proof -
  have "child_ok (cptr s ! i)" using assms(1,2) by (simp add: sys5_inv_def)
  with assms show ?thesis
    by (auto simp: child05_main_def Let_def child_ok_def inv_same_status split: cpc.splits list.splits option.splits)
qed

lemma find_ready_spec:
  "find_ready cs i = i + length cs \<and> (\<forall>c \<in> set cs. child_status c \<noteq> 0)
   \<or> (\<exists>k < length cs. find_ready cs i = i + k \<and> child_status (cs ! k) = 0)"
proof (induction cs arbitrary: i)
  case (Cons c cs)
  show ?case
  proof (cases "child_status c = 0")
    case False
    from Cons [of "i + 1"] show ?thesis
    proof
      assume "\<exists>k < length cs. find_ready cs (i + 1) = i + 1 + k \<and> child_status (cs ! k) = 0"
      then obtain k where "k < length cs" "find_ready cs (i + 1) = i + 1 + k" "child_status (cs ! k) = 0" by blast
      with False show ?thesis by (intro disjI2 exI [of _ "Suc k"]) simp
    qed (use False in auto)
  qed auto
qed simp

text \<open>As long as \<^verbatim>\<open>navail\<close> is positive there is a child that is free.\<close>

lemma status_cases: "child_ok c \<Longrightarrow> child_status c = 0 \<or> child_status c = 1"
  by (auto simp: child_ok_def)

lemma busy_sum: "(\<forall>c \<in> set cs. child_ok c \<and> child_status c \<noteq> 0) \<Longrightarrow> sum_list (map idle cs) = 0"
  by (induction cs) (auto simp: idle_def dest!: status_cases)

lemma find_ready_avail:
  assumes "sys5_inv s" and "0 < navail s"
  shows "find_ready (cptr s) 0 < length (cptr s)" and "child_status (cptr s ! find_ready (cptr s) 0) = 0"
  using find_ready_spec [of "cptr s" 0] busy_sum [of "cptr s"] assms by (auto simp: sys5_inv_def)

lemma sum_idle_update:
  assumes "i < length cs"
  shows "sum_list (map idle (cs[i := c])) = sum_list (map idle cs) + idle c - idle (cs ! i)"
  using sum_update [OF assms, of idle c] by simp

lemma child_free: "child_ok c \<Longrightarrow> child_status c = 0 \<Longrightarrow> down c = [] \<and> child_pc c = C_read \<and> up c = 0"
proof -
  assume "child_ok c" and "child_status c = 0"
  then have z: "length (down c) + working (child_pc c) + up c = 0" unfolding child_ok_def by (metis of_nat_eq_0_iff)
  moreover have "working (child_pc c) = 0 \<Longrightarrow> child_pc c = C_read" by (cases "child_pc c") auto
  ultimately show ?thesis by simp
qed

lemma new_conn_step:
  assumes inv: "sys5_inv s" and av: "0 < navail s" and st: "new_conn ev s = Ret u s'"
  obtains i connfd where "i < length (cptr s)" and "child_status (cptr s ! i) = 0"
    and "cptr s' = (cptr s)[i := (cptr s ! i)\<lparr>child_status := 1, child_count := child_count (cptr s ! i) + 1, down := [connfd]\<rparr>]"
    and "navail s' = navail s - 1" and "accepted s' = accepted s @ [connfd]" and "finished s' = finished s"
proof -
  let ?i = "find_ready (cptr s) 0"
  note i = find_ready_avail [OF inv av]
  have "down (cptr s ! ?i) = []" using child_free inv i by (simp add: sys5_inv_def)
  with st i that [of ?i] show thesis
    by (auto simp: new_conn_def Let_def split: outcome.splits option.splits if_splits)
qed

lemma new_conn_inv:
  assumes "sys5_inv s" and "0 < navail s" and "new_conn ev s = Ret u s'"
  shows "sys5_inv s'"
proof -
  obtain i connfd where i: "i < length (cptr s)" "child_status (cptr s ! i) = 0" and n: "navail s' = navail s - 1"
    and s': "cptr s' = (cptr s)[i := (cptr s ! i)\<lparr>child_status := 1, child_count := child_count (cptr s ! i) + 1, down := [connfd]\<rparr>]"
    using new_conn_step [OF assms] by metis
  have "child_ok (cptr s ! i)" using assms(1) i by (simp add: sys5_inv_def)
  from child_free [OF this i(2)] have "child_ok (cptr s' ! i)" using i by (simp add: s' child_ok_def)
  then have "\<forall>c \<in> set (cptr s'). child_ok c" using assms(1) i unfolding s' by (intro all_set_update) (auto simp: sys5_inv_def)
  then show ?thesis using assms(1) n i by (simp add: sys5_inv_def s' sum_idle_update idle_def)
qed

lemma child_ready_inv:
  assumes "sys5_inv s" and "i < length (cptr s)" and "child_ready i s = Ret u s'"
  shows "sys5_inv s'" and "length (cptr s') = length (cptr s)"
proof -
  let ?c = "cptr s ! i"
  let ?d = "?c\<lparr>child_status := 0, up := up ?c - 1\<rparr>"
  have ok: "child_ok ?c" using assms(1,2) by (simp add: sys5_inv_def)
  have u: "0 < up ?c" and s': "s' = (upd i (\<lambda>c. c\<lparr>child_status := 0, up := up c - 1\<rparr>) s)\<lparr>navail := navail s + 1\<rparr>"
    using assms(3) by (auto simp: child_ready_def split: if_splits)
  then have one: "child_status ?c = 1" using ok by (auto simp: child_ok_def)
  with ok u have "child_ok ?d" by (auto simp: child_ok_def)
  then have "\<forall>c \<in> set ((cptr s)[i := ?d]). child_ok c" using assms(1) by (intro all_set_update) (auto simp: sys5_inv_def)
  with one assms(1,2) show "sys5_inv s'" by (simp add: s' sys5_inv_def sum_idle_update idle_def)
  show "length (cptr s') = length (cptr s)" by (simp add: s')
qed

lemma check_children_inv:
  "sys5_inv s \<Longrightarrow> \<forall>j \<in> set js. j < length (cptr s) \<Longrightarrow> check_children P js n s = Ret u s' \<Longrightarrow> sys5_inv s'"
proof (induction js arbitrary: n s)
  case (Cons i js)
  show ?case
  proof (cases "i \<in> P")
    case True
    with Cons.prems obtain v s1 where s1: "child_ready i s = Ret v s1"
      and r: "(if n - 1 = 0 then Ret () s1 else check_children P js (n - 1) s1) = Ret u s'"
      by (auto elim!: bindP_RetE)
    have "sys5_inv s1" "length (cptr s1) = length (cptr s)" using child_ready_inv [OF _ _ s1] Cons.prems by auto
    with r Cons.IH [of s1 "n - 1"] Cons.prems(2) show ?thesis by (auto split: if_splits)
  qed (use Cons in auto)
qed simp

text \<open>A round that ends is at most an accept and a check of the children.\<close>

lemma serv05_round_shape:
  assumes "serv05_round ev s = Ret u s'"
  shows "\<exists>s1 v n. (s1 = s \<or> 0 < navail s \<and> new_conn ev s = Ret v s1)
    \<and> (s' = s1 \<or> check_children (r_pipes ev \<inter> {..<length (cptr s)}) [0..<length (cptr s)] n s1 = Ret u s')"
proof (cases "r_listen ev \<and> \<not> navail s \<le> 0")
  case True
  define n where "n = int (card (r_pipes ev \<inter> {..<length (cptr s)}))"
  have n0: "n = 0 \<longleftrightarrow> r_pipes ev \<inter> {..<length (cptr s)} = {}" by (simp add: n_def)
  have "bindP (new_conn ev) (\<lambda>_ s1. if n = 0 then Ret () s1
      else check_children (r_pipes ev \<inter> {..<length (cptr s)}) [0..<length (cptr s)] n s1) s = Ret u s'"
    using assms True by (simp add: serv05_round_def n_def [symmetric] n0 Let_def cong: if_cong split: if_split_asm)
  then obtain v s1 where "new_conn ev s = Ret v s1" and
    "(if n = 0 then Ret () s1 else check_children (r_pipes ev \<inter> {..<length (cptr s)}) [0..<length (cptr s)] n s1) = Ret u s'"
    by (rule bindP_RetE)
  with True show ?thesis by (intro exI [of _ s1] exI [of _ v] exI [of _ n]) (auto split: if_splits)
next
  case False
  define n where "n = int (card (r_pipes ev \<inter> {..<length (cptr s)}))"
  from False assms have "check_children (r_pipes ev \<inter> {..<length (cptr s)}) [0..<length (cptr s)] n s = Ret u s'"
    by (auto simp: serv05_round_def n_def Let_def split: if_split_asm)
  then show ?thesis by blast
qed

lemma new_conn_length: "new_conn ev s = Ret u s' \<Longrightarrow> length (cptr s') = length (cptr s)"
  by (auto simp: new_conn_def Let_def split: outcome.splits option.splits if_splits)

lemma serv05_round_inv:
  assumes "sys5_inv s" and "serv05_round ev s = Ret u s'"
  shows "sys5_inv s'"
proof -
  obtain s1 v n where 1: "s1 = s \<or> 0 < navail s \<and> new_conn ev s = Ret v s1"
    and 2: "s' = s1 \<or> check_children (r_pipes ev \<inter> {..<length (cptr s)}) [0..<length (cptr s)] n s1 = Ret u s'"
    using serv05_round_shape [OF assms(2)] by blast
  have "sys5_inv s1" "length (cptr s1) = length (cptr s)" using 1 assms(1) new_conn_inv new_conn_length by auto
  with 2 check_children_inv [of s1 "[0..<length (cptr s)]"] show ?thesis by auto
qed

lemma sys5_inv_step: "sys5_step s s' \<Longrightarrow> sys5_inv s \<Longrightarrow> sys5_inv s'"
  by (auto elim!: sys5_step.cases intro: serv05_round_inv child05_main_inv)

lemma sys5_inv_reach: "sys5_step\<^sup>*\<^sup>* (serv05_start n) s \<Longrightarrow> sys5_inv s"
  by (rule step_invariant [of sys5_step "serv05_start n" s sys5_inv]) (auto simp: sys5_inv_start intro: sys5_inv_step)

section \<open>No report is skipped\<close>

interpretation five: ready_table "\<lambda>_ i. i \<in> P" child_ready "\<lambda>_. True" for P
  by unfold_locales auto

lemma check_children_visit:
  "distinct js \<Longrightarrow> int (card (P \<inter> set js)) \<le> n \<Longrightarrow> check_children P js n s = visit (\<lambda>_ i. i \<in> P) child_ready js s"
proof (induction js arbitrary: n s)
  case (Cons i js)
  show ?case
  proof (cases "i \<in> P")
    case True
    with Cons.prems have le: "int (card (P \<inter> set js)) \<le> n - 1" by simp
    have "visit (\<lambda>_ i. i \<in> P) child_ready js s1 = Ret () s1" if "n - 1 = 0" for s1
    proof -
      have "P \<inter> set js = {}" using le that by simp
      then show ?thesis by (intro five.visit_none) (auto simp: five.hits_def filter_empty_conv)
    qed
    with True le Cons.IH Cons.prems(1) show ?thesis by (auto simp: bindP_def split: outcome.splits)
  qed (use Cons in auto)
qed simp

lemma Accept_msg: "Accept evs = Die f r \<Longrightarrow> \<exists>e. f = Err_sys ''accept error'' (Some e)"
  by (induction evs rule: Accept.induct) (auto split: if_splits)

lemma new_conn_available:
  assumes "sys5_inv s" and "0 < navail s"
  shows "new_conn ev s \<noteq> Die (Err_quit ''no available children'') s'"
  using find_ready_avail(1) [OF assms]
  by (auto simp: new_conn_def Let_def split: outcome.splits option.splits dest: Accept_msg)

lemma check_children_msg: "check_children P js n s \<noteq> Die (Err_quit ''no available children'') s'"
proof (induction js arbitrary: n s)
  case (Cons i js)
  show ?case
  proof (cases "child_ready i s")
    case (Die f x)
    then have "f = Err_quit ''child %d terminated unexpectedly''" by (auto simp: child_ready_def split: if_splits)
    with Die Cons show ?thesis by simp
  qed (use Cons in simp_all)
qed simp

section \<open>Where a connection is\<close>

fun in_hand :: "cpc \<Rightarrow> int multiset" where
  "in_hand (C_serve c) = {# c #}"
| "in_hand (C_close c) = {# c #}"
| "in_hand _ = {#}"

definition carried :: "child \<Rightarrow> int multiset" where
  "carried c = mset (down c) + in_hand (child_pc c)"

definition sys5_bal :: "sys5 \<Rightarrow> bool" where
  "sys5_bal s \<longleftrightarrow> mset (finished s) + sum_list (map carried (cptr s)) \<subseteq># mset (accepted s)"

lemma bal_update:
  assumes "sys5_bal s" and "i < length (cptr s)" and "cptr s' = (cptr s)[i := c]"
    and "mset (finished s') + carried c + mset (accepted s) \<subseteq># mset (finished s) + carried (cptr s ! i) + mset (accepted s')"
  shows "sys5_bal s'"
proof -
  let ?S = "sum_list (map carried (cptr s))" and ?T = "sum_list (map carried (cptr s'))"
  have t: "?T + carried (cptr s ! i) = ?S + carried c" unfolding assms(3) by (rule sum_update [OF assms(2)])
  have "mset (finished s') + ?T + (mset (accepted s) + carried (cptr s ! i)) = (mset (finished s') + carried c + mset (accepted s)) + ?S"
    using t by (metis (no_types, lifting) add.assoc add.commute)
  also have "\<dots> \<subseteq># (mset (finished s) + carried (cptr s ! i) + mset (accepted s')) + ?S" using assms(4) by (rule subset_mset.add_right_mono)
  also have "\<dots> = mset (accepted s') + (mset (finished s) + ?S) + carried (cptr s ! i)" by (simp add: ac_simps)
  also have "\<dots> \<subseteq># mset (accepted s') + mset (accepted s) + carried (cptr s ! i)"
    using assms(1) unfolding sys5_bal_def by (intro subset_mset.add_right_mono subset_mset.add_left_mono)
  finally have "mset (finished s') + ?T + (mset (accepted s) + carried (cptr s ! i)) \<subseteq># mset (accepted s') + (mset (accepted s) + carried (cptr s ! i))"
    by (simp add: ac_simps)
  then show ?thesis unfolding sys5_bal_def by simp
qed

lemma child05_main_bal:
  assumes "sys5_bal s" and "i < length (cptr s)" and "child05_main ch i s = Some s'"
  shows "sys5_bal s'"
proof (rule bal_update [OF assms(1,2)])
  show "cptr s' = (cptr s)[i := cptr s' ! i]" using assms(2,3)
    by (auto simp: child05_main_def Let_def split: cpc.splits list.splits option.splits)
  show "mset (finished s') + carried (cptr s' ! i) + mset (accepted s) \<subseteq># mset (finished s) + carried (cptr s ! i) + mset (accepted s')"
    using assms(2,3) by (auto simp: child05_main_def Let_def carried_def split: cpc.splits list.splits option.splits)
qed

lemma new_conn_bal:
  assumes "sys5_inv s" and "0 < navail s" and "new_conn ev s = Ret u s'" and "sys5_bal s"
  shows "sys5_bal s'"
proof -
  obtain i connfd where i: "i < length (cptr s)" "child_status (cptr s ! i) = 0"
    and s': "cptr s' = (cptr s)[i := (cptr s ! i)\<lparr>child_status := 1, child_count := child_count (cptr s ! i) + 1, down := [connfd]\<rparr>]"
    and a: "accepted s' = accepted s @ [connfd]" "finished s' = finished s"
    using new_conn_step [OF assms(1-3)] by metis
  have "child_ok (cptr s ! i)" using assms(1) i by (simp add: sys5_inv_def)
  from child_free [OF this i(2)] show ?thesis
    by (intro bal_update [OF assms(4) i(1) s']) (simp add: carried_def a)
qed

lemma child_ready_bal:
  assumes "i < length (cptr s)" and "child_ready i s = Ret u s'" and "sys5_bal s"
  shows "sys5_bal s'" and "length (cptr s') = length (cptr s)"
proof -
  have s': "s' = (upd i (\<lambda>c. c\<lparr>child_status := 0, up := up c - 1\<rparr>) s)\<lparr>navail := navail s + 1\<rparr>"
    using assms(2) by (auto simp: child_ready_def split: if_splits)
  show "sys5_bal s'" by (rule bal_update [OF assms(3,1)]) (auto simp: s' carried_def)
  show "length (cptr s') = length (cptr s)" by (simp add: s')
qed

lemma check_children_bal:
  "sys5_bal s \<Longrightarrow> \<forall>j \<in> set js. j < length (cptr s) \<Longrightarrow> check_children P js n s = Ret u s' \<Longrightarrow> sys5_bal s'"
proof (induction js arbitrary: n s)
  case (Cons i js)
  show ?case
  proof (cases "i \<in> P")
    case True
    with Cons.prems obtain v s1 where s1: "child_ready i s = Ret v s1"
      and r: "(if n - 1 = 0 then Ret () s1 else check_children P js (n - 1) s1) = Ret u s'"
      by (auto elim!: bindP_RetE)
    have "sys5_bal s1" "length (cptr s1) = length (cptr s)" using child_ready_bal [OF _ s1] Cons.prems by auto
    with r Cons.IH [of s1 "n - 1"] Cons.prems(2) show ?thesis by (auto split: if_splits)
  qed (use Cons in auto)
qed simp

lemma serv05_round_bal:
  assumes "sys5_inv s" and "sys5_bal s" and "serv05_round ev s = Ret u s'"
  shows "sys5_bal s'"
proof -
  obtain s1 v n where 1: "s1 = s \<or> 0 < navail s \<and> new_conn ev s = Ret v s1"
    and 2: "s' = s1 \<or> check_children (r_pipes ev \<inter> {..<length (cptr s)}) [0..<length (cptr s)] n s1 = Ret u s'"
    using serv05_round_shape [OF assms(3)] by blast
  have "sys5_bal s1" "length (cptr s1) = length (cptr s)" using 1 assms(1,2) new_conn_bal new_conn_length by auto
  with 2 check_children_bal [of s1 "[0..<length (cptr s)]"] show ?thesis by auto
qed

lemma sys5_bal_reach: "sys5_step\<^sup>*\<^sup>* (serv05_start n) s \<Longrightarrow> sys5_bal s"
proof -
  assume r: "sys5_step\<^sup>*\<^sup>* (serv05_start n) s"
  have z: "sum_list (map carried (replicate n child05_make)) = {#}" by (induction n) (simp_all add: carried_def child05_make_def)
  have b: "sys5_bal (serv05_start n)" using z by (simp add: sys5_bal_def serv05_start_def)
  have "sys5_inv s \<and> sys5_bal s"
  proof (rule step_invariant [OF r])
    show "sys5_inv (serv05_start n) \<and> sys5_bal (serv05_start n)" using b sys5_inv_start by simp
    show "sys5_inv y \<and> sys5_bal y" if "sys5_step x y" and "sys5_inv x \<and> sys5_bal x" for x y
      using that by (auto elim!: sys5_step.cases intro: serv05_round_inv child05_main_inv serv05_round_bal child05_main_bal)
  qed
  then show ?thesis ..
qed

section \<open>Property\<close>

text \<open>
  C6. In every reachable state of the server that passes descriptors, \<^verbatim>\<open>navail\<close> is the number of children whose status is 0; a child with status 0 has
  no connection, and one with status 1 has exactly one, in its pipe, in its hands, or finished and on the way to being reported; no connection
  is given to two children; hence the parent never comes to \<^verbatim>\<open>no available children\<close>, and the countdown of \<^verbatim>\<open>nsel\<close> skips no child that
  reports.\<close>

theorem serv05_hands_out:
  assumes "sys5_step\<^sup>*\<^sup>* (serv05_start n) s"
  shows "navail s = int (length (filter (\<lambda>c. child_status c = 0) (cptr s)))
    \<and> (\<forall>c \<in> set (cptr s). child_status c = int (length (down c) + working (child_pc c) + up c) \<and> child_status c \<in> {0, 1})
    \<and> mset (finished s) + sum_list (map carried (cptr s)) \<subseteq># mset (accepted s)
    \<and> serv05_round ev s \<noteq> Die (Err_quit ''no available children'') s'
    \<and> check_children P [0..<length (cptr s)] (int (card (P \<inter> {..<length (cptr s)}))) s
      = visit (\<lambda>_ i. i \<in> P) child_ready [0..<length (cptr s)] s"
proof (intro conjI)
  have inv: "sys5_inv s" by (rule sys5_inv_reach [OF assms])
  have "sum_list (map idle cs) = int (length (filter (\<lambda>c. child_status c = 0) cs))" if "\<forall>c \<in> set cs. child_ok c" for cs
    using that by (induction cs) (auto simp: idle_def dest!: status_cases)
  then show "navail s = int (length (filter (\<lambda>c. child_status c = 0) (cptr s)))" using inv by (simp add: sys5_inv_def)
  show "\<forall>c \<in> set (cptr s). child_status c = int (length (down c) + working (child_pc c) + up c) \<and> child_status c \<in> {0, 1}"
    using inv status_cases by (auto simp: sys5_inv_def child_ok_def)
  show "mset (finished s) + sum_list (map carried (cptr s)) \<subseteq># mset (accepted s)"
    using sys5_bal_reach [OF assms] by (simp add: sys5_bal_def)
  show "serv05_round ev s \<noteq> Die (Err_quit ''no available children'') s'"
    using new_conn_available [OF inv] check_children_msg
    by (auto simp: serv05_round_def Let_def bindP_def split: outcome.splits if_splits)
  show "check_children P [0..<length (cptr s)] (int (card (P \<inter> {..<length (cptr s)}))) s
      = visit (\<lambda>_ i. i \<in> P) child_ready [0..<length (cptr s)] s"
    by (rule check_children_visit) (simp_all add: atLeast0LessThan)
qed

theorem serv05_hands_out_witness:
  "\<exists>s :: sys5. accepted s = [7] \<and> navail s = 1 \<and> mset (finished s) + sum_list (map carried (cptr s)) \<subseteq># {# 7 #}"
proof -
  let ?ev = "\<lparr>r_listen = True, r_pipes = {}, r_accept = [Inr 7], r_writefd = None, r_close = None\<rparr>"
  obtain s where s: "serv05_round ?ev (serv05_start 2) = Ret () s" "accepted s = [7]" "navail s = 1"
    by (simp add: serv05_round_def serv05_start_def new_conn_def upd_def child05_make_def bindP_def Let_def numeral_eq_Suc)
  have "sys5_step (serv05_start 2) s" by (rule Parent [of ?ev]) (simp_all add: reports_def s)
  then have r: "sys5_step\<^sup>*\<^sup>* (serv05_start 2) s" by (rule r_into_rtranclp)
  have "mset (finished s) + sum_list (map carried (cptr s)) \<subseteq># mset (accepted s)" using serv05_hands_out [OF r] by blast
  with s(2,3) show ?thesis by (intro exI [of _ s]) simp
qed

end
