(* ===== verification/Sock_Opts.thy ===== *)
theory Sock_Opts
  imports Wrappers
begin

text \<open>
  The listing of the default values of the socket options, \<^verbatim>\<open>checkopts\<close> of \<^verbatim>\<open>2_basic_socket.c\<close>: the table \<^verbatim>\<open>sock_opts[]\<close>, the functions that format a value out
  of the bytes of \<^verbatim>\<open>union val\<close>, and the loop. What depends on the configuration is an argument: which of the conditional options are
  defined, and whether \<^verbatim>\<open>IPV6\<close> and \<^verbatim>\<open>IPPROTO_SCTP\<close> are. Integers have 4 and longs 8 bytes, the least significant one first.
\<close>

section \<open>Values\<close>

fun le_nat :: "byte list \<Rightarrow> nat" where
  "le_nat [] = 0"
| "le_nat (b # bs) = unat b + 256 * le_nat bs"

definition le_int :: "byte list \<Rightarrow> int" where
  "le_int bs = (let n = int (le_nat bs); m = 2 ^ (8 * length bs) in if m \<le> 2 * n then n - m else n)"

text \<open>The fields of the union at their offsets.\<close>

definition field :: "nat \<Rightarrow> nat \<Rightarrow> byte list \<Rightarrow> int" where
  "field off sz v = le_int (take sz (drop off v))"

definition snprintf128 :: "string \<Rightarrow> string" where
  "snprintf128 s = take 127 s"

definition bad_size :: "int \<Rightarrow> string \<Rightarrow> string" where
  "bad_size len t = snprintf128 (''size ('' @ dec_int len @ '') not sizeof('' @ t @ '')'')"

definition sock_str_flag :: "byte list \<Rightarrow> int \<Rightarrow> string" where
  "sock_str_flag v len =
     (if len \<noteq> 4 then bad_size len ''int'' else snprintf128 (if field 0 4 v = 0 then ''off'' else ''on''))"

definition sock_str_int :: "byte list \<Rightarrow> int \<Rightarrow> string" where
  "sock_str_int v len = (if len \<noteq> 4 then bad_size len ''int'' else snprintf128 (dec_int (field 0 4 v)))"

definition sock_str_linger :: "byte list \<Rightarrow> int \<Rightarrow> string" where
  "sock_str_linger v len =
     (if len \<noteq> 8 then bad_size len ''struct linger''
      else snprintf128 (''l_onoff = '' @ dec_int (field 0 4 v) @ '', l_linger = '' @ dec_int (field 4 4 v)))"

definition sock_str_timeval :: "byte list \<Rightarrow> int \<Rightarrow> string" where
  "sock_str_timeval v len =
     (if len \<noteq> 16 then bad_size len ''struct timeval''
      else snprintf128 (dec_int (field 0 8 v) @ '' sec, '' @ dec_int (field 8 8 v) @ '' usec''))"

section \<open>The table\<close>

datatype level = SOL_SOCKET | IPPROTO_IP | IPPROTO_IPV6 | IPPROTO_TCP | IPPROTO_SCTP | LEVEL0

record sock_opt =
  opt_str :: string
  opt_level :: level
  opt_val_str :: "(byte list \<Rightarrow> int \<Rightarrow> string) option"

definition opt :: "string \<Rightarrow> level \<Rightarrow> (byte list \<Rightarrow> int \<Rightarrow> string) \<Rightarrow> sock_opt" where
  "opt s l f = \<lparr>opt_str = s, opt_level = l, opt_val_str = Some f\<rparr>"

text \<open>An entry between \<^verbatim>\<open>#ifdef\<close> and \<^verbatim>\<open>#else\<close>.\<close>

definition opt_if :: "(string \<Rightarrow> bool) \<Rightarrow> string \<Rightarrow> level \<Rightarrow> (byte list \<Rightarrow> int \<Rightarrow> string) \<Rightarrow> sock_opt" where
  "opt_if have s l f = (if have s then opt s l f else \<lparr>opt_str = s, opt_level = LEVEL0, opt_val_str = None\<rparr>)"

definition sock_opts :: "(string \<Rightarrow> bool) \<Rightarrow> sock_opt list" where
  "sock_opts have =
     [opt ''SO_BROADCAST'' SOL_SOCKET sock_str_flag,
      opt ''SO_DEBUG'' SOL_SOCKET sock_str_flag,
      opt ''SO_DONTROUTE'' SOL_SOCKET sock_str_flag,
      opt ''SO_ERROR'' SOL_SOCKET sock_str_int,
      opt ''SO_KEEPALIVE'' SOL_SOCKET sock_str_flag,
      opt ''SO_LINGER'' SOL_SOCKET sock_str_linger,
      opt ''SO_OOBINLINE'' SOL_SOCKET sock_str_flag,
      opt ''SO_RCVBUF'' SOL_SOCKET sock_str_int,
      opt ''SO_SNDBUF'' SOL_SOCKET sock_str_int,
      opt ''SO_RCVLOWAT'' SOL_SOCKET sock_str_int,
      opt ''SO_SNDLOWAT'' SOL_SOCKET sock_str_int,
      opt ''SO_RCVTIMEO'' SOL_SOCKET sock_str_timeval,
      opt ''SO_SNDTIMEO'' SOL_SOCKET sock_str_timeval,
      opt ''SO_REUSEADDR'' SOL_SOCKET sock_str_flag,
      opt_if have ''SO_REUSEPORT'' SOL_SOCKET sock_str_flag,
      opt ''SO_TYPE'' SOL_SOCKET sock_str_int]
   @ (if have ''SO_USELOOPBACK'' then [opt ''SO_USELOOPBACK'' SOL_SOCKET sock_str_flag] else [])
   @ [opt ''IP_TOS'' IPPROTO_IP sock_str_int,
      opt ''IP_TTL'' IPPROTO_IP sock_str_int,
      opt_if have ''IPV6_DONTFRAG'' IPPROTO_IPV6 sock_str_flag,
      opt_if have ''IPV6_UNICAST_HOPS'' IPPROTO_IPV6 sock_str_int,
      opt_if have ''IPV6_V6ONLY'' IPPROTO_IPV6 sock_str_flag,
      opt ''TCP_MAXSEG'' IPPROTO_TCP sock_str_int,
      opt ''TCP_NODELAY'' IPPROTO_TCP sock_str_flag,
      opt_if have ''SCTP_AUTOCLOSE'' IPPROTO_SCTP sock_str_int,
      opt_if have ''SCTP_MAXBURST'' IPPROTO_SCTP sock_str_int,
      opt_if have ''SCTP_MAXSEG'' IPPROTO_SCTP sock_str_int,
      opt_if have ''SCTP_NODELAY'' IPPROTO_SCTP sock_str_flag]"

section \<open>The loop\<close>

text \<open>
  The environment: \<^verbatim>\<open>socket\<close> for each level (its result depends on the number of sockets made before), \<^verbatim>\<open>getsockopt\<close>, which overwrites the first bytes of
  \<^verbatim>\<open>val\<close> and sets the length. The state: \<^verbatim>\<open>val\<close>, the standard output, the descriptors that are open.
\<close>

record optenv =
  e_socket :: "level \<Rightarrow> nat \<Rightarrow> errno + int"
  e_get :: "string \<Rightarrow> errno + byte list"
  cfg_ipv6 :: bool
  cfg_sctp :: bool

record optst =
  ost_val :: "byte list"
  ost_out :: string
  ost_err :: "errno list"
  ost_open :: "int set"
  ost_made :: nat

definition opt_socket :: "optenv \<Rightarrow> level \<Rightarrow> (int, optst) prog" where
  "opt_socket env l st =
     (if l \<in> {SOL_SOCKET, IPPROTO_IP, IPPROTO_TCP} \<or> l = IPPROTO_IPV6 \<and> cfg_ipv6 env \<or> l = IPPROTO_SCTP \<and> cfg_sctp env
      then (case e_socket env l (ost_made st) of
              Inl e \<Rightarrow> Die (Err_sys ''socket error'' (Some e)) st
            | Inr fd \<Rightarrow> Ret fd (st\<lparr>ost_open := insert fd (ost_open st), ost_made := ost_made st + 1\<rparr>))
      else Die (Err_quit ''Can't create fd for level %d'') st)"

definition opt_show :: "optenv \<Rightarrow> sock_opt \<Rightarrow> optst \<Rightarrow> optst" where
  "opt_show env q st =
     (case e_get env (opt_str q) of
        Inl e \<Rightarrow> st\<lparr>ost_err := ost_err st @ [e]\<rparr>
      | Inr bs \<Rightarrow>
          (let v = bs @ drop (length bs) (ost_val st)
           in st\<lparr>ost_val := v, ost_out := ost_out st @ ''default = '' @ the (opt_val_str q) v (int (length bs)) @ [NL]\<rparr>))"

fun checkopts_loop :: "optenv \<Rightarrow> sock_opt list \<Rightarrow> (unit, optst) prog" where
  "checkopts_loop env [] st = Ret () st"
| "checkopts_loop env (q # qs) st0 =
     (let st = st0\<lparr>ost_out := ost_out st0 @ opt_str q @ '': ''\<rparr>
      in if opt_val_str q = None
         then checkopts_loop env qs (st\<lparr>ost_out := ost_out st @ ''(undefined)'' @ [NL]\<rparr>)
         else bindP (opt_socket env (opt_level q)) (\<lambda>fd st1.
                let st2 = opt_show env q st1
                in checkopts_loop env qs (st2\<lparr>ost_open := ost_open st2 - {fd}\<rparr>)) st)"

definition checkopts :: "optenv \<Rightarrow> (string \<Rightarrow> bool) \<Rightarrow> (unit, optst) prog" where
  "checkopts env have = checkopts_loop env (sock_opts have)"

section \<open>The static buffer is never too small\<close>

lemma le_nat_less: "le_nat bs < 256 ^ length bs"
proof (induction bs)
  case (Cons b bs)
  have "unat b < 2 ^ LENGTH(8)" by (rule unsigned_less)
  with Cons show ?case by simp
qed simp

lemma le_int_bounds: "- (2 ^ (8 * length bs)) \<le> le_int bs \<and> le_int bs < 2 ^ (8 * length bs)"
proof -
  have "(256 :: nat) ^ length bs = 2 ^ (8 * length bs)" by (simp add: power_mult)
  then have "le_nat bs < 2 ^ (8 * length bs)" using le_nat_less [of bs] by simp
  then have "int (le_nat bs) < 2 ^ (8 * length bs)" by (metis of_nat_less_iff of_nat_numeral of_nat_power)
  moreover define m :: int where "m = 2 ^ (8 * length bs)"
  ultimately have "0 \<le> int (le_nat bs)" "int (le_nat bs) < m" by simp_all
  then show ?thesis unfolding le_int_def Let_def m_def [symmetric] by auto
qed

lemma length_dec_int: "\<bar>i\<bar> < 10 ^ Suc k \<Longrightarrow> length (dec_int i) \<le> Suc (Suc k)"
  using length_dec_nat_le [of "nat (- i)" k] length_dec_nat_le [of "nat i" k]
  by (auto simp: dec_int_def nat_less_iff simp del: power_Suc)

lemma field_digits:
  "length (dec_int (field off 4 v)) \<le> 11" "length (dec_int (field off 8 v)) \<le> 21"
proof -
  have b: "\<bar>field off sz v\<bar> \<le> 2 ^ (8 * sz)" for sz
  proof -
    let ?b = "take sz (drop off v)"
    have "(2 :: int) ^ (8 * length ?b) \<le> 2 ^ (8 * sz)" by (intro power_increasing) auto
    with le_int_bounds [of ?b] show ?thesis unfolding field_def by linarith
  qed
  have "\<bar>field off 4 v\<bar> < 10 ^ Suc 9" using b [of 4] by simp
  from length_dec_int [OF this] show "length (dec_int (field off 4 v)) \<le> 11" by simp
  have "\<bar>field off 8 v\<bar> < 10 ^ Suc 19" using b [of 8] by simp
  from length_dec_int [OF this] show "length (dec_int (field off 8 v)) \<le> 21" by simp
qed

text \<open>A length is a 32-bit number.\<close>

lemma bad_size_fits:
  assumes "\<bar>len\<bar> < 2 ^ 31" and "length t \<le> 14"
  shows "bad_size len t = ''size ('' @ dec_int len @ '') not sizeof('' @ t @ '')''" and "length (bad_size len t) < 128"
proof -
  have "\<bar>len\<bar> < 10 ^ Suc 9" using assms(1) by simp
  from length_dec_int [OF this] assms(2)
  show "bad_size len t = ''size ('' @ dec_int len @ '') not sizeof('' @ t @ '')''" and "length (bad_size len t) < 128"
    by (simp_all add: bad_size_def snprintf128_def)
qed

lemma linger_fits: "sock_str_linger v 8 = ''l_onoff = '' @ dec_int (field 0 4 v) @ '', l_linger = '' @ dec_int (field 4 4 v)"
  using field_digits(1) [of 0 v] field_digits(1) [of 4 v] by (simp add: sock_str_linger_def snprintf128_def)

lemma timeval_fits: "sock_str_timeval v 16 = dec_int (field 0 8 v) @ '' sec, '' @ dec_int (field 8 8 v) @ '' usec''"
  using field_digits(2) [of 0 v] field_digits(2) [of 8 v] by (simp add: sock_str_timeval_def snprintf128_def)

lemma int_fits: "sock_str_int v 4 = dec_int (field 0 4 v)"
  using field_digits(1) [of 0 v] by (simp add: sock_str_int_def snprintf128_def)

lemma flag_fits: "sock_str_flag v 4 = (if field 0 4 v = 0 then ''off'' else ''on'')"
  by (simp add: sock_str_flag_def snprintf128_def)

section \<open>Every option is listed\<close>

text \<open>The part of the listing for one option.\<close>

definition opt_text :: "optenv \<Rightarrow> sock_opt \<Rightarrow> byte list \<Rightarrow> string" where
  "opt_text env q v =
     opt_str q @ '': '' @
     (case opt_val_str q of
        None \<Rightarrow> ''(undefined)'' @ [NL]
      | Some f \<Rightarrow>
          (case e_get env (opt_str q) of
             Inl e \<Rightarrow> []
           | Inr bs \<Rightarrow> ''default = '' @ f (bs @ drop (length bs) v) (int (length bs)) @ [NL]))"

definition next_val :: "optenv \<Rightarrow> sock_opt \<Rightarrow> byte list \<Rightarrow> byte list" where
  "next_val env q v =
     (if opt_val_str q = None then v else case e_get env (opt_str q) of Inl e \<Rightarrow> v | Inr bs \<Rightarrow> bs @ drop (length bs) v)"

fun listing :: "optenv \<Rightarrow> sock_opt list \<Rightarrow> byte list \<Rightarrow> string" where
  "listing env [] v = []"
| "listing env (q # qs) v = opt_text env q v @ listing env qs (next_val env q v)"

text \<open>Sockets can be made, with descriptors that are not in use, and the levels of the table are configured.\<close>

definition sockets_ok :: "optenv \<Rightarrow> bool" where
  "sockets_ok env \<longleftrightarrow> cfg_ipv6 env \<and> cfg_sctp env \<and> (\<forall>l n. \<exists>fd. e_socket env l n = Inr fd \<and> 2 < fd)"

lemma opt_socket_ok:
  assumes "sockets_ok env" and "l \<noteq> LEVEL0"
  shows "\<exists>fd > 2. opt_socket env l st = Ret fd (st\<lparr>ost_open := insert fd (ost_open st), ost_made := ost_made st + 1\<rparr>)"
proof -
  obtain fd where "e_socket env l (ost_made st) = Inr fd" "2 < fd" using assms(1) unfolding sockets_ok_def by blast
  with assms show ?thesis by (cases l) (auto simp: opt_socket_def sockets_ok_def)
qed

lemma opt_show_out:
  assumes "opt_val_str q = Some f"
  shows "ost_out (opt_show env q st) = ost_out st @ (case e_get env (opt_str q) of Inl e \<Rightarrow> []
           | Inr bs \<Rightarrow> ''default = '' @ f (bs @ drop (length bs) (ost_val st)) (int (length bs)) @ [NL])"
    and "ost_val (opt_show env q st) = next_val env q (ost_val st)" and "ost_open (opt_show env q st) = ost_open st"
  using assms by (auto simp: opt_show_def next_val_def Let_def split: sum.splits)

lemma checkopts_loop_lists:
  assumes "sockets_ok env" and "\<forall>q \<in> set qs. opt_val_str q \<noteq> None \<longrightarrow> opt_level q \<noteq> LEVEL0" and "ost_open st \<subseteq> {0, 1, 2}"
  shows "\<exists>st'. checkopts_loop env qs st = Ret () st' \<and> ost_out st' = ost_out st @ listing env qs (ost_val st) \<and> ost_open st' = ost_open st"
  using assms(2,3)
proof (induction qs arbitrary: st)
  case (Cons q qs)
  let ?st = "st\<lparr>ost_out := ost_out st @ opt_str q @ '': ''\<rparr>"
  show ?case
  proof (cases "opt_val_str q")
    case None
    then show ?thesis
      using Cons.IH [of "?st\<lparr>ost_out := ost_out ?st @ ''(undefined)'' @ [NL]\<rparr>"] Cons.prems
      by (simp add: Let_def opt_text_def next_val_def)
  next
    case (Some f)
    obtain fd where fd: "2 < fd" "opt_socket env (opt_level q) ?st = Ret fd (?st\<lparr>ost_open := insert fd (ost_open ?st), ost_made := ost_made ?st + 1\<rparr>)"
      using opt_socket_ok [OF assms(1), of "opt_level q" ?st] Cons.prems(1) Some by auto
    let ?s1 = "?st\<lparr>ost_open := insert fd (ost_open ?st), ost_made := ost_made ?st + 1\<rparr>"
    let ?s2 = "opt_show env q ?s1"
    let ?s3 = "?s2\<lparr>ost_open := ost_open ?s2 - {fd}\<rparr>"
    have o: "ost_open ?s3 = ost_open st" using Cons.prems(2) fd(1) opt_show_out(3) [OF Some] by auto
    then have "ost_open ?s3 \<subseteq> {0, 1, 2}" using Cons.prems(2) by simp
    from Cons.IH [OF _ this] Cons.prems(1) obtain st' where
      st': "checkopts_loop env qs ?s3 = Ret () st'" "ost_out st' = ost_out ?s3 @ listing env qs (ost_val ?s3)" "ost_open st' = ost_open ?s3"
      by auto
    have "checkopts_loop env (q # qs) st = Ret () st'" using Some fd(2) st'(1) by (simp add: Let_def)
    moreover have "ost_out st' = ost_out st @ listing env (q # qs) (ost_val st)"
      using st'(2) opt_show_out(1,2) [OF Some, of env ?s1] Some by (auto simp: opt_text_def split: sum.splits)
    ultimately show ?thesis using st'(3) o by auto
  qed
qed simp

lemma sock_opts_levels: "\<forall>q \<in> set (sock_opts have). opt_val_str q \<noteq> None \<longrightarrow> opt_level q \<noteq> LEVEL0"
  by (simp add: sock_opts_def opt_def opt_if_def)

text \<open>
  When the sockets can be made, \<^verbatim>\<open>checkopts\<close> ends, has written for each option of the table in turn its name and its value (formatted out of the bytes that
  \<^verbatim>\<open>getsockopt\<close> gave, and those left from before if it gave fewer) or that it is undefined, and has no descriptor left open.\<close>

theorem checkopts_lists:
  assumes "sockets_ok env" and "ost_open st \<subseteq> {0, 1, 2}"
  shows "\<exists>st'. checkopts env have st = Ret () st' \<and> ost_out st' = ost_out st @ listing env (sock_opts have) (ost_val st) \<and> ost_open st' = ost_open st"
  unfolding checkopts_def by (rule checkopts_loop_lists [OF assms(1) sock_opts_levels assms(2)])

theorem checkopts_lists_witness:
  "\<exists>st'. checkopts \<lparr>e_socket = (\<lambda>_ _. Inr 3), e_get = (\<lambda>_. Inr [1, 0, 0, 0]), cfg_ipv6 = True, cfg_sctp = True\<rparr> (\<lambda>_. True)
      \<lparr>ost_val = replicate 16 0, ost_out = [], ost_err = [], ost_open = {0, 1, 2}, ost_made = 0\<rparr> = Ret () st' \<and> ost_open st' = {0, 1, 2}"
  using checkopts_lists [of "\<lparr>e_socket = (\<lambda>_ _. Inr 3), e_get = (\<lambda>_. Inr [1, 0, 0, 0]), cfg_ipv6 = True, cfg_sctp = True\<rparr>"
      "\<lparr>ost_val = replicate 16 0, ost_out = [], ost_err = [], ost_open = {0, 1, 2}, ost_made = 0\<rparr>" "\<lambda>_. True"]
  by (auto simp: sockets_ok_def)

end
