(* ===== verification/Datagrams.thy ===== *)
theory Datagrams
  imports Fork_Servers Sockaddr
begin

text \<open>
  The datagram services of \<^verbatim>\<open>2_basic_socket.c\<close>: the echo server \<^verbatim>\<open>dg_ehco\<close>, the clients \<^verbatim>\<open>dg_cli\<close> (which compares the address a reply comes from) and
  \<^verbatim>\<open>dg_cli_connect\<close>, and \<^verbatim>\<open>udp_serv_select01\<close>, which serves TCP and UDP clients in one process with the forking loop of \<^verbatim>\<open>Fork_Servers\<close>.
  A socket address is the bytes of its structure; the datagrams that arrive are a script.
\<close>

section \<open>Datagram sockets\<close>

type_synonym addr = "byte list"

record dsock =
  d_in :: "(errno + addr \<times> char list) list"
  d_out :: "(addr \<times> char list) list"
  d_txerr :: "errno option"

text \<open>\<^verbatim>\<open>Recvfrom(fd, buf, MAXLINE, \<dots>)\<close> keeps the first \<^verbatim>\<open>MAXLINE\<close> bytes of the next datagram; \<^verbatim>\<open>Sendto\<close> sends one.\<close>

fun recvfrom :: "(addr \<times> char list, dsock) prog" where
  "recvfrom d =
     (case d_in d of
        [] \<Rightarrow> Blocked d
      | Inl e # es \<Rightarrow> Die (Err_sys ''recvfrom error'' (Some e)) (d\<lparr>d_in := es\<rparr>)
      | Inr (a, bs) # es \<Rightarrow> Ret (a, take MAXLINE bs) (d\<lparr>d_in := es\<rparr>))"

definition sendto :: "addr \<Rightarrow> char list \<Rightarrow> (unit, dsock) prog" where
  "sendto a bs d =
     (case d_txerr d of
        Some e \<Rightarrow> Die (Err_sys ''sendto error'' (Some e)) d
      | None \<Rightarrow> Ret () (d\<lparr>d_out := d_out d @ [(a, bs)]\<rparr>))"

section \<open>The echo server\<close>

function dg_ehco :: "(unit, dsock) prog" where
  "dg_ehco d = bindP recvfrom (\<lambda>r d1. bindP (sendto (fst r) (snd r)) (\<lambda>_ d2. dg_ehco d2) d1) d"
  by pat_completeness auto
termination
  by (relation "measure (\<lambda>d. length (d_in d))")
    (auto simp: sendto_def split: list.splits sum.splits option.splits prod.splits)

declare dg_ehco.simps [simp del]

section \<open>The clients\<close>

record dcli =
  c_fp :: stdio
  c_sock :: dsock
  c_stdout :: string
  c_ignored :: "addr list"

abbreviation on_dsock :: "('a, dsock) prog \<Rightarrow> ('a, dcli) prog" where
  "on_dsock \<equiv> zoom c_sock (\<lambda>x. c_sock_update (\<lambda>_. x))"

definition fgets_dcli :: "(char list option, dcli) prog" where
  "fgets_dcli = zoom c_fp (\<lambda>x. c_fp_update (\<lambda>_. x)) (Fgets fgets f_error MAXLINE)"

text \<open>
  \<^verbatim>\<open>if (len != servlen || memcmp(pservaddr, preply_addr, len) != 0)\<close>: the reply is reported and ignored, and the loop goes on with the next
  line of the input. Otherwise \<^verbatim>\<open>recvline[n] = 0\<close>, and \<^verbatim>\<open>Fputs\<close> writes the string.
\<close>

definition dg_reply :: "addr \<Rightarrow> addr \<Rightarrow> char list \<Rightarrow> (unit, dcli) prog" where
  "dg_reply serv a recvline w =
     (if length a \<noteq> length serv \<or> a \<noteq> serv then Ret () (w\<lparr>c_ignored := c_ignored w @ [a]\<rparr>)
      else Ret () (w\<lparr>c_stdout := c_stdout w @ c_str recvline\<rparr>))"

definition dg_turn :: "addr \<Rightarrow> char list \<Rightarrow> (unit, dcli) prog" where
  "dg_turn serv l = bindP (on_dsock (sendto serv (c_str l))) (\<lambda>_. bindP (on_dsock recvfrom) (\<lambda>(a, recvline). dg_reply serv a recvline))"

lemma fgets_dcli_shrinks:
  assumes "fgets_dcli w = Ret (Some l) w'"
  shows "length (f_data (c_fp w')) < length (f_data (c_fp w))"
  using assms fgets_shrinks(1) [of MAXLINE "c_fp w" l "c_fp w'"]
  by (auto simp: fgets_dcli_def zoom_def Fgets_def MAXLINE_def split: outcome.splits prod.splits option.splits)

lemma dg_turn_fp: "dg_turn serv l w = Ret u w' \<Longrightarrow> c_fp w' = c_fp w"
  by (auto simp: dg_turn_def dg_reply_def zoom_def split: outcome.splits if_splits elim!: bindP_RetE)

function dg_cli :: "addr \<Rightarrow> (unit, dcli) prog" where
  "dg_cli serv w =
     bindP fgets_dcli (\<lambda>sendline w1.
       case sendline of None \<Rightarrow> Ret () w1 | Some l \<Rightarrow> bindP (dg_turn serv l) (\<lambda>_ w2. dg_cli serv w2) w1) w"
  by pat_completeness auto
termination
  by (relation "measure (\<lambda>(serv, w). length (f_data (c_fp w)))") (auto dest!: dg_turn_fp fgets_dcli_shrinks)

declare dg_cli.simps [simp del]

text \<open>
  \<^verbatim>\<open>dg_cli_connect\<close>: on a connected socket the kernel delivers only datagrams that come from the peer.
\<close>

definition connected :: "addr \<Rightarrow> dsock \<Rightarrow> dsock" where
  "connected serv d = d\<lparr>d_in := filter (\<lambda>r. case r of Inl e \<Rightarrow> True | Inr (a, bs) \<Rightarrow> a = serv) (d_in d)\<rparr>"

definition dg_turn_connect :: "addr \<Rightarrow> char list \<Rightarrow> (unit, dcli) prog" where
  "dg_turn_connect serv l =
     bindP (on_dsock (sendto serv (c_str l))) (\<lambda>_. bindP (on_dsock recvfrom) (\<lambda>(a, recvline) w.
       Ret () (w\<lparr>c_stdout := c_stdout w @ c_str recvline\<rparr>)))"

lemma dg_turn_connect_fp: "dg_turn_connect serv l w = Ret u w' \<Longrightarrow> c_fp w' = c_fp w"
  by (auto simp: dg_turn_connect_def zoom_def split: outcome.splits elim!: bindP_RetE)

function dg_connect_loop :: "addr \<Rightarrow> (unit, dcli) prog" where
  "dg_connect_loop serv w =
     bindP fgets_dcli (\<lambda>sendline w1.
       case sendline of None \<Rightarrow> Ret () w1 | Some l \<Rightarrow> bindP (dg_turn_connect serv l) (\<lambda>_ w2. dg_connect_loop serv w2) w1) w"
  by pat_completeness auto
termination
  by (relation "measure (\<lambda>(serv, w). length (f_data (c_fp w)))") (auto dest!: dg_turn_connect_fp fgets_dcli_shrinks)

declare dg_connect_loop.simps [simp del]

definition dg_cli_connect :: "addr \<Rightarrow> errno option \<Rightarrow> (unit, dcli) prog" where
  "dg_cli_connect serv con w =
     (case con of
        Some e \<Rightarrow> Die (Err_sys ''connect error'' (Some e)) w
      | None \<Rightarrow> dg_connect_loop serv (w\<lparr>c_sock := connected serv (c_sock w)\<rparr>))"

section \<open>TCP and UDP in one process\<close>

record useltst =
  u_srv :: fsrv
  u_udp :: dsock

record uround = fev +
  u_select :: "errno option"
  u_listen :: bool
  u_dgram :: bool

definition udp_serv_select01 :: "uround \<Rightarrow> (unit, useltst) prog" where
  "udp_serv_select01 ev st =
     (case u_select ev of
        Some e \<Rightarrow> if e = EINTR then Ret () st else Die (Err_sys ''select error'' (Some e)) st
      | None \<Rightarrow>
          if \<not> u_listen ev \<and> \<not> u_dgram ev then Blocked st
          else bindP (if u_listen ev then zoom u_srv (\<lambda>x. u_srv_update (\<lambda>_. x)) (serv_iter Accept (fev.truncate ev)) else returnP ()) (\<lambda>_.
               if u_dgram ev
               then zoom u_udp (\<lambda>x. u_udp_update (\<lambda>_. x)) (bindP recvfrom (\<lambda>(a, mesg). sendto a mesg))
               else returnP ()) st)"

section \<open>What they do\<close>

text \<open>The replies of the echo server to a script without errors.\<close>

fun received :: "(errno + addr \<times> char list) list \<Rightarrow> (addr \<times> char list) list" where
  "received [] = []"
| "received (Inl e # es) = []"
| "received (Inr (a, bs) # es) = (a, take MAXLINE bs) # received es"

text \<open>
  The datagram echo server sends each datagram back to where it came from, in the order of arrival and once, cut to \<^verbatim>\<open>MAXLINE\<close> bytes,
  until an error ends it.\<close>

theorem dg_ehco_echoes:
  assumes "d_txerr d = None"
  shows "d_out (final_state (dg_ehco d)) = d_out d @ received (d_in d)"
  using assms
proof (induction d rule: dg_ehco.induct)
  case (1 d)
  show ?case
  proof (cases "d_in d" rule: received.cases)
    case (3 a bs es)
    let ?d1 = "d\<lparr>d_in := es\<rparr>" and ?m = "take MAXLINE bs"
    let ?d2 = "?d1\<lparr>d_out := d_out d @ [(a, ?m)]\<rparr>"
    have r: "recvfrom d = Ret (a, ?m) ?d1" using 3 by simp
    have s: "sendto a ?m ?d1 = Ret () ?d2" using "1.prems" by (simp add: sendto_def)
    have "dg_ehco d = dg_ehco ?d2" by (subst dg_ehco.simps) (simp add: r s del: recvfrom.simps)
    with "1.IH" [OF r, of "()" ?d2] s "1.prems" 3 show ?thesis by simp
  qed (subst dg_ehco.simps, simp)+
qed

theorem dg_ehco_echoes_witness:
  "d_out (final_state (dg_ehco \<lparr>d_in = [Inr ([1], ''hi'')], d_out = [], d_txerr = None\<rparr>)) = [([1], take MAXLINE ''hi'')]"
  using dg_ehco_echoes [of "\<lparr>d_in = [Inr ([1], ''hi'')], d_out = [], d_txerr = None\<rparr>"] by simp

text \<open>One turn of the client takes exactly one datagram, whoever it is from.\<close>

lemma dg_turn_cases:
  assumes "d_txerr (c_sock w) = None"
  obtains (reply) a m rest w' where "received (d_in (c_sock w)) = (a, m) # rest" "dg_turn serv l w = Ret () w'"
    "d_out (c_sock w') = d_out (c_sock w) @ [(serv, c_str l)]" "received (d_in (c_sock w')) = rest" "d_txerr (c_sock w') = None"
    "c_stdout w' = c_stdout w @ (if a = serv then c_str m else [])"
  | (none) w' where "received (d_in (c_sock w)) = []" "dg_turn serv l w = Blocked w' \<or> (\<exists>f. dg_turn serv l w = Die f w')"
    "d_out (c_sock w') = d_out (c_sock w) @ [(serv, c_str l)]" "received (d_in (c_sock w')) = [] \<or> (\<exists>f. dg_turn serv l w = Die f w')"
    "c_stdout w' = c_stdout w"
proof -
  let ?d1 = "(c_sock w)\<lparr>d_out := d_out (c_sock w) @ [(serv, c_str l)]\<rparr>"
  let ?w1 = "w\<lparr>c_sock := ?d1\<rparr>"
  have s: "on_dsock (sendto serv (c_str l)) w = Ret () ?w1" using assms by (simp add: zoom_def sendto_def)
  show thesis
  proof (cases "d_in (c_sock w)" rule: received.cases)
    case 1
    then have "dg_turn serv l w = Blocked ?w1" using s by (simp add: dg_turn_def zoom_def bindP_def)
    with 1 none [of ?w1] show thesis by simp
  next
    case (2 e es)
    let ?w2 = "w\<lparr>c_sock := ?d1\<lparr>d_in := es\<rparr>\<rparr>"
    have "dg_turn serv l w = Die (Err_sys ''recvfrom error'' (Some e)) ?w2" using s 2 by (simp add: dg_turn_def zoom_def bindP_def)
    with 2 none [of ?w2] show thesis by simp
  next
    case (3 a bs es)
    let ?w2 = "w\<lparr>c_sock := ?d1\<lparr>d_in := es\<rparr>\<rparr>"
    have "dg_turn serv l w = dg_reply serv a (take MAXLINE bs) ?w2" using s 3 by (simp add: dg_turn_def zoom_def bindP_def)
    with 3 assms reply [of a "take MAXLINE bs" "received es" "if a = serv then ?w2\<lparr>c_stdout := c_stdout w @ c_str (take MAXLINE bs)\<rparr> else ?w2\<lparr>c_ignored := c_ignored w @ [a]\<rparr>"]
    show thesis by (cases "a = serv") (simp_all add: dg_reply_def)
  qed
qed

definition from_server :: "addr \<Rightarrow> (addr \<times> char list) list \<Rightarrow> string" where
  "from_server serv ds = concat (map (\<lambda>(a, m). if a = serv then c_str m else []) ds)"

definition dg_post :: "addr \<Rightarrow> dcli \<Rightarrow> (unit, dcli) outcome \<Rightarrow> bool" where
  "dg_post serv w r \<longleftrightarrow>
     (\<exists>ls n. let w' = final_state r; ds = received (d_in (c_sock w)) in
        d_out (c_sock w') = d_out (c_sock w) @ map (\<lambda>l. (serv, l)) ls \<and> n \<le> length ls
        \<and> c_stdout w' = c_stdout w @ from_server serv (take n ds)
        \<and> (r = Ret () w' \<longrightarrow> n = length ls \<and> n \<le> length ds \<and> received (d_in (c_sock w')) = drop n ds))"

lemma dg_post_none:
  assumes "c_sock w' = c_sock w" and "c_stdout w' = c_stdout w" and "final_state r = w'"
  shows "dg_post serv w r"
  unfolding dg_post_def Let_def by (rule exI [of _ "[]"], rule exI [of _ 0]) (simp add: assms from_server_def)

lemma dg_post_turn:
  assumes "dg_post serv w1 r" and "received (d_in (c_sock w)) = (a, m) # received (d_in (c_sock w1))"
    and "d_out (c_sock w1) = d_out (c_sock w) @ [(serv, l)]" and "c_stdout w1 = c_stdout w @ (if a = serv then c_str m else [])"
  shows "dg_post serv w r"
proof -
  obtain ls n where "d_out (c_sock (final_state r)) = d_out (c_sock w1) @ map (\<lambda>l. (serv, l)) ls" "n \<le> length ls"
    "c_stdout (final_state r) = c_stdout w1 @ from_server serv (take n (received (d_in (c_sock w1))))"
    "r = Ret () (final_state r) \<longrightarrow> n = length ls \<and> n \<le> length (received (d_in (c_sock w1)))
       \<and> received (d_in (c_sock (final_state r))) = drop n (received (d_in (c_sock w1)))"
    using assms(1) unfolding dg_post_def Let_def by blast
  with assms(2-4) show ?thesis unfolding dg_post_def Let_def
    by (intro exI [of _ "l # ls"] exI [of _ "Suc n"]) (auto simp: from_server_def)
qed

lemma fgets_dcli_frame:
  "c_sock (final_state (fgets_dcli w)) = c_sock w \<and> c_stdout (final_state (fgets_dcli w)) = c_stdout w"
  by (auto simp: fgets_dcli_def zoom_def split: outcome.splits)

lemma dg_cli_post: "d_txerr (c_sock w) = None \<Longrightarrow> dg_post serv w (dg_cli serv w)"
proof (induction serv w rule: dg_cli.induct)
  case (1 serv w)
  note fr = fgets_dcli_frame [of w]
  show ?case
  proof (cases "fgets_dcli w")
    case (Ret sl w1)
    show ?thesis
    proof (cases sl)
      case None
      with Ret have "dg_cli serv w = Ret () w1" by (subst dg_cli.simps) simp
      with fr Ret show ?thesis by (intro dg_post_none [of w1]) simp_all
    next
      case (Some l)
      have e: "d_txerr (c_sock w1) = None" using fr Ret "1.prems" by simp
      have eq: "dg_cli serv w = bindP (dg_turn serv l) (\<lambda>_ w2. dg_cli serv w2) w1" using Ret Some by (subst dg_cli.simps) simp
      from e show ?thesis
      proof (cases rule: dg_turn_cases [of w1 serv l])
        case (reply a m rest w2)
        have "dg_post serv w2 (dg_cli serv w2)" using "1.IH" [OF Ret Some reply(2) reply(5)] .
        then show ?thesis using reply fr Ret eq by (intro dg_post_turn [of serv w2 _ w a m "c_str l"]) auto
      next
        case (none w2)
        then have "final_state (dg_cli serv w) = w2" "dg_cli serv w \<noteq> Ret () w2" using eq by (auto simp: bindP_def)
        with none fr Ret show ?thesis unfolding dg_post_def Let_def
          by (intro exI [of _ "[c_str l]"] exI [of _ 0]) (auto simp: from_server_def)
      qed
    qed
  next
    case (Die f w1)
    then have "dg_cli serv w = Die f w1" by (subst dg_cli.simps) simp
    with fr Die show ?thesis by (intro dg_post_none [of w1]) simp_all
  next
    case (Blocked w1)
    then have "dg_cli serv w = Blocked w1" by (subst dg_cli.simps) simp
    with fr Blocked show ?thesis by (intro dg_post_none [of w1]) simp_all
  qed
qed

text \<open>
  What \<^verbatim>\<open>dg_cli\<close> writes to the standard output comes from the server only: it is the text of those of the datagrams it has received whose address is the
  server's, in order. But it takes exactly one datagram for each line it sends: a datagram from elsewhere that is ignored uses up the turn of a line, so that
  when it returns as many datagrams have been taken as lines were sent, and the reply to a later line may be left unread.\<close>

theorem dg_cli_filters:
  assumes "d_txerr (c_sock w) = None" and "dg_cli serv w = Ret () w'"
  shows "\<exists>ls. d_out (c_sock w') = d_out (c_sock w) @ map (\<lambda>l. (serv, l)) ls
    \<and> c_stdout w' = c_stdout w @ from_server serv (take (length ls) (received (d_in (c_sock w))))
    \<and> received (d_in (c_sock w')) = drop (length ls) (received (d_in (c_sock w)))"
  using dg_cli_post [OF assms(1), of serv] assms(2) by (auto simp: dg_post_def Let_def)

definition ex_dcli :: dcli where
  "ex_dcli = \<lparr>c_fp = \<lparr>f_data = ''a'' @ [NL], f_error = None\<rparr>,
     c_sock = \<lparr>d_in = [Inr ([9], ''bad''), Inr ([1], ''good'')], d_out = [], d_txerr = None\<rparr>, c_stdout = [], c_ignored = []\<rparr>"

theorem dg_cli_filters_witness:
  "\<exists>w' ls. dg_cli [1] ex_dcli = Ret () w' \<and> c_stdout w' = from_server [1] (take (length ls) [([9], take MAXLINE ''bad''), ([1], take MAXLINE ''good'')])
     \<and> d_out (c_sock w') = map (\<lambda>l. ([1], l)) ls \<and> length ls = 1"
proof -
  obtain k where k: "MAXLINE - Suc 0 = Suc (Suc k)" by (simp add: MAXLINE_def)
  obtain w' where r: "dg_cli [1] ex_dcli = Ret () w'" "length (d_out (c_sock w')) = 1"
    by (simp add: dg_cli.simps ex_dcli_def fgets_dcli_def zoom_def Fgets_def fgets_def k dg_turn_def sendto_def dg_reply_def bindP_def)
  have "d_txerr (c_sock ex_dcli) = None" by (simp add: ex_dcli_def)
  from dg_cli_filters [OF this r(1)] obtain ls where
    o: "d_out (c_sock w') = map (\<lambda>l. ([1], l)) ls"
    and c: "c_stdout w' = from_server [1] (take (length ls) [([9], take MAXLINE ''bad''), ([1], take MAXLINE ''good'')])"
    by (auto simp: ex_dcli_def)
  have "length ls = 1" using r(2) unfolding o by simp
  with r(1) o c show ?thesis by blast
qed

end
