(* ===== verification/Sigio_Echo.thy ===== *)
theory Sigio_Echo
  imports Fifo Locking
begin

text \<open>
  The signal-driven UDP echo server of \<^verbatim>\<open>sigio/dgecho01.c\<close>. The handler \<^verbatim>\<open>sig_io\<close> reads all datagrams that have arrived into a circular array; the
  main loop sends them back. The two share the array and the counter \<^verbatim>\<open>nqueue\<close>; the main loop blocks the signal around its accesses to the
  counter only. The handler may run between any two steps of the main loop in which the signal is not blocked; \<^verbatim>\<open>nqueue--\<close> is
  two steps, a load and a store.
\<close>

section \<open>Data\<close>

definition QSIZE :: nat where "QSIZE = 8"
definition MAXDG :: nat where "MAXDG = 4096"

record DG =
  dg_data :: "char list"
  dg_len :: nat
  dg_sa :: "char list"
  dg_salen :: nat

text \<open>Where the main loop is, statement by statement from the first \<^verbatim>\<open>Sigprocmask\<close> on.\<close>

datatype dgpc = D_start | D_test | D_suspend | D_unblock | D_send | D_next | D_block | D_load | D_dec int

record sigio =
  dg :: "DG list"
  cntread :: "nat list"
  iget :: nat
  iput :: nat
  nqueue :: int
  clilen :: nat
  blocked :: bool
  oldmask :: bool
  dgpc :: dgpc
  died :: "fatal option"
  console :: "string list"
  received :: "(char list \<times> char list) list"
  echoed :: "(char list \<times> char list) list"

definition dg_echo_init :: "nat \<Rightarrow> sigio" where
  "dg_echo_init clilen_arg =
     \<lparr>dg = replicate QSIZE \<lparr>dg_data = replicate MAXDG NUL, dg_len = 0, dg_sa = replicate clilen_arg NUL, dg_salen = clilen_arg\<rparr>,
      cntread = replicate (QSIZE + 1) 0, iget = 0, iput = 0, nqueue = 0, clilen = clilen_arg,
      blocked = False, oldmask = False, dgpc = D_start, died = None, console = [], received = [], echoed = []\<rparr>"

definition dg_wrap :: "nat \<Rightarrow> nat" where
  "dg_wrap i = (if QSIZE \<le> i + 1 then 0 else i + 1)"

section \<open>The handlers\<close>

text \<open>
  \<^verbatim>\<open>recvfrom\<close> into an entry: at most \<^verbatim>\<open>MAXDG\<close> bytes of the datagram, at most the given size of the address, whose real length is stored.
\<close>

definition dg_fill :: "nat \<Rightarrow> char list \<Rightarrow> char list \<Rightarrow> DG \<Rightarrow> DG" where
  "dg_fill sz d a e =
     e\<lparr>dg_data := blit (dg_data e) 0 (take MAXDG d), dg_len := length (take MAXDG d),
       dg_sa := blit (dg_sa e) 0 (take sz a), dg_salen := length a\<rparr>"

definition dg_store :: "char list \<Rightarrow> char list \<Rightarrow> sigio \<Rightarrow> sigio" where
  "dg_store d a s =
     s\<lparr>dg := (dg s)[iput s := dg_fill (clilen s) d a (dg s ! iput s)], nqueue := nqueue s + 1, iput := dg_wrap (iput s),
       received := received s @ [(take MAXDG d, a)]\<rparr>"

definition dg_reset :: "sigio \<Rightarrow> sigio" where
  "dg_reset s = s\<lparr>dg := (dg s)[iput s := (dg s ! iput s)\<lparr>dg_salen := clilen s\<rparr>]\<rparr>"

text \<open>
  The loop of \<^verbatim>\<open>sig_io\<close> over the results of its calls of \<^verbatim>\<open>recvfrom\<close>; when there is nothing more, the call fails with \<open>EWOULDBLOCK\<close>.
\<close>

fun sig_io_loop :: "(errno + char list \<times> char list) list \<Rightarrow> nat \<Rightarrow> (nat, sigio) prog" where
  "sig_io_loop [] nread s =
     (if int QSIZE \<le> nqueue s then Die (Err_quit ''receive overflow'') s else Ret nread (dg_reset s))"
| "sig_io_loop (Inl e # rs) nread s =
     (if int QSIZE \<le> nqueue s then Die (Err_quit ''receive overflow'') s
      else if e = EWOULDBLOCK then Ret nread (dg_reset s) else Die (Err_sys ''recvfrom error'' (Some e)) (dg_reset s))"
| "sig_io_loop (Inr (d, a) # rs) nread s =
     (if int QSIZE \<le> nqueue s then Die (Err_quit ''receive overflow'') s
      else sig_io_loop rs (nread + 1) (dg_store d a (dg_reset s)))"

definition sig_io :: "(errno + char list \<times> char list) list \<Rightarrow> (unit, sigio) prog" where
  "sig_io rs = bindP (sig_io_loop rs 0) (\<lambda>nread s. Ret () (s\<lparr>cntread := (cntread s)[nread := cntread s ! nread + 1]\<rparr>))"

definition sig_hup :: "sigio \<Rightarrow> sigio" where
  "sig_hup s = s\<lparr>console := console s @ map (\<lambda>i. ''cntread['' @ dec_nat i @ ''] = '' @ dec_nat (cntread s ! i) @ [NL]) [0..<QSIZE + 1]\<rparr>"

text \<open>A signal that is delivered; the process ends when the handler ends it.\<close>

datatype sig = Sigio "(errno + char list \<times> char list) list" | Sighup

definition deliver :: "sig \<Rightarrow> sigio \<Rightarrow> sigio" where
  "deliver g s =
     (case g of
        Sigio rs \<Rightarrow> (case sig_io rs s of Ret _ s' \<Rightarrow> s' | Die f s' \<Rightarrow> s'\<lparr>died := Some f\<rparr> | Blocked s' \<Rightarrow> s')
      | Sighup \<Rightarrow> sig_hup s)"

section \<open>The main loop\<close>

text \<open>The datagram of an entry, as \<^verbatim>\<open>Sendto\<close> is given it.\<close>

definition dgram :: "DG \<Rightarrow> char list \<times> char list" where
  "dgram e = (take (dg_len e) (dg_data e), take (dg_salen e) (dg_sa e))"

record dchoice =
  d_signal :: sig
  d_send :: "errno option"

text \<open>One step of \<^verbatim>\<open>dg_echo\<close>. \<^verbatim>\<open>sigsuspend\<close> lets one signal in and returns with the mask as before.\<close>

definition dg_echo :: "dchoice \<Rightarrow> sigio \<Rightarrow> sigio" where
  "dg_echo ch s =
     (case dgpc s of
        D_start \<Rightarrow> s\<lparr>oldmask := blocked s, blocked := True, dgpc := D_test\<rparr>
      | D_test \<Rightarrow> s\<lparr>dgpc := (if nqueue s = 0 then D_suspend else D_unblock)\<rparr>
      | D_suspend \<Rightarrow> (deliver (d_signal ch) s)\<lparr>dgpc := D_test\<rparr>
      | D_unblock \<Rightarrow> s\<lparr>blocked := oldmask s, dgpc := D_send\<rparr>
      | D_send \<Rightarrow>
          (case d_send ch of
             Some e \<Rightarrow> s\<lparr>died := Some (Err_sys ''sendto error'' (Some e))\<rparr>
           | None \<Rightarrow> s\<lparr>echoed := echoed s @ [dgram (dg s ! iget s)], dgpc := D_next\<rparr>)
      | D_next \<Rightarrow> s\<lparr>iget := dg_wrap (iget s), dgpc := D_block\<rparr>
      | D_block \<Rightarrow> s\<lparr>oldmask := blocked s, blocked := True, dgpc := D_load\<rparr>
      | D_load \<Rightarrow> s\<lparr>dgpc := D_dec (nqueue s)\<rparr>
      | D_dec n \<Rightarrow> s\<lparr>nqueue := n - 1, dgpc := D_test\<rparr>)"

text \<open>The kernel gives addresses of the size the server was started for.\<close>

definition fits :: "nat \<Rightarrow> sig \<Rightarrow> bool" where
  "fits sz g = (case g of Sigio rs \<Rightarrow> (\<forall>r \<in> set rs. case r of Inl _ \<Rightarrow> True | Inr x \<Rightarrow> length (snd x) \<le> sz) | Sighup \<Rightarrow> True)"

inductive sigio_step :: "sigio \<Rightarrow> sigio \<Rightarrow> bool" where
  Moves: "died s = None \<Longrightarrow> fits (clilen s) (d_signal ch) \<Longrightarrow> sigio_step s (dg_echo ch s)"
| Interrupt: "died s = None \<Longrightarrow> \<not> blocked s \<Longrightarrow> fits (clilen s) (Sigio rs) \<Longrightarrow> sigio_step s (deliver (Sigio rs) s)"
| Hangup: "died s = None \<Longrightarrow> sigio_step s (deliver Sighup s)"

section \<open>The circular array\<close>

definition entry_ok :: "nat \<Rightarrow> DG \<Rightarrow> bool" where
  "entry_ok sz e \<longleftrightarrow> length (dg_data e) = MAXDG \<and> length (dg_sa e) = sz"

definition dgq_wf :: "nat \<Rightarrow> sigio \<Rightarrow> bool" where
  "dgq_wf sz s \<longleftrightarrow>
     length (dg s) = QSIZE \<and> clilen s = sz \<and> (\<forall>e \<in> set (dg s). entry_ok sz e) \<and> iget s < QSIZE \<and>
     0 \<le> nqueue s \<and> nqueue s \<le> int QSIZE \<and> iput s = (iget s + nat (nqueue s)) mod QSIZE"

definition dgq_items :: "sigio \<Rightarrow> (char list \<times> char list) list" where
  "dgq_items s = map (\<lambda>k. dgram (dg s ! ((iget s + k) mod QSIZE))) [0..<nat (nqueue s)]"

definition dgq_space :: "sigio \<Rightarrow> nat" where
  "dgq_space s = nat (int QSIZE - nqueue s)"

definition dgq_pop :: "sigio \<Rightarrow> sigio" where
  "dgq_pop s = s\<lparr>iget := dg_wrap (iget s), nqueue := nqueue s - 1\<rparr>"

lemma QSIZE_pos [simp]: "0 < QSIZE"
  by (simp add: QSIZE_def)

lemma dg_wrap_mod: "i < QSIZE \<Longrightarrow> dg_wrap i = (i + 1) mod QSIZE"
  by (cases "Suc i = QSIZE") (auto simp: dg_wrap_def)

lemma dg_wrap_less: "dg_wrap i < QSIZE"
  by (auto simp: dg_wrap_def not_le)

text \<open>Positions of a circular array that are less than its size apart differ.\<close>

lemma mod_apart: "(g + k) mod m \<noteq> (g + n) mod m" if "k < n" "n < m" for g k n m :: nat
proof
  assume "(g + k) mod m = (g + n) mod m"
  then have "m dvd (g + n) - (g + k)" using mod_eq_dvd_iff_nat [of "g + k" "g + n" m] that by simp
  with that show False by (auto dest: dvd_imp_le)
qed

lemma dg_ok_fill: "entry_ok sz e \<Longrightarrow> entry_ok sz (dg_fill sz d a e)"
  by (simp add: entry_ok_def dg_fill_def)

lemma dgram_fill: "entry_ok sz e \<Longrightarrow> length a \<le> sz \<Longrightarrow> dgram (dg_fill sz d a e) = (take MAXDG d, a)"
  by (simp add: dgram_def dg_fill_def blit_def entry_ok_def min_def)

lemma iput_less: "dgq_wf sz s \<Longrightarrow> iput s < QSIZE"
  by (simp add: dgq_wf_def)

lemma items_other:
  assumes "dgq_wf sz s" and "nqueue s < int QSIZE"
  shows "map (\<lambda>k. dgram ((dg s)[iput s := e] ! ((iget s + k) mod QSIZE))) [0..<nat (nqueue s)] = dgq_items s"
  unfolding dgq_items_def
proof (rule map_cong [OF refl])
  fix k
  assume "k \<in> set [0..<nat (nqueue s)]"
  then have "(iget s + k) mod QSIZE \<noteq> iput s"
    using mod_apart [of k "nat (nqueue s)" QSIZE "iget s"] assms by (auto simp: dgq_wf_def)
  then show "dgram ((dg s)[iput s := e] ! ((iget s + k) mod QSIZE)) = dgram (dg s ! ((iget s + k) mod QSIZE))"
    by simp
qed

lemma dg_reset_items:
  assumes "dgq_wf sz s" and "nqueue s < int QSIZE"
  shows "dgq_wf sz (dg_reset s)" and "dgq_items (dg_reset s) = dgq_items s"
proof -
  have "entry_ok sz ((dg s ! iput s)\<lparr>dg_salen := clilen s\<rparr>)"
    using assms iput_less [OF assms(1)] by (simp add: dgq_wf_def entry_ok_def)
  then show "dgq_wf sz (dg_reset s)"
    using assms(1) by (auto simp: dgq_wf_def dg_reset_def dest: set_update_subset_insert [THEN subsetD])
  show "dgq_items (dg_reset s) = dgq_items s"
    using items_other [OF assms] by (simp add: dgq_items_def dg_reset_def)
qed

lemma dg_store_items:
  assumes "dgq_wf sz s" and "nqueue s < int QSIZE" and "length a \<le> sz"
  shows "dgq_wf sz (dg_store d a s)" and "dgq_items (dg_store d a s) = dgq_items s @ [(take MAXDG d, a)]"
proof -
  let ?e = "dg_fill sz d a (dg s ! iput s)"
  have ok: "entry_ok sz (dg s ! iput s)" and p: "iput s < length (dg s)" and c: "clilen s = sz"
    using assms iput_less [OF assms(1)] by (simp_all add: dgq_wf_def)
  have n: "nat (nqueue s + 1) = Suc (nat (nqueue s))" using assms(1) by (auto simp: dgq_wf_def nat_add_distrib)
  have "dg_wrap (iput s) = (iget s + nat (nqueue s + 1)) mod QSIZE"
    using assms(1) iput_less [OF assms(1)] unfolding n by (simp add: dg_wrap_mod dgq_wf_def mod_Suc_eq)
  then show "dgq_wf sz (dg_store d a s)"
    using assms dg_ok_fill [OF ok, of d a] by (auto simp: dgq_wf_def dg_store_def dest: set_update_subset_insert [THEN subsetD])
  have "(iget s + nat (nqueue s)) mod QSIZE = iput s" using assms(1) by (simp add: dgq_wf_def)
  then show "dgq_items (dg_store d a s) = dgq_items s @ [(take MAXDG d, a)]"
    using items_other [OF assms(1,2), of ?e] dgram_fill [OF ok assms(3), of d] p
    by (simp add: dgq_items_def dg_store_def n c)
qed

lemma dgq_pop_items:
  assumes "dgq_wf sz s" and "0 < nqueue s"
  shows "dgq_wf sz (dgq_pop s)" and "dgq_items s = dgram (dg s ! iget s) # dgq_items (dgq_pop s)"
proof -
  have g: "iget s < QSIZE" using assms(1) by (simp add: dgq_wf_def)
  obtain n where n: "nat (nqueue s) = Suc n" using assms(2) by (cases "nat (nqueue s)") auto
  then have n': "nat (nqueue s - 1) = n" by simp
  show "dgq_wf sz (dgq_pop s)"
    using assms g by (auto simp: dgq_wf_def dgq_pop_def dg_wrap_less n n' dg_wrap_mod mod_Suc_eq mod_add_left_eq)
  have "[0..<Suc n] = 0 # map Suc [0..<n]" unfolding map_Suc_upt by (rule upt_conv_Cons) simp
  then show "dgq_items s = dgram (dg s ! iget s) # dgq_items (dgq_pop s)"
    using g by (simp add: dgq_items_def dgq_pop_def n n' dg_wrap_mod mod_add_left_eq del: upt_Suc)
qed

text \<open>The array provides the contract of a queue, for each size of the addresses.\<close>

interpretation dgq: fifo dgq_items dgq_space "dgq_wf sz" "\<lambda>x. dg_store (fst x) (take sz (snd x))"
  "\<lambda>x. [(take MAXDG (fst x), take sz (snd x))]" "\<lambda>_ :: unit. dgq_pop" "\<lambda>_. 1" for sz
proof
  fix s :: sigio and x :: "char list \<times> char list" and n :: unit
  assume wf: "dgq_wf sz s"
  { assume "length [(take MAXDG (fst x), take sz (snd x))] \<le> dgq_space s"
    then have "nqueue s < int QSIZE" by (simp add: dgq_space_def)
    then show "dgq_wf sz (dg_store (fst x) (take sz (snd x)) s)"
      "dgq_items (dg_store (fst x) (take sz (snd x)) s) = dgq_items s @ [(take MAXDG (fst x), take sz (snd x))]"
      using wf by (simp_all add: dg_store_items) }
  { assume "1 \<le> length (dgq_items s)"
    then have "0 < nqueue s" by (simp add: dgq_items_def)
    then show "dgq_wf sz (dgq_pop s)" "dgq_items (dgq_pop s) = drop 1 (dgq_items s)"
      using dgq_pop_items [OF wf] by simp_all }
qed

section \<open>The handler and the main loop together\<close>

text \<open>
  The queue as the main loop sees it between sending a datagram and giving its entry back: the entry is no longer queued, but it is
  not free yet either.
\<close>

definition dg_view :: "sigio \<Rightarrow> sigio" where
  "dg_view s =
     (case dgpc s of
        D_next \<Rightarrow> dgq_pop s
      | D_block \<Rightarrow> s\<lparr>nqueue := nqueue s - 1\<rparr>
      | D_load \<Rightarrow> s\<lparr>nqueue := nqueue s - 1\<rparr>
      | D_dec n \<Rightarrow> s\<lparr>nqueue := n - 1\<rparr>
      | _ \<Rightarrow> s)"

definition pc_ok :: "sigio \<Rightarrow> bool" where
  "pc_ok s =
     (case dgpc s of
        D_start \<Rightarrow> \<not> blocked s
      | D_test \<Rightarrow> blocked s
      | D_suspend \<Rightarrow> blocked s \<and> nqueue s = 0
      | D_unblock \<Rightarrow> blocked s \<and> 0 < nqueue s
      | D_load \<Rightarrow> blocked s \<and> 0 < nqueue s
      | D_dec n \<Rightarrow> blocked s \<and> n = nqueue s \<and> 0 < n
      | _ \<Rightarrow> \<not> blocked s \<and> 0 < nqueue s)"

definition sig_inv :: "nat \<Rightarrow> sigio \<Rightarrow> bool" where
  "sig_inv sz s \<longleftrightarrow> dgq.conveys sz (echoed s) (dg_view s) (received s) \<and> iget s < QSIZE \<and> nqueue s \<le> int QSIZE \<and> \<not> oldmask s \<and> pc_ok s"

text \<open>What a handler leaves alone, and what it keeps, at a point of the main loop where it may run.\<close>

definition handled :: "nat \<Rightarrow> sigio \<Rightarrow> sigio \<Rightarrow> bool" where
  "handled sz s s' \<longleftrightarrow>
     dgq.conveys sz (echoed s') (dg_view s') (received s') \<and> nqueue s' \<le> int QSIZE \<and> nqueue s \<le> nqueue s' \<and>
     iget s' = iget s \<and> dgpc s' = dgpc s \<and> blocked s' = blocked s \<and> oldmask s' = oldmask s"

lemma dg_view_store:
  "\<forall>n. dgpc s \<noteq> D_dec n \<Longrightarrow> dg_view (dg_store d a s) = dg_store d a (dg_view s)"
  "dg_view (dg_reset s) = dg_reset (dg_view s)"
  by (auto simp: dg_view_def dg_store_def dg_reset_def dgq_pop_def split: dgpc.splits)

lemma dg_view_nqueue: "\<forall>n. dgpc s \<noteq> D_dec n \<Longrightarrow> nqueue (dg_view s) \<le> nqueue s"
  by (auto simp: dg_view_def dgq_pop_def split: dgpc.splits)

lemma dg_view_log [simp]: "echoed (dg_view s) = echoed s" "received (dg_view s) = received s"
  by (auto simp: dg_view_def dgq_pop_def split: dgpc.splits)

lemma store_handled:
  assumes "dgq.conveys sz (echoed s) (dg_view s) (received s)" and "nqueue s < int QSIZE" and "\<forall>n. dgpc s \<noteq> D_dec n"
    and "length a \<le> sz"
  shows "dgq.conveys sz (echoed s) (dg_view (dg_reset s)) (received s)"
    and "dgq.conveys sz (echoed s) (dg_view (dg_store d a (dg_reset s))) (received s @ [(take MAXDG d, a)])"
proof -
  have n: "nqueue (dg_view s) < int QSIZE" using dg_view_nqueue [OF assms(3)] assms(2) by linarith
  have r: "dgq.conveys sz (echoed s) (dg_reset (dg_view s)) (received s)"
    using assms(1) dg_reset_items [of sz "dg_view s"] n by (simp add: dgq.conveys_def)
  then show "dgq.conveys sz (echoed s) (dg_view (dg_reset s)) (received s)" by (simp add: dg_view_store)
  have "\<forall>n. dgpc (dg_reset s) \<noteq> D_dec n" using assms(3) by (simp add: dg_reset_def)
  moreover have "1 \<le> dgq_space (dg_reset (dg_view s))" using n by (simp add: dgq_space_def dg_reset_def)
  ultimately show "dgq.conveys sz (echoed s) (dg_view (dg_store d a (dg_reset s))) (received s @ [(take MAXDG d, a)])"
    using dgq.conveys_put [OF r, of "(d, a)"] assms(4) by (simp add: dg_view_store)
qed

lemma store_frame:
  "dgpc (dg_store d a (dg_reset s)) = dgpc s" "blocked (dg_store d a (dg_reset s)) = blocked s"
  "oldmask (dg_store d a (dg_reset s)) = oldmask s" "nqueue (dg_store d a (dg_reset s)) = nqueue s + 1"
  "echoed (dg_store d a (dg_reset s)) = echoed s" "received (dg_store d a (dg_reset s)) = received s @ [(take MAXDG d, a)]"
  "cntread (dg_store d a (dg_reset s)) = cntread s" "iget (dg_store d a (dg_reset s)) = iget s" "iget (dg_reset s) = iget s"
  "dgpc (dg_reset s) = dgpc s" "blocked (dg_reset s) = blocked s" "oldmask (dg_reset s) = oldmask s" "nqueue (dg_reset s) = nqueue s"
  "echoed (dg_reset s) = echoed s" "received (dg_reset s) = received s"
  by (simp_all add: dg_store_def dg_reset_def)

lemma sig_io_loop_handled:
  assumes "dgq.conveys sz (echoed s) (dg_view s) (received s)" and "nqueue s \<le> int QSIZE" and "\<forall>n. dgpc s \<noteq> D_dec n"
    and "fits sz (Sigio rs)"
  shows "handled sz s (final_state (sig_io_loop rs nread s))"
  using assms
proof (induction rs nread s rule: sig_io_loop.induct)
  case (1 nread s)
  then show ?case using store_handled(1) [of sz s "[]"] by (auto simp: handled_def store_frame)
next
  case (2 e rs nread s)
  then show ?case using store_handled(1) [of sz s "[]"] by (auto simp: handled_def store_frame)
next
  case (3 d a rs nread s)
  show ?case
  proof (cases "int QSIZE \<le> nqueue s")
    case True
    with "3.prems" show ?thesis by (simp add: handled_def)
  next
    case False
    then have a: "length a \<le> sz" and n: "nqueue s < int QSIZE" using "3.prems" by (simp_all add: fits_def)
    let ?s = "dg_store d a (dg_reset s)"
    have "handled sz ?s (final_state (sig_io_loop rs (nread + 1) ?s))"
      using "3.IH" [OF False] store_handled(2) [OF "3.prems"(1) n "3.prems"(3) a, of d] "3.prems" n by (simp add: store_frame fits_def)
    with False show ?thesis by (simp add: handled_def store_frame)
  qed
qed

lemma deliver_handled:
  assumes "dgq.conveys sz (echoed s) (dg_view s) (received s)" and "nqueue s \<le> int QSIZE" and "\<forall>n. dgpc s \<noteq> D_dec n"
    and "fits sz g"
  shows "handled sz s (deliver g s)"
proof (cases g)
  case (Sigio rs)
  have upd: "handled sz s (t\<lparr>cntread := c\<rparr>)" "handled sz s (t\<lparr>died := f\<rparr>)" if "handled sz s t" for t c f
    using that by (auto simp: handled_def dgq.conveys_def dg_view_def dgq_wf_def dgq_items_def dgq_pop_def split: dgpc.splits)
  from sig_io_loop_handled [of sz s rs 0] assms Sigio show ?thesis
    by (auto simp: deliver_def sig_io_def bindP_def upd split: outcome.splits)
next
  case Sighup
  with assms show ?thesis
    by (auto simp: deliver_def sig_hup_def handled_def dgq.conveys_def dg_view_def dgq_wf_def dgq_items_def dgq_pop_def split: dgpc.splits)
qed

lemma sig_inv_hup: "sig_inv sz s \<Longrightarrow> sig_inv sz (sig_hup s)"
  by (auto simp: sig_hup_def sig_inv_def pc_ok_def dgq.conveys_def dg_view_def dgq_wf_def dgq_items_def dgq_pop_def split: dgpc.splits)

lemma dg_view_simple:
  "dgpc s \<in> {D_start, D_test, D_suspend, D_unblock, D_send} \<Longrightarrow> dg_view s = s"
  by (auto simp: dg_view_def)

lemmas dgq_unfold = dgq.conveys_def dgq_wf_def dgq_items_def

lemma dg_echo_inv:
  assumes "sig_inv sz s" and "fits sz (d_signal ch)"
  shows "sig_inv sz (dg_echo ch s)"
proof (cases "dgpc s")
  case D_suspend
  then have "handled sz s (deliver (d_signal ch) s)" using assms by (intro deliver_handled) (auto simp: sig_inv_def)
  with D_suspend assms show ?thesis
    by (auto simp: dg_echo_def handled_def sig_inv_def pc_ok_def dg_view_def dgq_unfold)
next
  case D_send
  then have c: "dgq.conveys sz (echoed s) s (received s)" "0 < nqueue s" using assms by (auto simp: sig_inv_def pc_ok_def dg_view_def)
  then have "dgq_items s \<noteq> []" by (simp add: dgq_items_def)
  moreover have "take 1 (dgq_items s) = [dgram (dg s ! iget s)]" using dgq_pop_items [of sz s] c by (simp add: dgq.conveys_def)
  ultimately have "dgq.conveys sz (echoed s @ [dgram (dg s ! iget s)]) (dgq_pop s) (received s)"
    using dgq.conveys_del [OF c(1)] by (simp add: Suc_le_eq)
  with D_send assms c show ?thesis
    by (auto simp: dg_echo_def sig_inv_def pc_ok_def dg_view_def dgq_pop_def dgq_unfold split: option.splits)
qed (use assms in \<open>auto simp: dg_echo_def sig_inv_def pc_ok_def dg_view_def dgq_pop_def dg_wrap_less dgq_unfold\<close>)

lemma sigio_step_inv:
  assumes "sigio_step s s'" and "sig_inv sz s"
  shows "sig_inv sz s'"
  using assms(1)
proof cases
  case (Moves ch)
  with assms(2) show ?thesis using dg_echo_inv [of sz s ch]
    by (auto simp: sig_inv_def dgq.conveys_def dgq_wf_def dg_view_def dgq_pop_def split: dgpc.splits)
next
  case (Interrupt rs)
  then have sz: "fits sz (Sigio rs)" and pc: "\<forall>n. dgpc s \<noteq> D_dec n"
    using assms(2) by (auto simp: sig_inv_def dgq.conveys_def dgq_wf_def dg_view_def dgq_pop_def pc_ok_def split: dgpc.splits)
  from deliver_handled [OF _ _ pc sz] assms(2) have "handled sz s s'" unfolding Interrupt(1) by (simp add: sig_inv_def)
  with assms(2) Interrupt(3) show ?thesis by (auto simp: handled_def sig_inv_def pc_ok_def split: dgpc.splits)
next
  case Hangup
  with sig_inv_hup [OF assms(2)] show ?thesis by (simp add: deliver_def)
qed

lemma sig_inv_init: "sig_inv sz (dg_echo_init sz)"
  by (auto simp: sig_inv_def dg_echo_init_def dgq.conveys_def dgq_wf_def dgq_items_def dg_view_def pc_ok_def entry_ok_def)

lemma sig_inv_reach: "sigio_step\<^sup>*\<^sup>* (dg_echo_init sz) s \<Longrightarrow> sig_inv sz s"
  using step_invariant [of sigio_step "dg_echo_init sz" s "sig_inv sz"] sig_inv_init sigio_step_inv by blast

text \<open>The datagrams that are still to be sent, oldest first.\<close>

definition dg_pending :: "sigio \<Rightarrow> (char list \<times> char list) list" where
  "dg_pending s = dgq_items (dg_view s)"

text \<open>
  C13. The main loop and the handler of the signal-driven echo server never disturb each other: in every reachable state the datagrams sent
  back, followed by those still queued, are exactly the datagrams received, each with its sender's address and in order; at most \<^verbatim>\<open>QSIZE\<close>
  are queued and the indices stay within the array. When the main loop goes to sleep in \<^verbatim>\<open>sigsuspend\<close>, everything received so far has been
  sent back: no datagram that arrives between the test of \<^verbatim>\<open>nqueue\<close> and the sleep is overlooked.
\<close>

theorem sigio_echo_conserves:
  assumes "sigio_step\<^sup>*\<^sup>* (dg_echo_init sz) s"
  shows "received s = echoed s @ dg_pending s \<and> length (dg_pending s) \<le> QSIZE \<and>
    iget s < QSIZE \<and> iput s < QSIZE \<and> 0 \<le> nqueue s \<and> nqueue s \<le> int QSIZE \<and>
    (dgpc s = D_suspend \<longrightarrow> echoed s = received s)"
proof (intro conjI impI)
  have inv: "sig_inv sz s" by (rule sig_inv_reach [OF assms])
  then have wf: "dgq_wf sz (dg_view s)" and log: "received s = echoed s @ dg_pending s"
    by (auto simp: sig_inv_def dgq.conveys_def dg_pending_def)
  show "received s = echoed s @ dg_pending s" by (rule log)
  show "length (dg_pending s) \<le> QSIZE" using wf by (simp add: dg_pending_def dgq_items_def dgq_wf_def nat_le_iff)
  show "iget s < QSIZE" and "iput s < QSIZE" and "0 \<le> nqueue s" and "nqueue s \<le> int QSIZE"
    using wf iput_less [OF wf] inv by (auto simp: sig_inv_def pc_ok_def dg_view_def dgq_wf_def dgq_pop_def split: dgpc.splits)
  show "echoed s = received s" if "dgpc s = D_suspend"
    using that inv log by (simp add: sig_inv_def pc_ok_def dg_pending_def dg_view_def dgq_items_def)
qed

text \<open>A run in which one datagram arrives and is sent back.\<close>

definition dg_sample_choice :: dchoice where
  "dg_sample_choice = \<lparr>d_signal = Sighup, d_send = None\<rparr>"

definition sample_start :: sigio where
  "sample_start = deliver (Sigio [Inr (''hi'', ''a'')]) (dg_echo_init 1)"

definition sample_run :: sigio where
  "sample_run = (dg_echo dg_sample_choice ^^ 4) sample_start"

lemma sample_start_simps:
  "died sample_start = None" "dgpc sample_start = D_start" "nqueue sample_start = 1" "received sample_start = [(''hi'', ''a'')]"
  "echoed sample_start = []" "clilen sample_start = 1"
  by (simp_all add: sample_start_def deliver_def sig_io_def bindP_def dg_echo_init_def dg_store_def dg_reset_def QSIZE_def MAXDG_def)

lemma sample_moves:
  assumes "sigio_step\<^sup>*\<^sup>* s0 s" and "died s = None"
  shows "sigio_step\<^sup>*\<^sup>* s0 (dg_echo dg_sample_choice s)"
  using assms Moves [of s dg_sample_choice] by (simp add: fits_def dg_sample_choice_def rtranclp.rtrancl_into_rtrancl)

lemma sigio_sample_reach: "sigio_step\<^sup>*\<^sup>* (dg_echo_init 1) sample_run"
proof -
  have "sigio_step (dg_echo_init 1) sample_start"
    unfolding sample_start_def by (rule Interrupt) (simp_all add: dg_echo_init_def fits_def)
  then have "sigio_step\<^sup>*\<^sup>* (dg_echo_init 1) sample_start" by blast
  then show ?thesis unfolding sample_run_def
    by (simp add: numeral_eq_Suc) (intro sample_moves; simp add: dg_echo_def sample_start_simps dg_sample_choice_def)
qed

lemma sample_run_simps: "length (echoed sample_run) = 1" "received sample_run = [(''hi'', ''a'')]"
  by (simp_all add: sample_run_def numeral_eq_Suc dg_echo_def sample_start_simps dg_sample_choice_def)

theorem sigio_echo_conserves_witness:
  "echoed sample_run = [(''hi'', ''a'')] \<and> dg_pending sample_run = [] \<and> received sample_run = echoed sample_run @ dg_pending sample_run"
  using sigio_echo_conserves [OF sigio_sample_reach] sample_run_simps by (cases "echoed sample_run") auto

section \<open>Bursts\<close>

lemma sig_io_loop_burst:
  assumes "0 \<le> nqueue s"
  shows "if nqueue s + int (length xs) < int QSIZE
         then \<exists>s'. sig_io_loop (map Inr xs @ [Inl EWOULDBLOCK]) nread s = Ret (nread + length xs) s' \<and>
                nqueue s' = nqueue s + int (length xs) \<and> received s' = received s @ map (\<lambda>x. (take MAXDG (fst x), snd x)) xs \<and>
                cntread s' = cntread s
         else \<exists>s'. sig_io_loop (map Inr xs @ [Inl EWOULDBLOCK]) nread s = Die (Err_quit ''receive overflow'') s'"
  using assms
proof (induction xs arbitrary: s nread)
  case Nil
  then show ?case by (simp add: dg_reset_def)
next
  case (Cons x xs)
  obtain d a where x: "x = (d, a)" by fastforce
  show ?case
  proof (cases "int QSIZE \<le> nqueue s")
    case False
    with Cons.IH [of "dg_store d a (dg_reset s)" "nread + 1"] Cons.prems x show ?thesis
      by (auto simp: store_frame ac_simps split: if_splits)
  qed (simp add: x)
qed

text \<open>
  What one delivery of the signal does when a burst of datagrams has arrived: if they all fit and leave at least one entry of the
  array free, they are queued in order and counted; otherwise the server ends with "receive overflow", and that includes the burst that
  exactly fills the array, because the loop tests for a full array before it asks whether there is anything more to read.
\<close>

theorem sig_io_burst:
  assumes "0 \<le> nqueue s"
  shows "if nqueue s + int (length xs) < int QSIZE
         then \<exists>s'. sig_io (map Inr xs @ [Inl EWOULDBLOCK]) s = Ret () s' \<and> nqueue s' = nqueue s + int (length xs) \<and>
                received s' = received s @ map (\<lambda>x. (take MAXDG (fst x), snd x)) xs \<and>
                cntread s' = (cntread s)[length xs := cntread s ! length xs + 1]
         else \<exists>s'. sig_io (map Inr xs @ [Inl EWOULDBLOCK]) s = Die (Err_quit ''receive overflow'') s'"
  using sig_io_loop_burst [OF assms, of xs 0] by (auto simp: sig_io_def split: if_splits)

theorem sig_io_burst_witness:
  "\<exists>s'. sig_io (map Inr (replicate 8 (''x'', ''a'')) @ [Inl EWOULDBLOCK]) (dg_echo_init 1) = Die (Err_quit ''receive overflow'') s'"
  using sig_io_burst [of "dg_echo_init 1" "replicate 8 (''x'', ''a'')"] by (simp add: dg_echo_init_def QSIZE_def)

end
