(* ===== verification/File_Table.thy ===== *)
theory File_Table
  imports Locking
begin

text \<open>
  The table of files that the web clients of \<^verbatim>\<open>nonblock/\<close> and \<^verbatim>\<open>threads/\<close> fetch, and the three counters both keep beside it: files still to be started,
  connections open, files still to be finished. The clients differ in the flag that marks a finished file, which is the parameter of the interface.
\<close>

record web_file =
  f_name :: string
  f_host :: string
  f_fd :: int
  f_flags :: nat

definition MAXFILES :: nat where "MAXFILES = 20"
definition F_CONNECTING :: nat where "F_CONNECTING = 1"
definition F_READING :: nat where "F_READING = 2"
definition F_DONE :: nat where "F_DONE = 4"
definition F_JOINED :: nat where "F_JOINED = 8"

lemmas flag_defs = F_CONNECTING_def F_READING_def F_DONE_def F_JOINED_def

text \<open>\<^verbatim>\<open>"GET %s HTTP/1.0\r\n\r\n"\<close>\<close>

definition GET_CMD :: "string \<Rightarrow> string" where
  "GET_CMD fname = ''GET '' @ fname @ '' HTTP/1.0'' @ [CR, NL, CR, NL]"

text \<open>The table at the start: one entry per name, at most \<^verbatim>\<open>MAXFILES\<close>.\<close>

definition file_init :: "string \<Rightarrow> string list \<Rightarrow> web_file list" where
  "file_init host names = map (\<lambda>nm. \<lparr>f_name = nm, f_host = host, f_fd = 0, f_flags = 0\<rparr>) (take MAXFILES names)"

definition set_flags :: "nat \<Rightarrow> nat \<Rightarrow> web_file list \<Rightarrow> web_file list" where
  "set_flags i fl fs = fs[i := (fs ! i)\<lparr>f_flags := fl\<rparr>]"

definition find_file :: "web_file list \<Rightarrow> nat option" where
  "find_file = find_index (\<lambda>f. f_flags f = 0)"

definition tally :: "(nat \<Rightarrow> bool) \<Rightarrow> web_file list \<Rightarrow> int" where
  "tally P fs = sum_list (map (\<lambda>f. if P (f_flags f) then 1 else 0) fs)"

lemma tally_update:
  assumes "i < length fs"
  shows "tally P (fs[i := f]) = tally P fs - (if P (f_flags (fs ! i)) then 1 else 0) + (if P (f_flags f) then 1 else 0)"
  using sum_update [OF assms, of "\<lambda>f. if P (f_flags f) then 1 else 0 :: int" f] by (simp add: tally_def)

lemma tally_nonneg: "0 \<le> tally P fs"
  by (auto simp: tally_def intro!: sum_list_nonneg)

lemma tally_zero: "tally P fs = 0 \<longleftrightarrow> (\<forall>f \<in> set fs. \<not> P (f_flags f))"
proof (induction fs)
  case (Cons f fs)
  then show ?case using tally_nonneg [of P fs] by (auto simp: tally_def)
qed (simp add: tally_def)

lemma tally_init: "tally P (file_init host names) = (if P 0 then int (length (file_init host names)) else 0)"
  by (simp add: tally_def file_init_def comp_def sum_list_triv)

section \<open>The counters\<close>

locale web_table =
  fixes fin :: nat
  assumes fin_flag: "fin \<noteq> 0"
begin

definition counters_ok :: "web_file list \<Rightarrow> int \<Rightarrow> int \<Rightarrow> int \<Rightarrow> bool" where
  "counters_ok fs nlefttoconn nconn nlefttoread \<longleftrightarrow>
     nlefttoconn = tally (\<lambda>fl. fl = 0) fs \<and> nlefttoread = tally (\<lambda>fl. fl \<noteq> fin) fs \<and> nconn = nlefttoread - nlefttoconn"

lemma counters_init:
  "counters_ok (file_init host names) (int (length (file_init host names))) 0 (int (length (file_init host names)))"
  using fin_flag by (simp add: counters_ok_def tally_init)

lemma counters_start:
  assumes "counters_ok fs a b c" and "i < length fs" and "f_flags (fs ! i) = 0" and "f_flags f \<noteq> 0" and "f_flags f \<noteq> fin"
  shows "counters_ok (fs[i := f]) (a - 1) (b + 1) c"
  using assms fin_flag by (simp add: counters_ok_def tally_update)

lemma counters_go:
  assumes "counters_ok fs a b c" and "i < length fs"
    and "(f_flags (fs ! i) = 0) = (f_flags f = 0)" and "(f_flags (fs ! i) = fin) = (f_flags f = fin)"
  shows "counters_ok (fs[i := f]) a b c"
  using assms by (simp add: counters_ok_def tally_update)

lemma counters_finish:
  assumes "counters_ok fs a b c" and "i < length fs" and "f_flags (fs ! i) \<noteq> 0" and "f_flags (fs ! i) \<noteq> fin" and "f_flags f = fin"
  shows "counters_ok (fs[i := f]) a (b - 1) (c - 1)"
  using assms fin_flag by (simp add: counters_ok_def tally_update)

text \<open>As long as a file is left to be started, the search finds one; when none is left to be finished, all are.\<close>

lemma counters_find:
  assumes "counters_ok fs a b c" and "0 < a"
  obtains i where "find_file fs = Some i" and "i < length fs" and "f_flags (fs ! i) = 0"
proof -
  have "\<not> (\<forall>f \<in> set fs. f_flags f \<noteq> 0)" using assms tally_zero [of "\<lambda>fl. fl = 0" fs] by (auto simp: counters_ok_def)
  then obtain i where i: "find_file fs = Some i" by (cases "find_file fs") (auto simp: find_file_def find_index_None)
  then show ?thesis using that find_index_Some [of "\<lambda>f. f_flags f = 0" fs i] by (simp add: find_file_def)
qed

lemma counters_done: "counters_ok fs a b c \<Longrightarrow> c \<le> 0 \<Longrightarrow> \<forall>f \<in> set fs. f_flags f = fin"
  using tally_nonneg [of "\<lambda>fl. fl \<noteq> fin" fs] tally_zero [of "\<lambda>fl. fl \<noteq> fin" fs] by (auto simp: counters_ok_def)

lemma counters_nonneg: "counters_ok fs a b c \<Longrightarrow> 0 \<le> a \<and> 0 \<le> c"
  using tally_nonneg by (auto simp: counters_ok_def)

lemma counters_busy:
  assumes "counters_ok fs a b c" and "0 < b"
  obtains i where "i < length fs" and "f_flags (fs ! i) \<noteq> 0" and "f_flags (fs ! i) \<noteq> fin"
proof -
  have "\<exists>f \<in> set fs. f_flags f \<noteq> 0 \<and> f_flags f \<noteq> fin"
  proof (rule ccontr)
    assume "\<not> ?thesis"
    then have "tally (\<lambda>fl. fl \<noteq> fin) fs = tally (\<lambda>fl. fl = 0) fs"
      using fin_flag by (auto simp: tally_def intro!: arg_cong [where f = sum_list])
    with assms show False by (simp add: counters_ok_def)
  qed
  then show ?thesis using that by (metis in_set_conv_nth)
qed

end

interpretation nbw: web_table F_DONE
  by unfold_locales (simp add: F_DONE_def)

interpretation thw: web_table F_JOINED
  by unfold_locales (simp add: F_JOINED_def)

end
