(* ===== verification/Web_Nonb.thy ===== *)
theory Web_Nonb
  imports File_Table
begin

text \<open>
  The web client with nonblocking connects of \<^verbatim>\<open>nonblock/web.c\<close>, \<^verbatim>\<open>start_connect.c\<close> and \<^verbatim>\<open>write_get_cmd.c\<close>: up to \<^verbatim>\<open>maxnconn\<close> connections at a time, driven by \<^verbatim>\<open>select\<close>.
  What the kernel does in one turn of the main loop is a record of answers per file; progress messages are not modelled.
  Of a request, the part that is within its buffer is recorded. The home page is fetched before the loop by a separate connection and shares no state with it.
\<close>

unbundle bit_operations_syntax

section \<open>State and environment\<close>

record web =
  files :: "web_file list"
  nconn :: int
  nlefttoconn :: int
  nlefttoread :: int
  maxfd :: int
  rset :: "int set"
  wset :: "int set"
  requests :: "(nat \<times> string) list"
  refused :: "nat list"

definition web_start :: "string \<Rightarrow> string list \<Rightarrow> web" where
  "web_start host names =
     (let fs = file_init host names
      in \<lparr>files = fs, nconn = 0, nlefttoconn = int (length fs), nlefttoread = int (length fs), maxfd = -1, rset = {}, wset = {}, requests = [], refused = []\<rparr>)"

record web_env =
  w_host :: "nat \<Rightarrow> string option"
  w_socket :: "nat \<Rightarrow> int set \<Rightarrow> errno + int"
  w_fcntl :: "nat \<Rightarrow> errno option"
  w_connect :: "nat \<Rightarrow> errno option"
  w_write :: "nat \<Rightarrow> errno option"
  w_rs :: "int set"
  w_ws :: "int set"
  w_soerr :: "nat \<Rightarrow> errno option"
  w_read :: "nat \<Rightarrow> errno + char list"
  w_close :: "nat \<Rightarrow> errno option"

text \<open>\<^verbatim>\<open>socket\<close> returns a descriptor that is not in use.\<close>

definition fresh_sockets :: "web_env \<Rightarrow> bool" where
  "fresh_sockets ev \<longleftrightarrow> (\<forall>i X fd. finite X \<longrightarrow> w_socket ev i X = Inr fd \<longrightarrow> 0 \<le> fd \<and> fd \<notin> X)"

section \<open>Operations\<close>

definition write_get_cmd :: "web_env \<Rightarrow> nat \<Rightarrow> (unit, web) prog" where
  "write_get_cmd ev i s =
     (case w_write ev i of
        Some e \<Rightarrow> Die (Err_sys ''writen error'' (Some e)) s
      | None \<Rightarrow>
          let fd = f_fd (files s ! i)
          in Ret () (s\<lparr>requests := requests s @ [(i, snprintf_str MAXLINE (GET_CMD (f_name (files s ! i))))], files := set_flags i F_READING (files s),
                       rset := insert fd (rset s), maxfd := (if fd > maxfd s then fd else maxfd s)\<rparr>))"

definition start_connect :: "web_env \<Rightarrow> nat \<Rightarrow> (unit, web) prog" where
  "start_connect ev i s =
     (case w_host ev i of
        Some m \<Rightarrow> Die (Err_quit (''host_serv error for '' @ f_host (files s ! i) @ '', 80: '' @ m)) s
      | None \<Rightarrow>
     (case w_socket ev i (rset s) of
        Inl e \<Rightarrow> Die (Err_sys ''socket error'' (Some e)) s
      | Inr fd \<Rightarrow>
          let s1 = s\<lparr>files := (files s)[i := (files s ! i)\<lparr>f_fd := fd\<rparr>]\<rparr>
          in (case w_fcntl ev i of
                Some e \<Rightarrow> Die (Err_sys ''fcntl error'' (Some e)) s1
              | None \<Rightarrow>
          (case w_connect ev i of
             Some e \<Rightarrow>
               if e \<noteq> EINPROGRESS then Die (Err_sys ''nonblocking connect error'' (Some e)) s1
               else Ret () (s1\<lparr>files := set_flags i F_CONNECTING (files s1), rset := insert fd (rset s1), wset := insert fd (wset s1),
                               maxfd := (if fd > maxfd s1 then fd else maxfd s1)\<rparr>)
           | None \<Rightarrow> write_get_cmd ev i s1))))"

lemma write_get_cmd_left: "write_get_cmd ev i s = Ret u s' \<Longrightarrow> nlefttoconn s' = nlefttoconn s \<and> nconn s' = nconn s \<and> nlefttoread s' = nlefttoread s"
  by (auto simp: write_get_cmd_def Let_def split: option.splits)

lemma start_connect_left: "start_connect ev i s = Ret u s' \<Longrightarrow> nlefttoconn s' = nlefttoconn s \<and> nconn s' = nconn s \<and> nlefttoread s' = nlefttoread s"
  by (auto simp: start_connect_def Let_def split: option.splits sum.splits if_splits dest: write_get_cmd_left)

text \<open>The inner loop that starts connections as long as there is room for one more.\<close>

function web_fill :: "web_env \<Rightarrow> int \<Rightarrow> (unit, web) prog" where
  "web_fill ev maxnconn s =
     (if nconn s < maxnconn \<and> 0 < nlefttoconn s
      then (case find_file (files s) of
              None \<Rightarrow> Die (Err_quit ''nlefttoconn = %d but nothing found'') s
            | Some i \<Rightarrow>
                bindP (start_connect ev i)
                  (\<lambda>_ s'. web_fill ev maxnconn (s'\<lparr>nconn := nconn s' + 1, nlefttoconn := nlefttoconn s' - 1\<rparr>)) s)
      else Ret () s)"
  by auto
termination
  by (relation "measure (\<lambda>(ev, m, s). nat (nlefttoconn s))") (auto dest: start_connect_left)

declare web_fill.simps [simp del]

text \<open>The body of the loop over the files after \<^verbatim>\<open>Select\<close>.\<close>

definition web_check :: "web_env \<Rightarrow> int set \<Rightarrow> int set \<Rightarrow> nat \<Rightarrow> (unit, web) prog" where
  "web_check ev rs ws i s =
     (let flags = f_flags (files s ! i); fd = f_fd (files s ! i)
      in if flags = 0 \<or> flags AND F_DONE \<noteq> 0 then Ret () s
         else if flags AND F_CONNECTING \<noteq> 0 \<and> (fd \<in> rs \<or> fd \<in> ws)
         then write_get_cmd ev i (s\<lparr>refused := refused s @ (if w_soerr ev i = None then [] else [i]), wset := wset s - {fd}\<rparr>)
         else if flags AND F_READING \<noteq> 0 \<and> fd \<in> rs
         then (case w_read ev i of
                 Inl e \<Rightarrow> Die (Err_sys ''read error'' (Some e)) s
               | Inr bs \<Rightarrow>
                   if bs = []
                   then (case w_close ev i of
                           Some e \<Rightarrow> Die (Err_sys ''close error'' (Some e)) s
                         | None \<Rightarrow> Ret () (s\<lparr>files := set_flags i F_DONE (files s), rset := rset s - {fd}, nconn := nconn s - 1,
                                             nlefttoread := nlefttoread s - 1\<rparr>))
                   else Ret () s)
         else Ret () s)"

fun web_scan :: "web_env \<Rightarrow> int set \<Rightarrow> int set \<Rightarrow> nat list \<Rightarrow> (unit, web) prog" where
  "web_scan ev rs ws [] s = Ret () s"
| "web_scan ev rs ws (i # js) s = bindP (web_check ev rs ws i) (\<lambda>_ s'. web_scan ev rs ws js s') s"

definition web_round :: "web_env \<Rightarrow> int \<Rightarrow> (unit, web) prog" where
  "web_round ev maxnconn =
     bindP (web_fill ev maxnconn)
       (\<lambda>_ s. let rs = w_rs ev \<inter> rset s; ws = w_ws ev \<inter> wset s
              in if rs = {} \<and> ws = {} then Blocked s else web_scan ev rs ws [0..<length (files s)] s)"

fun web_main :: "int \<Rightarrow> web_env list \<Rightarrow> (unit, web) prog" where
  "web_main maxnconn [] s = (if 0 < nlefttoread s then Blocked s else Die (Exit 0) s)"
| "web_main maxnconn (ev # evs) s =
     (if 0 < nlefttoread s then bindP (web_round ev maxnconn) (\<lambda>_ s'. web_main maxnconn evs s') s else Die (Exit 0) s)"

section \<open>The invariant\<close>

definition in_phase :: "nat set \<Rightarrow> web_file list \<Rightarrow> nat \<Rightarrow> bool" where
  "in_phase P fs i \<longleftrightarrow> i < length fs \<and> f_flags (fs ! i) \<in> P"

definition fds :: "nat set \<Rightarrow> web_file list \<Rightarrow> int set" where
  "fds P fs = {f_fd (fs ! i) | i. in_phase P fs i}"

definition sets_ok :: "web \<Rightarrow> bool" where
  "sets_ok s \<longleftrightarrow>
     rset s = fds {F_CONNECTING, F_READING} (files s) \<and> wset s = fds {F_CONNECTING} (files s) \<and>
     inj_on (\<lambda>i. f_fd (files s ! i)) {i. in_phase {F_CONNECTING, F_READING} (files s) i} \<and>
     (\<forall>fd \<in> rset s. 0 \<le> fd \<and> fd \<le> maxfd s)"

text \<open>A file has been asked for, once, exactly from the time it is being read.\<close>

definition asked :: "nat \<Rightarrow> web_file \<Rightarrow> (nat \<times> string) list" where
  "asked i f = (if f_flags f \<in> {F_READING, F_DONE} then [(i, snprintf_str MAXLINE (GET_CMD (f_name f)))] else [])"

definition asked_ok :: "web \<Rightarrow> bool" where
  "asked_ok s \<longleftrightarrow> (\<forall>i < length (files s). filter (\<lambda>r. fst r = i) (requests s) = asked i (files s ! i))"

definition flags_ok :: "web_file list \<Rightarrow> bool" where
  "flags_ok fs \<longleftrightarrow> (\<forall>f \<in> set fs. f_flags f \<in> {0, F_CONNECTING, F_READING, F_DONE})"

definition web_inv :: "web \<Rightarrow> bool" where
  "web_inv s \<longleftrightarrow>
     nbw.counters_ok (files s) (nlefttoconn s) (nconn s) (nlefttoread s) \<and> sets_ok s \<and> asked_ok s \<and> flags_ok (files s)"

lemma flags_ok_update: "flags_ok fs \<Longrightarrow> f_flags f \<in> {0, F_CONNECTING, F_READING, F_DONE} \<Longrightarrow> flags_ok (fs[i := f])"
  unfolding flags_ok_def by (rule all_set_update)

lemma finite_fds: "finite (fds P fs)"
  by (rule finite_subset [of _ "f_fd ` set fs"]) (auto simp: fds_def in_phase_def)

lemma fds_update:
  assumes "inj_on (\<lambda>i. f_fd (fs ! i)) {i. in_phase Q fs i}" and "P \<subseteq> Q" and "i < length fs"
    and "f_flags (fs ! i) \<in> Q \<and> f_fd f = f_fd (fs ! i) \<or> f_flags (fs ! i) \<notin> Q"
  shows "fds P (fs[i := f]) =
    (if f_flags f \<in> P then insert (f_fd f) (fds P fs)
     else if f_flags (fs ! i) \<in> P then fds P fs - {f_fd (fs ! i)} else fds P fs)"
proof -
  have other: "f_fd (fs ! j) \<noteq> f_fd (fs ! i)" if "in_phase P fs j" "in_phase P fs i" "j \<noteq> i" for j
    using assms(1,2) that by (auto simp: inj_on_def in_phase_def)
  show ?thesis
    using assms(2-4) other by (auto simp: fds_def in_phase_def nth_list_update split: if_splits) metis
qed

text \<open>One entry changes its phase; the sets follow.\<close>

lemma inj_update:
  assumes "inj_on (\<lambda>i. f_fd (fs ! i)) {i. in_phase Q fs i}" and "i < length fs"
    and "f_flags (fs ! i) \<in> Q \<and> f_fd f = f_fd (fs ! i) \<or> f_flags f \<notin> Q \<or> f_fd f \<notin> fds Q fs"
  shows "inj_on (\<lambda>j. f_fd (fs[i := f] ! j)) {j. in_phase Q (fs[i := f]) j}"
  using assms by (auto simp: inj_on_def in_phase_def fds_def nth_list_update)

lemma asked_update:
  assumes "asked_ok s" and "i < length (files s)" and "\<forall>r \<in> set rs. fst r = i" and "asked i (files s ! i) @ rs = asked i f"
  shows "asked_ok (s\<lparr>files := (files s)[i := f], requests := requests s @ rs\<rparr>)"
proof -
  have "filter (\<lambda>r. fst r = j) rs = (if j = i then rs else [])" for j
    using assms(3) by (auto simp: filter_empty_conv filter_id_conv)
  then show ?thesis using assms by (simp add: asked_ok_def nth_list_update)
qed

lemma write_get_cmd_inv:
  assumes "i < length (files s)" and "write_get_cmd ev i s = Ret u s'" and "asked_ok s"
    and "nbw.counters_ok (files s) a b c" and "flags_ok (files s)"
    and "f_flags (files s ! i) = 0 \<and> f_fd (files s ! i) \<notin> rset s \<and> 0 \<le> f_fd (files s ! i) \<and> sets_ok s
      \<or> f_flags (files s ! i) = F_CONNECTING \<and> sets_ok (s\<lparr>wset := insert (f_fd (files s ! i)) (wset s)\<rparr>) \<and> f_fd (files s ! i) \<notin> wset s"
  shows "sets_ok s'" and "asked_ok s'"
    and "nbw.counters_ok (files s') (if f_flags (files s ! i) = 0 then a - 1 else a) (if f_flags (files s ! i) = 0 then b + 1 else b) c"
    and "flags_ok (files s')" and "length (files s') = length (files s)"
proof -
  let ?f = "(files s ! i)\<lparr>f_flags := F_READING\<rparr>"
  let ?fd = "f_fd (files s ! i)"
  have s': "s' = s\<lparr>requests := requests s @ [(i, snprintf_str MAXLINE (GET_CMD (f_name (files s ! i))))], files := (files s)[i := ?f],
      rset := insert ?fd (rset s), maxfd := (if ?fd > maxfd s then ?fd else maxfd s)\<rparr>"
    using assms(2) by (auto simp: write_get_cmd_def set_flags_def Let_def split: option.splits)
  have inj: "inj_on (\<lambda>i. f_fd (files s ! i)) {i. in_phase {F_CONNECTING, F_READING} (files s) i}"
    using assms(6) by (auto simp: sets_ok_def)
  have r: "rset s = fds {F_CONNECTING, F_READING} (files s)" "\<forall>fd \<in> rset s. 0 \<le> fd \<and> fd \<le> maxfd s" using assms(6) by (auto simp: sets_ok_def)
  have pos: "0 \<le> ?fd" using assms(1,6) r by (auto simp: fds_def in_phase_def)
  have w: "fds {F_CONNECTING} ((files s)[i := ?f]) = wset s"
    using assms(6) fds_update [OF inj, of "{F_CONNECTING}" i ?f] assms(1) by (auto simp: sets_ok_def flag_defs)
  have rs: "fds {F_CONNECTING, F_READING} ((files s)[i := ?f]) = insert ?fd (rset s)"
    using assms(6) fds_update [OF inj subset_refl assms(1), of ?f] r by (auto simp: flag_defs)
  have "inj_on (\<lambda>j. f_fd ((files s)[i := ?f] ! j)) {j. in_phase {F_CONNECTING, F_READING} ((files s)[i := ?f]) j}"
    by (rule inj_update [OF inj assms(1)]) (use assms(6) r in \<open>auto simp: flag_defs\<close>)
  with w rs r(2) pos show "sets_ok s'" unfolding s' sets_ok_def by auto
  have "asked_ok (s\<lparr>files := (files s)[i := ?f], requests := requests s @ [(i, snprintf_str MAXLINE (GET_CMD (f_name ?f)))]\<rparr>)"
    by (rule asked_update [OF assms(3,1)]) (use assms(6) in \<open>auto simp: flag_defs asked_def\<close>)
  then show "asked_ok s'" by (simp add: s' asked_ok_def)
  show "nbw.counters_ok (files s') (if f_flags (files s ! i) = 0 then a - 1 else a) (if f_flags (files s ! i) = 0 then b + 1 else b) c"
    using nbw.counters_start [OF assms(4,1), of ?f] nbw.counters_go [OF assms(4,1), of ?f] assms(6) by (auto simp: s' flag_defs)
  show "flags_ok (files s')" "length (files s') = length (files s)"
    using flags_ok_update [OF assms(5), of ?f i] by (simp_all add: s')
qed

lemma web_inv_counters:
  "web_inv (s\<lparr>nconn := b, nlefttoconn := a\<rparr>) \<longleftrightarrow> nbw.counters_ok (files s) a b (nlefttoread s) \<and> sets_ok s \<and> asked_ok s \<and> flags_ok (files s)"
  by (simp add: web_inv_def sets_ok_def asked_ok_def)

lemma set_fd_inv:
  assumes "web_inv s" and "i < length (files s)" and "f_flags (files s ! i) = 0"
  shows "web_inv (s\<lparr>files := (files s)[i := (files s ! i)\<lparr>f_fd := fd\<rparr>]\<rparr>)"
proof -
  let ?f = "(files s ! i)\<lparr>f_fd := fd\<rparr>"
  have inj: "inj_on (\<lambda>i. f_fd (files s ! i)) {i. in_phase {F_CONNECTING, F_READING} (files s) i}"
    using assms(1) by (simp add: web_inv_def sets_ok_def)
  have "sets_ok (s\<lparr>files := (files s)[i := ?f]\<rparr>)"
    using assms fds_update [OF inj, of "{F_CONNECTING}" i ?f] fds_update [OF inj, of "{F_CONNECTING, F_READING}" i ?f] inj_update [OF inj, of i ?f]
    by (simp add: web_inv_def sets_ok_def flag_defs)
  moreover have "asked_ok (s\<lparr>files := (files s)[i := ?f]\<rparr>)"
    using assms asked_update [of s i "[]" ?f] by (simp add: web_inv_def asked_def)
  ultimately show ?thesis
    using assms flags_ok_update [of "files s" ?f i] nbw.counters_go [of "files s" _ _ _ i ?f] by (simp add: web_inv_def)
qed

lemma start_connect_inv:
  assumes "web_inv s" and "i < length (files s)" and "f_flags (files s ! i) = 0" and "fresh_sockets ev" and "start_connect ev i s = Ret u s'"
  shows "web_inv (s'\<lparr>nconn := nconn s' + 1, nlefttoconn := nlefttoconn s' - 1\<rparr>)" and "length (files s') = length (files s)"
proof -
  obtain fd where fd: "w_socket ev i (rset s) = Inr fd" using assms(5) by (auto simp: start_connect_def split: option.splits sum.splits)
  have "finite (rset s)" using assms(1) by (simp add: web_inv_def sets_ok_def finite_fds)
  then have new: "0 \<le> fd" "fd \<notin> rset s" using assms(4) fd by (auto simp: fresh_sockets_def)
  define s1 where "s1 = s\<lparr>files := (files s)[i := (files s ! i)\<lparr>f_fd := fd\<rparr>]\<rparr>"
  have i1: "web_inv s1" "i < length (files s1)" "f_flags (files s1 ! i) = 0" "f_fd (files s1 ! i) = fd" "rset s1 = rset s"
    using set_fd_inv [OF assms(1-3), of fd] assms(2,3) by (simp_all add: s1_def)
  have s1: "nlefttoconn s1 = nlefttoconn s" "nconn s1 = nconn s" "nlefttoread s1 = nlefttoread s" "length (files s1) = length (files s)"
    by (simp_all add: s1_def)
  have left: "nlefttoconn s' = nlefttoconn s" "nconn s' = nconn s" "nlefttoread s' = nlefttoread s"
    using start_connect_left [OF assms(5)] by simp_all
  have "web_inv (s'\<lparr>nconn := nconn s' + 1, nlefttoconn := nlefttoconn s' - 1\<rparr>) \<and> length (files s') = length (files s)"
  proof (cases "w_connect ev i")
    case None
    then have w: "write_get_cmd ev i s1 = Ret u s'" using assms(5) fd by (auto simp: start_connect_def s1_def Let_def split: option.splits)
    have inv: "asked_ok s1" "nbw.counters_ok (files s1) (nlefttoconn s1) (nconn s1) (nlefttoread s1)" "flags_ok (files s1)" "sets_ok s1"
      using i1(1) by (simp_all add: web_inv_def)
    with new i1 have pre: "f_flags (files s1 ! i) = 0 \<and> f_fd (files s1 ! i) \<notin> rset s1 \<and> 0 \<le> f_fd (files s1 ! i) \<and> sets_ok s1
      \<or> f_flags (files s1 ! i) = F_CONNECTING \<and> sets_ok (s1\<lparr>wset := insert (f_fd (files s1 ! i)) (wset s1)\<rparr>) \<and> f_fd (files s1 ! i) \<notin> wset s1" by simp
    note wr = write_get_cmd_inv [OF i1(2) w inv(1-3) pre]
    have "sets_ok s'" "asked_ok s'" "nbw.counters_ok (files s') (nlefttoconn s1 - 1) (nconn s1 + 1) (nlefttoread s1)"
      "flags_ok (files s')" "length (files s') = length (files s1)"
      using wr i1(3) by simp_all
    with left s1 show ?thesis by (simp add: web_inv_counters)
  next
    case (Some e)
    let ?f = "(files s1 ! i)\<lparr>f_flags := F_CONNECTING\<rparr>"
    have s': "s' = s1\<lparr>files := (files s1)[i := ?f], rset := insert fd (rset s1), wset := insert fd (wset s1),
        maxfd := (if fd > maxfd s1 then fd else maxfd s1)\<rparr>"
      using assms(5) fd Some by (auto simp: start_connect_def s1_def set_flags_def Let_def split: option.splits if_splits)
    have inj: "inj_on (\<lambda>i. f_fd (files s1 ! i)) {i. in_phase {F_CONNECTING, F_READING} (files s1) i}"
      and r: "rset s1 = fds {F_CONNECTING, F_READING} (files s1)" "wset s1 = fds {F_CONNECTING} (files s1)" "\<forall>fd \<in> rset s1. 0 \<le> fd \<and> fd \<le> maxfd s1"
      using i1(1) by (auto simp: web_inv_def sets_ok_def)
    have "sets_ok s'"
      using i1 new r fds_update [OF inj _ i1(2), of "{F_CONNECTING}" ?f] fds_update [OF inj _ i1(2), of "{F_CONNECTING, F_READING}" ?f] inj_update [OF inj i1(2), of ?f]
      by (auto simp: s' sets_ok_def flag_defs)
    moreover have "asked_ok (s1\<lparr>files := (files s1)[i := ?f]\<rparr>)"
      using i1 asked_update [of s1 i "[]" ?f] by (simp add: web_inv_def asked_def flag_defs)
    then have "asked_ok s'" by (simp add: s' asked_ok_def)
    moreover have "nbw.counters_ok (files s') (nlefttoconn s1 - 1) (nconn s1 + 1) (nlefttoread s1)"
      using nbw.counters_start [of "files s1" _ _ _ i ?f] i1 by (simp add: s' web_inv_def flag_defs)
    moreover have "flags_ok (files s')"
      using flags_ok_update [of "files s1" ?f i] i1(1) by (simp add: s' web_inv_def)
    moreover have "length (files s') = length (files s1)" by (simp add: s')
    ultimately show ?thesis using left s1 by (simp add: web_inv_counters)
  qed
  then show "web_inv (s'\<lparr>nconn := nconn s' + 1, nlefttoconn := nlefttoconn s' - 1\<rparr>)" "length (files s') = length (files s)" by simp_all
qed

lemma start_connect_dies: "start_connect ev i s = Die f s' \<Longrightarrow> f \<noteq> Err_quit ''nlefttoconn = %d but nothing found'' \<and> f \<noteq> Exit 0"
  by (auto simp: start_connect_def write_get_cmd_def Let_def split: option.splits sum.splits if_splits)

lemma start_connect_returns: "start_connect ev i s \<noteq> Blocked s'"
  by (auto simp: start_connect_def write_get_cmd_def Let_def split: option.splits sum.splits)

text \<open>The search for a file to start never fails, and the loop ends with as many connections as it may have, or no file left to start.\<close>

definition filled :: "int \<Rightarrow> web \<Rightarrow> (unit, web) outcome \<Rightarrow> bool" where
  "filled m s r =
     (case r of
        Ret _ s' \<Rightarrow> web_inv s' \<and> nlefttoread s' = nlefttoread s \<and> nconn s' \<le> max (nconn s) m \<and> (m \<le> nconn s' \<or> nlefttoconn s' \<le> 0)
      | Die f _ \<Rightarrow> f \<noteq> Err_quit ''nlefttoconn = %d but nothing found'' \<and> f \<noteq> Exit 0
      | Blocked _ \<Rightarrow> False)"

lemma web_fill_filled: "web_inv s \<Longrightarrow> fresh_sockets ev \<Longrightarrow> filled m s (web_fill ev m s)"
proof (induction ev m s rule: web_fill.induct)
  case (1 ev m s)
  show ?case
  proof (cases "nconn s < m \<and> 0 < nlefttoconn s")
    case False
    with "1.prems" show ?thesis by (subst web_fill.simps) (auto simp: filled_def)
  next
    case True
    then have "nbw.counters_ok (files s) (nlefttoconn s) (nconn s) (nlefttoread s)" "0 < nlefttoconn s"
      using "1.prems" by (simp_all add: web_inv_def)
    then obtain i where i: "find_file (files s) = Some i" "i < length (files s)" "f_flags (files s ! i) = 0"
      by (rule nbw.counters_find)
    show ?thesis
    proof (cases "start_connect ev i s")
      case (Ret v t)
      let ?t = "t\<lparr>nconn := nconn t + 1, nlefttoconn := nlefttoconn t - 1\<rparr>"
      have inv: "web_inv ?t" using start_connect_inv(1) [OF "1.prems"(1) i(2,3) "1.prems"(2) Ret] .
      have eq: "web_fill ev m s = web_fill ev m ?t" using True i(1) Ret by (subst web_fill.simps) simp
      from "1.IH" [OF True i(1) Ret inv "1.prems"(2)] start_connect_left [OF Ret] True show ?thesis
        unfolding eq by (auto simp: filled_def split: outcome.splits)
    next
      case (Die f t)
      then show ?thesis using True i(1) start_connect_dies [OF Die] by (subst web_fill.simps) (simp add: filled_def)
    next
      case (Blocked t)
      then show ?thesis using start_connect_returns by blast
    qed
  qed
qed

definition checked :: "web \<Rightarrow> (unit, web) outcome \<Rightarrow> bool" where
  "checked s r =
     (case r of
        Ret _ s' \<Rightarrow> web_inv s' \<and> length (files s') = length (files s) \<and> nconn s' \<le> nconn s
      | Die f _ \<Rightarrow> f \<noteq> Err_quit ''nlefttoconn = %d but nothing found'' \<and> f \<noteq> Exit 0
      | Blocked _ \<Rightarrow> False)"

lemma connected_checked:
  assumes "web_inv s" and "i < length (files s)" and "f_flags (files s ! i) = F_CONNECTING"
  shows "checked s (write_get_cmd ev i (s\<lparr>refused := bad, wset := wset s - {f_fd (files s ! i)}\<rparr>))"
proof (cases "w_write ev i")
  case (Some e)
  then show ?thesis by (simp add: write_get_cmd_def checked_def)
next
  case None
  let ?fd = "f_fd (files s ! i)"
  define t where "t = s\<lparr>refused := bad, wset := wset s - {?fd}\<rparr>"
  obtain s' where w: "write_get_cmd ev i t = Ret () s'" using None by (auto simp: write_get_cmd_def Let_def)
  have "insert ?fd (wset s - {?fd}) = wset s" using assms by (auto simp: web_inv_def sets_ok_def fds_def in_phase_def)
  then have "sets_ok (t\<lparr>wset := insert ?fd (wset t)\<rparr>)" using assms(1) by (simp add: t_def web_inv_def sets_ok_def)
  then have pre: "f_flags (files t ! i) = 0 \<and> f_fd (files t ! i) \<notin> rset t \<and> 0 \<le> f_fd (files t ! i) \<and> sets_ok t
      \<or> f_flags (files t ! i) = F_CONNECTING \<and> sets_ok (t\<lparr>wset := insert (f_fd (files t ! i)) (wset t)\<rparr>) \<and> f_fd (files t ! i) \<notin> wset t"
    using assms(3) by (simp add: t_def)
  have inv: "i < length (files t)" "asked_ok t" "nbw.counters_ok (files t) (nlefttoconn t) (nconn t) (nlefttoread t)" "flags_ok (files t)"
    using assms by (simp_all add: t_def web_inv_def asked_ok_def)
  note wr = write_get_cmd_inv [OF inv(1) w inv(2-4) pre]
  have "f_flags (files t ! i) \<noteq> 0" using assms(3) by (simp add: t_def flag_defs)
  with wr write_get_cmd_left [OF w] have "web_inv s'" "length (files s') = length (files t)" "nconn s' = nconn t"
    by (simp_all add: web_inv_def)
  then show ?thesis using w by (simp add: checked_def t_def)
qed

lemma finished_checked:
  assumes "web_inv s" and "i < length (files s)" and "f_flags (files s ! i) = F_READING"
  shows "web_inv (s\<lparr>files := set_flags i F_DONE (files s), rset := rset s - {f_fd (files s ! i)}, nconn := nconn s - 1, nlefttoread := nlefttoread s - 1\<rparr>)"
proof -
  let ?f = "(files s ! i)\<lparr>f_flags := F_DONE\<rparr>"
  have inj: "inj_on (\<lambda>i. f_fd (files s ! i)) {i. in_phase {F_CONNECTING, F_READING} (files s) i}"
    using assms(1) by (simp add: web_inv_def sets_ok_def)
  have "asked_ok (s\<lparr>files := (files s)[i := ?f]\<rparr>)"
    using assms asked_update [of s i "[]" ?f] by (simp add: web_inv_def asked_def flag_defs)
  moreover have "nbw.counters_ok ((files s)[i := ?f]) (nlefttoconn s) (nconn s - 1) (nlefttoread s - 1)"
    using assms nbw.counters_finish [of "files s" _ _ _ i ?f] by (simp add: web_inv_def flag_defs)
  moreover have "flags_ok ((files s)[i := ?f])" using assms flags_ok_update [of "files s" ?f i] by (simp add: web_inv_def)
  ultimately show ?thesis
    using assms fds_update [OF inj, of "{F_CONNECTING}" i ?f] fds_update [OF inj, of "{F_CONNECTING, F_READING}" i ?f] inj_update [OF inj, of i ?f]
    by (simp add: web_inv_def sets_ok_def asked_ok_def set_flags_def flag_defs)
qed

lemma web_check_checked:
  assumes "web_inv s" and "i < length (files s)"
  shows "checked s (web_check ev rs ws i s)"
proof -
  have "f_flags (files s ! i) \<in> {0, F_CONNECTING, F_READING, F_DONE}" using assms by (auto simp: web_inv_def flags_ok_def)
  then consider "f_flags (files s ! i) = 0 \<or> f_flags (files s ! i) = F_DONE" | "f_flags (files s ! i) = F_CONNECTING" | "f_flags (files s ! i) = F_READING" by auto
  then show ?thesis
  proof cases
    case 1
    with assms show ?thesis by (auto simp: web_check_def checked_def flag_defs Let_def)
  next
    case 2
    with assms connected_checked [OF assms 2] show ?thesis by (auto simp: web_check_def flag_defs Let_def checked_def)
  next
    case 3
    with assms finished_checked [OF assms 3] show ?thesis
      by (auto simp: web_check_def flag_defs Let_def checked_def set_flags_def split: sum.splits option.splits)
  qed
qed

lemma web_scan_checked: "web_inv s \<Longrightarrow> \<forall>i \<in> set js. i < length (files s) \<Longrightarrow> checked s (web_scan ev rs ws js s)"
proof (induction js arbitrary: s)
  case (Cons i js)
  then have c: "checked s (web_check ev rs ws i s)" by (intro web_check_checked) auto
  show ?case
  proof (cases "web_check ev rs ws i s")
    case (Ret u t)
    with c Cons.IH [of t] Cons.prems show ?thesis by (auto simp: checked_def split: outcome.splits)
  qed (use c in \<open>auto simp: checked_def\<close>)
qed (simp add: checked_def)

section \<open>Whole runs\<close>

text \<open>The names in the table never change.\<close>

definition names_of :: "web \<Rightarrow> string list" where
  "names_of s = map f_name (files s)"

lemma names_update: "f_name f = f_name (files s ! i) \<Longrightarrow> names_of s = map f_name ((files s)[i := f])"
  by (cases "i < length (files s)") (simp_all add: names_of_def map_same_update list_update_beyond)

lemma names_write: "write_get_cmd ev i s = Ret u s' \<Longrightarrow> names_of s' = names_of s"
  using names_update [of "(files s ! i)\<lparr>f_flags := F_READING\<rparr>" s i]
  by (auto simp: write_get_cmd_def names_of_def Let_def set_flags_def split: option.splits)

lemma names_start: "start_connect ev i s = Ret u s' \<Longrightarrow> names_of s' = names_of s"
proof -
  assume r: "start_connect ev i s = Ret u s'"
  then obtain fd where fd: "w_socket ev i (rset s) = Inr fd" by (auto simp: start_connect_def split: option.splits sum.splits)
  let ?s = "s\<lparr>files := (files s)[i := (files s ! i)\<lparr>f_fd := fd\<rparr>]\<rparr>"
  have "names_of ?s = names_of s" using names_update [of "(files s ! i)\<lparr>f_fd := fd\<rparr>" s i] by (simp add: names_of_def)
  then show ?thesis
    using r fd names_write [of ev i ?s u s'] names_update [of "(files ?s ! i)\<lparr>f_flags := F_CONNECTING\<rparr>" ?s i]
    by (auto simp: start_connect_def Let_def set_flags_def names_of_def split: option.splits if_splits)
qed

lemma names_fill: "web_fill ev m s = Ret u s' \<Longrightarrow> names_of s' = names_of s"
proof (induction ev m s arbitrary: u rule: web_fill.induct)
  case (1 ev m s)
  show ?case
  proof (cases "nconn s < m \<and> 0 < nlefttoconn s")
    case False
    with "1.prems" show ?thesis by (subst (asm) web_fill.simps) auto
  next
    case True
    with "1.prems" obtain i v t where t: "find_file (files s) = Some i" "start_connect ev i s = Ret v t"
      "web_fill ev m (t\<lparr>nconn := nconn t + 1, nlefttoconn := nlefttoconn t - 1\<rparr>) = Ret u s'"
      by (subst (asm) web_fill.simps) (auto split: option.splits elim!: bindP_RetE)
    from "1.IH" [OF True t] names_start [OF t(2)] show ?thesis by (simp add: names_of_def)
  qed
qed

lemma names_check: "web_check ev rs ws i s = Ret u s' \<Longrightarrow> names_of s' = names_of s"
  using names_write [of ev i "s\<lparr>refused := refused s @ (if w_soerr ev i = None then [] else [i]), wset := wset s - {f_fd (files s ! i)}\<rparr>" u s']
    names_update [of "(files s ! i)\<lparr>f_flags := F_DONE\<rparr>" s i]
  by (auto simp: web_check_def Let_def names_of_def set_flags_def split: if_splits sum.splits option.splits)

lemma names_scan: "web_scan ev rs ws js s = Ret u s' \<Longrightarrow> names_of s' = names_of s"
  by (induction js arbitrary: s) (auto elim!: bindP_RetE dest: names_check)

lemma web_round_result:
  assumes "web_inv s" and "fresh_sockets ev"
  shows "case web_round ev m s of
      Ret _ s' \<Rightarrow> web_inv s' \<and> nconn s' \<le> max (nconn s) m \<and> names_of s' = names_of s
    | Blocked s' \<Rightarrow> web_inv s' \<and> nlefttoread s' = nlefttoread s \<and> nconn s' \<le> max (nconn s) m \<and> (m \<le> nconn s' \<or> nlefttoconn s' \<le> 0) \<and> names_of s' = names_of s
    | Die f _ \<Rightarrow> f \<noteq> Err_quit ''nlefttoconn = %d but nothing found'' \<and> f \<noteq> Exit 0"
proof -
  have f: "filled m s (web_fill ev m s)" by (rule web_fill_filled [OF assms])
  show ?thesis
  proof (cases "web_fill ev m s")
    case (Ret u t)
    then have t: "web_inv t" "nlefttoread t = nlefttoread s" "nconn t \<le> max (nconn s) m" "m \<le> nconn t \<or> nlefttoconn t \<le> 0"
      using f by (auto simp: filled_def)
    define rs ws where "rs = w_rs ev \<inter> rset t" and "ws = w_ws ev \<inter> wset t"
    have c: "checked t (web_scan ev rs ws [0..<length (files t)] t)" by (rule web_scan_checked [OF t(1)]) simp
    have "names_of s' = names_of s" if "web_scan ev rs ws [0..<length (files t)] t = Ret v s'" for v s'
      using names_scan [OF that] names_fill [OF Ret] by simp
    moreover have r: "web_round ev m s = (if rs = {} \<and> ws = {} then Blocked t else web_scan ev rs ws [0..<length (files t)] t)"
      using Ret by (simp add: web_round_def Let_def rs_def ws_def)
    show ?thesis
    proof (cases "rs = {} \<and> ws = {}")
      case True
      then show ?thesis using r t names_fill [OF Ret] by simp
    next
      case False
      then have "web_round ev m s = web_scan ev rs ws [0..<length (files t)] t" using r by argo
      with calculation c t(3) show ?thesis by (cases "web_scan ev rs ws [0..<length (files t)] t") (auto simp: checked_def)
    qed
  qed (use f in \<open>auto simp: web_round_def filled_def\<close>)
qed

lemma web_main_result:
  assumes "web_inv s" and "\<forall>ev \<in> set evs. fresh_sockets ev" and "nconn s \<le> max 0 m"
  shows "case web_main m evs s of
      Ret _ _ \<Rightarrow> False
    | Blocked s' \<Rightarrow> web_inv s' \<and> 0 < nlefttoread s' \<and> nconn s' \<le> max 0 m \<and> names_of s' = names_of s
    | Die f s' \<Rightarrow> f \<noteq> Err_quit ''nlefttoconn = %d but nothing found'' \<and> (f = Exit 0 \<longrightarrow> web_inv s' \<and> nlefttoread s' \<le> 0 \<and> names_of s' = names_of s)"
  using assms
proof (induction evs arbitrary: s)
  case (Cons ev evs)
  then have r: "case web_round ev m s of
      Ret _ s' \<Rightarrow> web_inv s' \<and> nconn s' \<le> max (nconn s) m \<and> names_of s' = names_of s
    | Blocked s' \<Rightarrow> web_inv s' \<and> nlefttoread s' = nlefttoread s \<and> nconn s' \<le> max (nconn s) m \<and> (m \<le> nconn s' \<or> nlefttoconn s' \<le> 0) \<and> names_of s' = names_of s
    | Die f _ \<Rightarrow> f \<noteq> Err_quit ''nlefttoconn = %d but nothing found'' \<and> f \<noteq> Exit 0"
    by (intro web_round_result) auto
  show ?case
  proof (cases "web_round ev m s")
    case (Ret u t)
    then have "web_inv t" "nconn t \<le> max 0 m" "names_of t = names_of s" using r Cons.prems(3) by auto
    with Cons.IH [of t] Cons.prems Ret show ?thesis by (simp split: outcome.splits)
  qed (use r Cons.prems in auto)
qed auto

lemma in_phase_init: "in_phase P (file_init host names) i \<longleftrightarrow> i < length (file_init host names) \<and> 0 \<in> P"
  by (auto simp: in_phase_def file_init_def)

lemma asked_init: "i < length (file_init host names) \<Longrightarrow> asked i (file_init host names ! i) = []"
  by (simp add: asked_def file_init_def flag_defs)

lemma web_start_inv: "web_inv (web_start host names)"
proof -
  have "flags_ok (file_init host names)" by (simp add: flags_ok_def file_init_def)
  with nbw.counters_init [of host names] show ?thesis
    by (simp add: web_inv_def web_start_def Let_def sets_ok_def asked_ok_def fds_def in_phase_init asked_init) (simp add: flag_defs)
qed

lemma names_start_of: "names_of (web_start host names) = take MAXFILES names"
  by (simp add: names_of_def web_start_def Let_def file_init_def comp_def)

lemma tally_active: "flags_ok fs \<Longrightarrow> tally (\<lambda>fl. fl \<noteq> F_DONE) fs - tally (\<lambda>fl. fl = 0) fs = tally (\<lambda>fl. fl = F_CONNECTING \<or> fl = F_READING) fs"
  by (induction fs) (auto simp: flags_ok_def tally_def flag_defs)


text \<open>One file, whose connection is established at once and closed by the server after the request.\<close>

definition sample_env :: web_env where
  "sample_env = \<lparr>w_host = (\<lambda>_. None), w_socket = (\<lambda>_ X. Inr (Max (insert 2 X) + 1)), w_fcntl = (\<lambda>_. None), w_connect = (\<lambda>_. None),
     w_write = (\<lambda>_. None), w_rs = {3}, w_ws = {}, w_soerr = (\<lambda>_. None), w_read = (\<lambda>_. Inr []), w_close = (\<lambda>_. None)\<rparr>"

lemma sample_env_fresh: "fresh_sockets sample_env"
proof -
  have "0 \<le> Max (insert 2 X) + 1 \<and> Max (insert 2 X) + 1 \<notin> X" if "finite X" for X :: "int set"
  proof
    have "2 \<le> Max (insert 2 X)" by (rule Max_ge) (use that in auto)
    then show "0 \<le> Max (insert 2 X) + 1" by linarith
    show "Max (insert 2 X) + 1 \<notin> X" using that Max_ge [of "insert 2 X" "Max (insert 2 X) + 1"] by auto
  qed
  then show ?thesis by (auto simp: fresh_sockets_def sample_env_def)
qed

definition sample_reading :: web where
  "sample_reading = \<lparr>files = [\<lparr>f_name = ''a'', f_host = ''h'', f_fd = 3, f_flags = F_READING\<rparr>], nconn = 1, nlefttoconn = 0, nlefttoread = 1,
     maxfd = 3, rset = {3}, wset = {}, requests = [(0, snprintf_str MAXLINE (GET_CMD ''a''))], refused = []\<rparr>"

lemma sample_fill: "web_fill sample_env 1 (web_start ''h'' [''a'']) = Ret () sample_reading"
proof -
  have "web_fill sample_env 1 (web_start ''h'' [''a'']) = web_fill sample_env 1 sample_reading"
    by (subst web_fill.simps)
      (simp add: web_start_def file_init_def MAXFILES_def find_file_def sample_env_def start_connect_def write_get_cmd_def set_flags_def
         Let_def bindP_def sample_reading_def)
  also have "\<dots> = Ret () sample_reading" by (subst web_fill.simps) (simp add: sample_reading_def)
  finally show ?thesis .
qed

definition sample_finished :: web where
  "sample_finished = sample_reading\<lparr>files := set_flags 0 F_DONE (files sample_reading), rset := {}, nconn := 0, nlefttoread := 0\<rparr>"

lemma sample_main: "web_main 1 [sample_env] (web_start ''h'' [''a'']) = Die (Exit 0) sample_finished"
proof -
  have "web_round sample_env 1 (web_start ''h'' [''a'']) = Ret () sample_finished"
    using sample_fill by (simp add: web_round_def sample_env_def sample_reading_def sample_finished_def web_check_def flag_defs Let_def set_flags_def bindP_def)
  then show ?thesis by (simp add: web_start_def file_init_def MAXFILES_def sample_finished_def Let_def)
qed


end
