(* ===== verification/Web_Threads.thy ===== *)
theory Web_Threads
  imports File_Table
begin

text \<open>
  The web client with threads of \<^verbatim>\<open>threads/web03.c\<close>: one thread per file, at most \<^verbatim>\<open>maxnconn\<close> at a time. A thread that is done sets \<^verbatim>\<open>F_DONE\<close> in its entry, increments
  \<^verbatim>\<open>ndone\<close> under a mutex and signals; the main thread waits for \<^verbatim>\<open>ndone\<close> and joins the threads whose flag is set. The steps of the threads
  interleave freely.
\<close>

unbundle bit_operations_syntax

section \<open>State\<close>

text \<open>
  Where the main thread is: at the outer loop, in the loop that starts threads, before the lock, at the test of the \<^verbatim>\<open>while\<close>, asleep in \<^verbatim>\<open>Pthread_cond_wait\<close>, woken
  but without the mutex, in the loop over the files, in \<^verbatim>\<open>Pthread_join\<close>, before the unlock, or exited.
\<close>

datatype mainpc = M_outer | M_start | M_lock | M_test | M_sleep | M_woken | M_scan nat | M_join nat | M_unlock | M_exit

text \<open>
  Where the thread of a file is in \<^verbatim>\<open>do_get_read\<close>: not created; in \<^verbatim>\<open>Tcp_connect\<close>, \<^verbatim>\<open>write_get_cmd\<close>, \<^verbatim>\<open>Read\<close>, \<^verbatim>\<open>Close\<close>; before setting \<^verbatim>\<open>F_DONE\<close>,
  the lock, the increment, the signal and the unlock; ended, with the entry it returns a pointer to.
\<close>

datatype threadpc =
    T_none | T_connect | T_write | T_read | T_close | T_flag | T_lock | T_count | T_signal | T_unlock | T_ended nat

datatype wtid = WMain | WThread nat

record tweb =
  tfiles :: "web_file list"
  tnconn :: int
  tnlefttoconn :: int
  tnlefttoread :: int
  ndone :: int
  ndone_mutex :: "wtid option"
  mainpc :: mainpc
  tpcs :: "threadpc list"
  tdied :: "fatal option"

definition web03_start :: "string \<Rightarrow> string list \<Rightarrow> tweb" where
  "web03_start host names =
     (let fs = file_init host names
      in \<lparr>tfiles = fs, tnconn = 0, tnlefttoconn = int (length fs), tnlefttoread = int (length fs), ndone = 0, ndone_mutex = None,
          mainpc = M_outer, tpcs = replicate (length fs) T_none, tdied = None\<rparr>)"

definition tgo :: "nat \<Rightarrow> threadpc \<Rightarrow> tweb \<Rightarrow> tweb" where
  "tgo i pc s = s\<lparr>tpcs := (tpcs s)[i := pc]\<rparr>"

definition tflag :: "nat \<Rightarrow> nat \<Rightarrow> tweb \<Rightarrow> tweb" where
  "tflag i fl s = s\<lparr>tfiles := set_flags i fl (tfiles s)\<rparr>"

section \<open>The threads\<close>

text \<open>The main thread, given the result of \<^verbatim>\<open>pthread_create\<close>. \<open>None\<close>: it cannot move.\<close>

definition web03_main :: "int \<Rightarrow> errno option \<Rightarrow> tweb \<Rightarrow> tweb option" where
  "web03_main maxnconn create s =
     (case mainpc s of
        M_outer \<Rightarrow> Some (s\<lparr>mainpc := (if 0 < tnlefttoread s then M_start else M_exit)\<rparr>)
      | M_start \<Rightarrow>
          if tnconn s < maxnconn \<and> 0 < tnlefttoconn s
          then (case find_file (tfiles s) of
                  None \<Rightarrow> Some (s\<lparr>tdied := Some (Err_quit ''nlefttoconn = %d but nothing found'')\<rparr>)
                | Some i \<Rightarrow>
                    if create \<noteq> None then Some (tflag i F_CONNECTING s\<lparr>tdied := Some (Err_sys ''pthread_create error'' create)\<rparr>)
                    else Some ((tgo i T_connect (tflag i F_CONNECTING s))\<lparr>tnconn := tnconn s + 1, tnlefttoconn := tnlefttoconn s - 1\<rparr>))
          else Some (s\<lparr>mainpc := M_lock\<rparr>)
      | M_lock \<Rightarrow> if ndone_mutex s = None then Some (s\<lparr>ndone_mutex := Some WMain, mainpc := M_test\<rparr>) else None
      | M_test \<Rightarrow> Some (if ndone s = 0 then s\<lparr>ndone_mutex := None, mainpc := M_sleep\<rparr> else s\<lparr>mainpc := M_scan 0\<rparr>)
      | M_sleep \<Rightarrow> None
      | M_woken \<Rightarrow> if ndone_mutex s = None then Some (s\<lparr>ndone_mutex := Some WMain, mainpc := M_test\<rparr>) else None
      | M_scan i \<Rightarrow>
          Some (s\<lparr>mainpc := (if i < length (tfiles s)
                             then if f_flags (tfiles s ! i) AND F_DONE \<noteq> 0 then M_join i else M_scan (i + 1)
                             else M_unlock)\<rparr>)
      | M_join i \<Rightarrow>
          (case tpcs s ! i of
             T_ended fptr \<Rightarrow>
               if i \<noteq> fptr then Some (s\<lparr>tdied := Some (Err_quit ''file[i] != fptr'')\<rparr>)
               else Some ((tflag i F_JOINED s)\<lparr>ndone := ndone s - 1, tnconn := tnconn s - 1, tnlefttoread := tnlefttoread s - 1, mainpc := M_scan (i + 1)\<rparr>)
           | _ \<Rightarrow> None)
      | M_unlock \<Rightarrow> Some (s\<lparr>ndone_mutex := None, mainpc := M_outer\<rparr>)
      | M_exit \<Rightarrow> None)"

text \<open>What the network decides for a thread.\<close>

record tchoice =
  t_connect :: "(string + errno) + int"
  t_write :: "errno option"
  t_read :: "errno + char list"
  t_close :: "errno option"

definition tcp_failure :: "string \<Rightarrow> string + errno \<Rightarrow> fatal" where
  "tcp_failure host r =
     (case r of
        Inl msg \<Rightarrow> Err_quit (''tcp_connect error for '' @ host @ '', 80: '' @ msg)
      | Inr e \<Rightarrow> Err_sys (''tcp_connect error for '' @ host @ '', 80'') (Some e))"

definition do_get_read :: "tchoice \<Rightarrow> nat \<Rightarrow> tweb \<Rightarrow> tweb option" where
  "do_get_read ch i s =
     (case tpcs s ! i of
        T_none \<Rightarrow> None
      | T_connect \<Rightarrow>
          (case t_connect ch of
             Inl r \<Rightarrow> Some (s\<lparr>tdied := Some (tcp_failure (f_host (tfiles s ! i)) r)\<rparr>)
           | Inr fd \<Rightarrow> Some (tgo i T_write s\<lparr>tfiles := (tfiles s)[i := (tfiles s ! i)\<lparr>f_fd := fd\<rparr>]\<rparr>))
      | T_write \<Rightarrow>
          (case t_write ch of
             Some e \<Rightarrow> Some (s\<lparr>tdied := Some (Err_sys ''writen error'' (Some e))\<rparr>)
           | None \<Rightarrow> Some (tgo i T_read (tflag i F_READING s)))
      | T_read \<Rightarrow>
          (case t_read ch of
             Inl e \<Rightarrow> Some (s\<lparr>tdied := Some (Err_sys ''read error'' (Some e))\<rparr>)
           | Inr bs \<Rightarrow> Some (if bs = [] then tgo i T_close s else s))
      | T_close \<Rightarrow>
          (case t_close ch of
             Some e \<Rightarrow> Some (s\<lparr>tdied := Some (Err_sys ''close error'' (Some e))\<rparr>)
           | None \<Rightarrow> Some (tgo i T_flag s))
      | T_flag \<Rightarrow> Some (tgo i T_lock (tflag i F_DONE s))
      | T_lock \<Rightarrow> if ndone_mutex s = None then Some (tgo i T_count s\<lparr>ndone_mutex := Some (WThread i)\<rparr>) else None
      | T_count \<Rightarrow> Some (tgo i T_signal s\<lparr>ndone := ndone s + 1\<rparr>)
      | T_signal \<Rightarrow> Some (tgo i T_unlock s\<lparr>mainpc := (if mainpc s = M_sleep then M_woken else mainpc s)\<rparr>)
      | T_unlock \<Rightarrow> Some (tgo i (T_ended i) s\<lparr>ndone_mutex := None\<rparr>)
      | T_ended k \<Rightarrow> None)"

text \<open>A running process: a thread moves, or the main thread wakes without a signal. After \<^verbatim>\<open>exit\<close> no thread moves.\<close>

inductive web03_step :: "int \<Rightarrow> tweb \<Rightarrow> tweb \<Rightarrow> bool" for maxnconn :: int where
  Main_step: "tdied s = None \<Longrightarrow> web03_main maxnconn create s = Some s' \<Longrightarrow> web03_step maxnconn s s'"
| Thread_step: "tdied s = None \<Longrightarrow> mainpc s \<noteq> M_exit \<Longrightarrow> i < length (tpcs s) \<Longrightarrow> do_get_read ch i s = Some s' \<Longrightarrow> web03_step maxnconn s s'"
| Spurious: "tdied s = None \<Longrightarrow> mainpc s = M_sleep \<Longrightarrow> web03_step maxnconn s (s\<lparr>mainpc := M_woken\<rparr>)"

section \<open>Mutual exclusion\<close>

definition main_region :: "mainpc \<Rightarrow> bool" where
  "main_region m = (case m of M_test \<Rightarrow> True | M_scan _ \<Rightarrow> True | M_join _ \<Rightarrow> True | M_unlock \<Rightarrow> True | _ \<Rightarrow> False)"

definition thread_region :: "threadpc \<Rightarrow> bool" where
  "thread_region pc = (pc \<in> {T_count, T_signal, T_unlock})"

definition web03_crit :: "tweb \<Rightarrow> wtid \<Rightarrow> bool" where
  "web03_crit s t = (case t of WMain \<Rightarrow> main_region (mainpc s) | WThread i \<Rightarrow> i < length (tpcs s) \<and> thread_region (tpcs s ! i))"

lemma tgo_simps [simp]:
  "tfiles (tgo i pc s) = tfiles s" "tnconn (tgo i pc s) = tnconn s" "tnlefttoconn (tgo i pc s) = tnlefttoconn s" "tnlefttoread (tgo i pc s) = tnlefttoread s"
  "ndone (tgo i pc s) = ndone s" "ndone_mutex (tgo i pc s) = ndone_mutex s" "mainpc (tgo i pc s) = mainpc s" "tpcs (tgo i pc s) = (tpcs s)[i := pc]"
  "tdied (tgo i pc s) = tdied s"
  by (simp_all add: tgo_def)

lemma tflag_simps [simp]:
  "tfiles (tflag i fl s) = set_flags i fl (tfiles s)" "tnconn (tflag i fl s) = tnconn s" "tnlefttoconn (tflag i fl s) = tnlefttoconn s"
  "tnlefttoread (tflag i fl s) = tnlefttoread s" "ndone (tflag i fl s) = ndone s" "ndone_mutex (tflag i fl s) = ndone_mutex s"
  "mainpc (tflag i fl s) = mainpc s" "tpcs (tflag i fl s) = tpcs s" "tdied (tflag i fl s) = tdied s"
  by (simp_all add: tflag_def)

lemma thread_region_simps [simp]:
  "thread_region T_count" "thread_region T_signal" "thread_region T_unlock" "\<not> thread_region T_none" "\<not> thread_region T_connect" "\<not> thread_region T_write"
  "\<not> thread_region T_read" "\<not> thread_region T_close" "\<not> thread_region T_flag" "\<not> thread_region T_lock" "\<not> thread_region (T_ended k)"
  by (simp_all add: thread_region_def)

lemma main_region_simps [simp]:
  "main_region M_test" "main_region (M_scan i)" "main_region (M_join i)" "main_region M_unlock"
  "\<not> main_region M_outer" "\<not> main_region M_start" "\<not> main_region M_lock" "\<not> main_region M_sleep" "\<not> main_region M_woken" "\<not> main_region M_exit"
  by (simp_all add: main_region_def)

text \<open>
  A file and its thread go through their phases together; the region of a thread that main starts is not entered by the start.
\<close>

definition phase_ok :: "web_file \<Rightarrow> threadpc \<Rightarrow> bool" where
  "phase_ok f pc =
     (case pc of
        T_none \<Rightarrow> f_flags f = 0
      | T_connect \<Rightarrow> f_flags f = F_CONNECTING
      | T_write \<Rightarrow> f_flags f = F_CONNECTING
      | T_read \<Rightarrow> f_flags f = F_READING
      | T_close \<Rightarrow> f_flags f = F_READING
      | T_flag \<Rightarrow> f_flags f = F_READING
      | T_ended k \<Rightarrow> f_flags f = F_DONE \<or> f_flags f = F_JOINED
      | _ \<Rightarrow> f_flags f = F_DONE)"

definition phases_ok :: "web_file list \<Rightarrow> threadpc list \<Rightarrow> bool" where
  "phases_ok fs pcs \<longleftrightarrow> length pcs = length fs \<and> (\<forall>i < length pcs. phase_ok (fs ! i) (pcs ! i) \<and> (\<forall>k. pcs ! i = T_ended k \<longrightarrow> k = i))"

lemma phases_update:
  assumes "phases_ok fs pcs" and "i < length pcs" and "phase_ok f pc" and "\<forall>k. pc = T_ended k \<longrightarrow> k = i"
  shows "phases_ok (fs[i := f]) (pcs[i := pc])"
  using assms by (auto simp: phases_ok_def nth_list_update)

lemma phases_fs:
  "phases_ok fs pcs \<Longrightarrow> i < length pcs \<Longrightarrow> phase_ok f (pcs ! i) \<Longrightarrow> phases_ok (fs[i := f]) pcs"
  by (auto simp: phases_ok_def nth_list_update)

lemma phases_pc:
  "phases_ok fs pcs \<Longrightarrow> i < length pcs \<Longrightarrow> phase_ok (fs ! i) pc \<Longrightarrow> \<forall>k. pc = T_ended k \<longrightarrow> k = i \<Longrightarrow> phases_ok fs (pcs[i := pc])"
  by (auto simp: phases_ok_def nth_list_update)

lemma find_file_idle:
  assumes "find_file fs = Some i" and "phases_ok fs pcs"
  shows "i < length fs" and "f_flags (fs ! i) = 0" and "pcs ! i = T_none"
proof -
  show i: "i < length fs" and z: "f_flags (fs ! i) = 0" using find_index_Some [of "\<lambda>f. f_flags f = 0" fs i] assms(1) by (simp_all add: find_file_def)
  then have "phase_ok (fs ! i) (pcs ! i)" using assms(2) by (simp add: phases_ok_def)
  with z show "pcs ! i = T_none" by (auto simp: phase_ok_def flag_defs split: threadpc.splits)
qed

lemma main_moves_lock:
  assumes "web03_main maxnconn create s = Some s'" and "phases_ok (tfiles s) (tpcs s)"
  shows "moves_lock web03_crit ndone_mutex s s' WMain"
proof (cases "mainpc s")
  case M_start
  have "i < length (tpcs s) \<and> tpcs s ! i = T_none" if "find_file (tfiles s) = Some i" for i
    using find_file_idle [OF that assms(2)] assms(2) by (simp add: phases_ok_def)
  with M_start assms(1) show ?thesis
    by (auto simp: web03_main_def moves_lock_def web03_crit_def nth_list_update split: if_splits option.splits wtid.splits)
qed (use assms in \<open>auto simp: web03_main_def moves_lock_def web03_crit_def split: if_splits threadpc.splits wtid.splits\<close>)

lemma thread_moves_lock:
  assumes "do_get_read ch i s = Some s'" and "i < length (tpcs s)"
  shows "moves_lock web03_crit ndone_mutex s s' (WThread i)"
  using assms
  by (cases "tpcs s ! i")
    (auto simp: do_get_read_def moves_lock_def web03_crit_def nth_list_update split: if_splits option.splits sum.splits wtid.splits)

section \<open>The invariant\<close>

text \<open>The threads that have counted themselves and have not been joined.\<close>

definition tick :: "web_file \<Rightarrow> threadpc \<Rightarrow> int" where
  "tick f pc = (if f_flags f = F_DONE \<and> pc \<notin> {T_lock, T_count} then 1 else 0)"

definition counted :: "web_file list \<Rightarrow> threadpc list \<Rightarrow> int" where
  "counted fs pcs = (\<Sum>i<length pcs. tick (fs ! i) (pcs ! i))"

lemma counted_update:
  assumes "i < length pcs" and "length fs = length pcs"
  shows "counted (fs[i := f]) (pcs[i := pc]) = counted fs pcs - tick (fs ! i) (pcs ! i) + tick f pc"
proof -
  have r: "counted fs' pcs' = tick (fs' ! i) (pcs' ! i) + (\<Sum>j \<in> {..<length pcs} - {i}. tick (fs' ! j) (pcs' ! j))"
    if "length pcs' = length pcs" for fs' pcs'
    using that assms(1) by (simp add: counted_def sum.remove [of _ i])
  have "(\<Sum>j \<in> {..<length pcs} - {i}. tick (fs[i := f] ! j) (pcs[i := pc] ! j)) = (\<Sum>j \<in> {..<length pcs} - {i}. tick (fs ! j) (pcs ! j))"
    by (rule sum.cong) auto
  then show ?thesis using r [of pcs fs] r [of "pcs[i := pc]" "fs[i := f]"] assms by simp
qed

lemma counted_pc: "i < length pcs \<Longrightarrow> length fs = length pcs \<Longrightarrow> counted fs (pcs[i := pc]) = counted fs pcs - tick (fs ! i) (pcs ! i) + tick (fs ! i) pc"
  using counted_update [of i pcs fs "fs ! i" pc] by simp

lemma counted_fs: "i < length pcs \<Longrightarrow> length fs = length pcs \<Longrightarrow> counted (fs[i := f]) pcs = counted fs pcs - tick (fs ! i) (pcs ! i) + tick f (pcs ! i)"
  using counted_update [of i pcs fs f "pcs ! i"] by simp

text \<open>
  What holds at the points of the main thread: it waits only for connections there are, and sleeps only when nothing is counted or a signal is about to be sent.
\<close>

definition main_ok :: "int \<Rightarrow> tweb \<Rightarrow> bool" where
  "main_ok maxnconn s \<longleftrightarrow> tnconn s \<le> max 0 maxnconn \<and>
     (case mainpc s of
        M_start \<Rightarrow> 0 < tnlefttoread s
      | M_lock \<Rightarrow> 0 < maxnconn \<longrightarrow> 0 < tnconn s
      | M_test \<Rightarrow> 0 < maxnconn \<longrightarrow> 0 < tnconn s
      | M_sleep \<Rightarrow> (0 < maxnconn \<longrightarrow> 0 < tnconn s) \<and> (ndone s = 0 \<or> (\<exists>i < length (tpcs s). tpcs s ! i = T_signal))
      | M_woken \<Rightarrow> 0 < maxnconn \<longrightarrow> 0 < tnconn s
      | M_join i \<Rightarrow> i < length (tfiles s) \<and> f_flags (tfiles s ! i) = F_DONE
      | M_exit \<Rightarrow> tnlefttoread s \<le> 0
      | _ \<Rightarrow> True)"

definition web03_inv :: "int \<Rightarrow> tweb \<Rightarrow> bool" where
  "web03_inv maxnconn s \<longleftrightarrow>
     phases_ok (tfiles s) (tpcs s) \<and> (\<forall>t. web03_crit s t \<longleftrightarrow> ndone_mutex s = Some t) \<and>
     thw.counters_ok (tfiles s) (tnlefttoconn s) (tnconn s) (tnlefttoread s) \<and> ndone s = counted (tfiles s) (tpcs s) \<and> main_ok maxnconn s"

lemma flags_cases:
  "phase_ok f pc \<Longrightarrow> f_flags f AND F_DONE \<noteq> 0 \<longleftrightarrow> f_flags f = F_DONE"
  by (auto simp: phase_ok_def flag_defs split: threadpc.splits)

lemma main_inv:
  assumes "web03_inv m s" and "web03_main m create s = Some s'" and "tdied s = None"
  shows "if tdied s' = None then web03_inv m s' else \<exists>e. tdied s' = Some (Err_sys ''pthread_create error'' e)"
proof -
  have ph: "phases_ok (tfiles s) (tpcs s)" and cnt: "thw.counters_ok (tfiles s) (tnlefttoconn s) (tnconn s) (tnlefttoread s)"
    and nd: "ndone s = counted (tfiles s) (tpcs s)" and mn: "main_ok m s" and len: "length (tfiles s) = length (tpcs s)"
    using assms(1) by (auto simp: web03_inv_def phases_ok_def)
  have lock: "\<forall>t. web03_crit s' t \<longleftrightarrow> ndone_mutex s' = Some t"
    using moves_lock_agrees [OF main_moves_lock [OF assms(2) ph]] assms(1) by (simp add: web03_inv_def)
  show ?thesis
  proof (cases "mainpc s")
    case M_start
    show ?thesis
    proof (cases "tnconn s < m \<and> 0 < tnlefttoconn s")
      case True
      then obtain i where i: "find_file (tfiles s) = Some i" using thw.counters_find [OF cnt] by blast
      note idle = find_file_idle [OF i ph]
      let ?f = "(tfiles s ! i)\<lparr>f_flags := F_CONNECTING\<rparr>"
      have "phases_ok ((tfiles s)[i := ?f]) ((tpcs s)[i := T_connect])"
        by (rule phases_update [OF ph]) (use idle len in \<open>simp_all add: phase_ok_def\<close>)
      moreover have "thw.counters_ok ((tfiles s)[i := ?f]) (tnlefttoconn s - 1) (tnconn s + 1) (tnlefttoread s)"
        by (rule thw.counters_start [OF cnt]) (use idle in \<open>simp_all add: flag_defs\<close>)
      moreover have "counted ((tfiles s)[i := ?f]) ((tpcs s)[i := T_connect]) = counted (tfiles s) (tpcs s)"
        using counted_update [of i "tpcs s" "tfiles s" ?f T_connect] idle len by (simp add: tick_def flag_defs)
      ultimately show ?thesis
        using M_start True i assms(2,3) lock nd mn
        by (auto simp: web03_main_def web03_inv_def main_ok_def set_flags_def split: if_splits)
    next
      case False
      then show ?thesis
        using M_start assms(2,3) lock nd mn cnt ph by (auto simp: web03_main_def web03_inv_def main_ok_def thw.counters_ok_def split: if_splits)
    qed
  next
    case (M_scan i)
    then show ?thesis
      using assms(2,3) lock nd mn cnt ph flags_cases [of "tfiles s ! i" "tpcs s ! i"]
      by (auto simp: web03_main_def web03_inv_def main_ok_def phases_ok_def split: if_splits)
  next
    case (M_join i)
    then have i: "i < length (tfiles s)" "f_flags (tfiles s ! i) = F_DONE" using mn by (auto simp: main_ok_def)
    then have "i < length (tpcs s)" using len by simp
    then have pc: "tpcs s ! i = T_ended i" using M_join assms(2) ph by (auto simp: web03_main_def phases_ok_def split: threadpc.splits)
    let ?f = "(tfiles s ! i)\<lparr>f_flags := F_JOINED\<rparr>"
    have "phases_ok ((tfiles s)[i := ?f]) (tpcs s)" by (rule phases_fs [OF ph]) (use pc i len in \<open>simp_all add: phase_ok_def\<close>)
    moreover have "thw.counters_ok ((tfiles s)[i := ?f]) (tnlefttoconn s) (tnconn s - 1) (tnlefttoread s - 1)"
      by (rule thw.counters_finish [OF cnt]) (use i in \<open>simp_all add: flag_defs\<close>)
    moreover have "counted ((tfiles s)[i := ?f]) (tpcs s) = counted (tfiles s) (tpcs s) - 1"
      using counted_fs [of i "tpcs s" "tfiles s" ?f] i pc len by (simp add: tick_def flag_defs)
    ultimately show ?thesis
      using M_join pc assms(2,3) lock nd mn by (auto simp: web03_main_def web03_inv_def main_ok_def set_flags_def)
  qed (use assms(2,3) lock nd mn cnt ph in \<open>auto simp: web03_main_def web03_inv_def main_ok_def split: if_splits\<close>)
qed

text \<open>A step of a thread at a point \<open>pc\<close> to a point \<open>pc'\<close>, with what it does to its entry and to the count.\<close>

lemma thread_keeps:
  assumes "web03_inv m s" and "i < length (tpcs s)" and "phase_ok f pc'" and "\<forall>k. pc' = T_ended k \<longrightarrow> k = i"
    and "(f_flags (tfiles s ! i) = 0) = (f_flags f = 0)" and "(f_flags (tfiles s ! i) = F_JOINED) = (f_flags f = F_JOINED)"
  shows "phases_ok ((tfiles s)[i := f]) ((tpcs s)[i := pc'])"
    and "thw.counters_ok ((tfiles s)[i := f]) (tnlefttoconn s) (tnconn s) (tnlefttoread s)"
    and "counted ((tfiles s)[i := f]) ((tpcs s)[i := pc']) = ndone s - tick (tfiles s ! i) (tpcs s ! i) + tick f pc'"
proof -
  have inv: "phases_ok (tfiles s) (tpcs s)" "thw.counters_ok (tfiles s) (tnlefttoconn s) (tnconn s) (tnlefttoread s)"
      "ndone s = counted (tfiles s) (tpcs s)" "length (tfiles s) = length (tpcs s)"
    using assms(1) by (auto simp: web03_inv_def phases_ok_def)
  show "phases_ok ((tfiles s)[i := f]) ((tpcs s)[i := pc'])" by (rule phases_update [OF inv(1) assms(2,3,4)])
  show "thw.counters_ok ((tfiles s)[i := f]) (tnlefttoconn s) (tnconn s) (tnlefttoread s)"
    by (rule thw.counters_go [OF inv(2)]) (use assms(2,5,6) inv(4) in simp_all)
  show "counted ((tfiles s)[i := f]) ((tpcs s)[i := pc']) = ndone s - tick (tfiles s ! i) (tpcs s ! i) + tick f pc'"
    using counted_update [of i "tpcs s" "tfiles s" f pc'] assms(2) inv(3,4) by simp
qed

lemma main_ok_thread:
  assumes "main_ok m s" and "i < length (tpcs s)" and "f_flags (tfiles s ! i) = F_DONE \<longrightarrow> f_flags f = F_DONE"
    and "tpcs s ! i \<noteq> T_signal \<and> (d = ndone s \<or> pc' = T_signal)"
  shows "main_ok m (s\<lparr>tfiles := (tfiles s)[i := f], tpcs := (tpcs s)[i := pc'], ndone := d\<rparr>)"
proof (cases "mainpc s")
  case M_sleep
  have "\<exists>j < length (tpcs s). (tpcs s)[i := pc'] ! j = T_signal" if "\<exists>j < length (tpcs s). tpcs s ! j = T_signal"
    using that assms(4) by (metis nth_list_update_neq)
  moreover have "\<exists>j < length (tpcs s). (tpcs s)[i := pc'] ! j = T_signal" if "pc' = T_signal"
    using that assms(2) by (intro exI [of _ i]) simp
  ultimately show ?thesis using M_sleep assms by (auto simp: main_ok_def)
next
  case (M_join j)
  with assms show ?thesis by (cases "j = i") (auto simp: main_ok_def)
qed (use assms in \<open>auto simp: main_ok_def\<close>)

lemma thread_step_keeps:
  assumes "web03_inv m s" and "i < length (tpcs s)" and "\<forall>t. web03_crit s' t \<longleftrightarrow> ndone_mutex s' = Some t"
    and "tfiles s' = (tfiles s)[i := f]" and "tpcs s' = (tpcs s)[i := pc']" and "ndone s' = ndone s - tick (tfiles s ! i) (tpcs s ! i) + tick f pc'"
    and "tnconn s' = tnconn s" and "tnlefttoconn s' = tnlefttoconn s" and "tnlefttoread s' = tnlefttoread s" and "mainpc s' = mainpc s"
    and "phase_ok f pc'" and "\<forall>k. pc' = T_ended k \<longrightarrow> k = i"
    and "(f_flags (tfiles s ! i) = 0) = (f_flags f = 0)" and "(f_flags (tfiles s ! i) = F_JOINED) = (f_flags f = F_JOINED)"
    and "f_flags (tfiles s ! i) = F_DONE \<longrightarrow> f_flags f = F_DONE" and "tpcs s ! i \<noteq> T_signal" and "ndone s' = ndone s \<or> pc' = T_signal"
  shows "web03_inv m s'"
proof -
  have "main_ok m (s\<lparr>tfiles := (tfiles s)[i := f], tpcs := (tpcs s)[i := pc'], ndone := ndone s'\<rparr>)"
    using assms(1,2,15,16,17) by (intro main_ok_thread) (auto simp: web03_inv_def)
  then have "main_ok m s'" using assms(4-10) by (cases "mainpc s") (simp_all add: main_ok_def)
  with thread_keeps [OF assms(1,2,11,12,13,14)] assms(3-9) show ?thesis by (simp add: web03_inv_def)
qed

lemma thread_inv:
  assumes "web03_inv m s" and "i < length (tpcs s)" and "do_get_read ch i s = Some s'" and "tdied s = None"
  shows "if tdied s' = None then web03_inv m s' else tdied s' \<notin> {Some (Err_quit ''nlefttoconn = %d but nothing found''), Some (Err_quit ''file[i] != fptr'')}"
proof -
  have lock: "\<forall>t. web03_crit s' t \<longleftrightarrow> ndone_mutex s' = Some t"
    using moves_lock_agrees [OF thread_moves_lock [OF assms(3,2)]] assms(1) by (simp add: web03_inv_def)
  have ph: "phase_ok (tfiles s ! i) (tpcs s ! i)" and len: "i < length (tfiles s)" using assms(1,2) by (auto simp: web03_inv_def phases_ok_def)
  note keeps = thread_step_keeps [OF assms(1,2) lock]
  show ?thesis
  proof (cases "tpcs s ! i")
    case T_connect
    then show ?thesis using assms(3,4) ph keeps [of _ T_write] 
      by (auto simp: do_get_read_def phase_ok_def tick_def tcp_failure_def flag_defs split: sum.splits)
  next
    case T_write
    then show ?thesis using assms(3,4) ph keeps [of "(tfiles s ! i)\<lparr>f_flags := F_READING\<rparr>" T_read]
      by (auto simp: do_get_read_def phase_ok_def tick_def set_flags_def flag_defs split: option.splits)
  next
    case T_read
    then show ?thesis using assms(1,3,4) ph keeps [of "tfiles s ! i" T_close]
      by (auto simp: do_get_read_def phase_ok_def tick_def flag_defs split: sum.splits if_splits)
  next
    case T_close
    then show ?thesis using assms(3,4) ph keeps [of "tfiles s ! i" T_flag]
      by (auto simp: do_get_read_def phase_ok_def tick_def flag_defs split: option.splits)
  next
    case T_flag
    then show ?thesis using assms(3,4) ph keeps [of "(tfiles s ! i)\<lparr>f_flags := F_DONE\<rparr>" T_lock]
      by (auto simp: do_get_read_def phase_ok_def tick_def set_flags_def flag_defs)
  next
    case T_lock
    then show ?thesis using assms(3,4) ph keeps [of "tfiles s ! i" T_count]
      by (auto simp: do_get_read_def phase_ok_def tick_def flag_defs split: if_splits)
  next
    case T_count
    then show ?thesis using assms(3,4) ph keeps [of "tfiles s ! i" T_signal]
      by (auto simp: do_get_read_def phase_ok_def tick_def flag_defs)
  next
    case T_signal
    have "phase_ok (tfiles s ! i) T_unlock" using T_signal ph by (simp add: phase_ok_def)
    note k = thread_keeps [OF assms(1,2) this, simplified]
    have "main_ok m s'" using T_signal assms(1,3) by (auto simp: do_get_read_def web03_inv_def main_ok_def split: mainpc.splits)
    with T_signal assms(3,4) lock k show ?thesis by (auto simp: do_get_read_def web03_inv_def tick_def)
  next
    case T_unlock
    then show ?thesis using assms(3,4) ph keeps [of "tfiles s ! i" "T_ended i"]
      by (auto simp: do_get_read_def phase_ok_def tick_def flag_defs)
  qed (use assms(3) in \<open>auto simp: do_get_read_def\<close>)
qed

text \<open>Invariant of all runs.\<close>

definition web03_safe :: "int \<Rightarrow> tweb \<Rightarrow> bool" where
  "web03_safe m s \<longleftrightarrow>
     (tdied s = None \<longrightarrow> web03_inv m s) \<and>
     tdied s \<notin> {Some (Err_quit ''nlefttoconn = %d but nothing found''), Some (Err_quit ''file[i] != fptr'')}"

lemma web03_step_safe:
  assumes "web03_step m s s'" and "web03_safe m s"
  shows "web03_safe m s'"
  using assms(1)
proof cases
  case (Main_step create)
  with main_inv [of m s create s'] assms(2) show ?thesis by (auto simp: web03_safe_def split: if_splits)
next
  case (Thread_step i ch)
  with thread_inv [of m s i ch s'] assms(2) show ?thesis by (auto simp: web03_safe_def split: if_splits)
next
  case Spurious
  with assms(2) show ?thesis by (auto simp: web03_safe_def web03_inv_def main_ok_def web03_crit_def split: wtid.splits)
qed

lemma web03_start_safe: "web03_safe m (web03_start host names)"
proof -
  have "phases_ok (file_init host names) (replicate (length (file_init host names)) T_none)"
    by (auto simp: phases_ok_def phase_ok_def file_init_def)
  moreover have "counted (file_init host names) (replicate (length (file_init host names)) T_none) = 0"
    by (auto simp: counted_def tick_def file_init_def flag_defs)
  ultimately show ?thesis
    using thw.counters_init [of host names]
    by (auto simp: web03_safe_def web03_start_def Let_def web03_inv_def main_ok_def web03_crit_def split: wtid.splits)
qed

lemma web03_reach: "(web03_step m)\<^sup>*\<^sup>* (web03_start host names) s \<Longrightarrow> web03_safe m s"
  using step_invariant [of "web03_step m" "web03_start host names" s "web03_safe m"] web03_start_safe web03_step_safe by blast

lemma counted_nonneg: "0 \<le> counted fs pcs"
  by (auto simp: counted_def tick_def intro: sum_nonneg)

lemma tally_diff: "tally (\<lambda>fl. fl \<noteq> F_JOINED) fs - tally (\<lambda>fl. fl = 0) fs = tally (\<lambda>fl. fl \<noteq> 0 \<and> fl \<noteq> F_JOINED) fs"
  by (induction fs) (auto simp: tally_def flag_defs)

lemma web03_inv_counts:
  assumes "web03_inv m s"
  shows "\<forall>t u. web03_crit s t \<longrightarrow> web03_crit s u \<longrightarrow> t = u"
    and "tnconn s = tally (\<lambda>fl. fl \<noteq> 0 \<and> fl \<noteq> F_JOINED) (tfiles s) \<and> tnconn s \<le> max 0 m \<and> ndone s = counted (tfiles s) (tpcs s) \<and> 0 \<le> ndone s"
  using assms tally_diff [of "tfiles s"] counted_nonneg [of "tfiles s" "tpcs s"] by (simp_all add: web03_inv_def thw.counters_ok_def main_ok_def)

lemma web03_inv_exit:
  assumes inv: "web03_inv m s" and "mainpc s = M_exit"
  shows "\<forall>i < length (tfiles s). f_flags (tfiles s ! i) = F_JOINED \<and> tpcs s ! i = T_ended i"
proof -
  have "\<forall>f \<in> set (tfiles s). f_flags f = F_JOINED" using assms
    by (intro thw.counters_done [of "tfiles s" "tnlefttoconn s" "tnconn s" "tnlefttoread s"]) (auto simp: web03_inv_def main_ok_def)
  moreover have "length (tpcs s) = length (tfiles s)" "\<forall>i < length (tpcs s). phase_ok (tfiles s ! i) (tpcs s ! i) \<and> (\<forall>k. tpcs s ! i = T_ended k \<longrightarrow> k = i)"
    using inv by (auto simp: web03_inv_def phases_ok_def)
  moreover have "\<exists>k. pc = T_ended k" if "phase_ok f pc" "f_flags f = F_JOINED" for f pc
    using that by (auto simp: phase_ok_def flag_defs split: threadpc.splits)
  ultimately show ?thesis by (metis nth_mem)
qed

text \<open>
  Safety of the threaded web client, for every interleaving: the checks for a missing file and for a wrong thread never fire; as long as the process runs, at most one
  thread is in the region guarded by the mutex, the number of connections is that of the files being fetched and does not exceed the limit,
  and \<^verbatim>\<open>ndone\<close> is the number of threads that have counted themselves and were not joined. When the process exits normally, every file was fetched and every
  thread joined.
\<close>

theorem web03_safety:
  assumes "(web03_step m)\<^sup>*\<^sup>* (web03_start host names) s"
  shows "tdied s \<noteq> Some (Err_quit ''nlefttoconn = %d but nothing found'') \<and> tdied s \<noteq> Some (Err_quit ''file[i] != fptr'') \<and>
    (tdied s = None \<longrightarrow> (\<forall>t u. web03_crit s t \<longrightarrow> web03_crit s u \<longrightarrow> t = u) \<and>
      tnconn s = tally (\<lambda>fl. fl \<noteq> 0 \<and> fl \<noteq> F_JOINED) (tfiles s) \<and> tnconn s \<le> max 0 m \<and>
      ndone s = counted (tfiles s) (tpcs s) \<and> 0 \<le> ndone s \<and>
      (mainpc s = M_exit \<longrightarrow> (\<forall>i < length (tfiles s). f_flags (tfiles s ! i) = F_JOINED \<and> tpcs s ! i = T_ended i)))"
proof -
  have safe: "web03_safe m s" by (rule web03_reach [OF assms])
  then have "tdied s = None \<Longrightarrow> web03_inv m s" by (simp add: web03_safe_def)
  with safe web03_inv_counts [of m s] web03_inv_exit [of m s] show ?thesis unfolding web03_safe_def by blast
qed

section \<open>Deadlock\<close>

definition stuck :: "int \<Rightarrow> tweb \<Rightarrow> bool" where
  "stuck m s \<longleftrightarrow> tdied s = None \<and> mainpc s \<noteq> M_exit \<and> (\<forall>create. web03_main m create s = None) \<and>
     (\<forall>i < length (tpcs s). \<forall>ch. do_get_read ch i s = None)"

definition all_well :: tchoice where
  "all_well = \<lparr>t_connect = Inr 3, t_write = None, t_read = Inr [], t_close = None\<rparr>"

lemma thread_stuck:
  assumes "do_get_read all_well i s = None"
  shows "tpcs s ! i = T_none \<or> tpcs s ! i = T_lock \<and> ndone_mutex s \<noteq> None \<or> (\<exists>k. tpcs s ! i = T_ended k)"
  using assms by (cases "tpcs s ! i") (auto simp: do_get_read_def all_well_def split: if_splits)

lemma inv_main_region: "web03_inv m s \<Longrightarrow> main_region (mainpc s) \<longleftrightarrow> ndone_mutex s = Some WMain"
proof -
  assume "web03_inv m s"
  then have "web03_crit s WMain \<longleftrightarrow> ndone_mutex s = Some WMain" by (simp add: web03_inv_def)
  then show ?thesis by (simp add: web03_crit_def)
qed

lemma stuck_holder:
  assumes "stuck m s" and "web03_inv m s" and "ndone_mutex s \<noteq> None"
  shows "ndone_mutex s = Some WMain"
proof -
  obtain t where t: "ndone_mutex s = Some t" using assms(3) by blast
  have "\<not> (i < length (tpcs s) \<and> thread_region (tpcs s ! i))" for i
    using thread_stuck [of i s] assms(1) by (auto simp: stuck_def)
  moreover have "web03_crit s t" using t assms(2) by (simp add: web03_inv_def)
  ultimately show ?thesis using t by (cases t) (auto simp: web03_crit_def)
qed

lemma stuck_not_asleep:
  assumes "stuck m s" and "web03_inv m s" and "0 < m" and "ndone_mutex s = None"
  shows "mainpc s \<noteq> M_sleep"
proof
  assume sleep: "mainpc s = M_sleep"
  then have "0 < tnconn s" and nd: "ndone s = 0 \<or> (\<exists>i < length (tpcs s). tpcs s ! i = T_signal)"
    and cnt: "thw.counters_ok (tfiles s) (tnlefttoconn s) (tnconn s) (tnlefttoread s)" and n: "ndone s = counted (tfiles s) (tpcs s)"
    and ph: "phases_ok (tfiles s) (tpcs s)"
    using assms(2,3) by (auto simp: web03_inv_def main_ok_def)
  then obtain i where i: "i < length (tfiles s)" "f_flags (tfiles s ! i) \<noteq> 0" "f_flags (tfiles s ! i) \<noteq> F_JOINED" using thw.counters_busy by blast
  have pcs: "tpcs s ! j = T_none \<or> (\<exists>k. tpcs s ! j = T_ended k)" if "j < length (tpcs s)" for j
    using thread_stuck [of j s] that assms(1,4) by (auto simp: stuck_def)
  have il: "i < length (tpcs s)" and p: "phase_ok (tfiles s ! i) (tpcs s ! i)" using ph i(1) by (auto simp: phases_ok_def)
  with pcs [OF il] i have "tick (tfiles s ! i) (tpcs s ! i) = 1" by (auto simp: phase_ok_def tick_def)
  moreover have "tick (tfiles s ! i) (tpcs s ! i) \<le> counted (tfiles s) (tpcs s)"
    unfolding counted_def using il member_le_sum [of i "{..<length (tpcs s)}" "\<lambda>i. tick (tfiles s ! i) (tpcs s ! i)"] by (auto simp: tick_def)
  ultimately have "ndone s \<noteq> 0" using n by linarith
  with nd obtain j where "j < length (tpcs s)" "tpcs s ! j = T_signal" by blast
  with pcs show False by fastforce
qed

text \<open>A schedule: which thread moves next, with a network that always answers.\<close>

fun schedule :: "int \<Rightarrow> wtid list \<Rightarrow> tweb \<Rightarrow> tweb option" where
  "schedule m [] s = Some s"
| "schedule m (t # ts) s =
     (if tdied s = None \<and> mainpc s \<noteq> M_exit
      then (case (case t of WMain \<Rightarrow> web03_main m None s | WThread i \<Rightarrow> if i < length (tpcs s) then do_get_read all_well i s else None) of
              None \<Rightarrow> None
            | Some s' \<Rightarrow> schedule m ts s')
      else None)"

lemma schedule_steps: "schedule m ts s = Some s' \<Longrightarrow> (web03_step m)\<^sup>*\<^sup>* s s'"
proof (induction ts arbitrary: s)
  case (Cons t ts)
  from Cons.prems obtain s1 where "web03_step m s s1" "schedule m ts s1 = Some s'"
    by (auto split: if_splits option.splits wtid.splits intro: web03_step.intros)
  with Cons.IH [of s1] show ?case by (meson converse_rtranclp_into_rtranclp)
qed simp

definition sample_threads :: tweb where
  "sample_threads = web03_start ''h'' [''a'', ''b'']"

text \<open>
  Both threads are started; the first runs to its end; the second sets its flag; the main thread then takes the mutex, joins the first and goes on to the second.
\<close>

definition deadlock_schedule :: "wtid list" where
  "deadlock_schedule = replicate 4 WMain @ replicate 9 (WThread 0) @ replicate 5 (WThread 1) @ replicate 5 WMain"

definition deadlock_state :: tweb where
  "deadlock_state =
     \<lparr>tfiles = [\<lparr>f_name = ''a'', f_host = ''h'', f_fd = 3, f_flags = F_JOINED\<rparr>, \<lparr>f_name = ''b'', f_host = ''h'', f_fd = 3, f_flags = F_DONE\<rparr>],
      tnconn = 1, tnlefttoconn = 0, tnlefttoread = 1, ndone = 0, ndone_mutex = Some WMain, mainpc = M_join 1,
      tpcs = [T_ended 0, T_lock], tdied = None\<rparr>"

lemma deadlock_run: "schedule 2 deadlock_schedule sample_threads = Some deadlock_state"
  by (simp add: deadlock_schedule_def sample_threads_def deadlock_state_def web03_start_def file_init_def MAXFILES_def numeral_eq_Suc web03_main_def
      do_get_read_def all_well_def find_file_def tgo_def tflag_def set_flags_def flag_defs Let_def)

lemma deadlock_stuck: "stuck 2 deadlock_state"
  by (auto simp: stuck_def deadlock_state_def web03_main_def do_get_read_def nth_Cons less_Suc_eq split: nat.splits)

text \<open>
  C14. The threaded web client can deadlock, and in one way only. Since \<^verbatim>\<open>F_DONE\<close> is set before the mutex is taken, the main thread can find the flag while it holds the mutex and wait in \<^verbatim>\<open>Pthread_join\<close>
  for a thread that waits for the mutex: with two files such a state is reached by a run without any error, and no thread can move in it. Conversely, every
  reachable state of a running client (with a positive limit) in which no thread can move is of this kind; in particular the client never hangs
  because a signal was lost.
\<close>

theorem web03_deadlock:
  "(\<exists>s. (web03_step 2)\<^sup>*\<^sup>* (web03_start ''h'' [''a'', ''b'']) s \<and> stuck 2 s) \<and>
   (\<forall>m host names s. (web03_step m)\<^sup>*\<^sup>* (web03_start host names) s \<longrightarrow> 0 < m \<longrightarrow> stuck m s \<longrightarrow>
     (\<exists>i. mainpc s = M_join i \<and> tpcs s ! i = T_lock \<and> ndone_mutex s = Some WMain))"
proof (intro conjI allI impI)
  show "\<exists>s. (web03_step 2)\<^sup>*\<^sup>* (web03_start ''h'' [''a'', ''b'']) s \<and> stuck 2 s"
    using schedule_steps [OF deadlock_run] deadlock_stuck unfolding sample_threads_def by blast
  fix m host names s
  assume reach: "(web03_step m)\<^sup>*\<^sup>* (web03_start host names) s" and m: "0 < m" and st: "stuck m s"
  have inv: "web03_inv m s" using web03_reach [OF reach] st by (simp add: web03_safe_def stuck_def)
  have main: "web03_main m None s = None" "mainpc s \<noteq> M_exit" using st by (auto simp: stuck_def)
  have held: "ndone_mutex s = Some WMain"
  proof (rule ccontr)
    assume "ndone_mutex s \<noteq> Some WMain"
    then have free: "ndone_mutex s = None" using stuck_holder [OF st inv] by blast
    then have "\<not> main_region (mainpc s)" using inv_main_region [OF inv] by simp
    with main free stuck_not_asleep [OF st inv m free] show False
      by (cases "mainpc s") (auto simp: web03_main_def split: if_splits option.splits)
  qed
  then have "main_region (mainpc s)" using inv_main_region [OF inv] by simp
  with main obtain i where i: "mainpc s = M_join i" by (cases "mainpc s") (auto simp: web03_main_def)
  then have f: "i < length (tfiles s)" "f_flags (tfiles s ! i) = F_DONE" using inv by (auto simp: web03_inv_def main_ok_def)
  then have l: "i < length (tpcs s)" and p: "phase_ok (tfiles s ! i) (tpcs s ! i)" using inv by (auto simp: web03_inv_def phases_ok_def)
  have "tpcs s ! i = T_none \<or> tpcs s ! i = T_lock \<or> (\<exists>k. tpcs s ! i = T_ended k)" using thread_stuck [of i s] st l by (auto simp: stuck_def)
  with p f main(1) i held show "\<exists>i. mainpc s = M_join i \<and> tpcs s ! i = T_lock \<and> ndone_mutex s = Some WMain"
    by (auto simp: phase_ok_def web03_main_def flag_defs split: if_splits)
qed

theorem web03_deadlock_witness:
  "(web03_step 2)\<^sup>*\<^sup>* (web03_start ''h'' [''a'', ''b'']) deadlock_state \<and> stuck 2 deadlock_state \<and> (\<exists>i. mainpc deadlock_state = M_join i \<and> tpcs deadlock_state ! i = T_lock)"
  using web03_deadlock [THEN conjunct2, rule_format, of 2 "''h''" "[''a'', ''b'']" deadlock_state] schedule_steps [OF deadlock_run] deadlock_stuck
  unfolding sample_threads_def by auto

theorem web03_safety_witness:
  "(web03_step 2)\<^sup>*\<^sup>* (web03_start ''h'' [''a'', ''b'']) deadlock_state \<and> tnconn deadlock_state = 1 \<and> ndone deadlock_state = counted (tfiles deadlock_state) (tpcs deadlock_state)"
  using web03_safety [of 2 "''h''" "[''a'', ''b'']" deadlock_state] schedule_steps [OF deadlock_run]
  unfolding sample_threads_def by (simp add: deadlock_state_def)

end
