(* ===== verification/Icmp_Headers.thy ===== *)
theory Icmp_Headers
  imports Sockaddr In_Cksum
begin

text \<open>
  The packet headers that the ICMP programs (\<^verbatim>\<open>icmpd\<close>, \<^verbatim>\<open>traceroute\<close>, \<^verbatim>\<open>ping\<close>) read through structure pointers: the fields of
  \<^verbatim>\<open>struct ip\<close>, \<^verbatim>\<open>struct ip6_hdr\<close>, \<^verbatim>\<open>struct icmp\<close>, \<^verbatim>\<open>struct icmp6_hdr\<close> and \<^verbatim>\<open>struct udphdr\<close> at an offset of a receive buffer. The buffer is the whole array, of which the first \<open>n\<close> bytes are those
  of the packet; ports keep their network byte order, as in the programs.
\<close>

definition oct :: "byte list \<Rightarrow> nat \<Rightarrow> nat" where
  "oct buf k = unat (buf ! k)"

text \<open>\<^verbatim>\<open>ip->ip_hl << 2\<close>\<close>

definition ip_hlen :: "byte list \<Rightarrow> nat \<Rightarrow> nat" where
  "ip_hlen buf off = 4 * (oct buf off mod 16)"

definition ip_p :: "byte list \<Rightarrow> nat \<Rightarrow> nat" where
  "ip_p buf off = oct buf (off + 9)"

definition ip_ttl :: "byte list \<Rightarrow> nat \<Rightarrow> nat" where
  "ip_ttl buf off = oct buf (off + 8)"

definition ip_dst :: "byte list \<Rightarrow> nat \<Rightarrow> byte list" where
  "ip_dst buf off = take 4 (drop (off + 16) buf)"

definition ip6_nxt :: "byte list \<Rightarrow> nat \<Rightarrow> nat" where
  "ip6_nxt buf off = oct buf (off + 6)"

definition ip6_dst :: "byte list \<Rightarrow> nat \<Rightarrow> byte list" where
  "ip6_dst buf off = take 16 (drop (off + 24) buf)"

definition icmp_type :: "byte list \<Rightarrow> nat \<Rightarrow> nat" where
  "icmp_type buf off = oct buf off"

definition icmp_code :: "byte list \<Rightarrow> nat \<Rightarrow> nat" where
  "icmp_code buf off = oct buf (off + 1)"

definition uh_sport :: "byte list \<Rightarrow> nat \<Rightarrow> 16 word" where
  "uh_sport buf off = le16 (buf ! off) (buf ! (off + 1))"

definition uh_dport :: "byte list \<Rightarrow> nat \<Rightarrow> 16 word" where
  "uh_dport buf off = le16 (buf ! (off + 2)) (buf ! (off + 3))"

text \<open>The numbers of the protocols, types and codes that are tested.\<close>

definition IPPROTO_UDP :: nat where "IPPROTO_UDP = 17"
definition IPPROTO_ICMP :: nat where "IPPROTO_ICMP = 1"
definition ICMP_ECHOREPLY :: nat where "ICMP_ECHOREPLY = 0"
definition ICMP_ECHO :: nat where "ICMP_ECHO = 8"
definition ICMP_UNREACH :: nat where "ICMP_UNREACH = 3"
definition ICMP_SOURCEQUENCH :: nat where "ICMP_SOURCEQUENCH = 4"
definition ICMP_TIMXCEED :: nat where "ICMP_TIMXCEED = 11"
definition ICMP_TIMXCEED_INTRANS :: nat where "ICMP_TIMXCEED_INTRANS = 0"
definition ICMP_UNREACH_PORT :: nat where "ICMP_UNREACH_PORT = 3"
definition ICMP_UNREACH_NEEDFRAG :: nat where "ICMP_UNREACH_NEEDFRAG = 4"
definition ICMP6_DST_UNREACH :: nat where "ICMP6_DST_UNREACH = 1"
definition ICMP6_PACKET_TOO_BIG :: nat where "ICMP6_PACKET_TOO_BIG = 2"
definition ICMP6_TIME_EXCEEDED :: nat where "ICMP6_TIME_EXCEEDED = 3"
definition ICMP6_TIME_EXCEED_TRANSIT :: nat where "ICMP6_TIME_EXCEED_TRANSIT = 0"
definition ICMP6_DST_UNREACH_NOPORT :: nat where "ICMP6_DST_UNREACH_NOPORT = 4"

lemmas icmp_numbers = IPPROTO_UDP_def IPPROTO_ICMP_def ICMP_ECHOREPLY_def ICMP_ECHO_def ICMP_UNREACH_def ICMP_SOURCEQUENCH_def ICMP_TIMXCEED_def
  ICMP_TIMXCEED_INTRANS_def ICMP_UNREACH_PORT_def ICMP_UNREACH_NEEDFRAG_def ICMP6_DST_UNREACH_def ICMP6_PACKET_TOO_BIG_def
  ICMP6_TIME_EXCEEDED_def ICMP6_TIME_EXCEED_TRANSIT_def ICMP6_DST_UNREACH_NOPORT_def

lemmas header_fields = oct_def ip_hlen_def ip_p_def ip_ttl_def ip_dst_def ip6_nxt_def ip6_dst_def icmp_type_def icmp_code_def uh_sport_def uh_dport_def

text \<open>\<^verbatim>\<open>recvfrom\<close> into an array: the packet, cut to the size of the array, over what was there before.\<close>

definition recv_into :: "byte list \<Rightarrow> byte list \<Rightarrow> byte list \<times> nat" where
  "recv_into old pkt = (let d = take (length old) pkt in (blit old 0 d, length d))"

lemma recv_into_length: "recv_into old pkt = (buf, n) \<Longrightarrow> length buf = length old \<and> n = min (length old) (length pkt)"
  by (auto simp: recv_into_def Let_def)

text \<open>A field that lies within the received bytes is a field of the packet.\<close>

lemma recv_into_nth: "recv_into old pkt = (buf, n) \<Longrightarrow> k < n \<Longrightarrow> buf ! k = pkt ! k"
  by (auto simp: recv_into_def Let_def blit_def nth_append)

lemma ip_hlen_le: "ip_hlen buf off \<le> 60"
proof -
  have "oct buf off mod 16 < 16" by simp
  then show ?thesis unfolding ip_hlen_def by linarith
qed

end
