(* ===== verification/Icmpd.thy ===== *)
theory Icmpd
  imports Icmp_Headers Ready_Scan
begin

text \<open>
  The ICMP daemon of \<^verbatim>\<open>icmpd/\<close>: clients pass it a UDP socket over a Unix domain stream, it remembers the local port of the socket, and
  when an ICMP error about that port arrives it writes the error to the client. State and operations follow \<^verbatim>\<open>icmpd.c\<close>, \<^verbatim>\<open>readable_listen.c\<close>, \<^verbatim>\<open>readable_conn.c\<close>,
  \<^verbatim>\<open>readable_v4.c\<close> and \<^verbatim>\<open>readable_v6.c\<close>; every operation ends with \<^verbatim>\<open>return(--nready)\<close>, which the loop counts. Progress messages are not modelled.
\<close>

section \<open>State\<close>

definition ICMPD_CLIENTS :: nat where "ICMPD_CLIENTS = 1024"

record iclient =
  connfd :: int
  family :: family
  lport :: int

datatype icmp_errno = E_HOSTUNREACH | E_MSGSIZE | E_CONNREFUSED

record icmpd_err =
  icmpd_errno :: icmp_errno
  icmpd_type :: nat
  icmpd_code :: nat
  icmpd_len :: nat
  icmpd_dest :: sockaddr

record icmpd =
  client :: "iclient list"
  fd4 :: int
  fd6 :: int
  listenfd :: int
  maxi :: int
  maxfd :: int
  allset :: "int set"
  told :: "(int \<times> icmpd_err) list"
  answers :: "(int \<times> char) list"

definition icmpd_start :: "int \<Rightarrow> int \<Rightarrow> int \<Rightarrow> icmpd" where
  "icmpd_start f4 f6 lfd =
     \<lparr>client = replicate ICMPD_CLIENTS \<lparr>connfd = -1, family = AF_UNSPEC, lport = 0\<rparr>, fd4 = f4, fd6 = f6, listenfd = lfd, maxi = -1,
      maxfd = max (max f4 f6) lfd, allset = {f4, f6, lfd}, told = [], answers = []\<rparr>"

text \<open>
  What the kernel answers in one turn of the main loop. \<open>i_recv4\<close> and \<open>i_recv6\<close>: the receive buffer after \<^verbatim>\<open>recvfrom\<close> and the number of bytes received. For a client: the result of \<^verbatim>\<open>Read_fd\<close> (end of file,
  or a descriptor, \<open>-1\<close> when none was passed), of \<^verbatim>\<open>getsockname\<close> and \<^verbatim>\<open>sock_bind_wild\<close> on it, and of the \<^verbatim>\<open>Write\<close>s and \<^verbatim>\<open>Close\<close>s.
\<close>

record ienv =
  i_ready :: "int set"
  i_accept :: "(errno + int) list"
  i_recv4 :: "errno + byte list \<times> nat"
  i_recv6 :: "errno + byte list \<times> nat"
  i_readfd :: "nat \<Rightarrow> errno + int option"
  i_getsockname :: "nat \<Rightarrow> sockaddr option"
  i_bindwild :: "nat \<Rightarrow> int"
  i_write :: "int \<Rightarrow> errno option"
  i_close :: "int \<Rightarrow> errno option"

section \<open>Operations\<close>

definition readable_listen :: "ienv \<Rightarrow> (unit, icmpd) prog" where
  "readable_listen ev st =
     (case Accept (i_accept ev) of
        Blocked x \<Rightarrow> Blocked st
      | Die f x \<Rightarrow> Die f st
      | Ret c x \<Rightarrow>
          (let i = first_free (map connfd (client st)) 0
           in if i = ICMPD_CLIENTS then Ret () st
              else Ret () (st\<lparr>client := (client st)[i := (client st ! i)\<lparr>connfd := c\<rparr>], allset := insert c (allset st),
                             maxfd := (if c > maxfd st then c else maxfd st), maxi := (if int i > maxi st then int i else maxi st)\<rparr>)))"

definition Write_to :: "ienv \<Rightarrow> int \<Rightarrow> (icmpd \<Rightarrow> icmpd) \<Rightarrow> (unit, icmpd) prog" where
  "Write_to ev fd f st = (case i_write ev fd of Some e \<Rightarrow> Die (Err_sys ''write error'' (Some e)) st | None \<Rightarrow> Ret () (f st))"

definition Close_fd :: "ienv \<Rightarrow> int \<Rightarrow> (unit, icmpd) prog" where
  "Close_fd ev fd st = (case i_close ev fd of Some e \<Rightarrow> Die (Err_sys ''close error'' (Some e)) st | None \<Rightarrow> Ret () st)"

text \<open>The labels \<^verbatim>\<open>clientdone\<close> and \<^verbatim>\<open>clienterr\<close> of \<^verbatim>\<open>readable_conn\<close>.\<close>

definition clientdone :: "ienv \<Rightarrow> nat \<Rightarrow> int \<Rightarrow> (unit, icmpd) prog" where
  "clientdone ev i recvfd st =
     (let unixfd = connfd (client st ! i)
      in bindP (Close_fd ev unixfd)
           (\<lambda>_. bindP (if 0 \<le> recvfd then Close_fd ev recvfd else returnP ())
              (\<lambda>_ st'. Ret () (st'\<lparr>allset := allset st' - {unixfd}, client := (client st')[i := (client st' ! i)\<lparr>connfd := -1\<rparr>]\<rparr>))) st)"

definition clienterr :: "ienv \<Rightarrow> nat \<Rightarrow> int \<Rightarrow> (unit, icmpd) prog" where
  "clienterr ev i recvfd st =
     bindP (Write_to ev (connfd (client st ! i)) (\<lambda>s. s\<lparr>answers := answers s @ [(connfd (client st ! i), CHR ''0'')]\<rparr>))
       (\<lambda>_. clientdone ev i recvfd) st"

definition readable_conn :: "ienv \<Rightarrow> nat \<Rightarrow> (unit, icmpd) prog" where
  "readable_conn ev i st =
     (let unixfd = connfd (client st ! i)
      in case i_readfd ev i of
           Inl e \<Rightarrow> Die (Err_sys ''read_fd error'' (Some e)) st
         | Inr None \<Rightarrow> clientdone ev i (-1) st
         | Inr (Some recvfd) \<Rightarrow>
             if recvfd < 0 then clienterr ev i recvfd st
             else (case i_getsockname ev i of
                     None \<Rightarrow> clienterr ev i recvfd st
                   | Some ss \<Rightarrow>
                       let st1 = st\<lparr>client := (client st)[i := (client st ! i)\<lparr>family := sa_family ss, lport := sock_get_port ss\<rparr>]\<rparr>;
                           p = (if sock_get_port ss = 0 then i_bindwild ev i else sock_get_port ss);
                           st2 = st1\<lparr>client := (client st1)[i := (client st1 ! i)\<lparr>lport := p\<rparr>]\<rparr>
                       in if sock_get_port ss = 0 \<and> p \<le> 0 then clienterr ev i recvfd st2
                          else bindP (Write_to ev unixfd (\<lambda>s. s\<lparr>answers := answers s @ [(unixfd, CHR ''1'')]\<rparr>)) (\<lambda>_. Close_fd ev recvfd) st2))"

text \<open>The loop that writes an error to the clients of a port.\<close>

fun tell_clients :: "ienv \<Rightarrow> family \<Rightarrow> int \<Rightarrow> icmpd_err \<Rightarrow> nat list \<Rightarrow> (unit, icmpd) prog" where
  "tell_clients ev fam sport err [] st = Ret () st"
| "tell_clients ev fam sport err (i # is) st =
     (let c = client st ! i
      in if 0 \<le> connfd c \<and> family c = fam \<and> lport c = sport
         then bindP (Write_to ev (connfd c) (\<lambda>s. s\<lparr>told := told s @ [(connfd c, err)]\<rparr>)) (\<lambda>_ st'. tell_clients ev fam sport err is st') st
         else tell_clients ev fam sport err is st)"

text \<open>Conversion of type and code to an error number.\<close>

definition errno_v4 :: "nat \<Rightarrow> nat \<Rightarrow> icmp_errno" where
  "errno_v4 ty co =
     (if ty = ICMP_UNREACH then if co = ICMP_UNREACH_PORT then E_CONNREFUSED else if co = ICMP_UNREACH_NEEDFRAG then E_MSGSIZE else E_HOSTUNREACH
      else E_HOSTUNREACH)"

definition errno_v6 :: "nat \<Rightarrow> nat \<Rightarrow> icmp_errno" where
  "errno_v6 ty co =
     (let e = (if ty = ICMP6_DST_UNREACH \<and> co = ICMP6_DST_UNREACH_NOPORT then E_CONNREFUSED else E_HOSTUNREACH)
      in if ty = ICMP6_PACKET_TOO_BIG then E_MSGSIZE else e)"

definition readable_v4 :: "ienv \<Rightarrow> (unit, icmpd) prog" where
  "readable_v4 ev st =
     (case i_recv4 ev of
        Inl e \<Rightarrow> Die (Err_sys ''recvfrom error'' (Some e)) st
      | Inr (buf, n) \<Rightarrow>
          (let hlen1 = ip_hlen buf 0; icmplen = int n - int hlen1
           in if icmplen < 8 then Die (Err_quit ''icmplen (%d) < 8'') st
              else if icmp_type buf hlen1 \<in> {ICMP_UNREACH, ICMP_TIMXCEED, ICMP_SOURCEQUENCH}
              then if icmplen < 8 + 20 + 8 then Die (Err_quit ''icmplen (%d) < 8 + 20 + 8'') st
                   else let hip = hlen1 + 8; hlen2 = ip_hlen buf hip
                        in if ip_p buf hip = IPPROTO_UDP
                           then let udp = hip + hlen2
                                in tell_clients ev AF_INET (uint (uh_sport buf udp))
                                     \<lparr>icmpd_errno = errno_v4 (icmp_type buf hlen1) (icmp_code buf hlen1), icmpd_type = icmp_type buf hlen1,
                                      icmpd_code = icmp_code buf hlen1, icmpd_len = 16, icmpd_dest = Sockaddr_in (uh_dport buf udp) (ip_dst buf hip)\<rparr>
                                     [0..<nat (maxi st + 1)] st
                           else Ret () st
              else Ret () st))"

definition readable_v6 :: "ienv \<Rightarrow> (unit, icmpd) prog" where
  "readable_v6 ev st =
     (case i_recv6 ev of
        Inl e \<Rightarrow> Die (Err_sys ''recvfrom error'' (Some e)) st
      | Inr (buf, n) \<Rightarrow>
          (if n < 8 then Die (Err_quit ''icmp6len (%d) < 8'') st
           else if icmp_type buf 0 \<in> {ICMP6_DST_UNREACH, ICMP6_PACKET_TOO_BIG, ICMP6_TIME_EXCEEDED}
           then if n < 8 + 8 then Die (Err_quit ''icmp6len (%d) < 8 + 8'') st
                else if ip6_nxt buf 8 = IPPROTO_UDP
                then let udp = 8 + 40
                     in tell_clients ev AF_INET6 (uint (uh_sport buf udp))
                          \<lparr>icmpd_errno = errno_v6 (icmp_type buf 0) (icmp_code buf 0), icmpd_type = icmp_type buf 0,
                           icmpd_code = icmp_code buf 0, icmpd_len = 28, icmpd_dest = Sockaddr_in6 (uh_dport buf udp) (ip6_dst buf 8)\<rparr>
                          [0..<nat (maxi st + 1)] st
                else Ret () st
           else Ret () st))"

section \<open>The main loop\<close>

definition icmpd_hit :: "int set \<Rightarrow> icmpd \<Rightarrow> nat \<Rightarrow> bool" where
  "icmpd_hit rset st i \<longleftrightarrow> i < length (client st) \<and> \<not> connfd (client st ! i) < 0 \<and> connfd (client st ! i) \<in> rset"

text \<open>A descriptor is served if it is ready; the turn ends when the count of ready descriptors is used up by it.\<close>

definition serve_fd :: "bool \<Rightarrow> (unit, icmpd) prog \<Rightarrow> int \<Rightarrow> (int \<Rightarrow> (unit, icmpd) prog) \<Rightarrow> (unit, icmpd) prog" where
  "serve_fd ready serve nready rest st =
     (if ready then bindP serve (\<lambda>_ st'. if nready - 1 \<le> 0 then Ret () st' else rest (nready - 1) st') st else rest nready st)"

definition icmpd_clients :: "ienv \<Rightarrow> int set \<Rightarrow> int \<Rightarrow> (unit, icmpd) prog" where
  "icmpd_clients ev rset nready st = scan (icmpd_hit rset) (readable_conn ev) [0..<nat (maxi st + 1)] nready st"

definition icmpd_round :: "ienv \<Rightarrow> (unit, icmpd) prog" where
  "icmpd_round ev st =
     (let rset = {fd \<in> allset st. fd \<le> maxfd st} \<inter> i_ready ev
      in if rset = {} then Blocked st
         else serve_fd (listenfd st \<in> rset) (readable_listen ev) (int (card rset))
                (\<lambda>n1. serve_fd (fd4 st \<in> rset) (readable_v4 ev) n1
                   (\<lambda>n2. serve_fd (fd6 st \<in> rset) (readable_v6 ev) n2
                      (\<lambda>n3. icmpd_clients ev rset n3))) st)"

fun icmpd_main :: "ienv list \<Rightarrow> (unit, icmpd) prog" where
  "icmpd_main [] st = Blocked st"
| "icmpd_main (ev # evs) st = bindP (icmpd_round ev) (\<lambda>_ st'. icmpd_main evs st') st"

section \<open>The invariant\<close>

abbreviation conns :: "icmpd \<Rightarrow> int list" where
  "conns st \<equiv> map connfd (client st)"

definition icmpd_inv :: "icmpd \<Rightarrow> bool" where
  "icmpd_inv st \<longleftrightarrow>
     length (client st) = ICMPD_CLIENTS \<and> distinct [fd4 st, fd6 st, listenfd st] \<and>
     allset st = {fd4 st, fd6 st, listenfd st} \<union> in_use (conns st) \<and> {fd4 st, fd6 st, listenfd st} \<inter> in_use (conns st) = {} \<and> no_dup (conns st) \<and>
     (\<forall>fd \<in> allset st. fd \<le> maxfd st) \<and>
     -1 \<le> maxi st \<and> maxi st < int ICMPD_CLIENTS \<and> (\<forall>j < ICMPD_CLIENTS. 0 \<le> conns st ! j \<longrightarrow> int j \<le> maxi st)"

text \<open>What the invariant depends on.\<close>

definition same_conns :: "icmpd \<Rightarrow> icmpd \<Rightarrow> bool" where
  "same_conns st st' \<longleftrightarrow>
     conns st' = conns st \<and> allset st' = allset st \<and> fd4 st' = fd4 st \<and> fd6 st' = fd6 st \<and> listenfd st' = listenfd st \<and> maxi st' = maxi st \<and> maxfd st' = maxfd st"

lemma same_conns_inv: "same_conns st st' \<Longrightarrow> icmpd_inv st' = icmpd_inv st"
proof -
  assume s: "same_conns st st'"
  then have "length (client st') = length (client st)" by (metis same_conns_def length_map)
  with s show ?thesis unfolding icmpd_inv_def same_conns_def by simp
qed

lemma same_conns_refl [simp]: "same_conns st st" "same_conns st (st\<lparr>told := x\<rparr>)" "same_conns st (st\<lparr>answers := y\<rparr>)"
  by (simp_all add: same_conns_def)

lemma same_conns_trans: "same_conns s t \<Longrightarrow> same_conns t u \<Longrightarrow> same_conns s u"
  by (simp add: same_conns_def)

lemma icmpd_inv_start: "distinct [f4, f6, lfd] \<Longrightarrow> icmpd_inv (icmpd_start f4 f6 lfd)"
  by (auto simp: icmpd_inv_def icmpd_start_def ICMPD_CLIENTS_def in_use_def no_dup_def)

definition fresh_accept :: "ienv \<Rightarrow> icmpd \<Rightarrow> bool" where
  "fresh_accept ev st \<longleftrightarrow> (\<forall>r \<in> set (i_accept ev). case r of Inl e \<Rightarrow> True | Inr n \<Rightarrow> 0 \<le> n \<and> n \<notin> allset st)"

lemma Accept_gives: "Accept evs = Ret n rest \<Longrightarrow> Inr n \<in> set evs"
  by (induction evs rule: Accept.induct) (auto split: if_splits)

lemma readable_listen_inv:
  assumes "icmpd_inv st" and "fresh_accept ev st" and "readable_listen ev st = Ret u st'"
  shows "icmpd_inv st'" and "in_use (conns st') \<subseteq> in_use (conns st) \<union> - allset st"
    and "fd4 st' = fd4 st" and "fd6 st' = fd6 st" and "listenfd st' = listenfd st"
proof -
  define i where "i = first_free (conns st) 0"
  obtain n rest where a: "Accept (i_accept ev) = Ret n rest" using assms(3) by (auto simp: readable_listen_def split: outcome.splits)
  have n: "0 \<le> n" "n \<notin> allset st" using Accept_gives [OF a] assms(2) by (auto simp: fresh_accept_def)
  have len: "length (client st) = ICMPD_CLIENTS" using assms(1) by (simp add: icmpd_inv_def)
  have "icmpd_inv st' \<and> in_use (conns st') \<subseteq> in_use (conns st) \<union> - allset st \<and> fd4 st' = fd4 st \<and> fd6 st' = fd6 st \<and> listenfd st' = listenfd st"
  proof (cases "i = ICMPD_CLIENTS")
    case True
    then show ?thesis using assms(1,3) a by (simp add: readable_listen_def Let_def i_def)
  next
    case False
    with first_free_spec [of "conns st"] len have il: "i < length (conns st)" "conns st ! i < 0" by (auto simp: i_def)
    have st': "st' = st\<lparr>client := (client st)[i := (client st ! i)\<lparr>connfd := n\<rparr>], allset := insert n (allset st),
                   maxfd := (if n > maxfd st then n else maxfd st), maxi := (if int i > maxi st then int i else maxi st)\<rparr>"
      using assms(3) a False by (auto simp: readable_listen_def Let_def i_def)
    have c: "conns st' = (conns st)[i := n]" using st' by (simp add: map_update)
    have nc: "n \<notin> in_use (conns st)" using n assms(1) by (auto simp: icmpd_inv_def)
    have "no_dup (conns st')" "in_use (conns st') = insert n (in_use (conns st))"
      unfolding c using no_dup_new [OF _ nc n(1)] in_use_new [OF il n(1)] assms(1) by (auto simp: icmpd_inv_def)
    moreover have "0 \<le> conns st' ! j \<longrightarrow> int j \<le> maxi st'" if "j < ICMPD_CLIENTS" for j
      unfolding c using that assms(1) il len st' by (cases "j = i") (auto simp: icmpd_inv_def)
    moreover have "\<forall>fd \<in> allset st'. fd \<le> maxfd st'" using assms(1) st' by (force simp: icmpd_inv_def)
    moreover have "length (client st') = ICMPD_CLIENTS" "allset st' = insert n (allset st)" "fd4 st' = fd4 st" "fd6 st' = fd6 st" "listenfd st' = listenfd st"
      using len st' by auto
    moreover have "-1 \<le> maxi st'" "maxi st' < int ICMPD_CLIENTS" using assms(1) il len by (auto simp: st' icmpd_inv_def)
    ultimately show ?thesis using assms(1) n by (auto simp: icmpd_inv_def)
  qed
  then show "icmpd_inv st'" "in_use (conns st') \<subseteq> in_use (conns st) \<union> - allset st" "fd4 st' = fd4 st" "fd6 st' = fd6 st" "listenfd st' = listenfd st"
    by simp_all
qed

lemma tell_clients_same: "tell_clients ev fam sport err is st = Ret u st' \<Longrightarrow> same_conns st st'"
proof (induction "is" arbitrary: st)
  case (Cons i "is")
  show ?case
  proof (cases "0 \<le> connfd (client st ! i) \<and> family (client st ! i) = fam \<and> lport (client st ! i) = sport")
    case False
    with Cons show ?thesis by (auto simp: Let_def)
  next
    case True
    with Cons.prems obtain v st1 where st1: "Write_to ev (connfd (client st ! i)) (\<lambda>s. s\<lparr>told := told s @ [(connfd (client st ! i), err)]\<rparr>) st = Ret v st1"
      "tell_clients ev fam sport err is st1 = Ret u st'" by (auto simp: Let_def elim!: bindP_RetE)
    then have "same_conns st st1" by (auto simp: Write_to_def split: option.splits)
    then show ?thesis using Cons.IH [OF st1(2)] by (rule same_conns_trans)
  qed
qed simp

lemma readable_v4_same: "readable_v4 ev st = Ret u st' \<Longrightarrow> same_conns st st'"
  by (auto simp: readable_v4_def Let_def split: sum.splits if_splits dest: tell_clients_same)

lemma readable_v6_same: "readable_v6 ev st = Ret u st' \<Longrightarrow> same_conns st st'"
  by (auto simp: readable_v6_def Let_def split: sum.splits if_splits dest: tell_clients_same)

text \<open>Serving a client either keeps its connection or closes it and frees its entry.\<close>

definition frees :: "nat \<Rightarrow> icmpd \<Rightarrow> icmpd \<Rightarrow> bool" where
  "frees i st st' \<longleftrightarrow>
     conns st' = (conns st)[i := -1] \<and> allset st' = allset st - {connfd (client st ! i)} \<and> fd4 st' = fd4 st \<and> fd6 st' = fd6 st \<and> listenfd st' = listenfd st \<and>
     maxi st' = maxi st \<and> maxfd st' = maxfd st"

lemma clientdone_frees: "clientdone ev i r st = Ret u st' \<Longrightarrow> frees i st st'"
  by (auto simp: clientdone_def Let_def Close_fd_def frees_def map_update returnP_def split: option.splits if_splits elim!: bindP_RetE)

lemma clienterr_frees: "clienterr ev i r st = Ret u st' \<Longrightarrow> frees i st st'"
  by (auto simp: clienterr_def Write_to_def frees_def split: option.splits elim!: bindP_RetE dest!: clientdone_frees)

lemma conns_entry: "connfd c = connfd (client st ! i) \<Longrightarrow> map connfd ((client st)[i := c]) = conns st"
  by (metis list_update_id map_update)

lemma readable_conn_cases:
  assumes "readable_conn ev i st = Ret u st'" and "i < length (client st)"
  shows "same_conns st st' \<or> frees i st st'"
proof -
  have err: "frees i st st'" if "clienterr ev i r st1 = Ret u st'" "same_conns st st1" "connfd (client st1 ! i) = connfd (client st ! i)" for r st1
    using clienterr_frees [OF that(1)] that(2,3) by (simp add: frees_def same_conns_def)
  show ?thesis
  proof (cases "i_readfd ev i")
    case (Inr r)
    show ?thesis
    proof (cases r)
      case None
      with Inr assms show ?thesis by (auto simp: readable_conn_def Let_def dest: clientdone_frees)
    next
      case (Some recvfd)
      show ?thesis
      proof (cases "recvfd < 0 \<or> i_getsockname ev i = None")
        case True
        with Inr Some have "readable_conn ev i st = clienterr ev i recvfd st" by (auto simp: readable_conn_def Let_def)
        with assms show ?thesis using err [of recvfd st] by simp
      next
        case False
        then obtain ss where ss: "i_getsockname ev i = Some ss" by auto
        define p where "p = (if sock_get_port ss = 0 then i_bindwild ev i else sock_get_port ss)"
        define st2 where "st2 = st\<lparr>client := (client st)[i := (client st ! i)\<lparr>family := sa_family ss, lport := p\<rparr>]\<rparr>"
        have s2: "same_conns st st2" "connfd (client st2 ! i) = connfd (client st ! i)"
          using assms(2) by (auto simp: same_conns_def st2_def conns_entry)
        have rc: "readable_conn ev i st = (if sock_get_port ss = 0 \<and> p \<le> 0 then clienterr ev i recvfd st2
            else bindP (Write_to ev (connfd (client st ! i)) (\<lambda>s. s\<lparr>answers := answers s @ [(connfd (client st ! i), CHR ''1'')]\<rparr>)) (\<lambda>_. Close_fd ev recvfd) st2)"
          using Inr Some False ss assms(2) by (simp add: readable_conn_def Let_def p_def st2_def)
        show ?thesis
        proof (cases "sock_get_port ss = 0 \<and> p \<le> 0")
          case True
          with rc assms(1) err [of recvfd st2] s2 show ?thesis by simp
        next
          case False
          then have "bindP (Write_to ev (connfd (client st ! i)) (\<lambda>s. s\<lparr>answers := answers s @ [(connfd (client st ! i), CHR ''1'')]\<rparr>))
              (\<lambda>_. Close_fd ev recvfd) st2 = Ret u st'" using rc assms(1) by argo
          then have "same_conns st2 st'" by (auto simp: Write_to_def Close_fd_def split: option.splits elim!: bindP_RetE)
          with same_conns_trans [OF s2(1)] show ?thesis by blast
        qed
      qed
    qed
  qed (use assms in \<open>auto simp: readable_conn_def Let_def\<close>)
qed

lemma frees_inv:
  assumes "icmpd_inv st" and "frees i st st'" and "i < length (client st)" and "0 \<le> connfd (client st ! i)"
  shows "icmpd_inv st'"
proof -
  have il: "i < length (conns st)" "0 \<le> conns st ! i" "conns st ! i = connfd (client st ! i)" using assms(3,4) by auto
  have "length (client st') = length (client st)" using assms(2) by (metis frees_def length_list_update length_map)
  moreover have "no_dup (conns st')" "in_use (conns st') = in_use (conns st) - {connfd (client st ! i)}"
    using assms(1,2) no_dup_clear [of "conns st" i] in_use_clear [of "conns st" i] il by (auto simp: icmpd_inv_def frees_def)
  moreover have "connfd (client st ! i) \<in> in_use (conns st)" using il by (auto simp: in_use_iff)
  moreover have "0 \<le> conns st' ! j \<longrightarrow> int j \<le> maxi st" if "j < ICMPD_CLIENTS" for j
    using that assms(1,2) il by (cases "j = i") (auto simp: icmpd_inv_def frees_def)
  ultimately show ?thesis using assms(1,2) by (auto simp: icmpd_inv_def frees_def)
qed

lemma readable_conn_inv:
  assumes "readable_conn ev i st = Ret u st'" and "icmpd_inv st" and "icmpd_hit R st i"
  shows "icmpd_inv st'"
  using readable_conn_cases [OF assms(1)] frees_inv [OF assms(2), of i st'] same_conns_inv [of st st'] assms(2,3)
  by (auto simp: icmpd_hit_def)

interpretation icm: ready_table "icmpd_hit R" "readable_conn ev" icmpd_inv for R ev
proof unfold_locales
  fix i j u st st'
  assume a: "readable_conn ev i st = Ret u st'" "icmpd_inv st" "icmpd_hit R st i"
  show "icmpd_inv st'" by (rule readable_conn_inv [OF a])
  show "icmpd_hit R st' j = icmpd_hit R st j" if "j \<noteq> i"
  proof -
    have hit: "icmpd_hit R s j \<longleftrightarrow> j < length (conns s) \<and> \<not> conns s ! j < 0 \<and> conns s ! j \<in> R" for s by (auto simp: icmpd_hit_def)
    have "conns st' = conns st \<or> conns st' = (conns st)[i := -1]"
      using readable_conn_cases [OF a(1)] a(3) by (auto simp: icmpd_hit_def same_conns_def frees_def)
    moreover from this have "length (conns st') = length (conns st)" by (metis length_list_update)
    ultimately show ?thesis unfolding hit using that by (auto simp del: length_map nth_map)
  qed
qed

section \<open>No ready descriptor is skipped\<close>

text \<open>The turn without counting: everything that is ready is served.\<close>

definition visit_clients :: "ienv \<Rightarrow> int set \<Rightarrow> (unit, icmpd) prog" where
  "visit_clients ev R st = visit (icmpd_hit R) (readable_conn ev) [0..<ICMPD_CLIENTS] st"

definition serve_all :: "bool \<Rightarrow> (unit, icmpd) prog \<Rightarrow> (unit, icmpd) prog \<Rightarrow> (unit, icmpd) prog" where
  "serve_all ready serve rest st = (if ready then bindP serve (\<lambda>_. rest) st else rest st)"

definition ref_icmpd_round :: "ienv \<Rightarrow> (unit, icmpd) prog" where
  "ref_icmpd_round ev st =
     (let rset = {fd \<in> allset st. fd \<le> maxfd st} \<inter> i_ready ev
      in if rset = {} then Blocked st
         else serve_all (listenfd st \<in> rset) (readable_listen ev)
                (serve_all (fd4 st \<in> rset) (readable_v4 ev)
                   (serve_all (fd6 st \<in> rset) (readable_v6 ev) (visit_clients ev rset))) st)"

lemma serve_fd_all:
  assumes "finite R" and "int (card (R \<inter> insert fd X)) \<le> n" and "fd \<notin> X" and "P st"
    and step: "\<And>u st'. serve st = Ret u st' \<Longrightarrow> P st'"
    and rest: "\<And>m st'. P st' \<Longrightarrow> int (card (R \<inter> X)) \<le> m \<Longrightarrow> rest m st' = ref st'"
    and none: "\<And>st'. P st' \<Longrightarrow> R \<inter> X = {} \<Longrightarrow> ref st' = Ret () st'"
  shows "serve_fd (fd \<in> R) serve n rest st = serve_all (fd \<in> R) serve ref st"
proof (cases "fd \<in> R")
  case False
  then have "R \<inter> insert fd X = R \<inter> X" by auto
  with rest [OF assms(4)] assms(2) False show ?thesis by (simp add: serve_fd_def serve_all_def)
next
  case True
  then have "R \<inter> insert fd X = insert fd (R \<inter> X)" by auto
  then have le: "int (card (R \<inter> X)) \<le> n - 1" using assms(1,2,3) by simp
  have "(if n - 1 \<le> 0 then Ret () st' else rest (n - 1) st') = ref st'" if "serve st = Ret u st'" for u st'
  proof (cases "n - 1 \<le> 0")
    case True
    with le have "card (R \<inter> X) = 0" by linarith
    with assms(1) have "R \<inter> X = {}" by simp
    with none [OF step [OF that]] True show ?thesis by simp
  next
    case False
    with rest [OF step [OF that] le] show ?thesis by simp
  qed
  with True show ?thesis by (auto simp: serve_fd_def serve_all_def bindP_def split: outcome.splits)
qed

lemma icmpd_hits_le:
  assumes "icmpd_inv st" and "finite R" and "k \<le> ICMPD_CLIENTS"
  shows "icm.hits R [0..<k] st \<le> card (R \<inter> in_use (conns st))"
proof -
  have len: "length (conns st) = ICMPD_CLIENTS" and nd: "no_dup (conns st)" using assms(1) by (auto simp: icmpd_inv_def)
  have "filter (icmpd_hit R st) [0..<k] = filter (\<lambda>i. 0 \<le> conns st ! i \<and> conns st ! i \<in> R) [0..<k]"
    using len assms(3) by (intro filter_cong) (auto simp: icmpd_hit_def)
  then show ?thesis using no_dup_count [OF nd assms(2), of "[0..<k]"] len assms(3) by (simp add: icm.hits_def)
qed

lemma icmpd_clients_all:
  assumes "icmpd_inv st" and "finite R" and "R \<inter> in_use (conns st) \<subseteq> X" and "int (card (R \<inter> X)) \<le> n"
  shows "icmpd_clients ev R n st = visit_clients ev R st"
proof -
  let ?k = "nat (maxi st + 1)"
  have k: "?k \<le> ICMPD_CLIENTS" using assms(1) by (auto simp: icmpd_inv_def)
  then have sp: "[0..<ICMPD_CLIENTS] = [0..<?k] @ [?k..<ICMPD_CLIENTS]"
    using upt_add_eq_append [of 0 ?k "ICMPD_CLIENTS - ?k"] by simp
  have "\<not> icmpd_hit R st j" if "j \<in> set [?k..<ICMPD_CLIENTS]" for j
    using that assms(1) by (force simp: icmpd_inv_def icmpd_hit_def)
  then have v: "visit_clients ev R st = visit (icmpd_hit R) (readable_conn ev) [0..<?k] st"
    unfolding visit_clients_def sp by (intro icm.visit_prefix assms(1)) auto
  have "card (R \<inter> in_use (conns st)) \<le> card (R \<inter> X)" using assms(2,3) by (intro card_mono) auto
  then have "int (icm.hits R [0..<?k] st) \<le> n" using icmpd_hits_le [OF assms(1,2) k] assms(4) by linarith
  then show ?thesis unfolding v icmpd_clients_def by (intro icm.scan_visit assms(1)) auto
qed

lemma visit_clients_none:
  assumes "icmpd_inv st" and "finite R" and "R \<inter> in_use (conns st) = {}"
  shows "visit_clients ev R st = Ret () st"
  unfolding visit_clients_def using icmpd_hits_le [OF assms(1,2), of ICMPD_CLIENTS] assms(3) by (intro icm.visit_none) simp

lemma serve_all_none: "fd \<notin> R \<Longrightarrow> rest st = Ret () st \<Longrightarrow> serve_all (fd \<in> R) serve rest st = Ret () st"
  by (simp add: serve_all_def)

lemma icmpd_round_all:
  assumes "icmpd_inv st" and "fresh_accept ev st"
  shows "icmpd_round ev st = ref_icmpd_round ev st"
proof -
  define R where "R = {fd \<in> allset st. fd \<le> maxfd st} \<inter> i_ready ev"
  define X where "X = in_use (conns st)"
  define P where "P = (\<lambda>s. icmpd_inv s \<and> R \<inter> in_use (conns s) \<subseteq> X)"
  have fin: "finite R" using assms(1) by (auto simp: R_def icmpd_inv_def in_use_def)
  have sp: "fd6 st \<notin> X" "fd4 st \<notin> insert (fd6 st) X" "listenfd st \<notin> insert (fd4 st) (insert (fd6 st) X)"
    using assms(1) by (auto simp: icmpd_inv_def X_def)
  have RX: "R \<inter> insert (listenfd st) (insert (fd4 st) (insert (fd6 st) X)) = R" using assms(1) by (auto simp: icmpd_inv_def X_def R_def)
  have keep: "P s'" if "P s" "same_conns s s'" for s s' using that same_conns_inv [of s s'] by (simp add: P_def same_conns_def)
  have none3: "visit_clients ev R s = Ret () s" if "P s" "R \<inter> X = {}" for s
    using that by (intro visit_clients_none fin) (auto simp: P_def)
  have two: "serve_fd (fd6 st \<in> R) (readable_v6 ev) n (icmpd_clients ev R) s = serve_all (fd6 st \<in> R) (readable_v6 ev) (visit_clients ev R) s"
    if "P s" "int (card (R \<inter> insert (fd6 st) X)) \<le> n" for n s
  proof (rule serve_fd_all [OF fin that(2) sp(1), where P = P, OF that(1)])
    show "P s'" if "readable_v6 ev s = Ret u s'" for u s' using keep [OF \<open>P s\<close> readable_v6_same [OF that]] .
    show "icmpd_clients ev R m s' = visit_clients ev R s'" if "P s'" "int (card (R \<inter> X)) \<le> m" for m s'
      using that by (intro icmpd_clients_all [OF _ fin]) (auto simp: P_def)
  qed (rule none3)
  have none2: "serve_all (fd6 st \<in> R) (readable_v6 ev) (visit_clients ev R) s = Ret () s" if "P s" "R \<inter> insert (fd6 st) X = {}" for s
    using that none3 by (intro serve_all_none) auto
  have one: "serve_fd (fd4 st \<in> R) (readable_v4 ev) n (\<lambda>n2. serve_fd (fd6 st \<in> R) (readable_v6 ev) n2 (icmpd_clients ev R)) s
      = serve_all (fd4 st \<in> R) (readable_v4 ev) (serve_all (fd6 st \<in> R) (readable_v6 ev) (visit_clients ev R)) s"
    if "P s" "int (card (R \<inter> insert (fd4 st) (insert (fd6 st) X))) \<le> n" for n s
  proof (rule serve_fd_all [OF fin that(2) sp(2), where P = P, OF that(1)])
    show "P s'" if "readable_v4 ev s = Ret u s'" for u s' using keep [OF \<open>P s\<close> readable_v4_same [OF that]] .
  qed (rule two none2; assumption)+
  have none1: "serve_all (fd4 st \<in> R) (readable_v4 ev) (serve_all (fd6 st \<in> R) (readable_v6 ev) (visit_clients ev R)) s = Ret () s"
    if "P s" "R \<inter> insert (fd4 st) (insert (fd6 st) X) = {}" for s
    using that none3 by (intro serve_all_none) auto
  have "P st" using assms(1) by (simp add: P_def X_def)
  moreover have "P st'" if "readable_listen ev st = Ret u st'" for u st'
    using readable_listen_inv [OF assms that] by (auto simp: P_def X_def R_def)
  moreover have "int (card (R \<inter> insert (listenfd st) (insert (fd4 st) (insert (fd6 st) X)))) \<le> int (card R)" unfolding RX by simp
  ultimately have "serve_fd (listenfd st \<in> R) (readable_listen ev) (int (card R))
      (\<lambda>n1. serve_fd (fd4 st \<in> R) (readable_v4 ev) n1 (\<lambda>n2. serve_fd (fd6 st \<in> R) (readable_v6 ev) n2 (icmpd_clients ev R))) st
    = serve_all (listenfd st \<in> R) (readable_listen ev)
        (serve_all (fd4 st \<in> R) (readable_v4 ev) (serve_all (fd6 st \<in> R) (readable_v6 ev) (visit_clients ev R))) st"
    by (intro serve_fd_all [OF fin _ sp(3), where P = P] one none1) assumption+
  then show ?thesis by (simp add: icmpd_round_def ref_icmpd_round_def R_def [symmetric] Let_def)
qed

lemma serve_all_inv:
  assumes "serve_all ready serve rest s = Ret u t" and "icmpd_inv s" and "\<And>v s'. serve s = Ret v s' \<Longrightarrow> icmpd_inv s'"
    and "\<And>s'. icmpd_inv s' \<Longrightarrow> rest s' = Ret u t \<Longrightarrow> icmpd_inv t"
  shows "icmpd_inv t"
  using assms by (auto simp: serve_all_def split: if_splits elim!: bindP_RetE)

lemma icmpd_round_inv:
  assumes "icmpd_inv st" and "fresh_accept ev st" and "icmpd_round ev st = Ret u st'"
  shows "icmpd_inv st'"
proof -
  define R where "R = {fd \<in> allset st. fd \<le> maxfd st} \<inter> i_ready ev"
  have v3: "icmpd_inv t" if "icmpd_inv s" "visit_clients ev R s = Ret u t" for s t
    using that icm.inv_visit by (simp add: visit_clients_def)
  have v2: "icmpd_inv t" if "icmpd_inv s" "serve_all (fd6 st \<in> R) (readable_v6 ev) (visit_clients ev R) s = Ret u t" for s t
    by (rule serve_all_inv [OF that(2,1) _ v3]) (use that(1) readable_v6_same same_conns_inv in blast)
  have v1: "icmpd_inv t" if "icmpd_inv s" "serve_all (fd4 st \<in> R) (readable_v4 ev) (serve_all (fd6 st \<in> R) (readable_v6 ev) (visit_clients ev R)) s = Ret u t" for s t
    by (rule serve_all_inv [OF that(2,1) _ v2]) (use that(1) readable_v4_same same_conns_inv in blast)
  have "ref_icmpd_round ev st = Ret u st'" using icmpd_round_all [OF assms(1,2)] assms(3) by simp
  then have "serve_all (listenfd st \<in> R) (readable_listen ev)
      (serve_all (fd4 st \<in> R) (readable_v4 ev) (serve_all (fd6 st \<in> R) (readable_v6 ev) (visit_clients ev R))) st = Ret u st'"
    by (simp add: ref_icmpd_round_def R_def [symmetric] Let_def split: if_splits)
  then show ?thesis by (rule serve_all_inv [OF _ assms(1) readable_listen_inv(1) [OF assms(1,2)] v1])
qed

fun fresh_turns :: "ienv list \<Rightarrow> icmpd \<Rightarrow> bool" where
  "fresh_turns [] st = True"
| "fresh_turns (ev # evs) st = (fresh_accept ev st \<and> (case icmpd_round ev st of Ret u st' \<Rightarrow> fresh_turns evs st' | _ \<Rightarrow> True))"

fun ref_icmpd :: "ienv list \<Rightarrow> (unit, icmpd) prog" where
  "ref_icmpd [] st = Blocked st"
| "ref_icmpd (ev # evs) st = bindP (ref_icmpd_round ev) (\<lambda>_ st'. ref_icmpd evs st') st"

lemma icmpd_main_all: "icmpd_inv st \<Longrightarrow> fresh_turns evs st \<Longrightarrow> icmpd_main evs st = ref_icmpd evs st"
proof (induction evs arbitrary: st)
  case (Cons ev evs)
  have "icmpd_main evs st' = ref_icmpd evs st'" if "icmpd_round ev st = Ret u st'" for u st'
    using Cons icmpd_round_inv [of st ev u st'] that by auto
  with Cons icmpd_round_all [of st ev] show ?case by (auto simp: bindP_def split: outcome.splits)
qed simp

text \<open>
  C16. The ICMP daemon skips nothing: for all sequences of turns in which \<^verbatim>\<open>accept\<close> gives unused descriptors, counting \<^verbatim>\<open>nready\<close> down over the listening socket, the two
  raw sockets and the clients, with an early \<^verbatim>\<open>continue\<close> after each, does exactly what serving every ready descriptor in that order does.
\<close>

theorem icmpd_serves_all:
  assumes "distinct [f4, f6, lfd]" and "fresh_turns evs (icmpd_start f4 f6 lfd)"
  shows "icmpd_main evs (icmpd_start f4 f6 lfd) = ref_icmpd evs (icmpd_start f4 f6 lfd)"
  by (rule icmpd_main_all [OF icmpd_inv_start [OF assms(1)] assms(2)])

section \<open>Who is told what\<close>

text \<open>The clients registered for a port, in the order of the table.\<close>

definition registered :: "family \<Rightarrow> int \<Rightarrow> icmpd \<Rightarrow> int list" where
  "registered fam p st = map connfd (filter (\<lambda>c. 0 \<le> connfd c \<and> family c = fam \<and> lport c = p) (client st))"

lemma tell_clients_told:
  assumes "\<forall>fd. i_write ev fd = None"
  shows "tell_clients ev fam p err is st =
     Ret () (st\<lparr>told := told st @ map (\<lambda>i. (connfd (client st ! i), err))
       (filter (\<lambda>i. 0 \<le> connfd (client st ! i) \<and> family (client st ! i) = fam \<and> lport (client st ! i) = p) is)\<rparr>)"
  using assms by (induction "is" arbitrary: st) (auto simp: Let_def Write_to_def bindP_def)

lemma registered_upto:
  assumes "icmpd_inv st"
  shows "map (\<lambda>i. connfd (client st ! i)) (filter (\<lambda>i. 0 \<le> connfd (client st ! i) \<and> family (client st ! i) = fam \<and> lport (client st ! i) = p) [0..<nat (maxi st + 1)])
    = registered fam p st"
proof -
  let ?P = "\<lambda>c. 0 \<le> connfd c \<and> family c = fam \<and> lport c = p"
  let ?k = "nat (maxi st + 1)"
  have len: "length (client st) = ICMPD_CLIENTS" and k: "?k \<le> length (client st)" using assms by (auto simp: icmpd_inv_def)
  have "\<not> ?P (client st ! j)" if "j \<in> set [?k..<length (client st)]" for j
    using that assms len by (force simp: icmpd_inv_def)
  then have "filter (\<lambda>i. ?P (client st ! i)) [?k..<length (client st)] = []" by (simp add: filter_empty_conv)
  moreover have "[0..<length (client st)] = [0..<?k] @ [?k..<length (client st)]"
    using upt_add_eq_append [of 0 ?k "length (client st) - ?k"] k by simp
  ultimately have "filter (\<lambda>i. ?P (client st ! i)) [0..<?k] = filter (\<lambda>i. ?P (client st ! i)) [0..<length (client st)]" by simp
  moreover have "filter ?P (client st) = map ((!) (client st)) (filter (\<lambda>i. ?P (client st ! i)) [0..<length (client st)])"
    using filter_map [of ?P "(!) (client st)" "[0..<length (client st)]"] by (simp add: map_nth comp_def)
  ultimately show ?thesis by (simp add: registered_def comp_def)
qed

text \<open>An ICMPv4 error message about a UDP datagram, complete with the header of the datagram.\<close>

definition v4_error :: "byte list \<Rightarrow> nat \<Rightarrow> bool" where
  "v4_error buf n \<longleftrightarrow> ip_hlen buf 0 + 8 + 20 + 8 \<le> n \<and> icmp_type buf (ip_hlen buf 0) \<in> {ICMP_UNREACH, ICMP_TIMXCEED, ICMP_SOURCEQUENCH} \<and>
     ip_p buf (ip_hlen buf 0 + 8) = IPPROTO_UDP"

definition v6_error :: "byte list \<Rightarrow> nat \<Rightarrow> bool" where
  "v6_error buf n \<longleftrightarrow> 8 + 40 + 8 \<le> n \<and> icmp_type buf 0 \<in> {ICMP6_DST_UNREACH, ICMP6_PACKET_TOO_BIG, ICMP6_TIME_EXCEEDED} \<and> ip6_nxt buf 8 = IPPROTO_UDP"


text \<open>A daemon with one client, registered for port 7 of IPv4, and a port unreachable message about that port.\<close>

definition sample_icmpd :: icmpd where
  "sample_icmpd = (icmpd_start 3 4 5)\<lparr>client := (client (icmpd_start 3 4 5))[0 := \<lparr>connfd = 6, family = AF_INET, lport = uint (le16 0 7)\<rparr>],
     maxi := 0, maxfd := 6, allset := {3, 4, 5, 6}\<rparr>"

definition sample_packet :: "byte list" where
  "sample_packet =
     [0x45] @ replicate 19 0 @ [3, 3, 0, 0, 0, 0, 0, 0] @ [0x45] @ replicate 8 0 @ [17] @ replicate 6 0 @ [10, 0, 0, 1] @ [0, 7, 0, 9, 0, 0, 0, 0]"

definition sample_ienv :: ienv where
  "sample_ienv = \<lparr>i_ready = {3}, i_accept = [Inr 8], i_recv4 = Inr (sample_packet, 56), i_recv6 = Inl EINTR, i_readfd = (\<lambda>_. Inr None),
     i_getsockname = (\<lambda>_. None), i_bindwild = (\<lambda>_. 0), i_write = (\<lambda>_. None), i_close = (\<lambda>_. None)\<rparr>"

lemma sample_icmpd_client: "client sample_icmpd = \<lparr>connfd = 6, family = AF_INET, lport = uint (le16 0 7)\<rparr> # replicate (ICMPD_CLIENTS - 1) \<lparr>connfd = -1, family = AF_UNSPEC, lport = 0\<rparr>"
  by (simp add: sample_icmpd_def icmpd_start_def ICMPD_CLIENTS_def numeral_eq_Suc)

lemma sample_conns: "conns sample_icmpd = 6 # replicate (ICMPD_CLIENTS - 1) (-1)"
  by (simp add: sample_icmpd_client)

lemma sample_icmpd_inv: "icmpd_inv sample_icmpd"
proof -
  have "in_use (conns sample_icmpd) = {6}" unfolding sample_conns by (auto simp: in_use_def)
  moreover have "no_dup (conns sample_icmpd)" unfolding sample_conns by (auto simp: no_dup_def nth_Cons split: nat.splits)
  moreover have "0 \<le> conns sample_icmpd ! j \<longrightarrow> int j \<le> 0" if "j < ICMPD_CLIENTS" for j
    using that unfolding sample_conns by (cases j) auto
  ultimately show ?thesis unfolding icmpd_inv_def
    by (auto simp: sample_icmpd_def icmpd_start_def) (simp_all add: ICMPD_CLIENTS_def)
qed

lemma sample_registered: "registered AF_INET (uint (le16 0 7)) sample_icmpd = [6]"
  by (simp add: registered_def sample_icmpd_client)

lemma sample_v4_error: "v4_error sample_packet 56" "ip_hlen sample_packet 0 = 20" "ip_hlen sample_packet 28 = 20" "uh_sport sample_packet 48 = le16 0 7"
  "uh_dport sample_packet 48 = le16 0 9" "ip_dst sample_packet 28 = [10, 0, 0, 1]" "icmp_type sample_packet 20 = 3" "icmp_code sample_packet 20 = 3"
  by code_simp+


theorem icmpd_serves_all_witness:
  "fresh_turns [sample_ienv] (icmpd_start 3 4 5) \<and> icmpd_main [sample_ienv] (icmpd_start 3 4 5) = ref_icmpd [sample_ienv] (icmpd_start 3 4 5)"
proof -
  have f: "fresh_turns [sample_ienv] (icmpd_start 3 4 5)"
    by (auto simp: fresh_accept_def sample_ienv_def icmpd_start_def split: outcome.splits)
  then show ?thesis using icmpd_serves_all [of 3 4 5 "[sample_ienv]"] by simp
qed

text \<open>
  A port outlives its client: the entry of a client that ends keeps family and port, and \<^verbatim>\<open>readable_listen\<close> does not clear them, so the next client that
  gets the entry receives the errors for the port of its predecessor before it has passed any socket of its own.
\<close>

theorem icmpd_stale_port:
  assumes "icmpd_inv st" and "i < ICMPD_CLIENTS" and "\<forall>j \<le> i. 0 \<le> connfd (client st ! j)"
    and "i_readfd ev i = Inr None" and "\<forall>fd. i_close ev fd = None" and "i_accept ev = [Inr c]" and "0 \<le> c"
  shows "\<exists>st1 st2. readable_conn ev i st = Ret () st1 \<and> readable_listen ev st1 = Ret () st2 \<and>
      c \<in> set (registered (family (client st ! i)) (lport (client st ! i)) st2)"
proof -
  have len: "length (client st) = ICMPD_CLIENTS" using assms(1) by (simp add: icmpd_inv_def)
  define st1 where "st1 = st\<lparr>allset := allset st - {connfd (client st ! i)}, client := (client st)[i := (client st ! i)\<lparr>connfd := -1\<rparr>]\<rparr>"
  have r1: "readable_conn ev i st = Ret () st1"
    using assms(4,5) by (simp add: readable_conn_def clientdone_def Close_fd_def bindP_def returnP_def Let_def st1_def)
  define cs where "cs = conns st1"
  have cs: "cs ! i = -1" "i < length cs" "\<forall>j < i. 0 \<le> cs ! j" using assms(2,3) len by (auto simp: cs_def st1_def)
  with first_free_spec [of cs] have ff: "first_free cs 0 = i" by (metis linorder_neqE_nat neg_0_le_iff_le not_one_le_zero order_less_le_trans not_less)
  define st2 where "st2 = st1\<lparr>client := (client st1)[i := (client st1 ! i)\<lparr>connfd := c\<rparr>], allset := insert c (allset st1),
      maxfd := (if c > maxfd st1 then c else maxfd st1), maxi := (if int i > maxi st1 then int i else maxi st1)\<rparr>"
  have r2: "readable_listen ev st1 = Ret () st2"
    using assms(2,6,7) ff by (simp add: readable_listen_def Let_def cs_def st2_def)
  have "client st2 ! i \<in> set (client st2)" using assms(2) len by (intro nth_mem) (simp add: st2_def st1_def)
  moreover have "connfd (client st2 ! i) = c" "family (client st2 ! i) = family (client st ! i)" "lport (client st2 ! i) = lport (client st ! i)"
    using assms(2) len by (simp_all add: st2_def st1_def)
  ultimately have "c \<in> set (registered (family (client st ! i)) (lport (client st ! i)) st2)"
    using assms(7) by (force simp: registered_def)
  with r1 r2 show ?thesis by blast
qed

theorem icmpd_stale_port_witness:
  "\<exists>st1 st2. readable_conn sample_ienv 0 sample_icmpd = Ret () st1 \<and> readable_listen sample_ienv st1 = Ret () st2 \<and> 8 \<in> set (registered AF_INET (uint (le16 0 7)) st2)"
  using icmpd_stale_port [OF sample_icmpd_inv, of 0 sample_ienv 8] by (simp add: sample_icmpd_client sample_ienv_def ICMPD_CLIENTS_def)

end
