(* ===== verification/Timeval.thy ===== *)
theory Timeval
  imports Prelude
begin

text \<open>
  \<^verbatim>\<open>struct timeval\<close>: the difference of two times (\<^verbatim>\<open>lib/tv_sub.c\<close>, of which \<^verbatim>\<open>ping\<close> and \<^verbatim>\<open>traceroute\<close> have a copy each), and the 16 bytes the structure occupies in memory, two 64-bit
  integers with the low byte first.
\<close>

section \<open>Time differences\<close>

record tval =
  tv_sec :: int
  tv_usec :: int

definition tv_sub :: "tval \<Rightarrow> tval \<Rightarrow> tval" where
  "tv_sub out inn =
     (let u = tv_usec out - tv_usec inn;
          o1 = (if u < 0 then \<lparr>tv_sec = tv_sec out - 1, tv_usec = u + 1000000\<rparr> else \<lparr>tv_sec = tv_sec out, tv_usec = u\<rparr>)
      in o1\<lparr>tv_sec := tv_sec o1 - tv_sec inn\<rparr>)"

definition micros :: "tval \<Rightarrow> int" where
  "micros t = 1000000 * tv_sec t + tv_usec t"

definition tv_wf :: "tval \<Rightarrow> bool" where
  "tv_wf t \<longleftrightarrow> 0 \<le> tv_usec t \<and> tv_usec t < 1000000"

lemma tv_sub_micros: "micros (tv_sub a b) = micros a - micros b"
  by (simp add: tv_sub_def micros_def Let_def)

lemma tv_sub_wf: "tv_wf a \<Longrightarrow> tv_wf b \<Longrightarrow> tv_wf (tv_sub a b)"
  by (auto simp: tv_sub_def tv_wf_def Let_def)

section \<open>In memory\<close>

definition long_bytes :: "int \<Rightarrow> byte list" where
  "long_bytes i = map (\<lambda>k. ucast (drop_bit (8 * k) (word_of_int i :: 64 word))) [0..<8]"

definition long_at :: "byte list \<Rightarrow> nat \<Rightarrow> int" where
  "long_at buf k = sint (word_rcat (rev (take 8 (drop k buf))) :: 64 word)"

definition tv_bytes :: "tval \<Rightarrow> byte list" where
  "tv_bytes t = long_bytes (tv_sec t) @ long_bytes (tv_usec t)"

definition tv_at :: "byte list \<Rightarrow> nat \<Rightarrow> tval" where
  "tv_at buf k = \<lparr>tv_sec = long_at buf k, tv_usec = long_at buf (k + 8)\<rparr>"

definition fits_long :: "int \<Rightarrow> bool" where
  "fits_long i \<longleftrightarrow> - (2 ^ 63) \<le> i \<and> i < 2 ^ 63"

lemma length_long_bytes [simp]: "length (long_bytes i) = 8" "length (tv_bytes t) = 16"
  by (simp_all add: long_bytes_def tv_bytes_def)

lemma long_bytes_inverse:
  assumes "fits_long i"
  shows "sint (word_rcat (rev (long_bytes i)) :: 64 word) = i"
proof -
  have "word_rcat (rev (long_bytes i)) = (word_of_int i :: 64 word)"
  proof (rule bit_word_eqI)
    fix n assume "n < LENGTH(64)"
    then have n: "n < 64" by simp
    then have d: "n div 8 < 8" and m: "8 * (n div 8) + n mod 8 = n" by auto
    have h: "horner_sum uint (2 ^ 8) (long_bytes i) = horner_sum uint (2 ^ LENGTH(8)) (long_bytes i)" by simp
    have "bit (horner_sum uint (2 ^ LENGTH(8)) (long_bytes i)) n \<longleftrightarrow> bit (long_bytes i ! (n div 8)) (n mod 8)"
      using d by (subst bit_horner_sum_uint_exp_iff) simp
    also have "\<dots> \<longleftrightarrow> bit (word_of_int i :: 64 word) n"
      using d m n by (simp add: long_bytes_def bit_simps)
    finally show "bit (word_rcat (rev (long_bytes i)) :: 64 word) n \<longleftrightarrow> bit (word_of_int i :: 64 word) n"
      using n by (simp add: word_rcat_def bit_simps)
  qed
  then show ?thesis using assms by (simp add: fits_long_def signed_of_int signed_take_bit_int_eq_self)
qed

text \<open>A structure that was stored is read back.\<close>

lemma tv_at_bytes:
  assumes "take 16 (drop k buf) = tv_bytes t" and "fits_long (tv_sec t)" and "fits_long (tv_usec t)"
  shows "tv_at buf k = t"
proof -
  have "take 8 (drop k buf) = take 8 (take 16 (drop k buf))" by simp
  also have "\<dots> = long_bytes (tv_sec t)" unfolding assms(1) tv_bytes_def by simp
  finally have s: "take 8 (drop k buf) = long_bytes (tv_sec t)" .
  have "take 8 (drop (k + 8) buf) = drop 8 (take 16 (drop k buf))" by (simp add: drop_take add.commute)
  also have "\<dots> = long_bytes (tv_usec t)" unfolding assms(1) tv_bytes_def by simp
  finally have u: "take 8 (drop (k + 8) buf) = long_bytes (tv_usec t)" .
  show ?thesis unfolding tv_at_def long_at_def s u using long_bytes_inverse [OF assms(2)] long_bytes_inverse [OF assms(3)] by simp
qed

end
