(* ===== verification/Traceroute.thy ===== *)
theory Traceroute
  imports Icmp_Headers Timeval
begin

text \<open>
  The route tracer of \<^verbatim>\<open>traceroute/\<close>: UDP probes with increasing time to live are sent to ports that nobody listens on, and the ICMP messages they provoke are read from a raw
  socket. \<^verbatim>\<open>recv_v4\<close> and \<^verbatim>\<open>recv_v6\<close> wait for the answer to one probe, \<^verbatim>\<open>traceloop\<close> sends the probes. What arrives while a probe is
  waited for is a list of events; what is printed is a list of items.
\<close>

section \<open>Waiting for an answer\<close>

definition BUFSIZE :: nat where "BUFSIZE = 1500"

record trrecv =
  recvbuf :: "byte list"
  sarecv :: sockaddr
  gotalarm :: bool

record trconf =
  sport :: "16 word"
  dport :: "16 word"
  nprobes :: int
  max_ttl :: int

text \<open>The next thing that happens in \<^verbatim>\<open>recvfrom\<close>: the alarm (whose handler sets \<^verbatim>\<open>gotalarm\<close>), another signal, an error, or a packet from an address.\<close>

datatype rxevent = Rx_alarm | Rx_signal | Rx_fail errno | Rx_packet "byte list" sockaddr

definition sig_alrm :: "trrecv \<Rightarrow> trrecv" where
  "sig_alrm st = st\<lparr>gotalarm := True\<rparr>"

text \<open>
  What the body of the loop decides about a packet: read on, or leave the loop with the value of \<^verbatim>\<open>ret\<close>, which is \<open>None\<close> when nothing was assigned to it.
\<close>

datatype verdict = Read_on | Leave "int option"

definition our_probe :: "trconf \<Rightarrow> int \<Rightarrow> byte list \<Rightarrow> nat \<Rightarrow> bool" where
  "our_probe cf sq buf udp \<longleftrightarrow> uh_sport buf udp = ntohs (sport cf) \<and> uh_dport buf udp = ntohs (dport cf + of_int sq)"

definition judge_v4 :: "trconf \<Rightarrow> int \<Rightarrow> byte list \<Rightarrow> nat \<Rightarrow> verdict" where
  "judge_v4 cf sq buf n =
     (let hlen1 = ip_hlen buf 0; icmplen = int n - int hlen1
      in if icmplen < 8 then Read_on
         else if icmp_type buf hlen1 = ICMP_TIMXCEED \<and> icmp_code buf hlen1 = ICMP_TIMXCEED_INTRANS
         then if icmplen < 8 + 20 then Read_on
              else let hip = hlen1 + 8; hlen2 = ip_hlen buf hip
                   in if icmplen < 8 + int hlen2 + 4 then Read_on
                      else if ip_p buf hip = IPPROTO_UDP \<and> our_probe cf sq buf (hip + hlen2) then Leave (Some (-2)) else Read_on
         else if icmp_type buf hlen1 = ICMP_UNREACH
         then if icmplen < 8 + 20 then Read_on
              else let hip = hlen1 + 8; hlen2 = ip_hlen buf hip
                   in if icmplen < 8 + int hlen2 + 4 then Read_on
                      else if ip_p buf hip = IPPROTO_UDP \<and> our_probe cf sq buf (hip + hlen2)
                      then Leave (Some (if icmp_code buf hlen1 = ICMP_UNREACH_PORT then -1 else int (icmp_code buf hlen1)))
                      else Read_on
         else Read_on)"

text \<open>In \<^verbatim>\<open>recv_v6\<close> the \<^verbatim>\<open>break\<close> after the first comparison of ports is not part of the \<^verbatim>\<open>if\<close>.\<close>

definition judge_v6 :: "trconf \<Rightarrow> int \<Rightarrow> byte list \<Rightarrow> nat \<Rightarrow> verdict" where
  "judge_v6 cf sq buf n =
     (if n < 8 then Read_on
      else if icmp_type buf 0 = ICMP6_TIME_EXCEEDED \<and> icmp_code buf 0 = ICMP6_TIME_EXCEED_TRANSIT
      then if n < 8 + 40 + 4 then Read_on
           else Leave (if ip6_nxt buf 8 = IPPROTO_UDP \<and> our_probe cf sq buf 48 then Some (-2) else None)
      else if icmp_type buf 0 = ICMP6_DST_UNREACH
      then if n < 8 + 40 + 4 then Read_on
           else if ip6_nxt buf 8 = IPPROTO_UDP \<and> our_probe cf sq buf 48
           then Leave (Some (if icmp_code buf 0 = ICMP6_DST_UNREACH_NOPORT then -1 else int (icmp_code buf 0)))
           else Read_on
      else Read_on)"

text \<open>The loop of both functions; the first test of \<^verbatim>\<open>gotalarm\<close> finds it cleared.\<close>

fun recv_loop :: "(byte list \<Rightarrow> nat \<Rightarrow> verdict) \<Rightarrow> rxevent list \<Rightarrow> (int option, trrecv) prog" where
  "recv_loop judge [] st = (if gotalarm st then Ret (Some (-3)) st else Blocked st)"
| "recv_loop judge (Rx_alarm # es) st = (if gotalarm st then Ret (Some (-3)) st else recv_loop judge es (sig_alrm st))"
| "recv_loop judge (Rx_signal # es) st = (if gotalarm st then Ret (Some (-3)) st else recv_loop judge es st)"
| "recv_loop judge (Rx_fail e # es) st =
     (if gotalarm st then Ret (Some (-3)) st
      else if e = EINTR then recv_loop judge es st else Die (Err_sys ''recvfrom error'' (Some e)) st)"
| "recv_loop judge (Rx_packet pkt sa # es) st =
     (if gotalarm st then Ret (Some (-3)) st
      else let r = recv_into (recvbuf st) pkt; st' = st\<lparr>recvbuf := fst r, sarecv := sa\<rparr>
           in case judge (fst r) (snd r) of Read_on \<Rightarrow> recv_loop judge es st' | Leave ret \<Rightarrow> Ret ret st')"

definition recv_v4 :: "trconf \<Rightarrow> int \<Rightarrow> rxevent list \<Rightarrow> (int option, trrecv) prog" where
  "recv_v4 cf sq es st = recv_loop (judge_v4 cf sq) es (st\<lparr>gotalarm := False\<rparr>)"

definition recv_v6 :: "trconf \<Rightarrow> int \<Rightarrow> rxevent list \<Rightarrow> (int option, trrecv) prog" where
  "recv_v6 cf sq es st = recv_loop (judge_v6 cf sq) es (st\<lparr>gotalarm := False\<rparr>)"

section \<open>The main loop\<close>

definition icmpcode_v4 :: "int \<Rightarrow> string" where
  "icmpcode_v4 code =
     (let texts = [''network unreachable'', ''host unreachable'', ''protocol unreachable'', ''port unreachable'',
        ''fragmentation required but DF bit set'', ''source route failed'', ''destination network unknown'', ''destination host unknown'',
        ''source host isolated (obsolete)'', ''destination network administratively prohibited'',
        ''destination host administratively prohibited'', ''network unreachable for TOS'', ''host unreachable for TOS'',
        ''communication administratively prohibited by filtering'', ''host recedence violation'', ''precedence cutoff in effect'']
      in if 0 \<le> code \<and> code \<le> 15 then texts ! nat code else ''[unknown code '' @ dec_int code @ '']'')"

definition icmpcode_v6 :: "int \<Rightarrow> string" where
  "icmpcode_v6 code =
     (if code = 0 then ''no route to host''
      else if code = 1 then ''administratively prohibited''
      else if code = 2 then ''not a neighbor''
      else if code = 3 then ''address unreachable''
      else if code = 4 then ''port unreachable''
      else ''[unknown code '' @ dec_int code @ '']'')"

text \<open>The protocol-dependent part, \<^verbatim>\<open>struct proto\<close>.\<close>

record proto =
  icmpcode :: "int \<Rightarrow> string"
  recv :: "trconf \<Rightarrow> int \<Rightarrow> rxevent list \<Rightarrow> (int option, trrecv) prog"

definition proto_v4 :: proto where
  "proto_v4 = \<lparr>icmpcode = icmpcode_v4, recv = recv_v4\<rparr>"

definition proto_v6 :: proto where
  "proto_v6 = \<lparr>icmpcode = icmpcode_v6, recv = recv_v6\<rparr>"

datatype item = Hop int | Star | From sockaddr | Took tval | Code string | Newline

record trst =
  tr :: trrecv
  seqno :: int
  reached :: int
  salast :: "sockaddr option"
  probes :: "(int \<times> int \<times> 16 word) list"
  printed :: "item list"

text \<open>For a time to live: the result of \<^verbatim>\<open>Setsockopt\<close>. For the probe with a given number: the result of \<^verbatim>\<open>Sendto\<close>, what arrives, and the two times.\<close>

record trenv =
  e_setttl :: "int \<Rightarrow> errno option"
  e_sendto :: "int \<Rightarrow> errno option"
  e_events :: "int \<Rightarrow> rxevent list"
  e_sent :: "int \<Rightarrow> tval"
  e_arrived :: "int \<Rightarrow> tval"

text \<open>\<^verbatim>\<open>sock_cmp_addr(pr->sarecv, pr->salast, pr->salen) != 0\<close>; at first \<^verbatim>\<open>salast\<close> is all zero.\<close>

definition new_router :: "sockaddr \<Rightarrow> sockaddr option \<Rightarrow> bool" where
  "new_router sa prev = (case prev of None \<Rightarrow> True | Some l \<Rightarrow> sock_cmp_addr sa l \<noteq> 0)"

definition show_reply :: "proto \<Rightarrow> trenv \<Rightarrow> int option \<Rightarrow> trst \<Rightarrow> trst" where
  "show_reply pr env code s =
     (if code = Some (-3) then s\<lparr>printed := printed s @ [Star]\<rparr>
      else let s1 = (if new_router (sarecv (tr s)) (salast s)
                     then s\<lparr>printed := printed s @ [From (sarecv (tr s))], salast := Some (sarecv (tr s))\<rparr> else s);
               s2 = s1\<lparr>printed := printed s1 @ [Took (tv_sub (e_arrived env (seqno s)) (e_sent env (seqno s)))]\<rparr>
           in if code = Some (-1) then s2\<lparr>reached := reached s2 + 1\<rparr>
              else case code of Some c \<Rightarrow> if 0 \<le> c then s2\<lparr>printed := printed s2 @ [Code (icmpcode pr c)]\<rparr> else s2 | None \<Rightarrow> s2)"

definition send_probe :: "proto \<Rightarrow> trconf \<Rightarrow> trenv \<Rightarrow> int \<Rightarrow> (unit, trst) prog" where
  "send_probe pr cf env ttl s =
     (let sq = seqno s + 1; s1 = s\<lparr>seqno := sq\<rparr>
      in case e_sendto env sq of
           Some e \<Rightarrow> Die (Err_sys ''sendto error'' (Some e)) s1
         | None \<Rightarrow>
             let s2 = s1\<lparr>probes := probes s1 @ [(sq, ttl, dport cf + of_int sq)]\<rparr>
             in case recv pr cf sq (e_events env sq) (tr s2) of
                  Ret code t \<Rightarrow> Ret () (show_reply pr env code (s2\<lparr>tr := t\<rparr>))
                | Die f t \<Rightarrow> Die f (s2\<lparr>tr := t\<rparr>)
                | Blocked t \<Rightarrow> Blocked (s2\<lparr>tr := t\<rparr>))"

fun probe_loop :: "proto \<Rightarrow> trconf \<Rightarrow> trenv \<Rightarrow> int \<Rightarrow> nat \<Rightarrow> (unit, trst) prog" where
  "probe_loop pr cf env ttl 0 s = Ret () s"
| "probe_loop pr cf env ttl (Suc k) s = bindP (send_probe pr cf env ttl) (\<lambda>_ s'. probe_loop pr cf env ttl k s') s"

function ttl_loop :: "proto \<Rightarrow> trconf \<Rightarrow> trenv \<Rightarrow> int \<Rightarrow> (unit, trst) prog" where
  "ttl_loop pr cf env ttl s =
     (if ttl \<le> max_ttl cf \<and> reached s = 0
      then bindP (\<lambda>s. case e_setttl env ttl of
                           Some e \<Rightarrow> Die (Err_sys ''setsockopt error'' (Some e)) s
                         | None \<Rightarrow> probe_loop pr cf env ttl (nat (nprobes cf)) (s\<lparr>salast := None, printed := printed s @ [Hop ttl]\<rparr>))
             (\<lambda>_ s'. ttl_loop pr cf env (ttl + 1) (s'\<lparr>printed := printed s' @ [Newline]\<rparr>)) s
      else Ret () s)"
  by auto
termination
  by (relation "measure (\<lambda>(pr, cf, env, ttl, s). nat (max_ttl cf + 1 - ttl))") auto

declare ttl_loop.simps [simp del]

definition traceloop :: "proto \<Rightarrow> trconf \<Rightarrow> trenv \<Rightarrow> trrecv \<Rightarrow> (unit, trst) outcome" where
  "traceloop pr cf env t =
     ttl_loop pr cf env 1 \<lparr>tr = sig_alrm t, seqno = 0, reached = 0, salast = None, probes = [], printed = []\<rparr>"

section \<open>Only the packet counts\<close>

lemma recv_into_take: "length old = length old' \<Longrightarrow> recv_into old pkt = (buf, n) \<Longrightarrow> recv_into old' pkt = (buf', n') \<Longrightarrow> n' = n \<and> (\<forall>k < n. buf' ! k = buf ! k)"
  using recv_into_length [of old pkt buf n] recv_into_length [of old' pkt buf' n'] by (auto simp: recv_into_nth)

lemma judge_v4_local:
  assumes "\<forall>k < n. buf' ! k = buf ! k"
  shows "judge_v4 cf sq buf' n = judge_v4 cf sq buf n"
proof (cases "n = 0")
  case True
  then show ?thesis by (simp add: judge_v4_def Let_def)
next
  case False
  then have h: "ip_hlen buf' 0 = ip_hlen buf 0" using assms by (simp add: ip_hlen_def oct_def)
  define hl where "hl = ip_hlen buf 0"
  show ?thesis
  proof (cases "int n - int hl < 8")
    case True
    then show ?thesis using h by (simp add: judge_v4_def Let_def hl_def)
  next
    case short: False
    then have t: "icmp_type buf' hl = icmp_type buf hl" "icmp_code buf' hl = icmp_code buf hl" using assms by (simp_all add: icmp_type_def icmp_code_def oct_def)
    show ?thesis
    proof (cases "int n - int hl < 28")
      case True
      then show ?thesis using h t short by (simp add: judge_v4_def Let_def hl_def)
    next
      case False
      then have h2: "ip_hlen buf' (hl + 8) = ip_hlen buf (hl + 8)" "ip_p buf' (hl + 8) = ip_p buf (hl + 8)"
        using assms by (simp_all add: ip_hlen_def ip_p_def oct_def)
      define h2l where "h2l = ip_hlen buf (hl + 8)"
      have "our_probe cf sq buf' (hl + 8 + h2l) = our_probe cf sq buf (hl + 8 + h2l)" if "\<not> int n - int hl < 8 + int h2l + 4"
        using that assms by (simp add: our_probe_def uh_sport_def uh_dport_def)
      then show ?thesis using h t h2 short False unfolding judge_v4_def Let_def hl_def [symmetric] by (auto simp: hl_def h2l_def)
    qed
  qed
qed

lemma judge_v6_local:
  assumes "\<forall>k < n. buf' ! k = buf ! k"
  shows "judge_v6 cf sq buf' n = judge_v6 cf sq buf n"
proof (cases "n < 8")
  case False
  then have t: "icmp_type buf' 0 = icmp_type buf 0" "icmp_code buf' 0 = icmp_code buf 0" using assms by (simp_all add: icmp_type_def icmp_code_def oct_def)
  show ?thesis
  proof (cases "n < 52")
    case True
    with t show ?thesis by (simp add: judge_v6_def)
  next
    case big: False
    then have "ip6_nxt buf' 8 = ip6_nxt buf 8" "our_probe cf sq buf' 48 = our_probe cf sq buf 48"
      using assms by (simp_all add: ip6_nxt_def oct_def our_probe_def uh_sport_def uh_dport_def)
    with t show ?thesis by (simp add: judge_v6_def)
  qed
qed (simp add: judge_v6_def)

text \<open>The verdict on a packet by itself.\<close>

definition verdict_of :: "(byte list \<Rightarrow> nat \<Rightarrow> verdict) \<Rightarrow> byte list \<Rightarrow> verdict" where
  "verdict_of judge pkt = (let r = recv_into (replicate BUFSIZE 0) pkt in judge (fst r) (snd r))"

text \<open>What the first of the events that settles the matter says: the alarm, or a packet on which the loop is left.\<close>

fun settled :: "(byte list \<Rightarrow> nat \<Rightarrow> verdict) \<Rightarrow> rxevent list \<Rightarrow> int option option" where
  "settled judge [] = None"
| "settled judge (Rx_alarm # es) = Some (Some (-3))"
| "settled judge (Rx_signal # es) = settled judge es"
| "settled judge (Rx_fail e # es) = (if e = EINTR then settled judge es else None)"
| "settled judge (Rx_packet pkt sa # es) = (case verdict_of judge pkt of Read_on \<Rightarrow> settled judge es | Leave ret \<Rightarrow> Some ret)"

locale local_judge =
  fixes judge :: "byte list \<Rightarrow> nat \<Rightarrow> verdict"
  assumes local: "\<forall>k < n. buf' ! k = buf ! k \<Longrightarrow> judge buf' n = judge buf n"
begin

lemma verdict: "length old = BUFSIZE \<Longrightarrow> judge (fst (recv_into old pkt)) (snd (recv_into old pkt)) = verdict_of judge pkt"
  using recv_into_take [of old "replicate BUFSIZE 0" pkt] local unfolding verdict_of_def Let_def
  by (metis length_replicate prod.collapse)

lemma alarmed: "gotalarm st \<Longrightarrow> recv_loop judge es st = Ret (Some (-3)) st"
  by (induction judge es st rule: recv_loop.induct) auto

lemma recv_settled:
  "length (recvbuf st) = BUFSIZE \<Longrightarrow> \<not> gotalarm st \<Longrightarrow> (\<exists>st'. recv_loop judge es st = Ret r st') \<longleftrightarrow> settled judge es = Some r"
proof (induction es arbitrary: st)
  case (Cons e es)
  show ?case
  proof (cases e)
    case Rx_alarm
    with Cons.prems show ?thesis using alarmed [of "sig_alrm st" es] by (auto simp: sig_alrm_def)
  next
    case (Rx_packet pkt sa)
    let ?st = "st\<lparr>recvbuf := fst (recv_into (recvbuf st) pkt), sarecv := sa\<rparr>"
    have "length (recvbuf ?st) = BUFSIZE" using Cons.prems recv_into_length [of "recvbuf st" pkt] by (cases "recv_into (recvbuf st) pkt") auto
    with Cons verdict [OF Cons.prems(1), of pkt] Rx_packet show ?thesis by (cases "verdict_of judge pkt") (auto simp: Let_def)
  qed (use Cons in auto)
qed simp

end

interpretation j4: local_judge "judge_v4 cf sq" for cf sq
  by unfold_locales (rule judge_v4_local)

interpretation j6: local_judge "judge_v6 cf sq" for cf sq
  by unfold_locales (rule judge_v6_local)

lemma icmp_code_less: "icmp_code buf off < 256"
  using unsigned_less [of "buf ! (off + 1)", where 'a = nat] by (simp add: icmp_code_def oct_def)

lemma judge_v4_range: "judge_v4 cf sq buf n = Leave r \<Longrightarrow> r = Some (-2) \<or> r = Some (-1) \<or> (\<exists>c. r = Some (int c) \<and> c < 256 \<and> c \<noteq> ICMP_UNREACH_PORT)"
  using icmp_code_less [of buf "ip_hlen buf 0"] by (auto simp: judge_v4_def Let_def split: if_splits)

lemma settled_v4_range:
  "settled (judge_v4 cf sq) es = Some r \<Longrightarrow> r = Some (-3) \<or> r = Some (-2) \<or> r = Some (-1) \<or> (\<exists>c. r = Some (int c) \<and> c < 256 \<and> c \<noteq> ICMP_UNREACH_PORT)"
  by (induction "judge_v4 cf sq" es rule: settled.induct) (auto simp: verdict_of_def Let_def split: if_splits verdict.splits dest: judge_v4_range)

text \<open>An ICMP packet that answers a probe: an error message about a UDP datagram with the ports of the probe, complete up to the ports.\<close>

definition answers_v4 :: "trconf \<Rightarrow> int \<Rightarrow> byte list \<Rightarrow> bool" where
  "answers_v4 cf sq pkt \<longleftrightarrow>
     (let h1 = ip_hlen pkt 0; hip = h1 + 8; udp = hip + ip_hlen pkt hip
      in hip + 20 \<le> length pkt \<and> udp + 4 \<le> length pkt \<and>
         (icmp_type pkt h1 = ICMP_TIMXCEED \<and> icmp_code pkt h1 = ICMP_TIMXCEED_INTRANS \<or> icmp_type pkt h1 = ICMP_UNREACH) \<and>
         ip_p pkt hip = IPPROTO_UDP \<and> our_probe cf sq pkt udp)"

lemma verdict_v4:
  assumes "length pkt \<le> BUFSIZE"
  shows "verdict_of (judge_v4 cf sq) pkt =
    (if answers_v4 cf sq pkt
     then Leave (Some (if icmp_type pkt (ip_hlen pkt 0) = ICMP_TIMXCEED then -2
                       else if icmp_code pkt (ip_hlen pkt 0) = ICMP_UNREACH_PORT then -1 else int (icmp_code pkt (ip_hlen pkt 0))))
     else Read_on)"
proof -
  obtain buf n where b: "recv_into (replicate BUFSIZE 0) pkt = (buf, n)" by fastforce
  then have n: "n = length pkt" and k: "\<forall>k < n. pkt ! k = buf ! k" using assms recv_into_length [OF b] recv_into_nth [OF b] by auto
  have "verdict_of (judge_v4 cf sq) pkt = judge_v4 cf sq buf n" by (simp add: verdict_of_def b)
  also have "\<dots> = judge_v4 cf sq pkt (length pkt)" using judge_v4_local [OF k] n by simp
  finally show ?thesis by (auto simp: judge_v4_def answers_v4_def Let_def icmp_numbers split: if_splits)
qed

text \<open>
  \<^verbatim>\<open>recv_v4\<close> gives the first answer. It returns exactly when the alarm goes off or a packet is an error message about the probe (a UDP datagram with its ports), and
  then with -3 for the alarm, -2 for time exceeded, -1 for port unreachable and otherwise the code of the message; packets that are too short, of another type or about
  another datagram are skipped, and what earlier packets left in the buffer never matters.
\<close>

theorem recv_v4_first_answer:
  assumes "length (recvbuf st) = BUFSIZE"
  shows "(\<forall>r. (\<exists>st'. recv_v4 cf sq es st = Ret r st') \<longleftrightarrow> settled (judge_v4 cf sq) es = Some r) \<and>
    (\<forall>r st'. recv_v4 cf sq es st = Ret r st' \<longrightarrow> r = Some (-3) \<or> r = Some (-2) \<or> r = Some (-1) \<or> (\<exists>c. r = Some (int c) \<and> c < 256 \<and> c \<noteq> ICMP_UNREACH_PORT)) \<and>
    (\<forall>pkt sa es. length pkt \<le> BUFSIZE \<longrightarrow> settled (judge_v4 cf sq) (Rx_packet pkt sa # es) =
      (if answers_v4 cf sq pkt
       then Some (Some (if icmp_type pkt (ip_hlen pkt 0) = ICMP_TIMXCEED then -2
                        else if icmp_code pkt (ip_hlen pkt 0) = ICMP_UNREACH_PORT then -1 else int (icmp_code pkt (ip_hlen pkt 0))))
       else settled (judge_v4 cf sq) es))"
proof (intro conjI allI impI)
  have e: "(\<exists>st'. recv_v4 cf sq es st = Ret r st') \<longleftrightarrow> settled (judge_v4 cf sq) es = Some r" for r
    unfolding recv_v4_def using assms by (intro j4.recv_settled) simp_all
  then show "(\<exists>st'. recv_v4 cf sq es st = Ret r st') \<longleftrightarrow> settled (judge_v4 cf sq) es = Some r" for r .
  show "recv_v4 cf sq es st = Ret r st' \<Longrightarrow> r = Some (-3) \<or> r = Some (-2) \<or> r = Some (-1) \<or> (\<exists>c. r = Some (int c) \<and> c < 256 \<and> c \<noteq> ICMP_UNREACH_PORT)"
    for r st' using e [of r] settled_v4_range [of cf sq es r] by blast
  show "length pkt \<le> BUFSIZE \<Longrightarrow> settled (judge_v4 cf sq) (Rx_packet pkt sa # es) =
      (if answers_v4 cf sq pkt
       then Some (Some (if icmp_type pkt (ip_hlen pkt 0) = ICMP_TIMXCEED then -2
                        else if icmp_code pkt (ip_hlen pkt 0) = ICMP_UNREACH_PORT then -1 else int (icmp_code pkt (ip_hlen pkt 0))))
       else settled (judge_v4 cf sq) es)"
    for pkt sa es by (simp add: verdict_v4)
qed

definition sample_conf :: trconf where
  "sample_conf = \<lparr>sport = 0x8001, dport = 33434, nprobes = 3, max_ttl = 30\<rparr>"

text \<open>Port unreachable for the probe with number 1.\<close>

definition unreachable_packet :: "byte list" where
  "unreachable_packet = [0x45] @ replicate 19 0 @ [3, 3, 0, 0, 0, 0, 0, 0] @ [0x45] @ replicate 8 0 @ [17] @ replicate 10 0 @ [0x80, 0x01, 0x82, 0x9b]"

definition sample_trace :: trrecv where
  "sample_trace = \<lparr>recvbuf = replicate BUFSIZE 0, sarecv = Sockaddr_other 0, gotalarm = True\<rparr>"

theorem recv_v4_first_answer_witness:
  "\<exists>st'. recv_v4 sample_conf 1 [Rx_signal, Rx_packet [1, 2] (Sockaddr_other 0), Rx_packet unreachable_packet (Sockaddr_other 0), Rx_alarm] sample_trace = Ret (Some (-1)) st'"
proof -
  have "answers_v4 sample_conf 1 unreachable_packet" "\<not> answers_v4 sample_conf 1 [1, 2]" "icmp_type unreachable_packet (ip_hlen unreachable_packet 0) = 3"
    "icmp_code unreachable_packet (ip_hlen unreachable_packet 0) = 3" "length unreachable_packet = 52" by code_simp+
  then have "settled (judge_v4 sample_conf 1) [Rx_packet unreachable_packet sa, Rx_alarm] = Some (Some (-1))"
    "settled (judge_v4 sample_conf 1) (Rx_packet [1, 2] sa # es) = settled (judge_v4 sample_conf 1) es" for sa es
    using recv_v4_first_answer [of sample_trace sample_conf 1 "[]"]
    by (simp_all add: sample_trace_def BUFSIZE_def icmp_numbers)
  then show ?thesis using recv_v4_first_answer [of sample_trace sample_conf 1] by (simp add: sample_trace_def)
qed

text \<open>
  In \<^verbatim>\<open>recv_v6\<close> every complete time exceeded message ends the wait, also one about somebody else's datagram, and then the function
  returns a variable that was never assigned (\<open>None\<close>).
\<close>

theorem recv_v6_unassigned:
  assumes "length pkt \<le> BUFSIZE" and "52 \<le> length pkt" and "icmp_type pkt 0 = ICMP6_TIME_EXCEEDED" and "icmp_code pkt 0 = ICMP6_TIME_EXCEED_TRANSIT"
    and "\<not> our_probe cf sq pkt 48" and "length (recvbuf st) = BUFSIZE"
  shows "\<exists>st'. recv_v6 cf sq (Rx_packet pkt sa # es) st = Ret None st'"
proof -
  obtain buf n where b: "recv_into (replicate BUFSIZE 0) pkt = (buf, n)" by fastforce
  then have n: "n = length pkt" and k: "\<forall>k < n. pkt ! k = buf ! k" using assms(1) recv_into_length [OF b] recv_into_nth [OF b] by auto
  have "verdict_of (judge_v6 cf sq) pkt = judge_v6 cf sq pkt (length pkt)" using judge_v6_local [OF k] n by (simp add: verdict_of_def b)
  also have "\<dots> = Leave None" using assms by (simp add: judge_v6_def)
  finally have "settled (judge_v6 cf sq) (Rx_packet pkt sa # es) = Some None" by simp
  then show ?thesis unfolding recv_v6_def using assms(6) by (subst j6.recv_settled) simp_all
qed

definition foreign_packet :: "byte list" where
  "foreign_packet = [3] @ replicate 51 0"

theorem recv_v6_unassigned_witness:
  "\<exists>st'. recv_v6 sample_conf 1 [Rx_packet foreign_packet (Sockaddr_other 0)] sample_trace = Ret None st'"
proof (rule recv_v6_unassigned)
  show "length foreign_packet \<le> BUFSIZE" "52 \<le> length foreign_packet" "icmp_type foreign_packet 0 = ICMP6_TIME_EXCEEDED" "icmp_code foreign_packet 0 = ICMP6_TIME_EXCEED_TRANSIT"
    "\<not> our_probe sample_conf 1 foreign_packet 48" by code_simp+
qed (simp add: sample_trace_def)

section \<open>The probes\<close>

text \<open>The probes of one hop and of \<open>h\<close> hops: consecutive numbers, and ports counted up from \<^verbatim>\<open>dport + 1\<close>.\<close>

definition hop_probes :: "trconf \<Rightarrow> int \<Rightarrow> int \<Rightarrow> nat \<Rightarrow> (int \<times> int \<times> 16 word) list" where
  "hop_probes cf ttl sq k = map (\<lambda>j. (sq + 1 + int j, ttl, dport cf + of_int (sq + 1 + int j))) [0..<k]"

fun all_probes :: "trconf \<Rightarrow> nat \<Rightarrow> int \<Rightarrow> int \<Rightarrow> nat \<Rightarrow> (int \<times> int \<times> 16 word) list" where
  "all_probes cf k ttl sq 0 = []"
| "all_probes cf k ttl sq (Suc h) = hop_probes cf ttl sq k @ all_probes cf k (ttl + 1) (sq + int k) h"

lemma hop_probes_Suc: "hop_probes cf ttl sq (Suc k) = (sq + 1, ttl, dport cf + of_int (sq + 1)) # hop_probes cf ttl (sq + 1) k"
proof -
  have "[0..<Suc k] = 0 # map Suc [0..<k]" unfolding map_Suc_upt by (rule upt_conv_Cons) simp
  then show ?thesis by (simp add: hop_probes_def comp_def ac_simps del: upt_Suc)
qed

lemma show_reply_simps [simp]:
  "seqno (show_reply pr env code s) = seqno s" "probes (show_reply pr env code s) = probes s" "tr (show_reply pr env code s) = tr s"
  "reached (show_reply pr env code s) = (if code = Some (-1) then reached s + 1 else reached s)"
  by (auto simp: show_reply_def Let_def split: option.splits)

lemma send_probe_Ret:
  assumes "send_probe pr cf env ttl s = Ret u s'"
  shows "seqno s' = seqno s + 1" and "probes s' = probes s @ [(seqno s + 1, ttl, dport cf + of_int (seqno s + 1))]" and "reached s \<le> reached s'"
  using assms by (auto simp: send_probe_def Let_def split: option.splits outcome.splits)

lemma probe_loop_Ret:
  "probe_loop pr cf env ttl k s = Ret u s' \<Longrightarrow>
   seqno s' = seqno s + int k \<and> probes s' = probes s @ hop_probes cf ttl (seqno s) k \<and> reached s \<le> reached s'"
proof (induction k arbitrary: s)
  case 0
  then show ?case by (simp add: hop_probes_def)
next
  case (Suc k)
  then obtain v t where t: "send_probe pr cf env ttl s = Ret v t" "probe_loop pr cf env ttl k t = Ret u s'" by (auto elim!: bindP_RetE)
  with Suc.IH [OF t(2)] send_probe_Ret [OF t(1)] show ?case by (simp add: hop_probes_Suc)
qed

lemma ttl_loop_Ret:
  assumes "ttl_loop pr cf env ttl s = Ret u s'" and "0 \<le> reached s"
  shows "\<exists>h. probes s' = probes s @ all_probes cf (nat (nprobes cf)) ttl (seqno s) h \<and> int h \<le> max 0 (max_ttl cf + 1 - ttl) \<and>
      (int h < max_ttl cf + 1 - ttl \<longrightarrow> 0 < reached s')"
  using assms
proof (induction pr cf env ttl s arbitrary: u rule: ttl_loop.induct)
  case (1 pr cf env ttl s)
  let ?s = "s\<lparr>salast := None, printed := printed s @ [Hop ttl]\<rparr>"
  show ?case
  proof (cases "ttl \<le> max_ttl cf \<and> reached s = 0")
    case False
    then have "s' = s" using "1.prems" by (subst (asm) ttl_loop.simps) auto
    with False "1.prems"(2) show ?thesis by (intro exI [of _ 0]) auto
  next
    case True
    with "1.prems" obtain v t where "e_setttl env ttl = None" and t: "probe_loop pr cf env ttl (nat (nprobes cf)) ?s = Ret v t"
      "ttl_loop pr cf env (ttl + 1) (t\<lparr>printed := printed t @ [Newline]\<rparr>) = Ret u s'"
      by (subst (asm) ttl_loop.simps) (auto elim!: bindP_RetE split: option.splits)
    note p = probe_loop_Ret [OF t(1)]
    from "1.IH" [OF True _ t(2)] t(1) \<open>e_setttl env ttl = None\<close> p "1.prems"(2) obtain h where
      "probes s' = probes t @ all_probes cf (nat (nprobes cf)) (ttl + 1) (seqno t) h" "int h \<le> max 0 (max_ttl cf - ttl)"
      "int h < max_ttl cf - ttl \<longrightarrow> 0 < reached s'" by auto
    with p True show ?thesis by (intro exI [of _ "Suc h"]) auto
  qed
qed

text \<open>The wait for each probe ends when the alarm is among what happens and no call fails.\<close>

definition waits_end :: "trenv \<Rightarrow> bool" where
  "waits_end env \<longleftrightarrow> (\<forall>q. e_setttl env q = None \<and> e_sendto env q = None \<and> Rx_alarm \<in> set (e_events env q) \<and> (\<forall>e. Rx_fail e \<in> set (e_events env q) \<longrightarrow> e = EINTR))"

lemma settled_alarm: "Rx_alarm \<in> set es \<Longrightarrow> \<forall>e. Rx_fail e \<in> set es \<longrightarrow> e = EINTR \<Longrightarrow> settled judge es \<noteq> None"
  by (induction judge es rule: settled.induct) (auto split: verdict.splits)

lemma recv_loop_buf: "recv_loop judge es st = Ret r st' \<Longrightarrow> length (recvbuf st') = length (recvbuf st)"
proof (induction judge es st arbitrary: r rule: recv_loop.induct)
  case (5 judge pkt sa es st)
  have "length (fst (recv_into (recvbuf st) pkt)) = length (recvbuf st)"
    using recv_into_length [of "recvbuf st" pkt] by (cases "recv_into (recvbuf st) pkt") auto
  with 5 show ?case by (auto simp: Let_def split: if_splits verdict.splits)
qed (auto simp: sig_alrm_def split: if_splits)

context local_judge
begin

lemma recv_returns:
  assumes "length (recvbuf t) = BUFSIZE" and "\<not> gotalarm t" and "Rx_alarm \<in> set es" and "\<forall>e. Rx_fail e \<in> set es \<longrightarrow> e = EINTR"
  shows "\<exists>r t'. recv_loop judge es t = Ret r t' \<and> length (recvbuf t') = BUFSIZE"
proof -
  obtain r where "settled judge es = Some r" using settled_alarm [OF assms(3,4)] by blast
  then have "\<exists>t'. recv_loop judge es t = Ret r t'" using recv_settled [OF assms(1,2), of es r] by simp
  then show ?thesis using recv_loop_buf assms(1) by metis
qed

end

definition good_recv :: "proto \<Rightarrow> bool" where
  "good_recv pr \<longleftrightarrow> (\<forall>cf sq es t. length (recvbuf t) = BUFSIZE \<longrightarrow> Rx_alarm \<in> set es \<longrightarrow> (\<forall>e. Rx_fail e \<in> set es \<longrightarrow> e = EINTR) \<longrightarrow>
     (\<exists>r t'. recv pr cf sq es t = Ret r t' \<and> length (recvbuf t') = BUFSIZE))"

lemma good_recv_protos: "good_recv proto_v4" "good_recv proto_v6"
  by (auto simp: good_recv_def proto_v4_def proto_v6_def recv_v4_def recv_v6_def intro!: j4.recv_returns j6.recv_returns)

lemma send_probe_returns:
  assumes "good_recv pr" and "waits_end env" and "length (recvbuf (tr s)) = BUFSIZE"
  shows "\<exists>s'. send_probe pr cf env ttl s = Ret () s' \<and> length (recvbuf (tr s')) = BUFSIZE"
proof -
  obtain r t' where "recv pr cf (seqno s + 1) (e_events env (seqno s + 1)) (tr s) = Ret r t'" "length (recvbuf t') = BUFSIZE"
    using assms unfolding good_recv_def waits_end_def by blast
  then show ?thesis using assms(2) by (auto simp: send_probe_def Let_def waits_end_def)
qed

lemma probe_loop_returns:
  assumes "good_recv pr" and "waits_end env"
  shows "length (recvbuf (tr s)) = BUFSIZE \<Longrightarrow> \<exists>s'. probe_loop pr cf env ttl k s = Ret () s' \<and> length (recvbuf (tr s')) = BUFSIZE"
proof (induction k arbitrary: s)
  case (Suc k)
  from send_probe_returns [OF assms Suc.prems, of cf ttl] obtain t where "send_probe pr cf env ttl s = Ret () t" "length (recvbuf (tr t)) = BUFSIZE" by blast
  with Suc.IH [of t] show ?case by auto
qed simp

lemma ttl_loop_returns:
  assumes "good_recv pr" and "waits_end env"
  shows "length (recvbuf (tr s)) = BUFSIZE \<Longrightarrow> \<exists>s'. ttl_loop pr cf env ttl s = Ret () s'"
  using assms
proof (induction pr cf env ttl s rule: ttl_loop.induct)
  case (1 pr cf env ttl s)
  let ?s = "s\<lparr>salast := None, printed := printed s @ [Hop ttl]\<rparr>"
  show ?case
  proof (cases "ttl \<le> max_ttl cf \<and> reached s = 0")
    case False
    then show ?thesis by (subst ttl_loop.simps) auto
  next
    case True
    obtain t where t: "probe_loop pr cf env ttl (nat (nprobes cf)) ?s = Ret () t" "length (recvbuf (tr t)) = BUFSIZE"
      using probe_loop_returns [OF "1.prems"(2,3), of ?s cf ttl] "1.prems"(1) by auto
    have e: "e_setttl env ttl = None" using "1.prems"(3) by (simp add: waits_end_def)
    from "1.IH" [OF True] t e "1.prems"(2,3) show ?thesis using True by (subst ttl_loop.simps) auto
  qed
qed

text \<open>
  \<^verbatim>\<open>traceloop\<close> ends whenever each wait does (the alarm limits it), and has then sent for each time to live from 1 on exactly \<^verbatim>\<open>nprobes\<close>
  probes, numbered consecutively and sent to the ports after \<^verbatim>\<open>dport\<close>; it stops before \<^verbatim>\<open>max_ttl\<close> only if the destination has answered.
\<close>

theorem traceloop_probes:
  assumes "good_recv pr" and "waits_end env" and "length (recvbuf t) = BUFSIZE"
  shows "\<exists>s h. traceloop pr cf env t = Ret () s \<and>
      probes s = all_probes cf (nat (nprobes cf)) 1 0 h \<and> int h \<le> max 0 (max_ttl cf) \<and> (int h < max_ttl cf \<longrightarrow> 0 < reached s)"
proof -
  have "\<exists>s. traceloop pr cf env t = Ret () s"
    unfolding traceloop_def using assms by (intro ttl_loop_returns) (simp_all add: sig_alrm_def)
  moreover have "traceloop pr cf env t = Ret () s \<Longrightarrow>
      \<exists>h. probes s = all_probes cf (nat (nprobes cf)) 1 0 h \<and> int h \<le> max 0 (max_ttl cf) \<and> (int h < max_ttl cf \<longrightarrow> 0 < reached s)"
    for s unfolding traceloop_def by (drule ttl_loop_Ret) simp_all
  ultimately show ?thesis by blast
qed

definition silent_env :: trenv where
  "silent_env = \<lparr>e_setttl = (\<lambda>_. None), e_sendto = (\<lambda>_. None), e_events = (\<lambda>_. [Rx_alarm]), e_sent = (\<lambda>_. \<lparr>tv_sec = 0, tv_usec = 0\<rparr>), e_arrived = (\<lambda>_. \<lparr>tv_sec = 0, tv_usec = 0\<rparr>)\<rparr>"

theorem traceloop_probes_witness:
  "\<exists>s h. traceloop proto_v4 sample_conf silent_env sample_trace = Ret () s \<and> probes s = all_probes sample_conf 3 1 0 h \<and> int h \<le> 30"
  using traceloop_probes [OF good_recv_protos(1), of silent_env sample_trace sample_conf]
  by (auto simp: waits_end_def silent_env_def sample_trace_def sample_conf_def)

end
