(* ===== verification/Getaddrinfo.thy ===== *)
theory Getaddrinfo
  imports Sockaddr
begin

text \<open>
  The name resolver of \<^verbatim>\<open>libgai\<close>: \<^verbatim>\<open>getaddrinfo.c\<close> and its helpers \<^verbatim>\<open>ga_echeck.c\<close>, \<^verbatim>\<open>ga_nsearch.c\<close>, \<^verbatim>\<open>ga_aistruct.c\<close>, \<^verbatim>\<open>ga_clone.c\<close>,
  \<^verbatim>\<open>ga_port.c\<close>, \<^verbatim>\<open>ga_serv.c\<close> and \<^verbatim>\<open>ga_unix.c\<close>, with \<^verbatim>\<open>freeaddrinfo.c\<close>, \<^verbatim>\<open>gai_strerror.c\<close>, \<^verbatim>\<open>getnameinfo.c\<close> and \<^verbatim>\<open>gn_ipv46.c\<close>.
  The linked list of \<^verbatim>\<open>addrinfo\<close> structures is a list, the pointer \<^verbatim>\<open>aipnext\<close> to its last link is its end. The state counts the blocks of
  memory that are allocated and not freed, and the environment decides which calls of \<^verbatim>\<open>malloc\<close>, \<^verbatim>\<open>calloc\<close> and \<^verbatim>\<open>strdup\<close> fail. The DNS
  and the services database (\<^verbatim>\<open>gethostbyname\<close>, \<^verbatim>\<open>gethostbyname2\<close>, \<^verbatim>\<open>getservbyname\<close>, \<^verbatim>\<open>gethostbyaddr\<close>, \<^verbatim>\<open>getservbyport\<close>) and \<^verbatim>\<open>uname\<close> are
  functions of the environment.
\<close>

unbundle bit_operations_syntax

section \<open>Constants and data\<close>

datatype eai =
    EAI_ADDRFAMILY | EAI_AGAIN | EAI_BADFLAGS | EAI_FAIL | EAI_FAMILY | EAI_MEMORY
  | EAI_NODATA | EAI_NONAME | EAI_SERVICE | EAI_SOCKTYPE | EAI_SYSTEM

text \<open>The numbers of \<^verbatim>\<open>addrinfo.h\<close>.\<close>

fun eai_num :: "eai \<Rightarrow> nat" where
  "eai_num EAI_ADDRFAMILY = 1"
| "eai_num EAI_AGAIN = 2"
| "eai_num EAI_BADFLAGS = 3"
| "eai_num EAI_FAIL = 4"
| "eai_num EAI_FAMILY = 5"
| "eai_num EAI_MEMORY = 6"
| "eai_num EAI_NODATA = 7"
| "eai_num EAI_NONAME = 8"
| "eai_num EAI_SERVICE = 9"
| "eai_num EAI_SOCKTYPE = 10"
| "eai_num EAI_SYSTEM = 11"

definition gai_strerror :: "nat \<Rightarrow> string" where
  "gai_strerror err =
     (if err = eai_num EAI_ADDRFAMILY then ''address family for host not supported''
      else if err = eai_num EAI_AGAIN then ''temporary failure in name resolution''
      else if err = eai_num EAI_BADFLAGS then ''invalid flags value''
      else if err = eai_num EAI_FAIL then ''non-recoverable failure in name resolution''
      else if err = eai_num EAI_FAMILY then ''address family not supported''
      else if err = eai_num EAI_MEMORY then ''memory allocation failure''
      else if err = eai_num EAI_NODATA then ''no address associated with host''
      else if err = eai_num EAI_NONAME then ''host nor service provided, or not known''
      else if err = eai_num EAI_SERVICE then ''service not supported for socket type''
      else if err = eai_num EAI_SOCKTYPE then ''socket type not supported''
      else if err = eai_num EAI_SYSTEM then ''system error''
      else ''unknown getaddrinfo() error'')"

definition AI_PASSIVE :: "32 word" where "AI_PASSIVE = 1"
definition AI_CANONNAME :: "32 word" where "AI_CANONNAME = 2"
definition AI_CLONE :: "32 word" where "AI_CLONE = 4"

lemmas ai_flags = AI_PASSIVE_def AI_CANONNAME_def AI_CLONE_def

definition sock_stream :: int where "sock_stream = 1"
definition sock_dgram :: int where "sock_dgram = 2"
definition sock_raw :: int where "sock_raw = 3"

lemmas sock_types = sock_stream_def sock_dgram_def sock_raw_def

text \<open>\<^verbatim>\<open>flags & FLAG\<close> as a condition.\<close>

definition has :: "32 word \<Rightarrow> 32 word \<Rightarrow> bool" where
  "has flags f \<longleftrightarrow> flags AND f \<noteq> 0"

record ghints =
  gh_flags :: "32 word"
  gh_family :: family
  gh_socktype :: int
  gh_protocol :: int

record ainfo =
  a_flags :: "32 word"
  a_family :: family
  a_socktype :: int
  a_protocol :: int
  a_addrlen :: nat
  a_canonname :: "string option"
  a_addr :: "sockaddr option"

record search =
  s_host :: string
  s_family :: family

datatype herror = HOST_NOT_FOUND | TRY_AGAIN | NO_RECOVERY | NO_DATA | H_OTHER nat

record hostent =
  h_name :: string
  h_addrtype :: family
  h_addr_list :: "byte list list"

text \<open>
  The environment: the failing allocations by number, \<^verbatim>\<open>inet_pton\<close>, the resolver (\<^verbatim>\<open>gethostbyname\<close> depends on \<^verbatim>\<open>RES_USE_INET6\<close>), whether
  \<^verbatim>\<open>res_init\<close> leaves that option set, the port of a service and the node name.
\<close>

record genv =
  e_fails :: "nat \<Rightarrow> bool"
  e_pton :: "family \<Rightarrow> string \<Rightarrow> errno + byte list option"
  e_gethostbyname2 :: "string \<Rightarrow> family \<Rightarrow> herror + hostent"
  e_gethostbyname :: "bool \<Rightarrow> string \<Rightarrow> herror + hostent"
  e_res_init :: bool
  e_getservbyname :: "string \<Rightarrow> string \<Rightarrow> int option"
  e_uname :: "string option"

record gst =
  ga_calls :: nat
  ga_live :: int
  res_inited :: bool
  use_inet6 :: bool
  ga_unlinked :: "string list"

text \<open>The list under construction and the state; a helper returns an error code, or \<open>None\<close> for 0.\<close>

type_synonym ga_list = "ainfo list \<times> gst"
type_synonym ga_step = "ga_list \<Rightarrow> eai option \<times> ga_list"

text \<open>One call of an allocator.\<close>

definition galloc :: "genv \<Rightarrow> gst \<Rightarrow> bool \<times> gst" where
  "galloc env st =
     (if e_fails env (ga_calls st) then (False, st\<lparr>ga_calls := ga_calls st + 1\<rparr>)
      else (True, st\<lparr>ga_calls := ga_calls st + 1, ga_live := ga_live st + 1\<rparr>))"

text \<open>The memory \<^verbatim>\<open>const void *addr\<close> points to: a binary address or a pathname.\<close>

datatype gaddr = Addr_bytes "byte list" | Addr_path string

fun addr_bytes :: "gaddr \<Rightarrow> byte list" where
  "addr_bytes (Addr_bytes bs) = bs"
| "addr_bytes (Addr_path p) = map of_char p"

fun addr_path :: "gaddr \<Rightarrow> string" where
  "addr_path (Addr_path p) = p"
| "addr_path (Addr_bytes bs) = c_str (map (\<lambda>b. char_of (unat b)) bs)"

section \<open>freeaddrinfo\<close>

definition ai_blocks :: "ainfo \<Rightarrow> int" where
  "ai_blocks ai = of_bool (a_addr ai \<noteq> None) + of_bool (a_canonname ai \<noteq> None) + 1"

definition blocks :: "ainfo list \<Rightarrow> int" where
  "blocks l = sum_list (map ai_blocks l)"

fun freeaddrinfo :: "ainfo list \<Rightarrow> gst \<Rightarrow> gst" where
  "freeaddrinfo [] st = st"
| "freeaddrinfo (ai # ainext) st =
     (let st1 = (if a_addr ai \<noteq> None then st\<lparr>ga_live := ga_live st - 1\<rparr> else st);
          st2 = (if a_canonname ai \<noteq> None then st1\<lparr>ga_live := ga_live st1 - 1\<rparr> else st1)
      in freeaddrinfo ainext (st2\<lparr>ga_live := ga_live st2 - 1\<rparr>))"

section \<open>Checks and searches\<close>

text \<open>\<^verbatim>\<open>s == NULL || s[0] == '\0'\<close>.\<close>

definition absent :: "string option \<Rightarrow> bool" where
  "absent s \<longleftrightarrow> s = None \<or> s = Some []"

definition ga_echeck :: "string option \<Rightarrow> string option \<Rightarrow> 32 word \<Rightarrow> family \<Rightarrow> int \<Rightarrow> int \<Rightarrow> eai option" where
  "ga_echeck hostname servname flags fam socktype protocol =
     (if has flags (NOT (AI_PASSIVE OR AI_CANONNAME)) then Some EAI_BADFLAGS
      else if absent hostname \<and> absent servname then Some EAI_NONAME
      else case fam of
        AF_UNSPEC \<Rightarrow> None
      | AF_INET \<Rightarrow> if socktype \<noteq> 0 \<and> socktype \<noteq> sock_stream \<and> socktype \<noteq> sock_dgram \<and> socktype \<noteq> sock_raw then Some EAI_SOCKTYPE else None
      | AF_INET6 \<Rightarrow> if socktype \<noteq> 0 \<and> socktype \<noteq> sock_stream \<and> socktype \<noteq> sock_dgram \<and> socktype \<noteq> sock_raw then Some EAI_SOCKTYPE else None
      | AF_UNIX \<Rightarrow> if socktype \<noteq> 0 \<and> socktype \<noteq> sock_stream \<and> socktype \<noteq> sock_dgram then Some EAI_SOCKTYPE else None
      | AF_OTHER n \<Rightarrow> Some EAI_FAMILY)"

definition ga_searches :: "string option \<Rightarrow> ghints \<Rightarrow> search list" where
  "ga_searches hostname hints =
     (case hostname of
        Some (c # cs) \<Rightarrow>
          (case gh_family hints of
             AF_INET \<Rightarrow> [\<lparr>s_host = c # cs, s_family = AF_INET\<rparr>]
           | AF_INET6 \<Rightarrow> [\<lparr>s_host = c # cs, s_family = AF_INET6\<rparr>]
           | AF_UNSPEC \<Rightarrow> [\<lparr>s_host = c # cs, s_family = AF_INET6\<rparr>, \<lparr>s_host = c # cs, s_family = AF_INET\<rparr>]
           | _ \<Rightarrow> [])
      | _ \<Rightarrow>
          if has (gh_flags hints) AI_PASSIVE
          then (case gh_family hints of
             AF_INET \<Rightarrow> [\<lparr>s_host = ''0.0.0.0'', s_family = AF_INET\<rparr>]
           | AF_INET6 \<Rightarrow> [\<lparr>s_host = ''0::0'', s_family = AF_INET6\<rparr>]
           | AF_UNSPEC \<Rightarrow> [\<lparr>s_host = ''0::0'', s_family = AF_INET6\<rparr>, \<lparr>s_host = ''0.0.0.0'', s_family = AF_INET\<rparr>]
           | _ \<Rightarrow> [])
          else (case gh_family hints of
             AF_INET \<Rightarrow> [\<lparr>s_host = ''localhost'', s_family = AF_INET\<rparr>]
           | AF_INET6 \<Rightarrow> [\<lparr>s_host = ''0::1'', s_family = AF_INET6\<rparr>]
           | AF_UNSPEC \<Rightarrow> [\<lparr>s_host = ''0::1'', s_family = AF_INET6\<rparr>, \<lparr>s_host = ''localhost'', s_family = AF_INET\<rparr>]
           | _ \<Rightarrow> []))"

definition ga_nsearch :: "string option \<Rightarrow> ghints \<Rightarrow> (search list, 'w) prog" where
  "ga_nsearch hostname hints =
     (let search = ga_searches hostname hints
      in if length search < 1 \<or> 2 < length search then dieP (Err_quit (''nsearch = '' @ dec_nat (length search))) else returnP search)"

section \<open>Building the list\<close>

definition ga_addr :: "family \<Rightarrow> gaddr \<Rightarrow> sockaddr \<times> nat" where
  "ga_addr fam addr =
     (case fam of
        AF_INET \<Rightarrow> (Sockaddr_in 0 (take 4 (addr_bytes addr)), 16)
      | AF_INET6 \<Rightarrow> (Sockaddr_in6 0 (take 16 (addr_bytes addr)), 28)
      | _ \<Rightarrow> (Sockaddr_un (addr_path addr @ replicate (108 - length (addr_path addr)) NUL), 110))"

definition ga_aistruct :: "genv \<Rightarrow> ghints \<Rightarrow> gaddr \<Rightarrow> family \<Rightarrow> ga_step" where
  "ga_aistruct env hints addr fam ls =
     (case ls of (l, st) \<Rightarrow>
      case galloc env st of
        (False, st1) \<Rightarrow> (Some EAI_MEMORY, l, st1)
      | (True, st1) \<Rightarrow>
          (let ai = \<lparr>a_flags = (if gh_socktype hints = 0 then AI_CLONE else 0), a_family = fam, a_socktype = gh_socktype hints,
                     a_protocol = gh_protocol hints, a_addrlen = 0, a_canonname = None, a_addr = None\<rparr>;
               fill = (\<lambda>unlink. case galloc env st1 of
                   (False, st2) \<Rightarrow> (Some EAI_MEMORY, l @ [ai], st2)
                 | (True, st2) \<Rightarrow> (None, l @ [ai\<lparr>a_addr := Some (fst (ga_addr fam addr)), a_addrlen := snd (ga_addr fam addr)\<rparr>],
                     if unlink then st2\<lparr>ga_unlinked := ga_unlinked st2 @ [addr_path addr]\<rparr> else st2))
           in case fam of
                AF_INET \<Rightarrow> fill False
              | AF_INET6 \<Rightarrow> fill False
              | AF_UNIX \<Rightarrow> if 108 \<le> length (addr_path addr) then (Some EAI_SERVICE, l @ [ai], st1)
                           else fill (has (gh_flags hints) AI_PASSIVE)
              | _ \<Rightarrow> (None, l @ [ai], st1)))"

text \<open>\<^verbatim>\<open>ga_clone\<close>: the structures linked in after \<^verbatim>\<open>ai\<close> (the new one, if it could be allocated), and whether it is complete.\<close>

definition ga_clone :: "genv \<Rightarrow> ainfo \<Rightarrow> gst \<Rightarrow> bool \<times> ainfo list \<times> gst" where
  "ga_clone env ai st =
     (case galloc env st of
        (False, st1) \<Rightarrow> (False, [], st1)
      | (True, st1) \<Rightarrow>
          (let new = ai\<lparr>a_flags := 0, a_canonname := None, a_addr := None\<rparr>
           in case galloc env st1 of
                (False, st2) \<Rightarrow> (False, [new], st2)
              | (True, st2) \<Rightarrow> (True, [new\<lparr>a_addr := a_addr ai\<rparr>], st2)))"

fun put_port :: "int \<Rightarrow> sockaddr \<Rightarrow> sockaddr" where
  "put_port port (Sockaddr_in p a) = Sockaddr_in (word_of_int port) a"
| "put_port port (Sockaddr_in6 p a) = Sockaddr_in6 (word_of_int port) a"
| "put_port port sa = sa"

text \<open>The body of the loop of \<^verbatim>\<open>ga_port\<close> after the tests; \<open>counts\<close> is the increment of \<^verbatim>\<open>nfound\<close>.\<close>

definition ga_set :: "int \<Rightarrow> int \<Rightarrow> ainfo \<Rightarrow> ainfo" where
  "ga_set port socktype ai =
     (if a_family ai = AF_INET \<or> a_family ai = AF_INET6
      then ai\<lparr>a_socktype := socktype, a_addr := map_option (put_port port) (a_addr ai)\<rparr>
      else ai\<lparr>a_socktype := socktype\<rparr>)"

definition counts :: "ainfo \<Rightarrow> nat" where
  "counts ai = of_bool (a_family ai = AF_INET \<or> a_family ai = AF_INET6)"

text \<open>\<^verbatim>\<open>ga_port\<close>: \<open>None\<close> is \<open>-1\<close>.\<close>

fun ga_port :: "genv \<Rightarrow> int \<Rightarrow> int \<Rightarrow> ainfo list \<Rightarrow> gst \<Rightarrow> nat option \<times> ga_list" where
  "ga_port env port socktype [] st = (Some 0, [], st)"
| "ga_port env port socktype (ai # rest) st =
     (if has (a_flags ai) AI_CLONE
      then if a_socktype ai \<noteq> 0
           then (case ga_clone env ai st of
                   (False, extra, st1) \<Rightarrow> (None, ai # extra @ rest, st1)
                 | (True, extra, st1) \<Rightarrow>
                     (case ga_port env port socktype rest st1 of
                        (n, rest', st2) \<Rightarrow> (map_option (\<lambda>k. sum_list (map counts extra) + k) n, ai # map (ga_set port socktype) extra @ rest', st2)))
           else (case ga_port env port socktype rest st of
                   (n, rest', st2) \<Rightarrow> (map_option (\<lambda>k. counts ai + k) n, ga_set port socktype ai # rest', st2))
      else if a_socktype ai \<noteq> socktype
           then (case ga_port env port socktype rest st of (n, rest', st2) \<Rightarrow> (n, ai # rest', st2))
           else (case ga_port env port socktype rest st of
                   (n, rest', st2) \<Rightarrow> (map_option (\<lambda>k. counts ai + k) n, ga_set port socktype ai # rest', st2)))"

section \<open>Services\<close>

definition isdigit :: "char \<Rightarrow> bool" where
  "isdigit c \<longleftrightarrow> c \<in> set digit_chars"

definition isxdigit :: "char \<Rightarrow> bool" where
  "isxdigit c \<longleftrightarrow> c \<in> set xdigits_l \<or> c \<in> set xdigits_u"

text \<open>\<^verbatim>\<open>s[0]\<close>.\<close>

definition c_head :: "string \<Rightarrow> char" where
  "c_head s = (case s of [] \<Rightarrow> NUL | c # _ \<Rightarrow> c)"

text \<open>\<^verbatim>\<open>atoi\<close> of a string that starts with a digit.\<close>

definition atoi_digits :: "string \<Rightarrow> nat" where
  "atoi_digits s = foldl (\<lambda>v c. 10 * v + (case index_of c digit_chars of Some d \<Rightarrow> d | None \<Rightarrow> 0)) 0 (takeWhile isdigit s)"

definition serv_port :: "string \<Rightarrow> int" where
  "serv_port serv = uint (ntohs (of_nat (atoi_digits serv)))"

text \<open>The calls of \<^verbatim>\<open>ga_port\<close> that one run of \<^verbatim>\<open>ga_serv\<close> makes, as pairs of port and socket type.\<close>

definition serv_calls :: "genv \<Rightarrow> ghints \<Rightarrow> string \<Rightarrow> (int \<times> int) list" where
  "serv_calls env hints serv =
     (if isdigit (c_head serv)
      then if gh_socktype hints \<noteq> 0 then [(serv_port serv, gh_socktype hints)]
           else [(serv_port serv, sock_stream), (serv_port serv, sock_dgram)]
      else (if gh_socktype hints = 0 \<or> gh_socktype hints = sock_stream
            then (case e_getservbyname env serv ''tcp'' of None \<Rightarrow> [] | Some p \<Rightarrow> [(p, sock_stream)]) else []) @
           (if gh_socktype hints = 0 \<or> gh_socktype hints = sock_dgram
            then (case e_getservbyname env serv ''udp'' of None \<Rightarrow> [] | Some p \<Rightarrow> [(p, sock_dgram)]) else []))"

fun ga_ports :: "genv \<Rightarrow> (int \<times> int) list \<Rightarrow> nat \<Rightarrow> ainfo list \<Rightarrow> gst \<Rightarrow> nat option \<times> ga_list" where
  "ga_ports env [] nfound l st = (Some nfound, l, st)"
| "ga_ports env ((port, ty) # calls) nfound l st =
     (case ga_port env port ty l st of
        (None, l', st') \<Rightarrow> (None, l', st')
      | (Some rc, l', st') \<Rightarrow> ga_ports env calls (nfound + rc) l' st')"

definition ga_serv :: "genv \<Rightarrow> ghints \<Rightarrow> string \<Rightarrow> ga_step" where
  "ga_serv env hints serv ls =
     (case ls of (l, st) \<Rightarrow>
      case ga_ports env (serv_calls env hints serv) 0 l st of
        (None, l', st') \<Rightarrow> (Some EAI_MEMORY, l', st')
      | (Some nfound, l', st') \<Rightarrow>
          (if nfound = 0 then if gh_socktype hints = 0 then Some EAI_NONAME else Some EAI_SERVICE else None, l', st'))"

section \<open>Unix domain\<close>

definition set_canon :: "string \<Rightarrow> ainfo list \<Rightarrow> ainfo list" where
  "set_canon name l = (case l of [] \<Rightarrow> [] | ai # rest \<Rightarrow> ai\<lparr>a_canonname := Some name\<rparr> # rest)"

definition ga_unix :: "genv \<Rightarrow> string \<Rightarrow> ghints \<Rightarrow> (eai + ainfo list, gst) prog" where
  "ga_unix env path hints st =
     (if gh_family hints \<noteq> AF_UNSPEC \<and> gh_family hints \<noteq> AF_UNIX then Ret (Inl EAI_ADDRFAMILY) st
      else case (if gh_socktype hints = 0 then ga_aistruct env (hints\<lparr>gh_socktype := sock_stream\<rparr>) (Addr_path path) AF_UNIX ([], st)
                 else (None, [], st)) of
        (Some e, l, st1) \<Rightarrow> Ret (Inl e) st1
      | (None, l, st1) \<Rightarrow>
          (case ga_aistruct env (if gh_socktype hints = 0 then hints\<lparr>gh_socktype := sock_dgram\<rparr> else hints) (Addr_path path) AF_UNIX (l, st1) of
             (Some e, l2, st2) \<Rightarrow> Ret (Inl e) st2
           | (None, l2, st2) \<Rightarrow>
               (if has (gh_flags hints) AI_CANONNAME
                then case e_uname env of
                       None \<Rightarrow> Ret (Inl EAI_SYSTEM) st2
                     | Some nodename \<Rightarrow>
                         (case galloc env st2 of
                            (False, st3) \<Rightarrow> Ret (Inl EAI_MEMORY) st3
                          | (True, st3) \<Rightarrow> Ret (Inr (set_canon nodename l2)) st3)
                else Ret (Inr l2) st2)))"

section \<open>getaddrinfo\<close>

text \<open>
  The branch for a numeric address of one family: \<open>None\<close> when the text is not one, so that the loop body goes on to the next test.
\<close>

definition ga_literal :: "genv \<Rightarrow> ghints \<Rightarrow> search \<Rightarrow> family \<Rightarrow> ga_list \<Rightarrow> (eai option \<times> ga_list) option" where
  "ga_literal env hints sptr fam ls =
     (case e_pton env fam (s_host sptr) of
        Inr (Some a) \<Rightarrow>
          Some (if gh_family hints \<noteq> AF_UNSPEC \<and> gh_family hints \<noteq> fam then (Some EAI_ADDRFAMILY, ls)
                else if s_family sptr \<noteq> fam then (None, ls)
                else ga_aistruct env hints (Addr_bytes a) fam ls)
      | _ \<Rightarrow> None)"

definition ga_numeric :: "genv \<Rightarrow> ghints \<Rightarrow> search \<Rightarrow> ga_list \<Rightarrow> (eai option \<times> ga_list) option" where
  "ga_numeric env hints sptr ls =
     (let c = c_head (s_host sptr)
      in case (if isdigit c then ga_literal env hints sptr AF_INET ls else None) of
           Some r \<Rightarrow> Some r
         | None \<Rightarrow> if (isxdigit c \<or> c = CHR '':'') \<and> CHR '':'' \<in> set (s_host sptr) then ga_literal env hints sptr AF_INET6 ls else None)"

definition ga_lookup :: "genv \<Rightarrow> nat \<Rightarrow> search \<Rightarrow> gst \<Rightarrow> (herror + hostent) \<times> gst" where
  "ga_lookup env nsearch sptr st =
     (let st1 = (if res_inited st then st else st\<lparr>res_inited := True, use_inet6 := e_res_init env\<rparr>)
      in if nsearch = 2 then (e_gethostbyname2 env (s_host sptr) (s_family sptr), st1\<lparr>use_inet6 := False\<rparr>)
         else let v6 = (s_family sptr = AF_INET6) in (e_gethostbyname env v6 (s_host sptr), st1\<lparr>use_inet6 := v6\<rparr>))"

fun herror_eai :: "herror \<Rightarrow> eai" where
  "herror_eai HOST_NOT_FOUND = EAI_NONAME"
| "herror_eai TRY_AGAIN = EAI_AGAIN"
| "herror_eai NO_RECOVERY = EAI_FAIL"
| "herror_eai NO_DATA = EAI_NODATA"
| "herror_eai (H_OTHER n) = EAI_NONAME"

fun ga_addrs :: "genv \<Rightarrow> ghints \<Rightarrow> family \<Rightarrow> byte list list \<Rightarrow> ga_step" where
  "ga_addrs env hints fam [] ls = (None, ls)"
| "ga_addrs env hints fam (a # as) ls =
     (case ga_aistruct env hints (Addr_bytes a) fam ls of
        (Some e, ls') \<Rightarrow> (Some e, ls')
      | (None, ls') \<Rightarrow> ga_addrs env hints fam as ls')"

text \<open>Whether the canonical name is wanted.\<close>

definition want_canon :: "string option \<Rightarrow> ghints \<Rightarrow> bool" where
  "want_canon hostname hints \<longleftrightarrow> \<not> absent hostname \<and> has (gh_flags hints) AI_CANONNAME"

text \<open>The loop over the searches. The variable \<^verbatim>\<open>canon\<close> is the third component of the state of the loop.\<close>

fun ga_hosts :: "genv \<Rightarrow> string option \<Rightarrow> ghints \<Rightarrow> nat \<Rightarrow> search list \<Rightarrow> string option \<Rightarrow> ga_list \<Rightarrow> eai option \<times> string option \<times> ga_list" where
  "ga_hosts env hostname hints nsearch [] canon ls = (None, canon, ls)"
| "ga_hosts env hostname hints nsearch (sptr # ss) canon ls =
     (case ga_numeric env hints sptr ls of
        Some (Some e, ls') \<Rightarrow> (Some e, canon, ls')
      | Some (None, ls') \<Rightarrow> ga_hosts env hostname hints nsearch ss canon ls'
      | None \<Rightarrow>
          (case ga_lookup env nsearch sptr (snd ls) of
             (Inl h_errno, st1) \<Rightarrow>
               if nsearch = 2 then ga_hosts env hostname hints nsearch ss canon (fst ls, st1)
               else (Some (herror_eai h_errno), canon, fst ls, st1)
           | (Inr hptr, st1) \<Rightarrow>
               if gh_family hints \<noteq> AF_UNSPEC \<and> gh_family hints \<noteq> h_addrtype hptr then (Some EAI_ADDRFAMILY, canon, fst ls, st1)
               else (case (if want_canon hostname hints \<and> canon = None then galloc env st1 else (True, st1)) of
                       (False, st2) \<Rightarrow> (Some EAI_MEMORY, canon, fst ls, st2)
                     | (True, st2) \<Rightarrow>
                         (let canon' = (if want_canon hostname hints \<and> canon = None then Some (h_name hptr) else canon)
                          in case ga_addrs env hints (h_addrtype hptr) (h_addr_list hptr) (fst ls, st2) of
                               (Some e, ls') \<Rightarrow> (Some e, canon', ls')
                             | (None, ls') \<Rightarrow> ga_hosts env hostname hints nsearch ss canon' ls'))))"

text \<open>\<^verbatim>\<open>bad: freeaddrinfo(aihead); return(error);\<close>.\<close>

definition ga_bad :: "eai \<Rightarrow> ga_list \<Rightarrow> (eai + ainfo list, gst) outcome" where
  "ga_bad e ls = Ret (Inl e) (freeaddrinfo (fst ls) (snd ls))"

text \<open>The canonical name, as soon as there is an address.\<close>

definition ga_canon :: "genv \<Rightarrow> string option \<Rightarrow> ghints \<Rightarrow> string \<Rightarrow> string option \<Rightarrow> ga_step" where
  "ga_canon env hostname hints host0 canon ls =
     (case ls of (l, st) \<Rightarrow>
      if want_canon hostname hints
      then case canon of
             Some name \<Rightarrow> (None, set_canon name l, st)
           | None \<Rightarrow> (case galloc env st of
                         (False, st1) \<Rightarrow> (Some EAI_MEMORY, l, st1)
                       | (True, st1) \<Rightarrow> (None, set_canon host0 l, st1))
      else (None, l, st))"

definition is_unix :: "string option \<Rightarrow> string option \<Rightarrow> bool" where
  "is_unix hostname servname \<longleftrightarrow>
     (hostname = Some ''/local'' \<or> hostname = Some ''/unix'') \<and> (case servname of None \<Rightarrow> False | Some s \<Rightarrow> c_head s = CHR ''/'')"

definition ga_hints :: "ghints option \<Rightarrow> ghints" where
  "ga_hints hintsp = (case hintsp of None \<Rightarrow> \<lparr>gh_flags = 0, gh_family = AF_UNSPEC, gh_socktype = 0, gh_protocol = 0\<rparr> | Some h \<Rightarrow> h)"

text \<open>What follows the loop.\<close>

definition ga_rest :: "genv \<Rightarrow> string option \<Rightarrow> string option \<Rightarrow> ghints \<Rightarrow> string \<Rightarrow> string option \<Rightarrow> ga_list \<Rightarrow> (eai + ainfo list, gst) outcome" where
  "ga_rest env hostname servname hints host0 canon ls =
     (if fst ls = [] then ga_bad EAI_NONAME ls
      else case ga_canon env hostname hints host0 canon ls of
             (Some e, ls2) \<Rightarrow> ga_bad e ls2
           | (None, ls2) \<Rightarrow>
               if absent servname then Ret (Inr (fst ls2)) (snd ls2)
               else (case ga_serv env hints (the servname) ls2 of
                       (Some e, ls3) \<Rightarrow> ga_bad e ls3
                     | (None, ls3) \<Rightarrow> Ret (Inr (fst ls3)) (snd ls3)))"

definition getaddrinfo :: "genv \<Rightarrow> string option \<Rightarrow> string option \<Rightarrow> ghints option \<Rightarrow> (eai + ainfo list, gst) prog" where
  "getaddrinfo env hostname servname hintsp st =
     (let hints = ga_hints hintsp
      in case ga_echeck hostname servname (gh_flags hints) (gh_family hints) (gh_socktype hints) (gh_protocol hints) of
           Some e \<Rightarrow> ga_bad e ([], st)
         | None \<Rightarrow>
             if is_unix hostname servname then ga_unix env (the servname) hints st
             else bindP (ga_nsearch hostname hints) (\<lambda>search st1.
               case ga_hosts env hostname hints (length search) search None ([], st1) of
                 (Some e, _, ls) \<Rightarrow> ga_bad e ls
               | (None, canon, ls) \<Rightarrow> ga_rest env hostname servname hints (s_host (hd search)) canon ls) st)"

section \<open>getnameinfo\<close>

definition NI_NOFQDN :: "32 word" where "NI_NOFQDN = 1"
definition NI_NUMERICHOST :: "32 word" where "NI_NUMERICHOST = 2"
definition NI_NAMEREQD :: "32 word" where "NI_NAMEREQD = 4"
definition NI_NUMERICSERV :: "32 word" where "NI_NUMERICSERV = 8"
definition NI_DGRAM :: "32 word" where "NI_DGRAM = 16"

text \<open>\<^verbatim>\<open>inet_ntop\<close>, \<^verbatim>\<open>gethostbyaddr\<close> and \<^verbatim>\<open>getservbyport\<close> (\<open>None\<close> when there is no structure or no name in it).\<close>

record nenv =
  n_ntop :: ntop
  n_gethostbyaddr :: "byte list \<Rightarrow> family \<Rightarrow> string option"
  n_getservbyport :: "16 word \<Rightarrow> string option \<Rightarrow> string option"

definition gn_numeric :: "nenv \<Rightarrow> family \<Rightarrow> byte list \<Rightarrow> nat \<Rightarrow> string option" where
  "gn_numeric env fam a hostlen = (case n_ntop env fam a hostlen of Inl e \<Rightarrow> None | Inr t \<Rightarrow> Some (c_str t))"

definition gn_host :: "nenv \<Rightarrow> nat \<Rightarrow> byte list \<Rightarrow> family \<Rightarrow> 32 word \<Rightarrow> string option" where
  "gn_host env hostlen a fam flags =
     (if has flags NI_NUMERICHOST then gn_numeric env fam a hostlen
      else case n_gethostbyaddr env a fam of
             Some name \<Rightarrow> Some (snprintf_str hostlen (if has flags NI_NOFQDN then takeWhile (\<lambda>c. c \<noteq> CHR ''.'') name else name))
           | None \<Rightarrow> if has flags NI_NAMEREQD then None else gn_numeric env fam a hostlen)"

definition gn_serv :: "nenv \<Rightarrow> nat \<Rightarrow> 16 word \<Rightarrow> 32 word \<Rightarrow> string" where
  "gn_serv env servlen port flags =
     (if has flags NI_NUMERICSERV then snprintf_str servlen (dec_nat (unat (ntohs port)))
      else case n_getservbyport env port (if has flags NI_DGRAM then Some ''udp'' else None) of
             Some name \<Rightarrow> snprintf_str servlen name
           | None \<Rightarrow> snprintf_str servlen (dec_nat (unat (ntohs port))))"

text \<open>The strings left in the two buffers (\<open>None\<close> for a buffer of length 0); \<open>None\<close> is the return value 1.\<close>

definition gn_ipv46 :: "nenv \<Rightarrow> nat \<Rightarrow> nat \<Rightarrow> byte list \<Rightarrow> family \<Rightarrow> 16 word \<Rightarrow> 32 word \<Rightarrow> (string option \<times> string option) option" where
  "gn_ipv46 env hostlen servlen a fam port flags =
     (let serv = (if 0 < servlen then Some (gn_serv env servlen port flags) else None)
      in if 0 < hostlen
         then case gn_host env hostlen a fam flags of None \<Rightarrow> None | Some h \<Rightarrow> Some (Some h, serv)
         else Some (None, serv))"

fun getnameinfo :: "nenv \<Rightarrow> sockaddr \<Rightarrow> nat \<Rightarrow> nat \<Rightarrow> 32 word \<Rightarrow> (string option \<times> string option) option" where
  "getnameinfo env (Sockaddr_in port a) hostlen servlen flags = gn_ipv46 env hostlen servlen a AF_INET port flags"
| "getnameinfo env (Sockaddr_in6 port a) hostlen servlen flags = gn_ipv46 env hostlen servlen a AF_INET6 port flags"
| "getnameinfo env (Sockaddr_un path) hostlen servlen flags =
     Some (if 0 < hostlen then Some (snprintf_str hostlen ''/local'') else None,
           if 0 < servlen then Some (snprintf_str servlen (c_str path)) else None)"
| "getnameinfo env (Sockaddr_other n) hostlen servlen flags = None"

end
