(* ===== verification/Gai_Reference.thy ===== *)
theory Gai_Reference
  imports Getaddrinfo
begin

text \<open>
  The properties of \<^verbatim>\<open>getaddrinfo\<close>: the balance of its memory under every pattern of failing allocations, its agreement with a reference resolver that knows neither the
  list nor the memory, the types of the entries it returns, and the one call that ends the process.
\<close>

unbundle bit_operations_syntax

section \<open>Memory\<close>

lemma blocks_simps [simp]:
  "blocks [] = 0" "blocks (ai # l) = ai_blocks ai + blocks l" "blocks (l @ l') = blocks l + blocks l'"
  by (simp_all add: blocks_def)

lemma live_freeaddrinfo [simp]: "ga_live (freeaddrinfo l st) = ga_live st - blocks l"
  by (induction l st rule: freeaddrinfo.induct) (auto simp: Let_def ai_blocks_def)

text \<open>The blocks that are allocated and not reachable from the list.\<close>

definition outside :: "ga_list \<Rightarrow> int" where
  "outside ls = ga_live (snd ls) - blocks (fst ls)"

lemma outside_Pair [simp]: "outside (l, st) = ga_live st - blocks l"
  by (simp add: outside_def)

lemma live_galloc: "galloc env st = (b, st') \<Longrightarrow> ga_live st' = ga_live st + of_bool b"
  by (auto simp: galloc_def split: if_splits)

text \<open>Every operation on the list keeps what is outside of it: what it allocates it links in, even when it fails.\<close>

lemma outside_aistruct: "ga_aistruct env hints addr fam ls = (r, ls') \<Longrightarrow> outside ls' = outside ls"
  by (cases ls) (auto simp: ga_aistruct_def Let_def ai_blocks_def dest!: live_galloc split: prod.splits bool.splits family.splits if_splits)

lemma outside_addrs: "ga_addrs env hints fam as ls = (r, ls') \<Longrightarrow> outside ls' = outside ls"
  by (induction as arbitrary: ls) (auto dest: outside_aistruct split: prod.splits option.splits)

lemma live_clone: "ga_clone env ai st = (b, extra, st') \<Longrightarrow> (b \<Longrightarrow> a_addr ai \<noteq> None) \<Longrightarrow> ga_live st' = ga_live st + blocks extra"
  by (auto simp: ga_clone_def Let_def ai_blocks_def dest!: live_galloc split: prod.splits bool.splits)

lemma ai_blocks_set [simp]: "ai_blocks (ga_set port ty ai) = ai_blocks ai"
  by (simp add: ga_set_def ai_blocks_def)

lemma blocks_set [simp]: "blocks (map (ga_set port ty) l) = blocks l"
  by (simp add: blocks_def comp_def)

lemma outside_port:
  "ga_port env port ty l st = (r, l', st') \<Longrightarrow> \<forall>ai \<in> set l. a_addr ai \<noteq> None \<Longrightarrow> outside (l', st') = outside (l, st)"
proof (induction env port ty l st arbitrary: r l' st' rule: ga_port.induct)
  case (1 env port ty st)
  then show ?case by simp
next
  case (2 env port ty ai rest st)
  then show ?case
    by (fastforce dest!: live_clone split: if_splits prod.splits bool.splits)
qed

section \<open>The reference resolver\<close>

text \<open>
  What \<^verbatim>\<open>getaddrinfo\<close> is to return, without the list and the memory: the addresses of each search, one entry for each address, and for each entry the
  socket types and ports of the service.
\<close>

definition ga_entry :: "ghints \<Rightarrow> family \<times> byte list \<Rightarrow> ainfo" where
  "ga_entry hints x = (case x of (fam, a) \<Rightarrow>
     \<lparr>a_flags = (if gh_socktype hints = 0 then AI_CLONE else 0), a_family = fam, a_socktype = gh_socktype hints, a_protocol = gh_protocol hints,
      a_addrlen = snd (ga_addr fam (Addr_bytes a)), a_canonname = None, a_addr = Some (fst (ga_addr fam (Addr_bytes a)))\<rparr>)"

definition numeric_of :: "genv \<Rightarrow> string \<Rightarrow> (family \<times> byte list) option" where
  "numeric_of env t =
     (case (if isdigit (c_head t) then e_pton env AF_INET t else Inr None) of
        Inr (Some a) \<Rightarrow> Some (AF_INET, a)
      | _ \<Rightarrow> (case (if (isxdigit (c_head t) \<or> c_head t = CHR '':'') \<and> CHR '':'' \<in> set t then e_pton env AF_INET6 t else Inr None) of
                Inr (Some a) \<Rightarrow> Some (AF_INET6, a)
              | _ \<Rightarrow> None))"

definition lookup_of :: "genv \<Rightarrow> nat \<Rightarrow> search \<Rightarrow> herror + hostent" where
  "lookup_of env n s = (if n = 2 then e_gethostbyname2 env (s_host s) (s_family s) else e_gethostbyname env (s_family s = AF_INET6) (s_host s))"

definition host_answer :: "genv \<Rightarrow> ghints \<Rightarrow> nat \<Rightarrow> search \<Rightarrow> eai + string option \<times> (family \<times> byte list) list" where
  "host_answer env hints n s =
     (case numeric_of env (s_host s) of
        Some (fam, a) \<Rightarrow> if gh_family hints \<notin> {AF_UNSPEC, fam} then Inl EAI_ADDRFAMILY
                         else Inr (None, if s_family s = fam then [(fam, a)] else [])
      | None \<Rightarrow>
          (case lookup_of env n s of
             Inl h \<Rightarrow> if n = 2 then Inr (None, []) else Inl (herror_eai h)
           | Inr hp \<Rightarrow> if gh_family hints \<notin> {AF_UNSPEC, h_addrtype hp} then Inl EAI_ADDRFAMILY
                       else Inr (Some (h_name hp), map (Pair (h_addrtype hp)) (h_addr_list hp))))"

definition first_name :: "bool \<Rightarrow> string option \<Rightarrow> string option \<Rightarrow> string option" where
  "first_name want canon name = (if want \<and> canon = None then name else canon)"

fun ref_hosts :: "genv \<Rightarrow> bool \<Rightarrow> ghints \<Rightarrow> nat \<Rightarrow> search list \<Rightarrow> string option \<Rightarrow> eai + string option \<times> (family \<times> byte list) list" where
  "ref_hosts env want hints n [] canon = Inr (canon, [])"
| "ref_hosts env want hints n (s # ss) canon =
     (case host_answer env hints n s of
        Inl e \<Rightarrow> Inl e
      | Inr (name, xs) \<Rightarrow> map_sum id (\<lambda>(c, ys). (c, xs @ ys)) (ref_hosts env want hints n ss (first_name want canon name)))"

text \<open>
  The entries of one address: without a socket type in the hints one for each socket type of the service, the first carrying the canonical name;
  otherwise the address itself.
\<close>

definition twin :: "ainfo \<Rightarrow> ainfo" where
  "twin ai = ai\<lparr>a_flags := 0, a_canonname := None\<rparr>"

fun with_ports :: "ainfo \<Rightarrow> (int \<times> int) list \<Rightarrow> ainfo list" where
  "with_ports ai [] = [ai]"
| "with_ports ai ((port, ty) # others) = ga_set port ty ai # map (\<lambda>(port, ty). ga_set port ty (twin ai)) others"

definition canon_of :: "string option \<Rightarrow> ghints \<Rightarrow> string \<Rightarrow> string option \<Rightarrow> string option" where
  "canon_of hostname hints host0 canon = (if want_canon hostname hints then Some (case canon of Some c \<Rightarrow> c | None \<Rightarrow> host0) else None)"

definition ref_rest :: "genv \<Rightarrow> string option \<Rightarrow> string option \<Rightarrow> ghints \<Rightarrow> string \<Rightarrow> string option \<Rightarrow> (family \<times> byte list) list \<Rightarrow> eai + ainfo list" where
  "ref_rest env hostname servname hints host0 canon xs =
     (case xs of
        [] \<Rightarrow> Inl EAI_NONAME
      | x # ys \<Rightarrow>
          (let l = (ga_entry hints x)\<lparr>a_canonname := canon_of hostname hints host0 canon\<rparr> # map (ga_entry hints) ys
           in if absent servname then Inr l
              else let calls = serv_calls env hints (the servname)
                   in if calls = [] then Inl (if gh_socktype hints = 0 then EAI_NONAME else EAI_SERVICE)
                      else Inr (concat (map (\<lambda>ai. with_ports ai calls) l))))"

definition ref_getaddrinfo :: "genv \<Rightarrow> string option \<Rightarrow> string option \<Rightarrow> ghints \<Rightarrow> eai + ainfo list" where
  "ref_getaddrinfo env hostname servname hints =
     (case ga_echeck hostname servname (gh_flags hints) (gh_family hints) (gh_socktype hints) (gh_protocol hints) of
        Some e \<Rightarrow> Inl e
      | None \<Rightarrow>
          (let ss = ga_searches hostname hints
           in case ref_hosts env (want_canon hostname hints) hints (length ss) ss None of
                Inl e \<Rightarrow> Inl e
              | Inr (canon, xs) \<Rightarrow> ref_rest env hostname servname hints (s_host (hd ss)) canon xs))"

text \<open>
  What the code relies on of the resolver and of \<^verbatim>\<open>inet_pton\<close>: the addresses have the family and the length the interfaces document.
\<close>

definition addr_ok :: "family \<times> byte list \<Rightarrow> bool" where
  "addr_ok x \<longleftrightarrow> (fst x = AF_INET \<and> length (snd x) = 4) \<or> (fst x = AF_INET6 \<and> length (snd x) = 16)"

definition hostent_ok :: "herror + hostent \<Rightarrow> bool" where
  "hostent_ok r \<longleftrightarrow> (case r of Inl e \<Rightarrow> True | Inr hp \<Rightarrow> h_addrtype hp \<in> {AF_INET, AF_INET6} \<and> (\<forall>a \<in> set (h_addr_list hp). addr_ok (h_addrtype hp, a)))"

definition resolver_ok :: "genv \<Rightarrow> bool" where
  "resolver_ok env \<longleftrightarrow>
     (\<forall>t a. e_pton env AF_INET t = Inr (Some a) \<longrightarrow> length a = 4) \<and>
     (\<forall>t a. e_pton env AF_INET6 t = Inr (Some a) \<longrightarrow> length a = 16) \<and>
     (\<forall>t fam. hostent_ok (e_gethostbyname2 env t fam)) \<and> (\<forall>v6 t. hostent_ok (e_gethostbyname env v6 t))"

lemma addr_ok_family: "addr_ok (fam, a) \<Longrightarrow> fam = AF_INET \<or> fam = AF_INET6"
  by (auto simp: addr_ok_def)

lemma numeric_of_ok: "resolver_ok env \<Longrightarrow> numeric_of env t = Some x \<Longrightarrow> addr_ok x"
  by (auto simp: numeric_of_def resolver_ok_def addr_ok_def split: sum.splits option.splits if_splits)

lemma lookup_of_ok: "resolver_ok env \<Longrightarrow> lookup_of env n s = Inr hp \<Longrightarrow> a \<in> set (h_addr_list hp) \<Longrightarrow> addr_ok (h_addrtype hp, a)"
  unfolding lookup_of_def resolver_ok_def hostent_ok_def by (metis (no_types, lifting) sum.case(2))

lemma host_answer_ok:
  assumes "resolver_ok env" and "host_answer env hints n s = Inr (name, xs)" and "x \<in> set xs"
  shows "addr_ok x"
proof (cases "numeric_of env (s_host s)")
  case None
  with assms lookup_of_ok [OF assms(1), of n s] show ?thesis by (auto simp: host_answer_def split: sum.splits if_splits)
next
  case (Some y)
  with assms numeric_of_ok [OF assms(1)] show ?thesis by (auto simp: host_answer_def split: if_splits prod.splits)
qed

lemma ref_hosts_ok: "resolver_ok env \<Longrightarrow> ref_hosts env want hints n ss canon = Inr (c, xs) \<Longrightarrow> x \<in> set xs \<Longrightarrow> addr_ok x"
proof (induction ss arbitrary: canon c xs)
  case (Cons s ss)
  show ?case
  proof (cases "host_answer env hints n s")
    case (Inr y)
    obtain name ys where y: "y = (name, ys)" by fastforce
    show ?thesis using Cons Inr y host_answer_ok [OF Cons.prems(1), of hints n s name ys x]
      by (cases "ref_hosts env want hints n ss (first_name want canon name)") auto
  qed (use Cons.prems in simp)
qed simp

section \<open>The loop builds the entries of the reference\<close>

lemma galloc_fails: "galloc env st = (False, st') \<Longrightarrow> \<exists>n. e_fails env n"
  by (auto simp: galloc_def split: if_splits)

lemma aistruct_entry:
  assumes "ga_aistruct env hints (Addr_bytes a) fam (l, st) = (r, l', st')" and "addr_ok (fam, a)"
  shows "(r = None \<and> l' = l @ [ga_entry hints (fam, a)]) \<or> (r = Some EAI_MEMORY \<and> (\<exists>n. e_fails env n))"
  using assms addr_ok_family [OF assms(2)]
  by (auto simp: ga_aistruct_def ga_entry_def Let_def galloc_def split: prod.splits bool.splits if_splits)

lemma addrs_entries:
  assumes "ga_addrs env hints fam as (l, st) = (r, l', st')" and "\<forall>a \<in> set as. addr_ok (fam, a)"
  shows "(r = None \<and> l' = l @ map (ga_entry hints \<circ> Pair fam) as) \<or> (r = Some EAI_MEMORY \<and> (\<exists>n. e_fails env n))"
  using assms
proof (induction as arbitrary: l st)
  case (Cons a as)
  obtain q m su where q: "ga_aistruct env hints (Addr_bytes a) fam (l, st) = (q, m, su)" by (metis prod_cases3)
  from aistruct_entry [OF q] Cons.prems Cons.IH [of m su] show ?case by (auto simp: q)
qed simp

lemma numeric_entries:
  assumes "ga_numeric env hints s (l, st) = Some (r, l', st')" and "resolver_ok env"
  shows "(case r of None \<Rightarrow> \<exists>xs. host_answer env hints n s = Inr (None, xs) \<and> l' = l @ map (ga_entry hints) xs
           | Some e \<Rightarrow> host_answer env hints n s = Inl e \<or> (e = EAI_MEMORY \<and> (\<exists>n. e_fails env n)))"
proof -
  obtain fam a where nm: "numeric_of env (s_host s) = Some (fam, a)" and ok: "addr_ok (fam, a)"
    and lit: "(r, l', st') = (if gh_family hints \<noteq> AF_UNSPEC \<and> gh_family hints \<noteq> fam then (Some EAI_ADDRFAMILY, l, st)
       else if s_family s \<noteq> fam then (None, l, st) else ga_aistruct env hints (Addr_bytes a) fam (l, st))"
    using assms unfolding ga_numeric_def ga_literal_def numeric_of_def resolver_ok_def addr_ok_def Let_def
    by (auto split: if_splits option.splits sum.splits)
  show ?thesis
  proof (cases "gh_family hints \<noteq> AF_UNSPEC \<and> gh_family hints \<noteq> fam \<or> s_family s \<noteq> fam")
    case True
    with lit nm show ?thesis by (auto simp: host_answer_def split: if_splits)
  next
    case False
    with lit have "ga_aistruct env hints (Addr_bytes a) fam (l, st) = (r, l', st')" by auto
    from aistruct_entry [OF this ok] False nm show ?thesis by (auto simp: host_answer_def)
  qed
qed

lemma numeric_None: "ga_numeric env hints s ls = None \<longleftrightarrow> numeric_of env (s_host s) = None"
  by (auto simp: ga_numeric_def ga_literal_def numeric_of_def Let_def split: if_splits option.splits sum.splits)

lemma lookup_fst: "ga_lookup env n s st = (x, st') \<Longrightarrow> x = lookup_of env n s \<and> ga_live st' = ga_live st"
  by (auto simp: ga_lookup_def lookup_of_def Let_def split: if_splits)

lemma numeric_outside: "ga_numeric env hints s ls = Some (r, ls') \<Longrightarrow> outside ls' = outside ls"
  by (auto simp: ga_numeric_def ga_literal_def Let_def dest: outside_aistruct split: if_splits option.splits sum.splits)

lemma hosts_outside:
  "ga_hosts env hostname hints n ss canon (l, st) = (r, canon', ls') \<Longrightarrow>
   outside ls' - of_bool (canon' \<noteq> None) = outside (l, st) - of_bool (canon \<noteq> None)"
proof (induction ss arbitrary: canon l st)
  case (Cons s ss)
  let ?want = "want_canon hostname hints"
  obtain x st1 where x: "ga_lookup env n s st = (x, st1)" by fastforce
  then have live: "ga_live st1 = ga_live st" by (blast dest: lookup_fst)
  show ?case
  proof (cases "ga_numeric env hints s (l, st)")
    case (Some y)
    obtain q m su where y: "y = (q, m, su)" by (metis prod_cases3)
    from numeric_outside [of env hints s "(l, st)" q "(m, su)"] Some y Cons.prems Cons.IH [of canon m su]
    show ?thesis by (cases q) auto
  next
    case None
    show ?thesis
    proof (cases x)
      case (Inl e)
      with None x live Cons.prems Cons.IH [of canon l st1] show ?thesis by (auto split: if_splits)
    next
      case (Inr hp)
      obtain b st2 where b: "(if ?want \<and> canon = None then galloc env st1 else (True, st1)) = (b, st2)" by fastforce
      then have l2: "ga_live st2 = ga_live st + of_bool (b \<and> ?want \<and> canon = None)"
        using live by (auto dest: live_galloc split: if_splits)
      obtain q m su where q: "ga_addrs env hints (h_addrtype hp) (h_addr_list hp) (l, st2) = (q, m, su)" by (metis prod_cases3)
      have o: "outside (m, su) = outside (l, st2)" by (rule outside_addrs [OF q])
      show ?thesis
      proof (cases "gh_family hints \<noteq> AF_UNSPEC \<and> gh_family hints \<noteq> h_addrtype hp \<or> \<not> b")
        case True
        with None x Inr b live l2 Cons.prems show ?thesis by (auto split: if_splits)
      next
        case False
        let ?c = "if ?want \<and> canon = None then Some (h_name hp) else canon"
        have body: "(r, canon', ls') = (case q of Some e \<Rightarrow> (Some e, ?c, m, su) | None \<Rightarrow> ga_hosts env hostname hints n ss ?c (m, su))"
          using False None x Inr b q Cons.prems by (auto simp: Let_def split: option.splits)
        then have "outside ls' - of_bool (canon' \<noteq> None) = outside (m, su) - of_bool (?c \<noteq> None)"
          using Cons.IH [of ?c m su] by (cases q) auto
        with o l2 False show ?thesis by auto
      qed
    qed
  qed
qed simp

lemma hosts_entries:
  assumes "resolver_ok env" and "ga_hosts env hostname hints n ss canon (l, st) = (r, canon', l', st')"
  shows "(case r of None \<Rightarrow> \<exists>xs. ref_hosts env (want_canon hostname hints) hints n ss canon = Inr (canon', xs) \<and> l' = l @ map (ga_entry hints) xs
           | Some e \<Rightarrow> ref_hosts env (want_canon hostname hints) hints n ss canon = Inl e \<or> (e = EAI_MEMORY \<and> (\<exists>n. e_fails env n)))"
  using assms(2)
proof (induction ss arbitrary: canon l st)
  case (Cons s ss)
  let ?want = "want_canon hostname hints"
  obtain x st1 where x: "ga_lookup env n s st = (x, st1)" by fastforce
  then have lk: "lookup_of env n s = x" by (blast dest: lookup_fst)
  show ?case
  proof (cases "ga_numeric env hints s (l, st)")
    case (Some y)
    obtain q m su where y: "y = (q, m, su)" by (metis prod_cases3)
    from numeric_entries [OF _ assms(1), of hints s l st q m su n] Some y
    show ?thesis using Cons.prems Cons.IH [of canon m su]
      by (cases q) (auto simp: first_name_def split: option.splits)
  next
    case None
    then have nm: "numeric_of env (s_host s) = None" by (simp add: numeric_None)
    show ?thesis
    proof (cases x)
      case (Inl e)
      with None nm lk x Cons.prems Cons.IH [of canon l st1] show ?thesis
        by (auto simp: host_answer_def first_name_def split: if_splits option.splits)
    next
      case (Inr hp)
      show ?thesis
      proof (cases "gh_family hints \<noteq> AF_UNSPEC \<and> gh_family hints \<noteq> h_addrtype hp")
        case True
        with None nm lk x Inr Cons.prems show ?thesis by (auto simp: host_answer_def)
      next
        case fam: False
        then have ans: "host_answer env hints n s = Inr (Some (h_name hp), map (Pair (h_addrtype hp)) (h_addr_list hp))"
          using nm lk Inr by (auto simp: host_answer_def)
        obtain b st2 where b: "(if ?want \<and> canon = None then galloc env st1 else (True, st1)) = (b, st2)" by fastforce
        obtain q m su where q: "ga_addrs env hints (h_addrtype hp) (h_addr_list hp) (l, st2) = (q, m, su)" by (metis prod_cases3)
        have ok: "\<forall>a \<in> set (h_addr_list hp). addr_ok (h_addrtype hp, a)" using lookup_of_ok [OF assms(1)] lk Inr by blast
        show ?thesis
        proof (cases b)
          case False
          then have "\<exists>n. e_fails env n" using b by (auto dest: galloc_fails split: if_splits)
          with False None x Inr fam b Cons.prems show ?thesis by auto
        next
          case True
          from addrs_entries [OF q ok] True None x Inr fam b q ans Cons.prems Cons.IH [of "first_name ?want canon (Some (h_name hp))" m su]
          show ?thesis by (auto simp: first_name_def split: option.splits)
        qed
      qed
    qed
  qed
qed simp

section \<open>The service\<close>

definition fresh_ai :: "ghints \<Rightarrow> ainfo \<Rightarrow> bool" where
  "fresh_ai hints ai \<longleftrightarrow> a_flags ai = (if gh_socktype hints = 0 then AI_CLONE else 0) \<and> a_socktype ai = gh_socktype hints \<and>
     a_addr ai \<noteq> None \<and> (a_family ai = AF_INET \<or> a_family ai = AF_INET6)"

lemma ga_set_fields [simp]:
  "a_flags (ga_set p t ai) = a_flags ai" "a_socktype (ga_set p t ai) = t" "a_family (ga_set p t ai) = a_family ai"
  "a_protocol (ga_set p t ai) = a_protocol ai" "a_canonname (ga_set p t ai) = a_canonname ai" "a_addrlen (ga_set p t ai) = a_addrlen ai"
  "a_addr (ga_set p t ai) = None \<longleftrightarrow> a_addr ai = None"
  by (simp_all add: ga_set_def)

lemma put_port_again [simp]: "put_port q (put_port p sa) = put_port q sa"
  by (cases sa) simp_all

lemma twin_set [simp]: "ga_set q u (twin (ga_set p t ai)) = ga_set q u (twin ai)"
  by (cases ai) (simp add: ga_set_def twin_def option.map_comp comp_def)

text \<open>A call that finds every entry ready for it.\<close>

lemma ga_port_fills:
  assumes "\<forall>ai \<in> set l. (a_family ai = AF_INET \<or> a_family ai = AF_INET6) \<and> (if has (a_flags ai) AI_CLONE then a_socktype ai = 0 else a_socktype ai = t)"
  shows "ga_port env p t l st = (Some (length l), map (ga_set p t) l, st)"
  using assms by (induction l) (auto simp: counts_def split: if_splits)

text \<open>A call that finds every entry taken by another socket type.\<close>

lemma ga_port_doubles:
  assumes "ga_port env p t l st = (r, l', st')"
    and "\<forall>ai \<in> set l. (a_family ai = AF_INET \<or> a_family ai = AF_INET6) \<and> has (a_flags ai) AI_CLONE \<and> a_socktype ai \<noteq> 0"
  shows "(r = Some (length l) \<and> l' = concat (map (\<lambda>ai. [ai, ga_set p t (twin ai)]) l)) \<or> (r = None \<and> (\<exists>n. e_fails env n))"
  using assms
proof (induction l arbitrary: r l' st st')
  case (Cons ai l)
  obtain b extra st1 where c: "ga_clone env ai st = (b, extra, st1)" by (metis prod_cases3)
  obtain q m su where q: "ga_port env p t l st1 = (q, m, su)" by (metis prod_cases3)
  have "if b then extra = [twin ai] else \<exists>n. e_fails env n"
    using c by (cases ai) (auto simp: ga_clone_def twin_def Let_def dest: galloc_fails split: prod.splits bool.splits)
  with Cons.IH [OF q] Cons.prems c q show ?case by (auto simp: counts_def twin_def split: bool.splits if_splits)
qed simp

lemma serv_calls_shape:
  "serv_calls env hints serv = [] \<or>
   (\<exists>p t. serv_calls env hints serv = [(p, t)] \<and> (gh_socktype hints \<noteq> 0 \<longrightarrow> t = gh_socktype hints)) \<or>
   (\<exists>p t q u. serv_calls env hints serv = [(p, t), (q, u)] \<and> gh_socktype hints = 0 \<and> t \<noteq> 0)"
  by (cases "e_getservbyname env serv ''tcp''"; cases "e_getservbyname env serv ''udp''") (simp_all add: serv_calls_def sock_types)

lemma serv_calls_cases:
  obtains "serv_calls env hints serv = []"
  | p t where "serv_calls env hints serv = [(p, t)]" "gh_socktype hints \<noteq> 0 \<longrightarrow> t = gh_socktype hints"
  | p t q u where "serv_calls env hints serv = [(p, t), (q, u)]" "gh_socktype hints = 0" "t \<noteq> 0"
  using serv_calls_shape [of env hints serv] by blast

lemma has_clone [simp]: "has AI_CLONE AI_CLONE" "\<not> has 0 f"
  by (simp_all add: has_def AI_CLONE_def)

lemma ga_serv_ports:
  assumes run: "ga_serv env hints serv (l, st) = (r, l', st')" and fresh: "\<forall>ai \<in> set l. fresh_ai hints ai" and ne: "l \<noteq> []"
  shows "outside (l', st') = outside (l, st) \<and>
    ((r = None \<and> serv_calls env hints serv \<noteq> [] \<and> l' = concat (map (\<lambda>ai. with_ports ai (serv_calls env hints serv)) l)) \<or>
     (r = Some (if gh_socktype hints = 0 then EAI_NONAME else EAI_SERVICE) \<and> serv_calls env hints serv = []) \<or>
     (r = Some EAI_MEMORY \<and> (\<exists>n. e_fails env n)))"
proof (cases rule: serv_calls_cases [of env hints serv])
  case 1
  with run show ?thesis by (auto simp: ga_serv_def)
next
  case (2 p t)
  then have "ga_port env p t l st = (Some (length l), map (ga_set p t) l, st)"
    using fresh by (intro ga_port_fills) (auto simp: fresh_ai_def)
  with 2 run ne show ?thesis by (auto simp: ga_serv_def)
next
  case (3 p t q u)
  have first: "ga_port env p t l st = (Some (length l), map (ga_set p t) l, st)"
    using fresh 3 by (intro ga_port_fills) (auto simp: fresh_ai_def)
  obtain s m su where sec: "ga_port env q u (map (ga_set p t) l) st = (s, m, su)" by (metis prod_cases3)
  have out: "outside (m, su) = outside (l, st)"
    using outside_port [OF sec] fresh unfolding fresh_ai_def by simp (metis ga_set_fields(7) not_None_eq)
  have "(s = Some (length l) \<and> m = concat (map (\<lambda>ai. [ai, ga_set q u (twin ai)]) (map (ga_set p t) l))) \<or> (s = None \<and> (\<exists>n. e_fails env n))"
    using ga_port_doubles [OF sec] fresh 3 by (auto simp: fresh_ai_def)
  with 3 run ne first sec out show ?thesis by (auto simp: ga_serv_def comp_def)
qed

section \<open>The whole function\<close>

lemma ga_entry_fresh: "addr_ok x \<Longrightarrow> fresh_ai hints (ga_entry hints x)"
  by (auto simp: fresh_ai_def ga_entry_def addr_ok_def split: prod.splits)

lemma fresh_canon: "\<forall>ai \<in> set l. fresh_ai hints ai \<Longrightarrow> \<forall>ai \<in> set (set_canon name l). fresh_ai hints ai"
  by (cases l) (auto simp: set_canon_def fresh_ai_def)

lemma blocks_canon: "l \<noteq> [] \<Longrightarrow> a_canonname (hd l) = None \<Longrightarrow> blocks (set_canon name l) = blocks l + 1"
  by (cases l) (auto simp: set_canon_def ai_blocks_def)

lemma searches_family: "ga_searches hostname hints = [] \<longleftrightarrow> (\<exists>n. gh_family hints = AF_OTHER n) \<or> gh_family hints = AF_UNIX"
  by (auto simp: ga_searches_def split: option.splits list.splits family.splits if_splits)

lemma searches_length: "length (ga_searches hostname hints) \<le> 2"
  by (auto simp: ga_searches_def split: option.splits list.splits family.splits if_splits)

lemma echeck_family: "ga_echeck hostname servname flags (AF_OTHER n) ty proto \<noteq> None"
  by (simp add: ga_echeck_def)

lemma hosts_canon:
  "ga_hosts env hostname hints n ss canon ls = (r, canon', ls') \<Longrightarrow> \<not> want_canon hostname hints \<Longrightarrow> canon' = canon"
  by (induction env hostname hints n ss canon ls rule: ga_hosts.induct)
    (auto simp: Let_def split: option.splits prod.splits sum.splits if_splits)

lemma ga_canon_result:
  assumes "ga_canon env hostname hints host0 canon (ai # l, st) = (q, l2, st2)" and "a_canonname ai = None"
    and "canon \<noteq> None \<longrightarrow> want_canon hostname hints"
  shows "(q = None \<and> l2 = ai\<lparr>a_canonname := canon_of hostname hints host0 canon\<rparr> # l \<and> outside (l2, st2) = outside (ai # l, st) - of_bool (canon \<noteq> None)) \<or>
    (q = Some EAI_MEMORY \<and> (\<exists>n. e_fails env n) \<and> outside (l2, st2) = outside (ai # l, st) \<and> canon = None)"
  using assms
  by (cases ai) (auto simp: ga_canon_def canon_of_def set_canon_def ai_blocks_def dest: live_galloc galloc_fails split: if_splits option.splits prod.splits bool.splits)

text \<open>
  The outcome against the reference: the list of the reference, with nothing allocated besides; or an error, that of the reference unless the memory ran out, with
  at most the canonical name left allocated.
\<close>

definition ga_post :: "genv \<Rightarrow> eai + ainfo list \<Rightarrow> bool \<Rightarrow> int \<Rightarrow> (eai + ainfo list, gst) outcome \<Rightarrow> bool" where
  "ga_post env ref leak base out \<longleftrightarrow> (\<exists>r st'. out = Ret r st' \<and>
     (case r of
        Inr l \<Rightarrow> ref = Inr l \<and> ga_live st' = base + blocks l
      | Inl e \<Rightarrow> (ref = Inl e \<or> e = EAI_MEMORY \<and> (\<exists>n. e_fails env n)) \<and> base \<le> ga_live st' \<and> ga_live st' \<le> base + of_bool leak))"

lemma ga_bad_post:
  "ref = Inl e \<or> e = EAI_MEMORY \<and> (\<exists>n. e_fails env n) \<Longrightarrow> base \<le> outside ls \<Longrightarrow> outside ls \<le> base + of_bool leak \<Longrightarrow> ga_post env ref leak base (ga_bad e ls)"
  by (cases ls) (auto simp: ga_post_def ga_bad_def)

lemma ga_post_success:
  assumes "ga_post env ref leak base out" and "ref = Inr l" and "\<forall>n. \<not> e_fails env n"
  shows "\<exists>st'. out = Ret (Inr l) st' \<and> ga_live st' = base + blocks l"
proof -
  obtain r st' where "out = Ret r st'" and "case r of Inr l \<Rightarrow> ref = Inr l \<and> ga_live st' = base + blocks l
      | Inl e \<Rightarrow> (ref = Inl e \<or> e = EAI_MEMORY \<and> (\<exists>n. e_fails env n)) \<and> base \<le> ga_live st' \<and> ga_live st' \<le> base + of_bool leak"
    using assms(1) unfolding ga_post_def by blast
  with assms(2,3) show ?thesis by (cases r) auto
qed

lemma ga_rest_post:
  assumes want: "canon \<noteq> None \<longrightarrow> want_canon hostname hints" and ok: "\<forall>x \<in> set xs. addr_ok x"
    and base: "base = outside (map (ga_entry hints) xs, st) - of_bool (canon \<noteq> None)"
  shows "ga_post env (ref_rest env hostname servname hints host0 canon xs) (want_canon hostname hints) base
    (ga_rest env hostname servname hints host0 canon (map (ga_entry hints) xs, st))"
proof (cases xs)
  case Nil
  with want base show ?thesis by (auto simp: ga_rest_def ref_rest_def intro!: ga_bad_post)
next
  case (Cons x ys)
  let ?ai = "(ga_entry hints x)\<lparr>a_canonname := canon_of hostname hints host0 canon\<rparr>"
  let ?l = "?ai # map (ga_entry hints) ys"
  have fresh: "\<forall>ai \<in> set ?l. fresh_ai hints ai" using ok Cons ga_entry_fresh by (auto simp: fresh_ai_def)
  have cn: "a_canonname (ga_entry hints x) = None" by (simp add: ga_entry_def split: prod.splits)
  obtain q l2 st2 where c: "ga_canon env hostname hints host0 canon (ga_entry hints x # map (ga_entry hints) ys, st) = (q, l2, st2)" by (metis prod_cases3)
  from ga_canon_result [OF c cn want] show ?thesis
  proof (elim disjE conjE)
    assume q: "q = None" and l2: "l2 = ?l" and o2: "outside (l2, st2) = outside (ga_entry hints x # map (ga_entry hints) ys, st) - of_bool (canon \<noteq> None)"
    then have b: "outside (?l, st2) = base" using base Cons by simp
    obtain r l3 st3 where s: "ga_serv env hints (the servname) (?l, st2) = (r, l3, st3)" by (metis prod_cases3)
    note sp = ga_serv_ports [OF s fresh]
    show ?thesis
    proof (cases "absent servname")
      case True
      with q l2 b c Cons show ?thesis by (auto simp: ga_rest_def ref_rest_def ga_post_def Let_def)
    next
      case False
      have o3: "outside (l3, st3) = base" using sp b by simp
      show ?thesis
      proof (cases r)
        case None
        with sp o3 q l2 c s Cons False show ?thesis by (auto simp: ga_rest_def ref_rest_def ga_post_def Let_def)
      next
        case (Some e)
        have "ga_rest env hostname servname hints host0 canon (map (ga_entry hints) xs, st) = ga_bad e (l3, st3)"
          using q l2 c s Cons False Some by (simp add: ga_rest_def)
        with sp o3 Cons False Some show ?thesis by (auto simp: ref_rest_def Let_def intro!: ga_bad_post)
      qed
    qed
  next
    assume "q = Some EAI_MEMORY" "\<exists>n. e_fails env n" "outside (l2, st2) = outside (ga_entry hints x # map (ga_entry hints) ys, st)" "canon = None"
    with c base Cons show ?thesis by (auto simp: ga_rest_def intro!: ga_bad_post)
  qed
qed

lemma getaddrinfo_post:
  fixes hintsp hostname servname
  defines "hints \<equiv> ga_hints hintsp"
  assumes ok: "resolver_ok env" and un: "\<not> is_unix hostname servname" and fam: "gh_family hints \<noteq> AF_UNIX"
  shows "ga_post env (ref_getaddrinfo env hostname servname hints) (want_canon hostname hints) (ga_live st) (getaddrinfo env hostname servname hintsp st)"
proof (cases "ga_echeck hostname servname (gh_flags hints) (gh_family hints) (gh_socktype hints) (gh_protocol hints)")
  case (Some e)
  then show ?thesis by (auto simp: getaddrinfo_def ref_getaddrinfo_def hints_def intro!: ga_bad_post)
next
  case echeck: None
  let ?ss = "ga_searches hostname hints" and ?want = "want_canon hostname hints"
  have ss: "?ss \<noteq> []" using echeck fam echeck_family searches_family [of hostname hints] by fastforce
  then have ns: "ga_nsearch hostname hints st = Ret ?ss st"
    using searches_length [of hostname hints] by (cases ?ss) (auto simp: ga_nsearch_def Let_def returnP_def)
  obtain r canon l st1 where h: "ga_hosts env hostname hints (length ?ss) ?ss None ([], st) = (r, canon, l, st1)" by (metis prod_cases4)
  have out: "outside (l, st1) - of_bool (canon \<noteq> None) = ga_live st" using hosts_outside [OF h] by simp
  have want: "canon \<noteq> None \<longrightarrow> ?want" using hosts_canon [OF h] by blast
  note ent = hosts_entries [OF ok h]
  have run: "getaddrinfo env hostname servname hintsp st =
      (case r of Some e \<Rightarrow> ga_bad e (l, st1) | None \<Rightarrow> ga_rest env hostname servname hints (s_host (hd ?ss)) canon (l, st1))"
    using echeck un ns h by (simp add: getaddrinfo_def hints_def [symmetric] Let_def split: option.splits)
  have ref: "ref_getaddrinfo env hostname servname hints =
      (case ref_hosts env ?want hints (length ?ss) ?ss None of Inl e \<Rightarrow> Inl e | Inr (canon, xs) \<Rightarrow> ref_rest env hostname servname hints (s_host (hd ?ss)) canon xs)"
    using echeck by (simp add: ref_getaddrinfo_def Let_def)
  show ?thesis
  proof (cases r)
    case (Some e)
    have "ga_live st \<le> outside (l, st1)" "outside (l, st1) \<le> ga_live st + of_bool ?want"
      using out want by (cases canon; auto)+
    with ent Some show ?thesis by (auto simp: run ref intro!: ga_bad_post)
  next
    case None
    with ent obtain xs where rh: "ref_hosts env ?want hints (length ?ss) ?ss None = Inr (canon, xs)" and l: "l = map (ga_entry hints) xs" by auto
    have "\<forall>x \<in> set xs. addr_ok x" using ref_hosts_ok [OF ok rh] by blast
    from ga_rest_post [OF want this, of "ga_live st" st1 env servname "s_host (hd ?ss)"] out None rh l show ?thesis by (simp add: run ref)
  qed
qed

text \<open>The Unix domain: the entries, and what an error leaves allocated.\<close>

definition unix_entry :: "ghints \<Rightarrow> string \<Rightarrow> int \<Rightarrow> ainfo" where
  "unix_entry hints path ty =
     \<lparr>a_flags = 0, a_family = AF_UNIX, a_socktype = ty, a_protocol = gh_protocol hints, a_addrlen = 110, a_canonname = None,
      a_addr = Some (Sockaddr_un (path @ replicate (108 - length path) NUL))\<rparr>"

lemma unix_entry_sel: "a_canonname (unix_entry hints path ty) = None" "a_socktype (unix_entry hints path ty) = ty"
  by (simp_all add: unix_entry_def)

lemma aistruct_unix:
  assumes "ga_aistruct env (hints\<lparr>gh_socktype := ty\<rparr>) (Addr_path path) AF_UNIX (l, st) = (r, l', st')" and "ty \<noteq> 0"
  shows "(r = None \<longrightarrow> l' = l @ [unix_entry hints path ty] \<and> length path < 108) \<and> outside (l', st') = outside (l, st)"
  using assms outside_aistruct [OF assms(1)]
  by (auto simp: ga_aistruct_def unix_entry_def ga_addr_def Let_def split: prod.splits bool.splits if_splits)

lemma hints_same [simp]: "(h :: ghints)\<lparr>gh_socktype := gh_socktype h\<rparr> = h"
  by simp

lemma ga_unix_result:
  assumes "ga_unix env path hints st = Ret (Inr l) st'"
  shows "length path < 108 \<and> gh_family hints \<in> {AF_UNSPEC, AF_UNIX} \<and> ga_live st' = ga_live st + blocks l \<and>
    (\<exists>name. (name \<noteq> None \<longleftrightarrow> has (gh_flags hints) AI_CANONNAME) \<and>
       (if gh_socktype hints = 0
        then l = [(unix_entry hints path sock_stream)\<lparr>a_canonname := name\<rparr>, unix_entry hints path sock_dgram]
        else l = [(unix_entry hints path (gh_socktype hints))\<lparr>a_canonname := name\<rparr>]))"
proof -
  let ?h = "\<lambda>ty. hints\<lparr>gh_socktype := ty\<rparr>"
  let ?ty = "if gh_socktype hints = 0 then sock_dgram else gh_socktype hints"
  obtain r1 l1 st1 where a: "(if gh_socktype hints = 0 then ga_aistruct env (?h sock_stream) (Addr_path path) AF_UNIX ([], st) else (None, [], st)) = (r1, l1, st1)"
    by (metis prod_cases3)
  obtain r2 l2 st2 where b: "ga_aistruct env (?h ?ty) (Addr_path path) AF_UNIX (l1, st1) = (r2, l2, st2)" by (metis prod_cases3)
  have h: "(if gh_socktype hints = 0 then ?h sock_dgram else hints) = ?h ?ty" by simp
  have r: "r1 = None" "r2 = None" using assms a b unfolding ga_unix_def h by (auto split: if_splits option.splits)
  have o1: "outside (l1, st1) = ga_live st \<and> l1 = (if gh_socktype hints = 0 then [unix_entry hints path sock_stream] else [])"
    using a r(1) aistruct_unix [of env sock_stream hints path "[]" st r1 l1 st1] by (auto simp: sock_types split: if_splits)
  have o2: "outside (l2, st2) = ga_live st" "l2 = l1 @ [unix_entry hints path ?ty]" "length path < 108"
    using aistruct_unix [OF b] r(2) o1 by (auto simp: sock_types)
  have last: "(if has (gh_flags hints) AI_CANONNAME then \<exists>name. e_uname env = Some name \<and> galloc env st2 = (True, st') \<and> l = set_canon name l2 else l = l2 \<and> st' = st2)"
    and fam: "gh_family hints \<in> {AF_UNSPEC, AF_UNIX}"
    using assms a b r unfolding ga_unix_def h by (auto split: if_splits option.splits prod.splits bool.splits)
  have c: "a_canonname (unix_entry hints path ty) = None" for ty by (simp add: unix_entry_def)
  show ?thesis
  proof (cases "has (gh_flags hints) AI_CANONNAME")
    case True
    with last obtain name where n: "galloc env st2 = (True, st')" "l = set_canon name l2" by auto
    with True o1 o2 fam live_galloc [OF n(1)] c show ?thesis
      by (auto simp: set_canon_def ai_blocks_def intro!: exI [of _ "Some name"])
  next
    case False
    with last o1 o2 fam c show ?thesis by (auto intro!: exI [of _ None] simp: unix_entry_def)
  qed
qed

section \<open>Properties of getaddrinfo\<close>

lemma getaddrinfo_af_unix:
  assumes "\<not> is_unix hostname servname" and "gh_family (ga_hints hintsp) = AF_UNIX"
  shows "getaddrinfo env hostname servname hintsp st =
    (case ga_echeck hostname servname (gh_flags (ga_hints hintsp)) AF_UNIX (gh_socktype (ga_hints hintsp)) (gh_protocol (ga_hints hintsp)) of
       Some e \<Rightarrow> Ret (Inl e) st | None \<Rightarrow> Die (Err_quit ''nsearch = 0'') st)"
proof -
  have "ga_searches hostname (ga_hints hintsp) = []" using assms(2) searches_family by blast
  moreover have "dec_nat 0 = ''0''" by (subst dec_nat.simps) (simp add: digit_chars_def)
  ultimately show ?thesis using assms by (auto simp: getaddrinfo_def ga_nsearch_def Let_def ga_bad_def dieP_def split: option.splits)
qed

lemma ga_unix_returns: "\<exists>r st'. ga_unix env path hints st = Ret r st'"
  by (auto simp: ga_unix_def split: option.splits prod.splits bool.splits)

lemma getaddrinfo_unix:
  assumes "is_unix hostname servname"
  shows "getaddrinfo env hostname servname hintsp st =
    (case ga_echeck hostname servname (gh_flags (ga_hints hintsp)) (gh_family (ga_hints hintsp)) (gh_socktype (ga_hints hintsp)) (gh_protocol (ga_hints hintsp)) of
       Some e \<Rightarrow> Ret (Inl e) st | None \<Rightarrow> ga_unix env (the servname) (ga_hints hintsp) st)"
  using assms by (auto simp: getaddrinfo_def Let_def ga_bad_def split: option.splits)



text \<open>
  The only call of \<^verbatim>\<open>getaddrinfo\<close> that ends the process is one with the hint \<^verbatim>\<open>AF_LOCAL\<close> that passes the checks and is not of the form
  \<^verbatim>\<open>/local\<close> or \<^verbatim>\<open>/unix\<close> with an absolute pathname: there is no search for it, and \<^verbatim>\<open>ga_nsearch\<close> calls \<^verbatim>\<open>err_quit\<close>.
\<close>

theorem getaddrinfo_dies_iff:
  assumes "resolver_ok env"
  shows "getaddrinfo env hostname servname hintsp st = Die f st' \<longleftrightarrow>
    f = Err_quit ''nsearch = 0'' \<and> st' = st \<and> gh_family (ga_hints hintsp) = AF_UNIX \<and> \<not> is_unix hostname servname \<and>
    ga_echeck hostname servname (gh_flags (ga_hints hintsp)) AF_UNIX (gh_socktype (ga_hints hintsp)) (gh_protocol (ga_hints hintsp)) = None"
proof (cases "is_unix hostname servname")
  case True
  with ga_unix_returns [of env "the servname" "ga_hints hintsp" st] show ?thesis by (auto simp: getaddrinfo_unix split: option.splits)
next
  case un: False
  show ?thesis
  proof (cases "gh_family (ga_hints hintsp) = AF_UNIX")
    case True
    with un show ?thesis by (auto simp: getaddrinfo_af_unix split: option.splits)
  next
    case False
    from getaddrinfo_post [OF assms un False, of st] False show ?thesis by (auto simp: ga_post_def)
  qed
qed

section \<open>Types of the entries\<close>

fun sa_size :: "sockaddr \<Rightarrow> nat" where
  "sa_size (Sockaddr_in p a) = 16"
| "sa_size (Sockaddr_in6 p a) = 28"
| "sa_size (Sockaddr_un path) = 110"
| "sa_size (Sockaddr_other n) = 0"

text \<open>An entry is consistent in itself and with the hints.\<close>

definition ai_ok :: "ghints \<Rightarrow> ainfo \<Rightarrow> bool" where
  "ai_ok hints ai \<longleftrightarrow>
     (\<exists>sa. a_addr ai = Some sa \<and> sa_family sa = a_family ai \<and> sa_wf sa \<and> a_addrlen ai = sa_size sa) \<and>
     a_protocol ai = gh_protocol hints \<and> (gh_family hints \<noteq> AF_UNSPEC \<longrightarrow> a_family ai = gh_family hints) \<and>
     (if gh_socktype hints = 0 then a_socktype ai \<in> {0, sock_stream, sock_dgram} else a_socktype ai = gh_socktype hints)"

lemma put_port_typed [simp]: "sa_family (put_port p sa) = sa_family sa" "sa_wf (put_port p sa) = sa_wf sa" "sa_size (put_port p sa) = sa_size sa"
  by (cases sa; simp)+

text \<open>A socket type the hints allow.\<close>

definition type_ok :: "ghints \<Rightarrow> int \<Rightarrow> bool" where
  "type_ok hints t \<longleftrightarrow> (if gh_socktype hints = 0 then t = sock_stream \<or> t = sock_dgram else t = gh_socktype hints)"

lemma type_ok_nonzero: "type_ok hints t \<Longrightarrow> t \<noteq> 0"
  by (auto simp: type_ok_def sock_types split: if_splits)

lemma ai_ok_set: "ai_ok hints ai \<Longrightarrow> type_ok hints t \<Longrightarrow> ai_ok hints (ga_set p t ai)"
  by (auto simp: ai_ok_def ga_set_def type_ok_def split: if_splits)

lemma ai_ok_twin: "ai_ok hints (twin ai) = ai_ok hints ai" "ai_ok hints (ai\<lparr>a_canonname := c\<rparr>) = ai_ok hints ai"
  by (simp_all add: ai_ok_def twin_def)

lemma serv_calls_types:
  assumes "(p, t) \<in> set (serv_calls env hints serv)"
  shows "type_ok hints t"
proof -
  have "list_all (\<lambda>c. type_ok hints (snd c)) (serv_calls env hints serv)"
    by (cases "e_getservbyname env serv ''tcp''"; cases "e_getservbyname env serv ''udp''") (simp_all add: serv_calls_def type_ok_def)
  with assms show ?thesis by (auto simp: list_all_iff)
qed

lemma ga_entry_ok: "addr_ok x \<Longrightarrow> gh_family hints = AF_UNSPEC \<or> gh_family hints = fst x \<Longrightarrow> ai_ok hints (ga_entry hints x)"
  by (auto simp: ai_ok_def ga_entry_def addr_ok_def ga_addr_def split: prod.splits)

lemma ref_hosts_family:
  "ref_hosts env want hints n ss canon = Inr (c, xs) \<Longrightarrow> x \<in> set xs \<Longrightarrow> gh_family hints = AF_UNSPEC \<or> gh_family hints = fst x"
proof (induction ss arbitrary: canon c xs)
  case (Cons s ss)
  show ?case
  proof (cases "host_answer env hints n s")
    case (Inr y)
    obtain name ys where y: "y = (name, ys)" by fastforce
    have "gh_family hints = AF_UNSPEC \<or> gh_family hints = fst x" if "x \<in> set ys"
      using Inr y that by (auto simp: host_answer_def split: option.splits prod.splits if_splits sum.splits)
    with Cons Inr y show ?thesis by (cases "ref_hosts env want hints n ss (first_name want canon name)") auto
  qed (use Cons.prems in simp)
qed simp

lemma with_ports_ok:
  assumes "ai_ok hints ai" and "\<And>p t. (p, t) \<in> set calls \<Longrightarrow> type_ok hints t" and "b \<in> set (with_ports ai calls)"
  shows "ai_ok hints b \<and> (calls \<noteq> [] \<longrightarrow> a_socktype b \<noteq> 0)"
proof (cases calls)
  case Nil
  with assms show ?thesis by simp
next
  case (Cons c others)
  then obtain p t d where "(p, t) \<in> set calls" "b = ga_set p t d" "d = ai \<or> d = twin ai"
    using assms(3) by (cases c) auto
  with assms(1) assms(2) [of p t] show ?thesis by (auto simp: ai_ok_set ai_ok_twin type_ok_nonzero)
qed

text \<open>The canonical name is on the first entry of the first address only.\<close>

lemma with_ports_canon:
  "with_ports ai calls \<noteq> []" "a_canonname (hd (with_ports ai calls)) = a_canonname ai" "\<forall>b \<in> set (tl (with_ports ai calls)). a_canonname b = None"
  by (cases calls; auto simp: twin_def)+

lemma ref_rest_typed:
  assumes ref: "ref_rest env hostname servname hints host0 canon xs = Inr l"
    and xs: "\<And>x. x \<in> set xs \<Longrightarrow> addr_ok x \<and> (gh_family hints = AF_UNSPEC \<or> gh_family hints = fst x)"
  shows "l \<noteq> [] \<and> (\<forall>ai \<in> set l. ai_ok hints ai \<and> (\<not> absent servname \<longrightarrow> a_socktype ai \<noteq> 0)) \<and>
    (a_canonname (hd l) \<noteq> None \<longleftrightarrow> want_canon hostname hints) \<and> (\<forall>ai \<in> set (tl l). a_canonname ai = None)"
proof -
  obtain x ys where x: "xs = x # ys" using ref by (cases xs) (auto simp: ref_rest_def)
  let ?ai = "(ga_entry hints x)\<lparr>a_canonname := canon_of hostname hints host0 canon\<rparr>"
  let ?l = "?ai # map (ga_entry hints) ys" and ?calls = "serv_calls env hints (the servname)"
  have cn: "a_canonname ?ai \<noteq> None \<longleftrightarrow> want_canon hostname hints" "a_canonname (ga_entry hints y) = None" for y
    by (simp_all add: canon_of_def ga_entry_def split: prod.splits)
  have ok: "\<forall>ai \<in> set ?l. ai_ok hints ai" using xs x ga_entry_ok [of _ hints] by (auto simp: ai_ok_twin)
  show ?thesis
  proof (cases "absent servname")
    case True
    with ref x have "l = ?l" by (simp add: ref_rest_def Let_def)
    with True ok cn show ?thesis by auto
  next
    case False
    with ref x have c: "?calls \<noteq> []" and l: "l = with_ports ?ai ?calls @ concat (map (\<lambda>y. with_ports (ga_entry hints y) ?calls) ys)"
      by (auto simp: ref_rest_def Let_def comp_def split: if_splits)
    have "ai_ok hints b \<and> a_socktype b \<noteq> 0" if "ai \<in> set ?l" "b \<in> set (with_ports ai ?calls)" for ai b
      using with_ports_ok [of hints ai ?calls b] serv_calls_types that ok c by blast
    then have "ai_ok hints b \<and> a_socktype b \<noteq> 0" if "b \<in> set l" for b
      using that l by auto
    moreover have "a_canonname (hd l) = a_canonname ?ai" using l with_ports_canon(1,2) [of ?ai ?calls] by simp
    moreover have "\<forall>b \<in> set (with_ports (ga_entry hints y) ?calls). a_canonname b = None" for y
      using with_ports_canon [of "ga_entry hints y" ?calls] cn(2) [of y] by (metis list.exhaust_sel set_ConsD)
    moreover have "tl l = tl (with_ports ?ai ?calls) @ concat (map (\<lambda>y. with_ports (ga_entry hints y) ?calls) ys)"
      using l with_ports_canon(1) [of ?ai ?calls] by simp
    ultimately show ?thesis using l c cn(1) False with_ports_canon(1,3) [of ?ai ?calls] by auto
  qed
qed

text \<open>
  C23. The entries \<^verbatim>\<open>getaddrinfo\<close> returns are well typed: there is at least one; each has a socket address of its family, of the size its
  length field says, and agrees with the family, socket type and protocol of the hints; with a service every socket type is set; and the
  canonical name is on the first entry exactly if it was asked for, and on no other.
\<close>

theorem getaddrinfo_typed:
  assumes ok: "resolver_ok env" and run: "getaddrinfo env hostname servname hintsp st = Ret (Inr l) st'"
  shows "l \<noteq> [] \<and> (\<forall>ai \<in> set l. ai_ok (ga_hints hintsp) ai \<and> (\<not> absent servname \<longrightarrow> a_socktype ai \<noteq> 0)) \<and>
    (a_canonname (hd l) \<noteq> None \<longleftrightarrow> want_canon hostname (ga_hints hintsp)) \<and> (\<forall>ai \<in> set (tl l). a_canonname ai = None)"
proof (cases "is_unix hostname servname")
  case True
  let ?h = "ga_hints hintsp"
  have "ga_unix env (the servname) ?h st = Ret (Inr l) st'" using run True by (auto simp: getaddrinfo_unix split: option.splits)
  note res = ga_unix_result [OF this]
  have e: "ai_ok ?h (unix_entry ?h (the servname) ty)" if "type_ok ?h ty" for ty
    using that res by (auto simp: ai_ok_def unix_entry_def type_ok_def split: if_splits)
  have "want_canon hostname ?h \<longleftrightarrow> has (gh_flags ?h) AI_CANONNAME" using True by (auto simp: want_canon_def absent_def is_unix_def)
  with res e [of sock_stream] e [of sock_dgram] e [of "gh_socktype ?h"] show ?thesis
    by (auto simp: ai_ok_twin type_ok_def unix_entry_sel split: if_splits) (simp_all add: sock_types)
next
  case un: False
  show ?thesis
  proof (cases "gh_family (ga_hints hintsp) = AF_UNIX")
    case True
    with un run show ?thesis by (auto simp: getaddrinfo_af_unix split: option.splits)
  next
    case False
    let ?h = "ga_hints hintsp" and ?ss = "ga_searches hostname (ga_hints hintsp)"
    have "ref_getaddrinfo env hostname servname ?h = Inr l"
      using getaddrinfo_post [OF ok un False, of st] run by (auto simp: ga_post_def)
    then obtain canon xs where rh: "ref_hosts env (want_canon hostname ?h) ?h (length ?ss) ?ss None = Inr (canon, xs)"
      and rr: "ref_rest env hostname servname ?h (s_host (hd ?ss)) canon xs = Inr l"
      by (auto simp: ref_getaddrinfo_def Let_def split: option.splits sum.splits prod.splits)
    show ?thesis by (rule ref_rest_typed [OF rr]) (use ref_hosts_ok [OF ok rh] ref_hosts_family [OF rh] in blast)
  qed
qed

end
