(* ===== verification/Gai_Names.thy ===== *)
theory Gai_Names
  imports Gai_Reference
begin

text \<open>
  Numeric names through \<^verbatim>\<open>getnameinfo\<close> and \<^verbatim>\<open>getaddrinfo\<close>: the contract of \<^verbatim>\<open>inet_ntop\<close> and \<^verbatim>\<open>inet_pton\<close> the two rely on is a locale, interpreted on the
  functions of \<^verbatim>\<open>libfree\<close>; under it the two functions invert each other. The examples at the end run the resolver.
\<close>

unbundle bit_operations_syntax

section \<open>Numeric names\<close>

lemma ntohs_ntohs [simp]: "ntohs (ntohs x) = x"
  by (rule bit_word_eqI) (auto simp: ntohs_def bit_simps)

lemma isdigit_dec_nat: "c \<in> set (dec_nat n) \<Longrightarrow> isdigit c"
  using set_dec_nat by (auto simp: isdigit_def)

lemma serv_port_text: "serv_port (port_text p) = uint p" and port_text_head: "isdigit (c_head (port_text p))"
proof -
  have w: "takeWhile isdigit (dec_nat n) = dec_nat n" for n by (simp add: takeWhile_eq_all_conv isdigit_dec_nat)
  have "atoi_digits (dec_nat n) = n" for n
    using dec_val_dec_nat [of n] by (simp add: atoi_digits_def w dec_val_def mult.commute)
  then show "serv_port (port_text p) = uint p" by (simp add: serv_port_def port_text_def)
  show "isdigit (c_head (port_text p))"
    using isdigit_dec_nat [of _ "unat (ntohs p)"] by (cases "dec_nat (unat (ntohs p))") (auto simp: port_text_def c_head_def)
qed

text \<open>The contract of \<^verbatim>\<open>inet_pton\<close> on which the tests of the first character and for a colon rest.\<close>

locale numeric_names = presentation +
  assumes head_v4: "pton AF_INET t = Inr (Some a) \<Longrightarrow> isdigit (c_head t) \<and> CHR '':'' \<notin> set t"
    and head_v6: "pton AF_INET6 t = Inr (Some a) \<Longrightarrow> isxdigit (c_head t) \<or> c_head t = CHR '':''"
begin

lemma numeric_v4: "pton AF_INET t = Inr (Some a) \<Longrightarrow> e_pton env = pton \<Longrightarrow> numeric_of env t = Some (AF_INET, a)"
  using head_v4 [of t a] by (simp add: numeric_of_def)

lemma numeric_v6:
  assumes "pton AF_INET6 t = Inr (Some a)" and "CHR '':'' \<in> set t" and "e_pton env = pton"
  shows "numeric_of env t = Some (AF_INET6, a)"
  using assms head_v6 [OF assms(1)] head_v4 [of t] by (auto simp: numeric_of_def split: sum.splits option.splits)

lemma gn_host_numeric:
  assumes "is_inet sa" and "sa_wf sa" and "46 \<le> hostlen" and "e_pton env = pton" and "n_ntop ne = ntop" and "has fl NI_NUMERICHOST"
  obtains h a p where "gn_host ne hostlen a (sa_family sa) fl = Some h" "numeric_of env h = Some (sa_family sa, a)" "h \<noteq> []"
    "sa = Sockaddr_in p a \<or> sa = Sockaddr_in6 p a"
  using assms(1,2)
proof (cases rule: is_inetE)
  case (1 p a)
  obtain t where t: "ntop AF_INET a hostlen = Inr (t @ [NUL])" "set t \<subseteq> v4_chars" "pton AF_INET t = Inr (Some a)" using v4 [of a hostlen] 1 assms(3) by blast
  have "NUL \<notin> set t" using t(2) by (auto simp: v4_chars_def digit_chars_def)
  moreover have "t \<noteq> []" using head_v4 [OF t(3)] by (auto simp: c_head_def isdigit_def digit_chars_def)
  ultimately show ?thesis using that [of a t p] 1 t numeric_v4 [OF t(3) assms(4)] assms(5,6) by (simp add: gn_host_def gn_numeric_def)
next
  case (2 p a)
  obtain t where t: "ntop AF_INET6 a hostlen = Inr (t @ [NUL])" "set t \<subseteq> v6_chars" "pton AF_INET6 t = Inr (Some a)" "2 \<le> count_list t (CHR '':'')"
    using v6 [of a hostlen] 2 assms(3) by blast
  have "NUL \<notin> set t" using t(2) by (auto simp: v6_chars_def xdigits_l_def)
  moreover have c: "CHR '':'' \<in> set t" using t(4) by (metis count_notin not_numeral_le_zero)
  moreover have "t \<noteq> []" using c by auto
  ultimately show ?thesis using that [of a t p] 2 t numeric_v6 [OF t(3) c assms(4)] assms(5,6) by (simp add: gn_host_def gn_numeric_def)
qed

text \<open>A numeric host and service resolve to the one address they stand for.\<close>

lemma ref_numeric:
  assumes "numeric_of env h = Some (fam, a)" and "h \<noteq> []" and "addr_ok (fam, a)" and "gh_family hints = AF_UNSPEC \<or> gh_family hints = fam"
    and "gh_flags hints = 0" and "gh_socktype hints \<in> {sock_stream, sock_dgram, sock_raw}"
  shows "ref_getaddrinfo env (Some h) (Some (port_text p)) hints = Inr [ga_set (uint p) (gh_socktype hints) (ga_entry hints (fam, a))]"
proof -
  have fam: "fam = AF_INET \<or> fam = AF_INET6" using assms(3) by (rule addr_ok_family)
  have e: "ga_echeck (Some h) (Some (port_text p)) (gh_flags hints) (gh_family hints) (gh_socktype hints) (gh_protocol hints) = None"
    using assms fam by (auto simp: ga_echeck_def absent_def has_def)
  have w: "\<not> want_canon (Some h) hints" using assms(5) by (simp add: want_canon_def has_def)
  obtain c cs where h: "h = c # cs" using assms(2) by (cases h) auto
  have "ref_hosts env False hints (length (ga_searches (Some h) hints)) (ga_searches (Some h) hints) None = Inr (None, [(fam, a)])"
    using assms fam h by (auto simp: ga_searches_def host_answer_def first_name_def)
  moreover have "serv_calls env hints (port_text p) = [(uint p, gh_socktype hints)]"
    using assms(6) serv_port_text port_text_head by (auto simp: serv_calls_def sock_types)
  moreover have "\<not> absent (Some (port_text p))" by (simp add: absent_def port_text_def)
  moreover have "(ga_entry hints (fam, a))\<lparr>a_canonname := None\<rparr> = ga_entry hints (fam, a)" by (simp add: ga_entry_def)
  ultimately show ?thesis using e w by (simp add: ref_getaddrinfo_def ref_rest_def canon_of_def Let_def)
qed

lemma names_resolve:
  assumes sa: "is_inet sa" "sa_wf sa" and len: "46 \<le> hostlen" "6 \<le> servlen" and env: "e_pton env = pton" "n_ntop ne = ntop"
    and fl: "has fl NI_NUMERICHOST" "has fl NI_NUMERICSERV"
    and hints: "gh_family hints = AF_UNSPEC \<or> gh_family hints = sa_family sa" "gh_flags hints = 0" "gh_socktype hints \<in> {sock_stream, sock_dgram, sock_raw}"
  shows "\<exists>h s ai. getnameinfo ne sa hostlen servlen fl = Some (Some h, Some s) \<and> ref_getaddrinfo env (Some h) (Some s) hints = Inr [ai] \<and>
    a_addr ai = Some sa \<and> a_family ai = sa_family sa \<and> a_socktype ai = gh_socktype hints \<and> c_head s \<noteq> CHR ''/''"
proof -
  obtain h a p where h: "gn_host ne hostlen a (sa_family sa) fl = Some h" "numeric_of env h = Some (sa_family sa, a)" "h \<noteq> []"
    and form: "sa = Sockaddr_in p a \<or> sa = Sockaddr_in6 p a"
    using gn_host_numeric [OF sa len(1) env fl(1)] by metis
  have ok: "addr_ok (sa_family sa, a)" using form sa(2) by (auto simp: addr_ok_def)
  have s: "gn_serv ne servlen p fl = port_text p"
    using fl(2) len(2) length_port_text [of p] by (simp add: gn_serv_def snprintf_str_def port_text_def)
  have g: "getnameinfo ne sa hostlen servlen fl = Some (Some h, Some (port_text p))"
    using form h(1) s len by (auto simp: gn_ipv46_def)
  have "a_addr (ga_set (uint p) (gh_socktype hints) (ga_entry hints (sa_family sa, a))) = Some sa"
    using ok form by (auto simp: ga_set_def ga_entry_def ga_addr_def addr_ok_def)
  moreover have "c_head (port_text p) \<noteq> CHR ''/''" using port_text_head [of p] by (auto simp: isdigit_def digit_chars_def)
  ultimately show ?thesis using g ref_numeric [OF h(2,3) ok hints, of p] by (auto simp: ga_entry_def)
qed

end

section \<open>The functions of libfree\<close>

lemma split_dots_all: "(\<forall>t \<in> set (split_dots u s). \<forall>c \<in> set t. P c) \<Longrightarrow> P (CHR ''.'') \<Longrightarrow> \<forall>c \<in> set u \<union> set s. P c"
  by (induction u s rule: split_dots.induct) (auto split: if_splits)

lemma inet_pton4_text:
  assumes "inet_pton4 t = Some a"
  shows "isdigit (c_head t) \<and> CHR '':'' \<notin> set t \<and> length a = 4"
proof -
  let ?ts = "split_dots [] t"
  have ts: "length ?ts = 4" "list_all is_octet ?ts" "a = map (of_nat \<circ> dec_val) ?ts"
    using assms by (auto simp: inet_pton4_eq_ref ref_pton4_def Let_def split: if_splits)
  have "\<forall>u \<in> set ?ts. \<forall>c \<in> set u. c \<in> insert (CHR ''.'') (set digit_chars)" using ts(2) by (auto simp: list_all_iff is_octet_def)
  from split_dots_all [OF this] have all: "\<forall>c \<in> set t. c \<in> insert (CHR ''.'') (set digit_chars)" by simp
  have "CHR '':'' \<notin> insert (CHR ''.'') (set digit_chars)" by (simp add: digit_chars_def)
  with bspec [OF all] have "CHR '':'' \<notin> set t" by metis
  moreover have "isdigit (c_head t)"
  proof -
    obtain c s where t: "t = c # s" using ts(1) by (cases t) auto
    show ?thesis
    proof (cases "c = CHR ''.''")
      case True
      with t ts(2) show ?thesis by (simp add: is_octet_def)
    next
      case False
      moreover obtain u us where "split_dots [c] s = ([c] @ u) # us" using split_dots_hd by blast
      ultimately show ?thesis using t ts(2) by (simp add: is_octet_def c_head_def isdigit_def)
    qed
  qed
  ultimately show ?thesis using ts by simp
qed

lemma pton6_loop_room:
  "inet_pton6_loop s cur st = Some st' \<Longrightarrow> length (tmp st) = 16 \<Longrightarrow> length (tmp st') = 16"
proof (induction s cur st rule: inet_pton6_loop.induct)
  case (2 ch src cur st)
  then show ?case
    by (auto simp: inet_pton6_loop.simps(2) [of ch] pton6_store_def Let_def inet_pton4_text split: option.splits if_splits)
qed (simp add: inet_pton6_loop.simps)

lemma length_shift_tail [simp]: "length (shift_tail c n a) = length a"
proof -
  have "length (fold (shift_step c n) is a) = length a" for "is" by (induction "is" arbitrary: a) (simp_all add: shift_step_def)
  then show ?thesis by (simp add: shift_tail_def)
qed

lemma pton6_go_length: "inet_pton6_loop s cur pton6_init = Some st \<Longrightarrow> pton6_finish st = Some a \<Longrightarrow> length a = 16"
  using pton6_loop_room [of s cur pton6_init st]
  by (auto simp: pton6_init_def pton6_finish_def pton6_store_def Let_def split: option.splits if_splits)

lemma inet_pton6_text:
  assumes "inet_pton6 t = Some a"
  shows "(isxdigit (c_head t) \<or> c_head t = CHR '':'') \<and> length a = 16"
proof
  have f: "pton6_finish pton6_init = None" by (simp add: pton6_finish_def pton6_init_def)
  show "isxdigit (c_head t) \<or> c_head t = CHR '':''"
  proof (cases t)
    case Nil
    with assms f show ?thesis by (simp add: inet_pton6_def)
  next
    case (Cons c s)
    show ?thesis
    proof (rule ccontr)
      assume n: "\<not> (isxdigit (c_head t) \<or> c_head t = CHR '':'')"
      then have "xdigit_val c = None" using Cons
        by (auto simp: xdigit_val_def isxdigit_def c_head_def index_of_None split: option.splits)
      moreover have "inet_pton4 (CHR ''.'' # s) = None" using inet_pton4_text [of "CHR ''.'' # s"]
        by (cases "inet_pton4 (CHR ''.'' # s)") (auto simp: c_head_def isdigit_def digit_chars_def)
      ultimately show False using assms n Cons by (auto simp: inet_pton6_def inet_pton6_loop.simps(2) [of c] Let_def c_head_def split: if_splits)
    qed
  qed
  show "length a = 16" using assms f pton6_go_length
    by (auto simp: inet_pton6_def Let_def split: list.splits if_splits option.splits)
qed

interpretation libfree_names: numeric_names inet_ntop inet_pton
  by unfold_locales (auto simp: inet_pton_def dest: inet_pton4_text inet_pton6_text)

text \<open>
  C20. \<^verbatim>\<open>getaddrinfo\<close> inverts \<^verbatim>\<open>getnameinfo\<close> on numeric names: with buffers of 46 and 6 bytes the text of every well-formed IPv4 or IPv6
  socket address resolves, for each socket type and for the unspecified as for its own family, to exactly one entry, which holds that socket address. The
  functions \<^verbatim>\<open>inet_ntop\<close> and \<^verbatim>\<open>inet_pton\<close> are those of \<^verbatim>\<open>libfree\<close>.
\<close>

theorem getaddrinfo_getnameinfo:
  assumes "is_inet sa" and "sa_wf sa" and "46 \<le> hostlen" and "6 \<le> servlen" and "has fl NI_NUMERICHOST" and "has fl NI_NUMERICSERV"
    and "gh_family hints = AF_UNSPEC \<or> gh_family hints = sa_family sa" and "gh_flags hints = 0" and "gh_socktype hints \<in> {sock_stream, sock_dgram, sock_raw}"
    and "resolver_ok env" and "e_pton env = inet_pton" and "n_ntop ne = inet_ntop" and "\<forall>n. \<not> e_fails env n"
  shows "\<exists>h s ai st'. getnameinfo ne sa hostlen servlen fl = Some (Some h, Some s) \<and>
    getaddrinfo env (Some h) (Some s) (Some hints) st = Ret (Inr [ai]) st' \<and>
    a_addr ai = Some sa \<and> a_family ai = sa_family sa \<and> a_socktype ai = gh_socktype hints"
proof -
  obtain h s ai where g: "getnameinfo ne sa hostlen servlen fl = Some (Some h, Some s)" "ref_getaddrinfo env (Some h) (Some s) hints = Inr [ai]"
    and ai: "a_addr ai = Some sa" "a_family ai = sa_family sa" "a_socktype ai = gh_socktype hints" and s: "c_head s \<noteq> CHR ''/''"
    using libfree_names.names_resolve [OF assms(1-4) assms(11,12,5,6,7,8,9)] by blast
  have u: "\<not> is_unix (Some h) (Some s)" using s by (simp add: is_unix_def)
  have f: "gh_family (ga_hints (Some hints)) \<noteq> AF_UNIX" using assms(1,7) by (auto simp: ga_hints_def is_inet_def)
  have "\<exists>st'. getaddrinfo env (Some h) (Some s) (Some hints) st = Ret (Inr [ai]) st'"
    using ga_post_success [OF getaddrinfo_post [OF assms(10) u f, of st] _ assms(13)] g(2) by (simp add: ga_hints_def) blast
  with g ai show ?thesis by blast
qed

section \<open>Examples\<close>

text \<open>A host with two addresses and a service known for both protocols; \<open>sample_gst\<close> is a fresh process.\<close>

definition sample_host :: hostent where
  "sample_host = \<lparr>h_name = ''h.org'', h_addrtype = AF_INET, h_addr_list = [[10, 0, 0, 1], [10, 0, 0, 2]]\<rparr>"

definition sample_genv :: genv where
  "sample_genv = \<lparr>e_fails = (\<lambda>n. False), e_pton = inet_pton,
     e_gethostbyname2 = (\<lambda>h fam. if h = ''h'' \<and> fam = AF_INET then Inr sample_host else Inl HOST_NOT_FOUND),
     e_gethostbyname = (\<lambda>v6 h. if h = ''h'' \<and> \<not> v6 then Inr sample_host else Inl HOST_NOT_FOUND),
     e_res_init = False, e_getservbyname = (\<lambda>s p. if s = ''daytime'' then Some 3328 else None), e_uname = Some ''node''\<rparr>"

definition sample_gst :: gst where
  "sample_gst = \<lparr>ga_calls = 0, ga_live = 0, res_inited = False, use_inet6 = False, ga_unlinked = []\<rparr>"

definition sample_hints :: ghints where
  "sample_hints = \<lparr>gh_flags = AI_CANONNAME, gh_family = AF_UNSPEC, gh_socktype = 0, gh_protocol = 0\<rparr>"

lemma resolver_ok_sample:
  assumes "e_pton env = inet_pton" and "\<And>h fam. e_gethostbyname2 env h fam \<in> {Inr sample_host, Inl HOST_NOT_FOUND}"
    and "\<And>v6 h. e_gethostbyname env v6 h \<in> {Inr sample_host, Inl HOST_NOT_FOUND}"
  shows "resolver_ok env"
proof -
  have "hostent_ok (Inr sample_host)" "hostent_ok (Inl HOST_NOT_FOUND)" by (simp_all add: hostent_ok_def sample_host_def addr_ok_def)
  with assms(2,3) show ?thesis unfolding resolver_ok_def
    by (metis assms(1) inet_pton_def family.case(1,2) inet_pton4_text inet_pton6_text insertE singletonD sum.inject(2))
qed

lemma sample_genv_ok: "resolver_ok sample_genv"
  by (rule resolver_ok_sample) (auto simp: sample_genv_def)

lemma sample_result:
  "map (\<lambda>ai. (a_socktype ai, a_addr ai)) (projr (ref_getaddrinfo sample_genv (Some ''h'') (Some ''daytime'') sample_hints)) =
   [(1, Some (Sockaddr_in 3328 [10, 0, 0, 1])), (2, Some (Sockaddr_in 3328 [10, 0, 0, 1])),
    (1, Some (Sockaddr_in 3328 [10, 0, 0, 2])), (2, Some (Sockaddr_in 3328 [10, 0, 0, 2]))]"
  by code_simp


text \<open>The call of the example, with any pattern of failing allocations.\<close>

definition gai_sample :: "(nat \<Rightarrow> bool) \<Rightarrow> (eai + ainfo list, gst) outcome" where
  "gai_sample fails = getaddrinfo (sample_genv\<lparr>e_fails := fails\<rparr>) (Some ''h'') (Some ''daytime'') (Some sample_hints) sample_gst"

definition sample_list :: "ainfo list" where
  "sample_list = projr (ref_getaddrinfo sample_genv (Some ''h'') (Some ''daytime'') sample_hints)"

lemma sample_list_value: "\<not> isl (ref_getaddrinfo sample_genv (Some ''h'') (Some ''daytime'') sample_hints)" "blocks sample_list = 9" "length sample_list = 4"
  by code_simp+

lemma gai_sample_value:
  "gai_sample (\<lambda>n. False) = Ret (Inr sample_list) (final_state (gai_sample (\<lambda>n. False)))" "ga_live (final_state (gai_sample (\<lambda>n. False))) = 9"
proof -
  have "\<not> is_unix (Some ''h'') (Some ''daytime'')" "gh_family (ga_hints (Some sample_hints)) \<noteq> AF_UNIX"
    by (simp_all add: is_unix_def c_head_def ga_hints_def sample_hints_def)
  moreover have "sample_genv\<lparr>e_fails := \<lambda>n. False\<rparr> = sample_genv" "ga_live sample_gst = 0" by (simp_all add: sample_genv_def sample_gst_def)
  moreover have "ref_getaddrinfo sample_genv (Some ''h'') (Some ''daytime'') sample_hints = Inr sample_list"
    unfolding sample_list_def using sample_list_value(1) by (simp add: sum.collapse(2))
  ultimately have "\<exists>st'. gai_sample (\<lambda>n. False) = Ret (Inr sample_list) st' \<and> ga_live st' = blocks sample_list"
    using ga_post_success [OF getaddrinfo_post [OF sample_genv_ok, of "Some ''h''" "Some ''daytime''" "Some sample_hints" sample_gst], of sample_list]
    by (simp add: ga_hints_def gai_sample_def sample_genv_def)
  then show "gai_sample (\<lambda>n. False) = Ret (Inr sample_list) (final_state (gai_sample (\<lambda>n. False)))" "ga_live (final_state (gai_sample (\<lambda>n. False))) = 9"
    using sample_list_value(2) by auto
qed

lemma sample_fails_ok: "resolver_ok (sample_genv\<lparr>e_fails := fails\<rparr>)"
  by (rule resolver_ok_sample) (auto simp: sample_genv_def)


theorem getaddrinfo_typed_witness:
  "length sample_list = 4 \<and> list_all (\<lambda>ai. ai_ok sample_hints ai \<and> a_socktype ai \<noteq> 0) sample_list"
  using getaddrinfo_typed [OF sample_fails_ok gai_sample_value(1) [unfolded gai_sample_def]] sample_list_value(3)
  by (simp add: absent_def ga_hints_def list_all_iff)

theorem getaddrinfo_dies_iff_witness:
  "getaddrinfo sample_genv (Some ''h'') (Some ''daytime'') (Some (sample_hints\<lparr>gh_family := AF_UNIX\<rparr>)) sample_gst = Die (Err_quit ''nsearch = 0'') sample_gst"
proof -
  have "ga_echeck (Some ''h'') (Some ''daytime'') AI_CANONNAME AF_UNIX 0 0 = None" by code_simp
  then show ?thesis using getaddrinfo_dies_iff [OF sample_genv_ok] by (simp add: is_unix_def ga_hints_def sample_hints_def)
qed

theorem getaddrinfo_getnameinfo_witness:
  "\<exists>h s ai st'. getnameinfo \<lparr>n_ntop = inet_ntop, n_gethostbyaddr = (\<lambda>a f. None), n_getservbyport = (\<lambda>p x. None)\<rparr> (Sockaddr_in 3328 [10, 0, 0, 1]) 46 6 10 =
     Some (Some h, Some s) \<and>
   getaddrinfo sample_genv (Some h) (Some s) (Some \<lparr>gh_flags = 0, gh_family = AF_UNSPEC, gh_socktype = 1, gh_protocol = 0\<rparr>) sample_gst = Ret (Inr [ai]) st' \<and>
   a_addr ai = Some (Sockaddr_in 3328 [10, 0, 0, 1])"
proof -
  have "has 10 NI_NUMERICHOST" "has 10 NI_NUMERICSERV" by code_simp+
  then show ?thesis
    using getaddrinfo_getnameinfo [of "Sockaddr_in 3328 [10, 0, 0, 1]" 46 6 10 "\<lparr>gh_flags = 0, gh_family = AF_UNSPEC, gh_socktype = 1, gh_protocol = 0\<rparr>" sample_genv
        "\<lparr>n_ntop = inet_ntop, n_gethostbyaddr = (\<lambda>a f. None), n_getservbyport = (\<lambda>p x. None)\<rparr>" sample_gst] sample_genv_ok
    by (fastforce simp: is_inet_def sock_types sample_genv_def)
qed

text \<open>
  Two leaks. When the canonical name was copied and the next allocation fails, its copy is not freed, because it is not yet part of the list. And \<^verbatim>\<open>ga_unix\<close> returns
  its errors without freeing the structures it has built: here the one of a pathname that is too long.
\<close>

lemma getaddrinfo_canon_leak:
  "gai_sample (\<lambda>n. n = 1) = Ret (Inl EAI_MEMORY) (final_state (gai_sample (\<lambda>n. n = 1)))" "ga_live (final_state (gai_sample (\<lambda>n. n = 1))) = 1"
  by code_simp+

lemma ga_unix_leak:
  assumes "108 \<le> length path" and "gh_family hints = AF_UNIX" and "\<not> e_fails env (ga_calls st)"
  shows "\<exists>st'. ga_unix env path hints st = Ret (Inl EAI_SERVICE) st' \<and> ga_live st' = ga_live st + 1"
  using assms by (auto simp: ga_unix_def ga_aistruct_def galloc_def Let_def)

end
