(* ===== verification/Ping.thy ===== *)
theory Ping
  imports Icmp_Headers Timeval
begin

text \<open>
  The \<^verbatim>\<open>ping\<close> program: an echo request with the time in its data is sent once a second from the handler of \<^verbatim>\<open>SIGALRM\<close>, and the main loop reads the replies from a raw socket. The state
  holds the two buffers, the number of requests, the requests handed to the kernel and what was printed, as items (the time of an item is the difference of the two
  \<^verbatim>\<open>timeval\<close>s; its conversion to milliseconds by \<^verbatim>\<open>printf\<close> is not modelled). The handler touches neither the receive buffer nor the output, so
  that its runs are events between two turns of the loop.
\<close>

section \<open>State\<close>

datatype pitem =
    Reply int sockaddr "16 word" nat tval
  | Reply6 int sockaddr "16 word" "int option" tval
  | Other int sockaddr nat nat

text \<open>The socket options set: the ICMPv6 filter, the hop limit, the size of the receive buffer.\<close>

datatype popt = Opt_icmp6_filter | Opt_recvhoplimit | Opt_rcvbuf int

record pingst =
  p_sendbuf :: "byte list"
  p_recvbuf :: "byte list"
  p_nsent :: int
  p_alarm :: nat
  p_sent :: "byte list list"
  p_out :: "pitem list"
  p_opts :: "popt list"

definition PBUFSIZE :: nat where "PBUFSIZE = 1500"

definition datalen :: nat where "datalen = 56"

definition icmp_id :: "byte list \<Rightarrow> nat \<Rightarrow> 16 word" where
  "icmp_id buf off = le16 (buf ! (off + 4)) (buf ! (off + 5))"

definition icmp_seq :: "byte list \<Rightarrow> nat \<Rightarrow> 16 word" where
  "icmp_seq buf off = le16 (buf ! (off + 6)) (buf ! (off + 7))"

definition ICMP6_ECHO_REQUEST :: nat where "ICMP6_ECHO_REQUEST = 128"
definition ICMP6_ECHO_REPLY :: nat where "ICMP6_ECHO_REPLY = 129"
definition IPPROTO_IPV6 :: nat where "IPPROTO_IPV6 = 41"
definition IPV6_HOPLIMIT :: nat where "IPV6_HOPLIMIT = 52"

section \<open>Sending\<close>

text \<open>The data of a request: the pattern \<^verbatim>\<open>0xa5\<close>, with the time over its first bytes.\<close>

definition ping_data :: "tval \<Rightarrow> byte list" where
  "ping_data now = blit (replicate datalen 0xa5) 0 (tv_bytes now)"

definition ping_sendto :: "errno option \<Rightarrow> (unit, pingst) prog" where
  "ping_sendto err st =
     (case err of Some e \<Rightarrow> Die (Err_sys ''sendto error'' (Some e)) st
      | None \<Rightarrow> Ret () (st\<lparr>p_sent := p_sent st @ [take (8 + datalen) (p_sendbuf st)]\<rparr>))"

definition send_v4 :: "16 word \<Rightarrow> tval \<Rightarrow> errno option \<Rightarrow> (unit, pingst) prog" where
  "send_v4 pid now err st =
     (let rest = le16_bytes pid @ le16_bytes (of_int (p_nsent st)) @ ping_data now;
          buf0 = blit (p_sendbuf st) 0 ([of_nat ICMP_ECHO, 0] @ [0, 0] @ rest);
          buf = blit buf0 2 (le16_bytes (in_cksum (take (8 + datalen) buf0)))
      in ping_sendto err (st\<lparr>p_sendbuf := buf, p_nsent := p_nsent st + 1\<rparr>))"

text \<open>Of the header of a version 6 request the two bytes of the checksum are left to the kernel.\<close>

definition send_v6 :: "16 word \<Rightarrow> tval \<Rightarrow> errno option \<Rightarrow> (unit, pingst) prog" where
  "send_v6 pid now err st =
     (let buf0 = blit (p_sendbuf st) 0 [of_nat ICMP6_ECHO_REQUEST, 0];
          buf = blit buf0 4 (le16_bytes pid @ le16_bytes (of_int (p_nsent st)) @ ping_data now)
      in ping_sendto err (st\<lparr>p_sendbuf := buf, p_nsent := p_nsent st + 1\<rparr>))"

section \<open>Receiving\<close>

definition proc_v4 :: "16 word \<Rightarrow> bool \<Rightarrow> sockaddr \<Rightarrow> byte list \<Rightarrow> nat \<Rightarrow> tval \<Rightarrow> pitem list" where
  "proc_v4 pid verbose sa buf len tvrecv =
     (let hlen1 = ip_hlen buf 0; icmplen = int len - int hlen1
      in if ip_p buf 0 \<noteq> IPPROTO_ICMP then []
         else if icmplen < 8 then []
         else if icmp_type buf hlen1 = ICMP_ECHOREPLY
         then if icmp_id buf hlen1 \<noteq> pid then []
              else if icmplen < 16 then []
              else [Reply icmplen sa (icmp_seq buf hlen1) (ip_ttl buf 0) (tv_sub tvrecv (tv_at buf (hlen1 + 8)))]
         else if verbose then [Other icmplen sa (icmp_type buf hlen1) (icmp_code buf hlen1)]
         else [])"

text \<open>One object of ancillary data: level, type and data.\<close>

record cmsg =
  cmsg_level :: nat
  cmsg_type :: nat
  cmsg_data :: "byte list"

definition hop_limit :: "cmsg list \<Rightarrow> int" where
  "hop_limit msgs =
     (case find (\<lambda>c. cmsg_level c = IPPROTO_IPV6 \<and> cmsg_type c = IPV6_HOPLIMIT) msgs of
        None \<Rightarrow> -1 | Some c \<Rightarrow> sint (word_rcat (rev (take 4 (cmsg_data c))) :: 32 word))"

definition proc_v6 :: "16 word \<Rightarrow> bool \<Rightarrow> sockaddr \<Rightarrow> cmsg list \<Rightarrow> byte list \<Rightarrow> nat \<Rightarrow> tval \<Rightarrow> pitem list" where
  "proc_v6 pid verbose sa msgs buf len tvrecv =
     (if len < 8 then []
      else if icmp_type buf 0 = ICMP6_ECHO_REPLY
      then if icmp_id buf 0 \<noteq> pid then []
           else if len < 16 then []
           else let hlim = hop_limit msgs
                in [Reply6 (int len) sa (icmp_seq buf 0) (if hlim = -1 then None else Some hlim) (tv_sub tvrecv (tv_at buf 8))]
      else if verbose then [Other (int len) sa (icmp_type buf 0) (icmp_code buf 0)]
      else [])"

definition init_v6 :: "bool \<Rightarrow> popt list" where
  "init_v6 verbose = (if verbose then [] else [Opt_icmp6_filter]) @ [Opt_recvhoplimit]"

section \<open>The loop\<close>

record pproto =
  fproc :: "sockaddr \<Rightarrow> cmsg list \<Rightarrow> byte list \<Rightarrow> nat \<Rightarrow> tval \<Rightarrow> pitem list"
  fsend :: "tval \<Rightarrow> errno option \<Rightarrow> (unit, pingst) prog"
  finit :: "popt list"

definition ping_v4 :: "16 word \<Rightarrow> bool \<Rightarrow> pproto" where
  "ping_v4 pid verbose = \<lparr>fproc = (\<lambda>sa msgs. proc_v4 pid verbose sa), fsend = send_v4 pid, finit = []\<rparr>"

definition ping_v6 :: "16 word \<Rightarrow> bool \<Rightarrow> pproto" where
  "ping_v6 pid verbose = \<lparr>fproc = proc_v6 pid verbose, fsend = send_v6 pid, finit = init_v6 verbose\<rparr>"

text \<open>\<^verbatim>\<open>sig_alrm\<close>, with the time read and the result of \<^verbatim>\<open>Sendto\<close>.\<close>

definition ping_alrm :: "pproto \<Rightarrow> tval \<Rightarrow> errno option \<Rightarrow> (unit, pingst) prog" where
  "ping_alrm pr now err = bindP (fsend pr now err) (\<lambda>_ st. Ret () (st\<lparr>p_alarm := 1\<rparr>))"

text \<open>The next event of \<^verbatim>\<open>recvmsg\<close>: the alarm, another signal, an error, or a packet with its sender, ancillary data and time of arrival.\<close>

datatype pevent = P_alarm tval "errno option" | P_signal | P_fail errno | P_packet "byte list" sockaddr "cmsg list" tval

fun ping_loop :: "pproto \<Rightarrow> pevent list \<Rightarrow> (unit, pingst) prog" where
  "ping_loop pr [] st = Blocked st"
| "ping_loop pr (P_alarm now err # es) st = bindP (ping_alrm pr now err) (\<lambda>_ st'. ping_loop pr es st') st"
| "ping_loop pr (P_signal # es) st = ping_loop pr es st"
| "ping_loop pr (P_fail e # es) st = (if e = EINTR then ping_loop pr es st else Die (Err_sys ''recvmsg error'' (Some e)) st)"
| "ping_loop pr (P_packet pkt sa msgs now # es) st =
     (let r = recv_into (p_recvbuf st) pkt
      in ping_loop pr es (st\<lparr>p_recvbuf := fst r, p_out := p_out st @ fproc pr sa msgs (fst r) (snd r) now\<rparr>))"

text \<open>\<open>sock\<close> is the error of \<^verbatim>\<open>Socket\<close>; the options are set whether or not the kernel accepts them.\<close>

definition readloop :: "pproto \<Rightarrow> errno option \<Rightarrow> tval \<Rightarrow> errno option \<Rightarrow> pevent list \<Rightarrow> (unit, pingst) prog" where
  "readloop pr sock now err es st =
     (case sock of
        Some e \<Rightarrow> Die (Err_sys ''socket error'' (Some e)) st
      | None \<Rightarrow> bindP (ping_alrm pr now err) (\<lambda>_ st'. ping_loop pr es st') (st\<lparr>p_opts := p_opts st @ finit pr @ [Opt_rcvbuf (60 * 1024)]\<rparr>))"

definition v4mapped :: "byte list \<Rightarrow> bool" where
  "v4mapped a \<longleftrightarrow> take 12 a = replicate 10 0 @ [0xff, 0xff]"

text \<open>The part of \<^verbatim>\<open>main\<close> after the name was resolved.\<close>

definition ping_main :: "16 word \<Rightarrow> bool \<Rightarrow> sockaddr \<Rightarrow> errno option \<Rightarrow> tval \<Rightarrow> errno option \<Rightarrow> pevent list \<Rightarrow> (unit, pingst) prog" where
  "ping_main pid verbose sa sock now err es st =
     (case sa of
        Sockaddr_in p a \<Rightarrow> readloop (ping_v4 pid verbose) sock now err es st
      | Sockaddr_in6 p a \<Rightarrow> if v4mapped a then Die (Err_quit ''cannot ping IPv4-mapped IPv6 address'') st
                              else readloop (ping_v6 pid verbose) sock now err es st
      | Sockaddr_un path \<Rightarrow> Die (Err_quit (''unknown address family '' @ dec_nat 1)) st
      | Sockaddr_other n \<Rightarrow> Die (Err_quit (''unknown address family '' @ dec_nat n)) st)"

definition ping_start :: pingst where
  "ping_start = \<lparr>p_sendbuf = replicate PBUFSIZE 0, p_recvbuf = replicate PBUFSIZE 0, p_nsent = 0, p_alarm = 0, p_sent = [], p_out = [], p_opts = []\<rparr>"

section \<open>The requests\<close>

definition request_ok :: "16 word \<Rightarrow> 16 word \<Rightarrow> tval \<Rightarrow> byte list \<Rightarrow> bool" where
  "request_ok pid sq now pkt \<longleftrightarrow>
     (\<exists>ck. length ck = 2 \<and> pkt = [of_nat ICMP_ECHO, 0] @ ck @ le16_bytes pid @ le16_bytes sq @ ping_data now) \<and> in_cksum pkt = 0"

lemma length_ping_data [simp]: "length (ping_data now) = datalen"
  by (simp add: ping_data_def datalen_def)

lemma send_v4_request:
  assumes "length (p_sendbuf st) = PBUFSIZE"
  shows "\<exists>buf pkt. send_v4 pid now err st = ping_sendto err (st\<lparr>p_sendbuf := buf, p_nsent := p_nsent st + 1\<rparr>) \<and> length buf = PBUFSIZE \<and>
    take (8 + datalen) buf = pkt \<and> request_ok pid (of_int (p_nsent st)) now pkt"
proof -
  let ?rest = "le16_bytes pid @ le16_bytes (of_int (p_nsent st)) @ ping_data now"
  let ?buf0 = "blit (p_sendbuf st) 0 ([of_nat ICMP_ECHO, 0] @ [0, 0] @ ?rest)"
  have n: "length ?rest = 4 + datalen" by (simp add: length_le16_bytes)
  have b0: "?buf0 = [of_nat ICMP_ECHO, 0] @ [0, 0] @ ?rest @ drop (8 + datalen) (p_sendbuf st)" unfolding blit_0 by (simp add: length_le16_bytes datalen_def)
  have t0: "take (8 + datalen) ?buf0 = [of_nat ICMP_ECHO, 0] @ [0, 0] @ ?rest" unfolding b0 by (simp add: length_le16_bytes datalen_def)
  let ?ck = "le16_bytes (in_cksum ([of_nat ICMP_ECHO, 0] @ [0, 0] @ ?rest))"
  let ?buf = "blit ?buf0 2 ?ck"
  have b: "?buf = [of_nat ICMP_ECHO, 0] @ ?ck @ ?rest @ drop (8 + datalen) (p_sendbuf st)"
    unfolding b0 by (rule blit_append) (simp_all add: length_le16_bytes)
  have t: "take (8 + datalen) ?buf = [of_nat ICMP_ECHO, 0] @ ?ck @ ?rest" unfolding b by (simp add: length_le16_bytes datalen_def)
  have "in_cksum ([of_nat ICMP_ECHO, 0] @ ?ck @ ?rest) = 0"
    by (rule in_cksum_field) (simp_all add: datalen_def length_le16_bytes)
  then have "request_ok pid (of_int (p_nsent st)) now ([of_nat ICMP_ECHO, 0] @ ?ck @ ?rest)"
    unfolding request_ok_def by (auto simp: length_le16_bytes)
  moreover have "length ?buf = PBUFSIZE" unfolding b using assms by (simp add: PBUFSIZE_def datalen_def length_le16_bytes)
  ultimately show ?thesis using t unfolding send_v4_def Let_def t0 by blast
qed

lemma request_fields:
  assumes "request_ok pid sq now pkt"
  shows "length pkt = 8 + datalen" "icmp_id pkt 0 = pid" "icmp_seq pkt 0 = sq" "icmp_type pkt 0 = ICMP_ECHO" "in_cksum pkt = 0"
proof -
  obtain a b where pkt: "pkt = [of_nat ICMP_ECHO, 0, a, b] @ le16_bytes pid @ le16_bytes sq @ ping_data now"
    using assms by (auto simp: request_ok_def length_Suc_conv numeral_eq_Suc)
  show "length pkt = 8 + datalen" unfolding pkt by (simp add: length_le16_bytes datalen_def)
  show "icmp_id pkt 0 = pid" "icmp_seq pkt 0 = sq" unfolding pkt icmp_id_def icmp_seq_def le16_bytes_def by (simp_all add: le16_le16_bytes)
  show "icmp_type pkt 0 = ICMP_ECHO" unfolding pkt by (simp add: header_fields ICMP_ECHO_def)
  show "in_cksum pkt = 0" using assms by (simp add: request_ok_def)
qed

section \<open>The run\<close>

definition alarms :: "pevent list \<Rightarrow> nat" where
  "alarms es = length (filter (\<lambda>e. case e of P_alarm now err \<Rightarrow> True | _ \<Rightarrow> False) es)"

fun arrivals :: "pevent list \<Rightarrow> (byte list \<times> sockaddr \<times> tval) list" where
  "arrivals [] = []"
| "arrivals (P_packet pkt sa msgs now # es) = (pkt, sa, now) # arrivals es"
| "arrivals (_ # es) = arrivals es"

text \<open>A packet of which the headers and the time of an echo reply are within the received bytes.\<close>

definition whole_packet :: "byte list \<Rightarrow> bool" where
  "whole_packet pkt \<longleftrightarrow> 20 \<le> length pkt \<and> length pkt \<le> PBUFSIZE \<and> ip_hlen pkt 0 + 24 \<le> length pkt"

definition ping_inv :: "16 word \<Rightarrow> pingst \<Rightarrow> bool" where
  "ping_inv pid st \<longleftrightarrow> length (p_sendbuf st) = PBUFSIZE \<and> length (p_recvbuf st) = PBUFSIZE \<and> p_nsent st = int (length (p_sent st)) \<and>
     (\<forall>i < length (p_sent st). \<exists>now. request_ok pid (of_nat i) now (p_sent st ! i))"

lemma ping_alrm_step:
  assumes "ping_inv pid st" and "ping_alrm (ping_v4 pid verbose) now err st = Ret u st'"
  shows "ping_inv pid st' \<and> length (p_sent st') = length (p_sent st) + 1 \<and> p_out st' = p_out st \<and> p_alarm st' = 1"
proof -
  obtain buf where s: "send_v4 pid now err st = ping_sendto err (st\<lparr>p_sendbuf := buf, p_nsent := p_nsent st + 1\<rparr>)" "length buf = PBUFSIZE"
    "request_ok pid (of_int (p_nsent st)) now (take (8 + datalen) buf)"
    using send_v4_request assms(1) unfolding ping_inv_def by metis
  then have "st' = st\<lparr>p_sendbuf := buf, p_nsent := p_nsent st + 1, p_sent := p_sent st @ [take (8 + datalen) buf], p_alarm := 1\<rparr>"
    using assms(2) by (cases err) (auto simp: ping_alrm_def ping_v4_def bindP_def ping_sendto_def)
  with assms(1) s(2,3) show ?thesis by (auto simp: ping_inv_def nth_append less_Suc_eq)
qed

lemma ping_alrm_not_blocked: "ping_alrm (ping_v4 pid verbose) now err st \<noteq> Blocked st'"
  by (cases err) (simp_all add: ping_alrm_def ping_v4_def bindP_def ping_sendto_def send_v4_def Let_def)

lemma tv_at_local: "\<forall>i < n. buf ! i = pkt ! i \<Longrightarrow> k + 16 \<le> n \<Longrightarrow> n \<le> length buf \<Longrightarrow> n \<le> length pkt \<Longrightarrow> tv_at buf k = tv_at pkt k"
proof -
  assume a: "\<forall>i < n. buf ! i = pkt ! i" "k + 16 \<le> n" "n \<le> length buf" "n \<le> length pkt"
  have "take 8 (drop j buf) = take 8 (drop j pkt)" if "j + 8 \<le> n" for j
    using a that by (intro nth_equalityI) auto
  from this [of k] this [of "k + 8"] a(2) show ?thesis by (simp add: tv_at_def long_at_def)
qed

lemma proc_v4_local:
  assumes "length old = PBUFSIZE" and "whole_packet pkt" and "recv_into old pkt = (buf, n)"
  shows "n = length pkt" and "proc_v4 pid verbose sa buf n now = proc_v4 pid verbose sa pkt (length pkt) now"
proof -
  have n: "n = length pkt" "length buf = PBUFSIZE" using recv_into_length [OF assms(3)] assms(1,2) by (auto simp: whole_packet_def)
  then show "n = length pkt" by simp
  have eq: "buf ! k = pkt ! k" if "k < length pkt" for k using recv_into_nth [OF assms(3)] that n by simp
  have long: "0 < length pkt" "8 < length pkt" "9 < length pkt" using assms(2) unfolding whole_packet_def by linarith+
  have h: "ip_hlen buf 0 = ip_hlen pkt 0" "ip_p buf 0 = ip_p pkt 0" "ip_ttl buf 0 = ip_ttl pkt 0"
    using long eq [of 0] eq [of 8] eq [of 9] by (simp_all add: header_fields)
  have f: "ip_hlen pkt 0 + k < length pkt" if "k < 24" for k using assms(2) that by (simp add: whole_packet_def)
  have "icmp_type buf (ip_hlen pkt 0) = icmp_type pkt (ip_hlen pkt 0)" "icmp_code buf (ip_hlen pkt 0) = icmp_code pkt (ip_hlen pkt 0)"
    "icmp_id buf (ip_hlen pkt 0) = icmp_id pkt (ip_hlen pkt 0)" "icmp_seq buf (ip_hlen pkt 0) = icmp_seq pkt (ip_hlen pkt 0)"
    using eq f [of 0] f [of 1] f [of 4] f [of 5] f [of 6] f [of 7]
    by (simp_all add: icmp_type_def icmp_code_def oct_def icmp_id_def icmp_seq_def)
  moreover have "tv_at buf (ip_hlen pkt 0 + 8) = tv_at pkt (ip_hlen pkt 0 + 8)"
    using eq n assms(2) by (intro tv_at_local [of "length pkt"]) (auto simp: whole_packet_def)
  ultimately show "proc_v4 pid verbose sa buf n now = proc_v4 pid verbose sa pkt (length pkt) now"
    using h n by (simp add: proc_v4_def Let_def)
qed

lemma ping_loop_run:
  assumes "ping_loop (ping_v4 pid verbose) es st = Blocked st'" and "ping_inv pid st" and "\<forall>(pkt, sa, now) \<in> set (arrivals es). whole_packet pkt"
  shows "ping_inv pid st' \<and> length (p_sent st') = length (p_sent st) + alarms es \<and>
    p_out st' = p_out st @ concat (map (\<lambda>(pkt, sa, now). proc_v4 pid verbose sa pkt (length pkt) now) (arrivals es))"
  using assms
proof (induction "ping_v4 pid verbose" es st rule: ping_loop.induct)
  case (2 now err es st)
  obtain u st1 where a: "ping_alrm (ping_v4 pid verbose) now err st = Ret u st1" "ping_loop (ping_v4 pid verbose) es st1 = Blocked st'"
    using "2.prems"(1) by (auto simp: bindP_def ping_alrm_not_blocked split: outcome.splits)
  from ping_alrm_step [OF "2.prems"(2) a(1)] "2.hyps" [OF a] "2.prems"(3) show ?case by (simp add: alarms_def)
next
  case (5 pkt sa msgs now es st)
  obtain buf n where r: "recv_into (p_recvbuf st) pkt = (buf, n)" by fastforce
  have old: "length (p_recvbuf st) = PBUFSIZE" using "5.prems"(2) by (simp add: ping_inv_def)
  have w: "whole_packet pkt" using "5.prems"(3) by simp
  have "length buf = PBUFSIZE" using recv_into_length [OF r] old by simp
  moreover have "fproc (ping_v4 pid verbose) sa msgs buf n now = proc_v4 pid verbose sa pkt (length pkt) now"
    using proc_v4_local(2) [OF old w r] by (simp add: ping_v4_def)
  ultimately show ?case using "5.hyps" [OF refl] "5.prems" r by (simp add: ping_inv_def Let_def alarms_def)
qed (auto simp: alarms_def split: if_splits)

lemma ping_inv_start: "ping_inv pid (ping_start\<lparr>p_opts := x\<rparr>)"
  by (simp add: ping_inv_def ping_start_def)

text \<open>
  A run of \<^verbatim>\<open>ping\<close> for IPv4, as long as the process lives: one request was sent at the start and one at each alarm, in sequence (the number is kept modulo
  \<open>2 ^ 16\<close>), each with the identifier of the process and a checksum that verifies; and what was printed is what \<^verbatim>\<open>proc_v4\<close> says of each packet alone, in the order of arrival, if
  every packet is long enough for the headers and the time.
\<close>

theorem ping_readloop_runs:
  assumes run: "readloop (ping_v4 pid verbose) None now err es ping_start = Blocked st"
    and whole: "\<forall>(pkt, sa, now) \<in> set (arrivals es). whole_packet pkt"
  shows "length (p_sent st) = 1 + alarms es \<and>
    (\<forall>i < length (p_sent st). icmp_seq (p_sent st ! i) 0 = of_nat i \<and> icmp_id (p_sent st ! i) 0 = pid \<and>
       icmp_type (p_sent st ! i) 0 = ICMP_ECHO \<and> in_cksum (p_sent st ! i) = 0) \<and>
    p_out st = concat (map (\<lambda>(pkt, sa, now). proc_v4 pid verbose sa pkt (length pkt) now) (arrivals es))"
proof -
  let ?s0 = "ping_start\<lparr>p_opts := p_opts ping_start @ finit (ping_v4 pid verbose) @ [Opt_rcvbuf (60 * 1024)]\<rparr>"
  obtain u st1 where a: "ping_alrm (ping_v4 pid verbose) now err ?s0 = Ret u st1" and l: "ping_loop (ping_v4 pid verbose) es st1 = Blocked st"
    using run by (auto simp: readloop_def bindP_def ping_alrm_not_blocked split: outcome.splits)
  note s1 = ping_alrm_step [OF ping_inv_start a]
  with ping_loop_run [OF l _ whole] have st: "ping_inv pid st" "length (p_sent st) = 1 + alarms es"
    "p_out st = concat (map (\<lambda>(pkt, sa, now). proc_v4 pid verbose sa pkt (length pkt) now) (arrivals es))"
    by (auto simp: ping_start_def)
  moreover have "icmp_seq (p_sent st ! i) 0 = of_nat i \<and> icmp_id (p_sent st ! i) 0 = pid \<and> icmp_type (p_sent st ! i) 0 = ICMP_ECHO \<and> in_cksum (p_sent st ! i) = 0"
    if "i < length (p_sent st)" for i
    using that st(1) request_fields unfolding ping_inv_def by metis
  ultimately show ?thesis by blast
qed

section \<open>Round trip of a request\<close>

text \<open>An IPv4 header with a protocol field of ICMP and a time to live.\<close>

definition icmp_carrier :: "byte list \<Rightarrow> nat \<Rightarrow> bool" where
  "icmp_carrier hdr ttl \<longleftrightarrow> 20 \<le> length hdr \<and> length hdr = ip_hlen hdr 0 \<and> ip_p hdr 0 = IPPROTO_ICMP \<and> ip_ttl hdr 0 = ttl"

lemma carrier_fields:
  assumes "icmp_carrier hdr ttl"
  shows "ip_hlen (hdr @ r) 0 = length hdr" "ip_p (hdr @ r) 0 = IPPROTO_ICMP" "ip_ttl (hdr @ r) 0 = ttl"
  using assms by (simp_all add: icmp_carrier_def header_fields nth_append)

lemma shifted_fields: "oct (hdr @ r) (length hdr + k) = oct r k" "icmp_id (hdr @ r) (length hdr) = icmp_id r 0"
  "icmp_seq (hdr @ r) (length hdr) = icmp_seq r 0" "icmp_type (hdr @ r) (length hdr) = icmp_type r 0" "tv_at (hdr @ r) (length hdr + k) = tv_at r k"
  by (simp_all add: oct_def icmp_id_def icmp_seq_def icmp_type_def nth_append tv_at_def long_at_def add.assoc)

text \<open>
  C22. Round trip of \<^verbatim>\<open>ping\<close>: let the request that \<^verbatim>\<open>send_v4\<close> sends at some time come back as an echo reply, that is with its type set to 0, any checksum, and the identifier,
  sequence number and data as they were, behind any IP header. Then \<^verbatim>\<open>proc_v4\<close> prints exactly one reply, with the length of the request, its sequence number, the time
  to live of the header and the time that passed since the request was sent.
\<close>

theorem ping_round_trip:
  assumes st: "length (p_sendbuf st) = PBUFSIZE" and send: "send_v4 pid sent None st = Ret () st'"
    and tv: "fits_long (tv_sec sent)" "fits_long (tv_usec sent)" and hdr: "icmp_carrier hdr ttl" and ck: "length ck = 2"
    and recv: "recv_into old (hdr @ [of_nat ICMP_ECHOREPLY, 0] @ ck @ drop 4 (last (p_sent st'))) = (buf, n)" and old: "length old = PBUFSIZE"
  shows "proc_v4 pid verbose sa buf n now = [Reply 64 sa (of_int (p_nsent st)) ttl (tv_sub now sent)] \<and>
    micros (tv_sub now sent) = micros now - micros sent"
proof
  obtain b where s: "send_v4 pid sent None st = ping_sendto None (st\<lparr>p_sendbuf := b, p_nsent := p_nsent st + 1\<rparr>)"
    "request_ok pid (of_int (p_nsent st)) sent (take (8 + datalen) b)"
    using send_v4_request [OF st] by metis
  then have "last (p_sent st') = take (8 + datalen) b" using send by (auto simp: ping_sendto_def)
  then obtain c where c: "length c = 2" "last (p_sent st') = [of_nat ICMP_ECHO, 0] @ c @ le16_bytes pid @ le16_bytes (of_int (p_nsent st)) @ ping_data sent"
    using s(2) by (auto simp: request_ok_def)
  let ?r = "[of_nat ICMP_ECHOREPLY, 0] @ ck @ le16_bytes pid @ le16_bytes (of_int (p_nsent st)) @ ping_data sent"
  have pkt: "hdr @ [of_nat ICMP_ECHOREPLY, 0] @ ck @ drop 4 (last (p_sent st')) = hdr @ ?r" using c by simp
  obtain x y where ckx: "ck = [x, y]" using ck by (auto simp: length_Suc_conv numeral_eq_Suc)
  have r: "length ?r = 64" "icmp_type ?r 0 = ICMP_ECHOREPLY" "icmp_id ?r 0 = pid" "icmp_seq ?r 0 = of_int (p_nsent st)"
    unfolding ckx le16_bytes_def by (simp_all add: datalen_def icmp_id_def icmp_seq_def header_fields le16_le16_bytes ICMP_ECHOREPLY_def)
  have "take 16 (drop 8 ?r) = tv_bytes sent" unfolding ckx le16_bytes_def by (simp add: ping_data_def blit_0)
  then have t: "tv_at ?r 8 = sent" using tv by (rule tv_at_bytes)
  have w: "whole_packet (hdr @ ?r)" using hdr carrier_fields(1) [OF hdr] r(1) ip_hlen_le [of hdr 0]
    by (auto simp: whole_packet_def icmp_carrier_def PBUFSIZE_def)
  have "proc_v4 pid verbose sa buf n now = proc_v4 pid verbose sa (hdr @ ?r) (length (hdr @ ?r)) now"
    using proc_v4_local(2) [OF old w] recv unfolding pkt by blast
  also have "\<dots> = [Reply 64 sa (of_int (p_nsent st)) ttl (tv_sub now sent)]"
    unfolding proc_v4_def Let_def carrier_fields [OF hdr] shifted_fields r t using r(1) by simp
  finally show "proc_v4 pid verbose sa buf n now = [Reply 64 sa (of_int (p_nsent st)) ttl (tv_sub now sent)]" .
  show "micros (tv_sub now sent) = micros now - micros sent" by (rule tv_sub_micros)
qed

text \<open>
  The test \<^verbatim>\<open>icmplen < 16\<close> allows for a \<^verbatim>\<open>timeval\<close> of 8 bytes. With one of 16 bytes a reply of 16 to 23 bytes passes it, and the time printed depends on what an earlier packet
  left in the buffer.
\<close>

definition short_reply :: "byte list" where
  "short_reply = [0x45, 0, 0, 36, 0, 0, 0, 0, 64, 1, 0, 0, 10, 0, 0, 1, 10, 0, 0, 2] @ [0, 0, 0, 0, 7, 0, 0, 0] @ replicate 8 0"

lemma ping_stale_time:
  "let old = \<lambda>x. replicate 36 0 @ replicate (PBUFSIZE - 36) x; now = \<lparr>tv_sec = 5, tv_usec = 0\<rparr>;
       shown = \<lambda>x. (case recv_into (old x) short_reply of (buf, n) \<Rightarrow> proc_v4 7 False (Sockaddr_other 0) buf n now)
   in shown 0 = [Reply 16 (Sockaddr_other 0) 0 64 \<lparr>tv_sec = 5, tv_usec = 0\<rparr>] \<and>
      shown 1 \<noteq> shown 0"
  by code_simp

section \<open>Examples\<close>

definition sample_carrier :: "byte list" where
  "sample_carrier = [0x45, 0, 0, 84, 0, 0, 0, 0, 64, 1, 0, 0, 10, 0, 0, 1, 10, 0, 0, 2]"

definition sample_time :: tval where
  "sample_time = \<lparr>tv_sec = 1000, tv_usec = 5\<rparr>"

lemma sample_carrier_ok: "icmp_carrier sample_carrier 64" "whole_packet (sample_carrier @ replicate 24 0)"
  by code_simp+

lemma sample_time_fits: "fits_long (tv_sec sample_time)" "fits_long (tv_usec sample_time)"
  by (simp_all add: sample_time_def fits_long_def)

theorem ping_readloop_runs_witness:
  "\<exists>st. readloop (ping_v4 7 False) None sample_time None
       [P_alarm sample_time None, P_packet (sample_carrier @ replicate 24 0) (Sockaddr_other 0) [] sample_time, P_signal] ping_start = Blocked st \<and>
     length (p_sent st) = 2 \<and> icmp_seq (p_sent st ! 1) 0 = 1"
proof -
  let ?es = "[P_alarm sample_time None, P_packet (sample_carrier @ replicate 24 0) (Sockaddr_other 0) [] sample_time, P_signal]"
  obtain st where st: "readloop (ping_v4 7 False) None sample_time None ?es ping_start = Blocked st"
    by (simp add: readloop_def bindP_def ping_alrm_def ping_v4_def send_v4_def ping_sendto_def Let_def)
  have "\<forall>(pkt, sa, now) \<in> set (arrivals ?es). whole_packet pkt" using sample_carrier_ok(2) by simp
  from ping_readloop_runs [OF st this] have "length (p_sent st) = 2" "\<forall>i < length (p_sent st). icmp_seq (p_sent st ! i) 0 = of_nat i"
    by (auto simp: alarms_def)
  with st show ?thesis by auto
qed

theorem ping_round_trip_witness:
  "let st' = final_state (send_v4 7 sample_time None ping_start);
       r = recv_into (replicate PBUFSIZE 0) (sample_carrier @ [of_nat ICMP_ECHOREPLY, 0] @ [1, 2] @ drop 4 (last (p_sent st')))
   in proc_v4 7 False (Sockaddr_other 0) (fst r) (snd r) \<lparr>tv_sec = 1000, tv_usec = 105\<rparr> = [Reply 64 (Sockaddr_other 0) 0 64 \<lparr>tv_sec = 0, tv_usec = 100\<rparr>]"
proof -
  let ?st = "final_state (send_v4 7 sample_time None ping_start)"
  have s: "send_v4 7 sample_time None ping_start = Ret () ?st" by (simp add: send_v4_def ping_sendto_def Let_def)
  have l: "length (p_sendbuf ping_start) = PBUFSIZE" "length (replicate PBUFSIZE 0 :: byte list) = PBUFSIZE" "length [1 :: byte, 2] = 2"
    by (simp_all add: ping_start_def)
  have d: "tv_sub \<lparr>tv_sec = 1000, tv_usec = 105\<rparr> sample_time = \<lparr>tv_sec = 0, tv_usec = 100\<rparr>" by (simp add: tv_sub_def sample_time_def)
  show ?thesis unfolding Let_def
    using ping_round_trip [OF l(1) s sample_time_fits sample_carrier_ok(1) l(3) surjective_pairing l(2), of False "Sockaddr_other 0" "\<lparr>tv_sec = 1000, tv_usec = 105\<rparr>"]
    unfolding d by (simp add: ping_start_def)
qed

end
