(* ===== verification/Route.thy ===== *)
theory Route
  imports Sockaddr
begin

text \<open>
  Interface information from routing messages: \<^verbatim>\<open>libroute/\<close> (\<^verbatim>\<open>get_rtaddrs\<close>, \<^verbatim>\<open>net_rt_iflist\<close>, \<^verbatim>\<open>net_rt_dump\<close>, \<^verbatim>\<open>if_nametoindex\<close>, \<^verbatim>\<open>if_indextoname\<close>,
  \<^verbatim>\<open>if_nameindex\<close>, \<^verbatim>\<open>sock_masktop\<close>) and \<^verbatim>\<open>route/get_ifi_info.c\<close>. The buffer of \<^verbatim>\<open>sysctl\<close> is the list of its messages; the socket addresses behind the header of a message are bytes, in which
  each structure starts with its length and family, as on the systems with \<^verbatim>\<open>sa_len\<close>. A pointer to such a structure is its offset.
\<close>

unbundle bit_operations_syntax

section \<open>Socket addresses of a message\<close>

definition RTAX_MAX :: nat where "RTAX_MAX = 8"
definition RTAX_IFP :: nat where "RTAX_IFP = 4"
definition RTAX_IFA :: nat where "RTAX_IFA = 5"
definition RTAX_BRD :: nat where "RTAX_BRD = 7"

definition RTM_NEWADDR :: nat where "RTM_NEWADDR = 12"
definition RTM_IFINFO :: nat where "RTM_IFINFO = 14"

definition AF_LINK :: nat where "AF_LINK = 18"

definition IFF_UP :: "32 word" where "IFF_UP = 1"
definition IFF_BROADCAST :: "32 word" where "IFF_BROADCAST = 2"
definition IFF_POINTOPOINT :: "32 word" where "IFF_POINTOPOINT = 16"

text \<open>\<^verbatim>\<open>ROUNDUP(a, sizeof(u_long))\<close>, and the step of \<^verbatim>\<open>NEXT_SA\<close> for a structure of length \<open>len\<close>.\<close>

definition ROUNDUP :: "nat \<Rightarrow> nat" where
  "ROUNDUP a = (if a AND 7 \<noteq> 0 then 1 + (a OR 7) else a)"

definition NEXT_SA :: "byte list \<Rightarrow> nat \<Rightarrow> nat" where
  "NEXT_SA buf ap = ap + (let len = unat (buf ! ap) in if len \<noteq> 0 then ROUNDUP len else 8)"

fun get_rtaddrs_from :: "nat \<Rightarrow> nat \<Rightarrow> 32 word \<Rightarrow> byte list \<Rightarrow> nat \<Rightarrow> nat option list" where
  "get_rtaddrs_from 0 i addrs buf sa = []"
| "get_rtaddrs_from (Suc k) i addrs buf sa =
     (if bit addrs i then Some sa # get_rtaddrs_from k (i + 1) addrs buf (NEXT_SA buf sa)
      else None # get_rtaddrs_from k (i + 1) addrs buf sa)"

definition get_rtaddrs :: "32 word \<Rightarrow> byte list \<Rightarrow> nat option list" where
  "get_rtaddrs addrs buf = get_rtaddrs_from RTAX_MAX 0 addrs buf 0"

text \<open>Fields of a structure at an offset; the last three are those of \<^verbatim>\<open>struct sockaddr_dl\<close>.\<close>

definition sa_len :: "byte list \<Rightarrow> nat \<Rightarrow> nat" where "sa_len buf sa = unat (buf ! sa)"
definition sa_fam :: "byte list \<Rightarrow> nat \<Rightarrow> nat" where "sa_fam buf sa = unat (buf ! (sa + 1))"
definition sa_copy :: "byte list \<Rightarrow> nat \<Rightarrow> byte list" where "sa_copy buf sa = take (sa_len buf sa) (drop sa buf)"
definition sdl_index :: "byte list \<Rightarrow> nat \<Rightarrow> nat" where "sdl_index buf sa = unat (buf ! (sa + 2)) + 256 * unat (buf ! (sa + 3))"
definition sdl_nlen :: "byte list \<Rightarrow> nat \<Rightarrow> nat" where "sdl_nlen buf sa = unat (buf ! (sa + 5))"
definition sdl_alen :: "byte list \<Rightarrow> nat \<Rightarrow> nat" where "sdl_alen buf sa = unat (buf ! (sa + 6))"
definition sdl_data :: "byte list \<Rightarrow> nat \<Rightarrow> byte list" where "sdl_data buf sa = drop (sa + 8) buf"

text \<open>Bytes as characters.\<close>

definition as_chars :: "byte list \<Rightarrow> string" where
  "as_chars bs = map (\<lambda>b. char_of (unat b)) bs"

definition sock_masktop :: "byte list \<Rightarrow> nat \<Rightarrow> string" where
  "sock_masktop buf sa =
     (let d = \<lambda>k. dec_nat (unat (buf ! (sa + 4 + k)))
      in if sa_len buf sa = 0 then ''0.0.0.0''
         else if sa_len buf sa = 5 then snprintf_str 46 (d 0 @ ''.0.0.0'')
         else if sa_len buf sa = 6 then snprintf_str 46 (d 0 @ ''.'' @ d 1 @ ''.0.0'')
         else if sa_len buf sa = 7 then snprintf_str 46 (d 0 @ ''.'' @ d 1 @ ''.'' @ d 2 @ ''.0'')
         else if sa_len buf sa = 8 then snprintf_str 46 (d 0 @ ''.'' @ d 1 @ ''.'' @ d 2 @ ''.'' @ d 3)
         else snprintf_str 46 (''(unknown mask, len = '' @ dec_nat (sa_len buf sa) @ '', family = '' @ dec_nat (sa_fam buf sa) @ '')''))"

section \<open>Messages\<close>

record rtmsg =
  rm_type :: nat
  rm_flags :: "32 word"
  rm_addrs :: "32 word"
  rm_sas :: "byte list"

text \<open>
  \<^verbatim>\<open>net_rt_iflist\<close> and \<^verbatim>\<open>net_rt_dump\<close>: the size, the allocation and the second call of \<^verbatim>\<open>sysctl\<close> may fail. The first component of the state is the number of buffers
  allocated and not freed.
\<close>

record rtsys =
  r_size :: bool
  r_alloc :: bool
  r_fetch :: "rtmsg list option"

definition net_rt_iflist :: "rtsys \<Rightarrow> int \<Rightarrow> rtmsg list option \<times> int" where
  "net_rt_iflist sys live =
     (if \<not> r_size sys then (None, live)
      else if \<not> r_alloc sys then (None, live)
      else case r_fetch sys of None \<Rightarrow> (None, live + 1 - 1) | Some l \<Rightarrow> (Some l, live + 1))"

definition net_rt_dump :: "rtsys \<Rightarrow> int \<Rightarrow> rtmsg list option \<times> int" where
  "net_rt_dump sys live =
     (if \<not> r_size sys then (None, live)
      else if \<not> r_alloc sys then (None, live)
      else case r_fetch sys of None \<Rightarrow> (None, live + 1) | Some l \<Rightarrow> (Some l, live + 1))"

text \<open>The link-level address of an \<^verbatim>\<open>RTM_IFINFO\<close> message, if it has one: the part the three functions share.\<close>

definition ifp_link :: "rtmsg \<Rightarrow> nat option" where
  "ifp_link m =
     (if rm_type m = RTM_IFINFO
      then case get_rtaddrs (rm_addrs m) (rm_sas m) ! RTAX_IFP of
             Some sa \<Rightarrow> if sa_fam (rm_sas m) sa = AF_LINK then Some sa else None
           | None \<Rightarrow> None
      else None)"

definition link_name :: "rtmsg \<Rightarrow> nat \<Rightarrow> string" where
  "link_name m sa = take (sdl_nlen (rm_sas m) sa) (as_chars (sdl_data (rm_sas m) sa))"

fun nametoindex_loop :: "string \<Rightarrow> rtmsg list \<Rightarrow> nat" where
  "nametoindex_loop name [] = 0"
| "nametoindex_loop name (m # ms) =
     (case ifp_link m of
        Some sa \<Rightarrow> if sdl_nlen (rm_sas m) sa = length name \<and> link_name m sa = name then sdl_index (rm_sas m) sa else nametoindex_loop name ms
      | None \<Rightarrow> nametoindex_loop name ms)"

definition if_nametoindex :: "rtsys \<Rightarrow> string \<Rightarrow> int \<Rightarrow> nat \<times> int" where
  "if_nametoindex sys name live =
     (case net_rt_iflist sys live of (None, l) \<Rightarrow> (0, l) | (Some ms, l) \<Rightarrow> (nametoindex_loop name ms, l - 1))"

definition IFNAMSIZ :: nat where "IFNAMSIZ = 16"

fun indextoname_loop :: "nat \<Rightarrow> rtmsg list \<Rightarrow> string option" where
  "indextoname_loop idx [] = None"
| "indextoname_loop idx (m # ms) =
     (case ifp_link m of
        Some sa \<Rightarrow> if sdl_index (rm_sas m) sa = idx
                   then Some (c_str (take (min (IFNAMSIZ - 1) (sdl_nlen (rm_sas m) sa)) (as_chars (sdl_data (rm_sas m) sa))))
                   else indextoname_loop idx ms
      | None \<Rightarrow> indextoname_loop idx ms)"

text \<open>The argument is what \<^verbatim>\<open>sysctl\<close> gives for the one interface with that index.\<close>

definition if_indextoname :: "rtsys \<Rightarrow> nat \<Rightarrow> int \<Rightarrow> string option \<times> int" where
  "if_indextoname sys idx live =
     (case net_rt_iflist sys live of (None, l) \<Rightarrow> (None, l) | (Some ms, l) \<Rightarrow> (indextoname_loop idx ms, l - 1))"

definition If_nametoindex :: "rtsys \<Rightarrow> string \<Rightarrow> (nat, int) prog" where
  "If_nametoindex sys name live =
     (case if_nametoindex sys name live of (i, l) \<Rightarrow> if i = 0 then Die (Err_quit (''if_nametoindex error for '' @ name)) l else Ret i l)"

definition If_indextoname :: "rtsys \<Rightarrow> nat \<Rightarrow> (string, int) prog" where
  "If_indextoname sys idx live =
     (case if_indextoname sys idx live of (None, l) \<Rightarrow> Die (Err_quit (''if_indextoname error for '' @ dec_nat idx)) l | (Some n, l) \<Rightarrow> Ret n l)"

text \<open>
  \<^verbatim>\<open>if_nameindex\<close> fills one block of memory of the size of the messages from both ends: the array of structures of 16 bytes at the front (\<^verbatim>\<open>ifptr\<close> is its end), the names at the back
  (\<open>namptr\<close> is the offset of the last one stored).
\<close>

record nameindex =
  ni_array :: "(int \<times> nat) list"
  ni_namptr :: int
  ni_names :: "string list"

fun nameindex_loop :: "rtmsg list \<Rightarrow> nameindex \<Rightarrow> nameindex" where
  "nameindex_loop [] s = s"
| "nameindex_loop (m # ms) s =
     (case ifp_link m of
        Some sa \<Rightarrow>
          (let p = ni_namptr s - int (sdl_nlen (rm_sas m) sa + 1)
           in nameindex_loop ms (s\<lparr>ni_namptr := p, ni_names := ni_names s @ [c_str (link_name m sa)],
                                 ni_array := ni_array s @ [(p, sdl_index (rm_sas m) sa)]\<rparr>))
      | None \<Rightarrow> nameindex_loop ms s)"

definition if_nameindex :: "nat \<Rightarrow> rtmsg list \<Rightarrow> nameindex" where
  "if_nameindex len ms = nameindex_loop ms \<lparr>ni_array = [], ni_namptr = int len, ni_names = []\<rparr>"

section \<open>get\_ifi\_info\<close>

definition IFI_NAME :: nat where "IFI_NAME = 16"
definition IFI_HADDR :: nat where "IFI_HADDR = 8"

record ifi_info =
  ifi_name :: string
  ifi_index :: nat
  ifi_haddr :: "byte list"
  ifi_hlen :: nat
  ifi_flags :: "32 word"
  ifi_addr :: "byte list option"
  ifi_brdaddr :: "byte list option"
  ifi_dstaddr :: "byte list option"

definition ifi_zero :: ifi_info where
  "ifi_zero = \<lparr>ifi_name = [], ifi_index = 0, ifi_haddr = replicate IFI_HADDR 0, ifi_hlen = 0, ifi_flags = 0,
     ifi_addr = None, ifi_brdaddr = None, ifi_dstaddr = None\<rparr>"

text \<open>\<^verbatim>\<open>%*s\<close>: a minimum width, not a maximum.\<close>

definition star_s :: "nat \<Rightarrow> string \<Rightarrow> string" where
  "star_s w s = replicate (w - length s) (CHR '' '') @ s"

definition ifi_link :: "byte list \<Rightarrow> nat \<Rightarrow> ifi_info \<Rightarrow> ifi_info" where
  "ifi_link buf sa ifi =
     (let nlen = sdl_nlen buf sa; alen = sdl_alen buf sa
      in ifi\<lparr>ifi_index := sdl_index buf sa,
             ifi_name := snprintf_str IFI_NAME (if 0 < nlen then star_s nlen (c_str (as_chars (sdl_data buf sa))) else ''index '' @ dec_nat (sdl_index buf sa)),
             ifi_hlen := alen,
             ifi_haddr := (if 0 < alen then blit (ifi_haddr ifi) 0 (take (min IFI_HADDR alen) (drop nlen (sdl_data buf sa))) else ifi_haddr ifi)\<rparr>)"

text \<open>
  The list built so far, whose last entry is the one \<^verbatim>\<open>ifi\<close> points to, and the variable \<^verbatim>\<open>flags\<close>. Before the first entry \<^verbatim>\<open>ifi\<close> is not initialised.
\<close>

record ifi_st =
  ifi_list :: "ifi_info list"
  ifi_fl :: "32 word"

datatype ifi_outcome = Ifi_on ifi_st | Ifi_wild | Ifi_quit nat

definition ifi_ifinfo :: "rtmsg \<Rightarrow> ifi_st \<Rightarrow> ifi_st" where
  "ifi_ifinfo m s =
     (let s1 = s\<lparr>ifi_fl := rm_flags m\<rparr>
      in if rm_flags m AND IFF_UP = 0 then s1
         else case get_rtaddrs (rm_addrs m) (rm_sas m) ! RTAX_IFP of
                None \<Rightarrow> s1
              | Some sa \<Rightarrow>
                  (let ifi = ifi_zero\<lparr>ifi_flags := rm_flags m\<rparr>
                   in s1\<lparr>ifi_list := ifi_list s1 @ [if sa_fam (rm_sas m) sa = AF_LINK then ifi_link (rm_sas m) sa ifi else ifi]\<rparr>))"

text \<open>The addresses of a message stored in an entry.\<close>

definition ifi_put :: "32 word \<Rightarrow> rtmsg \<Rightarrow> ifi_info \<Rightarrow> ifi_info" where
  "ifi_put flags m ifi =
     (let info = get_rtaddrs (rm_addrs m) (rm_sas m);
          copy = (\<lambda>k old. case info ! k of Some sa \<Rightarrow> Some (sa_copy (rm_sas m) sa) | None \<Rightarrow> old)
      in ifi\<lparr>ifi_addr := copy RTAX_IFA (ifi_addr ifi),
             ifi_brdaddr := (if flags AND IFF_BROADCAST \<noteq> 0 then copy RTAX_BRD (ifi_brdaddr ifi) else ifi_brdaddr ifi),
             ifi_dstaddr := (if flags AND IFF_POINTOPOINT \<noteq> 0 then copy RTAX_BRD (ifi_dstaddr ifi) else ifi_dstaddr ifi)\<rparr>)"

text \<open>The copy of the entry that an alias gets.\<close>

definition ifi_alias :: "ifi_info \<Rightarrow> ifi_info" where
  "ifi_alias ifi = ifi\<lparr>ifi_addr := None, ifi_brdaddr := None, ifi_dstaddr := None\<rparr>"

definition ifi_newaddr :: "bool \<Rightarrow> rtmsg \<Rightarrow> ifi_st \<Rightarrow> ifi_outcome" where
  "ifi_newaddr doaliases m s =
     (if ifi_list s = [] then Ifi_wild
      else let ifi = last (ifi_list s)
           in if ifi_addr ifi \<noteq> None
              then if \<not> doaliases then Ifi_on s
                   else Ifi_on (s\<lparr>ifi_list := ifi_list s @ [ifi_put (ifi_fl s) m (ifi_alias ifi)]\<rparr>)
              else Ifi_on (s\<lparr>ifi_list := butlast (ifi_list s) @ [ifi_put (ifi_fl s) m ifi]\<rparr>))"

fun get_ifi_loop :: "bool \<Rightarrow> rtmsg list \<Rightarrow> ifi_st \<Rightarrow> ifi_outcome" where
  "get_ifi_loop doaliases [] s = Ifi_on s"
| "get_ifi_loop doaliases (m # ms) s =
     (if rm_type m = RTM_IFINFO then get_ifi_loop doaliases ms (ifi_ifinfo m s)
      else if rm_type m = RTM_NEWADDR
      then (case ifi_newaddr doaliases m s of Ifi_on s' \<Rightarrow> get_ifi_loop doaliases ms s' | r \<Rightarrow> r)
      else Ifi_quit (rm_type m))"

definition get_ifi_info :: "bool \<Rightarrow> rtmsg list \<Rightarrow> ifi_outcome" where
  "get_ifi_info doaliases ms = get_ifi_loop doaliases ms \<lparr>ifi_list = [], ifi_fl = 0\<rparr>"

text \<open>The blocks \<^verbatim>\<open>free_ifi_info\<close> frees, in order: for each entry its addresses and the entry itself.\<close>

definition ifi_blocks :: "ifi_info \<Rightarrow> nat" where
  "ifi_blocks ifi = of_bool (ifi_addr ifi \<noteq> None) + of_bool (ifi_brdaddr ifi \<noteq> None) + of_bool (ifi_dstaddr ifi \<noteq> None) + 1"

fun free_ifi_info :: "ifi_info list \<Rightarrow> nat" where
  "free_ifi_info [] = 0"
| "free_ifi_info (ifi # rest) = ifi_blocks ifi + free_ifi_info rest"

section \<open>The addresses are found\<close>

lemma ROUNDUP_bounds: "a \<le> ROUNDUP a \<and> ROUNDUP a < a + 8 \<and> 8 dvd ROUNDUP a"
proof -
  have m: "a AND 7 = a mod 8" using take_bit_eq_mask [of 3 a] by (simp add: take_bit_eq_mod mask_eq_exp_minus_1)
  have "a OR mask 3 = push_bit 3 (drop_bit 3 a) OR mask 3" by (rule bit_eqI) (auto simp: bit_simps)
  also have "\<dots> = push_bit 3 (drop_bit 3 a) + mask 3"
    by (rule disjunctive_add_eq_or [symmetric]) (rule bit_eqI, auto simp: bit_simps)
  finally have "a OR 7 = 8 * (a div 8) + 7" by (simp add: push_bit_eq_mult drop_bit_eq_div mask_eq_exp_minus_1 mult.commute)
  with m show ?thesis unfolding ROUNDUP_def by presburger
qed

text \<open>A structure as the kernel stores it: padded to the size its length byte says.\<close>

definition sa_padded :: "byte list \<Rightarrow> bool" where
  "sa_padded b \<longleftrightarrow> b \<noteq> [] \<and> length b = (let len = unat (b ! 0) in if len \<noteq> 0 then ROUNDUP len else 8)"

definition sa_pack :: "byte list option list \<Rightarrow> byte list" where
  "sa_pack sas = concat (map (\<lambda>s. case s of None \<Rightarrow> [] | Some b \<Rightarrow> b) sas)"

lemma NEXT_SA_padded: "sa_padded b \<Longrightarrow> NEXT_SA (pre @ b @ post) (length pre) = length (pre @ b)"
  by (cases b) (auto simp: NEXT_SA_def sa_padded_def nth_append Let_def)

text \<open>A pointer leads to a structure of the buffer.\<close>

fun leads :: "byte list \<Rightarrow> byte list option \<Rightarrow> nat option \<Rightarrow> bool" where
  "leads buf None r \<longleftrightarrow> r = None"
| "leads buf (Some b) r \<longleftrightarrow> (\<exists>off. r = Some off \<and> take (length b) (drop off buf) = b)"

lemma get_rtaddrs_from_pack:
  assumes "\<forall>b. Some b \<in> set sas \<longrightarrow> sa_padded b" and "\<forall>k < length sas. bit addrs (i + k) \<longleftrightarrow> sas ! k \<noteq> None" and "buf = pre @ sa_pack sas"
  shows "list_all2 (leads buf) sas (get_rtaddrs_from (length sas) i addrs buf (length pre))"
  using assms
proof (induction sas arbitrary: i pre)
  case (Cons s sas)
  have bit0: "bit addrs i \<longleftrightarrow> s \<noteq> None" using Cons.prems(2) by fastforce
  have bits: "\<forall>k < length sas. bit addrs (i + 1 + k) \<longleftrightarrow> sas ! k \<noteq> None"
    using Cons.prems(2) by (metis Suc_less_eq add.assoc length_Cons nth_Cons_Suc plus_1_eq_Suc)
  have pad: "\<forall>b. Some b \<in> set sas \<longrightarrow> sa_padded b" using Cons.prems(1) by simp
  show ?case
  proof (cases s)
    case None
    with Cons.prems(3) have "buf = pre @ sa_pack sas" by (simp add: sa_pack_def)
    from Cons.IH [OF pad bits this] None bit0 show ?thesis by simp
  next
    case (Some b)
    with Cons.prems(3) have p: "buf = (pre @ b) @ sa_pack sas" by (simp add: sa_pack_def)
    have "NEXT_SA buf (length pre) = length (pre @ b)" using NEXT_SA_padded [of b pre "sa_pack sas"] Cons.prems(1) Some p by simp
    with Cons.IH [OF pad bits p] Some bit0 p show ?thesis by simp
  qed
qed simp

text \<open>
  \<^verbatim>\<open>get_rtaddrs\<close> finds every socket address of a message: when the structures of a message are stored one after the other in the order of their indexes, each padded to the size its
  length byte says (8 bytes for a length of 0), the pointer of each index whose bit is set leads to its structure, and the others are null.
\<close>

theorem get_rtaddrs_finds:
  assumes "length sas = RTAX_MAX" and "\<forall>b. Some b \<in> set sas \<longrightarrow> sa_padded b" and "\<forall>k < RTAX_MAX. bit addrs k \<longleftrightarrow> sas ! k \<noteq> None"
  shows "list_all2 (leads (sa_pack sas)) sas (get_rtaddrs addrs (sa_pack sas))"
  using get_rtaddrs_from_pack [of sas addrs 0 "sa_pack sas" "[]"] assms by (simp add: get_rtaddrs_def)

section \<open>Names and indexes\<close>

text \<open>The names and indexes of the interfaces of a list of messages.\<close>

definition if_entries :: "rtmsg list \<Rightarrow> (string \<times> nat) list" where
  "if_entries ms = map (\<lambda>m. (link_name m (the (ifp_link m)), sdl_index (rm_sas m) (the (ifp_link m)))) (filter (\<lambda>m. ifp_link m \<noteq> None) ms)"

text \<open>The name is as long as its length byte says.\<close>

definition link_ok :: "rtmsg \<Rightarrow> bool" where
  "link_ok m \<longleftrightarrow> (case ifp_link m of None \<Rightarrow> True | Some sa \<Rightarrow> length (link_name m sa) = sdl_nlen (rm_sas m) sa)"

lemma nametoindex_entries:
  "\<forall>m \<in> set ms. link_ok m \<Longrightarrow> nametoindex_loop name ms = (case map_of (if_entries ms) name of Some i \<Rightarrow> i | None \<Rightarrow> 0)"
  by (induction ms) (auto simp: if_entries_def link_ok_def split: option.splits)

lemma indextoname_entries:
  "indextoname_loop idx ms = map_option (\<lambda>x. c_str (take (IFNAMSIZ - 1) (fst x))) (find (\<lambda>x. snd x = idx) (if_entries ms))"
  by (induction ms) (auto simp: if_entries_def link_name_def take_take split: option.splits)

text \<open>
  The two directions agree: if \<^verbatim>\<open>if_nametoindex\<close> finds an index for a name of at most 15 characters, then \<^verbatim>\<open>if_indextoname\<close>, given the messages of the
  interfaces with that index, returns the name, provided no two interfaces share an index. Both free the buffer they were given.
\<close>

theorem if_name_index_inverse:
  assumes ms: "r_size sys" "r_alloc sys" "r_fetch sys = Some ms" and ok: "\<forall>m \<in> set ms. link_ok m"
    and one: "r_size sys1" "r_alloc sys1" "r_fetch sys1 = Some (filter (\<lambda>m. ifp_link m \<noteq> None \<and> sdl_index (rm_sas m) (the (ifp_link m)) = idx) ms)"
    and distinct: "\<forall>x \<in> set (if_entries ms). \<forall>y \<in> set (if_entries ms). snd x = snd y \<longrightarrow> fst x = fst y"
    and idx: "if_nametoindex sys name live = (idx, live')" "idx \<noteq> 0" and name: "length name < IFNAMSIZ" "NUL \<notin> set name"
  shows "live' = live \<and> if_indextoname sys1 idx live = (Some name, live)"
proof -
  have n: "nametoindex_loop name ms = idx" "live' = live" using ms idx(1) by (auto simp: if_nametoindex_def net_rt_iflist_def)
  then have "map_of (if_entries ms) name = Some idx" using nametoindex_entries [OF ok, of name] idx(2) by (auto split: option.splits)
  then have mem: "(name, idx) \<in> set (if_entries ms)" by (rule map_of_SomeD)
  let ?es = "if_entries (filter (\<lambda>m. ifp_link m \<noteq> None \<and> sdl_index (rm_sas m) (the (ifp_link m)) = idx) ms)"
  have es: "?es = filter (\<lambda>x. snd x = idx) (if_entries ms)"
    by (auto simp: if_entries_def filter_map comp_def intro!: arg_cong [where f = "map _"] filter_cong)
  with mem have "(name, idx) \<in> set ?es" by simp
  then obtain x where x: "find (\<lambda>x. snd x = idx) ?es = Some x" by (cases "find (\<lambda>x. snd x = idx) ?es") (auto simp: find_None_iff)
  then have "x \<in> set ?es" "snd x = idx" by (auto simp: find_Some_iff)
  then have "fst x = name" using distinct mem es by fastforce
  with x one n name show ?thesis by (simp add: if_indextoname_def net_rt_iflist_def indextoname_entries)
qed

section \<open>The block of if\_nameindex\<close>

definition link_need :: "rtmsg \<Rightarrow> int" where
  "link_need m = (case ifp_link m of None \<Rightarrow> 0 | Some sa \<Rightarrow> int (sdl_nlen (rm_sas m) sa + 1))"

lemma nameindex_loop_result:
  "ni_namptr (nameindex_loop ms s) = ni_namptr s - sum_list (map link_need ms) \<and>
   ni_names (nameindex_loop ms s) = ni_names s @ map (c_str \<circ> fst) (if_entries ms) \<and>
   map snd (ni_array (nameindex_loop ms s)) = map snd (ni_array s) @ map snd (if_entries ms)"
  by (induction ms s rule: nameindex_loop.induct) (auto simp: link_need_def if_entries_def Let_def split: option.splits)

lemma link_need_nonneg: "0 \<le> link_need m"
  by (simp add: link_need_def split: option.splits)

text \<open>
  \<^verbatim>\<open>if_nameindex\<close> returns the interfaces in the order of the messages and stays within its block, which is as large as the messages: if each message that names an interface is
  at least 32 bytes longer than the name and its null byte, and there is one, the array of structures, the one that ends it included, ends below the names.
\<close>

theorem if_nameindex_fits:
  assumes len: "int len = sum_list (map msglen ms)" and size: "\<forall>m \<in> set ms. 0 \<le> msglen m \<and> (ifp_link m \<noteq> None \<longrightarrow> link_need m + 32 \<le> msglen m)"
    and some: "if_entries ms \<noteq> []"
  shows "let r = if_nameindex len ms
    in 16 * (int (length (ni_array r)) + 1) \<le> ni_namptr r \<and> map snd (ni_array r) = map snd (if_entries ms) \<and> ni_names r = map (c_str \<circ> fst) (if_entries ms)"
proof -
  let ?r = "if_nameindex len ms"
  have r: "ni_namptr ?r = int len - sum_list (map link_need ms)" "map snd (ni_array ?r) = map snd (if_entries ms)" "ni_names ?r = map (c_str \<circ> fst) (if_entries ms)"
    using nameindex_loop_result [of ms] by (simp_all add: if_nameindex_def)
  have n: "length (ni_array ?r) = length (if_entries ms)" using r(2) by (metis length_map)
  have "32 * int (length (if_entries ms)) + sum_list (map link_need ms) \<le> sum_list (map msglen ms)"
    using size
  proof (induction ms)
    case (Cons m ms)
    then show ?case using link_need_nonneg [of m] by (cases "ifp_link m") (auto simp: if_entries_def link_need_def)
  qed (simp add: if_entries_def)
  moreover have "1 \<le> int (length (if_entries ms))" using some by (cases "if_entries ms") auto
  moreover have "16 * (n + 1) \<le> l - s" if "32 * n + s \<le> l" "1 \<le> n" for n s l :: int using that by simp
  ultimately have "16 * (int (length (if_entries ms)) + 1) \<le> ni_namptr ?r" unfolding r(1) len by blast
  with r n show ?thesis by (simp add: Let_def)
qed

section \<open>get\_ifi\_info against a reference\<close>

text \<open>An interface message with the address messages that follow it.\<close>

type_synonym rtgroup = "rtmsg \<times> rtmsg list"

definition group_ok :: "rtgroup \<Rightarrow> bool" where
  "group_ok g \<longleftrightarrow> rm_type (fst g) = RTM_IFINFO \<and> rm_flags (fst g) AND IFF_UP \<noteq> 0 \<and>
     get_rtaddrs (rm_addrs (fst g)) (rm_sas (fst g)) ! RTAX_IFP \<noteq> None \<and>
     (\<forall>a \<in> set (snd g). rm_type a = RTM_NEWADDR \<and> get_rtaddrs (rm_addrs a) (rm_sas a) ! RTAX_IFA \<noteq> None)"

definition ifi_base :: "rtmsg \<Rightarrow> ifi_info" where
  "ifi_base m =
     (let sa = the (get_rtaddrs (rm_addrs m) (rm_sas m) ! RTAX_IFP); ifi = ifi_zero\<lparr>ifi_flags := rm_flags m\<rparr>
      in if sa_fam (rm_sas m) sa = AF_LINK then ifi_link (rm_sas m) sa ifi else ifi)"

text \<open>The entries of an interface: one without an address, or one for each address, or for the first if no aliases are wanted.\<close>

fun ref_group :: "bool \<Rightarrow> rtgroup \<Rightarrow> ifi_info list" where
  "ref_group doaliases (m, []) = [ifi_base m]"
| "ref_group doaliases (m, a # as) = map (\<lambda>x. ifi_put (rm_flags m) x (ifi_base m)) (a # (if doaliases then as else []))"

lemma ifi_base_no_addr: "ifi_addr (ifi_base m) = None" "ifi_alias (ifi_base m) = ifi_base m"
  by (simp_all add: ifi_base_def ifi_link_def ifi_alias_def ifi_zero_def Let_def)

lemma ifi_put_addr: "get_rtaddrs (rm_addrs a) (rm_sas a) ! RTAX_IFA \<noteq> None \<Longrightarrow> ifi_addr (ifi_put fl a ifi) \<noteq> None"
  by (auto simp: ifi_put_def Let_def)

lemma ifi_alias_put: "ifi_alias (ifi_put fl a ifi) = ifi_alias ifi"
  by (simp add: ifi_put_def ifi_alias_def Let_def)

lemma get_ifi_same: "ifi_list s = l \<Longrightarrow> s\<lparr>ifi_list := l\<rparr> = s"
  by (cases s) simp

text \<open>The address messages after the first.\<close>

lemma get_ifi_aliases:
  assumes "\<forall>a \<in> set as. rm_type a = RTM_NEWADDR \<and> get_rtaddrs (rm_addrs a) (rm_sas a) ! RTAX_IFA \<noteq> None"
    and "ifi_list s = pre @ [ifi]" and "ifi_addr ifi \<noteq> None"
  shows "get_ifi_loop doaliases (as @ ms) s =
    get_ifi_loop doaliases ms (s\<lparr>ifi_list := ifi_list s @ (if doaliases then map (\<lambda>x. ifi_put (ifi_fl s) x (ifi_alias ifi)) as else [])\<rparr>)"
  using assms
proof (induction as arbitrary: s pre ifi)
  case (Cons a as)
  have a: "rm_type a = RTM_NEWADDR" "rm_type a \<noteq> RTM_IFINFO" using Cons.prems(1) by (auto simp: RTM_NEWADDR_def RTM_IFINFO_def)
  show ?case
  proof (cases doaliases)
    case True
    let ?new = "ifi_put (ifi_fl s) a (ifi_alias ifi)" and ?s = "s\<lparr>ifi_list := ifi_list s @ [ifi_put (ifi_fl s) a (ifi_alias ifi)]\<rparr>"
    have "ifi_addr ?new \<noteq> None" using Cons.prems(1) by (intro ifi_put_addr) simp
    then have "get_ifi_loop doaliases (as @ ms) ?s = get_ifi_loop doaliases ms (?s\<lparr>ifi_list := ifi_list ?s @ map (\<lambda>x. ifi_put (ifi_fl s) x (ifi_alias ?new)) as\<rparr>)"
      using Cons.IH [of ?s "ifi_list s" ?new] Cons.prems(1) True by simp
    moreover have "ifi_alias ?new = ifi_alias ifi" by (simp add: ifi_alias_put) (simp add: ifi_alias_def)
    ultimately show ?thesis using True a Cons.prems(2,3) by (simp add: ifi_newaddr_def Let_def)
  next
    case False
    with a Cons show ?thesis by (simp add: ifi_newaddr_def Let_def)
  qed
qed (auto simp: get_ifi_same)

lemma get_ifi_group:
  assumes "group_ok (m, as)"
  shows "\<exists>fl. get_ifi_loop doaliases (m # as @ ms) s = get_ifi_loop doaliases ms (s\<lparr>ifi_fl := fl, ifi_list := ifi_list s @ ref_group doaliases (m, as)\<rparr>)"
proof -
  let ?s = "s\<lparr>ifi_fl := rm_flags m, ifi_list := ifi_list s @ [ifi_base m]\<rparr>"
  have i: "get_ifi_loop doaliases (m # as @ ms) s = get_ifi_loop doaliases (as @ ms) ?s"
    using assms by (auto simp: group_ok_def ifi_ifinfo_def ifi_base_def Let_def)
  show ?thesis
  proof (cases as)
    case Nil
    with i show ?thesis by (intro exI [of _ "rm_flags m"]) simp
  next
    case (Cons a bs)
    have a: "rm_type a = RTM_NEWADDR" "rm_type a \<noteq> RTM_IFINFO" "get_rtaddrs (rm_addrs a) (rm_sas a) ! RTAX_IFA \<noteq> None"
      using assms Cons by (auto simp: group_ok_def RTM_NEWADDR_def RTM_IFINFO_def)
    let ?b = "ifi_put (rm_flags m) a (ifi_base m)" and ?s2 = "s\<lparr>ifi_fl := rm_flags m, ifi_list := ifi_list s @ [ifi_put (rm_flags m) a (ifi_base m)]\<rparr>"
    have "get_ifi_loop doaliases (as @ ms) ?s = get_ifi_loop doaliases (bs @ ms) ?s2"
      using Cons a by (simp add: ifi_newaddr_def ifi_base_no_addr Let_def)
    also have "\<dots> = get_ifi_loop doaliases ms (?s2\<lparr>ifi_list := ifi_list ?s2 @ (if doaliases then map (\<lambda>x. ifi_put (ifi_fl ?s2) x (ifi_alias ?b)) bs else [])\<rparr>)"
      using assms Cons ifi_put_addr [OF a(3)] by (intro get_ifi_aliases [where pre = "ifi_list s"]) (auto simp: group_ok_def)
    also have "ifi_alias ?b = ifi_base m" by (simp add: ifi_alias_put ifi_base_no_addr)
    finally show ?thesis using i Cons by (intro exI [of _ "rm_flags m"]) simp
  qed
qed


text \<open>
  An interface that is not up is skipped, but not the messages of its addresses: with aliases wanted each of them becomes an entry of the interface before it, and if there is none, the
  first of them is stored through a pointer that was never set.
\<close>

lemma get_ifi_down:
  assumes "rm_type m = RTM_IFINFO" and "rm_flags m AND IFF_UP = 0"
    and "\<forall>a \<in> set as. rm_type a = RTM_NEWADDR \<and> get_rtaddrs (rm_addrs a) (rm_sas a) ! RTAX_IFA \<noteq> None"
    and "ifi_list s = pre @ [ifi]" and "ifi_addr ifi \<noteq> None"
  shows "get_ifi_loop True (m # as) s = Ifi_on (s\<lparr>ifi_fl := rm_flags m, ifi_list := ifi_list s @ map (\<lambda>x. ifi_put (rm_flags m) x (ifi_alias ifi)) as\<rparr>)"
    and "as \<noteq> [] \<Longrightarrow> get_ifi_info True (m # as) = Ifi_wild"
proof -
  show "get_ifi_loop True (m # as) s = Ifi_on (s\<lparr>ifi_fl := rm_flags m, ifi_list := ifi_list s @ map (\<lambda>x. ifi_put (rm_flags m) x (ifi_alias ifi)) as\<rparr>)"
    using get_ifi_aliases [of as "s\<lparr>ifi_fl := rm_flags m\<rparr>" pre ifi True "[]"] assms by (simp add: ifi_ifinfo_def Let_def)
  show "get_ifi_info True (m # as) = Ifi_wild" if "as \<noteq> []"
  proof -
    obtain a bs where "as = a # bs" using \<open>as \<noteq> []\<close> by (cases as) auto
    then show ?thesis using assms(1-3) by (auto simp: get_ifi_info_def ifi_ifinfo_def ifi_newaddr_def Let_def RTM_NEWADDR_def RTM_IFINFO_def)
  qed
qed

section \<open>Examples\<close>

definition lo_link :: "byte list" where
  "lo_link = [11, 18, 1, 0, 24, 3, 0, 0, 108, 111, 48, 0, 0, 0, 0, 0]"

definition lo_info :: rtmsg where
  "lo_info = \<lparr>rm_type = RTM_IFINFO, rm_flags = 1, rm_addrs = 16, rm_sas = lo_link\<rparr>"

definition lo_addr :: rtmsg where
  "lo_addr = \<lparr>rm_type = RTM_NEWADDR, rm_flags = 0, rm_addrs = 32, rm_sas = [16, 2, 0, 0, 127, 0, 0, 1] @ replicate 8 0\<rparr>"

definition lo_sys :: rtsys where
  "lo_sys = \<lparr>r_size = True, r_alloc = True, r_fetch = Some [lo_info, lo_addr]\<rparr>"

lemma lo_values: "if_entries [lo_info, lo_addr] = [(''lo0'', 1)]" "if_nametoindex lo_sys ''lo0'' 0 = (1, 0)" "list_all link_ok [lo_info, lo_addr]"
  "ifp_link lo_info = Some 0" "ifp_link lo_addr = None" "link_need lo_info = 4"
  by code_simp+

lemma lo_group: "group_ok (lo_info, [lo_addr])"
  by code_simp

theorem get_rtaddrs_finds_witness:
  "list_all2 (leads (sa_pack [None, None, None, None, Some lo_link, Some (rm_sas lo_addr), None, None]))
     [None, None, None, None, Some lo_link, Some (rm_sas lo_addr), None, None]
     (get_rtaddrs 48 (sa_pack [None, None, None, None, Some lo_link, Some (rm_sas lo_addr), None, None]))"
proof (rule get_rtaddrs_finds)
  let ?sas = "[None, None, None, None, Some lo_link, Some (rm_sas lo_addr), None, None]"
  show "length ?sas = RTAX_MAX" by (simp add: RTAX_MAX_def)
  have "sa_padded lo_link" "sa_padded (rm_sas lo_addr)" by code_simp+
  then show "\<forall>b. Some b \<in> set ?sas \<longrightarrow> sa_padded b" by auto
  have "list_all (\<lambda>k. bit (48 :: 32 word) k \<longleftrightarrow> ?sas ! k \<noteq> None) [0..<RTAX_MAX]" by code_simp
  then show "\<forall>k < RTAX_MAX. bit (48 :: 32 word) k \<longleftrightarrow> ?sas ! k \<noteq> None" unfolding list_all_iff by auto
qed

theorem if_name_index_inverse_witness:
  "if_indextoname (lo_sys\<lparr>r_fetch := Some [lo_info]\<rparr>) 1 0 = (Some ''lo0'', 0)"
proof -
  have ok: "\<forall>m \<in> set [lo_info, lo_addr]. link_ok m" using lo_values(3) by simp
  have i: "sdl_index (rm_sas lo_info) 0 = 1" by code_simp
  have "(0::int) = 0 \<and> if_indextoname (lo_sys\<lparr>r_fetch := Some [lo_info]\<rparr>) 1 0 = (Some ''lo0'', 0)"
  proof (rule if_name_index_inverse [OF _ _ _ ok _ _ _ _ lo_values(2)])
    show "r_fetch (lo_sys\<lparr>r_fetch := Some [lo_info]\<rparr>) =
      Some (filter (\<lambda>m. ifp_link m \<noteq> None \<and> sdl_index (rm_sas m) (the (ifp_link m)) = 1) [lo_info, lo_addr])"
      using lo_values(4,5) i by simp
  qed (simp_all add: lo_sys_def lo_values(1) IFNAMSIZ_def)
  then show ?thesis by simp
qed

theorem if_nameindex_fits_witness:
  "let r = if_nameindex 200 [lo_info, lo_addr] in 16 * (int (length (ni_array r)) + 1) \<le> ni_namptr r \<and> ni_names r = [''lo0'']"
proof -
  have "c_str ''lo0'' = ''lo0''" by code_simp
  then show ?thesis
    using if_nameindex_fits [of 200 "\<lambda>m. 100" "[lo_info, lo_addr]"] lo_values by (simp add: Let_def)
qed


text \<open>
  The name of an interface with a hardware address: \<^verbatim>\<open>%*s\<close> does not stop after \<^verbatim>\<open>sdl_nlen\<close> characters, so that the bytes of the hardware address follow the name up to the first one that is 0.
\<close>

lemma ifi_name_overlong:
  "ifi_name (ifi_link ([16, 18, 2, 0, 6, 2, 6, 0] @ [101, 110] @ [65, 66, 67, 0, 68, 69]) 0 ifi_zero) = ''enABC''"
  by code_simp

text \<open>With no interface the block has no room for the structure that ends the array.\<close>

lemma if_nameindex_empty: "ni_namptr (if_nameindex 0 []) = 0"
  by code_simp

end
