(* ===== verification/Raw_Udp.thy ===== *)
theory Raw_Udp
  imports Icmp_Headers
begin

text \<open>
  The program \<^verbatim>\<open>udpcksum/\<close>: it sends a DNS query as an IP datagram that it builds itself and captures the reply, to see whether
  the server uses UDP checksums (\<^verbatim>\<open>udpwrite.c\<close>, \<^verbatim>\<open>senddnsquery-raw.c\<close>, \<^verbatim>\<open>udpread.c\<close>, \<^verbatim>\<open>pcap.c\<close>, \<^verbatim>\<open>udpcksum.c\<close>). Buffers are byte lists; what
  \<^verbatim>\<open>malloc\<close> returns has arbitrary contents. The packet capture library is a script of what \<^verbatim>\<open>pcap_next\<close> returns; a captured
  frame is the memory of the library at the pointer it returned and the number of captured bytes. The theorems: a datagram has the
  right headers and a checksum that verifies over the pseudoheader of RFC 768, it is accepted by the reading side, and at most three
  queries are sent, with timeouts of 3, 6 and 12 seconds.
\<close>

section \<open>The program\<close>

record rawcf =
  src_port :: "16 word"
  src_addr :: "byte list"
  dst_port :: "16 word"
  dst_addr :: "byte list"
  zerosum :: bool
  datalink :: nat

text \<open>Datagrams handed to the raw socket, seconds given to \<^verbatim>\<open>alarm\<close>, and blocks allocated.\<close>

record rawst =
  raw_sent :: "byte list list"
  raw_alarms :: "nat list"
  raw_live :: nat

definition TTL_OUT :: byte where "TTL_OUT = 64"

text \<open>\<^verbatim>\<open>sizeof(struct udpiphdr)\<close>; 16-bit fields in network byte order.\<close>

definition udpiphdr_size :: nat where "udpiphdr_size = 28"

definition net16 :: "nat \<Rightarrow> byte list" where
  "net16 n = le16_bytes (ntohs (of_nat n))"

text \<open>
  \<^verbatim>\<open>udp_write\<close>: the fields of \<^verbatim>\<open>struct udpiphdr\<close> first, whose upper part is the pseudoheader, then those of \<^verbatim>\<open>struct ip\<close> over it. The length of the
  pseudoheader lies where the IP header has its checksum, which the kernel overwrites.
\<close>

definition udp_fill :: "rawcf \<Rightarrow> byte list \<Rightarrow> nat \<Rightarrow> byte list" where
  "udp_fill cf buf userlen =
     (let b = blit buf 0 (replicate udpiphdr_size 0);
          b = blit b 10 (net16 (8 + userlen));
          b = blit b 9 [of_nat IPPROTO_UDP];
          b = blit b 12 (src_addr cf);
          b = blit b 16 (dst_addr cf);
          b = blit b 20 (le16_bytes (src_port cf));
          b = blit b 22 (le16_bytes (dst_port cf))
      in blit b 24 (take 2 (drop 10 b)))"

definition udp_sum :: "rawcf \<Rightarrow> byte list \<Rightarrow> nat \<Rightarrow> byte list" where
  "udp_sum cf b len =
     (if zerosum cf then b
      else let s = in_cksum (take len b) in blit b 26 (le16_bytes (if s = 0 then 0xffff else s)))"

definition ip_fill :: "byte list \<Rightarrow> nat \<Rightarrow> byte list" where
  "ip_fill b len =
     (let b = blit b 0 [0x45];
          b = blit b 1 [0];
          b = blit b 2 (net16 len);
          b = blit b 4 [0, 0];
          b = blit b 6 [0, 0]
      in blit b 8 [TTL_OUT])"

definition udp_write :: "rawcf \<Rightarrow> errno option \<Rightarrow> byte list \<Rightarrow> nat \<Rightarrow> (unit, rawst) prog" where
  "udp_write cf err buf userlen st =
     (let len = userlen + udpiphdr_size;
          b = ip_fill (udp_sum cf (udp_fill cf buf userlen) len) len
      in case err of
           Some e \<Rightarrow> Die (Err_sys ''sendto error'' (Some e)) st
         | None \<Rightarrow> Ret () (st\<lparr>raw_sent := raw_sent st @ [take len b]\<rparr>))"

text \<open>The 36 bytes of the query for the address of \<^verbatim>\<open>a.root-servers.net\<close>.\<close>

definition dns_name :: "byte list" where
  "dns_name = [1] @ map of_char ''a'' @ [12] @ map of_char ''root-servers'' @ [3] @ map of_char ''net'' @ [0]"

definition dns_query :: "byte list" where
  "dns_query = net16 1234 @ net16 0x0100 @ net16 1 @ [0, 0] @ [0, 0] @ [0, 0] @ dns_name @ net16 1 @ net16 1"

text \<open>\<open>fresh\<close> is the block that \<^verbatim>\<open>Malloc\<close> returns; it is never freed.\<close>

definition send_dns_query :: "rawcf \<Rightarrow> byte list \<Rightarrow> errno option \<Rightarrow> (unit, rawst) prog" where
  "send_dns_query cf fresh err st =
     udp_write cf err (blit fresh udpiphdr_size dns_query) (length dns_query) (st\<lparr>raw_live := raw_live st + 1\<rparr>)"

text \<open>
  \<^verbatim>\<open>udp_check\<close> of \<open>len\<close> bytes at offset \<open>off\<close> of the memory of the capture library. The lengths are compared with
  \<^verbatim>\<open>sizeof\<close> values and thereby converted to \<^verbatim>\<open>size_t\<close>. The result is the packet, with its checksum field overwritten by 0.
\<close>

definition as_size :: "int \<Rightarrow> 64 word" where
  "as_size n = of_int n"

definition udp_check :: "byte list \<Rightarrow> nat \<Rightarrow> int \<Rightarrow> fatal + byte list" where
  "udp_check mem off len =
     (if as_size len < 28 then Inl (Err_quit ''len = %d'')
      else if oct mem off div 16 \<noteq> 4 then Inl (Err_quit ''ip_v = %d'')
      else if ip_hlen mem off < 20 then Inl (Err_quit ''ip_hl = %d'')
      else if as_size len < of_nat (ip_hlen mem off + 8) then Inl (Err_quit ''len = %d, hlen = %d'')
      else if in_cksum (take (ip_hlen mem off) (drop off mem)) \<noteq> 0 then Inl (Err_quit ''ip checksum error'')
      else if ip_p mem off = IPPROTO_UDP then Inr (blit (drop off mem) 10 [0, 0])
      else Inl (Err_quit ''not a UDP packet''))"

definition DLT_NULL :: nat where "DLT_NULL = 0"
definition DLT_EN10MB :: nat where "DLT_EN10MB = 1"
definition DLT_SLIP :: nat where "DLT_SLIP = 8"
definition DLT_PPP :: nat where "DLT_PPP = 9"

definition udp_frame :: "rawcf \<Rightarrow> byte list \<Rightarrow> nat \<Rightarrow> fatal + byte list" where
  "udp_frame cf mem caplen =
     (if datalink cf = DLT_NULL then udp_check mem 4 (int caplen - 4)
      else if datalink cf = DLT_EN10MB
      then if ntohs (le16 (mem ! 12) (mem ! 13)) \<noteq> 0x0800 then Inl (Err_quit ''Ethernet type %x not IP'')
           else udp_check mem 14 (int caplen - 14)
      else if datalink cf = DLT_SLIP \<or> datalink cf = DLT_PPP then udp_check mem 24 (int caplen - 24)
      else Inl (Err_quit ''unsupported datalink (%d)''))"

text \<open>What happens next while \<^verbatim>\<open>next_pcap\<close> waits: nothing was captured, a frame was, or the alarm goes off.\<close>

datatype uevent = U_none | U_frame "byte list" nat | U_alarm

text \<open>The checksum field of the reply at the place where \<^verbatim>\<open>struct udpiphdr\<close> has it, and the line that is printed.\<close>

definition ui_sum :: "byte list \<Rightarrow> 16 word" where
  "ui_sum ui = le16 (ui ! 26) (ui ! 27)"

definition udp_report :: "byte list \<Rightarrow> string" where
  "udp_report ui = (if ui_sum ui = 0 then ''UDP checksums off'' else ''UDP checksums on'')"

text \<open>
  \<^verbatim>\<open>test_udp\<close>. The handler jumps back to \<^verbatim>\<open>sigsetjmp\<close> while \<^verbatim>\<open>udp_read\<close> waits; \<^verbatim>\<open>nsent\<close> and \<^verbatim>\<open>timeout\<close> are volatile and keep their
  values. \<open>env\<close> gives the block and the result of \<^verbatim>\<open>Sendto\<close> for each query.
\<close>

type_synonym rawenv = "nat \<Rightarrow> byte list \<times> errno option"

definition test_send :: "rawcf \<Rightarrow> rawenv \<Rightarrow> nat \<Rightarrow> nat \<Rightarrow> (unit, rawst) prog" where
  "test_send cf env nsent timeout =
     bindP (send_dns_query cf (fst (env nsent)) (snd (env nsent))) (\<lambda>_ st. Ret () (st\<lparr>raw_alarms := raw_alarms st @ [timeout]\<rparr>))"

fun udp_read_loop :: "rawcf \<Rightarrow> rawenv \<Rightarrow> nat \<Rightarrow> nat \<Rightarrow> uevent list \<Rightarrow> (string, rawst) prog" where
  "udp_read_loop cf env nsent timeout [] st = Blocked st"
| "udp_read_loop cf env nsent timeout (U_none # es) st = udp_read_loop cf env nsent timeout es st"
| "udp_read_loop cf env nsent timeout (U_frame mem caplen # es) st =
     (case udp_frame cf mem caplen of
        Inl f \<Rightarrow> Die f st
      | Inr ui \<Rightarrow> Ret (udp_report ui) (st\<lparr>raw_alarms := raw_alarms st @ [0]\<rparr>))"
| "udp_read_loop cf env nsent timeout (U_alarm # es) st =
     (if 3 \<le> nsent then Die (Err_quit ''no response'') st
      else bindP (test_send cf env nsent (timeout * 2)) (\<lambda>_ st'. udp_read_loop cf env (nsent + 1) (timeout * 2) es st') st)"

definition test_udp :: "rawcf \<Rightarrow> rawenv \<Rightarrow> uevent list \<Rightarrow> (string, rawst) prog" where
  "test_udp cf env es = bindP (test_send cf env 0 3) (\<lambda>_ st. udp_read_loop cf env 1 3 es st)"

section \<open>The datagram\<close>

definition cf_ok :: "rawcf \<Rightarrow> bool" where
  "cf_ok cf \<longleftrightarrow> length (src_addr cf) = 4 \<and> length (dst_addr cf) = 4"

text \<open>The datagram in one piece: the structure over which the checksum is taken, the checksum, and the bytes that are sent.\<close>

definition udp_head :: "rawcf \<Rightarrow> nat \<Rightarrow> byte list" where
  "udp_head cf n = replicate 9 0 @ [17] @ net16 (8 + n) @ src_addr cf @ dst_addr cf @ le16_bytes (src_port cf) @ le16_bytes (dst_port cf) @ net16 (8 + n)"

definition udp_ck :: "rawcf \<Rightarrow> byte list \<Rightarrow> byte list" where
  "udp_ck cf data =
     (if zerosum cf then [0, 0]
      else let s = in_cksum (udp_head cf (length data) @ [0, 0] @ data) in le16_bytes (if s = 0 then 0xffff else s))"

definition udp_datagram :: "rawcf \<Rightarrow> byte list \<Rightarrow> byte list" where
  "udp_datagram cf data =
     [0x45, 0] @ net16 (length data + 28) @ [0, 0, 0, 0, 64, 17] @ net16 (8 + length data) @ src_addr cf @ dst_addr cf @
     le16_bytes (src_port cf) @ le16_bytes (dst_port cf) @ net16 (8 + length data) @ udp_ck cf data @ data"

lemma length_net16 [simp]: "length (net16 n) = 2"
  by (simp add: net16_def length_le16_bytes)

lemma net16_two: obtains x y where "net16 n = [x, y]"
  by (simp add: net16_def le16_bytes_def)

lemma length_udp_ck [simp]: "length (udp_ck cf data) = 2"
  by (simp add: udp_ck_def Let_def length_le16_bytes)

lemma length_udp_head: "cf_ok cf \<Longrightarrow> length (udp_head cf n) = 26"
  by (simp add: udp_head_def cf_ok_def length_le16_bytes)

lemma length_udp_datagram: "cf_ok cf \<Longrightarrow> length (udp_datagram cf data) = 28 + length data"
  by (simp add: udp_datagram_def cf_ok_def length_le16_bytes)

lemma udp_fill_layout:
  assumes "cf_ok cf" and "28 \<le> length buf"
  shows "udp_fill cf buf n = udp_head cf n @ [0, 0] @ drop 28 buf"
proof -
  let ?L = "net16 (8 + n)" and ?R = "drop 28 buf"
  let ?z = "\<lambda>k. replicate k (0 :: byte)" and ?s = "src_addr cf" and ?d = "dst_addr cf"
  have a: "length ?s = 4" "length ?d = 4" using assms(1) by (simp_all add: cf_ok_def)
  note z = blit_run [where z = "0 :: byte"]
  have b0: "blit buf 0 (?z 28) = ?z 28 @ ?R" by (simp add: blit_0)
  have b1: "blit (?z 28 @ ?R) 10 ?L = ?z 10 @ ?L @ ?z 16 @ ?R" using z [of "[]" 0 10 ?L 28 ?R] by simp
  have b2: "blit (?z 10 @ ?L @ ?z 16 @ ?R) 9 [of_nat IPPROTO_UDP] = (?z 9 @ [17] @ ?L) @ ?z 16 @ ?R"
    using z [of "[]" 0 9 "[17]" 10 "?L @ ?z 16 @ ?R"] by (simp add: IPPROTO_UDP_def)
  have b3: "blit ((?z 9 @ [17] @ ?L) @ ?z 16 @ ?R) 12 ?s = (?z 9 @ [17] @ ?L @ ?s) @ ?z 12 @ ?R"
    using z [of "?z 9 @ [17] @ ?L" 12 12 ?s 16 ?R] by (simp add: a)
  have b4: "blit ((?z 9 @ [17] @ ?L @ ?s) @ ?z 12 @ ?R) 16 ?d = (?z 9 @ [17] @ ?L @ ?s @ ?d) @ ?z 8 @ ?R"
    using z [of "?z 9 @ [17] @ ?L @ ?s" 16 16 ?d 12 ?R] by (simp add: a)
  have b5: "blit ((?z 9 @ [17] @ ?L @ ?s @ ?d) @ ?z 8 @ ?R) 20 (le16_bytes p) = (?z 9 @ [17] @ ?L @ ?s @ ?d @ le16_bytes p) @ ?z 6 @ ?R" for p
    using z [of "?z 9 @ [17] @ ?L @ ?s @ ?d" 20 20 "le16_bytes p" 8 ?R] by (simp add: a length_le16_bytes)
  have b6: "blit ((?z 9 @ [17] @ ?L @ ?s @ ?d @ le16_bytes p) @ ?z 6 @ ?R) 22 (le16_bytes q) =
    (?z 9 @ [17] @ ?L @ ?s @ ?d @ le16_bytes p @ le16_bytes q) @ ?z 4 @ ?R" for p q
    using z [of "?z 9 @ [17] @ ?L @ ?s @ ?d @ le16_bytes p" 22 22 "le16_bytes q" 6 ?R] by (simp add: a length_le16_bytes)
  have b7: "blit ((?z 9 @ [17] @ ?L @ ?s @ ?d @ le16_bytes p @ le16_bytes q) @ ?z 4 @ ?R) 24 ?L =
    (?z 9 @ [17] @ ?L @ ?s @ ?d @ le16_bytes p @ le16_bytes q @ ?L) @ ?z 2 @ ?R" for p q
    using z [of "?z 9 @ [17] @ ?L @ ?s @ ?d @ le16_bytes p @ le16_bytes q" 24 24 ?L 4 ?R] by (simp add: a length_le16_bytes)
  have t: "take 2 (drop 10 ((?z 9 @ [17] @ ?L @ ?s @ ?d @ le16_bytes p @ le16_bytes q) @ ?z 4 @ ?R)) = ?L" for p q
    by simp
  show ?thesis unfolding udp_fill_def Let_def udpiphdr_size_def b0 b1 b2 b3 b4 b5 b6 t b7 udp_head_def by (simp add: numeral_2_eq_2)
qed

lemma udp_write_datagram:
  assumes "cf_ok cf" and "length data = n" and "take n (drop 28 buf) = data" and "28 + n \<le> length buf"
  shows "udp_write cf None buf n st = Ret () (st\<lparr>raw_sent := raw_sent st @ [udp_datagram cf data]\<rparr>)"
proof -
  obtain rest where rest: "drop 28 buf = data @ rest" using assms(3) append_take_drop_id by metis
  have f: "udp_fill cf buf n = udp_head cf n @ [0, 0] @ data @ rest" using udp_fill_layout [OF assms(1)] assms(4) rest by simp
  have "take (n + 28) (udp_fill cf buf n) = udp_head cf n @ [0, 0] @ data" using f assms(1,2) by (simp add: length_udp_head)
  moreover have "blit (udp_head cf n @ [0, 0] @ data @ rest) 26 (le16_bytes w) = udp_head cf n @ le16_bytes w @ data @ rest" for w
    using assms(1) by (intro blit_append) (simp_all add: length_udp_head length_le16_bytes)
  ultimately have s: "udp_sum cf (udp_fill cf buf n) (n + 28) = udp_head cf n @ udp_ck cf data @ data @ rest"
    using assms(2) unfolding udp_sum_def udp_ck_def Let_def f by simp
  obtain x y where l: "net16 (8 + n) = [x, y]" by (rule net16_two)
  obtain x' y' where l': "net16 (n + 28) = [x', y']" by (rule net16_two)
  have "ip_fill (udp_head cf n @ udp_ck cf data @ data @ rest) (n + 28) = udp_datagram cf data @ rest"
    unfolding ip_fill_def udp_head_def udp_datagram_def assms(2) l l'
    by (simp add: Let_def blit_def l l' TTL_OUT_def numeral_eq_Suc)
  then have "take (n + 28) (ip_fill (udp_head cf n @ udp_ck cf data @ data @ rest) (n + 28)) = udp_datagram cf data"
    using length_udp_datagram [OF assms(1), of data] assms(2) by simp
  then show ?thesis using s by (simp add: udp_write_def Let_def udpiphdr_size_def)
qed

section \<open>The checksum\<close>

lemma in_cksum_cong: "length u \<le> 65535 \<Longrightarrow> length v \<le> 65535 \<Longrightarrow> word_sum u = word_sum v \<Longrightarrow> in_cksum u = in_cksum v"
  by (metis unat_in_cksum word_unat_eq_iff)

lemma ones_compl_again: "0 < s \<Longrightarrow> ones_compl (s + 65535) = ones_compl s"
  using mod_add_self2 [of "s - 1" 65535] by (simp add: ones_compl_def Suc_diff_le)

lemma ones_compl_le: "ones_compl s \<le> 65535"
proof -
  define r where "r = (s - 1) mod 65535"
  have "r < 65535" by (simp add: r_def)
  moreover have "ones_compl s = (if s = 0 then 0 else r + 1)" by (simp only: ones_compl_def r_def)
  ultimately show ?thesis by simp
qed

text \<open>A checksum of 0 is sent as \<^verbatim>\<open>0xffff\<close>, which verifies as well.\<close>

lemma in_cksum_ffff:
  assumes "even (length u)" and "length u + 2 + length v \<le> 65535" and "in_cksum (u @ [0, 0] @ v) = 0"
  shows "in_cksum (u @ [0xff, 0xff] @ v) = 0"
proof -
  let ?s = "word_sum u + word_sum v"
  have "65535 - ones_compl ?s = 0" using unat_in_cksum [of "u @ [0, 0] @ v"] assms by (simp add: word_sum_append)
  then have "ones_compl ?s = 65535" using ones_compl_le [of ?s] by simp
  moreover from this have "0 < ?s" by (cases "?s = 0") (auto simp: ones_compl_def)
  ultimately have "ones_compl (?s + 65535) = 65535" by (simp add: ones_compl_again)
  moreover have "word_sum (u @ [0xff, 0xff] @ v) = ?s + 65535" using assms(1) by (simp add: word_sum_append)
  ultimately have "unat (in_cksum (u @ [0xff, 0xff] @ v)) = 0" using unat_in_cksum [of "u @ [0xff, 0xff] @ v"] assms(2) by simp
  then show ?thesis by (simp add: unat_eq_0)
qed

lemma le16_bytes_0: "le16_bytes w = [0, 0] \<longleftrightarrow> w = 0"
  using word_sum_le16_bytes [of w] by (auto simp: le16_bytes_def unat_eq_0)

lemma le16_bytes_ffff: "le16_bytes 0xffff = [0xff, 0xff]"
  by code_simp

text \<open>The pseudoheader of RFC 768 in front of the UDP header and data of a packet.\<close>

definition pseudo :: "byte list \<Rightarrow> byte list \<Rightarrow> nat \<Rightarrow> byte list" where
  "pseudo src dst n = src @ dst @ [0, 17] @ net16 n"

lemma udp_ck_nonzero: "udp_ck cf data = [0, 0] \<longleftrightarrow> zerosum cf"
  by (simp add: udp_ck_def Let_def le16_bytes_0)

lemma udp_ck_verifies:
  assumes "cf_ok cf" and "length data + 28 \<le> 65535" and "\<not> zerosum cf"
  shows "in_cksum (udp_head cf (length data) @ udp_ck cf data @ data) = 0"
proof -
  let ?u = "udp_head cf (length data)"
  have u: "even (length ?u)" "length ?u + 2 + length data \<le> 65535" using assms by (simp_all add: length_udp_head)
  show ?thesis
  proof (cases "in_cksum (?u @ [0, 0] @ data) = 0")
    case True
    with in_cksum_ffff [OF u True] assms(3) show ?thesis by (simp add: udp_ck_def Let_def le16_bytes_ffff)
  next
    case False
    with in_cksum_field [OF u] assms(3) show ?thesis by (simp add: udp_ck_def Let_def)
  qed
qed

lemma udp_datagram_verifies:
  assumes "cf_ok cf" and "length data + 28 \<le> 65535" and "\<not> zerosum cf"
  shows "in_cksum (pseudo (src_addr cf) (dst_addr cf) (8 + length data) @ drop 20 (udp_datagram cf data)) = 0"
proof -
  let ?n = "length data"
  have d: "drop 20 (udp_datagram cf data) = le16_bytes (src_port cf) @ le16_bytes (dst_port cf) @ net16 (8 + ?n) @ udp_ck cf data @ data"
    using assms(1) by (simp add: udp_datagram_def cf_ok_def)
  have e: "even (length (src_addr cf))" "even (length (dst_addr cf))" using assms(1) by (simp_all add: cf_ok_def)
  have z: "replicate 9 (0 :: byte) @ 17 # w = replicate 8 0 @ [0, 17] @ w" for w by (simp add: numeral_eq_Suc)
  have "word_sum (replicate 8 0) = 0" by code_simp
  then have "word_sum (pseudo (src_addr cf) (dst_addr cf) (8 + ?n) @ drop 20 (udp_datagram cf data)) =
    word_sum (udp_head cf ?n @ udp_ck cf data @ data)"
    unfolding d using e by (simp add: pseudo_def udp_head_def z word_sum_append length_le16_bytes)
  then have "in_cksum (pseudo (src_addr cf) (dst_addr cf) (8 + ?n) @ drop 20 (udp_datagram cf data)) = in_cksum (udp_head cf ?n @ udp_ck cf data @ data)"
    using assms(1,2) by (intro in_cksum_cong) (simp_all add: d length_udp_head, simp add: pseudo_def cf_ok_def length_le16_bytes)
  then show ?thesis using udp_ck_verifies [OF assms] by simp
qed

section \<open>Reading a datagram\<close>

text \<open>The size of the link header, and what it must hold.\<close>

definition link_header :: "rawcf \<Rightarrow> byte list \<Rightarrow> bool" where
  "link_header cf hdr \<longleftrightarrow>
     (datalink cf = DLT_NULL \<and> length hdr = 4) \<or> (datalink cf = DLT_EN10MB \<and> length hdr = 14 \<and> hdr ! 12 = 8 \<and> hdr ! 13 = 0) \<or>
     (datalink cf \<in> {DLT_SLIP, DLT_PPP} \<and> length hdr = 24)"

lemma udp_frame_check:
  assumes "link_header cf hdr"
  shows "udp_frame cf (hdr @ mem) (length hdr + n) = udp_check (hdr @ mem) (length hdr) (int n)"
proof -
  have "ntohs (le16 8 0) = 0x0800" by code_simp
  with assms show ?thesis by (auto simp: link_header_def udp_frame_def nth_append DLT_NULL_def DLT_EN10MB_def DLT_SLIP_def DLT_PPP_def)
qed

lemma as_size_less: "n < 2 ^ 63 \<Longrightarrow> m < 2 ^ 63 \<Longrightarrow> as_size (int n) < of_nat m \<longleftrightarrow> n < m"
  by (simp add: as_size_def word_less_nat_alt unat_of_nat take_bit_nat_eq_self)

text \<open>What is received is the datagram that was sent but for the fields that the kernel and the routers set.\<close>

definition arrives :: "byte list \<Rightarrow> byte list \<Rightarrow> bool" where
  "arrives sent pkt \<longleftrightarrow> length pkt = length sent \<and> (\<forall>k < length sent. k \<notin> {4, 5, 8, 10, 11} \<longrightarrow> pkt ! k = sent ! k) \<and> in_cksum (take 20 pkt) = 0"

lemma udp_datagram_nth:
  assumes "cf_ok cf"
  shows "udp_datagram cf data ! 0 = 0x45" "udp_datagram cf data ! 9 = 17"
    and "drop 20 (udp_datagram cf data) = le16_bytes (src_port cf) @ le16_bytes (dst_port cf) @ net16 (8 + length data) @ udp_ck cf data @ data"
  using assms by (simp_all add: udp_datagram_def nth_append cf_ok_def)

lemma arrives_drop:
  assumes "arrives sent pkt"
  shows "drop 20 pkt = drop 20 sent"
  using assms by (intro nth_equalityI) (auto simp: arrives_def)

lemma udp_check_accepts:
  assumes cf: "cf_ok cf" and n: "length data + 28 \<le> 65535" and pkt: "arrives (udp_datagram cf data) pkt"
  shows "udp_check (hdr @ pkt @ junk) (length hdr) (int (length pkt)) = Inr (blit (pkt @ junk) 10 [0, 0])"
proof -
  have len: "length pkt = 28 + length data" using pkt cf by (simp add: arrives_def length_udp_datagram)
  have "pkt ! 0 = 0x45" "pkt ! 9 = 17" using pkt udp_datagram_nth [OF cf, of data] by (simp_all add: arrives_def cf length_udp_datagram)
  then have o: "oct (hdr @ pkt @ junk) (length hdr) = 0x45" "oct (hdr @ pkt @ junk) (length hdr + 9) = 17"
    using len by (simp_all add: oct_def nth_append)
  have h: "ip_hlen (hdr @ pkt @ junk) (length hdr) = 20" using o by (simp add: ip_hlen_def)
  have t: "take 20 (drop (length hdr) (hdr @ pkt @ junk)) = take 20 pkt" using len by simp
  have "\<not> as_size (int (length pkt)) < of_nat 28" using len n by (subst as_size_less) simp_all
  with o h t pkt len show ?thesis by (simp add: udp_check_def ip_p_def IPPROTO_UDP_def arrives_def)
qed

text \<open>
  C28. The two sides of \<^verbatim>\<open>udpcksum\<close> agree: let the datagram that \<^verbatim>\<open>udp_write\<close> gives to the raw socket arrive on a link of any supported type, with any identification,
  time to live and a valid header checksum. Then \<^verbatim>\<open>udp_read\<close> accepts it; its ports are those of the sender, its data is the data written, the checksum of the UDP header
  verifies over the pseudoheader of RFC 768 and is not 0 unless checksums are off, in which case it is 0, and the report says which.
\<close>

theorem udp_write_read:
  assumes cf: "cf_ok cf" and n: "n + 28 \<le> 65535" and buf: "28 + n \<le> length buf"
    and wr: "udp_write cf None buf n st = Ret () st'" and pkt: "arrives (last (raw_sent st')) pkt" and link: "link_header cf hdr"
  shows "\<exists>ui. udp_frame cf (hdr @ pkt @ junk) (length hdr + length pkt) = Inr ui \<and>
    uh_sport ui 20 = src_port cf \<and> uh_dport ui 20 = dst_port cf \<and> take n (drop 28 ui) = take n (drop 28 buf) \<and>
    (if zerosum cf then ui_sum ui = 0 \<and> udp_report ui = ''UDP checksums off''
     else in_cksum (pseudo (src_addr cf) (dst_addr cf) (8 + n) @ take (8 + n) (drop 20 ui)) = 0 \<and> ui_sum ui \<noteq> 0 \<and> udp_report ui = ''UDP checksums on'')"
proof -
  define data where "data = take n (drop 28 buf)"
  have len: "length data = n" using buf by (simp add: data_def)
  have "last (raw_sent st') = udp_datagram cf data" using udp_write_datagram [OF cf len _ buf, of st] wr by (simp add: data_def)
  with pkt have arr: "arrives (udp_datagram cf data) pkt" by simp
  let ?ui = "blit (pkt @ junk) 10 [0, 0]"
  have l: "length pkt = 28 + n" using arr cf len by (simp add: arrives_def length_udp_datagram)
  have "drop 20 pkt = le16_bytes (src_port cf) @ le16_bytes (dst_port cf) @ net16 (8 + n) @ udp_ck cf data @ data"
    using arrives_drop [OF arr] udp_datagram_nth(3) [OF cf, of data] len by simp
  then have d: "drop 20 ?ui = le16_bytes (src_port cf) @ le16_bytes (dst_port cf) @ net16 (8 + n) @ udp_ck cf data @ data @ junk"
    using l by (simp add: blit_def)
  have at: "?ui ! (20 + k) = drop 20 ?ui ! k" for k using l by simp
  have ports: "uh_sport ?ui 20 = src_port cf" "uh_dport ?ui 20 = dst_port cf"
    using at [of 0] at [of 1] at [of 2] at [of 3] unfolding d by (simp_all add: uh_sport_def uh_dport_def le16_bytes_def le16_le16_bytes)
  obtain x y where ck: "udp_ck cf data = [x, y]" by (cases "zerosum cf") (auto simp: udp_ck_def Let_def le16_bytes_def)
  obtain x' y' where l16: "net16 (8 + n) = [x', y']" by (rule net16_two)
  have sum: "ui_sum ?ui = le16 x y" using at [of 6] at [of 7] unfolding d ck l16 by (simp add: ui_sum_def le16_bytes_def)
  have zero: "ui_sum ?ui = 0 \<longleftrightarrow> zerosum cf"
  proof -
    have "le16 x y = 0 \<longleftrightarrow> x = 0 \<and> y = 0" by (simp add: word_unat_eq_iff unat_le16)
    then show ?thesis using udp_ck_nonzero [of cf data] sum ck by simp
  qed
  have data: "take n (drop 28 ?ui) = data"
  proof -
    have "drop 28 ?ui = drop 8 (drop 20 ?ui)" by simp
    then show ?thesis unfolding d using len by (simp add: length_le16_bytes)
  qed
  have "take (8 + n) (drop 20 ?ui) = drop 20 (udp_datagram cf data)"
    unfolding d using udp_datagram_nth(3) [OF cf, of data] len by (simp add: length_le16_bytes)
  then have "\<not> zerosum cf \<Longrightarrow> in_cksum (pseudo (src_addr cf) (dst_addr cf) (8 + n) @ take (8 + n) (drop 20 ?ui)) = 0"
    using udp_datagram_verifies [OF cf, of data] n len by simp
  moreover have "udp_frame cf (hdr @ pkt @ junk) (length hdr + length pkt) = Inr ?ui"
    using udp_check_accepts [OF cf _ arr] n len udp_frame_check [OF link] by simp
  ultimately show ?thesis using ports data zero unfolding data_def udp_report_def by auto
qed

text \<open>A frame shorter than its link header passes the length checks, because the negative length becomes a large one: an older packet in the memory of the library is read again.\<close>

lemma udp_frame_runt:
  assumes "cf_ok cf" and "length data + 28 \<le> 65535" and "arrives (udp_datagram cf data) pkt" and "datalink cf = DLT_NULL" and "length hdr = 4" and "caplen < 4"
  shows "udp_frame cf (hdr @ pkt @ junk) caplen = Inr (blit (pkt @ junk) 10 [0, 0])"
proof -
  have "\<not> as_size (int caplen - 4) < of_nat m" if "m \<le> 68" for m
  proof -
    have "uint (as_size (int caplen - 4)) = 2 ^ 64 - 4 + int caplen"
    proof -
      have "caplen = 0 \<or> caplen = 1 \<or> caplen = 2 \<or> caplen = 3" using assms(6) by linarith
      then show ?thesis by (auto simp: as_size_def unsigned_of_int unsigned_minus_1_eq_mask mask_eq_exp_minus_1 take_bit_eq_mod)
    qed
    moreover have "uint (of_nat m :: 64 word) \<le> 68" using that by (simp add: unsigned_of_nat take_bit_nat_eq_self)
    ultimately show ?thesis by (simp add: word_less_def)
  qed
  from this [of 28] this [of "ip_hlen (hdr @ pkt @ junk) 4 + 8"] ip_hlen_le [of "hdr @ pkt @ junk" 4]
    udp_check_accepts [OF assms(1-3), of hdr junk] assms(4,5) show ?thesis
    by (simp add: udp_frame_def udp_check_def split: if_splits)
qed

text \<open>The checksum is taken from a fixed place although the header may have options: this datagram has none, and the report says that it has.\<close>

definition option_packet :: "byte list" where
  "option_packet =
     (let h = [0x46, 0, 0, 32, 0, 0, 0, 0, 64, 17] @ [0, 0] @ [10, 0, 0, 1, 10, 0, 0, 2] @ [1, 1, 1, 0]
      in blit h 10 (le16_bytes (in_cksum h)) @ [0, 53, 4, 0, 0, 8, 0, 0])"

lemma udp_options_misread:
  "\<exists>ui. udp_check option_packet 0 (int (length option_packet)) = Inr ui \<and> take 2 (drop 30 ui) = [0, 0] \<and> udp_report ui = ''UDP checksums on''"
proof -
  have "udp_check option_packet 0 (int (length option_packet)) = Inr (blit option_packet 10 [0, 0])" by code_simp
  moreover have "take 2 (drop 30 (blit option_packet 10 [0, 0])) = [0, 0]" by code_simp
  moreover have "udp_report (blit option_packet 10 [0, 0]) = ''UDP checksums on''" by code_simp
  ultimately show ?thesis by blast
qed

section \<open>The retransmissions\<close>

text \<open>The alarms before the first frame, and the first frame.\<close>

fun waits :: "uevent list \<Rightarrow> nat" where
  "waits (U_alarm # es) = Suc (waits es)"
| "waits (U_none # es) = waits es"
| "waits _ = 0"

fun first_frame :: "uevent list \<Rightarrow> (byte list \<times> nat) option" where
  "first_frame (U_frame mem n # es) = Some (mem, n)"
| "first_frame (e # es) = first_frame es"
| "first_frame [] = None"

text \<open>The state after \<open>k\<close> queries.\<close>

definition queried :: "rawcf \<Rightarrow> nat \<Rightarrow> rawst \<Rightarrow> rawst" where
  "queried cf k st = st\<lparr>raw_sent := raw_sent st @ replicate k (udp_datagram cf dns_query), raw_alarms := raw_alarms st @ map (\<lambda>i. 3 * 2 ^ i) [0..<k],
     raw_live := raw_live st + k\<rparr>"

definition env_ok :: "rawenv \<Rightarrow> bool" where
  "env_ok env \<longleftrightarrow> (\<forall>k < 3. length (fst (env k)) = udpiphdr_size + 100 \<and> snd (env k) = None)"

lemma length_dns_query: "length dns_query = 36"
  by code_simp

lemma test_send_ok:
  assumes "cf_ok cf" and "env_ok env" and "k < 3"
  shows "test_send cf env k (3 * 2 ^ k) (queried cf k st) = Ret () (queried cf (Suc k) st)"
proof -
  have b: "length (fst (env k)) = 128" "snd (env k) = None" using assms(2,3) by (simp_all add: env_ok_def udpiphdr_size_def)
  then have "take 36 (drop 28 (blit (fst (env k)) 28 dns_query)) = dns_query" "28 + 36 \<le> length (blit (fst (env k)) 28 dns_query)"
    using take_drop_blit [of 28 dns_query "fst (env k)"] by (simp_all add: length_dns_query)
  from udp_write_datagram [OF assms(1) length_dns_query this] b show ?thesis
    by (simp add: test_send_def bindP_def send_dns_query_def length_dns_query udpiphdr_size_def queried_def replicate_append_same flip: replicate_Suc)
qed

definition test_result :: "rawcf \<Rightarrow> uevent list \<Rightarrow> rawst \<Rightarrow> (string, rawst) outcome" where
  "test_result cf es st =
     (case first_frame es of
        None \<Rightarrow> Blocked st
      | Some (mem, n) \<Rightarrow> case udp_frame cf mem n of Inl f \<Rightarrow> Die f st | Inr ui \<Rightarrow> Ret (udp_report ui) (st\<lparr>raw_alarms := raw_alarms st @ [0]\<rparr>))"

lemma udp_read_loop_runs:
  assumes "cf_ok cf" and "env_ok env" and "k < 3"
  shows "udp_read_loop cf env (Suc k) (3 * 2 ^ k) es (queried cf (Suc k) st) =
    (if 3 \<le> k + waits es then Die (Err_quit ''no response'') (queried cf 3 st) else test_result cf es (queried cf (Suc (k + waits es)) st))"
  using assms(3)
proof (induction es arbitrary: k)
  case Nil
  then show ?case by (simp add: test_result_def)
next
  case (Cons e es)
  show ?case
  proof (cases e)
    case U_none
    with Cons show ?thesis by (simp add: test_result_def)
  next
    case (U_frame mem n)
    with Cons show ?thesis by (simp add: test_result_def)
  next
    case U_alarm
    show ?thesis
    proof (cases "k = 2")
      case True
      with U_alarm show ?thesis by (simp add: numeral_3_eq_3)
    next
      case False
      with Cons.prems have k: "Suc k < 3" by simp
      have s: "test_send cf env (Suc k) (6 * 2 ^ k) (queried cf (Suc k) st) = Ret () (queried cf (Suc (Suc k)) st)"
        using test_send_ok [OF assms(1,2) k] by simp
      from Cons.IH [OF k] U_alarm k s show ?thesis by (simp add: test_result_def mult.commute)
    qed
  qed
qed

text \<open>
  A run of \<^verbatim>\<open>test_udp\<close>: with every alarm that goes off before a packet is captured the same datagram is sent again, byte for byte and whatever the allocated blocks
  held; the timeouts are 3, 6 and 12 seconds; the third alarm ends the program with \<^verbatim>\<open>no response\<close>; otherwise the first packet captured decides the outcome, and the alarm
  is turned off.
\<close>

theorem test_udp_runs:
  assumes "cf_ok cf" and "env_ok env"
  shows "test_udp cf env es st =
    (if 3 \<le> waits es
     then Die (Err_quit ''no response'') (st\<lparr>raw_sent := raw_sent st @ replicate 3 (udp_datagram cf dns_query), raw_alarms := raw_alarms st @ [3, 6, 12], raw_live := raw_live st + 3\<rparr>)
     else test_result cf es (queried cf (Suc (waits es)) st))"
proof -
  have "queried cf 0 st = st" by (simp add: queried_def)
  then have "test_send cf env 0 3 st = Ret () (queried cf 1 st)" using test_send_ok [OF assms, of 0 st] by simp
  moreover have "udp_read_loop cf env 1 3 es (queried cf 1 st) =
    (if 3 \<le> waits es then Die (Err_quit ''no response'') (queried cf 3 st) else test_result cf es (queried cf (Suc (waits es)) st))"
    using udp_read_loop_runs [OF assms, of 0 es st] by simp
  moreover have "map (\<lambda>i. 3 * 2 ^ i) [0..<3] = [3, 6, 12 :: nat]" by code_simp
  ultimately show ?thesis by (simp add: test_udp_def queried_def)
qed

section \<open>Witnesses\<close>

definition sample_cf :: rawcf where
  "sample_cf = \<lparr>src_port = 0x3930, src_addr = [10, 0, 0, 1], dst_port = 0x3500, dst_addr = [10, 0, 0, 2], zerosum = False, datalink = DLT_EN10MB\<rparr>"

definition sample_raw :: rawst where
  "sample_raw = \<lparr>raw_sent = [], raw_alarms = [], raw_live = 0\<rparr>"

text \<open>The kernel's part of sending: the header checksum.\<close>

definition raw_sample :: "byte list" where
  "raw_sample =
     (let p = blit (udp_datagram sample_cf dns_query) 10 [0, 0]
      in blit p 10 (le16_bytes (in_cksum (take 20 p))))"

lemma sample_arrives: "arrives (udp_datagram sample_cf dns_query) raw_sample"
proof -
  let ?d = "udp_datagram sample_cf dns_query"
  have "length ?d = 64" by (simp add: length_udp_datagram cf_ok_def sample_cf_def length_dns_query)
  then have "length raw_sample = length ?d \<and> (\<forall>k < length ?d. k \<notin> {10, 11} \<longrightarrow> raw_sample ! k = ?d ! k)"
    by (auto simp: raw_sample_def Let_def blit_def nth_append length_le16_bytes nth_Cons' simp flip: One_nat_def)
  moreover have "in_cksum (take 20 raw_sample) = 0" by code_simp
  ultimately show ?thesis by (simp add: arrives_def)
qed

lemma sample_write:
  "udp_write sample_cf None (replicate 28 0 @ dns_query) 36 sample_raw = Ret () (sample_raw\<lparr>raw_sent := [udp_datagram sample_cf dns_query]\<rparr>)"
  using udp_write_datagram [of sample_cf dns_query 36 "replicate 28 0 @ dns_query" sample_raw]
  by (simp add: cf_ok_def sample_cf_def length_dns_query sample_raw_def)

definition sample_link :: "byte list" where
  "sample_link = [0, 0, 0, 0, 0, 0, 0, 0, 0, 0, 0, 0, 8, 0]"

theorem udp_write_read_witness:
  "\<exists>ui. udp_frame sample_cf (sample_link @ raw_sample @ []) (length sample_link + length raw_sample) = Inr ui \<and>
     uh_sport ui 20 = 0x3930 \<and> udp_report ui = ''UDP checksums on''"
proof -
  have a: "cf_ok sample_cf" "36 + 28 \<le> (65535 :: nat)" "28 + 36 \<le> length (replicate 28 0 @ dns_query)" "link_header sample_cf sample_link"
    "arrives (last (raw_sent (sample_raw\<lparr>raw_sent := [udp_datagram sample_cf dns_query]\<rparr>))) raw_sample"
    using sample_arrives by (simp_all add: cf_ok_def sample_cf_def length_dns_query link_header_def sample_link_def)
  have z: "zerosum sample_cf = False" "src_port sample_cf = 0x3930" by (simp_all add: sample_cf_def)
  from udp_write_read [OF a(1-3) sample_write a(5,4), of "[]"] show ?thesis unfolding z by (simp only: if_False) blast
qed

theorem test_udp_runs_witness:
  "test_udp sample_cf (\<lambda>k. (replicate 128 (of_nat k), None)) [U_alarm, U_none, U_alarm, U_alarm] sample_raw =
     Die (Err_quit ''no response'') (sample_raw\<lparr>raw_sent := replicate 3 (udp_datagram sample_cf dns_query), raw_alarms := [3, 6, 12], raw_live := 3\<rparr>)"
proof -
  have "cf_ok sample_cf" "env_ok (\<lambda>k. (replicate 128 (of_nat k), None))" by (simp_all add: cf_ok_def sample_cf_def env_ok_def udpiphdr_size_def)
  from test_udp_runs [OF this, of "[U_alarm, U_none, U_alarm, U_alarm]" sample_raw] show ?thesis by (simp add: sample_raw_def)
qed

end
