(* ===== verification/Heartbeat.thy ===== *)
theory Heartbeat
  imports Prelude "HOL-Library.Sublist"
begin

text \<open>
  The heartbeat functions of \<^verbatim>\<open>oob/heartbeatcli.c\<close> and \<^verbatim>\<open>oob/heartbeatserv.c\<close>: the client sends an out-of-band byte at every alarm, the server
  sends each such byte back, and either side ends when its alarm went off too often without one. The two programs are signal handlers over static variables; a run is
  the sequence of the signals delivered, with what \<^verbatim>\<open>recv\<close> and \<^verbatim>\<open>Send\<close> return in them. What they have in common is the locale \<open>watchdog\<close>: a counter
  that one kind of event raises and the other resets.
\<close>

section \<open>The programs\<close>

record hbst =
  hb_nsec :: int
  hb_max :: int
  hb_nprobes :: int
  hb_alarm :: int
  hb_sent :: "byte list"

datatype hbevent = Hb_alarm "errno option" | Hb_urg "errno + byte" "errno option"

definition hb_send :: "byte \<Rightarrow> errno option \<Rightarrow> (unit, hbst) prog" where
  "hb_send b err st =
     (case err of Some e \<Rightarrow> Die (Err_sys ''send error'' (Some e)) st | None \<Rightarrow> Ret () (st\<lparr>hb_sent := hb_sent st @ [b]\<rparr>))"

text \<open>\<^verbatim>\<open>Fcntl(F_SETOWN)\<close> may fail.\<close>

definition hb_start :: "errno option \<Rightarrow> (unit, hbst) prog" where
  "hb_start err st =
     (case err of Some e \<Rightarrow> Die (Err_sys ''fcntl error'' (Some e)) st | None \<Rightarrow> Ret () (st\<lparr>hb_alarm := hb_nsec st\<rparr>))"

definition hb_clamp :: "int \<Rightarrow> int" where
  "hb_clamp nsec_arg = (if nsec_arg < 1 then 1 else nsec_arg)"

definition heartbeat_cli :: "int \<Rightarrow> int \<Rightarrow> errno option \<Rightarrow> (unit, hbst) prog" where
  "heartbeat_cli nsec_arg maxnprobes_arg err st =
     (let n = hb_clamp nsec_arg; m = (if maxnprobes_arg < n then n else maxnprobes_arg)
      in hb_start err (st\<lparr>hb_nsec := n, hb_max := m, hb_nprobes := 0\<rparr>))"

definition cli_urg :: "errno + byte \<Rightarrow> (unit, hbst) prog" where
  "cli_urg r st =
     (case r of
        Inl e \<Rightarrow> if e \<noteq> EWOULDBLOCK then Die (Err_sys ''recv error'' (Some e)) st else Ret () (st\<lparr>hb_nprobes := 0\<rparr>)
      | Inr c \<Rightarrow> Ret () (st\<lparr>hb_nprobes := 0\<rparr>))"

definition cli_alrm :: "errno option \<Rightarrow> (unit, hbst) prog" where
  "cli_alrm err st =
     (let st1 = st\<lparr>hb_nprobes := hb_nprobes st + 1\<rparr>
      in if hb_nprobes st1 > hb_max st1 then Die (Exit 0) st1
         else bindP (hb_send 49 err) (\<lambda>_ st. Ret () (st\<lparr>hb_alarm := hb_nsec st\<rparr>)) st1)"

text \<open>The server does not set its counter; the byte that it sends back when there was none to read is whatever the variable held.\<close>

definition heartbeat_serv :: "int \<Rightarrow> int \<Rightarrow> errno option \<Rightarrow> (unit, hbst) prog" where
  "heartbeat_serv nsec_arg maxnalarms_arg err st =
     (let n = hb_clamp nsec_arg; m = (if maxnalarms_arg < n then n else maxnalarms_arg)
      in hb_start err (st\<lparr>hb_nsec := n, hb_max := m\<rparr>))"

definition serv_urg :: "byte \<Rightarrow> errno + byte \<Rightarrow> errno option \<Rightarrow> (unit, hbst) prog" where
  "serv_urg uninit r err st =
     (case r of
        Inl e \<Rightarrow> if e \<noteq> EWOULDBLOCK then Die (Err_sys ''recv error'' (Some e)) st
                 else bindP (hb_send uninit err) (\<lambda>_ st. Ret () (st\<lparr>hb_nprobes := 0\<rparr>)) st
      | Inr c \<Rightarrow> bindP (hb_send c err) (\<lambda>_ st. Ret () (st\<lparr>hb_nprobes := 0\<rparr>)) st)"

definition serv_alrm :: "(unit, hbst) prog" where
  "serv_alrm st =
     (let st1 = st\<lparr>hb_nprobes := hb_nprobes st + 1\<rparr>
      in if hb_nprobes st1 > hb_max st1 then Die (Exit 0) st1 else Ret () (st1\<lparr>hb_alarm := hb_nsec st1\<rparr>))"

fun cli_event :: "hbevent \<Rightarrow> (unit, hbst) prog" where
  "cli_event (Hb_alarm err) = cli_alrm err"
| "cli_event (Hb_urg r err) = cli_urg r"

fun serv_event :: "byte \<Rightarrow> hbevent \<Rightarrow> (unit, hbst) prog" where
  "serv_event uninit (Hb_alarm err) = serv_alrm"
| "serv_event uninit (Hb_urg r err) = serv_urg uninit r err"

text \<open>Signals are delivered one after the other.\<close>

fun run_events :: "('e \<Rightarrow> (unit, 's) prog) \<Rightarrow> 'e list \<Rightarrow> (unit, 's) prog" where
  "run_events h [] st = Ret () st"
| "run_events h (e # es) st = bindP (h e) (\<lambda>_. run_events h es) st"

section \<open>Watchdogs\<close>

locale watchdog =
  fixes h :: "'e \<Rightarrow> (unit, 's) prog" and tick :: "'e \<Rightarrow> bool" and ok :: "'e \<Rightarrow> bool" and count :: "'s \<Rightarrow> int" and limit :: "'s \<Rightarrow> int" and expired :: fatal
  assumes expires: "ok e \<Longrightarrow> tick e \<Longrightarrow> limit s \<le> count s \<Longrightarrow> \<exists>s'. h e s = Die expired s'"
    and ticks: "ok e \<Longrightarrow> tick e \<Longrightarrow> count s < limit s \<Longrightarrow> \<exists>s'. h e s = Ret () s' \<and> count s' = count s + 1 \<and> limit s' = limit s"
    and resets: "ok e \<Longrightarrow> \<not> tick e \<Longrightarrow> \<exists>s'. h e s = Ret () s' \<and> count s' = 0 \<and> limit s' = limit s"
begin

lemma run_expires:
  assumes "list_all ok es" and "0 \<le> count s" and "count s \<le> limit s"
  shows "(\<exists>s'. run_events h es s = Die expired s') \<longleftrightarrow>
    (\<exists>ys. prefix ys es \<and> list_all tick ys \<and> int (length ys) = limit s + 1 - count s) \<or>
    (\<exists>ys. sublist ys es \<and> list_all tick ys \<and> int (length ys) = limit s + 1)"
  using assms
proof (induction es arbitrary: s)
  case Nil
  then show ?case by auto
next
  case (Cons e es)
  let ?L = "limit s"
  have pre: "(\<exists>ys. prefix ys (e # es) \<and> list_all tick ys \<and> int (length ys) = k) \<longleftrightarrow>
    tick e \<and> (\<exists>ys. prefix ys es \<and> list_all tick ys \<and> int (length ys) = k - 1)" if "0 < k" for k
  proof
    assume "\<exists>ys. prefix ys (e # es) \<and> list_all tick ys \<and> int (length ys) = k"
    then obtain zs where zs: "prefix zs (e # es)" "list_all tick zs" "int (length zs) = k" by blast
    with that obtain y ys where "zs = y # ys" by (cases zs) auto
    with zs have "prefix (y # ys) (e # es)" "list_all tick (y # ys)" "int (length (y # ys)) = k" by simp_all
    then show "tick e \<and> (\<exists>ys. prefix ys es \<and> list_all tick ys \<and> int (length ys) = k - 1)" by auto
  next
    assume "tick e \<and> (\<exists>ys. prefix ys es \<and> list_all tick ys \<and> int (length ys) = k - 1)"
    then obtain ys where "tick e" "prefix ys es" "list_all tick ys" "int (length ys) = k - 1" by blast
    then show "\<exists>ys. prefix ys (e # es) \<and> list_all tick ys \<and> int (length ys) = k" by (intro exI [of _ "e # ys"]) auto
  qed
  have sub: "(\<exists>ys. sublist ys (e # es) \<and> list_all tick ys \<and> int (length ys) = ?L + 1) \<longleftrightarrow>
    (\<exists>ys. prefix ys (e # es) \<and> list_all tick ys \<and> int (length ys) = ?L + 1) \<or> (\<exists>ys. sublist ys es \<and> list_all tick ys \<and> int (length ys) = ?L + 1)"
    by (auto simp: sublist_Cons_right)
  show ?case
  proof (cases "tick e")
    case False
    then obtain s' where s': "h e s = Ret () s'" "count s' = 0" "limit s' = ?L" using resets [of e s] Cons.prems by auto
    have "(\<exists>ys. prefix ys es \<and> list_all tick ys \<and> int (length ys) = ?L + 1) \<Longrightarrow> (\<exists>ys. sublist ys es \<and> list_all tick ys \<and> int (length ys) = ?L + 1)"
      by blast
    with Cons.IH [of s'] Cons.prems s' False show ?thesis unfolding sub using pre [of "?L + 1"] pre [of "?L + 1 - count s"] by auto
  next
    case tick: True
    show ?thesis
    proof (cases "?L \<le> count s")
      case True
      then obtain s' where "h e s = Die expired s'" using expires [of e s] tick Cons.prems by auto
      moreover have "?L + 1 - count s = 1" using True Cons.prems by simp
      ultimately show ?thesis using tick pre [of 1] by auto
    next
      case False
      then obtain s' where s': "h e s = Ret () s'" "count s' = count s + 1" "limit s' = ?L" using ticks [of e s] tick Cons.prems by auto
      have longer: "\<exists>ys. prefix ys es \<and> list_all tick ys \<and> int (length ys) = ?L - count s" if "\<exists>ys. prefix ys es \<and> list_all tick ys \<and> int (length ys) = ?L"
      proof -
        from that obtain ys where ys: "prefix ys es" "list_all tick ys" "int (length ys) = ?L" by blast
        have "prefix (take (nat (?L - count s)) ys) es" using ys(1) take_is_prefix prefix_order.trans by blast
        moreover have "list_all tick (take (nat (?L - count s)) ys)" using ys(2) by (auto simp: list_all_iff dest: in_set_takeD)
        moreover have "int (length (take (nat (?L - count s)) ys)) = ?L - count s" using ys(3) Cons.prems by auto
        ultimately show ?thesis by blast
      qed
      with Cons.IH [of s'] Cons.prems s' False tick show ?thesis
        unfolding sub using pre [of "?L + 1"] pre [of "?L + 1 - count s"] by (auto simp: algebra_simps)
    qed
  qed
qed

text \<open>From a counter of 0: the run expires exactly if somewhere more than \<open>limit\<close> ticks follow each other.\<close>

lemma run_expires_from_0:
  assumes "list_all ok es" and "count s = 0" and "0 \<le> limit s"
  shows "(\<exists>s'. run_events h es s = Die expired s') \<longleftrightarrow> (\<exists>ys. sublist ys es \<and> list_all tick ys \<and> int (length ys) = limit s + 1)"
  using run_expires [OF assms(1), of s] assms(2,3) by auto

end

section \<open>Client and server\<close>

fun is_alarm :: "hbevent \<Rightarrow> bool" where
  "is_alarm (Hb_alarm err) = True"
| "is_alarm (Hb_urg r err) = False"

text \<open>No call in the handler fails, other than a \<^verbatim>\<open>recv\<close> that finds no byte yet.\<close>

fun hb_ok :: "hbevent \<Rightarrow> bool" where
  "hb_ok (Hb_alarm err) = (err = None)"
| "hb_ok (Hb_urg r err) = (err = None \<and> (\<forall>e. r = Inl e \<longrightarrow> e = EWOULDBLOCK))"

lemmas heartbeat_defs = cli_alrm_def cli_urg_def serv_alrm_def serv_urg_def hb_send_def bindP_def Let_def

interpretation cli_watch: watchdog cli_event is_alarm hb_ok hb_nprobes hb_max "Exit 0"
proof unfold_locales
  fix e and s :: hbst
  assume "hb_ok e" "is_alarm e" "hb_max s \<le> hb_nprobes s"
  then show "\<exists>s'. cli_event e s = Die (Exit 0) s'" by (cases e) (auto simp: heartbeat_defs)
next
  fix e and s :: hbst
  assume "hb_ok e" "is_alarm e" "hb_nprobes s < hb_max s"
  then show "\<exists>s'. cli_event e s = Ret () s' \<and> hb_nprobes s' = hb_nprobes s + 1 \<and> hb_max s' = hb_max s" by (cases e) (auto simp: heartbeat_defs)
next
  fix e and s :: hbst
  assume "hb_ok e" "\<not> is_alarm e"
  then show "\<exists>s'. cli_event e s = Ret () s' \<and> hb_nprobes s' = 0 \<and> hb_max s' = hb_max s" by (cases e) (auto simp: heartbeat_defs split: sum.splits)
qed

interpretation serv_watch: watchdog "serv_event uninit" is_alarm hb_ok hb_nprobes hb_max "Exit 0"
proof unfold_locales
  fix e and s :: hbst
  assume "hb_ok e" "is_alarm e" "hb_max s \<le> hb_nprobes s"
  then show "\<exists>s'. serv_event uninit e s = Die (Exit 0) s'" by (cases e) (auto simp: heartbeat_defs)
next
  fix e and s :: hbst
  assume "hb_ok e" "is_alarm e" "hb_nprobes s < hb_max s"
  then show "\<exists>s'. serv_event uninit e s = Ret () s' \<and> hb_nprobes s' = hb_nprobes s + 1 \<and> hb_max s' = hb_max s" by (cases e) (auto simp: heartbeat_defs)
next
  fix e and s :: hbst
  assume "hb_ok e" "\<not> is_alarm e"
  then show "\<exists>s'. serv_event uninit e s = Ret () s' \<and> hb_nprobes s' = 0 \<and> hb_max s' = hb_max s" by (cases e) (auto simp: heartbeat_defs split: sum.splits)
qed

definition hb_limit :: "int \<Rightarrow> int \<Rightarrow> int" where
  "hb_limit nsec_arg max_arg = max max_arg (max nsec_arg 1)"

text \<open>
  The heartbeat ends a client, and a server whose counter was 0, exactly if at some point of the run more alarms follow each other without an out-of-band byte than the larger
  of the two arguments and 1 allows; the arguments are raised to these bounds.
\<close>

theorem heartbeat_exits_iff:
  assumes "list_all hb_ok es" and "hb_nprobes st = 0"
  shows "((\<exists>st'. bindP (heartbeat_cli nsec_arg max_arg None) (\<lambda>_. run_events cli_event es) st = Die (Exit 0) st') \<longleftrightarrow>
      (\<exists>ys. sublist ys es \<and> list_all is_alarm ys \<and> int (length ys) = hb_limit nsec_arg max_arg + 1)) \<and>
    ((\<exists>st'. bindP (heartbeat_serv nsec_arg max_arg None) (\<lambda>_. run_events (serv_event uninit) es) st = Die (Exit 0) st') \<longleftrightarrow>
      (\<exists>ys. sublist ys es \<and> list_all is_alarm ys \<and> int (length ys) = hb_limit nsec_arg max_arg + 1))"
proof -
  define s1 where "s1 = st\<lparr>hb_nsec := hb_clamp nsec_arg, hb_max := hb_limit nsec_arg max_arg, hb_nprobes := 0, hb_alarm := hb_clamp nsec_arg\<rparr>"
  have "(if max_arg < hb_clamp nsec_arg then hb_clamp nsec_arg else max_arg) = hb_limit nsec_arg max_arg" by (auto simp: hb_limit_def hb_clamp_def)
  then have r: "heartbeat_cli nsec_arg max_arg None st = Ret () s1" "heartbeat_serv nsec_arg max_arg None st = Ret () s1"
    using assms(2) by (simp_all add: heartbeat_cli_def heartbeat_serv_def Let_def hb_start_def s1_def)
  have s: "hb_nprobes s1 = 0" "hb_max s1 = hb_limit nsec_arg max_arg" "0 \<le> hb_max s1" by (simp_all add: s1_def hb_limit_def)
  show ?thesis
    using cli_watch.run_expires_from_0 [OF assms(1) s(1,3)] serv_watch.run_expires_from_0 [OF assms(1) s(1,3), of uninit] s(2) r by simp
qed

text \<open>A byte is answered: the server sends back what it read, and the client starts to count again.\<close>

lemma serv_urg_echoes: "serv_urg uninit (Inr c) None st = Ret () (st\<lparr>hb_sent := hb_sent st @ [c], hb_nprobes := 0\<rparr>)"
  by (simp add: heartbeat_defs)

text \<open>When the byte has not arrived yet, the server sends the contents of an uninitialised variable.\<close>

lemma serv_urg_uninit: "serv_urg uninit (Inl EWOULDBLOCK) None st = Ret () (st\<lparr>hb_sent := hb_sent st @ [uninit], hb_nprobes := 0\<rparr>)"
  by (simp add: heartbeat_defs)

theorem heartbeat_exits_iff_witness:
  "\<exists>st'. bindP (heartbeat_cli 1 2 None) (\<lambda>_. run_events cli_event [Hb_alarm None, Hb_urg (Inr 49) None, Hb_alarm None, Hb_alarm None, Hb_alarm None])
     \<lparr>hb_nsec = 0, hb_max = 0, hb_nprobes = 0, hb_alarm = 0, hb_sent = []\<rparr> = Die (Exit 0) st'"
proof -
  let ?es = "[Hb_alarm None, Hb_urg (Inr 49) None, Hb_alarm None, Hb_alarm None, Hb_alarm None]"
  have "sublist (replicate 3 (Hb_alarm None)) ?es" unfolding sublist_def by (intro exI [of _ "take 2 ?es"] exI [of _ "[]"]) (simp add: numeral_eq_Suc)
  then have "\<exists>ys. sublist ys ?es \<and> list_all is_alarm ys \<and> int (length ys) = hb_limit 1 2 + 1"
    by (intro exI [of _ "replicate 3 (Hb_alarm None)"]) (simp add: hb_limit_def list_all_iff)
  moreover have "list_all hb_ok ?es" by simp
  ultimately show ?thesis
    using heartbeat_exits_iff [of ?es "\<lparr>hb_nsec = 0, hb_max = 0, hb_nprobes = 0, hb_alarm = 0, hb_sent = []\<rparr>" 1 2] by simp
qed

end
