(* ===== verification/Sock_Util.thy ===== *)
theory Sock_Util
  imports Prelude
begin

text \<open>
  The helpers of the traffic tool \<^verbatim>\<open>sock/\<close>: the conversion of line ends (\<^verbatim>\<open>crlf.c\<close>), the pattern that is sent (\<^verbatim>\<open>pattern.c\<close>), writing in chunks
  (\<^verbatim>\<open>write.c\<close>) and its own \<^verbatim>\<open>writen\<close>. The theorems: the conversions are exact, fit and are inverse to each other; the pattern is the cycle of the printable
  characters; the chunks make up the buffer and their number never exceeds the array; and what \<^verbatim>\<open>writen\<close> does, errors included.
\<close>

section \<open>Line ends\<close>

fun crlf_add_loop :: "nat \<Rightarrow> nat \<Rightarrow> string \<Rightarrow> string \<Rightarrow> fatal + nat \<times> string" where
  "crlf_add_loop dstsize lenout dst [] = Inr (lenout, dst)"
| "crlf_add_loop dstsize lenout dst (c # src) =
     (if c = NL
      then if lenout + 1 \<ge> dstsize then Inl (Err_quit ''crlf_add: destination not big enough'')
           else crlf_add_loop dstsize (lenout + 1) (dst @ [CR, c]) src
      else crlf_add_loop dstsize lenout (dst @ [c]) src)"

definition crlf_add :: "nat \<Rightarrow> string \<Rightarrow> fatal + nat \<times> string" where
  "crlf_add dstsize src =
     (if length src > dstsize then Inl (Err_quit ''crlf_add: destination not big enough'')
      else crlf_add_loop dstsize (length src) [] src)"

fun crlf_strip_loop :: "nat \<Rightarrow> nat \<Rightarrow> string \<Rightarrow> string \<Rightarrow> fatal + nat \<times> string" where
  "crlf_strip_loop dstsize lenout dst [] = Inr (lenout, dst)"
| "crlf_strip_loop dstsize lenout dst (c # src) =
     (if c \<noteq> CR
      then if lenout + 1 \<ge> dstsize then Inl (Err_quit ''crlf_strip: destination not big enough'')
           else crlf_strip_loop dstsize (lenout + 1) (dst @ [c]) src
      else crlf_strip_loop dstsize lenout dst src)"

definition crlf_strip :: "nat \<Rightarrow> string \<Rightarrow> fatal + nat \<times> string" where
  "crlf_strip dstsize src = crlf_strip_loop dstsize 0 [] src"

text \<open>The texts that they stand for.\<close>

definition with_cr :: "string \<Rightarrow> string" where
  "with_cr s = concat (map (\<lambda>c. if c = NL then [CR, NL] else [c]) s)"

definition without_cr :: "string \<Rightarrow> string" where
  "without_cr s = filter (\<lambda>c. c \<noteq> CR) s"

lemma with_cr_simps [simp]: "with_cr [] = []" "with_cr (c # s) = (if c = NL then CR # NL # with_cr s else c # with_cr s)" "with_cr (s @ t) = with_cr s @ with_cr t"
  by (simp_all add: with_cr_def)

lemma length_with_cr: "length (with_cr s) = length s + count_list s NL"
  by (induction s) auto

lemma without_with_cr: "CR \<notin> set s \<Longrightarrow> without_cr (with_cr s) = s"
  by (induction s) (auto simp: without_cr_def)

lemma crlf_add_loop_eq:
  "crlf_add_loop n k dst s =
     (if count_list s NL > 0 \<and> k + count_list s NL \<ge> n then Inl (Err_quit ''crlf_add: destination not big enough'')
      else Inr (k + count_list s NL, dst @ with_cr s))"
  by (induction s arbitrary: k dst) auto

lemma crlf_strip_loop_eq:
  "crlf_strip_loop n k dst s =
     (if without_cr s \<noteq> [] \<and> k + length (without_cr s) \<ge> n then Inl (Err_quit ''crlf_strip: destination not big enough'')
      else Inr (k + length (without_cr s), dst @ without_cr s))"
  by (induction s arbitrary: k dst) (auto simp: without_cr_def)

lemma crlf_add_eq:
  "crlf_add n s =
     (if length s > n \<or> NL \<in> set s \<and> length (with_cr s) \<ge> n then Inl (Err_quit ''crlf_add: destination not big enough'')
      else Inr (length (with_cr s), with_cr s))"
proof -
  have "0 < count_list s NL \<longleftrightarrow> NL \<in> set s" using count_list_0_iff [of s NL] by linarith
  then show ?thesis by (auto simp: crlf_add_def crlf_add_loop_eq length_with_cr)
qed

lemma crlf_strip_eq:
  "crlf_strip n s =
     (if without_cr s \<noteq> [] \<and> length (without_cr s) \<ge> n then Inl (Err_quit ''crlf_strip: destination not big enough'')
      else Inr (length (without_cr s), without_cr s))"
  by (simp add: crlf_strip_def crlf_strip_loop_eq)

text \<open>
  The conversions of line ends: what \<^verbatim>\<open>crlf_add\<close> returns fits into the destination, has exactly a return before each newline, and, if the text had no return,
  \<^verbatim>\<open>crlf_strip\<close> gives the text back; both fail only if the result would not leave one byte free.
\<close>

theorem crlf_roundtrip:
  assumes "CR \<notin> set s" and "length s + count_list s NL < n"
  shows "\<exists>t. crlf_add n s = Inr (length t, t) \<and> length t < n \<and> t = with_cr s \<and> crlf_strip n t = Inr (length s, s)"
proof -
  have "length (with_cr s) < n" using assms(2) by (simp add: length_with_cr)
  moreover have "crlf_strip n (with_cr s) = Inr (length s, s)" using assms by (auto simp: crlf_strip_eq without_with_cr)
  ultimately show ?thesis using assms by (auto simp: crlf_add_eq length_with_cr)
qed

theorem crlf_roundtrip_witness:
  "\<exists>t. crlf_add 8 (''ab'' @ [NL, NL]) = Inr (length t, t) \<and> length t < 8 \<and> t = ''ab'' @ [CR, NL, CR, NL] \<and> crlf_strip 8 t = Inr (4, ''ab'' @ [NL, NL])"
  using crlf_roundtrip [of "''ab'' @ [NL, NL]" 8] by simp

text \<open>A text that would fill the destination exactly is refused.\<close>

lemma crlf_add_exact_refused: "NL \<in> set s \<Longrightarrow> crlf_add (length (with_cr s)) s = Inl (Err_quit ''crlf_add: destination not big enough'')"
  by (simp add: crlf_add_eq)

section \<open>The pattern\<close>

text \<open>\<^verbatim>\<open>isprint\<close> in the C locale; \<^verbatim>\<open>c\<close> is a character that wraps around.\<close>

definition isprint :: "byte \<Rightarrow> bool" where
  "isprint b \<longleftrightarrow> 32 \<le> b \<and> b \<le> 126"

definition low7 :: "byte \<Rightarrow> byte" where
  "low7 c = and c 0x7F"

lemma unat_low7: "unat (low7 c) = unat c mod 128"
proof -
  have "low7 c = take_bit 7 c" by (simp add: low7_def take_bit_eq_mask mask_eq_exp_minus_1)
  then show ?thesis by (simp only: unsigned_take_bit_eq) (simp add: take_bit_eq_mod)
qed

lemma isprint_low7: "isprint (low7 c) \<longleftrightarrow> 32 \<le> unat c mod 128 \<and> unat c mod 128 \<le> 126"
  by (simp add: isprint_def word_le_nat_alt unat_low7)

lemma low7_Suc: "unat (c + 1 :: byte) mod 128 = (unat c mod 128 + 1) mod 128"
  by (simp add: unat_word_ariths mod_mod_cancel mod_simps)

function skip_nonprint :: "byte \<Rightarrow> byte" where
  "skip_nonprint c = (if isprint (low7 c) then c else skip_nonprint (c + 1))"
  by pat_completeness auto
termination
proof (relation "measure (\<lambda>c. if unat c mod 128 = 127 then 33 else 32 - unat c mod 128)", goal_cases)
  case (2 c)
  have "unat c mod 128 < 128" by simp
  with 2 show ?case by (auto simp: isprint_low7 low7_Suc)
qed simp

declare skip_nonprint.simps [simp del]

fun pattern_loop :: "nat \<Rightarrow> byte \<Rightarrow> byte list" where
  "pattern_loop 0 c = []"
| "pattern_loop (Suc len) c = (let c' = skip_nonprint c in low7 c' # pattern_loop len (c' + 1))"

definition pattern :: "nat \<Rightarrow> byte list" where
  "pattern len = pattern_loop len 0"

lemma skip_nonprint_value:
  "unat (skip_nonprint c) mod 128 = (if 32 \<le> unat c mod 128 \<and> unat c mod 128 \<le> 126 then unat c mod 128 else 32)"
proof (induction c rule: skip_nonprint.induct)
  case (1 c)
  show ?case
  proof (cases "isprint (low7 c)")
    case True
    then show ?thesis by (subst skip_nonprint.simps) (simp add: isprint_low7)
  next
    case False
    have "unat c mod 128 < 128" by simp
    with False consider "unat c mod 128 = 127" | "unat c mod 128 < 32" by (fastforce simp: isprint_low7)
    then show ?thesis using 1 [OF False] False by cases (subst skip_nonprint.simps, simp add: low7_Suc)+
  qed
qed

lemma pattern_loop_cycle:
  assumes "unat c mod 128 = 32 + k" and "k \<le> 95"
  shows "map unat (pattern_loop n c) = map (\<lambda>i. 32 + (k + i) mod 95) [0..<n]"
  using assms
proof (induction n arbitrary: c k)
  case 0
  then show ?case by simp
next
  case (Suc n)
  let ?k = "if k = 95 then 0 else k" and ?c = "skip_nonprint c"
  have c: "unat ?c mod 128 = 32 + ?k" using skip_nonprint_value [of c] Suc.prems by auto
  then have "unat (?c + 1) mod 128 = 32 + (?k + 1)" using Suc.prems(2) by (auto simp: low7_Suc)
  from Suc.IH [OF this] Suc.prems(2) have "map unat (pattern_loop n (?c + 1)) = map (\<lambda>i. 32 + (?k + 1 + i) mod 95) [0..<n]" by auto
  moreover have "(?k + j) mod 95 = (k + j) mod 95" for j by simp
  moreover have "Suc (k mod 95 + j) mod 95 = Suc (k + j) mod 95" for j by (metis mod_Suc_eq mod_add_left_eq)
  moreover have "32 + ?k = 32 + (k + 0) mod 95" using Suc.prems(2) by auto
  ultimately show ?case using c unfolding map_upt_Suc by (simp add: Let_def unat_low7 add.assoc del: upt_Suc)
qed

text \<open>
  The pattern is the cycle of the 95 printable characters, from the space on, whatever the length; the search for a printable character always ends.
\<close>

lemma pattern_printable: "map unat (pattern len) = map (\<lambda>i. 32 + i mod 95) [0..<len]"
proof (cases len)
  case (Suc n)
  have "unat (skip_nonprint 0) mod 128 = 32" using skip_nonprint_value [of 0] by simp
  moreover from this have "skip_nonprint (skip_nonprint 0) = skip_nonprint 0" by (subst skip_nonprint.simps) (simp add: isprint_low7)
  then have "pattern_loop len 0 = pattern_loop len (skip_nonprint 0)" using Suc by (simp add: Let_def)
  ultimately show ?thesis using pattern_loop_cycle [of "skip_nonprint 0" 0 len] by (simp add: pattern_def)
qed (simp add: pattern_def)

section \<open>Writing in chunks\<close>

definition UIO_MAXIOV :: nat where "UIO_MAXIOV = 16"

definition chunksize :: "nat \<Rightarrow> nat" where
  "chunksize nbytes =
     (let c = nbytes div UIO_MAXIOV in if c = 0 then 1 else if nbytes mod UIO_MAXIOV \<noteq> 0 then c + 1 else c)"

text \<open>The loop that fills \<^verbatim>\<open>iov\<close>; \<open>None\<close> when it has no entry left.\<close>

function iov_fill :: "nat \<Rightarrow> nat \<Rightarrow> 'a list \<Rightarrow> 'a list list option" where
  "iov_fill chunk i bs =
     (if i \<ge> UIO_MAXIOV then None
      else let n = (if length bs \<ge> chunk then chunk else length bs)
           in if length bs - n = 0 then Some [take n bs]
              else map_option ((#) (take n bs)) (iov_fill chunk (i + 1) (drop n bs)))"
  by pat_completeness auto
termination by (relation "measure (\<lambda>(chunk, i, bs). UIO_MAXIOV - i)") auto

declare iov_fill.simps [simp del]

lemma iov_fill_chunks:
  assumes "0 < chunk" and "i < UIO_MAXIOV" and "length bs \<le> chunk * (UIO_MAXIOV - i)"
  shows "\<exists>cs. iov_fill chunk i bs = Some cs \<and> concat cs = bs \<and> cs \<noteq> [] \<and> length cs + i \<le> UIO_MAXIOV \<and> (bs \<noteq> [] \<longrightarrow> [] \<notin> set cs)"
  using assms
proof (induction chunk i bs rule: iov_fill.induct)
  case (1 chunk i bs)
  show ?case
  proof (cases "length bs \<le> chunk")
    case True
    then have "iov_fill chunk i bs = Some [bs]" using "1.prems" by (subst iov_fill.simps) (auto simp: Let_def)
    with "1.prems" show ?thesis by auto
  next
    case False
    have "UIO_MAXIOV - i = Suc (UIO_MAXIOV - (i + 1))" using "1.prems" by simp
    with "1.prems"(3) have l: "length (drop chunk bs) \<le> chunk * (UIO_MAXIOV - (i + 1))" by simp
    with False have "i + 1 < UIO_MAXIOV" by (cases "i + 1 < UIO_MAXIOV") auto
    then obtain cs where cs: "iov_fill chunk (i + 1) (drop chunk bs) = Some cs" "concat cs = drop chunk bs" "length cs + (i + 1) \<le> UIO_MAXIOV" "[] \<notin> set cs"
      using "1.IH" [OF _ refl] "1.prems"(1,2) False l by auto
    moreover have "iov_fill chunk i bs = Some (take chunk bs # cs)"
      using cs(1) "1.prems" False by (subst iov_fill.simps) (simp add: Let_def)
    ultimately show ?thesis using False "1.prems"(1) by auto
  qed
qed

lemma chunksize_enough: "0 < chunksize n" "n \<le> chunksize n * UIO_MAXIOV"
proof -
  show "0 < chunksize n" by (simp add: chunksize_def Let_def)
  define q r where "q = n div UIO_MAXIOV" and "r = n mod UIO_MAXIOV"
  then have "n = 16 * q + r" "r < 16" by (simp_all add: UIO_MAXIOV_def)
  then show "n \<le> chunksize n * UIO_MAXIOV" unfolding chunksize_def Let_def q_def [symmetric] r_def [symmetric] by (auto simp: UIO_MAXIOV_def)
qed

text \<open>
  A write to the socket: the kernel answers the \<open>k\<close>-th call for some number of bytes with an error or the number of bytes it took. The state is what was taken and the
  number of calls.
\<close>

type_synonym kwrite = "nat \<Rightarrow> nat \<Rightarrow> errno + nat"

record wst =
  w_taken :: string
  w_calls :: nat

definition kern_write :: "kwrite \<Rightarrow> string \<Rightarrow> wst \<Rightarrow> int \<times> wst" where
  "kern_write K bs st =
     (case K (w_calls st) (length bs) of
        Inl e \<Rightarrow> (-1, st\<lparr>w_calls := w_calls st + 1\<rparr>)
      | Inr k \<Rightarrow> (int k, st\<lparr>w_taken := w_taken st @ take k bs, w_calls := w_calls st + 1\<rparr>))"

fun write_chunks :: "kwrite \<Rightarrow> string list \<Rightarrow> int \<Rightarrow> wst \<Rightarrow> int \<times> wst" where
  "write_chunks K [] ntotal st = (ntotal, st)"
| "write_chunks K (c # cs) ntotal st =
     (let (nwritten, st') = kern_write K c st
      in if nwritten \<noteq> int (length c) then (-1, st') else write_chunks K cs (ntotal + nwritten) st')"

text \<open>\<^verbatim>\<open>writev\<close> is one call for the bytes of all entries.\<close>

definition dowrite :: "bool \<Rightarrow> bool \<Rightarrow> kwrite \<Rightarrow> string \<Rightarrow> (int, wst) prog" where
  "dowrite chunkwrite usewritev K bs st =
     (if \<not> chunkwrite \<and> \<not> usewritev then (case kern_write K bs st of (r, st') \<Rightarrow> Ret r st')
      else case iov_fill (chunksize (length bs)) 0 bs of
             None \<Rightarrow> Die (Err_quit ''i == UIO_MAXIOV'') st
           | Some iov \<Rightarrow>
               if usewritev then (case kern_write K (concat iov) st of (r, st') \<Rightarrow> Ret r st')
               else (case write_chunks K iov 0 st of (r, st') \<Rightarrow> Ret r st'))"

text \<open>What is relied on of the kernel: it takes at most what it is given.\<close>

definition kernel_ok :: "kwrite \<Rightarrow> bool" where
  "kernel_ok K \<longleftrightarrow> (\<forall>k n m. K k n = Inr m \<longrightarrow> m \<le> n)"

lemma kern_write_result:
  assumes "kernel_ok K" and "kern_write K bs st = (r, st')"
  shows "\<exists>n. w_taken st' = w_taken st @ take n bs \<and> n \<le> length bs \<and> (r = int n \<or> r = -1 \<and> n = 0)"
  using assms by (auto simp: kern_write_def kernel_ok_def split: sum.splits)

lemma write_chunks_result:
  assumes "kernel_ok K" and "write_chunks K cs t st = (r, st')" and "0 \<le> t"
  shows "\<exists>n. w_taken st' = w_taken st @ take n (concat cs) \<and> (r = t + int (length (concat cs)) \<and> n = length (concat cs) \<or> r = -1)"
  using assms(2,3)
proof (induction cs arbitrary: t st)
  case (Cons c cs)
  obtain q st1 where q: "kern_write K c st = (q, st1)" by fastforce
  then obtain n where n: "w_taken st1 = w_taken st @ take n c" "n \<le> length c" "q = int n \<or> q = -1 \<and> n = 0"
    using kern_write_result [OF assms(1)] by blast
  show ?case
  proof (cases "q = int (length c)")
    case True
    then have w: "write_chunks K cs (t + q) st1 = (r, st')" and "n = length c" using Cons.prems(1) q n by auto
    from Cons.IH [OF w] Cons.prems(2) True obtain m where
      "w_taken st' = w_taken st1 @ take m (concat cs)" "r = t + q + int (length (concat cs)) \<and> m = length (concat cs) \<or> r = -1" by auto
    with n True \<open>n = length c\<close> show ?thesis by (intro exI [of _ "length c + m"]) auto
  next
    case False
    with Cons.prems q n show ?thesis by (intro exI [of _ n]) auto
  qed
qed auto

lemma dowrite_result:
  assumes "kernel_ok K"
  shows "\<exists>r n st'. dowrite chunkwrite usewritev K bs st = Ret r st' \<and> w_taken st' = w_taken st @ take n bs \<and> n \<le> length bs \<and>
    (r = int n \<or> r = -1) \<and> (r = int (length bs) \<longrightarrow> n = length bs)"
proof -
  obtain cs where cs: "iov_fill (chunksize (length bs)) 0 bs = Some cs" "concat cs = bs"
    using iov_fill_chunks [of "chunksize (length bs)" 0 bs] chunksize_enough [of "length bs"] by (auto simp: UIO_MAXIOV_def)
  obtain q st1 where q: "kern_write K bs st = (q, st1)" by fastforce
  then obtain n where n: "w_taken st1 = w_taken st @ take n bs" "n \<le> length bs" "q = int n \<or> q = -1 \<and> n = 0"
    using kern_write_result [OF assms] by blast
  obtain p st2 where p: "write_chunks K cs 0 st = (p, st2)" by fastforce
  from write_chunks_result [OF assms this] cs(2) obtain m where
    m: "w_taken st2 = w_taken st @ take m bs" "p = int (length bs) \<and> m = length bs \<or> p = -1" by auto
  show ?thesis
  proof (cases "\<not> chunkwrite \<and> \<not> usewritev \<or> usewritev")
    case True
    then have "dowrite chunkwrite usewritev K bs st = Ret q st1" using q cs by (auto simp: dowrite_def)
    with n show ?thesis by (intro exI [of _ q] exI [of _ n] exI [of _ st1]) auto
  next
    case False
    then have "dowrite chunkwrite usewritev K bs st = Ret p st2" using p cs by (auto simp: dowrite_def)
    with m show ?thesis by (intro exI [of _ p] exI [of _ "min m (length bs)"] exI [of _ st2]) (auto simp: min_def)
  qed
qed



section \<open>writen\<close>

text \<open>
  The variable \<^verbatim>\<open>nwritten\<close> is a \<^verbatim>\<open>size_t\<close>, so that an error, which is -1, does not satisfy \<^verbatim>\<open><= 0\<close>. \<open>mem\<close> is the memory around the pointer, \<open>rs\<close> what the calls of
  \<^verbatim>\<open>write\<close> return, and the state what was written.
\<close>

fun sock_writen :: "(64 word \<Rightarrow> char) \<Rightarrow> 64 word \<Rightarrow> (errno + nat) list \<Rightarrow> 64 word \<Rightarrow> 64 word \<Rightarrow> (64 word, string) prog" where
  "sock_writen mem n [] ptr nleft out = (if nleft = 0 then Ret n out else Blocked out)"
| "sock_writen mem n (r # rs) ptr nleft out =
     (if nleft = 0 then Ret n out
      else case r of
             Inl e \<Rightarrow> sock_writen mem n rs (ptr + (-1)) (nleft - (-1)) out
           | Inr k \<Rightarrow> let out' = out @ map (\<lambda>i. mem (ptr + of_nat i)) [0..<k]
                      in if of_nat k = (0 :: 64 word) then Ret 0 out' else sock_writen mem n rs (ptr + of_nat k) (nleft - of_nat k) out')"

text \<open>The kernel takes at least one byte and at most those left, until there are none.\<close>

fun takes_all :: "(errno + nat) list \<Rightarrow> nat \<Rightarrow> bool" where
  "takes_all rs 0 = True"
| "takes_all [] (Suc n) = False"
| "takes_all (r # rs) (Suc n) = (case r of Inl e \<Rightarrow> False | Inr k \<Rightarrow> 0 < k \<and> k \<le> Suc n \<and> takes_all rs (Suc n - k))"

lemma sock_writen_all:
  assumes "takes_all rs m" and "m < 2 ^ 64" and "p + m < 2 ^ 64"
  shows "sock_writen mem n rs (of_nat p) (of_nat m) out = Ret n (out @ map (\<lambda>i. mem (of_nat i)) [p..<p + m])"
  using assms
proof (induction rs m arbitrary: p out rule: takes_all.induct)
  case (1 rs)
  then show ?case by (cases rs) simp_all
next
  case (3 r rs m)
  then obtain k where r: "r = Inr k" and k: "0 < k" "k \<le> Suc m" "takes_all rs (Suc m - k)" by (auto split: sum.splits)
  have nz: "(of_nat k :: 64 word) \<noteq> 0" "(of_nat (Suc m) :: 64 word) \<noteq> 0"
    using "3.prems" k by (simp_all add: word_of_nat_eq_0_iff nat_dvd_not_less del: of_nat_Suc)
  have eqs: "of_nat p + of_nat k = (of_nat (p + k) :: 64 word)" "of_nat (Suc m) - of_nat k = (of_nat (Suc m - k) :: 64 word)"
    using k(2) by (simp_all add: of_nat_diff)
  have parts: "[p..<p + Suc m] = [p..<p + k] @ [p + k..<p + Suc m]" using upt_add_eq_append [of p "p + k" "Suc m - k"] k(2) by simp
  have "map (\<lambda>i. mem (of_nat p + of_nat i)) [0..<k] = map (\<lambda>i. mem (of_nat i)) [p..<p + k]"
    by (rule nth_equalityI) simp_all
  then have step: "sock_writen mem n (r # rs) (of_nat p) (of_nat (Suc m)) out =
    sock_writen mem n rs (of_nat (p + k)) (of_nat (Suc m - k)) (out @ map (\<lambda>i. mem (of_nat i)) [p..<p + k])"
    unfolding eqs [symmetric] using r nz by (simp add: Let_def del: of_nat_Suc upt_Suc)
  have "p + k + (Suc m - k) = p + Suc m" "Suc m - k < 2 ^ 64" "p + k + (Suc m - k) < 2 ^ 64" using k(2) "3.prems" by simp_all
  with "3.IH" [OF r k(3), of "p + k"] show ?case unfolding step parts map_append append_assoc [symmetric] by simp
qed simp

text \<open>An error is not reported: the pointer moves back by one byte, in front of the buffer if it was the first call, and one more byte is asked for.\<close>

lemma sock_writen_error:
  "0 < m \<Longrightarrow> m < 2 ^ 64 - 1 \<Longrightarrow> sock_writen mem n (Inl e # rs) 0 (of_nat m) out = sock_writen mem n rs (-1) (of_nat m + 1) out"
  by (simp add: word_of_nat_eq_0_iff nat_dvd_not_less)

end
