(* ===== verification/Sock_Loop.thy ===== *)
theory Sock_Loop
  imports Sock_Util Sockaddr
begin

text \<open>
  The copying loops of the traffic tool: \<^verbatim>\<open>loop_tcp\<close> and \<^verbatim>\<open>loop_udp\<close> between standard input, standard output and a socket, \<^verbatim>\<open>source_tcp\<close>,
  \<^verbatim>\<open>source_udp\<close>, \<^verbatim>\<open>sink_tcp\<close> and \<^verbatim>\<open>sink_udp\<close> (the files of these names under \<^verbatim>\<open>sock/\<close>). A run of a loop is a list of rounds that say what \<^verbatim>\<open>select\<close>, \<^verbatim>\<open>read\<close>, \<^verbatim>\<open>recv\<close> and
  the writes to standard output return; the socket is the kernel of \<open>Sock_Util\<close>. Pauses and the messages of the verbose mode are left out. The theorem on the loop: what
  goes out is the converted input and what is printed the converted data received, so that two tools with the same option copy the input of one to the output of the other.
\<close>

section \<open>The options\<close>

record skcf =
  sk_crlf :: bool
  sk_halfclose :: bool
  sk_msgpeek :: bool
  sk_readlen :: nat
  sk_writelen :: nat
  sk_chunkwrite :: bool
  sk_usewritev :: bool
  sk_nbuf :: nat
  sk_urgwrite :: int
  sk_ignorewerr :: bool
  sk_connectudp :: bool
  sk_server :: bool

section \<open>loop\_tcp\<close>

text \<open>
  The state: \<^verbatim>\<open>stdineof\<close>, the socket, and what was read and written. \<open>lr_sock\<close> holds what \<^verbatim>\<open>recv\<close> returns with \<^verbatim>\<open>MSG_PEEK\<close> and then without; \<open>lr_outs\<close> what \<^verbatim>\<open>write\<close> to
  standard output returns, for each number of bytes, in the first and in the second call of \<^verbatim>\<open>writen\<close> of the round.
\<close>

record lst =
  l_w :: wst
  l_in :: string
  l_rcv :: string
  l_out :: string
  l_eof :: bool
  l_fin :: bool
  l_closed :: bool

record lround =
  lr_select :: "errno option"
  lr_in :: "(errno + string) option"
  lr_shut :: "errno option"
  lr_sock :: "((errno + string) \<times> (errno + string)) option"
  lr_outs :: "(nat \<Rightarrow> (errno + nat) list) \<times> (nat \<Rightarrow> (errno + nat) list)"

datatype lnext = L_on | L_continue | L_break

definition conv_add :: "skcf \<Rightarrow> string \<Rightarrow> fatal + nat \<times> string" where
  "conv_add cf d = (if sk_crlf cf then crlf_add (sk_writelen cf) d else Inr (length d, d))"

definition conv_strip :: "skcf \<Rightarrow> string \<Rightarrow> fatal + nat \<times> string" where
  "conv_strip cf d = (if sk_crlf cf then crlf_strip (sk_writelen cf) d else Inr (length d, d))"

definition to_sock :: "skcf \<Rightarrow> kwrite \<Rightarrow> string \<Rightarrow> (lnext, lst) prog" where
  "to_sock cf K d st =
     (case conv_add cf d of
        Inl f \<Rightarrow> Die f st
      | Inr (ntowrite, t) \<Rightarrow>
          (case dowrite (sk_chunkwrite cf) (sk_usewritev cf) K t (l_w st) of
             Ret r w \<Rightarrow> if r \<noteq> int ntowrite then Die (Err_sys ''write error'' None) (st\<lparr>l_w := w\<rparr>)
                        else Ret L_on (st\<lparr>l_w := w, l_in := l_in st @ d\<rparr>)
           | Die f w \<Rightarrow> Die f (st\<lparr>l_w := w\<rparr>)
           | Blocked w \<Rightarrow> Blocked (st\<lparr>l_w := w\<rparr>)))"

definition loop_stdin :: "skcf \<Rightarrow> kwrite \<Rightarrow> errno + string \<Rightarrow> errno option \<Rightarrow> (lnext, lst) prog" where
  "loop_stdin cf K r shut st =
     (case r of
        Inl e \<Rightarrow> Die (Err_sys ''read error from stdin'' (Some e)) st
      | Inr d \<Rightarrow>
          let d = take (sk_readlen cf) d
          in if d = []
             then if sk_halfclose cf
                  then (case shut of
                          Some e \<Rightarrow> Die (Err_sys ''shutdown() error'' (Some e)) st
                        | None \<Rightarrow> Ret L_continue (st\<lparr>l_fin := True, l_eof := True\<rparr>))
                  else Ret L_break st
             else to_sock cf K d st)"

text \<open>The buffer as memory: what lies outside of it is unknown.\<close>

definition buffer_mem :: "(64 word \<Rightarrow> char) \<Rightarrow> string \<Rightarrow> 64 word \<Rightarrow> char" where
  "buffer_mem beyond t p = (if unat p < length t then t ! unat p else beyond p)"

definition to_stdout :: "skcf \<Rightarrow> (64 word \<Rightarrow> char) \<Rightarrow> (nat \<Rightarrow> (errno + nat) list) \<Rightarrow> string \<Rightarrow> (unit, lst) prog" where
  "to_stdout cf beyond rs d st =
     (case conv_strip cf d of
        Inl f \<Rightarrow> Die f st
      | Inr (ntowrite, t) \<Rightarrow>
          (case sock_writen (buffer_mem beyond t) (of_nat ntowrite) (rs ntowrite) 0 (of_nat ntowrite) (l_out st) of
             Ret n out \<Rightarrow> if n \<noteq> of_nat ntowrite then Die (Err_sys ''writen error to stdout'' None) (st\<lparr>l_out := out\<rparr>)
                          else Ret () (st\<lparr>l_out := out\<rparr>)
           | Die f out \<Rightarrow> Die f (st\<lparr>l_out := out\<rparr>)
           | Blocked out \<Rightarrow> Blocked (st\<lparr>l_out := out\<rparr>)))"

definition loop_recv :: "skcf \<Rightarrow> (64 word \<Rightarrow> char) \<Rightarrow> bool \<Rightarrow> errno + string \<Rightarrow> (nat \<Rightarrow> (errno + nat) list) \<Rightarrow> (lnext, lst) prog" where
  "loop_recv cf beyond peek r outs st =
     (case r of
        Inl e \<Rightarrow> Die (Err_sys ''recv error'' (Some e)) st
      | Inr d \<Rightarrow>
          let d = take (sk_readlen cf) d
          in if d = [] then Ret L_break st
             else bindP (to_stdout cf beyond outs d) (\<lambda>_. returnP L_on) (if peek then st else st\<lparr>l_rcv := l_rcv st @ d\<rparr>))"

definition loop_sock :: "skcf \<Rightarrow> (64 word \<Rightarrow> char) \<Rightarrow> (errno + string) \<times> (errno + string) \<Rightarrow> (nat \<Rightarrow> (errno + nat) list) \<times> (nat \<Rightarrow> (errno + nat) list) \<Rightarrow> (lnext, lst) prog" where
  "loop_sock cf beyond rs outs =
     (if sk_msgpeek cf
      then bindP (loop_recv cf beyond True (fst rs) (fst outs))
             (\<lambda>nx. if nx = L_break then returnP L_break else loop_recv cf beyond False (snd rs) (snd outs))
      else loop_recv cf beyond False (snd rs) (fst outs))"

definition loop_round :: "skcf \<Rightarrow> kwrite \<Rightarrow> (64 word \<Rightarrow> char) \<Rightarrow> lround \<Rightarrow> (lnext, lst) prog" where
  "loop_round cf K beyond r st =
     (case lr_select r of
        Some e \<Rightarrow> Die (Err_sys ''select error'' (Some e)) st
      | None \<Rightarrow>
          bindP (case lr_in r of
                   Some x \<Rightarrow> if l_eof st then returnP L_on else loop_stdin cf K x (lr_shut r)
                 | None \<Rightarrow> returnP L_on)
            (\<lambda>nx. if nx \<noteq> L_on then returnP nx
                  else case lr_sock r of None \<Rightarrow> returnP L_on | Some x \<Rightarrow> loop_sock cf beyond x (lr_outs r)) st)"

fun loop_tcp :: "skcf \<Rightarrow> kwrite \<Rightarrow> (64 word \<Rightarrow> char) \<Rightarrow> errno option \<Rightarrow> lround list \<Rightarrow> (unit, lst) prog" where
  "loop_tcp cf K beyond cl [] st = Blocked st"
| "loop_tcp cf K beyond cl (r # rs) st =
     bindP (loop_round cf K beyond r)
       (\<lambda>nx st. if nx = L_break
                then (case cl of Some e \<Rightarrow> Die (Err_sys ''close error'' (Some e)) st | None \<Rightarrow> Ret () (st\<lparr>l_closed := True\<rparr>))
                else loop_tcp cf K beyond cl rs st) st"

section \<open>Sources and sinks\<close>

text \<open>The state of a source: the socket, the places in the stream at which the urgent byte was sent, and whether it is closed.\<close>

record sst =
  s_w :: wst
  s_urg :: "(nat \<times> int) list"
  s_closed :: bool

definition wbuf :: "skcf \<Rightarrow> string" where
  "wbuf cf = map (\<lambda>b. char_of (unat b)) (pattern (sk_writelen cf))"

text \<open>
  Round \<open>i\<close> of \<open>n\<close> more: \<open>oob\<close> is the result of sending the urgent byte (\<open>None\<close> if it was taken) and \<open>soerr\<close> that of \<^verbatim>\<open>getsockopt\<close>. A short write is an error unless errors are ignored.
\<close>

definition source_write :: "skcf \<Rightarrow> kwrite \<Rightarrow> errno option \<Rightarrow> (unit, sst) prog" where
  "source_write cf K soerr st =
     (case kern_write K (wbuf cf) (s_w st) of
        (n, w) \<Rightarrow>
          if n \<noteq> int (sk_writelen cf)
          then if sk_ignorewerr cf
               then (case soerr of Some e \<Rightarrow> Die (Err_sys ''SO_ERROR getsockopt error'' (Some e)) (st\<lparr>s_w := w\<rparr>) | None \<Rightarrow> Ret () (st\<lparr>s_w := w\<rparr>))
               else Die (Err_sys ''write returned %d, expected %d'' None) (st\<lparr>s_w := w\<rparr>)
          else Ret () (st\<lparr>s_w := w\<rparr>))"

fun source_loop :: "skcf \<Rightarrow> kwrite \<Rightarrow> errno option \<Rightarrow> (nat \<Rightarrow> errno option) \<Rightarrow> nat \<Rightarrow> nat \<Rightarrow> (unit, sst) prog" where
  "source_loop cf K oob soerr i 0 st = Ret () st"
| "source_loop cf K oob soerr i (Suc n) st =
     bindP (\<lambda>st. if sk_urgwrite cf = int i
                 then (case oob of
                         Some e \<Rightarrow> Die (Err_sys ''send of MSG_OOB returned %d, expected %d'' (Some e)) st
                       | None \<Rightarrow> Ret () (st\<lparr>s_urg := s_urg st @ [(length (w_taken (s_w st)), sk_urgwrite cf)]\<rparr>))
                 else Ret () st)
       (\<lambda>_. bindP (source_write cf K (soerr i)) (\<lambda>_. source_loop cf K oob soerr (i + 1) n)) st"

definition source_close :: "errno option \<Rightarrow> (unit, sst) prog" where
  "source_close cl st = (case cl of Some e \<Rightarrow> Die (Err_sys ''close error'' (Some e)) st | None \<Rightarrow> Ret () (st\<lparr>s_closed := True\<rparr>))"

definition source_tcp :: "skcf \<Rightarrow> kwrite \<Rightarrow> errno option \<Rightarrow> (nat \<Rightarrow> errno option) \<Rightarrow> errno option \<Rightarrow> (unit, sst) prog" where
  "source_tcp cf K oob soerr cl = bindP (source_loop cf K oob soerr 1 (sk_nbuf cf)) (\<lambda>_. source_close cl)"

text \<open>The datagram source writes to a connected socket or sends to the server; there is no urgent byte.\<close>

fun source_udp_loop :: "skcf \<Rightarrow> kwrite \<Rightarrow> (nat \<Rightarrow> errno option) \<Rightarrow> nat \<Rightarrow> nat \<Rightarrow> (unit, sst) prog" where
  "source_udp_loop cf K soerr i 0 st = Ret () st"
| "source_udp_loop cf K soerr i (Suc n) st = bindP (source_write cf K (soerr i)) (\<lambda>_. source_udp_loop cf K soerr (i + 1) n) st"

definition source_udp :: "skcf \<Rightarrow> kwrite \<Rightarrow> (nat \<Rightarrow> errno option) \<Rightarrow> errno option \<Rightarrow> (unit, sst) prog" where
  "source_udp cf K soerr cl = bindP (source_udp_loop cf K soerr 1 (sk_nbuf cf)) (\<lambda>_. source_close cl)"

text \<open>A sink: each round is what \<^verbatim>\<open>recv\<close> returns, with and without \<^verbatim>\<open>MSG_PEEK\<close>; the state counts the bytes received and the calls.\<close>

record kst =
  k_bytes :: nat
  k_calls :: nat
  k_closed :: bool

definition sink_recv :: "skcf \<Rightarrow> bool \<Rightarrow> errno + string \<Rightarrow> (bool, kst) prog" where
  "sink_recv cf peek r st =
     (case r of
        Inl e \<Rightarrow> Die (Err_sys ''recv error'' (Some e)) st
      | Inr d \<Rightarrow>
          let n = length (take (sk_readlen cf) d)
          in if n = 0 then Ret True st
             else Ret False (st\<lparr>k_bytes := k_bytes st + (if peek then 0 else n), k_calls := k_calls st + 1\<rparr>))"

definition sink_close :: "errno option \<Rightarrow> (unit, kst) prog" where
  "sink_close cl st = (case cl of Some e \<Rightarrow> Die (Err_sys ''close error'' (Some e)) st | None \<Rightarrow> Ret () (st\<lparr>k_closed := True\<rparr>))"

fun sink_tcp :: "skcf \<Rightarrow> errno option \<Rightarrow> ((errno + string) \<times> (errno + string)) list \<Rightarrow> (unit, kst) prog" where
  "sink_tcp cf cl [] st = Blocked st"
| "sink_tcp cf cl ((p, r) # rs) st =
     bindP (if sk_msgpeek cf
            then bindP (sink_recv cf True p) (\<lambda>eof. if eof then returnP True else sink_recv cf False r)
            else sink_recv cf False r)
       (\<lambda>eof. if eof then sink_close cl else sink_tcp cf cl rs) st"

text \<open>The datagram sink differs in what it prints only.\<close>

definition sink_udp :: "skcf \<Rightarrow> errno option \<Rightarrow> ((errno + string) \<times> (errno + string)) list \<Rightarrow> (unit, kst) prog" where
  "sink_udp cf cl rs = sink_tcp cf cl rs"

section \<open>What the loop copies\<close>

definition enc :: "skcf \<Rightarrow> string \<Rightarrow> string" where
  "enc cf s = (if sk_crlf cf then with_cr s else s)"

definition dec :: "skcf \<Rightarrow> string \<Rightarrow> string" where
  "dec cf s = (if sk_crlf cf then without_cr s else s)"

lemma enc_append: "enc cf (s @ t) = enc cf s @ enc cf t" and dec_append: "dec cf (s @ t) = dec cf s @ dec cf t"
  by (simp_all add: enc_def dec_def without_cr_def)

lemma dec_enc: "\<not> sk_crlf cf \<or> CR \<notin> set s \<Longrightarrow> dec cf (enc cf s) = s"
  by (auto simp: enc_def dec_def without_with_cr)

lemma length_dec: "length (dec cf d) \<le> length d"
  by (simp add: dec_def without_cr_def)

lemma conv_add_enc: "conv_add cf d = Inr (n, t) \<Longrightarrow> t = enc cf d \<and> n = length t"
  by (auto simp: conv_add_def enc_def crlf_add_eq split: if_splits)

lemma conv_strip_dec: "conv_strip cf d = Inr (n, t) \<Longrightarrow> t = dec cf d \<and> n = length t"
  by (auto simp: conv_strip_def dec_def crlf_strip_eq split: if_splits)

text \<open>Every block written to standard output is taken.\<close>

definition stdout_ok :: "(nat \<Rightarrow> (errno + nat) list) \<Rightarrow> bool" where
  "stdout_ok rs \<longleftrightarrow> (\<forall>m. takes_all (rs m) m)"

lemma to_sock_result:
  assumes "kernel_ok K"
  shows "case to_sock cf K d st of
      Ret nx st' \<Rightarrow> nx = L_on \<and> (\<exists>w. st' = st\<lparr>l_w := w, l_in := l_in st @ d\<rparr> \<and> w_taken w = w_taken (l_w st) @ enc cf d)
    | Die f st' \<Rightarrow> True | Blocked st' \<Rightarrow> False"
proof (cases "conv_add cf d")
  case (Inl f)
  then show ?thesis by (simp add: to_sock_def)
next
  case (Inr x)
  obtain n t where x: "x = (n, t)" by fastforce
  have t: "t = enc cf d" "n = length t" using conv_add_enc Inr x by auto
  obtain r m w where w: "dowrite (sk_chunkwrite cf) (sk_usewritev cf) K t (l_w st) = Ret r w" "w_taken w = w_taken (l_w st) @ take m t"
    "r = int (length t) \<longrightarrow> m = length t"
    using dowrite_result [OF assms] by blast
  with Inr x t show ?thesis by (auto simp: to_sock_def)
qed

lemma to_stdout_result:
  assumes "stdout_ok rs" and "length d < 2 ^ 64"
  shows "case to_stdout cf beyond rs d st of Ret u st' \<Rightarrow> st' = st\<lparr>l_out := l_out st @ dec cf d\<rparr> | Die f st' \<Rightarrow> True | Blocked st' \<Rightarrow> False"
proof (cases "conv_strip cf d")
  case (Inl f)
  then show ?thesis by (simp add: to_stdout_def)
next
  case (Inr x)
  obtain n t where x: "x = (n, t)" by fastforce
  have t: "t = dec cf d" "n = length t" using conv_strip_dec Inr x by auto
  have l: "length t < 2 ^ 64" using length_dec [of cf d] assms(2) unfolding t(1) by (rule le_less_trans)
  have "map (\<lambda>i. buffer_mem beyond t (of_nat i)) [0..<length t] = t"
    using l by (intro nth_equalityI) (auto simp: buffer_mem_def unat_of_nat take_bit_nat_eq_self)
  moreover have "sock_writen (buffer_mem beyond t) (of_nat n) (rs n) (of_nat 0) (of_nat n) (l_out st) =
    Ret (of_nat n) (l_out st @ map (\<lambda>i. buffer_mem beyond t (of_nat i)) [0..<0 + n])"
    by (rule sock_writen_all) (use assms(1) l t(2) in \<open>simp_all add: stdout_ok_def\<close>)
  ultimately show ?thesis using Inr x t by (simp add: to_stdout_def)
qed

text \<open>
  The invariant: the socket has taken the converted input, the output is the converted data (each block once if there is no peeking), and a FIN goes with the end of the input.
\<close>

definition loop_inv :: "skcf \<Rightarrow> lst \<Rightarrow> bool" where
  "loop_inv cf st \<longleftrightarrow> w_taken (l_w st) = enc cf (l_in st) \<and> (\<not> sk_msgpeek cf \<longrightarrow> l_out st = dec cf (l_rcv st)) \<and> (l_fin st \<longleftrightarrow> l_eof st) \<and>
     (l_eof st \<longrightarrow> sk_halfclose cf)"

definition kept :: "skcf \<Rightarrow> (lnext, lst) outcome \<Rightarrow> bool" where
  "kept cf r \<longleftrightarrow> (case r of Ret nx st \<Rightarrow> loop_inv cf st | Die f st \<Rightarrow> True | Blocked st \<Rightarrow> False)"

lemma kept_bindP: "kept cf (m st) \<Longrightarrow> (\<And>nx st'. loop_inv cf st' \<Longrightarrow> kept cf (k nx st')) \<Longrightarrow> kept cf (bindP m k st)"
  by (cases "m st") (auto simp: kept_def)

lemma loop_stdin_kept: "kernel_ok K \<Longrightarrow> loop_inv cf st \<Longrightarrow> kept cf (loop_stdin cf K r shut st)"
  using to_sock_result [where K = K and cf = cf and d = "take (sk_readlen cf) (projr r)" and st = st]
  by (cases r) (auto simp: loop_stdin_def kept_def loop_inv_def enc_append Let_def split: option.splits outcome.splits)

lemma loop_recv_kept:
  assumes "stdout_ok outs" and "sk_readlen cf < 2 ^ 64" and "loop_inv cf st" and "peek \<longrightarrow> sk_msgpeek cf"
  shows "kept cf (loop_recv cf beyond peek r outs st)"
proof (cases r)
  case (Inl e)
  then show ?thesis by (simp add: loop_recv_def kept_def)
next
  case (Inr d)
  let ?d = "take (sk_readlen cf) d" and ?st = "if peek then st else st\<lparr>l_rcv := l_rcv st @ take (sk_readlen cf) d\<rparr>"
  have l: "length ?d < 2 ^ 64" using assms(2) by simp
  have "l_out ?st = l_out st" by simp
  then show ?thesis
    using to_stdout_result [OF assms(1) l, where cf = cf and beyond = beyond and st = ?st] assms(3,4) Inr
    by (cases "to_stdout cf beyond outs ?d ?st") (auto simp: loop_recv_def kept_def loop_inv_def dec_append Let_def returnP_def split: if_splits)
qed

lemma loop_round_kept:
  assumes "kernel_ok K" and "sk_readlen cf < 2 ^ 64" and "stdout_ok (fst (lr_outs r)) \<and> stdout_ok (snd (lr_outs r))" and "loop_inv cf st"
  shows "kept cf (loop_round cf K beyond r st)"
proof -
  have sock: "kept cf (loop_sock cf beyond x (lr_outs r) st')" if "loop_inv cf st'" for x st'
    using that assms(2,3) by (auto simp: loop_sock_def returnP_def kept_def [of _ "Ret _ _"] intro!: kept_bindP loop_recv_kept)
  show ?thesis
    using assms(1,4) by (auto simp: loop_round_def kept_def [of _ "Die _ _"] kept_def [of _ "Ret _ _"] returnP_def
        intro!: kept_bindP loop_stdin_kept sock split: option.splits)
qed

lemma loop_tcp_inv:
  assumes "kernel_ok K" and "sk_readlen cf < 2 ^ 64" and "\<forall>r \<in> set rs. stdout_ok (fst (lr_outs r)) \<and> stdout_ok (snd (lr_outs r))" and "loop_inv cf st"
    and "loop_tcp cf K beyond cl rs st = Ret () st' \<or> loop_tcp cf K beyond cl rs st = Blocked st'"
  shows "loop_inv cf st'"
  using assms(3-5)
proof (induction rs arbitrary: st)
  case (Cons r rs)
  from loop_round_kept [OF assms(1,2), of r st beyond] Cons.prems(1,2) have "kept cf (loop_round cf K beyond r st)" by simp
  with Cons show ?case
    by (cases "loop_round cf K beyond r st") (auto simp: kept_def loop_inv_def split: if_splits option.splits)
qed simp

definition loop_start :: lst where
  "loop_start = \<lparr>l_w = \<lparr>w_taken = [], w_calls = 0\<rparr>, l_in = [], l_rcv = [], l_out = [], l_eof = False, l_fin = False, l_closed = False\<rparr>"

lemma loop_start_inv: "loop_inv cf loop_start"
  by (simp add: loop_inv_def loop_start_def enc_def dec_def without_cr_def)

text \<open>
  C24. Two copies of the tool connected to each other: if what one received is what the other sent, the output of the one is the input of the other, for every segmentation, every
  mode of writing and every order of the events, with or without the conversion of line ends, as long as the input has no return characters when they are converted; and each has
  announced the end of its input exactly if it has seen it with the half-close option.
\<close>

theorem sock_pair_copies:
  assumes K: "kernel_ok KA" "kernel_ok KB" and len: "sk_readlen cfA < 2 ^ 64" "sk_readlen cfB < 2 ^ 64"
    and out: "\<forall>r \<in> set rsA \<union> set rsB. stdout_ok (fst (lr_outs r)) \<and> stdout_ok (snd (lr_outs r))"
    and A: "loop_tcp cfA KA beyondA clA rsA loop_start = Ret () stA \<or> loop_tcp cfA KA beyondA clA rsA loop_start = Blocked stA"
    and B: "loop_tcp cfB KB beyondB clB rsB loop_start = Ret () stB \<or> loop_tcp cfB KB beyondB clB rsB loop_start = Blocked stB"
    and mode: "sk_crlf cfA = sk_crlf cfB" "sk_crlf cfA \<longrightarrow> CR \<notin> set (l_in stA)" "\<not> sk_msgpeek cfB"
    and net: "l_rcv stB = w_taken (l_w stA)"
  shows "l_out stB = l_in stA \<and> (l_fin stA \<longleftrightarrow> l_eof stA) \<and> (l_eof stA \<longrightarrow> sk_halfclose cfA)"
proof -
  have "loop_inv cfA stA" using loop_tcp_inv [OF K(1) len(1) _ loop_start_inv A] out by blast
  moreover have "loop_inv cfB stB" using loop_tcp_inv [OF K(2) len(2) _ loop_start_inv B] out by blast
  moreover have "dec cfB (enc cfA (l_in stA)) = l_in stA" using dec_enc [of cfA "l_in stA"] mode(1,2) by (auto simp: dec_def)
  ultimately show ?thesis using mode(3) net by (simp add: loop_inv_def)
qed

section \<open>What a source sends and a sink receives\<close>

lemma length_wbuf: "length (wbuf cf) = sk_writelen cf"
  using arg_cong [OF pattern_printable [of "sk_writelen cf"], of length] by (simp add: wbuf_def)

lemma source_write_result:
  assumes "kernel_ok K" and "\<not> sk_ignorewerr cf" and "source_write cf K soerr st = Ret u st'"
  shows "w_taken (s_w st') = w_taken (s_w st) @ wbuf cf \<and> s_urg st' = s_urg st \<and> s_closed st' = s_closed st"
proof -
  obtain n w where w: "kern_write K (wbuf cf) (s_w st) = (n, w)" by fastforce
  then obtain m where "w_taken w = w_taken (s_w st) @ take m (wbuf cf)" "n = int m \<or> n = -1 \<and> m = 0" using kern_write_result [OF assms(1)] by blast
  with assms(2,3) w show ?thesis by (auto simp: source_write_def length_wbuf split: if_splits)
qed

text \<open>The urgent byte of the rounds from \<open>i\<close> on.\<close>

definition urgent_at :: "skcf \<Rightarrow> nat \<Rightarrow> nat \<Rightarrow> nat \<Rightarrow> (nat \<times> int) list" where
  "urgent_at cf base i n =
     (if int i \<le> sk_urgwrite cf \<and> sk_urgwrite cf < int (i + n) then [(base + nat (sk_urgwrite cf - int i) * sk_writelen cf, sk_urgwrite cf)] else [])"

lemma source_loop_result:
  assumes "kernel_ok K" and "\<not> sk_ignorewerr cf" and "source_loop cf K oob soerr i n st = Ret u st'"
  shows "w_taken (s_w st') = w_taken (s_w st) @ concat (replicate n (wbuf cf)) \<and> s_urg st' = s_urg st @ urgent_at cf (length (w_taken (s_w st))) i n \<and> s_closed st' = s_closed st"
  using assms(3)
proof (induction n arbitrary: i st)
  case 0
  then show ?case by (simp add: urgent_at_def)
next
  case (Suc n)
  let ?urg = "if sk_urgwrite cf = int i then [(length (w_taken (s_w st)), sk_urgwrite cf)] else []"
  let ?st1 = "if sk_urgwrite cf = int i then st\<lparr>s_urg := s_urg st @ ?urg\<rparr> else st"
  obtain u2 st2 where st2: "source_write cf K (soerr i) ?st1 = Ret u2 st2" "source_loop cf K oob soerr (i + 1) n st2 = Ret u st'"
    using Suc.prems by (auto simp: bindP_def split: if_splits option.splits outcome.splits)
  from source_write_result [OF assms(1,2) st2(1)] have s2: "w_taken (s_w st2) = w_taken (s_w st) @ wbuf cf" "s_urg st2 = s_urg st @ ?urg" "s_closed st2 = s_closed st"
    by (auto split: if_splits)
  have "?urg @ urgent_at cf (length (w_taken (s_w st) @ wbuf cf)) (i + 1) n = urgent_at cf (length (w_taken (s_w st))) i (Suc n)"
  proof (cases "int i < sk_urgwrite cf")
    case True
    then have "nat (sk_urgwrite cf - int i) = Suc (nat (sk_urgwrite cf - int (i + 1)))" by linarith
    with True show ?thesis by (auto simp: urgent_at_def length_wbuf)
  qed (auto simp: urgent_at_def)
  with Suc.IH [OF st2(2)] s2 show ?case by auto
qed

text \<open>The data of the rounds before the end-of-file.\<close>

fun sink_data :: "skcf \<Rightarrow> ((errno + string) \<times> (errno + string)) list \<Rightarrow> string" where
  "sink_data cf [] = []"
| "sink_data cf ((p, r) # rs) = (case r of Inl e \<Rightarrow> [] | Inr d \<Rightarrow> let d = take (sk_readlen cf) d in if d = [] then [] else d @ sink_data cf rs)"

lemma sink_tcp_counts:
  assumes "\<not> sk_msgpeek cf" and "sink_tcp cf cl rs st = Ret u st'"
  shows "k_bytes st' = k_bytes st + length (sink_data cf rs) \<and> k_closed st'"
  using assms(2)
proof (induction rs arbitrary: st)
  case (Cons pr rs)
  obtain p r where pr: "pr = (p, r)" by fastforce
  show ?case
  proof (cases r)
    case (Inl e)
    with Cons.prems pr assms(1) show ?thesis by (simp add: sink_recv_def bindP_def)
  next
    case (Inr d)
    show ?thesis
    proof (cases "take (sk_readlen cf) d = []")
      case True
      with Cons.prems pr Inr assms(1) show ?thesis by (auto simp: sink_recv_def bindP_def sink_close_def split: option.splits)
    next
      case False
      then have "min (length d) (sk_readlen cf) \<noteq> 0" by auto
      with Cons.prems pr Inr assms(1) Cons.IH False show ?thesis by (auto simp: sink_recv_def bindP_def Let_def)
    qed
  qed
qed simp

text \<open>
  A source and a sink: when \<^verbatim>\<open>source_tcp\<close> returns it has sent \<^verbatim>\<open>nbuf\<close> times its buffer, which is the cycle of the printable characters, and one urgent byte in front of the
  chosen write if there is such a write; and a sink that received this stream, in whatever pieces, and returns has counted exactly \<open>nbuf * writelen\<close> bytes.
\<close>

theorem source_sink_counts:
  assumes K: "kernel_ok K" and cf: "\<not> sk_ignorewerr cf" "\<not> sk_msgpeek cf'"
    and source: "source_tcp cf K oob soerr cl \<lparr>s_w = \<lparr>w_taken = [], w_calls = 0\<rparr>, s_urg = [], s_closed = False\<rparr> = Ret () st"
    and sink: "sink_tcp cf' cl' rs \<lparr>k_bytes = 0, k_calls = 0, k_closed = False\<rparr> = Ret () st'" and net: "sink_data cf' rs = w_taken (s_w st)"
  shows "w_taken (s_w st) = concat (replicate (sk_nbuf cf) (wbuf cf)) \<and>
    s_urg st = (if 1 \<le> sk_urgwrite cf \<and> sk_urgwrite cf \<le> int (sk_nbuf cf) then [(nat (sk_urgwrite cf - 1) * sk_writelen cf, sk_urgwrite cf)] else []) \<and>
    k_bytes st' = sk_nbuf cf * sk_writelen cf \<and> s_closed st \<and> k_closed st'"
proof -
  obtain u st1 where st1: "source_loop cf K oob soerr 1 (sk_nbuf cf) \<lparr>s_w = \<lparr>w_taken = [], w_calls = 0\<rparr>, s_urg = [], s_closed = False\<rparr> = Ret u st1"
    and st: "st = st1\<lparr>s_closed := True\<rparr>"
    using source by (auto simp: source_tcp_def bindP_def source_close_def split: outcome.splits option.splits)
  from source_loop_result [OF K cf(1) st1] st
  have "w_taken (s_w st) = concat (replicate (sk_nbuf cf) (wbuf cf))" "s_urg st = urgent_at cf 0 1 (sk_nbuf cf)" "s_closed st" by simp_all
  moreover from this have "length (w_taken (s_w st)) = sk_nbuf cf * sk_writelen cf" by (simp add: length_concat length_wbuf sum_list_replicate)
  ultimately show ?thesis using sink_tcp_counts [OF cf(2) sink] net by (auto simp: urgent_at_def)
qed

section \<open>loop\_udp\<close>

text \<open>
  The loop over datagrams. Its variable \<^verbatim>\<open>servaddr\<close> is local and hides the global one of that name: it has no value until a datagram has been received. \<open>u_dgrams\<close> are the datagrams sent, with
  the address for \<^verbatim>\<open>sendto\<close>; a connected socket has none. \<open>u_truncated\<close> counts the messages about truncated datagrams.
\<close>

record ust =
  u_l :: lst
  u_servaddr :: sockaddr
  u_dgrams :: "(sockaddr option \<times> string) list"
  u_truncated :: nat

record udround =
  ur_select :: "errno option"
  ur_in :: "(errno + string) option"
  ur_shut :: "errno option"
  ur_send :: "errno + nat"
  ur_sock :: "((errno + string) \<times> (errno + string \<times> sockaddr \<times> bool)) option"
  ur_outs :: "(nat \<Rightarrow> (errno + nat) list) \<times> (nat \<Rightarrow> (errno + nat) list)"

definition udp_to_sock :: "skcf \<Rightarrow> errno + nat \<Rightarrow> string \<Rightarrow> (lnext, ust) prog" where
  "udp_to_sock cf res d st =
     (case conv_add cf d of
        Inl f \<Rightarrow> Die f st
      | Inr (ntowrite, t) \<Rightarrow>
          if res \<noteq> Inr ntowrite
          then Die (Err_sys (if sk_connectudp cf then ''write error'' else ''sendto error'') (case res of Inl e \<Rightarrow> Some e | Inr k \<Rightarrow> None)) st
          else Ret L_on (st\<lparr>u_l := (u_l st)\<lparr>l_in := l_in (u_l st) @ d\<rparr>,
                            u_dgrams := u_dgrams st @ [(if sk_connectudp cf then None else Some (u_servaddr st), t)]\<rparr>))"

definition udp_stdin :: "skcf \<Rightarrow> udround \<Rightarrow> errno + string \<Rightarrow> (lnext, ust) prog" where
  "udp_stdin cf r x st =
     (case x of
        Inl e \<Rightarrow> Die (Err_sys ''read error from stdin'' (Some e)) st
      | Inr d \<Rightarrow>
          let d = take (sk_readlen cf) d
          in if d = []
             then if sk_halfclose cf
                  then (case ur_shut r of
                          Some e \<Rightarrow> Die (Err_sys ''shutdown() error'' (Some e)) st
                        | None \<Rightarrow> Ret L_continue (st\<lparr>u_l := (u_l st)\<lparr>l_fin := True, l_eof := True\<rparr>\<rparr>))
                  else Ret L_break st
             else udp_to_sock cf (ur_send r) d st)"

text \<open>Writing to standard output as in \<open>to_stdout\<close>, on the part of the state that it changes.\<close>

definition on_lst :: "('a, lst) prog \<Rightarrow> ('a, ust) prog" where
  "on_lst m st =
     (case m (u_l st) of
        Ret a l \<Rightarrow> Ret a (st\<lparr>u_l := l\<rparr>) | Die f l \<Rightarrow> Die f (st\<lparr>u_l := l\<rparr>) | Blocked l \<Rightarrow> Blocked (st\<lparr>u_l := l\<rparr>))"

definition udp_show :: "skcf \<Rightarrow> (64 word \<Rightarrow> char) \<Rightarrow> (nat \<Rightarrow> (errno + nat) list) \<Rightarrow> string \<Rightarrow> (lnext, ust) prog" where
  "udp_show cf beyond outs d = bindP (on_lst (to_stdout cf beyond outs d)) (\<lambda>_. returnP L_on)"

definition udp_sock :: "skcf \<Rightarrow> (64 word \<Rightarrow> char) \<Rightarrow> udround \<Rightarrow> (errno + string) \<times> (errno + string \<times> sockaddr \<times> bool) \<Rightarrow> (lnext, ust) prog" where
  "udp_sock cf beyond r x st =
     (if sk_server cf
      then (case snd x of
              Inl e \<Rightarrow> Die (Err_sys ''datagram receive error'' (Some e)) st
            | Inr (d, from, trunc) \<Rightarrow>
                udp_show cf beyond (fst (ur_outs r)) (take (sk_readlen cf) d) (st\<lparr>u_truncated := u_truncated st + (if trunc then 1 else 0)\<rparr>))
      else if sk_connectudp cf
      then on_lst (loop_sock cf beyond (fst x, map_sum id fst (snd x)) (ur_outs r)) st
      else (case snd x of
              Inl e \<Rightarrow> Die (Err_sys ''datagram recvfrom() error'' (Some e)) st
            | Inr (d, from, trunc) \<Rightarrow> udp_show cf beyond (fst (ur_outs r)) (take (sk_readlen cf) d) (st\<lparr>u_servaddr := from\<rparr>)))"

definition udp_round :: "skcf \<Rightarrow> (64 word \<Rightarrow> char) \<Rightarrow> udround \<Rightarrow> (lnext, ust) prog" where
  "udp_round cf beyond r st =
     (case ur_select r of
        Some e \<Rightarrow> Die (Err_sys ''select error'' (Some e)) st
      | None \<Rightarrow>
          bindP (case ur_in r of
                   Some x \<Rightarrow> if l_eof (u_l st) then returnP L_on else udp_stdin cf r x
                 | None \<Rightarrow> returnP L_on)
            (\<lambda>nx. if nx \<noteq> L_on then returnP nx
                  else case ur_sock r of None \<Rightarrow> returnP L_on | Some x \<Rightarrow> udp_sock cf beyond r x) st)"

fun loop_udp :: "skcf \<Rightarrow> (64 word \<Rightarrow> char) \<Rightarrow> errno option \<Rightarrow> udround list \<Rightarrow> (unit, ust) prog" where
  "loop_udp cf beyond cl [] st = Blocked st"
| "loop_udp cf beyond cl (r # rs) st =
     bindP (udp_round cf beyond r)
       (\<lambda>nx st. if nx = L_break
                then (case cl of Some e \<Rightarrow> Die (Err_sys ''close error'' (Some e)) st
                               | None \<Rightarrow> Ret () (st\<lparr>u_l := (u_l st)\<lparr>l_closed := True\<rparr>\<rparr>))
                else loop_udp cf beyond cl rs st) st"

text \<open>
  The first datagram of a client whose socket is not connected goes to the address that happens to be in the uninitialised variable, and not to the server.
\<close>

lemma loop_udp_uninitialised:
  assumes "\<not> sk_server cf" and "\<not> sk_connectudp cf" and "\<not> sk_crlf cf" and "ur_select r = None" and "ur_in r = Some (Inr d)" and "d \<noteq> []"
    and "length d \<le> sk_readlen cf" and "ur_send r = Inr (length d)" and "ur_sock r = None" and "\<not> l_eof (u_l st)"
  shows "udp_round cf beyond r st = Ret L_on (st\<lparr>u_l := (u_l st)\<lparr>l_in := l_in (u_l st) @ d\<rparr>, u_dgrams := u_dgrams st @ [(Some (u_servaddr st), d)]\<rparr>)"
  using assms by (simp add: udp_round_def udp_stdin_def udp_to_sock_def conv_add_def bindP_def returnP_def)

section \<open>Witnesses\<close>

definition sample_sk :: skcf where
  "sample_sk = \<lparr>sk_crlf = True, sk_halfclose = False, sk_msgpeek = False, sk_readlen = 1024, sk_writelen = 1024, sk_chunkwrite = True, sk_usewritev = False,
     sk_nbuf = 2, sk_urgwrite = 2, sk_ignorewerr = False, sk_connectudp = True, sk_server = False\<rparr>"

definition sample_round :: "(errno + string) option \<Rightarrow> (errno + string) option \<Rightarrow> lround" where
  "sample_round i s = \<lparr>lr_select = None, lr_in = i, lr_shut = None, lr_sock = map_option (\<lambda>x. (x, x)) s, lr_outs = (\<lambda>m. [Inr m], \<lambda>m. [Inr m])\<rparr>"

lemma stdout_ok_all: "stdout_ok (\<lambda>m. [Inr m])"
proof -
  have "takes_all [Inr m] m" for m by (cases m) simp_all
  then show ?thesis by (simp add: stdout_ok_def)
qed

definition sample_sent :: lst where
  "sample_sent = \<lparr>l_w = \<lparr>w_taken = [CHR ''h'', CR, NL], w_calls = 3\<rparr>, l_in = [CHR ''h'', NL], l_rcv = [], l_out = [], l_eof = False, l_fin = False, l_closed = True\<rparr>"

definition sample_shown :: lst where
  "sample_shown = \<lparr>l_w = \<lparr>w_taken = [], w_calls = 0\<rparr>, l_in = [], l_rcv = [CHR ''h'', CR, NL], l_out = [CHR ''h'', NL], l_eof = False, l_fin = False, l_closed = True\<rparr>"

lemma sample_sender:
  "loop_tcp sample_sk (\<lambda>k n. Inr n) (\<lambda>p. NUL) None [sample_round (Some (Inr [CHR ''h'', NL])) None, sample_round (Some (Inr [])) None] loop_start = Ret () sample_sent"
  by code_simp

lemma sample_receiver:
  "loop_tcp sample_sk (\<lambda>k n. Inr n) (\<lambda>p. NUL) None [sample_round None (Some (Inr [CHR ''h'', CR])), sample_round None (Some (Inr [NL])), sample_round None (Some (Inr []))] loop_start = Ret () sample_shown"
  by code_simp

theorem sock_pair_copies_witness:
  "\<exists>stA stB. loop_tcp sample_sk (\<lambda>k n. Inr n) (\<lambda>p. NUL) None [sample_round (Some (Inr [CHR ''h'', NL])) None, sample_round (Some (Inr [])) None] loop_start = Ret () stA \<and>
     loop_tcp sample_sk (\<lambda>k n. Inr n) (\<lambda>p. NUL) None [sample_round None (Some (Inr [CHR ''h'', CR])), sample_round None (Some (Inr [NL])), sample_round None (Some (Inr []))] loop_start = Ret () stB \<and>
     l_out stB = [CHR ''h'', NL]"
proof -
  have "l_out sample_shown = l_in sample_sent \<and> (l_fin sample_sent \<longleftrightarrow> l_eof sample_sent) \<and> (l_eof sample_sent \<longrightarrow> sk_halfclose sample_sk)"
    by (rule sock_pair_copies [OF _ _ _ _ _ disjI1 [OF sample_sender] disjI1 [OF sample_receiver]])
      (use stdout_ok_all in \<open>auto simp: kernel_ok_def sample_sk_def sample_round_def sample_sent_def sample_shown_def\<close>)
  then show ?thesis using sample_sender sample_receiver by (auto simp: sample_sent_def)
qed

theorem source_sink_counts_witness:
  "\<exists>st st'. source_tcp (sample_sk\<lparr>sk_writelen := 3\<rparr>) (\<lambda>k n. Inr n) None (\<lambda>i. None) None \<lparr>s_w = \<lparr>w_taken = [], w_calls = 0\<rparr>, s_urg = [], s_closed = False\<rparr> = Ret () st \<and>
     sink_tcp sample_sk None [(Inr [], Inr '' !''), (Inr [], Inr (CHR 0x22 # '' !'')), (Inr [], Inr [CHR 0x22]), (Inr [], Inr [])] \<lparr>k_bytes = 0, k_calls = 0, k_closed = False\<rparr> = Ret () st' \<and>
     k_bytes st' = 6 \<and> s_urg st = [(3, 2)]"
proof -
  let ?cf = "sample_sk\<lparr>sk_writelen := 3\<rparr>"
  let ?rs = "[(Inr [], Inr '' !''), (Inr [], Inr (CHR 0x22 # '' !'')), (Inr [], Inr [CHR 0x22]), (Inr [], Inr [])] :: ((errno + string) \<times> (errno + string)) list"
  let ?st = "\<lparr>s_w = \<lparr>w_taken = '' !'' @ [CHR 0x22] @ '' !'' @ [CHR 0x22], w_calls = 2\<rparr>, s_urg = [(3, 2)], s_closed = True\<rparr> :: sst"
  have st: "source_tcp ?cf (\<lambda>k n. Inr n) None (\<lambda>i. None) None \<lparr>s_w = \<lparr>w_taken = [], w_calls = 0\<rparr>, s_urg = [], s_closed = False\<rparr> = Ret () ?st" by code_simp
  have st': "sink_tcp sample_sk None ?rs \<lparr>k_bytes = 0, k_calls = 0, k_closed = False\<rparr> = Ret () \<lparr>k_bytes = 6, k_calls = 3, k_closed = True\<rparr>" by code_simp
  have "sink_data sample_sk ?rs = w_taken (s_w ?st)" by code_simp
  from source_sink_counts [OF _ _ _ st st' this] st st' show ?thesis by (auto simp: kernel_ok_def sample_sk_def)
qed

end
