(* ===== verification/Source_Route.thy ===== *)
theory Source_Route
  imports Net_Open
begin

text \<open>
  IP source routes: the functions of \<^verbatim>\<open>ipopts/sourceroute.c\<close> that build the option and print a received one, and those of \<^verbatim>\<open>sock/sourceroute.c\<close>
  that build it from the command line. Pointers into the option are offsets. The theorems: the option has the layout of the protocol, stays within its 44 bytes, an address too
  many is refused, and printing a received option gives back the addresses.
\<close>

section \<open>ipopts/sourceroute.c\<close>

definition IPOPT_EOL :: byte where "IPOPT_EOL = 0"
definition IPOPT_NOP :: byte where "IPOPT_NOP = 1"
definition IPOPT_LSRR :: byte where "IPOPT_LSRR = 131"
definition IPOPT_SSRR :: byte where "IPOPT_SSRR = 137"

lemmas ipopt_numbers = IPOPT_EOL_def IPOPT_NOP_def IPOPT_LSRR_def IPOPT_SSRR_def

text \<open>The block of 44 bytes, the offsets \<^verbatim>\<open>optr\<close> and \<^verbatim>\<open>lenptr\<close> into it, and the number of addresses.\<close>

record srcrt =
  sr_buf :: "byte list"
  sr_optr :: nat
  sr_lenptr :: nat
  sr_ocnt :: nat

definition inet_srcrt_init :: "bool \<Rightarrow> srcrt" where
  "inet_srcrt_init strict =
     (let b = replicate 44 IPOPT_EOL;
          b = b[0 := IPOPT_NOP];
          b = b[1 := (if strict then IPOPT_SSRR else IPOPT_LSRR)];
          b = b[3 := 4]
      in \<lparr>sr_buf = b, sr_optr = 4, sr_lenptr = 2, sr_ocnt = 0\<rparr>)"

text \<open>The address in a \<^verbatim>\<open>struct sockaddr_in\<close>; the resolver was asked for that family.\<close>

fun sin_addr :: "sockaddr \<Rightarrow> byte list" where
  "sin_addr (Sockaddr_in p a) = a"
| "sin_addr _ = []"

definition inet_srcrt_add :: "resolver \<Rightarrow> (nat \<Rightarrow> string) \<Rightarrow> string \<Rightarrow> (nat, srcrt) prog" where
  "inet_srcrt_add gai gai_strerror hostptr st =
     (if sr_ocnt st > 9 then Die (Err_quit (''too many source routes with: '' @ hostptr)) st
      else bindP (Host_serv gai gai_strerror (Some hostptr) None AF_INET SOCK_ANY)
        (\<lambda>(ai, more_ai) st.
           let b = blit (sr_buf st) (sr_optr st) (sin_addr (ai_addr ai));
               cnt = sr_ocnt st + 1;
               len = 3 + cnt * 4
           in Ret (len + 1) (st\<lparr>sr_buf := b[sr_lenptr st := of_nat len], sr_optr := sr_optr st + 4, sr_ocnt := cnt\<rparr>)) st)"

text \<open>
  \<^verbatim>\<open>inet_srcrt_print\<close> over the bytes of its argument; the output is a string. \<^verbatim>\<open>None\<close> is a read past the end of these bytes.
  The length byte minus 4 is computed as \<^verbatim>\<open>size_t\<close> and becomes negative again in the \<^verbatim>\<open>int\<close>.
\<close>

definition INET_ADDRSTRLEN :: nat where "INET_ADDRSTRLEN = 16"

function print_hops :: "ntop \<Rightarrow> byte list \<Rightarrow> int \<Rightarrow> string \<Rightarrow> (unit, string) outcome option" where
  "print_hops ntop ptr len out =
     (if len > 0
      then if length ptr < 4 then None
           else case Inet_ntop ntop AF_INET (take 4 ptr) True INET_ADDRSTRLEN out of
                  Ret s out' \<Rightarrow> print_hops ntop (drop 4 ptr) (len - 4) (out' @ s @ '' '')
                | Die f out' \<Rightarrow> Some (Die f out')
                | Blocked out' \<Rightarrow> Some (Blocked out')
      else Some (Ret () (out @ [CHR 0x0A])))"
  by pat_completeness auto
termination by (relation "measure (\<lambda>(ntop, ptr, len, out). nat len)") auto

declare print_hops.simps [simp del]

definition inet_srcrt_print :: "ntop \<Rightarrow> byte list \<Rightarrow> string \<Rightarrow> (unit, string) outcome option" where
  "inet_srcrt_print ntop opts out =
     (if length opts < 4 then None
      else case dropWhile (\<lambda>c. c = IPOPT_NOP) (drop 4 opts) of
             [] \<Rightarrow> None
           | c # ptr \<Rightarrow>
               if c = IPOPT_LSRR \<or> c = IPOPT_SSRR
               then let out = out @ (if c = IPOPT_LSRR then ''received LSRR: '' else ''received SSRR: '')
                    in case Inet_ntop ntop AF_INET (take 4 opts) True INET_ADDRSTRLEN out of
                         Ret s out' \<Rightarrow>
                           if length ptr < 2 then None
                           else print_hops ntop (drop 2 ptr) (int (unat (hd ptr)) - 4) (out' @ s @ '' '')
                       | Die f out' \<Rightarrow> Some (Die f out')
                       | Blocked out' \<Rightarrow> Some (Blocked out')
               else Some (Ret () (out @ ''received option type '' @ dec_nat (unat c) @ [CHR 0x0A])))"

section \<open>sock/sourceroute.c\<close>

text \<open>
  The option grows by \<^verbatim>\<open>sizeof(u_long)\<close> bytes for each address, which are copied from an object of 4 bytes; \<open>w\<close> is that size and \<open>beyond\<close> what lies behind the object. \<^verbatim>\<open>None\<close> is
  a write past the 44 bytes of the array.
\<close>

record sroute =
  sroute_opt :: "byte list"
  sroute_optr :: nat
  sroute_cnt :: nat

definition sroute_store :: "nat \<Rightarrow> byte list \<Rightarrow> byte list \<Rightarrow> sroute \<Rightarrow> sroute option" where
  "sroute_store w beyond a st =
     (if sroute_optr st + w > length (sroute_opt st) then None
      else Some (st\<lparr>sroute_opt := blit (sroute_opt st) (sroute_optr st) (take w (a @ beyond)), sroute_optr := sroute_optr st + w\<rparr>))"

definition sroute_first :: "bool \<Rightarrow> sroute \<Rightarrow> sroute" where
  "sroute_first strict st =
     (if sroute_cnt st = 0
      then st\<lparr>sroute_opt := (replicate 44 0)[0 := (if strict then IPOPT_SSRR else IPOPT_LSRR), 2 := 4], sroute_optr := 3\<rparr>
      else st)"

definition sroute_doopt :: "nat \<Rightarrow> byte list \<Rightarrow> (string \<Rightarrow> byte list option) \<Rightarrow> bool \<Rightarrow> string \<Rightarrow> sroute \<Rightarrow> (unit, sroute) outcome option" where
  "sroute_doopt w beyond gethostbyname strict argptr st =
     (if sroute_cnt st \<ge> 9 then Some (Die (Err_quit (''too many source routes with: '' @ argptr)) st)
      else let st1 = sroute_first strict st
           in case (case inet_aton argptr of Some a \<Rightarrow> Some a | None \<Rightarrow> gethostbyname argptr) of
                None \<Rightarrow> Some (Die (Err_quit (''unknown host: '' @ argptr @ [CHR 0x0A])) st1)
              | Some a \<Rightarrow> map_option (\<lambda>st2. Ret () (st2\<lparr>sroute_cnt := sroute_cnt st2 + 1\<rparr>)) (sroute_store w beyond a st1))"

text \<open>The result of \<^verbatim>\<open>sroute_set\<close> is what \<^verbatim>\<open>setsockopt\<close> is given.\<close>

definition pad4 :: "nat \<Rightarrow> nat" where
  "pad4 n = (n + 3) div 4 * 4"

definition sroute_set :: "nat \<Rightarrow> byte list \<Rightarrow> byte list \<Rightarrow> errno option \<Rightarrow> sroute \<Rightarrow> (byte list, sroute) outcome option" where
  "sroute_set w beyond dest err st =
     (let cnt = sroute_cnt st + 1
      in map_option
           (\<lambda>st1. let st2 = st1\<lparr>sroute_optr := pad4 (sroute_optr st1)\<rparr>
                  in case err of
                       Some e \<Rightarrow> Die (Err_sys ''setsockopt error for IP_OPTIONS'' (Some e)) st2
                     | None \<Rightarrow> Ret (take (sroute_optr st2) (sroute_opt st2)) (st2\<lparr>sroute_cnt := 0\<rparr>))
           (sroute_store w beyond dest (st\<lparr>sroute_cnt := cnt, sroute_opt := (sroute_opt st)[1 := of_nat (3 + cnt * 4)]\<rparr>)))"

section \<open>The option that is built\<close>

definition srr_type :: "bool \<Rightarrow> byte" where
  "srr_type strict = (if strict then IPOPT_SSRR else IPOPT_LSRR)"

text \<open>The state after the addresses \<open>as\<close> have been added; before the first the length byte is still 0.\<close>

definition route_st :: "bool \<Rightarrow> byte list list \<Rightarrow> srcrt" where
  "route_st strict as =
     \<lparr>sr_buf = [IPOPT_NOP, srr_type strict, (if as = [] then 0 else of_nat (3 + 4 * length as)), 4] @ concat as @ replicate (40 - 4 * length as) 0,
      sr_optr = 4 + 4 * length as, sr_lenptr = 2, sr_ocnt = length as\<rparr>"

text \<open>A loop that adds the hosts of a list, as the clients do for their options; the result is the size for \<^verbatim>\<open>setsockopt\<close>.\<close>

fun srcrt_adds :: "resolver \<Rightarrow> (nat \<Rightarrow> string) \<Rightarrow> string list \<Rightarrow> nat \<Rightarrow> (nat, srcrt) prog" where
  "srcrt_adds gai gai_strerror [] len st = Ret len st"
| "srcrt_adds gai gai_strerror (h # hs) len st = bindP (inet_srcrt_add gai gai_strerror h) (\<lambda>len'. srcrt_adds gai gai_strerror hs len') st"

text \<open>What is relied on of the resolver: asked for IPv4 addresses it returns one.\<close>

definition resolves :: "resolver \<Rightarrow> string \<Rightarrow> byte list \<Rightarrow> bool" where
  "resolves gai h a \<longleftrightarrow> length a = 4 \<and>
     (case gai (Some h) None \<lparr>h_canonname = True, h_passive = False, h_family = AF_INET, h_socktype = SOCK_ANY\<rparr> of
        Inl e \<Rightarrow> False | Inr (ai, rest) \<Rightarrow> sin_addr (ai_addr ai) = a)"

lemma length_concat_quads: "list_all (\<lambda>a. length a = 4) as \<Longrightarrow> length (concat as) = 4 * length as"
  by (induction as) auto

lemma inet_srcrt_init_route: "inet_srcrt_init strict = route_st strict []"
  by (simp add: inet_srcrt_init_def route_st_def srr_type_def ipopt_numbers numeral_eq_Suc)

lemma inet_srcrt_add_route:
  assumes "resolves gai h a" and "length as < 10" and "list_all (\<lambda>a. length a = 4) as"
  shows "inet_srcrt_add gai gs h (route_st strict as) = Ret (4 + 4 * Suc (length as)) (route_st strict (as @ [a]))"
proof -
  obtain ai rest where g: "gai (Some h) None \<lparr>h_canonname = True, h_passive = False, h_family = AF_INET, h_socktype = SOCK_ANY\<rparr> = Inr (ai, rest)"
    and a: "sin_addr (ai_addr ai) = a" "length a = 4"
    using assms(1) by (auto simp: resolves_def split: sum.splits)
  let ?h = "[IPOPT_NOP, srr_type strict, (if as = [] then 0 else of_nat (3 + 4 * length as)), 4] @ concat as"
  have "blit (?h @ replicate (40 - 4 * length as) 0 @ []) (4 + 4 * length as) a =
    ?h @ replicate 0 0 @ a @ replicate (40 - 4 * length as - 0 - 4) 0 @ []"
    using assms(2,3) a(2) blit_run [of ?h "4 + 4 * length as" "4 + 4 * length as" a "40 - 4 * length as" 0 "[]"] by (simp add: length_concat_quads)
  moreover have "40 - 4 * length as - 0 - 4 = 40 - 4 * length (as @ [a])" by simp
  ultimately have b: "blit (sr_buf (route_st strict as)) (4 + 4 * length as) a = ?h @ a @ replicate (40 - 4 * length (as @ [a])) 0"
    by (simp add: route_st_def)
  show ?thesis
    using assms(2) g a b by (simp add: inet_srcrt_add_def Host_serv_def bindP_def Let_def route_st_def numeral_2_eq_2 mult.commute)
qed

lemma srcrt_adds_route:
  assumes "list_all2 (resolves gai) hosts as" and "list_all (\<lambda>a. length a = 4) bs" and "length bs + length as \<le> 10"
  shows "srcrt_adds gai gs hosts len (route_st strict bs) =
    Ret (if as = [] then len else 4 + 4 * (length bs + length as)) (route_st strict (bs @ as))"
  using assms
proof (induction hosts as arbitrary: bs len rule: list_all2_induct)
  case (Cons h hs a as)
  have l: "length a = 4" using Cons.hyps by (simp add: resolves_def)
  from inet_srcrt_add_route [OF Cons.hyps(1), of bs gs strict] Cons.prems
  have "inet_srcrt_add gai gs h (route_st strict bs) = Ret (4 + 4 * Suc (length bs)) (route_st strict (bs @ [a]))" by simp
  with Cons.IH [of "bs @ [a]"] Cons.prems l show ?case by simp
qed simp

lemma inet_srcrt_add_full:
  "10 \<le> length as \<Longrightarrow> inet_srcrt_add gai gs h (route_st strict as) = Die (Err_quit (''too many source routes with: '' @ h)) (route_st strict as)"
  by (simp add: inet_srcrt_add_def route_st_def)

section \<open>Printing a received option\<close>

lemma Inet_ntop_dotted: "Inet_ntop inet_ntop AF_INET a True INET_ADDRSTRLEN w = Ret (dotted a) w"
  using length_dotted_le [of a] NUL_notin_dotted [of a]
  by (simp add: Inet_ntop_def inet_ntop_def inet_ntop4_def INET_ADDRSTRLEN_def)

lemma print_hops_quads:
  assumes "list_all (\<lambda>a. length a = 4) as" and "4 * int (length as) - 4 < len" and "len \<le> 4 * int (length as)"
  shows "print_hops inet_ntop (concat as @ rest) len out = Some (Ret () (out @ concat (map (\<lambda>a. dotted a @ '' '') as) @ [CHR 0x0A]))"
  using assms
proof (induction as arbitrary: len out)
  case Nil
  then show ?case by (subst print_hops.simps) simp
next
  case (Cons a as)
  then have "len > 0" "length a = 4" by auto
  with Cons show ?case by (subst print_hops.simps) (simp add: Inet_ntop_dotted)
qed

lemma inet_srcrt_print_route:
  assumes "list_all (\<lambda>a. length a = 4) as" and "as \<noteq> []" and "length as \<le> 10" and "length hop1 = 4"
  shows "inet_srcrt_print inet_ntop (hop1 @ [IPOPT_NOP, srr_type strict, of_nat (3 + 4 * length as), 4] @ concat as) out =
    Some (Ret () (out @ (if strict then ''received SSRR: '' else ''received LSRR: '') @ dotted hop1 @ '' '' @ concat (map (\<lambda>a. dotted a @ '' '') as) @ [CHR 0x0A]))"
proof -
  have "unat (of_nat (3 + 4 * length as) :: byte) = 3 + 4 * length as" using assms(3) by (simp add: unat_of_nat take_bit_nat_eq_self del: of_nat_add of_nat_mult)
  with print_hops_quads [OF assms(1), of "int (3 + 4 * length as) - 4" "[]"] assms(4) show ?thesis
    by (simp add: inet_srcrt_print_def srr_type_def ipopt_numbers Inet_ntop_dotted Let_def)
qed

text \<open>
  Source routes: the option built by \<^verbatim>\<open>inet_srcrt_init\<close> and up to ten calls of \<^verbatim>\<open>inet_srcrt_add\<close> has a no-operation byte, the type, the length, the offset of the first
  address and the addresses in order; the block keeps its 44 bytes, the rest of which ends the options; the size returned is that of the part in use; an eleventh address is
  refused; and \<^verbatim>\<open>inet_srcrt_print\<close> of such an option, received behind the address of the first hop, prints all of its addresses in order.
\<close>

theorem srcrt_build_print:
  assumes gai: "list_all2 (resolves gai) hosts as" and some: "as \<noteq> []" and ten: "length as \<le> 10" and hop: "length hop1 = 4"
  shows "\<exists>st. srcrt_adds gai gs hosts 0 (inet_srcrt_init strict) = Ret (4 + 4 * length as) st \<and> length (sr_buf st) = 44 \<and>
    take (4 + 4 * length as) (sr_buf st) = [IPOPT_NOP, srr_type strict, of_nat (3 + 4 * length as), 4] @ concat as \<and>
    set (drop (4 + 4 * length as) (sr_buf st)) \<subseteq> {IPOPT_EOL} \<and>
    (length as = 10 \<longrightarrow> (\<forall>h. inet_srcrt_add gai gs h st = Die (Err_quit (''too many source routes with: '' @ h)) st)) \<and>
    inet_srcrt_print inet_ntop (hop1 @ take (4 + 4 * length as) (sr_buf st)) out =
      Some (Ret () (out @ (if strict then ''received SSRR: '' else ''received LSRR: '') @ dotted hop1 @ '' '' @ concat (map (\<lambda>a. dotted a @ '' '') as) @ [CHR 0x0A]))"
proof -
  have quads: "list_all (\<lambda>a. length a = 4) as" using gai by (induction rule: list_all2_induct) (auto simp: resolves_def)
  let ?st = "route_st strict as"
  have "srcrt_adds gai gs hosts 0 (inet_srcrt_init strict) = Ret (4 + 4 * length as) ?st"
    using srcrt_adds_route [OF gai, of "[]" gs 0 strict] some ten by (simp add: inet_srcrt_init_route)
  moreover have b: "sr_buf ?st = ([IPOPT_NOP, srr_type strict, of_nat (3 + 4 * length as), 4] @ concat as) @ replicate (40 - 4 * length as) 0"
    using some by (simp add: route_st_def)
  moreover have "length ([IPOPT_NOP, srr_type strict, of_nat (3 + 4 * length as), 4] @ concat as) = 4 + 4 * length as"
    using length_concat_quads [OF quads] by simp
  ultimately show ?thesis
    using inet_srcrt_print_route [OF quads some ten hop] inet_srcrt_add_full [of as] ten
    by (intro exI [of _ ?st] conjI) (simp_all only: take_append drop_append length_append take_all drop_all length_replicate, auto simp: IPOPT_EOL_def)
qed

section \<open>The option of sock\<close>

text \<open>The state after the addresses \<open>as\<close>, with pointers of 4 bytes.\<close>

definition sroute_st :: "bool \<Rightarrow> byte list list \<Rightarrow> sroute" where
  "sroute_st strict as = \<lparr>sroute_opt = [srr_type strict, 0, 4] @ concat as @ replicate (41 - 4 * length as) 0, sroute_optr = 3 + 4 * length as, sroute_cnt = length as\<rparr>"

lemma sroute_store_4:
  assumes "length a = 4" and "length h = n" and "4 \<le> k" and "sroute_opt st = h @ replicate k 0" and "sroute_optr st = n"
  shows "sroute_store 4 beyond a st = Some (st\<lparr>sroute_opt := h @ a @ replicate (k - 4) 0, sroute_optr := n + 4\<rparr>)"
  using assms blit_run [of h n n a k 0 "[]"] by (simp add: sroute_store_def)

text \<open>The address that an argument stands for.\<close>

definition names :: "(string \<Rightarrow> byte list option) \<Rightarrow> string \<Rightarrow> byte list \<Rightarrow> bool" where
  "names hostbyname arg a \<longleftrightarrow> length a = 4 \<and> (inet_aton arg = Some a \<or> inet_aton arg = None \<and> hostbyname arg = Some a)"

lemma sroute_doopt_route:
  assumes "names hostbyname arg a" and "length as < 9" and "list_all (\<lambda>a. length a = 4) as" and "as = [] \<or> st = sroute_st strict as" and "sroute_cnt st = length as"
  shows "sroute_doopt 4 beyond hostbyname strict arg st = Some (Ret () (sroute_st strict (as @ [a])))"
proof -
  have st: "sroute_first strict st = sroute_st strict as"
  proof (cases "as = []")
    case True
    with assms(5) show ?thesis by (cases st) (simp add: sroute_first_def sroute_st_def srr_type_def numeral_eq_Suc)
  next
    case False
    with assms(4,5) show ?thesis by (simp add: sroute_first_def)
  qed
  have a: "length a = 4" "(case inet_aton arg of Some a \<Rightarrow> Some a | None \<Rightarrow> hostbyname arg) = Some a" using assms(1) by (auto simp: names_def)
  have "sroute_store 4 beyond a (sroute_st strict as) =
    Some ((sroute_st strict as)\<lparr>sroute_opt := ([srr_type strict, 0, 4] @ concat as) @ a @ replicate (41 - 4 * length as - 4) 0, sroute_optr := 3 + 4 * length as + 4\<rparr>)"
    using assms(2,3) by (intro sroute_store_4 a) (simp_all add: length_concat_quads sroute_st_def)
  with assms(2,5) a st show ?thesis by (simp add: sroute_doopt_def Let_def sroute_st_def)
qed

text \<open>
  With addresses of 4 bytes the option given to \<^verbatim>\<open>setsockopt\<close> holds the type, the length, the offset, the hops, the destination and one end of options; its size is a multiple of 4
  and at most 44.
\<close>

lemma sroute_set_option:
  assumes "length as \<le> 9" and "list_all (\<lambda>a. length a = 4) as" and "length dest = 4"
  shows "\<exists>st. sroute_set 4 beyond dest None (sroute_st strict as) =
    Some (Ret ([srr_type strict, of_nat (3 + 4 * Suc (length as)), 4] @ concat as @ dest @ [0]) st)"
proof -
  let ?n = "length as"
  let ?h = "[srr_type strict, of_nat (3 + 4 * Suc ?n), 4] @ concat as"
  let ?st = "(sroute_st strict as)\<lparr>sroute_cnt := Suc ?n, sroute_opt := (sroute_opt (sroute_st strict as))[1 := of_nat (3 + Suc ?n * 4)]\<rparr>"
  have "sroute_opt ?st = ?h @ replicate (41 - 4 * ?n) 0" by (simp add: sroute_st_def mult.commute)
  with assms have "sroute_store 4 beyond dest ?st = Some (?st\<lparr>sroute_opt := ?h @ dest @ replicate (41 - 4 * ?n - 4) 0, sroute_optr := 3 + 4 * ?n + 4\<rparr>)"
    by (intro sroute_store_4) (simp_all add: length_concat_quads sroute_st_def)
  moreover have "pad4 (3 + 4 * ?n + 4) = 8 + 4 * ?n" by (simp add: pad4_def)
  moreover have "take (8 + 4 * ?n) (?h @ dest @ replicate (41 - 4 * ?n - 4) 0) = ?h @ dest @ [0]"
    using assms by (simp add: length_concat_quads take_Cons')
  ultimately show ?thesis by (simp add: sroute_set_def Let_def sroute_st_def)
qed

text \<open>Where \<^verbatim>\<open>u_long\<close> has 8 bytes, the array is overrun by the sixth address.\<close>

lemma sroute_long_overrun:
  assumes "sroute_optr st = 3 + 8 * sroute_cnt st" and "length (sroute_opt st) = 44" and "5 \<le> sroute_cnt st"
  shows "sroute_set 8 beyond dest err st = None"
  using assms by (simp add: sroute_set_def sroute_store_def Let_def)

section \<open>Witness\<close>

definition sample_gai :: resolver where
  "sample_gai h s hi = (if h = Some ''gw'' then Inr (\<lparr>ai_family = AF_INET, ai_socktype = SOCK_STREAM, ai_protocol = 0, ai_addr = Sockaddr_in 0 [10, 0, 0, 1], ai_addrlen = 16\<rparr>, []) else Inl 8)"

theorem srcrt_build_print_witness:
  "\<exists>st. srcrt_adds sample_gai (\<lambda>_. []) [''gw'', ''gw''] 0 (inet_srcrt_init True) = Ret 12 st \<and>
    take 12 (sr_buf st) = [1, 137, 11, 4, 10, 0, 0, 1, 10, 0, 0, 1] \<and>
    inet_srcrt_print inet_ntop ([192, 168, 1, 2] @ take 12 (sr_buf st)) [] = Some (Ret () (''received SSRR: 192.168.1.2 10.0.0.1 10.0.0.1 '' @ [CHR 0x0A]))"
proof -
  have g: "list_all2 (resolves sample_gai) [''gw'', ''gw''] [[10, 0, 0, 1], [10, 0, 0, 1]]" by (simp add: resolves_def sample_gai_def)
  have d: "dotted [192, 168, 1, 2] = ''192.168.1.2''" "dotted [10, 0, 0, 1] = ''10.0.0.1''" by code_simp+
  have l: "[[10, 0, 0, 1], [10, 0, 0, 1]] \<noteq> ([] :: byte list list)" "length [[10, 0, 0, 1], [10, 0, 0, 1 :: byte]] \<le> 10" "length [192, 168, 1, 2 :: byte] = 4" by simp_all
  obtain st where st: "srcrt_adds sample_gai (\<lambda>_. []) [''gw'', ''gw''] 0 (inet_srcrt_init True) = Ret (4 + 4 * length [[10, 0, 0, 1], [10, 0, 0, 1 :: byte]]) st"
    "take (4 + 4 * length [[10, 0, 0, 1], [10, 0, 0, 1 :: byte]]) (sr_buf st) = [IPOPT_NOP, srr_type True, of_nat (3 + 4 * length [[10, 0, 0, 1], [10, 0, 0, 1 :: byte]]), 4] @ concat [[10, 0, 0, 1], [10, 0, 0, 1]]"
    "inet_srcrt_print inet_ntop ([192, 168, 1, 2] @ take (4 + 4 * length [[10, 0, 0, 1], [10, 0, 0, 1 :: byte]]) (sr_buf st)) [] =
      Some (Ret () ([] @ (if True then ''received SSRR: '' else ''received LSRR: '') @ dotted [192, 168, 1, 2] @ '' '' @ concat (map (\<lambda>a. dotted a @ '' '') [[10, 0, 0, 1], [10, 0, 0, 1]]) @ [CHR 0x0A]))"
    using srcrt_build_print [OF g l, of "\<lambda>_. []" True "[]"] by blast
  then show ?thesis by (intro exI [of _ st]) (simp add: d srr_type_def ipopt_numbers)
qed

end
