(* ===== verification/Sock_Open.thy ===== *)
theory Sock_Open
  imports Source_Route
begin

text \<open>
  How the traffic tool opens its socket: \<^verbatim>\<open>cliopen.c\<close>, \<^verbatim>\<open>servopen.c\<close>, \<^verbatim>\<open>buffers.c\<close>, \<^verbatim>\<open>sockopts.c\<close> and \<^verbatim>\<open>multicast.c\<close> of \<^verbatim>\<open>sock/\<close>. The state is the trace of the system calls that
  succeeded; the kernel decides each call from it, and what \<^verbatim>\<open>getsockopt\<close> returns. The theorems: with a kernel that keeps what it is told, \<^verbatim>\<open>sockopts\<close> makes exactly the requested calls and its
  checks succeed, except for a time to live that does not fit a byte; a client sets its buffers before it connects; a datagram server never gets the type of service and the time to live it was started with.
\<close>

section \<open>Calls\<close>

datatype sockopt =
    SO_DEBUG | SO_DONTROUTE | IP_TOS | IP_TTL | TCP_MAXSEG | IP_OPTIONS | SO_BROADCAST | IP_ONESBCAST | IP_ADD_MEMBERSHIP | IP_MULTICAST_TTL
  | SO_KEEPALIVE | TCP_NODELAY | SO_LINGER | SO_RCVTIMEO | SO_SNDTIMEO | IP_RECVDSTADDR | FIOASYNC | SO_RCVBUF | SO_SNDBUF | SO_REUSEADDR | SO_REUSEPORT

datatype optval = V_int int | V_linger int int | V_timeval int int | V_group "byte list" | V_bytes "byte list"

datatype sev = S_socket bool | S_set sockopt optval | S_bind sockaddr | S_connect sockaddr | S_listen int | S_accept | S_close_new | S_close_listen

record ost =
  o_trace :: "sev list"
  o_route :: "byte list option"

record okernel =
  k_call :: "sev list \<Rightarrow> sev \<Rightarrow> errno option"
  k_get :: "sev list \<Rightarrow> sockopt \<Rightarrow> errno + optval"

definition o_call :: "okernel \<Rightarrow> sev \<Rightarrow> string \<Rightarrow> (unit, ost) prog" where
  "o_call K e msg st =
     (case k_call K (o_trace st) e of
        Some er \<Rightarrow> Die (Err_sys msg (Some er)) st
      | None \<Rightarrow> Ret () (st\<lparr>o_trace := o_trace st @ [e]\<rparr>))"

definition whenP :: "bool \<Rightarrow> (unit, 'w) prog \<Rightarrow> (unit, 'w) prog" where
  "whenP b m = (if b then m else returnP ())"

fun seqP :: "(unit, 'w) prog list \<Rightarrow> (unit, 'w) prog" where
  "seqP [] = returnP ()"
| "seqP (m # ms) = bindP m (\<lambda>_. seqP ms)"

definition o_get :: "okernel \<Rightarrow> sockopt \<Rightarrow> string \<Rightarrow> (optval, ost) prog" where
  "o_get K opt name st =
     (case k_get K (o_trace st) opt of Inl e \<Rightarrow> Die (Err_sys (name @ '' getsockopt error'') (Some e)) st | Inr v \<Rightarrow> Ret v st)"

text \<open>Set an option, read it back, and quit unless the value passes the test.\<close>

definition o_checked :: "okernel \<Rightarrow> sockopt \<Rightarrow> optval \<Rightarrow> (optval \<Rightarrow> bool) \<Rightarrow> string \<Rightarrow> (unit, ost) prog" where
  "o_checked K opt v ok name =
     bindP (o_call K (S_set opt v) (name @ '' setsockopt error''))
       (\<lambda>_. bindP (o_get K opt name) (\<lambda>r. if ok r then returnP () else dieP (Err_quit (name @ '' not set''))))"

section \<open>sockopts\<close>

text \<open>The global variables set by the command line; \<open>o_joinip\<close> and the other addresses are strings, empty if not given.\<close>

record oconf =
  o_debug :: bool
  o_dontroute :: bool
  o_iptos :: int
  o_ipttl :: int
  o_maxseg :: int
  o_udp :: bool
  o_broadcast :: bool
  o_onesbcast :: bool
  o_joinip :: string
  o_mcastttl :: int
  o_keepalive :: bool
  o_nodelay :: bool
  o_linger :: int
  o_rcvtimeo :: int
  o_sndtimeo :: int
  o_recvdstaddr :: bool
  o_sigio :: bool
  o_rcvbuflen :: int
  o_sndbuflen :: int
  o_reuseaddr :: bool
  o_reuseport :: bool
  o_bindport :: int
  o_localip :: string
  o_foreignip :: string
  o_foreignport :: int
  o_connectudp :: bool
  o_listenq :: int
  o_dofork :: bool

definition nonzero :: "optval \<Rightarrow> bool" where
  "nonzero v \<longleftrightarrow> v \<noteq> V_int 0"

definition opt_flag :: "okernel \<Rightarrow> sockopt \<Rightarrow> string \<Rightarrow> (unit, ost) prog" where
  "opt_flag K opt name = o_checked K opt (V_int 1) nonzero name"

definition opt_debug where "opt_debug K cf = whenP (o_debug cf) (opt_flag K SO_DEBUG ''SO_DEBUG'')"

definition opt_dontroute where "opt_dontroute K cf = whenP (o_dontroute cf) (opt_flag K SO_DONTROUTE ''SO_DONTROUTE'')"

definition opt_tos where
  "opt_tos K cf doall = whenP (o_iptos cf \<noteq> -1 \<and> \<not> doall) (o_checked K IP_TOS (V_int (o_iptos cf)) (\<lambda>v. v = V_int (o_iptos cf)) ''IP_TOS'')"

definition opt_ttl where
  "opt_ttl K cf doall = whenP (o_ipttl cf \<noteq> -1 \<and> \<not> doall) (o_checked K IP_TTL (V_int (o_ipttl cf)) (\<lambda>v. v = V_int (o_ipttl cf)) ''IP_TTL'')"

definition opt_maxseg where
  "opt_maxseg K cf = whenP (o_maxseg cf \<noteq> 0 \<and> \<not> o_udp cf) (o_checked K TCP_MAXSEG (V_int (o_maxseg cf)) (\<lambda>v. True) ''TCP_MAXSEG'')"

text \<open>\<^verbatim>\<open>sroute_set\<close> (theory \<open>Source_Route\<close>) gives the option to the kernel once.\<close>

definition opt_route :: "okernel \<Rightarrow> (unit, ost) prog" where
  "opt_route K st =
     (case o_route st of
        None \<Rightarrow> Ret () st
      | Some r \<Rightarrow> bindP (o_call K (S_set IP_OPTIONS (V_bytes r)) ''setsockopt error for IP_OPTIONS'') (\<lambda>_ st. Ret () (st\<lparr>o_route := None\<rparr>)) st)"

definition opt_broadcast where
  "opt_broadcast K cf = whenP (o_broadcast cf) (seqP [opt_flag K SO_BROADCAST ''SO_BROADCAST'', whenP (o_onesbcast cf) (opt_flag K IP_ONESBCAST ''IP_ONESBCAST'')])"

definition opt_join where
  "opt_join K cf = whenP (o_joinip cf \<noteq> [])
     (case inet_aton (o_joinip cf) of
        None \<Rightarrow> dieP (Err_quit (''invalid multicast address: '' @ o_joinip cf))
      | Some a \<Rightarrow> o_call K (S_set IP_ADD_MEMBERSHIP (V_group a)) ''IP_ADD_MEMBERSHIP setsockopt error'')"

text \<open>The value goes through a byte and is compared with the argument.\<close>

definition opt_mttl where
  "opt_mttl K cf = whenP (o_mcastttl cf \<noteq> 0)
     (o_checked K IP_MULTICAST_TTL (V_int (o_mcastttl cf mod 256)) (\<lambda>v. v = V_int (o_mcastttl cf)) ''IP_MULTICAST_TTL'')"

definition opt_keepalive where
  "opt_keepalive K cf doall = whenP (o_keepalive cf \<and> doall \<and> \<not> o_udp cf) (opt_flag K SO_KEEPALIVE ''SO_KEEPALIVE'')"

definition opt_nodelay where
  "opt_nodelay K cf doall = whenP (o_nodelay cf \<and> doall \<and> \<not> o_udp cf) (opt_flag K TCP_NODELAY ''TCP_NODELAY'')"

definition opt_linger where
  "opt_linger K cf doall = whenP (0 \<le> o_linger cf \<and> doall \<and> \<not> o_udp cf)
     (o_checked K SO_LINGER (V_linger 1 (o_linger cf)) (\<lambda>v. case v of V_linger on t \<Rightarrow> on \<noteq> 0 \<and> t = o_linger cf | _ \<Rightarrow> False) ''SO_LINGER'')"

text \<open>Milliseconds to seconds and microseconds, with the division of C.\<close>

definition ms_timeval :: "int \<Rightarrow> optval" where
  "ms_timeval ms = V_timeval (sgn ms * (\<bar>ms\<bar> div 1000)) (sgn ms * (\<bar>ms\<bar> mod 1000) * 1000)"

definition opt_rcvtimeo where
  "opt_rcvtimeo K cf doall = whenP (doall \<and> o_rcvtimeo cf \<noteq> 0) (o_checked K SO_RCVTIMEO (ms_timeval (o_rcvtimeo cf)) (\<lambda>v. True) ''SO_RCVTIMEO'')"

definition opt_sndtimeo where
  "opt_sndtimeo K cf doall = whenP (doall \<and> o_sndtimeo cf \<noteq> 0) (o_checked K SO_SNDTIMEO (ms_timeval (o_sndtimeo cf)) (\<lambda>v. True) ''SO_SNDTIMEO'')"

definition opt_recvdst where
  "opt_recvdst K cf = whenP (o_recvdstaddr cf \<and> o_udp cf) (opt_flag K IP_RECVDSTADDR ''IP_RECVDSTADDR'')"

definition opt_sigio where
  "opt_sigio K cf = whenP (o_sigio cf) (o_call K (S_set FIOASYNC (V_int 1)) ''ioctl FIOASYNC error'')"

definition sockopts :: "okernel \<Rightarrow> oconf \<Rightarrow> bool \<Rightarrow> (unit, ost) prog" where
  "sockopts K cf doall = seqP
     [opt_debug K cf, opt_dontroute K cf, opt_tos K cf doall, opt_ttl K cf doall, opt_maxseg K cf, opt_route K, opt_broadcast K cf, opt_join K cf,
      opt_mttl K cf, opt_keepalive K cf doall, opt_nodelay K cf doall, opt_linger K cf doall, opt_rcvtimeo K cf doall, opt_sndtimeo K cf doall,
      opt_recvdst K cf, opt_sigio K cf]"

section \<open>buffers, join\_mcast\<close>

text \<open>The allocation of \<^verbatim>\<open>rbuf\<close> and \<^verbatim>\<open>wbuf\<close> is left out.\<close>

definition buffers :: "okernel \<Rightarrow> oconf \<Rightarrow> (unit, ost) prog" where
  "buffers K cf = seqP
     [whenP (o_rcvbuflen cf \<noteq> 0) (o_checked K SO_RCVBUF (V_int (o_rcvbuflen cf)) (\<lambda>v. v = V_int (o_rcvbuflen cf)) ''SO_RCVBUF''),
      whenP (o_sndbuflen cf \<noteq> 0) (o_checked K SO_SNDBUF (V_int (o_sndbuflen cf)) (\<lambda>v. v = V_int (o_sndbuflen cf)) ''SO_SNDBUF'')]"

text \<open>\<^verbatim>\<open>IN_MULTICAST\<close> looks at the upper bits of the number that the address is in memory: those of its last byte where the low byte comes first.\<close>

definition IN_MULTICAST :: "byte list \<Rightarrow> bool" where
  "IN_MULTICAST a \<longleftrightarrow> and (a ! 3) 0xf0 = 0xe0"

definition join_mcast :: "okernel \<Rightarrow> sockaddr \<Rightarrow> (unit, ost) prog" where
  "join_mcast K sa = whenP (IN_MULTICAST (sin_addr sa)) (o_call K (S_set IP_ADD_MEMBERSHIP (V_group (sin_addr sa))) ''IP_ADD_MEMBERSHIP error'')"

section \<open>cliopen\<close>

definition isspace :: "char \<Rightarrow> bool" where
  "isspace c \<longleftrightarrow> c \<in> set ('' '' @ map char_of [9, 10, 11, 12, 13 :: nat])"

definition digits_value :: "string \<Rightarrow> int" where
  "digits_value s = foldl (\<lambda>v c. 10 * v + int (of_char c - 48)) 0 (takeWhile (\<lambda>c. 48 \<le> (of_char c :: nat) \<and> (of_char c :: nat) \<le> 57) s)"

definition atoi :: "string \<Rightarrow> int" where
  "atoi s =
     (case dropWhile isspace s of
        [] \<Rightarrow> 0
      | c # t \<Rightarrow> if c = CHR ''-'' then - digits_value t else if c = CHR ''+'' then digits_value t else digits_value (c # t))"

text \<open>The databases of names: services (for the protocol) and hosts.\<close>

record onames =
  n_serv :: "string \<Rightarrow> bool \<Rightarrow> 16 word option"
  n_host :: "string \<Rightarrow> byte list option"

definition htons_int :: "int \<Rightarrow> 16 word" where
  "htons_int i = ntohs (of_int i)"

definition cli_port :: "onames \<Rightarrow> oconf \<Rightarrow> string \<Rightarrow> fatal + 16 word" where
  "cli_port N cf port =
     (if atoi port = 0
      then (case n_serv N port (o_udp cf) of
              None \<Rightarrow> Inl (Err_quit (''getservbyname() error for: '' @ port @ ''/'' @ (if o_udp cf then ''udp'' else ''tcp'')))
            | Some p \<Rightarrow> Inr p)
      else Inr (htons_int (atoi port)))"

definition cli_addr :: "onames \<Rightarrow> string \<Rightarrow> fatal + byte list" where
  "cli_addr N host =
     (case inet_aton host of
        Some a \<Rightarrow> Inr a
      | None \<Rightarrow> (case n_host N host of Some a \<Rightarrow> Inr a | None \<Rightarrow> Inl (Err_quit (''invalid hostname: '' @ host))))"

definition cli_bind :: "okernel \<Rightarrow> oconf \<Rightarrow> (unit, ost) prog" where
  "cli_bind K cf = whenP (o_bindport cf \<noteq> 0 \<or> o_localip cf \<noteq> [] \<or> o_udp cf)
     (case (if o_localip cf = [] then Some [0, 0, 0, 0] else inet_aton (o_localip cf)) of
        None \<Rightarrow> dieP (Err_quit (''invalid IP address: '' @ o_localip cf))
      | Some a \<Rightarrow> o_call K (S_bind (Sockaddr_in (htons_int (o_bindport cf)) a)) ''bind() error'')"

abbreviation EISCONN :: errno where "EISCONN \<equiv> EOTHER 106"

text \<open>The loop around \<^verbatim>\<open>connect\<close>, over what it returns.\<close>

fun connect_loop :: "sockaddr \<Rightarrow> errno option list \<Rightarrow> (unit, ost) prog" where
  "connect_loop sa [] st = Blocked st"
| "connect_loop sa (None # rs) st = Ret () (st\<lparr>o_trace := o_trace st @ [S_connect sa]\<rparr>)"
| "connect_loop sa (Some e # rs) st =
     (if e = EINTR then connect_loop sa rs st
      else if e = EISCONN then Ret () (st\<lparr>o_trace := o_trace st @ [S_connect sa]\<rparr>)
      else Die (Err_sys ''connect() error'' (Some e)) st)"

definition cliopen :: "okernel \<Rightarrow> onames \<Rightarrow> oconf \<Rightarrow> string \<Rightarrow> string \<Rightarrow> errno option list \<Rightarrow> (unit, ost) prog" where
  "cliopen K N cf host port conn =
     (case cli_port N cf port of
        Inl f \<Rightarrow> dieP f
      | Inr p \<Rightarrow>
          (case cli_addr N host of
             Inl f \<Rightarrow> dieP f
           | Inr a \<Rightarrow> seqP
               [o_call K (S_socket (o_udp cf)) ''socket() error'',
                whenP (o_reuseaddr cf) (o_call K (S_set SO_REUSEADDR (V_int 1)) ''setsockopt of SO_REUSEADDR error''),
                whenP (o_reuseport cf) (o_call K (S_set SO_REUSEPORT (V_int 1)) ''setsockopt of SO_REUSEPORT error''),
                cli_bind K cf,
                buffers K cf,
                sockopts K cf False,
                whenP (\<not> o_udp cf \<or> o_connectudp cf) (connect_loop (Sockaddr_in p a) conn),
                sockopts K cf True]))"

section \<open>servopen\<close>

text \<open>
  What a turn of the accept loop meets: the result of \<^verbatim>\<open>accept\<close> and, for a concurrent server, that of \<^verbatim>\<open>fork\<close>, which is \<open>True\<close> in the parent. The parent goes on with the next turn
  (theory \<open>Tell_Wait\<close> has its handshake); the child and an iterative server return with the connection.
\<close>

type_synonym turn = "errno option \<times> (errno + bool)"

fun accept_loop :: "okernel \<Rightarrow> oconf \<Rightarrow> turn list \<Rightarrow> (unit, ost) prog" where
  "accept_loop K cf [] st = Blocked st"
| "accept_loop K cf ((acc, frk) # ts) st =
     (case acc of
        Some e \<Rightarrow> Die (Err_sys ''accept() error'' (Some e)) st
      | None \<Rightarrow>
          let st1 = st\<lparr>o_trace := o_trace st @ [S_accept]\<rparr>; serve = seqP [buffers K cf, sockopts K cf True]
          in if o_dofork cf
             then (case frk of
                     Inl e \<Rightarrow> Die (Err_sys ''fork error'' (Some e)) st1
                   | Inr True \<Rightarrow> accept_loop K cf ts (st1\<lparr>o_trace := o_trace st1 @ [S_close_new]\<rparr>)
                   | Inr False \<Rightarrow> serve (st1\<lparr>o_trace := o_trace st1 @ [S_close_listen]\<rparr>))
             else serve st1)"

text \<open>
  The port: when the name of the service is unknown, the function prints a message and goes on to use the null pointer; this is \<open>None\<close>.
\<close>

definition serv_port_of :: "onames \<Rightarrow> oconf \<Rightarrow> string \<Rightarrow> 16 word option" where
  "serv_port_of N cf port = (if atoi port = 0 then n_serv N port (o_udp cf) else Some (htons_int (atoi port)))"

definition serv_foreign :: "okernel \<Rightarrow> oconf \<Rightarrow> (unit, ost) prog" where
  "serv_foreign K cf = whenP (o_foreignip cf \<noteq> [])
     (case inet_aton (o_foreignip cf) of
        None \<Rightarrow> dieP (Err_quit (''invalid IP address: '' @ o_foreignip cf))
      | Some a \<Rightarrow> o_call K (S_connect (Sockaddr_in (htons_int (o_foreignport cf)) a)) ''connect() error'')"

definition servopen :: "okernel \<Rightarrow> onames \<Rightarrow> oconf \<Rightarrow> string option \<Rightarrow> string \<Rightarrow> turn list \<Rightarrow> ost \<Rightarrow> (unit, ost) outcome option" where
  "servopen K N cf host port turns st =
     (case (case host of None \<Rightarrow> Some [0, 0, 0, 0] | Some h \<Rightarrow> inet_aton h) of
        None \<Rightarrow> Some (Die (Err_quit (''invalid host name for server: '' @ the host)) st)
      | Some a \<Rightarrow>
          (case serv_port_of N cf port of
             None \<Rightarrow> None
           | Some p \<Rightarrow> Some (seqP
               ([o_call K (S_socket (o_udp cf)) ''socket() error'',
                 whenP (o_reuseaddr cf) (o_call K (S_set SO_REUSEADDR (V_int 1)) ''setsockopt of SO_REUSEADDR error''),
                 whenP (o_reuseport cf) (o_call K (S_set SO_REUSEPORT (V_int 1)) ''setsockopt of SO_REUSEPORT error''),
                 o_call K (S_bind (Sockaddr_in p a)) ''can't bind local address'',
                 join_mcast K (Sockaddr_in p a)] @
                (if o_udp cf then [buffers K cf, serv_foreign K cf, sockopts K cf True]
                 else [buffers K cf, sockopts K cf False, \<lambda>st. Ret () (st\<lparr>o_trace := o_trace st @ [S_listen (o_listenq cf)]\<rparr>), accept_loop K cf turns])) st)))"

section \<open>What the calls add to the trace\<close>

text \<open>A kernel that accepts every call and returns what was set last.\<close>

definition faithful :: "okernel \<Rightarrow> bool" where
  "faithful K \<longleftrightarrow> (\<forall>tr e. k_call K tr e = None) \<and> (\<forall>tr opt v. k_get K (tr @ [S_set opt v]) opt = Inr v)"

definition adds :: "(unit, ost) prog \<Rightarrow> sev list \<Rightarrow> bool" where
  "adds m es \<longleftrightarrow> (\<forall>st. m st = Ret () (st\<lparr>o_trace := o_trace st @ es\<rparr>))"

named_theorems adds_intro

lemma adds_whenP [adds_intro]: "(b \<Longrightarrow> adds m es) \<Longrightarrow> adds (whenP b m) (if b then es else [])"
  by (simp add: adds_def whenP_def returnP_def)

lemma adds_seqP_Nil [adds_intro]: "adds (seqP []) []"
  by (simp add: adds_def returnP_def)

lemma adds_seqP_Cons [adds_intro]: "adds m es \<Longrightarrow> adds (seqP ms) fs \<Longrightarrow> adds (seqP (m # ms)) (es @ fs)"
  by (simp add: adds_def bindP_def)

lemma adds_call [adds_intro]: "faithful K \<Longrightarrow> adds (o_call K e msg) [e]"
  by (simp add: adds_def o_call_def faithful_def)

lemma adds_checked [adds_intro]: "faithful K \<Longrightarrow> ok v \<Longrightarrow> adds (o_checked K opt v ok name) [S_set opt v]"
  by (simp add: adds_def o_checked_def o_call_def o_get_def faithful_def bindP_def returnP_def)

lemma adds_flag [adds_intro]: "faithful K \<Longrightarrow> adds (opt_flag K opt name) [S_set opt (V_int 1)]"
  unfolding opt_flag_def by (intro adds_intro) (simp_all add: nonzero_def)

text \<open>The calls that the configuration asks for, before and after the source route.\<close>

definition opt_on :: "bool \<Rightarrow> sockopt \<Rightarrow> optval \<Rightarrow> sev list" where
  "opt_on b opt v = (if b then [S_set opt v] else [])"

definition requested1 :: "oconf \<Rightarrow> bool \<Rightarrow> sev list" where
  "requested1 cf doall =
     opt_on (o_debug cf) SO_DEBUG (V_int 1) @ opt_on (o_dontroute cf) SO_DONTROUTE (V_int 1) @
     opt_on (o_iptos cf \<noteq> -1 \<and> \<not> doall) IP_TOS (V_int (o_iptos cf)) @ opt_on (o_ipttl cf \<noteq> -1 \<and> \<not> doall) IP_TTL (V_int (o_ipttl cf)) @
     opt_on (o_maxseg cf \<noteq> 0 \<and> \<not> o_udp cf) TCP_MAXSEG (V_int (o_maxseg cf))"

definition requested2 :: "oconf \<Rightarrow> bool \<Rightarrow> sev list" where
  "requested2 cf doall =
     opt_on (o_broadcast cf) SO_BROADCAST (V_int 1) @ opt_on (o_broadcast cf \<and> o_onesbcast cf) IP_ONESBCAST (V_int 1) @
     opt_on (o_joinip cf \<noteq> []) IP_ADD_MEMBERSHIP (V_group (the (inet_aton (o_joinip cf)))) @ opt_on (o_mcastttl cf \<noteq> 0) IP_MULTICAST_TTL (V_int (o_mcastttl cf)) @
     opt_on (o_keepalive cf \<and> doall \<and> \<not> o_udp cf) SO_KEEPALIVE (V_int 1) @ opt_on (o_nodelay cf \<and> doall \<and> \<not> o_udp cf) TCP_NODELAY (V_int 1) @
     opt_on (0 \<le> o_linger cf \<and> doall \<and> \<not> o_udp cf) SO_LINGER (V_linger 1 (o_linger cf)) @
     opt_on (doall \<and> o_rcvtimeo cf \<noteq> 0) SO_RCVTIMEO (ms_timeval (o_rcvtimeo cf)) @ opt_on (doall \<and> o_sndtimeo cf \<noteq> 0) SO_SNDTIMEO (ms_timeval (o_sndtimeo cf)) @
     opt_on (o_recvdstaddr cf \<and> o_udp cf) IP_RECVDSTADDR (V_int 1) @ opt_on (o_sigio cf) FIOASYNC (V_int 1)"

lemma adds_broadcast:
  assumes "faithful K"
  shows "adds (opt_broadcast K cf) (opt_on (o_broadcast cf) SO_BROADCAST (V_int 1) @ opt_on (o_broadcast cf \<and> o_onesbcast cf) IP_ONESBCAST (V_int 1))"
proof -
  have "adds (opt_broadcast K cf) (if o_broadcast cf then [S_set SO_BROADCAST (V_int 1)] @ (if o_onesbcast cf then [S_set IP_ONESBCAST (V_int 1)] else []) @ [] else [])"
    unfolding opt_broadcast_def using assms by (intro adds_intro)
  then show ?thesis by (simp add: opt_on_def split: if_splits)
qed

lemma sockopts_first:
  assumes "faithful K"
  shows "adds (seqP [opt_debug K cf, opt_dontroute K cf, opt_tos K cf doall, opt_ttl K cf doall, opt_maxseg K cf]) (requested1 cf doall)"
proof -
  have "adds (seqP [opt_debug K cf, opt_dontroute K cf, opt_tos K cf doall, opt_ttl K cf doall, opt_maxseg K cf]) (requested1 cf doall @ [])"
    unfolding requested1_def append_assoc opt_debug_def opt_dontroute_def opt_tos_def opt_ttl_def opt_maxseg_def opt_on_def
    using assms by (intro adds_intro) simp_all
  then show ?thesis by simp
qed

lemma sockopts_last:
  assumes "faithful K" and "o_joinip cf \<noteq> [] \<longrightarrow> inet_aton (o_joinip cf) \<noteq> None" and "0 \<le> o_mcastttl cf" and "o_mcastttl cf < 256"
  shows "adds (seqP [opt_broadcast K cf, opt_join K cf, opt_mttl K cf, opt_keepalive K cf doall, opt_nodelay K cf doall, opt_linger K cf doall,
    opt_rcvtimeo K cf doall, opt_sndtimeo K cf doall, opt_recvdst K cf, opt_sigio K cf]) (requested2 cf doall)"
proof -
  have join: "adds (opt_join K cf) (opt_on (o_joinip cf \<noteq> []) IP_ADD_MEMBERSHIP (V_group (the (inet_aton (o_joinip cf)))))"
  proof (cases "o_joinip cf = []")
    case True
    then show ?thesis by (simp add: opt_join_def opt_on_def whenP_def adds_def returnP_def)
  next
    case False
    with assms(2) obtain a where "inet_aton (o_joinip cf) = Some a" by blast
    with False adds_call [OF assms(1)] show ?thesis by (simp add: opt_join_def opt_on_def whenP_def)
  qed
  have mod: "o_mcastttl cf mod 256 = o_mcastttl cf" using assms(3,4) by simp
  have "adds (seqP [opt_broadcast K cf, opt_join K cf, opt_mttl K cf, opt_keepalive K cf doall, opt_nodelay K cf doall, opt_linger K cf doall,
    opt_rcvtimeo K cf doall, opt_sndtimeo K cf doall, opt_recvdst K cf, opt_sigio K cf])
    ((opt_on (o_broadcast cf) SO_BROADCAST (V_int 1) @ opt_on (o_broadcast cf \<and> o_onesbcast cf) IP_ONESBCAST (V_int 1)) @
     opt_on (o_joinip cf \<noteq> []) IP_ADD_MEMBERSHIP (V_group (the (inet_aton (o_joinip cf)))) @
     (if o_mcastttl cf \<noteq> 0 then [S_set IP_MULTICAST_TTL (V_int (o_mcastttl cf mod 256))] else []) @
     (if o_keepalive cf \<and> doall \<and> \<not> o_udp cf then [S_set SO_KEEPALIVE (V_int 1)] else []) @
     (if o_nodelay cf \<and> doall \<and> \<not> o_udp cf then [S_set TCP_NODELAY (V_int 1)] else []) @
     (if 0 \<le> o_linger cf \<and> doall \<and> \<not> o_udp cf then [S_set SO_LINGER (V_linger 1 (o_linger cf))] else []) @
     (if doall \<and> o_rcvtimeo cf \<noteq> 0 then [S_set SO_RCVTIMEO (ms_timeval (o_rcvtimeo cf))] else []) @
     (if doall \<and> o_sndtimeo cf \<noteq> 0 then [S_set SO_SNDTIMEO (ms_timeval (o_sndtimeo cf))] else []) @
     (if o_recvdstaddr cf \<and> o_udp cf then [S_set IP_RECVDSTADDR (V_int 1)] else []) @
     (if o_sigio cf then [S_set FIOASYNC (V_int 1)] else []) @ [])"
    unfolding opt_mttl_def opt_keepalive_def opt_nodelay_def opt_linger_def opt_rcvtimeo_def opt_sndtimeo_def opt_recvdst_def opt_sigio_def
    using assms(1) mod by (intro adds_intro adds_broadcast join) simp_all
  then show ?thesis unfolding mod requested2_def append_assoc append_Nil2 opt_on_def .
qed

lemma seqP_append: "seqP (ms @ ns) = bindP (seqP ms) (\<lambda>_. seqP ns)"
  by (induction ms) (auto simp: fun_eq_iff bindP_def returnP_def split: outcome.splits)

text \<open>
  \<^verbatim>\<open>sockopts\<close> with a kernel that accepts and keeps what it is told: it makes exactly the calls that the command line asks for, in the order of the code, all its checks
  succeed, and the source route is given to the kernel once.
\<close>

theorem sockopts_requested:
  assumes "faithful K" and "o_joinip cf \<noteq> [] \<longrightarrow> inet_aton (o_joinip cf) \<noteq> None" and "0 \<le> o_mcastttl cf" and "o_mcastttl cf < 256"
  shows "sockopts K cf doall st =
    Ret () (st\<lparr>o_trace := o_trace st @ requested1 cf doall @ (case o_route st of None \<Rightarrow> [] | Some r \<Rightarrow> [S_set IP_OPTIONS (V_bytes r)]) @ requested2 cf doall,
               o_route := None\<rparr>)"
proof -
  have r: "opt_route K st = Ret () (st\<lparr>o_trace := o_trace st @ (case o_route st of None \<Rightarrow> [] | Some r \<Rightarrow> [S_set IP_OPTIONS (V_bytes r)]), o_route := None\<rparr>)" for st
    using assms(1) by (cases "o_route st") (simp_all add: opt_route_def o_call_def faithful_def bindP_def)
  have "sockopts K cf doall = seqP ([opt_debug K cf, opt_dontroute K cf, opt_tos K cf doall, opt_ttl K cf doall, opt_maxseg K cf] @ [opt_route K] @
    [opt_broadcast K cf, opt_join K cf, opt_mttl K cf, opt_keepalive K cf doall, opt_nodelay K cf doall, opt_linger K cf doall,
    opt_rcvtimeo K cf doall, opt_sndtimeo K cf doall, opt_recvdst K cf, opt_sigio K cf])" by (simp add: sockopts_def)
  with sockopts_first [OF assms(1), of cf doall] sockopts_last [OF assms, of doall] r show ?thesis
    unfolding seqP_append adds_def by (simp add: bindP_def returnP_def)
qed

text \<open>A time to live that does not fit into a byte ends the program, even if the kernel does what it is told.\<close>

lemma opt_mttl_overflow:
  assumes "faithful K" and "256 \<le> o_mcastttl cf"
  shows "\<exists>st'. opt_mttl K cf st = Die (Err_quit ''IP_MULTICAST_TTL not set'') st'"
proof -
  have "o_mcastttl cf mod 256 < 256" by simp
  with assms(2) have "o_mcastttl cf mod 256 \<noteq> o_mcastttl cf" by linarith
  with assms show ?thesis by (simp add: opt_mttl_def whenP_def o_checked_def o_call_def o_get_def faithful_def bindP_def dieP_def)
qed

text \<open>The test for a multicast address looks at the wrong end: the group of all hosts is not one, and an ordinary address is.\<close>

lemma IN_MULTICAST_reversed: "\<not> IN_MULTICAST [224, 0, 0, 1]" "IN_MULTICAST [10, 0, 0, 224]"
  by code_simp+

lemma servopen_unknown_service:
  "atoi port = 0 \<Longrightarrow> n_serv N port (o_udp cf) = None \<Longrightarrow> servopen K N cf None port turns st = None"
  by (simp add: servopen_def serv_port_of_def)

section \<open>The order of the calls\<close>

text \<open>For every kernel: the events that a program adds, if it returns, all satisfy a predicate.\<close>

definition only :: "(sev \<Rightarrow> bool) \<Rightarrow> (unit, ost) prog \<Rightarrow> bool" where
  "only P m \<longleftrightarrow> (\<forall>st u st'. m st = Ret u st' \<longrightarrow> (\<exists>es. o_trace st' = o_trace st @ es \<and> list_all P es))"

named_theorems only_intro

lemma only_whenP [only_intro]: "only P m \<Longrightarrow> only P (whenP b m)"
  by (simp add: only_def whenP_def returnP_def)

lemma only_bindP: "only P m \<Longrightarrow> only P k \<Longrightarrow> only P (bindP m (\<lambda>_. k))"
  unfolding only_def bindP_def by (fastforce split: outcome.splits)

lemma only_returnP [only_intro]: "only P (returnP u)"
  by (simp add: only_def returnP_def)

lemma only_seqP [only_intro]: "list_all (only P) ms \<Longrightarrow> only P (seqP ms)"
  by (induction ms) (simp_all add: only_bindP only_returnP)

declare seqP.simps [simp del]

lemma only_call [only_intro]: "P e \<Longrightarrow> only P (o_call K e msg)"
  by (auto simp: only_def o_call_def split: option.splits)

lemma only_dieP [only_intro]: "only P (dieP f)"
  by (simp add: only_def dieP_def)

lemma only_checked [only_intro]: "P (S_set opt v) \<Longrightarrow> only P (o_checked K opt v ok name)"
  by (auto simp: only_def o_checked_def o_call_def o_get_def bindP_def returnP_def dieP_def split: option.splits sum.splits if_splits)

lemma only_route [only_intro]: "(\<And>r. P (S_set IP_OPTIONS (V_bytes r))) \<Longrightarrow> only P (opt_route K)"
  by (auto simp: only_def opt_route_def o_call_def bindP_def split: option.splits)

text \<open>The options that \<^verbatim>\<open>sockopts\<close> may set, with and without \<^verbatim>\<open>doall\<close>.\<close>

definition in_sockopts :: "bool \<Rightarrow> sev \<Rightarrow> bool" where
  "in_sockopts doall e \<longleftrightarrow>
     (\<exists>opt v. e = S_set opt v \<and> opt \<notin> {SO_RCVBUF, SO_SNDBUF, SO_REUSEADDR, SO_REUSEPORT} \<and> (doall \<longrightarrow> opt \<notin> {IP_TOS, IP_TTL}))"

lemma only_sockopts: "only (in_sockopts doall) (sockopts K cf doall)"
proof -
  let ?I = "in_sockopts doall"
  have chk: "opt \<notin> {SO_RCVBUF, SO_SNDBUF, SO_REUSEADDR, SO_REUSEPORT, IP_TOS, IP_TTL} \<Longrightarrow> only ?I (o_checked K opt v ok name)" for opt v ok name
    by (rule only_checked) (simp add: in_sockopts_def)
  then have flag: "opt \<notin> {SO_RCVBUF, SO_SNDBUF, SO_REUSEADDR, SO_REUSEPORT, IP_TOS, IP_TTL} \<Longrightarrow> only ?I (opt_flag K opt name)" for opt name
    unfolding opt_flag_def by blast
  have tos: "only ?I (opt_tos K cf doall)" "only ?I (opt_ttl K cf doall)"
    unfolding opt_tos_def opt_ttl_def by (cases doall; simp add: whenP_def only_returnP only_checked in_sockopts_def)+
  have join: "only ?I (opt_join K cf)"
    unfolding opt_join_def by (cases "inet_aton (o_joinip cf)") (auto intro!: only_whenP only_call only_dieP simp: in_sockopts_def)
  have route: "only ?I (opt_route K)" by (rule only_route) (simp add: in_sockopts_def)
  have flags: "only ?I (opt_debug K cf)" "only ?I (opt_dontroute K cf)" "only ?I (opt_keepalive K cf doall)" "only ?I (opt_nodelay K cf doall)" "only ?I (opt_recvdst K cf)"
    unfolding opt_debug_def opt_dontroute_def opt_keepalive_def opt_nodelay_def opt_recvdst_def by (intro only_whenP flag; simp)+
  have checks: "only ?I (opt_maxseg K cf)" "only ?I (opt_mttl K cf)" "only ?I (opt_linger K cf doall)" "only ?I (opt_rcvtimeo K cf doall)" "only ?I (opt_sndtimeo K cf doall)"
    unfolding opt_maxseg_def opt_mttl_def opt_linger_def opt_rcvtimeo_def opt_sndtimeo_def by (intro only_whenP chk; simp)+
  have bcast: "only ?I (opt_broadcast K cf)" unfolding opt_broadcast_def by (intro only_whenP only_seqP) (simp add: flag only_whenP)
  have sigio: "only ?I (opt_sigio K cf)" unfolding opt_sigio_def by (intro only_whenP only_call) (simp add: in_sockopts_def)
  show ?thesis unfolding sockopts_def by (rule only_seqP) (simp add: tos join route flags checks bcast sigio)
qed

lemma only_buffers: "P (S_set SO_RCVBUF (V_int (o_rcvbuflen cf))) \<Longrightarrow> P (S_set SO_SNDBUF (V_int (o_sndbuflen cf))) \<Longrightarrow> only P (buffers K cf)"
  unfolding buffers_def by (rule only_seqP) (simp add: only_whenP only_checked)

lemma only_weaken: "only P m \<Longrightarrow> (\<And>e. P e \<Longrightarrow> Q e) \<Longrightarrow> only Q m"
  unfolding only_def by (metis (mono_tags, lifting) list_all_iff)

text \<open>
  A datagram server calls \<^verbatim>\<open>sockopts\<close> with \<^verbatim>\<open>doall\<close> only, so that the type of service and the time to live given on the command line are never set.
\<close>

lemma servopen_udp_no_tos:
  assumes "o_udp cf" and "servopen K N cf host port turns st = Some (Ret u st')"
  shows "\<exists>es. o_trace st' = o_trace st @ es \<and> list_all (\<lambda>e. \<forall>v. e \<noteq> S_set IP_TOS v \<and> e \<noteq> S_set IP_TTL v) es"
proof -
  let ?P = "\<lambda>e. \<forall>v. e \<noteq> S_set IP_TOS v \<and> e \<noteq> S_set IP_TTL v"
  obtain p a where run: "seqP ([o_call K (S_socket True) ''socket() error'',
                 whenP (o_reuseaddr cf) (o_call K (S_set SO_REUSEADDR (V_int 1)) ''setsockopt of SO_REUSEADDR error''),
                 whenP (o_reuseport cf) (o_call K (S_set SO_REUSEPORT (V_int 1)) ''setsockopt of SO_REUSEPORT error''),
                 o_call K (S_bind (Sockaddr_in p a)) ''can't bind local address'',
                 join_mcast K (Sockaddr_in p a)] @ [buffers K cf, serv_foreign K cf, sockopts K cf True]) st = Ret u st'" (is "seqP ?ms st = _")
    using assms by (auto simp: servopen_def split: option.splits)
  have "only ?P (sockopts K cf True)" by (rule only_weaken [OF only_sockopts]) (auto simp: in_sockopts_def)
  moreover have "only ?P (buffers K cf)" by (rule only_buffers) simp_all
  moreover have "only ?P (serv_foreign K cf)" unfolding serv_foreign_def by (cases "inet_aton (o_foreignip cf)") (auto intro!: only_intro)
  moreover have "only ?P (join_mcast K (Sockaddr_in p a))" unfolding join_mcast_def by (auto intro!: only_intro)
  ultimately have "only ?P (seqP ?ms)" by (intro only_seqP) (simp add: only_whenP only_call)
  with run show ?thesis unfolding only_def by blast
qed

text \<open>
  The order of a client's calls, for every kernel: when \<^verbatim>\<open>cliopen\<close> returns, it has connected at most once, to the address that the arguments stand for, exactly if the socket is a
  stream or datagrams are to be connected; the sizes of the buffers, the type of service and the time to live, and the local address were all set before, so that they apply to the connection.
\<close>

theorem cliopen_order:
  assumes "cliopen K N cf host port conn st = Ret u st'"
  shows "\<exists>p a xs ys. cli_port N cf port = Inr p \<and> cli_addr N host = Inr a \<and>
    o_trace st' = o_trace st @ xs @ (if \<not> o_udp cf \<or> o_connectudp cf then [S_connect (Sockaddr_in p a)] else []) @ ys \<and>
    list_all (\<lambda>e. \<forall>sa. e \<noteq> S_connect sa) xs \<and>
    list_all (\<lambda>e. \<exists>opt v. e = S_set opt v \<and> opt \<notin> {SO_RCVBUF, SO_SNDBUF, SO_REUSEADDR, SO_REUSEPORT, IP_TOS, IP_TTL}) ys"
proof -
  obtain p a where pa: "cli_port N cf port = Inr p" "cli_addr N host = Inr a"
    using assms by (auto simp: cliopen_def dieP_def split: sum.splits)
  let ?ms = "[o_call K (S_socket (o_udp cf)) ''socket() error'',
                whenP (o_reuseaddr cf) (o_call K (S_set SO_REUSEADDR (V_int 1)) ''setsockopt of SO_REUSEADDR error''),
                whenP (o_reuseport cf) (o_call K (S_set SO_REUSEPORT (V_int 1)) ''setsockopt of SO_REUSEPORT error''),
                cli_bind K cf, buffers K cf, sockopts K cf False]"
  let ?conn = "whenP (\<not> o_udp cf \<or> o_connectudp cf) (connect_loop (Sockaddr_in p a) conn)"
  have "cliopen K N cf host port conn = seqP (?ms @ [?conn, sockopts K cf True])" using pa by (simp add: cliopen_def)
  with assms obtain u1 st1 u2 st2 where
    run: "seqP ?ms st = Ret u1 st1" "?conn st1 = Ret u2 st2" "sockopts K cf True st2 = Ret u st'"
    unfolding seqP_append by (auto simp: returnP_def seqP.simps elim!: bindP_RetE)
  let ?P = "\<lambda>e. \<forall>sa. e \<noteq> S_connect sa"
  have "only ?P (sockopts K cf False)" by (rule only_weaken [OF only_sockopts]) (auto simp: in_sockopts_def)
  moreover have "only ?P (buffers K cf)" by (rule only_buffers) simp_all
  moreover have "only ?P (cli_bind K cf)" unfolding cli_bind_def by (auto intro!: only_intro split: option.split)
  ultimately have "only ?P (seqP ?ms)" by (intro only_seqP) (simp add: only_whenP only_call)
  with run(1) obtain xs where xs: "o_trace st1 = o_trace st @ xs" "list_all ?P xs" unfolding only_def by blast
  obtain ys where ys: "o_trace st' = o_trace st2 @ ys" "list_all (in_sockopts True) ys" using only_sockopts run(3) unfolding only_def by blast
  have "o_trace st2 = o_trace st1 @ [S_connect (Sockaddr_in p a)]" if "connect_loop (Sockaddr_in p a) conn st1 = Ret u2 st2"
    using that by (induction "Sockaddr_in p a" conn st1 rule: connect_loop.induct) (auto split: if_splits)
  with run(2) have "o_trace st2 = o_trace st1 @ (if \<not> o_udp cf \<or> o_connectudp cf then [S_connect (Sockaddr_in p a)] else [])"
    by (auto simp: whenP_def returnP_def split: if_splits)
  moreover have "list_all (\<lambda>e. \<exists>opt v. e = S_set opt v \<and> opt \<notin> {SO_RCVBUF, SO_SNDBUF, SO_REUSEADDR, SO_REUSEPORT, IP_TOS, IP_TTL}) ys"
    using ys(2) by (auto simp: list_all_iff in_sockopts_def)
  ultimately show ?thesis using pa xs ys(1) by auto
qed

section \<open>Witnesses\<close>

definition sample_ok :: okernel where
  "sample_ok = \<lparr>k_call = (\<lambda>tr e. None), k_get = (\<lambda>tr opt. case find (\<lambda>e. case e of S_set o2 v \<Rightarrow> o2 = opt | _ \<Rightarrow> False) (rev tr) of Some (S_set o2 v) \<Rightarrow> Inr v | _ \<Rightarrow> Inl EBADF)\<rparr>"

definition sample_oconf :: oconf where
  "sample_oconf = \<lparr>o_debug = False, o_dontroute = False, o_iptos = 16, o_ipttl = -1, o_maxseg = 0, o_udp = False, o_broadcast = False, o_onesbcast = False, o_joinip = [],
     o_mcastttl = 0, o_keepalive = True, o_nodelay = False, o_linger = -1, o_rcvtimeo = 1500, o_sndtimeo = 0, o_recvdstaddr = False, o_sigio = False, o_rcvbuflen = 8192,
     o_sndbuflen = 0, o_reuseaddr = True, o_reuseport = False, o_bindport = 0, o_localip = [], o_foreignip = [], o_foreignport = 0, o_connectudp = True, o_listenq = 5,
     o_dofork = False\<rparr>"

lemma sample_ok_faithful: "faithful sample_ok"
  by (simp add: faithful_def sample_ok_def)

theorem sockopts_requested_witness:
  "sockopts sample_ok sample_oconf True \<lparr>o_trace = [], o_route = Some [131]\<rparr> =
     Ret () \<lparr>o_trace = [S_set IP_OPTIONS (V_bytes [131]), S_set SO_KEEPALIVE (V_int 1), S_set SO_RCVTIMEO (V_timeval 1 500000)], o_route = None\<rparr>"
  using sockopts_requested [OF sample_ok_faithful, of sample_oconf True "\<lparr>o_trace = [], o_route = Some [131]\<rparr>"]
  by (simp add: sample_oconf_def requested1_def requested2_def opt_on_def ms_timeval_def)

definition sample_names :: onames where
  "sample_names = \<lparr>n_serv = (\<lambda>s u. None), n_host = (\<lambda>h. Some [10, 0, 0, 9])\<rparr>"

definition sample_open :: ost where
  "sample_open = \<lparr>o_trace = [S_socket False, S_set SO_REUSEADDR (V_int 1), S_set SO_RCVBUF (V_int 8192), S_set IP_TOS (V_int 16),
     S_connect (Sockaddr_in 0x0700 [10, 0, 0, 9]), S_set SO_KEEPALIVE (V_int 1), S_set SO_RCVTIMEO (V_timeval 1 500000)], o_route = None\<rparr>"

lemma sample_cliopen: "cliopen sample_ok sample_names sample_oconf ''h'' ''7'' [Some EINTR, None] \<lparr>o_trace = [], o_route = None\<rparr> = Ret () sample_open"
  by code_simp

theorem cliopen_order_witness:
  "\<exists>p a xs ys. cli_port sample_names sample_oconf ''7'' = Inr p \<and> cli_addr sample_names ''h'' = Inr a \<and> o_trace sample_open = xs @ [S_connect (Sockaddr_in p a)] @ ys"
proof -
  from cliopen_order [OF sample_cliopen] have "\<exists>p a xs ys. cli_port sample_names sample_oconf ''7'' = Inr p \<and> cli_addr sample_names ''h'' = Inr a \<and>
    o_trace sample_open = [] @ xs @ [S_connect (Sockaddr_in p a)] @ ys" by (auto simp: sample_oconf_def)
  then show ?thesis by simp
qed

end
