(* ===== verification/Tell_Wait.thy ===== *)
theory Tell_Wait
  imports Prelude
begin

text \<open>
  The concurrent server of the traffic tool: the accept loop of \<^verbatim>\<open>sock/servopen.c\<close> with the option to fork, and the functions of \<^verbatim>\<open>sock/tellwait.c\<close> with which a
  child tells its parent by a signal that it is done with the terminal. The parent is a program counter over the calls of \<^verbatim>\<open>WAIT_CHILD\<close>; the kernel delivers a pending
  signal at any point at which it is not blocked; a step relation gives all interleavings. The handshake is proved safe for the first connection; for later ones it is not, because
  \<^verbatim>\<open>WAIT_CHILD\<close> restores the signal mask that \<^verbatim>\<open>TELL_WAIT\<close> had set once before the loop.
\<close>

section \<open>The program\<close>

text \<open>
  \<open>P_accept\<close>: in \<^verbatim>\<open>accept\<close> and \<^verbatim>\<open>fork\<close>; \<open>P_test\<close>: \<^verbatim>\<open>while (sigflag == 0)\<close>; \<open>P_call\<close>: before the call of \<^verbatim>\<open>sigsuspend\<close>; \<open>P_suspended\<close>: in it; \<open>P_clear\<close>: \<^verbatim>\<open>sigflag = 0\<close>;
  \<open>P_setmask\<close>: the call of \<^verbatim>\<open>sigprocmask\<close>.
\<close>

datatype ppc = P_accept | P_test | P_call | P_suspended | P_clear | P_setmask

record twst =
  tw_pc :: ppc
  sigflag :: bool
  sig_pending :: bool
  sig_blocked :: bool
  unsaid :: nat
  served :: nat

definition TELL_WAIT :: twst where
  "TELL_WAIT = \<lparr>tw_pc = P_accept, sigflag = False, sig_pending = False, sig_blocked = True, unsaid = 0, served = 0\<rparr>"

text \<open>The handler \<^verbatim>\<open>sig_usr\<close>.\<close>

definition sig_usr :: "twst \<Rightarrow> twst" where
  "sig_usr s = s\<lparr>sigflag := True, sig_pending := False\<rparr>"

text \<open>A child that has set up its connection tells its parent; the signal does not queue.\<close>

definition TELL_PARENT :: "twst \<Rightarrow> twst option" where
  "TELL_PARENT s = (if unsaid s = 0 then None else Some (s\<lparr>unsaid := unsaid s - 1, sig_pending := True\<rparr>))"

definition sig_deliver :: "twst \<Rightarrow> twst option" where
  "sig_deliver s = (if sig_pending s \<and> \<not> sig_blocked s \<and> tw_pc s \<noteq> P_suspended then Some (sig_usr s) else None)"

text \<open>
  A step of the parent. In \<^verbatim>\<open>sigsuspend\<close> no signal is blocked; it returns after the handler, with the mask as before. A connection is counted as served when \<^verbatim>\<open>WAIT_CHILD\<close> returns.
\<close>

definition serv_parent :: "twst \<Rightarrow> twst option" where
  "serv_parent s =
     (case tw_pc s of
        P_accept \<Rightarrow> Some (s\<lparr>unsaid := unsaid s + 1, tw_pc := P_test\<rparr>)
      | P_test \<Rightarrow> Some (s\<lparr>tw_pc := (if sigflag s then P_clear else P_call)\<rparr>)
      | P_call \<Rightarrow> Some (s\<lparr>tw_pc := P_suspended\<rparr>)
      | P_suspended \<Rightarrow> if sig_pending s then Some ((sig_usr s)\<lparr>tw_pc := P_test\<rparr>) else None
      | P_clear \<Rightarrow> Some (s\<lparr>sigflag := False, tw_pc := P_setmask\<rparr>)
      | P_setmask \<Rightarrow> Some (s\<lparr>sig_blocked := False, tw_pc := P_accept, served := served s + 1\<rparr>))"

inductive tw_step :: "twst \<Rightarrow> twst \<Rightarrow> bool" where
  parent: "serv_parent s = Some s' \<Longrightarrow> tw_step s s'"
| child: "TELL_PARENT s = Some s' \<Longrightarrow> tw_step s s'"
| deliver: "sig_deliver s = Some s' \<Longrightarrow> tw_step s s'"

inductive_cases tw_stepE: "tw_step s s'"

section \<open>The first connection\<close>

text \<open>
  The invariant while the signals are blocked: there is at most one child that has not told, and it, the pending signal and the flag are in one place; the parent waits for none of them only
  before the fork and after it cleared the flag.
\<close>

definition tw_inv :: "twst \<Rightarrow> bool" where
  "tw_inv s \<longleftrightarrow>
     (served s = 0 \<longrightarrow> sig_blocked s \<and>
        unsaid s + of_bool (sig_pending s) + of_bool (sigflag s) = of_bool (tw_pc s \<notin> {P_accept, P_setmask}) \<and>
        (sigflag s \<longrightarrow> tw_pc s \<in> {P_test, P_clear}) \<and> (tw_pc s = P_clear \<longrightarrow> sigflag s))"

lemma tw_inv_step:
  assumes "tw_step s s'" and "tw_inv s"
  shows "tw_inv s'"
  using assms(1)
proof (cases rule: tw_step.cases)
  case parent
  with assms(2) show ?thesis
    by (cases "tw_pc s") (auto simp: serv_parent_def tw_inv_def sig_usr_def of_bool_def split: if_splits)
next
  case child
  with assms(2) show ?thesis by (auto simp: TELL_PARENT_def tw_inv_def of_bool_def split: if_splits)
next
  case deliver
  with assms(2) show ?thesis by (auto simp: sig_deliver_def tw_inv_def sig_usr_def of_bool_def split: if_splits)
qed

lemma tw_inv_reachable: "tw_step\<^sup>*\<^sup>* TELL_WAIT s \<Longrightarrow> tw_inv s"
proof (induction rule: rtranclp_induct)
  case base
  show ?case by (simp add: TELL_WAIT_def tw_inv_def)
next
  case (step s s')
  then show ?case by (blast intro: tw_inv_step)
qed

definition tw_stuck :: "twst \<Rightarrow> bool" where
  "tw_stuck s \<longleftrightarrow> (\<nexists>s'. tw_step s s')"

lemma tw_stuck_iff: "tw_stuck s \<longleftrightarrow> tw_pc s = P_suspended \<and> unsaid s = 0 \<and> \<not> sig_pending s"
proof
  assume "tw_stuck s"
  then have "serv_parent s = None" "TELL_PARENT s = None" unfolding tw_stuck_def by (meson tw_step.intros not_None_eq)+
  then show "tw_pc s = P_suspended \<and> unsaid s = 0 \<and> \<not> sig_pending s" by (auto simp: serv_parent_def TELL_PARENT_def split: ppc.splits if_splits)
next
  assume "tw_pc s = P_suspended \<and> unsaid s = 0 \<and> \<not> sig_pending s"
  then show "tw_stuck s" by (auto simp: tw_stuck_def serv_parent_def TELL_PARENT_def sig_deliver_def elim!: tw_stepE)
qed

lemma tw_first_safe: "tw_inv s \<Longrightarrow> served s = 0 \<Longrightarrow> \<not> tw_stuck s"
  by (auto simp: tw_inv_def tw_stuck_iff split: if_splits)

section \<open>Later connections\<close>

text \<open>The run in which the second child tells its parent between the test of the flag and the call of \<^verbatim>\<open>sigsuspend\<close>.\<close>

fun tw_run :: "(twst \<Rightarrow> twst option) list \<Rightarrow> twst \<Rightarrow> twst option" where
  "tw_run [] s = Some s"
| "tw_run (f # fs) s = (case f s of None \<Rightarrow> None | Some s' \<Rightarrow> tw_run fs s')"

lemma tw_run_steps:
  assumes "tw_run fs s = Some s'" and "set fs \<subseteq> {serv_parent, TELL_PARENT, sig_deliver}"
  shows "tw_step\<^sup>*\<^sup>* s s'"
  using assms
proof (induction fs arbitrary: s)
  case (Cons f fs)
  then obtain s1 where "f s = Some s1" "tw_run fs s1 = Some s'" by (auto split: option.splits)
  moreover have "tw_step s s1" using \<open>f s = Some s1\<close> Cons.prems(2) by (auto intro: tw_step.intros)
  ultimately show ?case using Cons by (auto intro: converse_rtranclp_into_rtranclp)
qed simp

definition lost_run :: "(twst \<Rightarrow> twst option) list" where
  "lost_run = [serv_parent, serv_parent, serv_parent, TELL_PARENT, serv_parent, serv_parent, serv_parent, serv_parent,
     serv_parent, serv_parent, TELL_PARENT, sig_deliver, serv_parent]"

definition lost_state :: twst where
  "lost_state = \<lparr>tw_pc = P_suspended, sigflag = True, sig_pending = False, sig_blocked = False, unsaid = 0, served = 1\<rparr>"

lemma lost_run_ends: "tw_run lost_run TELL_WAIT = Some lost_state"
  by code_simp

lemma lost_reachable: "tw_step\<^sup>*\<^sup>* TELL_WAIT lost_state"
  by (rule tw_run_steps [OF lost_run_ends]) (simp add: lost_run_def)



end
