(* ===== verification/Bcast.thy ===== *)
theory Bcast
  imports Prelude
begin

text \<open>
  The broadcast clients of \<^verbatim>\<open>bcast/\<close>: six versions of \<^verbatim>\<open>dg_cli\<close> that send a line and then print replies until an alarm goes off five seconds later. They differ in how
  the alarm ends the wait: it interrupts \<^verbatim>\<open>recvfrom\<close> (versions 1 and 2), also with the signal blocked between the calls (3), it is let in by \<^verbatim>\<open>pselect\<close> (4), its
  handler jumps out of the loop (5), or writes to a pipe that \<^verbatim>\<open>select\<close> watches (6). Every version is a program counter over its calls; the alarm, the delivery of the signal and
  the arrival of datagrams may come between any two of them. What a version needs to be right is the locale \<open>one_alarm\<close>: in the loop the time-out of the
  line is in exactly one place. Versions 4, 5 and 6 have it; versions 1, 2 and 3 can lose it, and then never leave the loop.
\<close>

section \<open>The state\<close>

text \<open>
  The calls of all versions. \<open>B_pre\<close> holds the calls before the loop that are still to come. A \<open>B_call\<close> is the point before a call, a \<open>B_in\<close> a call that can
  wait: \<^verbatim>\<open>recvfrom\<close>, \<^verbatim>\<open>pselect\<close> or \<^verbatim>\<open>select\<close>.
\<close>

datatype bpc =
    B_pre "string list" | B_gets | B_send | B_block | B_alarm | B_unblock | B_call | B_in | B_reblock | B_test
  | B_recv | B_sleep | B_print | B_testpipe | B_readpipe | B_exit

type_synonym reply = "string \<times> char list"

text \<open>
  A reply is the host of its sender, as \<^verbatim>\<open>Sock_ntop_host\<close> gives it, and its bytes. \<open>b_lines\<close> is what \<^verbatim>\<open>Fgets\<close> will return, \<open>b_arrived\<close> all datagrams that
  came, \<open>b_queue\<close> those the kernel holds, \<open>b_hand\<close> the one in \<^verbatim>\<open>recvline\<close> that is not printed yet, \<open>b_sock\<close> and \<open>b_rpipe\<close> the set that
  \<^verbatim>\<open>select\<close> returned, \<open>b_intr\<close> that \<^verbatim>\<open>recvfrom\<close> returned \<^verbatim>\<open>EINTR\<close>, and \<open>b_jmpbuf\<close> that \<^verbatim>\<open>sigsetjmp\<close> was called. A jump without it is
  undefined.
\<close>

datatype bend = B_died fatal | B_undefined

record bst =
  b_pc :: bpc
  b_lines :: "string list"
  b_sent :: "string list"
  b_armed :: bool
  b_pending :: bool
  b_blocked :: bool
  b_arrived :: "reply list"
  b_queue :: "reply list"
  b_hand :: "reply list"
  b_printed :: "string list"
  b_pipe :: nat
  b_sock :: bool
  b_rpipe :: bool
  b_intr :: bool
  b_jmpbuf :: bool
  b_end :: "bend option"

definition bc_start :: "string list \<Rightarrow> string list \<Rightarrow> bst" where
  "bc_start pre lns =
     \<lparr>b_pc = B_pre pre, b_lines = lns, b_sent = [], b_armed = False, b_pending = False, b_blocked = False, b_arrived = [], b_queue = [], b_hand = [],
      b_printed = [], b_pipe = 0, b_sock = False, b_rpipe = False, b_intr = False, b_jmpbuf = False, b_end = None\<rparr>"

text \<open>What a call returns.\<close>

datatype kret = K_ok | K_err errno

definition bc_die :: "string \<Rightarrow> errno \<Rightarrow> bst \<Rightarrow> bst" where
  "bc_die msg e s = s\<lparr>b_end := Some (B_died (Err_sys msg (Some e)))\<rparr>"

section \<open>The common parts\<close>

definition reply_text :: "reply \<Rightarrow> string" where
  "reply_text r = ''from '' @ fst r @ '': '' @ c_str (take MAXLINE (snd r))"

text \<open>\<^verbatim>\<open>Fgets\<close>, \<^verbatim>\<open>Sendto\<close> and \<^verbatim>\<open>alarm\<close>, with the control points that follow them.\<close>

definition bc_head :: "bpc \<Rightarrow> bpc \<Rightarrow> kret \<Rightarrow> bst \<Rightarrow> bst option" where
  "bc_head after_send loop k s =
     (case b_pc s of
        B_pre [] \<Rightarrow> Some (s\<lparr>b_pc := B_gets\<rparr>)
      | B_pre (c # cs) \<Rightarrow> (case k of K_ok \<Rightarrow> Some (s\<lparr>b_pc := B_pre cs\<rparr>) | K_err e \<Rightarrow> Some (bc_die (c @ '' error'') e s))
      | B_gets \<Rightarrow> Some (s\<lparr>b_pc := (if b_lines s = [] then B_exit else B_send)\<rparr>)
      | B_send \<Rightarrow>
          (case k of
             K_ok \<Rightarrow> Some (s\<lparr>b_sent := b_sent s @ [hd (b_lines s)], b_lines := tl (b_lines s), b_pc := after_send\<rparr>)
           | K_err e \<Rightarrow> Some (bc_die ''sendto error'' e s))
      | B_block \<Rightarrow>
          (case k of K_ok \<Rightarrow> Some (s\<lparr>b_blocked := True, b_pc := B_alarm\<rparr>) | K_err e \<Rightarrow> Some (bc_die ''sigprocmask error'' e s))
      | B_alarm \<Rightarrow> Some (s\<lparr>b_armed := True, b_pc := loop\<rparr>)
      | _ \<Rightarrow> None)"

text \<open>A datagram is copied into \<^verbatim>\<open>recvline\<close>, and printed.\<close>

definition bc_take :: "bpc \<Rightarrow> bst \<Rightarrow> bst option" where
  "bc_take next s =
     (case b_queue s of [] \<Rightarrow> None | r # rs \<Rightarrow> Some (s\<lparr>b_queue := rs, b_hand := [r], b_intr := False, b_pc := next\<rparr>))"

definition bc_print :: "bpc \<Rightarrow> kret \<Rightarrow> bst \<Rightarrow> bst option" where
  "bc_print next k s =
     (case k of
        K_ok \<Rightarrow> Some (s\<lparr>b_printed := b_printed s @ map reply_text (b_hand s), b_hand := [], b_pc := next\<rparr>)
      | K_err e \<Rightarrow> Some (bc_die ''sock_ntop_host error'' e s))"

text \<open>A waiting call that returns \<^verbatim>\<open>EINTR\<close>: a signal is pending and its handler has run.\<close>

definition bc_eintr :: "(bst \<Rightarrow> bst) \<Rightarrow> bool \<Rightarrow> bst \<Rightarrow> bst option" where
  "bc_eintr handler blk s = (if b_pending s \<and> \<not> blk then Some (handler (s\<lparr>b_pending := False\<rparr>)) else None)"

section \<open>The six versions\<close>

text \<open>The handler \<^verbatim>\<open>recvfrom_alarm\<close> of versions 1 to 4, of version 5 and of version 6.\<close>

definition recvfrom_alarm :: "bst \<Rightarrow> bst" where
  "recvfrom_alarm s = s"

definition recvfrom_alarm_jump :: "bst \<Rightarrow> bst" where
  "recvfrom_alarm_jump s = (if b_jmpbuf s then s\<lparr>b_pc := B_gets, b_hand := []\<rparr> else s\<lparr>b_end := Some B_undefined\<rparr>)"

definition recvfrom_alarm_pipe :: "bst \<Rightarrow> bst" where
  "recvfrom_alarm_pipe s = s\<lparr>b_pipe := b_pipe s + 1\<rparr>"

text \<open>
  \<^verbatim>\<open>recvfrom\<close> interrupted by the handler; a datagram and a signal that are both there come in either order.
\<close>

definition in_recvfrom :: "bpc \<Rightarrow> bpc \<Rightarrow> kret \<Rightarrow> bst \<Rightarrow> bst option" where
  "in_recvfrom got intr k s =
     (case k of
        K_ok \<Rightarrow> bc_take got s
      | K_err e \<Rightarrow>
          if e = EINTR then map_option (\<lambda>s. s\<lparr>b_intr := True, b_pc := intr\<rparr>) (bc_eintr recvfrom_alarm (b_blocked s) s)
          else Some (bc_die ''recvfrom error'' e s))"

definition dg_cli1 :: "kret \<Rightarrow> bst \<Rightarrow> bst option" where
  "dg_cli1 k s =
     (case b_pc s of
        B_call \<Rightarrow> Some (s\<lparr>b_pc := B_in\<rparr>)
      | B_in \<Rightarrow> in_recvfrom B_print B_gets k s
      | B_print \<Rightarrow> bc_print B_call k s
      | _ \<Rightarrow> bc_head B_alarm B_call k s)"

definition dg_cli2 :: "kret \<Rightarrow> bst \<Rightarrow> bst option" where
  "dg_cli2 k s =
     (case b_pc s of
        B_call \<Rightarrow> Some (s\<lparr>b_pc := B_in\<rparr>)
      | B_in \<Rightarrow> in_recvfrom B_sleep B_gets k s
      | B_sleep \<Rightarrow> Some (s\<lparr>b_pc := B_print\<rparr>)
      | B_print \<Rightarrow> bc_print B_call k s
      | _ \<Rightarrow> bc_head B_alarm B_call k s)"

definition dg_cli3 :: "kret \<Rightarrow> bst \<Rightarrow> bst option" where
  "dg_cli3 k s =
     (case b_pc s of
        B_unblock \<Rightarrow>
          (case k of K_ok \<Rightarrow> Some (s\<lparr>b_blocked := False, b_pc := B_call\<rparr>) | K_err e \<Rightarrow> Some (bc_die ''sigprocmask error'' e s))
      | B_call \<Rightarrow> Some (s\<lparr>b_pc := B_in\<rparr>)
      | B_in \<Rightarrow> in_recvfrom B_reblock B_reblock k s
      | B_reblock \<Rightarrow>
          (case k of K_ok \<Rightarrow> Some (s\<lparr>b_blocked := True, b_pc := B_test\<rparr>) | K_err e \<Rightarrow> Some (bc_die ''sigprocmask error'' e s))
      | B_test \<Rightarrow> Some (s\<lparr>b_pc := (if b_intr s then B_gets else B_print)\<rparr>)
      | B_print \<Rightarrow> bc_print B_unblock k s
      | _ \<Rightarrow> bc_head B_alarm B_unblock k s)"

text \<open>\<^verbatim>\<open>pselect\<close> runs with no signal blocked, whatever the mask of the process.\<close>

definition dg_cli4 :: "kret \<Rightarrow> bst \<Rightarrow> bst option" where
  "dg_cli4 k s =
     (case b_pc s of
        B_call \<Rightarrow> Some (s\<lparr>b_pc := B_in\<rparr>)
      | B_in \<Rightarrow>
          (case k of
             K_ok \<Rightarrow> if b_queue s = [] then None else Some (s\<lparr>b_pc := B_recv\<rparr>)
           | K_err e \<Rightarrow>
               if e = EINTR then map_option (\<lambda>s. s\<lparr>b_pc := B_gets\<rparr>) (bc_eintr recvfrom_alarm False s)
               else Some (bc_die ''pselect error'' e s))
      | B_recv \<Rightarrow> (case k of K_ok \<Rightarrow> bc_take B_print s | K_err e \<Rightarrow> Some (bc_die ''recvfrom error'' e s))
      | B_print \<Rightarrow> bc_print B_call k s
      | _ \<Rightarrow> bc_head B_block B_call k s)"

definition dg_cli5 :: "kret \<Rightarrow> bst \<Rightarrow> bst option" where
  "dg_cli5 k s =
     (case b_pc s of
        B_call \<Rightarrow> Some (s\<lparr>b_jmpbuf := True, b_pc := B_in\<rparr>)
      | B_in \<Rightarrow> (case k of K_ok \<Rightarrow> bc_take B_print s | K_err e \<Rightarrow> if e = EINTR then None else Some (bc_die ''recvfrom error'' e s))
      | B_print \<Rightarrow> bc_print B_call k s
      | _ \<Rightarrow> bc_head B_alarm B_call k s)"

definition dg_cli6 :: "kret \<Rightarrow> bst \<Rightarrow> bst option" where
  "dg_cli6 k s =
     (case b_pc s of
        B_call \<Rightarrow> Some (s\<lparr>b_pc := B_in\<rparr>)
      | B_in \<Rightarrow>
          (case k of
             K_ok \<Rightarrow>
               if b_queue s = [] \<and> b_pipe s = 0 then None
               else Some (s\<lparr>b_sock := b_queue s \<noteq> [], b_rpipe := b_pipe s \<noteq> 0, b_pc := B_test\<rparr>)
           | K_err e \<Rightarrow>
               if e = EINTR then map_option (\<lambda>s. s\<lparr>b_pc := B_call\<rparr>) (bc_eintr recvfrom_alarm_pipe (b_blocked s) s)
               else Some (bc_die ''select error'' e s))
      | B_test \<Rightarrow> Some (s\<lparr>b_pc := (if b_sock s then B_recv else B_testpipe)\<rparr>)
      | B_recv \<Rightarrow> (case k of K_ok \<Rightarrow> bc_take B_print s | K_err e \<Rightarrow> Some (bc_die ''recvfrom error'' e s))
      | B_print \<Rightarrow> bc_print B_testpipe k s
      | B_testpipe \<Rightarrow> Some (s\<lparr>b_pc := (if b_rpipe s then B_readpipe else B_call)\<rparr>)
      | B_readpipe \<Rightarrow>
          (case k of
             K_ok \<Rightarrow> if b_pipe s = 0 then None else Some (s\<lparr>b_pipe := b_pipe s - 1, b_pc := B_gets\<rparr>)
           | K_err e \<Rightarrow> Some (bc_die ''read error'' e s))
      | _ \<Rightarrow> bc_head B_alarm B_call k s)"

text \<open>The calls before the loop.\<close>

definition pre_plain :: "string list" where
  "pre_plain = [''malloc'', ''setsockopt'', ''signal'']"

definition pre_mask :: "string list" where
  "pre_mask = [''malloc'', ''setsockopt'', ''sigemptyset'', ''sigaddset'', ''signal'']"

definition pre_pselect :: "string list" where
  "pre_pselect = [''malloc'', ''setsockopt'', ''sigemptyset'', ''sigemptyset'', ''sigaddset'', ''signal'']"

definition pre_pipe :: "string list" where
  "pre_pipe = [''malloc'', ''setsockopt'', ''pipe'', ''signal'']"

section \<open>All interleavings\<close>

text \<open>
  A step of the program, the expiry of the alarm clock, the delivery of the signal between two calls or, where the call itself does not deal with it, in
  one, and the arrival of a datagram.
\<close>

inductive bc_step :: "(kret \<Rightarrow> bst \<Rightarrow> bst option) \<Rightarrow> (bst \<Rightarrow> bst) \<Rightarrow> (bst \<Rightarrow> bool) \<Rightarrow> bst \<Rightarrow> bst \<Rightarrow> bool"
  for main :: "kret \<Rightarrow> bst \<Rightarrow> bst option" and handler :: "bst \<Rightarrow> bst" and waits :: "bst \<Rightarrow> bool" where
  prog: "b_end s = None \<Longrightarrow> main k s = Some s' \<Longrightarrow> bc_step main handler waits s s'"
| tick: "b_end s = None \<Longrightarrow> b_armed s \<Longrightarrow> bc_step main handler waits s (s\<lparr>b_armed := False, b_pending := True\<rparr>)"
| deliver: "b_end s = None \<Longrightarrow> b_pending s \<Longrightarrow> \<not> b_blocked s \<Longrightarrow> \<not> waits s \<Longrightarrow>
    bc_step main handler waits s (handler (s\<lparr>b_pending := False\<rparr>))"
| net: "b_end s = None \<Longrightarrow> bc_step main handler waits s (s\<lparr>b_queue := b_queue s @ [r], b_arrived := b_arrived s @ [r]\<rparr>)"

inductive_cases bc_stepE: "bc_step main handler waits s s'"

definition in_wait :: "bst \<Rightarrow> bool" where
  "in_wait s \<longleftrightarrow> b_pc s = B_in"

definition no_wait :: "bst \<Rightarrow> bool" where
  "no_wait s \<longleftrightarrow> False"

abbreviation step1 :: "bst \<Rightarrow> bst \<Rightarrow> bool" where "step1 \<equiv> bc_step dg_cli1 recvfrom_alarm in_wait"
abbreviation step2 :: "bst \<Rightarrow> bst \<Rightarrow> bool" where "step2 \<equiv> bc_step dg_cli2 recvfrom_alarm in_wait"
abbreviation step3 :: "bst \<Rightarrow> bst \<Rightarrow> bool" where "step3 \<equiv> bc_step dg_cli3 recvfrom_alarm in_wait"
abbreviation step4 :: "bst \<Rightarrow> bst \<Rightarrow> bool" where "step4 \<equiv> bc_step dg_cli4 recvfrom_alarm in_wait"
abbreviation step5 :: "bst \<Rightarrow> bst \<Rightarrow> bool" where "step5 \<equiv> bc_step dg_cli5 recvfrom_alarm_jump no_wait"
abbreviation step6 :: "bst \<Rightarrow> bst \<Rightarrow> bool" where "step6 \<equiv> bc_step dg_cli6 recvfrom_alarm_pipe in_wait"

lemmas bc_defs = bc_head_def bc_take_def bc_print_def bc_eintr_def in_recvfrom_def bc_die_def recvfrom_alarm_def
section \<open>One time-out per line\<close>

text \<open>The loop of a line, from \<^verbatim>\<open>alarm\<close> to the end of the wait, and the places in which its time-out can be: the alarm clock, a pending signal, and the pipe.\<close>

definition in_loop :: "bst \<Rightarrow> bool" where
  "in_loop s \<longleftrightarrow> (case b_pc s of B_pre cs \<Rightarrow> False | B_gets \<Rightarrow> False | B_send \<Rightarrow> False | B_block \<Rightarrow> False | B_alarm \<Rightarrow> False | B_exit \<Rightarrow> False | _ \<Rightarrow> True)"

definition timeouts :: "bst \<Rightarrow> nat" where
  "timeouts s = of_bool (b_armed s) + of_bool (b_pending s) + b_pipe s"

text \<open>How far the program is from the end of the wait when no more datagrams come.\<close>

definition bc_rank :: "bst \<Rightarrow> nat" where
  "bc_rank s = 40 * of_bool (b_armed s) + 20 * of_bool (b_pending s) +
     (case b_pc s of
        B_test \<Rightarrow> if b_rpipe s then 5 else 13
      | B_recv \<Rightarrow> if b_rpipe s then 4 else 12
      | B_print \<Rightarrow> if b_rpipe s then 3 else 11
      | B_testpipe \<Rightarrow> if b_rpipe s then 2 else 10
      | B_readpipe \<Rightarrow> 1
      | B_call \<Rightarrow> 7
      | _ \<Rightarrow> 6)"

text \<open>A step towards it: no datagram comes, nothing is sent and the process goes on.\<close>

definition bc_quiet :: "bst \<Rightarrow> bst \<Rightarrow> bool" where
  "bc_quiet s s' \<longleftrightarrow> b_arrived s' = b_arrived s \<and> b_sent s' = b_sent s \<and> b_end s' = None"

locale one_alarm =
  fixes main :: "kret \<Rightarrow> bst \<Rightarrow> bst option" and handler :: "bst \<Rightarrow> bst" and waits :: "bst \<Rightarrow> bool" and pre :: "string list"
    and inv :: "string list \<Rightarrow> bst \<Rightarrow> bool"
  assumes starts: "inv lns (bc_start pre lns)"
    and keeps: "inv lns s \<Longrightarrow> bc_step main handler waits s s' \<Longrightarrow> b_end s' = None \<Longrightarrow> inv lns s'"
    and counts: "inv lns s \<Longrightarrow> timeouts s = of_bool (in_loop s) \<and> b_sent s @ b_lines s = lns"
    and advances: "inv lns s \<Longrightarrow> in_loop s \<Longrightarrow> b_end s = None \<Longrightarrow>
      \<exists>s'. bc_step main handler waits s s' \<and> bc_quiet s s' \<and> (if in_loop s' then bc_rank s' < bc_rank s else b_pc s' = B_gets)"
begin

lemma ended_stops: "bc_step main handler waits s s' \<Longrightarrow> b_end s = None"
  by (auto elim: bc_stepE)

lemma reachable_inv: "(bc_step main handler waits)\<^sup>*\<^sup>* (bc_start pre lns) s \<Longrightarrow> b_end s = None \<Longrightarrow> inv lns s"
proof (induction rule: rtranclp_induct)
  case base
  show ?case by (rule starts)
next
  case (step s s')
  then show ?case using ended_stops keeps by metis
qed

lemma leaves: "inv lns s \<Longrightarrow> in_loop s \<Longrightarrow> b_end s = None \<Longrightarrow> \<exists>s'. (bc_step main handler waits)\<^sup>*\<^sup>* s s' \<and> bc_quiet s s' \<and> b_pc s' = B_gets"
proof (induction "bc_rank s" arbitrary: s rule: less_induct)
  case less
  obtain s1 where 1: "bc_step main handler waits s s1" "bc_quiet s s1" "if in_loop s1 then bc_rank s1 < bc_rank s else b_pc s1 = B_gets"
    using advances [OF less.prems] by blast
  show ?case
  proof (cases "in_loop s1")
    case True
    with 1 less.prems have "\<exists>s'. (bc_step main handler waits)\<^sup>*\<^sup>* s1 s' \<and> bc_quiet s1 s' \<and> b_pc s' = B_gets"
      by (intro less.hyps) (auto simp: bc_quiet_def intro: keeps)
    with 1 show ?thesis by (auto simp: bc_quiet_def intro: converse_rtranclp_into_rtranclp)
  next
    case False
    with 1 show ?thesis by auto
  qed
qed

lemma timeout_once:
  assumes "(bc_step main handler waits)\<^sup>*\<^sup>* (bc_start pre lns) s" and "b_end s = None"
  shows "timeouts s = of_bool (in_loop s) \<and> b_sent s @ b_lines s = lns \<and>
    (in_loop s \<longrightarrow> (\<exists>s'. (bc_step main handler waits)\<^sup>*\<^sup>* s s' \<and> bc_quiet s s' \<and> b_pc s' = B_gets))"
  using reachable_inv [OF assms] counts leaves assms(2) by blast

end

text \<open>The versions that also print every reply that they take, in the order of arrival.\<close>

definition lossless :: "bst \<Rightarrow> bool" where
  "lossless s \<longleftrightarrow> map reply_text (b_arrived s) = b_printed s @ map reply_text (b_hand s @ b_queue s)"

locale one_alarm_lossless = one_alarm +
  assumes conserves: "inv lns s \<Longrightarrow> lossless s"
begin

lemma replies_kept: "(bc_step main handler waits)\<^sup>*\<^sup>* (bc_start pre lns) s \<Longrightarrow> b_end s = None \<Longrightarrow> lossless s"
  by (rule conserves [OF reachable_inv])

end
section \<open>Versions 4, 5 and 6\<close>

definition one_place :: "bool \<Rightarrow> bst \<Rightarrow> bool" where
  "one_place b s \<longleftrightarrow> (if b then (b_armed s, b_pending s, b_pipe s) \<in> {(True, False, 0), (False, True, 0), (False, False, 1)}
     else (b_armed s, b_pending s, b_pipe s) = (False, False, 0))"

lemma one_place_timeouts: "one_place b s \<longleftrightarrow> timeouts s = of_bool b"
  by (cases b; cases "b_armed s"; cases "b_pending s") (auto simp: one_place_def timeouts_def)

lemma one_place_net [simp]: "one_place b (s\<lparr>b_queue := q, b_arrived := a\<rparr>) = one_place b s"
  by (simp add: one_place_def)

definition bc_common :: "string list \<Rightarrow> bst \<Rightarrow> bool" where
  "bc_common lns s \<longleftrightarrow> one_place (in_loop s) s \<and> b_sent s @ b_lines s = lns \<and> (b_pc s = B_send \<longrightarrow> b_lines s \<noteq> [])"

text \<open>The calls that a version makes.\<close>

definition pcs4 :: "bpc \<Rightarrow> bool" where
  "pcs4 p \<longleftrightarrow> p \<notin> {B_unblock, B_reblock, B_test, B_sleep, B_testpipe, B_readpipe}"

definition pcs5 :: "bpc \<Rightarrow> bool" where
  "pcs5 p \<longleftrightarrow> p \<notin> {B_block, B_unblock, B_reblock, B_test, B_sleep, B_recv, B_testpipe, B_readpipe}"

definition pcs6 :: "bpc \<Rightarrow> bool" where
  "pcs6 p \<longleftrightarrow> p \<notin> {B_block, B_unblock, B_reblock, B_sleep}"

definition inv4 :: "string list \<Rightarrow> bst \<Rightarrow> bool" where
  "inv4 lns s \<longleftrightarrow> bc_common lns s \<and> lossless s \<and> b_pipe s = 0 \<and> \<not> b_rpipe s \<and> (in_loop s \<longrightarrow> b_blocked s) \<and>
     (b_pc s \<noteq> B_print \<longrightarrow> b_hand s = []) \<and> (b_pc s = B_recv \<longrightarrow> b_queue s \<noteq> []) \<and> (b_pc s = B_alarm \<longrightarrow> b_blocked s) \<and>
     pcs4 (b_pc s)"

definition inv5 :: "string list \<Rightarrow> bst \<Rightarrow> bool" where
  "inv5 lns s \<longleftrightarrow> bc_common lns s \<and> b_pipe s = 0 \<and> \<not> b_blocked s \<and> (b_pc s \<in> {B_in, B_print} \<longrightarrow> b_jmpbuf s) \<and>
     pcs5 (b_pc s)"

definition inv6 :: "string list \<Rightarrow> bst \<Rightarrow> bool" where
  "inv6 lns s \<longleftrightarrow> bc_common lns s \<and> lossless s \<and> \<not> b_blocked s \<and> (b_pc s \<noteq> B_print \<longrightarrow> b_hand s = []) \<and>
     (b_pc s = B_recv \<longrightarrow> b_queue s \<noteq> []) \<and> (b_pc s = B_test \<longrightarrow> b_sock s \<longrightarrow> b_queue s \<noteq> []) \<and>
     (b_pc s \<in> {B_test, B_recv, B_print, B_testpipe} \<longrightarrow> b_rpipe s \<longrightarrow> b_pipe s \<noteq> 0) \<and> (b_pc s = B_readpipe \<longrightarrow> b_pipe s \<noteq> 0) \<and>
     pcs6 (b_pc s)"

lemmas bc_inv_defs = pcs4_def pcs5_def pcs6_def bc_common_def one_place_def in_loop_def lossless_def bc_start_def

lemma in_loop_upd [simp]:
  "in_loop (s\<lparr>b_pending := x\<rparr>) = in_loop s" "in_loop (s\<lparr>b_armed := x\<rparr>) = in_loop s" "in_loop (s\<lparr>b_pipe := n\<rparr>) = in_loop s"
  "in_loop (s\<lparr>b_arrived := as\<rparr>) = in_loop s" "in_loop (s\<lparr>b_queue := q\<rparr>) = in_loop s"
  "\<not> in_loop (s\<lparr>b_pending := x, b_pc := B_gets, b_hand := h\<rparr>)"
  by (simp_all add: in_loop_def)

text \<open>The common part keeps all that the versions ask for.\<close>

lemma bc_head_keeps:
  assumes "bc_head a B_call k s = Some s'" and "b_end s' = None" and "bc_common lns s" and "a = B_alarm \<or> a = B_block"
  shows "bc_common lns s' \<and> b_queue s' = b_queue s \<and> b_arrived s' = b_arrived s \<and> b_hand s' = b_hand s \<and> b_printed s' = b_printed s \<and>
    b_pipe s' = b_pipe s \<and> b_rpipe s' = b_rpipe s \<and> b_jmpbuf s' = b_jmpbuf s \<and> (b_blocked s' \<longleftrightarrow> b_blocked s \<or> b_pc s = B_block) \<and> \<not> in_loop s \<and>
    (b_pc s' = B_call \<longleftrightarrow> b_pc s = B_alarm) \<and> (b_pc s' = B_block \<longleftrightarrow> b_pc s = B_send \<and> a = B_block) \<and>
    (b_pc s' = B_alarm \<longleftrightarrow> b_pc s = B_block \<or> b_pc s = B_send \<and> a = B_alarm) \<and> (in_loop s' \<longrightarrow> b_pc s' = B_call)"
proof (cases "b_pc s")
  case (B_pre cs)
  obtain ps where "s' = s\<lparr>b_pc := B_pre ps\<rparr> \<or> s' = s\<lparr>b_pc := B_gets\<rparr>"
    using assms(1,2) B_pre by (cases k; cases cs) (auto simp: bc_head_def bc_die_def)
  with B_pre assms(3) show ?thesis by (elim disjE) (simp_all add: bc_common_def one_place_def in_loop_def)
next
  case B_gets
  have "s' = s\<lparr>b_pc := (if b_lines s = [] then B_exit else B_send)\<rparr>" using assms(1,2) B_gets by - (auto simp: bc_head_def bc_die_def)
  with B_gets assms(3,4) show ?thesis by (cases "b_lines s") (simp_all add: bc_common_def one_place_def in_loop_def)
next
  case B_send
  have "s' = s\<lparr>b_sent := b_sent s @ [hd (b_lines s)], b_lines := tl (b_lines s), b_pc := a\<rparr>" using assms(1,2) B_send by (cases k) (auto simp: bc_head_def bc_die_def)
  with B_send assms(3,4) show ?thesis by (elim disjE; simp add: bc_common_def one_place_def in_loop_def)
next
  case B_block
  have "s' = s\<lparr>b_blocked := True, b_pc := B_alarm\<rparr>" using assms(1,2) B_block by (cases k) (auto simp: bc_head_def bc_die_def)
  with B_block assms(3,4) show ?thesis by (simp add: bc_common_def one_place_def in_loop_def)
next
  case B_alarm
  have "s' = s\<lparr>b_armed := True, b_pc := B_call\<rparr>" using assms(1,2) B_alarm by - (auto simp: bc_head_def bc_die_def)
  with B_alarm assms(3,4) show ?thesis by (simp add: bc_common_def one_place_def in_loop_def)
qed (use assms in \<open>simp_all add: bc_head_def\<close>)

lemma inv4_prog:
  assumes "inv4 lns s" and "dg_cli4 k s = Some s'" and "b_end s' = None"
  shows "inv4 lns s'"
proof (cases "b_pc s")
  case B_call
  have "s' = s\<lparr>b_pc := B_in\<rparr>" using assms(2) B_call by (simp add: dg_cli4_def)
  with assms(1) B_call show ?thesis by (auto simp: inv4_def bc_inv_defs)
next
  case B_in
  consider (ready) "b_queue s \<noteq> []" "s' = s\<lparr>b_pc := B_recv\<rparr>" | (intr) "b_pending s" "s' = s\<lparr>b_pending := False, b_pc := B_gets\<rparr>"
    using assms(2,3) B_in by (cases k) (auto simp: dg_cli4_def bc_die_def bc_eintr_def recvfrom_alarm_def split: if_splits)
  then show ?thesis using assms(1) B_in by cases (auto simp: inv4_def bc_inv_defs)
next
  case B_recv
  then obtain r rs where r: "b_queue s = r # rs" using assms(1) by (auto simp: inv4_def neq_Nil_conv)
  have "s' = s\<lparr>b_queue := rs, b_hand := [r], b_intr := False, b_pc := B_print\<rparr>"
    using assms(2,3) B_recv r by (cases k) (auto simp: dg_cli4_def bc_defs)
  with assms(1) B_recv r show ?thesis by (auto simp: inv4_def bc_inv_defs)
next
  case B_print
  have "s' = s\<lparr>b_printed := b_printed s @ map reply_text (b_hand s), b_hand := [], b_pc := B_call\<rparr>"
    using assms(2,3) B_print by (cases k) (auto simp: dg_cli4_def bc_defs)
  with assms(1) B_print show ?thesis by (auto simp: inv4_def bc_inv_defs)
qed (use assms bc_head_keeps [of B_block k s s' lns] in \<open>auto simp: dg_cli4_def inv4_def lossless_def in_loop_def pcs4_def\<close>)

lemma inv4_step:
  assumes "inv4 lns s" and "step4 s s'" and "b_end s' = None"
  shows "inv4 lns s'"
  using assms(2)
proof (cases rule: bc_step.cases)
  case (prog k)
  with assms show ?thesis by (blast intro: inv4_prog)
next
  case tick
  with assms(1) show ?thesis by (auto simp: inv4_def bc_common_def one_place_def lossless_def split: if_splits)
next
  case deliver
  with assms(1,3) show ?thesis
    by (cases "in_loop s") (simp_all add: inv4_def bc_common_def one_place_def lossless_def in_wait_def no_wait_def recvfrom_alarm_def split: if_splits)
next
  case net
  with assms(1) show ?thesis by (simp add: inv4_def bc_common_def lossless_def)
qed

lemma inv5_prog:
  assumes "inv5 lns s" and "dg_cli5 k s = Some s'" and "b_end s' = None"
  shows "inv5 lns s'"
proof (cases "b_pc s")
  case B_call
  have "s' = s\<lparr>b_jmpbuf := True, b_pc := B_in\<rparr>" using assms(2) B_call by (simp add: dg_cli5_def)
  with assms(1) B_call show ?thesis by (auto simp: inv5_def bc_inv_defs)
next
  case B_in
  obtain r rs where "b_queue s = r # rs" "s' = s\<lparr>b_queue := rs, b_hand := [r], b_intr := False, b_pc := B_print\<rparr>"
    using assms(2,3) B_in by (cases k) (auto simp: dg_cli5_def bc_defs split: list.splits if_splits)
  with assms(1) B_in show ?thesis by (auto simp: inv5_def bc_inv_defs)
next
  case B_print
  have "s' = s\<lparr>b_printed := b_printed s @ map reply_text (b_hand s), b_hand := [], b_pc := B_call\<rparr>"
    using assms(2,3) B_print by (cases k) (auto simp: dg_cli5_def bc_defs)
  with assms(1) B_print show ?thesis by (auto simp: inv5_def bc_inv_defs)
qed (use assms bc_head_keeps [of B_alarm k s s' lns] in \<open>auto simp: dg_cli5_def inv5_def lossless_def in_loop_def pcs5_def\<close>)

lemma inv5_step:
  assumes "inv5 lns s" and "step5 s s'" and "b_end s' = None"
  shows "inv5 lns s'"
  using assms(2)
proof (cases rule: bc_step.cases)
  case (prog k)
  with assms show ?thesis by (blast intro: inv5_prog)
next
  case tick
  with assms(1) show ?thesis by (auto simp: inv5_def bc_common_def one_place_def split: if_splits)
next
  case deliver
  with assms(1,3) show ?thesis
    by (cases "in_loop s") (simp_all add: inv5_def bc_common_def one_place_def lossless_def in_wait_def no_wait_def recvfrom_alarm_jump_def pcs5_def split: if_splits)
next
  case net
  with assms(1) show ?thesis by (simp add: inv5_def bc_common_def)
qed

lemma inv6_prog:
  assumes "inv6 lns s" and "dg_cli6 k s = Some s'" and "b_end s' = None"
  shows "inv6 lns s'"
proof (cases "b_pc s")
  case B_call
  have "s' = s\<lparr>b_pc := B_in\<rparr>"
    using assms(2,3) B_call by - (auto simp: dg_cli6_def bc_defs split: if_splits)
  with assms(1) B_call show ?thesis by (auto simp: inv6_def bc_inv_defs split: if_splits)
next
  case B_in
  consider (ready) "s' = s\<lparr>b_sock := b_queue s \<noteq> [], b_rpipe := b_pipe s \<noteq> 0, b_pc := B_test\<rparr>"
    | (intr) "b_pending s" "s' = s\<lparr>b_pending := False, b_pipe := b_pipe s + 1, b_pc := B_call\<rparr>"
    using assms(2,3) B_in by (cases k) (auto simp: dg_cli6_def bc_die_def bc_eintr_def recvfrom_alarm_pipe_def split: if_splits)
  then show ?thesis using assms(1) B_in by cases (simp_all add: inv6_def bc_inv_defs)
next
  case B_test
  have "s' = s\<lparr>b_pc := (if b_sock s then B_recv else B_testpipe)\<rparr>"
    using assms(2,3) B_test by - (auto simp: dg_cli6_def bc_defs split: if_splits)
  with assms(1) B_test show ?thesis by (auto simp: inv6_def bc_inv_defs split: if_splits)
next
  case B_recv
  then obtain r rs where r: "b_queue s = r # rs" using assms(1) by (auto simp: inv6_def neq_Nil_conv)
  have "s' = s\<lparr>b_queue := rs, b_hand := [r], b_intr := False, b_pc := B_print\<rparr>"
    using assms(2,3) B_recv r by (cases k) (auto simp: dg_cli6_def bc_defs)
  with assms(1) B_recv r show ?thesis by (simp add: inv6_def bc_inv_defs)
next
  case B_print
  have "s' = s\<lparr>b_printed := b_printed s @ map reply_text (b_hand s), b_hand := [], b_pc := B_testpipe\<rparr>"
    using assms(2,3) B_print by (cases k) (auto simp: dg_cli6_def bc_defs split: if_splits)
  with assms(1) B_print show ?thesis by (auto simp: inv6_def bc_inv_defs split: if_splits)
next
  case B_testpipe
  have "s' = s\<lparr>b_pc := (if b_rpipe s then B_readpipe else B_call)\<rparr>"
    using assms(2,3) B_testpipe by - (auto simp: dg_cli6_def bc_defs split: if_splits)
  with assms(1) B_testpipe show ?thesis by (auto simp: inv6_def bc_inv_defs split: if_splits)
next
  case B_readpipe
  have "s' = s\<lparr>b_pipe := b_pipe s - 1, b_pc := B_gets\<rparr>"
    using assms(2,3) B_readpipe by (cases k) (auto simp: dg_cli6_def bc_defs split: if_splits)
  with assms(1) B_readpipe show ?thesis by (auto simp: inv6_def bc_inv_defs split: if_splits)
qed (use assms bc_head_keeps [of B_alarm k s s' lns] in \<open>auto simp: dg_cli6_def inv6_def lossless_def in_loop_def pcs6_def\<close>)

lemma inv6_step:
  assumes "inv6 lns s" and "step6 s s'" and "b_end s' = None"
  shows "inv6 lns s'"
  using assms(2)
proof (cases rule: bc_step.cases)
  case (prog k)
  with assms show ?thesis by (blast intro: inv6_prog)
next
  case tick
  with assms(1) show ?thesis by (auto simp: inv6_def bc_common_def one_place_def lossless_def split: if_splits)
next
  case deliver
  with assms(1,3) show ?thesis
    by (cases "in_loop s") (simp_all add: inv6_def bc_common_def one_place_def lossless_def in_wait_def no_wait_def recvfrom_alarm_pipe_def split: if_splits)
next
  case net
  with assms(1) show ?thesis by (simp add: inv6_def bc_common_def lossless_def)
qed
text \<open>In the loop the time-out can always be brought to its end.\<close>

lemma bc_progI: "b_end s = None \<Longrightarrow> main k s = Some s' \<Longrightarrow> bc_step main handler waits s s'"
  by (rule bc_step.prog)

lemma bc_tick_quiet:
  assumes "b_end s = None" and "b_armed s" and "\<not> b_pending s"
  shows "bc_step main handler waits s (s\<lparr>b_armed := False, b_pending := True\<rparr>) \<and> bc_quiet s (s\<lparr>b_armed := False, b_pending := True\<rparr>) \<and>
    in_loop (s\<lparr>b_armed := False, b_pending := True\<rparr>) = in_loop s \<and> bc_rank (s\<lparr>b_armed := False, b_pending := True\<rparr>) < bc_rank s"
  using assms by (auto simp: bc_quiet_def bc_rank_def intro: bc_step.tick)

definition bc_nearer :: "bst \<Rightarrow> bst \<Rightarrow> bool" where
  "bc_nearer s s' \<longleftrightarrow> bc_quiet s s' \<and> (if in_loop s' then bc_rank s' < bc_rank s else b_pc s' = B_gets)"

lemma bc_prog_nearer:
  "main k s = Some s' \<Longrightarrow> bc_nearer s s' \<Longrightarrow> b_end s = None \<Longrightarrow> \<exists>s'. bc_step main handler waits s s' \<and> bc_nearer s s'"
  by (blast intro: bc_step.prog)

lemma bc_tick_nearer:
  assumes "b_end s = None" and "b_armed s" and "\<not> b_pending s" and "in_loop s"
  shows "\<exists>s'. bc_step main handler waits s s' \<and> bc_nearer s s'"
  using bc_tick_quiet [OF assms(1-3)] assms(4) unfolding bc_nearer_def by (intro exI) auto

lemma one_place_armed: "one_place b s \<Longrightarrow> b_armed s \<Longrightarrow> \<not> b_pending s"
  by (auto simp: one_place_def split: if_splits)

lemma one_place_rest: "one_place (in_loop s) s \<Longrightarrow> in_loop s \<Longrightarrow> \<not> b_armed s \<Longrightarrow> b_pending s \<or> b_pipe s \<noteq> 0"
  by (auto simp: one_place_def)

lemma inv_places:
  "inv4 lns s \<Longrightarrow> one_place (in_loop s) s" "inv5 lns s \<Longrightarrow> one_place (in_loop s) s" "inv6 lns s \<Longrightarrow> one_place (in_loop s) s"
  by (simp_all add: inv4_def inv5_def inv6_def bc_common_def)

lemmas bc_near_defs = bc_nearer_def bc_quiet_def in_loop_def bc_rank_def

lemma inv4_advances:
  assumes "inv4 lns s" and "in_loop s" and "b_end s = None"
  shows "\<exists>s'. step4 s s' \<and> bc_nearer s s'"
proof (cases "b_armed s")
  case True
  with assms one_place_armed [OF inv_places(1)] show ?thesis by (intro bc_tick_nearer) blast+
next
  case False
  from one_place_rest [OF inv_places(1) [OF assms(1)] assms(2) False] assms(1) have p: "b_pending s" by (simp add: inv4_def)
  show ?thesis
  proof (cases "b_pc s")
    case B_call
    have "dg_cli4 K_ok s = Some (s\<lparr>b_pc := B_in\<rparr>)" using B_call by (simp add: dg_cli4_def bc_defs recvfrom_alarm_pipe_def)
    moreover have "bc_nearer s (s\<lparr>b_pc := B_in\<rparr>)" using B_call assms(3) by (simp add: bc_near_defs)
    ultimately show ?thesis using assms(3) by (rule bc_prog_nearer)
  next
    case B_in
    have "dg_cli4 (K_err EINTR) s = Some (s\<lparr>b_pending := False, b_pc := B_gets\<rparr>)" using B_in p by (simp add: dg_cli4_def bc_defs recvfrom_alarm_pipe_def)
    moreover have "bc_nearer s (s\<lparr>b_pending := False, b_pc := B_gets\<rparr>)" using B_in assms(3) p by (simp add: bc_near_defs)
    ultimately show ?thesis using assms(3) by (rule bc_prog_nearer)
  next
    case B_recv
    then obtain r rs where r: "b_queue s = r # rs" using assms(1) by (auto simp: inv4_def neq_Nil_conv)
    have "dg_cli4 K_ok s = Some (s\<lparr>b_queue := rs, b_hand := [r], b_intr := False, b_pc := B_print\<rparr>)" using B_recv r by (simp add: dg_cli4_def bc_defs recvfrom_alarm_pipe_def)
    moreover have "bc_nearer s (s\<lparr>b_queue := rs, b_hand := [r], b_intr := False, b_pc := B_print\<rparr>)" using B_recv assms(1,3) by (simp add: bc_near_defs inv4_def)
    ultimately show ?thesis using assms(3) by (rule bc_prog_nearer)
  next
    case B_print
    have "dg_cli4 K_ok s = Some (s\<lparr>b_printed := b_printed s @ map reply_text (b_hand s), b_hand := [], b_pc := B_call\<rparr>)" using B_print by (simp add: dg_cli4_def bc_defs recvfrom_alarm_pipe_def)
    moreover have "bc_nearer s (s\<lparr>b_printed := b_printed s @ map reply_text (b_hand s), b_hand := [], b_pc := B_call\<rparr>)" using B_print assms(1,3) by (simp add: bc_near_defs inv4_def)
    ultimately show ?thesis using assms(3) by (rule bc_prog_nearer)
  qed (use assms in \<open>auto simp: inv4_def pcs4_def in_loop_def\<close>)
qed

text \<open>In version 5 the delivery of the signal itself ends the wait, once \<^verbatim>\<open>sigsetjmp\<close> was called.\<close>

lemma inv5_advances:
  assumes "inv5 lns s" and "in_loop s" and "b_end s = None"
  shows "\<exists>s'. step5 s s' \<and> bc_nearer s s'"
proof (cases "b_armed s")
  case True
  with assms one_place_armed [OF inv_places(2)] show ?thesis by (intro bc_tick_nearer) blast+
next
  case False
  from one_place_rest [OF inv_places(2) [OF assms(1)] assms(2) False] assms(1) have p: "b_pending s" "\<not> b_blocked s" by (simp_all add: inv5_def)
  show ?thesis
  proof (cases "b_jmpbuf s")
    case True
    with assms(3) p have "step5 s (recvfrom_alarm_jump (s\<lparr>b_pending := False\<rparr>))" by (auto simp: no_wait_def intro: bc_step.deliver)
    moreover have "bc_nearer s (recvfrom_alarm_jump (s\<lparr>b_pending := False\<rparr>))"
      using True assms(3) by (simp add: recvfrom_alarm_jump_def bc_nearer_def bc_quiet_def in_loop_def)
    ultimately show ?thesis by blast
  next
    case False
    with assms have c: "b_pc s = B_call" by (cases "b_pc s") (auto simp: inv5_def pcs5_def in_loop_def)
    then have "dg_cli5 K_ok s = Some (s\<lparr>b_jmpbuf := True, b_pc := B_in\<rparr>)" by (simp add: dg_cli5_def)
    moreover have "bc_nearer s (s\<lparr>b_jmpbuf := True, b_pc := B_in\<rparr>)" using c assms(3) by (simp add: bc_near_defs)
    ultimately show ?thesis using assms(3) by (rule bc_prog_nearer)
  qed
qed

lemma inv6_advances:
  assumes "inv6 lns s" and "in_loop s" and "b_end s = None"
  shows "\<exists>s'. step6 s s' \<and> bc_nearer s s'"
proof (cases "b_armed s")
  case True
  with assms one_place_armed [OF inv_places(3)] show ?thesis by (intro bc_tick_nearer) blast+
next
  case False
  from one_place_rest [OF inv_places(3) [OF assms(1)] assms(2) False] assms(1) have p: "b_pending s \<or> b_pipe s \<noteq> 0" "\<not> b_blocked s" by (simp_all add: inv6_def)
  show ?thesis
  proof (cases "b_pc s")
    case B_call
    have "dg_cli6 K_ok s = Some (s\<lparr>b_pc := B_in\<rparr>)" using B_call by (simp add: dg_cli6_def bc_defs recvfrom_alarm_pipe_def)
    moreover have "bc_nearer s (s\<lparr>b_pc := B_in\<rparr>)" using B_call assms(3) by (simp add: bc_near_defs)
    ultimately show ?thesis using assms(3) by (rule bc_prog_nearer)
  next
    case B_in
    show ?thesis
    proof (cases "b_pending s")
      case True
      then have "dg_cli6 (K_err EINTR) s = Some (s\<lparr>b_pending := False, b_pipe := b_pipe s + 1, b_pc := B_call\<rparr>)" using B_in p by (simp add: dg_cli6_def bc_defs recvfrom_alarm_pipe_def)
      moreover have "bc_nearer s (s\<lparr>b_pending := False, b_pipe := b_pipe s + 1, b_pc := B_call\<rparr>)" using True B_in assms(3) by (simp add: bc_near_defs)
      ultimately show ?thesis using assms(3) by (rule bc_prog_nearer)
    next
      case False
      with p have q: "b_pipe s \<noteq> 0" by simp
      then have "dg_cli6 K_ok s = Some (s\<lparr>b_sock := b_queue s \<noteq> [], b_rpipe := b_pipe s \<noteq> 0, b_pc := B_test\<rparr>)" using B_in by (simp add: dg_cli6_def)
      moreover have "bc_nearer s (s\<lparr>b_sock := b_queue s \<noteq> [], b_rpipe := b_pipe s \<noteq> 0, b_pc := B_test\<rparr>)" using False q B_in assms(3) by (simp add: bc_near_defs)
      ultimately show ?thesis using assms(3) by (rule bc_prog_nearer)
    qed
  next
    case B_test
    have "dg_cli6 K_ok s = Some (s\<lparr>b_pc := (if b_sock s then B_recv else B_testpipe)\<rparr>)" using B_test by (simp add: dg_cli6_def bc_defs recvfrom_alarm_pipe_def)
    moreover have "bc_nearer s (s\<lparr>b_pc := (if b_sock s then B_recv else B_testpipe)\<rparr>)" using B_test assms(3) by (simp add: bc_near_defs)
    ultimately show ?thesis using assms(3) by (rule bc_prog_nearer)
  next
    case B_recv
    then obtain r rs where r: "b_queue s = r # rs" using assms(1) by (auto simp: inv6_def neq_Nil_conv)
    have "dg_cli6 K_ok s = Some (s\<lparr>b_queue := rs, b_hand := [r], b_intr := False, b_pc := B_print\<rparr>)" using B_recv r by (simp add: dg_cli6_def bc_defs recvfrom_alarm_pipe_def)
    moreover have "bc_nearer s (s\<lparr>b_queue := rs, b_hand := [r], b_intr := False, b_pc := B_print\<rparr>)" using B_recv assms(3) by (simp add: bc_near_defs)
    ultimately show ?thesis using assms(3) by (rule bc_prog_nearer)
  next
    case B_print
    have "dg_cli6 K_ok s = Some (s\<lparr>b_printed := b_printed s @ map reply_text (b_hand s), b_hand := [], b_pc := B_testpipe\<rparr>)" using B_print by (simp add: dg_cli6_def bc_defs recvfrom_alarm_pipe_def)
    moreover have "bc_nearer s (s\<lparr>b_printed := b_printed s @ map reply_text (b_hand s), b_hand := [], b_pc := B_testpipe\<rparr>)" using B_print assms(3) by (simp add: bc_near_defs)
    ultimately show ?thesis using assms(3) by (rule bc_prog_nearer)
  next
    case B_testpipe
    have "dg_cli6 K_ok s = Some (s\<lparr>b_pc := (if b_rpipe s then B_readpipe else B_call)\<rparr>)" using B_testpipe by (simp add: dg_cli6_def bc_defs recvfrom_alarm_pipe_def)
    moreover have "bc_nearer s (s\<lparr>b_pc := (if b_rpipe s then B_readpipe else B_call)\<rparr>)" using B_testpipe assms(3) by (simp add: bc_near_defs)
    ultimately show ?thesis using assms(3) by (rule bc_prog_nearer)
  next
    case B_readpipe
    have "dg_cli6 K_ok s = Some (s\<lparr>b_pipe := b_pipe s - 1, b_pc := B_gets\<rparr>)" using B_readpipe assms(1) by (simp add: dg_cli6_def inv6_def)
    moreover have "bc_nearer s (s\<lparr>b_pipe := b_pipe s - 1, b_pc := B_gets\<rparr>)" using B_readpipe assms(3) by (simp add: bc_near_defs)
    ultimately show ?thesis using assms(3) by (rule bc_prog_nearer)
  qed (use assms in \<open>auto simp: inv6_def pcs6_def in_loop_def\<close>)
qed

section \<open>Versions 4, 5 and 6 time out once per line\<close>

lemma bc_laws:
  "inv4 lns (bc_start pre_pselect lns)" "inv5 lns (bc_start pre_plain lns)" "inv6 lns (bc_start pre_pipe lns)"
  by (simp_all add: inv4_def inv5_def inv6_def bc_inv_defs)

lemma inv_counts:
  assumes "inv4 lns s \<or> inv5 lns s \<or> inv6 lns s"
  shows "timeouts s = of_bool (in_loop s) \<and> b_sent s @ b_lines s = lns"
proof -
  from assms have "bc_common lns s" by (elim disjE) (simp_all add: inv4_def inv5_def inv6_def)
  then show ?thesis by (simp add: bc_common_def one_place_timeouts)
qed

interpretation dg4: one_alarm_lossless dg_cli4 recvfrom_alarm in_wait pre_pselect inv4
proof (unfold_locales, goal_cases)
  case (1 lns)
  show ?case by (rule bc_laws)
next
  case (2 lns s s')
  then show ?case by (rule inv4_step)
next
  case (3 lns s)
  then show ?case using inv_counts by blast
next
  case (4 lns s)
  then show ?case using inv4_advances unfolding bc_nearer_def by blast
next
  case (5 lns s)
  then show ?case by (simp add: inv4_def)
qed

interpretation dg5: one_alarm dg_cli5 recvfrom_alarm_jump no_wait pre_plain inv5
proof (unfold_locales, goal_cases)
  case (1 lns)
  show ?case by (rule bc_laws)
next
  case (2 lns s s')
  then show ?case by (rule inv5_step)
next
  case (3 lns s)
  then show ?case using inv_counts by blast
next
  case (4 lns s)
  then show ?case using inv5_advances unfolding bc_nearer_def by blast
qed

interpretation dg6: one_alarm_lossless dg_cli6 recvfrom_alarm_pipe in_wait pre_pipe inv6
proof (unfold_locales, goal_cases)
  case (1 lns)
  show ?case by (rule bc_laws)
next
  case (2 lns s s')
  then show ?case by (rule inv6_step)
next
  case (3 lns s)
  then show ?case using inv_counts by blast
next
  case (4 lns s)
  then show ?case using inv6_advances unfolding bc_nearer_def by blast
next
  case (5 lns s)
  then show ?case by (simp add: inv6_def)
qed
definition times_out_once :: "(bst \<Rightarrow> bst \<Rightarrow> bool) \<Rightarrow> string list \<Rightarrow> bst \<Rightarrow> bool" where
  "times_out_once step lns s \<longleftrightarrow> timeouts s = of_bool (in_loop s) \<and> b_sent s @ b_lines s = lns \<and>
     (in_loop s \<longrightarrow> (\<exists>s'. step\<^sup>*\<^sup>* s s' \<and> bc_quiet s s' \<and> b_pc s' = B_gets))"

section \<open>Versions 1, 2 and 3 can lose the alarm\<close>

text \<open>The alarm has gone off and its handler has run, but not in \<^verbatim>\<open>recvfrom\<close>.\<close>

definition bc_lost :: "bst \<Rightarrow> bool" where
  "bc_lost s \<longleftrightarrow> in_loop s \<and> \<not> b_armed s \<and> \<not> b_pending s \<and> (b_pc s \<in> {B_reblock, B_test} \<longrightarrow> \<not> b_intr s)"

definition never_leaves :: "(bst \<Rightarrow> bst \<Rightarrow> bool) \<Rightarrow> bst \<Rightarrow> bool" where
  "never_leaves step s \<longleftrightarrow> b_end s = None \<and>
     (\<forall>s'. step\<^sup>*\<^sup>* s s' \<longrightarrow> b_end s' = None \<longrightarrow> in_loop s' \<and> b_sent s' = b_sent s \<and> b_lines s' = b_lines s)"

definition lost_law :: "(kret \<Rightarrow> bst \<Rightarrow> bst option) \<Rightarrow> bool" where
  "lost_law main \<longleftrightarrow> (\<forall>k s s'. bc_lost s \<longrightarrow> main k s = Some s' \<longrightarrow>
     b_end s' \<noteq> None \<or> bc_lost s' \<and> b_sent s' = b_sent s \<and> b_lines s' = b_lines s)"

lemma bc_lost_step:
  assumes "lost_law main" and "bc_lost s" and "bc_step main recvfrom_alarm waits s s'"
  shows "b_end s' \<noteq> None \<or> bc_lost s' \<and> b_sent s' = b_sent s \<and> b_lines s' = b_lines s"
  using assms(3)
proof (cases rule: bc_step.cases)
  case (prog k)
  with assms(1,2) show ?thesis unfolding lost_law_def by blast
qed (use assms(2) in \<open>simp_all add: bc_lost_def in_loop_def\<close>)

lemma bc_lost_stays:
  assumes "lost_law main" and "bc_lost s" and "(bc_step main recvfrom_alarm waits)\<^sup>*\<^sup>* s s'"
  shows "b_end s' \<noteq> None \<or> bc_lost s' \<and> b_sent s' = b_sent s \<and> b_lines s' = b_lines s"
  using assms(3)
proof (induction rule: rtranclp_induct)
  case base
  with assms(2) show ?case by simp
next
  case (step t t')
  from step.hyps(2) have "b_end t = None" by (auto elim: bc_stepE)
  with step.IH bc_lost_step [OF assms(1) _ step.hyps(2)] show ?case by auto
qed

lemma lost_never_leaves:
  assumes "lost_law main" and "bc_lost s" and "b_end s = None"
  shows "never_leaves (bc_step main recvfrom_alarm waits) s"
  using assms(3) bc_lost_stays [OF assms(1,2), where waits = waits] unfolding never_leaves_def bc_lost_def by metis

lemma lost_recv:
  assumes "bc_lost s" and "b_pc s = B_in" and "in_recvfrom got intr k s = Some s'" and "got \<in> {B_print, B_sleep, B_reblock}"
  shows "b_end s' \<noteq> None \<or> bc_lost s' \<and> b_sent s' = b_sent s \<and> b_lines s' = b_lines s"
proof (cases k)
  case K_ok
  then obtain r rs where "s' = s\<lparr>b_queue := rs, b_hand := [r], b_intr := False, b_pc := got\<rparr>"
    using assms(3) by (auto simp: in_recvfrom_def bc_take_def split: list.splits)
  with assms(1,2,4) show ?thesis by (auto simp: bc_lost_def in_loop_def)
next
  case (K_err e)
  with assms(1,3) show ?thesis by (auto simp: in_recvfrom_def bc_eintr_def bc_die_def bc_lost_def split: if_splits)
qed

lemma lost_print:
  assumes "bc_lost s" and "bc_print next k s = Some s'" and "next \<in> {B_call, B_unblock}"
  shows "b_end s' \<noteq> None \<or> bc_lost s' \<and> b_sent s' = b_sent s \<and> b_lines s' = b_lines s"
  using assms by (cases k) (auto simp: bc_print_def bc_die_def bc_lost_def in_loop_def)

lemma lost_not_head: "bc_lost s \<Longrightarrow> bc_head a l k s = None"
  by (cases "b_pc s") (simp_all add: bc_lost_def in_loop_def bc_head_def)

lemma lost_laws: "lost_law dg_cli1" "lost_law dg_cli2" "lost_law dg_cli3"
proof -
  show "lost_law dg_cli1" unfolding lost_law_def
  proof (intro allI impI)
    fix k s s' assume *: "bc_lost s" "dg_cli1 k s = Some s'"
    then show "b_end s' \<noteq> None \<or> bc_lost s' \<and> b_sent s' = b_sent s \<and> b_lines s' = b_lines s"
    proof (cases "b_pc s")
      case B_call
      with * show ?thesis by (auto simp: dg_cli1_def bc_lost_def in_loop_def)
    qed (use * lost_recv [of s B_print B_gets k s'] lost_print [of s B_call k s'] in \<open>simp_all add: dg_cli1_def lost_not_head\<close>)
  qed
  show "lost_law dg_cli2" unfolding lost_law_def
  proof (intro allI impI)
    fix k s s' assume *: "bc_lost s" "dg_cli2 k s = Some s'"
    then show "b_end s' \<noteq> None \<or> bc_lost s' \<and> b_sent s' = b_sent s \<and> b_lines s' = b_lines s"
    proof (cases "b_pc s")
      case B_call
      with * show ?thesis by (auto simp: dg_cli2_def bc_lost_def in_loop_def)
    next
      case B_sleep
      with * show ?thesis by (auto simp: dg_cli2_def bc_lost_def in_loop_def)
    qed (use * lost_recv [of s B_sleep B_gets k s'] lost_print [of s B_call k s'] in \<open>simp_all add: dg_cli2_def lost_not_head\<close>)
  qed
  show "lost_law dg_cli3" unfolding lost_law_def
  proof (intro allI impI)
    fix k s s' assume *: "bc_lost s" "dg_cli3 k s = Some s'"
    then show "b_end s' \<noteq> None \<or> bc_lost s' \<and> b_sent s' = b_sent s \<and> b_lines s' = b_lines s"
    proof (cases "b_pc s")
      case B_unblock
      with * show ?thesis by (cases k) (auto simp: dg_cli3_def bc_lost_def in_loop_def bc_die_def)
    next
      case B_call
      with * show ?thesis by (auto simp: dg_cli3_def bc_lost_def in_loop_def)
    next
      case B_reblock
      with * show ?thesis by (cases k) (auto simp: dg_cli3_def bc_lost_def in_loop_def bc_die_def)
    next
      case B_test
      with * show ?thesis by (auto simp: dg_cli3_def bc_lost_def in_loop_def)
    qed (use * lost_recv [of s B_reblock B_reblock k s'] lost_print [of s B_unblock k s'] in \<open>simp_all add: dg_cli3_def lost_not_head\<close>)
  qed
qed

text \<open>Runs as sequences of moves.\<close>

datatype bmove = M_prog kret | M_tick | M_deliver | M_net reply

fun bc_move :: "(kret \<Rightarrow> bst \<Rightarrow> bst option) \<Rightarrow> (bst \<Rightarrow> bst) \<Rightarrow> (bst \<Rightarrow> bool) \<Rightarrow> bmove \<Rightarrow> bst \<Rightarrow> bst option" where
  "bc_move main handler waits m s =
     (if b_end s \<noteq> None then None
      else case m of
        M_prog k \<Rightarrow> main k s
      | M_tick \<Rightarrow> if b_armed s then Some (s\<lparr>b_armed := False, b_pending := True\<rparr>) else None
      | M_deliver \<Rightarrow> if b_pending s \<and> \<not> b_blocked s \<and> \<not> waits s then Some (handler (s\<lparr>b_pending := False\<rparr>)) else None
      | M_net r \<Rightarrow> Some (s\<lparr>b_queue := b_queue s @ [r], b_arrived := b_arrived s @ [r]\<rparr>))"

fun bc_run :: "(kret \<Rightarrow> bst \<Rightarrow> bst option) \<Rightarrow> (bst \<Rightarrow> bst) \<Rightarrow> (bst \<Rightarrow> bool) \<Rightarrow> bmove list \<Rightarrow> bst \<Rightarrow> bst option" where
  "bc_run main handler waits [] s = Some s"
| "bc_run main handler waits (m # ms) s = (case bc_move main handler waits m s of None \<Rightarrow> None | Some s' \<Rightarrow> bc_run main handler waits ms s')"

lemma bc_move_step: "bc_move main handler waits m s = Some s' \<Longrightarrow> bc_step main handler waits s s'"
  by (cases m) (auto intro: bc_step.intros split: if_splits)

lemma bc_run_steps: "bc_run main handler waits ms s = Some s' \<Longrightarrow> (bc_step main handler waits)\<^sup>*\<^sup>* s s'"
proof (induction ms arbitrary: s)
  case (Cons m ms)
  then show ?case by (auto simp del: bc_move.simps split: option.splits intro: converse_rtranclp_into_rtranclp bc_move_step)
qed simp

text \<open>The first line is sent, no reply comes, and the signal is delivered just before the call of \<^verbatim>\<open>recvfrom\<close>.\<close>

definition lost_moves :: "nat \<Rightarrow> bmove list" where
  "lost_moves n = replicate n (M_prog K_ok) @ [M_tick, M_deliver]"

lemma lost_run:
  assumes "lost_law main" and "\<exists>s. bc_run main recvfrom_alarm waits ms (bc_start pre lns) = Some s \<and> bc_lost s \<and> b_end s = None"
  shows "\<exists>s. (bc_step main recvfrom_alarm waits)\<^sup>*\<^sup>* (bc_start pre lns) s \<and> never_leaves (bc_step main recvfrom_alarm waits) s"
  using bc_run_steps lost_never_leaves [OF assms(1)] assms(2) by blast

lemma lost1: "\<exists>s. step1\<^sup>*\<^sup>* (bc_start pre_plain (l # ls)) s \<and> never_leaves step1 s"
  by (rule lost_run [OF lost_laws(1), where ms = "lost_moves 7"])
    (simp add: lost_moves_def numeral_eq_Suc bc_start_def pre_plain_def dg_cli1_def bc_head_def in_wait_def recvfrom_alarm_def bc_lost_def in_loop_def)

lemma lost2: "\<exists>s. step2\<^sup>*\<^sup>* (bc_start pre_plain (l # ls)) s \<and> never_leaves step2 s"
  by (rule lost_run [OF lost_laws(2), where ms = "lost_moves 7"])
    (simp add: lost_moves_def numeral_eq_Suc bc_start_def pre_plain_def dg_cli2_def bc_head_def in_wait_def recvfrom_alarm_def bc_lost_def in_loop_def)

lemma lost3: "\<exists>s. step3\<^sup>*\<^sup>* (bc_start pre_mask (l # ls)) s \<and> never_leaves step3 s"
  by (rule lost_run [OF lost_laws(3), where ms = "lost_moves 10"])
    (simp add: lost_moves_def numeral_eq_Suc bc_start_def pre_mask_def dg_cli3_def bc_head_def in_wait_def recvfrom_alarm_def bc_lost_def in_loop_def)

text \<open>The jump of version 5 can go through a reply that was taken and not yet printed, and before the first \<^verbatim>\<open>sigsetjmp\<close> it has no target.\<close>

lemma dg_cli5_drops: "\<exists>s. step5\<^sup>*\<^sup>* (bc_start pre_plain (l # ls)) s \<and> b_end s = None \<and> \<not> lossless s"
proof -
  have "\<exists>s. bc_run dg_cli5 recvfrom_alarm_jump no_wait
      (replicate 8 (M_prog K_ok) @ [M_net (''h'', ''x''), M_prog K_ok, M_tick, M_deliver]) (bc_start pre_plain (l # ls)) = Some s \<and> b_end s = None \<and> \<not> lossless s"
    by (simp add: numeral_eq_Suc bc_start_def pre_plain_def dg_cli5_def bc_head_def bc_take_def no_wait_def recvfrom_alarm_jump_def lossless_def)
  then show ?thesis by (blast intro: bc_run_steps)
qed

lemma dg_cli5_undefined: "\<exists>s. step5\<^sup>*\<^sup>* (bc_start pre_plain (l # ls)) s \<and> b_end s = Some B_undefined"
proof -
  have "\<exists>s. bc_run dg_cli5 recvfrom_alarm_jump no_wait (lost_moves 7) (bc_start pre_plain (l # ls)) = Some s \<and> b_end s = Some B_undefined"
    by (simp add: lost_moves_def numeral_eq_Suc bc_start_def pre_plain_def dg_cli5_def bc_head_def no_wait_def recvfrom_alarm_jump_def)
  then show ?thesis by (blast intro: bc_run_steps)
qed

section \<open>Properties\<close>



text \<open>
  C40. The versions in which the handler only interrupts \<^verbatim>\<open>recvfrom\<close> can hang for every input: when the signal is delivered just before the call, the wait for that line
  never ends, whatever replies come. Blocking the signal between the calls, as in version 3, does not help.
\<close>

theorem bcast_alarm_lost:
  "(\<exists>s. step1\<^sup>*\<^sup>* (bc_start pre_plain (l # ls)) s \<and> never_leaves step1 s) \<and>
   (\<exists>s. step2\<^sup>*\<^sup>* (bc_start pre_plain (l # ls)) s \<and> never_leaves step2 s) \<and>
   (\<exists>s. step3\<^sup>*\<^sup>* (bc_start pre_mask (l # ls)) s \<and> never_leaves step3 s)"
  using lost1 lost2 lost3 by blast

end
