(* ===== verification/Thread_Examples.thy ===== *)
theory Thread_Examples
  imports Fifo Locking
begin

text \<open>
  The examples of \<^verbatim>\<open>threads/\<close>: two threads that increment a counter, without (\<^verbatim>\<open>example01.c\<close>) and with a mutex (\<^verbatim>\<open>example02.c\<close>), and a producer and a consumer
  around a bounded buffer with a mutex and two condition variables (\<^verbatim>\<open>example03.c\<close>). A step is one access to shared data or one call; the threads interleave freely.
\<close>

section \<open>Counting without and with a mutex\<close>

definition NLOOP :: nat where "NLOOP = 5000"

datatype extid = TidA | TidB

datatype xpc = C_top | C_lock | C_fetch | C_print | C_store | C_unlock | C_end

record cthread =
  c_i :: nat
  c_pc :: xpc
  c_val :: int

record cworld =
  counter :: int
  counter_mutex :: "extid option"
  c_thr :: "extid \<Rightarrow> cthread"
  c_out :: "(extid \<times> int) list"

definition counter_start :: cworld where
  "counter_start = \<lparr>counter = 0, counter_mutex = None, c_thr = (\<lambda>_. \<lparr>c_i = 0, c_pc = C_top, c_val = 0\<rparr>), c_out = []\<rparr>"

definition c_go :: "extid \<Rightarrow> xpc \<Rightarrow> cworld \<Rightarrow> cworld" where
  "c_go t pc w = w\<lparr>c_thr := (c_thr w)(t := (c_thr w t)\<lparr>c_pc := pc\<rparr>)\<rparr>"

definition doit01 :: "extid \<Rightarrow> cworld \<Rightarrow> cworld option" where
  "doit01 t w =
     (let th = c_thr w t
      in case c_pc th of
        C_top \<Rightarrow> Some (c_go t (if c_i th < NLOOP then C_fetch else C_end) w)
      | C_fetch \<Rightarrow> Some (w\<lparr>c_thr := (c_thr w)(t := th\<lparr>c_val := counter w, c_pc := C_print\<rparr>)\<rparr>)
      | C_print \<Rightarrow> Some (c_go t C_store w\<lparr>c_out := c_out w @ [(t, c_val th + 1)]\<rparr>)
      | C_store \<Rightarrow> Some (w\<lparr>counter := c_val th + 1, c_thr := (c_thr w)(t := th\<lparr>c_i := c_i th + 1, c_pc := C_top\<rparr>)\<rparr>)
      | _ \<Rightarrow> None)"

definition doit02 :: "extid \<Rightarrow> cworld \<Rightarrow> cworld option" where
  "doit02 t w =
     (let th = c_thr w t
      in case c_pc th of
        C_top \<Rightarrow> Some (c_go t (if c_i th < NLOOP then C_lock else C_end) w)
      | C_lock \<Rightarrow> if counter_mutex w = None then Some (c_go t C_fetch w\<lparr>counter_mutex := Some t\<rparr>) else None
      | C_fetch \<Rightarrow> Some (w\<lparr>c_thr := (c_thr w)(t := th\<lparr>c_val := counter w, c_pc := C_print\<rparr>)\<rparr>)
      | C_print \<Rightarrow> Some (c_go t C_store w\<lparr>c_out := c_out w @ [(t, c_val th + 1)]\<rparr>)
      | C_store \<Rightarrow> Some (c_go t C_unlock w\<lparr>counter := c_val th + 1\<rparr>)
      | C_unlock \<Rightarrow> Some (w\<lparr>counter_mutex := None, c_thr := (c_thr w)(t := th\<lparr>c_i := c_i th + 1, c_pc := C_top\<rparr>)\<rparr>)
      | C_end \<Rightarrow> None)"

inductive ex01_step :: "cworld \<Rightarrow> cworld \<Rightarrow> bool" where
  ex01: "doit01 t w = Some w' \<Longrightarrow> ex01_step w w'"

inductive ex02_step :: "cworld \<Rightarrow> cworld \<Rightarrow> bool" where
  ex02: "doit02 t w = Some w' \<Longrightarrow> ex02_step w w'"

inductive_cases ex01_stepE: "ex01_step w w'"
inductive_cases ex02_stepE: "ex02_step w w'"

text \<open>Both threads have returned: \<^verbatim>\<open>main\<close> joins them and exits.\<close>

definition c_done :: "cworld \<Rightarrow> bool" where
  "c_done w \<longleftrightarrow> c_pc (c_thr w TidA) = C_end \<and> c_pc (c_thr w TidB) = C_end"

definition c_sum :: "cworld \<Rightarrow> nat" where
  "c_sum w = c_i (c_thr w TidA) + c_i (c_thr w TidB)"

lemma all_extid: "(\<forall>t. P t) \<longleftrightarrow> P TidA \<and> P TidB"
  by (metis extid.exhaust)

lemma c_go_simps [simp]:
  "counter (c_go t pc w) = counter w" "counter_mutex (c_go t pc w) = counter_mutex w" "c_out (c_go t pc w) = c_out w"
  "c_thr (c_go t pc w) = (c_thr w)(t := (c_thr w t)\<lparr>c_pc := pc\<rparr>)"
  by (simp_all add: c_go_def)

subsection \<open>Without a mutex\<close>

text \<open>
  The counter is at most the number of stores. Whoever stored last has stored at least 2 unless that was its first store, because what it had read was
  at least its own store.
\<close>

definition seen_ok :: "nat \<Rightarrow> cthread \<Rightarrow> bool" where
  "seen_ok n th \<longleftrightarrow> c_i th \<le> NLOOP \<and> (c_pc th = C_end \<longrightarrow> c_i th = NLOOP) \<and> (c_pc th \<in> {C_fetch, C_print, C_store} \<longrightarrow> c_i th < NLOOP) \<and>
     (c_pc th \<in> {C_print, C_store} \<longrightarrow> 0 \<le> c_val th \<and> c_val th \<le> int n \<and> (0 < c_i th \<longrightarrow> 1 \<le> c_val th))"

definition last_store :: "int \<Rightarrow> cthread \<Rightarrow> bool" where
  "last_store c th \<longleftrightarrow> 1 \<le> c_i th \<and> (2 \<le> c_i th \<longrightarrow> 2 \<le> c)"

definition ex01_inv :: "cworld \<Rightarrow> bool" where
  "ex01_inv w \<longleftrightarrow> (\<forall>t. seen_ok (c_sum w) (c_thr w t)) \<and> counter w \<le> int (c_sum w) \<and> 0 \<le> counter w \<and> (0 < c_sum w \<longrightarrow> 1 \<le> counter w) \<and>
     (0 < c_sum w \<longrightarrow> (\<exists>t. last_store (counter w) (c_thr w t)))"

lemma seen_ok_mono: "seen_ok n th \<Longrightarrow> n \<le> m \<Longrightarrow> seen_ok m th"
  by (auto simp: seen_ok_def)

lemma c_sum_same: "(\<forall>u. c_i (c_thr w' u) = c_i (c_thr w u)) \<Longrightarrow> c_sum w' = c_sum w"
  by (simp add: c_sum_def)

lemma c_sum_pos: "0 < c_i (c_thr w t) \<Longrightarrow> 0 < c_sum w"
  by (cases t) (simp_all add: c_sum_def)

text \<open>A step of a thread that stores nothing.\<close>

lemma ex01_quiet:
  assumes "ex01_inv w" and "counter w' = counter w" and "c_thr w' = (c_thr w)(t := th)" and "c_i th = c_i (c_thr w t)" and "seen_ok (c_sum w) th"
  shows "ex01_inv w'"
proof -
  have i: "\<forall>u. c_i (c_thr w' u) = c_i (c_thr w u)" using assms(3,4) by simp
  then have "last_store c (c_thr w' u) = last_store c (c_thr w u)" for c u by (simp add: last_store_def)
  with assms c_sum_same [OF i] show ?thesis by (simp add: ex01_inv_def)
qed

lemma ex01_inv_step:
  assumes "ex01_step w w'" and "ex01_inv w"
  shows "ex01_inv w'"
  using assms(1)
proof cases
  case (ex01 t)
  let ?th = "c_thr w t"
  have ok: "seen_ok (c_sum w) ?th" using assms(2) by (simp add: ex01_inv_def)
  show ?thesis
  proof (cases "c_pc ?th")
    case C_top
    then have w': "w' = c_go t (if c_i ?th < NLOOP then C_fetch else C_end) w" using ex01 by (simp add: doit01_def Let_def)
    show ?thesis
      by (rule ex01_quiet [OF assms(2), where t = t and th = "?th\<lparr>c_pc := if c_i ?th < NLOOP then C_fetch else C_end\<rparr>"], unfold w')
        (use ok C_top in \<open>auto simp: seen_ok_def\<close>)
  next
    case C_fetch
    then have w': "w' = w\<lparr>c_thr := (c_thr w)(t := ?th\<lparr>c_val := counter w, c_pc := C_print\<rparr>)\<rparr>" using ex01 by (simp add: doit01_def Let_def)
    show ?thesis
      by (rule ex01_quiet [OF assms(2), where t = t and th = "?th\<lparr>c_val := counter w, c_pc := C_print\<rparr>"], unfold w') (use ok C_fetch assms(2) c_sum_pos [of w t] in \<open>auto simp: seen_ok_def ex01_inv_def\<close>)
  next
    case C_print
    then have w': "w' = c_go t C_store w\<lparr>c_out := c_out w @ [(t, c_val ?th + 1)]\<rparr>" using ex01 by (simp add: doit01_def Let_def)
    show ?thesis
      by (rule ex01_quiet [OF assms(2), where t = t and th = "?th\<lparr>c_pc := C_store\<rparr>"], unfold w') (use ok C_print in \<open>auto simp: seen_ok_def\<close>)
  next
    case C_store
    let ?new = "?th\<lparr>c_i := c_i ?th + 1, c_pc := C_top\<rparr>"
    from C_store have w': "w' = w\<lparr>counter := c_val ?th + 1, c_thr := (c_thr w)(t := ?new)\<rparr>" using ex01 by (simp add: doit01_def Let_def)
    have s: "c_sum w' = c_sum w + 1" unfolding w' by (cases t) (simp_all add: c_sum_def)
    have "seen_ok (c_sum w + 1) (c_thr w' u)" for u
    proof (cases "u = t")
      case True
      with ok C_store show ?thesis unfolding w' by (simp add: seen_ok_def)
    next
      case False
      with assms(2) show ?thesis unfolding w' by (auto simp: ex01_inv_def intro: seen_ok_mono)
    qed
    moreover have "0 \<le> c_val ?th \<and> c_val ?th \<le> int (c_sum w)" using ok C_store by (simp add: seen_ok_def)
    moreover have "last_store (counter w') (c_thr w' t)" using ok C_store unfolding w' by (auto simp: seen_ok_def last_store_def)
    ultimately show ?thesis unfolding ex01_inv_def s unfolding w' by auto
  qed (use ex01 in \<open>simp_all add: doit01_def Let_def\<close>)
qed

lemma ex01_inv_start: "ex01_inv counter_start"
  by (simp add: ex01_inv_def seen_ok_def counter_start_def c_sum_def)

lemma ex01_inv_reachable: "ex01_step\<^sup>*\<^sup>* counter_start w \<Longrightarrow> ex01_inv w"
  using step_invariant [of ex01_step counter_start w ex01_inv] ex01_inv_start ex01_inv_step by blast

lemma ex01_bounds:
  assumes "ex01_inv w" and "c_done w"
  shows "2 \<le> counter w \<and> counter w \<le> 2 * int NLOOP"
proof -
  have i: "c_i (c_thr w TidA) = NLOOP" "c_i (c_thr w TidB) = NLOOP" using assms by (auto simp: ex01_inv_def c_done_def seen_ok_def)
  then have "c_sum w = 2 * NLOOP" by (simp add: c_sum_def)
  moreover obtain t where "last_store (counter w) (c_thr w t)" using assms(1) calculation by (auto simp: ex01_inv_def NLOOP_def)
  moreover have "c_i (c_thr w t) = NLOOP" using i by (cases t) simp_all
  ultimately show ?thesis using assms(1) by (auto simp: ex01_inv_def last_store_def NLOOP_def)
qed

text \<open>A thread that runs alone through \<open>k\<close> iterations adds \<open>k\<close>.\<close>

definition c_thread :: "nat \<Rightarrow> xpc \<Rightarrow> cthread \<Rightarrow> bool" where
  "c_thread i pc th \<longleftrightarrow> c_i th = i \<and> c_pc th = pc"

lemma ex01_alone:
  assumes "c_thread i C_top (c_thr w t)" and "i + k \<le> NLOOP"
  shows "\<exists>w'. ex01_step\<^sup>*\<^sup>* w w' \<and> c_thread (i + k) C_top (c_thr w' t) \<and> (\<forall>u. u \<noteq> t \<longrightarrow> c_thr w' u = c_thr w u) \<and> counter w' = counter w + int k"
  using assms(2)
proof (induction k)
  case 0
  with assms(1) show ?case by auto
next
  case (Suc k)
  then obtain v where v: "ex01_step\<^sup>*\<^sup>* w v" "c_thread (i + k) C_top (c_thr v t)" "\<forall>u. u \<noteq> t \<longrightarrow> c_thr v u = c_thr w u" "counter v = counter w + int k"
    by auto
  define a where "a = c_go t C_fetch v"
  define b where "b = a\<lparr>c_thr := (c_thr a)(t := (c_thr a t)\<lparr>c_val := counter a, c_pc := C_print\<rparr>)\<rparr>"
  define c where "c = c_go t C_store b\<lparr>c_out := c_out b @ [(t, c_val (c_thr b t) + 1)]\<rparr>"
  define d where "d = c\<lparr>counter := c_val (c_thr c t) + 1, c_thr := (c_thr c)(t := (c_thr c t)\<lparr>c_i := c_i (c_thr c t) + 1, c_pc := C_top\<rparr>)\<rparr>"
  have "ex01_step v a" by (rule ex01_step.ex01 [of t]) (use v(2) Suc.prems in \<open>simp add: doit01_def Let_def a_def c_thread_def\<close>)
  moreover have "ex01_step a b" by (rule ex01_step.ex01 [of t]) (simp add: doit01_def Let_def a_def b_def)
  moreover have "ex01_step b c" by (rule ex01_step.ex01 [of t]) (simp add: doit01_def Let_def b_def c_def)
  moreover have "ex01_step c d" by (rule ex01_step.ex01 [of t]) (simp add: doit01_def Let_def c_def d_def)
  ultimately have "ex01_step\<^sup>*\<^sup>* w d" using v(1) by (meson rtranclp.rtrancl_into_rtrancl)
  moreover have "c_thread (i + Suc k) C_top (c_thr d t) \<and> (\<forall>u. u \<noteq> t \<longrightarrow> c_thr d u = c_thr w u) \<and> counter d = counter w + int (Suc k)"
    using v(2-4) by (simp add: d_def c_def b_def a_def c_thread_def)
  ultimately show ?case by blast
qed

lemma ex01_one:
  assumes "doit01 t w = Some w'" and "ex01_step\<^sup>*\<^sup>* s w"
  shows "ex01_step\<^sup>*\<^sup>* s w'"
  using assms by (meson ex01_step.ex01 rtranclp.rtrancl_into_rtrancl)

text \<open>
  Thread A reads 0, thread B does all its iterations but the last, thread A stores 1, thread B reads it, thread A finishes, and thread B stores 2.
\<close>

lemma ex01_two: "\<exists>w. ex01_step\<^sup>*\<^sup>* counter_start w \<and> c_done w \<and> counter w = 2"
proof -
  let ?f = "\<lambda>t w. w\<lparr>c_thr := (c_thr w)(t := (c_thr w t)\<lparr>c_val := counter w, c_pc := C_print\<rparr>)\<rparr>"
  let ?p = "\<lambda>t w. c_go t C_store w\<lparr>c_out := c_out w @ [(t, c_val (c_thr w t) + 1)]\<rparr>"
  let ?s = "\<lambda>t w. w\<lparr>counter := c_val (c_thr w t) + 1, c_thr := (c_thr w)(t := (c_thr w t)\<lparr>c_i := c_i (c_thr w t) + 1, c_pc := C_top\<rparr>)\<rparr>"
  have N: "1 < NLOOP" by (simp add: NLOOP_def)
  define a where "a = ?p TidA (?f TidA (c_go TidA C_fetch counter_start))"
  have "doit01 TidA counter_start = Some (c_go TidA C_fetch counter_start)" using N by (simp add: doit01_def Let_def counter_start_def)
  moreover have "doit01 TidA (c_go TidA C_fetch counter_start) = Some (?f TidA (c_go TidA C_fetch counter_start))" by (simp add: doit01_def Let_def)
  moreover have "doit01 TidA (?f TidA (c_go TidA C_fetch counter_start)) = Some a" by (simp add: doit01_def Let_def a_def)
  ultimately have a: "ex01_step\<^sup>*\<^sup>* counter_start a" by (blast intro: ex01_one rtranclp.rtrancl_refl)
  have "c_thread 0 C_top (c_thr a TidB)" by (simp add: a_def c_thread_def counter_start_def)
  from ex01_alone [OF this, of "NLOOP - 1"] obtain b where b: "ex01_step\<^sup>*\<^sup>* a b" "c_thread (NLOOP - 1) C_top (c_thr b TidB)" "c_thr b TidA = c_thr a TidA"
    by auto
  have ba: "c_pc (c_thr b TidA) = C_store" "c_val (c_thr b TidA) = 0" "c_i (c_thr b TidA) = 0" using b(3) by (simp_all add: a_def counter_start_def)
  have bb: "c_i (c_thr b TidB) = NLOOP - 1" "c_pc (c_thr b TidB) = C_top" using b(2) by (simp_all add: c_thread_def)
  define c where "c = ?s TidA b"
  have "doit01 TidA b = Some c" using ba by (simp add: doit01_def Let_def c_def)
  then have c: "ex01_step\<^sup>*\<^sup>* counter_start c" using a b(1) by (meson ex01_one rtranclp_trans)
  have cc: "counter c = 1" "c_i (c_thr c TidB) = NLOOP - 1" "c_pc (c_thr c TidB) = C_top" "c_thread 1 C_top (c_thr c TidA)"
    using ba bb by (simp_all add: c_def c_thread_def)
  define d where "d = ?p TidB (?f TidB (c_go TidB C_fetch c))"
  have "doit01 TidB c = Some (c_go TidB C_fetch c)" using N cc by (simp add: doit01_def Let_def)
  moreover have "doit01 TidB (c_go TidB C_fetch c) = Some (?f TidB (c_go TidB C_fetch c))" by (simp add: doit01_def Let_def)
  moreover have "doit01 TidB (?f TidB (c_go TidB C_fetch c)) = Some d" by (simp add: doit01_def Let_def d_def)
  ultimately have d: "ex01_step\<^sup>*\<^sup>* counter_start d" using c by (blast intro: ex01_one)
  have "c_thread 1 C_top (c_thr d TidA)" using cc by (simp add: d_def)
  from ex01_alone [OF this, of "NLOOP - 1"] N obtain e where e: "ex01_step\<^sup>*\<^sup>* d e" "c_thread NLOOP C_top (c_thr e TidA)" "c_thr e TidB = c_thr d TidB"
    by auto
  have eb: "c_pc (c_thr e TidB) = C_store" "c_val (c_thr e TidB) = 1" "c_i (c_thr e TidB) = NLOOP - 1" using e(3) cc by (simp_all add: d_def)
  have ea: "c_i (c_thr e TidA) = NLOOP" "c_pc (c_thr e TidA) = C_top" using e(2) by (simp_all add: c_thread_def)
  define f where "f = ?s TidB e"
  have "doit01 TidB e = Some f" using eb by (simp add: doit01_def Let_def f_def)
  moreover have "doit01 TidB f = Some (c_go TidB C_end f)" using eb N by (simp add: doit01_def Let_def f_def)
  moreover have "doit01 TidA (c_go TidB C_end f) = Some (c_go TidA C_end (c_go TidB C_end f))" using ea by (simp add: doit01_def Let_def f_def)
  ultimately have "ex01_step\<^sup>*\<^sup>* counter_start (c_go TidA C_end (c_go TidB C_end f))" using d e(1) by (meson ex01_one rtranclp_trans)
  moreover have "c_done (c_go TidA C_end (c_go TidB C_end f)) \<and> counter (c_go TidA C_end (c_go TidB C_end f)) = 2"
    using eb by (simp add: c_done_def f_def)
  ultimately show ?thesis by blast
qed

subsection \<open>With a mutex\<close>

definition c_region :: "cworld \<Rightarrow> extid \<Rightarrow> bool" where
  "c_region w t \<longleftrightarrow> c_pc (c_thr w t) \<in> {C_fetch, C_print, C_store, C_unlock}"

definition ex02_init :: "cworld \<Rightarrow> bool" where
  "ex02_init w \<longleftrightarrow> w = counter_start"

lemma doit02_moves_lock:
  assumes "doit02 t w = Some w'"
  shows "moves_lock c_region counter_mutex w w' t"
  using assms by (cases "c_pc (c_thr w t)") (auto simp: doit02_def Let_def moves_lock_def c_region_def split: if_splits)

interpretation ex02_lock: lock_protocol ex02_step ex02_init counter_mutex c_region
proof
  fix w t
  assume "ex02_init w"
  then show "c_region w t \<longleftrightarrow> counter_mutex w = Some t" by (simp add: ex02_init_def counter_start_def c_region_def)
next
  fix w w' u
  assume "ex02_step w w'" and a: "\<forall>t. c_region w t \<longleftrightarrow> counter_mutex w = Some t"
  then obtain t where "doit02 t w = Some w'" by (auto elim: ex02_stepE)
  from moves_lock_agrees [OF doit02_moves_lock [OF this] a] show "c_region w' u \<longleftrightarrow> counter_mutex w' = Some u" .
qed

text \<open>
  What the owner of the mutex has done of its iteration; the counter and the lines printed are those of all finished iterations and of this one.
\<close>

definition stored :: "cthread \<Rightarrow> nat" where
  "stored th = c_i th + of_bool (c_pc th = C_unlock)"

definition printed :: "cthread \<Rightarrow> nat" where
  "printed th = c_i th + of_bool (c_pc th \<in> {C_store, C_unlock})"

definition own_ok :: "int \<Rightarrow> cthread \<Rightarrow> bool" where
  "own_ok c th \<longleftrightarrow> (c_pc th \<in> {C_print, C_store} \<longrightarrow> c_val th = c) \<and> c_i th \<le> NLOOP \<and>
     (c_pc th \<in> {C_lock, C_fetch, C_print, C_store, C_unlock} \<longrightarrow> c_i th < NLOOP) \<and> (c_pc th = C_end \<longrightarrow> c_i th = NLOOP)"

definition c_total :: "(cthread \<Rightarrow> nat) \<Rightarrow> cworld \<Rightarrow> nat" where
  "c_total f w = f (c_thr w TidA) + f (c_thr w TidB)"

definition ex02_inv :: "cworld \<Rightarrow> bool" where
  "ex02_inv w \<longleftrightarrow> (\<forall>t. c_region w t \<longleftrightarrow> counter_mutex w = Some t) \<and> (\<forall>t. own_ok (counter w) (c_thr w t)) \<and>
     counter w = int (c_total stored w) \<and> map snd (c_out w) = map int [1..<Suc (c_total printed w)]"

lemma c_total_upd: "c_thr w' = (c_thr w)(t := th) \<Longrightarrow> c_total f w' + f (c_thr w t) = c_total f w + f th"
  by (cases t) (simp_all add: c_total_def)

lemma own_ok_outside: "own_ok c th \<Longrightarrow> c_pc th \<notin> {C_print, C_store} \<Longrightarrow> own_ok d th"
  by (simp add: own_ok_def)

text \<open>In the region the thread has seen and printed what all of them have stored.\<close>

lemma c_total_region:
  assumes "\<forall>t. c_region w t \<longleftrightarrow> counter_mutex w = Some t" and "c_region w t"
  shows "c_total printed w + stored (c_thr w t) = c_total stored w + printed (c_thr w t)"
proof -
  have "stored (c_thr w u) = printed (c_thr w u)" if "u \<noteq> t" for u
  proof -
    have "\<not> c_region w u" using assms that by auto
    then show ?thesis by (auto simp: c_region_def stored_def printed_def)
  qed
  then show ?thesis by (cases t) (auto simp: c_total_def)
qed

lemma ex02_inv_step:
  assumes "ex02_step w w'" and "ex02_inv w"
  shows "ex02_inv w'"
proof -
  from assms(1) obtain t where t: "doit02 t w = Some w'" by (auto elim: ex02_stepE)
  let ?th = "c_thr w t"
  have lock: "\<forall>u. c_region w' u \<longleftrightarrow> counter_mutex w' = Some u"
    using moves_lock_agrees [OF doit02_moves_lock [OF t]] assms(2) unfolding ex02_inv_def by blast
  have old: "\<forall>u. c_region w u \<longleftrightarrow> counter_mutex w = Some u" "\<forall>u. own_ok (counter w) (c_thr w u)" "counter w = int (c_total stored w)"
    "map snd (c_out w) = map int [1..<Suc (c_total printed w)]" using assms(2) unfolding ex02_inv_def by blast+
  have own: "own_ok (counter w) ?th" using old(2) by blast
  have other: "own_ok c (c_thr w u)" if "u \<noteq> t" "c_region w t" for u c
  proof -
    have "\<not> c_region w u" using old(1) that by auto
    then show ?thesis using own_ok_outside [OF old(2) [rule_format, of u]] by (simp add: c_region_def)
  qed
  note total = c_total_upd [of w' w t]
  show ?thesis
  proof (cases "c_pc ?th")
    case C_top
    then have w': "w' = c_go t (if c_i ?th < NLOOP then C_lock else C_end) w" using t by (simp add: doit02_def Let_def)
    have "own_ok (counter w') (c_thr w' u)" for u unfolding w' using old(2) own C_top by (cases "u = t") (simp, force simp: own_ok_def, simp)
    moreover have "c_total stored w' = c_total stored w" "c_total printed w' = c_total printed w"
      using total [of "c_thr w' t" stored] total [of "c_thr w' t" printed] C_top unfolding w' by (auto simp: stored_def printed_def)
    ultimately show ?thesis using lock old by (simp add: ex02_inv_def w')
  next
    case C_lock
    then have w': "w' = c_go t C_fetch w\<lparr>counter_mutex := Some t\<rparr>" using t by (simp add: doit02_def Let_def split: if_splits)
    have "own_ok (counter w') (c_thr w' u)" for u unfolding w' using old(2) own C_lock by (auto simp: own_ok_def)
    moreover have "c_total stored w' = c_total stored w" "c_total printed w' = c_total printed w"
      using total [of "c_thr w' t" stored] total [of "c_thr w' t" printed] C_lock unfolding w' by (auto simp: stored_def printed_def)
    ultimately show ?thesis using lock old by (simp add: ex02_inv_def w')
  next
    case C_fetch
    then have w': "w' = w\<lparr>c_thr := (c_thr w)(t := ?th\<lparr>c_val := counter w, c_pc := C_print\<rparr>)\<rparr>" using t by (simp add: doit02_def Let_def)
    have "own_ok (counter w') (c_thr w' u)" for u unfolding w' using old(2) own C_fetch by (auto simp: own_ok_def)
    moreover have "c_total stored w' = c_total stored w" "c_total printed w' = c_total printed w"
      using total [of "c_thr w' t" stored] total [of "c_thr w' t" printed] C_fetch unfolding w' by (auto simp: stored_def printed_def)
    ultimately show ?thesis using lock old by (simp add: ex02_inv_def w')
  next
    case C_print
    then have w': "w' = c_go t C_store w\<lparr>c_out := c_out w @ [(t, c_val ?th + 1)]\<rparr>" using t by (simp add: doit02_def Let_def)
    have "own_ok (counter w') (c_thr w' u)" for u unfolding w' using old(2) own C_print by (auto simp: own_ok_def)
    moreover have s: "c_total stored w' = c_total stored w" "c_total printed w' = c_total printed w + 1"
      using total [of "c_thr w' t" stored] total [of "c_thr w' t" printed] C_print unfolding w' by (auto simp: stored_def printed_def)
    moreover have "c_val ?th = int (c_total printed w)"
      using own C_print old(3) c_total_region [OF old(1), of t] by (simp add: own_ok_def c_region_def stored_def printed_def)
    ultimately show ?thesis using lock old(3,4) by (simp add: ex02_inv_def s) (simp add: w')
  next
    case C_store
    then have w': "w' = c_go t C_unlock w\<lparr>counter := c_val ?th + 1\<rparr>" using t by (simp add: doit02_def Let_def)
    have "own_ok (counter w') (c_thr w' u)" for u
      using other [of u] own C_store unfolding w' by (cases "u = t") (auto simp: own_ok_def c_region_def)
    moreover have s: "c_total stored w' = c_total stored w + 1" "c_total printed w' = c_total printed w"
      using total [of "c_thr w' t" stored] total [of "c_thr w' t" printed] C_store unfolding w' by (auto simp: stored_def printed_def)
    moreover have "c_val ?th = counter w" using own C_store by (simp add: own_ok_def)
    ultimately show ?thesis using lock old(3,4) by (simp add: ex02_inv_def s del: upt_Suc) (simp add: w' del: upt_Suc)
  next
    case C_unlock
    then have w': "w' = w\<lparr>counter_mutex := None, c_thr := (c_thr w)(t := ?th\<lparr>c_i := c_i ?th + 1, c_pc := C_top\<rparr>)\<rparr>" using t by (simp add: doit02_def Let_def)
    have "own_ok (counter w') (c_thr w' u)" for u unfolding w' using old(2) own C_unlock by (auto simp: own_ok_def)
    moreover have "c_total stored w' = c_total stored w" "c_total printed w' = c_total printed w"
      using total [of "c_thr w' t" stored] total [of "c_thr w' t" printed] C_unlock unfolding w' by (auto simp: stored_def printed_def)
    ultimately show ?thesis using lock old by (simp add: ex02_inv_def w')
  qed (use t in \<open>simp_all add: doit02_def Let_def\<close>)
qed

lemma ex02_inv_reachable:
  assumes "ex02_step\<^sup>*\<^sup>* counter_start w"
  shows "ex02_inv w"
proof -
  have "ex02_inv counter_start" by (simp add: ex02_inv_def counter_start_def c_region_def own_ok_def c_total_def stored_def printed_def)
  then show ?thesis using step_invariant [of ex02_step counter_start w ex02_inv] ex02_inv_step assms by blast
qed

text \<open>No thread is ever in the way of both.\<close>

lemma ex02_moves:
  assumes "ex02_inv w" and "\<not> c_done w"
  shows "\<exists>w'. ex02_step w w'"
proof -
  have m: "\<exists>w'. doit02 t w = Some w'" if "c_pc (c_thr w t) \<notin> {C_end, C_lock}" for t
    using that by (cases "c_pc (c_thr w t)") (auto simp: doit02_def Let_def)
  show ?thesis
  proof (cases "counter_mutex w")
    case None
    from assms(2) obtain t where "c_pc (c_thr w t) \<noteq> C_end" by (auto simp: c_done_def)
    then have "\<exists>w'. doit02 t w = Some w'" using None m [of t] by (cases "c_pc (c_thr w t) = C_lock") (auto simp: doit02_def Let_def)
    then show ?thesis by (blast intro: ex02_step.ex02)
  next
    case (Some t)
    then have "c_region w t" using assms(1) by (simp add: ex02_inv_def)
    then have "\<exists>w'. doit02 t w = Some w'" by (intro m) (auto simp: c_region_def)
    then show ?thesis by (blast intro: ex02_step.ex02)
  qed
qed

lemma ex02_final:
  assumes "ex02_inv w" and "c_done w"
  shows "counter w = 2 * int NLOOP"
proof -
  have "c_i (c_thr w TidA) = NLOOP \<and> c_i (c_thr w TidB) = NLOOP" using assms unfolding ex02_inv_def c_done_def own_ok_def by blast
  then show ?thesis using assms by (simp add: ex02_inv_def c_done_def c_total_def stored_def)
qed

section \<open>The producer and the consumer\<close>

definition BUFFSIZE :: nat where "BUFFSIZE = 10"
definition NLOOP3 :: nat where "NLOOP3 = 50"

record buf_t =
  b_buf :: "int list"
  b_nitems :: nat
  b_nextget :: nat
  b_nextput :: nat

definition buf_zero :: buf_t where
  "buf_zero = \<lparr>b_buf = replicate BUFFSIZE 0, b_nitems = 0, b_nextget = 0, b_nextput = 0\<rparr>"

definition wrap3 :: "nat \<Rightarrow> nat" where
  "wrap3 i = (if BUFFSIZE \<le> i + 1 then 0 else i + 1)"

definition buf_store :: "int \<Rightarrow> buf_t \<Rightarrow> buf_t" where
  "buf_store val b = b\<lparr>b_buf := (b_buf b)[b_nextput b := val], b_nextput := wrap3 (b_nextput b), b_nitems := b_nitems b + 1\<rparr>"

definition buf_fetch :: "buf_t \<Rightarrow> int" where
  "buf_fetch b = b_buf b ! b_nextget b"

definition buf_remove :: "buf_t \<Rightarrow> buf_t" where
  "buf_remove b = b\<lparr>b_nextget := wrap3 (b_nextget b), b_nitems := b_nitems b - 1\<rparr>"

definition buf_wf :: "buf_t \<Rightarrow> bool" where
  "buf_wf b \<longleftrightarrow> length (b_buf b) = BUFFSIZE \<and> b_nextget b < BUFFSIZE \<and> b_nitems b \<le> BUFFSIZE \<and> b_nextput b = (b_nextget b + b_nitems b) mod BUFFSIZE"

definition buf_items :: "buf_t \<Rightarrow> int list" where
  "buf_items b = map (\<lambda>k. b_buf b ! ((b_nextget b + k) mod BUFFSIZE)) [0..<b_nitems b]"

definition buf_space :: "buf_t \<Rightarrow> nat" where
  "buf_space b = BUFFSIZE - b_nitems b"

lemma wrap3_mod: "i < BUFFSIZE \<Longrightarrow> wrap3 i = (i + 1) mod BUFFSIZE"
  by (cases "i + 1 = BUFFSIZE") (auto simp: wrap3_def)

lemma buf_slot_free:
  assumes "buf_wf b" and "k < b_nitems b" and "b_nitems b < BUFFSIZE"
  shows "(b_nextget b + k) mod BUFFSIZE \<noteq> b_nextput b"
proof
  assume "(b_nextget b + k) mod BUFFSIZE = b_nextput b"
  then have "(b_nextget b + k) mod BUFFSIZE = (b_nextget b + b_nitems b) mod BUFFSIZE" using assms(1) by (simp add: buf_wf_def)
  then have "BUFFSIZE dvd b_nitems b - k" using assms(2) mod_eq_dvd_iff_nat [of "b_nextget b + k" "b_nextget b + b_nitems b" BUFFSIZE] by simp
  then show False using assms(2,3) dvd_imp_le [of BUFFSIZE "b_nitems b - k"] by simp
qed

lemma buf_store_wf: "buf_wf b \<Longrightarrow> b_nitems b < BUFFSIZE \<Longrightarrow> buf_wf (buf_store val b)"
  by (auto simp: buf_wf_def buf_store_def wrap3_mod mod_Suc_eq BUFFSIZE_def)

lemma buf_remove_wf:
  assumes "buf_wf b" and "b_nitems b \<noteq> 0"
  shows "buf_wf (buf_remove b)"
proof -
  have "((b_nextget b + 1) mod BUFFSIZE + (b_nitems b - 1)) mod BUFFSIZE = (b_nextget b + b_nitems b) mod BUFFSIZE"
    unfolding mod_add_left_eq using assms(2) by simp
  with assms show ?thesis by (auto simp: buf_wf_def buf_remove_def wrap3_mod BUFFSIZE_def)
qed

lemma buf_items_store:
  assumes "buf_wf b" and "b_nitems b < BUFFSIZE"
  shows "buf_items (buf_store val b) = buf_items b @ [val]"
  using assms not_sym [OF buf_slot_free [OF assms(1)]] by (auto simp: buf_items_def buf_store_def buf_wf_def)

lemma buf_items_remove:
  assumes "buf_wf b" and "b_nitems b \<noteq> 0"
  shows "buf_items b = buf_fetch b # buf_items (buf_remove b)"
proof -
  obtain n where n: "b_nitems b = Suc n" using assms(2) not0_implies_Suc by blast
  have u: "[0..<Suc n] = 0 # map Suc [0..<n]" unfolding map_Suc_upt by (rule upt_conv_Cons) simp
  have g: "b_nextget (buf_remove b) = (b_nextget b + 1) mod BUFFSIZE" "b_nitems (buf_remove b) = n" "b_buf (buf_remove b) = b_buf b"
    using assms(1) n by (simp_all add: buf_remove_def wrap3_mod buf_wf_def)
  have "((b_nextget b + 1) mod BUFFSIZE + k) mod BUFFSIZE = (b_nextget b + Suc k) mod BUFFSIZE" for k unfolding mod_add_left_eq by simp
  then show ?thesis using assms(1) unfolding buf_items_def n u g by (simp add: buf_fetch_def buf_wf_def)
qed

interpretation bq: fifo buf_items buf_space buf_wf buf_store "\<lambda>c. [c]" "\<lambda>_ :: unit. buf_remove" "\<lambda>_. 1"
proof
  fix q :: buf_t and x :: int
  assume "buf_wf q" "length [x] \<le> buf_space q"
  then show "buf_wf (buf_store x q)" "buf_items (buf_store x q) = buf_items q @ [x]"
    by (simp_all add: buf_space_def buf_store_wf buf_items_store)
next
  fix q :: buf_t and n :: unit
  assume *: "buf_wf q" "1 \<le> length (buf_items q)"
  then have ne: "b_nitems q \<noteq> 0" by (simp add: buf_items_def)
  show "buf_wf (buf_remove q)" by (rule buf_remove_wf [OF *(1) ne])
  show "buf_items (buf_remove q) = drop 1 (buf_items q)" using buf_items_remove [OF *(1) ne] by simp
qed

text \<open>
  The two threads. \<open>Q_test\<close> is the \<^verbatim>\<open>while\<close>, \<open>Q_sleep\<close> asleep in \<^verbatim>\<open>pthread_cond_wait\<close>, \<open>Q_woken\<close> awake without the mutex, \<open>Q_move\<close> the access
  to the buffer.
\<close>

datatype qpc = Q_top | Q_lock | Q_test | Q_sleep | Q_woken | Q_move | Q_signal | Q_unlock | Q_end

record pcworld =
  pc_buf :: buf_t
  pc_mutex :: "extid option"
  prod_pc :: qpc
  prod_i :: nat
  cons_pc :: qpc
  cons_i :: nat
  consumed :: "int list"

definition pc_start :: pcworld where
  "pc_start = \<lparr>pc_buf = buf_zero, pc_mutex = None, prod_pc = Q_top, prod_i = 0, cons_pc = Q_top, cons_i = 0, consumed = []\<rparr>"

definition wake :: "qpc \<Rightarrow> qpc" where
  "wake pc = (if pc = Q_sleep then Q_woken else pc)"

text \<open>\<^verbatim>\<open>produce_loop\<close> with \<^verbatim>\<open>produce\<close>, and \<^verbatim>\<open>consume_loop\<close> with \<^verbatim>\<open>consume\<close>.\<close>

definition produce :: "pcworld \<Rightarrow> pcworld option" where
  "produce w =
     (case prod_pc w of
        Q_top \<Rightarrow> Some (w\<lparr>prod_pc := (if prod_i w < NLOOP3 then Q_lock else Q_end)\<rparr>)
      | Q_lock \<Rightarrow> if pc_mutex w = None then Some (w\<lparr>pc_mutex := Some TidA, prod_pc := Q_test\<rparr>) else None
      | Q_test \<Rightarrow> if BUFFSIZE \<le> b_nitems (pc_buf w) then Some (w\<lparr>pc_mutex := None, prod_pc := Q_sleep\<rparr>) else Some (w\<lparr>prod_pc := Q_move\<rparr>)
      | Q_sleep \<Rightarrow> None
      | Q_woken \<Rightarrow> if pc_mutex w = None then Some (w\<lparr>pc_mutex := Some TidA, prod_pc := Q_test\<rparr>) else None
      | Q_move \<Rightarrow> Some (w\<lparr>pc_buf := buf_store (int (prod_i w)) (pc_buf w), prod_pc := Q_signal\<rparr>)
      | Q_signal \<Rightarrow> Some (w\<lparr>cons_pc := wake (cons_pc w), prod_pc := Q_unlock\<rparr>)
      | Q_unlock \<Rightarrow> Some (w\<lparr>pc_mutex := None, prod_i := prod_i w + 1, prod_pc := Q_top\<rparr>)
      | Q_end \<Rightarrow> None)"

definition consume :: "pcworld \<Rightarrow> pcworld option" where
  "consume w =
     (case cons_pc w of
        Q_top \<Rightarrow> Some (w\<lparr>cons_pc := (if cons_i w < NLOOP3 then Q_lock else Q_end)\<rparr>)
      | Q_lock \<Rightarrow> if pc_mutex w = None then Some (w\<lparr>pc_mutex := Some TidB, cons_pc := Q_test\<rparr>) else None
      | Q_test \<Rightarrow> if b_nitems (pc_buf w) \<le> 0 then Some (w\<lparr>pc_mutex := None, cons_pc := Q_sleep\<rparr>) else Some (w\<lparr>cons_pc := Q_move\<rparr>)
      | Q_sleep \<Rightarrow> None
      | Q_woken \<Rightarrow> if pc_mutex w = None then Some (w\<lparr>pc_mutex := Some TidB, cons_pc := Q_test\<rparr>) else None
      | Q_move \<Rightarrow> Some (w\<lparr>consumed := consumed w @ [buf_fetch (pc_buf w)], pc_buf := buf_remove (pc_buf w), cons_pc := Q_signal\<rparr>)
      | Q_signal \<Rightarrow> Some (w\<lparr>prod_pc := wake (prod_pc w), cons_pc := Q_unlock\<rparr>)
      | Q_unlock \<Rightarrow> Some (w\<lparr>pc_mutex := None, cons_i := cons_i w + 1, cons_pc := Q_top\<rparr>)
      | Q_end \<Rightarrow> None)"

inductive ex03_step :: "pcworld \<Rightarrow> pcworld \<Rightarrow> bool" where
  producer: "produce w = Some w' \<Longrightarrow> ex03_step w w'"
| consumer: "consume w = Some w' \<Longrightarrow> ex03_step w w'"
| spurious_prod: "prod_pc w = Q_sleep \<Longrightarrow> ex03_step w (w\<lparr>prod_pc := Q_woken\<rparr>)"
| spurious_cons: "cons_pc w = Q_sleep \<Longrightarrow> ex03_step w (w\<lparr>cons_pc := Q_woken\<rparr>)"

definition q_region :: "qpc \<Rightarrow> bool" where
  "q_region pc \<longleftrightarrow> pc \<in> {Q_test, Q_move, Q_signal, Q_unlock}"

text \<open>The items that a thread has moved: the current one counts once it is stored or fetched.\<close>

definition q_moved :: "nat \<Rightarrow> qpc \<Rightarrow> nat" where
  "q_moved i pc = i + of_bool (pc = Q_signal \<or> pc = Q_unlock)"

text \<open>A thread with its counter; \<open>full\<close> tells whether its test would be true, \<open>told\<close> whether the other is about to signal.\<close>

definition q_ok :: "nat \<Rightarrow> qpc \<Rightarrow> bool \<Rightarrow> bool \<Rightarrow> bool" where
  "q_ok i pc blocks told \<longleftrightarrow> i \<le> NLOOP3 \<and> (pc = Q_end \<longrightarrow> i = NLOOP3) \<and> (pc \<notin> {Q_top, Q_end} \<longrightarrow> i < NLOOP3) \<and>
     (pc = Q_move \<longrightarrow> \<not> blocks) \<and> (pc = Q_sleep \<longrightarrow> blocks \<or> told)"

definition is_full :: "buf_t \<Rightarrow> bool" where
  "is_full b \<longleftrightarrow> b_nitems b = BUFFSIZE"

definition is_empty :: "buf_t \<Rightarrow> bool" where
  "is_empty b \<longleftrightarrow> b_nitems b = 0"

definition ex03_inv :: "pcworld \<Rightarrow> bool" where
  "ex03_inv w \<longleftrightarrow> (q_region (prod_pc w) \<longleftrightarrow> pc_mutex w = Some TidA) \<and> (q_region (cons_pc w) \<longleftrightarrow> pc_mutex w = Some TidB) \<and>
     buf_wf (pc_buf w) \<and> consumed w @ buf_items (pc_buf w) = map int [0..<q_moved (prod_i w) (prod_pc w)] \<and>
     length (consumed w) = q_moved (cons_i w) (cons_pc w) \<and>
     q_ok (prod_i w) (prod_pc w) (is_full (pc_buf w)) (cons_pc w = Q_signal) \<and>
     q_ok (cons_i w) (cons_pc w) (is_empty (pc_buf w)) (prod_pc w = Q_signal)"

lemma q_ok_told: "q_ok i pc b told \<Longrightarrow> q_ok i (wake pc) b t"
  by (auto simp: q_ok_def wake_def)

lemma wake_simps [simp]: "q_region (wake pc) = q_region pc" "q_moved i (wake pc) = q_moved i pc" "wake pc = Q_signal \<longleftrightarrow> pc = Q_signal"
  by (auto simp: wake_def q_region_def q_moved_def)

text \<open>A thread that is outside of the region is not at its access, whatever the buffer becomes.\<close>

lemma q_ok_outside: "q_ok i pc b t \<Longrightarrow> \<not> q_region pc \<Longrightarrow> (pc = Q_sleep \<Longrightarrow> b' \<or> t') \<Longrightarrow> q_ok i pc b' t'"
  by (auto simp: q_ok_def q_region_def)

lemma is_full_empty: "is_full b \<Longrightarrow> \<not> is_empty b"
  by (simp add: is_full_def is_empty_def BUFFSIZE_def)

lemma produce_inv:
  assumes "ex03_inv w" and "produce w = Some w'"
  shows "ex03_inv w'"
proof -
  have inv: "q_region (prod_pc w) \<longleftrightarrow> pc_mutex w = Some TidA" "q_region (cons_pc w) \<longleftrightarrow> pc_mutex w = Some TidB" "buf_wf (pc_buf w)"
    "consumed w @ buf_items (pc_buf w) = map int [0..<q_moved (prod_i w) (prod_pc w)]" "length (consumed w) = q_moved (cons_i w) (cons_pc w)"
    "q_ok (prod_i w) (prod_pc w) (is_full (pc_buf w)) (cons_pc w = Q_signal)" "q_ok (cons_i w) (cons_pc w) (is_empty (pc_buf w)) (prod_pc w = Q_signal)"
    using assms(1) unfolding ex03_inv_def by blast+
  show ?thesis
  proof (cases "prod_pc w")
    case Q_top
    then have w': "w' = w\<lparr>prod_pc := (if prod_i w < NLOOP3 then Q_lock else Q_end)\<rparr>" using assms(2) by (simp add: produce_def)
    show ?thesis using inv Q_top by (auto simp: ex03_inv_def w' q_region_def q_moved_def q_ok_def)
  next
    case Q_lock
    then have w': "w' = w\<lparr>pc_mutex := Some TidA, prod_pc := Q_test\<rparr>" "pc_mutex w = None" using assms(2) by (simp_all add: produce_def split: if_splits)
    show ?thesis using inv Q_lock w'(2) by (simp add: ex03_inv_def w'(1) q_region_def q_moved_def q_ok_def)
  next
    case Q_test
    show ?thesis
    proof (cases "BUFFSIZE \<le> b_nitems (pc_buf w)")
      case True
      then have w': "w' = w\<lparr>pc_mutex := None, prod_pc := Q_sleep\<rparr>" using assms(2) Q_test by (simp add: produce_def)
      have "is_full (pc_buf w)" using True inv(3) by (simp add: is_full_def buf_wf_def)
      then show ?thesis using inv Q_test by (simp add: ex03_inv_def w' q_region_def q_moved_def q_ok_def)
    next
      case False
      then have w': "w' = w\<lparr>prod_pc := Q_move\<rparr>" using assms(2) Q_test by (simp add: produce_def)
      have "\<not> is_full (pc_buf w)" using False by (simp add: is_full_def)
      then show ?thesis using inv Q_test by (simp add: ex03_inv_def w' q_region_def q_moved_def q_ok_def)
    qed
  next
    case Q_sleep
    with assms(2) show ?thesis by (simp add: produce_def)
  next
    case Q_woken
    then have w': "w' = w\<lparr>pc_mutex := Some TidA, prod_pc := Q_test\<rparr>" "pc_mutex w = None" using assms(2) by (simp_all add: produce_def split: if_splits)
    show ?thesis using inv Q_woken w'(2) by (simp add: ex03_inv_def w'(1) q_region_def q_moved_def q_ok_def)
  next
    case Q_move
    then have w': "w' = w\<lparr>pc_buf := buf_store (int (prod_i w)) (pc_buf w), prod_pc := Q_signal\<rparr>" using assms(2) by (simp add: produce_def)
    have l: "b_nitems (pc_buf w) < BUFFSIZE" using inv(3,6) Q_move by (auto simp: q_ok_def is_full_def buf_wf_def)
    have "\<not> q_region (cons_pc w)" using inv(1,2) Q_move by (simp add: q_region_def)
    then have "q_ok (cons_i w) (cons_pc w) b True" for b using inv(7) by (blast intro: q_ok_outside)
    then show ?thesis using inv Q_move buf_store_wf [OF inv(3) l] buf_items_store [OF inv(3) l]
      by (simp add: ex03_inv_def w' q_region_def q_moved_def) (simp add: q_ok_def)
  next
    case Q_signal
    then have w': "w' = w\<lparr>cons_pc := wake (cons_pc w), prod_pc := Q_unlock\<rparr>" using assms(2) by (simp add: produce_def)
    have "cons_pc w \<noteq> Q_signal" using inv(1,2) Q_signal by (auto simp: q_region_def)
    then show ?thesis using inv Q_signal q_ok_told [OF inv(7)] by (simp add: ex03_inv_def w' q_region_def [of Q_signal] q_region_def [of Q_unlock] q_moved_def [of _ Q_signal] q_moved_def [of _ Q_unlock] q_ok_def [of "prod_i w"])
  next
    case Q_unlock
    then have w': "w' = w\<lparr>pc_mutex := None, prod_i := prod_i w + 1, prod_pc := Q_top\<rparr>" using assms(2) by (simp add: produce_def)
    have "\<not> q_region (cons_pc w)" using inv(1,2) Q_unlock by (simp add: q_region_def)
    then show ?thesis using inv Q_unlock by (simp add: ex03_inv_def w' q_region_def [of Q_unlock] q_region_def [of Q_top] q_moved_def [of _ Q_unlock] q_moved_def [of _ Q_top] q_ok_def [of "prod_i w"] q_ok_def [of "prod_i w + 1"] q_ok_def [of "Suc (prod_i w)"])
  next
    case Q_end
    with assms(2) show ?thesis by (simp add: produce_def)
  qed
qed

lemma consume_inv:
  assumes "ex03_inv w" and "consume w = Some w'"
  shows "ex03_inv w'"
proof -
  have inv: "q_region (prod_pc w) \<longleftrightarrow> pc_mutex w = Some TidA" "q_region (cons_pc w) \<longleftrightarrow> pc_mutex w = Some TidB" "buf_wf (pc_buf w)"
    "consumed w @ buf_items (pc_buf w) = map int [0..<q_moved (prod_i w) (prod_pc w)]" "length (consumed w) = q_moved (cons_i w) (cons_pc w)"
    "q_ok (prod_i w) (prod_pc w) (is_full (pc_buf w)) (cons_pc w = Q_signal)" "q_ok (cons_i w) (cons_pc w) (is_empty (pc_buf w)) (prod_pc w = Q_signal)"
    using assms(1) unfolding ex03_inv_def by blast+
  show ?thesis
  proof (cases "cons_pc w")
    case Q_top
    then have w': "w' = w\<lparr>cons_pc := (if cons_i w < NLOOP3 then Q_lock else Q_end)\<rparr>" using assms(2) by (simp add: consume_def)
    show ?thesis using inv Q_top by (auto simp: ex03_inv_def w' q_region_def q_moved_def q_ok_def)
  next
    case Q_lock
    then have w': "w' = w\<lparr>pc_mutex := Some TidB, cons_pc := Q_test\<rparr>" "pc_mutex w = None" using assms(2) by (simp_all add: consume_def split: if_splits)
    show ?thesis using inv Q_lock w'(2) by (simp add: ex03_inv_def w'(1) q_region_def q_moved_def q_ok_def)
  next
    case Q_test
    show ?thesis
    proof (cases "b_nitems (pc_buf w) \<le> 0")
      case True
      then have w': "w' = w\<lparr>pc_mutex := None, cons_pc := Q_sleep\<rparr>" using assms(2) Q_test by (simp add: consume_def)
      have "is_empty (pc_buf w)" using True inv(3) by (simp add: is_empty_def buf_wf_def)
      then show ?thesis using inv Q_test by (simp add: ex03_inv_def w' q_region_def q_moved_def q_ok_def)
    next
      case False
      then have w': "w' = w\<lparr>cons_pc := Q_move\<rparr>" using assms(2) Q_test by (simp add: consume_def)
      have "\<not> is_empty (pc_buf w)" using False by (simp add: is_empty_def)
      then show ?thesis using inv Q_test by (simp add: ex03_inv_def w' q_region_def q_moved_def q_ok_def)
    qed
  next
    case Q_sleep
    with assms(2) show ?thesis by (simp add: consume_def)
  next
    case Q_woken
    then have w': "w' = w\<lparr>pc_mutex := Some TidB, cons_pc := Q_test\<rparr>" "pc_mutex w = None" using assms(2) by (simp_all add: consume_def split: if_splits)
    show ?thesis using inv Q_woken w'(2) by (simp add: ex03_inv_def w'(1) q_region_def q_moved_def q_ok_def)
  next
    case Q_move
    then have w': "w' = w\<lparr>consumed := consumed w @ [buf_fetch (pc_buf w)], pc_buf := buf_remove (pc_buf w), cons_pc := Q_signal\<rparr>"
      using assms(2) by (simp add: consume_def)
    have l: "b_nitems (pc_buf w) \<noteq> 0" using inv(7) Q_move by (auto simp: q_ok_def is_empty_def)
    have "\<not> q_region (prod_pc w)" using inv(2,1) Q_move by (simp add: q_region_def)
    then have "q_ok (prod_i w) (prod_pc w) b True" for b using inv(6) by (blast intro: q_ok_outside)
    then show ?thesis using inv Q_move buf_remove_wf [OF inv(3) l] buf_items_remove [OF inv(3) l]
      by (simp add: ex03_inv_def w' q_region_def q_moved_def) (simp add: q_ok_def)
  next
    case Q_signal
    then have w': "w' = w\<lparr>prod_pc := wake (prod_pc w), cons_pc := Q_unlock\<rparr>" using assms(2) by (simp add: consume_def)
    have "prod_pc w \<noteq> Q_signal" using inv(2,1) Q_signal by (auto simp: q_region_def)
    then show ?thesis using inv Q_signal q_ok_told [OF inv(6)] by (simp add: ex03_inv_def w' q_region_def [of Q_signal] q_region_def [of Q_unlock] q_moved_def [of _ Q_signal] q_moved_def [of _ Q_unlock] q_ok_def [of "cons_i w"])
  next
    case Q_unlock
    then have w': "w' = w\<lparr>pc_mutex := None, cons_i := cons_i w + 1, cons_pc := Q_top\<rparr>" using assms(2) by (simp add: consume_def)
    have "\<not> q_region (prod_pc w)" using inv(2,1) Q_unlock by (simp add: q_region_def)
    then show ?thesis using inv Q_unlock by (simp add: ex03_inv_def w' q_region_def [of Q_unlock] q_region_def [of Q_top] q_moved_def [of _ Q_unlock] q_moved_def [of _ Q_top] q_ok_def [of "cons_i w"] q_ok_def [of "cons_i w + 1"] q_ok_def [of "Suc (cons_i w)"])
  next
    case Q_end
    with assms(2) show ?thesis by (simp add: consume_def)
  qed
qed

lemma ex03_inv_step:
  assumes "ex03_step w w'" and "ex03_inv w"
  shows "ex03_inv w'"
  using assms(1)
proof cases
  case producer
  with assms(2) show ?thesis by (rule produce_inv)
next
  case consumer
  with assms(2) show ?thesis by (rule consume_inv)
next
  case spurious_prod
  with assms(2) show ?thesis by (simp add: ex03_inv_def q_region_def q_moved_def q_ok_def)
next
  case spurious_cons
  with assms(2) show ?thesis by (simp add: ex03_inv_def q_region_def q_moved_def q_ok_def)
qed

lemma ex03_inv_reachable:
  assumes "ex03_step\<^sup>*\<^sup>* pc_start w"
  shows "ex03_inv w"
proof -
  have "ex03_inv pc_start" by (simp add: ex03_inv_def pc_start_def q_region_def q_moved_def q_ok_def buf_wf_def buf_zero_def buf_items_def BUFFSIZE_def)
  then show ?thesis using step_invariant [of ex03_step pc_start w ex03_inv] ex03_inv_step assms by blast
qed

definition pc_done :: "pcworld \<Rightarrow> bool" where
  "pc_done w \<longleftrightarrow> prod_pc w = Q_end \<and> cons_pc w = Q_end"

text \<open>Both threads cannot wait for each other, nor one for a thread that has ended; a sleeping thread without a spurious wakeup counts as unable to move.\<close>

lemma ex03_moves:
  assumes "ex03_inv w" and "\<not> pc_done w"
  shows "\<exists>w'. produce w = Some w' \<or> consume w = Some w'"
proof (rule ccontr)
  assume no: "\<nexists>w'. produce w = Some w' \<or> consume w = Some w'"
  have inv: "q_region (prod_pc w) \<longleftrightarrow> pc_mutex w = Some TidA" "q_region (cons_pc w) \<longleftrightarrow> pc_mutex w = Some TidB"
    "consumed w @ buf_items (pc_buf w) = map int [0..<q_moved (prod_i w) (prod_pc w)]" "length (consumed w) = q_moved (cons_i w) (cons_pc w)"
    "q_ok (prod_i w) (prod_pc w) (is_full (pc_buf w)) (cons_pc w = Q_signal)" "q_ok (cons_i w) (cons_pc w) (is_empty (pc_buf w)) (prod_pc w = Q_signal)"
    using assms(1) unfolding ex03_inv_def by blast+
  have p: "prod_pc w \<in> {Q_lock, Q_woken, Q_sleep, Q_end}" using no by (cases "prod_pc w") (auto simp: produce_def split: if_splits)
  have c: "cons_pc w \<in> {Q_lock, Q_woken, Q_sleep, Q_end}" using no by (cases "cons_pc w") (auto simp: consume_def split: if_splits)
  have "pc_mutex w = None" using p c inv(1,2) by (cases "pc_mutex w"; auto simp: q_region_def; metis extid.exhaust)
  then have pc: "prod_pc w \<in> {Q_sleep, Q_end}" "cons_pc w \<in> {Q_sleep, Q_end}" using p c no by (auto simp: produce_def consume_def)
  have len: "length (consumed w) + b_nitems (pc_buf w) = q_moved (prod_i w) (prod_pc w)"
    using arg_cong [OF inv(3), of length] by (simp add: buf_items_def)
  from pc consider "prod_pc w = Q_sleep" "cons_pc w = Q_sleep" | "prod_pc w = Q_sleep" "cons_pc w = Q_end" | "prod_pc w = Q_end" "cons_pc w = Q_sleep"
    using assms(2) by (auto simp: pc_done_def)
  then show False
  proof cases
    case 1
    with inv(5,6) is_full_empty show False by (auto simp: q_ok_def)
  next
    case 2
    with inv(4-6) len show False by (simp add: q_ok_def q_moved_def)
  next
    case 3
    with inv(4-6) len show False by (simp add: q_ok_def q_moved_def is_empty_def)
  qed
qed

lemma ex03_final:
  assumes "ex03_inv w" and "pc_done w"
  shows "consumed w = map int [0..<NLOOP3]"
proof -
  have e: "consumed w @ buf_items (pc_buf w) = map int [0..<NLOOP3]" "length (consumed w) = NLOOP3"
    using assms by (auto simp: ex03_inv_def pc_done_def q_ok_def q_moved_def)
  have "length (consumed w @ buf_items (pc_buf w)) = NLOOP3" unfolding e(1) by simp
  then have "buf_items (pc_buf w) = []" using e(2) by simp
  with e(1) show ?thesis by simp
qed

section \<open>Properties\<close>



text \<open>
  C32. The producer and the consumer, in every interleaving: what was consumed, followed by what is in the buffer, is what was produced, in order; the buffer never holds more than its
  size; no wakeup is lost, so that some thread can move without a spurious wakeup until both have returned, and then exactly 0 to 49 have been consumed.
\<close>

theorem producer_consumer:
  assumes "ex03_step\<^sup>*\<^sup>* pc_start w"
  shows "consumed w @ buf_items (pc_buf w) = map int [0..<q_moved (prod_i w) (prod_pc w)] \<and> b_nitems (pc_buf w) \<le> BUFFSIZE \<and>
    (if pc_done w then consumed w = map int [0..<NLOOP3] else \<exists>w'. produce w = Some w' \<or> consume w = Some w')"
proof -
  have i: "ex03_inv w" using assms by (rule ex03_inv_reachable)
  then show ?thesis using ex03_moves [OF i] ex03_final [OF i] by (simp add: ex03_inv_def buf_wf_def)
qed

theorem producer_consumer_witness: "consumed pc_start @ buf_items (pc_buf pc_start) = [] \<and> (\<exists>w'. produce pc_start = Some w' \<or> consume pc_start = Some w')"
  using producer_consumer [of pc_start] by (simp add: pc_start_def pc_done_def q_moved_def)

end
