(* ===== verification/Web_Joins.thy ===== *)
theory Web_Joins
  imports Web_Threads
begin

text \<open>
  The other two web clients with threads. \<^verbatim>\<open>threads/web01.c\<close> joins whichever thread ends, with \<^verbatim>\<open>thr_join\<close>; it is proved to fetch every file and never to be stuck.
  \<^verbatim>\<open>threads/web02.c\<close> polls \<^verbatim>\<open>ndone\<close> under the mutex, and sets \<^verbatim>\<open>F_CONNECTING\<close> after it has created the thread; it is proved that it can lose the end of a
  thread and then polls for ever. Both use the steps of the threads of \<open>Web_Threads\<close> as far as the code is the same.
\<close>

section \<open>web01: join any thread\<close>

record w1st =
  w1_t :: tweb
  w1_joined :: "nat list"

definition web01_start :: "string \<Rightarrow> string list \<Rightarrow> w1st" where
  "web01_start host names = \<lparr>w1_t = web03_start host names, w1_joined = []\<rparr>"

definition t_created :: "tweb \<Rightarrow> nat set" where
  "t_created t = {i. i < length (tpcs t) \<and> tpcs t ! i \<noteq> T_none}"

text \<open>
  \<open>create\<close> is the result of \<^verbatim>\<open>Pthread_create\<close> and \<open>k\<close> the thread that \<^verbatim>\<open>thr_join\<close> returns: one that has ended and was not joined; it fails when there is no thread.
\<close>

definition thr_join :: "nat \<Rightarrow> w1st \<Rightarrow> w1st option" where
  "thr_join k s =
     (let t = w1_t s
      in if list_all (\<lambda>i. tpcs t ! i = T_none \<or> i \<in> set (w1_joined s)) [0..<length (tpcs t)]
         then Some (s\<lparr>w1_t := t\<lparr>tdied := Some (Err_sys ''thr_join error'' None)\<rparr>\<rparr>)
         else if k < length (tpcs t) \<and> tpcs t ! k = T_ended k \<and> k \<notin> set (w1_joined s)
         then Some (s\<lparr>w1_joined := w1_joined s @ [k],
                      w1_t := t\<lparr>tnconn := tnconn t - 1, tnlefttoread := tnlefttoread t - 1, mainpc := M_outer\<rparr>\<rparr>)
         else None)"

definition web01_main :: "int \<Rightarrow> errno option \<Rightarrow> nat \<Rightarrow> w1st \<Rightarrow> w1st option" where
  "web01_main maxnconn create k s =
     (let t = w1_t s
      in case mainpc t of
        M_outer \<Rightarrow> Some (s\<lparr>w1_t := t\<lparr>mainpc := (if 0 < tnlefttoread t then M_start else M_exit)\<rparr>\<rparr>)
      | M_start \<Rightarrow>
          if tnconn t < maxnconn \<and> 0 < tnlefttoconn t
          then (case find_file (tfiles t) of
                  None \<Rightarrow> Some (s\<lparr>w1_t := t\<lparr>tdied := Some (Err_quit ''nlefttoconn = %d but nothing found'')\<rparr>\<rparr>)
                | Some i \<Rightarrow>
                    if create \<noteq> None then Some (s\<lparr>w1_t := tflag i F_CONNECTING t\<lparr>tdied := Some (Err_sys ''pthread_create error'' create)\<rparr>\<rparr>)
                    else Some (s\<lparr>w1_t := (tgo i T_connect (tflag i F_CONNECTING t))\<lparr>tnconn := tnconn t + 1, tnlefttoconn := tnlefttoconn t - 1\<rparr>\<rparr>))
          else Some (s\<lparr>w1_t := t\<lparr>mainpc := M_join 0\<rparr>\<rparr>)
      | M_join _ \<Rightarrow> thr_join k s
      | _ \<Rightarrow> None)"

text \<open>The thread returns its argument after it has set \<^verbatim>\<open>F_DONE\<close>; before that it does what the threads of \<open>Web_Threads\<close> do.\<close>

definition do_get_read01 :: "tchoice \<Rightarrow> nat \<Rightarrow> tweb \<Rightarrow> tweb option" where
  "do_get_read01 ch i t =
     (case tpcs t ! i of
        T_flag \<Rightarrow> Some (tgo i (T_ended i) (tflag i F_DONE t))
      | T_connect \<Rightarrow> do_get_read ch i t
      | T_write \<Rightarrow> do_get_read ch i t
      | T_read \<Rightarrow> do_get_read ch i t
      | T_close \<Rightarrow> do_get_read ch i t
      | _ \<Rightarrow> None)"

inductive web01_step :: "int \<Rightarrow> w1st \<Rightarrow> w1st \<Rightarrow> bool" for maxnconn :: int where
  main01: "tdied (w1_t s) = None \<Longrightarrow> web01_main maxnconn create k s = Some s' \<Longrightarrow> web01_step maxnconn s s'"
| thread01: "tdied (w1_t s) = None \<Longrightarrow> mainpc (w1_t s) \<noteq> M_exit \<Longrightarrow> i < length (tpcs (w1_t s)) \<Longrightarrow> do_get_read01 ch i (w1_t s) = Some t \<Longrightarrow>
    web01_step maxnconn s (s\<lparr>w1_t := t\<rparr>)"

definition main01_ok :: "int \<Rightarrow> tweb \<Rightarrow> bool" where
  "main01_ok m t \<longleftrightarrow> tnconn t \<le> max 0 m \<and>
     (case mainpc t of
        M_outer \<Rightarrow> True
      | M_start \<Rightarrow> 0 < tnlefttoread t
      | M_join k \<Rightarrow> 0 < m \<longrightarrow> 0 < tnconn t
      | M_exit \<Rightarrow> tnlefttoread t \<le> 0
      | _ \<Rightarrow> False)"

definition joins_ok :: "tweb \<Rightarrow> nat list \<Rightarrow> bool" where
  "joins_ok t js \<longleftrightarrow> distinct js \<and> (\<forall>j \<in> set js. j < length (tpcs t) \<and> tpcs t ! j = T_ended j)"

text \<open>No thread uses the mutex.\<close>

definition pcs01 :: "threadpc list \<Rightarrow> bool" where
  "pcs01 pcs \<longleftrightarrow> set pcs \<inter> {T_lock, T_count, T_signal, T_unlock} = {}"

lemma pcs01_upd: "pcs01 pcs \<Longrightarrow> pc \<notin> {T_lock, T_count, T_signal, T_unlock} \<Longrightarrow> pcs01 (pcs[i := pc])"
  using set_update_subset_insert [of pcs i pc] by (auto simp: pcs01_def)

definition web01_inv :: "int \<Rightarrow> w1st \<Rightarrow> bool" where
  "web01_inv m s \<longleftrightarrow> (let t = w1_t s; js = w1_joined s in
     phases_ok (tfiles t) (tpcs t) \<and> pcs01 (tpcs t) \<and> joins_ok t js \<and>
     tnlefttoconn t = int (length (tpcs t)) - int (card (t_created t)) \<and> tnconn t = int (card (t_created t)) - int (length js) \<and>
     tnlefttoread t = int (length (tpcs t)) - int (length js) \<and> main01_ok m t)"

lemma t_created_finite [simp]: "finite (t_created t)"
  by (simp add: t_created_def)

lemma t_created_bound: "card (t_created t) \<le> length (tpcs t)"
proof -
  have "t_created t \<subseteq> {..<length (tpcs t)}" by (auto simp: t_created_def)
  then have "card (t_created t) \<le> card {..<length (tpcs t)}" by (rule card_mono [rotated]) simp
  then show ?thesis by simp
qed

lemma joins_created: "joins_ok t js \<Longrightarrow> set js \<subseteq> t_created t"
  by (auto simp: joins_ok_def t_created_def)

lemma joins_bound: "joins_ok t js \<Longrightarrow> length js \<le> card (t_created t)"
  using card_mono [OF t_created_finite joins_created, of t js] by (simp add: joins_ok_def distinct_card)

lemma created_all: "card (t_created t) = length (tpcs t) \<Longrightarrow> i < length (tpcs t) \<Longrightarrow> tpcs t ! i \<noteq> T_none"
proof -
  assume c: "card (t_created t) = length (tpcs t)" and i: "i < length (tpcs t)"
  have "t_created t \<subseteq> {..<length (tpcs t)}" by (auto simp: t_created_def)
  then have "t_created t = {..<length (tpcs t)}" using c by (intro card_subset_eq) simp_all
  with i show "tpcs t ! i \<noteq> T_none" by (auto simp: t_created_def)
qed

lemma created_start: "i < length (tpcs t) \<Longrightarrow> tpcs t ! i = T_none \<Longrightarrow> pc \<noteq> T_none \<Longrightarrow> tpcs t' = (tpcs t)[i := pc] \<Longrightarrow> card (t_created t') = card (t_created t) + 1"
proof -
  assume a: "i < length (tpcs t)" "tpcs t ! i = T_none" "pc \<noteq> T_none" "tpcs t' = (tpcs t)[i := pc]"
  then have "t_created t' = insert i (t_created t)" by (auto simp: t_created_def nth_list_update)
  moreover have "i \<notin> t_created t" using a by (simp add: t_created_def)
  ultimately show ?thesis by simp
qed

lemma created_same: "tpcs t ! i \<noteq> T_none \<Longrightarrow> pc \<noteq> T_none \<Longrightarrow> tpcs t' = (tpcs t)[i := pc] \<Longrightarrow> t_created t' = t_created t"
  by (cases "i < length (tpcs t)") (auto simp: t_created_def nth_list_update)

lemma find_some:
  assumes "phases_ok (tfiles t) (tpcs t)" and "card (t_created t) < length (tpcs t)"
  obtains i where "find_file (tfiles t) = Some i"
proof -
  obtain i where i: "i < length (tpcs t)" "tpcs t ! i = T_none"
  proof (rule ccontr)
    assume no: "\<not> thesis"
    with that have "{..<length (tpcs t)} \<subseteq> t_created t" by (auto simp: t_created_def)
    from card_mono [OF t_created_finite this] assms(2) show False by simp
  qed
  then have "f_flags (tfiles t ! i) = 0" "i < length (tfiles t)" using assms(1) by (auto simp: phases_ok_def phase_ok_def)
  then have "find_file (tfiles t) \<noteq> None" unfolding find_file_def find_index_None using nth_mem by blast
  with that show ?thesis by blast
qed

lemma joins_upd: "joins_ok t js \<Longrightarrow> (\<forall>k. tpcs t ! i \<noteq> T_ended k) \<Longrightarrow> tpcs t' = (tpcs t)[i := pc] \<Longrightarrow> joins_ok t' js"
  by (cases "i < length (tpcs t)") (auto simp: joins_ok_def nth_list_update)

lemma joins_same: "joins_ok t js \<Longrightarrow> tpcs t' = tpcs t \<Longrightarrow> joins_ok t' js"
  by (simp add: joins_ok_def)

lemma created_tpcs: "tpcs t' = tpcs t \<Longrightarrow> t_created t' = t_created t"
  by (simp add: t_created_def)

lemma joins_mainpc [simp]:
  "joins_ok (t\<lparr>mainpc := x\<rparr>) js = joins_ok t js" "t_created (t\<lparr>mainpc := x\<rparr>) = t_created t"
  "joins_ok (t\<lparr>tnconn := a\<rparr>) js = joins_ok t js" "t_created (t\<lparr>tnconn := a\<rparr>) = t_created t"
  "joins_ok (t\<lparr>tnlefttoread := a\<rparr>) js = joins_ok t js" "t_created (t\<lparr>tnlefttoread := a\<rparr>) = t_created t"
  by (simp_all add: joins_ok_def t_created_def)

lemma web01_main_inv:
  assumes "web01_inv m s" and "web01_main m create k s = Some s'" and "tdied (w1_t s) = None"
  shows "if tdied (w1_t s') = None then web01_inv m s'
    else (\<exists>e. tdied (w1_t s') = Some (Err_sys ''pthread_create error'' e)) \<or> m \<le> 0 \<and> tdied (w1_t s') = Some (Err_sys ''thr_join error'' None)"
proof -
  let ?t = "w1_t s" and ?js = "w1_joined s"
  have p01: "pcs01 (tpcs ?t)" using assms(1) by (simp add: web01_inv_def Let_def)
  have inv: "phases_ok (tfiles ?t) (tpcs ?t)" "joins_ok ?t ?js" "tnlefttoconn ?t = int (length (tpcs ?t)) - int (card (t_created ?t))"
    "tnconn ?t = int (card (t_created ?t)) - int (length ?js)" "tnlefttoread ?t = int (length (tpcs ?t)) - int (length ?js)" "main01_ok m ?t"
    using assms(1) unfolding web01_inv_def Let_def by blast+
  show ?thesis
  proof (cases "mainpc ?t")
    case M_outer
    then have s': "s' = s\<lparr>w1_t := ?t\<lparr>mainpc := (if 0 < tnlefttoread ?t then M_start else M_exit)\<rparr>\<rparr>" using assms(2) by (simp add: web01_main_def Let_def)
    show ?thesis unfolding s' web01_inv_def Let_def using M_outer inv p01 assms(3) by (simp add: main01_ok_def)
  next
    case M_start
    show ?thesis
    proof (cases "tnconn ?t < m \<and> 0 < tnlefttoconn ?t")
      case True
      then have "card (t_created ?t) < length (tpcs ?t)" using inv(3) by simp
      then obtain i where i: "find_file (tfiles ?t) = Some i" using find_some [OF inv(1)] by blast
      have idle: "i < length (tfiles ?t)" "tpcs ?t ! i = T_none" using find_file_idle [OF i inv(1)] by auto
      have len: "length (tpcs ?t) = length (tfiles ?t)" using inv(1) by (simp add: phases_ok_def)
      define u where "u = (tgo i T_connect (tflag i F_CONNECTING ?t))\<lparr>tnconn := tnconn ?t + 1, tnlefttoconn := tnlefttoconn ?t - 1\<rparr>"
      show ?thesis
      proof (cases create)
        case None
        then have s': "s' = s\<lparr>w1_t := u\<rparr>" using assms(2) M_start True i by (simp add: web01_main_def Let_def u_def)
        have pcs: "tpcs u = (tpcs ?t)[i := T_connect]" by (simp add: u_def)
        have "phases_ok (tfiles u) (tpcs u)" unfolding u_def
          using phases_update [OF inv(1), of i "(tfiles ?t ! i)\<lparr>f_flags := F_CONNECTING\<rparr>" T_connect] idle len by (simp add: set_flags_def phase_ok_def)
        moreover have "joins_ok u ?js" by (rule joins_upd [OF inv(2) _ pcs]) (simp add: idle)
        moreover have "card (t_created u) = card (t_created ?t) + 1" by (rule created_start [OF _ idle(2) _ pcs]) (simp_all add: idle len)
        ultimately show ?thesis using True M_start inv(3-6) assms(3) pcs01_upd [OF p01, of T_connect i]
          unfolding s' web01_inv_def by (simp add: pcs) (auto simp: u_def main01_ok_def max_def)
      next
        case (Some e)
        then have "tdied (w1_t s') = Some (Err_sys ''pthread_create error'' create)" using assms(2) M_start True i by (auto simp: web01_main_def Let_def)
        then show ?thesis by simp
      qed
    next
      case False
      then have s': "s' = s\<lparr>w1_t := ?t\<lparr>mainpc := M_join 0\<rparr>\<rparr>" using assms(2) M_start by (auto simp: web01_main_def Let_def split: if_splits)
      have "0 < tnconn ?t" if "0 < m"
        using that False inv(3-6) M_start t_created_bound [of ?t] by (auto simp: main01_ok_def)
      then show ?thesis unfolding s' web01_inv_def Let_def using inv p01 assms(3) M_start by (simp add: main01_ok_def)
    qed
  next
    case (M_join j)
    then have join: "thr_join k s = Some s'" using assms(2) by (simp add: web01_main_def Let_def)
    show ?thesis
    proof (cases "list_all (\<lambda>i. tpcs ?t ! i = T_none \<or> i \<in> set ?js) [0..<length (tpcs ?t)]")
      case True
      then have "t_created ?t \<subseteq> set ?js" by (auto simp: t_created_def list_all_iff)
      then have "card (t_created ?t) \<le> length ?js" using card_mono [of "set ?js" "t_created ?t"] card_length [of ?js] by simp
      then have "m \<le> 0" using inv(4,6) M_join by (simp add: main01_ok_def)
      moreover have "tdied (w1_t s') = Some (Err_sys ''thr_join error'' None)" using join True by (auto simp: thr_join_def Let_def)
      ultimately show ?thesis by simp
    next
      case False
      then have k: "k < length (tpcs ?t)" "tpcs ?t ! k = T_ended k" "k \<notin> set ?js"
        and s': "s' = s\<lparr>w1_joined := ?js @ [k], w1_t := ?t\<lparr>tnconn := tnconn ?t - 1, tnlefttoread := tnlefttoread ?t - 1, mainpc := M_outer\<rparr>\<rparr>"
        using join by (auto simp: thr_join_def Let_def split: if_splits)
      have "joins_ok ?t (?js @ [k])" using inv(2) k by (auto simp: joins_ok_def)
      then show ?thesis unfolding s' web01_inv_def Let_def using inv p01 assms(3) M_join by (simp add: main01_ok_def)
    qed
  qed (use assms(2) in \<open>simp_all add: web01_main_def Let_def\<close>)
qed

text \<open>A step of a thread: the file and the program counter of the thread change, or the process ends.\<close>

definition thread_moves :: "nat \<Rightarrow> tweb \<Rightarrow> tweb \<Rightarrow> bool" where
  "thread_moves i t t' \<longleftrightarrow> (\<exists>f pc. t' = t\<lparr>tfiles := (tfiles t)[i := f], tpcs := (tpcs t)[i := pc]\<rparr> \<and> phase_ok f pc \<and> pc \<notin> {T_none, T_lock, T_count, T_signal, T_unlock} \<and> (\<forall>k. pc = T_ended k \<longrightarrow> k = i)) \<and>
     tpcs t ! i \<noteq> T_none \<and> (\<forall>k. tpcs t ! i \<noteq> T_ended k)"

lemma thread_movesI:
  "t' = t\<lparr>tfiles := (tfiles t)[i := f], tpcs := (tpcs t)[i := pc]\<rparr> \<Longrightarrow> phase_ok f pc \<Longrightarrow> pc \<notin> {T_none, T_lock, T_count, T_signal, T_unlock} \<Longrightarrow> (\<And>k. pc = T_ended k \<Longrightarrow> k = i) \<Longrightarrow>
    tpcs t ! i \<noteq> T_none \<Longrightarrow> (\<And>k. tpcs t ! i \<noteq> T_ended k) \<Longrightarrow> thread_moves i t t'"
  by (auto simp: thread_moves_def)

lemma do_get_read01_step:
  assumes "do_get_read01 ch i t = Some t'" and "phase_ok (tfiles t ! i) (tpcs t ! i)" and "tdied t = None"
  shows "thread_moves i t t' \<or> tdied t' \<notin> {None, Some (Err_quit ''nlefttoconn = %d but nothing found''), Some (Err_sys ''thr_join error'' None)}"
proof (cases "tpcs t ! i")
  case T_connect
  then have c: "do_get_read ch i t = Some t'" using assms(1) by (simp add: do_get_read01_def)
  show ?thesis
  proof (cases "t_connect ch")
    case (Inr fd)
    then have "t' = t\<lparr>tfiles := (tfiles t)[i := (tfiles t ! i)\<lparr>f_fd := fd\<rparr>], tpcs := (tpcs t)[i := T_write]\<rparr>"
      using c T_connect Inr by (intro tweb.equality) (auto simp: do_get_read_def tgo_def)
    moreover have "phase_ok ((tfiles t ! i)\<lparr>f_fd := fd\<rparr>) T_write" using assms(2) T_connect by (simp add: phase_ok_def)
    ultimately have "thread_moves i t t'" by (rule thread_movesI) (use T_connect in \<open>auto split: if_splits\<close>)
    then show ?thesis by blast
  next
    case (Inl r)
    then show ?thesis using c T_connect by (auto simp: do_get_read_def tcp_failure_def split: sum.splits)
  qed
next
  case T_write
  then have c: "do_get_read ch i t = Some t'" using assms(1) by (simp add: do_get_read01_def)
  show ?thesis
  proof (cases "t_write ch")
    case None
    then have "t' = t\<lparr>tfiles := (tfiles t)[i := (tfiles t ! i)\<lparr>f_flags := F_READING\<rparr>], tpcs := (tpcs t)[i := T_read]\<rparr>"
      using c T_write None by (intro tweb.equality) (auto simp: do_get_read_def tgo_def tflag_def set_flags_def)
    moreover have "phase_ok ((tfiles t ! i)\<lparr>f_flags := F_READING\<rparr>) T_read" by (simp add: phase_ok_def)
    ultimately have "thread_moves i t t'" by (rule thread_movesI) (use T_write in \<open>auto split: if_splits\<close>)
    then show ?thesis by blast
  next
    case (Some e)
    then show ?thesis using c T_write by (auto simp: do_get_read_def)
  qed
next
  case T_read
  then have c: "do_get_read ch i t = Some t'" using assms(1) by (simp add: do_get_read01_def)
  show ?thesis
  proof (cases "t_read ch")
    case (Inr bs)
    then have "t' = t\<lparr>tfiles := (tfiles t)[i := tfiles t ! i], tpcs := (tpcs t)[i := (if bs = [] then T_close else T_read)]\<rparr>"
      using c T_read Inr list_update_id [of "tpcs t" i] by (intro tweb.equality) (auto simp: do_get_read_def tgo_def)
    moreover have "phase_ok (tfiles t ! i) (if bs = [] then T_close else T_read)" using assms(2) T_read by (simp add: phase_ok_def)
    ultimately have "thread_moves i t t'" by (rule thread_movesI) (use T_read in \<open>auto split: if_splits\<close>)
    then show ?thesis by blast
  next
    case (Inl e)
    then show ?thesis using c T_read by (auto simp: do_get_read_def)
  qed
next
  case T_close
  then have c: "do_get_read ch i t = Some t'" using assms(1) by (simp add: do_get_read01_def)
  show ?thesis
  proof (cases "t_close ch")
    case None
    then have "t' = t\<lparr>tfiles := (tfiles t)[i := tfiles t ! i], tpcs := (tpcs t)[i := T_flag]\<rparr>" using c T_close None by (intro tweb.equality) (auto simp: do_get_read_def tgo_def)
    moreover have "phase_ok (tfiles t ! i) T_flag" using assms(2) T_close by (simp add: phase_ok_def)
    ultimately have "thread_moves i t t'" by (rule thread_movesI) (use T_close in \<open>auto split: if_splits\<close>)
    then show ?thesis by blast
  next
    case (Some e)
    then show ?thesis using c T_close by (auto simp: do_get_read_def)
  qed
next
  case T_flag
  then have "t' = t\<lparr>tfiles := (tfiles t)[i := (tfiles t ! i)\<lparr>f_flags := F_DONE\<rparr>], tpcs := (tpcs t)[i := T_ended i]\<rparr>"
    using assms(1) by (intro tweb.equality) (auto simp: do_get_read01_def tgo_def tflag_def set_flags_def)
  moreover have "phase_ok ((tfiles t ! i)\<lparr>f_flags := F_DONE\<rparr>) (T_ended i)" by (simp add: phase_ok_def)
  ultimately have "thread_moves i t t'" by (rule thread_movesI) (use T_flag in \<open>auto split: if_splits\<close>)
    then show ?thesis by blast
qed (use assms(1) in \<open>simp_all add: do_get_read01_def\<close>)

lemma thread01_inv:
  assumes "web01_inv m s" and "thread_moves i (w1_t s) t'" and "i < length (tpcs (w1_t s))"
  shows "web01_inv m (s\<lparr>w1_t := t'\<rparr>)"
proof -
  let ?t = "w1_t s"
  obtain f pc where t': "t' = ?t\<lparr>tfiles := (tfiles ?t)[i := f], tpcs := (tpcs ?t)[i := pc]\<rparr>" and f: "phase_ok f pc" "pc \<notin> {T_none, T_lock, T_count, T_signal, T_unlock}" "\<forall>k. pc = T_ended k \<longrightarrow> k = i"
    and old: "tpcs ?t ! i \<noteq> T_none" "\<forall>k. tpcs ?t ! i \<noteq> T_ended k" using assms(2) by (auto simp: thread_moves_def)
  have p01: "pcs01 (tpcs ?t)" using assms(1) by (simp add: web01_inv_def Let_def)
  have inv: "phases_ok (tfiles ?t) (tpcs ?t)" "joins_ok ?t (w1_joined s)" "tnlefttoconn ?t = int (length (tpcs ?t)) - int (card (t_created ?t))"
    "tnconn ?t = int (card (t_created ?t)) - int (length (w1_joined s))" "tnlefttoread ?t = int (length (tpcs ?t)) - int (length (w1_joined s))" "main01_ok m ?t"
    using assms(1) unfolding web01_inv_def Let_def by blast+
  have pcs: "tpcs t' = (tpcs ?t)[i := pc]" by (simp add: t')
  have "phases_ok (tfiles t') (tpcs t')" using phases_update [OF inv(1) assms(3) f(1,3)] by (simp add: t')
  moreover have "joins_ok t' (w1_joined s)" by (rule joins_upd [OF inv(2) old(2) pcs])
  moreover have "t_created t' = t_created ?t" by (rule created_same [OF old(1) _ pcs]) (use f(2) in simp)
  moreover have "main01_ok m t'" using inv(6) by (cases "mainpc ?t") (simp_all add: t' main01_ok_def)
  ultimately show ?thesis using inv(3-5) pcs01_upd [OF p01, of pc i] f(2) by (simp add: web01_inv_def pcs) (simp add: t')
qed

definition web01_fatal :: "int \<Rightarrow> fatal set" where
  "web01_fatal m = {Err_quit ''nlefttoconn = %d but nothing found''} \<union> (if 0 < m then {Err_sys ''thr_join error'' None} else {})"

definition web01_safe :: "int \<Rightarrow> w1st \<Rightarrow> bool" where
  "web01_safe m s \<longleftrightarrow> (case tdied (w1_t s) of None \<Rightarrow> web01_inv m s | Some f \<Rightarrow> f \<notin> web01_fatal m)"

lemma web01_step_safe:
  assumes "web01_step m s s'" and "web01_safe m s"
  shows "web01_safe m s'"
  using assms(1)
proof cases
  case (main01 create k)
  then have "web01_inv m s" using assms(2) by (simp add: web01_safe_def)
  from web01_main_inv [OF this main01(2,1)] show ?thesis by (auto simp: web01_safe_def web01_fatal_def split: option.splits if_splits)
next
  case (thread01 i ch t)
  then have inv: "web01_inv m s" using assms(2) by (simp add: web01_safe_def)
  then have "phase_ok (tfiles (w1_t s) ! i) (tpcs (w1_t s) ! i)" using thread01(4) by (simp add: web01_inv_def Let_def phases_ok_def)
  from do_get_read01_step [OF thread01(5) this thread01(2)] show ?thesis
  proof
    assume mv: "thread_moves i (w1_t s) t"
    then have "tdied t = None" using thread01(2) by (auto simp: thread_moves_def)
    with thread01_inv [OF inv mv thread01(4)] thread01(1) show ?thesis by (simp add: web01_safe_def)
  next
    assume "tdied t \<notin> {None, Some (Err_quit ''nlefttoconn = %d but nothing found''), Some (Err_sys ''thr_join error'' None)}"
    with thread01(1) show ?thesis by (auto simp: web01_safe_def web01_fatal_def)
  qed
qed

lemma web01_reach:
  assumes "(web01_step m)\<^sup>*\<^sup>* (web01_start host names) s"
  shows "web01_safe m s"
proof -
  have "t_created (web03_start host names) = {}" by (auto simp: t_created_def web03_start_def Let_def)
  moreover have "phases_ok (file_init host names) (replicate (length (file_init host names)) T_none)"
    by (auto simp: phases_ok_def phase_ok_def file_init_def)
  ultimately have "web01_inv m (web01_start host names)"
    by (simp add: web01_inv_def web01_start_def joins_ok_def) (simp add: web03_start_def Let_def main01_ok_def pcs01_def)
  then have "web01_safe m (web01_start host names)" by (simp add: web01_safe_def web01_start_def web03_start_def Let_def)
  with assms step_invariant [of "web01_step m" "web01_start host names" s "web01_safe m"] web01_step_safe show ?thesis by blast
qed

text \<open>Something can always move: a thread that has not ended, the main thread, or a join.\<close>

lemma do_get_read01_moves:
  assumes "tpcs t ! i \<in> {T_connect, T_write, T_read, T_close, T_flag}"
  shows "\<exists>t'. do_get_read01 all_well i t = Some t'"
  using assms by (auto simp: do_get_read01_def do_get_read_def all_well_def)

lemma web01_moves:
  assumes "web01_inv m s" and "pcs01 (tpcs (w1_t s))" and "0 < m" and "tdied (w1_t s) = None" and "mainpc (w1_t s) \<noteq> M_exit"
  shows "\<exists>s'. web01_step m s s'"
proof -
  let ?t = "w1_t s"
  have inv: "phases_ok (tfiles ?t) (tpcs ?t)" "joins_ok ?t (w1_joined s)" "tnconn ?t = int (card (t_created ?t)) - int (length (w1_joined s))" "main01_ok m ?t"
    using assms(1) unfolding web01_inv_def Let_def by blast+
  have main: "\<exists>s'. web01_step m s s'" if "web01_main m None k s \<noteq> None" for k
    using that assms(4) by (auto intro: web01_step.main01)
  show ?thesis
  proof (cases "mainpc ?t")
    case M_outer
    then show ?thesis by (intro main [of 0]) (simp add: web01_main_def Let_def)
  next
    case M_start
    then show ?thesis by (intro main [of 0]) (auto simp: web01_main_def Let_def split: option.splits)
  next
    case (M_join j)
    with assms(3) inv(3,4) have "length (w1_joined s) < card (t_created ?t)" by (simp add: main01_ok_def)
    then have "\<not> t_created ?t \<subseteq> set (w1_joined s)" using card_mono [of "set (w1_joined s)" "t_created ?t"] card_length [of "w1_joined s"] by auto
    then obtain i where i: "i < length (tpcs ?t)" "tpcs ?t ! i \<noteq> T_none" "i \<notin> set (w1_joined s)" by (auto simp: t_created_def)
    show ?thesis
    proof (cases "\<exists>k. tpcs ?t ! i = T_ended k")
      case True
      then have "tpcs ?t ! i = T_ended i" using inv(1) i(1) by (auto simp: phases_ok_def)
      then show ?thesis using i M_join by (intro main [of i]) (simp add: web01_main_def Let_def thr_join_def)
    next
      case False
      then have "tpcs ?t ! i \<in> {T_connect, T_write, T_read, T_close, T_flag}" using i assms(2) nth_mem [OF i(1)] by (cases "tpcs ?t ! i") (auto simp: pcs01_def)
      from do_get_read01_moves [OF this] show ?thesis using assms(4,5) i(1) by (blast intro: web01_step.thread01)
    qed
  qed (use assms(5) inv(4) in \<open>simp_all add: main01_ok_def\<close>)
qed

section \<open>web02: poll the counter\<close>

text \<open>\<open>w2_new\<close>: the thread of this file has been created, but its entry is not marked yet.\<close>

record w2st =
  w2_t :: tweb
  w2_new :: "nat option"

definition web02_start :: "string \<Rightarrow> string list \<Rightarrow> w2st" where
  "web02_start host names = \<lparr>w2_t = web03_start host names, w2_new = None\<rparr>"

definition web02_main :: "int \<Rightarrow> errno option \<Rightarrow> w2st \<Rightarrow> w2st option" where
  "web02_main maxnconn create s =
     (let t = w2_t s
      in case w2_new s of
        Some i \<Rightarrow> Some (s\<lparr>w2_new := None, w2_t := (tflag i F_CONNECTING t)\<lparr>tnconn := tnconn t + 1, tnlefttoconn := tnlefttoconn t - 1\<rparr>\<rparr>)
      | None \<Rightarrow>
          (case mainpc t of
             M_outer \<Rightarrow> Some (s\<lparr>w2_t := t\<lparr>mainpc := (if 0 < tnlefttoread t then M_start else M_exit)\<rparr>\<rparr>)
           | M_start \<Rightarrow>
               if tnconn t < maxnconn \<and> 0 < tnlefttoconn t
               then (case find_file (tfiles t) of
                       None \<Rightarrow> Some (s\<lparr>w2_t := t\<lparr>tdied := Some (Err_quit ''nlefttoconn = %d but nothing found'')\<rparr>\<rparr>)
                     | Some i \<Rightarrow>
                         if create \<noteq> None then Some (s\<lparr>w2_t := t\<lparr>tdied := Some (Err_sys ''pthread_create error'' create)\<rparr>\<rparr>)
                         else Some (s\<lparr>w2_t := tgo i T_connect t, w2_new := Some i\<rparr>))
               else Some (s\<lparr>w2_t := t\<lparr>mainpc := M_lock\<rparr>\<rparr>)
           | M_lock \<Rightarrow> if ndone_mutex t = None then Some (s\<lparr>w2_t := t\<lparr>ndone_mutex := Some WMain, mainpc := M_test\<rparr>\<rparr>) else None
           | M_test \<Rightarrow> Some (s\<lparr>w2_t := t\<lparr>mainpc := (if 0 < ndone t then M_scan 0 else M_unlock)\<rparr>\<rparr>)
           | M_scan i \<Rightarrow>
               Some (s\<lparr>w2_t := t\<lparr>mainpc := (if i < length (tfiles t)
                                         then if f_flags (tfiles t ! i) AND F_DONE \<noteq> 0 then M_join i else M_scan (i + 1)
                                         else M_unlock)\<rparr>\<rparr>)
           | M_join i \<Rightarrow>
               (case tpcs t ! i of
                  T_ended fptr \<Rightarrow>
                    if i \<noteq> fptr then Some (s\<lparr>w2_t := t\<lparr>tdied := Some (Err_quit ''file[i] != fptr'')\<rparr>\<rparr>)
                    else Some (s\<lparr>w2_t := (tflag i F_JOINED t)\<lparr>ndone := ndone t - 1, tnconn := tnconn t - 1, tnlefttoread := tnlefttoread t - 1,
                                                                mainpc := M_scan (i + 1)\<rparr>\<rparr>)
                | _ \<Rightarrow> None)
           | M_unlock \<Rightarrow> Some (s\<lparr>w2_t := t\<lparr>ndone_mutex := None, mainpc := M_outer\<rparr>\<rparr>)
           | _ \<Rightarrow> None))"

text \<open>There is no condition variable: the thread unlocks after it has counted itself.\<close>

definition do_get_read02 :: "tchoice \<Rightarrow> nat \<Rightarrow> tweb \<Rightarrow> tweb option" where
  "do_get_read02 ch i t =
     (case tpcs t ! i of
        T_count \<Rightarrow> Some (tgo i T_unlock t\<lparr>ndone := ndone t + 1\<rparr>)
      | T_signal \<Rightarrow> None
      | _ \<Rightarrow> do_get_read ch i t)"

inductive web02_step :: "int \<Rightarrow> w2st \<Rightarrow> w2st \<Rightarrow> bool" for maxnconn :: int where
  main02: "tdied (w2_t s) = None \<Longrightarrow> web02_main maxnconn create s = Some s' \<Longrightarrow> web02_step maxnconn s s'"
| thread02: "tdied (w2_t s) = None \<Longrightarrow> mainpc (w2_t s) \<noteq> M_exit \<Longrightarrow> i < length (tpcs (w2_t s)) \<Longrightarrow> do_get_read02 ch i (w2_t s) = Some t \<Longrightarrow>
    web02_step maxnconn s (s\<lparr>w2_t := t\<rparr>)"

text \<open>The end of the only file's thread is lost: the thread has ended and is counted, but its entry says that it is connecting.\<close>

definition web02_lost :: "w2st \<Rightarrow> bool" where
  "web02_lost s \<longleftrightarrow> (let t = w2_t s in
     w2_new s = None \<and> tdied t = None \<and> length (tfiles t) = 1 \<and> f_flags (tfiles t ! 0) = F_CONNECTING \<and> tpcs t = [T_ended 0] \<and>
     ndone t = 1 \<and> tnlefttoconn t = 0 \<and> tnlefttoread t = 1 \<and>
     (case mainpc t of M_exit \<Rightarrow> False | M_join _ \<Rightarrow> False | M_sleep \<Rightarrow> False | M_woken \<Rightarrow> False | M_lock \<Rightarrow> ndone_mutex t = None
      | M_outer \<Rightarrow> ndone_mutex t = None | M_start \<Rightarrow> ndone_mutex t = None | _ \<Rightarrow> True))"

lemma web02_lost_stays:
  assumes "web02_lost s" and "web02_step m s s'"
  shows "web02_lost s'"
  using assms(2)
proof cases
  case (main02 create)
  with assms(1) show ?thesis
    by (cases "mainpc (w2_t s)") (auto simp: web02_lost_def web02_main_def Let_def flag_defs split: if_splits)
next
  case (thread02 i ch t)
  with assms(1) show ?thesis by (auto simp: web02_lost_def do_get_read02_def do_get_read_def Let_def)
qed

lemma web02_lost_forever:
  assumes "web02_lost s" and "(web02_step m)\<^sup>*\<^sup>* s s'"
  shows "tdied (w2_t s') = None \<and> mainpc (w2_t s') \<noteq> M_exit \<and> (\<exists>s''. web02_step m s' s'')"
proof -
  have l: "web02_lost s'" using assms(2) by (induction rule: rtranclp_induct) (use assms(1) web02_lost_stays in blast)+
  then have "\<exists>s''. web02_main m None s' = Some s''"
    by (cases "mainpc (w2_t s')") (auto simp: web02_lost_def web02_main_def Let_def split: option.splits)
  with l show ?thesis by (auto simp: web02_lost_def Let_def split: mainpc.splits intro: web02_step.main02)
qed

text \<open>Main creates the thread, the thread runs to its end, and only then main marks the entry.\<close>

fun web02_run :: "int \<Rightarrow> (bool \<times> tchoice) list \<Rightarrow> w2st \<Rightarrow> w2st option" where
  "web02_run m [] s = Some s"
| "web02_run m ((b, ch) # bs) s =
     (if tdied (w2_t s) \<noteq> None \<or> mainpc (w2_t s) = M_exit \<or> tpcs (w2_t s) = [] then None
      else case (if b then web02_main m None s else map_option (\<lambda>t. s\<lparr>w2_t := t\<rparr>) (do_get_read02 ch 0 (w2_t s))) of
        None \<Rightarrow> None | Some s' \<Rightarrow> web02_run m bs s')"

lemma web02_run_steps: "web02_run m bs s = Some s' \<Longrightarrow> (web02_step m)\<^sup>*\<^sup>* s s'"
proof (induction bs arbitrary: s)
  case (Cons bc bs)
  obtain b ch where bc: "bc = (b, ch)" by (cases bc)
  from Cons.prems obtain s1 where s1: "(if b then web02_main m None s else map_option (\<lambda>t. s\<lparr>w2_t := t\<rparr>) (do_get_read02 ch 0 (w2_t s))) = Some s1"
    and rest: "web02_run m bs s1 = Some s'" and ok: "tdied (w2_t s) = None" "mainpc (w2_t s) \<noteq> M_exit" "tpcs (w2_t s) \<noteq> []"
    unfolding bc by (auto split: if_splits option.splits)
  have "web02_step m s s1" using s1 ok by (auto split: if_splits intro: web02_step.intros)
  then show ?case using Cons.IH [OF rest] by (rule converse_rtranclp_into_rtranclp)
qed simp

definition lost02 :: "(bool \<times> tchoice) list" where
  "lost02 = map (\<lambda>b. (b, all_well)) ([True, True] @ replicate 8 False @ [True])"

lemma web02_loses:
  assumes "0 < m"
  shows "\<exists>s. (web02_step m)\<^sup>*\<^sup>* (web02_start host [name]) s \<and> web02_lost s"
proof -
  have "\<exists>s. web02_run m lost02 (web02_start host [name]) = Some s \<and> web02_lost s"
    using assms
    by (simp add: lost02_def numeral_eq_Suc web02_start_def web03_start_def file_init_def MAXFILES_def web02_main_def find_file_def
        do_get_read02_def do_get_read_def all_well_def tgo_def tflag_def set_flags_def web02_lost_def)
  then show ?thesis by (blast intro: web02_run_steps)
qed

section \<open>Properties\<close>

text \<open>
  C33. The client that joins any thread: in every interleaving and whatever the network does, the search for a file never fails and \<^verbatim>\<open>thr_join\<close> never without a thread to join; at
  most \<^verbatim>\<open>maxnconn\<close> threads run, no thread is joined twice, something can move until the client exits or a call has failed, and at exit every file's thread has
  ended and has been joined.
\<close>

theorem web01_fetches:
  assumes "0 < m" and "(web01_step m)\<^sup>*\<^sup>* (web01_start host names) s"
  shows "case tdied (w1_t s) of
      Some f \<Rightarrow> f \<noteq> Err_quit ''nlefttoconn = %d but nothing found'' \<and> f \<noteq> Err_sys ''thr_join error'' None
    | None \<Rightarrow> distinct (w1_joined s) \<and> tnconn (w1_t s) = int (card (t_created (w1_t s))) - int (length (w1_joined s)) \<and> tnconn (w1_t s) \<le> m \<and>
        (if mainpc (w1_t s) = M_exit
         then length (w1_joined s) = length (tfiles (w1_t s)) \<and> (\<forall>i < length (tfiles (w1_t s)). tpcs (w1_t s) ! i = T_ended i)
         else \<exists>s'. web01_step m s s')"
proof (cases "tdied (w1_t s)")
  case (Some f)
  with web01_reach [OF assms(2)] assms(1) show ?thesis by (simp add: web01_safe_def web01_fatal_def)
next
  case None
  then have i: "web01_inv m s" using web01_reach [OF assms(2)] by (simp add: web01_safe_def)
  let ?t = "w1_t s"
  have inv: "phases_ok (tfiles ?t) (tpcs ?t)" "joins_ok ?t (w1_joined s)" "tnlefttoread ?t = int (length (tpcs ?t)) - int (length (w1_joined s))"
    "tnconn ?t = int (card (t_created ?t)) - int (length (w1_joined s))" "main01_ok m ?t" "pcs01 (tpcs ?t)"
    using i unfolding web01_inv_def Let_def by blast+
  have "length (w1_joined s) = length (tfiles ?t) \<and> (\<forall>i < length (tfiles ?t). tpcs ?t ! i = T_ended i)" if "mainpc ?t = M_exit"
  proof -
    have len: "length (tpcs ?t) = length (tfiles ?t)" using inv(1) by (simp add: phases_ok_def)
    have "length (tpcs ?t) \<le> length (w1_joined s)" using inv(3,5) that by (simp add: main01_ok_def)
    then have j: "length (w1_joined s) = length (tpcs ?t)" using joins_bound [OF inv(2)] t_created_bound [of ?t] by simp
    have "set (w1_joined s) \<subseteq> {..<length (tpcs ?t)}" using inv(2) by (auto simp: joins_ok_def)
    moreover have "card (set (w1_joined s)) = length (tpcs ?t)" using inv(2) j by (simp add: joins_ok_def distinct_card)
    ultimately have "set (w1_joined s) = {..<length (tpcs ?t)}" by (intro card_subset_eq) simp_all
    with inv(2) j len show ?thesis by (simp add: joins_ok_def)
  qed
  with None inv web01_moves [OF i inv(6) assms(1) None] assms(1) show ?thesis by (auto simp: joins_ok_def main01_ok_def)
qed

theorem web01_fetches_witness: "\<exists>s'. web01_step 1 (web01_start ''h'' [''a'']) s'"
  using web01_fetches [of 1 "''h''" "[''a'']" "web01_start ''h'' [''a'']"] by (simp add: web01_start_def web03_start_def Let_def)

text \<open>
  The client that polls can run for ever after its last thread has ended: if that thread ends before the main thread has marked its entry, the mark overwrites
  \<^verbatim>\<open>F_DONE\<close>, and from then on, in every continuation, the client neither exits nor dies, and goes on polling.
\<close>

theorem web02_polls_forever:
  assumes "0 < m"
  shows "\<exists>s. (web02_step m)\<^sup>*\<^sup>* (web02_start host [name]) s \<and>
    (\<forall>s'. (web02_step m)\<^sup>*\<^sup>* s s' \<longrightarrow> tdied (w2_t s') = None \<and> mainpc (w2_t s') \<noteq> M_exit \<and> (\<exists>s''. web02_step m s' s''))"
  using web02_loses [OF assms, of host name] web02_lost_forever by blast

theorem web02_polls_forever_witness: "\<exists>s. (web02_step 1)\<^sup>*\<^sup>* (web02_start ''h'' [''a'']) s \<and> mainpc (w2_t s) \<noteq> M_exit"
proof -
  have "0 < (1 :: int)" by simp
  from web02_polls_forever [OF this, of "''h''" "''a''"] obtain s where s: "(web02_step 1)\<^sup>*\<^sup>* (web02_start ''h'' [''a'']) s"
    "\<forall>s'. (web02_step 1)\<^sup>*\<^sup>* s s' \<longrightarrow> tdied (w2_t s') = None \<and> mainpc (w2_t s') \<noteq> M_exit \<and> (\<exists>s''. web02_step 1 s' s'')" by (elim exE conjE)
  from s(2) have "mainpc (w2_t s) \<noteq> M_exit" by (simp add: rtranclp.rtrancl_refl)
  with s(1) show ?thesis by (intro exI [of _ s] conjI)
qed

end
