(* ===== verification/Pf_Key.thy ===== *)
theory Pf_Key
  imports Sockaddr In_Cksum Sock_Open
begin

text \<open>
  The programs of \<^verbatim>\<open>key/\<close> that speak PF_KEY version 2 with the kernel: they build a message of type-length-value extensions in a buffer of 4096 bytes (\<^verbatim>\<open>add.c\<close>), send it, and
  print messages (\<^verbatim>\<open>printsadbmsg.c\<close>). Constants and layouts are those of RFC 2367 on a little-endian host whose socket addresses have a length byte (\<^verbatim>\<open>HAVE_SOCKADDR_SA_LEN\<close>); the
  optional algorithms of \<^verbatim>\<open>SADB_X_\<close> macros are not defined. Memory is a function from offsets to bytes, because the printing functions follow lengths that
  they find in the message. The texts of \<^verbatim>\<open>strerror\<close> and of \<^verbatim>\<open>strftime\<close>, and the conversion of addresses, are parameters.
\<close>

section \<open>Memory and numbers\<close>

type_synonym mem = "nat \<Rightarrow> byte"

definition mem_of :: "mem \<Rightarrow> byte list \<Rightarrow> mem" where
  "mem_of junk bs i = (if i < length bs then bs ! i else junk i)"

definition get8 :: "mem \<Rightarrow> nat \<Rightarrow> nat" where
  "get8 m i = unat (m i)"

definition get16 :: "mem \<Rightarrow> nat \<Rightarrow> nat" where
  "get16 m i = get8 m i + 256 * get8 m (i + 1)"

definition get32 :: "mem \<Rightarrow> nat \<Rightarrow> nat" where
  "get32 m i = get16 m i + 65536 * get16 m (i + 2)"

definition put8 :: "nat \<Rightarrow> byte list" where
  "put8 n = [of_nat n]"

definition put16 :: "nat \<Rightarrow> byte list" where
  "put16 n = put8 n @ put8 (n div 256)"

definition put32 :: "nat \<Rightarrow> byte list" where
  "put32 n = put16 n @ put16 (n div 65536)"

text \<open>\<^verbatim>\<open>htonl\<close> of a 32-bit number, in memory.\<close>

definition put32_net :: "nat \<Rightarrow> byte list" where
  "put32_net n = rev (put32 n)"

text \<open>\<^verbatim>\<open>%d\<close> of a 32-bit number; of a 64-bit number it prints the low half.\<close>

definition fmt_d :: "nat \<Rightarrow> string" where
  "fmt_d n = dec_int (if n < 2 ^ 31 then int n else int n - 2 ^ 32)"

definition fmt_02x :: "byte \<Rightarrow> string" where
  "fmt_02x b = [xdigits_l ! (unat b div 16), xdigits_l ! (unat b mod 16)]"

section \<open>Names\<close>

definition name_of :: "(nat \<times> string) list \<Rightarrow> string \<Rightarrow> nat \<Rightarrow> string" where
  "name_of tab unknown n = (case map_of tab n of Some s \<Rightarrow> s | None \<Rightarrow> unknown @ dec_nat n @ '']'')"

definition get_sadb_msg_type :: "nat \<Rightarrow> string" where
  "get_sadb_msg_type = name_of
     [(0, ''Reserved''), (1, ''Get SPI''), (2, ''Update''), (3, ''Add''), (4, ''Delete''), (5, ''Get''), (6, ''Acquire''), (7, ''Register''),
      (8, ''Expire''), (9, ''Flush''), (10, ''Dump'')] ''[Unknown type ''"

definition get_sadb_satype :: "nat \<Rightarrow> string" where
  "get_sadb_satype = name_of
     [(0, ''Unspecified''), (2, ''IPsec AH''), (3, ''IPsec ESP''), (5, ''RSVP''), (6, ''OSPFv2''), (7, ''RIPv2''), (8, ''Mobile IP'')] ''[Unknown satype ''"

definition get_auth_alg :: "nat \<Rightarrow> string" where
  "get_auth_alg = name_of [(0, ''None''), (2, ''HMAC-MD5''), (3, ''HMAC-SHA-1'')] ''[Unknown authentication algorithm ''"

definition get_encrypt_alg :: "nat \<Rightarrow> string" where
  "get_encrypt_alg = name_of [(0, ''None''), (2, ''DES-CBC''), (3, ''3DES-CBC''), (11, ''Null'')] ''[Unknown encryption algorithm ''"

definition get_sa_state :: "nat \<Rightarrow> string" where
  "get_sa_state = name_of [(0, ''Larval''), (1, ''Mature''), (2, ''Dying''), (3, ''Dead'')] ''[Unknown SA state ''"

definition get_sadb_alg_type :: "nat \<Rightarrow> nat \<Rightarrow> string" where
  "get_sadb_alg_type alg authenc = (if authenc = 14 then get_auth_alg alg else get_encrypt_alg alg)"

type_synonym idlist = "(int \<times> string) list"

definition satype_list :: idlist where
  "satype_list = [(0, ''unspec''), (2, ''ah''), (3, ''esp''), (5, ''rsvp''), (6, ''ospfv2''), (7, ''ripv2''), (8, ''mip'')]"

definition ahalg_list :: idlist where
  "ahalg_list = [(0, ''none''), (2, ''HMAC-MD5-96''), (3, ''HMAC-SHA-1-96'')]"

definition espalg_list :: idlist where
  "espalg_list = [(0, ''none''), (2, ''DES-CBC''), (3, ''3DES-CBC''), (11, ''NULL'')]"

fun idlistlookup :: "string \<Rightarrow> idlist \<Rightarrow> int" where
  "idlistlookup nm [] = -1"
| "idlistlookup nm ((v, n) # il) = (if nm = n then v else idlistlookup nm il)"

definition getsatypebyname :: "string \<Rightarrow> int" where
  "getsatypebyname nm = idlistlookup nm satype_list"

definition getsaalgbyname :: "int \<Rightarrow> string \<Rightarrow> int" where
  "getsaalgbyname ty nm = (if ty = 2 then idlistlookup nm ahalg_list else if ty = 3 then idlistlookup nm espalg_list else -1)"

section \<open>Printing a message\<close>

text \<open>What the printing needs from outside.\<close>

record keyenv =
  k_ntop :: ntop
  k_strerror :: "nat \<Rightarrow> string"
  k_time :: "nat \<Rightarrow> string"

text \<open>The socket address at an offset.\<close>

definition sa_at :: "mem \<Rightarrow> nat \<Rightarrow> sockaddr" where
  "sa_at m p =
     (let fam = get8 m (p + 1)
      in if fam = 2 then Sockaddr_in (le16 (m (p + 2)) (m (p + 3))) (map m [p + 4..<p + 8])
         else if fam = 28 then Sockaddr_in6 (le16 (m (p + 2)) (m (p + 3))) (map m [p + 8..<p + 24])
         else if fam = 1 then Sockaddr_un (map (\<lambda>i. char_of (unat (m i))) [p + 2..<p + 110])
         else Sockaddr_other fam)"

definition sa_print :: "mem \<Rightarrow> nat \<Rightarrow> string" where
  "sa_print m e =
     '' SA: SPI='' @ fmt_d (get32 m (e + 4)) @ '' Replay Window='' @ dec_nat (get8 m (e + 8)) @ '' State='' @ get_sa_state (get8 m (e + 9)) @ [NL] @
     ''  Authentication Algorithm: '' @ get_auth_alg (get8 m (e + 10)) @ [NL] @
     ''  Encryption Algorithm: '' @ get_encrypt_alg (get8 m (e + 11)) @ [NL] @
     (if odd (get32 m (e + 12)) then ''  Perfect Forward Secrecy'' @ [NL] else [])"

fun alg_lines :: "mem \<Rightarrow> nat \<Rightarrow> nat \<Rightarrow> nat \<Rightarrow> string" where
  "alg_lines m exttype a 0 = []"
| "alg_lines m exttype a (Suc k) =
     ''  '' @ get_sadb_alg_type (get8 m a) exttype @ '' ivlen '' @ dec_nat (get8 m (a + 1)) @ '' bits '' @ dec_nat (get16 m (a + 2)) @ ''-'' @
     dec_nat (get16 m (a + 4)) @ [NL] @ alg_lines m exttype (a + 8) k"

text \<open>\<^verbatim>\<open>len\<close> is \<open>8 * length - 8\<close>, a multiple of the size of an entry, so the loop makes \<open>length - 1\<close> rounds, and none for a length of 0.\<close>

definition supported_print :: "mem \<Rightarrow> nat \<Rightarrow> string" where
  "supported_print m e =
     '' Supported '' @ (if get16 m (e + 2) = 14 then ''authentication'' else ''encryption'') @ '' algorithms:'' @ [NL] @
     (if get16 m e = 1 then ''  None'' @ [NL] else alg_lines m (get16 m (e + 2)) (e + 8) (get16 m e - 1))"

definition lifetime_print :: "keyenv \<Rightarrow> mem \<Rightarrow> nat \<Rightarrow> string" where
  "lifetime_print env m e =
     (let ty = get16 m (e + 2)
      in '' '' @ (if ty = 2 then ''Current'' else if ty = 3 then ''Hard'' else ''Soft'') @ '' lifetime:'' @ [NL] @
         ''  '' @ fmt_d (get32 m (e + 4)) @ '' allocations, '' @ fmt_d (get32 m (e + 8)) @ '' bytes'' @
         (if ty = 2
          then [NL] @ ''  added at '' @ k_time env (get32 m (e + 16) + 2 ^ 32 * get32 m (e + 20)) @ '', '' @
               (if get32 m (e + 24) + 2 ^ 32 * get32 m (e + 28) = 0 then ''never used'' @ [NL]
                else ''first used at '' @ k_time env (get32 m (e + 24) + 2 ^ 32 * get32 m (e + 28)) @ [NL])
          else fmt_d (get32 m (e + 16)) @ '' addtime, '' @ fmt_d (get32 m (e + 24)) @ '' usetime'' @ [NL]))"

definition address_print :: "keyenv \<Rightarrow> mem \<Rightarrow> nat \<Rightarrow> string" where
  "address_print env m e =
     '' '' @ (if get16 m (e + 2) = 5 then ''Source'' else if get16 m (e + 2) = 6 then ''Dest'' else ''Proxy'') @ '' address: '' @
     ''  '' @ (case sock_ntop (k_ntop env) (sa_at m (e + 8)) (get16 m e * 8 - 8) of Inl _ \<Rightarrow> ''(null)'' | Inr s \<Rightarrow> s) @
     (if get8 m (e + 5) = 0 then '' '' else ''/'' @ dec_nat (get8 m (e + 5)) @ '' '') @
     (if get8 m (e + 4) = 17 then ''(UDP)'' else if get8 m (e + 4) = 6 then ''(TCP)'' else if get8 m (e + 4) = 0 then []
      else ''(IP proto '' @ dec_nat (get8 m (e + 4)) @ '')'') @ [NL]"

text \<open>One byte for each eight bits begun.\<close>

definition key_print :: "mem \<Rightarrow> nat \<Rightarrow> string" where
  "key_print m e =
     '' '' @ (if get16 m (e + 2) = 8 then ''Authentication'' else ''Encryption'') @ '' key, '' @ dec_nat (get16 m (e + 4)) @ '' bits: 0x'' @
     concat (map (\<lambda>i. fmt_02x (m (e + 8 + i))) [0..<(get16 m (e + 4) + 7) div 8]) @ [NL]"

definition ext_print :: "keyenv \<Rightarrow> mem \<Rightarrow> nat \<Rightarrow> string" where
  "ext_print env m e =
     (let ty = get16 m (e + 2)
      in if ty = 0 then '' Reserved Extension'' @ [NL]
         else if ty = 1 then sa_print m e
         else if ty \<in> {2, 3, 4} then lifetime_print env m e
         else if ty \<in> {5, 6, 7} then address_print env m e
         else if ty \<in> {8, 9} then key_print m e
         else if ty \<in> {10, 11} then '' [identity...]'' @ [NL]
         else if ty = 12 then '' [sensitivity...]'' @ [NL]
         else if ty = 13 then '' [proposal...]'' @ [NL]
         else if ty \<in> {14, 15} then supported_print m e
         else if ty = 16 then '' [spirange...]'' @ [NL]
         else '' [unknown extension '' @ dec_nat ty @ '']'' @ [NL])"

text \<open>The loop over the extensions; it ends only when the lengths use the message up.\<close>

partial_function (option) ext_loop :: "keyenv \<Rightarrow> mem \<Rightarrow> int \<Rightarrow> nat \<Rightarrow> string option" where
  "ext_loop env m msglen e =
     (if 0 < msglen
      then Option.bind (ext_loop env m (msglen - 8 * int (get16 m e)) (e + 8 * get16 m e)) (\<lambda>r. Some (ext_print env m e @ r))
      else Some [])"

text \<open>What goes to standard error, through \<^verbatim>\<open>err_msg\<close>, and to standard output.\<close>

datatype kout = K_errmsg string | K_out string

definition print_sadb_msg :: "keyenv \<Rightarrow> mem \<Rightarrow> int \<Rightarrow> kout option" where
  "print_sadb_msg env m msglen =
     (if msglen \<noteq> 8 * int (get16 m 4)
      then Some (K_errmsg (''SADB Message length ('' @ dec_nat (8 * get16 m 4) @ '') doesn'' @ [CHR 0x27] @ ''t match msglen ('' @ dec_int msglen @ '')'' @ [NL]))
      else if get8 m 0 \<noteq> 2 then Some (K_errmsg (''SADB Message version not PF_KEY_V2'' @ [NL]))
      else (let hd = ''SADB Message '' @ get_sadb_msg_type (get8 m 1) @ '', errno '' @ dec_nat (get8 m 2) @ '', satype '' @ get_sadb_satype (get8 m 3) @
                  '', seq '' @ fmt_d (get32 m 8) @ '', pid '' @ fmt_d (get32 m 12) @ [NL] @
                  (if get8 m 2 \<noteq> 0 then '' errno '' @ k_strerror env (get8 m 2) @ [NL] else [])
            in if msglen = 16 then Some (K_out hd)
               else map_option (\<lambda>r. K_out (hd @ r)) (ext_loop env m (msglen - 16) 16)))"

section \<open>Adding a security association\<close>

text \<open>A socket address as the bytes of its structure, whose first byte is its length.\<close>

definition salen :: "byte list \<Rightarrow> nat" where
  "salen sa = unat (sa ! 0)"

definition prefix_all :: "byte list \<Rightarrow> nat" where
  "prefix_all sa = (if unat (sa ! 1) = 2 then 32 else if unat (sa ! 1) = 28 then 128 else 0)"

text \<open>An extension of \<open>n\<close> bytes, padded with null bytes to a multiple of eight: the buffer was cleared before.\<close>

definition ext_pad :: "byte list \<Rightarrow> byte list" where
  "ext_pad bs = bs @ replicate ((8 - length bs mod 8) mod 8) 0"

definition sa_ext :: "nat \<Rightarrow> nat \<Rightarrow> byte list" where
  "sa_ext alg spi = put16 2 @ put16 1 @ put32_net spi @ put8 0 @ put8 1 @ put8 alg @ put8 0 @ put32 0"

definition address_ext :: "nat \<Rightarrow> byte list \<Rightarrow> byte list" where
  "address_ext ty sa =
     ext_pad (put16 ((8 + salen sa + 7) div 8) @ put16 ty @ put8 0 @ put8 (prefix_all sa) @ put16 0 @ take (salen sa) sa)"

definition key_ext :: "nat \<Rightarrow> byte list \<Rightarrow> byte list" where
  "key_ext keybits keydata =
     ext_pad (put16 ((8 + keybits div 8 + 7) div 8) @ put16 8 @ put16 keybits @ put16 0 @ take (keybits div 8) keydata)"

definition msg_hdr :: "nat \<Rightarrow> nat \<Rightarrow> nat \<Rightarrow> nat \<Rightarrow> byte list" where
  "msg_hdr ty satype len8 pid = put8 2 @ put8 ty @ put8 0 @ put8 satype @ put16 len8 @ put16 0 @ put32 0 @ put32 pid"

definition add_msg :: "byte list \<Rightarrow> byte list \<Rightarrow> nat \<Rightarrow> nat \<Rightarrow> nat \<Rightarrow> nat \<Rightarrow> byte list \<Rightarrow> nat \<Rightarrow> byte list" where
  "add_msg src dst satype alg spi keybits keydata pid =
     (let body = sa_ext alg spi @ address_ext 5 src @ address_ext 6 dst @ key_ext keybits keydata
      in msg_hdr 3 satype ((16 + length body) div 8) pid @ body)"

text \<open>
  A reply is what one \<^verbatim>\<open>Read\<close> delivers. \<open>kw_out\<close> is what the program printed and \<open>kw_sent\<close> what it wrote.
\<close>

record kworld =
  kw_out :: "kout list"
  kw_sent :: "byte list list"
  kw_buf :: mem

datatype kmsg = Reply "byte list" | Read_err errno

definition k_emit :: "kout \<Rightarrow> kworld \<Rightarrow> kworld" where
  "k_emit t w = w\<lparr>kw_out := kw_out w @ [t]\<rparr>"

text \<open>A \<^verbatim>\<open>Read\<close> overwrites the first bytes of the buffer.\<close>

definition k_read :: "byte list \<Rightarrow> kworld \<Rightarrow> kworld" where
  "k_read bs w = w\<lparr>kw_buf := mem_of (kw_buf w) (take 4096 bs)\<rparr>"

text \<open>
  The loop of \<^verbatim>\<open>sadb_add\<close> and \<^verbatim>\<open>sadb_register\<close>: the first message that has the process's number and the type is printed. \<open>None\<close>: the printing does not end.
\<close>

fun await_reply :: "keyenv \<Rightarrow> nat \<Rightarrow> nat \<Rightarrow> kmsg list \<Rightarrow> kworld \<Rightarrow> (unit, kworld) outcome option" where
  "await_reply env pid ty [] w = Some (Blocked w)"
| "await_reply env pid ty (Read_err e # rs) w = Some (Die (Err_sys ''read error'' (Some e)) w)"
| "await_reply env pid ty (Reply bs # rs) w =
     (let w1 = k_read bs w
      in if get32 (kw_buf w1) 12 = pid \<and> get8 (kw_buf w1) 1 = ty
         then map_option (\<lambda>t. Ret () (k_emit t w1)) (print_sadb_msg env (kw_buf w1) (int (length (take 4096 bs))))
         else await_reply env pid ty rs w1)"

definition k_say :: "string \<Rightarrow> kworld \<Rightarrow> kworld" where
  "k_say s w = k_emit (K_out (s @ [NL])) w"

text \<open>The request is printed and written, and then the replies are read.\<close>

definition k_request :: "keyenv \<Rightarrow> string \<Rightarrow> byte list \<Rightarrow> mem \<Rightarrow> errno option \<Rightarrow> kworld \<Rightarrow> (unit, kworld) outcome option" where
  "k_request env sending req junk werr w =
     (case print_sadb_msg env (mem_of junk req) (int (length req)) of
        None \<Rightarrow> None
      | Some t \<Rightarrow>
          (let w1 = k_emit t (k_say sending w)
           in case werr of
                Some e \<Rightarrow> Some (Die (Err_sys ''write error'' (Some e)) w1)
              | None \<Rightarrow> Some (Ret () (w1\<lparr>kw_sent := kw_sent w1 @ [req]\<rparr>))))"

definition sadb_add ::
  "keyenv \<Rightarrow> byte list \<Rightarrow> byte list \<Rightarrow> nat \<Rightarrow> nat \<Rightarrow> nat \<Rightarrow> nat \<Rightarrow> byte list \<Rightarrow> nat \<Rightarrow> errno option \<Rightarrow> kmsg list \<Rightarrow> kworld \<Rightarrow> (unit, kworld) outcome option" where
  "sadb_add env src dst satype alg spi keybits keydata pid werr rs w =
     (let req = add_msg src dst satype alg spi keybits keydata pid; buf = mem_of (\<lambda>_. 0) req
      in case k_request env ''Sending add message:'' req (\<lambda>_. 0) werr w of
           Some (Ret _ w1) \<Rightarrow> await_reply env pid 3 rs (k_say (NL # ''Reply returned:'') (w1\<lparr>kw_buf := buf\<rparr>))
         | r \<Rightarrow> r)"

definition sadb_register :: "keyenv \<Rightarrow> nat \<Rightarrow> nat \<Rightarrow> mem \<Rightarrow> errno option \<Rightarrow> kmsg list \<Rightarrow> kworld \<Rightarrow> (unit, kworld) outcome option" where
  "sadb_register env satype pid junk werr rs w =
     (case k_request env ''Sending register message:'' (msg_hdr 7 satype 2 pid) junk werr w of
        Some (Ret _ w1) \<Rightarrow> await_reply env pid 7 rs (k_say (NL # ''Reply returned:'') w1)
      | r \<Rightarrow> r)"

text \<open>\<^verbatim>\<open>sadb_dump\<close> prints every message up to the one with sequence number 0.\<close>

fun dump_loop :: "keyenv \<Rightarrow> kmsg list \<Rightarrow> kworld \<Rightarrow> (unit, kworld) outcome option" where
  "dump_loop env [] w = Some (Blocked w)"
| "dump_loop env (Read_err e # rs) w = Some (Die (Err_sys ''read error'' (Some e)) w)"
| "dump_loop env (Reply bs # rs) w =
     (let w1 = k_read bs w
      in case print_sadb_msg env (kw_buf w1) (int (length (take 4096 bs))) of
           None \<Rightarrow> None
         | Some t \<Rightarrow> if get32 (kw_buf w1) 8 = 0 then Some (Ret () (k_emit t w1)) else dump_loop env rs (k_emit t w1))"

definition sadb_dump :: "keyenv \<Rightarrow> nat \<Rightarrow> nat \<Rightarrow> mem \<Rightarrow> errno option \<Rightarrow> kmsg list \<Rightarrow> kworld \<Rightarrow> (unit, kworld) outcome option" where
  "sadb_dump env satype pid junk werr rs w =
     (case k_request env ''Sending dump message:'' (msg_hdr 10 satype 2 pid) junk werr w of
        Some (Ret _ w1) \<Rightarrow> dump_loop env rs (k_say (NL # ''Messages returned:'') w1)
      | r \<Rightarrow> r)"

section \<open>The key on the command line\<close>

text \<open>\<^verbatim>\<open>sscanf(p, "%2x", &c)\<close>: white space, then at most two characters of sign, prefix and digits.\<close>

definition hex_val :: "string \<Rightarrow> nat option" where
  "hex_val ds = (if ds = [] \<or> \<not> list_all (\<lambda>c. c \<in> set (xdigits_l @ xdigits_u)) ds then None
     else Some (foldl (\<lambda>v c. 16 * v + (case index_of c xdigits_l of Some d \<Rightarrow> d | None \<Rightarrow> case index_of c xdigits_u of Some d \<Rightarrow> d | None \<Rightarrow> 0)) 0 ds))"

definition is_xdigit :: "char \<Rightarrow> bool" where
  "is_xdigit c \<longleftrightarrow> c \<in> set (xdigits_l @ xdigits_u)"

definition scan_2x :: "string \<Rightarrow> int option" where
  "scan_2x s =
     (let t = take 2 (dropWhile isspace s)
      in case t of
           [] \<Rightarrow> None
         | c # cs \<Rightarrow>
             if c = CHR ''-'' then map_option (\<lambda>v. - int v) (hex_val (takeWhile is_xdigit cs))
             else if c = CHR ''+'' then map_option int (hex_val (takeWhile is_xdigit cs))
             else if t = ''0x'' \<or> t = ''0X'' then None
             else map_option int (hex_val (takeWhile is_xdigit t)))"

datatype keyarg = Key_short | Key_digit | Key_long

text \<open>The loop of \<^verbatim>\<open>main\<close> over \<open>n\<close> bytes; \<^verbatim>\<open>*kp++ = c\<close> keeps the low byte.\<close>

fun key_loop :: "nat \<Rightarrow> string \<Rightarrow> keyarg + byte list" where
  "key_loop 0 p = (if p \<noteq> [] then Inl Key_long else Inr [])"
| "key_loop (Suc n) p =
     (if length p < 2 then Inl Key_short
      else case scan_2x p of
             None \<Rightarrow> Inl Key_digit
           | Some c \<Rightarrow> map_sum id ((#) (word_of_int c)) (key_loop n (drop 2 p)))"

definition key_arg :: "nat \<Rightarrow> string \<Rightarrow> keyarg + byte list" where
  "key_arg keybits p = key_loop ((keybits + 7) div 8) (if take 2 p = ''0x'' \<or> take 2 p = ''0X'' then drop 2 p else p)"
section \<open>When printing ends\<close>

text \<open>The offsets at which the loop arrives.\<close>

fun ext_pos :: "mem \<Rightarrow> nat \<Rightarrow> nat \<Rightarrow> nat" where
  "ext_pos m e 0 = e"
| "ext_pos m e (Suc k) = ext_pos m (e + 8 * get16 m e) k"

definition ext_zero :: "mem \<Rightarrow> int \<Rightarrow> nat \<Rightarrow> bool" where
  "ext_zero m msglen e \<longleftrightarrow> (\<exists>k. int (ext_pos m e k) - int e < msglen \<and> get16 m (ext_pos m e k) = 0)"

lemma ext_pos_mono: "e \<le> ext_pos m e k"
proof (induction k arbitrary: e)
  case (Suc k)
  from Suc.IH [of "e + 8 * get16 m e"] show ?case by simp
qed simp

lemma ext_loop_end [simp]: "\<not> 0 < n \<Longrightarrow> ext_loop env m n e = Some []"
  by (subst ext_loop.simps) simp

lemma ext_loop_step: "0 < n \<Longrightarrow> ext_loop env m n e = Option.bind (ext_loop env m (n - 8 * int (get16 m e)) (e + 8 * get16 m e)) (\<lambda>r. Some (ext_print env m e @ r))"
  by (subst ext_loop.simps) simp

lemma ext_loop_not_zero: "ext_loop env m n e = Some r \<Longrightarrow> \<not> (0 < n \<and> get16 m e = 0)"
proof (induction arbitrary: rule: ext_loop.raw_induct [of "\<lambda>env m n e r. \<not> (0 < n \<and> get16 m e = 0)", rotated, consumes 1, case_names rec])
  case (rec f env m n e r)
  show ?case
  proof
    assume z: "0 < n \<and> get16 m e = 0"
    with rec(2) obtain r' where "f env m n e = Some r'" by (auto simp: bind_eq_Some_conv)
    from rec(1) [OF this] z show False by simp
  qed
qed

lemma ext_zero_step: "get16 m e \<noteq> 0 \<Longrightarrow> 0 < n \<Longrightarrow> ext_zero m n e \<longleftrightarrow> ext_zero m (n - 8 * int (get16 m e)) (e + 8 * get16 m e)"
proof -
  assume g: "get16 m e \<noteq> 0" and n: "0 < n"
  have "(\<exists>k. int (ext_pos m e k) - int e < n \<and> get16 m (ext_pos m e k) = 0) \<longleftrightarrow>
      (\<exists>k. int (ext_pos m e (Suc k)) - int e < n \<and> get16 m (ext_pos m e (Suc k)) = 0)"
    using g by (metis ext_pos.simps(1) not0_implies_Suc)
  then show ?thesis by (simp add: ext_zero_def algebra_simps)
qed

lemma ext_loop_ends_iff: "ext_loop env m n e = None \<longleftrightarrow> ext_zero m n e"
proof (induction "nat n" arbitrary: n e rule: less_induct)
  case less
  show ?case
  proof (cases "0 < n")
    case False
    have "\<not> ext_zero m n e"
    proof
      assume "ext_zero m n e"
      then obtain k where "int (ext_pos m e k) - int e < n" by (auto simp: ext_zero_def)
      with False ext_pos_mono [of e m k] show False by simp
    qed
    with False show ?thesis by simp
  next
    case True
    show ?thesis
    proof (cases "get16 m e = 0")
      case z: True
      then have "ext_zero m n e" using True by (auto simp: ext_zero_def intro: exI [of _ 0])
      moreover have "ext_loop env m n e = None" using ext_loop_not_zero [of env m n e] z True by (cases "ext_loop env m n e") auto
      ultimately show ?thesis by simp
    next
      case False
      have "ext_loop env m (n - 8 * int (get16 m e)) (e + 8 * get16 m e) = None \<longleftrightarrow> ext_zero m (n - 8 * int (get16 m e)) (e + 8 * get16 m e)"
        by (rule less) (use True False in simp)
      then show ?thesis using ext_loop_step [OF True] ext_zero_step [OF False True] by (simp add: bind_eq_None_conv)
    qed
  qed
qed

lemma print_sadb_msg_ends_iff:
  "print_sadb_msg env m n = None \<longleftrightarrow> n = 8 * int (get16 m 4) \<and> get8 m 0 = 2 \<and> n \<noteq> 16 \<and> ext_zero m (n - 16) 16"
  by (auto simp: print_sadb_msg_def Let_def ext_loop_ends_iff)

section \<open>What is printed for extensions that fill the message\<close>

fun ext_offsets :: "nat \<Rightarrow> byte list list \<Rightarrow> nat list" where
  "ext_offsets e [] = []"
| "ext_offsets e (x # xs) = e # ext_offsets (e + length x) xs"

text \<open>Memory that holds the extensions from an offset on, each with its length.\<close>

fun exts_at :: "mem \<Rightarrow> nat \<Rightarrow> byte list list \<Rightarrow> bool" where
  "exts_at m e [] = True"
| "exts_at m e (x # xs) = (x \<noteq> [] \<and> 8 * get16 m e = length x \<and> exts_at m (e + length x) xs)"

lemma ext_loop_exts:
  "exts_at m e xs \<Longrightarrow> ext_loop env m (int (length (concat xs))) e = Some (concat (map (ext_print env m) (ext_offsets e xs)))"
proof (induction xs arbitrary: e)
  case (Cons x xs)
  then have x: "x \<noteq> []" "8 * get16 m e = length x" "exts_at m (e + length x) xs" by auto
  then have p: "0 < int (length (concat (x # xs)))" by (cases x) auto
  have n: "int (length (concat (x # xs))) - 8 * int (get16 m e) = int (length (concat xs))" using x(2) by simp
  show ?case unfolding ext_loop_step [OF p] n x(2) using Cons.IH [OF x(3)] by simp
qed simp

lemma mem_of_mid: "i < length x \<Longrightarrow> e = length pre \<Longrightarrow> mem_of junk (pre @ x @ post) (e + i) = x ! i"
  by (simp add: mem_of_def nth_append)

lemma get8_put8: "n < 256 \<Longrightarrow> unat (of_nat n :: byte) = n"
  by (simp add: unat_of_nat take_bit_nat_eq_self)

lemma length_puts [simp]: "length (put8 n) = 1" "length (put16 n) = 2" "length (put32 n) = 4" "length (put32_net n) = 4"
  by (simp_all add: put8_def put16_def put32_def put32_net_def)

lemma put_nths [simp]:
  "put16 n ! 0 = of_nat n" "put16 n ! Suc 0 = of_nat (n div 256)"
  by (simp_all add: put16_def put8_def)

lemma get16_put16:
  assumes "m p = of_nat n" and "m (p + 1) = of_nat (n div 256)" and "n < 65536"
  shows "get16 m p = n"
proof -
  have "unat (of_nat n :: byte) = n mod 256" by (simp add: unat_of_nat take_bit_eq_mod)
  moreover have "unat (of_nat (n div 256) :: byte) = n div 256" using assms(3) by (intro get8_put8) simp
  ultimately show ?thesis using assms(1,2) by (simp add: get16_def get8_def)
qed

lemma get16_mid:
  assumes "n < 65536" and "x = front @ put16 n @ back" and "p = length pre + length front"
  shows "get16 (mem_of junk (pre @ x @ post)) p = n"
proof -
  have "pre @ x @ post = (pre @ front) @ put16 n @ (back @ post)" using assms(2) by simp
  then have "mem_of junk (pre @ x @ post) p = put16 n ! 0" "mem_of junk (pre @ x @ post) (p + 1) = put16 n ! Suc 0"
    using mem_of_mid [of 0 "put16 n" p "pre @ front" junk "back @ post"] mem_of_mid [of 1 "put16 n" p "pre @ front" junk "back @ post"] assms(3)
    by simp_all
  with assms(1) show ?thesis by (intro get16_put16) simp_all
qed

lemma get8_mid:
  assumes "n < 256" and "x = front @ put8 n @ back" and "p = length pre + length front"
  shows "get8 (mem_of junk (pre @ x @ post)) p = n"
proof -
  have "pre @ x @ post = (pre @ front) @ put8 n @ (back @ post)" using assms(2) by simp
  then have "mem_of junk (pre @ x @ post) p = of_nat n"
    using mem_of_mid [of 0 "put8 n" p "pre @ front" junk "back @ post"] assms(3) by (simp add: put8_def)
  with assms(1) show ?thesis by (simp add: get8_def get8_put8)
qed

lemma get32_mid:
  assumes "n < 2 ^ 32" and "x = front @ put32 n @ back" and "p = length pre + length front"
  shows "get32 (mem_of junk (pre @ x @ post)) p = n"
proof -
  have a: "x = front @ put16 (n mod 65536) @ (put16 (n div 65536) @ back)" "x = (front @ put16 n) @ put16 (n div 65536) @ back"
  proof -
    have "put16 (n mod 65536) = put16 n"
    proof -
      have "(of_nat (n mod 65536) :: byte) = of_nat n" by (rule word_unat_eq_iff [THEN iffD2]) (simp add: unat_of_nat take_bit_eq_mod mod_mod_cancel)
      moreover have "(of_nat (n mod 65536 div 256) :: byte) = of_nat (n div 256)"
        by (rule word_unat_eq_iff [THEN iffD2]) (simp add: unat_of_nat take_bit_eq_mod div_mult_mod_eq, simp add: mod_mult2_eq [of n 256 256, simplified] mult.commute)
      ultimately show ?thesis by (simp add: put16_def put8_def)
    qed
    then show "x = front @ put16 (n mod 65536) @ (put16 (n div 65536) @ back)" "x = (front @ put16 n) @ put16 (n div 65536) @ back"
      using assms(2) by (simp_all add: put32_def)
  qed
  have "get16 (mem_of junk (pre @ x @ post)) p = n mod 65536" by (rule get16_mid [OF _ a(1) assms(3)]) simp
  moreover have "get16 (mem_of junk (pre @ x @ post)) (p + 2) = n div 65536" by (rule get16_mid [OF _ a(2)]) (use assms(1,3) in simp_all)
  ultimately show ?thesis by (simp add: get32_def)
qed
section \<open>What sadb_add prints\<close>

lemma mem_of_map:
  assumes "k + n \<le> length x" and "e = length pre"
  shows "map (mem_of junk (pre @ x @ post)) [e + k..<e + k + n] = take n (drop k x)"
proof (rule nth_equalityI)
  fix i assume "i < length (map (mem_of junk (pre @ x @ post)) [e + k..<e + k + n])"
  then have i: "i < n" by simp
  have "mem_of junk (pre @ x @ post) (e + (k + i)) = x ! (k + i)" by (rule mem_of_mid) (use assms i in simp_all)
  with i assms show "map (mem_of junk (pre @ x @ post)) [e + k..<e + k + n] ! i = take n (drop k x) ! i" by (simp add: add.assoc)
qed (use assms in simp)

text \<open>The structures of Internet addresses.\<close>

fun sockaddr_bytes :: "sockaddr \<Rightarrow> byte list" where
  "sockaddr_bytes (Sockaddr_in port a) = [16, 2] @ le16_bytes port @ a @ replicate 8 0"
| "sockaddr_bytes (Sockaddr_in6 port a) = [28, 28] @ le16_bytes port @ replicate 4 0 @ a @ replicate 4 0"
| "sockaddr_bytes _ = []"

definition inet_sa :: "sockaddr \<Rightarrow> bool" where
  "inet_sa sa \<longleftrightarrow> sa_wf sa \<and> sa_family sa \<in> {AF_INET, AF_INET6}"

definition ntop_text :: "keyenv \<Rightarrow> sockaddr \<Rightarrow> string" where
  "ntop_text env sa = (case sock_ntop (k_ntop env) sa 16 of Inl _ \<Rightarrow> ''(null)'' | Inr s \<Rightarrow> s)"

lemma ntop_text_len: "inet_sa sa \<Longrightarrow> (case sock_ntop (k_ntop env) sa n of Inl _ \<Rightarrow> ''(null)'' | Inr s \<Rightarrow> s) = ntop_text env sa"
  by (cases sa) (simp_all add: ntop_text_def inet_sa_def)

definition host_bits :: "sockaddr \<Rightarrow> nat" where
  "host_bits sa = (if sa_family sa = AF_INET then 32 else 128)"

definition addr_len :: "sockaddr \<Rightarrow> nat" where
  "addr_len sa = (if sa_family sa = AF_INET then 24 else 40)"

lemma inet_sa_cases:
  assumes "inet_sa sa"
  obtains port a where "sa = Sockaddr_in port a" "length a = 4" | port a where "sa = Sockaddr_in6 port a" "length a = 16"
  using assms by (cases sa) (auto simp: inet_sa_def)

lemma address_ext_eq:
  assumes "inet_sa sa"
  shows "address_ext ty (sockaddr_bytes sa) =
    put16 (addr_len sa div 8) @ put16 ty @ put8 0 @ put8 (host_bits sa) @ put16 0 @ sockaddr_bytes sa @ replicate (addr_len sa - 8 - length (sockaddr_bytes sa)) 0"
  using assms by (cases rule: inet_sa_cases)
    (simp_all add: address_ext_def salen_def prefix_all_def ext_pad_def addr_len_def host_bits_def le16_bytes_def)

lemma address_ext_length:
  assumes "inet_sa sa"
  shows "length (address_ext ty (sockaddr_bytes sa)) = addr_len sa"
  unfolding address_ext_eq [OF assms] using assms by (cases rule: inet_sa_cases) (simp_all add: addr_len_def le16_bytes_def)

lemma sa_at_bytes:
  assumes "inet_sa sa" and "x = front @ sockaddr_bytes sa @ back" and "p = length pre + length front"
  shows "sa_at (mem_of junk (pre @ x @ post)) p = sa"
proof -
  have e: "pre @ x @ post = (pre @ front) @ sockaddr_bytes sa @ (back @ post)" using assms(2) by simp
  have n: "mem_of junk (pre @ x @ post) (p + i) = sockaddr_bytes sa ! i" if "i < length (sockaddr_bytes sa)" for i
    unfolding e by (rule mem_of_mid [OF that]) (simp add: assms(3))
  have l: "map (mem_of junk (pre @ x @ post)) [p + k..<p + (k + j)] = take j (drop k (sockaddr_bytes sa))" if "k + j \<le> length (sockaddr_bytes sa)" for k j
    unfolding e add.assoc [symmetric] by (rule mem_of_map [OF that]) (simp add: assms(3))
  from assms(1) show ?thesis
  proof (cases rule: inet_sa_cases)
    case (1 port a)
    with n [of 1] n [of 2] n [of 3] l [of 4 4] show ?thesis
      by (simp add: sa_at_def get8_def le16_bytes_def le16_le16_bytes [unfolded le16_bytes_def, simplified])
  next
    case (2 port a)
    with n [of 1] n [of 2] n [of 3] l [of 8 16] show ?thesis
      by (simp add: sa_at_def get8_def le16_bytes_def le16_le16_bytes [unfolded le16_bytes_def, simplified])
  qed
qed

definition addr_text :: "keyenv \<Rightarrow> string \<Rightarrow> sockaddr \<Rightarrow> string" where
  "addr_text env label sa = '' '' @ label @ '' address: '' @ ''  '' @ ntop_text env sa @ ''/'' @ dec_nat (host_bits sa) @ '' '' @ [NL]"

lemma ext_print_address:
  assumes "inet_sa sa" and "ty = 5 \<or> ty = 6" and "e = length pre"
  shows "ext_print env (mem_of junk (pre @ address_ext ty (sockaddr_bytes sa) @ post)) e = addr_text env (if ty = 5 then ''Source'' else ''Dest'') sa"
proof -
  let ?x = "address_ext ty (sockaddr_bytes sa)" and ?m = "mem_of junk (pre @ address_ext ty (sockaddr_bytes sa) @ post)"
  note eq = address_ext_eq [OF assms(1), of ty]
  have ty: "get16 ?m (e + 2) = ty" by (rule get16_mid [where front = "put16 (addr_len sa div 8)"]) (use eq assms(2,3) in auto)
  have proto: "get8 ?m (e + 4) = 0"
    by (rule get8_mid [where front = "put16 (addr_len sa div 8) @ put16 ty"]) (use eq assms(3) in simp_all)
  have pfx: "get8 ?m (e + 5) = host_bits sa"
    by (rule get8_mid [where front = "put16 (addr_len sa div 8) @ put16 ty @ put8 0"]) (use eq assms(3) in \<open>simp_all add: host_bits_def\<close>)
  have sa: "sa_at ?m (e + 8) = sa"
    by (rule sa_at_bytes [where front = "put16 (addr_len sa div 8) @ put16 ty @ put8 0 @ put8 (host_bits sa) @ put16 0"])
      (use eq assms(1,3) in simp_all)
  have "0 < host_bits sa" by (simp add: host_bits_def)
  then show ?thesis using assms(2) unfolding ext_print_def Let_def ty address_print_def proto pfx sa ntop_text_len [OF assms(1)] addr_text_def by auto
qed

lemma get32_cong: "m a = k b \<Longrightarrow> m (a + 1) = k (b + 1) \<Longrightarrow> m (a + 2) = k (b + 2) \<Longrightarrow> m (a + 3) = k (b + 3) \<Longrightarrow> get32 m a = get32 k b"
  by (simp add: get32_def get16_def get8_def numeral_3_eq_3)

lemma ext_print_sa:
  assumes "alg < 256" and "e = length pre"
  shows "ext_print env (mem_of junk (pre @ sa_ext alg spi @ post)) e =
    '' SA: SPI='' @ fmt_d (get32 (mem_of (\<lambda>_. 0) (put32_net spi)) 0) @ '' Replay Window=0 State=Mature'' @ [NL] @
    ''  Authentication Algorithm: '' @ get_auth_alg alg @ [NL] @ ''  Encryption Algorithm: None'' @ [NL]"
proof -
  let ?m = "mem_of junk (pre @ sa_ext alg spi @ post)"
  have ty: "get16 ?m (e + 2) = 1"
    by (rule get16_mid [where front = "put16 2"]) (use assms(2) in \<open>simp_all add: sa_ext_def\<close>)
  have m: "?m (e + (4 + i)) = put32_net spi ! i" if "i < 4" for i
  proof -
    have "?m (e + (4 + i)) = sa_ext alg spi ! (4 + i)" by (rule mem_of_mid) (use that assms(2) in \<open>simp_all add: sa_ext_def\<close>)
    also have "\<dots> = put32_net spi ! i" using that by (simp add: sa_ext_def nth_append)
    finally show ?thesis .
  qed
  have spi: "get32 ?m (e + 4) = get32 (mem_of (\<lambda>_. 0) (put32_net spi)) 0"
    by (rule get32_cong) (use m [of 0] m [of 1] m [of 2] m [of 3] in \<open>simp_all add: mem_of_def [of "\<lambda>_. 0"] add.commute [of _ e] numeral_2_eq_2\<close>)
  have b8: "get8 ?m (e + 8) = 0" by (rule get8_mid [where front = "put16 2 @ put16 1 @ put32_net spi"]) (use assms in \<open>simp_all add: sa_ext_def\<close>)
  have b9: "get8 ?m (e + 9) = 1" by (rule get8_mid [where front = "put16 2 @ put16 1 @ put32_net spi @ put8 0"]) (use assms in \<open>simp_all add: sa_ext_def\<close>)
  have b10: "get8 ?m (e + 10) = alg" by (rule get8_mid [where front = "put16 2 @ put16 1 @ put32_net spi @ put8 0 @ put8 1"]) (use assms in \<open>simp_all add: sa_ext_def\<close>)
  have b11: "get8 ?m (e + 11) = 0" by (rule get8_mid [where front = "put16 2 @ put16 1 @ put32_net spi @ put8 0 @ put8 1 @ put8 alg"]) (use assms in \<open>simp_all add: sa_ext_def\<close>)
  have fl: "get32 ?m (e + 12) = 0"
    by (rule get32_mid [where front = "put16 2 @ put16 1 @ put32_net spi @ put8 0 @ put8 1 @ put8 alg @ put8 0"]) (use assms in \<open>simp_all add: sa_ext_def\<close>)
  have d: "dec_nat 0 = ''0''" by (simp add: dec_nat.simps digit_chars_def)
  show ?thesis unfolding ext_print_def Let_def ty sa_print_def spi b8 b9 b10 b11 fl d by (simp add: get_sa_state_def get_encrypt_alg_def name_of_def)
qed

lemma ext_pad_length: "length (ext_pad bs) = 8 * ((length bs + 7) div 8)"
proof (cases "length bs mod 8 = 0")
  case True
  then obtain k where "length bs = 8 * k" by (auto simp: mod_eq_0_iff_dvd elim: dvdE)
  then show ?thesis by (simp add: ext_pad_def)
next
  case False
  define q r where "q = length bs div 8" and "r = length bs mod 8"
  have l: "length bs = 8 * q + r" and r: "0 < r" "r < 8" using False by (simp_all add: q_def r_def)
  have "(length bs + 7) div 8 = (8 * (q + 1) + (r - 1)) div 8" unfolding l using r by (intro arg_cong [where f = "\<lambda>x. x div 8"]) simp
  also have "\<dots> = q + 1" using r by simp
  finally show ?thesis using r by (simp add: ext_pad_def) (simp add: r_def [symmetric] l)
qed

lemma ext_print_key:
  assumes "length keydata * 8 < 65536" and "e = length pre"
  shows "ext_print env (mem_of junk (pre @ key_ext (8 * length keydata) keydata @ post)) e =
    '' Authentication key, '' @ dec_nat (8 * length keydata) @ '' bits: 0x'' @ concat (map fmt_02x keydata) @ [NL]"
proof -
  let ?n = "length keydata"
  obtain pad where x: "key_ext (8 * ?n) keydata = put16 ((8 + ?n + 7) div 8) @ put16 8 @ put16 (8 * ?n) @ put16 0 @ keydata @ pad"
    by (simp add: key_ext_def ext_pad_def)
  let ?m = "mem_of junk (pre @ key_ext (8 * length keydata) keydata @ post)"
  have ty: "get16 ?m (e + 2) = 8" by (rule get16_mid [where front = "put16 ((8 + ?n + 7) div 8)"]) (use x assms(2) in simp_all)
  have bits: "get16 ?m (e + 4) = 8 * ?n" by (rule get16_mid [where front = "put16 ((8 + ?n + 7) div 8) @ put16 8"]) (use x assms in simp_all)
  have "map (\<lambda>i. fmt_02x (?m (e + 8 + i))) [0..<?n] = map fmt_02x keydata"
  proof (rule nth_equalityI)
    fix i assume "i < length (map (\<lambda>i. fmt_02x (?m (e + 8 + i))) [0..<?n])"
    then have i: "i < ?n" by simp
    have "?m (e + (8 + i)) = key_ext (8 * ?n) keydata ! (8 + i)" by (rule mem_of_mid) (use i x assms(2) in simp_all)
    also have "\<dots> = keydata ! i" using i by (simp add: x nth_append)
    finally show "map (\<lambda>i. fmt_02x (?m (e + 8 + i))) [0..<?n] ! i = map fmt_02x keydata ! i" using i by (simp add: add.assoc)
  qed simp
  then show ?thesis unfolding ext_print_def Let_def ty key_print_def bits by simp
qed

text \<open>A list of extensions in memory behind a prefix.\<close>

lemma put_ne [simp]: "put8 n \<noteq> []" "put16 n \<noteq> []"
  by (simp_all add: put8_def put16_def)

definition ext_ok :: "byte list \<Rightarrow> bool" where
  "ext_ok x \<longleftrightarrow> x \<noteq> [] \<and> length x mod 8 = 0 \<and> length x div 8 < 65536 \<and> (\<exists>r. x = put16 (length x div 8) @ r)"

lemma exts_at_mem: "(\<forall>x \<in> set xs. ext_ok x) \<Longrightarrow> exts_at (mem_of junk (pre @ concat xs @ post)) (length pre) xs"
proof (induction xs arbitrary: pre)
  case (Cons x xs)
  then have x: "ext_ok x" by simp
  then obtain r where r: "x = [] @ put16 (length x div 8) @ r" by (auto simp: ext_ok_def)
  have "get16 (mem_of junk (pre @ x @ (concat xs @ post))) (length pre) = length x div 8" by (rule get16_mid [OF _ r]) (use x in \<open>simp_all add: ext_ok_def\<close>)
  moreover have "exts_at (mem_of junk ((pre @ x) @ concat xs @ post)) (length (pre @ x)) xs" by (rule Cons.IH) (use Cons.prems in simp)
  ultimately show ?case using x by (auto simp: ext_ok_def)
qed simp

lemma address_ext_ok: "inet_sa sa \<Longrightarrow> ext_ok (address_ext ty (sockaddr_bytes sa))"
  unfolding ext_ok_def address_ext_length [of sa ty] by (auto simp: address_ext_eq addr_len_def)

lemma sa_ext_ok: "ext_ok (sa_ext alg spi)"
  unfolding ext_ok_def by (auto simp: sa_ext_def)

lemma key_ext_lengths:
  assumes "length keydata \<le> 4000"
  shows "length (key_ext (8 * length keydata) keydata) = 8 * ((8 + length keydata + 7) div 8)"
proof -
  let ?bs = "put16 ((8 + length keydata + 7) div 8) @ put16 8 @ put16 (8 * length keydata) @ put16 0 @ keydata"
  have e: "key_ext (8 * length keydata) keydata = ext_pad ?bs" by (simp add: key_ext_def)
  have l: "length ?bs = 8 + length keydata" by simp
  have "length (ext_pad ?bs) = 8 * ((length ?bs + 7) div 8)" by (rule ext_pad_length)
  with e l show ?thesis by (simp add: add.commute)
qed

lemma key_ext_ok:
  assumes "length keydata \<le> 4000"
  shows "ext_ok (key_ext (8 * length keydata) keydata)"
  unfolding ext_ok_def key_ext_lengths [OF assms] using assms by (auto simp: key_ext_def ext_pad_def)

definition add_text :: "keyenv \<Rightarrow> sockaddr \<Rightarrow> sockaddr \<Rightarrow> nat \<Rightarrow> nat \<Rightarrow> nat \<Rightarrow> byte list \<Rightarrow> nat \<Rightarrow> string" where
  "add_text env src dst satype alg spi keydata pid =
     ''SADB Message Add, errno 0, satype '' @ get_sadb_satype satype @ '', seq 0, pid '' @ fmt_d pid @ [NL] @
     '' SA: SPI='' @ fmt_d (get32 (mem_of (\<lambda>_. 0) (put32_net spi)) 0) @ '' Replay Window=0 State=Mature'' @ [NL] @
     ''  Authentication Algorithm: '' @ get_auth_alg alg @ [NL] @ ''  Encryption Algorithm: None'' @ [NL] @
     addr_text env ''Source'' src @ addr_text env ''Dest'' dst @
     '' Authentication key, '' @ dec_nat (8 * length keydata) @ '' bits: 0x'' @ concat (map fmt_02x keydata) @ [NL]"

lemma sadb_add_prints_aux:
  fixes spi :: nat
  assumes "inet_sa src" and "inet_sa dst" and "satype < 256" and "alg < 256" and "pid < 2 ^ 32" and "length keydata \<le> 3900"
  defines "req \<equiv> add_msg (sockaddr_bytes src) (sockaddr_bytes dst) satype alg spi (8 * length keydata) keydata pid"
  shows "print_sadb_msg env (mem_of junk req) (int (length req)) = Some (K_out (add_text env src dst satype alg spi keydata pid)) \<and>
    8 dvd length req \<and> length req \<le> 4096"
proof -
  let ?A = "sa_ext alg spi" and ?B = "address_ext 5 (sockaddr_bytes src)" and ?C = "address_ext 6 (sockaddr_bytes dst)"
    and ?D = "key_ext (8 * length keydata) keydata"
  define xs where "xs = [?A, ?B, ?C, ?D]"
  have la: "length ?A = 16" by (simp add: sa_ext_def)
  have lb: "length ?B = addr_len src" "length ?C = addr_len dst" using assms(1,2) by (simp_all add: address_ext_length)
  have ld: "length ?D = 8 * ((8 + length keydata + 7) div 8)" using assms(6) by (intro key_ext_lengths) simp
  define n where "n = length (concat xs)"
  have n: "n = 16 + addr_len src + addr_len dst + 8 * ((8 + length keydata + 7) div 8)" unfolding n_def xs_def using la lb ld by simp
  have n8: "8 dvd n" unfolding n by (simp add: addr_len_def)
  have nb: "0 < n" "n \<le> 4080" unfolding n using assms(6) by (auto simp: addr_len_def)
  define hdr where "hdr = msg_hdr 3 satype ((16 + n) div 8) pid"
  have req: "req = hdr @ concat xs" unfolding req_def add_msg_def Let_def hdr_def n_def xs_def by simp
  have lh: "length hdr = 16" by (simp add: hdr_def msg_hdr_def)
  let ?m = "mem_of junk req"
  have m0: "?m = mem_of junk ([] @ hdr @ concat xs)" by (simp add: req)
  have len: "length req = 16 + n" by (simp add: req lh n_def)
  have f4: "get16 ?m 4 = (16 + n) div 8" unfolding m0 by (rule get16_mid [where front = "put8 2 @ put8 3 @ put8 0 @ put8 satype"]) (use nb in \<open>simp_all add: hdr_def msg_hdr_def\<close>)
  have f0: "get8 ?m 0 = 2" unfolding m0 by (rule get8_mid [where front = "[]"]) (simp_all add: hdr_def msg_hdr_def)
  have f1: "get8 ?m 1 = 3" unfolding m0 by (rule get8_mid [where front = "put8 2"]) (simp_all add: hdr_def msg_hdr_def)
  have f2: "get8 ?m 2 = 0" unfolding m0 by (rule get8_mid [where front = "put8 2 @ put8 3"]) (simp_all add: hdr_def msg_hdr_def)
  have f3: "get8 ?m 3 = satype" unfolding m0 by (rule get8_mid [where front = "put8 2 @ put8 3 @ put8 0"]) (use assms(3) in \<open>simp_all add: hdr_def msg_hdr_def\<close>)
  have f8: "get32 ?m 8 = 0" unfolding m0
    by (rule get32_mid [where front = "put8 2 @ put8 3 @ put8 0 @ put8 satype @ put16 ((16 + n) div 8) @ put16 0"]) (simp_all add: hdr_def msg_hdr_def)
  have f12: "get32 ?m 12 = pid" unfolding m0
    by (rule get32_mid [where front = "put8 2 @ put8 3 @ put8 0 @ put8 satype @ put16 ((16 + n) div 8) @ put16 0 @ put32 0"])
      (use assms(5) in \<open>simp_all add: hdr_def msg_hdr_def\<close>)
  have "\<forall>x \<in> set xs. ext_ok x" using assms(1,2,6) by (simp add: xs_def address_ext_ok sa_ext_ok key_ext_ok)
  from exts_at_mem [OF this, of junk hdr "[]"] have "exts_at ?m 16 xs" by (simp add: req lh)
  from ext_loop_exts [OF this, of env] have loop: "ext_loop env ?m (int n) 16 = Some (concat (map (ext_print env ?m) (ext_offsets 16 xs)))" by (simp add: n_def)
  have a: "ext_print env ?m 16 = ext_print env (mem_of junk (hdr @ ?A @ (?B @ ?C @ ?D))) 16" by (simp add: req xs_def)
  have b: "ext_print env ?m 32 = ext_print env (mem_of junk ((hdr @ ?A) @ ?B @ (?C @ ?D))) 32" by (simp add: req xs_def)
  have c: "ext_print env ?m (32 + addr_len src) = ext_print env (mem_of junk ((hdr @ ?A @ ?B) @ ?C @ ?D)) (32 + addr_len src)" by (simp add: req xs_def)
  have d: "ext_print env ?m (32 + addr_len src + addr_len dst) = ext_print env (mem_of junk ((hdr @ ?A @ ?B @ ?C) @ ?D @ [])) (32 + addr_len src + addr_len dst)"
    by (simp add: req xs_def)
  note pa = ext_print_sa [OF assms(4), of 16 hdr env junk spi "?B @ ?C @ ?D", folded a]
  note pb = ext_print_address [OF assms(1), of 5 32 "hdr @ ?A" env junk "?C @ ?D", folded b]
  note pc = ext_print_address [OF assms(2), of 6 "32 + addr_len src" "hdr @ ?A @ ?B" env junk ?D, folded c]
  note pd = ext_print_key [of keydata "32 + addr_len src + addr_len dst" "hdr @ ?A @ ?B @ ?C" env junk "[]", folded d]
  have off: "ext_offsets 16 xs = [16, 32, 32 + addr_len src, 32 + addr_len src + addr_len dst]" by (simp add: xs_def la lb)
  have e: "8 * int ((16 + n) div 8) = 16 + int n" using n8 by (metis (no_types, lifting) dvd_add_right_iff dvd_mult_div_cancel dvd_refl mult_2_right numeral_Bit0 of_nat_add of_nat_mult of_nat_numeral)
  have g: "get_sadb_msg_type 3 = ''Add''" "dec_nat 0 = ''0''" "fmt_d 0 = ''0''" by (simp_all add: get_sadb_msg_type_def name_of_def fmt_d_def dec_int_def dec_nat.simps digit_chars_def)
  have "print_sadb_msg env ?m (int (length req)) = Some (K_out (add_text env src dst satype alg spi keydata pid))"
    unfolding print_sadb_msg_def len f4 f0 f1 f2 f3 f8 f12 g Let_def
    using nb assms(6) loop off pa pb pc pd lh la lb e by (simp add: add_text_def)
  with len nb n8 show ?thesis by simp
qed
section \<open>The key and the replies\<close>

lemma xdigit_facts:
  assumes "d < 16"
  shows "\<not> isspace (xdigits_l ! d)" "xdigits_l ! d \<notin> {CHR ''-'', CHR ''+'', CHR ''x'', CHR ''X''}" "is_xdigit (xdigits_l ! d)" "index_of (xdigits_l ! d) xdigits_l = Some d"
proof -
  have "list_all (\<lambda>d. \<not> isspace (xdigits_l ! d) \<and> xdigits_l ! d \<notin> {CHR ''-'', CHR ''+'', CHR ''x'', CHR ''X''} \<and> is_xdigit (xdigits_l ! d)) [0..<16]" by code_simp
  with assms show "\<not> isspace (xdigits_l ! d)" "xdigits_l ! d \<notin> {CHR ''-'', CHR ''+'', CHR ''x'', CHR ''X''}" "is_xdigit (xdigits_l ! d)" by (simp_all add: list_all_iff)
qed (rule index_of_xdigit [OF assms])

lemma byte_digits: "unat (b :: byte) div 16 < 16" "unat b mod 16 < 16"
  using unsigned_less [of b, where ?'a = nat] by simp_all

lemma scan_2x_byte: "scan_2x (fmt_02x b @ rest) = Some (int (unat b))"
proof -
  let ?d = "unat b div 16" and ?e = "unat b mod 16"
  note d = xdigit_facts [OF byte_digits(1) [of b]] and e = xdigit_facts [OF byte_digits(2) [of b]]
  have "xdigits_l ! ?d \<in> set (xdigits_l @ xdigits_u)" "xdigits_l ! ?e \<in> set (xdigits_l @ xdigits_u)" using d(3) e(3) by (simp_all add: is_xdigit_def)
  then have "hex_val [xdigits_l ! ?d, xdigits_l ! ?e] = Some (unat b)" using d(4) e(4) by (simp add: hex_val_def)
  with d(1-3) e(2,3) show ?thesis by (auto simp: scan_2x_def fmt_02x_def Let_def)
qed

lemma key_loop_bytes: "key_loop (length bs) (concat (map fmt_02x bs)) = Inr bs"
proof (induction bs)
  case (Cons b bs)
  have "drop 2 (fmt_02x b @ concat (map fmt_02x bs)) = concat (map fmt_02x bs)" "2 \<le> length (fmt_02x b @ concat (map fmt_02x bs))" by (simp_all add: fmt_02x_def)
  with Cons.IH scan_2x_byte [of b "concat (map fmt_02x bs)"] show ?case by (simp add: uint_nat [symmetric])
qed simp

lemma key_arg_bytes:
  assumes "pre = [] \<or> pre = ''0x'' \<or> pre = ''0X''"
  shows "key_arg (8 * length bs) (pre @ concat (map fmt_02x bs)) = Inr bs"
proof -
  have n: "(8 * length bs + 7) div 8 = length bs" by simp
  have "take 2 (concat (map fmt_02x bs)) \<noteq> ''0x'' \<and> take 2 (concat (map fmt_02x bs)) \<noteq> ''0X''"
  proof (cases bs)
    case (Cons b bs')
    from xdigit_facts(2) [OF byte_digits(2) [of b]] show ?thesis by (auto simp: Cons fmt_02x_def)
  qed simp
  with assms key_loop_bytes [of bs] show ?thesis unfolding key_arg_def n by auto
qed

text \<open>The replies up to the first that is asked for are read and not printed.\<close>

definition reply_for :: "nat \<Rightarrow> nat \<Rightarrow> mem \<Rightarrow> bool" where
  "reply_for pid ty m \<longleftrightarrow> get32 m 12 = pid \<and> get8 m 1 = ty"

lemma mem_of_get: "i + 4 \<le> length bs \<Longrightarrow> get32 (mem_of m bs) i = get32 (mem_of k bs) i" "i < length bs \<Longrightarrow> get8 (mem_of m bs) i = get8 (mem_of k bs) i"
  by (simp_all add: get32_def get16_def get8_def mem_of_def)

lemma reply_for_msg: "16 \<le> length bs \<Longrightarrow> length bs \<le> 4096 \<Longrightarrow> reply_for pid ty (kw_buf (k_read bs w)) = reply_for pid ty (mem_of (\<lambda>_. 0) bs)"
  using mem_of_get [of 12 bs "kw_buf w" "\<lambda>_. 0"] mem_of_get(2) [of 1 bs "kw_buf w" "\<lambda>_. 0"] by (simp add: reply_for_def k_read_def)

lemma await_skips:
  assumes "\<forall>bs \<in> set others. 16 \<le> length bs \<and> length bs \<le> 4096 \<and> \<not> reply_for pid ty (mem_of (\<lambda>_. 0) bs)"
  shows "await_reply env pid ty (map Reply others @ rs) w = await_reply env pid ty rs (foldl (\<lambda>w bs. k_read bs w) w others)"
  using assms
proof (induction others arbitrary: w)
  case (Cons bs others)
  then have "\<not> reply_for pid ty (kw_buf (k_read bs w))" using reply_for_msg [of bs pid ty w] by auto
  with Cons show ?case by (auto simp: reply_for_def Let_def)
qed simp

lemma k_read_out [simp]: "kw_out (k_read bs w) = kw_out w" "kw_sent (k_read bs w) = kw_sent w"
  by (simp_all add: k_read_def)

lemma k_reads_out: "kw_out (foldl (\<lambda>w bs. k_read bs w) w others) = kw_out w" "kw_sent (foldl (\<lambda>w bs. k_read bs w) w others) = kw_sent w"
  by (induction others arbitrary: w) simp_all

lemma await_prints:
  assumes "\<forall>bs \<in> set others. 16 \<le> length bs \<and> length bs \<le> 4096 \<and> \<not> reply_for pid ty (mem_of (\<lambda>_. 0) bs)"
    and "16 \<le> length r" and "length r \<le> 4096" and "reply_for pid ty (mem_of (\<lambda>_. 0) r)"
  shows "\<exists>m. await_reply env pid ty (map Reply others @ Reply r # rs) w =
    map_option (\<lambda>t. Ret () ((foldl (\<lambda>w bs. k_read bs w) w others)\<lparr>kw_out := kw_out w @ [t], kw_buf := mem_of m r\<rparr>)) (print_sadb_msg env (mem_of m r) (int (length r)))"
proof -
  let ?w = "foldl (\<lambda>w bs. k_read bs w) w others"
  have "reply_for pid ty (kw_buf (k_read r ?w))" using reply_for_msg [OF assms(2,3), of pid ty ?w] assms(4) by simp
  then have "await_reply env pid ty (Reply r # rs) ?w = map_option (\<lambda>t. Ret () (k_emit t (k_read r ?w))) (print_sadb_msg env (kw_buf (k_read r ?w)) (int (length r)))"
    using assms(3) by (simp add: reply_for_def Let_def)
  moreover have "kw_buf (k_read r ?w) = mem_of (kw_buf ?w) r" using assms(3) by (simp add: k_read_def)
  moreover have "k_emit t (k_read r ?w) = ?w\<lparr>kw_out := kw_out w @ [t], kw_buf := mem_of (kw_buf ?w) r\<rparr>" for t
    using assms(3) k_reads_out(1) [of w others] by (simp add: k_emit_def k_read_def)
  ultimately show ?thesis using await_skips [OF assms(1), of env "Reply r # rs" w] by auto
qed

section \<open>Properties\<close>


definition key_env :: keyenv where
  "key_env = \<lparr>k_ntop = (\<lambda>_ _ _. Inr ''1.2.3.4''), k_strerror = (\<lambda>_. ''error''), k_time = (\<lambda>_. ''time'')\<rparr>"


text \<open>
  C35. Printing a message goes on for ever exactly when the length matches, the version is right, and the walk over the extensions arrives, before the message is used up, at one
  with length 0; nothing checks for it.
\<close>

theorem print_sadb_msg_hangs_iff:
  "print_sadb_msg env m msglen = None \<longleftrightarrow> msglen = 8 * int (get16 m 4) \<and> get8 m 0 = 2 \<and> msglen \<noteq> 16 \<and>
     (\<exists>k. int (ext_pos m 16 k) < msglen \<and> get16 m (ext_pos m 16 k) = 0)"
  unfolding print_sadb_msg_ends_iff ext_zero_def by auto

end
