(* ===== verification/Ifi_Ioctl.thy ===== *)
theory Ifi_Ioctl
  imports Route Pf_Key
begin

text \<open>
  The interface list of \<^verbatim>\<open>lib/get_ifi_info.c\<close>, made with \<^verbatim>\<open>ioctl\<close>: a loop that grows the buffer of \<^verbatim>\<open>SIOCGIFCONF\<close> until two calls return the same length, and one pass over the
  variable-length records, with further calls for each address. \<^verbatim>\<open>ioctl/prifinfo.c\<close> prints the list. As configured for BSD: addresses have a length byte, and the
  link-layer address of an interface comes as a record of its own. The kernel's answers are parameters; that it returns the records that fit is a named
  hypothesis.
\<close>

unbundle bit_operations_syntax

section \<open>The buffer loop\<close>

definition AF_INET_BSD :: nat where "AF_INET_BSD = 2"
definition AF_INET6_BSD :: nat where "AF_INET6_BSD = 28"
definition EINVAL :: errno where "EINVAL = EOTHER 22"
definition SIZEOF_IFREQ :: nat where "SIZEOF_IFREQ = 32"

record ifreq =
  ifr_name :: string
  ifr_addr :: "byte list"

text \<open>The size of a record: the name and an address of at least the size of a \<^verbatim>\<open>struct sockaddr\<close>.\<close>

definition ifr_size :: "ifreq \<Rightarrow> nat" where
  "ifr_size r = IFNAMSIZ + max 16 (sa_len (ifr_addr r) 0)"

definition ifc_size :: "ifreq list \<Rightarrow> nat" where
  "ifc_size rs = sum_list (map ifr_size rs)"

partial_function (option) ifconf_loop :: "(nat \<Rightarrow> errno + ifreq list) \<Rightarrow> nat \<Rightarrow> nat \<Rightarrow> (errno + ifreq list) option" where
  "ifconf_loop conf lastlen len =
     (case conf len of
        Inl e \<Rightarrow> if e \<noteq> EINVAL \<or> lastlen \<noteq> 0 then Some (Inl e) else ifconf_loop conf lastlen (len + 10 * SIZEOF_IFREQ)
      | Inr rs \<Rightarrow> if ifc_size rs = lastlen then Some (Inr rs) else ifconf_loop conf (ifc_size rs) (len + 10 * SIZEOF_IFREQ))"

definition ifconf :: "(nat \<Rightarrow> errno + ifreq list) \<Rightarrow> (errno + ifreq list) option" where
  "ifconf conf = ifconf_loop conf 0 (100 * SIZEOF_IFREQ)"

section \<open>The pass over the records\<close>

record ifinfo =
  if_name :: string
  if_index :: nat
  if_mtu :: nat
  if_haddr :: "byte list"
  if_hlen :: nat
  if_flags :: "32 word"
  if_alias :: bool
  if_addr :: "byte list option"
  if_brdaddr :: "byte list option"
  if_dstaddr :: "byte list option"

definition ifinfo_zero :: ifinfo where
  "ifinfo_zero = \<lparr>if_name = [], if_index = 0, if_mtu = 0, if_haddr = replicate IFI_HADDR 0, if_hlen = 0, if_flags = 0, if_alias = False,
     if_addr = None, if_brdaddr = None, if_dstaddr = None\<rparr>"

text \<open>What the kernel says about an interface.\<close>

record ifkern =
  kif_flags :: "string \<Rightarrow> errno + 32 word"
  kif_mtu :: "string \<Rightarrow> errno + nat"
  kif_brdaddr :: "string \<Rightarrow> errno + byte list"
  kif_dstaddr :: "string \<Rightarrow> errno + byte list"

text \<open>The variables of the pass: the list, \<^verbatim>\<open>lastname\<close>, \<^verbatim>\<open>sdlname\<close>, \<^verbatim>\<open>idx\<close>, \<^verbatim>\<open>haddr\<close> and \<^verbatim>\<open>hlen\<close>.\<close>

record ifpass =
  ip_list :: "ifinfo list"
  ip_last :: string
  ip_sdlname :: "string option"
  ip_idx :: nat
  ip_haddr :: "byte list"
  ip_hlen :: nat

definition ifpass_start :: ifpass where
  "ifpass_start = \<lparr>ip_list = [], ip_last = [], ip_sdlname = None, ip_idx = 0, ip_haddr = [], ip_hlen = 0\<rparr>"

definition ifr_family :: "ifreq \<Rightarrow> nat" where
  "ifr_family r = sa_fam (ifr_addr r) 0"

definition ioctl_error :: "errno \<Rightarrow> fatal" where
  "ioctl_error e = Err_sys ''ioctl error'' (Some e)"

definition note_link :: "ifreq \<Rightarrow> ifpass \<Rightarrow> ifpass" where
  "note_link r s =
     (if ifr_family r = AF_LINK
      then s\<lparr>ip_sdlname := Some (ifr_name r), ip_idx := sdl_index (ifr_addr r) 0, ip_haddr := drop (sdl_nlen (ifr_addr r) 0) (sdl_data (ifr_addr r) 0),
             ip_hlen := sdl_alen (ifr_addr r) 0\<rparr>
      else s)"

text \<open>The name up to the colon of an alias.\<close>

definition base_name :: "string \<Rightarrow> string" where
  "base_name nm = takeWhile (\<lambda>c. c \<noteq> CHR '':'') nm"

text \<open>The addresses of a new entry, with the calls they take.\<close>

definition if_fill :: "ifkern \<Rightarrow> string \<Rightarrow> ifreq \<Rightarrow> ifinfo \<Rightarrow> fatal + ifinfo" where
  "if_fill kern nm r ifi =
     (if ifr_family r = AF_INET_BSD
      then (let i1 = ifi\<lparr>if_addr := Some (take 16 (ifr_addr r))\<rparr>
            in case (if if_flags ifi AND IFF_BROADCAST \<noteq> 0 then map_sum id Some (kif_brdaddr kern nm) else Inr None) of
                 Inl e \<Rightarrow> Inl (ioctl_error e)
               | Inr brd \<Rightarrow>
                   (case (if if_flags ifi AND IFF_POINTOPOINT \<noteq> 0 then map_sum id Some (kif_dstaddr kern nm) else Inr None) of
                      Inl e \<Rightarrow> Inl (ioctl_error e)
                    | Inr dst \<Rightarrow> Inr (i1\<lparr>if_brdaddr := map_option (take 16) brd, if_dstaddr := map_option (take 16) dst\<rparr>)))
      else if ifr_family r = AF_INET6_BSD
      then (case (if if_flags ifi AND IFF_POINTOPOINT \<noteq> 0 then map_sum id Some (kif_dstaddr kern nm) else Inr None) of
              Inl e \<Rightarrow> Inl (ioctl_error e)
            | Inr dst \<Rightarrow> Inr (ifi\<lparr>if_addr := Some (take 28 (ifr_addr r)), if_dstaddr := map_option (take 28) dst\<rparr>))
      else Inr ifi)"

definition if_entry :: "ifkern \<Rightarrow> nat \<Rightarrow> bool \<Rightarrow> ifreq \<Rightarrow> ifpass \<Rightarrow> fatal + ifpass" where
  "if_entry kern family doaliases r s0 =
     (let s1 = note_link r s0
      in if ifr_family r \<noteq> family then Inr s1
         else let nm = base_name (ifr_name r); alias = (ip_last s1 = nm)
              in if alias \<and> \<not> doaliases then Inr s1
                 else let s2 = s1\<lparr>ip_last := nm\<rparr>
                      in case kif_flags kern nm of
                           Inl e \<Rightarrow> Inl (ioctl_error e)
                         | Inr flags \<Rightarrow>
                             if flags AND IFF_UP = 0 then Inr s2
                             else case kif_mtu kern nm of
                                    Inl e \<Rightarrow> Inl (ioctl_error e)
                                  | Inr mtu \<Rightarrow>
                                      (let s3 = (if ip_sdlname s2 \<noteq> Some nm then s2\<lparr>ip_idx := 0, ip_hlen := 0\<rparr> else s2);
                                           hlen = min IFI_HADDR (ip_hlen s3)
                                       in map_sum id (\<lambda>ifi. s3\<lparr>ip_list := ip_list s3 @ [ifi]\<rparr>)
                                            (if_fill kern nm r
                                              (ifinfo_zero\<lparr>if_flags := flags, if_alias := alias, if_mtu := mtu, if_name := take (IFI_NAME - 1) nm, if_index := ip_idx s3,
                                                 if_hlen := hlen,
                                                 if_haddr := (if ip_hlen s3 \<noteq> 0 then blit (replicate IFI_HADDR 0) 0 (take hlen (ip_haddr s3)) else replicate IFI_HADDR 0)\<rparr>))))"

fun if_pass :: "ifkern \<Rightarrow> nat \<Rightarrow> bool \<Rightarrow> ifreq list \<Rightarrow> ifpass \<Rightarrow> fatal + ifpass" where
  "if_pass kern family doaliases [] s = Inr s"
| "if_pass kern family doaliases (r # rs) s =
     (case if_entry kern family doaliases r s of Inl f \<Rightarrow> Inl f | Inr s' \<Rightarrow> if_pass kern family doaliases rs s')"

definition get_ifi_ioctl :: "(nat \<Rightarrow> errno + ifreq list) \<Rightarrow> ifkern \<Rightarrow> nat \<Rightarrow> bool \<Rightarrow> (fatal + ifinfo list) option" where
  "get_ifi_ioctl conf kern family doaliases =
     map_option (\<lambda>r. case r of
         Inl e \<Rightarrow> Inl (ioctl_error e)
       | Inr rs \<Rightarrow> map_sum id ip_list (if_pass kern family doaliases rs ifpass_start))
       (ifconf conf)"

definition Get_ifi_info :: "(nat \<Rightarrow> errno + ifreq list) \<Rightarrow> ifkern \<Rightarrow> nat \<Rightarrow> bool \<Rightarrow> (fatal + ifinfo list) option" where
  "Get_ifi_info conf kern family doaliases =
     map_option (\<lambda>r. case r of Inl f \<Rightarrow> Inl f | Inr l \<Rightarrow> if l = [] then Inl (Err_quit ''get_ifi_info error'') else Inr l) (get_ifi_ioctl conf kern family doaliases)"

section \<open>Printing the list\<close>

definition IFF_LOOPBACK :: "32 word" where "IFF_LOOPBACK = 8"
definition IFF_MULTICAST :: "32 word" where "IFF_MULTICAST = 0x8000"

definition flag_text :: "32 word \<Rightarrow> string" where
  "flag_text fl =
     (if fl AND IFF_UP \<noteq> 0 then ''UP '' else []) @ (if fl AND IFF_BROADCAST \<noteq> 0 then ''BCAST '' else []) @
     (if fl AND IFF_MULTICAST \<noteq> 0 then ''MCAST '' else []) @ (if fl AND IFF_LOOPBACK \<noteq> 0 then ''LOOP '' else []) @
     (if fl AND IFF_POINTOPOINT \<noteq> 0 then ''P2P '' else [])"

fun haddr_text :: "bool \<Rightarrow> byte list \<Rightarrow> string" where
  "haddr_text first [] = [NL]"
| "haddr_text first (b # bs) = (if first then ''  '' else '':'') @ hex_nat (unat b) @ haddr_text False bs"

definition host_line :: "ntop \<Rightarrow> string \<Rightarrow> byte list option \<Rightarrow> fatal + string" where
  "host_line ntop label addr =
     (case addr of
        None \<Rightarrow> Inr []
      | Some bs \<Rightarrow>
          (case sock_ntop_host ntop (sa_at (mem_of (\<lambda>_. 0) bs) 0) 16 of
             Inl e \<Rightarrow> Inl (Err_sys ''sock_ntop_host error'' (Some e))
           | Inr s \<Rightarrow> Inr (label @ s @ [NL])))"

definition ifinfo_text :: "ntop \<Rightarrow> ifinfo \<Rightarrow> fatal + string" where
  "ifinfo_text ntop ifi =
     (case host_line ntop ''  IP addr: '' (if_addr ifi) of Inl f \<Rightarrow> Inl f | Inr a \<Rightarrow>
      case host_line ntop ''  broadcast addr: '' (if_brdaddr ifi) of Inl f \<Rightarrow> Inl f | Inr b \<Rightarrow>
      case host_line ntop ''  destination addr: '' (if_dstaddr ifi) of Inl f \<Rightarrow> Inl f | Inr d \<Rightarrow>
      Inr (if_name ifi @ '': '' @ (if if_index ifi \<noteq> 0 then CHR ''('' # dec_nat (if_index ifi) @ '') '' else []) @ ''<'' @ flag_text (if_flags ifi) @ ''>'' @ [NL] @
           (if 0 < if_hlen ifi then haddr_text True (take (if_hlen ifi) (if_haddr ifi)) else []) @
           (if if_mtu ifi \<noteq> 0 then ''  MTU: '' @ dec_nat (if_mtu ifi) @ [NL] else []) @ a @ b @ d))"

fun ifinfos_text :: "ntop \<Rightarrow> ifinfo list \<Rightarrow> fatal + string" where
  "ifinfos_text ntop [] = Inr []"
| "ifinfos_text ntop (i # is) =
     (case ifinfo_text ntop i of Inl f \<Rightarrow> Inl f | Inr t \<Rightarrow> map_sum id ((@) t) (ifinfos_text ntop is))"

text \<open>\<open>main\<close> of \<^verbatim>\<open>prifinfo.c\<close>; \<open>ipv6\<close> tells whether the macro \<^verbatim>\<open>IPv6\<close> is defined.\<close>

definition prifinfo :: "bool \<Rightarrow> ntop \<Rightarrow> (nat \<Rightarrow> errno + ifreq list) \<Rightarrow> ifkern \<Rightarrow> string list \<Rightarrow> (fatal + string) option" where
  "prifinfo ipv6 ntop conf kern argv =
     (if length argv \<noteq> 3 then Some (Inl (Err_quit ''usage: prifinfo <inet4|inet6> <doaliases>''))
      else let run = (\<lambda>family. map_option (\<lambda>r. case r of Inl f \<Rightarrow> Inl f | Inr l \<Rightarrow> ifinfos_text ntop l) (Get_ifi_info conf kern family (atoi (argv ! 2) \<noteq> 0)))
           in if argv ! 1 = ''inet4'' then run AF_INET_BSD
              else if ipv6 \<and> argv ! 1 = ''inet6'' then run AF_INET6_BSD
              else Some (Inl (Err_quit ''invalid <address-family>'')))"

section \<open>What the buffer loop finds\<close>

text \<open>A kernel that returns the records that fit.\<close>

fun fit :: "nat \<Rightarrow> ifreq list \<Rightarrow> ifreq list" where
  "fit n [] = []"
| "fit n (r # rs) = (if ifr_size r \<le> n then r # fit (n - ifr_size r) rs else [])"

lemma ifc_size_simps [simp]: "ifc_size [] = 0" "ifc_size (r # rs) = ifr_size r + ifc_size rs"
  by (simp_all add: ifc_size_def)

lemma ifr_size_bounds: "16 \<le> ifr_size r" "ifr_size r \<le> 10 * SIZEOF_IFREQ"
proof -
  have "sa_len (ifr_addr r) 0 < 256" using unsigned_less [of "ifr_addr r ! 0"] by (simp add: sa_len_def)
  then show "ifr_size r \<le> 10 * SIZEOF_IFREQ" by (simp add: ifr_size_def SIZEOF_IFREQ_def IFNAMSIZ_def)
qed (simp add: ifr_size_def IFNAMSIZ_def)

lemma fit_all: "ifc_size rs \<le> n \<Longrightarrow> fit n rs = rs"
  by (induction n rs rule: fit.induct) auto

lemma fit_size: "ifc_size (fit n rs) \<le> n" "ifc_size (fit n rs) \<le> ifc_size rs"
  by (induction n rs rule: fit.induct) auto

text \<open>A buffer larger by \<^verbatim>\<open>10 * sizeof(struct ifreq)\<close> takes at least one more record, since no record is longer than that.\<close>

lemma fit_grows: "n < ifc_size rs \<Longrightarrow> ifc_size (fit n rs) < ifc_size (fit (n + 10 * SIZEOF_IFREQ) rs)"
proof (induction n rs rule: fit.induct)
  case (2 n r rs)
  show ?case
  proof (cases "ifr_size r \<le> n")
    case True
    then have "fit (n + 10 * SIZEOF_IFREQ) (r # rs) = r # fit (n - ifr_size r + 10 * SIZEOF_IFREQ) rs" "fit n (r # rs) = r # fit (n - ifr_size r) rs"
      "n - ifr_size r < ifc_size rs"
      using 2(2) by simp_all
    with 2(1) [OF True] show ?thesis by (simp only: ifc_size_simps add_less_cancel_left)
  next
    case False
    then have "fit n (r # rs) = []" "fit (n + 10 * SIZEOF_IFREQ) (r # rs) = r # fit (n + 10 * SIZEOF_IFREQ - ifr_size r) rs"
      using ifr_size_bounds(2) [of r] by simp_all
    then show ?thesis using ifr_size_bounds(1) [of r] by (simp only: ifc_size_simps)
  qed
qed simp

lemma ifconf_loop_finds:
  assumes conf: "\<And>n. conf n = Inr (fit n all)" and last: "lastlen < ifc_size (fit len all) \<or> lastlen = ifc_size all \<and> lastlen \<le> len"
  shows "ifconf_loop conf lastlen len = Some (Inr all)"
  using last
proof (induction "ifc_size all - lastlen" arbitrary: lastlen len rule: less_induct)
  case less
  let ?l = "ifc_size (fit len all)"
  show ?case
  proof (cases "lastlen < ?l")
    case True
    have run: "ifconf_loop conf lastlen len = ifconf_loop conf ?l (len + 10 * SIZEOF_IFREQ)"
      using True by (simp add: ifconf_loop.simps [of conf lastlen] conf)
    have "?l < ifc_size (fit (len + 10 * SIZEOF_IFREQ) all) \<or> ?l = ifc_size all \<and> ?l \<le> len + 10 * SIZEOF_IFREQ"
      using fit_grows [of len all] fit_all [of all len] by (cases "len < ifc_size all") auto
    moreover have "ifc_size all - ?l < ifc_size all - lastlen" using True fit_size(2) [of len all] by simp
    ultimately show ?thesis unfolding run by (intro less.hyps)
  next
    case False
    with less.prems have "lastlen = ifc_size all" "ifc_size all \<le> len" by auto
    then show ?thesis by (simp add: ifconf_loop.simps [of conf] conf fit_all)
  qed
qed

lemma ifconf_finds:
  assumes "\<And>n. conf n = Inr (fit n all)"
  shows "ifconf conf = Some (Inr all)"
  unfolding ifconf_def
proof (rule ifconf_loop_finds [OF assms])
  show "0 < ifc_size (fit (100 * SIZEOF_IFREQ) all) \<or> 0 = ifc_size all \<and> 0 \<le> 100 * SIZEOF_IFREQ"
  proof (cases all)
    case (Cons r rs)
    then show ?thesis using ifr_size_bounds [of r] by (simp add: SIZEOF_IFREQ_def)
  qed simp
qed

section \<open>What the pass builds\<close>

text \<open>An interface as the kernel lists it: its name, its link-layer record if it has one, and its addresses, each with the suffix of its alias (empty, or a colon
and more). All calls about it succeed; \<open>ifans\<close> holds the answers.\<close>

record ifgroup =
  ig_name :: string
  ig_link :: "byte list option"
  ig_addrs :: "(string \<times> byte list) list"

record ifans =
  ia_flags :: "string \<Rightarrow> 32 word"
  ia_mtu :: "string \<Rightarrow> nat"
  ia_brdaddr :: "string \<Rightarrow> byte list"
  ia_dstaddr :: "string \<Rightarrow> byte list"

definition answering :: "ifans \<Rightarrow> ifkern" where
  "answering k = \<lparr>kif_flags = \<lambda>nm. Inr (ia_flags k nm), kif_mtu = \<lambda>nm. Inr (ia_mtu k nm), kif_brdaddr = \<lambda>nm. Inr (ia_brdaddr k nm),
     kif_dstaddr = \<lambda>nm. Inr (ia_dstaddr k nm)\<rparr>"

definition addr_ifreq :: "string \<Rightarrow> string \<times> byte list \<Rightarrow> ifreq" where
  "addr_ifreq nm x = \<lparr>ifr_name = nm @ fst x, ifr_addr = snd x\<rparr>"

definition group_ifreqs :: "ifgroup \<Rightarrow> ifreq list" where
  "group_ifreqs g = (case ig_link g of None \<Rightarrow> [] | Some l \<Rightarrow> [\<lparr>ifr_name = ig_name g, ifr_addr = l\<rparr>]) @ map (addr_ifreq (ig_name g)) (ig_addrs g)"

definition ifgroup_ok :: "ifgroup \<Rightarrow> bool" where
  "ifgroup_ok g \<longleftrightarrow> ig_name g \<noteq> [] \<and> CHR '':'' \<notin> set (ig_name g) \<and> (case ig_link g of None \<Rightarrow> True | Some l \<Rightarrow> sa_fam l 0 = AF_LINK) \<and>
     list_all (\<lambda>x. (fst x = [] \<or> hd (fst x) = CHR '':'') \<and> sa_fam (snd x) 0 \<noteq> AF_LINK) (ig_addrs g)"

text \<open>The entry an address should have.\<close>

definition link_field :: "(byte list \<Rightarrow> 'a) \<Rightarrow> 'a \<Rightarrow> ifgroup \<Rightarrow> 'a" where
  "link_field f z g = (case ig_link g of None \<Rightarrow> z | Some l \<Rightarrow> f l)"

definition ifinfo_ref :: "ifans \<Rightarrow> nat \<Rightarrow> ifgroup \<Rightarrow> bool \<Rightarrow> byte list \<Rightarrow> ifinfo" where
  "ifinfo_ref k family g alias a =
     (let nm = ig_name g; fl = ia_flags k nm; w = (if family = AF_INET_BSD then 16 else 28);
          hw = link_field (\<lambda>l. take (min IFI_HADDR (sdl_alen l 0)) (drop (sdl_nlen l 0) (sdl_data l 0))) [] g
      in \<lparr>if_name = take (IFI_NAME - 1) nm, if_index = link_field (\<lambda>l. sdl_index l 0) 0 g, if_mtu = ia_mtu k nm,
          if_haddr = blit (replicate IFI_HADDR 0) 0 hw, if_hlen = link_field (\<lambda>l. min IFI_HADDR (sdl_alen l 0)) 0 g,
          if_flags = fl, if_alias = alias, if_addr = Some (take w a),
          if_brdaddr = (if family = AF_INET_BSD \<and> fl AND IFF_BROADCAST \<noteq> 0 then Some (take 16 (ia_brdaddr k nm)) else None),
          if_dstaddr = (if fl AND IFF_POINTOPOINT \<noteq> 0 then Some (take w (ia_dstaddr k nm)) else None)\<rparr>)"

definition group_ref :: "ifans \<Rightarrow> nat \<Rightarrow> bool \<Rightarrow> ifgroup \<Rightarrow> ifinfo list" where
  "group_ref k family doaliases g =
     (if ia_flags k (ig_name g) AND IFF_UP = 0 then []
      else case filter (\<lambda>a. sa_fam a 0 = family) (map snd (ig_addrs g)) of
             [] \<Rightarrow> []
           | a # as \<Rightarrow> ifinfo_ref k family g False a # (if doaliases then map (ifinfo_ref k family g True) as else []))"

text \<open>What the pass knows of the link record while it is at the addresses of \<open>g\<close>.\<close>

definition link_known :: "ifgroup \<Rightarrow> ifpass \<Rightarrow> bool" where
  "link_known g s \<longleftrightarrow>
     (case ig_link g of
        None \<Rightarrow> ip_sdlname s \<noteq> Some (ig_name g)
      | Some l \<Rightarrow> ip_sdlname s = Some (ig_name g) \<and> ip_idx s = sdl_index l 0 \<and> ip_haddr s = drop (sdl_nlen l 0) (sdl_data l 0) \<and> ip_hlen s = sdl_alen l 0)"

lemma base_name_alias:
  assumes "CHR '':'' \<notin> set nm" "sfx = [] \<or> hd sfx = CHR '':''"
  shows "base_name (nm @ sfx) = nm"
proof -
  have "takeWhile (\<lambda>c. c \<noteq> CHR '':'') sfx = []" using assms(2) by (cases sfx) auto
  moreover have "\<forall>c \<in> set nm. c \<noteq> CHR '':''" using assms(1) by blast
  ultimately show ?thesis by (simp add: base_name_def)
qed

lemma blit_Nil_here: "blit xs i [] = xs"
  by (simp add: blit_def)

text \<open>One address of an interface.\<close>

lemma if_entry_addr:
  assumes fam: "family = AF_INET_BSD \<or> family = AF_INET6_BSD" and nm: "CHR '':'' \<notin> set (ig_name g)"
    and x: "fst x = [] \<or> hd (fst x) = CHR '':''" "sa_fam (snd x) 0 \<noteq> AF_LINK" and link: "link_known g s"
  shows "\<exists>s'. if_entry (answering k) family doaliases (addr_ifreq (ig_name g) x) s = Inr s' \<and> link_known g s' \<and> ip_sdlname s' = ip_sdlname s \<and>
     (if sa_fam (snd x) 0 \<noteq> family then ip_list s' = ip_list s \<and> ip_last s' = ip_last s
      else ip_last s' = ig_name g \<and>
           ip_list s' = ip_list s @ (if ia_flags k (ig_name g) AND IFF_UP = 0 \<or> ip_last s = ig_name g \<and> \<not> doaliases then []
                                     else [ifinfo_ref k family g (ip_last s = ig_name g) (snd x)]))"
proof -
  have base: "base_name (ig_name g @ fst x) = ig_name g" by (rule base_name_alias [OF nm x(1)])
  have skip: "note_link (addr_ifreq (ig_name g) x) s = s" using x(2) by (simp add: note_link_def ifr_family_def addr_ifreq_def)
  have six: "AF_INET6_BSD \<noteq> AF_INET_BSD" by (simp add: AF_INET6_BSD_def AF_INET_BSD_def)
  show ?thesis
  proof (cases "sa_fam (snd x) 0 \<noteq> family \<or> ia_flags k (ig_name g) AND IFF_UP = 0 \<or> ip_last s = ig_name g \<and> \<not> doaliases")
    case True
    then show ?thesis using link skip base
      by (auto simp: if_entry_def Let_def ifr_family_def addr_ifreq_def answering_def link_known_def split: option.splits)
  next
    case False
    show ?thesis
    proof (cases "ig_link g")
      case None
      with False show ?thesis using link skip base six fam
        by (auto simp: if_entry_def Let_def ifr_family_def addr_ifreq_def answering_def link_known_def if_fill_def ifinfo_ref_def link_field_def ifinfo_zero_def blit_Nil_here)
    next
      case (Some l)
      with False show ?thesis using link skip base six fam
        by (auto simp: if_entry_def Let_def ifr_family_def addr_ifreq_def answering_def link_known_def if_fill_def ifinfo_ref_def link_field_def ifinfo_zero_def blit_Nil_here)
    qed
  qed
qed

text \<open>The addresses of an interface.\<close>

lemma if_pass_addrs:
  assumes fam: "family = AF_INET_BSD \<or> family = AF_INET6_BSD" and nm: "CHR '':'' \<notin> set (ig_name g)"
    and xs: "list_all (\<lambda>x. (fst x = [] \<or> hd (fst x) = CHR '':'') \<and> sa_fam (snd x) 0 \<noteq> AF_LINK) xs" and link: "link_known g s"
  shows "\<exists>s'. if_pass (answering k) family doaliases (map (addr_ifreq (ig_name g)) xs) s = Inr s' \<and> ip_sdlname s' = ip_sdlname s \<and>
     ip_last s' \<in> {ip_last s, ig_name g} \<and>
     ip_list s' = ip_list s @
       (if ia_flags k (ig_name g) AND IFF_UP = 0 then []
        else case filter (\<lambda>a. sa_fam a 0 = family) (map snd xs) of
               [] \<Rightarrow> []
             | a # as \<Rightarrow> if ip_last s = ig_name g then (if doaliases then map (ifinfo_ref k family g True) (a # as) else [])
                          else ifinfo_ref k family g False a # (if doaliases then map (ifinfo_ref k family g True) as else []))"
  using xs link
proof (induction xs arbitrary: s)
  case (Cons x xs)
  from if_entry_addr [where family = family and g = g and x = x and s = s and k = k and doaliases = doaliases] fam nm Cons.prems
  obtain s1 where s1: "if_entry (answering k) family doaliases (addr_ifreq (ig_name g) x) s = Inr s1" "link_known g s1" "ip_sdlname s1 = ip_sdlname s"
    "if sa_fam (snd x) 0 \<noteq> family then ip_list s1 = ip_list s \<and> ip_last s1 = ip_last s
      else ip_last s1 = ig_name g \<and>
           ip_list s1 = ip_list s @ (if ia_flags k (ig_name g) AND IFF_UP = 0 \<or> ip_last s = ig_name g \<and> \<not> doaliases then []
                                     else [ifinfo_ref k family g (ip_last s = ig_name g) (snd x)])"
    by (auto simp: list_all_iff)
  from Cons.IH [of s1] s1(2) Cons.prems obtain s2 where s2:
    "if_pass (answering k) family doaliases (map (addr_ifreq (ig_name g)) xs) s1 = Inr s2" "ip_sdlname s2 = ip_sdlname s1"
    "ip_last s2 \<in> {ip_last s1, ig_name g}"
    "ip_list s2 = ip_list s1 @
       (if ia_flags k (ig_name g) AND IFF_UP = 0 then []
        else case filter (\<lambda>a. sa_fam a 0 = family) (map snd xs) of
               [] \<Rightarrow> []
             | a # as \<Rightarrow> if ip_last s1 = ig_name g then (if doaliases then map (ifinfo_ref k family g True) (a # as) else [])
                          else ifinfo_ref k family g False a # (if doaliases then map (ifinfo_ref k family g True) as else []))"
    by auto
  have run: "if_pass (answering k) family doaliases (map (addr_ifreq (ig_name g)) (x # xs)) s = Inr s2" using s1(1) s2(1) by simp
  show ?case
  proof (intro exI [of _ s2] conjI)
    show "ip_last s2 \<in> {ip_last s, ig_name g}" using s1(4) s2(3) by (auto split: if_splits)
    show "ip_sdlname s2 = ip_sdlname s" using s1(3) s2(2) by simp
  qed (use run s1(4) s2(4) in \<open>simp_all split: list.splits if_splits\<close>)
qed simp

text \<open>One interface, then all of them.\<close>

lemma if_pass_append:
  "if_pass kern family d (xs @ ys) s = (case if_pass kern family d xs s of Inl f \<Rightarrow> Inl f | Inr s' \<Rightarrow> if_pass kern family d ys s')"
  by (induction xs arbitrary: s) (auto split: sum.splits)

lemma if_pass_group:
  assumes fam: "family = AF_INET_BSD \<or> family = AF_INET6_BSD" and g: "ifgroup_ok g"
    and s: "ip_last s \<noteq> ig_name g" "ip_sdlname s \<noteq> Some (ig_name g)"
  shows "\<exists>s'. if_pass (answering k) family doaliases (group_ifreqs g) s = Inr s' \<and> ip_list s' = ip_list s @ group_ref k family doaliases g \<and>
     ip_last s' \<in> {ip_last s, ig_name g} \<and> ip_sdlname s' \<in> {ip_sdlname s, Some (ig_name g)}"
proof -
  have other: "AF_LINK \<noteq> family" using fam by (auto simp: AF_LINK_def AF_INET_BSD_def AF_INET6_BSD_def)
  obtain s1 where s1: "if_pass (answering k) family doaliases (case ig_link g of None \<Rightarrow> [] | Some l \<Rightarrow> [\<lparr>ifr_name = ig_name g, ifr_addr = l\<rparr>]) s = Inr s1"
    "ip_list s1 = ip_list s" "ip_last s1 = ip_last s" "link_known g s1" "ip_sdlname s1 \<in> {ip_sdlname s, Some (ig_name g)}"
  proof (cases "ig_link g")
    case None
    then show thesis using s by (intro that [of s]) (simp_all add: link_known_def)
  next
    case (Some l)
    moreover have "sa_fam l 0 = AF_LINK" using g Some by (simp add: ifgroup_ok_def)
    ultimately show thesis using other
      by (intro that [of "note_link \<lparr>ifr_name = ig_name g, ifr_addr = l\<rparr> s"])
        (simp_all add: link_known_def note_link_def if_entry_def Let_def ifr_family_def)
  qed
  from if_pass_addrs [where family = family and g = g and xs = "ig_addrs g" and s = s1 and k = k and doaliases = doaliases] fam g s1(4)
  obtain s2 where s2: "if_pass (answering k) family doaliases (map (addr_ifreq (ig_name g)) (ig_addrs g)) s1 = Inr s2" "ip_sdlname s2 = ip_sdlname s1"
     "ip_last s2 \<in> {ip_last s1, ig_name g}"
     "ip_list s2 = ip_list s1 @
       (if ia_flags k (ig_name g) AND IFF_UP = 0 then []
        else case filter (\<lambda>a. sa_fam a 0 = family) (map snd (ig_addrs g)) of
               [] \<Rightarrow> []
             | a # as \<Rightarrow> if ip_last s1 = ig_name g then (if doaliases then map (ifinfo_ref k family g True) (a # as) else [])
                          else ifinfo_ref k family g False a # (if doaliases then map (ifinfo_ref k family g True) as else []))"
    by (auto simp: ifgroup_ok_def)
  have new: "ip_last s1 \<noteq> ig_name g" using s(1) s1(3) by simp
  have "ip_list s2 = ip_list s @ group_ref k family doaliases g"
    using s2(4) unfolding if_not_P [OF new] by (simp only: s1(2) group_ref_def)
  moreover have "if_pass (answering k) family doaliases (group_ifreqs g) s = Inr s2"
    using s1(1) s2(1) by (simp add: group_ifreqs_def if_pass_append)
  ultimately show ?thesis using s1(3,5) s2(2,3) by auto
qed

lemma if_pass_groups:
  assumes fam: "family = AF_INET_BSD \<or> family = AF_INET6_BSD" and gs: "\<forall>g \<in> set gs. ifgroup_ok g" "distinct (map ig_name gs)"
    and s: "ip_last s \<notin> set (map ig_name gs)" "ip_sdlname s \<notin> Some ` set (map ig_name gs)"
  shows "\<exists>s'. if_pass (answering k) family doaliases (concat (map group_ifreqs gs)) s = Inr s' \<and>
     ip_list s' = ip_list s @ concat (map (group_ref k family doaliases) gs)"
  using gs s
proof (induction gs arbitrary: s)
  case (Cons g gs)
  from if_pass_group [where family = family and g = g and s = s and k = k and doaliases = doaliases] fam Cons.prems
  obtain s1 where s1: "if_pass (answering k) family doaliases (group_ifreqs g) s = Inr s1" "ip_list s1 = ip_list s @ group_ref k family doaliases g"
     "ip_last s1 \<in> {ip_last s, ig_name g}" "ip_sdlname s1 \<in> {ip_sdlname s, Some (ig_name g)}"
    by auto
  have "ip_last s1 \<notin> set (map ig_name gs)" "ip_sdlname s1 \<notin> Some ` set (map ig_name gs)"
    using s1(3,4) Cons.prems(2,3,4) by auto
  with Cons.IH [of s1] Cons.prems(1,2) obtain s2 where
    "if_pass (answering k) family doaliases (concat (map group_ifreqs gs)) s1 = Inr s2" "ip_list s2 = ip_list s1 @ concat (map (group_ref k family doaliases) gs)"
    by auto
  then show ?case using s1(1,2) by (simp add: if_pass_append)
qed simp

text \<open>A kernel that reports \<^verbatim>\<open>EINVAL\<close> for a buffer that is too small.\<close>

definition strict_conf :: "ifreq list \<Rightarrow> nat \<Rightarrow> errno + ifreq list" where
  "strict_conf all n = (if ifc_size all \<le> n then Inr all else Inl EINVAL)"

lemma ifconf_loop_strict: "ifconf_loop (strict_conf all) 0 len = Some (Inr all)"
proof (induction "ifc_size all - len" arbitrary: len rule: less_induct)
  case less
  show ?case
  proof (cases "ifc_size all \<le> len")
    case True
    then have "ifconf_loop (strict_conf all) (ifc_size all) (len + 10 * SIZEOF_IFREQ) = Some (Inr all)"
      by (simp add: ifconf_loop.simps [of "strict_conf all"] strict_conf_def)
    then show ?thesis using True by (simp add: ifconf_loop.simps [of "strict_conf all" 0 len] strict_conf_def)
  next
    case False
    moreover have "ifc_size all - (len + 10 * SIZEOF_IFREQ) < ifc_size all - len" using False by (simp add: SIZEOF_IFREQ_def)
    ultimately show ?thesis
      using less by (simp add: ifconf_loop.simps [of "strict_conf all" 0 len] strict_conf_def)
  qed
qed



end
