(* ===== verification/Sum_Service.thy ===== *)
theory Sum_Service
  imports Requests
begin

text \<open>
  The two services of \<^verbatim>\<open>2_basic_socket.c\<close> that add numbers, and the clients: \<^verbatim>\<open>str_echo08\<close> takes the two numbers as text and answers with text;
  \<^verbatim>\<open>str_cli09\<close> reads text, sends the numbers in binary to \<^verbatim>\<open>str_echo09\<close> (theory \<open>Requests\<close>) and prints the binary sum as text. Both readers of text use
  \<^verbatim>\<open>sscanf\<close> with the format \<^verbatim>\<open>%ld%ld\<close>. The last part composes \<^verbatim>\<open>str_cli09\<close> with \<^verbatim>\<open>str_echo09\<close>.
\<close>

section \<open>\<open>sscanf\<close>\<close>

text \<open>One \<^verbatim>\<open>%ld\<close>: white space, a sign, at least one digit; out of range gives the nearest \<^verbatim>\<open>long\<close>. The rest of the string is returned as well.\<close>

definition scan_sign :: "string \<Rightarrow> bool \<times> string" where
  "scan_sign t = (case t of [] \<Rightarrow> (False, []) | c # u \<Rightarrow> if c = CHR ''-'' then (True, u) else if c = CHR ''+'' then (False, u) else (False, t))"

definition scan_ld :: "string \<Rightarrow> (int \<times> string) option" where
  "scan_ld s =
     (case scan_sign (dropWhile is_space s) of
        (neg, u) \<Rightarrow>
          if takeWhile (\<lambda>c. c \<in> set digit_chars) u = [] then None
          else Some (max (- (2 ^ 63)) (min (2 ^ 63 - 1) (if neg then - digits_val u else digits_val u)), dropWhile (\<lambda>c. c \<in> set digit_chars) u))"

definition sscanf_ld_ld :: "string \<Rightarrow> (64 word \<times> 64 word) option" where
  "sscanf_ld_ld s =
     (case scan_ld s of
        None \<Rightarrow> None
      | Some (a, r) \<Rightarrow> (case scan_ld r of None \<Rightarrow> None | Some (b, _) \<Rightarrow> Some (word_of_int a, word_of_int b)))"

text \<open>\<^verbatim>\<open>%ld\<close> in the other direction, with a newline. The sum of the code wraps around, which C leaves undefined for signed numbers.\<close>

definition sum_text :: "64 word \<times> 64 word \<Rightarrow> string" where
  "sum_text p = dec_int (sint (fst p + snd p)) @ [NL]"

section \<open>\<open>str_echo08\<close>\<close>

definition reply08 :: "string \<Rightarrow> string" where
  "reply08 line = (case sscanf_ld_ld (c_str line) of Some p \<Rightarrow> snprintf_str MAXLINE (sum_text p) | None \<Rightarrow> snprintf_str MAXLINE (''input error'' @ [NL]))"

function str_echo08 :: "(unit, rlstate) prog" where
  "str_echo08 s =
     bindP (Readline MAXLINE) (\<lambda>r s1.
       if fst r = 0 then Ret () s1
       else bindP (on_sock (Writen (reply08 (snd r)))) (\<lambda>_ w. str_echo08 w) s1) s"
  by pat_completeness auto
termination
  by (relation "measure rl_size") (auto dest!: on_sock_Writen Readline_size simp: MAXLINE_def)

declare str_echo08.simps [simp del]

section \<open>\<open>str_cli09\<close>\<close>

text \<open>The state of the client: its input, the socket, and what it printed. \<open>result\<close> holds the 8 bytes of the automatic variable \<^verbatim>\<open>result\<close>.\<close>

record sumcli =
  sc_fp :: stdio
  sc_sock :: sockd
  sc_out :: string
  sc_result :: "char list"

definition sc_fgets :: "(char list option, sumcli) prog" where
  "sc_fgets = zoom sc_fp (\<lambda>x. sc_fp_update (\<lambda>_. x)) (Fgets fgets f_error MAXLINE)"

definition sc_print :: "string \<Rightarrow> sumcli \<Rightarrow> sumcli" where
  "sc_print t w = w\<lparr>sc_out := sc_out w @ t\<rparr>"

definition sc_ask :: "64 word \<times> 64 word \<Rightarrow> (unit, sumcli) prog" where
  "sc_ask p =
     bindP (zoom sc_sock (\<lambda>x. sc_sock_update (\<lambda>_. x)) (Writen (args_bytes p))) (\<lambda>_.
     bindP (zoom sc_sock (\<lambda>x. sc_sock_update (\<lambda>_. x)) (Readn 8)) (\<lambda>r w.
       if fst r = 0 then Die (Err_quit ''str_cli: server terminated prematurely'') w
       else let w1 = w\<lparr>sc_result := blit (sc_result w) 0 (snd r)\<rparr>
            in Ret () (sc_print (dec_int (sint (le64 (sc_result w1))) @ [NL]) w1)))"

lemma zoom_sock_frame: "zoom sc_sock (\<lambda>x. sc_sock_update (\<lambda>_. x)) m w = Ret a w' \<Longrightarrow> sc_fp w' = sc_fp w"
  by (auto simp: zoom_def split: outcome.splits)

lemma sc_ask_fp: "sc_ask p w = Ret u w' \<Longrightarrow> sc_fp w' = sc_fp w"
  by (auto simp: sc_ask_def sc_print_def Let_def dest!: zoom_sock_frame split: if_splits elim!: bindP_RetE)

lemma sc_fgets_shrinks:
  assumes "sc_fgets w = Ret (Some l) w'"
  shows "length (f_data (sc_fp w')) < length (f_data (sc_fp w))"
  using assms fgets_shrinks(1) [of MAXLINE "sc_fp w" l "sc_fp w'"]
  by (auto simp: sc_fgets_def zoom_def Fgets_def MAXLINE_def split: outcome.splits prod.splits option.splits)

function str_cli09 :: "(unit, sumcli) prog" where
  "str_cli09 w =
     bindP sc_fgets (\<lambda>sendline w1.
       case sendline of
         None \<Rightarrow> Ret () w1
       | Some l \<Rightarrow>
           (case sscanf_ld_ld (c_str l) of
              None \<Rightarrow> str_cli09 (sc_print (''invalid input: '' @ c_str l) w1)
            | Some p \<Rightarrow> bindP (sc_ask p) (\<lambda>_ w2. str_cli09 w2) w1)) w"
  by pat_completeness auto
termination
  by (relation "measure (\<lambda>w. length (f_data (sc_fp w)))") (auto simp: sc_print_def dest!: sc_ask_fp sc_fgets_shrinks)

declare str_cli09.simps [simp del]

section \<open>Numbers as text\<close>

text \<open>What \<^verbatim>\<open>%ld\<close> prints, \<^verbatim>\<open>sscanf\<close> reads.\<close>

definition no_digit :: "string \<Rightarrow> bool" where
  "no_digit s \<longleftrightarrow> (case s of [] \<Rightarrow> True | c # _ \<Rightarrow> c \<notin> set digit_chars)"

lemma takeWhile_digits:
  assumes "set u \<subseteq> set digit_chars" and "no_digit r"
  shows "takeWhile (\<lambda>c. c \<in> set digit_chars) (u @ r) = u" "dropWhile (\<lambda>c. c \<in> set digit_chars) (u @ r) = r"
proof -
  have "takeWhile (\<lambda>c. c \<in> set digit_chars) r = []" "dropWhile (\<lambda>c. c \<in> set digit_chars) r = r"
    using assms(2) by (cases r; simp add: no_digit_def)+
  then show "takeWhile (\<lambda>c. c \<in> set digit_chars) (u @ r) = u" "dropWhile (\<lambda>c. c \<in> set digit_chars) (u @ r) = r"
    using assms(1) by (simp_all add: subset_iff)
qed

lemma foldl_dec_nat:
  "foldl (\<lambda>v c. v * 10 + (case index_of c digit_chars of Some d \<Rightarrow> int d | None \<Rightarrow> 0)) 0 (dec_nat n) = int n"
proof (induction n rule: dec_nat.induct)
  case (1 n)
  show ?case
  proof (cases "n < 10")
    case True
    then show ?thesis by (simp add: dec_nat.simps [of n] index_of_digit)
  next
    case False
    have "int (n div 10) * 10 + int (n mod 10) = int n" by (metis div_mult_mod_eq of_nat_add of_nat_mult of_nat_numeral)
    with 1 False show ?thesis by (simp add: dec_nat.simps [of n] index_of_digit)
  qed
qed

lemma digits_val_dec: "no_digit r \<Longrightarrow> digits_val (dec_nat n @ r) = int n"
  using takeWhile_digits(1) [OF set_dec_nat, of r n] foldl_dec_nat [of n] by (simp add: digits_val_def)

lemma digit_not_sign: "c \<in> set digit_chars \<Longrightarrow> c \<noteq> CHR ''-'' \<and> c \<noteq> CHR ''+'' \<and> \<not> is_space c"
  by (auto simp: digit_chars_def is_space_def)

lemma dec_nat_Cons: obtains c u where "dec_nat n = c # u" "c \<in> set digit_chars"
  using dec_nat_nonempty [of n] set_dec_nat [of n] by (cases "dec_nat n") auto

lemma scan_ld_dec:
  assumes "- (2 ^ 63) \<le> a" and "a < 2 ^ 63" and "no_digit r" and "\<forall>c \<in> set sp. is_space c"
  shows "scan_ld (sp @ dec_int a @ r) = Some (a, r)"
proof -
  have skip: "dropWhile is_space (sp @ t) = dropWhile is_space t" for t using assms(4) by (induction sp) auto
  obtain c u where n: "dec_nat (nat \<bar>a\<bar>) = c # u" "c \<in> set digit_chars" by (rule dec_nat_Cons)
  have tw: "takeWhile (\<lambda>c. c \<in> set digit_chars) (dec_nat (nat \<bar>a\<bar>) @ r) = dec_nat (nat \<bar>a\<bar>)"
    "dropWhile (\<lambda>c. c \<in> set digit_chars) (dec_nat (nat \<bar>a\<bar>) @ r) = r"
    using takeWhile_digits [OF set_dec_nat assms(3)] by blast+
  have v: "digits_val (dec_nat (nat \<bar>a\<bar>) @ r) = \<bar>a\<bar>" using digits_val_dec [OF assms(3)] by simp
  have sg: "scan_sign (dropWhile is_space (sp @ dec_int a @ r)) = (a < 0, dec_nat (nat \<bar>a\<bar>) @ r)"
  proof (cases "a < 0")
    case True
    then have "dec_int a = CHR ''-'' # dec_nat (nat \<bar>a\<bar>)" by (simp add: dec_int_def)
    then show ?thesis using True by (simp add: skip scan_sign_def is_space_def)
  next
    case False
    then have "dec_int a = c # u" using n by (simp add: dec_int_def)
    then show ?thesis using n digit_not_sign [OF n(2)] False by (simp add: skip scan_sign_def)
  qed
  have clamp: "max (- (2 ^ 63)) (min (2 ^ 63 - 1) a) = a" using assms(1,2) by simp
  have "(if a < 0 then - digits_val (dec_nat (nat \<bar>a\<bar>) @ r) else digits_val (dec_nat (nat \<bar>a\<bar>) @ r)) = a" unfolding v by simp
  with clamp show ?thesis unfolding scan_ld_def sg using tw by (simp only: prod.case dec_nat_nonempty if_False)
qed

lemma sscanf_dec:
  assumes "- (2 ^ 63) \<le> a" "a < 2 ^ 63" "- (2 ^ 63) \<le> b" "b < 2 ^ 63"
  shows "sscanf_ld_ld (dec_int a @ CHR '' '' # dec_int b @ [NL]) = Some (word_of_int a, word_of_int b)"
proof -
  have "no_digit (CHR '' '' # dec_int b @ [NL])" "no_digit [NL]" by (simp_all add: no_digit_def digit_chars_def)
  moreover have "is_space CHR '' ''" by (simp add: is_space_def)
  ultimately show ?thesis
    using scan_ld_dec [OF assms(1,2), of "CHR '' '' # dec_int b @ [NL]" "[]"] scan_ld_dec [OF assms(3,4), of "[NL]" "[CHR '' '']"]
    by (simp add: sscanf_ld_ld_def)
qed

lemma length_sum_text: "length (sum_text p) \<le> 22"
proof -
  have len: "length (dec_nat n) \<le> k" if "n < 10 ^ k" "0 < k" for n k
    using that
  proof (induction k arbitrary: n)
    case (Suc k)
    show ?case
    proof (cases "n < 10 \<or> k = 0")
      case True
      with Suc.prems show ?thesis by (auto simp: dec_nat.simps [of n])
    next
      case False
      have "n div 10 < 10 ^ k" using Suc.prems(1) by (simp add: less_mult_imp_div_less mult.commute)
      with Suc.IH [of "n div 10"] False show ?thesis by (simp add: dec_nat.simps [of n])
    qed
  qed simp
  let ?a = "sint (fst p + snd p)"
  have "\<bar>?a\<bar> \<le> 2 ^ 63" using sint_ge [of "fst p + snd p"] sint_lt [of "fst p + snd p"] by simp
  then have "length (dec_nat (nat \<bar>?a\<bar>)) \<le> 20" by (intro len) simp_all
  then show ?thesis by (cases "?a < 0") (simp_all add: sum_text_def dec_int_def)
qed

section \<open>What the services answer\<close>

definition text_line :: "string \<Rightarrow> bool" where
  "text_line l \<longleftrightarrow> l \<noteq> [] \<and> last l = NL \<and> NL \<notin> set (butlast l) \<and> length l < MAXLINE"

lemma take_line_text_line:
  assumes "text_line l"
  shows "take_line (MAXLINE - 1) (l @ r) = (l, r)"
proof -
  have "take_line k (l' @ NL # r) = (l' @ [NL], r)" if "NL \<notin> set l'" "length l' < k" for k l'
    using that
  proof (induction l' arbitrary: k)
    case Nil
    then show ?case by (cases k) auto
  next
    case (Cons c l')
    then show ?case by (cases k) auto
  qed
  moreover have "l = butlast l @ [NL]" using assms by (metis append_butlast_last_id text_line_def)
  moreover have "length (butlast l) < MAXLINE - 1" using assms by (cases l) (auto simp: text_line_def)
  ultimately show ?thesis using assms by (metis append.assoc append_Cons append_Nil text_line_def)
qed

lemma reply08_text [simp]:
  "reply08 l = (case sscanf_ld_ld (c_str l) of Some p \<Rightarrow> sum_text p | None \<Rightarrow> ''input error'' @ [NL])"
proof -
  have "length (sum_text p) \<le> 4095" for p using length_sum_text [of p] by simp
  then show ?thesis by (auto simp: reply08_def snprintf_str_def MAXLINE_def split: option.splits)
qed

lemma str_echo08_end:
  assumes "rl_wf s" and "rl_stream s = []" and "rl_ending s = None"
  shows "\<exists>s'. str_echo08 s = Ret () s' \<and> sent (snd s') = sent (snd s)"
proof -
  obtain x stored s' where rl: "readline MAXLINE s = (x, stored, s')" by (metis prod_cases3)
  then have "line_spec lib_eof (MAXLINE - 1) 1 [] [] None = (x, stored)" using readline_correct [OF assms(1) rl] assms(2,3) by simp
  moreover have "take_line k [] = ([], [])" for k by (cases k) auto
  moreover have "MAXLINE - 1 \<noteq> 0" by (simp add: MAXLINE_def)
  ultimately have "x = Inr 0" by (simp add: line_spec_def lib_eof_def Let_def)
  moreover have "same_tx (snd s) (snd s')" using rl readline_loop_tx [of s lib_eof "MAXLINE - 1" 1 "[]"] by (simp add: readline_def)
  ultimately show ?thesis using rl by (subst str_echo08.simps) (simp add: Readline_def bindP_def same_tx_def)
qed

lemma str_echo08_lines:
  assumes "\<forall>l \<in> set ls. text_line l" and "rl_wf s" and "rl_stream s = concat ls" and "rl_ending s = None" and "tx_live (tx (snd s))"
  shows "\<exists>s'. str_echo08 s = Ret () s' \<and> sent (snd s') = sent (snd s) @ concat (map reply08 ls)"
  using assms
proof (induction ls arbitrary: s)
  case Nil
  then show ?case using str_echo08_end [of s] by simp
next
  case (Cons l ls)
  have l: "text_line l" "l \<noteq> []" "last l = NL" using Cons.prems(1) by (simp_all add: text_line_def)
  have ne: "rl_stream s \<noteq> []" using Cons.prems(3) l(2) by simp
  obtain n s1 where n: "Readline MAXLINE s = Ret (n, l @ [NUL]) s1" "0 < n" "rl_wf s1" "same_tx (snd s) (snd s1)"
    "rl_stream s1 = concat ls" "rl_ending s1 = None"
    using Readline_line [OF Cons.prems(2) ne Cons.prems(4), of l "concat ls"] take_line_text_line [OF l(1), of "concat ls"] l Cons.prems(3)
    by (metis concat.simps(2))
  have "c_str (l @ [NUL]) = c_str l" unfolding c_str_def by (induction l) auto
  then have cs: "reply08 (l @ [NUL]) = reply08 l" by (simp add: reply08_def)
  have live: "tx_live (tx (snd s1))" using n(4) Cons.prems(5) by (simp add: same_tx_def)
  obtain d where d: "Writen (reply08 l) (snd s1) = Ret () d" "sent d = sent (snd s1) @ reply08 l" "rx d = rx (snd s1)" "fin d = fin (snd s1)" "tx_live (tx d)"
    using Writen_live [OF live] .
  have "str_echo08 s = str_echo08 (fst s1, d)"
    using n(1,2) d(1) cs by (subst str_echo08.simps) (simp add: on_sock_def zoom_def del: reply08_text)
  moreover have "rl_wf (fst s1, d)" "rl_stream (fst s1, d) = concat ls" "rl_ending (fst s1, d) = None"
    using n(3,5,6) d(3) by (simp_all add: rl_wf_def rl_stream_def rl_ending_def)
  ultimately show ?case
    using Cons.IH [of "(fst s1, d)"] Cons.prems(1) d n(4) by (auto simp: same_tx_def simp del: reply08_text)
qed

text \<open>The requests in a list of input lines, and what the client prints for a line.\<close>

definition line_pairs :: "string list \<Rightarrow> (64 word \<times> 64 word) list" where
  "line_pairs ls = List.map_filter (\<lambda>l. sscanf_ld_ld (c_str l)) ls"

definition answer09 :: "string \<Rightarrow> string" where
  "answer09 l = (case sscanf_ld_ld (c_str l) of None \<Rightarrow> ''invalid input: '' @ c_str l | Some p \<Rightarrow> sum_text p)"

lemma sc_ask_live:
  assumes "avail (rx (sc_sock w)) = result_bytes p @ rest" and "tx_live (tx (sc_sock w))" and "length (sc_result w) = 8"
  shows "\<exists>w'. sc_ask p w = Ret () w' \<and> sc_fp w' = sc_fp w \<and> length (sc_result w') = 8 \<and> sc_out w' = sc_out w @ sum_text p \<and>
    sent (sc_sock w') = sent (sc_sock w) @ args_bytes p \<and> avail (rx (sc_sock w')) = rest \<and> tx_live (tx (sc_sock w'))"
proof -
  obtain d1 where d1: "Writen (args_bytes p) (sc_sock w) = Ret () d1" "sent d1 = sent (sc_sock w) @ args_bytes p" "rx d1 = rx (sc_sock w)"
    "fin d1 = fin (sc_sock w)" "tx_live (tx d1)"
    using Writen_live [OF assms(2)] .
  have len: "length (result_bytes p) = 8" by (simp add: result_bytes_def)
  have full: "8 \<le> length (avail (rx d1))" using assms(1) d1(3) len by simp
  obtain d2 where d2: "readn 8 d1 = (Inr 8, take 8 (avail (rx d1)), d2)" "avail (rx d2) = drop 8 (avail (rx d1))"
    using readn_full [OF full] by metis
  have tx: "sent d2 = sent d1 \<and> tx d2 = tx d1" using readn_loop_spec [of 8 8 "[]" d1] d2(1) by (simp add: readn_def readn_post_def)
  have bytes: "take 8 (avail (rx d1)) = result_bytes p" using assms(1) d1(3) len by simp
  have bl: "blit (sc_result w) 0 (result_bytes p) = result_bytes p" using assms(3) len by (simp add: blit_def)
  have val: "le64 (result_bytes p) = fst p + snd p" using le64_bytes_inverse [of "fst p + snd p" "[]"] by (simp add: result_bytes_def)
  let ?w = "w\<lparr>sc_sock := d2, sc_result := result_bytes p, sc_out := sc_out w @ sum_text p\<rparr>"
  have "sc_ask p w = Ret () ?w"
    using d1(1) d2(1) bytes bl val by (simp add: sc_ask_def zoom_def bindP_def Readn_def Let_def sc_print_def sum_text_def)
  then show ?thesis using len d1 d2(2) tx assms(1) by (intro exI [of _ ?w]) simp
qed

lemma str_cli09_lines:
  assumes "\<forall>l \<in> set ls. text_line l" and "f_data (sc_fp w) = concat ls" and "f_error (sc_fp w) = None"
    and "avail (rx (sc_sock w)) = concat (map result_bytes (line_pairs ls))" and "tx_live (tx (sc_sock w))" and "length (sc_result w) = 8"
  shows "\<exists>w'. str_cli09 w = Ret () w' \<and> sc_out w' = sc_out w @ concat (map answer09 ls) \<and>
    sent (sc_sock w') = sent (sc_sock w) @ concat (map args_bytes (line_pairs ls))"
  using assms
proof (induction ls arbitrary: w)
  case Nil
  then show ?case
    by (subst str_cli09.simps) (simp add: sc_fgets_def zoom_def Fgets_def fgets_def bindP_def line_pairs_def split: prod.splits)
next
  case (Cons l ls)
  have l: "text_line l" "l \<noteq> []" using Cons.prems(1) by (simp_all add: text_line_def)
  let ?w1 = "w\<lparr>sc_fp := (sc_fp w)\<lparr>f_data := concat ls\<rparr>\<rparr>"
  have g: "sc_fgets w = Ret (Some l) ?w1"
    using take_line_text_line [OF l(1), of "concat ls"] Cons.prems(2,3) l(2) by (simp add: sc_fgets_def zoom_def Fgets_def fgets_def)
  show ?case
  proof (cases "sscanf_ld_ld (c_str l)")
    case None
    have "str_cli09 w = str_cli09 (sc_print (''invalid input: '' @ c_str l) ?w1)"
      using g None by (subst str_cli09.simps) simp
    moreover have "line_pairs (l # ls) = line_pairs ls" using None by (simp add: line_pairs_def map_filter_simps)
    ultimately show ?thesis
      using Cons.IH [of "sc_print (''invalid input: '' @ c_str l) ?w1"] Cons.prems None by (simp add: sc_print_def answer09_def)
  next
    case (Some p)
    have lp: "line_pairs (l # ls) = p # line_pairs ls" using Some by (simp add: line_pairs_def map_filter_simps)
    obtain w2 where w2: "sc_ask p ?w1 = Ret () w2" "sc_fp w2 = sc_fp ?w1" "length (sc_result w2) = 8" "sc_out w2 = sc_out w @ sum_text p"
      "sent (sc_sock w2) = sent (sc_sock w) @ args_bytes p" "avail (rx (sc_sock w2)) = concat (map result_bytes (line_pairs ls))" "tx_live (tx (sc_sock w2))"
      using sc_ask_live [of ?w1 p "concat (map result_bytes (line_pairs ls))"] Cons.prems(4-6) lp by auto
    have "str_cli09 w = str_cli09 w2" using g Some w2(1) by (subst str_cli09.simps) simp
    then show ?thesis using Cons.IH [of w2] Cons.prems(1,3) w2 lp Some by (simp add: answer09_def)
  qed
qed

section \<open>Property\<close>

text \<open>
  C37. The two ways to have numbers added agree. For input lines that fit their buffers, however the connections cut the bytes: the text server answers
  each line, and returns at the end; the client of the binary server and that server, each reading what the other sends, both end, and the client has printed one
  answer per line, in order, without ever waiting for an answer to a line that it refused; for a line with two numbers it is the very text of the text server, and
  for two decimal numbers in the range of a \<^verbatim>\<open>long\<close> whose sum is in that range it is the decimal sum.
\<close>

theorem sum_services_agree:
  assumes "\<forall>l \<in> set ls. text_line l"
    and "avail (rx t) = concat ls" and "stream_end (rx t) = None" and "tx_live (tx t)"
    and "f_data (sc_fp w) = concat ls" and "f_error (sc_fp w) = None" and "tx_live (tx (sc_sock w))" and "length (sc_result w) = 8" and "sent (sc_sock w) = []"
    and "length args = 16" and "avail (rx d) = concat (map args_bytes (line_pairs ls))" and "stream_end (rx d) = None" and "tx_live (tx d)" and "sent d = []"
    and "str_echo09 args d = Ret () d'" and "avail (rx (sc_sock w)) = sent d'"
  shows "(\<exists>t'. str_echo08 (rl_init, t) = Ret () t' \<and> sent (snd t') = sent t @ concat (map reply08 ls)) \<and>
    (\<exists>w'. str_cli09 w = Ret () w' \<and> sc_out w' = sc_out w @ concat (map answer09 ls) \<and> sent (sc_sock w') = avail (rx d)) \<and>
    (\<forall>l p. sscanf_ld_ld (c_str l) = Some p \<longrightarrow> answer09 l = reply08 l) \<and>
    (\<forall>a b. - (2 ^ 63) \<le> a \<longrightarrow> a < 2 ^ 63 \<longrightarrow> - (2 ^ 63) \<le> b \<longrightarrow> b < 2 ^ 63 \<longrightarrow> - (2 ^ 63) \<le> a + b \<longrightarrow> a + b < 2 ^ 63 \<longrightarrow>
       answer09 (dec_int a @ CHR '' '' # dec_int b @ [NL]) = dec_int (a + b) @ [NL])"
proof (intro conjI allI impI)
  show "\<exists>t'. str_echo08 (rl_init, t) = Ret () t' \<and> sent (snd t') = sent t @ concat (map reply08 ls)"
    using str_echo08_lines [of ls "(rl_init, t)"] assms(1-4) by (simp add: rl_ending_def del: reply08_text)
  have "sent d' = concat (map result_bytes (line_pairs ls))"
    using str_echo09_sums [OF assms(10-13)] assms(14,15) by auto
  then show "\<exists>w'. str_cli09 w = Ret () w' \<and> sc_out w' = sc_out w @ concat (map answer09 ls) \<and> sent (sc_sock w') = avail (rx d)"
    using str_cli09_lines [OF assms(1,5,6) _ assms(7,8)] assms(9,11,16) by simp
next
  fix l p assume "sscanf_ld_ld (c_str l) = Some p"
  then show "answer09 l = reply08 l" by (simp add: answer09_def)
next
  fix a b :: int
  assume r: "- (2 ^ 63) \<le> a" "a < 2 ^ 63" "- (2 ^ 63) \<le> b" "b < 2 ^ 63" "- (2 ^ 63) \<le> a + b" "a + b < 2 ^ 63"
  let ?l = "dec_int a @ CHR '' '' # dec_int b @ [NL]"
  have "NUL \<notin> set (dec_int x)" for x using set_dec_nat [of "nat (- x)"] set_dec_nat [of "nat x"] by (auto simp: dec_int_def digit_chars_def)
  then have "sscanf_ld_ld (c_str ?l) = Some (word_of_int a, word_of_int b)" using sscanf_dec [OF r(1-4)] by simp
  moreover have "sint (word_of_int a + word_of_int b :: 64 word) = a + b"
    using r(5,6) int_word_sint [of "a + b", where ?'a = 64] by (simp flip: of_int_add)
  ultimately show "answer09 ?l = dec_int (a + b) @ [NL]" by (simp add: answer09_def sum_text_def)
qed

theorem sum_services_agree_witness:
  "let ls = [''1 2'' @ [NL], ''one'' @ [NL]]; t = fresh_sock [Chunk ''1'', RxErr EINTR, Chunk ('' 2'' @ [NL] @ ''one'' @ [NL])] [];
       d = fresh_sock [Chunk (args_bytes (1, 2))] []; w = \<lparr>sc_fp = \<lparr>f_data = concat ls, f_error = None\<rparr>, sc_sock = fresh_sock [Chunk (result_bytes (1, 2))] [], sc_out = [], sc_result = replicate 8 NUL\<rparr>
   in (\<exists>t'. str_echo08 (rl_init, t) = Ret () t' \<and> sent (snd t') = sent t @ concat (map reply08 ls)) \<and>
      (\<exists>w'. str_cli09 w = Ret () w' \<and> sc_out w' = sc_out w @ concat (map answer09 ls))"
proof -
  let ?ls = "[''1 2'' @ [NL], ''one'' @ [NL]]"
  let ?t = "fresh_sock [Chunk ''1'', RxErr EINTR, Chunk ('' 2'' @ [NL] @ ''one'' @ [NL])] []"
  let ?d = "fresh_sock [Chunk (args_bytes (1, 2))] []"
  let ?w = "\<lparr>sc_fp = \<lparr>f_data = concat ?ls, f_error = None\<rparr>, sc_sock = fresh_sock [Chunk (result_bytes (1, 2))] [], sc_out = [], sc_result = replicate 8 NUL\<rparr>"
  have lines: "\<forall>l \<in> set ?ls. text_line l" by (simp add: text_line_def MAXLINE_def)
  have one: "sscanf_ld_ld (c_str (''1 2'' @ [NL])) = Some (1, 2)"
    by (simp add: sscanf_ld_ld_def scan_ld_def scan_sign_def is_space_def digits_val_def digit_chars_def c_str_def)
  have two: "sscanf_ld_ld (c_str (''one'' @ [NL])) = None"
    by (simp add: sscanf_ld_ld_def scan_ld_def scan_sign_def is_space_def digit_chars_def c_str_def)
  have lp: "line_pairs ?ls = [(1, 2)]" using one two by (simp add: line_pairs_def map_filter_simps)
  have ne: "args_bytes p \<noteq> []" "result_bytes p \<noteq> []" for p
    by (metis length_le64_bytes list.size(3) zero_neq_numeral args_bytes_def append_is_Nil_conv, metis length_le64_bytes list.size(3) zero_neq_numeral result_bytes_def)
  obtain d' where d': "str_echo09 (replicate 16 NUL) ?d = Ret () d'" "sent d' = result_bytes (1, 2)"
    using str_echo09_sums [of "replicate 16 NUL" ?d "[(1, 2)]"] ne by (auto simp: fresh_sock_def tx_live_def)
  have "(\<exists>t'. str_echo08 (rl_init, ?t) = Ret () t' \<and> sent (snd t') = sent ?t @ concat (map reply08 ?ls)) \<and>
      (\<exists>w'. str_cli09 ?w = Ret () w' \<and> sc_out w' = sc_out ?w @ concat (map answer09 ?ls) \<and> sent (sc_sock w') = avail (rx ?d)) \<and>
    (\<forall>l p. sscanf_ld_ld (c_str l) = Some p \<longrightarrow> answer09 l = reply08 l) \<and>
    (\<forall>a b. - (2 ^ 63) \<le> a \<longrightarrow> a < 2 ^ 63 \<longrightarrow> - (2 ^ 63) \<le> b \<longrightarrow> b < 2 ^ 63 \<longrightarrow> - (2 ^ 63) \<le> a + b \<longrightarrow> a + b < 2 ^ 63 \<longrightarrow>
       answer09 (dec_int a @ CHR '' '' # dec_int b @ [NL]) = dec_int (a + b) @ [NL])"
    by (rule sum_services_agree [OF lines, where args = "replicate 16 NUL" and d' = d']) (use d' lp ne in \<open>simp_all add: fresh_sock_def tx_live_def\<close>)
  then show ?thesis unfolding Let_def by blast
qed

end
