(* ===== verification/Daytime.thy ===== *)
theory Daytime
  imports Net_Open Echo
begin

text \<open>
  The daytime programs of \<^verbatim>\<open>2_basic_socket.c\<close>: three TCP servers and a UDP server that send the time as text, and their clients, which take the first address of
  a name that accepts a connection, and print what comes. Also \<^verbatim>\<open>hostent\<close>, which prints what the resolver says of a name, and \<^verbatim>\<open>byte_order\<close>. Calls that
  open sockets go through the kernel of \<open>Net_Open\<close>; the turns of a server are a list, each with the answers of the kernel in that turn.
\<close>

section \<open>Byte order\<close>

text \<open>\<open>un\<close> is the array \<^verbatim>\<open>un.c\<close> after \<^verbatim>\<open>un.s = 0x0102\<close>, of \<^verbatim>\<open>sizeof(short)\<close> bytes.\<close>

definition byte_order :: "string \<Rightarrow> byte list \<Rightarrow> string" where
  "byte_order vendor un =
     vendor @ '': '' @
     (if length un = 2
      then (if un ! 0 = 1 \<and> un ! 1 = 2 then ''big-endian'' @ [NL] else if un ! 0 = 2 \<and> un ! 1 = 1 then ''little-endian'' @ [NL] else ''unknown'' @ [NL])
      else ''sizeof(short) = '' @ dec_nat (length un) @ [NL])"

section \<open>The servers\<close>

record dayw =
  dy_tr :: trace
  dy_out :: string
  dy_log :: "string list"
  dy_sent :: "(int \<times> string) list"
  dy_open :: "int list"

definition on_net :: "('a, trace) prog \<Rightarrow> ('a, dayw) prog" where
  "on_net = zoom dy_tr (\<lambda>x. dy_tr_update (\<lambda>_. x))"

definition dy_print :: "string \<Rightarrow> (unit, dayw) prog" where
  "dy_print t w = Ret () (w\<lparr>dy_out := dy_out w @ t\<rparr>)"

text \<open>The answers of one turn: \<^verbatim>\<open>Accept\<close> with the address of the client, \<^verbatim>\<open>ctime\<close>, \<^verbatim>\<open>write\<close> and \<^verbatim>\<open>close\<close>.\<close>

record dturn =
  dt_accept :: "errno + int \<times> sockaddr \<times> nat"
  dt_ctime :: string
  dt_write :: "int \<times> errno"
  dt_close :: "int \<times> errno"

definition dy_accept :: "dturn \<Rightarrow> (int \<times> sockaddr \<times> nat, dayw) prog" where
  "dy_accept t w =
     (case dt_accept t of
        Inl e \<Rightarrow> Die (Err_sys ''accept error'' (Some e)) w
      | Inr c \<Rightarrow> Ret c (w\<lparr>dy_open := fst c # dy_open w\<rparr>))"

definition dy_write :: "dturn \<Rightarrow> int \<Rightarrow> string \<Rightarrow> (unit, dayw) prog" where
  "dy_write t fd buff =
     Write (\<lambda>f b n w. (dt_write t, if fst (dt_write t) < 0 then w else w\<lparr>dy_sent := dy_sent w @ [(f, take (nat (fst (dt_write t))) b)]\<rparr>)) fd buff (length buff)"

definition dy_close :: "dturn \<Rightarrow> int \<Rightarrow> (unit, dayw) prog" where
  "dy_close t fd = Close (\<lambda>f w. (dt_close t, w\<lparr>dy_open := remove1 f (dy_open w)\<rparr>)) fd"

text \<open>A turn, given the line about the connection and what precedes the time.\<close>

definition day_turn :: "(sockaddr \<Rightarrow> nat \<Rightarrow> (string, dayw) prog) \<Rightarrow> string \<Rightarrow> dturn \<Rightarrow> (unit, dayw) prog" where
  "day_turn line pre t =
     bindP (dy_accept t) (\<lambda>(connfd, cliaddr, len).
     bindP (line cliaddr len) (\<lambda>txt.
     bindP (dy_print (''connection from '' @ txt @ [NL])) (\<lambda>_.
     bindP (dy_write t connfd (snprintf_str MAXLINE (pre @ take 24 (dt_ctime t) @ [CR, NL]))) (\<lambda>_.
     dy_close t connfd))))"

fun day_serve :: "(dturn \<Rightarrow> (unit, dayw) prog) \<Rightarrow> dturn list \<Rightarrow> (unit, dayw) prog" where
  "day_serve turn [] w = Blocked w"
| "day_serve turn (t # ts) w = bindP (turn t) (\<lambda>_. day_serve turn ts) w"

definition inet_line :: "ntop \<Rightarrow> sockaddr \<Rightarrow> nat \<Rightarrow> (string, dayw) prog" where
  "inet_line ntop sa len =
     (case sa of
        Sockaddr_in port a \<Rightarrow> bindP (Inet_ntop ntop AF_INET a True MAXLINE) (\<lambda>h. returnP (h @ '', port '' @ dec_nat (unat (ntohs port))))
      | _ \<Rightarrow> returnP [])"

definition SERV_PORT :: "16 word" where "SERV_PORT = 9877"

definition any_addr :: addrinfo where
  "any_addr = \<lparr>ai_family = AF_INET, ai_socktype = SOCK_STREAM, ai_protocol = 0, ai_addr = Sockaddr_in (ntohs SERV_PORT) [0, 0, 0, 0], ai_addrlen = 16\<rparr>"

definition net_socket :: "kernel \<Rightarrow> addrinfo \<Rightarrow> (int, dayw) prog" where
  "net_socket K ai = on_net (Socket (\<lambda>family type protocol. sys_socket K ai) (ai_family ai) (ai_socktype ai) (0 :: int))"

definition net_listen_any :: "int option \<Rightarrow> kernel \<Rightarrow> (int, dayw) prog" where
  "net_listen_any listenq K =
     bindP (net_socket K any_addr) (\<lambda>listenfd.
     bindP (on_net (Bind (\<lambda>fd addr len. sys_bind K fd any_addr) listenfd (ai_addr any_addr) (16 :: nat))) (\<lambda>_.
     bindP (on_net (Listen listenq (sys_listen K) listenfd LISTENQ)) (\<lambda>_. returnP listenfd)))"

definition daytime_tcp_srv1 :: "ntop \<Rightarrow> int option \<Rightarrow> kernel \<Rightarrow> dturn list \<Rightarrow> (unit, dayw) prog" where
  "daytime_tcp_srv1 ntop listenq K ts =
     bindP (net_listen_any listenq K) (\<lambda>_. day_serve (day_turn (inet_line ntop) ''daytime_tcp_srv: '') ts)"

definition daytimetcpsrv2 :: "ntop \<Rightarrow> resolver \<Rightarrow> (nat \<Rightarrow> string) \<Rightarrow> int option \<Rightarrow> kernel \<Rightarrow> string option \<Rightarrow> string \<Rightarrow> dturn list \<Rightarrow> (unit, dayw) prog" where
  "daytimetcpsrv2 ntop gai gse listenq K hostname servname ts =
     bindP (on_net (Tcp_listen gai gse listenq K hostname servname)) (\<lambda>_. day_serve (day_turn (Sock_ntop ntop) []) ts)"

definition daytimetcpsrv1 :: "ntop \<Rightarrow> resolver \<Rightarrow> (nat \<Rightarrow> string) \<Rightarrow> int option \<Rightarrow> kernel \<Rightarrow> string \<Rightarrow> dturn list \<Rightarrow> (unit, dayw) prog" where
  "daytimetcpsrv1 ntop gai gse listenq K servname ts =
     bindP (on_net (Tcp_listen gai gse listenq K None servname)) (\<lambda>_. day_serve (day_turn (Sock_ntop ntop) []) ts)"

text \<open>The UDP server. It passes its names to \<^verbatim>\<open>Udp_server\<close> in the wrong order. A turn has the datagram and where it came from in place of a connection.\<close>

record uturn =
  ut_recv :: "errno + string \<times> sockaddr \<times> nat"
  ut_ctime :: string
  ut_sendto :: "int \<times> errno"

definition udp_turn :: "ntop \<Rightarrow> int \<Rightarrow> uturn \<Rightarrow> (unit, dayw) prog" where
  "udp_turn ntop sockfd t w =
     (case ut_recv t of
        Inl e \<Rightarrow> Die (Err_sys ''recvfrom error'' (Some e)) w
      | Inr (data, cliaddr, len) \<Rightarrow>
          bindP (Sock_ntop ntop cliaddr len) (\<lambda>txt.
          bindP (dy_print (dec_nat (length data) @ '' datagrams from '' @ txt @ [NL])) (\<lambda>_.
          let buff = snprintf_str MAXLINE (take 24 (ut_ctime t) @ [CR, NL])
          in Sendto (\<lambda>fd b n flags sa sl w. (ut_sendto t, if fst (ut_sendto t) < 0 then w else w\<lparr>dy_sent := dy_sent w @ [(fd, b)]\<rparr>))
               sockfd buff (length buff) (0 :: int) cliaddr len)) w)"

fun udp_serve :: "ntop \<Rightarrow> int \<Rightarrow> uturn list \<Rightarrow> (unit, dayw) prog" where
  "udp_serve ntop sockfd [] w = Blocked w"
| "udp_serve ntop sockfd (t # ts) w = bindP (udp_turn ntop sockfd t) (\<lambda>_. udp_serve ntop sockfd ts) w"

definition daytimeudpsrv2 :: "ntop \<Rightarrow> resolver \<Rightarrow> (nat \<Rightarrow> string) \<Rightarrow> kernel \<Rightarrow> string option \<Rightarrow> string \<Rightarrow> uturn list \<Rightarrow> (unit, dayw) prog" where
  "daytimeudpsrv2 ntop gai gse K hostname servname ts =
     bindP (on_net (Udp_server gai gse K (Some servname) (c_arg hostname))) (\<lambda>(sockfd, _). udp_serve ntop sockfd ts)"

section \<open>The clients\<close>

text \<open>\<^verbatim>\<open>while ( (n = Read(\<dots>)) > 0) { recvline[n] = 0; Fputs(\<dots>); }\<close>\<close>

function copy_out :: "sockd \<Rightarrow> (unit, dayw) prog" where
  "copy_out d w =
     (case read_sock MAXLINE d of
        (Inl e, d') \<Rightarrow> Die (Err_sys ''read error'' (Some e)) w
      | (Inr bs, d') \<Rightarrow> if bs = [] then Ret () w else copy_out d' (w\<lparr>dy_out := dy_out w @ c_str bs\<rparr>))"
  by pat_completeness auto
termination
  by (relation "measure (\<lambda>(d, w). rx_size (rx d))") (auto dest: read_sock_size [OF sym])

declare copy_out.simps [simp del]

text \<open>\<open>peer\<close> is what the server will send on each descriptor, and the address that \<^verbatim>\<open>getpeername\<close> gives.\<close>

definition daytimetcpcli :: "ntop \<Rightarrow> resolver \<Rightarrow> (nat \<Rightarrow> string) \<Rightarrow> kernel \<Rightarrow> (int \<Rightarrow> sockd) \<Rightarrow> (int \<Rightarrow> errno + sockaddr \<times> nat) \<Rightarrow> string option \<Rightarrow> string \<Rightarrow> (unit, dayw) prog" where
  "daytimetcpcli ntop gai gse K peer peername hostname servname =
     bindP (on_net (Tcp_connect gai gse K hostname servname)) (\<lambda>sockfd w.
       case peername sockfd of
         Inl e \<Rightarrow> Die (Err_sys ''getpeername error'' (Some e)) w
       | Inr (sa, len) \<Rightarrow>
           bindP (Sock_ntop_host ntop sa len) (\<lambda>txt. bindP (dy_print (''connected to '' @ txt @ [NL])) (\<lambda>_. copy_out (peer sockfd))) w)"

text \<open>\<^verbatim>\<open>daytimetcpcli1\<close>: the loop over the addresses of \<^verbatim>\<open>gethostbyname\<close>, or the one that \<^verbatim>\<open>inet_aton\<close> makes of the name.\<close>

definition in_addr_ai :: "16 word \<Rightarrow> byte list \<Rightarrow> addrinfo" where
  "in_addr_ai port a = \<lparr>ai_family = AF_INET, ai_socktype = SOCK_STREAM, ai_protocol = 0, ai_addr = Sockaddr_in port a, ai_addrlen = 16\<rparr>"

fun try_addrs :: "ntop \<Rightarrow> kernel \<Rightarrow> 16 word \<Rightarrow> byte list list \<Rightarrow> (int option, dayw) prog" where
  "try_addrs ntop K port [] w = Ret None w"
| "try_addrs ntop K port (a # as) w =
     bindP (net_socket K (in_addr_ai port a)) (\<lambda>sockfd.
     bindP (Sock_ntop ntop (Sockaddr_in port a) 16) (\<lambda>txt.
     bindP (dy_print (''trying '' @ txt @ [NL])) (\<lambda>_.
     bindP (on_net (try_connect K sockfd (in_addr_ai port a))) (\<lambda>(n, e) w1.
       if n = 0 then Ret (Some sockfd) w1
       else bindP (on_net (\<lambda>tr. Ret () (snd (sys_close K sockfd tr)))) (\<lambda>_. try_addrs ntop K port as)
              (w1\<lparr>dy_log := dy_log w1 @ [''connect error'']\<rparr>))))) w"

definition daytimetcpcli1 :: "ntop \<Rightarrow> (string \<Rightarrow> string + byte list list) \<Rightarrow> (string \<Rightarrow> 16 word option) \<Rightarrow> kernel \<Rightarrow> (int \<Rightarrow> sockd) \<Rightarrow>
    string \<Rightarrow> string \<Rightarrow> (unit, dayw) prog" where
  "daytimetcpcli1 ntop gethostbyname getservbyname K peer hostname servname w =
     (case (case gethostbyname hostname of
              Inr as \<Rightarrow> Inr as
            | Inl err \<Rightarrow> (case inet_aton hostname of
                           None \<Rightarrow> Inl (Err_quit (''hostname error for '' @ hostname @ '': '' @ err))
                         | Some a \<Rightarrow> Inr [a])) of
        Inl f \<Rightarrow> Die f w
      | Inr as \<Rightarrow>
          (case getservbyname servname of
             None \<Rightarrow> Die (Err_quit (''getservbyname error for '' @ servname)) w
           | Some port \<Rightarrow>
               bindP (try_addrs ntop K port as) (\<lambda>r.
                 case r of None \<Rightarrow> dieP (Err_quit ''unable to connect'') | Some sockfd \<Rightarrow> copy_out (peer sockfd)) w))"

text \<open>\<open>sendto\<close> and \<open>reply\<close> are the results of the two calls.\<close>

definition daytimeudpcli1 :: "ntop \<Rightarrow> resolver \<Rightarrow> (nat \<Rightarrow> string) \<Rightarrow> kernel \<Rightarrow> int \<times> errno \<Rightarrow> errno + string \<Rightarrow> string option \<Rightarrow> string \<Rightarrow> (unit, dayw) prog" where
  "daytimeudpcli1 ntop gai gse K sendto reply hostname servname =
     bindP (on_net (Udp_client gai gse K hostname servname)) (\<lambda>(sockfd, sa, salen).
     bindP (Sock_ntop_host ntop sa salen) (\<lambda>txt.
     bindP (dy_print (''sending to '' @ txt @ [NL])) (\<lambda>_.
     bindP (Sendto (\<lambda>fd b n flags to tolen w. (sendto, if fst sendto < 0 then w else w\<lparr>dy_sent := dy_sent w @ [(fd, b)]\<rparr>)) sockfd '' '' 1 (0 :: int) sa salen) (\<lambda>_ w.
       case reply of
         Inl e \<Rightarrow> Die (Err_sys ''recvfrom error'' (Some e)) w
       | Inr data \<Rightarrow> dy_print (c_str (take MAXLINE data)) w))))"

section \<open>\<open>hostent\<close>\<close>

record hostentry =
  h_name :: string
  h_aliases :: "string list"
  h_inet :: bool
  h_addr_list :: "byte list list"

text \<open>The loop over the aliases prints a tab for each, and not the alias.\<close>

fun addr_lines :: "ntop \<Rightarrow> byte list list \<Rightarrow> (unit, dayw) prog" where
  "addr_lines ntop [] w = Ret () w"
| "addr_lines ntop (a # as) w =
     bindP (Inet_ntop ntop AF_INET a True 16) (\<lambda>s. bindP (dy_print (CHR 0x09 # ''address: '' @ s @ [NL])) (\<lambda>_. addr_lines ntop as)) w"

definition hostent_print :: "ntop \<Rightarrow> (string \<Rightarrow> string + hostentry) \<Rightarrow> string option \<Rightarrow> (int, dayw) prog" where
  "hostent_print ntop gethostbyname host w =
     (case host of
        None \<Rightarrow> Ret 0 w
      | Some h \<Rightarrow>
          if h = [] then Ret 0 w
          else (case gethostbyname h of
                  Inl err \<Rightarrow> Ret (-1) (w\<lparr>dy_log := dy_log w @ [''gethostbyname error for host: '' @ h @ '': '' @ err]\<rparr>)
                | Inr hp \<Rightarrow>
                    bindP (dy_print (''official hostname: '' @ h_name hp @ [NL] @ map (\<lambda>_. CHR 0x09) (h_aliases hp))) (\<lambda>_.
                    bindP (if h_inet hp then addr_lines ntop (h_addr_list hp)
                           else (\<lambda>w. Ret () (w\<lparr>dy_log := dy_log w @ [''unknown address type'']\<rparr>))) (\<lambda>_. returnP 0)) w))"

section \<open>What the server sends\<close>

definition day_text :: "string \<Rightarrow> dturn \<Rightarrow> string" where
  "day_text pre t = snprintf_str MAXLINE (pre @ take 24 (dt_ctime t) @ [CR, NL])"

definition turn_good :: "string \<Rightarrow> dturn \<Rightarrow> bool" where
  "turn_good pre t \<longleftrightarrow> (\<exists>c. dt_accept t = Inr c) \<and> fst (dt_write t) = int (length (day_text pre t)) \<and> fst (dt_close t) \<noteq> -1"

definition turn_conn :: "dturn \<Rightarrow> int \<times> sockaddr \<times> nat" where
  "turn_conn t = (case dt_accept t of Inr c \<Rightarrow> c | Inl e \<Rightarrow> undefined)"

definition turn_line :: "(sockaddr \<Rightarrow> nat \<Rightarrow> string) \<Rightarrow> dturn \<Rightarrow> string" where
  "turn_line txt t = ''connection from '' @ txt (fst (snd (turn_conn t))) (snd (snd (turn_conn t))) @ [NL]"

lemma day_turn_good:
  assumes "turn_good pre t" and "\<And>sa len v. line sa len v = Ret (txt sa len) v"
  shows "day_turn line pre t w = Ret () (w\<lparr>dy_out := dy_out w @ turn_line txt t, dy_sent := dy_sent w @ [(fst (turn_conn t), day_text pre t)]\<rparr>)"
proof -
  obtain fd sa len where c: "dt_accept t = Inr (fd, sa, len)" using assms(1) by (auto simp: turn_good_def)
  obtain e1 where wr: "dt_write t = (int (length (day_text pre t)), e1)" using assms(1) by (cases "dt_write t") (simp add: turn_good_def)
  obtain n2 e2 where cl: "dt_close t = (n2, e2)" "n2 \<noteq> -1" using assms(1) by (cases "dt_close t") (simp add: turn_good_def)
  show ?thesis
    unfolding day_turn_def day_text_def [symmetric]
    using wr cl by (simp add: bindP_def dy_accept_def c assms(2) dy_print_def dy_write_def Write_def Close_def fail_short_def fail_m1_def void_def returnP_def
        dy_close_def turn_line_def turn_conn_def split: prod.splits)
qed

lemma day_serve_good:
  assumes "list_all (turn_good pre) ts" and "\<And>sa len v. line sa len v = Ret (txt sa len) v"
  shows "day_serve (day_turn line pre) ts w =
    Blocked (w\<lparr>dy_out := dy_out w @ concat (map (turn_line txt) ts), dy_sent := dy_sent w @ map (\<lambda>t. (fst (turn_conn t), day_text pre t)) ts\<rparr>)"
  using assms(1) by (induction ts arbitrary: w) (simp_all add: day_turn_good [OF _ assms(2)])

section \<open>What the clients print\<close>

lemma copy_out_prints:
  assumes "no_intr (rx d)" and "NUL \<notin> set (avail (rx d))"
  shows "copy_out d w = (case stream_end (rx d) of None \<Rightarrow> Ret () | Some e \<Rightarrow> Die (Err_sys ''read error'' (Some e))) (w\<lparr>dy_out := dy_out w @ avail (rx d)\<rparr>)"
  using assms
proof (induction d w rule: copy_out.induct)
  case (1 d w)
  show ?case
  proof (cases MAXLINE d rule: read_sock_cases)
    case (intr d')
    then show ?thesis using read_sock_intr(4) "1.prems"(1) by blast
  next
    case (err e d')
    then show ?thesis using read_sock_err [OF err] by (simp add: copy_out.simps [of d])
  next
    case (eof d')
    then show ?thesis using read_sock_eof [OF eof] by (simp add: copy_out.simps [of d] MAXLINE_def)
  next
    case (data bs d')
    note rd = read_sock_data [OF data]
    have "NUL \<notin> set bs" "NUL \<notin> set (avail (rx d'))" using "1.prems"(2) rd(1) by auto
    then show ?thesis
      using "1.IH" [OF data(1) [symmetric] refl data(2)] data rd(1,2) rd(5) [OF "1.prems"(1)] by (simp add: copy_out.simps [of d])
  qed
qed

text \<open>The loop of \<^verbatim>\<open>daytimetcpcli1\<close>: the first address that accepts, and no other socket left open.\<close>

definition trying :: "ntop \<Rightarrow> 16 word \<Rightarrow> byte list \<Rightarrow> string" where
  "trying ntop port a = ''trying '' @ (case sock_ntop ntop (Sockaddr_in port a) 16 of Inr s \<Rightarrow> s | Inl e \<Rightarrow> []) @ [NL]"

lemma net_socket_Ret: "net_socket K ai w = Ret fd w' \<longleftrightarrow> (\<exists>e. k_socket K (dy_tr w) ai = (fd, e) \<and> 0 \<le> fd \<and> w' = w\<lparr>dy_tr := dy_tr w @ [Op_socket ai fd]\<rparr>)"
  by (auto simp: net_socket_def on_net_def zoom_def Socket_def fail_neg_def sys_socket_def Let_def split: prod.splits outcome.splits if_splits)

lemma try_addrs_first:
  assumes "try_addrs ntop K port as w = Ret r w'"
  shows "\<exists>mid k. \<not> (\<exists>f a. Op_connect f a 0 \<in> set mid) \<and> opened mid = closed mid \<and>
    (case r of
       None \<Rightarrow> k = length as \<and> dy_tr w' = dy_tr w @ mid
     | Some fd \<Rightarrow> k < length as \<and> 0 \<le> fd \<and> dy_tr w' = dy_tr w @ mid @ [Op_socket (in_addr_ai port (as ! k)) fd, Op_connect fd (in_addr_ai port (as ! k)) 0]) \<and>
    dy_out w' = dy_out w @ concat (map (trying ntop port) (take (Suc k) as))"
  using assms
proof (induction as arbitrary: w)
  case Nil
  then show ?case by (intro exI [of _ "[]"] exI [of _ 0]) simp
next
  case (Cons a as)
  let ?ai = "in_addr_ai port a"
  from Cons.prems obtain fd host where s: "0 \<le> fd" "sock_ntop ntop (Sockaddr_in port a) 16 = Inr host"
    and c: "bindP (on_net (try_connect K fd ?ai)) (\<lambda>(n, e) w1.
       if n = 0 then Ret (Some fd) w1
       else bindP (on_net (\<lambda>tr. Ret () (snd (sys_close K fd tr)))) (\<lambda>_. try_addrs ntop K port as)
              (w1\<lparr>dy_log := dy_log w1 @ [''connect error'']\<rparr>)) (w\<lparr>dy_tr := dy_tr w @ [Op_socket ?ai fd], dy_out := dy_out w @ trying ntop port a\<rparr>) = Ret r w'"
    by (auto simp: net_socket_Ret dy_print_def Sock_ntop_def trying_def split: sum.splits elim!: bindP_RetE)
  obtain n e where k: "k_connect K (dy_tr w @ [Op_socket ?ai fd]) fd ?ai = (n, e)" by fastforce
  let ?tr = "dy_tr w @ [Op_socket ?ai fd, Op_connect fd ?ai n]"
  show ?case
  proof (cases "n = 0")
    case True
    with c k have "r = Some fd" "dy_tr w' = ?tr" "dy_out w' = dy_out w @ trying ntop port a"
      by (auto simp: on_net_def zoom_def try_connect_def sys_connect_def bindP_def)
    with True s show ?thesis by (intro exI [of _ "[]"] exI [of _ 0]) simp
  next
    case False
    define c1 where "c1 = fst (k_close K ?tr fd)"
    define w2 where "w2 = w\<lparr>dy_out := dy_out w @ trying ntop port a, dy_log := dy_log w @ [''connect error''], dy_tr := ?tr @ [Op_close fd c1]\<rparr>"
    have w2: "dy_tr w2 = ?tr @ [Op_close fd c1]" "dy_out w2 = dy_out w @ trying ntop port a" by (simp_all add: w2_def)
    have "try_addrs ntop K port as w2 = Ret r w'"
      using c k False by (simp add: on_net_def zoom_def try_connect_def sys_connect_def sys_close_def bindP_def Let_def c1_def w2_def)
    from Cons.IH [OF this] obtain mid j where m: "\<not> (\<exists>f a. Op_connect f a 0 \<in> set mid)" "opened mid = closed mid"
      "case r of None \<Rightarrow> j = length as \<and> dy_tr w' = dy_tr w2 @ mid
       | Some f \<Rightarrow> j < length as \<and> 0 \<le> f \<and> dy_tr w' = dy_tr w2 @ mid @ [Op_socket (in_addr_ai port (as ! j)) f, Op_connect f (in_addr_ai port (as ! j)) 0]"
      "dy_out w' = dy_out w2 @ concat (map (trying ntop port) (take (Suc j) as))"
      by blast
    show ?thesis
      by (rule exI [of _ "[Op_socket ?ai fd, Op_connect fd ?ai n, Op_close fd c1] @ mid"], rule exI [of _ "Suc j"])
        (use m w2 s False in \<open>auto split: option.splits\<close>)
  qed
qed

section \<open>Property\<close>

text \<open>
  C38. A daytime server whose calls succeed sends each client the first 24 characters of the time and an end of line, and leaves no connection open. \<^verbatim>\<open>daytimetcpcli1\<close>,
  when it returns, has connected to the first address of the name that accepts (every socket it created before is closed), and has printed the addresses tried and then
  exactly what such a server sent, however it was cut into segments; a lost connection is an error, and a name that is no name but an address in numbers is tried as one.
\<close>

theorem daytime_exchange:
  assumes "\<And>sa len. sock_ntop ntop sa len = Inr (txt sa len)" and "list_all (turn_good []) ts" and "Tcp_listen gai gse listenq K hostname servname (dy_tr s) = Ret lfd tr'"
    and "daytimetcpcli1 ntop gethostbyname getservbyname K2 peer host serv w = Ret () w'"
    and "\<And>fd. no_intr (rx (peer fd)) \<and> avail (rx (peer fd)) = day_text [] t" and "NUL \<notin> set (dt_ctime t)"
  shows "(\<exists>s'. daytimetcpsrv2 ntop gai gse listenq K hostname servname ts s = Blocked s' \<and> dy_open s' = dy_open s \<and> leaves (dy_tr s) (dy_tr s') {#fst lfd#} \<and>
      dy_out s' = dy_out s @ concat (map (turn_line txt) ts) \<and> dy_sent s' = dy_sent s @ map (\<lambda>t. (fst (turn_conn t), take 24 (dt_ctime t) @ [CR, NL])) ts) \<and>
    (\<exists>port as k fd mid. getservbyname serv = Some port \<and> (gethostbyname host = Inr as \<or> (\<exists>err a. gethostbyname host = Inl err \<and> inet_aton host = Some a \<and> as = [a])) \<and>
      k < length as \<and> dy_tr w' = dy_tr w @ mid @ [Op_socket (in_addr_ai port (as ! k)) fd, Op_connect fd (in_addr_ai port (as ! k)) 0] \<and>
      \<not> (\<exists>f a. Op_connect f a 0 \<in> set mid) \<and> leaves (dy_tr w) (dy_tr w') {#fd#} \<and>
      dy_out w' = dy_out w @ concat (map (\<lambda>a. ''trying '' @ txt (Sockaddr_in port a) 16 @ [NL]) (take (Suc k) as)) @ take 24 (dt_ctime t) @ [CR, NL])"
proof (rule conjI)
  have short: "day_text [] t = take 24 (dt_ctime t) @ [CR, NL]" for t by (simp add: day_text_def snprintf_str_def MAXLINE_def)
  have line: "Sock_ntop ntop sa len v = Ret (txt sa len) v" for sa len and v :: dayw using assms(1) by (simp add: Sock_ntop_def)
  have lv: "leaves (dy_tr s) tr' {#fst lfd#}" using tcp_listen_ready [of gai gse listenq K hostname servname "dy_tr s" "fst lfd" "snd lfd" tr'] assms(3)
    by (auto simp: Tcp_listen_def)
  show "\<exists>s'. daytimetcpsrv2 ntop gai gse listenq K hostname servname ts s = Blocked s' \<and> dy_open s' = dy_open s \<and> leaves (dy_tr s) (dy_tr s') {#fst lfd#} \<and>
      dy_out s' = dy_out s @ concat (map (turn_line txt) ts) \<and> dy_sent s' = dy_sent s @ map (\<lambda>t. (fst (turn_conn t), take 24 (dt_ctime t) @ [CR, NL])) ts"
    using day_serve_good [OF assms(2) line] assms(3) lv by (simp add: daytimetcpsrv2_def on_net_def zoom_def bindP_def short)
  from assms(4) obtain as port where a: "gethostbyname host = Inr as \<or> (\<exists>err a. gethostbyname host = Inl err \<and> inet_aton host = Some a \<and> as = [a])"
    "getservbyname serv = Some port"
    "bindP (try_addrs ntop K2 port as) (\<lambda>r. case r of None \<Rightarrow> dieP (Err_quit ''unable to connect'') | Some sockfd \<Rightarrow> copy_out (peer sockfd)) w = Ret () w'"
    unfolding daytimetcpcli1_def by (auto split: sum.splits option.splits)
  from a(3) obtain fd w1 where t: "try_addrs ntop K2 port as w = Ret (Some fd) w1" "copy_out (peer fd) w1 = Ret () w'"
    by (auto simp: dieP_def elim!: bindP_RetE split: option.splits)
  from try_addrs_first [OF t(1)] obtain mid k where m: "\<not> (\<exists>f a. Op_connect f a 0 \<in> set mid)" "opened mid = closed mid" "k < length as" "0 \<le> fd"
    "dy_tr w1 = dy_tr w @ mid @ [Op_socket (in_addr_ai port (as ! k)) fd, Op_connect fd (in_addr_ai port (as ! k)) 0]"
    "dy_out w1 = dy_out w @ concat (map (trying ntop port) (take (Suc k) as))" by auto
  have "NUL \<notin> set (avail (rx (peer fd)))" using assms(5) [of fd] assms(6) by (auto simp: short dest: in_set_takeD)
  with copy_out_prints [of "peer fd" w1] t(2) assms(5) [of fd] have w': "w' = w1\<lparr>dy_out := dy_out w1 @ take 24 (dt_ctime t) @ [CR, NL]\<rparr>"
    by (auto simp: short split: option.splits)
  have tr: "trying ntop port = (\<lambda>a. ''trying '' @ txt (Sockaddr_in port a) 16 @ [NL])" by (simp add: fun_eq_iff trying_def assms(1) del: sock_ntop.simps)
  show "\<exists>port as k fd mid. getservbyname serv = Some port \<and> (gethostbyname host = Inr as \<or> (\<exists>err a. gethostbyname host = Inl err \<and> inet_aton host = Some a \<and> as = [a])) \<and>
      k < length as \<and> dy_tr w' = dy_tr w @ mid @ [Op_socket (in_addr_ai port (as ! k)) fd, Op_connect fd (in_addr_ai port (as ! k)) 0] \<and>
      \<not> (\<exists>f a. Op_connect f a 0 \<in> set mid) \<and> leaves (dy_tr w) (dy_tr w') {#fd#} \<and>
      dy_out w' = dy_out w @ concat (map (\<lambda>a. ''trying '' @ txt (Sockaddr_in port a) 16 @ [NL]) (take (Suc k) as)) @ take 24 (dt_ctime t) @ [CR, NL]"
    using a(1,2) m w' tr by (intro exI [of _ port] exI [of _ as] exI [of _ k] exI [of _ fd] exI [of _ mid]) (simp add: leaves_def)
qed

definition ex_ctime :: string where "ex_ctime = ''Thu Jan  1 00:00:00 1970'' @ [NL]"

definition ex_turn :: dturn where
  "ex_turn = \<lparr>dt_accept = Inr (9, Sockaddr_in 0 [10, 0, 0, 1], 16), dt_ctime = ex_ctime, dt_write = (26, EOTHER 0), dt_close = (0, EOTHER 0)\<rparr>"

definition ex_day :: dayw where
  "ex_day = \<lparr>dy_tr = [], dy_out = [], dy_log = [], dy_sent = [], dy_open = []\<rparr>"

theorem daytime_exchange_witness:
  "\<exists>s' w'. daytimetcpsrv2 (\<lambda>_ _ _. Inr ''h'') ex_resolver (\<lambda>_. []) None ex_kernel None ''daytime'' [ex_turn] ex_day = Blocked s' \<and>
     dy_sent s' = [(9, take 24 ex_ctime @ [CR, NL])] \<and>
     daytimetcpcli1 (\<lambda>_ _ _. Inr ''h'') (\<lambda>_. Inr [[10, 0, 0, 1], [10, 0, 0, 2]]) (\<lambda>_. Some 0) ex_kernel (\<lambda>_. fresh_sock [Chunk (take 5 ex_ctime), Chunk (drop 5 (take 24 ex_ctime) @ [CR, NL])] [])
       ''h'' ''daytime'' ex_day = Ret () w'"
proof -
  let ?ntop = "\<lambda>_ _ _. Inr ''h'' :: errno + char list"
  let ?peer = "fresh_sock [Chunk (take 5 ex_ctime), Chunk (drop 5 (take 24 ex_ctime) @ [CR, NL])] []"
  let ?txt = "\<lambda>sa len. case sock_ntop ?ntop sa len of Inr s \<Rightarrow> s | Inl e \<Rightarrow> []"
  let ?ghb = "\<lambda>_. Inr [[10, 0, 0, 1], [10, 0, 0, 2]] :: string + byte list list"
  let ?serv = "\<lambda>_. Some 0 :: 16 word option"
  have ntop: "sock_ntop ?ntop sa len = Inr (?txt sa len)" for sa len by (cases sa) simp_all
  have text_is: "day_text [] ex_turn = take 24 ex_ctime @ [CR, NL]" by (simp add: day_text_def snprintf_str_def MAXLINE_def ex_turn_def ex_ctime_def)
  have good: "list_all (turn_good []) [ex_turn]" using text_is by (simp add: turn_good_def) (simp add: ex_turn_def ex_ctime_def)
  obtain lfd tr' where l: "Tcp_listen ex_resolver (\<lambda>_. []) None ex_kernel None ''daytime'' (dy_tr ex_day) = Ret lfd tr'"
    by (simp add: Tcp_listen_def tcp_listen_def open_first_def ex_resolver_def Let_def bindP_def sys_socket_def ex_kernel_def try_reuse_bind_def try_bind_def
        Setsockopt_def fail_neg_def void_def returnP_def sys_reuseaddr_def sys_bind_def Close_def fail_m1_def sys_close_def Listen_def sys_listen_def ex_day_def)
  have pr: "no_intr (rx ?peer)" "avail (rx ?peer) = day_text [] ex_turn" "stream_end (rx ?peer) = None"
    unfolding text_is by (simp_all add: fresh_sock_def ex_ctime_def)
  have nul: "NUL \<notin> set (dt_ctime ex_turn)" by (simp add: ex_turn_def ex_ctime_def)
  have "NUL \<notin> set (avail (rx ?peer))" unfolding pr(2) text_is by (simp add: ex_ctime_def)
  then have cp: "copy_out ?peer w = Ret () (w\<lparr>dy_out := dy_out w @ day_text [] ex_turn\<rparr>)" for w
    using copy_out_prints [OF pr(1), of w] pr(2,3) by simp
  obtain w1 where "try_addrs ?ntop ex_kernel 0 [[10, 0, 0, 1], [10, 0, 0, 2]] ex_day = Ret (Some 6) w1"
    by (simp add: bindP_def net_socket_def on_net_def zoom_def Socket_def fail_neg_def sys_socket_def Let_def ex_kernel_def ex_day_def in_addr_ai_def Sock_ntop_def
        dy_print_def try_connect_def sys_connect_def sys_close_def)
  then obtain w' where c: "daytimetcpcli1 ?ntop ?ghb ?serv ex_kernel (\<lambda>_. ?peer) ''h'' ''daytime'' ex_day = Ret () w'"
    using cp by (simp add: daytimetcpcli1_def bindP_def)
  from daytime_exchange [OF ntop good l c conjI [OF pr(1,2)] nul] obtain s' where
    "daytimetcpsrv2 ?ntop ex_resolver (\<lambda>_. []) None ex_kernel None ''daytime'' [ex_turn] ex_day = Blocked s'"
    "dy_sent s' = dy_sent ex_day @ map (\<lambda>t. (fst (turn_conn t), take 24 (dt_ctime t) @ [CR, NL])) [ex_turn]" by blast
  with c show ?thesis by (intro exI [of _ s'] exI [of _ w']) (simp add: ex_day_def turn_conn_def ex_turn_def)
qed

end
