(* ===== verification/Load_Test.thy ===== *)
theory Load_Test
  imports Sum_Service Net_Open
begin

text \<open>
  The load test \<^verbatim>\<open>test_client\<close> of \<^verbatim>\<open>4_client_server_model.c\<close>: children that connect again and again, ask the server for a number of bytes and count what they get.
  Its server is \<^verbatim>\<open>web_child\<close> (theory \<open>Requests\<close>), with which it is composed here.
\<close>

section \<open>The client\<close>

text \<open>
  What \<^verbatim>\<open>Tcp_connect\<close> gives in one round is a connection or the error it dies of. \<open>lt_sent\<close> collects what was written, per connection, and \<open>lt_open\<close> the
  connections that were not closed. \<^verbatim>\<open>Close\<close> is taken to succeed.
\<close>

record ltest =
  lt_sent :: "string list"
  lt_open :: nat
  lt_out :: string

definition request_text :: "int \<Rightarrow> string" where
  "request_text nbytes = snprintf_str MAXLINE (dec_int nbytes @ [NL])"

text \<open>\<^verbatim>\<open>Readn\<close> takes the \<^verbatim>\<open>int\<close> as a size; a negative one becomes a huge size and takes everything.\<close>

definition ask_size :: "int \<Rightarrow> nat" where
  "ask_size nbytes = nat (nbytes mod 2 ^ 64)"

definition test_round :: "int \<Rightarrow> sockd \<Rightarrow> (unit, ltest) prog" where
  "test_round nbytes d w =
     (case write_sock (request_text nbytes) d of
        (Inl e, d1) \<Rightarrow> Die (Err_sys ''write error'' (Some e)) (w\<lparr>lt_open := Suc (lt_open w)\<rparr>)
      | (Inr k, d1) \<Rightarrow>
          if k \<noteq> length (request_text nbytes) then Die (Err_sys ''write error'' None) (w\<lparr>lt_open := Suc (lt_open w), lt_sent := lt_sent w @ [sent d1]\<rparr>)
          else (case Readn (ask_size nbytes) d1 of
                  Ret (n, reply) d2 \<Rightarrow>
                    if int n \<noteq> nbytes then Die (Err_quit (''server returned '' @ dec_nat n @ '' bytes'')) (w\<lparr>lt_open := Suc (lt_open w), lt_sent := lt_sent w @ [sent d2]\<rparr>)
                    else Ret () (w\<lparr>lt_sent := lt_sent w @ [sent d2]\<rparr>)
                | Die f d2 \<Rightarrow> Die f (w\<lparr>lt_open := Suc (lt_open w), lt_sent := lt_sent w @ [sent d2]\<rparr>)
                | Blocked d2 \<Rightarrow> Blocked w))"

text \<open>One child: \<open>conns\<close> holds the results of \<^verbatim>\<open>Tcp_connect\<close>, one for each of its \<^verbatim>\<open>nloops\<close> rounds.\<close>

fun test_child :: "nat \<Rightarrow> int \<Rightarrow> (fatal + sockd) list \<Rightarrow> (unit, ltest) prog" where
  "test_child i nbytes [] w = Ret () (w\<lparr>lt_out := lt_out w @ ''child '' @ dec_nat i @ '' done'' @ [NL]\<rparr>)"
| "test_child i nbytes (Inl f # cs) w = Die f w"
| "test_child i nbytes (Inr d # cs) w = bindP (test_round nbytes d) (\<lambda>_. test_child i nbytes cs) w"

text \<open>
  The parent forks \<^verbatim>\<open>nchildren\<close> times, then waits until \<^verbatim>\<open>wait\<close> fails. \<open>forks\<close> and \<open>waits\<close> are the results of these calls (a failed \<^verbatim>\<open>fork\<close> ends the
  parent); its state is the list of the children made.
\<close>

fun test_forks :: "nat \<Rightarrow> (errno + nat) list \<Rightarrow> (unit, nat list) prog" where
  "test_forks 0 forks ps = Ret () ps"
| "test_forks (Suc n) [] ps = Blocked ps"
| "test_forks (Suc n) (Inl e # fs) ps = Die (Err_sys ''fork error'' (Some e)) ps"
| "test_forks (Suc n) (Inr pid # fs) ps = test_forks n fs (ps @ [pid])"

fun test_waits :: "(errno + nat) list \<Rightarrow> (unit, nat list) prog" where
  "test_waits [] ps = Blocked ps"
| "test_waits (Inr pid # ws) ps = test_waits ws (remove1 pid ps)"
| "test_waits (Inl e # ws) ps = (if e = ECHILD then Ret () ps else Die (Err_sys ''wait error'' (Some e)) ps)"

definition test_client :: "nat \<Rightarrow> (errno + nat) list \<Rightarrow> (errno + nat) list \<Rightarrow> (int, nat list) prog" where
  "test_client nchildren forks waits =
     bindP (test_forks nchildren forks) (\<lambda>_. bindP (test_waits waits) (\<lambda>_. returnP 0))"

section \<open>The client and its server\<close>

lemma atol_dec:
  assumes "- (2 ^ 63) \<le> n" and "n < 2 ^ 63"
  shows "atol (dec_int n @ [NL, NUL]) = n"
proof -
  have dig: "NUL \<notin> set (dec_int n)" using set_dec_nat [of "nat (- n)"] set_dec_nat [of "nat n"] by (auto simp: dec_int_def digit_chars_def)
  then have cs: "c_str (dec_int n @ [NL, NUL]) = dec_int n @ [NL]" using c_str_terminated [of "dec_int n @ [NL]" "[]"] by simp
  have nd: "no_digit [NL]" by (simp add: no_digit_def digit_chars_def)
  have clamp: "max (- (2 ^ 63)) (min (2 ^ 63 - 1) n) = n" using assms by simp
  show ?thesis
  proof (cases "n < 0")
    case True
    then have d: "dec_int n = CHR ''-'' # dec_nat (nat (- n))" by (simp add: dec_int_def)
    moreover have "- digits_val (dec_nat (nat (- n)) @ [NL]) = n" using digits_val_dec [OF nd] True by simp
    ultimately show ?thesis using clamp unfolding atol_def Let_def cs by (simp add: is_space_def)
  next
    case False
    obtain c u where c: "dec_nat (nat n) = c # u" "c \<in> set digit_chars" by (rule dec_nat_Cons)
    have "digits_val (c # u @ [NL]) = n" using digits_val_dec [OF nd, of "nat n"] False c(1) by simp
    then show ?thesis using clamp digit_not_sign [OF c(2)] c False unfolding atol_def Let_def cs by (simp add: dec_int_def)
  qed
qed

lemma dec_int_width: "\<bar>n\<bar> < 10 ^ k \<Longrightarrow> 0 < k \<Longrightarrow> length (dec_int n) \<le> Suc k"
proof -
  have len: "length (dec_nat n) \<le> k" if "n < 10 ^ k" "0 < k" for n k
    using that
  proof (induction k arbitrary: n)
    case (Suc k)
    show ?case
    proof (cases "n < 10 \<or> k = 0")
      case True
      with Suc.prems show ?thesis by (auto simp: dec_nat.simps [of n])
    next
      case False
      have "n div 10 < 10 ^ k" using Suc.prems(1) by (simp add: less_mult_imp_div_less mult.commute)
      with Suc.IH [of "n div 10"] False show ?thesis by (simp add: dec_nat.simps [of n])
    qed
  qed simp
  assume "\<bar>n\<bar> < 10 ^ k" "0 < k"
  then have "nat \<bar>n\<bar> < 10 ^ k" by (metis nat_less_iff abs_ge_zero of_nat_numeral of_nat_power)
  from len [OF this \<open>0 < k\<close>] show ?thesis by (cases "n < 0") (simp_all add: dec_int_def)
qed

lemma request_text_line:
  assumes "- (2 ^ 31) \<le> n" and "n < 2 ^ 31"
  shows "request_text n = dec_int n @ [NL]" and "text_line (dec_int n @ [NL])"
proof -
  have len: "length (dec_int n) \<le> 11" using dec_int_width [of n 10] assms by simp
  then show "request_text n = dec_int n @ [NL]" by (simp add: request_text_def snprintf_str_def MAXLINE_def)
  have "NL \<notin> set (dec_int n)" using set_dec_nat [of "nat (- n)"] set_dec_nat [of "nat n"] by (auto simp: dec_int_def digit_chars_def)
  with len show "text_line (dec_int n @ [NL])" by (simp add: text_line_def MAXLINE_def)
qed

lemma web_child_end:
  assumes "rl_wf s" and "rl_stream s = []" and "rl_ending s = None"
  shows "\<exists>s'. web_child result s = Ret () s' \<and> sent (snd s') = sent (snd s)"
proof -
  obtain x stored s' where rl: "readline MAXLINE s = (x, stored, s')" by (metis prod_cases3)
  then have "line_spec lib_eof (MAXLINE - 1) 1 [] [] None = (x, stored)" using readline_correct [OF assms(1) rl] assms(2,3) by simp
  moreover have "take_line k [] = ([], [])" for k by (cases k) auto
  moreover have "MAXLINE - 1 \<noteq> 0" by (simp add: MAXLINE_def)
  ultimately have "x = Inr 0" by (simp add: line_spec_def lib_eof_def Let_def)
  moreover have "same_tx (snd s) (snd s')" using rl readline_loop_tx [of s lib_eof "MAXLINE - 1" 1 "[]"] by (simp add: readline_def)
  ultimately show ?thesis using rl by (subst web_child.simps) (simp add: Readline_def bindP_def same_tx_def)
qed

lemma web_child_request:
  assumes "- (2 ^ 31) \<le> n" and "n < 2 ^ 31" and "avail (rx d) = request_text n" and "stream_end (rx d) = None" and "tx_live (tx d)"
  shows "if 0 < n \<and> n \<le> int MAXN then \<exists>s'. web_child result (rl_init, d) = Ret () s' \<and> sent (snd s') = sent d @ take (nat n) result
     else \<exists>s'. web_child result (rl_init, d) = Die (Err_quit (''client request for '' @ dec_int n @ '' bytes'')) s' \<and> sent (snd s') = sent d"
proof -
  let ?s = "(rl_init, d)" and ?l = "dec_int n @ [NL]"
  note rt = request_text_line [OF assms(1,2)]
  have st: "rl_stream ?s = ?l" "rl_ending ?s = None" using assms(3,4) rt(1) by (simp_all add: rl_ending_def)
  have tl: "take_line (MAXLINE - 1) (rl_stream ?s) = (?l, [])" using take_line_text_line [OF rt(2), of "[]"] st(1) by simp
  have ne: "rl_stream ?s \<noteq> []" unfolding st(1) by simp
  obtain k s1 where k: "Readline MAXLINE ?s = Ret (k, ?l @ [NUL]) s1" "0 < k" "rl_wf s1" "same_tx (snd ?s) (snd s1)" "rl_stream s1 = []" "rl_ending s1 = None"
    by (rule Readline_line [OF rl_wf_init ne st(2) tl], rule that) auto
  have num: "to_int32 (atol (?l @ [NUL])) = n"
    using atol_dec [of n] assms(1,2) by (simp add: to_int32_def signed_take_bit_int_eq_self)
  show ?thesis
  proof (cases "0 < n \<and> n \<le> int MAXN")
    case True
    have live: "tx_live (tx (snd s1))" using k(4) assms(5) by (simp add: same_tx_def)
    obtain d1 where d1: "Writen (take (nat n) result) (snd s1) = Ret () d1" "sent d1 = sent (snd s1) @ take (nat n) result" "rx d1 = rx (snd s1)" "fin d1 = fin (snd s1)" "tx_live (tx d1)"
      using Writen_live [OF live] .
    have "web_child result ?s = web_child result (fst s1, d1)"
      using k(1,2) num True d1(1) by (subst web_child.simps) (simp add: Let_def on_sock_def zoom_def)
    moreover have "rl_wf (fst s1, d1)" "rl_stream (fst s1, d1) = []" "rl_ending (fst s1, d1) = None"
      using k(3,5,6) d1(3) by (simp_all add: rl_wf_def rl_stream_def rl_ending_def)
    ultimately show ?thesis using True web_child_end [of "(fst s1, d1)" result] d1(2) k(4) by (auto simp: same_tx_def)
  next
    case False
    then have "web_child result ?s = Die (Err_quit (''client request for '' @ dec_int n @ '' bytes'')) s1"
      using k(1,2) num by (subst web_child.simps) (auto simp: Let_def)
    then show ?thesis using False k(4) by (auto simp: same_tx_def)
  qed
qed

lemma ask_size_zero:
  assumes "- (2 ^ 31) \<le> n" and "n < 2 ^ 31" and "n \<noteq> 0"
  shows "ask_size n \<noteq> 0"
proof (cases "0 < n")
  case True
  then show ?thesis using assms(2) by (simp add: ask_size_def)
next
  case False
  then have "n mod 2 ^ 64 = n + 2 ^ 64" using assms(1,3) mod_add_self2 [of n "2 ^ 64"] mod_pos_pos_trivial [of "n + 2 ^ 64" "2 ^ 64"] by simp
  then show ?thesis using assms(1) by (simp add: ask_size_def)
qed

text \<open>
  C39. A round of the load test against its server, for any number of bytes that an \<^verbatim>\<open>int\<close> holds and however the two connections are cut: the server gets the very number
  asked for. From 1 to \<^verbatim>\<open>MAXN\<close> bytes the round succeeds and the server returns. For any other number the server ends with an error that names it; the client ends
  with an error as well, except that a request for 0 bytes counts as fulfilled.
\<close>

theorem load_test_exchange:
  assumes "- (2 ^ 31) \<le> nbytes" and "nbytes < 2 ^ 31" and "length result = MAXN"
    and "avail (rx s) = request_text nbytes" and "stream_end (rx s) = None" and "tx_live (tx s)" and "sent s = []"
    and "tx d = []" and "sent d = []" and "avail (rx d) = sent (snd (final_state (web_child result (rl_init, s))))" and "stream_end (rx d) = None"
  shows "(if 0 < nbytes \<and> nbytes \<le> int MAXN then \<exists>s'. web_child result (rl_init, s) = Ret () s'
      else \<exists>s'. web_child result (rl_init, s) = Die (Err_quit (''client request for '' @ dec_int nbytes @ '' bytes'')) s') \<and>
    (if 0 \<le> nbytes \<and> nbytes \<le> int MAXN then test_round nbytes d w = Ret () (w\<lparr>lt_sent := lt_sent w @ [request_text nbytes]\<rparr>)
     else \<exists>w'. test_round nbytes d w = Die (Err_quit ''server returned 0 bytes'') w')"
proof (rule conjI)
  note wc = web_child_request [OF assms(1,2,4,5,6), of result]
  show "if 0 < nbytes \<and> nbytes \<le> int MAXN then \<exists>s'. web_child result (rl_init, s) = Ret () s'
      else \<exists>s'. web_child result (rl_init, s) = Die (Err_quit (''client request for '' @ dec_int nbytes @ '' bytes'')) s'"
    using wc by (auto split: if_splits)
  have av: "avail (rx d) = (if 0 < nbytes \<and> nbytes \<le> int MAXN then take (nat nbytes) result else [])"
    using wc assms(7,10) by (auto split: if_splits)
  obtain d1 where d1: "write_sock (request_text nbytes) d = (Inr (length (request_text nbytes)), d1)" "rx d1 = rx d" "sent d1 = request_text nbytes"
    using assms(8,9) by (simp add: write_sock_def)
  have sd: "sent d2 = sent d1" if "readn n d1 = (r, bs, d2)" for n r bs d2
    using readn_loop_spec [of n n "[]" d1] that by (simp add: readn_def readn_post_def)
  show "if 0 \<le> nbytes \<and> nbytes \<le> int MAXN then test_round nbytes d w = Ret () (w\<lparr>lt_sent := lt_sent w @ [request_text nbytes]\<rparr>)
     else \<exists>w'. test_round nbytes d w = Die (Err_quit ''server returned 0 bytes'') w'"
  proof (cases "0 \<le> nbytes \<and> nbytes \<le> int MAXN")
    case True
    have k: "ask_size nbytes = nat nbytes" using True assms(2) by (simp add: ask_size_def)
    have "ask_size nbytes \<le> length (avail (rx d1))" using True d1(2) av assms(3) k by (cases "nbytes = 0") auto
    from readn_full [OF this] obtain d2 where d2: "readn (ask_size nbytes) d1 = (Inr (ask_size nbytes), take (ask_size nbytes) (avail (rx d1)), d2)" by metis
    have "test_round nbytes d w = Ret () (w\<lparr>lt_sent := lt_sent w @ [request_text nbytes]\<rparr>)"
      using True d1(1,3) d2 k sd [OF d2] by (simp add: test_round_def Readn_def)
    then show ?thesis unfolding if_P [OF True] .
  next
    case False
    then have "\<not> (0 < nbytes \<and> nbytes \<le> int MAXN)" by linarith
    then have "avail (rx d1) = []" unfolding d1(2) av by (simp only: if_False)
    moreover have "ask_size nbytes \<noteq> 0" using ask_size_zero [of nbytes] False assms(1,2) by auto
    ultimately have "length (avail (rx d1)) < ask_size nbytes" by simp
    from readn_short [OF this] obtain d2 where d2: "readn (ask_size nbytes) d1 = (Inr 0, [], d2)"
      using assms(11) d1(2) \<open>avail (rx d1) = []\<close> by auto
    have zero: "dec_nat 0 = ''0''" by (simp add: dec_nat.simps [of 0] digit_chars_def)
    have "nbytes \<noteq> 0" using False by (auto simp: MAXN_def)
    then have "\<exists>w'. test_round nbytes d w = Die (Err_quit ''server returned 0 bytes'') w'"
      using d1(1) d2 by (simp add: test_round_def Readn_def zero)
    then show ?thesis unfolding if_not_P [OF False] .
  qed
qed

theorem load_test_exchange_witness:
  "let result = replicate MAXN CHR ''x''; s = fresh_sock [Chunk ''3'', Chunk [NL]] []; d = fresh_sock [Chunk ''x'', Chunk ''xx''] []
   in (\<exists>s'. web_child result (rl_init, s) = Ret () s') \<and>
      test_round 3 d \<lparr>lt_sent = [], lt_open = 0, lt_out = []\<rparr> = Ret () \<lparr>lt_sent = [request_text 3], lt_open = 0, lt_out = []\<rparr>"
proof -
  let ?result = "replicate MAXN CHR ''x''"
  let ?s = "fresh_sock [Chunk ''3'', Chunk [NL]] []"
  let ?d = "fresh_sock [Chunk ''x'', Chunk ''xx''] []"
  let ?w = "\<lparr>lt_sent = [], lt_open = 0, lt_out = []\<rparr>"
  have req: "avail (rx ?s) = request_text 3"
    by (simp add: fresh_sock_def request_text_def snprintf_str_def MAXLINE_def dec_int_def dec_nat.simps [of 3] digit_chars_def)
  have "3 \<le> int MAXN" by (simp add: MAXN_def)
  then obtain s' where "web_child ?result (rl_init, ?s) = Ret () s'" "sent (snd s') = take 3 ?result"
    using web_child_request [of 3 ?s ?result] req by (auto simp: fresh_sock_def tx_live_def)
  moreover have "take 3 ?result = ''xxx''" by (simp add: MAXN_def numeral_eq_Suc [of num.One] numeral_3_eq_3)
  ultimately have reply: "avail (rx ?d) = sent (snd (final_state (web_child ?result (rl_init, ?s))))" by (simp add: fresh_sock_def)
  have "(if (0 :: int) < 3 \<and> 3 \<le> int MAXN then \<exists>s'. web_child ?result (rl_init, ?s) = Ret () s'
      else \<exists>s'. web_child ?result (rl_init, ?s) = Die (Err_quit (''client request for '' @ dec_int 3 @ '' bytes'')) s') \<and>
    (if (0 :: int) \<le> 3 \<and> 3 \<le> int MAXN then test_round 3 ?d ?w = Ret () (?w\<lparr>lt_sent := lt_sent ?w @ [request_text 3]\<rparr>)
     else \<exists>w'. test_round 3 ?d ?w = Die (Err_quit ''server returned 0 bytes'') w')"
    by (rule load_test_exchange) (use req reply in \<open>simp_all add: fresh_sock_def tx_live_def\<close>)
  with \<open>3 \<le> int MAXN\<close> show ?thesis unfolding Let_def by (simp add: if_P)
qed

text \<open>The parent returns 0 after it has waited for every child it made, and makes as many as asked.\<close>

lemma test_forks_all: "test_forks n (map Inr pids @ fs) ps = (if n \<le> length pids then Ret () (ps @ take n pids) else test_forks (n - length pids) fs (ps @ pids))"
proof (induction pids arbitrary: n ps)
  case (Cons p pids)
  then show ?case by (cases n) auto
qed simp

lemma test_waits_all:
  "test_waits (map Inr pids @ [Inl ECHILD]) ps = Ret () (foldl (\<lambda>qs p. remove1 p qs) ps pids)"
  by (induction pids arbitrary: ps) auto

lemma test_client_reaps:
  assumes "length pids = n" and "distinct pids" and "distinct order" and "set order = set pids"
  shows "test_client n (map Inr pids) (map Inr order @ [Inl ECHILD]) [] = Ret 0 []"
proof -
  have "set (foldl (\<lambda>qs p. remove1 p qs) qs order') = set qs - set order'" if "distinct qs" for qs order' :: "nat list"
    using that by (induction order' arbitrary: qs) auto
  then have "foldl (\<lambda>qs p. remove1 p qs) pids order = []" using assms(2,4) by (metis Diff_cancel set_empty)
  then show ?thesis
    using assms(1) test_forks_all [of n pids "[]" "[]"] test_waits_all [of order pids] by (simp add: test_client_def returnP_def)
qed

end
