(* ===== verification/Spec2Isabelle.thy ===== *)
theory Spec2Isabelle
  imports Dg_Send_Recv In_Cksum Net_Open Requests Select_Server Str_Cli_Nonb Thread_Pool Prefork Fork_Servers Poll_Server Select_Client Fd_Pass Sock_Opts Datagrams Sigio_Echo Web_Nonb Web_Threads Icmpd Traceroute Gai_Names Ping Route Raw_Udp Heartbeat Sock_Loop Sock_Open Tell_Wait Bcast Thread_Examples Web_Joins Pf_Key Ifi_Ioctl Sum_Service Daytime Load_Test
begin

text \<open>
  Verification of the network programming code of this repository: the author's library and servers under
  \<^verbatim>\<open>src/unp/src/\<close> (\<^verbatim>\<open>lib.c\<close>, \<^verbatim>\<open>error.c\<close>, \<^verbatim>\<open>2_basic_socket.c\<close>, \<^verbatim>\<open>4_client_server_model.c\<close>) and the programs of the book
  they are taken from, under \<^verbatim>\<open>src/unpv13e_src_code/\<close>.

  \<^bold>\<open>The program.\<close> A library of wrappers, byte and line readers, address conversions and connection helpers carries clients and servers of many designs: echo clients
  driven by \<^verbatim>\<open>select\<close> or nonblocking buffers, iterative, forking, preforked and prethreaded servers, single-process servers on \<^verbatim>\<open>select\<close> and \<^verbatim>\<open>poll\<close>,
  datagram clients with retransmission, signal-driven servers, web clients with nonblocking connects or threads, and programs that parse
  ICMP packets. They share descriptors and addresses; what the kernel and the peers do is decided outside.

  \<^bold>\<open>How it is modelled.\<close> A function over a state is a \<open>prog\<close> (theory \<open>Prelude\<close>): it returns, it ends the process with one of the fatal routines, or it blocks. The kernel
  is an argument: a script of events for a stream (\<open>Unix_IO\<close>), a record of answers for one turn of a server, or, for several threads, processes and signal handlers, a step relation
  in which each step is one access to shared state. A theorem over all scripts, answers or steps is one over all segmentations, errors and interleavings. Code outside
  \<^verbatim>\<open>src/\<close> (the kernel, \<^verbatim>\<open>getaddrinfo\<close>, libraries) is always a parameter; what is needed of it is a hypothesis of the theorem. C integers are words where they can wrap
  and integers otherwise; addresses and ports are bytes and 16-bit words in network order. Messages that only report progress are left out.

  \<^bold>\<open>The theories.\<close>

  \<^item> \<open>Prelude\<close>, \<open>Unix_IO\<close>, \<open>Locking\<close>, \<open>Fifo\<close>, \<open>Ready_Scan\<close>, \<open>Rounding\<close>, \<open>File_Table\<close>, \<open>Icmp_Headers\<close>: shared vocabulary, and the interfaces as locales: \<open>lock_protocol\<close> (who is in the critical region owns the lock),
    \<open>fifo\<close> (a bounded queue), \<open>ready_table\<close> (serving one entry does not change which others are ready), \<open>web_table\<close> (files and counters). Each is interpreted on
    the definitions of the programs that provide it.
  \<^item> \<open>Io_Lib\<close> and \<open>Line_Io\<close>: \<^verbatim>\<open>readn\<close>, \<^verbatim>\<open>writen\<close> and the four versions of \<^verbatim>\<open>readline\<close> (\<^verbatim>\<open>lib.c\<close>, \<^verbatim>\<open>server/\<close>, \<^verbatim>\<open>threads/\<close>). They are proved against the abstract stream of a descriptor.
  \<^item> \<open>Inet4\<close>, \<open>Inet6\<close>, \<open>In_Cksum\<close>: \<^verbatim>\<open>inet_pton\<close>, \<^verbatim>\<open>inet_ntop\<close>, \<^verbatim>\<open>inet_aton\<close> and \<^verbatim>\<open>in_cksum\<close> of \<^verbatim>\<open>libfree/\<close>: round trips, reference parsers, the one's complement sum.
  \<^item> \<open>Rtt\<close>, \<open>Dg_Send_Recv\<close>: the retransmission timer \<^verbatim>\<open>lib/rtt.c\<close> with its float roundings and the reliable datagram client \<^verbatim>\<open>rtt/dg_send_recv.c\<close>: bounds of the estimators, termination, which replies are accepted.
  \<^item> \<open>Errors\<close>, \<open>Wrappers\<close>, \<open>Sockaddr\<close>, \<open>Net_Open\<close>: \<^verbatim>\<open>error.c\<close>, the error-checking wrappers, the \<^verbatim>\<open>sock_*\<close> functions and the loops over addresses of \<^verbatim>\<open>lib.c\<close>, and \<^verbatim>\<open>daemon_init\<close>: buffers that fit, texts that determine addresses, no descriptor left open.
  \<^item> \<open>Echo\<close>, \<open>Requests\<close>, \<open>Select_Client\<close>, \<open>Str_Cli_Nonb\<close>, \<open>Datagrams\<close>, \<open>Sock_Opts\<close>: the echo service, binary requests, the clients and servers of \<^verbatim>\<open>2_basic_socket.c\<close> and \<^verbatim>\<open>nonblock/strclinonb.c\<close>: what is sent and printed, as functions of what was read.
  \<^item> \<open>Select_Server\<close>, \<open>Poll_Server\<close>, \<open>Icmpd\<close>: servers that count ready descriptors down (\<^verbatim>\<open>2_basic_socket.c\<close>, \<^verbatim>\<open>icmpd/\<close>). Each is proved equal to the server without the shortcut, by the same lemma of \<open>ready_table\<close>; for the daemon also who is told of an ICMP error.
  \<^item> \<open>Fork_Servers\<close>, \<open>Prefork\<close>, \<open>Fd_Pass\<close>, \<open>Thread_Pool\<close>: the server designs of \<^verbatim>\<open>4_client_server_model.c\<close> and \<^verbatim>\<open>server/\<close>, as step relations with invariants by rule induction: descriptors and zombies, exclusion in \<^verbatim>\<open>accept\<close>, connections handed out once, no lost wakeup.
  \<^item> \<open>Sigio_Echo\<close>: \<^verbatim>\<open>sigio/dgecho01.c\<close>; the handler interrupts the main loop wherever the signal mask lets it.
  \<^item> \<open>Web_Nonb\<close>, \<open>Web_Threads\<close>: \<^verbatim>\<open>nonblock/web.c\<close> and \<^verbatim>\<open>threads/web03.c\<close>; for the second, that its only deadlock is a join under the mutex, and that it happens.
  \<^item> \<open>Timeval\<close>, \<open>Traceroute\<close>, \<open>Ping\<close>: \<^verbatim>\<open>traceroute/\<close> and \<^verbatim>\<open>ping/\<close>; which packets answer a probe, which probes are sent, and that an echoed request is reported with its sequence number and the time that passed.
  \<^item> \<open>Getaddrinfo\<close>, \<open>Gai_Reference\<close>, \<open>Gai_Names\<close>: the resolver of \<^verbatim>\<open>libgai/\<close>. The first theory holds the functions, over a state that counts allocated blocks; the second proves them equal to a reference resolver,
    bounds the memory that errors leave behind and types the result; the third composes it with \<^verbatim>\<open>getnameinfo\<close> and the address conversions of \<^verbatim>\<open>libfree/\<close>, through the locale \<open>numeric_names\<close>.
  \<^item> \<open>Route\<close>: \<^verbatim>\<open>libroute/\<close> and \<^verbatim>\<open>route/get_ifi_info.c\<close>; taking routing messages apart, the functions on interface names, and the list of interfaces against one built interface by interface.
  \<^item> \<open>Raw_Udp\<close>, \<open>Source_Route\<close>: \<^verbatim>\<open>udpcksum/\<close> and the source route options of \<^verbatim>\<open>ipopts/\<close> and \<^verbatim>\<open>sock/\<close>; packets and options built by hand have the layout of the protocols, verify, fit, and are read back.
  \<^item> \<open>Heartbeat\<close>: \<^verbatim>\<open>oob/heartbeatcli.c\<close> and \<^verbatim>\<open>oob/heartbeatserv.c\<close>, as two interpretations of the locale \<open>watchdog\<close>; when exactly they give up.
  \<^item> \<open>Sock_Util\<close>, \<open>Sock_Loop\<close>, \<open>Sock_Open\<close>, \<open>Tell_Wait\<close>: the traffic tool \<^verbatim>\<open>sock/\<close>. Its conversions and ways of writing, the loops that copy (two connected tools copy the input of one to the output of the
    other), how the socket is opened and configured, and the handshake by signals between the server and its children, which is safe for the first child only.

  \<^item> \<open>Sum_Service\<close>, \<open>Daytime\<close>, \<open>Load_Test\<close>: the remaining services of \<^verbatim>\<open>2_basic_socket.c\<close> and the load test of \<^verbatim>\<open>4_client_server_model.c\<close>, each client composed with its server.
  \<^item> \<open>Bcast\<close>: the six broadcast clients of \<^verbatim>\<open>bcast/\<close>; what each needs for its time-out never to be lost is the locale \<open>one_alarm\<close>, interpreted for the three that have it; the others can wait for ever.
  \<^item> \<open>Thread_Examples\<close>, \<open>Web_Joins\<close>: \<^verbatim>\<open>threads/example01.c\<close> to \<^verbatim>\<open>example03.c\<close>, \<^verbatim>\<open>web01.c\<close>, \<^verbatim>\<open>web02.c\<close>; the counter with and without a mutex, the bounded buffer as \<open>fifo\<close>, and the two ways to wait for a thread, of which one loses threads.
  \<^item> \<open>Pf_Key\<close>: \<^verbatim>\<open>key/\<close>; messages of a key socket built and printed, and when printing never ends.
  \<^item> \<open>Ifi_Ioctl\<close>: \<^verbatim>\<open>lib/get_ifi_info.c\<close> and \<^verbatim>\<open>ioctl/prifinfo.c\<close>; the growing buffer and the pass over its records, against a description interface by interface.

  \<^bold>\<open>Loops.\<close> Loops of the code are total functions, by recursion on the script or with a measure (bytes left and events left for the readers, files left to start, hops left); the two loops that need not end, \<open>ext_loop\<close> of \<open>Pf_Key\<close> and \<open>ifconf_loop\<close> of \<open>Ifi_Ioctl\<close>, are partial functions whose result \<open>None\<close> is not returning. There is no fuel. A server's
  endless loop runs over the list of its turns and ends \<open>Blocked\<close> when the list does. Constants are those of the code (\<^verbatim>\<open>MAXLINE\<close> 4096, \<^verbatim>\<open>FD_SETSIZE\<close> 1024, \<^verbatim>\<open>MAXNCLI\<close> 32, \<^verbatim>\<open>QSIZE\<close> 8, \<^verbatim>\<open>BUFSIZE\<close> 1500).

  \<^bold>\<open>Not modelled.\<close> The copies of the library under \<^verbatim>\<open>src/unpv13e_src_code/lib/\<close> (the same functions as \<^verbatim>\<open>lib.c\<close>), headers and argument parsing; programs that consist of calls into the kernel or
  into libraries outside the repository (SCTP, STREAMS, opening a packet capture, multicast); \<^verbatim>\<open>libfree/getaddrinfo.c\<close> and \<^verbatim>\<open>ping/bsdping.c\<close>, which the build does not use; the command line of \<^verbatim>\<open>sock\<close>; tests.
\<close>

end
